(* ===== verification/Prelude.thy ===== *)
theory Prelude
  imports Main "HOL-Library.Word" "HOL-Library.Monad_Syntax" "HOL-Library.Signed_Division"
begin

unbundle bit_operations_syntax

text \<open>
  Shared vocabulary of the development: machine integers, Rust slices whose
  out-of-range access is a panic, checked and saturating arithmetic, and the
  little-endian byte codecs with the interface they satisfy.

  A Rust function that can panic is a function into \<open>option\<close>: \<open>None\<close> is the
  panic. A function that returns \<open>Result\<close> is a function into a sum whose left
  part is the error. The two compose: \<open>(error + 'a) option\<close>.
\<close>

named_theorems books "equations of the byte and credit accounts"

type_synonym u8 = "8 word"
type_synonym u32 = "32 word"
type_synonym u64 = "64 word"
type_synonym u128 = "128 word"
type_synonym ('e, 'a) rust_result = "('e + 'a) option"

abbreviation (input) Panic :: "'a option" where "Panic \<equiv> None"
abbreviation (input) Ok :: "'a \<Rightarrow> ('e, 'a) rust_result" where "Ok a \<equiv> Some (Inr a)"
abbreviation (input) Err :: "'e \<Rightarrow> ('e, 'a) rust_result" where "Err e \<equiv> Some (Inl e)"

text \<open>An early return of an error is no success: what is left is the continuation.\<close>

lemma if_Err_eq_Ok [simp]: "(if c then Err e else k) = Ok r \<longleftrightarrow> \<not> c \<and> k = Ok r"
  by simp

lemma case_Err_eq_Ok [simp]:
  "(case x of None \<Rightarrow> k | Some e \<Rightarrow> Err (f e)) = Ok r \<longleftrightarrow> x = None \<and> k = Ok r"
  by (cases x) simp_all

section \<open>Slices\<close>

text \<open>\<open>xs[i]\<close>, \<open>&xs[a..b]\<close> and \<open>xs[a..a + n].copy_from_slice(vs)\<close>.\<close>

definition idx :: "'a list \<Rightarrow> nat \<Rightarrow> 'a option" where
  "idx xs i = (if i < length xs then Some (xs ! i) else Panic)"

definition slice :: "'a list \<Rightarrow> nat \<Rightarrow> nat \<Rightarrow> 'a list option" where
  "slice xs a b = (if a \<le> b \<and> b \<le> length xs then Some (take (b - a) (drop a xs)) else Panic)"

definition put_slice :: "'a list \<Rightarrow> nat \<Rightarrow> 'a list \<Rightarrow> 'a list option" where
  "put_slice xs a vs =
     (if a + length vs \<le> length xs
      then Some (take a xs @ vs @ drop (a + length vs) xs) else Panic)"

lemma idx_Some [simp]: "i < length xs \<Longrightarrow> idx xs i = Some (xs ! i)"
  by (simp add: idx_def)

lemma idx_None_iff [simp]: "idx xs i = None \<longleftrightarrow> length xs \<le> i"
  by (simp add: idx_def)

lemma idx_eq_Some_iff: "idx xs i = Some x \<longleftrightarrow> i < length xs \<and> xs ! i = x"
  by (auto simp: idx_def)

lemma slice_Some [simp]:
  "a \<le> b \<Longrightarrow> b \<le> length xs \<Longrightarrow> slice xs a b = Some (take (b - a) (drop a xs))"
  by (simp add: slice_def)

lemma slice_eq_Some_iff:
  "slice xs a b = Some ys \<longleftrightarrow> a \<le> b \<and> b \<le> length xs \<and> ys = take (b - a) (drop a xs)"
  by (auto simp: slice_def)

lemma put_slice_length: "put_slice xs a vs = Some ys \<Longrightarrow> length ys = length xs"
  by (auto simp: put_slice_def split: if_splits)

lemma put_slice_here:
  "length old = length vs \<Longrightarrow> a = length pre \<Longrightarrow>
   put_slice (pre @ old @ post) a vs = Some (pre @ vs @ post)"
  by (simp add: put_slice_def)

section \<open>Updating lists\<close>

text \<open>How many elements satisfy a predicate after one was replaced.\<close>

lemma length_filter_update:
  "i < length ts \<Longrightarrow>
   length (filter P (ts[i := x])) + (if P (ts ! i) then 1 else 0) =
   length (filter P ts) + (if P x then 1 else (0::nat))"
proof (induction ts arbitrary: i)
  case (Cons t ts)
  then show ?case by (cases i) auto
qed simp

section \<open>Checked and saturating arithmetic\<close>

definition checked_add :: "'a::len word \<Rightarrow> 'a word \<Rightarrow> 'a word option" where
  "checked_add x y = (if unat x + unat y < 2 ^ LENGTH('a) then Some (x + y) else None)"

definition checked_mul :: "'a::len word \<Rightarrow> 'a word \<Rightarrow> 'a word option" where
  "checked_mul x y = (if unat x * unat y < 2 ^ LENGTH('a) then Some (x * y) else None)"

definition saturating_add :: "'a::len word \<Rightarrow> 'a word \<Rightarrow> 'a word" where
  "saturating_add x y = (if unat x + unat y < 2 ^ LENGTH('a) then x + y else - 1)"

definition saturating_sub :: "'a::len word \<Rightarrow> 'a word \<Rightarrow> 'a word" where
  "saturating_sub x y = (if x < y then 0 else x - y)"

definition usize_max :: nat where
  "usize_max = 2 ^ 64 - 1"

definition usize_checked_add :: "nat \<Rightarrow> nat \<Rightarrow> nat option" where
  "usize_checked_add a b = (if a + b \<le> usize_max then Some (a + b) else None)"

definition usize_saturating_add :: "nat \<Rightarrow> nat \<Rightarrow> nat" where
  "usize_saturating_add a b = min (a + b) usize_max"

text \<open>\<open>32 - x.leading_zeros()\<close>\<close>

fun bit_length :: "nat \<Rightarrow> nat" where
  "bit_length n = (if n = 0 then 0 else Suc (bit_length (n div 2)))"

declare bit_length.simps [simp del]

lemma unat_bound: "unat (w :: 'a::len word) < 2 ^ LENGTH('a)"
  by (rule unsigned_less)

lemma checked_add_Some_iff:
  "checked_add x y = Some z \<longleftrightarrow> unat x + unat y = unat z"
  for x :: "'a::len word"
proof -
  have "unat (x + y) = unat x + unat y" if "unat x + unat y < 2 ^ LENGTH('a)"
    using that by (simp add: unat_word_ariths)
  moreover have "unat z < 2 ^ LENGTH('a)" by (rule unat_bound)
  ultimately show ?thesis
    by (auto simp: checked_add_def unat_arith_simps split: if_splits)
qed

lemma checked_mul_Some_iff:
  "checked_mul x y = Some z \<longleftrightarrow> unat x * unat y = unat z"
  for x :: "'a::len word"
proof -
  have "unat (x * y) = unat x * unat y" if "unat x * unat y < 2 ^ LENGTH('a)"
    using that by (simp add: unat_word_ariths)
  moreover have "unat z < 2 ^ LENGTH('a)" by (rule unat_bound)
  ultimately show ?thesis
    by (auto simp: checked_mul_def unat_arith_simps split: if_splits)
qed

lemma unat_saturating_add:
  "unat (saturating_add x y) = min (unat x + unat y) (2 ^ LENGTH('a) - 1)"
  for x :: "'a::len word"
  by (auto simp: saturating_add_def unat_word_ariths min_def unsigned_minus_1_eq_mask mask_eq_exp_minus_1)

lemma unat_saturating_sub: "unat (saturating_sub x y) = unat x - unat y"
  by (auto simp: saturating_sub_def word_less_nat_alt unat_sub_if' not_less)

lemma take_bit_small: "unat w < 2 ^ n \<Longrightarrow> take_bit n w = w"
  by (simp add: word_unat_eq_iff unsigned_take_bit_eq take_bit_nat_eq_self)

section \<open>Signed integers\<close>

text \<open>
  An \<open>i32\<close> is an integer of the machine range. Plain Rust arithmetic on it
  depends on the build: with overflow checks an unrepresentable result is a
  panic, without them it wraps. Definitions that use plain arithmetic take the
  build as an argument; where the result is representable both builds agree.
\<close>

type_synonym i32 = int

datatype overflow = Checked | Wrapping

definition i32_ok :: "int \<Rightarrow> bool" where
  "i32_ok v \<longleftrightarrow> - (2 ^ 31) \<le> v \<and> v \<le> 2 ^ 31 - 1"

abbreviation (input) i32_MAX :: i32 where "i32_MAX \<equiv> 2147483647"

definition i32_wrap :: "int \<Rightarrow> i32" where
  "i32_wrap v = (v + 2 ^ 31) mod 2 ^ 32 - 2 ^ 31"

definition i32_result :: "overflow \<Rightarrow> int \<Rightarrow> i32 option" where
  "i32_result b v =
     (if i32_ok v then Some v
      else case b of Checked \<Rightarrow> Panic | Wrapping \<Rightarrow> Some (i32_wrap v))"

definition i32_add :: "overflow \<Rightarrow> i32 \<Rightarrow> i32 \<Rightarrow> i32 option" where
  "i32_add b x y = i32_result b (x + y)"

definition i32_sub :: "overflow \<Rightarrow> i32 \<Rightarrow> i32 \<Rightarrow> i32 option" where
  "i32_sub b x y = i32_result b (x - y)"

lemma i32_add_ok [simp]: "i32_ok (x + y) \<Longrightarrow> i32_add b x y = Some (x + y)"
  by (simp add: i32_add_def i32_result_def)

lemma i32_sub_ok [simp]: "i32_ok (x - y) \<Longrightarrow> i32_sub b x y = Some (x - y)"
  by (simp add: i32_sub_def i32_result_def)

lemma i32_wrap_ok: "i32_ok (i32_wrap v)"
proof -
  have "0 \<le> (v + 2 ^ 31) mod 2 ^ 32" "(v + 2 ^ 31) mod 2 ^ 32 < 2 ^ 32"
    by simp_all
  then show ?thesis by (simp add: i32_wrap_def i32_ok_def)
qed

lemma i32_result_range: "i32_result b v = Some r \<Longrightarrow> i32_ok r"
  by (auto simp: i32_result_def i32_wrap_ok split: if_splits overflow.splits)

section \<open>Loops that may stop early\<close>

text \<open>
  A loop over a list whose body may panic or leave with \<open>?\<close>, and the interface
  of a body that keeps an invariant and only ever adds to what the state covers.
\<close>

fun fold_opt :: "('s \<Rightarrow> 'r \<Rightarrow> 's option) \<Rightarrow> 's \<Rightarrow> 'r list \<Rightarrow> 's option" where
  "fold_opt f s [] = Some s"
| "fold_opt f s (r # rs) = f s r \<bind> (\<lambda>s'. fold_opt f s' rs)"

lemma fold_opt_append: "fold_opt f s (xs @ ys) = fold_opt f s xs \<bind> (\<lambda>s'. fold_opt f s' ys)"
  by (induction xs arbitrary: s) (simp_all split: bind_splits)

locale covering =
  fixes add :: "'s \<Rightarrow> 'r \<Rightarrow> 's option"
    and inv :: "'s \<Rightarrow> bool"
    and ok :: "'r \<Rightarrow> bool"
    and cover :: "'s \<Rightarrow> 'p set"
    and px :: "'r \<Rightarrow> 'p set"
  assumes add_inv: "inv s \<Longrightarrow> ok r \<Longrightarrow> add s r = Some s' \<Longrightarrow> inv s'"
    and add_cover: "inv s \<Longrightarrow> ok r \<Longrightarrow> add s r = Some s' \<Longrightarrow> cover s \<union> px r \<subseteq> cover s'"
begin

lemma fold_inv:
  "inv s \<Longrightarrow> \<forall>r \<in> set rs. ok r \<Longrightarrow> fold_opt add s rs = Some s' \<Longrightarrow> inv s'"
  by (induction rs arbitrary: s) (auto split: bind_splits intro: add_inv)

lemma fold_cover:
  "inv s \<Longrightarrow> \<forall>r \<in> set rs. ok r \<Longrightarrow> fold_opt add s rs = Some s' \<Longrightarrow>
   cover s \<union> (\<Union>r \<in> set rs. px r) \<subseteq> cover s'"
proof (induction rs arbitrary: s)
  case (Cons r rs)
  then obtain m where m: "add s r = Some m" "fold_opt add m rs = Some s'"
    by (auto split: bind_splits)
  have "cover m \<union> (\<Union>r \<in> set rs. px r) \<subseteq> cover s'"
    using Cons m add_inv [of s r m] by simp
  moreover have "cover s \<union> px r \<subseteq> cover m"
    using Cons.prems m by (intro add_cover) simp_all
  ultimately show ?case by auto
qed simp

end

locale total_covering = covering +
  assumes add_total: "inv s \<Longrightarrow> ok r \<Longrightarrow> \<exists>s'. add s r = Some s'"
begin

lemma fold_total: "inv s \<Longrightarrow> \<forall>r \<in> set rs. ok r \<Longrightarrow> \<exists>s'. fold_opt add s rs = Some s'"
proof (induction rs arbitrary: s)
  case (Cons r rs)
  then obtain m where "add s r = Some m" "inv m"
    using add_total add_inv by (metis list.set_intros(1))
  with Cons show ?case by simp
qed simp

end

section \<open>Little-endian bytes\<close>

fun le_nat :: "u8 list \<Rightarrow> nat" where
  "le_nat [] = 0"
| "le_nat (b # bs) = unat b + 256 * le_nat bs"

fun nat_le :: "nat \<Rightarrow> nat \<Rightarrow> u8 list" where
  "nat_le 0 v = []"
| "nat_le (Suc n) v = word_of_nat (v mod 256) # nat_le n (v div 256)"

definition from_le_bytes :: "u8 list \<Rightarrow> 'a::len word" where
  "from_le_bytes bs = word_of_nat (le_nat bs)"

definition to_le_bytes :: "nat \<Rightarrow> 'a::len word \<Rightarrow> u8 list" where
  "to_le_bytes n w = nat_le n (unat w)"

lemma length_nat_le [simp]: "length (nat_le n v) = n"
  by (induction n arbitrary: v) auto

lemma length_to_le_bytes [simp]: "length (to_le_bytes n w) = n"
  by (simp add: to_le_bytes_def)

lemma unat_byte_mod [simp]: "unat (word_of_nat (v mod 256) :: u8) = v mod 256"
  by (simp add: unat_of_nat)

lemma le_nat_nat_le: "le_nat (nat_le n v) = v mod 256 ^ n"
proof (induction n arbitrary: v)
  case (Suc n)
  have "v mod (256 * 256 ^ n) = v mod 256 + 256 * (v div 256 mod 256 ^ n)"
    by (simp add: mod_mult2_eq)
  with Suc show ?case by simp
qed simp

lemma unat_u8_lt [simp]: "unat (b :: u8) < 256"
  using unat_bound [of b] by simp

lemma nat_le_le_nat: "nat_le (length bs) (le_nat bs) = bs"
proof (induction bs)
  case (Cons b bs)
  have "(unat b + 256 * le_nat bs) mod 256 = unat b"
    and "(unat b + 256 * le_nat bs) div 256 = le_nat bs"
    by simp_all
  with Cons show ?case by simp
qed simp

lemma le_nat_bound: "le_nat bs < 256 ^ length bs"
  using le_nat_nat_le [of "length bs" "le_nat bs"] nat_le_le_nat [of bs]
  by (metis mod_less_divisor zero_less_numeral zero_less_power)

text \<open>
  The interface of one fixed-width byte codec, and what a client may conclude
  from it: an encoded field is read back, and the bytes of a field are determined
  by the value read from them.
\<close>

locale le_codec =
  fixes width :: nat
    and enc :: "'w \<Rightarrow> u8 list"
    and dec :: "u8 list \<Rightarrow> 'w"
  assumes enc_length: "length (enc w) = width"
    and dec_enc: "dec (enc w) = w"
    and enc_dec: "length bs = width \<Longrightarrow> enc (dec bs) = bs"
begin

lemma enc_inject: "enc v = enc w \<longleftrightarrow> v = w"
  by (metis dec_enc)

lemma dec_inject: "length bs = width \<Longrightarrow> length cs = width \<Longrightarrow> dec bs = dec cs \<longleftrightarrow> bs = cs"
  by (metis enc_dec)

lemma read_written:
  "slice (pre @ enc w @ post) (length pre) (length pre + width) = Some (enc w)"
  by (simp add: enc_length)

lemma bytes_of_field:
  "a + width \<le> length bs \<Longrightarrow>
   bs = take a bs @ enc (dec (take width (drop a bs))) @ drop (a + width) bs"
  by (simp add: enc_dec) (metis append_take_drop_id drop_drop add.commute)

end

lemma le_codec_word:
  assumes "LENGTH('a::len) = 8 * n"
  shows "le_codec n (to_le_bytes n :: 'a word \<Rightarrow> u8 list) from_le_bytes"
proof
  have pow: "(256 :: nat) ^ n = 2 ^ LENGTH('a)"
    by (simp add: assms power_mult)
  show "length (to_le_bytes n w) = n" for w :: "'a word"
    by simp
  show "from_le_bytes (to_le_bytes n w) = w" for w :: "'a word"
    by (simp add: from_le_bytes_def to_le_bytes_def le_nat_nat_le pow)
  show "to_le_bytes n (from_le_bytes bs :: 'a word) = bs" if "length bs = n" for bs
    using that le_nat_bound [of bs] nat_le_le_nat [of bs]
    by (auto simp: from_le_bytes_def to_le_bytes_def unat_of_nat pow)
qed

interpretation le32: le_codec 4 "to_le_bytes 4 :: u32 \<Rightarrow> u8 list" from_le_bytes
  by (rule le_codec_word) simp

interpretation le64: le_codec 8 "to_le_bytes 8 :: u64 \<Rightarrow> u8 list" from_le_bytes
  by (rule le_codec_word) simp

interpretation le128: le_codec 16 "to_le_bytes 16 :: u128 \<Rightarrow> u8 list" from_le_bytes
  by (rule le_codec_word) simp

end
