(* ===== verification/Atlas.thy ===== *)
theory Atlas
  imports Prelude
begin

text \<open>
  The texture atlas of the renderer (\<open>graphics/src/atlas\<close>): the shelf packer that places
  small images on square pages, and the manager that keeps one texture per page and
  uploads the images. The manager's OpenGL calls are its output; what creating a texture
  answers is a parameter. The packer's plain \<open>u16\<close> sums and differences are checked ones
  here, and none of them is shown to overflow.
\<close>

section \<open>The packer\<close>

type_synonym u16 = "16 word"

abbreviation (input) MAX_INPUT_DIM :: u16 where "MAX_INPUT_DIM \<equiv> 256"
abbreviation (input) DEFAULT_ATLAS_SIZE :: u16 where "DEFAULT_ATLAS_SIZE \<equiv> 2048"
abbreviation (input) PAD :: u16 where "PAD \<equiv> 1"

record atlas_region =
  ar_atlas_id :: u32
  ar_x :: u16
  ar_y :: u16
  ar_w :: u16
  ar_h :: u16

record shelf =
  sh_y :: u16
  sh_height :: u16
  sh_cursor_x :: u16

record page =
  pg_shelves :: "shelf list"
  pg_next_shelf_y :: u16

record atlas_allocator =
  aa_atlas_size :: u16
  aa_pages :: "page list"

definition allocator_new :: "u16 \<Rightarrow> atlas_allocator" where
  "allocator_new atlas_size = \<lparr> aa_atlas_size = atlas_size, aa_pages = [] \<rparr>"

definition exact_sub :: "'a::len word \<Rightarrow> 'a word \<Rightarrow> 'a word option" where
  "exact_sub a b = (if b \<le> a then Some (a - b) else None)"

text \<open>The loop over the shelves of \<open>try_fit_in_page\<close>.\<close>

fun fit_in_shelf :: "u16 \<Rightarrow> u32 \<Rightarrow> u16 \<Rightarrow> u16 \<Rightarrow> u16 \<Rightarrow> u16 \<Rightarrow> shelf list \<Rightarrow> (atlas_region option \<times> shelf list) option" where
  "fit_in_shelf atlas_size page_idx w h pw ph [] = Some (None, [])"
| "fit_in_shelf atlas_size page_idx w h pw ph (shelf # shelves) = do {
     fits \<leftarrow> (if sh_height shelf \<ge> ph then do { room \<leftarrow> exact_sub atlas_size (sh_cursor_x shelf); Some (room \<ge> pw) } else Some False);
     if fits then do {
       cursor \<leftarrow> checked_add (sh_cursor_x shelf) pw;
       Some (Some \<lparr> ar_atlas_id = page_idx, ar_x = sh_cursor_x shelf, ar_y = sh_y shelf, ar_w = w, ar_h = h \<rparr>,
             shelf\<lparr> sh_cursor_x := cursor \<rparr> # shelves) }
     else do {
       (region, shelves') \<leftarrow> fit_in_shelf atlas_size page_idx w h pw ph shelves;
       Some (region, shelf # shelves') } }"

definition try_fit_in_page :: "page \<Rightarrow> u16 \<Rightarrow> u32 \<Rightarrow> u16 \<Rightarrow> u16 \<Rightarrow> u16 \<Rightarrow> u16 \<Rightarrow> (atlas_region option \<times> page) option" where
  "try_fit_in_page page atlas_size page_idx w h pw ph = do {
     (region, shelves) \<leftarrow> fit_in_shelf atlas_size page_idx w h pw ph (pg_shelves page);
     case region of
       Some r \<Rightarrow> Some (Some r, page\<lparr> pg_shelves := shelves \<rparr>)
     | None \<Rightarrow> (case exact_sub atlas_size (pg_next_shelf_y page) of
           None \<Rightarrow> Some (None, page)
         | Some remaining_y \<Rightarrow>
             if remaining_y < ph then Some (None, page)
             else do {
               let shelf_y = pg_next_shelf_y page;
               next_y \<leftarrow> checked_add shelf_y ph;
               Some (Some \<lparr> ar_atlas_id = page_idx, ar_x = 0, ar_y = shelf_y, ar_w = w, ar_h = h \<rparr>,
                     \<lparr> pg_shelves = pg_shelves page @ [\<lparr> sh_y = shelf_y, sh_height = ph, sh_cursor_x = pw \<rparr>],
                       pg_next_shelf_y = next_y \<rparr>) }) }"

text \<open>The loop over the pages of \<open>allocate\<close>; \<open>k\<close> is the index of the first of them.\<close>

fun fit_in_pages :: "u16 \<Rightarrow> nat \<Rightarrow> u16 \<Rightarrow> u16 \<Rightarrow> u16 \<Rightarrow> u16 \<Rightarrow> page list \<Rightarrow> (atlas_region option \<times> page list) option" where
  "fit_in_pages atlas_size k w h pw ph [] = Some (None, [])"
| "fit_in_pages atlas_size k w h pw ph (page # pages) = do {
     (region, page') \<leftarrow> try_fit_in_page page atlas_size (word_of_nat k) w h pw ph;
     case region of
       Some r \<Rightarrow> Some (Some r, page' # pages)
     | None \<Rightarrow> do {
         (region, pages') \<leftarrow> fit_in_pages atlas_size (k + 1) w h pw ph pages;
         Some (region, page' # pages') } }"

definition atlas_allocate :: "atlas_allocator \<Rightarrow> u16 \<Rightarrow> u16 \<Rightarrow> (atlas_region option \<times> atlas_allocator) option" where
  "atlas_allocate a w h =
     (if w = 0 \<or> h = 0 \<or> w > MAX_INPUT_DIM \<or> h > MAX_INPUT_DIM then Some (None, a)
      else case (checked_add w PAD, checked_add h PAD) of
        (Some pw, Some ph) \<Rightarrow>
          if pw > aa_atlas_size a \<or> ph > aa_atlas_size a then Some (None, a)
          else do {
            (region, pages) \<leftarrow> fit_in_pages (aa_atlas_size a) 0 w h pw ph (aa_pages a);
            case region of
              Some r \<Rightarrow> Some (Some r, a\<lparr> aa_pages := pages \<rparr>)
            | None \<Rightarrow> do {
                (region, page) \<leftarrow> try_fit_in_page \<lparr> pg_shelves = [], pg_next_shelf_y = 0 \<rparr> (aa_atlas_size a)
                  (word_of_nat (length (aa_pages a))) w h pw ph;
                Some (region, a\<lparr> aa_pages := pages @ [page] \<rparr>) } }
      | _ \<Rightarrow> Some (None, a))"

definition allocator_clear :: "atlas_allocator \<Rightarrow> atlas_allocator" where
  "allocator_clear a = a\<lparr> aa_pages := [] \<rparr>"

section \<open>The manager\<close>

datatype atlas_gl =
    BindTexture2D "u32 option"
  | PixelStoreAlignment nat
  | AtlasTexImage u16 u16
  | TexParameter u32 u32
  | TexSubImage2D u16 u16 u16 u16 "u8 list"
  | AtlasDeleteTexture u32

record atlas_manager =
  am_alloc :: atlas_allocator
  am_textures :: "u32 list"

record atlas_entry =
  ae_texture :: u32
  ae_region :: atlas_region

definition with_atlas_size :: "u16 \<Rightarrow> atlas_manager" where
  "with_atlas_size atlas_size = \<lparr> am_alloc = allocator_new atlas_size, am_textures = [] \<rparr>"

text \<open>
  The loop that fills gaps; the answers of \<open>create_texture\<close> come in order. It does not
  return while the driver refuses.
\<close>

fun fill_gaps :: "u32 list \<Rightarrow> nat \<Rightarrow> u32 option list \<Rightarrow> (u32 list \<times> u32 option list) option" where
  "fill_gaps textures i created =
     (if i \<le> length textures then Some (textures, created)
      else case created of
        [] \<Rightarrow> None
      | answer # created \<Rightarrow> fill_gaps (case answer of None \<Rightarrow> textures | Some t \<Rightarrow> textures @ [t]) i created)"

definition ensure_page_texture :: "u32 option list \<Rightarrow> atlas_manager \<Rightarrow> u32 \<Rightarrow> (atlas_manager \<times> atlas_gl list) option" where
  "ensure_page_texture created m page_id = (let i = unat page_id in
     if i < length (am_textures m) then Some (m, [])
     else do {
       (textures, created) \<leftarrow> fill_gaps (am_textures m) i created;
       let atlas_size = aa_atlas_size (am_alloc m);
       case created of
         [] \<Rightarrow> None
       | None # _ \<Rightarrow> Some (m\<lparr> am_textures := textures \<rparr>, [])
       | Some tex # _ \<Rightarrow> Some (m\<lparr> am_textures := textures @ [tex] \<rparr>,
           [BindTexture2D (Some tex), AtlasTexImage atlas_size atlas_size,
            TexParameter 0x2801 0x2601, TexParameter 0x2800 0x2601,
            TexParameter 0x2802 0x812F, TexParameter 0x2803 0x812F,
            BindTexture2D None]) })"

definition upload :: "u32 option list \<Rightarrow> atlas_manager \<Rightarrow> u16 \<Rightarrow> u16 \<Rightarrow> u8 list \<Rightarrow> (atlas_entry option \<times> atlas_manager \<times> atlas_gl list) option" where
  "upload created m w h rgba =
     (if length rgba < unat w * unat h * 4 then Some (None, m, [])
      else do {
        (region, alloc) \<leftarrow> atlas_allocate (am_alloc m) w h;
        let m = m\<lparr> am_alloc := alloc \<rparr>;
        case region of
          None \<Rightarrow> Some (None, m, [])
        | Some r \<Rightarrow> do {
            (m, calls) \<leftarrow> ensure_page_texture created m (ar_atlas_id r);
            texture \<leftarrow> idx (am_textures m) (unat (ar_atlas_id r));
            Some (Some \<lparr> ae_texture = texture, ae_region = r \<rparr>, m,
              calls @ [BindTexture2D (Some texture), PixelStoreAlignment 4,
                       TexSubImage2D (ar_x r) (ar_y r) w h rgba, BindTexture2D None]) } })"

definition atlas_destroy :: "atlas_manager \<Rightarrow> atlas_manager \<times> atlas_gl list" where
  "atlas_destroy m = (\<lparr> am_alloc = allocator_clear (am_alloc m), am_textures = [] \<rparr>, map AtlasDeleteTexture (am_textures m))"

section \<open>Placement\<close>

definition pixels :: "atlas_region \<Rightarrow> (nat \<times> nat) set" where
  "pixels r = {unat (ar_x r)..<unat (ar_x r) + unat (ar_w r)} \<times> {unat (ar_y r)..<unat (ar_y r) + unat (ar_h r)}"

definition on_shelf :: "shelf \<Rightarrow> atlas_region \<Rightarrow> bool" where
  "on_shelf s r \<longleftrightarrow> ar_y r = sh_y s \<and> unat (ar_h r) < unat (sh_height s) \<and> unat (ar_x r) + unat (ar_w r) < unat (sh_cursor_x s)"

abbreviation shelved :: "shelf list \<Rightarrow> atlas_region \<Rightarrow> bool" where
  "shelved shelves r \<equiv> \<exists>s \<in> set shelves. on_shelf s r"

text \<open>Shelves are stacked without gaps from one height to another.\<close>

fun stacked :: "nat \<Rightarrow> shelf list \<Rightarrow> nat \<Rightarrow> bool" where
  "stacked y [] stop \<longleftrightarrow> y = stop"
| "stacked y (s # ss) stop \<longleftrightarrow> unat (sh_y s) = y \<and> stacked (y + unat (sh_height s)) ss stop"

definition page_ok :: "u16 \<Rightarrow> page \<Rightarrow> bool" where
  "page_ok atlas_size p \<longleftrightarrow> stacked 0 (pg_shelves p) (unat (pg_next_shelf_y p)) \<and>
     unat (pg_next_shelf_y p) \<le> unat atlas_size \<and> (\<forall>s \<in> set (pg_shelves p). sh_cursor_x s \<le> atlas_size)"

lemma stacked_shelved:
  "stacked y ss stop \<Longrightarrow> shelved ss r \<Longrightarrow> y \<le> unat (ar_y r) \<and> unat (ar_y r) + unat (ar_h r) < stop"
proof (induction ss arbitrary: y)
  case (Cons s ss)
  have le: "a \<le> stop" if "stacked a ss stop" for a
    using that by (induction ss arbitrary: a) fastforce+
  show ?case
  proof (cases "on_shelf s r")
    case True
    then show ?thesis using Cons.prems(1) le [of "y + unat (sh_height s)"] by (auto simp: on_shelf_def)
  next
    case False
    then have "shelved ss r" using Cons.prems(2) by auto
    then show ?thesis using Cons.IH [of "y + unat (sh_height s)"] Cons.prems(1) by auto
  qed
qed simp

lemma stacked_append: "stacked y (xs @ ys) stop \<longleftrightarrow> (\<exists>m. stacked y xs m \<and> stacked m ys stop)"
  by (induction xs arbitrary: y) auto

lemma unat_exact_sub: "exact_sub a b = Some c \<Longrightarrow> unat c = unat a - unat b \<and> unat b \<le> unat a"
  by (auto simp: exact_sub_def unat_sub word_le_nat_alt split: if_splits)

lemma checked_add_total: "unat a + unat b < 2 ^ LENGTH('a) \<Longrightarrow> \<exists>c. checked_add a b = Some c" for a b :: "'a::len word"
  by (simp add: checked_add_def)

definition fitted :: "u32 \<Rightarrow> u16 \<Rightarrow> u16 \<Rightarrow> (atlas_region \<Rightarrow> bool) \<Rightarrow> (atlas_region \<Rightarrow> bool) \<Rightarrow> atlas_region \<Rightarrow> bool" where
  "fitted page_idx w h before after r \<longleftrightarrow> ar_atlas_id r = page_idx \<and> ar_w r = w \<and> ar_h r = h \<and> after r \<and>
     (\<forall>q. before q \<longrightarrow> after q \<and> pixels q \<inter> pixels r = {})"

lemma fit_in_shelf_spec:
  assumes "stacked y shelves stop" "\<forall>s \<in> set shelves. sh_cursor_x s \<le> atlas_size"
    and "unat pw = unat w + 1" "unat ph = unat h + 1"
  shows "\<exists>r shelves'. fit_in_shelf atlas_size page_idx w h pw ph shelves = Some (r, shelves') \<and> stacked y shelves' stop \<and>
    (\<forall>s \<in> set shelves'. sh_cursor_x s \<le> atlas_size) \<and>
    (case r of None \<Rightarrow> shelves' = shelves | Some r \<Rightarrow> fitted page_idx w h (shelved shelves) (shelved shelves') r)"
  using assms(1,2)
proof (induction shelves arbitrary: y)
  case (Cons s ss)
  have cur: "sh_cursor_x s \<le> atlas_size" using Cons.prems(2) by simp
  obtain r ss' where rest: "fit_in_shelf atlas_size page_idx w h pw ph ss = Some (r, ss')" "stacked (y + unat (sh_height s)) ss' stop"
      "\<forall>s \<in> set ss'. sh_cursor_x s \<le> atlas_size"
      "case r of None \<Rightarrow> ss' = ss | Some r \<Rightarrow> fitted page_idx w h (shelved ss) (shelved ss') r"
    using Cons.IH [of "y + unat (sh_height s)"] Cons.prems by auto
  show ?case
  proof (cases "sh_height s \<ge> ph \<and> atlas_size - sh_cursor_x s \<ge> pw")
    case True
    have room: "unat (sh_cursor_x s) + unat pw \<le> unat atlas_size"
      using True cur by (simp add: word_le_nat_alt unat_sub le_diff_conv2 add.commute)
    then obtain c where c: "checked_add (sh_cursor_x s) pw = Some c" "unat c = unat (sh_cursor_x s) + unat pw"
      using checked_add_total [of "sh_cursor_x s" pw] unat_bound [of atlas_size] by (auto simp: checked_add_Some_iff)
    let ?r = "\<lparr> ar_atlas_id = page_idx, ar_x = sh_cursor_x s, ar_y = sh_y s, ar_w = w, ar_h = h \<rparr>"
    let ?s = "s\<lparr> sh_cursor_x := c \<rparr>"
    have f: "fit_in_shelf atlas_size page_idx w h pw ph (s # ss) = Some (Some ?r, ?s # ss)"
      using True cur c(1) by (simp add: exact_sub_def)
    have new: "on_shelf ?s ?r" using True c(2) assms(3,4) by (auto simp: on_shelf_def word_le_nat_alt)
    have keep: "on_shelf ?s q" if "on_shelf s q" for q using that c(2) by (auto simp: on_shelf_def)
    have "pixels q \<inter> pixels ?r = {}" if "shelved (s # ss) q" for q
    proof (cases "on_shelf s q")
      case True
      then show ?thesis by (auto simp: pixels_def on_shelf_def)
    next
      case False
      then have "y + unat (sh_height s) \<le> unat (ar_y q)"
        using that stacked_shelved [of "y + unat (sh_height s)" ss stop q] Cons.prems(1) by auto
      then show ?thesis using True Cons.prems(1) assms(4) by (auto simp: pixels_def word_le_nat_alt)
    qed
    then have "fitted page_idx w h (shelved (s # ss)) (shelved (?s # ss)) ?r"
      using new keep by (auto simp: fitted_def)
    then show ?thesis using f Cons.prems room c(2) by (auto simp: word_le_nat_alt)
  next
    case False
    then have f: "fit_in_shelf atlas_size page_idx w h pw ph (s # ss) = Some (r, s # ss')"
      using rest(1) cur by (auto simp: exact_sub_def)
    have "fitted page_idx w h (shelved (s # ss)) (shelved (s # ss')) r'" if "r = Some r'" for r'
    proof -
      have fit: "fitted page_idx w h (shelved ss) (shelved ss') r'" using rest(4) that by simp
      have "y + unat (sh_height s) \<le> unat (ar_y r')"
        using stacked_shelved [OF rest(2), of r'] fit by (auto simp: fitted_def)
      then have "pixels q \<inter> pixels r' = {}" if "on_shelf s q" for q
        using that Cons.prems(1) by (auto simp: pixels_def on_shelf_def)
      then show ?thesis using fit by (auto simp: fitted_def)
    qed
    then show ?thesis using f rest Cons.prems cur by (auto split: option.splits)
  qed
qed simp

lemma try_fit_in_page_spec:
  assumes "page_ok atlas_size page" "unat pw = unat w + 1" "unat ph = unat h + 1" "pw \<le> atlas_size"
  shows "\<exists>r page'. try_fit_in_page page atlas_size page_idx w h pw ph = Some (r, page') \<and> page_ok atlas_size page' \<and>
    (case r of None \<Rightarrow> page' = page \<and> unat atlas_size < unat (pg_next_shelf_y page) + unat ph
     | Some r \<Rightarrow> fitted page_idx w h (shelved (pg_shelves page)) (shelved (pg_shelves page')) r)"
proof -
  let ?ss = "pg_shelves page" and ?y = "pg_next_shelf_y page"
  obtain r ss' where fit: "fit_in_shelf atlas_size page_idx w h pw ph ?ss = Some (r, ss')" "stacked 0 ss' (unat ?y)"
      "\<forall>s \<in> set ss'. sh_cursor_x s \<le> atlas_size"
      "case r of None \<Rightarrow> ss' = ?ss | Some r \<Rightarrow> fitted page_idx w h (shelved ?ss) (shelved ss') r"
    using fit_in_shelf_spec [of 0 ?ss "unat ?y" atlas_size pw w ph h page_idx] assms by (auto simp: page_ok_def)
  show ?thesis
  proof (cases r)
    case (Some r')
    then show ?thesis using fit assms(1) by (simp add: try_fit_in_page_def page_ok_def)
  next
    case None
    have y: "?y \<le> atlas_size" using assms(1) by (simp add: page_ok_def word_le_nat_alt)
    show ?thesis
    proof (cases "atlas_size - ?y < ph")
      case True
      then show ?thesis using None fit y assms(1)
        by (simp add: try_fit_in_page_def exact_sub_def word_less_nat_alt word_le_nat_alt unat_sub)
    next
      case False
      have room: "unat ?y + unat ph \<le> unat atlas_size"
        using False y by (simp add: word_less_nat_alt word_le_nat_alt unat_sub)
      then obtain n where n: "checked_add ?y ph = Some n" "unat n = unat ?y + unat ph"
        using checked_add_total [of ?y ph] unat_bound [of atlas_size] by (auto simp: checked_add_Some_iff)
      let ?s = "\<lparr> sh_y = ?y, sh_height = ph, sh_cursor_x = pw \<rparr>"
      let ?r = "\<lparr> ar_atlas_id = page_idx, ar_x = 0, ar_y = ?y, ar_w = w, ar_h = h \<rparr>"
      let ?p = "\<lparr> pg_shelves = ?ss @ [?s], pg_next_shelf_y = n \<rparr>"
      have f: "try_fit_in_page page atlas_size page_idx w h pw ph = Some (Some ?r, ?p)"
        using None fit(1) y False n(1) by (simp add: try_fit_in_page_def exact_sub_def Let_def)
      have ok: "page_ok atlas_size ?p"
        using assms(1,4) n(2) room by (auto simp: page_ok_def stacked_append)
      have "on_shelf ?s ?r" using assms(2,3) by (simp add: on_shelf_def)
      moreover have "pixels q \<inter> pixels ?r = {}" if "shelved ?ss q" for q
        using stacked_shelved [of 0 ?ss "unat ?y" q] that assms(1) by (auto simp: page_ok_def pixels_def)
      ultimately have "fitted page_idx w h (shelved ?ss) (shelved (pg_shelves ?p)) ?r" by (auto simp: fitted_def)
      then show ?thesis using f ok by auto
    qed
  qed
qed

lemma fit_in_pages_spec:
  assumes "\<forall>p \<in> set pages. page_ok atlas_size p" "unat pw = unat w + 1" "unat ph = unat h + 1" "pw \<le> atlas_size"
  shows "\<exists>r pages'. fit_in_pages atlas_size k w h pw ph pages = Some (r, pages') \<and>
    (case r of None \<Rightarrow> pages' = pages
     | Some r \<Rightarrow> \<exists>i < length pages. \<exists>page'. pages' = pages[i := page'] \<and> page_ok atlas_size page' \<and>
         fitted (word_of_nat (k + i)) w h (shelved (pg_shelves (pages ! i))) (shelved (pg_shelves page')) r)"
  using assms(1)
proof (induction pages arbitrary: k)
  case (Cons p ps)
  obtain r p' where here: "try_fit_in_page p atlas_size (word_of_nat k) w h pw ph = Some (r, p')" "page_ok atlas_size p'"
      "case r of None \<Rightarrow> p' = p \<and> unat atlas_size < unat (pg_next_shelf_y p) + unat ph
       | Some r \<Rightarrow> fitted (word_of_nat k) w h (shelved (pg_shelves p)) (shelved (pg_shelves p')) r"
    using try_fit_in_page_spec [of atlas_size p pw w ph h "word_of_nat k"] Cons.prems assms(2-4) by auto
  obtain r2 ps' where rest: "fit_in_pages atlas_size (k + 1) w h pw ph ps = Some (r2, ps')"
      "case r2 of None \<Rightarrow> ps' = ps
       | Some r \<Rightarrow> \<exists>i < length ps. \<exists>page'. ps' = ps[i := page'] \<and> page_ok atlas_size page' \<and>
           fitted (word_of_nat (k + 1 + i)) w h (shelved (pg_shelves (ps ! i))) (shelved (pg_shelves page')) r"
    using Cons.IH [of "k + 1"] Cons.prems by auto
  show ?case
  proof (cases r)
    case (Some r')
    then have "fit_in_pages atlas_size k w h pw ph (p # ps) = Some (Some r', (p # ps)[0 := p'])" using here(1) by simp
    then show ?thesis using here(2,3) Some by (intro exI [of _ "Some r'"] exI [of _ "(p # ps)[0 := p']"]) auto
  next
    case None
    then have f: "fit_in_pages atlas_size k w h pw ph (p # ps) = Some (r2, p # ps')" using here(1,3) rest(1) by simp
    show ?thesis
    proof (cases r2)
      case (Some r')
      then obtain i page' where i: "i < length ps" "ps' = ps[i := page']" "page_ok atlas_size page'"
          "fitted (word_of_nat (k + 1 + i)) w h (shelved (pg_shelves (ps ! i))) (shelved (pg_shelves page')) r'"
        using rest(2) by auto
      then show ?thesis using f Some by (intro exI [of _ r2] exI [of _ "p # ps'"]) (auto intro!: exI [of _ "Suc i"] exI [of _ page'] simp: add_ac)
    qed (use f rest(2) in auto)
  qed
qed simp

text \<open>What holds of the packer, and which regions are placed on its pages.\<close>

definition allocator_ok :: "atlas_allocator \<Rightarrow> bool" where
  "allocator_ok a \<longleftrightarrow> (\<forall>p \<in> set (aa_pages a). page_ok (aa_atlas_size a) p)"

definition placed :: "atlas_allocator \<Rightarrow> atlas_region \<Rightarrow> bool" where
  "placed a r \<longleftrightarrow> unat (ar_atlas_id r) < length (aa_pages a) \<and> shelved (pg_shelves (aa_pages a ! unat (ar_atlas_id r))) r"

definition packable :: "u16 \<Rightarrow> u16 \<Rightarrow> u16 \<Rightarrow> bool" where
  "packable atlas_size w h \<longleftrightarrow> 0 < unat w \<and> 0 < unat h \<and> unat w \<le> 256 \<and> unat h \<le> 256 \<and> unat w < unat atlas_size \<and> unat h < unat atlas_size"

lemma placed_update:
  assumes "i < length (aa_pages a)" "length (aa_pages a) \<le> 2 ^ 32"
    and "fitted (word_of_nat i) w h (shelved (pg_shelves (aa_pages a ! i))) (shelved (pg_shelves page')) r"
  shows "placed (a\<lparr> aa_pages := (aa_pages a)[i := page'] \<rparr>) r \<and>
    (\<forall>q. placed a q \<longrightarrow> placed (a\<lparr> aa_pages := (aa_pages a)[i := page'] \<rparr>) q \<and> (ar_atlas_id q = ar_atlas_id r \<longrightarrow> pixels q \<inter> pixels r = {}))"
proof -
  have i: "unat (word_of_nat i :: u32) = i" using assms(1,2) by (simp add: unat_of_nat)
  show ?thesis using assms(1,3) by (auto simp: placed_def fitted_def i nth_list_update)
qed

lemma atlas_allocate_spec:
  assumes "allocator_ok a" "length (aa_pages a) < 2 ^ 32"
  shows "\<exists>r a'. atlas_allocate a w h = Some (r, a') \<and> allocator_ok a' \<and> aa_atlas_size a' = aa_atlas_size a \<and>
    length (aa_pages a) \<le> length (aa_pages a') \<and> length (aa_pages a') \<le> length (aa_pages a) + 1 \<and>
    (case r of None \<Rightarrow> \<not> packable (aa_atlas_size a) w h \<and> a' = a
     | Some r \<Rightarrow> packable (aa_atlas_size a) w h \<and> ar_w r = w \<and> ar_h r = h \<and> placed a' r \<and>
         (unat (ar_atlas_id r) < length (aa_pages a) \<longrightarrow> length (aa_pages a') = length (aa_pages a)) \<and>
         (\<forall>q. placed a q \<longrightarrow> placed a' q \<and> (ar_atlas_id q = ar_atlas_id r \<longrightarrow> pixels q \<inter> pixels r = {})))"
proof (cases "packable (aa_atlas_size a) w h")
  case False
  have ck: "checked_add v PAD = Some (v + 1) \<and> unat (v + 1) = unat v + 1" if "unat v \<le> 256" for v :: u16
    using that by (simp add: checked_add_def unat_word_ariths)
  have "atlas_allocate a w h = Some (None, a)"
    using False ck [of w] ck [of h]
    by (auto simp: atlas_allocate_def packable_def word_le_nat_alt word_less_nat_alt unat_gt_0)
  then show ?thesis using assms False by auto
next
  case True
  let ?z = "aa_atlas_size a" and ?n = "length (aa_pages a)"
  have dims: "unat w \<le> 256" "unat h \<le> 256" "w \<noteq> 0" "h \<noteq> 0" "unat w < unat ?z" "unat h < unat ?z" using True by (auto simp: packable_def)
  have ck: "checked_add v PAD = Some (v + 1) \<and> unat (v + 1) = unat v + 1" if "unat v \<le> 256" for v :: u16
    using that by (simp add: checked_add_def unat_word_ariths)
  have pw: "checked_add w PAD = Some (w + 1)" "unat (w + 1) = unat w + 1" "w + 1 \<le> ?z"
    and ph: "checked_add h PAD = Some (h + 1)" "unat (h + 1) = unat h + 1" "h + 1 \<le> ?z"
    using ck dims by (auto simp: word_le_nat_alt)
  have small: "w \<le> 256" "h \<le> 256" using dims by (simp_all add: word_le_nat_alt)
  obtain r pages' where fit: "fit_in_pages ?z 0 w h (w + 1) (h + 1) (aa_pages a) = Some (r, pages')"
      "case r of None \<Rightarrow> pages' = aa_pages a
       | Some r \<Rightarrow> \<exists>i < ?n. \<exists>page'. pages' = (aa_pages a)[i := page'] \<and> page_ok ?z page' \<and>
           fitted (word_of_nat i) w h (shelved (pg_shelves (aa_pages a ! i))) (shelved (pg_shelves page')) r"
    using fit_in_pages_spec [of "aa_pages a" ?z "w + 1" w "h + 1" h 0, OF _ pw(2) ph(2) pw(3)] assms(1)
    unfolding add_0 allocator_ok_def by blast
  show ?thesis
  proof (cases r)
    case (Some r')
    then obtain i page' where i: "i < ?n" "pages' = (aa_pages a)[i := page']" "page_ok ?z page'"
        "fitted (word_of_nat i) w h (shelved (pg_shelves (aa_pages a ! i))) (shelved (pg_shelves page')) r'"
      using fit(2) by auto
    have e: "atlas_allocate a w h = Some (Some r', a\<lparr> aa_pages := pages' \<rparr>)"
      using Some fit(1) pw ph dims small by (simp add: atlas_allocate_def not_less)
    have "allocator_ok (a\<lparr> aa_pages := pages' \<rparr>)"
      using assms(1) i(1,2,3) by (auto simp: allocator_ok_def dest: set_update_subset_insert [THEN subsetD])
    then show ?thesis using e i placed_update [OF i(1) _ i(4)] assms(2) True by (auto simp: fitted_def)
  next
    case None
    let ?p0 = "\<lparr> pg_shelves = [], pg_next_shelf_y = 0 \<rparr>"
    have p0: "page_ok ?z ?p0" by (simp add: page_ok_def)
    obtain r2 p where new: "try_fit_in_page ?p0 ?z (word_of_nat ?n) w h (w + 1) (h + 1) = Some (r2, p)" "page_ok ?z p"
        "case r2 of None \<Rightarrow> p = ?p0 \<and> unat ?z < unat (pg_next_shelf_y ?p0) + unat (h + 1)
         | Some r \<Rightarrow> fitted (word_of_nat ?n) w h (shelved (pg_shelves ?p0)) (shelved (pg_shelves p)) r"
      using try_fit_in_page_spec [OF p0 pw(2) ph(2) pw(3), of "word_of_nat ?n"] by blast
    then obtain r' where r': "r2 = Some r'" "fitted (word_of_nat ?n) w h (\<lambda>_. False) (shelved (pg_shelves p)) r'"
      using ph(2) dims(6) by (cases r2) auto
    have n: "unat (word_of_nat ?n :: u32) = ?n" using assms(2) by (simp add: unat_of_nat)
    have e: "atlas_allocate a w h = Some (Some r', a\<lparr> aa_pages := aa_pages a @ [p] \<rparr>)"
      using None fit new(1) r'(1) pw ph dims small by (simp add: atlas_allocate_def not_less)
    have "placed (a\<lparr> aa_pages := aa_pages a @ [p] \<rparr>) r'" using r'(2) n by (simp add: placed_def fitted_def)
    moreover have "placed (a\<lparr> aa_pages := aa_pages a @ [p] \<rparr>) q \<and> ar_atlas_id q \<noteq> ar_atlas_id r'" if "placed a q" for q
      using that r'(2) n by (auto simp: placed_def fitted_def nth_append)
    moreover have "allocator_ok (a\<lparr> aa_pages := aa_pages a @ [p] \<rparr>)" using assms(1) new(2) by (auto simp: allocator_ok_def)
    ultimately show ?thesis using e r'(2) n True by (auto simp: fitted_def)
  qed
qed

section \<open>Uploaded images\<close>

text \<open>
  What the driver does on the manager's calls: a texture is a picture, and an upload
  replaces a rectangle of the bound one by four bytes for each texel, row after row.
\<close>

record atlas_driver =
  dv_bound :: "u32 option"
  dv_texels :: "u32 \<Rightarrow> nat \<times> nat \<Rightarrow> u8 list"

definition texel_of :: "u16 \<Rightarrow> u8 list \<Rightarrow> nat \<Rightarrow> nat \<Rightarrow> u8 list" where
  "texel_of w rgba i j = take 4 (drop (4 * (j * unat w + i)) rgba)"

definition on_bound :: "((nat \<times> nat \<Rightarrow> u8 list) \<Rightarrow> nat \<times> nat \<Rightarrow> u8 list) \<Rightarrow> atlas_driver \<Rightarrow> atlas_driver" where
  "on_bound f d = (case dv_bound d of None \<Rightarrow> d | Some t \<Rightarrow> d\<lparr> dv_texels := (dv_texels d)(t := f (dv_texels d t)) \<rparr>)"

fun exec_atlas :: "atlas_gl \<Rightarrow> atlas_driver \<Rightarrow> atlas_driver" where
  "exec_atlas (BindTexture2D t) d = d\<lparr> dv_bound := t \<rparr>"
| "exec_atlas (AtlasTexImage w h) d = on_bound (\<lambda>_ _. []) d"
| "exec_atlas (TexSubImage2D x y w h rgba) d = on_bound (\<lambda>old (i, j).
     if unat x \<le> i \<and> i < unat x + unat w \<and> unat y \<le> j \<and> j < unat y + unat h
     then texel_of w rgba (i - unat x) (j - unat y) else old (i, j)) d"
| "exec_atlas (AtlasDeleteTexture t) d =
     d\<lparr> dv_bound := (if dv_bound d = Some t then None else dv_bound d), dv_texels := (dv_texels d)(t := (\<lambda>_. [])) \<rparr>"
| "exec_atlas (PixelStoreAlignment n) d = d"
| "exec_atlas (TexParameter p v) d = d"

text \<open>
  A run of the manager. The list holds the entries handed out since the textures were last
  destroyed, each with the pixels it was uploaded with. The driver's names are fresh.
\<close>

type_synonym atlas_world = "atlas_manager \<times> atlas_driver \<times> (atlas_entry \<times> u8 list) list"

inductive atlas_step :: "atlas_world \<Rightarrow> atlas_world \<Rightarrow> bool" where
  upload_step: "upload created m w h rgba = Some (res, m', calls) \<Longrightarrow> length (aa_pages (am_alloc m)) < 2 ^ 32 \<Longrightarrow>
     Some ` set (am_textures m) \<inter> set created = {} \<Longrightarrow>
     atlas_step (m, d, shown) (m', fold exec_atlas calls d, (case res of None \<Rightarrow> shown | Some e \<Rightarrow> (e, rgba) # shown))"
| destroy_step: "atlas_destroy m = (m', calls) \<Longrightarrow> atlas_step (m, d, shown) (m', fold exec_atlas calls d, [])"

definition shows_image :: "atlas_driver \<Rightarrow> atlas_entry \<Rightarrow> u8 list \<Rightarrow> bool" where
  "shows_image d e rgba \<longleftrightarrow> (\<forall>i < unat (ar_w (ae_region e)). \<forall>j < unat (ar_h (ae_region e)).
     dv_texels d (ae_texture e) (unat (ar_x (ae_region e)) + i, unat (ar_y (ae_region e)) + j) = texel_of (ar_w (ae_region e)) rgba i j)"

definition apart_entries :: "atlas_entry \<times> u8 list \<Rightarrow> atlas_entry \<times> u8 list \<Rightarrow> bool" where
  "apart_entries a b \<longleftrightarrow> (ae_texture (fst a) = ae_texture (fst b) \<longrightarrow> pixels (ae_region (fst a)) \<inter> pixels (ae_region (fst b)) = {})"

definition entry_placed :: "atlas_manager \<Rightarrow> atlas_entry \<Rightarrow> bool" where
  "entry_placed m e \<longleftrightarrow> placed (am_alloc m) (ae_region e) \<and> ae_texture e = am_textures m ! unat (ar_atlas_id (ae_region e))"

definition manager_ok :: "atlas_manager \<Rightarrow> bool" where
  "manager_ok m \<longleftrightarrow> allocator_ok (am_alloc m) \<and> length (am_textures m) = length (aa_pages (am_alloc m)) \<and>
     length (am_textures m) \<le> 2 ^ 32 \<and> distinct (am_textures m)"

definition atlas_inv :: "u16 \<Rightarrow> atlas_world \<Rightarrow> bool" where
  "atlas_inv n x \<longleftrightarrow> (case x of (m, d, shown) \<Rightarrow> manager_ok m \<and> aa_atlas_size (am_alloc m) = n \<and>
     (\<forall>(e, rgba) \<in> set shown. entry_placed m e \<and> shows_image d e rgba) \<and> sorted_wrt apart_entries shown)"

lemma ensure_page_texture_cases:
  assumes "ensure_page_texture created m page_id = Some (m', calls)" "unat page_id \<le> length (am_textures m)"
  obtains (kept) "m' = m" "calls = []" "unat page_id < length (am_textures m) \<or> None \<in> set created"
  | (made) t calls' where "unat page_id = length (am_textures m)" "m' = m\<lparr> am_textures := am_textures m @ [t] \<rparr>" "Some t \<in> set created"
      "calls = BindTexture2D (Some t) # AtlasTexImage (aa_atlas_size (am_alloc m)) (aa_atlas_size (am_alloc m)) # calls'"
      "\<And>d. fold exec_atlas calls' d = d\<lparr> dv_bound := None \<rparr>"
proof (cases "unat page_id < length (am_textures m)")
  case True
  then show ?thesis using assms that(1) by (simp add: ensure_page_texture_def Let_def)
next
  case False
  then have n: "unat page_id = length (am_textures m)" using assms(2) by simp
  then have f: "fill_gaps (am_textures m) (unat page_id) created = Some (am_textures m, created)" by simp
  consider "created = []" | cs where "created = None # cs" | t cs where "created = Some t # cs" by (metis list.exhaust option.exhaust)
  then show ?thesis
  proof cases
    case 1
    then show ?thesis using assms(1) False f by (simp add: ensure_page_texture_def Let_def del: fill_gaps.simps)
  next
    case 2
    then show ?thesis using assms(1) False f that(1) by (simp add: ensure_page_texture_def Let_def del: fill_gaps.simps)
  next
    case 3
    then show ?thesis using assms(1) False f that(2) n by (auto simp: ensure_page_texture_def Let_def simp del: fill_gaps.simps)
  qed
qed

lemma entry_placed_mono:
  assumes "entry_placed m e" "manager_ok m" "\<And>q. placed (am_alloc m) q \<Longrightarrow> placed (am_alloc m') q"
    and "am_textures m' = am_textures m @ ts"
  shows "entry_placed m' e"
  using assms by (auto simp: entry_placed_def manager_ok_def placed_def nth_append)

lemma upload_cases:
  assumes "upload created m w h rgba = Some (res, m', calls)" "manager_ok m" "length (aa_pages (am_alloc m)) < 2 ^ 32"
    and "Some ` set (am_textures m) \<inter> set created = {}"
  obtains (refused) "res = None" "m' = m" "calls = []"
  | (stored) r ts calls' where "res = Some \<lparr> ae_texture = am_textures m' ! unat (ar_atlas_id r), ae_region = r \<rparr>"
      "manager_ok m' \<and> aa_atlas_size (am_alloc m') = aa_atlas_size (am_alloc m)" "am_textures m' = am_textures m @ ts" "placed (am_alloc m') r" "ar_w r = w" "ar_h r = h"
      "\<And>q. placed (am_alloc m) q \<Longrightarrow> placed (am_alloc m') q \<and> (ar_atlas_id q = ar_atlas_id r \<longrightarrow> pixels q \<inter> pixels r = {})"
      "calls = calls' @ [BindTexture2D (Some (am_textures m' ! unat (ar_atlas_id r))), PixelStoreAlignment 4,
         TexSubImage2D (ar_x r) (ar_y r) w h rgba, BindTexture2D None]"
      "\<And>d t. t \<in> set (am_textures m) \<Longrightarrow> dv_texels (fold exec_atlas calls' d) t = dv_texels d t"
proof -
  let ?a = "am_alloc m" and ?n = "length (am_textures m)"
  have n: "?n = length (aa_pages ?a)" using assms(2) by (simp add: manager_ok_def)
  obtain r a' where al: "atlas_allocate ?a w h = Some (r, a')" "allocator_ok a' \<and> aa_atlas_size a' = aa_atlas_size ?a" "length (aa_pages ?a) \<le> length (aa_pages a')"
      "length (aa_pages a') \<le> length (aa_pages ?a) + 1"
      "case r of None \<Rightarrow> \<not> packable (aa_atlas_size ?a) w h \<and> a' = ?a
       | Some r \<Rightarrow> packable (aa_atlas_size ?a) w h \<and> ar_w r = w \<and> ar_h r = h \<and> placed a' r \<and>
           (unat (ar_atlas_id r) < length (aa_pages ?a) \<longrightarrow> length (aa_pages a') = length (aa_pages ?a)) \<and>
           (\<forall>q. placed ?a q \<longrightarrow> placed a' q \<and> (ar_atlas_id q = ar_atlas_id r \<longrightarrow> pixels q \<inter> pixels r = {}))"
    using atlas_allocate_spec [of ?a w h] assms(2,3) unfolding manager_ok_def by blast
  show thesis
  proof (cases "length rgba < unat w * unat h * 4 \<or> r = None")
    case True
    then show thesis using assms(1) al(1,5) refused by (auto simp: upload_def split: if_splits)
  next
    case False
    then obtain r' where r': "r = Some r'" by auto
    let ?m = "m\<lparr> am_alloc := a' \<rparr>" and ?id = "unat (ar_atlas_id r')"
    obtain calls0 tex where u: "ensure_page_texture created ?m (ar_atlas_id r') = Some (m', calls0)"
        "idx (am_textures m') ?id = Some tex" "res = Some \<lparr> ae_texture = tex, ae_region = r' \<rparr>"
        "calls = calls0 @ [BindTexture2D (Some tex), PixelStoreAlignment 4, TexSubImage2D (ar_x r') (ar_y r') w h rgba, BindTexture2D None]"
      using assms(1) False al(1) r' by (auto simp: upload_def split: bind_splits)
    have tex: "tex = am_textures m' ! ?id" "?id < length (am_textures m')" using u(2) by (auto simp: idx_eq_Some_iff)
    have fit: "ar_w r' = w" "ar_h r' = h" "placed a' r'"
      and keep: "\<And>q. placed ?a q \<Longrightarrow> placed a' q \<and> (ar_atlas_id q = ar_atlas_id r' \<longrightarrow> pixels q \<inter> pixels r' = {})"
      and same: "?id < ?n \<Longrightarrow> length (aa_pages a') = ?n" using al(5) r' n by auto
    have id: "?id < length (aa_pages a')" using fit(3) by (simp add: placed_def)
    have le: "?id \<le> length (am_textures ?m)" using id al(4) n by simp
    from u(1) le show thesis
    proof (cases rule: ensure_page_texture_cases)
      case kept
      have "?id < ?n" using tex(2) kept(1) by simp
      then have "manager_ok m' \<and> aa_atlas_size (am_alloc m') = aa_atlas_size ?a" using assms(2) al(2) same n kept(1) by (auto simp: manager_ok_def)
      then show thesis using stored [of r' "[]" "[]"] u(3,4) tex(1) fit keep kept(1,2) by simp
    next
      case (made t calls')
      have "?id = ?n" using made(1) by simp
      then have pages: "length (aa_pages a') = Suc ?n" using id al(4) n by simp
      have t: "t \<notin> set (am_textures m)" using assms(4) made(3) by auto
      have "manager_ok m' \<and> aa_atlas_size (am_alloc m') = aa_atlas_size ?a" using assms(2,3) al(2) pages n made(2) t by (auto simp: manager_ok_def)
      moreover have "dv_texels (fold exec_atlas calls0 d) q = dv_texels d q" if "q \<in> set (am_textures m)" for d q
        using that t by (auto simp: made(4,5) on_bound_def)
      ultimately show thesis using stored [of r' "[t]" calls0] u(3,4) tex(1) fit keep made(2) by simp
    qed
  qed
qed

lemma upload_total:
  assumes "manager_ok m" "length (aa_pages (am_alloc m)) < 2 ^ 32"
  shows "\<exists>res m' calls. upload (Some t # created) m w h rgba = Some (res, m', calls) \<and>
    (res = None \<longleftrightarrow> length rgba < unat w * unat h * 4 \<or> \<not> packable (aa_atlas_size (am_alloc m)) w h)"
proof -
  let ?a = "am_alloc m" and ?n = "length (am_textures m)"
  have n: "?n = length (aa_pages ?a)" using assms(1) by (simp add: manager_ok_def)
  obtain r a' where al: "atlas_allocate ?a w h = Some (r, a')" "length (aa_pages a') \<le> ?n + 1" "\<forall>r'. r = Some r' \<longrightarrow> placed a' r'"
      "r = None \<longleftrightarrow> \<not> packable (aa_atlas_size ?a) w h"
    using atlas_allocate_spec [of ?a w h] assms n by (auto simp: manager_ok_def split: option.splits)
  have "unat (ar_atlas_id r') < ?n \<or> unat (ar_atlas_id r') = ?n" if "r = Some r'" for r'
    using al(2,3) that by (auto simp: placed_def)
  then show ?thesis
    using al(4) by (cases r) (auto simp: upload_def al(1) ensure_page_texture_def Let_def)
qed

lemma shows_image_frame:
  assumes "shows_image d e rgba" "\<And>p. p \<in> pixels (ae_region e) \<Longrightarrow> dv_texels d' (ae_texture e) p = dv_texels d (ae_texture e) p"
  shows "shows_image d' e rgba"
  using assms by (auto simp: shows_image_def pixels_def)

lemma texels_after_store:
  "dv_texels (fold exec_atlas (calls @ [BindTexture2D (Some t), PixelStoreAlignment 4, TexSubImage2D (ar_x r) (ar_y r) (ar_w r) (ar_h r) rgba, BindTexture2D None]) d) q (i, j) =
   (if q = t \<and> (i, j) \<in> pixels r then texel_of (ar_w r) rgba (i - unat (ar_x r)) (j - unat (ar_y r)) else dv_texels (fold exec_atlas calls d) q (i, j))"
  by (auto simp: on_bound_def pixels_def)

lemma atlas_step_inv: "atlas_step x y \<Longrightarrow> atlas_inv n x \<Longrightarrow> atlas_inv n y"
proof (induction rule: atlas_step.induct)
  case (upload_step created m w h rgba res m' calls d shown)
  have ok: "manager_ok m" and old: "\<And>e px. (e, px) \<in> set shown \<Longrightarrow> entry_placed m e \<and> shows_image d e px"
    and sorted: "sorted_wrt apart_entries shown" using upload_step.prems by (auto simp: atlas_inv_def)
  from upload_step.hyps(1) ok upload_step.hyps(2,3) show ?case
  proof (cases rule: upload_cases)
    case refused
    then show ?thesis using upload_step.prems by simp
  next
    case (stored r ts calls')
    let ?t = "am_textures m' ! unat (ar_atlas_id r)" and ?d = "fold exec_atlas calls d"
    let ?e = "\<lparr> ae_texture = ?t, ae_region = r \<rparr>"
    have len: "unat (ar_atlas_id r) < length (am_textures m')" using stored(2,4) by (simp add: placed_def manager_ok_def)
    have put: "\<And>q i j. dv_texels ?d q (i, j) = (if q = ?t \<and> (i, j) \<in> pixels r
        then texel_of (ar_w r) rgba (i - unat (ar_x r)) (j - unat (ar_y r)) else dv_texels (fold exec_atlas calls' d) q (i, j))"
      unfolding stored(8) using texels_after_store [of calls' ?t r rgba d] stored(5,6) by simp
    have new: "shows_image ?d ?e rgba" by (auto simp: shows_image_def put) (auto simp: pixels_def)
    have each: "entry_placed m' e \<and> apart_entries (?e, rgba) (e, px) \<and> shows_image ?d e px" if "(e, px) \<in> set shown" for e px
    proof -
      let ?q = "ae_region e"
      have e: "entry_placed m e" "shows_image d e px" using old that by blast+
      have e': "entry_placed m' e" by (rule entry_placed_mono [OF e(1) ok _ stored(3)]) (use stored(7) in blast)
      have q: "placed (am_alloc m) ?q" "ae_texture e = am_textures m' ! unat (ar_atlas_id ?q)"
        using e(1) e' by (simp_all add: entry_placed_def)
      have tex: "ae_texture e \<in> set (am_textures m)"
        using e(1) ok by (auto simp: entry_placed_def placed_def manager_ok_def)
      have lenq: "unat (ar_atlas_id ?q) < length (am_textures m')"
        using stored(2,7) q(1) by (auto simp: placed_def manager_ok_def)
      have "ae_texture e = ?t \<Longrightarrow> ar_atlas_id ?q = ar_atlas_id r"
        using stored(2) q(2) lenq len unfolding manager_ok_def by (metis nth_eq_iff_index_eq unsigned_word_eqI)
      then have sep: "ae_texture e = ?t \<Longrightarrow> pixels ?q \<inter> pixels r = {}" using stored(7) [OF q(1)] by blast
      have "dv_texels ?d (ae_texture e) p = dv_texels d (ae_texture e) p" if "p \<in> pixels ?q" for p
        using sep that stored(9) [OF tex, of d] put [of _ "fst p" "snd p"] by auto
      then show ?thesis using e' e(2) sep by (auto simp: apart_entries_def intro: shows_image_frame)
    qed
    have "entry_placed m' ?e" using stored(4) by (simp add: entry_placed_def)
    then show ?thesis using stored(1,2) new each sorted upload_step.prems by (auto simp: atlas_inv_def)
  qed
next
  case (destroy_step m m' calls d shown)
  then show ?case by (auto simp: atlas_inv_def atlas_destroy_def manager_ok_def allocator_ok_def allocator_clear_def)
qed

lemma atlas_initial: "atlas_inv n (with_atlas_size n, d, [])"
  by (simp add: atlas_inv_def with_atlas_size_def manager_ok_def allocator_ok_def allocator_new_def)

lemma atlas_reachable: "atlas_step\<^sup>*\<^sup>* (with_atlas_size n, d, []) x \<Longrightarrow> atlas_inv n x"
  by (induction rule: rtranclp_induct) (rule atlas_initial, rule atlas_step_inv)

lemma placed_inside:
  assumes "allocator_ok a" "placed a r"
  shows "unat (ar_x r) + unat (ar_w r) < unat (aa_atlas_size a) \<and> unat (ar_y r) + unat (ar_h r) < unat (aa_atlas_size a)"
proof -
  let ?p = "aa_pages a ! unat (ar_atlas_id r)"
  have p: "page_ok (aa_atlas_size a) ?p" "shelved (pg_shelves ?p) r" using assms by (auto simp: allocator_ok_def placed_def)
  then show ?thesis using stacked_shelved [of 0 "pg_shelves ?p" "unat (pg_next_shelf_y ?p)" r]
    by (fastforce simp: page_ok_def on_shelf_def word_le_nat_alt)
qed

text \<open>
  C19. Images in the atlas stay intact. In every run of uploads and resets, each entry
  handed out lies inside its page with the padding to spare, no two entries of a page share
  a pixel, and the texture still holds, at every pixel of the entry, the bytes it was
  uploaded with. No upload panics while the driver can create textures, and one is refused
  only if it brings too few bytes, is empty, exceeds the input limit or does not fit a page.
\<close>

theorem atlas_images_stay_intact:
  assumes "atlas_step\<^sup>*\<^sup>* (with_atlas_size n, d, []) (m, d', shown)"
  shows "(\<forall>(e, rgba) \<in> set shown. shows_image d' e rgba \<and>
      unat (ar_x (ae_region e)) + unat (ar_w (ae_region e)) < unat n \<and>
      unat (ar_y (ae_region e)) + unat (ar_h (ae_region e)) < unat n) \<and>
    sorted_wrt apart_entries shown \<and>
    (length (aa_pages (am_alloc m)) < 2 ^ 32 \<longrightarrow> (\<forall>t w h rgba. \<exists>res m' calls. upload [Some t] m w h rgba = Some (res, m', calls) \<and>
      (res = None \<longleftrightarrow> length rgba < unat w * unat h * 4 \<or> \<not> packable n w h)))"
proof -
  have inv: "manager_ok m" "aa_atlas_size (am_alloc m) = n" "sorted_wrt apart_entries shown"
    "\<And>e rgba. (e, rgba) \<in> set shown \<Longrightarrow> entry_placed m e \<and> shows_image d' e rgba"
    using atlas_reachable [OF assms] by (auto simp: atlas_inv_def)
  have "unat (ar_x (ae_region e)) + unat (ar_w (ae_region e)) < unat n \<and>
      unat (ar_y (ae_region e)) + unat (ar_h (ae_region e)) < unat n" if "(e, rgba) \<in> set shown" for e rgba
    using placed_inside [of "am_alloc m" "ae_region e"] inv(1,2) inv(4) [OF that] by (auto simp: manager_ok_def entry_placed_def)
  then show ?thesis using inv upload_total [OF inv(1), of _ "[]"] by auto
qed

text \<open>
  When creating the texture of a page fails, the code logs it and goes on to the list
  index, which panics: the page was counted by the packer and has no texture.
\<close>

lemma failed_page_texture_panics: "upload [None] (with_atlas_size DEFAULT_ATLAS_SIZE) 1 1 [0, 0, 0, 0] = None"
  by (simp add: upload_def atlas_allocate_def with_atlas_size_def allocator_new_def checked_add_def try_fit_in_page_def exact_sub_def
      ensure_page_texture_def Let_def idx_def)

theorem atlas_images_stay_intact_witness:
  "\<exists>m d shown. atlas_step\<^sup>*\<^sup>* (with_atlas_size 16, \<lparr> dv_bound = None, dv_texels = \<lambda>_ _. [] \<rparr>, []) (m, d, shown) \<and>
     map (\<lambda>(e, rgba). (ae_texture e, unat (ar_x (ae_region e)), rgba)) shown = [(7, 2, [5, 6, 7, 8]), (7, 0, [1, 2, 3, 4])] \<and>
     dv_texels d 7 (0, 0) = [1, 2, 3, 4] \<and> dv_texels d 7 (2, 0) = [5, 6, 7, 8]"
proof -
  let ?m0 = "with_atlas_size 16" and ?d0 = "\<lparr> dv_bound = None, dv_texels = \<lambda>_ _. [] \<rparr>"
  note eval = upload_def atlas_allocate_def with_atlas_size_def allocator_new_def checked_add_def try_fit_in_page_def exact_sub_def
    ensure_page_texture_def Let_def
  obtain e1 m1 c1 where u1: "upload [Some 7] ?m0 1 1 [1, 2, 3, 4] = Some (Some e1, m1, c1)"
    and m1: "am_textures m1 = [7]" "length (aa_pages (am_alloc m1)) = 1"
      "m1 = \<lparr> am_alloc = \<lparr> aa_atlas_size = 16, aa_pages = [\<lparr> pg_shelves = [\<lparr> sh_y = 0, sh_height = 2, sh_cursor_x = 2 \<rparr>], pg_next_shelf_y = 2 \<rparr>] \<rparr>, am_textures = [7] \<rparr>"
    and e1: "e1 = \<lparr> ae_texture = 7, ae_region = \<lparr> ar_atlas_id = 0, ar_x = 0, ar_y = 0, ar_w = 1, ar_h = 1 \<rparr> \<rparr>"
    by (simp add: eval)
  obtain e2 m2 c2 where u2: "upload [] m1 1 1 [5, 6, 7, 8] = Some (Some e2, m2, c2)"
    and e2: "e2 = \<lparr> ae_texture = 7, ae_region = \<lparr> ar_atlas_id = 0, ar_x = 2, ar_y = 0, ar_w = 1, ar_h = 1 \<rparr> \<rparr>"
    by (simp add: m1(3) eval)
  let ?d2 = "fold exec_atlas c2 (fold exec_atlas c1 ?d0)"
  have s1: "atlas_step (?m0, ?d0, []) (m1, fold exec_atlas c1 ?d0, [(e1, [1, 2, 3, 4])])"
    using upload_step [OF u1] by (simp add: with_atlas_size_def allocator_new_def)
  have s2: "atlas_step (m1, fold exec_atlas c1 ?d0, [(e1, [1, 2, 3, 4])]) (m2, ?d2, [(e2, [5, 6, 7, 8]), (e1, [1, 2, 3, 4])])"
    using upload_step [OF u2] m1(1,2) by simp
  have run: "atlas_step\<^sup>*\<^sup>* (?m0, ?d0, []) (m2, ?d2, [(e2, [5, 6, 7, 8]), (e1, [1, 2, 3, 4])])"
    using s1 s2 by (meson rtranclp.rtrancl_into_rtrancl rtranclp.rtrancl_refl)
  have "dv_texels ?d2 7 (0, 0) = [1, 2, 3, 4] \<and> dv_texels ?d2 7 (2, 0) = [5, 6, 7, 8]"
    using atlas_images_stay_intact [OF run] by (simp add: e1 e2 shows_image_def texel_of_def)
  then show ?thesis using run e1 e2
    by (intro exI [of _ m2] exI [of _ ?d2] exI [of _ "[(e2, [5, 6, 7, 8]), (e1, [1, 2, 3, 4])]"]) simp
qed

end
