(* ===== verification/Sketch.thy ===== *)
theory Sketch
  imports Prelude
begin

text \<open>
  The frequency sketch of the image cache (\<open>io/src/count_min_sketch.rs\<close>): four rows of
  4-bit counters, packed two to a byte, that are halved from time to time. The hash
  function is a parameter, from a salt and a key to 64 bits; nothing is assumed of it.
\<close>

unbundle bit_operations_syntax

section \<open>The sketch\<close>

abbreviation (input) HASH_ROWS :: nat where "HASH_ROWS \<equiv> 4"
abbreviation (input) MAX_COUNT :: u8 where "MAX_COUNT \<equiv> 15"

definition ROW_SALTS :: "u64 list" where
  "ROW_SALTS = [0x9E3779B97F4A7C15, 0xBF58476D1CE4E5B9, 0x94D049BB133111EB, 0xCBF29CE484222325]"

record count_min_sketch =
  cs_counters :: "u8 list"
  cs_slots_per_row :: nat
  cs_slot_mask :: nat
  cs_sample_count :: u64
  cs_sample_size :: u64

text \<open>\<open>usize::next_power_of_two\<close> and \<open>usize::div_ceil\<close>\<close>

definition next_power_of_two :: "nat \<Rightarrow> nat" where
  "next_power_of_two n = (if n \<le> 1 then 1 else 2 ^ bit_length (n - 1))"

definition div_ceil :: "nat \<Rightarrow> nat \<Rightarrow> nat" where
  "div_ceil a b = (a + b - 1) div b"

text \<open>Asking for a vector of more than \<open>isize::MAX\<close> bytes panics.\<close>

definition new_for_capacity :: "nat \<Rightarrow> count_min_sketch option" where
  "new_for_capacity capacity =
     (let cap = max capacity 256; slots = next_power_of_two cap; bytes_per_row = div_ceil slots 2 in
      if bytes_per_row * HASH_ROWS < 2 ^ 63
      then Some \<lparr> cs_counters = replicate (bytes_per_row * HASH_ROWS) 0, cs_slots_per_row = slots,
                  cs_slot_mask = slots - 1, cs_sample_count = 0,
                  cs_sample_size = word_of_nat (min (cap * 10) (2 ^ 64 - 1)) \<rparr>
      else Panic)"

definition sketch_index :: "(u64 \<Rightarrow> 'k \<Rightarrow> u64) \<Rightarrow> count_min_sketch \<Rightarrow> nat \<Rightarrow> 'k \<Rightarrow> nat" where
  "sketch_index hash sk row key = unat (hash (ROW_SALTS ! row) key) AND cs_slot_mask sk"

definition locate :: "count_min_sketch \<Rightarrow> nat \<Rightarrow> nat \<Rightarrow> nat \<times> bool" where
  "locate sk row i = (row * div_ceil (cs_slots_per_row sk) 2 + i div 2, i AND 1 = 1)"

definition read_counter :: "count_min_sketch \<Rightarrow> nat \<Rightarrow> nat \<Rightarrow> u8 option" where
  "read_counter sk row i = (let (byte, hi) = locate sk row i in do {
     b \<leftarrow> idx (cs_counters sk) byte;
     Some (if hi then drop_bit 4 b AND 0x0F else b AND 0x0F) })"

definition write_counter :: "count_min_sketch \<Rightarrow> nat \<Rightarrow> nat \<Rightarrow> u8 \<Rightarrow> count_min_sketch option" where
  "write_counter sk row i val = (let (byte, hi) = locate sk row i in do {
     b \<leftarrow> idx (cs_counters sk) byte;
     Some (sk\<lparr> cs_counters := (cs_counters sk)[byte := (if hi then (b AND 0x0F) OR push_bit 4 val else (b AND 0xF0) OR val)] \<rparr>) })"

definition age_byte :: "u8 \<Rightarrow> u8" where
  "age_byte b = (drop_bit 1 (b AND 0x0F)) OR (drop_bit 1 (b AND 0xF0) AND 0xF0)"

definition age :: "count_min_sketch \<Rightarrow> count_min_sketch" where
  "age sk = sk\<lparr> cs_counters := map age_byte (cs_counters sk), cs_sample_count := cs_sample_count sk div 2 \<rparr>"

definition sketch_reset :: "count_min_sketch \<Rightarrow> count_min_sketch" where
  "sketch_reset sk = sk\<lparr> cs_counters := map (\<lambda>_. 0) (cs_counters sk), cs_sample_count := 0 \<rparr>"

text \<open>The body of the loop over the rows in \<open>increment\<close>.\<close>

definition bump_row :: "(u64 \<Rightarrow> 'k \<Rightarrow> u64) \<Rightarrow> 'k \<Rightarrow> count_min_sketch \<times> u8 \<times> bool \<Rightarrow> nat \<Rightarrow> (count_min_sketch \<times> u8 \<times> bool) option" where
  "bump_row hash key s row = (let (sk, min_after, bumped) = s; i = sketch_index hash sk row key in do {
     cur \<leftarrow> read_counter sk row i;
     if cur < MAX_COUNT then do {
       sk \<leftarrow> write_counter sk row i (cur + 1);
       Some (sk, min min_after (cur + 1), True) }
     else Some (sk, min min_after MAX_COUNT, bumped) })"

definition increment :: "(u64 \<Rightarrow> 'k \<Rightarrow> u64) \<Rightarrow> count_min_sketch \<Rightarrow> 'k \<Rightarrow> (count_min_sketch \<times> u8) option" where
  "increment hash sk key = do {
     (sk, min_after, bumped) \<leftarrow> fold_opt (bump_row hash key) (sk, MAX_COUNT, False) [0..<HASH_ROWS];
     if bumped then do {
       let sk = sk\<lparr> cs_sample_count := saturating_add (cs_sample_count sk) 1 \<rparr>;
       Some (if cs_sample_count sk \<ge> cs_sample_size sk then age sk else sk, min_after) }
     else Some (sk, min_after) }"

definition estimate :: "(u64 \<Rightarrow> 'k \<Rightarrow> u64) \<Rightarrow> count_min_sketch \<Rightarrow> 'k \<Rightarrow> u8 option" where
  "estimate hash sk key = fold_opt (\<lambda>m row. do {
     c \<leftarrow> read_counter sk row (sketch_index hash sk row key);
     Some (min m c) }) MAX_COUNT [0..<HASH_ROWS]"

section \<open>Counters\<close>

definition sketch_ok :: "count_min_sketch \<Rightarrow> bool" where
  "sketch_ok sk \<longleftrightarrow> (\<exists>k. cs_slots_per_row sk = 2 ^ Suc k) \<and> cs_slot_mask sk = cs_slots_per_row sk - 1 \<and>
     length (cs_counters sk) = HASH_ROWS * (cs_slots_per_row sk div 2)"

definition nibble :: "bool \<Rightarrow> u8 \<Rightarrow> u8" where
  "nibble hi b = (if hi then drop_bit 4 b AND 0x0F else b AND 0x0F)"

definition put_nibble :: "bool \<Rightarrow> u8 \<Rightarrow> u8 \<Rightarrow> u8" where
  "put_nibble hi val b = (if hi then (b AND 0x0F) OR push_bit 4 val else (b AND 0xF0) OR val)"

lemma nibble_masks: "(0x0F :: u8) = mask 4" "(0xF0 :: u8) = push_bit 4 (mask 4)"
  by (simp_all add: mask_eq_exp_minus_1 push_bit_eq_mult)

lemma low_nibble_bits:
  assumes "(v :: u8) \<le> 15"
  shows "bit v n \<Longrightarrow> n < 4"
proof -
  have "take_bit 4 v = v" using assms by (intro take_bit_small) (simp add: word_le_nat_alt)
  then show "bit v n \<Longrightarrow> n < 4" by (metis bit_take_bit_iff)
qed

lemma nibble_put:
  assumes "v \<le> 15"
  shows "nibble hi (put_nibble hi' v b) = (if hi = hi' then v else nibble hi b)"
  unfolding nibble_def put_nibble_def nibble_masks
  by (rule bit_word_eqI) (auto simp: bit_simps dest: low_nibble_bits [OF assms])

lemma nibble_age: "nibble hi (age_byte b) = drop_bit 1 (nibble hi b)"
  unfolding nibble_def age_byte_def nibble_masks
  by (rule bit_word_eqI) (auto simp: bit_simps)

lemma nibble_small: "nibble hi b \<le> 15"
  by (auto simp: nibble_def word_and_le1 word_and_le2)

lemma nibble_0 [simp]: "nibble hi 0 = 0"
  by (simp add: nibble_def)

definition counter :: "count_min_sketch \<Rightarrow> nat \<Rightarrow> nat \<Rightarrow> u8" where
  "counter sk row i = nibble (odd i) (cs_counters sk ! (row * (cs_slots_per_row sk div 2) + i div 2))"

lemma sketch_slots:
  assumes "sketch_ok sk"
  shows "div_ceil (cs_slots_per_row sk) 2 = cs_slots_per_row sk div 2" "even (cs_slots_per_row sk)" "0 < cs_slots_per_row sk"
  using assms by (auto simp: sketch_ok_def div_ceil_def)

lemma sketch_index_bound: "sketch_ok sk \<Longrightarrow> sketch_index hash sk row key < cs_slots_per_row sk"
proof -
  assume "sketch_ok sk"
  then obtain k where "cs_slots_per_row sk = 2 ^ k" "cs_slot_mask sk = mask k"
    by (auto simp: sketch_ok_def mask_eq_exp_minus_1 simp del: power_Suc)
  then show ?thesis by (simp add: sketch_index_def flip: take_bit_eq_mask)
qed

lemma place_bound:
  assumes "sketch_ok sk" "row < HASH_ROWS" "i < cs_slots_per_row sk"
  shows "row * (cs_slots_per_row sk div 2) + i div 2 < length (cs_counters sk)"
proof -
  let ?h = "cs_slots_per_row sk div 2"
  have "i div 2 < ?h" using assms(3) sketch_slots(2) [OF assms(1)] by (auto elim!: evenE)
  then have "row * ?h + i div 2 < Suc row * ?h" by simp
  also have "\<dots> \<le> HASH_ROWS * ?h" using assms(2) by (intro mult_le_mono1) simp
  finally show ?thesis using assms(1) by (simp add: sketch_ok_def)
qed

lemma place_inject:
  fixes h :: nat
  assumes "i < 2 * h" "j < 2 * h" "row * h + i div 2 = row' * h + j div 2" "odd i = odd j"
  shows "row = row' \<and> i = j"
proof -
  have b: "i div 2 < h" "j div 2 < h" using assms(1,2) by auto
  have "(row * h + i div 2) div h = row" "(row' * h + j div 2) div h = row'" using b by auto
  then have "row = row'" using assms(3) by simp
  then show ?thesis using assms(3,4) by simp (metis div_mult_mod_eq parity_cases odd_iff_mod_2_eq_one even_iff_mod_2_eq_zero)
qed

lemma read_counter_eq:
  "sketch_ok sk \<Longrightarrow> row < HASH_ROWS \<Longrightarrow> i < cs_slots_per_row sk \<Longrightarrow> read_counter sk row i = Some (counter sk row i)"
  using place_bound [of sk row i]
  by (auto simp: read_counter_def locate_def sketch_slots counter_def nibble_def and_one_eq odd_iff_mod_2_eq_one)

lemma write_counter_eq:
  assumes "sketch_ok sk" "row < HASH_ROWS" "i < cs_slots_per_row sk" "v \<le> 15"
  shows "\<exists>cells. write_counter sk row i v = Some (sk\<lparr> cs_counters := cells \<rparr>) \<and> sketch_ok (sk\<lparr> cs_counters := cells \<rparr>) \<and>
    (\<forall>row' < HASH_ROWS. \<forall>j < cs_slots_per_row sk. counter (sk\<lparr> cs_counters := cells \<rparr>) row' j = (if row' = row \<and> j = i then v else counter sk row' j))"
proof -
  let ?h = "cs_slots_per_row sk div 2"
  let ?p = "row * ?h + i div 2"
  let ?cells = "(cs_counters sk)[?p := put_nibble (odd i) v (cs_counters sk ! ?p)]"
  have p: "?p < length (cs_counters sk)" by (rule place_bound [OF assms(1-3)])
  have h: "cs_slots_per_row sk = 2 * ?h" using sketch_slots(2) [OF assms(1)] by simp
  have "write_counter sk row i v = Some (sk\<lparr> cs_counters := ?cells \<rparr>)"
    using p by (auto simp: write_counter_def locate_def sketch_slots [OF assms(1)] put_nibble_def and_one_eq odd_iff_mod_2_eq_one)
  moreover have "sketch_ok (sk\<lparr> cs_counters := ?cells \<rparr>)" using assms(1) by (simp add: sketch_ok_def)
  moreover have "counter (sk\<lparr> cs_counters := ?cells \<rparr>) row' j = (if row' = row \<and> j = i then v else counter sk row' j)"
    if "row' < HASH_ROWS" "j < cs_slots_per_row sk" for row' j
  proof (cases "row' * ?h + j div 2 = ?p")
    case True
    then have "odd j = odd i \<longleftrightarrow> row' = row \<and> j = i"
      using place_inject [of j ?h i row' row] that(2) assms(3) h by auto
    then show ?thesis using True p assms(4) by (auto simp: counter_def nibble_put)
  next
    case False
    then show ?thesis by (auto simp: counter_def)
  qed
  ultimately show ?thesis by blast
qed

lemma counter_age:
  assumes "sketch_ok sk" "row < HASH_ROWS" "i < cs_slots_per_row sk"
  shows "counter (age sk) row i = drop_bit 1 (counter sk row i)"
  using place_bound [OF assms] by (simp add: counter_def age_def nibble_age)

lemma counter_reset:
  assumes "sketch_ok sk" "row < HASH_ROWS" "i < cs_slots_per_row sk"
  shows "counter (sketch_reset sk) row i = 0"
  using place_bound [OF assms] by (simp add: counter_def sketch_reset_def)

lemma counter_small: "counter sk row i \<le> 15"
  by (simp add: counter_def nibble_small)

lemma sketch_ok_simps: "sketch_ok (age sk) = sketch_ok sk" "sketch_ok (sketch_reset sk) = sketch_ok sk"
  "sketch_ok (sk\<lparr> cs_sample_count := n \<rparr>) = sketch_ok sk"
  "sketch_index hash (age sk) = sketch_index hash sk" "sketch_index hash (sketch_reset sk) = sketch_index hash sk"
  "sketch_index hash (sk\<lparr> cs_sample_count := n \<rparr>) = sketch_index hash sk"
  "sketch_index hash (sk\<lparr> cs_counters := cells \<rparr>) = sketch_index hash sk"
  "counter (sk\<lparr> cs_sample_count := n \<rparr>) = counter sk"
  by (auto simp: sketch_ok_def age_def sketch_reset_def sketch_index_def counter_def fun_eq_iff)

section \<open>Rows\<close>

definition bump :: "u8 \<Rightarrow> u8" where
  "bump c = (if c < 15 then c + 1 else c)"

abbreviation row_counter :: "(u64 \<Rightarrow> 'k \<Rightarrow> u64) \<Rightarrow> count_min_sketch \<Rightarrow> 'k \<Rightarrow> nat \<Rightarrow> u8" where
  "row_counter hash sk key row \<equiv> counter sk row (sketch_index hash sk row key)"

lemma bump_small: "bump c \<le> 15 \<longleftrightarrow> c \<le> 15"
  by (auto simp: bump_def inc_le)

lemma unat_bump: "c \<le> 15 \<Longrightarrow> unat (bump c) = min 15 (unat c + 1)"
  by (auto simp: bump_def unat_word_ariths word_less_nat_alt word_le_nat_alt)

lemma bump_rows:
  assumes "sketch_ok sk" "distinct rows" "set rows \<subseteq> {..<HASH_ROWS}" "m \<le> 15"
  shows "\<exists>cells m' b'. fold_opt (bump_row hash key) (sk, m, b) rows = Some (sk\<lparr> cs_counters := cells \<rparr>, m', b') \<and>
    sketch_ok (sk\<lparr> cs_counters := cells \<rparr>) \<and> m' = foldl min m (map (bump \<circ> row_counter hash sk key) rows) \<and>
    b' = (b \<or> (\<exists>r \<in> set rows. row_counter hash sk key r < 15)) \<and>
    (\<forall>r < HASH_ROWS. \<forall>j < cs_slots_per_row sk. counter (sk\<lparr> cs_counters := cells \<rparr>) r j =
       (if r \<in> set rows \<and> j = sketch_index hash sk r key then bump (counter sk r j) else counter sk r j))"
  using assms
proof (induction rows arbitrary: sk m b)
  case Nil
  then show ?case by (intro exI [of _ "cs_counters sk"]) simp
next
  case (Cons r rows)
  let ?i = "sketch_index hash sk r key" and ?c = "row_counter hash sk key r"
  have r: "r < HASH_ROWS" "r \<notin> set rows" and i: "?i < cs_slots_per_row sk"
    using Cons.prems by (auto simp: sketch_index_bound)
  obtain cells where w: "sketch_ok (sk\<lparr> cs_counters := cells \<rparr>)"
      "bump_row hash key (sk, m, b) r = Some (sk\<lparr> cs_counters := cells \<rparr>, min m (bump ?c), b \<or> ?c < 15)"
      "\<And>r' j. r' < HASH_ROWS \<Longrightarrow> j < cs_slots_per_row sk \<Longrightarrow>
         counter (sk\<lparr> cs_counters := cells \<rparr>) r' j = (if r' = r \<and> j = ?i then bump ?c else counter sk r' j)"
  proof (cases "?c < 15")
    case True
    then have "?c + 1 \<le> 15" by (rule inc_le)
    then show ?thesis using write_counter_eq [OF Cons.prems(1) r(1) i, of "?c + 1"] True that
      by (auto simp: bump_row_def read_counter_eq [OF Cons.prems(1) r(1) i] bump_def)
  next
    case False
    then have "?c = 15" using counter_small [of sk r ?i] by simp
    then show ?thesis using that [of "cs_counters sk"] Cons.prems(1)
      by (auto simp: bump_row_def read_counter_eq [OF Cons.prems(1) r(1) i] bump_def)
  qed
  let ?sk = "sk\<lparr> cs_counters := cells \<rparr>"
  have m: "min m (bump ?c) \<le> 15" using Cons.prems(4) by (simp add: min.coboundedI1)
  have same: "row_counter hash ?sk key q = row_counter hash sk key q" if "q \<in> set rows" for q
    using w(3) [of q "sketch_index hash sk q key"] that r Cons.prems(1,3) by (auto simp: sketch_ok_simps sketch_index_bound)
  have rows: "map (bump \<circ> row_counter hash ?sk key) rows = map (bump \<circ> row_counter hash sk key) rows"
    using same by simp
  obtain cells' m' b' where f: "fold_opt (bump_row hash key) (?sk, min m (bump ?c), b \<or> ?c < 15) rows = Some (sk\<lparr> cs_counters := cells' \<rparr>, m', b')"
      "sketch_ok (sk\<lparr> cs_counters := cells' \<rparr>)" "m' = foldl min (min m (bump ?c)) (map (bump \<circ> row_counter hash sk key) rows)"
      "b' = (b \<or> ?c < 15 \<or> (\<exists>q \<in> set rows. row_counter hash ?sk key q < 15))"
      "\<forall>q < HASH_ROWS. \<forall>j < cs_slots_per_row sk. counter (sk\<lparr> cs_counters := cells' \<rparr>) q j =
         (if q \<in> set rows \<and> j = sketch_index hash sk q key then bump (counter ?sk q j) else counter ?sk q j)"
    using Cons.IH [OF w(1) _ _ m, of "b \<or> ?c < 15"] Cons.prems(2,3) unfolding rows by (auto simp: sketch_ok_simps)
  have "b' = (b \<or> (\<exists>q \<in> set (r # rows). row_counter hash sk key q < 15))" using f(4) same by auto
  moreover have "counter (sk\<lparr> cs_counters := cells' \<rparr>) q j =
      (if q \<in> set (r # rows) \<and> j = sketch_index hash sk q key then bump (counter sk q j) else counter sk q j)"
    if "q < HASH_ROWS" "j < cs_slots_per_row sk" for q j
    using f(5) w(3) [OF that] that r(2) by auto
  ultimately show ?case using f(1-3) w(2) by (intro exI [of _ cells'] exI [of _ m'] exI [of _ b']) (simp add: comp_def)
qed

section \<open>Frequencies\<close>

text \<open>
  The reference: a counter for each key that saturates at fifteen and is halved whenever
  the sketch is.
\<close>

definition due :: "(u64 \<Rightarrow> 'k \<Rightarrow> u64) \<Rightarrow> count_min_sketch \<Rightarrow> 'k \<Rightarrow> bool" where
  "due hash sk key \<longleftrightarrow> saturating_add (cs_sample_count sk) 1 \<ge> cs_sample_size sk \<and> (\<exists>r < HASH_ROWS. row_counter hash sk key r < 15)"

definition counted :: "'k \<Rightarrow> ('k \<Rightarrow> nat) \<Rightarrow> 'k \<Rightarrow> nat" where
  "counted key freq = freq(key := min 15 (freq key + 1))"

definition isolated :: "(u64 \<Rightarrow> 'k \<Rightarrow> u64) \<Rightarrow> count_min_sketch \<Rightarrow> 'k set \<Rightarrow> nat \<Rightarrow> 'k \<Rightarrow> bool" where
  "isolated hash sk seen r key \<longleftrightarrow> (\<forall>other \<in> seen. sketch_index hash sk r other = sketch_index hash sk r key \<longrightarrow> other = key)"

definition covers :: "(u64 \<Rightarrow> 'k \<Rightarrow> u64) \<Rightarrow> count_min_sketch \<Rightarrow> ('k \<Rightarrow> nat) \<Rightarrow> 'k set \<Rightarrow> bool" where
  "covers hash sk freq seen \<longleftrightarrow> sketch_ok sk \<and> (\<forall>key. \<forall>r < HASH_ROWS. freq key \<le> unat (row_counter hash sk key r) \<and>
     (isolated hash sk seen r key \<longrightarrow> unat (row_counter hash sk key r) = freq key))"

inductive sketch_step :: "(u64 \<Rightarrow> 'k \<Rightarrow> u64) \<Rightarrow> count_min_sketch \<times> ('k \<Rightarrow> nat) \<times> 'k set \<Rightarrow> count_min_sketch \<times> ('k \<Rightarrow> nat) \<times> 'k set \<Rightarrow> bool"
  for hash where
  incremented: "increment hash sk key = Some (sk', n) \<Longrightarrow>
     sketch_step hash (sk, freq, seen) (sk', (if due hash sk key then (\<lambda>k. counted key freq k div 2) else counted key freq), insert key seen)"
| aged: "sketch_step hash (sk, freq, seen) (age sk, (\<lambda>k. freq k div 2), seen)"
| was_reset: "sketch_step hash (sk, freq, seen) (sketch_reset sk, (\<lambda>_. 0), {})"

lemma upt_rows: "[0..<HASH_ROWS] = [0, 1, 2, 3]"
  by (simp add: upt_rec)

lemma foldl_min_in: "foldl min (m :: 'a::linorder) xs \<in> insert m (set xs)"
proof (induction xs arbitrary: m)
  case (Cons x xs)
  then show ?case using Cons.IH [of "min m x"] by (auto simp: min_def split: if_splits)
qed simp

lemma foldl_min_start: "foldl min (m :: 'a::linorder) xs \<le> m"
  by (induction xs arbitrary: m) (simp_all, metis min.bounded_iff)

lemma foldl_min_le: "x \<in> insert m (set xs) \<Longrightarrow> foldl min (m :: 'a::linorder) xs \<le> x"
proof (induction xs arbitrary: m)
  case (Cons y xs)
  then show ?case using foldl_min_start [of "min m y" xs] by auto
qed simp

lemma estimate_eq:
  assumes "sketch_ok sk"
  shows "estimate hash sk key = Some (foldl min 15 (map (row_counter hash sk key) [0..<HASH_ROWS]))"
  using assms by (simp add: estimate_def upt_rows read_counter_eq sketch_index_bound)

lemma increment_spec:
  assumes "sketch_ok sk"
  obtains sk1 sk' where "increment hash sk key = Some (sk', foldl min 15 (map (bump \<circ> row_counter hash sk key) [0..<HASH_ROWS]))"
    "sketch_ok sk1" "sk' = (if due hash sk key then age sk1 else sk1)" "sketch_index hash sk1 = sketch_index hash sk"
    "cs_slots_per_row sk1 = cs_slots_per_row sk"
    "\<And>r j. r < HASH_ROWS \<Longrightarrow> j < cs_slots_per_row sk \<Longrightarrow>
       counter sk1 r j = (if j = sketch_index hash sk r key then bump (counter sk r j) else counter sk r j)"
proof -
  let ?m = "foldl min 15 (map (bump \<circ> row_counter hash sk key) [0..<HASH_ROWS])"
  obtain cells b where f: "fold_opt (bump_row hash key) (sk, 15, False) [0..<HASH_ROWS] = Some (sk\<lparr> cs_counters := cells \<rparr>, ?m, b)"
      "sketch_ok (sk\<lparr> cs_counters := cells \<rparr>)" "b = (\<exists>r < HASH_ROWS. row_counter hash sk key r < 15)"
      "\<forall>r < HASH_ROWS. \<forall>j < cs_slots_per_row sk. counter (sk\<lparr> cs_counters := cells \<rparr>) r j =
         (if j = sketch_index hash sk r key then bump (counter sk r j) else counter sk r j)"
    using bump_rows [OF assms, of "[0..<HASH_ROWS]" 15 hash key False] by (auto simp: atLeast0LessThan Bex_def simp del: upt_Suc)
  let ?sk = "sk\<lparr> cs_counters := cells \<rparr>"
  let ?sk1 = "if b then ?sk\<lparr> cs_sample_count := saturating_add (cs_sample_count sk) 1 \<rparr> else ?sk"
  have "increment hash sk key = Some (if due hash sk key then age ?sk1 else ?sk1, ?m)"
    using f(3) by (auto simp: increment_def f(1) due_def Let_def)
  moreover have "sketch_ok ?sk1" "sketch_index hash ?sk1 = sketch_index hash sk" "cs_slots_per_row ?sk1 = cs_slots_per_row sk"
    using f(2) by (simp_all add: sketch_ok_simps)
  moreover have "counter ?sk1 = counter ?sk" by (simp add: sketch_ok_simps)
  ultimately show thesis using that [of "if due hash sk key then age ?sk1 else ?sk1" ?sk1] f(4) by simp
qed

lemma increment_total:
  assumes "sketch_ok sk"
  shows "\<exists>sk' n. increment hash sk key = Some (sk', n) \<and> sketch_ok sk'"
  by (rule increment_spec [OF assms, of hash key]) (simp add: sketch_ok_simps)

lemma covers_age: "covers hash sk freq seen \<Longrightarrow> covers hash (age sk) (\<lambda>k. freq k div 2) seen"
  by (auto simp: covers_def sketch_ok_simps counter_age sketch_index_bound isolated_def drop_bit_eq_div unat_div div_le_mono)

lemma covers_counted:
  assumes "covers hash sk freq seen" "sketch_ok sk1" "sketch_index hash sk1 = sketch_index hash sk"
    and "\<And>r j. r < HASH_ROWS \<Longrightarrow> j < cs_slots_per_row sk \<Longrightarrow>
       counter sk1 r j = (if j = sketch_index hash sk r key then bump (counter sk r j) else counter sk r j)"
  shows "covers hash sk1 (counted key freq) (insert key seen)"
proof -
  have ok: "sketch_ok sk" using assms(1) by (simp add: covers_def)
  have "counted key freq k \<le> unat (row_counter hash sk1 k r) \<and>
      (isolated hash sk1 (insert key seen) r k \<longrightarrow> unat (row_counter hash sk1 k r) = counted key freq k)"
    if r: "r < HASH_ROWS" for k r
  proof -
    let ?i = "sketch_index hash sk r k"
    have c: "row_counter hash sk1 k r = (if ?i = sketch_index hash sk r key then bump (row_counter hash sk k r) else row_counter hash sk k r)"
      unfolding assms(3) by (rule assms(4) [OF r sketch_index_bound [OF ok]])
    have old: "freq k \<le> unat (row_counter hash sk k r)"
      "isolated hash sk seen r k \<Longrightarrow> unat (row_counter hash sk k r) = freq k" using assms(1) r by (auto simp: covers_def)
    have iso: "isolated hash sk1 (insert key seen) r k \<Longrightarrow> isolated hash sk seen r k \<and> (?i = sketch_index hash sk r key \<longrightarrow> k = key)"
      by (auto simp: isolated_def assms(3))
    show ?thesis
      using old iso c unat_bump [OF counter_small, of sk r ?i] counter_small [of sk r ?i]
      by (auto simp: counted_def word_le_nat_alt)
  qed
  then show ?thesis using assms(2) by (auto simp: covers_def)
qed

lemma covers_step: "sketch_step hash x y \<Longrightarrow> (case x of (sk, freq, seen) \<Rightarrow> covers hash sk freq seen) \<Longrightarrow> (case y of (sk, freq, seen) \<Rightarrow> covers hash sk freq seen)"
proof (induction rule: sketch_step.induct)
  case (incremented sk key sk' n freq seen)
  then have cov: "covers hash sk freq seen" and ok: "sketch_ok sk" by (simp_all add: covers_def)
  obtain sk1 sk2 where s: "increment hash sk key = Some (sk2, foldl min 15 (map (bump \<circ> row_counter hash sk key) [0..<HASH_ROWS]))"
    "sketch_ok sk1" "sk2 = (if due hash sk key then age sk1 else sk1)" "sketch_index hash sk1 = sketch_index hash sk"
    "\<And>r j. r < HASH_ROWS \<Longrightarrow> j < cs_slots_per_row sk \<Longrightarrow>
       counter sk1 r j = (if j = sketch_index hash sk r key then bump (counter sk r j) else counter sk r j)"
    by (rule increment_spec [OF ok, of hash key]) (rule that)
  have "covers hash sk1 (counted key freq) (insert key seen)" by (rule covers_counted [OF cov s(2,4,5)])
  moreover have "sk' = sk2" using s(1) incremented.hyps by simp
  ultimately show ?case using s(3) by (auto intro: covers_age)
next
  case (aged sk freq seen)
  then show ?case by (simp add: covers_age)
next
  case (was_reset sk freq seen)
  then show ?case by (auto simp: covers_def sketch_ok_simps counter_reset sketch_index_bound)
qed

lemma next_power_of_two_pow: "1 < n \<Longrightarrow> \<exists>k. next_power_of_two n = 2 ^ Suc k"
  using bit_length.simps [of "n - 1"] by (auto simp: next_power_of_two_def)

lemma new_for_capacity_ok: "new_for_capacity capacity = Some sk \<Longrightarrow> covers hash sk (\<lambda>_. 0) seen"
proof -
  assume new: "new_for_capacity capacity = Some sk"
  have "1 < max capacity 256" by simp
  then obtain k where k: "next_power_of_two (max capacity 256) = 2 ^ Suc k" using next_power_of_two_pow by blast
  have ok: "sketch_ok sk" using new by (auto simp: new_for_capacity_def Let_def k sketch_ok_def div_ceil_def split: if_splits)
  have "counter sk r i = 0" if "r < HASH_ROWS" "i < cs_slots_per_row sk" for r i
    using place_bound [OF ok that] new by (auto simp: counter_def new_for_capacity_def Let_def split: if_splits)
  then show ?thesis using ok by (auto simp: covers_def sketch_index_bound)
qed

lemma sketch_reachable:
  "(sketch_step hash)\<^sup>*\<^sup>* (sk0, \<lambda>_. 0, {}) (sk, freq, seen) \<Longrightarrow> new_for_capacity capacity = Some sk0 \<Longrightarrow> covers hash sk freq seen"
proof -
  assume new: "new_for_capacity capacity = Some sk0" and run: "(sketch_step hash)\<^sup>*\<^sup>* (sk0, \<lambda>_. 0, {}) (sk, freq, seen)"
  let ?P = "\<lambda>x. case x of (sk, freq, seen) \<Rightarrow> covers hash sk freq seen"
  from run have "?P (sk, freq, seen)"
    by (induction rule: rtranclp_induct) (use new_for_capacity_ok [OF new] covers_step in auto)
  then show ?thesis by simp
qed

text \<open>
  C20. The frequency sketch counts, and never too little. In every run, estimating and
  incrementing do not panic; the estimate of a key is at least the saturating counter
  that key would have by itself, halved when the sketch is, and at most fifteen; it is
  exactly that counter if in some row no other key that was counted falls into the same
  slot; and an increment returns at least the counter after it.
\<close>

theorem sketch_never_undercounts:
  assumes "new_for_capacity capacity = Some sk0" "(sketch_step hash)\<^sup>*\<^sup>* (sk0, \<lambda>_. 0, {}) (sk, freq, seen)"
  shows "\<exists>e sk' n. estimate hash sk key = Some e \<and> increment hash sk key = Some (sk', n) \<and>
    freq key \<le> unat e \<and> unat e \<le> 15 \<and> ((\<exists>r < HASH_ROWS. isolated hash sk seen r key) \<longrightarrow> unat e = freq key) \<and>
    min 15 (freq key + 1) \<le> unat n"
proof -
  have cov: "covers hash sk freq seen" by (rule sketch_reachable [OF assms(2,1)])
  then have ok: "sketch_ok sk" by (simp add: covers_def)
  let ?c = "row_counter hash sk key"
  let ?e = "foldl min 15 (map ?c [0..<HASH_ROWS])"
  obtain sk' where inc: "increment hash sk key = Some (sk', foldl min 15 (map (bump \<circ> ?c) [0..<HASH_ROWS]))"
    by (rule increment_spec [OF ok, of hash key]) (rule that)
  have low: "freq key \<le> unat (?c r)" if "r < HASH_ROWS" for r using cov that by (auto simp: covers_def)
  have min_ge: "k \<le> unat (foldl min 15 (map f [0..<HASH_ROWS]))" if "k \<le> 15" "\<And>r. r < HASH_ROWS \<Longrightarrow> k \<le> unat (f r)" for k and f :: "nat \<Rightarrow> u8"
    using that foldl_min_in [of 15 "map f [0..<HASH_ROWS]"] by auto
  have bumped: "min 15 (freq key + 1) \<le> unat (bump (?c r))" if "r < HASH_ROWS" for r
    using low [OF that] unat_bump [OF counter_small, of sk r "sketch_index hash sk r key"] by simp
  have le: "unat ?e \<le> unat (?c r)" if "r < HASH_ROWS" for r
    using that by (auto simp flip: word_le_nat_alt intro!: foldl_min_le)
  have "freq key \<le> 15" using low [of 0] counter_small [of sk 0 "sketch_index hash sk 0 key"] by (simp add: word_le_nat_alt)
  then have "freq key \<le> unat ?e" by (rule min_ge [OF _ low])
  moreover have "unat ?e \<le> 15" using le [of 0] counter_small [of sk 0 "sketch_index hash sk 0 key"] by (simp add: word_le_nat_alt)
  moreover have "unat ?e = freq key" if "r < HASH_ROWS" "isolated hash sk seen r key" for r
    using le [OF that(1)] cov that calculation(1) by (auto simp: covers_def)
  moreover have "min 15 (freq key + 1) \<le> unat (foldl min 15 (map (bump \<circ> ?c) [0..<HASH_ROWS]))"
    by (rule min_ge) (simp, simp add: bumped del: One_nat_def)
  ultimately show ?thesis using estimate_eq [OF ok, of hash key] inc by blast
qed

theorem sketch_never_undercounts_witness:
  "\<exists>sk0 sk freq. new_for_capacity 1 = Some sk0 \<and> (sketch_step (\<lambda>_ k. k))\<^sup>*\<^sup>* (sk0, \<lambda>_. 0, {}) (sk, freq, {7}) \<and>
     freq 7 = 1 \<and> estimate (\<lambda>_ k. k) sk 7 = Some 1"
proof -
  let ?h = "\<lambda>(_ :: u64) (k :: u64). k"
  have bits: "bit_length 255 = 8" by (simp add: bit_length.simps)
  obtain sk0 where new: "new_for_capacity 1 = Some sk0" and samples: "cs_sample_count sk0 = 0" "cs_sample_size sk0 = 2560"
    by (simp add: new_for_capacity_def next_power_of_two_def div_ceil_def bits)
  obtain sk n where inc: "increment ?h sk0 7 = Some (sk, n)"
    using sketch_never_undercounts [OF new, of ?h sk0 "\<lambda>_. 0" "{}" 7] by auto
  have "\<not> due ?h sk0 7" by (simp add: due_def samples saturating_add_def word_le_nat_alt)
  then have run: "(sketch_step ?h)\<^sup>*\<^sup>* (sk0, \<lambda>_. 0, {}) (sk, counted 7 (\<lambda>_. 0), {7})"
    using sketch_step.incremented [OF inc, of "\<lambda>_. 0" "{}"] by simp
  have "\<exists>r < HASH_ROWS. isolated ?h sk {7} r 7" by (rule exI [of _ 0]) (simp add: isolated_def)
  then obtain e where "estimate ?h sk 7 = Some e" "unat e = counted (7 :: u64) (\<lambda>_. 0) 7"
    using sketch_never_undercounts [OF new run, of 7] by blast
  moreover have "counted (7 :: u64) (\<lambda>_. 0) 7 = 1" by (simp add: counted_def)
  ultimately show ?thesis using new run
    by (intro exI [of _ sk0] exI [of _ sk] exI [of _ "counted 7 (\<lambda>_. 0)"]) (auto simp: word_unat_eq_iff)
qed

end
