(* ===== verification/Image_Cache.thy ===== *)
theory Image_Cache
  imports Sketch
begin

text \<open>
  The cache of decoded images (\<open>io/src/image_cache.rs\<close>): a least-recently-used list with an
  admission filter, pins that keep entries in use from being evicted, and the claims of
  the sessions that share it. The LRU list is the third-party crate \<open>lru\<close>: its operations
  are a parameter, and \<open>lru_ok\<close> states what the crate documents of them. The process-wide
  statistics and the log lines are left out; sizes of memory are natural numbers.
\<close>

section \<open>Data\<close>

text \<open>The key is a tuple in the source; its components are named here.\<close>

record image_cache_key =
  ik_path :: string
  ik_generation :: u64
  ik_target_w :: u32
  ik_target_h :: u32

record normalized_image =
  ni_width :: u32
  ni_height :: u32
  ni_rgba :: "u8 list"

record cached_image =
  ci_image :: normalized_image
  ci_size_bytes :: nat
  ci_owners :: "i32 list"
  ci_pins :: u32

record session_counters =
  se_hits :: u64
  se_misses :: u64

record cache_stats =
  st_entries :: nat
  st_size_bytes :: nat
  st_max_bytes :: nat
  st_hits :: u64
  st_misses :: u64
  st_admissions_rejected :: u64
  st_trim_bytes_released :: u64

datatype trim_level = RunningModerate | RunningLow | RunningCritical | UiHidden | Background

record 'c image_cache =
  ic_cache :: 'c
  ic_current_size :: nat
  ic_max_size :: nat
  ic_hits :: u64
  ic_misses :: u64
  ic_sketch :: count_min_sketch
  ic_admissions_rejected :: u64
  ic_trim_bytes_released :: u64
  ic_reservations :: "image_cache_key \<rightharpoonup> u32"
  ic_sessions :: "i32 \<rightharpoonup> session_counters"

text \<open>
  The operations of \<open>LruCache\<close> that the cache uses. \<open>lru_iter\<close> lists the entries from the
  most to the least recently used; a mutable reference is the function applied through it.
\<close>

type_synonym entries = "(image_cache_key \<times> cached_image) list"

record 'c lru_ops =
  lru_new :: "nat \<Rightarrow> 'c"
  lru_cap :: "'c \<Rightarrow> nat"
  lru_iter :: "'c \<Rightarrow> entries"
  lru_peek :: "'c \<Rightarrow> image_cache_key \<Rightarrow> cached_image option"
  lru_peek_mut :: "'c \<Rightarrow> image_cache_key \<Rightarrow> (cached_image \<Rightarrow> cached_image) \<Rightarrow> 'c"
  lru_get_mut :: "'c \<Rightarrow> image_cache_key \<Rightarrow> (cached_image \<Rightarrow> cached_image) \<Rightarrow> 'c"
  lru_iter_mut :: "'c \<Rightarrow> (cached_image \<Rightarrow> cached_image) \<Rightarrow> 'c"
  lru_peek_lru :: "'c \<Rightarrow> (image_cache_key \<times> cached_image) option"
  lru_push :: "'c \<Rightarrow> image_cache_key \<Rightarrow> cached_image \<Rightarrow> 'c \<times> (image_cache_key \<times> cached_image) option"
  lru_pop :: "'c \<Rightarrow> image_cache_key \<Rightarrow> 'c \<times> cached_image option"

definition without :: "image_cache_key \<Rightarrow> entries \<Rightarrow> entries" where
  "without k xs = filter (\<lambda>e. fst e \<noteq> k) xs"

definition adjust :: "image_cache_key \<Rightarrow> (cached_image \<Rightarrow> cached_image) \<Rightarrow> entries \<Rightarrow> entries" where
  "adjust k f xs = map (\<lambda>(k', v). (k', if k' = k then f v else v)) xs"

definition lru_ok :: "'c lru_ops \<Rightarrow> bool" where
  "lru_ok L \<longleftrightarrow>
     (\<forall>n. lru_iter L (lru_new L n) = [] \<and> lru_cap L (lru_new L n) = n) \<and>
     (\<forall>c k. lru_peek L c k = map_of (lru_iter L c) k) \<and>
     (\<forall>c k f. lru_iter L (lru_peek_mut L c k f) = adjust k f (lru_iter L c) \<and> lru_cap L (lru_peek_mut L c k f) = lru_cap L c) \<and>
     (\<forall>c k f. lru_iter L (lru_get_mut L c k f) = (case map_of (lru_iter L c) k of None \<Rightarrow> lru_iter L c
        | Some v \<Rightarrow> (k, f v) # without k (lru_iter L c)) \<and> lru_cap L (lru_get_mut L c k f) = lru_cap L c) \<and>
     (\<forall>c f. lru_iter L (lru_iter_mut L c f) = map (map_prod id f) (lru_iter L c) \<and> lru_cap L (lru_iter_mut L c f) = lru_cap L c) \<and>
     (\<forall>c. lru_peek_lru L c = (if lru_iter L c = [] then None else Some (last (lru_iter L c)))) \<and>
     (\<forall>c k v c' out. lru_push L c k v = (c', out) \<longrightarrow> lru_cap L c' = lru_cap L c \<and>
        (case map_of (lru_iter L c) k of
           Some old \<Rightarrow> lru_iter L c' = (k, v) # without k (lru_iter L c) \<and> out = Some (k, old)
         | None \<Rightarrow> if length (lru_iter L c) < lru_cap L c then lru_iter L c' = (k, v) # lru_iter L c \<and> out = None
             else lru_iter L c' = (k, v) # butlast (lru_iter L c) \<and> out = Some (last (lru_iter L c)))) \<and>
     (\<forall>c k c' out. lru_pop L c k = (c', out) \<longrightarrow> lru_cap L c' = lru_cap L c \<and>
        lru_iter L c' = without k (lru_iter L c) \<and> out = map_of (lru_iter L c) k)"

section \<open>The cache\<close>

definition full_res_key :: "string \<Rightarrow> u64 \<Rightarrow> image_cache_key" where
  "full_res_key path generation = \<lparr> ik_path = path, ik_generation = generation, ik_target_w = 0, ik_target_h = 0 \<rparr>"

definition resized_key :: "string \<Rightarrow> u64 \<Rightarrow> u32 \<Rightarrow> u32 \<Rightarrow> image_cache_key" where
  "resized_key path generation target_w target_h =
     \<lparr> ik_path = path, ik_generation = generation, ik_target_w = target_w, ik_target_h = target_h \<rparr>"

definition cached_image_new :: "normalized_image \<Rightarrow> i32 \<Rightarrow> cached_image" where
  "cached_image_new img session = \<lparr> ci_image = img, ci_size_bytes = length (ni_rgba img), ci_owners = [session], ci_pins = 0 \<rparr>"

definition owned_by :: "i32 \<Rightarrow> cached_image \<Rightarrow> bool" where
  "owned_by session v \<longleftrightarrow> session \<in> set (ci_owners v)"

definition add_owner :: "i32 \<Rightarrow> cached_image \<Rightarrow> cached_image" where
  "add_owner session v = (if owned_by session v then v else v\<lparr> ci_owners := ci_owners v @ [session] \<rparr>)"

definition from_android :: "i32 \<Rightarrow> trim_level" where
  "from_android raw = (if raw = 5 then RunningModerate else if raw = 10 then RunningLow
     else if raw = 15 then RunningCritical else if raw = 20 then UiHidden
     else if raw = 40 \<or> raw = 60 \<or> raw = 80 then Background
     else if raw \<ge> 15 then RunningCritical else RunningModerate)"

fun retained_bytes :: "trim_level \<Rightarrow> nat \<Rightarrow> nat" where
  "retained_bytes RunningModerate budget = budget div 4 * 3"
| "retained_bytes RunningLow budget = budget div 2"
| "retained_bytes UiHidden budget = budget div 2"
| "retained_bytes RunningCritical budget = 0"
| "retained_bytes Background budget = 0"

definition with_limits :: "'c lru_ops \<Rightarrow> nat \<Rightarrow> nat \<Rightarrow> 'c image_cache option" where
  "with_limits L max_entries max_bytes = do {
     sketch \<leftarrow> new_for_capacity max_entries;
     Some \<lparr> ic_cache = lru_new L (max max_entries 1), ic_current_size = 0, ic_max_size = max_bytes,
            ic_hits = 0, ic_misses = 0, ic_sketch = sketch, ic_admissions_rejected = 0, ic_trim_bytes_released = 0,
            ic_reservations = Map.empty, ic_sessions = Map.empty \<rparr> }"

definition pin :: "'c lru_ops \<Rightarrow> 'c image_cache \<Rightarrow> image_cache_key \<Rightarrow> 'c image_cache option" where
  "pin L c key = (case lru_peek L (ic_cache c) key of
     Some _ \<Rightarrow> Some (c\<lparr> ic_cache := lru_peek_mut L (ic_cache c) key (\<lambda>v. v\<lparr> ci_pins := saturating_add (ci_pins v) 1 \<rparr>) \<rparr>)
   | None \<Rightarrow> do {
       n \<leftarrow> checked_add (case ic_reservations c key of None \<Rightarrow> 0 | Some n \<Rightarrow> n) 1;
       Some (c\<lparr> ic_reservations := (ic_reservations c)(key \<mapsto> n) \<rparr>) })"

definition unpin :: "'c lru_ops \<Rightarrow> 'c image_cache \<Rightarrow> image_cache_key \<Rightarrow> 'c image_cache" where
  "unpin L c key = (case lru_peek L (ic_cache c) key of
     Some v \<Rightarrow> if ci_pins v > 0 then c\<lparr> ic_cache := lru_peek_mut L (ic_cache c) key (\<lambda>v. v\<lparr> ci_pins := ci_pins v - 1 \<rparr>) \<rparr> else c
   | None \<Rightarrow> (case ic_reservations c key of
       Some n \<Rightarrow> let n = saturating_sub n 1 in
         c\<lparr> ic_reservations := (ic_reservations c)(key := if n = 0 then None else Some n) \<rparr>
     | None \<Rightarrow> c))"

definition pin_count :: "'c lru_ops \<Rightarrow> 'c image_cache \<Rightarrow> image_cache_key \<Rightarrow> u32" where
  "pin_count L c key = (case lru_peek L (ic_cache c) key of
     Some v \<Rightarrow> ci_pins v
   | None \<Rightarrow> (case ic_reservations c key of None \<Rightarrow> 0 | Some n \<Rightarrow> n))"

definition pop_unpinned_lru :: "'c lru_ops \<Rightarrow> 'c image_cache \<Rightarrow> ('c image_cache \<times> nat) option" where
  "pop_unpinned_lru L c = (case find (\<lambda>e. ci_pins (snd e) = 0) (rev (lru_iter L (ic_cache c))) of
     None \<Rightarrow> None
   | Some (victim_key, _) \<Rightarrow> (case lru_pop L (ic_cache c) victim_key of
       (_, None) \<Rightarrow> None
     | (cache, Some victim) \<Rightarrow>
         Some (c\<lparr> ic_cache := cache, ic_current_size := ic_current_size c - ci_size_bytes victim \<rparr>, ci_size_bytes victim)))"

definition image_get :: "'c lru_ops \<Rightarrow> (u64 \<Rightarrow> image_cache_key \<Rightarrow> u64) \<Rightarrow> 'c image_cache \<Rightarrow> image_cache_key \<Rightarrow> i32 \<Rightarrow>
    ('c image_cache \<times> normalized_image option) option" where
  "image_get L hash c key session = do {
     (sk, _) \<leftarrow> increment hash (ic_sketch c) key;
     let counters = (case ic_sessions c session of None \<Rightarrow> \<lparr> se_hits = 0, se_misses = 0 \<rparr> | Some s \<Rightarrow> s);
     Some (case lru_peek L (ic_cache c) key of
       Some v \<Rightarrow> (c\<lparr> ic_sketch := sk, ic_hits := ic_hits c + 1,
           ic_sessions := (ic_sessions c)(session \<mapsto> counters\<lparr> se_hits := se_hits counters + 1 \<rparr>),
           ic_cache := lru_get_mut L (ic_cache c) key (add_owner session) \<rparr>, Some (ci_image v))
     | None \<Rightarrow> (c\<lparr> ic_sketch := sk, ic_misses := ic_misses c + 1,
           ic_sessions := (ic_sessions c)(session \<mapsto> counters\<lparr> se_misses := se_misses counters + 1 \<rparr>),
           ic_cache := lru_get_mut L (ic_cache c) key (add_owner session) \<rparr>, None)) }"

definition image_contains :: "'c lru_ops \<Rightarrow> 'c image_cache \<Rightarrow> image_cache_key \<Rightarrow> bool" where
  "image_contains L c key \<longleftrightarrow> lru_peek L (ic_cache c) key \<noteq> None"

text \<open>
  The loop that evicts the coldest unpinned entries, until what is to come fits or only
  pinned entries are left.
\<close>

partial_function (option) evict :: "'c lru_ops \<Rightarrow> nat \<Rightarrow> nat \<Rightarrow> 'c image_cache \<Rightarrow> 'c image_cache option" where
  "evict L new_size limit c =
     (if ic_current_size c + new_size > limit
      then case pop_unpinned_lru L c of None \<Rightarrow> Some c | Some (c', _) \<Rightarrow> evict L new_size limit c'
      else Some c)"

text \<open>The admission filter of \<open>insert\<close>: whether a newcomer is colder than the entry it would displace.\<close>

definition rejected :: "'c lru_ops \<Rightarrow> (u64 \<Rightarrow> image_cache_key \<Rightarrow> u64) \<Rightarrow> 'c image_cache \<Rightarrow> u8 \<Rightarrow> bool option" where
  "rejected L hash c new_freq = (case lru_peek_lru L (ic_cache c) of
     None \<Rightarrow> Some False
   | Some (victim_key, victim) \<Rightarrow> do {
       let victim_pinned = ci_pins victim > 0;
       victim_freq \<leftarrow> (if victim_pinned then Some 0 else estimate hash (ic_sketch c) victim_key);
       Some (\<not> victim_pinned \<and> new_freq < victim_freq) })"

definition insert_entry :: "'c lru_ops \<Rightarrow> 'c image_cache \<Rightarrow> image_cache_key \<Rightarrow> cached_image \<Rightarrow> 'c image_cache option" where
  "insert_entry L c key cached = do {
     let displaces_this_key = image_contains L c key;
     let (cache, displaced) = lru_push L (ic_cache c) key cached;
     let c = c\<lparr> ic_cache := cache \<rparr>;
     c \<leftarrow> (case displaced of
       None \<Rightarrow> Some c
     | Some (displaced_key, displaced) \<Rightarrow> do {
         let c = c\<lparr> ic_current_size := ic_current_size c - ci_size_bytes displaced \<rparr>;
         if \<not> displaces_this_key \<and> ci_pins displaced > 0 then do {
           n \<leftarrow> checked_add (case ic_reservations c displaced_key of None \<Rightarrow> 0 | Some n \<Rightarrow> n) (ci_pins displaced);
           Some (c\<lparr> ic_reservations := (ic_reservations c)(displaced_key \<mapsto> n) \<rparr>) }
         else Some c });
     Some (c\<lparr> ic_current_size := ic_current_size c + ci_size_bytes cached \<rparr>) }"

definition image_insert :: "'c lru_ops \<Rightarrow> (u64 \<Rightarrow> image_cache_key \<Rightarrow> u64) \<Rightarrow> 'c image_cache \<Rightarrow> image_cache_key \<Rightarrow> normalized_image \<Rightarrow> i32 \<Rightarrow>
    'c image_cache option" where
  "image_insert L hash c key img session = do {
     (sk, new_freq) \<leftarrow> increment hash (ic_sketch c) key;
     let c = c\<lparr> ic_sketch := sk \<rparr>;
     let cached = cached_image_new img session;
     let new_size = ci_size_bytes cached;
     if new_size > ic_max_size c then Some c
     else do {
       let resident = lru_peek L (ic_cache c) key;
       pins \<leftarrow> checked_add (case ic_reservations c key of None \<Rightarrow> 0 | Some n \<Rightarrow> n) (case resident of None \<Rightarrow> 0 | Some v \<Rightarrow> ci_pins v);
       let c = c\<lparr> ic_reservations := (ic_reservations c)(key := None) \<rparr>;
       let cached = fold add_owner (case resident of None \<Rightarrow> [] | Some v \<Rightarrow> ci_owners v) (cached\<lparr> ci_pins := pins \<rparr>);
       cold \<leftarrow> (if ic_current_size c + new_size > ic_max_size c \<and> \<not> pins > 0 \<and> resident = None
                then rejected L hash c new_freq else Some False);
       if cold then Some (c\<lparr> ic_admissions_rejected := ic_admissions_rejected c + 1 \<rparr>)
       else do {
         c \<leftarrow> evict L new_size (ic_max_size c) c;
         insert_entry L c key cached } } }"

definition drop_owner :: "i32 \<Rightarrow> cached_image \<Rightarrow> cached_image" where
  "drop_owner session v = v\<lparr> ci_owners := filter (\<lambda>owner. owner \<noteq> session) (ci_owners v) \<rparr>"

definition pop_entry :: "'c lru_ops \<Rightarrow> image_cache_key \<Rightarrow> 'c image_cache \<Rightarrow> 'c image_cache" where
  "pop_entry L key c = (case lru_pop L (ic_cache c) key of
     (_, None) \<Rightarrow> c
   | (cache, Some removed) \<Rightarrow> c\<lparr> ic_cache := cache, ic_current_size := ic_current_size c - ci_size_bytes removed \<rparr>)"

definition clear_for_session :: "'c lru_ops \<Rightarrow> 'c image_cache \<Rightarrow> i32 \<Rightarrow> 'c image_cache" where
  "clear_for_session L c session =
     (let orphaned = map fst (filter (\<lambda>(_, v). owned_by session v \<and> length (ci_owners v) = 1 \<and> ci_pins v = 0) (lru_iter L (ic_cache c)));
          c = c\<lparr> ic_cache := lru_iter_mut L (ic_cache c) (drop_owner session) \<rparr>
      in fold (pop_entry L) orphaned c)"

definition release_session :: "'c lru_ops \<Rightarrow> 'c image_cache \<Rightarrow> i32 \<Rightarrow> 'c image_cache" where
  "release_session L c session = c\<lparr> ic_cache := lru_iter_mut L (ic_cache c) (drop_owner session),
     ic_sessions := (ic_sessions c)(session := None) \<rparr>"

definition image_trim :: "'c lru_ops \<Rightarrow> 'c image_cache \<Rightarrow> trim_level \<Rightarrow> ('c image_cache \<times> nat) option" where
  "image_trim L c level = (if lru_iter L (ic_cache c) = [] then Some (c, 0)
     else do {
       let start_size = ic_current_size c;
       c \<leftarrow> evict L 0 (retained_bytes level (ic_max_size c)) c;
       let freed = start_size - ic_current_size c;
       Some (c\<lparr> ic_trim_bytes_released := ic_trim_bytes_released c + word_of_nat freed \<rparr>, freed) })"

definition stats_for_session :: "'c lru_ops \<Rightarrow> 'c image_cache \<Rightarrow> i32 \<Rightarrow> cache_stats" where
  "stats_for_session L c session =
     (let counters = (case ic_sessions c session of None \<Rightarrow> \<lparr> se_hits = 0, se_misses = 0 \<rparr> | Some s \<Rightarrow> s);
          owned = filter (\<lambda>(_, v). owned_by session v) (lru_iter L (ic_cache c))
      in \<lparr> st_entries = length owned, st_size_bytes = sum_list (map (ci_size_bytes \<circ> snd) owned), st_max_bytes = ic_max_size c,
           st_hits = se_hits counters, st_misses = se_misses counters, st_admissions_rejected = 0, st_trim_bytes_released = 0 \<rparr>)"

definition image_stats :: "'c lru_ops \<Rightarrow> 'c image_cache \<Rightarrow> cache_stats" where
  "image_stats L c = \<lparr> st_entries = length (lru_iter L (ic_cache c)), st_size_bytes = ic_current_size c, st_max_bytes = ic_max_size c,
     st_hits = ic_hits c, st_misses = ic_misses c, st_admissions_rejected = ic_admissions_rejected c,
     st_trim_bytes_released = ic_trim_bytes_released c \<rparr>"

section \<open>Entries\<close>

abbreviation cache_entries :: "'c lru_ops \<Rightarrow> 'c image_cache \<Rightarrow> entries" where
  "cache_entries L c \<equiv> lru_iter L (ic_cache c)"

abbreviation resident_bytes :: "entries \<Rightarrow> nat" where
  "resident_bytes es \<equiv> sum_list (map (ci_size_bytes \<circ> snd) es)"

lemma lru_laws:
  assumes "lru_ok L"
  shows "lru_iter L (lru_new L n) = []" "lru_cap L (lru_new L n) = n"
    and "lru_peek L c k = map_of (lru_iter L c) k"
    and "lru_iter L (lru_peek_mut L c k f) = adjust k f (lru_iter L c)" "lru_cap L (lru_peek_mut L c k f) = lru_cap L c"
    and "lru_iter L (lru_get_mut L c k f) = (case map_of (lru_iter L c) k of None \<Rightarrow> lru_iter L c
      | Some v \<Rightarrow> (k, f v) # without k (lru_iter L c))" "lru_cap L (lru_get_mut L c k f) = lru_cap L c"
    and "lru_iter L (lru_iter_mut L c f) = map (map_prod id f) (lru_iter L c)" "lru_cap L (lru_iter_mut L c f) = lru_cap L c"
    and "lru_peek_lru L c = (if lru_iter L c = [] then None else Some (last (lru_iter L c)))"
  using assms by (simp_all add: lru_ok_def)

lemma lru_push_cases:
  assumes "lru_ok L" "lru_push L c k v = (c', out)"
  obtains (replaced) old where "map_of (lru_iter L c) k = Some old" "lru_iter L c' = (k, v) # without k (lru_iter L c)" "out = Some (k, old)" "lru_cap L c' = lru_cap L c"
  | (room) "map_of (lru_iter L c) k = None" "length (lru_iter L c) < lru_cap L c" "lru_iter L c' = (k, v) # lru_iter L c" "out = None" "lru_cap L c' = lru_cap L c"
  | (full) "map_of (lru_iter L c) k = None" "lru_cap L c \<le> length (lru_iter L c)" "lru_iter L c' = (k, v) # butlast (lru_iter L c)"
      "out = Some (last (lru_iter L c))" "lru_cap L c' = lru_cap L c"
proof -
  have "lru_cap L c' = lru_cap L c \<and> (case map_of (lru_iter L c) k of
           Some old \<Rightarrow> lru_iter L c' = (k, v) # without k (lru_iter L c) \<and> out = Some (k, old)
         | None \<Rightarrow> if length (lru_iter L c) < lru_cap L c then lru_iter L c' = (k, v) # lru_iter L c \<and> out = None
             else lru_iter L c' = (k, v) # butlast (lru_iter L c) \<and> out = Some (last (lru_iter L c)))"
    using assms unfolding lru_ok_def by blast
  then show thesis using that by (auto split: option.splits if_splits)
qed

lemma lru_pop_law:
  assumes "lru_ok L" "lru_pop L c k = (c', out)"
  shows "lru_cap L c' = lru_cap L c" "lru_iter L c' = without k (lru_iter L c)" "out = map_of (lru_iter L c) k"
  using assms unfolding lru_ok_def by blast+

lemma map_of_without [simp]: "map_of (without k xs) k' = (if k' = k then None else map_of xs k')"
  by (induction xs) (auto simp: without_def)

lemma map_of_adjust [simp]: "map_of (adjust k f xs) k' = (if k' = k then map_option f (map_of xs k) else map_of xs k')"
  by (induction xs) (auto simp: adjust_def)

lemma map_of_mapped [simp]: "map_of (map (map_prod id f) xs) k = map_option f (map_of xs k)"
  by (induction xs) auto

lemma map_of_filter_keys: "map_of (filter (\<lambda>e. fst e \<in> K) xs) k = (if k \<in> K then map_of xs k else None)"
  by (induction xs) auto

lemma without_filter: "without k xs = filter (\<lambda>e. fst e \<in> - {k}) xs"
  by (simp add: without_def)

lemma keys_simps [simp]:
  "map fst (adjust k f xs) = map fst xs" "map fst (map (map_prod id f) xs) = map fst xs"
  "fst ` set (adjust k f xs) = fst ` set xs" "length (adjust k f xs) = length xs"
  by (auto simp: adjust_def image_image split_beta comp_def)

lemma keys_without: "map fst (without k xs) = filter (\<lambda>k'. k' \<noteq> k) (map fst xs)"
  by (induction xs) (auto simp: without_def)

lemma without_simps [simp]:
  "set (without k xs) = {e \<in> set xs. fst e \<noteq> k}" "distinct (map fst xs) \<Longrightarrow> distinct (map fst (without k xs))"
  by (auto simp: keys_without) (auto simp: without_def)

lemma checked_add_zero [simp]: "checked_add 0 x = Some x" "checked_add x 0 = Some x"
  by (simp_all add: checked_add_def unat_bound)

lemma bytes_adjust: "(\<And>v. ci_size_bytes (f v) = ci_size_bytes v) \<Longrightarrow> resident_bytes (adjust k f xs) = resident_bytes xs"
  by (induction xs) (auto simp: adjust_def)

lemma bytes_without: "distinct (map fst xs) \<Longrightarrow> map_of xs k = Some v \<Longrightarrow> resident_bytes (without k xs) + ci_size_bytes v = resident_bytes xs"
proof (induction xs)
  case (Cons x xs)
  show ?case
  proof (cases "fst x = k")
    case True
    then have "k \<notin> fst ` set xs" using Cons.prems(1) by auto
    then have "without k xs = xs" by (auto simp: without_def filter_id_conv)
    then show ?thesis using True Cons.prems(2) by (simp add: without_def split_beta)
  next
    case False
    then show ?thesis using Cons by (simp add: without_def split_beta)
  qed
qed simp

lemma without_absent: "map_of xs k = None \<Longrightarrow> without k xs = xs"
  by (auto simp: without_def filter_id_conv map_of_eq_None_iff)

lemma length_without: "length (without k xs) \<le> length xs"
  by (simp add: without_def)

definition pins_in :: "entries \<Rightarrow> (image_cache_key \<rightharpoonup> u32) \<Rightarrow> image_cache_key \<Rightarrow> u32" where
  "pins_in es res k = (case map_of es k of Some v \<Rightarrow> ci_pins v | None \<Rightarrow> (case res k of None \<Rightarrow> 0 | Some n \<Rightarrow> n))"

lemma pin_count_eq: "lru_ok L \<Longrightarrow> pin_count L c = pins_in (cache_entries L c) (ic_reservations c)"
  by (auto simp: pin_count_def pins_in_def lru_laws fun_eq_iff)

section \<open>The invariant\<close>

definition image_entry_ok :: "cached_image \<Rightarrow> bool" where
  "image_entry_ok v \<longleftrightarrow> ci_size_bytes v = length (ni_rgba (ci_image v))"

definition image_entries_ok :: "entries \<Rightarrow> (image_cache_key \<rightharpoonup> u32) \<Rightarrow> nat \<Rightarrow> bool" where
  "image_entries_ok es res cap \<longleftrightarrow> distinct (map fst es) \<and> length es \<le> cap \<and> 0 < cap \<and>
     (\<forall>e \<in> set es. image_entry_ok (snd e)) \<and> (\<forall>k \<in> fst ` set es. res k = None) \<and> (\<forall>k. res k \<noteq> Some 0)"

definition cache_ok :: "'c lru_ops \<Rightarrow> 'c image_cache \<Rightarrow> bool" where
  "cache_ok L c \<longleftrightarrow> image_entries_ok (cache_entries L c) (ic_reservations c) (lru_cap L (ic_cache c)) \<and>
     ic_current_size c = resident_bytes (cache_entries L c) \<and> sketch_ok (ic_sketch c)"

text \<open>Entries were taken away, none of them pinned, and nothing else changed.\<close>

definition shrunk :: "'c lru_ops \<Rightarrow> 'c image_cache \<Rightarrow> 'c image_cache \<Rightarrow> bool" where
  "shrunk L c c' \<longleftrightarrow> (\<exists>K. cache_entries L c' = filter (\<lambda>e. fst e \<in> K) (cache_entries L c) \<and>
       (\<forall>e \<in> set (cache_entries L c). fst e \<notin> K \<longrightarrow> ci_pins (snd e) = 0)) \<and>
     lru_cap L (ic_cache c') = lru_cap L (ic_cache c) \<and> ic_reservations c' = ic_reservations c \<and>
     ic_max_size c' = ic_max_size c \<and> ic_sketch c' = ic_sketch c \<and> ic_sessions c' = ic_sessions c \<and>
     ic_current_size c' = resident_bytes (cache_entries L c')"

lemma shrunk_refl: "cache_ok L c \<Longrightarrow> shrunk L c c"
  by (auto simp: shrunk_def cache_ok_def intro!: exI [of _ UNIV])

lemma shrunk_trans: "shrunk L a b \<Longrightarrow> shrunk L b c \<Longrightarrow> shrunk L a c"
proof -
  assume 1: "shrunk L a b" and 2: "shrunk L b c"
  obtain K where K: "cache_entries L b = filter (\<lambda>e. fst e \<in> K) (cache_entries L a)" "\<forall>e \<in> set (cache_entries L a). fst e \<notin> K \<longrightarrow> ci_pins (snd e) = 0"
    using 1 by (auto simp: shrunk_def)
  obtain J where J: "cache_entries L c = filter (\<lambda>e. fst e \<in> J) (cache_entries L b)" "\<forall>e \<in> set (cache_entries L b). fst e \<notin> J \<longrightarrow> ci_pins (snd e) = 0"
    using 2 by (auto simp: shrunk_def)
  have "cache_entries L c = filter (\<lambda>e. fst e \<in> K \<inter> J) (cache_entries L a)"
    by (auto simp: J(1) K(1) intro: filter_cong)
  moreover have "\<forall>e \<in> set (cache_entries L a). fst e \<notin> K \<inter> J \<longrightarrow> ci_pins (snd e) = 0"
    using J(2) K by auto
  ultimately have "\<exists>M. cache_entries L c = filter (\<lambda>e. fst e \<in> M) (cache_entries L a) \<and> (\<forall>e \<in> set (cache_entries L a). fst e \<notin> M \<longrightarrow> ci_pins (snd e) = 0)"
    by blast
  then show "shrunk L a c" using 1 2 by (simp add: shrunk_def)
qed

lemma shrunk_ok:
  assumes "cache_ok L c" "shrunk L c c'"
  shows "cache_ok L c'" "pins_in (cache_entries L c') (ic_reservations c') = pins_in (cache_entries L c) (ic_reservations c)"
    and "set (cache_entries L c') \<subseteq> set (cache_entries L c)"
    and "\<And>k v. map_of (cache_entries L c) k = Some v \<Longrightarrow> ci_pins v \<noteq> 0 \<Longrightarrow> map_of (cache_entries L c') k = Some v"
proof -
  obtain K where K: "cache_entries L c' = filter (\<lambda>e. fst e \<in> K) (cache_entries L c)" "\<forall>e \<in> set (cache_entries L c). fst e \<notin> K \<longrightarrow> ci_pins (snd e) = 0"
    using assms(2) by (auto simp: shrunk_def)
  have d: "distinct (map fst (cache_entries L c'))" using assms(1) by (auto simp: K(1) cache_ok_def image_entries_ok_def distinct_map_filter)
  show sub: "set (cache_entries L c') \<subseteq> set (cache_entries L c)" by (auto simp: K(1))
  have "length (cache_entries L c') \<le> length (cache_entries L c)" by (simp add: K(1))
  then have "length (cache_entries L c') \<le> lru_cap L (ic_cache c')" using assms by (simp add: shrunk_def cache_ok_def image_entries_ok_def)
  then show "cache_ok L c'" using assms d sub unfolding cache_ok_def image_entries_ok_def shrunk_def by auto
  have gone: "ci_pins v = 0" if "map_of (cache_entries L c) k = Some v" "k \<notin> K" for k v
    using K(2) that map_of_SomeD [OF that(1)] by fastforce
  have res: "ic_reservations c k = None" if "map_of (cache_entries L c) k = Some v" for k v
    using assms(1) map_of_SomeD [OF that] by (force simp: cache_ok_def image_entries_ok_def)
  have same: "ic_reservations c' = ic_reservations c" using assms(2) by (simp add: shrunk_def)
  show "pins_in (cache_entries L c') (ic_reservations c') = pins_in (cache_entries L c) (ic_reservations c)"
    using gone res by (auto simp: pins_in_def K(1) map_of_filter_keys same fun_eq_iff split: option.splits)
  show "map_of (cache_entries L c') k = Some v" if "map_of (cache_entries L c) k = Some v" "ci_pins v \<noteq> 0" for k v
    using gone [OF that(1)] that by (auto simp: K(1) map_of_filter_keys)
qed

lemma shrunk_length:
  assumes "shrunk L c c'"
  shows "length (cache_entries L c') \<le> length (cache_entries L c)"
    and "map_of (cache_entries L c) k = Some v \<Longrightarrow> map_of (cache_entries L c') k = None \<Longrightarrow> length (cache_entries L c') < length (cache_entries L c)"
proof -
  obtain K where K: "cache_entries L c' = filter (\<lambda>e. fst e \<in> K) (cache_entries L c)" using assms by (auto simp: shrunk_def)
  show "length (cache_entries L c') \<le> length (cache_entries L c)" by (simp add: K)
  assume "map_of (cache_entries L c) k = Some v" "map_of (cache_entries L c') k = None"
  then have "(k, v) \<in> set (cache_entries L c)" "k \<notin> K" by (auto simp: K map_of_filter_keys dest: map_of_SomeD split: if_splits)
  then show "length (cache_entries L c') < length (cache_entries L c)" unfolding K by (intro length_filter_less) auto
qed

lemma popped_shrunk:
  assumes "lru_ok L" "cache_ok L c" "map_of (cache_entries L c) k = Some v" "ci_pins v = 0" "lru_pop L (ic_cache c) k = (cache, out)"
  shows "out = Some v \<and> shrunk L c (c\<lparr> ic_cache := cache, ic_current_size := ic_current_size c - ci_size_bytes v \<rparr>)"
proof -
  have d: "distinct (map fst (cache_entries L c))" using assms(2) by (simp add: cache_ok_def image_entries_ok_def)
  have "ci_pins (snd e) = 0" if "e \<in> set (cache_entries L c)" "fst e = k" for e
    using that assms(3,4) map_of_is_SomeI [OF d] by (metis option.inject prod.collapse)
  then show ?thesis using lru_pop_law [OF assms(1,5)] assms(2,3) bytes_without [OF d assms(3)]
    by (auto simp: shrunk_def cache_ok_def without_filter intro!: exI [of _ "- {k}"])
qed

lemma pop_unpinned_cases:
  assumes "lru_ok L" "cache_ok L c"
  obtains (none) "pop_unpinned_lru L c = None" "\<forall>e \<in> set (cache_entries L c). ci_pins (snd e) \<noteq> 0"
  | (popped) c' n where "pop_unpinned_lru L c = Some (c', n)" "shrunk L c c'" "length (cache_entries L c') < length (cache_entries L c)"
proof (cases "find (\<lambda>e. ci_pins (snd e) = 0) (rev (cache_entries L c))")
  case None
  then have "pop_unpinned_lru L c = None" by (simp add: pop_unpinned_lru_def)
  moreover have "\<forall>e \<in> set (cache_entries L c). ci_pins (snd e) \<noteq> 0" using None by (auto simp: find_None_iff)
  ultimately show ?thesis by (rule none)
next
  case (Some e)
  then obtain i where "i < length (rev (cache_entries L c))" "e = rev (cache_entries L c) ! i" "ci_pins (snd e) = 0"
    unfolding find_Some_iff by blast
  then obtain k v where e: "e = (k, v)" "(k, v) \<in> set (cache_entries L c)" "ci_pins v = 0"
    using nth_mem [of i "rev (cache_entries L c)"] by (metis prod.collapse set_rev)
  have m: "map_of (cache_entries L c) k = Some v" using assms(2) e(2) by (auto simp: cache_ok_def image_entries_ok_def)
  obtain cache out where p: "lru_pop L (ic_cache c) k = (cache, out)" by fastforce
  note pop = popped_shrunk [OF assms m e(3) p]
  have "length (without k (cache_entries L c)) < length (cache_entries L c)"
    using e(2) by (auto simp: without_def intro!: length_filter_less)
  then show ?thesis using popped [of "c\<lparr> ic_cache := cache, ic_current_size := ic_current_size c - ci_size_bytes v \<rparr>" "ci_size_bytes v"]
      pop lru_pop_law(2) [OF assms(1) p] Some e(1) p by (simp add: pop_unpinned_lru_def)
qed

lemma evict_spec:
  assumes "lru_ok L" "cache_ok L c"
  shows "\<exists>c'. evict L n limit c = Some c' \<and> shrunk L c c' \<and>
    (ic_current_size c' + n \<le> limit \<or> (\<forall>e \<in> set (cache_entries L c'). ci_pins (snd e) \<noteq> 0))"
  using assms(2)
proof (induction "length (cache_entries L c)" arbitrary: c rule: less_induct)
  case less
  show ?case
  proof (cases "ic_current_size c + n > limit")
    case True
    from assms(1) less.prems show ?thesis
    proof (cases rule: pop_unpinned_cases)
      case none
      then show ?thesis using True shrunk_refl [OF less.prems] by (subst evict.simps) auto
    next
      case (popped c1 m)
      obtain c' where "evict L n limit c1 = Some c'" "shrunk L c1 c'"
          "ic_current_size c' + n \<le> limit \<or> (\<forall>e \<in> set (cache_entries L c'). ci_pins (snd e) \<noteq> 0)"
        using less.hyps [OF popped(3) shrunk_ok(1) [OF less.prems popped(2)]] by blast
      then show ?thesis using True popped(1) shrunk_trans [OF popped(2)] by (subst evict.simps) auto
    qed
  next
    case False
    then show ?thesis using shrunk_refl [OF less.prems] by (subst evict.simps) auto
  qed
qed

section \<open>Operations\<close>

definition cache_frame :: "'c lru_ops \<Rightarrow> 'c image_cache \<Rightarrow> 'c image_cache \<Rightarrow> bool" where
  "cache_frame L c c' \<longleftrightarrow> lru_cap L (ic_cache c') = lru_cap L (ic_cache c) \<and> ic_max_size c' = ic_max_size c"

lemma add_owner_simps [simp]:
  "ci_pins (add_owner s v) = ci_pins v" "ci_size_bytes (add_owner s v) = ci_size_bytes v" "ci_image (add_owner s v) = ci_image v"
  "image_entry_ok (add_owner s v) = image_entry_ok v"
  by (simp_all add: add_owner_def image_entry_ok_def)

lemma fold_add_owner [simp]:
  "ci_pins (fold add_owner ss v) = ci_pins v" "ci_size_bytes (fold add_owner ss v) = ci_size_bytes v" "ci_image (fold add_owner ss v) = ci_image v"
  "image_entry_ok (fold add_owner ss v) = image_entry_ok v"
  by (induction ss arbitrary: v) simp_all

lemma set_fold_add_owner: "set (ci_owners (fold add_owner ss v)) = set (ci_owners v) \<union> set ss"
  by (induction ss arbitrary: v) (auto simp: add_owner_def owned_by_def)

lemma drop_owner_simps [simp]:
  "ci_pins (drop_owner s v) = ci_pins v" "ci_size_bytes (drop_owner s v) = ci_size_bytes v" "ci_image (drop_owner s v) = ci_image v"
  "image_entry_ok (drop_owner s v) = image_entry_ok v"
  by (simp_all add: drop_owner_def image_entry_ok_def)

lemma bytes_dropped [simp]: "sum_list (map (ci_size_bytes \<circ> snd \<circ> map_prod id (drop_owner s)) xs) = resident_bytes xs"
  by (induction xs) auto

lemma image_entries_ok_absent: "image_entries_ok es res cap \<Longrightarrow> map_of es k = Some v \<Longrightarrow> res k = None"
  by (force simp: image_entries_ok_def dest: map_of_SomeD)

lemma image_entries_ok_adjust:
  assumes "image_entries_ok es res cap" "\<And>v. image_entry_ok v \<Longrightarrow> image_entry_ok (f v)"
  shows "image_entries_ok (adjust k f es) res cap"
  using assms by (auto simp: image_entries_ok_def simp del: keys_simps(3)) (auto simp: adjust_def)

lemma image_entries_ok_mapped:
  assumes "image_entries_ok es res cap" "\<And>v. image_entry_ok v \<Longrightarrow> image_entry_ok (f v)"
  shows "image_entries_ok (map (map_prod id f) es) res cap"
  using assms by (auto simp: image_entries_ok_def)

lemma pin_spec:
  assumes "lru_ok L" "cache_ok L c" "unat (pin_count L c k) < 2 ^ 32 - 1 \<or> map_of (cache_entries L c) k \<noteq> None"
  shows "\<exists>c'. pin L c k = Some c' \<and> cache_ok L c' \<and> cache_frame L c c' \<and>
    (\<forall>k'. unat (pin_count L c' k') = (if k' = k then min (2 ^ 32 - 1) (unat (pin_count L c k) + 1) else unat (pin_count L c k')))"
proof (cases "map_of (cache_entries L c) k")
  case (Some v)
  let ?c = "c\<lparr> ic_cache := lru_peek_mut L (ic_cache c) k (\<lambda>v. v\<lparr> ci_pins := saturating_add (ci_pins v) 1 \<rparr>) \<rparr>"
  have "cache_ok L ?c" using assms(1,2)
    by (auto simp: cache_ok_def lru_laws bytes_adjust intro!: image_entries_ok_adjust) (simp add: image_entry_ok_def)
  moreover have "pin L c k = Some ?c" using Some assms(1) by (simp add: pin_def lru_laws)
  ultimately show ?thesis using Some assms(1)
    by (auto simp: cache_frame_def lru_laws pin_count_eq pins_in_def unat_saturating_add split: option.splits)
next
  case None
  let ?n = "case ic_reservations c k of None \<Rightarrow> 0 | Some n \<Rightarrow> n"
  have pc: "pin_count L c k = ?n" using None assms(1) by (simp add: pin_count_eq pins_in_def)
  then obtain n where n: "checked_add ?n 1 = Some n" "unat n = unat ?n + 1"
    using assms(3) None by (auto simp: checked_add_def unat_word_ariths)
  let ?c = "c\<lparr> ic_reservations := (ic_reservations c)(k \<mapsto> n) \<rparr>"
  have "n \<noteq> 0" using n(2) by auto
  then have "cache_ok L ?c" using assms(2) None by (auto simp: cache_ok_def image_entries_ok_def map_of_eq_None_iff)
  moreover have "pin L c k = Some ?c" using None n(1) assms(1) by (simp add: pin_def lru_laws)
  ultimately show ?thesis using None assms(1,3) n(2) pc
    by (auto simp: cache_frame_def pin_count_eq pins_in_def split: option.splits)
qed

lemma unpin_spec:
  assumes "lru_ok L" "cache_ok L c"
  shows "cache_ok L (unpin L c k) \<and> cache_frame L c (unpin L c k) \<and>
    (\<forall>k'. unat (pin_count L (unpin L c k) k') = (if k' = k then unat (pin_count L c k) - 1 else unat (pin_count L c k')))"
proof (cases "map_of (cache_entries L c) k")
  case (Some v)
  let ?c = "c\<lparr> ic_cache := lru_peek_mut L (ic_cache c) k (\<lambda>v. v\<lparr> ci_pins := ci_pins v - 1 \<rparr>) \<rparr>"
  show ?thesis
  proof (cases "ci_pins v = 0")
    case True
    then show ?thesis using Some assms by (auto simp: unpin_def lru_laws cache_frame_def pin_count_eq pins_in_def)
  next
    case False
    have "cache_ok L ?c" using assms
      by (auto simp: cache_ok_def lru_laws bytes_adjust intro!: image_entries_ok_adjust) (simp add: image_entry_ok_def)
    moreover have "unpin L c k = ?c" using Some False assms(1) by (simp add: unpin_def lru_laws word_gt_0)
    ultimately show ?thesis using Some False assms(1)
      by (auto simp: cache_frame_def lru_laws pin_count_eq pins_in_def unat_minus_one split: option.splits)
  qed
next
  case None
  show ?thesis
  proof (cases "ic_reservations c k")
    case (Some n)
    have "n \<noteq> 0" using assms(2) Some by (auto simp: cache_ok_def image_entries_ok_def)
    moreover have "unat (saturating_sub n 1) = unat n - 1" by (simp add: unat_saturating_sub)
    ultimately show ?thesis using None Some assms
      by (auto simp: unpin_def lru_laws cache_frame_def pin_count_eq pins_in_def cache_ok_def image_entries_ok_def Let_def split: option.splits)
  qed (use None assms in \<open>auto simp: unpin_def lru_laws cache_frame_def pin_count_eq pins_in_def\<close>)
qed

lemma get_spec:
  assumes "lru_ok L" "cache_ok L c"
  shows "\<exists>c'. image_get L hash c k s = Some (c', map_option ci_image (map_of (cache_entries L c) k)) \<and> cache_ok L c' \<and> cache_frame L c c' \<and>
    pin_count L c' = pin_count L c \<and> (\<forall>k'. map_option ci_image (map_of (cache_entries L c') k') = map_option ci_image (map_of (cache_entries L c) k'))"
proof -
  have ok: "sketch_ok (ic_sketch c)" "image_entries_ok (cache_entries L c) (ic_reservations c) (lru_cap L (ic_cache c))"
    using assms(2) by (simp_all add: cache_ok_def)
  obtain sk m where inc: "increment hash (ic_sketch c) k = Some (sk, m)" "sketch_ok sk"
    using increment_total [OF ok(1), of hash k] by blast
  show ?thesis
  proof (cases "map_of (cache_entries L c) k")
    case None
    then show ?thesis using assms inc
      by (auto simp: image_get_def lru_laws cache_ok_def cache_frame_def pin_count_eq Let_def)
  next
    case (Some v)
    let ?es = "(k, add_owner s v) # without k (cache_entries L c)"
    have d: "distinct (map fst (cache_entries L c))" using ok(2) by (simp add: image_entries_ok_def)
    have len: "length (without k (cache_entries L c)) < length (cache_entries L c)"
      using map_of_SomeD [OF Some] by (auto simp: without_def intro!: length_filter_less)
    have mem: "(k, v) \<in> set (cache_entries L c)" by (rule map_of_SomeD [OF Some])
    have "image_entries_ok ?es (ic_reservations c) (lru_cap L (ic_cache c))"
      using ok(2) len mem by (auto simp: image_entries_ok_def)
    moreover have "resident_bytes ?es = resident_bytes (cache_entries L c)" using bytes_without [OF d Some] by simp
    ultimately show ?thesis using assms inc Some
      by (auto simp: image_get_def lru_laws cache_ok_def cache_frame_def pin_count_eq pins_in_def fun_eq_iff Let_def split: option.splits)
  qed
qed

lemma image_entries_ok_put:
  assumes "image_entries_ok es res cap" "image_entry_ok v" "res k = None" "length (without k es) < cap"
  shows "image_entries_ok ((k, v) # without k es) res cap"
  using assms by (auto simp: image_entries_ok_def)

lemma insert_entry_spec:
  assumes "lru_ok L" "cache_ok L c" "ic_reservations c k = None" "image_entry_ok v"
  shows "\<exists>c'. insert_entry L c k v = Some c' \<and> cache_ok L c' \<and> cache_frame L c c' \<and>
    pins_in (cache_entries L c') (ic_reservations c') = (pins_in (cache_entries L c) (ic_reservations c))(k := ci_pins v) \<and>
    ic_current_size c' \<le> ic_current_size c + ci_size_bytes v \<and> map_of (cache_entries L c') k = Some v \<and>
    set (cache_entries L c') \<subseteq> insert (k, v) (set (cache_entries L c)) \<and>
    (map_of (cache_entries L c) k = None \<and> lru_cap L (ic_cache c) \<le> length (cache_entries L c) \<longrightarrow>
       map_of (cache_entries L c') (fst (last (cache_entries L c))) = None) \<and>
    (length (cache_entries L c) < lru_cap L (ic_cache c) \<or> map_of (cache_entries L c) k \<noteq> None \<longrightarrow>
       (\<forall>k' \<noteq> k. map_of (cache_entries L c') k' = map_of (cache_entries L c) k'))"
proof -
  let ?es = "cache_entries L c" and ?cap = "lru_cap L (ic_cache c)"
  have ok: "image_entries_ok ?es (ic_reservations c) ?cap" "ic_current_size c = resident_bytes ?es" "sketch_ok (ic_sketch c)"
    and d: "distinct (map fst ?es)" "length ?es \<le> ?cap" "0 < ?cap" using assms(2) by (simp_all add: cache_ok_def image_entries_ok_def)
  obtain cache out where push: "lru_push L (ic_cache c) k v = (cache, out)" by fastforce
  from assms(1) push show ?thesis
  proof (cases rule: lru_push_cases)
    case (replaced old)
    let ?c = "c\<lparr> ic_cache := cache, ic_current_size := ic_current_size c - ci_size_bytes old + ci_size_bytes v \<rparr>"
    have e: "insert_entry L c k v = Some ?c"
      using replaced by (simp add: insert_entry_def push image_contains_def lru_laws [OF assms(1)])
    have len: "length (without k ?es) < ?cap"
      using d(2) map_of_SomeD [OF replaced(1)] by (auto simp: without_def intro!: less_le_trans [OF length_filter_less])
    have "cache_ok L ?c" using image_entries_ok_put [OF ok(1) assms(4,3) len] bytes_without [OF d(1) replaced(1)] ok replaced
      by (simp add: cache_ok_def)
    then show ?thesis using e replaced ok(2) bytes_without [OF d(1) replaced(1)]
      by (auto simp: cache_frame_def pins_in_def fun_eq_iff split: option.splits)
  next
    case room
    let ?c = "c\<lparr> ic_cache := cache, ic_current_size := ic_current_size c + ci_size_bytes v \<rparr>"
    have e: "insert_entry L c k v = Some ?c" using room by (simp add: insert_entry_def push)
    have "cache_ok L ?c" using image_entries_ok_put [OF ok(1) assms(4,3)] ok room by (simp add: cache_ok_def without_absent)
    then show ?thesis using e room by (auto simp: cache_frame_def pins_in_def fun_eq_iff split: option.splits)
  next
    case full
    obtain dk dv where l: "last ?es = (dk, dv)" by fastforce
    have ne: "?es \<noteq> []" using full(2) d(3) by auto
    have split: "?es = butlast ?es @ [(dk, dv)]" using ne l by (metis append_butlast_last_id)
    have mem: "(dk, dv) \<in> set ?es" using split by (metis in_set_conv_decomp)
    have dk: "map_of ?es dk = Some dv" by (rule map_of_is_SomeI [OF d(1) mem])
    have dkk: "dk \<noteq> k" using dk full(1) by auto
    have dres: "ic_reservations c dk = None" by (rule image_entries_ok_absent [OF ok(1) dk])
    have butl: "butlast ?es = without dk ?es"
    proof -
      have "distinct (map fst (butlast ?es @ [(dk, dv)]))" using d(1) split by simp
      then have "dk \<notin> fst ` set (butlast ?es)" by auto
      then have "without dk (butlast ?es @ [(dk, dv)]) = butlast ?es" by (auto simp: without_def filter_id_conv)
      then show ?thesis using split by simp
    qed
    let ?res = "if ci_pins dv > 0 then (ic_reservations c)(dk \<mapsto> ci_pins dv) else ic_reservations c"
    let ?c = "c\<lparr> ic_cache := cache, ic_reservations := ?res, ic_current_size := ic_current_size c - ci_size_bytes dv + ci_size_bytes v \<rparr>"
    have e: "insert_entry L c k v = Some ?c"
      using full l dres by (simp add: insert_entry_def push image_contains_def lru_laws [OF assms(1)])
    have bytes: "resident_bytes (without dk ?es) + ci_size_bytes dv = resident_bytes ?es" by (rule bytes_without [OF d(1) dk])
    have len: "length (without dk ?es) < length ?es" using mem by (auto simp: without_def intro!: length_filter_less)
    have es: "lru_iter L cache = (k, v) # without dk ?es" using full(3) butl by simp
    have "image_entries_ok ((k, v) # without dk ?es) ?res ?cap"
      using ok(1) assms(3,4) len dkk full(1) by (auto simp: image_entries_ok_def map_of_eq_None_iff)
    then have "cache_ok L ?c" using es ok(2,3) bytes full(5) by (simp add: cache_ok_def)
    moreover have "pins_in (cache_entries L ?c) ?res = (pins_in ?es (ic_reservations c))(k := ci_pins v)"
      using dk dkk dres by (auto simp: es pins_in_def fun_eq_iff word_gt_0 split: option.splits)
    ultimately show ?thesis using e es ok(2) bytes full(1,2,5) l dkk by (auto simp: cache_frame_def)
  qed
qed

lemma pins_one_home:
  assumes "lru_ok L" "cache_ok L c"
  shows "checked_add (case ic_reservations c k of None \<Rightarrow> 0 | Some n \<Rightarrow> n) (case lru_peek L (ic_cache c) k of None \<Rightarrow> 0 | Some v \<Rightarrow> ci_pins v)
    = Some (pin_count L c k)"
proof (cases "map_of (cache_entries L c) k")
  case (Some v)
  then have "ic_reservations c k = None" using assms(2) image_entries_ok_absent by (auto simp: cache_ok_def)
  then show ?thesis using Some assms(1) by (simp add: lru_laws pin_count_def)
next
  case None
  then show ?thesis using assms(1) by (simp add: lru_laws pin_count_def)
qed

lemma rejected_total: "lru_ok L \<Longrightarrow> sketch_ok (ic_sketch c) \<Longrightarrow> \<exists>b. rejected L hash c n = Some b"
  by (auto simp: rejected_def lru_laws estimate_eq Let_def split: prod.splits)

definition admitted :: "'c lru_ops \<Rightarrow> 'c image_cache \<Rightarrow> image_cache_key \<Rightarrow> normalized_image \<Rightarrow> i32 \<Rightarrow> 'c image_cache \<Rightarrow> bool" where
  "admitted L c k img s c' \<longleftrightarrow> (\<exists>v. map_of (cache_entries L c') k = Some v \<and> ci_image v = img \<and> s \<in> set (ci_owners v) \<and>
     (\<forall>old. map_of (cache_entries L c) k = Some old \<longrightarrow> set (ci_owners old) \<subseteq> set (ci_owners v)) \<and>
     set (cache_entries L c') \<subseteq> insert (k, v) (set (cache_entries L c)) \<and>
     (ic_current_size c' \<le> ic_max_size c \<or> (\<forall>e \<in> set (cache_entries L c'). fst e = k \<or> ci_pins (snd e) \<noteq> 0)) \<and>
     (length (cache_entries L c) < lru_cap L (ic_cache c) \<or> map_of (cache_entries L c) k \<noteq> None \<longrightarrow>
       (\<forall>k' v'. k' \<noteq> k \<longrightarrow> map_of (cache_entries L c) k' = Some v' \<longrightarrow> ci_pins v' \<noteq> 0 \<longrightarrow> map_of (cache_entries L c') k' = Some v')))"

lemma admit_spec:
  assumes "lru_ok L" "cache_ok L c" "image_entry_ok v" "ci_size_bytes v = n" "ci_image v = img" "s \<in> set (ci_owners v)"
    and "\<And>old. map_of (cache_entries L c) k = Some old \<Longrightarrow> set (ci_owners old) \<subseteq> set (ci_owners v)"
  shows "\<exists>c1 c'. evict L n (ic_max_size c) (c\<lparr> ic_reservations := (ic_reservations c)(k := None) \<rparr>) = Some c1 \<and>
    insert_entry L c1 k v = Some c' \<and> cache_ok L c' \<and> cache_frame L c c' \<and>
    pins_in (cache_entries L c') (ic_reservations c') = (pins_in (cache_entries L c) (ic_reservations c))(k := ci_pins v) \<and> admitted L c k img s c'"
proof -
  let ?c = "c\<lparr> ic_reservations := (ic_reservations c)(k := None) \<rparr>" and ?es = "cache_entries L c"
  have ok0: "cache_ok L ?c" using assms(2) by (auto simp: cache_ok_def image_entries_ok_def)
  obtain c1 where ev: "evict L n (ic_max_size c) ?c = Some c1" "shrunk L ?c c1"
      "ic_current_size c1 + n \<le> ic_max_size c \<or> (\<forall>e \<in> set (cache_entries L c1). ci_pins (snd e) \<noteq> 0)"
    using evict_spec [OF assms(1) ok0] by blast
  note c1 = shrunk_ok [OF ok0 ev(2)]
  have res: "ic_reservations c1 k = None" and frame: "cache_frame L c c1" using ev(2) by (simp_all add: shrunk_def cache_frame_def)
  obtain c' where ins: "insert_entry L c1 k v = Some c'" "cache_ok L c'" "cache_frame L c1 c'"
      "pins_in (cache_entries L c') (ic_reservations c') = (pins_in (cache_entries L c1) (ic_reservations c1))(k := ci_pins v)"
      "ic_current_size c' \<le> ic_current_size c1 + ci_size_bytes v" "map_of (cache_entries L c') k = Some v"
      "set (cache_entries L c') \<subseteq> insert (k, v) (set (cache_entries L c1))"
      "length (cache_entries L c1) < lru_cap L (ic_cache c1) \<or> map_of (cache_entries L c1) k \<noteq> None \<longrightarrow>
         (\<forall>k' \<noteq> k. map_of (cache_entries L c') k' = map_of (cache_entries L c1) k')"
    using insert_entry_spec [OF assms(1) c1(1) res assms(3)] by blast
  have sub: "set (cache_entries L c') \<subseteq> insert (k, v) (set ?es)" using ins(7) c1(3) by auto
  have budget: "ic_current_size c' \<le> ic_max_size c \<or> (\<forall>e \<in> set (cache_entries L c'). fst e = k \<or> ci_pins (snd e) \<noteq> 0)"
    using ev(3) ins(5,7) assms(4) by fastforce
  have "length (cache_entries L c1) < lru_cap L (ic_cache c1) \<or> map_of (cache_entries L c1) k \<noteq> None"
    if "length ?es < lru_cap L (ic_cache c) \<or> map_of ?es k \<noteq> None"
  proof -
    have "length ?es \<le> lru_cap L (ic_cache c)" using assms(2) by (simp add: cache_ok_def image_entries_ok_def)
    then show ?thesis using that shrunk_length [OF ev(2)] frame by (fastforce simp: cache_frame_def)
  qed
  then have kept: "map_of (cache_entries L c') k' = Some v'"
    if "length ?es < lru_cap L (ic_cache c) \<or> map_of ?es k \<noteq> None" "k' \<noteq> k" "map_of ?es k' = Some v'" "ci_pins v' \<noteq> 0" for k' v'
    using that ins(8) c1(4) [of k' v'] by auto
  have "admitted L c k img s c'" unfolding admitted_def using ins(6) assms(5-7) sub budget kept by blast
  moreover have "cache_frame L c c'" using frame ins(3) by (simp add: cache_frame_def)
  moreover have "pins_in (cache_entries L c') (ic_reservations c') = (pins_in ?es (ic_reservations c))(k := ci_pins v)"
    unfolding ins(4) c1(2) by (auto simp: pins_in_def fun_eq_iff split: option.splits)
  ultimately show ?thesis using ev(1) ins(1,2) by blast
qed

lemma insert_spec:
  assumes "lru_ok L" "cache_ok L c"
  shows "\<exists>c'. image_insert L hash c k img s = Some c' \<and> cache_ok L c' \<and> cache_frame L c c' \<and> pin_count L c' = pin_count L c \<and>
    (cache_entries L c' = cache_entries L c \<and> (length (ni_rgba img) > ic_max_size c \<or> pin_count L c k = 0 \<and> map_of (cache_entries L c) k = None) \<or>
     admitted L c k img s c')"
proof -
  obtain sk m where inc: "increment hash (ic_sketch c) k = Some (sk, m)" "sketch_ok sk"
    using increment_total [of "ic_sketch c" hash k] assms(2) by (auto simp: cache_ok_def)
  let ?c = "c\<lparr> ic_sketch := sk \<rparr>" and ?n = "length (ni_rgba img)"
  have ok: "cache_ok L ?c" using assms(2) inc(2) by (simp add: cache_ok_def)
  have pc: "pin_count L ?c = pin_count L c" using assms(1) by (simp add: pin_count_eq)
  let ?r = "lru_peek L (ic_cache c) k"
  let ?v = "fold add_owner (case ?r of None \<Rightarrow> [] | Some v \<Rightarrow> ci_owners v) ((cached_image_new img s)\<lparr> ci_pins := pin_count L c k \<rparr>)"
  let ?c1 = "?c\<lparr> ic_reservations := (ic_reservations c)(k := None) \<rparr>"
  have pins: "checked_add (case ic_reservations c k of None \<Rightarrow> 0 | Some n \<Rightarrow> n) (case ?r of None \<Rightarrow> 0 | Some v \<Rightarrow> ci_pins v) = Some (pin_count L c k)"
    by (rule pins_one_home [OF assms])
  have new: "image_entry_ok ?v" "ci_size_bytes ?v = ?n" "ci_image ?v = img" "s \<in> set (ci_owners ?v)" "ci_pins ?v = pin_count L c k"
    "\<And>old. map_of (cache_entries L ?c) k = Some old \<Longrightarrow> set (ci_owners old) \<subseteq> set (ci_owners ?v)"
    by (auto simp: cached_image_new_def image_entry_ok_def set_fold_add_owner lru_laws [OF assms(1)])
  obtain c2 c' where fin: "evict L ?n (ic_max_size c) ?c1 = Some c2" "insert_entry L c2 k ?v = Some c'" "cache_ok L c'" "cache_frame L c c'"
      "pins_in (cache_entries L c') (ic_reservations c') = (pins_in (cache_entries L c) (ic_reservations c))(k := pin_count L c k)" "admitted L c k img s c'"
  proof -
    have "\<exists>c1 c'. evict L ?n (ic_max_size ?c) (?c\<lparr> ic_reservations := (ic_reservations ?c)(k := None) \<rparr>) = Some c1 \<and>
        insert_entry L c1 k ?v = Some c' \<and> cache_ok L c' \<and> cache_frame L ?c c' \<and>
        pins_in (cache_entries L c') (ic_reservations c') = (pins_in (cache_entries L ?c) (ic_reservations ?c))(k := ci_pins ?v) \<and> admitted L ?c k img s c'"
      by (rule admit_spec [OF assms(1) ok new(1-4)]) (rule new(6))
    moreover have "cache_frame L ?c = cache_frame L c" "admitted L ?c = admitted L c"
      by (simp_all add: fun_eq_iff cache_frame_def admitted_def)
    ultimately show thesis using that new(5) by auto
  qed
  let ?over = "ic_current_size c + ?n > ic_max_size c \<and> \<not> pin_count L c k > 0 \<and> ?r = None"
  obtain cold where cold: "(if ?over then rejected L hash ?c1 m else Some False) = Some cold"
    using rejected_total [OF assms(1), of ?c1 hash m] inc(2) by (cases ?over) auto
  have ins: "image_insert L hash c k img s = (if ?n > ic_max_size c then Some ?c
      else if cold then Some (?c1\<lparr> ic_admissions_rejected := ic_admissions_rejected c + 1 \<rparr>) else Some c')"
    using inc(1) pins cold fin(1,2) by (simp add: image_insert_def Let_def cached_image_new_def)
  show ?thesis
  proof (cases "?n > ic_max_size c")
    case True
    then show ?thesis using ins ok pc by (auto simp: cache_frame_def)
  next
    case False
    show ?thesis
    proof (cases cold)
      case True
      then have zero: "pin_count L c k = 0" "map_of (cache_entries L c) k = None"
        using cold by (auto simp: lru_laws [OF assms(1)] word_gt_0 split: if_splits)
      then have "ic_reservations c k = None"
        using assms by (auto simp: pin_count_eq pins_in_def cache_ok_def image_entries_ok_def split: option.splits)
      then have same: "(ic_reservations c)(k := None) = ic_reservations c" by auto
      let ?c' = "?c1\<lparr> ic_admissions_rejected := ic_admissions_rejected c + 1 \<rparr>"
      have "cache_ok L ?c'" using ok by (simp add: cache_ok_def same)
      moreover have "pin_count L ?c' = pin_count L c" using assms(1) by (simp add: pin_count_eq same)
      ultimately show ?thesis using ins True \<open>\<not> ?n > ic_max_size c\<close> zero by (auto simp: cache_frame_def)
    next
      case False
      have "pin_count L c' = pin_count L c" using fin(5) assms(1) by (simp add: pin_count_eq)
      then show ?thesis using ins False \<open>\<not> ?n > ic_max_size c\<close> fin(3,4,6) by auto
    qed
  qed
qed

lemma pop_entries_shrunk:
  assumes "lru_ok L" "cache_ok L c" "\<And>k v. k \<in> set ks \<Longrightarrow> map_of (cache_entries L c) k = Some v \<Longrightarrow> ci_pins v = 0"
  shows "shrunk L c (fold (pop_entry L) ks c) \<and>
    (\<forall>k. k \<notin> set ks \<longrightarrow> map_of (cache_entries L (fold (pop_entry L) ks c)) k = map_of (cache_entries L c) k)"
  using assms(2,3)
proof (induction ks arbitrary: c)
  case Nil
  then show ?case by (simp add: shrunk_refl)
next
  case (Cons k ks)
  obtain cache out where pop: "lru_pop L (ic_cache c) k = (cache, out)" by fastforce
  note law = lru_pop_law [OF assms(1) pop]
  have one: "shrunk L c (pop_entry L k c) \<and> (\<forall>k'. k' \<noteq> k \<longrightarrow> map_of (cache_entries L (pop_entry L k c)) k' = map_of (cache_entries L c) k')"
  proof (cases "map_of (cache_entries L c) k")
    case None
    then show ?thesis using law pop shrunk_refl [OF Cons.prems(1)] by (simp add: pop_entry_def)
  next
    case (Some v)
    then have "ci_pins v = 0" using Cons.prems(2) [OF _ Some] by simp
    then show ?thesis using popped_shrunk [OF assms(1) Cons.prems(1) Some _ pop] law pop by (auto simp: pop_entry_def)
  qed
  have sub: "map_of (cache_entries L (pop_entry L k c)) k' = Some v \<Longrightarrow> map_of (cache_entries L c) k' = Some v" for k' v
    using one shrunk_ok(3) [OF Cons.prems(1), of "pop_entry L k c"] Cons.prems(1)
    by (auto simp: cache_ok_def image_entries_ok_def dest: map_of_SomeD intro: map_of_is_SomeI)
  have "shrunk L (pop_entry L k c) (fold (pop_entry L) ks (pop_entry L k c)) \<and>
      (\<forall>k'. k' \<notin> set ks \<longrightarrow> map_of (cache_entries L (fold (pop_entry L) ks (pop_entry L k c))) k' = map_of (cache_entries L (pop_entry L k c)) k')"
  proof (rule Cons.IH)
    show "cache_ok L (pop_entry L k c)" using one shrunk_ok(1) [OF Cons.prems(1)] by blast
    show "ci_pins v = 0" if "k' \<in> set ks" "map_of (cache_entries L (pop_entry L k c)) k' = Some v" for k' v
      using Cons.prems(2) [OF _ sub [OF that(2)]] that(1) by simp
  qed
  then show ?case using one shrunk_trans by auto
qed

lemma release_spec:
  assumes "lru_ok L" "cache_ok L c"
  shows "cache_ok L (release_session L c s) \<and> cache_frame L c (release_session L c s) \<and> pin_count L (release_session L c s) = pin_count L c \<and>
    (\<forall>k. map_of (cache_entries L (release_session L c s)) k = map_option (drop_owner s) (map_of (cache_entries L c) k))"
  using assms by (auto simp: release_session_def cache_ok_def cache_frame_def lru_laws pin_count_eq pins_in_def fun_eq_iff
      image_entries_ok_mapped split: option.splits)

lemma clear_spec:
  assumes "lru_ok L" "cache_ok L c"
  shows "cache_ok L (clear_for_session L c s) \<and> cache_frame L c (clear_for_session L c s) \<and> pin_count L (clear_for_session L c s) = pin_count L c \<and>
    (\<forall>k v. map_of (cache_entries L (clear_for_session L c s)) k = Some v \<longrightarrow> (\<exists>old. map_of (cache_entries L c) k = Some old \<and> v = drop_owner s old)) \<and>
    (\<forall>k v. map_of (cache_entries L c) k = Some v \<longrightarrow> ci_pins v \<noteq> 0 \<or> (\<exists>owner \<in> set (ci_owners v). owner \<noteq> s) \<longrightarrow>
       map_of (cache_entries L (clear_for_session L c s)) k = Some (drop_owner s v))"
proof -
  let ?es = "cache_entries L c" and ?c = "c\<lparr> ic_cache := lru_iter_mut L (ic_cache c) (drop_owner s) \<rparr>"
  let ?P = "\<lambda>v. owned_by s v \<and> length (ci_owners v) = 1 \<and> ci_pins v = 0"
  let ?ks = "map fst (filter (\<lambda>(_, v). ?P v) ?es)"
  have d: "distinct (map fst ?es)" using assms(2) by (simp add: cache_ok_def image_entries_ok_def)
  have ok: "cache_ok L ?c" and pc: "pin_count L ?c = pin_count L c" and es: "lru_iter L (lru_iter_mut L (ic_cache c) (drop_owner s)) = map (map_prod id (drop_owner s)) ?es"
    using assms by (auto simp: cache_ok_def lru_laws pin_count_eq pins_in_def fun_eq_iff image_entries_ok_mapped split: option.splits)
  have orphan: "k \<in> set ?ks \<longleftrightarrow> (\<exists>v. map_of ?es k = Some v \<and> ?P v)" for k
    using d by (force simp: image_iff dest: map_of_SomeD intro: map_of_is_SomeI)
  have unpinned: "ci_pins v = 0" if mem: "k \<in> set ?ks" and entry: "map_of (cache_entries L ?c) k = Some v" for k v
  proof -
    obtain old where "map_of ?es k = Some old" "?P old" using orphan [of k, THEN iffD1, OF mem] by blast
    then show ?thesis using entry by (auto simp: es)
  qed
  have eq: "clear_for_session L c s = fold (pop_entry L) ?ks ?c" by (simp add: clear_for_session_def)
  have "shrunk L ?c (fold (pop_entry L) ?ks ?c) \<and>
      (\<forall>k. k \<notin> set ?ks \<longrightarrow> map_of (cache_entries L (fold (pop_entry L) ?ks ?c)) k = map_of (cache_entries L ?c) k)"
    by (rule pop_entries_shrunk [OF assms(1) ok]) (rule unpinned)
  then have sh: "shrunk L ?c (clear_for_session L c s)"
    and keep: "\<And>k. k \<notin> set ?ks \<Longrightarrow> map_of (cache_entries L (clear_for_session L c s)) k = map_of (cache_entries L ?c) k"
    unfolding eq by blast+
  note c' = shrunk_ok [OF ok sh]
  have "pin_count L (clear_for_session L c s) = pin_count L c" using c'(2) pc assms(1) by (simp add: pin_count_eq)
  moreover have "cache_frame L c (clear_for_session L c s)" using sh assms(1) by (simp add: shrunk_def cache_frame_def lru_laws)
  moreover have "\<exists>old. map_of ?es k = Some old \<and> v = drop_owner s old" if "map_of (cache_entries L (clear_for_session L c s)) k = Some v" for k v
  proof -
    have "(k, v) \<in> set (cache_entries L ?c)" using map_of_SomeD [OF that] c'(3) by auto
    then have "map_of (cache_entries L ?c) k = Some v" using ok by (auto simp: cache_ok_def image_entries_ok_def intro: map_of_is_SomeI)
    then show ?thesis by (auto simp: es)
  qed
  moreover have "map_of (cache_entries L (clear_for_session L c s)) k = Some (drop_owner s v)"
    if "map_of ?es k = Some v" "ci_pins v \<noteq> 0 \<or> (\<exists>owner \<in> set (ci_owners v). owner \<noteq> s)" for k v
  proof -
    have "\<not> ?P v" using that(2) by (auto simp: owned_by_def length_Suc_conv)
    then have "k \<notin> set ?ks" using orphan [of k] that(1) by simp
    then show ?thesis using keep that(1) by (simp add: es)
  qed
  ultimately show ?thesis using c'(1) by blast
qed

lemma trim_spec:
  assumes "lru_ok L" "cache_ok L c"
  shows "\<exists>c' freed. image_trim L c level = Some (c', freed) \<and> cache_ok L c' \<and> cache_frame L c c' \<and> pin_count L c' = pin_count L c \<and>
    set (cache_entries L c') \<subseteq> set (cache_entries L c) \<and> ic_current_size c' + freed = ic_current_size c \<and>
    (ic_current_size c' \<le> retained_bytes level (ic_max_size c) \<or> (\<forall>e \<in> set (cache_entries L c'). ci_pins (snd e) \<noteq> 0)) \<and>
    (\<forall>k v. map_of (cache_entries L c) k = Some v \<longrightarrow> ci_pins v \<noteq> 0 \<longrightarrow> map_of (cache_entries L c') k = Some v)"
proof (cases "cache_entries L c = []")
  case True
  then show ?thesis using assms by (simp add: image_trim_def cache_frame_def cache_ok_def)
next
  case False
  obtain c1 where ev: "evict L 0 (retained_bytes level (ic_max_size c)) c = Some c1" "shrunk L c c1"
      "ic_current_size c1 \<le> retained_bytes level (ic_max_size c) \<or> (\<forall>e \<in> set (cache_entries L c1). ci_pins (snd e) \<noteq> 0)"
    using evict_spec [OF assms, of 0] by auto
  note c1 = shrunk_ok [OF assms(2) ev(2)]
  let ?f = "ic_current_size c - ic_current_size c1"
  let ?c = "c1\<lparr> ic_trim_bytes_released := ic_trim_bytes_released c1 + word_of_nat ?f \<rparr>"
  have le: "ic_current_size c1 \<le> ic_current_size c"
  proof -
    obtain K where "cache_entries L c1 = filter (\<lambda>e. fst e \<in> K) (cache_entries L c)" using ev(2) by (auto simp: shrunk_def)
    moreover have "resident_bytes (filter P xs) \<le> resident_bytes xs" for P and xs :: entries by (induction xs) auto
    ultimately show ?thesis using ev(2) assms(2) by (simp add: shrunk_def cache_ok_def)
  qed
  have "image_trim L c level = Some (?c, ?f)" using False ev(1) by (simp add: image_trim_def Let_def)
  moreover have "cache_ok L ?c" using c1(1) by (simp add: cache_ok_def)
  moreover have "cache_frame L c ?c" using ev(2) by (simp add: shrunk_def cache_frame_def)
  moreover have "pin_count L ?c = pin_count L c" using c1(2) assms(1) by (simp add: pin_count_eq)
  ultimately show ?thesis using le ev(3) c1(3,4) by (intro exI [of _ ?c] exI [of _ ?f]) simp
qed

section \<open>Runs\<close>

datatype cache_op =
    OpGet image_cache_key i32
  | OpInsert image_cache_key normalized_image i32
  | OpPin image_cache_key
  | OpUnpin image_cache_key
  | OpClear i32
  | OpRelease i32
  | OpTrim trim_level

fun cache_apply :: "'c lru_ops \<Rightarrow> (u64 \<Rightarrow> image_cache_key \<Rightarrow> u64) \<Rightarrow> 'c image_cache \<Rightarrow> cache_op \<Rightarrow> 'c image_cache option" where
  "cache_apply L hash c (OpGet k s) = map_option fst (image_get L hash c k s)"
| "cache_apply L hash c (OpInsert k img s) = image_insert L hash c k img s"
| "cache_apply L hash c (OpPin k) = pin L c k"
| "cache_apply L hash c (OpUnpin k) = Some (unpin L c k)"
| "cache_apply L hash c (OpClear s) = Some (clear_for_session L c s)"
| "cache_apply L hash c (OpRelease s) = Some (release_session L c s)"
| "cache_apply L hash c (OpTrim level) = map_option fst (image_trim L c level)"

text \<open>The pins a user of the cache has taken and not given back.\<close>

fun pins_after :: "cache_op \<Rightarrow> (image_cache_key \<Rightarrow> nat) \<Rightarrow> image_cache_key \<Rightarrow> nat" where
  "pins_after (OpPin k) p = p(k := min (2 ^ 32 - 1) (p k + 1))"
| "pins_after (OpUnpin k) p = p(k := p k - 1)"
| "pins_after _ p = p"

definition held_pins :: "'c lru_ops \<Rightarrow> 'c image_cache \<Rightarrow> image_cache_key \<Rightarrow> nat" where
  "held_pins L c k = unat (pin_count L c k)"

definition images_kept :: "'c lru_ops \<Rightarrow> 'c image_cache \<Rightarrow> 'c image_cache \<Rightarrow> bool" where
  "images_kept L c c' \<longleftrightarrow> (\<forall>k v. map_of (cache_entries L c') k = Some v \<longrightarrow> (\<exists>old. map_of (cache_entries L c) k = Some old \<and> ci_image old = ci_image v))"

lemma map_of_sub:
  assumes "distinct (map fst ys)" "set xs \<subseteq> set ys" "map_of xs k = Some v"
  shows "map_of ys k = Some v"
  using assms by (auto dest: map_of_SomeD intro: map_of_is_SomeI)

lemma pin_entries:
  "lru_ok L \<Longrightarrow> pin L c k = Some c' \<Longrightarrow> map_option ci_image (map_of (cache_entries L c') k') = map_option ci_image (map_of (cache_entries L c) k')"
  by (auto simp: pin_def lru_laws option.map_comp comp_def split: option.splits bind_splits)

lemma unpin_entries:
  "lru_ok L \<Longrightarrow> map_option ci_image (map_of (cache_entries L (unpin L c k)) k') = map_option ci_image (map_of (cache_entries L c) k')"
  by (auto simp: unpin_def lru_laws option.map_comp comp_def Let_def split: option.splits)

lemma images_kept_map:
  assumes "\<And>k. map_option ci_image (map_of (cache_entries L c') k) = map_option ci_image (map_of (cache_entries L c) k)"
  shows "images_kept L c c'"
  unfolding images_kept_def
proof (intro allI impI)
  fix k v
  assume "map_of (cache_entries L c') k = Some v"
  then have "map_option ci_image (map_of (cache_entries L c) k) = Some (ci_image v)" using assms [of k] by simp
  then show "\<exists>old. map_of (cache_entries L c) k = Some old \<and> ci_image old = ci_image v" by auto
qed

lemma cache_apply_step:
  assumes "lru_ok L" "cache_ok L c" "cache_apply L hash c op = Some c'"
  shows "cache_ok L c' \<and> cache_frame L c c' \<and> held_pins L c' = pins_after op (held_pins L c) \<and>
    ((\<forall>k img s. op \<noteq> OpInsert k img s) \<longrightarrow> images_kept L c c')"
proof (cases op)
  case (OpGet k s)
  then obtain img where "image_get L hash c k s = Some (c', img)" using assms(3) by auto
  then show ?thesis using get_spec [OF assms(1,2), of hash k s] OpGet
    by (auto simp: held_pins_def fun_eq_iff intro: images_kept_map)
next
  case (OpInsert k img s)
  then show ?thesis using insert_spec [OF assms(1,2), of hash k img s] assms(3) by (auto simp: held_pins_def fun_eq_iff)
next
  case (OpPin k)
  then have p: "pin L c k = Some c'" using assms(3) by simp
  have "unat (pin_count L c k) < 2 ^ 32 - 1 \<or> map_of (cache_entries L c) k \<noteq> None"
    using p assms(1) by (auto simp: pin_def pin_count_def lru_laws checked_add_def split: option.splits if_splits bind_splits)
  then show ?thesis using pin_spec [OF assms(1,2), of k] p OpPin pin_entries [OF assms(1) p]
    by (auto simp: held_pins_def fun_eq_iff intro!: images_kept_map)
next
  case (OpUnpin k)
  then show ?thesis using unpin_spec [OF assms(1,2), of k] assms(3) unpin_entries [OF assms(1), of c k]
    by (auto simp: held_pins_def fun_eq_iff intro!: images_kept_map)
next
  case (OpClear s)
  have "images_kept L c (clear_for_session L c s)"
    using clear_spec [OF assms(1,2), of s] unfolding images_kept_def by (metis drop_owner_simps(3))
  then show ?thesis using OpClear clear_spec [OF assms(1,2), of s] assms(3) by (simp add: held_pins_def fun_eq_iff)
next
  case (OpRelease s)
  then show ?thesis using release_spec [OF assms(1,2), of s] assms(3) by (auto simp: held_pins_def images_kept_def)
next
  case (OpTrim level)
  have d: "distinct (map fst (cache_entries L c))" using assms(2) by (simp add: cache_ok_def image_entries_ok_def)
  obtain freed where t: "image_trim L c level = Some (c', freed)" using assms(3) OpTrim by auto
  then have c': "cache_ok L c'" "cache_frame L c c'" "pin_count L c' = pin_count L c" "set (cache_entries L c') \<subseteq> set (cache_entries L c)"
    using trim_spec [OF assms(1,2), of level] by auto
  have "images_kept L c c'" unfolding images_kept_def using map_of_sub [OF d c'(4)] by blast
  then show ?thesis using c' OpTrim by (simp add: held_pins_def fun_eq_iff)
qed

lemma cache_apply_total:
  assumes "lru_ok L" "cache_ok L c" "cache_apply L hash c op = None"
  shows "\<exists>k. op = OpPin k \<and> held_pins L c k = 2 ^ 32 - 1"
proof (cases op)
  case (OpPin k)
  have "unat (pin_count L c k) < 2 ^ 32" using unat_bound [of "pin_count L c k"] by simp
  moreover have "\<not> unat (pin_count L c k) < 2 ^ 32 - 1" using pin_spec [OF assms(1,2), of k] assms(3) OpPin by auto
  ultimately show ?thesis using OpPin by (simp add: held_pins_def)
next
  case (OpGet k s)
  then show ?thesis using get_spec [OF assms(1,2), of hash k s] assms(3) by auto
next
  case (OpInsert k img s)
  then show ?thesis using insert_spec [OF assms(1,2), of hash k img s] assms(3) by auto
next
  case (OpTrim level)
  then show ?thesis using trim_spec [OF assms(1,2), of level] assms(3) by auto
qed (use assms(3) in auto)

lemma with_limits_ok:
  assumes "lru_ok L" "with_limits L max_entries max_bytes = Some c"
  shows "cache_ok L c" "held_pins L c = (\<lambda>_. 0)" "lru_cap L (ic_cache c) = max max_entries 1" "cache_entries L c = []" "ic_max_size c = max_bytes"
proof -
  obtain sk where sk: "new_for_capacity max_entries = Some sk" using assms(2) by (auto simp: with_limits_def split: bind_splits)
  have "sketch_ok sk" using new_for_capacity_ok [OF sk, of "\<lambda>_ _. 0 :: u64" "{} :: nat set"] by (simp add: covers_def)
  then show "cache_ok L c" "held_pins L c = (\<lambda>_. 0)" "lru_cap L (ic_cache c) = max max_entries 1" "cache_entries L c = []" "ic_max_size c = max_bytes"
    using assms sk by (auto simp: with_limits_def cache_ok_def image_entries_ok_def lru_laws held_pins_def pin_count_def fun_eq_iff)
qed

definition inserted :: "cache_op list \<Rightarrow> image_cache_key \<Rightarrow> normalized_image \<Rightarrow> bool" where
  "inserted ops k img \<longleftrightarrow> (\<exists>s. OpInsert k img s \<in> set ops)"

lemma cache_run:
  assumes "lru_ok L" "cache_ok L c" "fold_opt (cache_apply L hash) c ops = Some c'"
  shows "cache_ok L c' \<and> cache_frame L c c' \<and> held_pins L c' = fold pins_after ops (held_pins L c) \<and>
    (\<forall>k v. map_of (cache_entries L c') k = Some v \<longrightarrow>
       inserted ops k (ci_image v) \<or> (\<exists>old. map_of (cache_entries L c) k = Some old \<and> ci_image old = ci_image v))"
  using assms(2,3)
proof (induction ops arbitrary: c)
  case Nil
  then show ?case by (simp add: cache_frame_def)
next
  case (Cons op ops)
  obtain m where m: "cache_apply L hash c op = Some m" "fold_opt (cache_apply L hash) m ops = Some c'"
    using Cons.prems(2) by (auto split: bind_splits)
  note step = cache_apply_step [OF assms(1) Cons.prems(1) m(1)]
  have "cache_ok L m" using step by blast
  then have ok: "cache_ok L m" by blast
  note run = Cons.IH [OF ok m(2)]
  have here: "inserted (op # ops) k (ci_image v) \<or> (\<exists>old. map_of (cache_entries L c) k = Some old \<and> ci_image old = ci_image v)"
    if v: "map_of (cache_entries L m) k = Some v" for k v
  proof (cases "\<exists>key img s. op = OpInsert key img s")
    case False
    then have "images_kept L c m" using step by blast
    then show ?thesis using v unfolding images_kept_def by blast
  next
    case True
    then obtain key img s where op: "op = OpInsert key img s" by blast
    then have "cache_entries L m = cache_entries L c \<or> admitted L c key img s m"
      using insert_spec [OF assms(1) Cons.prems(1), of hash key img s] m(1) by auto
    then show ?thesis
    proof
      assume "admitted L c key img s m"
      then obtain w where w: "map_of (cache_entries L m) key = Some w" "ci_image w = img" "set (cache_entries L m) \<subseteq> insert (key, w) (set (cache_entries L c))"
        unfolding admitted_def by blast
      show ?thesis
      proof (cases "k = key")
        case True
        then show ?thesis using v w(1,2) op by (auto simp: inserted_def)
      next
        case False
        then have "(k, v) \<in> set (cache_entries L c)" using map_of_SomeD [OF v] w(3) by auto
        then have "map_of (cache_entries L c) k = Some v" using Cons.prems(1) by (auto simp: cache_ok_def image_entries_ok_def intro: map_of_is_SomeI)
        then show ?thesis by blast
      qed
    qed (use v in auto)
  qed
  have "inserted (op # ops) k (ci_image v) \<or> (\<exists>old. map_of (cache_entries L c) k = Some old \<and> ci_image old = ci_image v)"
    if "map_of (cache_entries L c') k = Some v" for k v
  proof -
    have "inserted ops k (ci_image v) \<or> (\<exists>old. map_of (cache_entries L m) k = Some old \<and> ci_image old = ci_image v)"
      using run that by blast
    then show ?thesis
    proof
      assume "inserted ops k (ci_image v)"
      then show ?thesis by (auto simp: inserted_def)
    next
      assume "\<exists>old. map_of (cache_entries L m) k = Some old \<and> ci_image old = ci_image v"
      then show ?thesis using here by force
    qed
  qed
  then show ?case using run step by (auto simp: cache_frame_def)
qed

text \<open>
  C18. The books of the image cache are exact. After any sequence of operations, the pins
  of every key are those that were taken and not given back, whether its image is
  resident, was displaced or has not arrived; the byte count is the sum of the resident
  images; no key is resident twice and the entry limit holds; what is resident under a key
  was inserted under it. No operation panics, except a pin when \<open>2 ^ 32 - 1\<close> are held.
\<close>

theorem image_cache_books_are_exact:
  assumes "lru_ok L" "with_limits L max_entries max_bytes = Some c0" "fold_opt (cache_apply L hash) c0 ops = Some c"
  shows "(\<forall>k. unat (pin_count L c k) = fold pins_after ops (\<lambda>_. 0) k) \<and>
    ic_current_size c = sum_list (map (\<lambda>(_, v). length (ni_rgba (ci_image v))) (cache_entries L c)) \<and>
    distinct (map fst (cache_entries L c)) \<and> length (cache_entries L c) \<le> max max_entries 1 \<and>
    (\<forall>k v. map_of (cache_entries L c) k = Some v \<longrightarrow> inserted ops k (ci_image v)) \<and>
    (\<forall>op. cache_apply L hash c op = None \<longrightarrow> (\<exists>k. op = OpPin k \<and> unat (pin_count L c k) = 2 ^ 32 - 1))"
proof -
  note init = with_limits_ok [OF assms(1,2)]
  have run: "cache_ok L c" "cache_frame L c0 c" "held_pins L c = fold pins_after ops (\<lambda>_. 0)"
    "\<And>k v. map_of (cache_entries L c) k = Some v \<Longrightarrow> inserted ops k (ci_image v)"
    using cache_run [OF assms(1) init(1) assms(3)] init(2,4) by auto
  have "\<forall>e \<in> set (cache_entries L c). image_entry_ok (snd e)" using run(1) by (simp add: cache_ok_def image_entries_ok_def)
  then have "map (\<lambda>(_, v). length (ni_rgba (ci_image v))) (cache_entries L c) = map (ci_size_bytes \<circ> snd) (cache_entries L c)"
    by (auto simp: image_entry_ok_def)
  then have "sum_list (map (\<lambda>(_, v). length (ni_rgba (ci_image v))) (cache_entries L c)) = resident_bytes (cache_entries L c)"
    by (rule arg_cong)
  then have "ic_current_size c = sum_list (map (\<lambda>(_, v). length (ni_rgba (ci_image v))) (cache_entries L c))"
    using run(1) unfolding cache_ok_def by argo
  moreover have "length (cache_entries L c) \<le> max max_entries 1" "distinct (map fst (cache_entries L c))"
    using run(1,2) init(3) by (simp_all add: cache_ok_def image_entries_ok_def cache_frame_def)
  moreover have "\<forall>k. unat (pin_count L c k) = fold pins_after ops (\<lambda>_. 0) k" using run(3) by (simp add: held_pins_def fun_eq_iff)
  moreover have "\<exists>k. op = OpPin k \<and> unat (pin_count L c k) = 2 ^ 32 - 1" if "cache_apply L hash c op = None" for op
    using cache_apply_total [OF assms(1) run(1) that] by (simp add: held_pins_def)
  ultimately show ?thesis using run(4) by blast
qed



text \<open>
  The entry limit is kept inside the LRU list, which does not know about pins: inserting a
  new key into a full cache drops the least recently used image even when it is pinned.
\<close>

lemma pinned_image_is_displaced:
  assumes "lru_ok L" "cache_ok L c" "length (cache_entries L c) = lru_cap L (ic_cache c)" "last (cache_entries L c) = (old, v)" "ci_pins v \<noteq> 0"
    and "map_of (cache_entries L c) k = None" "ic_current_size c + length (ni_rgba img) \<le> ic_max_size c"
  shows "\<exists>c'. image_insert L hash c k img s = Some c' \<and> map_of (cache_entries L c') old = None \<and> pin_count L c' old = ci_pins v"
proof -
  let ?es = "cache_entries L c"
  have ok: "distinct (map fst ?es)" "?es \<noteq> []" using assms(2,3) by (auto simp: cache_ok_def image_entries_ok_def)
  have "(old, v) \<in> set ?es" using last_in_set [OF ok(2)] assms(4) by simp
  then have old: "map_of ?es old = Some v" by (rule map_of_is_SomeI [OF ok(1)])
  obtain sk m where inc: "increment hash (ic_sketch c) k = Some (sk, m)" "sketch_ok sk"
    using increment_total [of "ic_sketch c" hash k] assms(2) by (auto simp: cache_ok_def)
  let ?c = "c\<lparr> ic_sketch := sk, ic_reservations := (ic_reservations c)(k := None) \<rparr>"
  let ?v = "(cached_image_new img s)\<lparr> ci_pins := pin_count L c k \<rparr>"
  have c1: "cache_ok L ?c" using assms(2) inc(2) by (auto simp: cache_ok_def image_entries_ok_def)
  have ev: "evict L (length (ni_rgba img)) (ic_max_size c) ?c = Some ?c" using assms(7) by (subst evict.simps) simp
  have "image_entry_ok ?v" by (simp add: image_entry_ok_def cached_image_new_def)
  then obtain c' where ins: "insert_entry L ?c k ?v = Some c'" "map_of (cache_entries L c') (fst (last ?es)) = None"
    using insert_entry_spec [OF assms(1) c1, of k ?v] assms(3,6) by auto
  have none: "lru_peek L (ic_cache c) k = None" using assms(1,6) by (simp add: lru_laws)
  have "image_insert L hash c k img s = Some c'"
    using inc(1) pins_one_home [OF assms(1,2), of k] ev ins(1) assms(7) none
    by (simp add: image_insert_def Let_def cached_image_new_def)
  moreover have "pin_count L c' old = ci_pins v"
    using calculation insert_spec [OF assms(1,2), of hash k img s] old assms(1) by (auto simp: pin_count_eq pins_in_def)
  ultimately show ?thesis using ins(2) assms(4) by simp
qed

text \<open>The list as its own LRU cache: the capacity and the entries.\<close>

definition list_lru :: "(nat \<times> entries) lru_ops" where
  "list_lru = \<lparr>
     lru_new = \<lambda>n. (n, []), lru_cap = fst, lru_iter = snd, lru_peek = \<lambda>(_, es) k. map_of es k,
     lru_peek_mut = \<lambda>(n, es) k f. (n, adjust k f es),
     lru_get_mut = \<lambda>(n, es) k f. (n, case map_of es k of None \<Rightarrow> es | Some v \<Rightarrow> (k, f v) # without k es),
     lru_iter_mut = \<lambda>(n, es) f. (n, map (map_prod id f) es),
     lru_peek_lru = \<lambda>(_, es). if es = [] then None else Some (last es),
     lru_push = \<lambda>(n, es) k v. (case map_of es k of
         Some old \<Rightarrow> ((n, (k, v) # without k es), Some (k, old))
       | None \<Rightarrow> if length es < n then ((n, (k, v) # es), None) else ((n, (k, v) # butlast es), Some (last es))),
     lru_pop = \<lambda>(n, es) k. ((n, without k es), map_of es k) \<rparr>"

lemma list_lru_ok: "lru_ok list_lru"
  by (simp add: lru_ok_def list_lru_def split: option.splits if_splits)

definition demo_image :: normalized_image where
  "demo_image = \<lparr> ni_width = 1, ni_height = 1, ni_rgba = [1, 2, 3, 4] \<rparr>"

abbreviation (input) demo_key :: image_cache_key where "demo_key \<equiv> full_res_key ''a.png'' 0"

lemma demo_image_cache:
  obtains c0 c where "with_limits list_lru 8 64 = Some c0"
    "fold_opt (cache_apply list_lru (\<lambda>_ _. 0)) c0 [OpPin demo_key, OpInsert demo_key demo_image 1] = Some c"
    "map_of (cache_entries list_lru c) demo_key \<noteq> None"
proof -
  have bits: "bit_length 255 = 8" by (simp add: bit_length.simps)
  obtain c0 where c0: "with_limits list_lru 8 64 = Some c0"
    by (simp add: with_limits_def new_for_capacity_def next_power_of_two_def div_ceil_def bits)
  note init = with_limits_ok [OF list_lru_ok c0]
  have "unat (pin_count list_lru c0 demo_key) = 0" using init(2) by (simp add: held_pins_def fun_eq_iff)
  then obtain c1 where c1: "pin list_lru c0 demo_key = Some c1" "cache_ok list_lru c1" "cache_frame list_lru c0 c1" "unat (pin_count list_lru c1 demo_key) = 1"
    using pin_spec [OF list_lru_ok init(1), of demo_key] by auto
  obtain c where c: "image_insert list_lru (\<lambda>_ _. 0) c1 demo_key demo_image 1 = Some c"
      "length (ni_rgba demo_image) > ic_max_size c1 \<or> pin_count list_lru c1 demo_key = 0 \<or> admitted list_lru c1 demo_key demo_image 1 c"
    using insert_spec [OF list_lru_ok c1(2), of "\<lambda>_ _. 0" demo_key demo_image 1] by blast
  have "pin_count list_lru c1 demo_key \<noteq> 0" using c1(4) by auto
  then have "map_of (cache_entries list_lru c) demo_key \<noteq> None"
    using c(2) c1(3) init(5) by (auto simp: demo_image_def cache_frame_def admitted_def)
  then show thesis using that c0 c1(1) c(1) by simp
qed

theorem image_cache_books_are_exact_witness:
  "\<exists>c0 c. with_limits list_lru 8 64 = Some c0 \<and>
     fold_opt (cache_apply list_lru (\<lambda>_ _. 0)) c0 [OpPin demo_key, OpInsert demo_key demo_image 1] = Some c \<and>
     unat (pin_count list_lru c demo_key) = 1 \<and> length (cache_entries list_lru c) \<le> 8"
proof -
  obtain c0 c where c: "with_limits list_lru 8 64 = Some c0"
    "fold_opt (cache_apply list_lru (\<lambda>_ _. 0)) c0 [OpPin demo_key, OpInsert demo_key demo_image 1] = Some c" by (rule demo_image_cache)
  show ?thesis using image_cache_books_are_exact [OF list_lru_ok c] c by auto
qed


end
