(* ===== verification/Host_Channel.thy ===== *)
theory Host_Channel
  imports Prelude "HOL-Library.Multiset"
begin

text \<open>
  The ordered queue of commands to a host (\<open>shared/src/host_channel.rs\<close>): input in two
  bounded lanes with coalescing and supersession, lifecycle traffic that skips the bounds,
  one FIFO order. Every operation runs under the queue's mutex and is one step; \<open>recv\<close>
  is the loop of \<open>try_recv\<close> around a notification. A command is any value.
\<close>

section \<open>The queue\<close>

datatype input_stream = Touch | Pointer | Composition | Gamepad u32

datatype input_send_outcome = Enqueued | Coalesced | Reserved

datatype queue_lane = NormalLane | ReservedLane | CriticalLane

record input_metadata =
  im_stream :: input_stream
  im_coalescible :: bool

record 'c queued_host_command =
  q_command :: 'c
  q_lane :: queue_lane
  q_input :: "input_metadata option"

record 'c queue_state =
  qs_entries :: "'c queued_host_command list"
  qs_normal_len :: nat
  qs_reserved_len :: nat
  qs_receiver_open :: bool
  qs_normal_senders :: nat
  qs_critical_senders :: nat

record capacities =
  normal_capacity :: nat
  reliable_capacity :: nat

datatype 'c send_error = Full 'c | Closed 'c
datatype recv_error = RecvEmpty | RecvDisconnected

abbreviation (input) DEFAULT_RELIABLE_INPUT_RESERVE :: nat where "DEFAULT_RELIABLE_INPUT_RESERVE \<equiv> 64"

definition channel_with_reserve :: "nat \<Rightarrow> nat \<Rightarrow> (capacities \<times> 'c queue_state) option" where
  "channel_with_reserve normal reliable =
     (if normal = 0 \<or> reliable = 0 then Panic
      else Some (\<lparr> normal_capacity = normal, reliable_capacity = reliable \<rparr>,
        \<lparr> qs_entries = [], qs_normal_len = 0, qs_reserved_len = 0, qs_receiver_open = True,
          qs_normal_senders = 1, qs_critical_senders = 1 \<rparr>))"

definition channel :: "nat \<Rightarrow> (capacities \<times> 'c queue_state) option" where
  "channel normal = channel_with_reserve normal DEFAULT_RELIABLE_INPUT_RESERVE"

text \<open>Lengths are \<open>usize\<close>: taking more than there is panics.\<close>

definition usize_sub :: "nat \<Rightarrow> nat \<Rightarrow> nat option" where
  "usize_sub a b = (if b \<le> a then Some (a - b) else Panic)"

fun rposition :: "('a \<Rightarrow> bool) \<Rightarrow> 'a list \<Rightarrow> nat option" where
  "rposition P [] = None"
| "rposition P (x # xs) = (case rposition P xs of
     Some i \<Rightarrow> Some (Suc i)
   | None \<Rightarrow> if P x then Some 0 else None)"

definition input_epoch_start :: "'c queue_state \<Rightarrow> nat" where
  "input_epoch_start s = (case rposition (\<lambda>e. q_lane e = CriticalLane) (qs_entries s) of None \<Rightarrow> 0 | Some i \<Rightarrow> i + 1)"

definition push :: "'c queue_state \<Rightarrow> 'c \<Rightarrow> queue_lane \<Rightarrow> input_metadata option \<Rightarrow> 'c queue_state" where
  "push s command lane input =
     (let s = (case lane of
          NormalLane \<Rightarrow> s\<lparr> qs_normal_len := qs_normal_len s + 1 \<rparr>
        | ReservedLane \<Rightarrow> s\<lparr> qs_reserved_len := qs_reserved_len s + 1 \<rparr>
        | CriticalLane \<Rightarrow> s)
      in s\<lparr> qs_entries := qs_entries s @ [\<lparr> q_command = command, q_lane = lane, q_input = input \<rparr>] \<rparr>)"

definition pop :: "'c queue_state \<Rightarrow> ('c option \<times> 'c queue_state) option" where
  "pop s = (case qs_entries s of
     [] \<Rightarrow> Some (None, s)
   | queued # rest \<Rightarrow> (let s = s\<lparr> qs_entries := rest \<rparr> in
       case q_lane queued of
         NormalLane \<Rightarrow> do { n \<leftarrow> usize_sub (qs_normal_len s) 1; Some (Some (q_command queued), s\<lparr> qs_normal_len := n \<rparr>) }
       | ReservedLane \<Rightarrow> do { n \<leftarrow> usize_sub (qs_reserved_len s) 1; Some (Some (q_command queued), s\<lparr> qs_reserved_len := n \<rparr>) }
       | CriticalLane \<Rightarrow> Some (Some (q_command queued), s)))"

definition senders_closed :: "'c queue_state \<Rightarrow> bool" where
  "senders_closed s \<longleftrightarrow> qs_normal_senders s = 0 \<and> qs_critical_senders s = 0"

section \<open>Sending\<close>

definition try_send :: "capacities \<Rightarrow> 'c queue_state \<Rightarrow> 'c \<Rightarrow> ('c send_error + unit) \<times> 'c queue_state" where
  "try_send cap s command =
     (if \<not> qs_receiver_open s then (Inl (Closed command), s)
      else if qs_normal_len s = normal_capacity cap then (Inl (Full command), s)
      else (Inr (), push s command NormalLane None))"

definition in_stream :: "input_stream \<Rightarrow> 'c queued_host_command \<Rightarrow> bool" where
  "in_stream stream e \<longleftrightarrow> (case q_input e of None \<Rightarrow> False | Some input \<Rightarrow> im_stream input = stream)"

definition is_coalescible :: "'c queued_host_command \<Rightarrow> bool" where
  "is_coalescible e \<longleftrightarrow> (case q_input e of None \<Rightarrow> False | Some input \<Rightarrow> im_coalescible input)"

definition try_send_coalescible :: "capacities \<Rightarrow> 'c queue_state \<Rightarrow> input_stream \<Rightarrow> 'c
    \<Rightarrow> ('c send_error + input_send_outcome) \<times> 'c queue_state" where
  "try_send_coalescible cap s stream command =
     (if \<not> qs_receiver_open s then (Inl (Closed command), s)
      else let epoch_start = input_epoch_start s;
               newest = map_option (\<lambda>i. epoch_start + i) (rposition (in_stream stream) (drop epoch_start (qs_entries s)));
               enqueue = (if qs_normal_len s = normal_capacity cap then (Inl (Full command), s)
                          else (Inr Enqueued,
                            push s command NormalLane (Some \<lparr> im_stream = stream, im_coalescible = True \<rparr>)))
           in case newest of
             None \<Rightarrow> enqueue
           | Some i \<Rightarrow>
               if is_coalescible (qs_entries s ! i)
               then (Inr Coalesced, s\<lparr> qs_entries := (qs_entries s)[i := (qs_entries s ! i)\<lparr> q_command := command \<rparr>] \<rparr>)
               else enqueue)"

text \<open>The state of the stream that a terminal transition supersedes.\<close>

definition superseded :: "input_stream \<Rightarrow> 'c queued_host_command \<Rightarrow> bool" where
  "superseded stream e \<longleftrightarrow> in_stream stream e \<and> is_coalescible e"

definition removable_normal :: "'c queue_state \<Rightarrow> input_stream option \<Rightarrow> bool \<Rightarrow> nat" where
  "removable_normal s stream supersede_coalescible =
     (if supersede_coalescible
      then (case stream of
          None \<Rightarrow> 0
        | Some stream \<Rightarrow> length (filter (\<lambda>e. q_lane e = NormalLane \<and> superseded stream e)
            (drop (input_epoch_start s) (qs_entries s))))
      else 0)"

definition retain_from :: "nat \<Rightarrow> ('a \<Rightarrow> bool) \<Rightarrow> 'a list \<Rightarrow> 'a list" where
  "retain_from epoch_start keep xs =
     map snd (filter (\<lambda>(index, e). index < epoch_start \<or> keep e) (enumerate 0 xs))"

definition try_send_transition :: "capacities \<Rightarrow> 'c queue_state \<Rightarrow> input_stream option \<Rightarrow> 'c \<Rightarrow> bool
    \<Rightarrow> (('c send_error + input_send_outcome) \<times> 'c queue_state) option" where
  "try_send_transition cap s stream command supersede_coalescible =
     (if \<not> qs_receiver_open s then Some (Inl (Closed command), s)
      else do {
        let epoch_start = input_epoch_start s;
        normal_after_supersession \<leftarrow> usize_sub (qs_normal_len s) (removable_normal s stream supersede_coalescible);
        let slot = (if normal_after_supersession < normal_capacity cap then Some (NormalLane, Enqueued)
                    else if qs_reserved_len s < reliable_capacity cap then Some (ReservedLane, Reserved)
                    else None);
        case slot of
          None \<Rightarrow> Some (Inl (Full command), s)
        | Some (lane, outcome) \<Rightarrow>
            let s = (case stream of
                  Some stream \<Rightarrow>
                    if supersede_coalescible
                    then s\<lparr> qs_entries := retain_from epoch_start (\<lambda>e. \<not> superseded stream e) (qs_entries s) \<rparr>
                    else s
                | None \<Rightarrow> s);
                s = s\<lparr> qs_normal_len := normal_after_supersession \<rparr>
            in Some (Inr outcome, push s command lane
                 (map_option (\<lambda>stream. \<lparr> im_stream = stream, im_coalescible = False \<rparr>) stream)) })"

definition try_send_reliable :: "capacities \<Rightarrow> 'c queue_state \<Rightarrow> input_stream option \<Rightarrow> 'c
    \<Rightarrow> (('c send_error + input_send_outcome) \<times> 'c queue_state) option" where
  "try_send_reliable cap s stream command = try_send_transition cap s stream command False"

definition try_send_terminal :: "capacities \<Rightarrow> 'c queue_state \<Rightarrow> input_stream option \<Rightarrow> 'c
    \<Rightarrow> (('c send_error + input_send_outcome) \<times> 'c queue_state) option" where
  "try_send_terminal cap s stream command = try_send_transition cap s stream command True"

definition send_critical :: "'c queue_state \<Rightarrow> 'c \<Rightarrow> ('c + unit) \<times> 'c queue_state" where
  "send_critical s command =
     (if \<not> qs_receiver_open s then (Inl command, s) else (Inr (), push s command CriticalLane None))"

section \<open>Receiving, and the life of the ends\<close>

definition try_recv :: "'c queue_state \<Rightarrow> ((recv_error + 'c) \<times> 'c queue_state) option" where
  "try_recv s = do {
     (popped, s) \<leftarrow> pop s;
     Some (case popped of
       Some command \<Rightarrow> (Inr command, s)
     | None \<Rightarrow> if senders_closed s then (Inl RecvDisconnected, s) else (Inl RecvEmpty, s)) }"

definition receiver_drop :: "'c queue_state \<Rightarrow> 'c queue_state" where
  "receiver_drop s = s\<lparr> qs_receiver_open := False, qs_entries := [], qs_normal_len := 0, qs_reserved_len := 0 \<rparr>"

definition sender_clone :: "'c queue_state \<Rightarrow> 'c queue_state" where
  "sender_clone s = s\<lparr> qs_normal_senders := qs_normal_senders s + 1 \<rparr>"

definition sender_drop :: "'c queue_state \<Rightarrow> (bool \<times> 'c queue_state) option" where
  "sender_drop s = do {
     n \<leftarrow> usize_sub (qs_normal_senders s) 1;
     let s = s\<lparr> qs_normal_senders := n \<rparr>;
     Some (senders_closed s, s) }"

definition critical_clone :: "'c queue_state \<Rightarrow> 'c queue_state" where
  "critical_clone s = s\<lparr> qs_critical_senders := qs_critical_senders s + 1 \<rparr>"

definition critical_drop :: "'c queue_state \<Rightarrow> (bool \<times> 'c queue_state) option" where
  "critical_drop s = do {
     n \<leftarrow> usize_sub (qs_critical_senders s) 1;
     let s = s\<lparr> qs_critical_senders := n \<rparr>;
     Some (senders_closed s, s) }"

section \<open>Counting\<close>

definition lane_count :: "queue_lane \<Rightarrow> 'c queued_host_command list \<Rightarrow> nat" where
  "lane_count lane es = length (filter (\<lambda>e. q_lane e = lane) es)"

lemma lane_count_simps [simp]:
  "lane_count lane [] = 0"
  "lane_count lane (e # es) = (if q_lane e = lane then 1 else 0) + lane_count lane es"
  "lane_count lane (es @ fs) = lane_count lane es + lane_count lane fs"
  by (simp_all add: lane_count_def)

lemma lane_count_split: "lane_count lane (filter P es) + lane_count lane (filter (\<lambda>e. \<not> P e) es) = lane_count lane es"
  by (induction es) auto

lemma lane_count_none: "\<forall>e \<in> set es. q_lane e \<noteq> lane \<Longrightarrow> lane_count lane es = 0"
  by (induction es) auto

text \<open>
  The lengths are the numbers of entries, within the capacities; replaceable state is in
  the normal lane; a closed queue is empty.
\<close>

definition queue_ok :: "capacities \<Rightarrow> 'c queue_state \<Rightarrow> bool" where
  "queue_ok cap s \<longleftrightarrow> qs_normal_len s = lane_count NormalLane (qs_entries s) \<and>
     qs_reserved_len s = lane_count ReservedLane (qs_entries s) \<and>
     qs_normal_len s \<le> normal_capacity cap \<and> qs_reserved_len s \<le> reliable_capacity cap \<and>
     (\<forall>e \<in> set (qs_entries s). is_coalescible e \<longrightarrow> q_lane e = NormalLane) \<and>
     (qs_receiver_open s \<or> qs_entries s = [])"

lemma rposition_Some:
  "rposition P xs = Some i \<Longrightarrow> i < length xs \<and> P (xs ! i) \<and> (\<forall>y \<in> set (drop (Suc i) xs). \<not> P y)"
proof (induction xs arbitrary: i)
  case (Cons x xs)
  show ?case
  proof (cases "rposition P xs")
    case None
    have "\<forall>y \<in> set xs. \<not> P y" using None by (induction xs) (auto split: option.splits if_splits)
    with None Cons.prems show ?thesis by (auto split: if_splits)
  next
    case (Some j)
    with Cons.IH [OF Some] Cons.prems show ?thesis by auto
  qed
qed simp

lemma rposition_None: "rposition P xs = None \<longleftrightarrow> (\<forall>x \<in> set xs. \<not> P x)"
  by (induction xs) (auto split: option.splits)

lemma epoch_start_bound: "input_epoch_start s \<le> length (qs_entries s)"
  using rposition_Some [of "\<lambda>e. q_lane e = CriticalLane" "qs_entries s"]
  by (auto simp: input_epoch_start_def split: option.splits)

lemma retain_from_split: "retain_from n keep xs = take n xs @ filter keep (drop n xs)"
proof -
  have "map snd (filter (\<lambda>(index, e). index < n \<or> keep e) (enumerate k xs)) =
      take (n - k) xs @ filter keep (drop (n - k) xs)" for k
  proof (induction xs arbitrary: k)
    case (Cons x xs)
    have "k < n \<Longrightarrow> n - k = Suc (n - Suc k)" by simp
    with Cons [of "Suc k"] show ?case by (cases "k < n") auto
  qed simp
  from this [of 0] show ?thesis by (simp add: retain_from_def)
qed

section \<open>Runs\<close>

datatype 'c host_op =
    HTrySend 'c
  | HCoalescible input_stream 'c
  | HReliable "input_stream option" 'c
  | HTerminal "input_stream option" 'c
  | HCritical 'c
  | HRecv
  | HCloneNormal
  | HDropNormal
  | HCloneCritical
  | HDropCritical
  | HDropReceiver

datatype 'c host_out = HAccepted | HRefused | HReceived 'c | HNotReceived | HSilent

definition verdict :: "'a + 'b \<Rightarrow> 'c host_out" where
  "verdict r = (case r of Inl _ \<Rightarrow> HRefused | Inr _ \<Rightarrow> HAccepted)"

fun host_step :: "capacities \<Rightarrow> 'c host_op \<Rightarrow> 'c queue_state \<Rightarrow> ('c host_out \<times> 'c queue_state) option" where
  "host_step cap (HTrySend c) s = (case try_send cap s c of (r, s') \<Rightarrow> Some (verdict r, s'))"
| "host_step cap (HCoalescible stream c) s = (case try_send_coalescible cap s stream c of (r, s') \<Rightarrow> Some (verdict r, s'))"
| "host_step cap (HReliable stream c) s = do { (r, s') \<leftarrow> try_send_reliable cap s stream c; Some (verdict r, s') }"
| "host_step cap (HTerminal stream c) s = do { (r, s') \<leftarrow> try_send_terminal cap s stream c; Some (verdict r, s') }"
| "host_step cap (HCritical c) s = (case send_critical s c of (r, s') \<Rightarrow> Some (verdict r, s'))"
| "host_step cap HRecv s = do { (r, s') \<leftarrow> try_recv s;
     Some (case r of Inl _ \<Rightarrow> HNotReceived | Inr c \<Rightarrow> HReceived c, s') }"
| "host_step cap HCloneNormal s = Some (HSilent, sender_clone s)"
| "host_step cap HDropNormal s = do { (_, s') \<leftarrow> sender_drop s; Some (HSilent, s') }"
| "host_step cap HCloneCritical s = Some (HSilent, critical_clone s)"
| "host_step cap HDropCritical s = do { (_, s') \<leftarrow> critical_drop s; Some (HSilent, s') }"
| "host_step cap HDropReceiver s = Some (HSilent, receiver_drop s)"

fun host_run :: "capacities \<Rightarrow> 'c host_op list \<Rightarrow> 'c queue_state \<Rightarrow> ('c host_out list \<times> 'c queue_state) option" where
  "host_run cap [] s = Some ([], s)"
| "host_run cap (op # ops) s = do {
     (out, s') \<leftarrow> host_step cap op s;
     (outs, s'') \<leftarrow> host_run cap ops s';
     Some (out # outs, s'') }"

text \<open>Ownership: a sender is dropped at most once.\<close>

fun ends_ok :: "'c host_op list \<Rightarrow> nat \<Rightarrow> nat \<Rightarrow> bool" where
  "ends_ok [] n c \<longleftrightarrow> True"
| "ends_ok (op # ops) n c \<longleftrightarrow> (case op of
     HCloneNormal \<Rightarrow> ends_ok ops (n + 1) c
   | HDropNormal \<Rightarrow> 0 < n \<and> ends_ok ops (n - 1) c
   | HCloneCritical \<Rightarrow> ends_ok ops n (c + 1)
   | HDropCritical \<Rightarrow> 0 < c \<and> ends_ok ops n (c - 1)
   | _ \<Rightarrow> ends_ok ops n c)"

definition same_ends :: "'c queue_state \<Rightarrow> 'c queue_state \<Rightarrow> bool" where
  "same_ends s s' \<longleftrightarrow> qs_normal_senders s' = qs_normal_senders s \<and> qs_critical_senders s' = qs_critical_senders s \<and>
     qs_receiver_open s' = qs_receiver_open s"

lemma push_simps [simp]:
  "qs_entries (push s c lane input) = qs_entries s @ [\<lparr> q_command = c, q_lane = lane, q_input = input \<rparr>]"
  "qs_normal_len (push s c lane input) = qs_normal_len s + (if lane = NormalLane then 1 else 0)"
  "qs_reserved_len (push s c lane input) = qs_reserved_len s + (if lane = ReservedLane then 1 else 0)"
  "qs_normal_senders (push s c lane input) = qs_normal_senders s"
  "qs_critical_senders (push s c lane input) = qs_critical_senders s"
  "qs_receiver_open (push s c lane input) = qs_receiver_open s"
  by (cases lane; simp add: push_def Let_def)+

lemma try_send_ok: "queue_ok cap s \<Longrightarrow> queue_ok cap (snd (try_send cap s c)) \<and> same_ends s (snd (try_send cap s c))"
  by (auto simp: try_send_def queue_ok_def is_coalescible_def same_ends_def)

lemma lane_count_update:
  "i < length es \<Longrightarrow> q_lane e = q_lane (es ! i) \<Longrightarrow> lane_count lane (es[i := e]) = lane_count lane es"
  by (induction es arbitrary: i) (auto split: nat.splits)

lemma try_send_coalescible_ok:
  assumes "queue_ok cap s"
  shows "queue_ok cap (snd (try_send_coalescible cap s stream c)) \<and> same_ends s (snd (try_send_coalescible cap s stream c))"
proof -
  let ?n = "input_epoch_start s" and ?meta = "Some \<lparr> im_stream = stream, im_coalescible = True \<rparr>"
  have push: "queue_ok cap (push s c NormalLane ?meta)" if "qs_normal_len s \<noteq> normal_capacity cap" "qs_receiver_open s"
    using assms that by (auto simp: queue_ok_def)
  have "queue_ok cap (s\<lparr> qs_entries := (qs_entries s)[i := (qs_entries s ! i)\<lparr> q_command := c \<rparr>] \<rparr>)"
    if "i < length (qs_entries s)" "qs_receiver_open s" for i
    using assms that by (auto simp: queue_ok_def lane_count_update is_coalescible_def dest!: set_update_subset_insert [THEN subsetD])
  moreover have "?n + i < length (qs_entries s)" if "rposition (in_stream stream) (drop ?n (qs_entries s)) = Some i" for i
    using rposition_Some [OF that] by auto
  ultimately show ?thesis
    using assms push by (auto simp: try_send_coalescible_def Let_def same_ends_def split: option.splits)
qed

text \<open>What a transition leaves of the queue.\<close>

definition kept_entries :: "'c queue_state \<Rightarrow> input_stream option \<Rightarrow> bool \<Rightarrow> 'c queued_host_command list" where
  "kept_entries s stream supersede = (case stream of
     Some stream \<Rightarrow> if supersede then take (input_epoch_start s) (qs_entries s) @
         filter (\<lambda>e. \<not> superseded stream e) (drop (input_epoch_start s) (qs_entries s)) else qs_entries s
   | None \<Rightarrow> qs_entries s)"

lemma kept_counts:
  assumes "queue_ok cap s"
  shows "lane_count NormalLane (kept_entries s stream over) + removable_normal s stream over = qs_normal_len s"
    and "lane_count ReservedLane (kept_entries s stream over) = qs_reserved_len s"
proof -
  let ?n = "input_epoch_start s" and ?es = "qs_entries s"
  have split: "lane_count lane ?es = lane_count lane (take ?n ?es) + lane_count lane (filter (superseded k) (drop ?n ?es)) +
      lane_count lane (filter (\<lambda>e. \<not> superseded k e) (drop ?n ?es))" for lane k
    using lane_count_simps(3) [of lane "take ?n ?es" "drop ?n ?es"] lane_count_split [of lane "superseded k" "drop ?n ?es"]
    by simp
  have normal: "q_lane e = NormalLane" if "e \<in> set (drop ?n ?es)" "superseded k e" for e k
    using assms that by (auto simp: queue_ok_def superseded_def dest: in_set_dropD)
  then have "lane_count ReservedLane (filter (superseded k) (drop ?n ?es)) = 0" for k
    by (intro lane_count_none) auto
  with split [of ReservedLane] assms show "lane_count ReservedLane (kept_entries s stream over) = qs_reserved_len s"
    by (simp add: kept_entries_def queue_ok_def split: option.splits)
  have "lane_count NormalLane (filter (superseded k) (drop ?n ?es)) =
      length (filter (\<lambda>e. q_lane e = NormalLane \<and> superseded k e) (drop ?n ?es))" for k
    by (simp add: lane_count_def conj_commute)
  with split [of NormalLane "the stream"] assms
  show "lane_count NormalLane (kept_entries s stream over) + removable_normal s stream over = qs_normal_len s"
    by (cases stream) (simp_all add: kept_entries_def queue_ok_def removable_normal_def)
qed

lemma transition_cases:
  fixes stream over
  assumes "queue_ok cap s" "qs_receiver_open s"
  defines "s' \<equiv> s\<lparr> qs_entries := kept_entries s stream over, qs_normal_len := lane_count NormalLane (kept_entries s stream over) \<rparr>"
    and "meta \<equiv> map_option (\<lambda>stream. \<lparr> im_stream = stream, im_coalescible = False \<rparr>) stream"
  shows "try_send_transition cap s stream c over =
    (if lane_count NormalLane (kept_entries s stream over) < normal_capacity cap
     then Some (Inr Enqueued, push s' c NormalLane meta)
     else if qs_reserved_len s < reliable_capacity cap then Some (Inr Reserved, push s' c ReservedLane meta)
     else Some (Inl (Full c), s))"
proof -
  have "usize_sub (qs_normal_len s) (removable_normal s stream over) = Some (lane_count NormalLane (kept_entries s stream over))"
    using kept_counts(1) [OF assms(1), of stream over] by (simp add: usize_sub_def)
  then show ?thesis
    using assms(2) unfolding s'_def meta_def
    by (cases stream) (auto simp: try_send_transition_def Let_def retain_from_split kept_entries_def)
qed

lemma try_send_transition_ok:
  assumes "queue_ok cap s"
  shows "\<exists>r s'. try_send_transition cap s stream c over = Some (r, s') \<and> queue_ok cap s' \<and> same_ends s s'"
proof (cases "qs_receiver_open s")
  case False
  then show ?thesis using assms by (simp add: try_send_transition_def same_ends_def)
next
  case True
  have sub: "set (kept_entries s stream over) \<subseteq> set (qs_entries s)"
    by (auto simp: kept_entries_def dest: in_set_takeD in_set_dropD split: option.splits)
  have meta: "\<not> is_coalescible \<lparr> q_command = c, q_lane = lane,
      q_input = map_option (\<lambda>stream. \<lparr> im_stream = stream, im_coalescible = False \<rparr>) stream \<rparr>" for lane
    by (cases stream) (simp_all add: is_coalescible_def)
  show ?thesis
    unfolding transition_cases [OF assms True]
    using assms sub meta kept_counts [OF assms, of stream over] True
    by (auto simp: queue_ok_def same_ends_def)
qed

lemma pop_ok:
  assumes "queue_ok cap s"
  shows "\<exists>r s'. pop s = Some (r, s') \<and> queue_ok cap s' \<and> same_ends s s' \<and>
    (case qs_entries s of [] \<Rightarrow> r = None \<and> s' = s | e # es \<Rightarrow> r = Some (q_command e) \<and> qs_entries s' = es)"
  using assms
  by (cases "qs_entries s"; cases "q_lane (hd (qs_entries s))")
    (auto simp: pop_def queue_ok_def usize_sub_def same_ends_def Let_def)

lemma host_step_ok:
  assumes "queue_ok cap s" "ends_ok (op # ops) (qs_normal_senders s) (qs_critical_senders s)"
  shows "\<exists>out s'. host_step cap op s = Some (out, s') \<and> queue_ok cap s' \<and>
    ends_ok ops (qs_normal_senders s') (qs_critical_senders s')"
proof (cases op)
  case (HTrySend c)
  then show ?thesis using try_send_ok [OF assms(1), of c] assms(2) by (auto simp: same_ends_def case_prod_beta)
next
  case (HCoalescible stream c)
  then show ?thesis using try_send_coalescible_ok [OF assms(1), of stream c] assms(2) by (auto simp: same_ends_def case_prod_beta)
next
  case (HReliable stream c)
  then show ?thesis using try_send_transition_ok [OF assms(1), of stream c False] assms(2)
    by (auto simp: same_ends_def try_send_reliable_def)
next
  case (HTerminal stream c)
  then show ?thesis using try_send_transition_ok [OF assms(1), of stream c True] assms(2)
    by (auto simp: same_ends_def try_send_terminal_def)
next
  case (HCritical c)
  then show ?thesis using assms by (auto simp: send_critical_def queue_ok_def is_coalescible_def)
next
  case HRecv
  then show ?thesis using pop_ok [OF assms(1)] assms(2) by (auto simp: try_recv_def same_ends_def split: option.splits)
qed (use assms in \<open>auto simp: sender_clone_def sender_drop_def critical_clone_def critical_drop_def receiver_drop_def
    usize_sub_def queue_ok_def Let_def\<close>)

lemma host_run_ok:
  assumes "queue_ok cap s" "ends_ok ops (qs_normal_senders s) (qs_critical_senders s)"
  shows "\<exists>outs s'. host_run cap ops s = Some (outs, s') \<and> queue_ok cap s' \<and> length outs = length ops"
  using assms
proof (induction ops arbitrary: s)
  case (Cons op ops)
  obtain out s1 where s1: "host_step cap op s = Some (out, s1)" "queue_ok cap s1"
      "ends_ok ops (qs_normal_senders s1) (qs_critical_senders s1)"
    using host_step_ok [OF Cons.prems] by blast
  from Cons.IH [OF s1(2,3)] s1(1) show ?case by auto
qed simp

text \<open>Lifecycle traffic is taken whatever is pending, as long as somebody receives.\<close>

lemma critical_accepted:
  assumes "host_run cap ops s = Some (outs, s')" "qs_receiver_open s" "HDropReceiver \<notin> set ops"
    and "i < length ops" "ops ! i = HCritical c"
  shows "outs ! i = HAccepted"
  using assms
proof (induction ops arbitrary: s outs i)
  case (Cons op ops)
  obtain out s1 outs' where s1: "host_step cap op s = Some (out, s1)" "host_run cap ops s1 = Some (outs', s')" "outs = out # outs'"
    using Cons.prems(1) by (auto split: bind_splits)
  have "qs_receiver_open s1"
    using s1(1) Cons.prems(2,3)
    by (cases op) (auto simp: try_send_def try_send_coalescible_def try_send_reliable_def try_send_terminal_def
      try_send_transition_def send_critical_def try_recv_def pop_def sender_clone_def sender_drop_def critical_clone_def
      critical_drop_def Let_def split: bind_splits if_splits option.splits list.splits queue_lane.splits prod.splits)
  moreover have "out = HAccepted" if "op = HCritical c"
    using s1(1) Cons.prems(2) that by (auto simp: send_critical_def verdict_def)
  ultimately show ?case using Cons.IH [OF s1(2)] Cons.prems(3-5) s1(3) by (cases i) auto
qed simp

section \<open>What the host receives\<close>






definition pending :: "'c queue_state \<Rightarrow> 'c list" where
  "pending s = map q_command (qs_entries s)"


definition entries_typed :: "('c \<Rightarrow> bool) \<Rightarrow> 'c queue_state \<Rightarrow> bool" where
  "entries_typed is_state s \<longleftrightarrow> (\<forall>e \<in> set (qs_entries s). is_coalescible e \<longleftrightarrow> is_state (q_command e))"























lemma channel_ok:
  "channel_with_reserve n r = Some (cap, s) \<Longrightarrow> queue_ok cap s \<and> entries_typed is_state s \<and> pending s = [] \<and>
     qs_normal_senders s = 1 \<and> qs_critical_senders s = 1 \<and> qs_receiver_open s \<and> normal_capacity cap = n \<and> reliable_capacity cap = r"
  by (auto simp: channel_with_reserve_def queue_ok_def entries_typed_def pending_def split: if_splits)

text \<open>
  No sequence of operations makes the queue panic; never more than the two
  capacities of input are pending; and while somebody receives, a lifecycle command is
  accepted whatever input is pending.
\<close>

lemma host_queue_safe:
  assumes "channel_with_reserve n r = Some (cap, s0)" "ends_ok ops 1 1"
  shows "\<exists>outs s. host_run cap ops s0 = Some (outs, s) \<and>
    lane_count NormalLane (qs_entries s) \<le> n \<and> lane_count ReservedLane (qs_entries s) \<le> r \<and>
    (HDropReceiver \<notin> set ops \<longrightarrow> (\<forall>i c. i < length ops \<and> ops ! i = HCritical c \<longrightarrow> outs ! i = HAccepted))"
proof -
  note s0 = channel_ok [OF assms(1)]
  obtain outs s where r: "host_run cap ops s0 = Some (outs, s)" "queue_ok cap s"
    using host_run_ok [of cap s0 ops] s0 assms(2) by auto
  with critical_accepted [OF r(1)] s0 show ?thesis by (auto simp: queue_ok_def)
qed

definition example_ops :: "nat host_op list" where
  "example_ops = [HCoalescible Pointer 10, HCoalescible Pointer 12, HReliable (Some Pointer) 1, HCoalescible Pointer 14,
     HTrySend 3, HCritical 5, HCoalescible Pointer 16, HTerminal (Some Pointer) 7, HRecv, HCoalescible Touch 18, HRecv]"

lemma host_queue_safe_witness:
  "channel_with_reserve 3 2 = Some (\<lparr> normal_capacity = 3, reliable_capacity = 2 \<rparr>, snd (the (channel_with_reserve 3 2))) \<and>
   ends_ok example_ops 1 1 \<and>
   (\<exists>outs s. host_run \<lparr> normal_capacity = 3, reliable_capacity = 2 \<rparr> example_ops (snd (the (channel_with_reserve 3 2))) = Some (outs, s) \<and>
    lane_count NormalLane (qs_entries s) \<le> 3 \<and> lane_count ReservedLane (qs_entries s) \<le> 2 \<and>
    (HDropReceiver \<notin> set example_ops \<longrightarrow>
      (\<forall>i c. i < length example_ops \<and> example_ops ! i = HCritical c \<longrightarrow> outs ! i = HAccepted)))"
proof -
  have 1: "channel_with_reserve 3 2 = Some (\<lparr> normal_capacity = 3, reliable_capacity = 2 \<rparr>, snd (the (channel_with_reserve 3 2)))"
    by (simp add: channel_with_reserve_def)
  have 2: "ends_ok example_ops 1 1" by code_simp
  from host_queue_safe [OF 1 2] 1 2 show ?thesis by blast
qed



end
