(* ===== verification/Surface_Control.thy ===== *)
theory Surface_Control
  imports Prelude
begin

text \<open>
  Surface generations (\<open>shared/src/surface/attachment.rs\<close>, \<open>control.rs\<close>): the gate that
  issues and retires them with compare-and-swap loops, and the control object on which
  the host's threads attach, retire and shut down while the render thread listens. A
  thread is a program counter; each of its turns makes one access to the shared
  atomics, so every interleaving of the accesses is a run. Accesses are taken in one
  order all threads agree on; the last section says what becomes of the shutdown check
  without that.
\<close>

section \<open>The generation gate\<close>

abbreviation (input) LIVE_BIT :: u64 where "LIVE_BIT \<equiv> 1"
abbreviation (input) MAX_GENERATION :: u64 where "MAX_GENERATION \<equiv> drop_bit 1 (- 1 - LIVE_BIT)"

definition from_live_word :: "u64 \<Rightarrow> u64 option" where
  "from_live_word word = (let generation = drop_bit 1 word in if generation = 0 then Panic else Some generation)"

record liveness_token =
  lt_generation :: u64
  lt_expected_live_word :: u64

definition token_new :: "u64 \<Rightarrow> liveness_token option" where
  "token_new expected_live_word =
     (if expected_live_word AND LIVE_BIT = LIVE_BIT
      then do { g \<leftarrow> from_live_word expected_live_word;
                Some \<lparr> lt_generation = g, lt_expected_live_word = expected_live_word \<rparr> }
      else Panic)"

definition token_is_live :: "u64 \<Rightarrow> liveness_token \<Rightarrow> bool" where
  "token_is_live state t \<longleftrightarrow> state = lt_expected_live_word t"

datatype surface_generation_error = Exhausted

text \<open>
  One exchange: it may fail without reason when it is a weak one. The answer is what was
  there. A loop around it takes turns, each with the value it saw last.
\<close>

definition compare_exchange :: "bool \<Rightarrow> u64 \<Rightarrow> u64 \<Rightarrow> u64 \<Rightarrow> u64 \<times> (u64 + u64)" where
  "compare_exchange spurious state current new =
     (if state = current \<and> \<not> spurious then (new, Inr current) else (state, Inl state))"

datatype 'r turn = Again u64 | Return 'r

definition gate_attach_turn :: "bool \<Rightarrow> u64 \<Rightarrow> u64 \<Rightarrow> (u64 \<times> (surface_generation_error + liveness_token) turn) option" where
  "gate_attach_turn spurious state current =
     (if current AND LIVE_BIT \<noteq> 0 then do { t \<leftarrow> token_new current; Some (state, Return (Inr t)) }
      else
        let previous_generation = drop_bit 1 current in
        if previous_generation \<ge> MAX_GENERATION then Some (state, Return (Inl Exhausted))
        else
          let next_live_word = push_bit 1 (previous_generation + 1) OR LIVE_BIT in
          case compare_exchange spurious state current next_live_word of
            (state, Inr _) \<Rightarrow> do { t \<leftarrow> token_new next_live_word; Some (state, Return (Inr t)) }
          | (state, Inl observed) \<Rightarrow> Some (state, Again observed))"

definition gate_retire_turn :: "bool \<Rightarrow> u64 \<Rightarrow> u64 \<Rightarrow> (u64 \<times> u64 option turn) option" where
  "gate_retire_turn spurious state current =
     (if current AND LIVE_BIT = 0 then Some (state, Return None)
      else do {
        generation \<leftarrow> from_live_word current;
        Some (case compare_exchange spurious state current (current AND NOT LIVE_BIT) of
            (state, Inr _) \<Rightarrow> (state, Return (Some generation))
          | (state, Inl observed) \<Rightarrow> (state, Again observed)) })"

definition retire_if_current :: "u64 \<Rightarrow> u64 \<Rightarrow> u64 \<times> bool" where
  "retire_if_current state expected =
     (let live_word = push_bit 1 expected OR LIVE_BIT in
      case compare_exchange False state live_word (live_word AND NOT LIVE_BIT) of
        (state, Inr _) \<Rightarrow> (state, True)
      | (state, Inl _) \<Rightarrow> (state, False))"

section \<open>The control object\<close>

datatype surface_control_attach_error = ShuttingDown | GenerationExhausted

text \<open>
  \<open>render_wake\<close> is the sender to the render thread, once installed, as the state of its
  one slot.
\<close>

record surface_control =
  sc_gate :: u64
  sc_shutting_down :: bool
  sc_latest_retired :: u64
  sc_render_wake :: "bool option"

definition surface_control_new :: surface_control where
  "surface_control_new = \<lparr> sc_gate = 0, sc_shutting_down = False, sc_latest_retired = 0, sc_render_wake = None \<rparr>"

definition wake_render :: "surface_control \<Rightarrow> surface_control" where
  "wake_render c = (case sc_render_wake c of
     None \<Rightarrow> c
   | Some _ \<Rightarrow> c\<lparr> sc_render_wake := Some True \<rparr>)"

definition latest_retired_generation :: "surface_control \<Rightarrow> u64 option" where
  "latest_retired_generation c = (if sc_latest_retired c \<noteq> 0 then Some (sc_latest_retired c) else None)"

datatype control_result =
    NotCalled
  | Attached liveness_token
  | AttachFailed surface_control_attach_error
  | RetiredCurrent "u64 option"
  | RetiredExpected bool
  | InstallResult bool

text \<open>Who asked for the current generation to be retired: the host, or the second check of an attachment.\<close>

datatype retire_caller = HostCall | AttachCall

fun after_retire :: "retire_caller \<Rightarrow> u64 option \<Rightarrow> control_result" where
  "after_retire HostCall g = RetiredCurrent g"
| "after_retire AttachCall g = AttachFailed ShuttingDown"

datatype control_pc =
    Outside control_result
  | AttachCheck | AttachLoad | AttachLoop u64 | AttachRecheck liveness_token
  | RetireLoad retire_caller | RetireLoop retire_caller u64
  | RetireExpectedCas u64
  | RetireMax u64 control_result | RetireWake control_result
  | ShutdownStore
  | InstallSet | InstallCheck | InstallWake

datatype control_call = CallAttach | CallRetire | CallRetireExpected u64 | CallShutdown | CallInstall

fun call_entry :: "control_call \<Rightarrow> control_pc" where
  "call_entry CallAttach = AttachCheck"
| "call_entry CallRetire = RetireLoad HostCall"
| "call_entry (CallRetireExpected g) = RetireExpectedCas g"
| "call_entry CallShutdown = ShutdownStore"
| "call_entry CallInstall = InstallSet"

fun attach_or_update_turn :: "bool \<Rightarrow> surface_control \<Rightarrow> control_pc \<Rightarrow> (surface_control \<times> control_pc) option" where
  "attach_or_update_turn spurious c AttachCheck =
     Some (c, if sc_shutting_down c then Outside (AttachFailed ShuttingDown) else AttachLoad)"
| "attach_or_update_turn spurious c AttachLoad = Some (c, AttachLoop (sc_gate c))"
| "attach_or_update_turn spurious c (AttachLoop current) = do {
     (gate, turn) \<leftarrow> gate_attach_turn spurious (sc_gate c) current;
     let c = c\<lparr> sc_gate := gate \<rparr>;
     Some (c, case turn of
         Again observed \<Rightarrow> AttachLoop observed
       | Return (Inl Exhausted) \<Rightarrow> Outside (AttachFailed GenerationExhausted)
       | Return (Inr token) \<Rightarrow> AttachRecheck token) }"
| "attach_or_update_turn spurious c (AttachRecheck token) =
     Some (c, if sc_shutting_down c then RetireLoad AttachCall else Outside (Attached token))"
| "attach_or_update_turn spurious c pc = Some (c, pc)"

fun retire_current_and_request_turn :: "bool \<Rightarrow> surface_control \<Rightarrow> control_pc \<Rightarrow> (surface_control \<times> control_pc) option" where
  "retire_current_and_request_turn spurious c (RetireLoad k) = Some (c, RetireLoop k (sc_gate c))"
| "retire_current_and_request_turn spurious c (RetireLoop k current) = do {
     (gate, turn) \<leftarrow> gate_retire_turn spurious (sc_gate c) current;
     let c = c\<lparr> sc_gate := gate \<rparr>;
     Some (c, case turn of
         Again observed \<Rightarrow> RetireLoop k observed
       | Return None \<Rightarrow> Outside (after_retire k None)
       | Return (Some generation) \<Rightarrow> RetireMax generation (after_retire k (Some generation))) }"
| "retire_current_and_request_turn spurious c pc = Some (c, pc)"

definition retire_generation_turn :: "surface_control \<Rightarrow> u64 \<Rightarrow> surface_control \<times> control_pc" where
  "retire_generation_turn c expected = (case retire_if_current (sc_gate c) expected of
     (gate, retired) \<Rightarrow> (c\<lparr> sc_gate := gate \<rparr>,
        if \<not> retired then Outside (RetiredExpected False) else RetireMax expected (RetiredExpected True)))"

definition install_render_sender_set :: "surface_control \<Rightarrow> surface_control \<times> control_pc" where
  "install_render_sender_set c = (case sc_render_wake c of
     Some _ \<Rightarrow> (c, Outside (InstallResult False))
   | None \<Rightarrow> (c\<lparr> sc_render_wake := Some False \<rparr>, InstallCheck))"

fun control_turn :: "bool \<Rightarrow> surface_control \<Rightarrow> control_pc \<Rightarrow> (surface_control \<times> control_pc) option" where
  "control_turn spurious c (Outside r) = Some (c, Outside r)"
| "control_turn spurious c (RetireLoad k) = retire_current_and_request_turn spurious c (RetireLoad k)"
| "control_turn spurious c (RetireLoop k w) = retire_current_and_request_turn spurious c (RetireLoop k w)"
| "control_turn spurious c (RetireMax generation r) =
     Some (c\<lparr> sc_latest_retired := max (sc_latest_retired c) generation \<rparr>, RetireWake r)"
| "control_turn spurious c (RetireWake r) = Some (wake_render c, Outside r)"
| "control_turn spurious c (RetireExpectedCas g) = Some (retire_generation_turn c g)"
| "control_turn spurious c ShutdownStore = Some (c\<lparr> sc_shutting_down := True \<rparr>, RetireLoad HostCall)"
| "control_turn spurious c InstallSet = Some (install_render_sender_set c)"
| "control_turn spurious c InstallCheck =
     Some (c, if sc_latest_retired c \<noteq> 0 then InstallWake else Outside (InstallResult True))"
| "control_turn spurious c InstallWake = Some (wake_render c, Outside (InstallResult True))"
| "control_turn spurious c pc = attach_or_update_turn spurious c pc"

text \<open>
  A generation a caller hands back was issued by this gate, so it fits under the live
  bit. Threads are numbered, each has a place in a call or is outside with the result of
  its last one.
\<close>

fun call_ok :: "control_call \<Rightarrow> bool" where
  "call_ok (CallRetireExpected g) \<longleftrightarrow> 0 < g \<and> unat g < 2 ^ 63"
| "call_ok _ \<longleftrightarrow> True"

inductive control_step :: "surface_control \<times> (nat \<Rightarrow> control_pc) \<Rightarrow> surface_control \<times> (nat \<Rightarrow> control_pc) \<Rightarrow> bool" where
  enter: "ts i = Outside r \<Longrightarrow> call_ok call \<Longrightarrow> control_step (c, ts) (c, ts(i := call_entry call))"
| turn: "control_turn spurious c (ts i) = Some (c', pc) \<Longrightarrow> control_step (c, ts) (c', ts(i := pc))"

section \<open>What a turn does to the gate\<close>

text \<open>
  In numbers: issuing adds three to an even word, retiring takes one from an odd one.
  \<open>retired_upto\<close> is the highest generation that has been retired.
\<close>

definition live :: "u64 \<Rightarrow> bool" where
  "live w \<longleftrightarrow> odd (unat w)"

definition generation_of :: "u64 \<Rightarrow> nat" where
  "generation_of w = unat w div 2"

definition retired_upto :: "u64 \<Rightarrow> nat" where
  "retired_upto w = (if live w then generation_of w - 1 else generation_of w)"

definition gate_ok :: "u64 \<Rightarrow> bool" where
  "gate_ok w \<longleftrightarrow> (live w \<longrightarrow> 0 < generation_of w)"

lemma odd_unat: "odd (unat w) \<longleftrightarrow> odd w" for w :: u64
proof -
  have "bit (unat w) 0 = bit w 0" by (simp only: bit_unsigned_iff) simp
  then show ?thesis by (simp add: bit_0)
qed

lemma live_bit: "w AND LIVE_BIT \<noteq> 0 \<longleftrightarrow> live w" "w AND LIVE_BIT = 0 \<longleftrightarrow> \<not> live w" "w AND LIVE_BIT = LIVE_BIT \<longleftrightarrow> live w"
  by (simp_all only: live_def odd_unat and_one_eq odd_iff_mod_2_eq_one [symmetric] flip: odd_iff_mod_2_eq_one)
    (auto simp: odd_iff_mod_2_eq_one even_iff_mod_2_eq_zero)

lemma unat_generation: "unat (drop_bit 1 (w :: u64)) = generation_of w"
  by (simp only: generation_of_def unat_drop_bit_eq) (simp only: drop_bit_eq_div power_one_right)

lemma max_generation: "unat MAX_GENERATION = 2 ^ 63 - 1"
  by simp

lemma unat_live_word:
  assumes "unat (g :: u64) < 2 ^ 63"
  shows "unat (push_bit 1 g OR LIVE_BIT) = 2 * unat g + 1"
proof -
  have "unat (push_bit 1 g) = 2 * unat g"
    using assms by (simp add: push_bit_eq_mult unat_word_ariths)
  moreover have "push_bit 1 g OR 1 = push_bit 1 g + 1"
    by (rule disjunctive_add [symmetric]) (simp only: bit_push_bit_iff bit_1_iff, simp)
  ultimately show ?thesis
    using assms by (simp add: unat_word_ariths)
qed

lemma unat_retired_word:
  assumes "live w" shows "unat (w AND NOT LIVE_BIT) = unat w - 1"
proof -
  have "\<not> bit (NOT w) 0" using assms by (simp only: bit_not_iff) (simp add: live_def odd_unat bit_0)
  then have "NOT w AND 1 = 0" by (simp only: and_one_eq bit_0) (simp add: even_iff_mod_2_eq_zero)
  then have "w AND NOT 1 = w - 1" by (simp only: disjunctive_diff_eq_and_not)
  moreover have "w \<noteq> 0" using assms by (auto simp: live_def)
  ultimately show ?thesis using unat_minus_one [of w] by metis
qed

definition token_ok :: "u64 \<Rightarrow> liveness_token \<Rightarrow> bool" where
  "token_ok s t \<longleftrightarrow> live (lt_expected_live_word t) \<and> unat (lt_generation t) = generation_of (lt_expected_live_word t) \<and>
     0 < generation_of (lt_expected_live_word t) \<and> generation_of (lt_expected_live_word t) \<le> generation_of s"

lemma unat_0_iff': "unat (w :: u64) = 0 \<longleftrightarrow> w = 0"
  by (rule unat_eq_0)

lemma from_live_word_ok:
  assumes "0 < generation_of w" shows "from_live_word w = Some (drop_bit 1 w)"
proof -
  have "drop_bit 1 w \<noteq> 0" using assms unat_generation [of w] by (metis unat_0 less_irrefl)
  then show ?thesis by (simp add: from_live_word_def Let_def)
qed

lemma token_new_ok:
  assumes "gate_ok w" "live w" "generation_of w \<le> generation_of s"
  obtains t where "token_new w = Some t" "token_ok s t" "lt_expected_live_word t = w"
proof
  have pos: "0 < generation_of w" using assms by (simp add: gate_ok_def)
  show "token_new w = Some \<lparr> lt_generation = drop_bit 1 w, lt_expected_live_word = w \<rparr>"
    using assms(2) by (simp only: token_new_def live_bit from_live_word_ok [OF pos] bind.bind_lunit if_True)
  show "token_ok s \<lparr> lt_generation = drop_bit 1 w, lt_expected_live_word = w \<rparr>"
    using assms pos by (simp only: token_ok_def liveness_token.simps unat_generation)
qed simp

text \<open>A word of the next generation is three above a retired one.\<close>

lemma next_live_word:
  assumes "\<not> live s" "\<not> drop_bit 1 s \<ge> MAX_GENERATION"
  shows "unat (push_bit 1 (drop_bit 1 s + 1) OR LIVE_BIT) = unat s + 3"
proof -
  have g: "generation_of s < 2 ^ 63 - 1"
    using assms(2) by (simp only: word_le_nat_alt max_generation) (simp only: unat_generation not_le)
  have "unat (drop_bit 1 s + 1) = generation_of s + 1"
    using g unat_generation [of s] by (simp add: unat_word_ariths)
  then have "unat (push_bit 1 (drop_bit 1 s + 1) OR LIVE_BIT) = 2 * (generation_of s + 1) + 1"
    using g by (subst unat_live_word) auto
  then show ?thesis using assms(1) by (simp add: generation_of_def live_def)
qed

lemma issued_word:
  assumes "unat s' = unat s + 3" "\<not> live s"
  shows "live s'" "generation_of s' = generation_of s + 1" "retired_upto s' = retired_upto s" "gate_ok s'"
  using assms by (auto simp: live_def generation_of_def retired_upto_def gate_ok_def)

lemma retired_word:
  assumes "unat s' = unat s - 1" "live s" "gate_ok s"
  shows "\<not> live s'" "generation_of s' = generation_of s" "retired_upto s' = retired_upto s + 1" "gate_ok s'"
    "retired_upto s' = generation_of s"
  using assms by (auto simp: live_def generation_of_def retired_upto_def gate_ok_def elim!: oddE)

lemma gate_attach_cases:
  assumes "gate_ok current" "generation_of current \<le> generation_of s"
  obtains (kept) t where "gate_attach_turn spurious s current = Some (s, Return (Inr t))" "token_ok s t"
    | (exhausted) "gate_attach_turn spurious s current = Some (s, Return (Inl Exhausted))"
    | (again) "gate_attach_turn spurious s current = Some (s, Again s)"
    | (issued) s' t where "gate_attach_turn spurious s current = Some (s', Return (Inr t))" "token_ok s' t"
        "unat s' = unat s + 3" "\<not> live s" "token_is_live s' t"
proof -
  let ?n = "push_bit 1 (drop_bit 1 current + 1) OR LIVE_BIT"
  consider "live current" | "\<not> live current" "drop_bit 1 current \<ge> MAX_GENERATION"
    | "\<not> live current" "\<not> drop_bit 1 current \<ge> MAX_GENERATION" "s = current \<and> \<not> spurious"
    | "\<not> live current" "\<not> drop_bit 1 current \<ge> MAX_GENERATION" "\<not> (s = current \<and> \<not> spurious)"
    by blast
  then show ?thesis
  proof cases
    case 1
    obtain t where "token_new current = Some t" "token_ok s t" using token_new_ok [OF assms(1) 1 assms(2)] .
    then show ?thesis using 1 kept by (simp only: gate_attach_turn_def live_bit simp_thms if_True bind.bind_lunit)
  next
    case 2
    then show ?thesis using exhausted by (simp only: gate_attach_turn_def live_bit simp_thms if_False Let_def if_True)
  next
    case 3
    have n: "unat ?n = unat current + 3" using 3 by (intro next_live_word)
    obtain t where t: "token_new ?n = Some t" "token_ok ?n t" "lt_expected_live_word t = ?n"
      using token_new_ok [of ?n ?n] issued_word [OF n 3(1)] by blast
    have "gate_attach_turn spurious s current = Some (?n, Return (Inr t))"
      using 3 t(1) by (simp only: gate_attach_turn_def live_bit simp_thms if_False Let_def compare_exchange_def if_True prod.case sum.case bind.bind_lunit)
    then show ?thesis using issued t n 3 by (simp add: token_is_live_def)
  next
    case 4
    then show ?thesis
      using again by (simp only: gate_attach_turn_def live_bit simp_thms if_False Let_def compare_exchange_def prod.case sum.case)
  qed
qed

lemma gate_retire_cases:
  assumes "gate_ok current"
  obtains (dead) "gate_retire_turn spurious s current = Some (s, Return None)" "\<not> live current"
    | (again) "gate_retire_turn spurious s current = Some (s, Again s)" "live current"
    | (retired) s' g where "gate_retire_turn spurious s current = Some (s', Return (Some g))"
        "unat s' = unat s - 1" "live s" "unat g = generation_of s"
proof (cases "live current")
  case True
  have pos: "0 < generation_of current" using assms True by (simp add: gate_ok_def)
  note unfold = gate_retire_turn_def live_bit from_live_word_ok [OF pos] bind.bind_lunit compare_exchange_def
  show ?thesis
  proof (cases "s = current \<and> \<not> spurious")
    case c: True
    have "gate_retire_turn spurious s current = Some (current AND NOT LIVE_BIT, Return (Some (drop_bit 1 current)))"
      using True c by (simp only: unfold simp_thms if_True prod.case sum.case if_False)
    then show ?thesis using retired True c unat_retired_word unat_generation by blast
  next
    case c: False
    show ?thesis using again True c by (simp only: unfold simp_thms if_False prod.case sum.case)
  qed
next
  case False
  then show ?thesis using dead by (simp only: gate_retire_turn_def live_bit not_False_eq_True if_True)
qed

lemma retire_if_current_alt:
  "retire_if_current s g =
     (if s = push_bit 1 g OR LIVE_BIT then ((push_bit 1 g OR LIVE_BIT) AND NOT LIVE_BIT, True) else (s, False))"
  unfolding retire_if_current_def Let_def compare_exchange_def not_False_eq_True
  by (split if_split) (intro conjI impI; simp only: prod.case sum.case if_True if_False simp_thms)

lemma retire_if_current_cases:
  assumes "0 < g" "unat g < 2 ^ 63" "gate_ok s"
  obtains (stale) "retire_if_current s g = (s, False)"
    | (retired) s' where "retire_if_current s g = (s', True)" "unat s' = unat s - 1" "live s" "unat g = generation_of s"
proof (cases "s = push_bit 1 g OR LIVE_BIT")
  case True
  have s: "unat s = 2 * unat g + 1" unfolding True by (rule unat_live_word [OF assms(2)])
  then have l: "live s" by (simp add: live_def)
  have "retire_if_current s g = (s AND NOT LIVE_BIT, True)"
    unfolding retire_if_current_alt using True by presburger
  moreover have "unat g = generation_of s" using s by (simp add: generation_of_def)
  ultimately show ?thesis using retired l unat_retired_word [OF l] by blast
next
  case False
  then show ?thesis using stale unfolding retire_if_current_alt by presburger
qed

section \<open>The invariant of the threads\<close>

fun pc_ok :: "u64 \<Rightarrow> control_pc \<Rightarrow> bool" where
  "pc_ok s (AttachLoop w) \<longleftrightarrow> gate_ok w \<and> generation_of w \<le> generation_of s"
| "pc_ok s (AttachRecheck t) \<longleftrightarrow> token_ok s t"
| "pc_ok s (Outside (Attached t)) \<longleftrightarrow> token_ok s t"
| "pc_ok s (RetireLoop k w) \<longleftrightarrow> gate_ok w"
| "pc_ok s (RetireExpectedCas g) \<longleftrightarrow> 0 < g \<and> unat g < 2 ^ 63"
| "pc_ok s (RetireMax g r) \<longleftrightarrow> 0 < unat g \<and> unat g \<le> retired_upto s \<and> (\<forall>t. r \<noteq> Attached t)"
| "pc_ok s (RetireWake r) \<longleftrightarrow> (\<forall>t. r \<noteq> Attached t)"
| "pc_ok s _ \<longleftrightarrow> True"

text \<open>
  Every retired generation is covered by the published level or by a thread that is
  about to publish it. While shutdown has begun and the gate is live, some thread is
  still going to look at the gate and retire what it finds.
\<close>

definition publishing :: "control_pc \<Rightarrow> nat \<Rightarrow> bool" where
  "publishing pc g \<longleftrightarrow> (\<exists>w r. pc = RetireMax w r \<and> unat w = g)"

fun will_retire :: "control_pc \<Rightarrow> bool" where
  "will_retire (AttachRecheck t) \<longleftrightarrow> True"
| "will_retire (RetireLoad k) \<longleftrightarrow> True"
| "will_retire (RetireLoop k w) \<longleftrightarrow> live w"
| "will_retire _ \<longleftrightarrow> False"

definition control_inv :: "surface_control \<times> (nat \<Rightarrow> control_pc) \<Rightarrow> bool" where
  "control_inv = (\<lambda>(c, ts). gate_ok (sc_gate c) \<and> (\<forall>i. pc_ok (sc_gate c) (ts i)) \<and>
     unat (sc_latest_retired c) \<le> retired_upto (sc_gate c) \<and>
     (\<forall>g. unat (sc_latest_retired c) < g \<and> g \<le> retired_upto (sc_gate c) \<longrightarrow> (\<exists>i. publishing (ts i) g)) \<and>
     (sc_shutting_down c \<and> live (sc_gate c) \<longrightarrow> (\<exists>i. will_retire (ts i))))"

text \<open>What a turn does, as far as the invariant can see it.\<close>

datatype gate_change = Same | Issue | Retire

definition gate_moved :: "u64 \<Rightarrow> u64 \<Rightarrow> gate_change \<Rightarrow> bool" where
  "gate_moved s s' m \<longleftrightarrow> (case m of
     Same \<Rightarrow> s' = s
   | Issue \<Rightarrow> unat s' = unat s + 3 \<and> \<not> live s
   | Retire \<Rightarrow> unat s' = unat s - 1 \<and> live s)"

lemma gate_moved_mono:
  assumes "gate_moved s s' m" "gate_ok s"
  shows "gate_ok s'" "generation_of s \<le> generation_of s'" "retired_upto s \<le> retired_upto s'"
  using assms issued_word [of s' s] retired_word [of s' s] by (auto simp: gate_moved_def split: gate_change.splits)

lemma pc_ok_mono:
  assumes "gate_moved s s' m" "gate_ok s" "pc_ok s pc" shows "pc_ok s' pc"
  using gate_moved_mono [OF assms(1,2)] assms(3)
  by (cases "(s, pc)" rule: pc_ok.cases) (auto simp: token_ok_def)

definition turn_ok :: "surface_control \<Rightarrow> control_pc \<Rightarrow> surface_control \<Rightarrow> control_pc \<Rightarrow> gate_change \<Rightarrow> bool" where
  "turn_ok c pc c' pc' m \<longleftrightarrow> gate_moved (sc_gate c) (sc_gate c') m \<and> pc_ok (sc_gate c') pc' \<and>
     (m = Issue \<longrightarrow> will_retire pc') \<and>
     (m = Retire \<longrightarrow> publishing pc' (generation_of (sc_gate c))) \<and>
     (\<forall>g. publishing pc g \<longrightarrow> g \<le> unat (sc_latest_retired c')) \<and>
     unat (sc_latest_retired c) \<le> unat (sc_latest_retired c') \<and> unat (sc_latest_retired c') \<le> retired_upto (sc_gate c') \<and>
     (sc_shutting_down c' \<longrightarrow> sc_shutting_down c \<or> will_retire pc') \<and>
     (will_retire pc \<and> m = Same \<and> live (sc_gate c) \<and> sc_shutting_down c \<longrightarrow> will_retire pc')"

lemma turn_ok_same:
  assumes "sc_gate c' = sc_gate c" "sc_latest_retired c' = sc_latest_retired c" "sc_shutting_down c' = sc_shutting_down c"
    and "unat (sc_latest_retired c) \<le> retired_upto (sc_gate c)"
    and "\<And>w r. pc \<noteq> RetireMax w r" "pc_ok (sc_gate c) pc'"
    and "will_retire pc \<Longrightarrow> live (sc_gate c) \<Longrightarrow> sc_shutting_down c \<Longrightarrow> will_retire pc'"
  shows "turn_ok c pc c' pc' Same"
  using assms by (auto simp: turn_ok_def gate_moved_def publishing_def)

lemma wake_render_frame [simp]:
  "sc_gate (wake_render c) = sc_gate c" "sc_latest_retired (wake_render c) = sc_latest_retired c"
  "sc_shutting_down (wake_render c) = sc_shutting_down c"
  by (auto simp: wake_render_def split: option.splits)

lemma attach_loop_turn:
  assumes "gate_ok (sc_gate c)" "pc_ok (sc_gate c) (AttachLoop w)" "unat (sc_latest_retired c) \<le> retired_upto (sc_gate c)"
  obtains c' pc' m where "control_turn spurious c (AttachLoop w) = Some (c', pc')" "turn_ok c (AttachLoop w) c' pc' m"
proof -
  have w: "gate_ok w" "generation_of w \<le> generation_of (sc_gate c)" using assms(2) by auto
  show ?thesis
    using w
  proof (cases rule: gate_attach_cases [where spurious = spurious])
    case (kept t)
    show ?thesis by (rule that [of c "AttachRecheck t" Same]) (use kept assms in \<open>auto intro: turn_ok_same\<close>)
  next
    case exhausted
    show ?thesis
      by (rule that [of c "Outside (AttachFailed GenerationExhausted)" Same]) (use exhausted assms in \<open>auto intro: turn_ok_same\<close>)
  next
    case again
    show ?thesis
      by (rule that [of c "AttachLoop (sc_gate c)" Same]) (use again assms in \<open>auto intro: turn_ok_same\<close>)
  next
    case (issued s' t)
    show ?thesis
    proof (rule that [of "c\<lparr> sc_gate := s' \<rparr>" "AttachRecheck t" Issue])
      show "turn_ok c (AttachLoop w) (c\<lparr> sc_gate := s' \<rparr>) (AttachRecheck t) Issue"
        using issued assms issued_word [OF issued(3,4)] by (auto simp: turn_ok_def gate_moved_def publishing_def)
    qed (use issued in simp)
  qed
qed

lemma turn_ok_retire:
  assumes "gate_ok (sc_gate c)" "unat s' = unat (sc_gate c) - 1" "live (sc_gate c)" "unat g = generation_of (sc_gate c)"
    and "unat (sc_latest_retired c) \<le> retired_upto (sc_gate c)" "\<And>t. r \<noteq> Attached t" "\<And>w r. pc \<noteq> RetireMax w r"
  shows "turn_ok c pc (c\<lparr> sc_gate := s' \<rparr>) (RetireMax g r) Retire"
  using assms retired_word [OF assms(2,3,1)]
  by (auto simp: turn_ok_def gate_moved_def publishing_def gate_ok_def)

lemma after_retire_not_attached: "after_retire k g \<noteq> Attached t"
  by (cases k) auto

lemma retire_loop_turn:
  assumes "gate_ok (sc_gate c)" "pc_ok (sc_gate c) (RetireLoop k w)" "unat (sc_latest_retired c) \<le> retired_upto (sc_gate c)"
  obtains c' pc' m where "control_turn spurious c (RetireLoop k w) = Some (c', pc')" "turn_ok c (RetireLoop k w) c' pc' m"
proof -
  have w: "gate_ok w" using assms(2) by auto
  show ?thesis
    using w
  proof (cases rule: gate_retire_cases [where spurious = spurious and s = "sc_gate c"])
    case dead
    have "pc_ok (sc_gate c) (Outside (after_retire k None))" by (cases k) auto
    then show ?thesis
      by (intro that [of c "Outside (after_retire k None)" Same]) (use dead assms in \<open>auto intro: turn_ok_same\<close>)
  next
    case again
    show ?thesis
      by (rule that [of c "RetireLoop k (sc_gate c)" Same]) (use again assms in \<open>auto intro: turn_ok_same\<close>)
  next
    case (retired s' g)
    show ?thesis
      by (rule that [of "c\<lparr> sc_gate := s' \<rparr>" "RetireMax g (after_retire k (Some g))" Retire])
        (use retired assms after_retire_not_attached in \<open>auto intro: turn_ok_retire\<close>)
  qed
qed

lemma retire_expected_turn:
  assumes "gate_ok (sc_gate c)" "pc_ok (sc_gate c) (RetireExpectedCas g)" "unat (sc_latest_retired c) \<le> retired_upto (sc_gate c)"
  obtains c' pc' m where "control_turn spurious c (RetireExpectedCas g) = Some (c', pc')" "turn_ok c (RetireExpectedCas g) c' pc' m"
proof -
  have g: "0 < g" "unat g < 2 ^ 63" using assms(2) by auto
  show ?thesis
    using g assms(1)
  proof (cases rule: retire_if_current_cases)
    case stale
    show ?thesis
      by (rule that [of c "Outside (RetiredExpected False)" Same])
        (use stale assms in \<open>auto intro: turn_ok_same simp: retire_generation_turn_def\<close>)
  next
    case (retired s')
    show ?thesis
      by (rule that [of "c\<lparr> sc_gate := s' \<rparr>" "RetireMax g (RetiredExpected True)" Retire])
        (use retired assms in \<open>auto intro: turn_ok_retire simp: retire_generation_turn_def\<close>)
  qed
qed

text \<open>No turn panics, and each keeps what the invariant needs.\<close>

lemma control_turn_ok:
  assumes "gate_ok (sc_gate c)" "pc_ok (sc_gate c) pc" "unat (sc_latest_retired c) \<le> retired_upto (sc_gate c)"
  obtains c' pc' m where "control_turn spurious c pc = Some (c', pc')" "turn_ok c pc c' pc' m"
proof (cases pc)
  case (Outside r)
  then show ?thesis by (intro that [of c "Outside r" Same]) (use assms in \<open>auto intro: turn_ok_same\<close>)
next
  case AttachCheck
  then show ?thesis by (intro that [of _ _ Same]) (use assms in \<open>auto intro: turn_ok_same\<close>)
next
  case AttachLoad
  then show ?thesis by (intro that [of _ _ Same]) (use assms in \<open>auto intro: turn_ok_same\<close>)
next
  case (AttachLoop w)
  then show ?thesis using attach_loop_turn [of c w spurious] assms that by blast
next
  case (AttachRecheck t)
  then show ?thesis by (intro that [of _ _ Same]) (use assms in \<open>auto intro: turn_ok_same\<close>)
next
  case (RetireLoad k)
  then show ?thesis by (intro that [of _ _ Same]) (use assms in \<open>auto intro: turn_ok_same\<close>)
next
  case (RetireLoop k w)
  then show ?thesis using retire_loop_turn [of c k w spurious] assms that by blast
next
  case (RetireExpectedCas g)
  then show ?thesis using retire_expected_turn [of c g spurious] assms that by blast
next
  case (RetireMax g r)
  then show ?thesis
    by (intro that [of "c\<lparr> sc_latest_retired := max (sc_latest_retired c) g \<rparr>" "RetireWake r" Same])
      (use assms in \<open>auto simp: turn_ok_def gate_moved_def publishing_def max_def word_le_nat_alt\<close>)
next
  case (RetireWake r)
  have "pc_ok (sc_gate c) (Outside r)" using assms(2) RetireWake by (cases r) auto
  then show ?thesis
    by (intro that [of "wake_render c" "Outside r" Same]) (use assms RetireWake in \<open>auto intro: turn_ok_same\<close>)
next
  case ShutdownStore
  then show ?thesis
    by (intro that [of "c\<lparr> sc_shutting_down := True \<rparr>" "RetireLoad HostCall" Same])
      (use assms in \<open>auto simp: turn_ok_def gate_moved_def publishing_def\<close>)
next
  case InstallSet
  have "turn_ok c pc (fst (install_render_sender_set c)) (snd (install_render_sender_set c)) Same"
    using assms InstallSet by (auto simp: install_render_sender_set_def split: option.splits intro!: turn_ok_same)
  then show ?thesis using InstallSet by (intro that) auto
next
  case InstallCheck
  then show ?thesis by (intro that [of _ _ Same]) (use assms in \<open>auto intro: turn_ok_same\<close>)
next
  case InstallWake
  then show ?thesis
    by (intro that [of "wake_render c" "Outside (InstallResult True)" Same]) (use assms in \<open>auto intro: turn_ok_same\<close>)
qed

lemma control_inv_turn:
  assumes "control_inv (c, ts)" "turn_ok c (ts i) c' pc m"
  shows "control_inv (c', ts(i := pc))"
proof -
  have inv: "gate_ok (sc_gate c)" "\<And>j. pc_ok (sc_gate c) (ts j)"
      "\<And>g. unat (sc_latest_retired c) < g \<Longrightarrow> g \<le> retired_upto (sc_gate c) \<Longrightarrow> \<exists>j. publishing (ts j) g"
      "sc_shutting_down c \<Longrightarrow> live (sc_gate c) \<Longrightarrow> \<exists>j. will_retire (ts j)"
    using assms(1) by (auto simp: control_inv_def)
  have t: "gate_moved (sc_gate c) (sc_gate c') m" "pc_ok (sc_gate c') pc" "m = Issue \<Longrightarrow> will_retire pc"
      "m = Retire \<Longrightarrow> publishing pc (generation_of (sc_gate c))"
      "\<And>g. publishing (ts i) g \<Longrightarrow> g \<le> unat (sc_latest_retired c')"
      "unat (sc_latest_retired c) \<le> unat (sc_latest_retired c')" "unat (sc_latest_retired c') \<le> retired_upto (sc_gate c')"
      "sc_shutting_down c' \<Longrightarrow> sc_shutting_down c \<or> will_retire pc"
      "will_retire (ts i) \<Longrightarrow> m = Same \<Longrightarrow> live (sc_gate c) \<Longrightarrow> sc_shutting_down c \<Longrightarrow> will_retire pc"
    using assms(2) by (auto simp: turn_ok_def)
  have covered: "\<exists>j. publishing ((ts(i := pc)) j) g"
    if g: "unat (sc_latest_retired c') < g" "g \<le> retired_upto (sc_gate c')" for g
  proof (cases "g \<le> retired_upto (sc_gate c)")
    case True
    then obtain j where j: "publishing (ts j) g" using inv(3) [of g] g t(6) by auto
    then have "j \<noteq> i" using t(5) [of g] g(1) by auto
    with j show ?thesis by (intro exI [of _ j]) simp
  next
    case False
    with g(2) t(1) inv(1) have "m = Retire \<and> g = generation_of (sc_gate c)"
      using issued_word [of "sc_gate c'" "sc_gate c"] retired_word [of "sc_gate c'" "sc_gate c"]
      by (auto simp: gate_moved_def split: gate_change.splits)
    then show ?thesis using t(4) by (intro exI [of _ i]) simp
  qed
  have stops: "\<exists>j. will_retire ((ts(i := pc)) j)" if "sc_shutting_down c'" "live (sc_gate c')"
  proof (cases "will_retire pc")
    case True
    then show ?thesis by (intro exI [of _ i]) simp
  next
    case False
    then have sd: "sc_shutting_down c" "m \<noteq> Issue" using t(3,8) that(1) by auto
    have "m \<noteq> Retire" using that(2) t(1) retired_word [of "sc_gate c'" "sc_gate c"] inv(1) by (auto simp: gate_moved_def)
    then have same: "m = Same" "live (sc_gate c)" using sd(2) that(2) t(1) by (cases m; simp add: gate_moved_def)+
    then obtain j where "will_retire (ts j)" using inv(4) sd(1) by auto
    with False same sd(1) t(9) show ?thesis by (intro exI [of _ j]) auto
  qed
  show ?thesis
    using gate_moved_mono [OF t(1) inv(1)] pc_ok_mono [OF t(1) inv(1,2)] t(2,7) covered stops
    by (simp add: control_inv_def)
qed

lemma control_step_inv: "control_step x y \<Longrightarrow> control_inv x \<Longrightarrow> control_inv y"
proof (induction rule: control_step.induct)
  case (enter ts i r call c)
  have keep: "ts i \<noteq> RetireMax w r'" "\<not> will_retire (ts i)" for w r' using enter(1) by auto
  have entry: "pc_ok (sc_gate c) (call_entry call)" using enter(2) by (cases call) auto
  have "turn_ok c (ts i) c (call_entry call) Same"
    using enter entry keep by (intro turn_ok_same) (auto simp: control_inv_def)
  then show ?case by (rule control_inv_turn [OF enter(3)])
next
  case (turn spurious c ts i c' pc)
  have "gate_ok (sc_gate c)" "pc_ok (sc_gate c) (ts i)" "unat (sc_latest_retired c) \<le> retired_upto (sc_gate c)"
    using turn(2) by (simp_all add: control_inv_def)
  then obtain c'' pc' m where "control_turn spurious c (ts i) = Some (c'', pc')" "turn_ok c (ts i) c'' pc' m"
    by (rule control_turn_ok)
  with turn(1) have "turn_ok c (ts i) c' pc m" by simp
  then show ?case by (rule control_inv_turn [OF turn(2)])
qed

lemma control_initial: "control_inv (surface_control_new, \<lambda>_. Outside NotCalled)"
  by (simp add: control_inv_def surface_control_new_def gate_ok_def live_def retired_upto_def generation_of_def)

lemma control_reachable:
  "control_step\<^sup>*\<^sup>* (surface_control_new, \<lambda>_. Outside NotCalled) (c, ts) \<Longrightarrow> control_inv (c, ts)"
  by (induction rule: rtranclp_induct) (use control_initial control_step_inv in auto)

text \<open>What the invariant says once every call has returned.\<close>

definition all_outside :: "(nat \<Rightarrow> control_pc) \<Rightarrow> bool" where
  "all_outside ts \<longleftrightarrow> (\<forall>i. \<exists>r. ts i = Outside r)"

lemma control_inv_quiescent:
  assumes "control_inv (c, ts)" "all_outside ts"
  shows "unat (sc_latest_retired c) = retired_upto (sc_gate c)" "sc_shutting_down c \<Longrightarrow> \<not> live (sc_gate c)"
proof -
  have out: "\<not> publishing (ts i) g" "\<not> will_retire (ts i)" for i g
    using assms(2) [unfolded all_outside_def, rule_format, of i] by (auto simp: publishing_def)
  then have "\<not> unat (sc_latest_retired c) < retired_upto (sc_gate c)"
    using assms(1) unfolding control_inv_def by blast
  then show "unat (sc_latest_retired c) = retired_upto (sc_gate c)"
    using assms(1) by (simp add: control_inv_def)
  show "\<not> live (sc_gate c)" if "sc_shutting_down c"
    using that assms(1) out unfolding control_inv_def by blast
qed

section \<open>Without one order of all accesses\<close>

text \<open>
  Shutdown is announced by a plain store (\<open>Ordering::Release\<close>) and then the gate is
  loaded; processors, x86 among them, let the load overtake the store. Here the store
  waits in the thread's buffer, in which it may be until the thread's next exchange.
\<close>

inductive buffered_step ::
  "surface_control \<times> (nat \<Rightarrow> control_pc) \<times> (nat \<Rightarrow> bool) \<Rightarrow> surface_control \<times> (nat \<Rightarrow> control_pc) \<times> (nat \<Rightarrow> bool) \<Rightarrow> bool" where
  enter_call: "ts i = Outside r \<Longrightarrow> call_ok call \<Longrightarrow> buffered_step (c, ts, buf) (c, ts(i := call_entry call), buf)"
| buffer_store: "ts i = ShutdownStore \<Longrightarrow> buffered_step (c, ts, buf) (c, ts(i := RetireLoad HostCall), buf(i := True))"
| drain: "buf i \<Longrightarrow> buffered_step (c, ts, buf) (c\<lparr> sc_shutting_down := True \<rparr>, ts, buf(i := False))"
| take_turn: "ts i \<noteq> ShutdownStore \<Longrightarrow> buf i \<longrightarrow> ts i = RetireLoad HostCall \<or> ts i = RetireLoop HostCall 0 \<Longrightarrow>
     control_turn spurious c (ts i) = Some (c', pc) \<Longrightarrow> buffered_step (c, ts, buf) (c', ts(i := pc), buf)"

lemma take_turn_at:
  "control_turn False c pc = Some (c', pc') \<Longrightarrow> pc \<noteq> ShutdownStore \<Longrightarrow>
   buf i \<longrightarrow> pc = RetireLoad HostCall \<or> pc = RetireLoop HostCall 0 \<Longrightarrow>
   buffered_step (c, ts(i := pc), buf) (c', ts(i := pc'), buf)"
  using take_turn [of "ts(i := pc)" i buf False c c' pc'] by simp

lemma shutdown_leaves_live_generation:
  "\<exists>c ts. buffered_step\<^sup>*\<^sup>* (surface_control_new, \<lambda>_. Outside NotCalled, \<lambda>_. False) (c, ts, \<lambda>_. False) \<and>
     all_outside ts \<and> sc_shutting_down c \<and> live (sc_gate c) \<and> ts 1 = Outside (RetiredCurrent None)"
proof -
  let ?n = "\<lambda>_ :: nat. Outside NotCalled" and ?b = "(\<lambda>_ :: nat. False)(1 := True)" and ?c = surface_control_new
  let ?t = "\<lparr> lt_generation = 1, lt_expected_live_word = 3 \<rparr>"
  let ?d = "?c\<lparr> sc_gate := 3 \<rparr>" and ?w = "?n(1 := Outside (RetiredCurrent None))"
  let ?e = "?d\<lparr> sc_shutting_down := True \<rparr>" and ?z = "?w(0 := Outside (Attached ?t))"
  have 1: "buffered_step (?c, ?n, \<lambda>_. False) (?c, ?n(1 := ShutdownStore), \<lambda>_. False)"
    using enter_call [of ?n 1 NotCalled CallShutdown ?c "\<lambda>_. False"] by simp
  have 2: "buffered_step (?c, ?n(1 := ShutdownStore), \<lambda>_. False) (?c, ?n(1 := RetireLoad HostCall), ?b)"
    using buffer_store [of "?n(1 := ShutdownStore)" 1 ?c "\<lambda>_. False"] by simp
  have 3: "buffered_step (?c, ?n(1 := RetireLoad HostCall), ?b) (?c, ?n(1 := RetireLoop HostCall 0), ?b)"
    by (rule take_turn_at) (code_simp, simp_all)
  have 4: "buffered_step (?c, ?n(1 := RetireLoop HostCall 0), ?b) (?c, ?w, ?b)"
    by (rule take_turn_at) (code_simp, simp_all)
  have 5: "buffered_step (?c, ?w, ?b) (?c, ?w(0 := AttachCheck), ?b)"
    using enter_call [of ?w 0 NotCalled CallAttach ?c ?b] by simp
  have 6: "buffered_step (?c, ?w(0 := AttachCheck), ?b) (?c, ?w(0 := AttachLoad), ?b)"
    by (rule take_turn_at) (code_simp, simp_all)
  have 7: "buffered_step (?c, ?w(0 := AttachLoad), ?b) (?c, ?w(0 := AttachLoop 0), ?b)"
    by (rule take_turn_at) (code_simp, simp_all)
  have 8: "buffered_step (?c, ?w(0 := AttachLoop 0), ?b) (?d, ?w(0 := AttachRecheck ?t), ?b)"
    by (rule take_turn_at) (code_simp, simp_all)
  have 9: "buffered_step (?d, ?w(0 := AttachRecheck ?t), ?b) (?d, ?z, ?b)"
    by (rule take_turn_at) (code_simp, simp_all)
  have 10: "buffered_step (?d, ?z, ?b) (?e, ?z, \<lambda>_. False)"
    using drain [of ?b 1 ?d ?z] by (simp add: fun_upd_idem)
  note next_step = rtranclp.rtrancl_into_rtrancl [of buffered_step]
  have "buffered_step\<^sup>*\<^sup>* (?c, ?n, \<lambda>_. False) (?e, ?z, \<lambda>_. False)"
    by (rule next_step [OF next_step [OF next_step [OF next_step [OF next_step [OF next_step [OF next_step
      [OF next_step [OF next_step [OF r_into_rtranclp [of buffered_step, OF 1] 2] 3] 4] 5] 6] 7] 8] 9] 10])
  moreover have "all_outside ?z" "sc_shutting_down ?e" "live (sc_gate ?e)" "?z 1 = Outside (RetiredCurrent None)"
    by (auto simp: all_outside_def live_def)
  ultimately show ?thesis by (intro exI [of _ ?e] exI [of _ ?z] conjI)
qed

end
