(* ===== verification/Surface_Binding.thy ===== *)
theory Surface_Binding
  imports Surface_Control
begin

text \<open>
  The render thread's hold on a native surface (\<open>graphics/src/surface_binding.rs\<close>, the
  release transaction of \<open>shared/src/surface/attachment.rs\<close>, and the places of
  \<open>graphics/src/render_thread.rs\<close> that drive them), composed with the control object the
  host's threads work on. The EGL calls of an installation or a teardown are given by
  their outcome; which generations EGL may still refer to afterwards is the contract of
  the canvas manager.
\<close>

section \<open>The binding\<close>

datatype recreate_kind = Initial | SameGeneration | NewGeneration
datatype surface_binding_error = StaleGeneration | ConflictingLiveGeneration | RecreateInProgress
datatype install_phase = BeforePreviousInvalidation | PreviousInvalidated | CandidateReferenced
datatype candidate_cleanup = NotRequired | CleanupReleased | CleanupFailed
datatype presentation_disposition = PreviousUsable | Unavailable
datatype candidate_lease_disposition = Unbound | Retained

record surface_lease =
  sl_liveness :: liveness_token
  sl_resource :: nat

abbreviation lease_generation :: "surface_lease \<Rightarrow> u64" where
  "lease_generation l \<equiv> lt_generation (sl_liveness l)"

definition lease_is_live :: "u64 \<Rightarrow> surface_lease \<Rightarrow> bool" where
  "lease_is_live gate l \<longleftrightarrow> token_is_live gate (sl_liveness l)"

record render_surface_binding =
  rb_current :: "surface_lease option"
  rb_pending :: "surface_lease option"

definition binding_new :: render_surface_binding where
  "binding_new = \<lparr> rb_current = None, rb_pending = None \<rparr>"

definition binding_is_live :: "u64 \<Rightarrow> render_surface_binding \<Rightarrow> bool" where
  "binding_is_live gate b \<longleftrightarrow> (case rb_current b of None \<Rightarrow> False | Some l \<Rightarrow> lease_is_live gate l)"

definition binding_on_surface_destroyed :: "u64 \<Rightarrow> render_surface_binding \<Rightarrow> u64 \<Rightarrow> bool" where
  "binding_on_surface_destroyed gate b generation \<longleftrightarrow> (case rb_current b of
     None \<Rightarrow> False
   | Some l \<Rightarrow> lease_generation l = generation \<and> \<not> lease_is_live gate l)"

text \<open>The two loads of the gate are arguments: whether the candidate was live, and whether the current lease was.\<close>

definition preflight :: "render_surface_binding \<Rightarrow> surface_lease \<Rightarrow> bool \<Rightarrow> bool \<Rightarrow> surface_binding_error + recreate_kind" where
  "preflight b candidate candidate_live current_live =
     (if rb_pending b \<noteq> None then Inl RecreateInProgress
      else if \<not> candidate_live then Inl StaleGeneration
      else case rb_current b of
        None \<Rightarrow> Inr Initial
      | Some current \<Rightarrow>
          if lease_generation candidate < lease_generation current then Inl StaleGeneration
          else if lease_generation candidate = lease_generation current then Inr SameGeneration
          else if current_live then Inl ConflictingLiveGeneration
          else Inr NewGeneration)"

definition begin_recreate ::
  "render_surface_binding \<Rightarrow> surface_lease \<Rightarrow> bool \<Rightarrow> bool \<Rightarrow> surface_binding_error + (render_surface_binding \<times> recreate_kind)" where
  "begin_recreate b candidate candidate_live current_live =
     (case preflight b candidate candidate_live current_live of
        Inl e \<Rightarrow> Inl e
      | Inr kind \<Rightarrow> Inr (b\<lparr> rb_pending := Some candidate \<rparr>, kind))"

definition recreate_commit :: "render_surface_binding \<Rightarrow> render_surface_binding option" where
  "recreate_commit b = (case rb_pending b of
     None \<Rightarrow> Panic
   | Some candidate \<Rightarrow> Some \<lparr> rb_current = Some candidate, rb_pending = None \<rparr>)"

definition abort_unbound :: "render_surface_binding \<Rightarrow> render_surface_binding" where
  "abort_unbound b = b\<lparr> rb_pending := None \<rparr>"

definition install_failure_disposition ::
  "bool \<Rightarrow> install_phase \<Rightarrow> candidate_cleanup \<Rightarrow> presentation_disposition \<times> candidate_lease_disposition" where
  "install_failure_disposition had_usable_previous phase cleanup =
     (if had_usable_previous \<and> phase = BeforePreviousInvalidation then PreviousUsable else Unavailable,
      if phase = CandidateReferenced \<and> cleanup \<noteq> CleanupReleased then Retained else Unbound)"

text \<open>An installation either succeeds or reports the phase it failed in and how the candidate was cleaned up.\<close>

datatype install_outcome = Installed | InstallFailed install_phase candidate_cleanup

definition settle_recreate :: "render_surface_binding \<Rightarrow> install_outcome \<Rightarrow> render_surface_binding option" where
  "settle_recreate b outcome = (case outcome of
     Installed \<Rightarrow> recreate_commit b
   | InstallFailed phase cleanup \<Rightarrow> (case snd (install_failure_disposition False phase cleanup) of
       Unbound \<Rightarrow> Some (abort_unbound b)
     | Retained \<Rightarrow> recreate_commit b))"

definition run_surface_recreate ::
  "render_surface_binding \<Rightarrow> surface_lease \<Rightarrow> bool \<Rightarrow> bool \<Rightarrow> (recreate_kind \<Rightarrow> install_outcome) \<Rightarrow>
   (render_surface_binding \<times> ((surface_binding_error + install_outcome) + recreate_kind)) option" where
  "run_surface_recreate b candidate candidate_live current_live install =
     (case begin_recreate b candidate candidate_live current_live of
        Inl e \<Rightarrow> Some (b, Inl (Inl e))
      | Inr (b, kind) \<Rightarrow> do {
          b \<leftarrow> settle_recreate b (install kind);
          Some (b, case install kind of Installed \<Rightarrow> Inr kind | failure \<Rightarrow> Inl (Inr failure)) })"

datatype surface_release_disposition = Released | AlreadyAbsent | Superseded
datatype release_transaction_error = GenerationStillLive | TeardownFailed

definition release_retired_resource ::
  "'l option \<Rightarrow> u64 \<Rightarrow> ('l \<Rightarrow> u64) \<Rightarrow> ('l \<Rightarrow> bool) \<Rightarrow> bool \<Rightarrow>
   'l option \<times> (release_transaction_error + surface_release_disposition)" where
  "release_retired_resource current requested_generation generation is_live teardown_ok =
     (case current of
        None \<Rightarrow> (None, Inr AlreadyAbsent)
      | Some installed \<Rightarrow>
          if generation installed > requested_generation then (current, Inr Superseded)
          else if is_live installed then (current, Inl GenerationStillLive)
          else if \<not> teardown_ok then (current, Inl TeardownFailed)
          else (None, Inr Released))"

datatype release_error = RecreateTransactionOpen | ReleaseTransaction release_transaction_error

definition release_surface_binding ::
  "u64 \<Rightarrow> render_surface_binding \<Rightarrow> u64 \<Rightarrow> bool \<Rightarrow> render_surface_binding \<times> (release_error + surface_release_disposition)" where
  "release_surface_binding gate b generation teardown_ok =
     (if rb_pending b \<noteq> None then (b, Inl RecreateTransactionOpen)
      else case release_retired_resource (rb_current b) generation lease_generation (lease_is_live gate) teardown_ok of
        (current, Inl e) \<Rightarrow> (b\<lparr> rb_current := current \<rparr>, Inl (ReleaseTransaction e))
      | (current, Inr d) \<Rightarrow> (b\<lparr> rb_current := current \<rparr>, Inr d))"

definition clear_after_egl_teardown :: "render_surface_binding \<Rightarrow> render_surface_binding" where
  "clear_after_egl_teardown b = b\<lparr> rb_pending := None, rb_current := None \<rparr>"

text \<open>\<open>mem::forget\<close>: the leases are given up without being dropped; they are the second part.\<close>

definition quarantine_after_failed_egl_teardown :: "render_surface_binding \<Rightarrow> render_surface_binding \<times> surface_lease list" where
  "quarantine_after_failed_egl_teardown b =
     (\<lparr> rb_current = None, rb_pending = None \<rparr>,
      (case rb_pending b of None \<Rightarrow> [] | Some l \<Rightarrow> [l]) @ (case rb_current b of None \<Rightarrow> [] | Some l \<Rightarrow> [l]))"

definition destroy_render_owner :: "bool \<Rightarrow> render_surface_binding \<Rightarrow> render_surface_binding \<times> surface_lease list" where
  "destroy_render_owner destroyed b =
     (if destroyed then (clear_after_egl_teardown b, []) else quarantine_after_failed_egl_teardown b)"

section \<open>The render thread at work\<close>

text \<open>
  A recreation checks the generation twice, each check loading the gate for the
  candidate and for the current lease (\<open>RCheck\<close>, \<open>RCheckCurrent\<close>); then the candidate is
  staged and installed. A wake is taken from the slot, the level read, and the release
  carried out. \<open>ro_egl\<close> holds the generations EGL may still refer to.
\<close>

datatype render_pc =
    RIdle
  | RCheck surface_lease bool | RCheckCurrent surface_lease bool bool
  | RStaged
  | RWoken | RRelease u64
  | RStopped

record render_owner =
  ro_binding :: render_surface_binding
  ro_pc :: render_pc
  ro_egl :: "u64 set"
  ro_quarantined :: "surface_lease list"

definition current_is_live :: "surface_control \<Rightarrow> render_owner \<Rightarrow> bool" where
  "current_is_live c r \<longleftrightarrow> binding_is_live (sc_gate c) (ro_binding r)"

text \<open>
  The contract of the canvas manager: what EGL may refer to after an installation of
  generation \<open>g\<close>, given what it referred to before.
\<close>

fun install_leaves :: "install_outcome \<Rightarrow> u64 \<Rightarrow> u64 set \<Rightarrow> u64 set" where
  "install_leaves Installed g egl = {g}"
| "install_leaves (InstallFailed CandidateReferenced CleanupReleased) g egl = {}"
| "install_leaves (InstallFailed CandidateReferenced _) g egl = {g}"
| "install_leaves (InstallFailed _ _) g egl = egl"

definition stop_render :: "bool \<Rightarrow> render_owner \<Rightarrow> render_owner" where
  "stop_render destroyed r = (case destroy_render_owner destroyed (ro_binding r) of (b, forgotten) \<Rightarrow>
     r\<lparr> ro_binding := b, ro_pc := RStopped, ro_egl := (if destroyed then {} else ro_egl r),
        ro_quarantined := ro_quarantined r @ forgotten \<rparr>)"

inductive render_step :: "surface_control \<times> render_owner \<Rightarrow> surface_control \<times> render_owner \<Rightarrow> bool" where
  candidate: "ro_pc r = RIdle \<Longrightarrow> token_ok (sc_gate c) (sl_liveness l) \<Longrightarrow> render_step (c, r) (c, r\<lparr> ro_pc := RCheck l True \<rparr>)"
| load_candidate: "ro_pc r = RCheck l first \<Longrightarrow>
     render_step (c, r) (c, r\<lparr> ro_pc := RCheckCurrent l first (lease_is_live (sc_gate c) l) \<rparr>)"
| refuse: "ro_pc r = RCheckCurrent l first candidate_live \<Longrightarrow>
     preflight (ro_binding r) l candidate_live (current_is_live c r) = Inl e \<Longrightarrow>
     render_step (c, r) (c, r\<lparr> ro_pc := RIdle \<rparr>)"
| not_prepared: "ro_pc r = RCheckCurrent l True candidate_live \<Longrightarrow>
     preflight (ro_binding r) l candidate_live (current_is_live c r) = Inr kind \<Longrightarrow>
     render_step (c, r) (c, r\<lparr> ro_pc := RIdle \<rparr>)"
| prepared: "ro_pc r = RCheckCurrent l True candidate_live \<Longrightarrow>
     preflight (ro_binding r) l candidate_live (current_is_live c r) = Inr kind \<Longrightarrow>
     render_step (c, r) (c, r\<lparr> ro_pc := RCheck l False \<rparr>)"
| stage: "ro_pc r = RCheckCurrent l False candidate_live \<Longrightarrow>
     begin_recreate (ro_binding r) l candidate_live (current_is_live c r) = Inr (b, kind) \<Longrightarrow>
     render_step (c, r) (c, r\<lparr> ro_binding := b, ro_pc := RStaged \<rparr>)"
| settle: "ro_pc r = RStaged \<Longrightarrow> rb_pending (ro_binding r) = Some l \<Longrightarrow>
     settle_recreate (ro_binding r) outcome = Some b \<Longrightarrow>
     egl \<subseteq> install_leaves outcome (lease_generation l) (ro_egl r) \<Longrightarrow>
     render_step (c, r) (c, r\<lparr> ro_binding := b, ro_pc := RIdle, ro_egl := egl \<rparr>)"
| take_wake: "ro_pc r = RIdle \<Longrightarrow> sc_render_wake c = Some True \<Longrightarrow>
     render_step (c, r) (c\<lparr> sc_render_wake := Some False \<rparr>, r\<lparr> ro_pc := RWoken \<rparr>)"
| nothing_retired: "ro_pc r = RWoken \<Longrightarrow> latest_retired_generation c = None \<Longrightarrow> render_step (c, r) (c, r\<lparr> ro_pc := RIdle \<rparr>)"
| read_level: "ro_pc r = RWoken \<Longrightarrow> latest_retired_generation c = Some g \<Longrightarrow> render_step (c, r) (c, r\<lparr> ro_pc := RRelease g \<rparr>)"
| release: "ro_pc r = RRelease g \<Longrightarrow> release_surface_binding (sc_gate c) (ro_binding r) g teardown_ok = (b, Inr d) \<Longrightarrow>
     render_step (c, r) (c, r\<lparr> ro_binding := b, ro_pc := RIdle, ro_egl := (if d = Released then {} else ro_egl r) \<rparr>)"
| release_failed: "ro_pc r = RRelease g \<Longrightarrow> release_surface_binding (sc_gate c) (ro_binding r) g teardown_ok = (b, Inl e) \<Longrightarrow>
     render_step (c, r) (c, stop_render destroyed (r\<lparr> ro_binding := b \<rparr>))"
| stop: "ro_pc r = RIdle \<Longrightarrow> render_step (c, r) (c, stop_render destroyed r)"

definition render_new :: render_owner where
  "render_new = \<lparr> ro_binding = binding_new, ro_pc = RIdle, ro_egl = {}, ro_quarantined = [] \<rparr>"

inductive surface_step ::
  "surface_control \<times> (nat \<Rightarrow> control_pc) \<times> render_owner \<Rightarrow> surface_control \<times> (nat \<Rightarrow> control_pc) \<times> render_owner \<Rightarrow> bool" where
  host: "control_step (c, ts) (c', ts') \<Longrightarrow> surface_step (c, ts, r) (c', ts', r)"
| render: "render_step (c, r) (c', r') \<Longrightarrow> surface_step (c, ts, r) (c', ts, r')"

section \<open>A retired generation is noticed\<close>

text \<open>
  \<open>wake_due c ts g\<close>: generation \<open>g\<close> is not retired, or nobody listens yet, or the slot is
  full, or a thread is on its way to fill it.
\<close>

definition waking :: "control_pc \<Rightarrow> nat \<Rightarrow> bool" where
  "waking pc g \<longleftrightarrow> publishing pc g \<or> (\<exists>r. pc = RetireWake r) \<or> pc = InstallCheck \<or> pc = InstallWake"

definition wake_due :: "surface_control \<Rightarrow> (nat \<Rightarrow> control_pc) \<Rightarrow> nat \<Rightarrow> bool" where
  "wake_due c ts g \<longleftrightarrow> retired_upto (sc_gate c) < g \<or> sc_render_wake c \<noteq> Some False \<or> (\<exists>i. waking (ts i) g)"

lemma turn_wake:
  assumes "control_turn spurious c pc = Some (c', pc')"
  shows "sc_render_wake c' = sc_render_wake c \<or> sc_render_wake c' = Some True \<or> (sc_render_wake c = None \<and> pc' = InstallCheck)"
    and "waking pc g \<Longrightarrow> waking pc' g \<or> sc_render_wake c' \<noteq> Some False \<or> (pc = InstallCheck \<and> sc_latest_retired c = 0 \<and> c' = c)"
  using assms
  by (cases pc; auto simp: waking_def publishing_def wake_render_def install_render_sender_set_def retire_generation_turn_def
      split: if_splits option.splits prod.splits bind_splits)+

lemma wake_due_turn:
  assumes inv: "control_inv (c, ts)" and t: "control_turn spurious c (ts i) = Some (c', pc)" "turn_ok c (ts i) c' pc m"
    and due: "wake_due c ts g" "0 < g"
  shows "wake_due c' (ts(i := pc)) g"
proof (rule ccontr)
  assume "\<not> wake_due c' (ts(i := pc)) g"
  then have no: "g \<le> retired_upto (sc_gate c')" "sc_render_wake c' = Some False" "\<not> waking pc g"
      "\<And>j. j \<noteq> i \<Longrightarrow> \<not> waking (ts j) g"
    by (auto simp: wake_due_def split: if_splits)
  have moved: "gate_moved (sc_gate c) (sc_gate c') m" "m = Retire \<Longrightarrow> publishing pc (generation_of (sc_gate c))"
    using t(2) by (auto simp: turn_ok_def)
  have ok: "gate_ok (sc_gate c)" using inv by (simp add: control_inv_def)
  have upto: "g \<le> retired_upto (sc_gate c)"
  proof (rule ccontr)
    assume "\<not> g \<le> retired_upto (sc_gate c)"
    with no(1) moved ok have "m = Retire \<and> g = generation_of (sc_gate c)"
      using issued_word [of "sc_gate c'" "sc_gate c"] retired_word [of "sc_gate c'" "sc_gate c"]
      by (auto simp: gate_moved_def split: gate_change.splits)
    then show False using moved(2) no(3) by (simp add: waking_def)
  qed
  have slot: "sc_render_wake c = Some False"
    using turn_wake(1) [OF t(1)] no(2,3) by (auto simp: waking_def)
  then obtain j where j: "waking (ts j) g" using due(1) upto by (auto simp: wake_due_def)
  then have "waking (ts i) g" using no(4) by (cases "j = i") auto
  then have "ts i = InstallCheck" "sc_latest_retired c = 0" using turn_wake(2) [OF t(1)] no(2,3) by blast+
  then obtain k where k: "publishing (ts k) g" using inv upto due(2) by (auto simp: control_inv_def)
  then have "k \<noteq> i" using \<open>ts i = InstallCheck\<close> by (auto simp: publishing_def)
  then show False using no(4) k by (auto simp: waking_def)
qed

lemma wake_due_enter:
  assumes "wake_due c ts g" "ts i = Outside r" shows "wake_due c (ts(i := pc)) g"
proof -
  have "\<not> waking (ts i) g" using assms(2) by (simp add: waking_def publishing_def)
  then show ?thesis using assms(1) by (auto simp: wake_due_def)
qed

section \<open>The invariant of the render thread\<close>

definition pc_leases :: "render_pc \<Rightarrow> surface_lease list" where
  "pc_leases pc = (case pc of RCheck l first \<Rightarrow> [l] | RCheckCurrent l first seen \<Rightarrow> [l] | _ \<Rightarrow> [])"

definition known_leases :: "render_owner \<Rightarrow> surface_lease list" where
  "known_leases r = (case rb_current (ro_binding r) of None \<Rightarrow> [] | Some l \<Rightarrow> [l]) @
     (case rb_pending (ro_binding r) of None \<Rightarrow> [] | Some l \<Rightarrow> [l]) @ pc_leases (ro_pc r)"

text \<open>The render thread has taken the wake and will look at this lease.\<close>

definition releasing :: "render_pc \<Rightarrow> surface_lease \<Rightarrow> bool" where
  "releasing pc l \<longleftrightarrow> pc = RWoken \<or> (\<exists>g. pc = RRelease g \<and> lease_generation l \<le> g)"

definition noticed :: "surface_control \<Rightarrow> (nat \<Rightarrow> control_pc) \<Rightarrow> surface_lease \<Rightarrow> bool" where
  "noticed c ts l \<longleftrightarrow> wake_due c ts (unat (lease_generation l))"

definition owner_inv :: "surface_control \<times> (nat \<Rightarrow> control_pc) \<times> render_owner \<Rightarrow> bool" where
  "owner_inv = (\<lambda>(c, ts, r). control_inv (c, ts) \<and>
     (\<forall>l \<in> set (known_leases r). token_ok (sc_gate c) (sl_liveness l)) \<and>
     (rb_pending (ro_binding r) \<noteq> None \<longleftrightarrow> ro_pc r = RStaged) \<and>
     (ro_pc r = RStopped \<longrightarrow> rb_current (ro_binding r) = None) \<and>
     (\<forall>g. ro_pc r = RRelease g \<longrightarrow> g \<le> sc_latest_retired c) \<and>
     (\<forall>l. rb_current (ro_binding r) = Some l \<longrightarrow> noticed c ts l \<or> releasing (ro_pc r) l) \<and>
     (\<forall>l. rb_pending (ro_binding r) = Some l \<longrightarrow> noticed c ts l) \<and>
     (\<forall>l first. ro_pc r = RCheckCurrent l first True \<longrightarrow> noticed c ts l) \<and>
     (\<forall>g \<in> ro_egl r. (\<exists>l. rb_current (ro_binding r) = Some l \<and> lease_generation l = g) \<or>
        (\<exists>l \<in> set (ro_quarantined r). lease_generation l = g)))"

lemma token_ok_mono: "token_ok s t \<Longrightarrow> gate_moved s s' m \<Longrightarrow> gate_ok s \<Longrightarrow> token_ok s' t"
  using gate_moved_mono [of s s' m] by (auto simp: token_ok_def)

lemma token_positive: "token_ok s t \<Longrightarrow> 0 < unat (lt_generation t)"
  by (auto simp: token_ok_def)

lemma live_not_retired:
  assumes "token_ok s t" "token_is_live s t" shows "retired_upto s < unat (lt_generation t)"
  using assms by (auto simp: token_ok_def token_is_live_def retired_upto_def)

lemma older_not_live:
  assumes "token_ok s t" "token_ok s t'" "lt_generation t < lt_generation t'" shows "\<not> token_is_live s t"
  using assms by (auto simp: token_ok_def token_is_live_def word_less_nat_alt)


lemma owner_inv_host:
  assumes inv: "owner_inv (c, ts, r)" and control: "control_inv (c', ts')"
    and moved: "gate_moved (sc_gate c) (sc_gate c') m" and level: "sc_latest_retired c \<le> sc_latest_retired c'"
    and due: "\<And>g. 0 < g \<Longrightarrow> wake_due c ts g \<Longrightarrow> wake_due c' ts' g"
  shows "owner_inv (c', ts', r)"
proof -
  have ok: "gate_ok (sc_gate c)" and tokens: "\<forall>l \<in> set (known_leases r). token_ok (sc_gate c) (sl_liveness l)"
    using inv by (auto simp: owner_inv_def control_inv_def)
  have n: "noticed c ts l \<Longrightarrow> l \<in> set (known_leases r) \<Longrightarrow> noticed c' ts' l" for l
    using due [OF token_positive [of "sc_gate c" "sl_liveness l"]] tokens by (simp add: noticed_def)
  have known: "rb_current (ro_binding r) = Some l \<Longrightarrow> l \<in> set (known_leases r)"
      "rb_pending (ro_binding r) = Some l \<Longrightarrow> l \<in> set (known_leases r)"
      "ro_pc r = RCheckCurrent l first seen \<Longrightarrow> l \<in> set (known_leases r)" for l first seen
    by (auto simp: known_leases_def pc_leases_def)
  show ?thesis
    using inv control token_ok_mono [OF _ moved ok] level n known
    unfolding owner_inv_def by (auto intro: order_trans)
qed

lemma noticed_above:
  assumes "control_inv (c, ts)" "sc_latest_retired c < lease_generation l" shows "noticed c ts l"
proof (cases "unat (lease_generation l) \<le> retired_upto (sc_gate c)")
  case True
  then have "\<exists>i. publishing (ts i) (unat (lease_generation l))"
    using assms by (simp add: control_inv_def word_less_nat_alt)
  then show ?thesis by (auto simp: noticed_def wake_due_def waking_def)
qed (simp add: noticed_def wake_due_def)

lemma retired_not_live:
  assumes "control_inv (c, ts)" "token_ok (sc_gate c) (sl_liveness l)" "lease_generation l \<le> g" "g \<le> sc_latest_retired c"
  shows "\<not> lease_is_live (sc_gate c) l"
proof
  assume "lease_is_live (sc_gate c) l"
  then have "retired_upto (sc_gate c) < unat (lease_generation l)"
    using live_not_retired [OF assms(2)] by (simp add: lease_is_live_def)
  then show False using assms by (simp add: control_inv_def word_le_nat_alt)
qed

lemma stop_render_inv:
  assumes "control_inv (c, ts)"
    and "\<forall>g \<in> ro_egl r. (\<exists>l. rb_current (ro_binding r) = Some l \<and> lease_generation l = g) \<or>
        (\<exists>l \<in> set (ro_quarantined r). lease_generation l = g)"
  shows "owner_inv (c, ts, stop_render destroyed r)"
  using assms
  by (cases destroyed) (auto simp: owner_inv_def stop_render_def destroy_render_owner_def clear_after_egl_teardown_def
      quarantine_after_failed_egl_teardown_def known_leases_def pc_leases_def)

lemma release_cases:
  assumes "release_surface_binding gate b g ok = (b', x)" "rb_pending b = None"
  obtains (absent) "b' = b" "x = Inr AlreadyAbsent" "rb_current b = None"
    | (superseded) l where "b' = b" "x = Inr Superseded" "rb_current b = Some l" "g < lease_generation l"
    | (still_live) l where "b' = b" "x = Inl (ReleaseTransaction GenerationStillLive)" "rb_current b = Some l"
        "lease_generation l \<le> g" "lease_is_live gate l"
    | (failed) l where "b' = b" "x = Inl (ReleaseTransaction TeardownFailed)" "\<not> ok" "rb_current b = Some l"
    | (released) l where "b' = b\<lparr> rb_current := None \<rparr>" "x = Inr Released" "ok" "rb_current b = Some l" "lease_generation l \<le> g"
  using assms
  by (cases b; cases "rb_current b") (auto simp: release_surface_binding_def release_retired_resource_def split: if_splits)

lemma render_step_inv:
  assumes "render_step (c, r) (c', r')" "owner_inv (c, ts, r)"
  shows "owner_inv (c', ts, r')"
  using assms(1)
proof cases
  case (load_candidate l first)
  have "lease_is_live (sc_gate c) l \<Longrightarrow> noticed c ts l"
    using live_not_retired [of "sc_gate c" "sl_liveness l"] assms(2) load_candidate
    by (auto simp: owner_inv_def noticed_def wake_due_def lease_is_live_def known_leases_def pc_leases_def)
  then show ?thesis
    using assms(2) load_candidate by (auto simp: owner_inv_def known_leases_def pc_leases_def releasing_def)
next
  case (stage l seen b kind)
  have "seen" "b = (ro_binding r)\<lparr> rb_pending := Some l \<rparr>" "rb_pending (ro_binding r) = None"
    using stage(4) by (auto simp: begin_recreate_def preflight_def split: sum.splits if_splits option.splits)
  then show ?thesis
    using assms(2) stage by (auto simp: owner_inv_def known_leases_def pc_leases_def releasing_def)
next
  case (settle l outcome b egl)
  then show ?thesis
    using assms(2)
    by (cases "(outcome, lease_generation l, ro_egl r)" rule: install_leaves.cases)
      (auto simp: owner_inv_def known_leases_def pc_leases_def releasing_def settle_recreate_def recreate_commit_def
        abort_unbound_def install_failure_disposition_def)
next
  case take_wake
  then show ?thesis
    using assms(2) by (auto simp: owner_inv_def known_leases_def pc_leases_def releasing_def control_inv_def)
next
  case nothing_retired
  have "noticed c ts l" if "rb_current (ro_binding r) = Some l" for l
    using assms(2) nothing_retired that token_positive [of "sc_gate c" "sl_liveness l"]
    by (intro noticed_above) (auto simp: owner_inv_def known_leases_def latest_retired_generation_def word_less_nat_alt
        split: if_splits)
  then show ?thesis
    using assms(2) nothing_retired by (auto simp: owner_inv_def known_leases_def pc_leases_def)
next
  case (read_level g)
  have "noticed c ts l \<or> lease_generation l \<le> g" for l
    using assms(2) read_level noticed_above [of c ts l]
    by (auto simp: owner_inv_def latest_retired_generation_def not_le split: if_splits)
  then show ?thesis
    using assms(2) read_level
    by (auto simp: owner_inv_def known_leases_def pc_leases_def releasing_def latest_retired_generation_def split: if_splits)
next
  case (release g ok b d)
  have p: "rb_pending (ro_binding r) = None" using assms(2) release by (auto simp: owner_inv_def)
  from release(4) p show ?thesis
    by (cases rule: release_cases) (use assms(2) release in \<open>auto simp: owner_inv_def known_leases_def pc_leases_def releasing_def\<close>)
next
  case (release_failed g ok b e destroyed)
  have p: "rb_pending (ro_binding r) = None" using assms(2) release_failed by (auto simp: owner_inv_def)
  from release_failed(4) p have "b = ro_binding r" by (cases rule: release_cases) auto
  then show ?thesis
    using assms(2) release_failed stop_render_inv [of c ts r destroyed] by (simp add: owner_inv_def)
next
  case (stop destroyed)
  then show ?thesis using assms(2) stop_render_inv [of c ts r destroyed] by (simp add: owner_inv_def)
qed (use assms(2) in \<open>auto simp: owner_inv_def known_leases_def pc_leases_def releasing_def\<close>)

lemma surface_step_inv: "surface_step x y \<Longrightarrow> owner_inv x \<Longrightarrow> owner_inv y"
proof (induction rule: surface_step.induct)
  case (host c ts c' ts' r)
  have inv: "control_inv (c, ts)" using host(2) by (simp add: owner_inv_def)
  note inv' = control_step_inv [OF host(1) inv]
  from host(1) show ?case
  proof cases
    case (enter i res call)
    show ?thesis
      by (rule owner_inv_host [OF host(2) inv', where m = Same])
        (use enter wake_due_enter in \<open>auto simp: gate_moved_def\<close>)
  next
    case (turn spurious i pc)
    have "gate_ok (sc_gate c)" "pc_ok (sc_gate c) (ts i)" "unat (sc_latest_retired c) \<le> retired_upto (sc_gate c)"
      using inv by (simp_all add: control_inv_def)
    then obtain c'' pc' m where "control_turn spurious c (ts i) = Some (c'', pc')" "turn_ok c (ts i) c'' pc' m"
      by (rule control_turn_ok)
    with turn have ok: "turn_ok c (ts i) c' pc m" by simp
    show ?thesis
      by (rule owner_inv_host [OF host(2) inv', where m = m])
        (use ok turn wake_due_turn [OF inv turn(2) ok] in \<open>auto simp: turn_ok_def word_le_nat_alt\<close>)
  qed
next
  case (render c r c' r' ts)
  then show ?case by (rule render_step_inv)
qed

lemma surface_initial: "owner_inv (surface_control_new, \<lambda>_. Outside NotCalled, render_new)"
  using control_initial by (simp add: owner_inv_def render_new_def binding_new_def known_leases_def pc_leases_def)

lemma surface_reachable:
  "surface_step\<^sup>*\<^sup>* (surface_control_new, \<lambda>_. Outside NotCalled, render_new) x \<Longrightarrow> owner_inv x"
  by (induction rule: rtranclp_induct) (use surface_initial surface_step_inv in auto)

text \<open>What the invariant excludes.\<close>

lemma host_calls_total:
  assumes "owner_inv (c, ts, r)" shows "control_turn spurious c (ts i) \<noteq> Panic"
proof -
  have "gate_ok (sc_gate c)" "pc_ok (sc_gate c) (ts i)" "unat (sc_latest_retired c) \<le> retired_upto (sc_gate c)"
    using assms by (simp_all add: owner_inv_def control_inv_def)
  then show ?thesis by (rule control_turn_ok [of c "ts i" spurious]) simp
qed

lemma release_fails_in_teardown:
  assumes inv: "owner_inv (c, ts, r)" and pc: "ro_pc r = RRelease g"
    and e: "snd (release_surface_binding (sc_gate c) (ro_binding r) g ok) = Inl e"
  shows "\<not> ok \<and> e = ReleaseTransaction TeardownFailed"
proof -
  obtain b x where x: "release_surface_binding (sc_gate c) (ro_binding r) g ok = (b, x)" by force
  have control: "control_inv (c, ts)" and "rb_pending (ro_binding r) = None" and level: "g \<le> sc_latest_retired c"
    and known: "\<forall>l \<in> set (known_leases r). token_ok (sc_gate c) (sl_liveness l)"
    using inv pc by (auto simp: owner_inv_def)
  from x this(2) show ?thesis
  proof (cases rule: release_cases)
    case (still_live l)
    have "token_ok (sc_gate c) (sl_liveness l)" using known still_live(3) by (simp add: known_leases_def)
    then show ?thesis using retired_not_live [OF control _ still_live(4) level] still_live(5) by simp
  qed (use x e in auto)
qed

lemma candidate_never_conflicts:
  assumes inv: "owner_inv (c, ts, r)" and pc: "ro_pc r = RCheckCurrent l first True"
    and e: "preflight (ro_binding r) l True (current_is_live c r) = Inl e"
  shows "e = StaleGeneration"
proof -
  have none: "rb_pending (ro_binding r) = None"
    and known: "\<forall>l \<in> set (known_leases r). token_ok (sc_gate c) (sl_liveness l)"
    using inv pc by (auto simp: owner_inv_def)
  have ok: "token_ok (sc_gate c) (sl_liveness l)" using known pc by (simp add: known_leases_def pc_leases_def)
  have "\<not> lease_is_live (sc_gate c) k" if "rb_current (ro_binding r) = Some k" "lease_generation k < lease_generation l" for k
    using older_not_live [OF _ ok that(2)] known that(1) by (simp add: known_leases_def lease_is_live_def)
  then show ?thesis
    using e none by (auto simp: preflight_def current_is_live_def binding_is_live_def not_less_iff_gr_or_eq
      split: if_splits option.splits)
qed

section \<open>Undisturbed calls\<close>

fun call_alone :: "nat \<Rightarrow> surface_control \<Rightarrow> control_pc \<Rightarrow> (surface_control \<times> control_pc) option" where
  "call_alone 0 c pc = Some (c, pc)"
| "call_alone (Suc n) c pc = do { (c, pc) \<leftarrow> control_turn False c pc; call_alone n c pc }"

lemma call_alone_steps:
  "call_alone n c pc = Some (c', pc') \<Longrightarrow> surface_step\<^sup>*\<^sup>* (c, ts(i := pc), r) (c', ts(i := pc'), r)"
proof (induction n arbitrary: c pc)
  case (Suc n)
  then obtain d q where d: "control_turn False c pc = Some (d, q)" "call_alone n d q = Some (c', pc')"
    by (auto split: bind_splits)
  have "surface_step (c, ts(i := pc), r) (d, ts(i := q), r)"
    using control_step.turn [of False c "ts(i := pc)" i d q] d(1) by (auto intro: surface_step.host)
  then show ?case using Suc.IH [OF d(2)] by (rule converse_rtranclp_into_rtranclp [of surface_step])
qed simp

lemma call_steps:
  assumes "ts i = Outside res" "call_ok call" "call_alone n c (call_entry call) = Some (c', pc')"
  shows "surface_step\<^sup>*\<^sup>* (c, ts, r) (c', ts(i := pc'), r)"
  using control_step.enter [of ts i res call c] assms(1,2) call_alone_steps [OF assms(3), of ts i r]
  by (auto intro: surface_step.host converse_rtranclp_into_rtranclp [of surface_step])

lemma render_steps_surface:
  "render_step\<^sup>*\<^sup>* (c, r) (c', r') \<Longrightarrow> surface_step\<^sup>*\<^sup>* (c, ts, r) (c', ts, r')"
proof (induction "(c', r')" arbitrary: c' r' rule: rtranclp_induct)
  case (step y)
  obtain d q where y: "y = (d, q)" by force
  have "surface_step (d, ts, q) (c', ts, r')" using step(2) y by (auto intro: surface_step.render)
  with step(3) [OF y] show ?case by (rule rtranclp.rtrancl_into_rtrancl [of surface_step])
qed simp

text \<open>A recreation of a live generation, with nobody in between, ends as the transaction function says.\<close>

lemma undisturbed_recreate:
  assumes "ro_pc r = RIdle" "token_ok (sc_gate c) (sl_liveness l)" "lease_is_live (sc_gate c) l"
    and run: "run_surface_recreate (ro_binding r) l True (current_is_live c r) install = Some (b, res)"
    and pre: "preflight (ro_binding r) l True (current_is_live c r) = Inr kind"
    and "egl \<subseteq> install_leaves (install kind) (lease_generation l) (ro_egl r)"
  shows "render_step\<^sup>*\<^sup>* (c, r) (c, r\<lparr> ro_binding := b, ro_pc := RIdle, ro_egl := egl \<rparr>)"
proof -
  let ?b = "(ro_binding r)\<lparr> rb_pending := Some l \<rparr>"
  have settled: "settle_recreate ?b (install kind) = Some b"
    using run pre by (auto simp: run_surface_recreate_def begin_recreate_def split: bind_splits)
  have live: "current_is_live c (r\<lparr> ro_pc := pc \<rparr>) = current_is_live c r" for pc by (simp add: current_is_live_def)
  have 1: "render_step (c, r) (c, r\<lparr> ro_pc := RCheck l True \<rparr>)" using assms by (intro candidate)
  have 2: "render_step (c, r\<lparr> ro_pc := RCheck l True \<rparr>) (c, r\<lparr> ro_pc := RCheckCurrent l True True \<rparr>)"
    using load_candidate [of "r\<lparr> ro_pc := RCheck l True \<rparr>" l True c] assms(3) by simp
  have 3: "render_step (c, r\<lparr> ro_pc := RCheckCurrent l True True \<rparr>) (c, r\<lparr> ro_pc := RCheck l False \<rparr>)"
    using prepared [of "r\<lparr> ro_pc := RCheckCurrent l True True \<rparr>" l True c kind] pre live by simp
  have 4: "render_step (c, r\<lparr> ro_pc := RCheck l False \<rparr>) (c, r\<lparr> ro_pc := RCheckCurrent l False True \<rparr>)"
    using load_candidate [of "r\<lparr> ro_pc := RCheck l False \<rparr>" l False c] assms(3) by simp
  have 5: "render_step (c, r\<lparr> ro_pc := RCheckCurrent l False True \<rparr>) (c, r\<lparr> ro_binding := ?b, ro_pc := RStaged \<rparr>)"
    using stage [of "r\<lparr> ro_pc := RCheckCurrent l False True \<rparr>" l True c ?b kind] pre live by (simp add: begin_recreate_def)
  have 6: "render_step (c, r\<lparr> ro_binding := ?b, ro_pc := RStaged \<rparr>) (c, r\<lparr> ro_binding := b, ro_pc := RIdle, ro_egl := egl \<rparr>)"
    using settle [of "r\<lparr> ro_binding := ?b, ro_pc := RStaged \<rparr>" l "install kind" b egl c] assms(6) settled by simp
  note next_step = rtranclp.rtrancl_into_rtrancl [of render_step]
  show ?thesis
    by (rule next_step [OF next_step [OF next_step [OF next_step [OF next_step
      [OF r_into_rtranclp [of render_step, OF 1] 2] 3] 4] 5] 6])
qed

section \<open>Properties\<close>


definition example_lease :: surface_lease where
  "example_lease = \<lparr> sl_liveness = \<lparr> lt_generation = 1, lt_expected_live_word = 3 \<rparr>, sl_resource = 0 \<rparr>"

definition listening :: surface_control where
  "listening = surface_control_new\<lparr> sc_render_wake := Some False \<rparr>"

text \<open>The listener is installed, a surface attached and bound by the render thread, and then retired.\<close>

lemma example_bound:
  "surface_step\<^sup>*\<^sup>* (surface_control_new, \<lambda>_. Outside NotCalled, render_new)
     (listening\<lparr> sc_gate := 3 \<rparr>, (\<lambda>_. Outside NotCalled)(0 := Outside (Attached (sl_liveness example_lease))),
      render_new\<lparr> ro_binding := \<lparr> rb_current = Some example_lease, rb_pending = None \<rparr>, ro_egl := {1} \<rparr>)"
proof -
  let ?n = "\<lambda>_ :: nat. Outside NotCalled" and ?t = "sl_liveness example_lease" and ?d = "listening\<lparr> sc_gate := 3 \<rparr>"
  have install: "call_alone 2 surface_control_new (call_entry CallInstall) = Some (listening, Outside (InstallResult True))"
    and attach: "call_alone 4 listening (call_entry CallAttach) = Some (?d, Outside (Attached ?t))"
    by (code_simp, code_simp)
  have "surface_step\<^sup>*\<^sup>* (surface_control_new, ?n, render_new) (listening, ?n(0 := Outside (InstallResult True)), render_new)"
    by (rule call_steps [OF _ _ install]) auto
  also have "surface_step\<^sup>*\<^sup>* \<dots> (?d, ?n(0 := Outside (Attached ?t)), render_new)"
    using call_steps [where ts = "?n(0 := Outside (InstallResult True))" and i = 0, OF _ _ attach, of "InstallResult True"]
    by simp
  also have "surface_step\<^sup>*\<^sup>* \<dots> (?d, ?n(0 := Outside (Attached ?t)),
      render_new\<lparr> ro_binding := \<lparr> rb_current = Some example_lease, rb_pending = None \<rparr>, ro_pc := RIdle, ro_egl := {1} \<rparr>)"
  proof (rule render_steps_surface [OF undisturbed_recreate [where l = example_lease and install = "\<lambda>_. Installed" and kind = Initial]])
    show "run_surface_recreate (ro_binding render_new) example_lease True (current_is_live ?d render_new) (\<lambda>_. Installed) =
        Some (\<lparr> rb_current = Some example_lease, rb_pending = None \<rparr>, Inr Initial)"
      by (simp add: run_surface_recreate_def begin_recreate_def preflight_def render_new_def binding_new_def
          settle_recreate_def recreate_commit_def)
  qed (simp_all add: render_new_def binding_new_def preflight_def example_lease_def token_ok_def live_def generation_of_def
      lease_is_live_def token_is_live_def)
  finally show ?thesis by (simp add: render_new_def)
qed


text \<open>
  C15. In every interleaving no host call panics, and neither does the render thread when
  it settles a recreation. A surface EGL may still refer to is never given back: its
  generation's lease is bound, or was forgotten on purpose. A release asked for through
  the level never meets a live generation or an open recreation, so it can only fail in
  the teardown itself; and a candidate that was live never conflicts with a live binding.
\<close>

theorem surface_ownership_safe:
  assumes "surface_step\<^sup>*\<^sup>* (surface_control_new, \<lambda>_. Outside NotCalled, render_new) (c, ts, r)"
  shows "(\<forall>i spurious. control_turn spurious c (ts i) \<noteq> Panic) \<and>
    (\<forall>g \<in> ro_egl r. (\<exists>l. rb_current (ro_binding r) = Some l \<and> lease_generation l = g) \<or>
       (\<exists>l \<in> set (ro_quarantined r). lease_generation l = g)) \<and>
    (\<forall>outcome. ro_pc r = RStaged \<longrightarrow> settle_recreate (ro_binding r) outcome \<noteq> Panic) \<and>
    (\<forall>g ok e. ro_pc r = RRelease g \<and> snd (release_surface_binding (sc_gate c) (ro_binding r) g ok) = Inl e \<longrightarrow>
       \<not> ok \<and> e = ReleaseTransaction TeardownFailed) \<and>
    (\<forall>l first e. ro_pc r = RCheckCurrent l first True \<and>
       preflight (ro_binding r) l True (current_is_live c r) = Inl e \<longrightarrow> e = StaleGeneration)"
proof -
  note inv = surface_reachable [OF assms]
  have "\<forall>outcome. ro_pc r = RStaged \<longrightarrow> settle_recreate (ro_binding r) outcome \<noteq> Panic"
    using inv by (auto simp: owner_inv_def settle_recreate_def recreate_commit_def
        split: install_outcome.splits candidate_lease_disposition.splits)
  moreover have "\<forall>g \<in> ro_egl r. (\<exists>l. rb_current (ro_binding r) = Some l \<and> lease_generation l = g) \<or>
       (\<exists>l \<in> set (ro_quarantined r). lease_generation l = g)"
    using inv by (simp add: owner_inv_def)
  ultimately show ?thesis
    using host_calls_total [OF inv] release_fails_in_teardown [OF inv] candidate_never_conflicts [OF inv] by blast
qed

theorem surface_ownership_safe_witness:
  "\<exists>c ts r. surface_step\<^sup>*\<^sup>* (surface_control_new, \<lambda>_. Outside NotCalled, render_new) (c, ts, r) \<and> ro_egl r = {1} \<and>
     (\<exists>l. rb_current (ro_binding r) = Some l \<and> lease_generation l = 1) \<and> (\<forall>i spurious. control_turn spurious c (ts i) \<noteq> Panic)"
proof -
  let ?r = "render_new\<lparr> ro_binding := \<lparr> rb_current = Some example_lease, rb_pending = None \<rparr>, ro_egl := {1} \<rparr>"
  have "ro_egl ?r = {1}" "ro_quarantined ?r = []" by (simp_all add: render_new_def)
  with surface_ownership_safe [OF example_bound] example_bound show ?thesis by (metis empty_iff insertI1 list.set(1))
qed

end
