(* ===== verification/Surface_Release.thy ===== *)
theory Surface_Release
  imports Prelude
begin

text \<open>
  The lifetime of a native surface (\<open>shared/src/surface/attachment.rs\<close>): leases are
  counted references to a resource; the last one to go destroys the native anchor, takes
  the release off the session's count and then publishes that it is released. A release
  is registered beforehand by a transaction that can be rolled back. Resources are
  numbered; the stages of a final drop are separate turns, since others look at the count
  and at the phase meanwhile.
\<close>

section \<open>Resources and their release\<close>

datatype surface_release_phase = Pending | PhaseReleased

datatype drop_stage = Held | Dropping | AnchorGone | CountTaken bool | Published bool | DropDone

record surface_resource =
  sr_native_anchor :: bool
  sr_public_generation :: u64
  sr_internal_generation :: u64
  sr_strong :: nat
  sr_registration :: "bool option"
  sr_phase :: surface_release_phase
  sr_drop :: drop_stage

record release_table =
  rt_resources :: "surface_resource list"
  rt_pending_count :: nat
  rt_notified :: "u64 list"

definition set_resource :: "nat \<Rightarrow> surface_resource \<Rightarrow> release_table \<Rightarrow> release_table" where
  "set_resource i r t = t\<lparr> rt_resources := (rt_resources t)[i := r] \<rparr>"

definition resource_lease_new :: "u64 \<Rightarrow> u64 \<Rightarrow> release_table \<Rightarrow> release_table \<times> nat" where
  "resource_lease_new public_generation internal_generation t =
     (t\<lparr> rt_resources := rt_resources t @ [\<lparr> sr_native_anchor = True, sr_public_generation = public_generation,
         sr_internal_generation = internal_generation, sr_strong = 1, sr_registration = None, sr_phase = Pending, sr_drop = Held \<rparr>] \<rparr>,
      length (rt_resources t))"

text \<open>Only somebody who holds a lease can clone or drop one.\<close>

definition lease_clone :: "nat \<Rightarrow> release_table \<Rightarrow> release_table option" where
  "lease_clone i t = do {
     r \<leftarrow> idx (rt_resources t) i;
     if sr_strong r = 0 then Panic else Some (set_resource i (r\<lparr> sr_strong := sr_strong r + 1 \<rparr>) t) }"

definition lease_drop :: "nat \<Rightarrow> release_table \<Rightarrow> release_table option" where
  "lease_drop i t = do {
     r \<leftarrow> idx (rt_resources t) i;
     if sr_strong r = 0 then Panic
     else Some (set_resource i (r\<lparr> sr_strong := sr_strong r - 1,
                                   sr_drop := (if sr_strong r = 1 then Dropping else sr_drop r) \<rparr>) t) }"

text \<open>The turns of the last drop: the anchor, then \<open>complete\<close> with the count, the phase and the notification.\<close>

definition drop_anchor :: "surface_resource \<Rightarrow> surface_resource" where
  "drop_anchor r = r\<lparr> sr_native_anchor := False, sr_drop := AnchorGone \<rparr>"

definition complete_turn :: "nat \<Rightarrow> surface_resource \<Rightarrow> release_table \<Rightarrow> release_table option" where
  "complete_turn i r t = (case sr_drop r of
     AnchorGone \<Rightarrow> (case sr_registration r of
         None \<Rightarrow> Some (set_resource i (r\<lparr> sr_drop := CountTaken False \<rparr>) t)
       | Some notification \<Rightarrow>
           if rt_pending_count t = 0 then Panic
           else Some (set_resource i (r\<lparr> sr_registration := None, sr_drop := CountTaken notification \<rparr>)
                        (t\<lparr> rt_pending_count := rt_pending_count t - 1 \<rparr>)))
   | CountTaken notification \<Rightarrow> Some (set_resource i (r\<lparr> sr_phase := PhaseReleased, sr_drop := Published notification \<rparr>) t)
   | Published notification \<Rightarrow>
       Some (set_resource i (r\<lparr> sr_drop := DropDone \<rparr>)
         (if notification then t\<lparr> rt_notified := rt_notified t @ [sr_public_generation r] \<rparr> else t))
   | _ \<Rightarrow> Some t)"

definition drop_turn :: "nat \<Rightarrow> release_table \<Rightarrow> release_table option" where
  "drop_turn i t = do {
     r \<leftarrow> idx (rt_resources t) i;
     if sr_drop r = Dropping then Some (set_resource i (drop_anchor r) t) else complete_turn i r t }"

datatype release_registration_error = AlreadyRegistered | PendingCountExhausted

definition prepare_release :: "nat \<Rightarrow> bool \<Rightarrow> release_table \<Rightarrow> (release_registration_error, release_table) rust_result" where
  "prepare_release i notification t = do {
     r \<leftarrow> idx (rt_resources t) i;
     if sr_registration r \<noteq> None then Err AlreadyRegistered
     else case usize_checked_add (rt_pending_count t) 1 of
       None \<Rightarrow> Err PendingCountExhausted
     | Some n \<Rightarrow> Ok (set_resource i (r\<lparr> sr_registration := Some notification, sr_strong := sr_strong r + 1 \<rparr>)
                       (t\<lparr> rt_pending_count := n \<rparr>)) }"

text \<open>Committing gives the transaction's own lease back; a transaction that is dropped also withdraws the registration.\<close>

definition release_commit :: "nat \<Rightarrow> release_table \<Rightarrow> release_table option" where
  "release_commit i t = lease_drop i t"

definition release_rollback :: "nat \<Rightarrow> release_table \<Rightarrow> release_table option" where
  "release_rollback i t = do {
     r \<leftarrow> idx (rt_resources t) i;
     t \<leftarrow> (case sr_registration r of
         None \<Rightarrow> Some t
       | Some notification \<Rightarrow>
           if rt_pending_count t = 0 then Panic
           else Some (set_resource i (r\<lparr> sr_registration := None \<rparr>) (t\<lparr> rt_pending_count := rt_pending_count t - 1 \<rparr>)));
     lease_drop i t }"

definition observer_phase :: "nat \<Rightarrow> release_table \<Rightarrow> surface_release_phase option" where
  "observer_phase i t = map_option sr_phase (idx (rt_resources t) i)"

section \<open>The invariant\<close>

definition dropped :: "drop_stage \<Rightarrow> bool" where
  "dropped d \<longleftrightarrow> (case d of Held \<Rightarrow> False | _ \<Rightarrow> True)"

definition resource_ok :: "surface_resource \<Rightarrow> bool" where
  "resource_ok r \<longleftrightarrow> (sr_strong r = 0 \<longleftrightarrow> dropped (sr_drop r)) \<and>
     (sr_native_anchor r \<longleftrightarrow> sr_drop r = Held \<or> sr_drop r = Dropping) \<and>
     (sr_phase r = PhaseReleased \<longleftrightarrow> sr_drop r = DropDone \<or> (\<exists>n. sr_drop r = Published n)) \<and>
     (sr_registration r \<noteq> None \<longrightarrow> sr_drop r = Held \<or> sr_drop r = Dropping \<or> sr_drop r = AnchorGone)"

definition registered :: "surface_resource list \<Rightarrow> nat" where
  "registered rs = length (filter (\<lambda>r. sr_registration r \<noteq> None) rs)"

definition release_inv :: "release_table \<Rightarrow> bool" where
  "release_inv t \<longleftrightarrow> list_all resource_ok (rt_resources t) \<and> rt_pending_count t = registered (rt_resources t) \<and>
     rt_pending_count t \<le> usize_max"

lemma registered_update:
  "i < length rs \<Longrightarrow>
   registered (rs[i := r]) + (if sr_registration (rs ! i) \<noteq> None then 1 else 0) =
   registered rs + (if sr_registration r \<noteq> None then 1 else 0)"
proof (induction rs arbitrary: i)
  case (Cons x rs)
  then show ?case by (cases i) (auto simp: registered_def)
qed simp

lemma registered_pos: "i < length rs \<Longrightarrow> sr_registration (rs ! i) \<noteq> None \<Longrightarrow> 0 < registered rs"
  by (auto simp: registered_def filter_empty_conv intro!: bexI [of _ "rs ! i"])

lemma list_all_set_resource:
  "list_all P rs \<Longrightarrow> P r \<Longrightarrow> list_all P (rs[i := r])"
  by (auto simp: list_all_iff dest: set_update_subset_insert [THEN subsetD])

text \<open>Replacing one resource by another sound one, with the count moved by what its registration did.\<close>

lemma set_resource_inv:
  assumes "release_inv t" "i < length (rt_resources t)" "resource_ok r" "n \<le> usize_max"
    and "n + (if sr_registration (rt_resources t ! i) \<noteq> None then 1 else 0) =
         rt_pending_count t + (if sr_registration r \<noteq> None then 1 else 0)"
  shows "release_inv (set_resource i r (t\<lparr> rt_pending_count := n, rt_notified := l \<rparr>))"
  using assms registered_update [of i "rt_resources t" r]
  by (auto simp: release_inv_def set_resource_def intro: list_all_set_resource split: if_splits)

lemma set_resource_inv_same:
  assumes "release_inv t" "i < length (rt_resources t)" "resource_ok r"
    and "sr_registration r = sr_registration (rt_resources t ! i)"
  shows "release_inv (set_resource i r t)"
  using assms set_resource_inv [of t i r "rt_pending_count t" "rt_notified t"]
  by (cases t) (auto simp: release_inv_def)

lemma resource_at: "release_inv t \<Longrightarrow> i < length (rt_resources t) \<Longrightarrow> resource_ok (rt_resources t ! i)"
  by (simp add: release_inv_def list_all_length)

lemma set_resource_simps [simp]:
  "length (rt_resources (set_resource i r t)) = length (rt_resources t)"
  "rt_pending_count (set_resource i r t) = rt_pending_count t" "rt_notified (set_resource i r t) = rt_notified t"
  "k < length (rt_resources t) \<Longrightarrow> rt_resources (set_resource i r t) ! k = (if k = i then r else rt_resources t ! k)"
  by (auto simp: set_resource_def nth_list_update)

text \<open>
  Each operation keeps the invariant. Seen from a resource: its references change by what
  was cloned or dropped, and a release that has begun stays begun.
\<close>

definition release_begun :: "surface_resource \<Rightarrow> bool" where
  "release_begun r \<longleftrightarrow> sr_registration r \<noteq> None \<or> (case sr_drop r of Held \<Rightarrow> False | Dropping \<Rightarrow> False | AnchorGone \<Rightarrow> False | _ \<Rightarrow> True)"

lemma lease_clone_inv:
  assumes "release_inv t" "lease_clone i t = Some t'"
  obtains r where "i < length (rt_resources t)" "r = rt_resources t ! i" "t' = set_resource i (r\<lparr> sr_strong := sr_strong r + 1 \<rparr>) t"
    "release_inv t'"
proof -
  let ?r = "rt_resources t ! i"
  have i: "i < length (rt_resources t)" and s: "sr_strong ?r \<noteq> 0"
    and t': "t' = set_resource i (?r\<lparr> sr_strong := sr_strong ?r + 1 \<rparr>) t"
    using assms(2) by (auto simp: lease_clone_def idx_def split: if_splits)
  have "release_inv t'"
    unfolding t' using assms(1) i s resource_at [OF assms(1) i] by (intro set_resource_inv_same) (auto simp: resource_ok_def)
  then show ?thesis using that i t' by blast
qed

lemma lease_drop_inv:
  assumes "release_inv t" "lease_drop i t = Some t'"
  obtains r where "i < length (rt_resources t)" "r = rt_resources t ! i" "sr_strong r \<noteq> 0"
    "t' = set_resource i (r\<lparr> sr_strong := sr_strong r - 1, sr_drop := (if sr_strong r = 1 then Dropping else sr_drop r) \<rparr>) t"
    "release_inv t'"
proof -
  let ?r = "rt_resources t ! i"
  have i: "i < length (rt_resources t)" and s: "sr_strong ?r \<noteq> 0"
    and t': "t' = set_resource i (?r\<lparr> sr_strong := sr_strong ?r - 1, sr_drop := (if sr_strong ?r = 1 then Dropping else sr_drop ?r) \<rparr>) t"
    using assms(2) by (auto simp: lease_drop_def idx_def split: if_splits)
  have "release_inv t'"
    unfolding t' using assms(1) i s resource_at [OF assms(1) i]
    by (intro set_resource_inv_same) (auto simp: resource_ok_def dropped_def split: drop_stage.splits)
  then show ?thesis using that i s t' by blast
qed

lemma prepare_release_inv:
  assumes "release_inv t" "prepare_release i n t = Ok t'"
  obtains r where "i < length (rt_resources t)" "r = rt_resources t ! i" "sr_registration r = None"
    "rt_resources t' = (rt_resources t)[i := r\<lparr> sr_registration := Some n, sr_strong := sr_strong r + 1 \<rparr>]"
    "sr_strong r \<noteq> 0 \<longrightarrow> release_inv t'"
proof -
  let ?r = "rt_resources t ! i" and ?c = "rt_pending_count t + 1"
  let ?q = "?r\<lparr> sr_registration := Some n, sr_strong := sr_strong ?r + 1 \<rparr>"
  have i: "i < length (rt_resources t)" and none: "sr_registration ?r = None" and c: "?c \<le> usize_max"
    and t': "t' = set_resource i ?q (t\<lparr> rt_pending_count := ?c \<rparr>)"
    using assms(2) by (auto simp: prepare_release_def idx_def usize_checked_add_def split: if_splits option.splits)
  have "release_inv t'" if "sr_strong ?r \<noteq> 0"
    unfolding t' using set_resource_inv [OF assms(1) i _ c, of ?q "rt_notified t"] that none resource_at [OF assms(1) i]
    by (cases t) (auto simp: resource_ok_def dropped_def split: drop_stage.splits)
  then show ?thesis using that i none t' by (simp add: set_resource_def)
qed

lemma drop_turn_inv:
  assumes "release_inv t" "drop_turn i t = Some t'"
  obtains r r' where "i < length (rt_resources t)" "r = rt_resources t ! i" "rt_resources t' = (rt_resources t)[i := r']"
    "sr_strong r' = sr_strong r" "sr_registration r' = None \<or> sr_registration r' = sr_registration r"
    "release_begun r \<longrightarrow> release_begun r'" "rt_pending_count t' \<le> rt_pending_count t" "release_inv t'"
proof -
  let ?r = "rt_resources t ! i"
  have i: "i < length (rt_resources t)" using assms(2) by (auto simp: drop_turn_def idx_def split: if_splits)
  note ok = resource_at [OF assms(1) i]
  show ?thesis
  proof (cases "sr_drop ?r")
    case Held
    then show ?thesis using assms i by (intro that [of ?r ?r]) (auto simp: drop_turn_def complete_turn_def)
  next
    case Dropping
    then have t': "t' = set_resource i (drop_anchor ?r) t" using assms(2) i by (simp add: drop_turn_def)
    show ?thesis
      by (rule that [of ?r "drop_anchor ?r"])
        (use i ok Dropping assms(1) in \<open>auto simp: t' set_resource_def drop_anchor_def release_begun_def resource_ok_def dropped_def
          intro!: set_resource_inv_same [unfolded set_resource_def]\<close>)
  next
    case AnchorGone
    show ?thesis
    proof (cases "sr_registration ?r")
      case None
      then have t': "t' = set_resource i (?r\<lparr> sr_drop := CountTaken False \<rparr>) t"
        using assms(2) i AnchorGone by (simp add: drop_turn_def complete_turn_def)
      show ?thesis
        by (rule that [of ?r "?r\<lparr> sr_drop := CountTaken False \<rparr>"])
          (use i ok None AnchorGone assms(1) in \<open>auto simp: t' set_resource_def release_begun_def resource_ok_def dropped_def
            intro!: set_resource_inv_same [unfolded set_resource_def]\<close>)
    next
      case (Some n)
      let ?q = "?r\<lparr> sr_registration := None, sr_drop := CountTaken n \<rparr>"
      have pos: "rt_pending_count t \<noteq> 0" and t': "t' = set_resource i ?q (t\<lparr> rt_pending_count := rt_pending_count t - 1 \<rparr>)"
        using assms(2) i AnchorGone Some by (auto simp: drop_turn_def complete_turn_def split: if_splits)
      have "release_inv t'"
        unfolding t' using set_resource_inv [OF assms(1) i, of ?q "rt_pending_count t - 1" "rt_notified t"] pos Some ok AnchorGone assms(1)
        by (cases t) (auto simp: resource_ok_def dropped_def release_inv_def)
      then show ?thesis
        by (intro that [of ?r ?q]) (use i in \<open>auto simp: t' set_resource_def release_begun_def\<close>)
    qed
  next
    case (CountTaken n)
    then have t': "t' = set_resource i (?r\<lparr> sr_phase := PhaseReleased, sr_drop := Published n \<rparr>) t"
      using assms(2) i by (simp add: drop_turn_def complete_turn_def)
    show ?thesis
      by (rule that [of ?r "?r\<lparr> sr_phase := PhaseReleased, sr_drop := Published n \<rparr>"])
        (use i ok CountTaken assms(1) in \<open>auto simp: t' set_resource_def release_begun_def resource_ok_def dropped_def
          intro!: set_resource_inv_same [unfolded set_resource_def]\<close>)
  next
    case (Published n)
    let ?q = "?r\<lparr> sr_drop := DropDone \<rparr>"
    let ?l = "if n then rt_notified t @ [sr_public_generation ?r] else rt_notified t"
    have t': "t' = set_resource i ?q (t\<lparr> rt_pending_count := rt_pending_count t, rt_notified := ?l \<rparr>)"
      using assms(2) i Published by (cases t) (auto simp: drop_turn_def complete_turn_def)
    have "release_inv t'"
      unfolding t' by (rule set_resource_inv [OF assms(1) i])
        (use ok Published assms(1) in \<open>auto simp: resource_ok_def dropped_def release_inv_def\<close>)
    then show ?thesis
      by (intro that [of ?r ?q]) (use i Published in \<open>auto simp: t' set_resource_def release_begun_def\<close>)
  next
    case DropDone
    then show ?thesis using assms i by (intro that [of ?r ?r]) (auto simp: drop_turn_def complete_turn_def)
  qed
qed

text \<open>The turns of a final drop never panic, and lead to the published phase.\<close>

lemma drop_turn_total:
  assumes "release_inv t" "i < length (rt_resources t)" shows "drop_turn i t \<noteq> Panic"
  using registered_pos [OF assms(2)] assms
  by (auto simp: drop_turn_def complete_turn_def release_inv_def split: drop_stage.splits option.splits)

end
