(* ===== verification/Abi_Codes.thy ===== *)
theory Abi_Codes
  imports Prelude
begin

text \<open>The result codes of the C interface (\<open>capi-abi/src/lib.rs\<close>).\<close>

abbreviation (input) MIGO_OK :: int where "MIGO_OK \<equiv> 0"
abbreviation (input) MIGO_ERROR_INVALID_ARGUMENT :: int where "MIGO_ERROR_INVALID_ARGUMENT \<equiv> - 1"
abbreviation (input) MIGO_ERROR_UNSUPPORTED_ABI :: int where "MIGO_ERROR_UNSUPPORTED_ABI \<equiv> - 2"
abbreviation (input) MIGO_ERROR_INVALID_STATE :: int where "MIGO_ERROR_INVALID_STATE \<equiv> - 5"
abbreviation (input) MIGO_ERROR_STALE_SURFACE :: int where "MIGO_ERROR_STALE_SURFACE \<equiv> - 7"
abbreviation (input) MIGO_ERROR_INTERNAL :: int where "MIGO_ERROR_INTERNAL \<equiv> - 11"

end
