(* ===== verification/Surface_Session.thy ===== *)
theory Surface_Session
  imports Surface_Release Abi_Codes
begin

text \<open>
  The surface of a session behind the C interface (\<open>capi/src/surface.rs\<close>, the session of
  \<open>capi/src/lib.rs\<close>): attach, update, detach, an unexpected loss, and destruction. Each
  call takes the session's lock for short sections and lets go of it around the work of
  the platform and the engine; the sections are the steps here, so the calls of several
  threads interleave as they can. The work in between is given by its outcome.
\<close>

section \<open>State\<close>

datatype surface_transition = Idle | Attaching | Updating | Detaching

record surface_attachment =
  at_identity :: nat
  at_public_generation :: u64
  at_resource :: nat
  at_size :: "u32 \<times> u32"
  at_lost :: bool

text \<open>
  \<open>ss_others\<close> counts the leases held outside the session: by the engine, and by a
  detaching call until it lets its attachment go. \<open>ss_attached\<close> and \<open>ss_lost_reports\<close> record
  the resources that were ever attached and the losses reported to the host.
\<close>

record surface_session =
  ss_active_attachment :: "surface_attachment option"
  ss_last_public_generation :: u64
  ss_transition :: surface_transition
  ss_transition_generation :: "u64 option"
  ss_pending_loss :: "(u64 \<times> u32) option"
  ss_host :: bool
  ss_platform_identity :: "u64 option"
  ss_platform_context :: bool
  ss_callbacks_frozen :: bool
  ss_active_surface_generation :: u64
  ss_open :: bool
  ss_table :: release_table
  ss_others :: "nat \<Rightarrow> nat"
  ss_attached :: "nat list"
  ss_lost_reports :: "(u64 \<times> u32) list"

definition session_new :: surface_session where
  "session_new = \<lparr> ss_active_attachment = None, ss_last_public_generation = 0, ss_transition = Idle,
     ss_transition_generation = None, ss_pending_loss = None, ss_host = False, ss_platform_identity = None,
     ss_platform_context = False, ss_callbacks_frozen = False, ss_active_surface_generation = 0, ss_open = True,
     ss_table = \<lparr> rt_resources = [], rt_pending_count = 0, rt_notified = [] \<rparr>, ss_others = (\<lambda>_. 0),
     ss_attached = [], ss_lost_reports = [] \<rparr>"

section \<open>Checks\<close>

definition validate_attach_generation :: "u64 \<Rightarrow> u64 \<Rightarrow> int + u64" where
  "validate_attach_generation candidate last_accepted =
     (if candidate = 0 then Inl MIGO_ERROR_INVALID_ARGUMENT
      else if candidate \<le> last_accepted then Inl MIGO_ERROR_STALE_SURFACE
      else Inr candidate)"

definition validate_update_generation :: "u64 \<Rightarrow> u64 \<Rightarrow> int + unit" where
  "validate_update_generation candidate active =
     (if candidate = 0 \<or> active = 0 \<or> candidate > active then Inl MIGO_ERROR_INVALID_ARGUMENT
      else if candidate < active then Inl MIGO_ERROR_STALE_SURFACE
      else Inr ())"

definition platform_state_is_consistent :: "bool \<Rightarrow> bool \<Rightarrow> bool \<Rightarrow> bool" where
  "platform_state_is_consistent host_present identity_present context_present \<longleftrightarrow>
     host_present = identity_present \<and> identity_present = context_present"

definition session_consistent :: "surface_session \<Rightarrow> bool" where
  "session_consistent s \<longleftrightarrow> platform_state_is_consistent (ss_host s) (ss_platform_identity s \<noteq> None) (ss_platform_context s)"

definition validate_platform_identity :: "bool \<Rightarrow> u64 option \<Rightarrow> u64 \<Rightarrow> int + unit" where
  "validate_platform_identity existing_host existing_identity candidate =
     (case (existing_host, existing_identity) of
        (False, None) \<Rightarrow> Inr ()
      | (True, Some identity) \<Rightarrow> if identity = candidate then Inr () else Inl MIGO_ERROR_INVALID_STATE
      | _ \<Rightarrow> Inl MIGO_ERROR_INTERNAL)"

section \<open>Losses\<close>

definition report_loss :: "u64 \<times> u32 \<Rightarrow> surface_session \<Rightarrow> surface_session" where
  "report_loss loss s = s\<lparr> ss_lost_reports := ss_lost_reports s @ [loss] \<rparr>"

definition consume_pending_surface_loss :: "surface_session \<Rightarrow> surface_session \<times> (u64 \<times> u32) option" where
  "consume_pending_surface_loss s = (case ss_pending_loss s of
     None \<Rightarrow> (s, None)
   | Some loss \<Rightarrow>
       let s = s\<lparr> ss_pending_loss := None \<rparr> in
       case ss_active_attachment s of
         None \<Rightarrow> (s, None)
       | Some active \<Rightarrow>
           if at_public_generation active \<noteq> fst loss \<or> at_lost active then (s, None)
           else (s\<lparr> ss_active_attachment := Some (active\<lparr> at_lost := True \<rparr>), ss_active_surface_generation := 0 \<rparr>, Some loss))"

definition end_transition :: "surface_session \<Rightarrow> surface_session" where
  "end_transition s = s\<lparr> ss_transition_generation := None, ss_transition := Idle \<rparr>"

definition notify_loss :: "surface_session \<times> (u64 \<times> u32) option \<Rightarrow> surface_session" where
  "notify_loss = (\<lambda>(s, loss). case loss of None \<Rightarrow> s | Some l \<Rightarrow> report_loss l s)"

definition rollback_surface_transition :: "surface_session \<Rightarrow> surface_session" where
  "rollback_surface_transition s =
     (case consume_pending_surface_loss s of (s, deferred) \<Rightarrow> notify_loss (end_transition s, deferred))"

definition mark_surface_lost :: "u64 \<Rightarrow> u32 \<Rightarrow> surface_session \<Rightarrow> surface_session \<times> bool" where
  "mark_surface_lost public_generation reason s = (case ss_transition s of
     Detaching \<Rightarrow> (s, False)
   | Idle \<Rightarrow> (case ss_active_attachment s of
         None \<Rightarrow> (s, False)
       | Some active \<Rightarrow>
           if at_public_generation active \<noteq> public_generation \<or> at_lost active then (s, False)
           else if ss_active_surface_generation s = public_generation
             then (s\<lparr> ss_active_surface_generation := 0, ss_active_attachment := Some (active\<lparr> at_lost := True \<rparr>) \<rparr>, True)
             else (s, False))
   | _ \<Rightarrow>
       if ss_transition_generation s \<noteq> Some public_generation then (s, False)
       else if ss_pending_loss s = None then (s\<lparr> ss_pending_loss := Some (public_generation, reason) \<rparr>, False)
       else (s, False))"

definition surface_lost :: "u64 \<Rightarrow> u32 \<Rightarrow> surface_session \<Rightarrow> surface_session" where
  "surface_lost public_generation reason s =
     (case mark_surface_lost public_generation reason s of (s, marked) \<Rightarrow>
        if marked then report_loss (public_generation, reason) s else s)"

section \<open>Attach\<close>

definition attach_reserve :: "u64 \<Rightarrow> surface_session \<Rightarrow> int + surface_session" where
  "attach_reserve public_generation s =
     (if \<not> ss_open s then Inl MIGO_ERROR_INVALID_STATE
      else if ss_transition s \<noteq> Idle \<or> ss_active_attachment s \<noteq> None then Inl MIGO_ERROR_INVALID_STATE
      else case validate_attach_generation public_generation (ss_last_public_generation s) of
        Inl e \<Rightarrow> Inl e
      | Inr _ \<Rightarrow>
          if \<not> session_consistent s then Inl MIGO_ERROR_INTERNAL
          else Inr (s\<lparr> ss_transition := Attaching, ss_transition_generation := Some public_generation,
                       ss_callbacks_frozen := True \<rparr>))"

text \<open>
  The work of an attachment: the target's platform identity, or an error of the platform;
  then either an error of the host (leasing, sending, starting it), or a lease of an
  internal generation that the engine got and of which the call keeps a clone. A missing
  launch nonce, in a build for external frames, returns at once.
\<close>

datatype attach_work = BuildFailed int | BuildDone u64 host_work
  and host_work = HostFailed int | NonceMissing | HostLease u64

text \<open>Taking a fresh resource: one lease goes to the engine, one stays with the call.\<close>

definition lease_for_attach :: "u64 \<Rightarrow> u64 \<Rightarrow> surface_session \<Rightarrow> surface_session \<times> nat" where
  "lease_for_attach public_generation internal_generation s =
     (case resource_lease_new public_generation internal_generation (ss_table s) of (t, i) \<Rightarrow>
        (s\<lparr> ss_table := (case lease_clone i t of None \<Rightarrow> t | Some t \<Rightarrow> t), ss_others := (ss_others s)(i := 1) \<rparr>, i))"

definition attach_commit :: "u64 \<Rightarrow> nat \<Rightarrow> u64 \<Rightarrow> u32 \<times> u32 \<Rightarrow> nat \<Rightarrow> surface_session \<Rightarrow> surface_session" where
  "attach_commit public_generation identity platform size_px resource s =
     (let s = (if \<not> ss_host s then s\<lparr> ss_host := True, ss_platform_identity := Some platform, ss_platform_context := True \<rparr> else s);
          s = s\<lparr> ss_active_attachment := Some \<lparr> at_identity = identity, at_public_generation = public_generation,
                   at_resource = resource, at_size = size_px, at_lost = False \<rparr>,
                 ss_last_public_generation := public_generation, ss_attached := ss_attached s @ [resource] \<rparr>
      in case consume_pending_surface_loss s of (s, deferred) \<Rightarrow>
        notify_loss (end_transition
          (if deferred = None then s\<lparr> ss_active_surface_generation := public_generation \<rparr> else s), deferred))"

section \<open>Update\<close>

definition update_reserve :: "nat \<Rightarrow> u64 \<Rightarrow> surface_session \<Rightarrow> int + surface_session" where
  "update_reserve attachment metrics_generation s =
     (if \<not> ss_open s then Inl MIGO_ERROR_INVALID_STATE
      else if ss_transition s \<noteq> Idle then Inl MIGO_ERROR_INVALID_STATE
      else case ss_active_attachment s of
        None \<Rightarrow> Inl MIGO_ERROR_STALE_SURFACE
      | Some active \<Rightarrow>
          if at_identity active \<noteq> attachment then Inl MIGO_ERROR_STALE_SURFACE
          else if at_lost active then Inl MIGO_ERROR_STALE_SURFACE
          else case validate_update_generation metrics_generation (at_public_generation active) of
            Inl e \<Rightarrow> Inl e
          | Inr _ \<Rightarrow>
              if \<not> ss_host s then Inl MIGO_ERROR_INVALID_STATE
              else Inr (s\<lparr> ss_transition := Updating, ss_transition_generation := Some (at_public_generation active) \<rparr>))"

definition update_commit :: "u32 \<times> u32 \<Rightarrow> surface_session \<Rightarrow> surface_session option" where
  "update_commit size_px s = (case ss_active_attachment s of
     None \<Rightarrow> Panic
   | Some active \<Rightarrow>
       (case consume_pending_surface_loss (s\<lparr> ss_active_attachment := Some (active\<lparr> at_size := size_px \<rparr>) \<rparr>) of
          (s, deferred) \<Rightarrow> Some (notify_loss (end_transition s, deferred))))"

section \<open>Detach and destroy\<close>

definition detach_reserve :: "nat \<Rightarrow> bool \<Rightarrow> surface_session \<Rightarrow> (int, surface_session \<times> nat) rust_result" where
  "detach_reserve attachment notification s =
     (if \<not> ss_open s then Err MIGO_ERROR_INVALID_STATE
      else if ss_transition s \<noteq> Idle then Err MIGO_ERROR_INVALID_STATE
      else case ss_active_attachment s of
        None \<Rightarrow> Err MIGO_ERROR_STALE_SURFACE
      | Some active \<Rightarrow>
          if at_identity active \<noteq> attachment then Err MIGO_ERROR_STALE_SURFACE
          else if \<not> ss_host s then Err MIGO_ERROR_INVALID_STATE
          else do {
            prepared \<leftarrow> prepare_release (at_resource active) notification (ss_table s);
            case prepared of
              Inl _ \<Rightarrow> Err MIGO_ERROR_INVALID_STATE
            | Inr t \<Rightarrow> Ok (s\<lparr> ss_table := t, ss_transition := Detaching,
                             ss_transition_generation := Some (at_public_generation active) \<rparr>, at_resource active) })"

definition detach_close :: "surface_session \<Rightarrow> surface_session" where
  "detach_close s = s\<lparr> ss_active_surface_generation := 0 \<rparr>"

text \<open>The attachment's own lease passes to the others: the call drops it after the lock.\<close>

definition detach_commit :: "surface_session \<Rightarrow> surface_session option" where
  "detach_commit s = (case ss_active_attachment s of
     None \<Rightarrow> Panic
   | Some owned \<Rightarrow> do {
       let i = at_resource owned;
       t \<leftarrow> release_commit i (ss_table s);
       Some (s\<lparr> ss_active_attachment := None, ss_pending_loss := None, ss_transition_generation := None, ss_transition := Idle,
              ss_table := t, ss_others := (ss_others s)(i := ss_others s i + 1) \<rparr>) })"

definition session_destroy :: "surface_session \<Rightarrow> int \<times> surface_session" where
  "session_destroy s =
     (if \<not> ss_open s then (MIGO_ERROR_INVALID_STATE, s)
      else if ss_transition s \<noteq> Idle \<or> ss_active_attachment s \<noteq> None \<or> rt_pending_count (ss_table s) \<noteq> 0
        then (MIGO_ERROR_INVALID_STATE, s)
      else if \<not> session_consistent s then (MIGO_ERROR_INTERNAL, s)
      else (MIGO_OK, s\<lparr> ss_open := False, ss_host := False, ss_platform_identity := None, ss_platform_context := False \<rparr>))"

section \<open>Calls of several threads\<close>

datatype api_pc =
    ApiOutside int
  | AttachReserved u64 bool "u64 option"
  | AttachLeased u64 u64 nat
  | UpdateReserved
  | DetachReserved nat | DetachClosed nat

definition attach_work_result :: "bool \<Rightarrow> u64 option \<Rightarrow> attach_work \<Rightarrow> int + (u64 \<times> host_work)" where
  "attach_work_result existing_host existing_identity w = (case w of
     BuildFailed e \<Rightarrow> Inl e
   | BuildDone platform host_work \<Rightarrow> (case validate_platform_identity existing_host existing_identity platform of
       Inl e \<Rightarrow> Inl e
     | Inr _ \<Rightarrow> (case host_work of HostFailed e \<Rightarrow> Inl e | _ \<Rightarrow> Inr (platform, host_work))))"

text \<open>
  \<open>nonceless\<close>: the build takes frames from outside and the session has no launch nonce. The
  C contract forbids a new call to race the destruction of its session, so a call looks
  at the gate and takes the lock in one step.
\<close>

inductive api_step :: "bool \<Rightarrow> surface_session \<times> (nat \<Rightarrow> api_pc) \<Rightarrow> surface_session \<times> (nat \<Rightarrow> api_pc) \<Rightarrow> bool"
  for nonceless :: bool where
  attach_refused: "pcs i = ApiOutside r \<Longrightarrow> attach_reserve g s = Inl e \<Longrightarrow>
     api_step nonceless (s, pcs) (s, pcs(i := ApiOutside e))"
| attach_reserved: "pcs i = ApiOutside r \<Longrightarrow> attach_reserve g s = Inr s' \<Longrightarrow>
     api_step nonceless (s, pcs) (s', pcs(i := AttachReserved g (ss_host s) (ss_platform_identity s)))"
| attach_failed: "pcs i = AttachReserved g h p \<Longrightarrow> attach_work_result h p w = Inl e \<Longrightarrow>
     api_step nonceless (s, pcs) (rollback_surface_transition s, pcs(i := ApiOutside e))"
| attach_without_nonce: "pcs i = AttachReserved g False p \<Longrightarrow> attach_work_result False p w = Inr (q, NonceMissing) \<Longrightarrow> nonceless \<Longrightarrow>
     api_step nonceless (s, pcs) (s, pcs(i := ApiOutside MIGO_ERROR_INVALID_STATE))"
| attach_leased: "pcs i = AttachReserved g h p \<Longrightarrow> attach_work_result h p w = Inr (q, HostLease ig) \<Longrightarrow>
     lease_for_attach g ig s = (s', k) \<Longrightarrow> api_step nonceless (s, pcs) (s', pcs(i := AttachLeased g q k))"
| attach_committed: "pcs i = AttachLeased g q k \<Longrightarrow>
     api_step nonceless (s, pcs) (attach_commit g identity q size_px k s, pcs(i := ApiOutside MIGO_OK))"
| update_refused: "pcs i = ApiOutside r \<Longrightarrow> update_reserve a g s = Inl e \<Longrightarrow>
     api_step nonceless (s, pcs) (s, pcs(i := ApiOutside e))"
| update_reserved: "pcs i = ApiOutside r \<Longrightarrow> update_reserve a g s = Inr s' \<Longrightarrow>
     api_step nonceless (s, pcs) (s', pcs(i := UpdateReserved))"
| update_failed: "pcs i = UpdateReserved \<Longrightarrow>
     api_step nonceless (s, pcs) (rollback_surface_transition s, pcs(i := ApiOutside e))"
| update_committed: "pcs i = UpdateReserved \<Longrightarrow> update_commit size_px s = Some s' \<Longrightarrow>
     api_step nonceless (s, pcs) (s', pcs(i := ApiOutside MIGO_OK))"
| detach_refused: "pcs i = ApiOutside r \<Longrightarrow> detach_reserve a n s = Err e \<Longrightarrow>
     api_step nonceless (s, pcs) (s, pcs(i := ApiOutside e))"
| detach_reserved: "pcs i = ApiOutside r \<Longrightarrow> detach_reserve a n s = Ok (s', k) \<Longrightarrow>
     api_step nonceless (s, pcs) (s', pcs(i := DetachReserved k))"
| detach_closed: "pcs i = DetachReserved k \<Longrightarrow>
     api_step nonceless (s, pcs) (detach_close s, pcs(i := DetachClosed k))"
| detach_committed: "pcs i = DetachClosed k \<Longrightarrow> detach_commit s = Some s' \<Longrightarrow>
     api_step nonceless (s, pcs) (s', pcs(i := ApiOutside MIGO_OK))"
| lost: "api_step nonceless (s, pcs) (surface_lost g reason s, pcs)"
| destroyed: "pcs i = ApiOutside r \<Longrightarrow> session_destroy s = (e, s') \<Longrightarrow>
     api_step nonceless (s, pcs) (s', pcs(i := ApiOutside e))"
| other_clone: "0 < ss_others s k \<Longrightarrow> lease_clone k (ss_table s) = Some t \<Longrightarrow>
     api_step nonceless (s, pcs) (s\<lparr> ss_table := t, ss_others := (ss_others s)(k := ss_others s k + 1) \<rparr>, pcs)"
| other_drop: "0 < ss_others s k \<Longrightarrow> lease_drop k (ss_table s) = Some t \<Longrightarrow>
     api_step nonceless (s, pcs) (s\<lparr> ss_table := t, ss_others := (ss_others s)(k := ss_others s k - 1) \<rparr>, pcs)"
| dropping: "drop_turn k (ss_table s) = Some t \<Longrightarrow> api_step nonceless (s, pcs) (s\<lparr> ss_table := t \<rparr>, pcs)"

section \<open>One call at a time\<close>

fun transition_of :: "api_pc \<Rightarrow> surface_transition" where
  "transition_of (ApiOutside e) = Idle"
| "transition_of (AttachReserved g h p) = Attaching"
| "transition_of (AttachLeased g q k) = Attaching"
| "transition_of UpdateReserved = Updating"
| "transition_of (DetachReserved k) = Detaching"
| "transition_of (DetachClosed k) = Detaching"

fun owner_sees :: "surface_session \<Rightarrow> api_pc \<Rightarrow> bool" where
  "owner_sees s (AttachReserved g h p) \<longleftrightarrow> ss_transition_generation s = Some g \<and> ss_active_attachment s = None \<and>
     ss_last_public_generation s < g"
| "owner_sees s (AttachLeased g q k) \<longleftrightarrow> ss_transition_generation s = Some g \<and> ss_active_attachment s = None \<and>
     ss_last_public_generation s < g"
| "owner_sees s UpdateReserved \<longleftrightarrow> (\<exists>a. ss_active_attachment s = Some a \<and> ss_transition_generation s = Some (at_public_generation a))"
| "owner_sees s (DetachReserved k) \<longleftrightarrow> (\<exists>a. ss_active_attachment s = Some a \<and> at_resource a = k)"
| "owner_sees s (DetachClosed k) \<longleftrightarrow> (\<exists>a. ss_active_attachment s = Some a \<and> at_resource a = k) \<and> ss_active_surface_generation s = 0"
| "owner_sees s (ApiOutside e) \<longleftrightarrow> True"

definition sole_owner :: "surface_session \<Rightarrow> (nat \<Rightarrow> api_pc) \<Rightarrow> bool" where
  "sole_owner s pcs \<longleftrightarrow> (if ss_transition s = Idle then \<forall>i. transition_of (pcs i) = Idle
     else \<exists>i. transition_of (pcs i) = ss_transition s \<and> (\<forall>j. j \<noteq> i \<longrightarrow> transition_of (pcs j) = Idle) \<and> owner_sees s (pcs i))"

text \<open>The generation that data-plane events are accepted for.\<close>

definition data_plane :: "surface_session \<Rightarrow> u64" where
  "data_plane s = (case ss_active_attachment s of None \<Rightarrow> 0 | Some a \<Rightarrow> if at_lost a then 0 else at_public_generation a)"

definition api_inv :: "surface_session \<times> (nat \<Rightarrow> api_pc) \<Rightarrow> bool" where
  "api_inv = (\<lambda>(s, pcs). sole_owner s pcs \<and> session_consistent s \<and>
     (ss_transition s = Idle \<longleftrightarrow> ss_transition_generation s = None) \<and>
     (\<forall>g r. ss_pending_loss s = Some (g, r) \<longrightarrow> (ss_transition s = Attaching \<or> ss_transition s = Updating) \<and> ss_transition_generation s = Some g) \<and>
     (\<forall>a. ss_active_attachment s = Some a \<longrightarrow> 0 < at_public_generation a \<and> at_public_generation a \<le> ss_last_public_generation s) \<and>
     (ss_active_surface_generation s = data_plane s \<or> ss_transition s = Detaching \<and> ss_active_surface_generation s = 0) \<and>
     (\<forall>g r. (g, r) \<in> set (ss_lost_reports s) \<longrightarrow> g \<le> ss_last_public_generation s \<and>
        (\<forall>a. ss_active_attachment s = Some a \<and> at_public_generation a = g \<longrightarrow> at_lost a)) \<and>
     distinct (map fst (ss_lost_reports s)))"

lemma owner_turn:
  assumes "sole_owner s pcs" "transition_of (pcs i) \<noteq> Idle"
  shows "ss_transition s = transition_of (pcs i)" "owner_sees s (pcs i)" "j \<noteq> i \<Longrightarrow> transition_of (pcs j) = Idle"
  using assms by (auto simp: sole_owner_def split: if_splits) metis+

lemma owner_done:
  assumes "sole_owner s pcs" "transition_of (pcs i) \<noteq> Idle" "ss_transition s' = Idle"
  shows "sole_owner s' (pcs(i := ApiOutside e))"
  using owner_turn [OF assms(1,2)] assms(3) by (simp add: sole_owner_def)

lemma owner_next:
  assumes "sole_owner s pcs" "transition_of (pcs i) \<noteq> Idle" "ss_transition s' = transition_of pc" "transition_of pc \<noteq> Idle" "owner_sees s' pc"
  shows "sole_owner s' (pcs(i := pc))"
  using owner_turn [OF assms(1,2)] assms(3-) by (auto simp: sole_owner_def)

lemma owner_starts:
  assumes "sole_owner s pcs" "ss_transition s = Idle" "ss_transition s' = transition_of pc" "transition_of pc \<noteq> Idle" "owner_sees s' pc"
  shows "sole_owner s' (pcs(i := pc))"
  using assms by (auto simp: sole_owner_def)

lemma owner_bystander:
  assumes "sole_owner s pcs" "transition_of (pcs i) = Idle" "transition_of pc = Idle" "ss_transition s' = ss_transition s"
    and "\<And>j. owner_sees s (pcs j) \<Longrightarrow> owner_sees s' (pcs j)"
  shows "sole_owner s' (pcs(i := pc))"
proof (cases "ss_transition s = Idle")
  case True
  then show ?thesis using assms by (simp add: sole_owner_def)
next
  case False
  then obtain k where k: "transition_of (pcs k) = ss_transition s" "\<forall>j. j \<noteq> k \<longrightarrow> transition_of (pcs j) = Idle" "owner_sees s (pcs k)"
    using assms(1) by (auto simp: sole_owner_def)
  then have "k \<noteq> i" using False assms(2) by auto
  then show ?thesis using k False assms by (auto simp: sole_owner_def intro!: exI [of _ k])
qed

lemma same_session:
  assumes "api_inv (s, pcs)" "pcs i = ApiOutside r" shows "api_inv (s, pcs(i := ApiOutside e))"
  using assms owner_bystander [of s pcs i "ApiOutside e" s] by (simp add: api_inv_def)

lemma end_transition_simps [simp]:
  "ss_transition (end_transition s) = Idle" "ss_transition_generation (end_transition s) = None"
  "ss_active_attachment (end_transition s) = ss_active_attachment s" "ss_pending_loss (end_transition s) = ss_pending_loss s"
  "ss_last_public_generation (end_transition s) = ss_last_public_generation s"
  "ss_active_surface_generation (end_transition s) = ss_active_surface_generation s"
  "ss_lost_reports (end_transition s) = ss_lost_reports s" "ss_host (end_transition s) = ss_host s"
  "ss_platform_identity (end_transition s) = ss_platform_identity s" "ss_platform_context (end_transition s) = ss_platform_context s"
  "ss_table (end_transition s) = ss_table s" "ss_others (end_transition s) = ss_others s"
  "ss_attached (end_transition s) = ss_attached s" "ss_open (end_transition s) = ss_open s"
  by (simp_all add: end_transition_def)

text \<open>
  The last section of a call, as far as the invariant sees it: whatever became of the
  attachment before, a pending loss of its generation is applied and reported once.
\<close>

definition settled :: "surface_session \<Rightarrow> bool" where
  "settled s \<longleftrightarrow> session_consistent s \<and>
     (\<forall>a. ss_active_attachment s = Some a \<longrightarrow> 0 < at_public_generation a \<and> at_public_generation a \<le> ss_last_public_generation s) \<and>
     ss_active_surface_generation s = data_plane s \<and>
     (\<forall>g r. (g, r) \<in> set (ss_lost_reports s) \<longrightarrow> g \<le> ss_last_public_generation s \<and>
        (\<forall>a. ss_active_attachment s = Some a \<and> at_public_generation a = g \<longrightarrow> at_lost a)) \<and>
     distinct (map fst (ss_lost_reports s))"

lemma settled_idle:
  "settled s \<Longrightarrow> ss_transition s = Idle \<Longrightarrow> ss_transition_generation s = None \<Longrightarrow> ss_pending_loss s = None \<Longrightarrow>
   sole_owner s pcs \<Longrightarrow> api_inv (s, pcs)"
  by (simp add: api_inv_def settled_def)

lemma consume_cases:
  assumes "consume_pending_surface_loss s = (s', deferred)"
  obtains (none) "deferred = None" "s' = s\<lparr> ss_pending_loss := None \<rparr>"
    | (loss) a g r where "ss_pending_loss s = Some (g, r)" "ss_active_attachment s = Some a" "at_public_generation a = g" "\<not> at_lost a"
        "deferred = Some (g, r)"
        "s' = s\<lparr> ss_pending_loss := None, ss_active_attachment := Some (a\<lparr> at_lost := True \<rparr>), ss_active_surface_generation := 0 \<rparr>"
proof (cases "ss_pending_loss s")
  case None
  have "s = s\<lparr> ss_pending_loss := None \<rparr>" using None by (cases s) simp
  then show ?thesis using assms none None by (auto simp: consume_pending_surface_loss_def)
next
  case (Some l)
  obtain g r where l: "l = (g, r)" by force
  show ?thesis
  proof (cases "\<exists>a. ss_active_attachment s = Some a \<and> at_public_generation a = g \<and> \<not> at_lost a")
    case True
    then obtain a where a: "ss_active_attachment s = Some a" "at_public_generation a = g" "\<not> at_lost a" by blast
    show ?thesis
      by (rule loss [of g r a]) (use assms a Some l in \<open>simp_all add: consume_pending_surface_loss_def Let_def\<close>)
  next
    case False
    show ?thesis
      by (rule none; cases "ss_active_attachment s")
        (use assms Some l False in \<open>auto simp: consume_pending_surface_loss_def Let_def split: if_splits\<close>)
  qed
qed

lemma notify_loss_simps [simp]:
  "notify_loss (s, None) = s" "notify_loss (s, Some l) = report_loss l s"
  by (simp_all add: notify_loss_def)

lemma report_loss_simps [simp]:
  "ss_transition (report_loss l s) = ss_transition s" "ss_transition_generation (report_loss l s) = ss_transition_generation s"
  "ss_active_attachment (report_loss l s) = ss_active_attachment s" "ss_pending_loss (report_loss l s) = ss_pending_loss s"
  "ss_last_public_generation (report_loss l s) = ss_last_public_generation s"
  "ss_active_surface_generation (report_loss l s) = ss_active_surface_generation s"
  "ss_lost_reports (report_loss l s) = ss_lost_reports s @ [l]" "ss_host (report_loss l s) = ss_host s"
  "ss_platform_identity (report_loss l s) = ss_platform_identity s" "ss_platform_context (report_loss l s) = ss_platform_context s"
  "ss_table (report_loss l s) = ss_table s" "ss_others (report_loss l s) = ss_others s"
  "ss_attached (report_loss l s) = ss_attached s" "ss_open (report_loss l s) = ss_open s"
  by (simp_all add: report_loss_def)

lemma consume_settled:
  assumes "settled s" "consume_pending_surface_loss s = (s', deferred)"
  defines "z \<equiv> notify_loss (end_transition s', deferred)"
  shows "settled z" "ss_transition z = Idle" "ss_transition_generation z = None" "ss_pending_loss z = None"
  unfolding z_def using assms(2)
  by (cases rule: consume_cases, use assms(1) in \<open>auto simp: settled_def data_plane_def session_consistent_def\<close>)+

lemma rollback_inv:
  assumes inv: "api_inv (s, pcs)" and "transition_of (pcs i) = Attaching \<or> transition_of (pcs i) = Updating"
  shows "api_inv (rollback_surface_transition s, pcs(i := ApiOutside e))"
proof -
  obtain s' d where d: "consume_pending_surface_loss s = (s', d)" by force
  have own: "sole_owner s pcs" "transition_of (pcs i) \<noteq> Idle" using assms by (auto simp: api_inv_def)
  have "ss_transition s \<noteq> Detaching" using owner_turn(1) [OF own] assms(2) by auto
  then have "settled s" using inv by (auto simp: api_inv_def settled_def)
  from consume_settled [OF this d] owner_done [OF own] show ?thesis
    unfolding rollback_surface_transition_def d by (simp add: settled_idle)
qed

lemma reserve_inv:
  assumes inv: "api_inv (s, pcs)" and idle: "ss_transition s = Idle"
    and s': "ss_transition s' = transition_of pc" "transition_of pc \<noteq> Idle" "owner_sees s' pc"
      "ss_transition_generation s' \<noteq> None" "ss_pending_loss s' = ss_pending_loss s"
      "ss_active_attachment s' = ss_active_attachment s" "ss_last_public_generation s' = ss_last_public_generation s"
      "ss_active_surface_generation s' = ss_active_surface_generation s" "ss_lost_reports s' = ss_lost_reports s"
      "session_consistent s' = session_consistent s"
  shows "api_inv (s', pcs(i := pc))"
  using inv idle s' owner_starts [of s pcs s' pc i] by (simp add: api_inv_def data_plane_def)

text \<open>Steps that leave the surface state alone.\<close>

lemma frame_inv:
  assumes "api_inv (s, pcs)"
    "ss_transition s' = ss_transition s" "ss_transition_generation s' = ss_transition_generation s"
    "ss_pending_loss s' = ss_pending_loss s" "ss_active_attachment s' = ss_active_attachment s"
    "ss_last_public_generation s' = ss_last_public_generation s"
    "ss_active_surface_generation s' = ss_active_surface_generation s" "ss_lost_reports s' = ss_lost_reports s"
    "session_consistent s'"
  shows "api_inv (s', pcs)"
proof -
  have "owner_sees s' pc = owner_sees s pc" for pc using assms by (cases pc) auto
  then show ?thesis using assms by (simp add: api_inv_def sole_owner_def data_plane_def)
qed

lemma consume_set_generation:
  "consume_pending_surface_loss s = (u, d) \<Longrightarrow>
   consume_pending_surface_loss (s\<lparr> ss_active_surface_generation := g \<rparr>) =
     ((if d = None then u\<lparr> ss_active_surface_generation := g \<rparr> else u), d)"
proof (cases "ss_pending_loss s"; cases "ss_active_attachment s")
  fix l a
  assume l: "ss_pending_loss s = Some l" and a: "ss_active_attachment s = Some a"
    and c: "consume_pending_surface_loss s = (u, d)"
  show ?thesis
  proof (cases "at_public_generation a \<noteq> fst l \<or> at_lost a")
    case True
    then show ?thesis using c l a by (auto simp: consume_pending_surface_loss_def Let_def)
  next
    case False
    then have "d = Some l" "u = s\<lparr> ss_pending_loss := None, ss_active_attachment := Some (a\<lparr> at_lost := True \<rparr>), ss_active_surface_generation := 0 \<rparr>"
      using c l a by (simp_all add: consume_pending_surface_loss_def Let_def)
    then show ?thesis using False l a by (simp add: consume_pending_surface_loss_def Let_def)
  qed
qed (auto simp: consume_pending_surface_loss_def Let_def)

lemma attach_commit_inv:
  assumes inv: "api_inv (s, pcs)" and pc: "pcs i = AttachLeased g q k"
  shows "api_inv (attach_commit g identity q size_px k s, pcs(i := ApiOutside e))"
proof -
  have own: "sole_owner s pcs" "transition_of (pcs i) \<noteq> Idle" using inv pc by (auto simp: api_inv_def)
  note sees = owner_turn [OF own]
  have pos: "0 < g" using sees(2) pc le_less_trans [of 0 "ss_last_public_generation s" g] by simp
  let ?s = "if \<not> ss_host s then s\<lparr> ss_host := True, ss_platform_identity := Some q, ss_platform_context := True \<rparr> else s"
  let ?t = "?s\<lparr> ss_active_attachment := Some \<lparr> at_identity = identity, at_public_generation = g,
                   at_resource = k, at_size = size_px, at_lost = False \<rparr>,
                 ss_last_public_generation := g, ss_attached := ss_attached ?s @ [k] \<rparr>"
  obtain u d where u: "consume_pending_surface_loss ?t = (u, d)" by force
  let ?v = "?t\<lparr> ss_active_surface_generation := g \<rparr>"
  have v: "settled ?v"
    using inv sees pc pos by (auto simp: settled_def api_inv_def data_plane_def session_consistent_def platform_state_is_consistent_def)
  have "consume_pending_surface_loss ?v = ((if d = None then u\<lparr> ss_active_surface_generation := g \<rparr> else u), d)"
    using u by (rule consume_set_generation)
  from consume_settled [OF v this] owner_done [OF own] show ?thesis
    unfolding attach_commit_def Let_def u by (simp add: settled_idle)
qed

lemma update_commit_inv:
  assumes inv: "api_inv (s, pcs)" and pc: "pcs i = UpdateReserved" and u: "update_commit size_px s = Some s'"
  shows "api_inv (s', pcs(i := ApiOutside e))"
proof -
  have own: "sole_owner s pcs" "transition_of (pcs i) \<noteq> Idle" using inv pc by (auto simp: api_inv_def)
  obtain a where a: "ss_active_attachment s = Some a" using owner_turn(2) [OF own] pc by auto
  let ?t = "s\<lparr> ss_active_attachment := Some (a\<lparr> at_size := size_px \<rparr>) \<rparr>"
  obtain v d where v: "consume_pending_surface_loss ?t = (v, d)" by force
  have "settled ?t"
    using inv a owner_turn(1) [OF own] pc by (auto simp: settled_def api_inv_def data_plane_def session_consistent_def)
  from consume_settled [OF this v] owner_done [OF own] show ?thesis
    using u unfolding update_commit_def a by (auto simp: v settled_idle)
qed

lemma lost_inv:
  assumes inv: "api_inv (s, pcs)" shows "api_inv (surface_lost g reason s, pcs)"
proof (cases "ss_transition s")
  case Idle
  show ?thesis
  proof (cases "\<exists>a. ss_active_attachment s = Some a \<and> at_public_generation a = g \<and> \<not> at_lost a \<and> ss_active_surface_generation s = g")
    case True
    then obtain a where a: "ss_active_attachment s = Some a" "at_public_generation a = g" "\<not> at_lost a"
        "ss_active_surface_generation s = g" by blast
    have eq: "surface_lost g reason s = report_loss (g, reason)
        (s\<lparr> ss_active_surface_generation := 0, ss_active_attachment := Some (a\<lparr> at_lost := True \<rparr>) \<rparr>)"
      using a Idle by (simp add: surface_lost_def mark_surface_lost_def)
    show ?thesis
      unfolding eq using inv a Idle
      by (auto simp: api_inv_def data_plane_def session_consistent_def sole_owner_def)
  next
    case False
    then have "surface_lost g reason s = s"
      using Idle by (auto simp: surface_lost_def mark_surface_lost_def split: option.splits)
    then show ?thesis using inv by simp
  qed
next
  case Detaching
  then show ?thesis using inv by (simp add: surface_lost_def mark_surface_lost_def)
next
  case Attaching
  show ?thesis
  proof (cases "ss_transition_generation s = Some g \<and> ss_pending_loss s = None")
    case True
    have sees: "owner_sees (s\<lparr> ss_pending_loss := x \<rparr>) pc = owner_sees s pc" for x pc by (cases pc) auto
    show ?thesis
      using inv True Attaching
      by (auto simp: surface_lost_def mark_surface_lost_def api_inv_def sole_owner_def sees data_plane_def session_consistent_def)
  next
    case False
    then show ?thesis using inv Attaching by (auto simp: surface_lost_def mark_surface_lost_def)
  qed
next
  case Updating
  show ?thesis
  proof (cases "ss_transition_generation s = Some g \<and> ss_pending_loss s = None")
    case True
    have sees: "owner_sees (s\<lparr> ss_pending_loss := x \<rparr>) pc = owner_sees s pc" for x pc by (cases pc) auto
    show ?thesis
      using inv True Updating
      by (auto simp: surface_lost_def mark_surface_lost_def api_inv_def sole_owner_def sees data_plane_def session_consistent_def)
  next
    case False
    then show ?thesis using inv Updating by (auto simp: surface_lost_def mark_surface_lost_def)
  qed
qed

lemma detach_commit_inv:
  assumes inv: "api_inv (s, pcs)" and pc: "pcs i = DetachClosed k" and d: "detach_commit s = Some s'"
  shows "api_inv (s', pcs(i := ApiOutside e))"
proof -
  have own: "sole_owner s pcs" "transition_of (pcs i) \<noteq> Idle" using inv pc by (auto simp: api_inv_def)
  note sees = owner_turn [OF own]
  obtain a where a: "ss_active_attachment s = Some a" using sees(2) pc by auto
  obtain t where t: "s' = s\<lparr> ss_active_attachment := None, ss_pending_loss := None, ss_transition_generation := None,
      ss_transition := Idle, ss_table := t, ss_others := (ss_others s)(at_resource a := ss_others s (at_resource a) + 1) \<rparr>"
    using d a by (auto simp: detach_commit_def Let_def split: bind_splits)
  have "settled s'" using inv sees pc unfolding t by (auto simp: settled_def api_inv_def data_plane_def session_consistent_def)
  then show ?thesis using owner_done [OF own, of s'] unfolding t by (auto intro: settled_idle)
qed

lemma detach_close_inv:
  assumes inv: "api_inv (s, pcs)" and pc: "pcs i = DetachReserved k"
  shows "api_inv (detach_close s, pcs(i := DetachClosed k))"
proof -
  have own: "sole_owner s pcs" "transition_of (pcs i) \<noteq> Idle" using inv pc by (auto simp: api_inv_def)
  have "sole_owner (detach_close s) (pcs(i := DetachClosed k))"
    using owner_turn [OF own] pc by (intro owner_next [OF own]) (auto simp: detach_close_def)
  then show ?thesis
    using inv owner_turn(1) [OF own] pc by (simp add: api_inv_def detach_close_def session_consistent_def)
qed

lemma api_step_inv:
  assumes "api_step False x y" "api_inv x" shows "api_inv y"
  using assms
proof (induction rule: api_step.induct)
  case (attach_reserved pcs i r g s s')
  have "ss_transition s = Idle" and s': "ss_active_attachment s = None" "ss_last_public_generation s < g"
      "s' = s\<lparr> ss_transition := Attaching, ss_transition_generation := Some g, ss_callbacks_frozen := True \<rparr>"
    using attach_reserved(2) by (auto simp: attach_reserve_def validate_attach_generation_def split: if_splits sum.splits)
  then show ?case using attach_reserved(3) by (intro reserve_inv) (auto simp: session_consistent_def)
next
  case (attach_failed pcs i g h p w e s)
  then show ?case by (intro rollback_inv) auto
next
  case (attach_leased pcs i g h p w q ig s s' k)
  obtain t others where s': "s' = s\<lparr> ss_table := t, ss_others := others \<rparr>"
    using attach_leased(3) by (auto simp: lease_for_attach_def split: prod.splits)
  have own: "sole_owner s pcs" "transition_of (pcs i) \<noteq> Idle" using attach_leased by (auto simp: api_inv_def)
  have "api_inv (s', pcs)"
    using attach_leased(4) by (rule frame_inv) (use attach_leased(4) in \<open>auto simp: s' api_inv_def session_consistent_def\<close>)
  moreover have "sole_owner s' (pcs(i := AttachLeased g q k))"
    using owner_turn [OF own] attach_leased(1) by (intro owner_next [OF own]) (simp_all add: s')
  ultimately show ?case by (simp add: api_inv_def)
next
  case (attach_committed pcs i g q k s identity size_px)
  then show ?case by (intro attach_commit_inv)
next
  case (update_reserved pcs i r a g s s')
  obtain x where "ss_transition s = Idle" and s': "ss_active_attachment s = Some x"
      "s' = s\<lparr> ss_transition := Updating, ss_transition_generation := Some (at_public_generation x) \<rparr>"
    using update_reserved(2) by (auto simp: update_reserve_def split: if_splits sum.splits option.splits)
  then show ?case using update_reserved(3) by (intro reserve_inv) (auto simp: session_consistent_def)
next
  case (update_failed pcs i s e)
  then show ?case by (intro rollback_inv) auto
next
  case (update_committed pcs i size_px s s')
  then show ?case by (intro update_commit_inv)
next
  case (detach_reserved pcs i r a n s s' k)
  obtain x t where "ss_transition s = Idle" and s': "ss_active_attachment s = Some x" "k = at_resource x"
      "s' = s\<lparr> ss_table := t, ss_transition := Detaching, ss_transition_generation := Some (at_public_generation x) \<rparr>"
    using detach_reserved(2) by (auto simp: detach_reserve_def split: if_splits sum.splits option.splits bind_splits)
  then show ?case using detach_reserved(3) by (intro reserve_inv) (auto simp: session_consistent_def)
next
  case (detach_closed pcs i k s)
  then show ?case by (intro detach_close_inv)
next
  case (detach_committed pcs i k s s')
  then show ?case by (intro detach_commit_inv)
next
  case (lost s pcs g reason)
  then show ?case by (rule lost_inv)
next
  case (destroyed pcs i r s e s')
  have "api_inv (s', pcs)"
    using destroyed(3)
    by (rule frame_inv) (use destroyed(2,3) in \<open>auto simp: session_destroy_def api_inv_def session_consistent_def
        platform_state_is_consistent_def split: if_splits\<close>)
  then show ?case using destroyed(1) by (rule same_session)
next
  case (other_clone s k t pcs)
  show ?case by (rule frame_inv [OF other_clone(3)]) (use other_clone(3) in \<open>auto simp: api_inv_def session_consistent_def\<close>)
next
  case (other_drop s k t pcs)
  show ?case by (rule frame_inv [OF other_drop(3)]) (use other_drop(3) in \<open>auto simp: api_inv_def session_consistent_def\<close>)
next
  case (dropping k s t pcs)
  show ?case by (rule frame_inv [OF dropping(2)]) (use dropping(2) in \<open>auto simp: api_inv_def session_consistent_def\<close>)
qed (auto intro: same_session)

lemma session_initial: "api_inv (session_new, \<lambda>_. ApiOutside MIGO_OK)"
  by (simp add: api_inv_def session_new_def sole_owner_def session_consistent_def platform_state_is_consistent_def data_plane_def)

section \<open>Leases and registrations\<close>

fun pins :: "api_pc \<Rightarrow> nat \<Rightarrow> bool" where
  "pins (AttachLeased g q j) k \<longleftrightarrow> j = k"
| "pins (DetachReserved j) k \<longleftrightarrow> j = k"
| "pins (DetachClosed j) k \<longleftrightarrow> j = k"
| "pins _ k \<longleftrightarrow> False"

definition active_holds :: "surface_session \<Rightarrow> nat \<Rightarrow> bool" where
  "active_holds s k \<longleftrightarrow> (case ss_active_attachment s of None \<Rightarrow> False | Some a \<Rightarrow> at_resource a = k)"

definition holders_of :: "surface_session \<Rightarrow> (nat \<Rightarrow> api_pc) \<Rightarrow> nat \<Rightarrow> nat" where
  "holders_of s pcs k = ss_others s k + (if active_holds s k then 1 else 0) + (if \<exists>i. pins (pcs i) k then 1 else 0)"

definition lease_inv :: "surface_session \<times> (nat \<Rightarrow> api_pc) \<Rightarrow> bool" where
  "lease_inv = (\<lambda>(s, pcs). release_inv (ss_table s) \<and>
     (\<forall>k < length (rt_resources (ss_table s)). sr_strong (rt_resources (ss_table s) ! k) = holders_of s pcs k) \<and>
     (\<forall>k \<ge> length (rt_resources (ss_table s)). holders_of s pcs k = 0) \<and>
     (\<forall>k \<in> set (ss_attached s). k < length (rt_resources (ss_table s)) \<and>
        (active_holds s k \<and> ss_transition s \<noteq> Detaching \<or> release_begun (rt_resources (ss_table s) ! k))) \<and>
     (\<forall>k. active_holds s k \<longrightarrow> k \<in> set (ss_attached s)) \<and>
     (\<forall>i g q k. pcs i = AttachLeased g q k \<longrightarrow> k \<notin> set (ss_attached s)) \<and>
     (\<forall>k < length (rt_resources (ss_table s)). sr_registration (rt_resources (ss_table s) ! k) \<noteq> None \<longrightarrow> k \<in> set (ss_attached s)) \<and>
     (\<not> ss_open s \<longrightarrow> ss_transition s = Idle \<and> ss_active_attachment s = None \<and> rt_pending_count (ss_table s) = 0))"

lemma pins_upd:
  assumes "\<And>k. pins pc k = pins (pcs i) k" shows "(\<exists>j. pins ((pcs(i := pc)) j) k) = (\<exists>j. pins (pcs j) k)"
proof
  assume "\<exists>j. pins ((pcs(i := pc)) j) k"
  then obtain j where "pins ((pcs(i := pc)) j) k" ..
  then show "\<exists>j. pins (pcs j) k" using assms by (cases "j = i") auto
next
  assume "\<exists>j. pins (pcs j) k"
  then obtain j where "pins (pcs j) k" ..
  then show "\<exists>j. pins ((pcs(i := pc)) j) k" using assms by (intro exI [of _ j]) auto
qed

lemma lease_frame:
  assumes "lease_inv (s, pcs)" "ss_table s' = ss_table s" "ss_others s' = ss_others s" "ss_attached s' = ss_attached s"
    and "\<And>k. active_holds s' k = active_holds s k" "ss_transition s' = Detaching \<longleftrightarrow> ss_transition s = Detaching"
    and "ss_open s' = ss_open s" "ss_open s \<or> s' = s"
    and "\<And>k. pins pc k = pins (pcs i) k" "\<And>g q k. pc = AttachLeased g q k \<Longrightarrow> pcs i = pc"
  shows "lease_inv (s', pcs(i := pc))"
proof -
  have h: "holders_of s' (pcs(i := pc)) k = holders_of s pcs k" for k
    unfolding holders_of_def pins_upd [of pc pcs i, OF assms(9)] using assms by simp
  have l: "k \<notin> set (ss_attached s)" if "(pcs(i := pc)) j = AttachLeased g q k" for j g q k
  proof -
    have "\<exists>j. pcs j = AttachLeased g q k" using that assms(10) by (cases "j = i") auto
    then show ?thesis using assms(1) by (auto simp: lease_inv_def)
  qed
  show ?thesis
    using assms(1-8) l unfolding lease_inv_def prod.case h by (auto simp del: fun_upd_apply)
qed

text \<open>The sections that only touch the surface state.\<close>

lemma consume_holds:
  assumes "consume_pending_surface_loss s = (s', d)"
  shows "active_holds s' k = active_holds s k" "ss_table s' = ss_table s" "ss_others s' = ss_others s" "ss_attached s' = ss_attached s"
    "ss_open s' = ss_open s" "ss_transition s' = ss_transition s"
  using assms by (cases rule: consume_cases, simp_all add: active_holds_def)+

lemma notify_holds [simp]:
  "active_holds (notify_loss (s, d)) k = active_holds s k" "ss_table (notify_loss (s, d)) = ss_table s"
  "ss_others (notify_loss (s, d)) = ss_others s" "ss_attached (notify_loss (s, d)) = ss_attached s"
  "ss_open (notify_loss (s, d)) = ss_open s" "ss_transition (notify_loss (s, d)) = ss_transition s"
  by (cases d; simp add: active_holds_def)+

lemma end_transition_holds [simp]: "active_holds (end_transition s) k = active_holds s k"
  by (simp add: active_holds_def)

lemma busy_open:
  assumes "api_inv (s, pcs)" "lease_inv (s, pcs)" "transition_of (pcs i) \<noteq> Idle"
  shows "ss_open s" "ss_transition s = transition_of (pcs i)"
proof -
  show t: "ss_transition s = transition_of (pcs i)" using assms owner_turn(1) [of s pcs i] by (simp add: api_inv_def)
  then show "ss_open s" using assms(2,3) by (auto simp: lease_inv_def)
qed

lemma rollback_lease:
  assumes "api_inv (s, pcs)" "lease_inv (s, pcs)" "pcs i = AttachReserved g h p \<or> pcs i = UpdateReserved"
  shows "lease_inv (rollback_surface_transition s, pcs(i := ApiOutside e))"
proof -
  obtain s' d where d: "consume_pending_surface_loss s = (s', d)" by force
  have busy: "transition_of (pcs i) \<noteq> Idle" "transition_of (pcs i) \<noteq> Detaching" "\<And>k. \<not> pins (pcs i) k" using assms(3) by auto
  note o = busy_open [OF assms(1,2) busy(1)]
  show ?thesis
    unfolding rollback_surface_transition_def d prod.case
    by (rule lease_frame [OF assms(2)]) (use consume_holds [OF d] o busy in auto)
qed

lemma update_lease:
  assumes "api_inv (s, pcs)" "lease_inv (s, pcs)" "pcs i = UpdateReserved" "update_commit size_px s = Some s'"
  shows "lease_inv (s', pcs(i := ApiOutside e))"
proof -
  obtain a where a: "ss_active_attachment s = Some a"
    using assms(4) by (auto simp: update_commit_def split: option.splits)
  obtain v d where v: "consume_pending_surface_loss (s\<lparr> ss_active_attachment := Some (a\<lparr> at_size := size_px \<rparr>) \<rparr>) = (v, d)" by force
  have s': "s' = notify_loss (end_transition v, d)" using assms(4) by (simp add: update_commit_def a v)
  have busy: "transition_of (pcs i) \<noteq> Idle" "transition_of (pcs i) = Updating" using assms(3) by auto
  note live = busy_open [OF assms(1,2) busy(1)]
  have holds: "active_holds v k = active_holds s k" for k
    unfolding consume_holds(1) [OF v] by (simp add: active_holds_def a)
  show ?thesis
    unfolding s'
    by (rule lease_frame [OF assms(2)]) (simp_all add: consume_holds(2-) [OF v] holds live assms(3))
qed

lemma mark_cases:
  assumes "mark_surface_lost g reason s = (s', marked)"
  obtains (same) "s' = s"
    | (held) x where "s' = s\<lparr> ss_pending_loss := x \<rparr>" "ss_transition s \<noteq> Idle"
    | (lost) a where "ss_active_attachment s = Some a"
        "s' = s\<lparr> ss_active_surface_generation := 0, ss_active_attachment := Some (a\<lparr> at_lost := True \<rparr>) \<rparr>"
proof -
  consider "s' = s" | "\<exists>x. s' = s\<lparr> ss_pending_loss := x \<rparr> \<and> ss_transition s \<noteq> Idle"
    | "\<exists>a. ss_active_attachment s = Some a \<and>
         s' = s\<lparr> ss_active_surface_generation := 0, ss_active_attachment := Some (a\<lparr> at_lost := True \<rparr>) \<rparr>"
    using assms by (cases "ss_transition s"; cases "ss_active_attachment s") (auto simp: mark_surface_lost_def split: if_splits)
  then show ?thesis using same held lost by cases blast+
qed

lemma lost_lease:
  assumes "lease_inv (s, pcs)" shows "lease_inv (surface_lost g reason s, pcs)"
proof -
  obtain s' m where m: "mark_surface_lost g reason s = (s', m)" by force
  have closed: "\<not> ss_open s \<longrightarrow> ss_transition s = Idle \<and> ss_active_attachment s = None" using assms by (simp add: lease_inv_def)
  have "ss_open s \<or> s' = s" using m by (cases rule: mark_cases) (use closed in simp_all)
  moreover have "ss_table s' = ss_table s" "ss_others s' = ss_others s" "ss_attached s' = ss_attached s"
      "ss_transition s' = ss_transition s" "ss_open s' = ss_open s" "\<And>k. active_holds s' k = active_holds s k"
    using m by (cases rule: mark_cases; simp add: active_holds_def)+
  ultimately have "lease_inv (s', pcs(0 := pcs 0))"
    by (intro lease_frame [OF assms]) simp_all
  then have "lease_inv (s', pcs)" by simp
  then show ?thesis
    unfolding surface_lost_def m prod.case by (simp add: lease_inv_def holders_of_def active_holds_def)
qed

lemma lease_inv_holders:
  assumes "lease_inv (s, pcs)" "holders_of s pcs k \<noteq> 0"
  shows "k < length (rt_resources (ss_table s))" "sr_strong (rt_resources (ss_table s) ! k) = holders_of s pcs k"
  using assms not_le [of "length (rt_resources (ss_table s))" k] by (auto simp: lease_inv_def)

text \<open>
  The steps that change one resource \<open>k\<close>. Besides the table they change who holds leases;
  the premises are what is left to show for each.
\<close>

lemma lease_change:
  fixes s :: surface_session and k :: nat
  defines "r \<equiv> rt_resources (ss_table s) ! k"
  assumes inv: "lease_inv (s, pcs)" and table: "release_inv (ss_table s')"
    and k: "k < length (rt_resources (ss_table s))" and res: "rt_resources (ss_table s') = (rt_resources (ss_table s))[k := r']"
    and strong: "holders_of s' pcs' k + sr_strong r = holders_of s pcs k + sr_strong r'"
    and others: "\<And>m. m \<noteq> k \<Longrightarrow> holders_of s' pcs' m = holders_of s pcs m"
    and begun: "release_begun r \<Longrightarrow> release_begun r'"
    and attached: "ss_attached s' = ss_attached s" and active: "\<And>m. active_holds s' m \<Longrightarrow> active_holds s m"
    and moved: "\<And>m. active_holds s m \<Longrightarrow> ss_transition s \<noteq> Detaching \<Longrightarrow>
        active_holds s' m \<and> ss_transition s' \<noteq> Detaching \<or> m = k \<and> release_begun r'"
    and leased: "\<And>i g q m. pcs' i = AttachLeased g q m \<Longrightarrow> pcs i = AttachLeased g q m"
    and closed: "\<not> ss_open s' \<Longrightarrow> ss_transition s' = Idle \<and> ss_active_attachment s' = None \<and> rt_pending_count (ss_table s') = 0"
    and reg: "sr_registration r' \<noteq> None \<Longrightarrow> sr_registration r \<noteq> None \<or> active_holds s k"
  shows "lease_inv (s', pcs')"
proof -
  let ?n = "length (rt_resources (ss_table s))"
  have at: "rt_resources (ss_table s') ! m = (if m = k then r' else rt_resources (ss_table s) ! m)" if "m < ?n" for m
    using that by (simp add: res nth_list_update)
  have n: "length (rt_resources (ss_table s')) = ?n" by (simp add: res)
  have "sr_strong (rt_resources (ss_table s') ! m) = holders_of s' pcs' m" if m: "m < ?n" for m
  proof -
    have old: "sr_strong (rt_resources (ss_table s) ! m) = holders_of s pcs m" using inv m by (simp add: lease_inv_def)
    show ?thesis using old others [of m] strong at [OF m] by (cases "m = k") (simp_all add: r_def)
  qed
  moreover have "holders_of s' pcs' m = 0" if m: "?n \<le> m" for m
  proof -
    have "holders_of s pcs m = 0" using inv m by (simp add: lease_inv_def)
    then show ?thesis using others [of m] k m by simp
  qed
  moreover have "m < ?n \<and> (active_holds s' m \<and> ss_transition s' \<noteq> Detaching \<or> release_begun (rt_resources (ss_table s') ! m))"
    if m: "m \<in> set (ss_attached s)" for m
  proof -
    have old: "m < ?n" "active_holds s m \<and> ss_transition s \<noteq> Detaching \<or> release_begun (rt_resources (ss_table s) ! m)"
      using inv m by (simp_all add: lease_inv_def)
    show ?thesis using old begun moved [of m] by (cases "m = k") (auto simp: at r_def)
  qed
  moreover have "m \<in> set (ss_attached s)" if "active_holds s' m" for m
    using inv active [OF that] by (simp add: lease_inv_def)
  moreover have "m \<notin> set (ss_attached s)" if "pcs' i = AttachLeased g q m" for i g q m
    using inv leased [OF that] unfolding lease_inv_def by blast
  moreover have "m \<in> set (ss_attached s)" if m: "m < ?n" "sr_registration (rt_resources (ss_table s') ! m) \<noteq> None" for m
  proof -
    have "sr_registration (rt_resources (ss_table s) ! m) \<noteq> None \<or> active_holds s m"
      using m reg by (cases "m = k") (simp_all add: at r_def)
    then show ?thesis using inv m(1) unfolding lease_inv_def by blast
  qed
  ultimately show ?thesis
    using table closed unfolding lease_inv_def prod.case n attached by blast
qed

lemma lease_inv_table: "lease_inv (s, pcs) \<Longrightarrow> release_inv (ss_table s)"
  by (simp add: lease_inv_def)

lemma lease_inv_closed:
  "lease_inv (s, pcs) \<Longrightarrow> \<not> ss_open s \<Longrightarrow> ss_transition s = Idle \<and> ss_active_attachment s = None \<and> rt_pending_count (ss_table s) = 0"
  by (simp add: lease_inv_def)

lemma holders_of_frame [simp]:
  "holders_of (s\<lparr> ss_table := t \<rparr>) pcs m = holders_of s pcs m"
  "holders_of (s\<lparr> ss_table := t, ss_others := (ss_others s)(k := n) \<rparr>) pcs m =
     (if m = k then n + (holders_of s pcs k - ss_others s k) else holders_of s pcs m)"
  "active_holds (s\<lparr> ss_table := t \<rparr>) m = active_holds s m"
  "active_holds (s\<lparr> ss_table := t, ss_others := f \<rparr>) m = active_holds s m"
  by (auto simp: holders_of_def active_holds_def)

lemma others_le: "ss_others s k \<le> holders_of s pcs k"
  by (simp add: holders_of_def)

lemma other_clone_lease:
  assumes "lease_inv (s, pcs)" "0 < ss_others s k" "lease_clone k (ss_table s) = Some t"
  shows "lease_inv (s\<lparr> ss_table := t, ss_others := (ss_others s)(k := ss_others s k + 1) \<rparr>, pcs)"
proof -
  let ?r = "rt_resources (ss_table s) ! k"
  have r: "k < length (rt_resources (ss_table s))" "t = set_resource k (?r\<lparr> sr_strong := sr_strong ?r + 1 \<rparr>) (ss_table s)"
      "release_inv t"
    using lease_clone_inv [OF lease_inv_table [OF assms(1)] assms(3)] by blast+
  show ?thesis
    by (rule lease_change [OF assms(1), where k = k and r' = "?r\<lparr> sr_strong := sr_strong ?r + 1 \<rparr>"])
      (use r lease_inv_closed [OF assms(1)] others_le [of s k pcs] in \<open>simp_all add: set_resource_def release_begun_def\<close>)
qed

lemma other_drop_lease:
  assumes "lease_inv (s, pcs)" "0 < ss_others s k" "lease_drop k (ss_table s) = Some t"
  shows "lease_inv (s\<lparr> ss_table := t, ss_others := (ss_others s)(k := ss_others s k - 1) \<rparr>, pcs)"
proof -
  let ?r = "rt_resources (ss_table s) ! k"
  let ?q = "?r\<lparr> sr_strong := sr_strong ?r - 1, sr_drop := (if sr_strong ?r = 1 then Dropping else sr_drop ?r) \<rparr>"
  note table = lease_inv_table [OF assms(1)]
  have r: "k < length (rt_resources (ss_table s))" "sr_strong ?r \<noteq> 0" "t = set_resource k ?q (ss_table s)" "release_inv t"
    using lease_drop_inv [OF table assms(3)] by blast+
  have begun: "release_begun ?r \<Longrightarrow> release_begun ?q"
    using resource_at [OF table r(1)] r(2) by (auto simp: release_begun_def resource_ok_def dropped_def split: drop_stage.splits)
  show ?thesis
    by (rule lease_change [OF assms(1), where k = k and r' = ?q])
      (use r begun assms(2) lease_inv_closed [OF assms(1)] others_le [of s k pcs] in \<open>simp_all add: set_resource_def\<close>)
qed

lemma dropping_lease:
  assumes "lease_inv (s, pcs)" "drop_turn k (ss_table s) = Some t" shows "lease_inv (s\<lparr> ss_table := t \<rparr>, pcs)"
proof -
  obtain r' where r: "k < length (rt_resources (ss_table s))"
      "rt_resources t = (rt_resources (ss_table s))[k := r']" "sr_strong r' = sr_strong (rt_resources (ss_table s) ! k)"
      "sr_registration r' = None \<or> sr_registration r' = sr_registration (rt_resources (ss_table s) ! k)"
      "release_begun (rt_resources (ss_table s) ! k) \<longrightarrow> release_begun r'"
      "rt_pending_count t \<le> rt_pending_count (ss_table s)" "release_inv t"
    using drop_turn_inv [OF lease_inv_table [OF assms(1)] assms(2)] by metis
  show ?thesis
    by (rule lease_change [OF assms(1), where k = k and r' = r'])
      (use r lease_inv_closed [OF assms(1)] in auto)
qed

lemma pins_owner:
  assumes "sole_owner s pcs" "transition_of (pcs i) \<noteq> Idle" shows "(\<exists>j. pins (pcs j) k) = pins (pcs i) k"
proof
  assume "\<exists>j. pins (pcs j) k"
  then obtain j where j: "pins (pcs j) k" ..
  then have "transition_of (pcs j) \<noteq> Idle" by (cases "pcs j") auto
  then show "pins (pcs i) k" using owner_turn(3) [OF assms, of j] j by (cases "j = i") auto
qed blast

lemma pins_idle:
  assumes "sole_owner s pcs" "ss_transition s = Idle" shows "\<not> pins (pcs j) k"
proof -
  have "transition_of (pcs j) = Idle" using assms by (simp add: sole_owner_def)
  then show ?thesis by (cases "pcs j") auto
qed

lemma pins_upd_owner:
  assumes "\<And>j. j \<noteq> i \<Longrightarrow> transition_of (pcs j) = Idle" shows "(\<exists>j. pins ((pcs(i := pc)) j) k) = pins pc k"
proof
  assume "\<exists>j. pins ((pcs(i := pc)) j) k"
  then obtain j where j: "pins ((pcs(i := pc)) j) k" ..
  show "pins pc k"
  proof (cases "j = i")
    case False
    then have "transition_of (pcs j) = Idle" "pins (pcs j) k" using assms j by auto
    then show ?thesis by (cases "pcs j") auto
  qed (use j in simp)
qed (auto intro: exI [of _ i])

lemma attach_leased_lease:
  assumes inv: "api_inv (s, pcs)" "lease_inv (s, pcs)" and pc: "pcs i = AttachReserved g h p"
    and l: "lease_for_attach g ig s = (s', k)"
  shows "lease_inv (s', pcs(i := AttachLeased g q k))"
proof -
  let ?t = "ss_table s" and ?n = "length (rt_resources (ss_table s))"
  let ?r = "\<lparr> sr_native_anchor = True, sr_public_generation = g, sr_internal_generation = ig, sr_strong = 2,
      sr_registration = None, sr_phase = Pending, sr_drop = Held \<rparr>"
  have own: "sole_owner s pcs" "transition_of (pcs i) \<noteq> Idle" using inv pc by (auto simp: api_inv_def)
  have k: "k = ?n" and s': "s' = s\<lparr> ss_table := ?t\<lparr> rt_resources := rt_resources ?t @ [?r] \<rparr>, ss_others := (ss_others s)(?n := 1) \<rparr>"
    using l by (auto simp: lease_for_attach_def resource_lease_new_def lease_clone_def set_resource_def)
  have pins: "(\<exists>j. pins ((pcs(i := AttachLeased g q k)) j) m) = (m = ?n)" for m
    using pins_upd_owner [of i pcs "AttachLeased g q k" m, OF owner_turn(3) [OF own]] k by auto
  have none: "\<not> pins (pcs j) m" for j m using pins_owner [OF own, of m] pc by auto
  have zero: "holders_of s pcs ?n = 0" using inv(2) by (simp add: lease_inv_def)
  then have fresh: "\<not> active_holds s ?n" by (simp add: holders_of_def split: if_splits)
  have live: "ss_open s" using busy_open [OF inv own(2)] by simp
  have holders: "holders_of s' (pcs(i := AttachLeased g q k)) m = (if m = ?n then 2 else holders_of s pcs m)" for m
    unfolding holders_of_def pins using none fresh by (cases "m = ?n") (simp_all add: s' active_holds_def)
  have leased: "m = ?n" if "(pcs(i := AttachLeased g q k)) j = AttachLeased g' q' m" for j g' q' m
    using that owner_turn(3) [OF own, of j] k by (cases "j = i") auto
  have ok: "release_inv (ss_table s')"
    using inv(2) by (simp add: s' lease_inv_def release_inv_def registered_def resource_ok_def dropped_def)
  have below: "m < ?n \<and> (active_holds s m \<and> ss_transition s \<noteq> Detaching \<or> release_begun (rt_resources ?t ! m))"
    if "m \<in> set (ss_attached s)" for m using inv(2) that by (simp add: lease_inv_def)
  have attached: "m < Suc ?n \<and> (active_holds s' m \<and> ss_transition s' \<noteq> Detaching \<or> release_begun (rt_resources (ss_table s') ! m))"
    if "m \<in> set (ss_attached s)" for m
    using below [OF that] by (auto simp: s' nth_append active_holds_def)
  have act: "active_holds s' m \<Longrightarrow> m \<in> set (ss_attached s)" for m
    using inv(2) by (simp add: lease_inv_def s' active_holds_def)
  have strong: "sr_strong (rt_resources (ss_table s') ! m) = (if m = ?n then 2 else holders_of s pcs m)" if "m < Suc ?n" for m
    using inv(2) that by (auto simp: s' nth_append lease_inv_def less_Suc_eq)
  have above: "Suc ?n \<le> m \<Longrightarrow> holders_of s pcs m = 0" for m using inv(2) by (simp add: lease_inv_def)
  have len: "length (rt_resources (ss_table s')) = Suc ?n" "ss_attached s' = ss_attached s" "ss_open s'" using live by (simp_all add: s')
  have leased': "m \<notin> set (ss_attached s)" if "(pcs(i := AttachLeased g q k)) j = AttachLeased g' q' m" for j g' q' m
    using leased [OF that] below by auto
  have reg: "m \<in> set (ss_attached s)" if "m < Suc ?n" "sr_registration (rt_resources (ss_table s') ! m) \<noteq> None" for m
    using that inv(2) by (auto simp: s' nth_append lease_inv_def less_Suc_eq)
  show ?thesis
    unfolding lease_inv_def prod.case holders len
    using ok attached act strong above leased' len(3) reg by (auto simp del: fun_upd_apply)
qed

lemma attach_commit_frame:
  fixes s g identity q size_px k
  defines "z \<equiv> attach_commit g identity q size_px k s"
  shows "active_holds z m = (m = k)" "ss_table z = ss_table s" "ss_others z = ss_others s" "ss_attached z = ss_attached s @ [k]"
    "ss_open z = ss_open s" "ss_transition z = Idle"
proof -
  let ?s = "if \<not> ss_host s then s\<lparr> ss_host := True, ss_platform_identity := Some q, ss_platform_context := True \<rparr> else s"
  let ?t = "?s\<lparr> ss_active_attachment := Some \<lparr> at_identity = identity, at_public_generation = g,
                   at_resource = k, at_size = size_px, at_lost = False \<rparr>,
                 ss_last_public_generation := g, ss_attached := ss_attached ?s @ [k] \<rparr>"
  obtain u d where u: "consume_pending_surface_loss ?t = (u, d)" by force
  have z: "z = notify_loss (end_transition (if d = None then u\<lparr> ss_active_surface_generation := g \<rparr> else u), d)"
    unfolding z_def attach_commit_def Let_def u by simp
  note c = consume_holds [OF u]
  have set_gen: "active_holds (u\<lparr> ss_active_surface_generation := g \<rparr>) m = active_holds u m" by (simp add: active_holds_def)
  have t: "active_holds ?t m = (m = k)" by (auto simp: active_holds_def)
  show "active_holds z m = (m = k)" unfolding z notify_holds end_transition_holds using c(1) [of m] t set_gen by simp
  show "ss_table z = ss_table s" "ss_others z = ss_others s" "ss_attached z = ss_attached s @ [k]"
    "ss_open z = ss_open s" "ss_transition z = Idle"
    using c by (simp_all add: z)
qed

lemma attach_commit_lease:
  assumes inv: "api_inv (s, pcs)" "lease_inv (s, pcs)" and pc: "pcs i = AttachLeased g q k"
  shows "lease_inv (attach_commit g identity q size_px k s, pcs(i := ApiOutside e))"
proof -
  let ?z = "attach_commit g identity q size_px k s"
  note frame = attach_commit_frame [of g identity q size_px k s]
  have own: "sole_owner s pcs" "transition_of (pcs i) \<noteq> Idle" using inv pc by (auto simp: api_inv_def)
  have none: "\<not> active_holds s m" for m using owner_turn(2) [OF own] pc by (simp add: active_holds_def)
  have before: "(\<exists>j. pins (pcs j) m) = (m = k)" for m using pins_owner [OF own, of m] pc by auto
  have after: "\<not> (\<exists>j. pins ((pcs(i := ApiOutside e)) j) m)" for m
    using pins_upd_owner [of i pcs "ApiOutside e" m, OF owner_turn(3) [OF own]] by auto
  have holders: "holders_of ?z (pcs(i := ApiOutside e)) m = holders_of s pcs m" for m
    unfolding holders_of_def before using after [of m] by (simp add: frame none)
  have live: "ss_open s" using busy_open [OF inv own(2)] by simp
  have k: "k < length (rt_resources (ss_table s))"
    using before [of k] by (intro lease_inv_holders(1) [OF inv(2)]) (simp add: holders_of_def)
  have out: "(pcs(i := ApiOutside e)) j \<noteq> AttachLeased g' q' m" for j g' q' m
    using owner_turn(3) [OF own, of j] by (cases "j = i") auto
  show ?thesis
    unfolding lease_inv_def prod.case holders frame
    using inv(2) none live k out by (auto simp: lease_inv_def simp del: fun_upd_apply)
qed

lemma detach_reserve_lease:
  assumes inv: "api_inv (s, pcs)" "lease_inv (s, pcs)" and pc: "pcs i = ApiOutside r" and d: "detach_reserve a n s = Ok (s', k)"
  shows "lease_inv (s', pcs(i := DetachReserved k))"
proof -
  obtain x t where idle: "ss_open s" "ss_transition s = Idle" and x: "ss_active_attachment s = Some x" "k = at_resource x"
    and t: "prepare_release k n (ss_table s) = Ok t"
    and s': "s' = s\<lparr> ss_table := t, ss_transition := Detaching, ss_transition_generation := Some (at_public_generation x) \<rparr>"
    using d by (auto simp: detach_reserve_def split: if_splits sum.splits option.splits bind_splits)
  have holds: "active_holds s m = (m = k)" for m using x by (auto simp: active_holds_def)
  have own: "sole_owner s pcs" using inv(1) by (simp add: api_inv_def)
  have before: "\<not> pins (pcs j) m" for j m using pins_idle [OF own idle(2)] .
  have after: "(\<exists>j. pins ((pcs(i := DetachReserved k)) j) m) = (m = k)" for m
    using pins_upd_owner [of i pcs "DetachReserved k" m] own idle(2) by (auto simp: sole_owner_def)
  have table: "release_inv (ss_table s)" using inv(2) by (simp add: lease_inv_def)
  obtain y where y: "k < length (rt_resources (ss_table s))" "y = rt_resources (ss_table s) ! k"
      "rt_resources t = (rt_resources (ss_table s))[k := y\<lparr> sr_registration := Some n, sr_strong := sr_strong y + 1 \<rparr>]"
      "sr_strong y \<noteq> 0 \<longrightarrow> release_inv t"
    using prepare_release_inv [OF table t] by blast
  have strong: "sr_strong (rt_resources (ss_table s) ! m) = ss_others s m + (if m = k then 1 else 0)"
    if "m < length (rt_resources (ss_table s))" for m
    using inv(2) that before by (auto simp: lease_inv_def holders_of_def holds)
  have holders: "holders_of s' (pcs(i := DetachReserved k)) m = holders_of s pcs m + (if m = k then 1 else 0)" for m
    unfolding holders_of_def after using before by (simp add: s' active_holds_def)
  have "holders_of s pcs k \<noteq> 0" by (simp add: holders_of_def holds)
  then have pos: "sr_strong y \<noteq> 0" using lease_inv_holders [OF inv(2)] y(2) by simp
  show ?thesis
  proof (rule lease_change [OF inv(2), where k = k and r' = "y\<lparr> sr_registration := Some n, sr_strong := sr_strong y + 1 \<rparr>"])
    show "(pcs(i := DetachReserved k)) j = AttachLeased g q m \<Longrightarrow> pcs j = AttachLeased g q m" for j g q m
      by (cases "j = i") auto
  qed (use y pos idle holds holders in \<open>auto simp: s' active_holds_def release_begun_def\<close>)
qed

lemma detach_commit_lease:
  assumes inv: "api_inv (s, pcs)" "lease_inv (s, pcs)" and pc: "pcs i = DetachClosed k" and d: "detach_commit s = Some s'"
  shows "lease_inv (s', pcs(i := ApiOutside e))"
proof -
  have own: "sole_owner s pcs" "transition_of (pcs i) \<noteq> Idle" using inv pc by (auto simp: api_inv_def)
  obtain x where x: "ss_active_attachment s = Some x" "k = at_resource x" using owner_turn(2) [OF own] pc by auto
  obtain t where t: "lease_drop k (ss_table s) = Some t"
    and s': "s' = s\<lparr> ss_active_attachment := None, ss_pending_loss := None, ss_transition_generation := None,
      ss_transition := Idle, ss_table := t, ss_others := (ss_others s)(k := ss_others s k + 1) \<rparr>"
    using d x by (auto simp: detach_commit_def release_commit_def Let_def split: bind_splits)
  have holds: "active_holds s m = (m = k)" for m using x by (auto simp: active_holds_def)
  have before: "(\<exists>j. pins (pcs j) m) = (m = k)" for m using pins_owner [OF own, of m] pc by auto
  have after: "\<not> (\<exists>j. pins ((pcs(i := ApiOutside e)) j) m)" for m
    using pins_upd_owner [of i pcs "ApiOutside e" m, OF owner_turn(3) [OF own]] by auto
  have table: "release_inv (ss_table s)" using inv(2) by (simp add: lease_inv_def)
  obtain y where y: "k < length (rt_resources (ss_table s))" "y = rt_resources (ss_table s) ! k"
      "t = set_resource k (y\<lparr> sr_strong := sr_strong y - 1, sr_drop := (if sr_strong y = 1 then Dropping else sr_drop y) \<rparr>) (ss_table s)"
      "release_inv t"
    using lease_drop_inv [OF table t] by blast
  have strong: "sr_strong (rt_resources (ss_table s) ! m) = ss_others s m + (if m = k then 2 else 0)"
    if "m < length (rt_resources (ss_table s))" for m
    using inv(2) that unfolding lease_inv_def prod.case holders_of_def before holds by auto
  have holders: "holders_of s' (pcs(i := ApiOutside e)) m = ss_others s m + (if m = k then 1 else 0)" for m
    unfolding holders_of_def using after [of m] by (simp add: s' active_holds_def)
  have t': "t = set_resource k (y\<lparr> sr_strong := sr_strong y - 1 \<rparr>) (ss_table s)"
    using y(2,3) strong [OF y(1)] by (cases y) simp
  have was: "holders_of s pcs m = ss_others s m + (if m = k then 2 else 0)" for m
    unfolding holders_of_def before holds by simp
  show ?thesis
  proof (rule lease_change [OF inv(2), where k = k and r' = "y\<lparr> sr_strong := sr_strong y - 1 \<rparr>"])
    show "(pcs(i := ApiOutside e)) j = AttachLeased g q m \<Longrightarrow> pcs j = AttachLeased g q m" for j g q m
      by (cases "j = i") auto
    show "\<not> ss_open s' \<Longrightarrow> ss_transition s' = Idle \<and> ss_active_attachment s' = None \<and> rt_pending_count (ss_table s') = 0"
      using busy_open(1) [OF inv own(2)] by (simp add: s')
    show "rt_resources (ss_table s') = (rt_resources (ss_table s))[k := y\<lparr> sr_strong := sr_strong y - 1 \<rparr>]"
      by (simp add: s' t' set_resource_def)
    show "holders_of s' (pcs(i := ApiOutside e)) k + sr_strong (rt_resources (ss_table s) ! k) =
        holders_of s pcs k + sr_strong (y\<lparr> sr_strong := sr_strong y - 1 \<rparr>)"
      unfolding holders was using strong [OF y(1)] y(2) by simp
    show "m \<noteq> k \<Longrightarrow> holders_of s' (pcs(i := ApiOutside e)) m = holders_of s pcs m" for m
      unfolding holders was by simp
  qed (use y busy_open(2) [OF inv own(2)] pc in \<open>simp_all add: s' active_holds_def release_begun_def\<close>)
qed

lemma same_lease:
  assumes "lease_inv (s, pcs)" "pcs i = ApiOutside r" shows "lease_inv (s, pcs(i := ApiOutside e))"
  by (rule lease_frame [OF assms(1)]) (simp_all add: assms(2))

lemma destroy_lease:
  assumes "pcs i = ApiOutside r" "session_destroy s = (e, s')" "lease_inv (s, pcs)"
  shows "lease_inv (s', pcs(i := ApiOutside e'))"
proof (cases "s' = s")
  case False
  then have idle: "ss_transition s = Idle" "ss_active_attachment s = None" "rt_pending_count (ss_table s) = 0"
    and s': "s' = s\<lparr> ss_open := False, ss_host := False, ss_platform_identity := None, ss_platform_context := False \<rparr>"
    using assms(2) by (auto simp: session_destroy_def split: if_splits)
  have holds: "active_holds s' = active_holds s" and holders: "holders_of s' = holders_of s"
    by (auto simp: s' holders_of_def active_holds_def fun_eq_iff)
  have same: "ss_table s' = ss_table s" "ss_attached s' = ss_attached s" "ss_transition s' = ss_transition s"
      "ss_active_attachment s' = ss_active_attachment s" by (simp_all add: s')
  show ?thesis
    using same_lease [OF assms(3,1), of e'] idle unfolding lease_inv_def prod.case holds holders same by blast
qed (use same_lease [OF assms(3,1)] in simp)

lemma lease_step_inv:
  assumes "api_step False x y" "api_inv x" "lease_inv x" shows "lease_inv y"
  using assms
proof (induction rule: api_step.induct)
  case (attach_reserved pcs i r g s s')
  have s': "ss_open s" "ss_transition s = Idle"
      "s' = s\<lparr> ss_transition := Attaching, ss_transition_generation := Some g, ss_callbacks_frozen := True \<rparr>"
    using attach_reserved(2) by (auto simp: attach_reserve_def split: if_splits sum.splits)
  show ?case by (rule lease_frame [OF attach_reserved(4)]) (use s' attach_reserved(1) in \<open>simp_all add: active_holds_def\<close>)
next
  case (attach_failed pcs i g h p w e s)
  then show ?case by (intro rollback_lease) auto
next
  case (attach_leased pcs i g h p w q ig s s' k)
  then show ?case by (intro attach_leased_lease)
next
  case (attach_committed pcs i g q k s identity size_px)
  then show ?case by (intro attach_commit_lease)
next
  case (update_reserved pcs i r a g s s')
  obtain x where s': "ss_open s" "ss_transition s = Idle"
      "s' = s\<lparr> ss_transition := Updating, ss_transition_generation := x \<rparr>"
    using update_reserved(2) by (auto simp: update_reserve_def split: if_splits sum.splits option.splits)
  show ?case by (rule lease_frame [OF update_reserved(4)]) (use s' update_reserved(1) in \<open>simp_all add: active_holds_def\<close>)
next
  case (update_failed pcs i s e)
  then show ?case by (intro rollback_lease) auto
next
  case (update_committed pcs i size_px s s')
  then show ?case by (intro update_lease)
next
  case (detach_reserved pcs i r a n s s' k)
  then show ?case by (intro detach_reserve_lease)
next
  case (detach_closed pcs i k s)
  have "ss_open s" using busy_open(1) [OF detach_closed(2,3), of i] detach_closed(1) by simp
  then show ?case
    by (intro lease_frame [OF detach_closed(3)]) (use detach_closed(1) in \<open>simp_all add: detach_close_def active_holds_def\<close>)
next
  case (detach_committed pcs i k s s')
  then show ?case by (intro detach_commit_lease)
next
  case (lost s pcs g reason)
  then show ?case by (intro lost_lease)
next
  case (destroyed pcs i r s e s')
  then show ?case by (intro destroy_lease)
next
  case (other_clone s k t pcs)
  then show ?case by (intro other_clone_lease)
next
  case (other_drop s k t pcs)
  then show ?case by (intro other_drop_lease)
next
  case (dropping k s t pcs)
  then show ?case by (intro dropping_lease)
qed (auto intro: same_lease)

lemma session_reachable:
  assumes "(api_step False)\<^sup>*\<^sup>* (session_new, \<lambda>_. ApiOutside MIGO_OK) x" shows "api_inv x \<and> lease_inv x"
  using assms
proof (induction rule: rtranclp_induct)
  case base
  have "lease_inv (session_new, \<lambda>_. ApiOutside MIGO_OK)"
    by (simp add: lease_inv_def session_new_def release_inv_def registered_def holders_of_def active_holds_def)
  with session_initial show ?case ..
next
  case (step y z)
  then show ?case using api_step_inv lease_step_inv by blast
qed

section \<open>An example run\<close>

text \<open>
  Generation 7 is attached; the renderer loses it; the host detaches; the engine and the
  call let go of their leases; the surface is released; the session is destroyed.
\<close>

definition run_reserved :: surface_session where
  "run_reserved = session_new\<lparr> ss_transition := Attaching, ss_transition_generation := Some 7, ss_callbacks_frozen := True \<rparr>"

definition run_leased :: surface_session where
  "run_leased = fst (lease_for_attach 7 1 run_reserved)"

definition run_attached :: surface_session where
  "run_attached = attach_commit 7 0 9 (640, 480) 0 run_leased"

definition run_lost :: surface_session where
  "run_lost = surface_lost 7 1 run_attached"

definition run_detaching :: surface_session where
  "run_detaching = (case detach_reserve 0 True run_lost of Some (Inr (s, k)) \<Rightarrow> detach_close s | _ \<Rightarrow> run_lost)"

definition run_detached :: surface_session where
  "run_detached = the (detach_commit run_detaching)"

definition let_go :: "surface_session \<Rightarrow> surface_session" where
  "let_go s = s\<lparr> ss_table := the (lease_drop 0 (ss_table s)), ss_others := (ss_others s)(0 := ss_others s 0 - 1) \<rparr>"

definition drop_on :: "surface_session \<Rightarrow> surface_session" where
  "drop_on s = s\<lparr> ss_table := the (drop_turn 0 (ss_table s)) \<rparr>"

definition run_released :: surface_session where
  "run_released = drop_on (drop_on (drop_on (drop_on (let_go (let_go run_detached)))))"

lemmas session_run_defs = run_reserved_def run_leased_def run_attached_def run_lost_def run_detaching_def run_detached_def
  session_new_def lease_for_attach_def resource_lease_new_def lease_clone_def set_resource_def attach_commit_def
  consume_pending_surface_loss_def surface_lost_def mark_surface_lost_def report_loss_def end_transition_def
  detach_reserve_def prepare_release_def usize_checked_add_def usize_max_def detach_close_def detach_commit_def
  release_commit_def lease_drop_def

lemma run_reserves: "attach_reserve 7 session_new = Inr run_reserved"
  by (simp add: attach_reserve_def run_reserved_def session_new_def validate_attach_generation_def session_consistent_def
      platform_state_is_consistent_def)

lemma run_lost_reachable:
  "(api_step False)\<^sup>*\<^sup>* (session_new, \<lambda>_. ApiOutside MIGO_OK) (run_lost, \<lambda>_. ApiOutside MIGO_OK)"
proof -
  let ?n = "\<lambda>_ :: nat. ApiOutside MIGO_OK"
  note r = run_reserves
  have w: "attach_work_result False None (BuildDone 9 (HostLease 1)) = Inr (9, HostLease 1)"
    by (simp add: attach_work_result_def validate_platform_identity_def)
  have l: "lease_for_attach 7 1 run_reserved = (run_leased, 0)"
    by (simp add: run_leased_def lease_for_attach_def resource_lease_new_def run_reserved_def session_new_def)
  have none: "ss_host session_new = False" "ss_platform_identity session_new = None" by (simp_all add: session_new_def)
  have 1: "api_step False (session_new, ?n) (run_reserved, ?n(0 := AttachReserved 7 False None))"
    using attach_reserved [of ?n 0 MIGO_OK 7 session_new run_reserved False] r by (simp add: none)
  have 2: "api_step False (run_reserved, ?n(0 := AttachReserved 7 False None)) (run_leased, ?n(0 := AttachLeased 7 9 0))"
    using attach_leased [of "?n(0 := AttachReserved 7 False None)" 0 7 False None, OF _ w l, of False] by simp
  have 3: "api_step False (run_leased, ?n(0 := AttachLeased 7 9 0)) (run_attached, ?n)"
    using attach_committed [of "?n(0 := AttachLeased 7 9 0)" 0 7 9 0 False run_leased 0 "(640, 480)"]
    by (simp add: run_attached_def fun_upd_idem)
  have 4: "api_step False (run_attached, ?n) (run_lost, ?n)"
    unfolding run_lost_def by (rule lost)
  note next_step = rtranclp.rtrancl_into_rtrancl [of "api_step False"]
  show ?thesis by (rule next_step [OF next_step [OF next_step [OF r_into_rtranclp [of "api_step False", OF 1] 2] 3] 4])
qed

lemma run_released_reachable:
  "(api_step False)\<^sup>*\<^sup>* (session_new, \<lambda>_. ApiOutside MIGO_OK) (run_released, \<lambda>_. ApiOutside MIGO_OK)"
proof -
  let ?n = "\<lambda>_ :: nat. ApiOutside MIGO_OK"
  obtain s where s: "detach_reserve 0 True run_lost = Ok (s, 0)" "detach_close s = run_detaching"
    by (simp add: session_run_defs)
  have c: "detach_commit run_detaching = Some run_detached" by (simp add: session_run_defs)
  have d: "0 < ss_others run_detached 0" "lease_drop 0 (ss_table run_detached) = Some (the (lease_drop 0 (ss_table run_detached)))"
      "0 < ss_others (let_go run_detached) 0"
      "lease_drop 0 (ss_table (let_go run_detached)) = Some (the (lease_drop 0 (ss_table (let_go run_detached))))"
    by (simp_all add: session_run_defs let_go_def)
  let ?step = "api_step False"
  note next_step = rtranclp.rtrancl_into_rtrancl [of ?step]
  have go: "?step\<^sup>*\<^sup>* (session_new, ?n) (let_go s, ?n)"
    if "?step\<^sup>*\<^sup>* (session_new, ?n) (s, ?n)" "0 < ss_others s 0" "lease_drop 0 (ss_table s) = Some (the (lease_drop 0 (ss_table s)))" for s
    unfolding let_go_def by (rule next_step [OF that(1) other_drop [OF that(2,3)]])
  have on: "?step\<^sup>*\<^sup>* (session_new, ?n) (drop_on s, ?n)"
    if "?step\<^sup>*\<^sup>* (session_new, ?n) (s, ?n)" "drop_turn 0 (ss_table s) = Some (the (drop_turn 0 (ss_table s)))" for s
    unfolding drop_on_def by (rule next_step [OF that(1) dropping [OF that(2)]])
  have 1: "?step (run_lost, ?n) (s, ?n(0 := DetachReserved 0))"
    using detach_reserved [of ?n 0 MIGO_OK 0 True run_lost s 0 False] s(1) by simp
  have 2: "?step (s, ?n(0 := DetachReserved 0)) (run_detaching, ?n(0 := DetachClosed 0))"
    using detach_closed [of "?n(0 := DetachReserved 0)" 0 0 False s] by (simp add: s(2))
  have 3: "?step (run_detaching, ?n(0 := DetachClosed 0)) (run_detached, ?n)"
    using detach_committed [of "?n(0 := DetachClosed 0)" 0 0 run_detaching run_detached False] c by (simp add: fun_upd_idem)
  have gone: "?step\<^sup>*\<^sup>* (session_new, ?n) (let_go (let_go run_detached), ?n)"
    by (rule go [OF go [OF next_step [OF next_step [OF next_step [OF run_lost_reachable 1] 2] 3] d(1,2)] d(3,4)])
  have e: "drop_turn 0 (ss_table s) = Some (the (drop_turn 0 (ss_table s)))"
    if "s \<in> {let_go (let_go run_detached), drop_on (let_go (let_go run_detached)), drop_on (drop_on (let_go (let_go run_detached))),
      drop_on (drop_on (drop_on (let_go (let_go run_detached))))}" for s
    using that by (auto simp: session_run_defs let_go_def drop_on_def drop_turn_def drop_anchor_def complete_turn_def)
  show ?thesis unfolding run_released_def by (rule on [OF on [OF on [OF on [OF gone e] e] e] e]) simp_all
qed


lemma run_released_facts:
  "ss_open run_released" "ss_transition run_released = Idle" "ss_active_attachment run_released = None"
  "session_consistent run_released" "rt_pending_count (ss_table run_released) = 0" "ss_attached run_released = [0]"
  "observer_phase 0 (ss_table run_released) = Some PhaseReleased"
  by (simp_all add: run_released_def session_run_defs let_go_def drop_on_def drop_turn_def drop_anchor_def complete_turn_def
      session_consistent_def platform_state_is_consistent_def observer_phase_def)

section \<open>Properties\<close>





text \<open>
  A session is never stranded: when no call is in progress, none is owed the surface
  any more, and once the attachment is gone and every surface ever attached reads
  RELEASED, destroying the session succeeds.
\<close>

lemma session_can_be_destroyed:
  assumes "(api_step False)\<^sup>*\<^sup>* (session_new, \<lambda>_. ApiOutside MIGO_OK) (s, pcs)"
    and "\<forall>i. \<exists>e. pcs i = ApiOutside e" "ss_open s"
  shows "ss_transition s = Idle \<and>
    (ss_active_attachment s = None \<and>
      (\<forall>k \<in> set (ss_attached s). observer_phase k (ss_table s) = Some PhaseReleased) \<longrightarrow>
     fst (session_destroy s) = MIGO_OK)"
proof -
  have inv: "api_inv (s, pcs)" "lease_inv (s, pcs)" using session_reachable [OF assms(1)] by simp_all
  have idle: "ss_transition s = Idle"
  proof (rule ccontr)
    assume "ss_transition s \<noteq> Idle"
    then obtain i where "transition_of (pcs i) \<noteq> Idle" using inv(1) by (simp add: api_inv_def sole_owner_def) metis
    then show False using assms(2) by (metis transition_of.simps(1))
  qed
  have "rt_pending_count (ss_table s) = 0"
    if "\<forall>k \<in> set (ss_attached s). observer_phase k (ss_table s) = Some PhaseReleased"
  proof -
    have "sr_registration r = None" if r: "r \<in> set (rt_resources (ss_table s))" for r
    proof (rule ccontr)
      obtain k where k: "k < length (rt_resources (ss_table s))" "r = rt_resources (ss_table s) ! k" using r by (auto simp: in_set_conv_nth)
      assume "sr_registration r \<noteq> None"
      moreover from this k have "k \<in> set (ss_attached s)" using inv(2) by (simp add: lease_inv_def)
      moreover have "resource_ok r" using resource_at [of "ss_table s" k] inv(2) k by (simp add: lease_inv_def)
      ultimately show False
        using \<open>\<forall>k \<in> set (ss_attached s). observer_phase k (ss_table s) = Some PhaseReleased\<close> k
        by (auto simp: observer_phase_def resource_ok_def)
    qed
    then show ?thesis using inv(2) by (simp add: lease_inv_def release_inv_def registered_def filter_empty_conv)
  qed
  then show ?thesis
    using idle assms(3) inv(1) by (auto simp: session_destroy_def api_inv_def)
qed

lemma session_can_be_destroyed_witness:
  "ss_transition run_released = Idle \<and> fst (session_destroy run_released) = MIGO_OK"
  using session_can_be_destroyed [OF run_released_reachable] by (simp add: run_released_facts)

section \<open>A missing launch nonce\<close>

text \<open>
  A build for external frames whose session has no launch nonce returns from the attach
  after the reservation and before the rollback: no call is in progress, but the session
  can be neither attached nor destroyed.
\<close>

lemma missing_nonce_strands_session:
  "\<exists>s. (api_step True)\<^sup>*\<^sup>* (session_new, \<lambda>_. ApiOutside MIGO_OK) (s, (\<lambda>_. ApiOutside MIGO_OK)(0 := ApiOutside MIGO_ERROR_INVALID_STATE)) \<and>
     ss_open s \<and> ss_active_attachment s = None \<and> ss_attached s = [] \<and>
     session_destroy s = (MIGO_ERROR_INVALID_STATE, s) \<and> (\<forall>g. attach_reserve g s = Inl MIGO_ERROR_INVALID_STATE)"
proof -
  let ?n = "\<lambda>_ :: nat. ApiOutside MIGO_OK" and ?a = "AttachReserved 7 False None"
  have 1: "api_step True (session_new, ?n) (run_reserved, ?n(0 := ?a))"
    using attach_reserved [of ?n 0 MIGO_OK, OF _ run_reserves, of True] by (simp add: session_new_def)
  have "attach_work_result False None (BuildDone 9 NonceMissing) = Inr (9, NonceMissing)"
    by (simp add: attach_work_result_def validate_platform_identity_def)
  then have 2: "api_step True (run_reserved, ?n(0 := ?a)) (run_reserved, ?n(0 := ApiOutside MIGO_ERROR_INVALID_STATE))"
    using attach_without_nonce [of "?n(0 := ?a)" 0 7 None _ 9 True run_reserved] by simp
  note rtranclp.rtrancl_into_rtrancl [of "api_step True", OF r_into_rtranclp [of "api_step True", OF 1] 2]
  moreover have "session_destroy run_reserved = (MIGO_ERROR_INVALID_STATE, run_reserved)"
      "\<forall>g. attach_reserve g run_reserved = Inl MIGO_ERROR_INVALID_STATE"
      "ss_open run_reserved" "ss_active_attachment run_reserved = None" "ss_attached run_reserved = []"
    by (simp_all add: session_destroy_def attach_reserve_def run_reserved_def session_new_def)
  ultimately show ?thesis by blast
qed

end
