(* ===== verification/Permission_Gate.thy ===== *)
theory Permission_Gate
  imports Prelude
begin

text \<open>
  The permission gate of the Android platform (\<open>platform/src/android_permission_gate.rs\<close>):
  admission of sessions, protected operations under a counted lease, grants and
  revocations, and the end of a session. Every section under a lock is a step of the
  thread that runs it; waiting for the condition variable is a step that is possible
  when the count is zero. A control block is named by its position, as its \<open>Arc\<close> is.
\<close>

section \<open>State\<close>

datatype scope = UserInfo | UserLocation | UserLocationBackground | Address | InvoiceTitle | Invoice | WeRun | Record
  | WritePhotosAlbum | Camera | Bluetooth | AddPhoneContact | AddPhoneCalendar | FriendInteraction | GameClubData

datatype gate_lifecycle = LifecycleActive | LifecycleClosing

record host_control =
  hc_transition :: "nat option"
  hc_lifecycle :: gate_lifecycle
  hc_scopes :: "scope \<rightharpoonup> bool"
  hc_active_operations :: nat

record permission_gate =
  pg_retired :: "int set"
  pg_live :: "int \<rightharpoonup> nat"
  pg_controls :: "host_control list"

datatype denied = Denied
datatype 'e update_error = UpdateClosed | CleanupError 'e

definition gate_default :: permission_gate where
  "gate_default = \<lparr> pg_retired = {}, pg_live = Map.empty, pg_controls = [] \<rparr>"

definition host_control_new :: host_control where
  "host_control_new = \<lparr> hc_transition = None, hc_lifecycle = LifecycleActive, hc_scopes = Map.empty, hc_active_operations = 0 \<rparr>"

definition host_state :: "permission_gate \<Rightarrow> int \<Rightarrow> nat option" where
  "host_state g host_id = pg_live g host_id"

definition control_at :: "permission_gate \<Rightarrow> nat \<Rightarrow> host_control" where
  "control_at g k = pg_controls g ! k"

definition set_control :: "nat \<Rightarrow> host_control \<Rightarrow> permission_gate \<Rightarrow> permission_gate" where
  "set_control k c g = g\<lparr> pg_controls := (pg_controls g)[k := c] \<rparr>"

section \<open>Operations\<close>

definition gate_open :: "int \<Rightarrow> permission_gate \<Rightarrow> permission_gate \<times> bool" where
  "gate_open host_id g =
     (if host_id \<in> pg_retired g \<or> pg_live g host_id \<noteq> None then (g, False)
      else (g\<lparr> pg_live := (pg_live g)(host_id \<mapsto> length (pg_controls g)),
              pg_controls := pg_controls g @ [host_control_new] \<rparr>, True))"

definition is_retired :: "permission_gate \<Rightarrow> int \<Rightarrow> bool" where
  "is_retired g host_id \<longleftrightarrow> host_id \<in> pg_retired g"

text \<open>A session's handle is its control block, or nothing for a retired session; a debug build refuses the latter loudly.\<close>

definition open_session :: "bool \<Rightarrow> int \<Rightarrow> permission_gate \<Rightarrow> (permission_gate \<times> nat option) option" where
  "open_session debug_assertions host_id g = (case gate_open host_id g of (g, opened) \<Rightarrow>
     if \<not> opened \<and> is_retired g host_id \<and> debug_assertions then Panic else Some (g, host_state g host_id))"

text \<open>\<open>SessionGate::run\<close>: the admission, and the end of the lease.\<close>

definition run_admit :: "nat option \<Rightarrow> scope option \<Rightarrow> permission_gate \<Rightarrow> denied + permission_gate" where
  "run_admit host required_scope g = (case host of
     None \<Rightarrow> Inl Denied
   | Some k \<Rightarrow>
       let state = control_at g k in
       if hc_lifecycle state = LifecycleClosing then Inl Denied
       else if (case required_scope of None \<Rightarrow> False | Some scope \<Rightarrow> hc_scopes state scope \<noteq> Some True) then Inl Denied
       else Inr (set_control k (state\<lparr> hc_active_operations := hc_active_operations state + 1 \<rparr>) g))"

definition operation_end :: "nat \<Rightarrow> permission_gate \<Rightarrow> permission_gate option" where
  "operation_end k g = (let state = control_at g k in
     if hc_active_operations state = 0 then Panic
     else Some (set_control k (state\<lparr> hc_active_operations := hc_active_operations state - 1 \<rparr>) g))"

definition scope_state :: "nat option \<Rightarrow> scope \<Rightarrow> permission_gate \<Rightarrow> bool option" where
  "scope_state host scope g = (case host of
     None \<Rightarrow> None
   | Some k \<Rightarrow> if hc_lifecycle (control_at g k) = LifecycleClosing then None else hc_scopes (control_at g k) scope)"

text \<open>The transition mutex of a control block.\<close>

definition transition_lock :: "nat \<Rightarrow> nat \<Rightarrow> permission_gate \<Rightarrow> permission_gate option" where
  "transition_lock i k g = (if hc_transition (control_at g k) = None
     then Some (set_control k ((control_at g k)\<lparr> hc_transition := Some i \<rparr>) g) else None)"

definition transition_unlock :: "nat \<Rightarrow> permission_gate \<Rightarrow> permission_gate" where
  "transition_unlock k g = set_control k ((control_at g k)\<lparr> hc_transition := None \<rparr>) g"

text \<open>The first section of \<open>update\<close>, and that of \<open>clear_with\<close>.\<close>

definition update_set :: "nat \<Rightarrow> scope \<Rightarrow> bool \<Rightarrow> permission_gate \<Rightarrow> 'e update_error + permission_gate" where
  "update_set k scope granted g = (let state = control_at g k in
     if hc_lifecycle state = LifecycleClosing then Inl UpdateClosed
     else Inr (set_control k (state\<lparr> hc_scopes := (hc_scopes state)(scope \<mapsto> granted) \<rparr>) g))"

definition clear_close :: "nat \<Rightarrow> permission_gate \<Rightarrow> permission_gate" where
  "clear_close k g = set_control k ((control_at g k)\<lparr> hc_lifecycle := LifecycleClosing, hc_scopes := Map.empty \<rparr>) g"

definition is_idle :: "nat \<Rightarrow> permission_gate \<Rightarrow> bool" where
  "is_idle k g \<longleftrightarrow> hc_active_operations (control_at g k) = 0"

definition clear_remove :: "int \<Rightarrow> nat \<Rightarrow> permission_gate \<Rightarrow> permission_gate" where
  "clear_remove host_id k g =
     (if pg_live g host_id = Some k
      then g\<lparr> pg_live := (pg_live g)(host_id := None), pg_retired := insert host_id (pg_retired g) \<rparr>
      else g)"

section \<open>Threads\<close>

datatype 'e gate_result =
    GateNotCalled | SessionOpened "nat option" | RunDenied | RunDone | ScopeRead "bool option"
  | Updated "'e update_error + unit" | Cleared

datatype 'e gate_pc =
    GateOutside "'e gate_result"
  | Running nat "scope option"
  | UpdateLock nat scope bool | UpdateSet nat scope bool | UpdateWait nat scope | UpdateCleanup nat scope
  | UpdateReturn nat "'e update_error + unit"
  | ClearLock int nat | ClearClose int nat | ClearWait int nat | ClearRemove int nat | ClearReturn nat

inductive gate_step :: "nat \<Rightarrow> permission_gate \<times> 'e gate_pc list \<Rightarrow> permission_gate \<times> 'e gate_pc list \<Rightarrow> bool"
  for i :: nat where
  session: "i < length ts \<Longrightarrow> ts ! i = GateOutside r \<Longrightarrow> open_session debug h g = Some (g', handle) \<Longrightarrow>
     gate_step i (g, ts) (g', ts[i := GateOutside (SessionOpened handle)])"
| run: "i < length ts \<Longrightarrow> ts ! i = GateOutside r \<Longrightarrow> k < length (pg_controls g) \<Longrightarrow> run_admit (Some k) scope g = Inr g' \<Longrightarrow>
     gate_step i (g, ts) (g', ts[i := Running k scope])"
| run_refused: "i < length ts \<Longrightarrow> ts ! i = GateOutside r \<Longrightarrow>
     (case handle of None \<Rightarrow> True | Some k \<Rightarrow> k < length (pg_controls g)) \<Longrightarrow> run_admit handle scope g = Inl Denied \<Longrightarrow>
     gate_step i (g, ts) (g, ts[i := GateOutside RunDenied])"
| run_end: "i < length ts \<Longrightarrow> ts ! i = Running k scope \<Longrightarrow> operation_end k g = Some g' \<Longrightarrow>
     gate_step i (g, ts) (g', ts[i := GateOutside RunDone])"
| read_scope: "i < length ts \<Longrightarrow> ts ! i = GateOutside r \<Longrightarrow>
     (case handle of None \<Rightarrow> True | Some k \<Rightarrow> k < length (pg_controls g)) \<Longrightarrow>
     gate_step i (g, ts) (g, ts[i := GateOutside (ScopeRead (scope_state handle scope g))])"
| update_absent: "i < length ts \<Longrightarrow> ts ! i = GateOutside r \<Longrightarrow> host_state g h = None \<Longrightarrow>
     gate_step i (g, ts) (g, ts[i := GateOutside (Updated (Inl UpdateClosed))])"
| update_found: "i < length ts \<Longrightarrow> ts ! i = GateOutside r \<Longrightarrow> host_state g h = Some k \<Longrightarrow>
     gate_step i (g, ts) (g, ts[i := UpdateLock k scope granted])"
| update_locked: "i < length ts \<Longrightarrow> ts ! i = UpdateLock k scope granted \<Longrightarrow> transition_lock i k g = Some g' \<Longrightarrow>
     gate_step i (g, ts) (g', ts[i := UpdateSet k scope granted])"
| update_closed: "i < length ts \<Longrightarrow> ts ! i = UpdateSet k scope granted \<Longrightarrow> update_set k scope granted g = Inl e \<Longrightarrow>
     gate_step i (g, ts) (g, ts[i := UpdateReturn k (Inl e)])"
| update_recorded: "i < length ts \<Longrightarrow> ts ! i = UpdateSet k scope granted \<Longrightarrow>
     update_set k scope granted g = (Inr g' :: 'e update_error + permission_gate) \<Longrightarrow>
     gate_step i (g, ts) (g', ts[i := if granted then UpdateReturn k (Inr ()) else UpdateWait k scope])"
| update_waited: "i < length ts \<Longrightarrow> ts ! i = UpdateWait k scope \<Longrightarrow> is_idle k g \<Longrightarrow>
     gate_step i (g, ts) (g, ts[i := UpdateCleanup k scope])"
| update_cleaned: "i < length ts \<Longrightarrow> ts ! i = UpdateCleanup k scope \<Longrightarrow>
     gate_step i (g, ts) (g, ts[i := UpdateReturn k (map_sum CleanupError id outcome)])"
| update_returned: "i < length ts \<Longrightarrow> ts ! i = UpdateReturn k r \<Longrightarrow>
     gate_step i (g, ts) (transition_unlock k g, ts[i := GateOutside (Updated r)])"
| clear_absent: "i < length ts \<Longrightarrow> ts ! i = GateOutside r \<Longrightarrow> host_state g h = None \<Longrightarrow>
     gate_step i (g, ts) (g, ts[i := GateOutside Cleared])"
| clear_found: "i < length ts \<Longrightarrow> ts ! i = GateOutside r \<Longrightarrow> host_state g h = Some k \<Longrightarrow>
     gate_step i (g, ts) (g, ts[i := ClearLock h k])"
| clear_locked: "i < length ts \<Longrightarrow> ts ! i = ClearLock h k \<Longrightarrow> transition_lock i k g = Some g' \<Longrightarrow>
     gate_step i (g, ts) (g', ts[i := ClearClose h k])"
| clear_closed: "i < length ts \<Longrightarrow> ts ! i = ClearClose h k \<Longrightarrow>
     gate_step i (g, ts) (clear_close k g, ts[i := ClearWait h k])"
| clear_waited: "i < length ts \<Longrightarrow> ts ! i = ClearWait h k \<Longrightarrow> is_idle k g \<Longrightarrow>
     gate_step i (g, ts) (g, ts[i := ClearRemove h k])"
| clear_removed: "i < length ts \<Longrightarrow> ts ! i = ClearRemove h k \<Longrightarrow>
     gate_step i (g, ts) (clear_remove h k g, ts[i := ClearReturn k])"
| clear_returned: "i < length ts \<Longrightarrow> ts ! i = ClearReturn k \<Longrightarrow>
     gate_step i (g, ts) (transition_unlock k g, ts[i := GateOutside Cleared])"

definition gate_run :: "permission_gate \<times> 'e gate_pc list \<Rightarrow> permission_gate \<times> 'e gate_pc list \<Rightarrow> bool" where
  "gate_run = (\<lambda>x y. \<exists>i. gate_step i x y)\<^sup>*\<^sup>*"

section \<open>The invariant\<close>

definition runs_on :: "nat \<Rightarrow> 'e gate_pc \<Rightarrow> bool" where
  "runs_on k pc \<longleftrightarrow> (\<exists>scope. pc = Running k scope)"

text \<open>The control block whose transition mutex a thread holds.\<close>

fun holds :: "'e gate_pc \<Rightarrow> nat option" where
  "holds (UpdateSet k s b) = Some k" | "holds (UpdateWait k s) = Some k" | "holds (UpdateCleanup k s) = Some k"
| "holds (UpdateReturn k r) = Some k" | "holds (ClearClose h k) = Some k" | "holds (ClearWait h k) = Some k"
| "holds (ClearRemove h k) = Some k" | "holds (ClearReturn k) = Some k" | "holds pc = None"

fun about :: "'e gate_pc \<Rightarrow> nat option" where
  "about (GateOutside r) = None" | "about (Running k s) = Some k" | "about (UpdateLock k s b) = Some k"
| "about (ClearLock h k) = Some k" | "about pc = holds pc"

fun pc_sees :: "host_control \<Rightarrow> 'e gate_pc \<Rightarrow> bool" where
  "pc_sees c (UpdateWait k scope) \<longleftrightarrow> hc_scopes c scope \<noteq> Some True"
| "pc_sees c (UpdateCleanup k scope) \<longleftrightarrow> hc_scopes c scope \<noteq> Some True"
| "pc_sees c (ClearWait h k) \<longleftrightarrow> hc_lifecycle c = LifecycleClosing"
| "pc_sees c (ClearRemove h k) \<longleftrightarrow> hc_lifecycle c = LifecycleClosing \<and> hc_active_operations c = 0"
| "pc_sees c pc \<longleftrightarrow> True"

definition pc_fits :: "permission_gate \<Rightarrow> nat \<Rightarrow> 'e gate_pc \<Rightarrow> bool" where
  "pc_fits g i pc \<longleftrightarrow> (\<forall>k. about pc = Some k \<longrightarrow> k < length (pg_controls g) \<and> pc_sees (control_at g k) pc) \<and>
     (\<forall>k. holds pc = Some k \<longrightarrow> hc_transition (control_at g k) = Some i)"

definition maps_fit :: "permission_gate \<Rightarrow> bool" where
  "maps_fit g \<longleftrightarrow> (\<forall>h k. pg_live g h = Some k \<longrightarrow> k < length (pg_controls g) \<and> h \<notin> pg_retired g) \<and> inj_on (pg_live g) (dom (pg_live g)) \<and>
     (\<forall>k < length (pg_controls g). k \<notin> ran (pg_live g) \<longrightarrow>
        hc_lifecycle (control_at g k) = LifecycleClosing \<and> hc_active_operations (control_at g k) = 0)"

definition locks_fit :: "permission_gate \<Rightarrow> 'e gate_pc list \<Rightarrow> bool" where
  "locks_fit g ts \<longleftrightarrow> (\<forall>k < length (pg_controls g). \<forall>i. hc_transition (control_at g k) = Some i \<longrightarrow>
     i < length ts \<and> holds (ts ! i) = Some k)"

definition counts_fit :: "permission_gate \<Rightarrow> 'e gate_pc list \<Rightarrow> bool" where
  "counts_fit g ts \<longleftrightarrow> (\<forall>k < length (pg_controls g). hc_active_operations (control_at g k) = length (filter (runs_on k) ts))"

definition cleanup_alone :: "'e gate_pc list \<Rightarrow> bool" where
  "cleanup_alone ts \<longleftrightarrow> (\<forall>k scope. UpdateCleanup k scope \<in> set ts \<longrightarrow> Running k (Some scope) \<notin> set ts)"

definition gate_inv :: "permission_gate \<times> 'e gate_pc list \<Rightarrow> bool" where
  "gate_inv = (\<lambda>(g, ts). maps_fit g \<and> locks_fit g ts \<and> counts_fit g ts \<and> cleanup_alone ts \<and>
     (\<forall>i < length ts. pc_fits g i (ts ! i)))"

lemmas gate_parts = maps_fit_def locks_fit_def counts_fit_def

lemma runs_on_simps [simp]:
  "runs_on k (Running m rs) \<longleftrightarrow> m = k" "\<not> runs_on k (GateOutside r)" "\<not> runs_on k (UpdateLock m s b)" "\<not> runs_on k (UpdateSet m s b)"
  "\<not> runs_on k (UpdateWait m s)" "\<not> runs_on k (UpdateCleanup m s)" "\<not> runs_on k (UpdateReturn m u)" "\<not> runs_on k (ClearLock h m)"
  "\<not> runs_on k (ClearClose h m)" "\<not> runs_on k (ClearWait h m)" "\<not> runs_on k (ClearRemove h m)" "\<not> runs_on k (ClearReturn m)"
  by (auto simp: runs_on_def)

lemma holds_about: "holds pc = Some k \<Longrightarrow> about pc = Some k"
  by (cases pc) auto

lemma control_at_set [simp]:
  "k < length (pg_controls g) \<Longrightarrow> control_at (set_control k c g) m = (if m = k then c else control_at g m)"
  "length (pg_controls (set_control k c g)) = length (pg_controls g)"
  "pg_live (set_control k c g) = pg_live g" "pg_retired (set_control k c g) = pg_retired g"
  by (auto simp: control_at_def set_control_def nth_list_update)

text \<open>
  A step of thread \<open>i\<close> that changes the control block \<open>k\<close>: either it owns the block's
  transition (or takes it while it is free), or it only moves the count.
\<close>

definition control_moves :: "nat \<Rightarrow> host_control \<Rightarrow> host_control \<Rightarrow> bool" where
  "control_moves i c c' \<longleftrightarrow>
     (hc_lifecycle c = LifecycleClosing \<longrightarrow> hc_lifecycle c' = LifecycleClosing \<and> hc_active_operations c' \<le> hc_active_operations c) \<and>
     (hc_transition c = None \<or> hc_transition c = Some i \<or>
      hc_transition c' = hc_transition c \<and> hc_scopes c' = hc_scopes c \<and> hc_lifecycle c' = hc_lifecycle c)"

lemma gate_changed:
  assumes inv: "gate_inv (g, ts)" and i: "i < length ts" and k: "k < length (pg_controls g)"
    and moves: "control_moves i (control_at g k) c"
    and fits: "pc_fits (set_control k c g) i pc"
    and count: "hc_active_operations c + (if runs_on k (ts ! i) then 1 else 0) = hc_active_operations (control_at g k) + (if runs_on k pc then 1 else 0)"
    and other: "\<And>m. m \<noteq> k \<Longrightarrow> runs_on m pc = runs_on m (ts ! i)" "\<And>m. m \<noteq> k \<Longrightarrow> holds (ts ! i) = Some m \<Longrightarrow> holds pc = Some m"
    and trans: "hc_transition c = Some i \<Longrightarrow> holds pc = Some k" "hc_transition c = None \<or> hc_transition c = Some i \<or> hc_transition c = hc_transition (control_at g k)"
    and alone: "cleanup_alone (ts[i := pc])"
  shows "gate_inv (set_control k c g, ts[i := pc])"
proof -
  let ?g = "set_control k c g" and ?ts = "ts[i := pc]"
  have fit: "\<forall>j < length ts. pc_fits g j (ts ! j)" and maps: "maps_fit g" and locks: "locks_fit g ts" and counts: "counts_fit g ts"
    using inv by (simp_all add: gate_inv_def)
  have "maps_fit ?g"
    using maps moves k by (auto simp: maps_fit_def control_moves_def)
  moreover have "locks_fit ?g ?ts"
    unfolding locks_fit_def
  proof (intro allI impI)
    fix m j assume m: "m < length (pg_controls ?g)" and h: "hc_transition (control_at ?g m) = Some j"
    show "j < length ?ts \<and> holds (?ts ! j) = Some m"
    proof (cases "m = k")
      case True
      then have c: "hc_transition c = Some j" using h k by simp
      show ?thesis
      proof (cases "j = i")
        case True
        then show ?thesis using c trans(1) i \<open>m = k\<close> by simp
      next
        case False
        then have "hc_transition (control_at g k) = Some j" using c trans(2) by auto
        then show ?thesis using locks k False \<open>m = k\<close> by (auto simp: locks_fit_def)
      qed
    next
      case False
      then have "hc_transition (control_at g m) = Some j" using h k by simp
      then have "j < length ts" "holds (ts ! j) = Some m" using locks m by (auto simp: locks_fit_def)
      then show ?thesis using other(2) False by (cases "j = i") auto
    qed
  qed
  moreover have "counts_fit ?g ?ts"
    unfolding counts_fit_def
  proof (intro allI impI)
    fix m assume m: "m < length (pg_controls ?g)"
    then have "hc_active_operations (control_at g m) = length (filter (runs_on m) ts)" using counts by (simp add: counts_fit_def)
    then show "hc_active_operations (control_at ?g m) = length (filter (runs_on m) ?ts)"
      using length_filter_update [OF i, of "runs_on m" pc] count other(1) k by (cases "m = k") (auto split: if_splits)
  qed
  moreover have "pc_fits ?g j (?ts ! j)" if j: "j < length ?ts" for j
  proof (cases "j = i")
    case True
    then show ?thesis using fits i by simp
  next
    case False
    have f: "pc_fits g j (ts ! j)" using fit j by simp
    have "pc_sees c (ts ! j)" if a: "about (ts ! j) = Some k"
    proof (cases "holds (ts ! j) = Some k")
      case True
      then have t: "hc_transition (control_at g k) = Some j" using f by (simp add: pc_fits_def)
      have "pc_sees (control_at g k) (ts ! j)" using f a by (simp add: pc_fits_def)
      then show ?thesis using moves t False by (cases "ts ! j") (auto simp: control_moves_def)
    next
      case False
      then show ?thesis using a by (cases "ts ! j") auto
    qed
    moreover have "hc_transition c = Some j" if "holds (ts ! j) = Some k"
      using f that moves False by (auto simp: pc_fits_def control_moves_def)
    ultimately show ?thesis using f k False by (auto simp: pc_fits_def)
  qed
  ultimately show ?thesis using alone by (simp add: gate_inv_def)
qed

text \<open>A step that leaves the gate as it is.\<close>

lemma gate_stay:
  assumes "gate_inv (g, ts)" "i < length ts" "pc_fits g i pc" "\<And>m. runs_on m pc = runs_on m (ts ! i)" "holds pc = holds (ts ! i)"
    and "cleanup_alone (ts[i := pc])"
  shows "gate_inv (g, ts[i := pc])"
proof -
  have "length (filter (runs_on m) (ts[i := pc])) = length (filter (runs_on m) ts)" for m
    using length_filter_update [OF assms(2), of "runs_on m" pc] assms(4) by (simp split: if_splits)
  then show ?thesis
    using assms unfolding gate_inv_def locks_fit_def counts_fit_def by (auto simp: nth_list_update)
qed

lemma cleanup_alone_change:
  assumes "cleanup_alone ts" "\<And>k s. pc \<noteq> UpdateCleanup k s" "\<And>k s. pc \<noteq> Running k (Some s)"
  shows "cleanup_alone (ts[i := pc])"
  unfolding cleanup_alone_def
proof (intro allI impI)
  fix k s assume "UpdateCleanup k s \<in> set (ts[i := pc])"
  then have "UpdateCleanup k s \<in> set ts" using assms(2) set_update_subset_insert [of ts i pc] by (metis insert_iff subsetD)
  then show "Running k (Some s) \<notin> set (ts[i := pc])"
    using assms(1,3) set_update_subset_insert [of ts i pc] unfolding cleanup_alone_def by (metis insert_iff subsetD)
qed

lemma gate_inv_at:
  assumes "gate_inv (g, ts)" "i < length ts"
  shows "pc_fits g i (ts ! i)" "cleanup_alone ts" "maps_fit g"
  using assms by (simp_all add: gate_inv_def)

lemma gate_open_inv:
  assumes inv: "gate_inv (g, ts)" and new: "gate_open h g = (g', opened)"
  shows "gate_inv (g', ts)"
proof (cases "h \<in> pg_retired g \<or> pg_live g h \<noteq> None")
  case True
  then show ?thesis using assms by (simp add: gate_open_def)
next
  case False
  let ?n = "length (pg_controls g)"
  have g': "g' = g\<lparr> pg_live := (pg_live g)(h \<mapsto> ?n), pg_controls := pg_controls g @ [host_control_new] \<rparr>"
    using new False by (simp add: gate_open_def)
  have len: "length (pg_controls g') = Suc ?n" by (simp add: g')
  have at: "control_at g' k = (if k = ?n then host_control_new else control_at g k)" if "k < length (pg_controls g')" for k
    using that by (auto simp: control_at_def g' nth_append)
  have fit: "\<forall>j < length ts. pc_fits g j (ts ! j)" and maps: "maps_fit g" and locks: "locks_fit g ts" and counts: "counts_fit g ts"
    using inv by (simp_all add: gate_inv_def)
  have "\<not> runs_on ?n pc" if "pc \<in> set ts" for pc
    using fit that by (auto simp: in_set_conv_nth pc_fits_def runs_on_def)
  then have new_count: "filter (runs_on ?n) ts = []" by (simp add: filter_empty_conv)
  have ran: "ran (pg_live g') = insert ?n (ran (pg_live g))" using False by (simp add: g' ran_map_upd)
  have "pg_live g x \<noteq> Some ?n" for x using maps by (force simp: maps_fit_def)
  then have "maps_fit g'"
    using maps False unfolding maps_fit_def ran
    by (auto simp: g' control_at_def nth_append inj_on_def dom_def less_Suc_eq)
  moreover have "locks_fit g' ts"
    using locks by (auto simp: locks_fit_def at host_control_new_def len less_Suc_eq)
  moreover have "counts_fit g' ts"
    using counts new_count by (auto simp: counts_fit_def at host_control_new_def len less_Suc_eq)
  moreover have "pc_fits g' j (ts ! j)" if j: "j < length ts" for j
  proof -
    have f: "pc_fits g j (ts ! j)" using fit j by simp
    have "k < ?n" if "about (ts ! j) = Some k" for k using f that by (simp add: pc_fits_def)
    then show ?thesis using f holds_about [of "ts ! j"] by (auto simp: pc_fits_def at len)
  qed
  ultimately show ?thesis using inv by (simp add: gate_inv_def)
qed

lemma run_admit_alone:
  assumes inv: "gate_inv (g, ts)" and i: "i < length ts" and k: "k < length (pg_controls g)" "run_admit (Some k) required g = Inr g'"
  shows "cleanup_alone (ts[i := Running k required])"
  unfolding cleanup_alone_def
proof (intro allI impI notI)
  fix m s assume up: "UpdateCleanup m s \<in> set (ts[i := Running k required])" and r: "Running m (Some s) \<in> set (ts[i := Running k required])"
  have up': "UpdateCleanup m s \<in> set ts" using up set_update_subset_insert [of ts i "Running k required"] by auto
  then obtain j where j: "j < length ts" "ts ! j = UpdateCleanup m s" by (auto simp: in_set_conv_nth)
  then have "hc_scopes (control_at g m) s \<noteq> Some True" using gate_inv_at(1) [OF inv j(1)] by (simp add: pc_fits_def)
  moreover have "required = Some s \<and> k = m"
    using r up' gate_inv_at(2) [OF inv i] set_update_subset_insert [of ts i "Running k required"] unfolding cleanup_alone_def by auto
  ultimately show False using k(2) by (auto simp: run_admit_def Let_def split: if_splits)
qed

lemma waited_alone:
  assumes inv: "gate_inv (g, ts)" and i: "i < length ts" and at: "ts ! i = UpdateWait k s" "is_idle k g"
  shows "cleanup_alone (ts[i := UpdateCleanup k s])"
proof -
  have "k < length (pg_controls g)" using gate_inv_at(1) [OF inv i] at(1) by (simp add: pc_fits_def)
  then have "filter (runs_on k) ts = []" using inv at(2) by (simp add: gate_inv_def counts_fit_def is_idle_def)
  then have "Running k r \<notin> set ts" for r by (force simp: filter_empty_conv)
  then show ?thesis
    using gate_inv_at(2) [OF inv i] set_update_subset_insert [of ts i "UpdateCleanup k s"] unfolding cleanup_alone_def by blast
qed

lemma gate_step_inv:
  assumes "gate_step i x y" "gate_inv x"
  shows "gate_inv y"
  using assms
proof (induction rule: gate_step.induct)
  case (session ts r debug h g g' handle)
  then obtain opened where "gate_open h g = (g', opened)" by (auto simp: open_session_def split: prod.splits if_splits)
  from gate_open_inv [OF session(4) this] session show ?case
    by (intro gate_stay) (auto simp: pc_fits_def gate_inv_at intro!: cleanup_alone_change)
next
  case (run ts r k g scope g')
  let ?c = "(control_at g k)\<lparr> hc_active_operations := hc_active_operations (control_at g k) + 1 \<rparr>"
  have g': "g' = set_control k ?c g" "hc_lifecycle (control_at g k) \<noteq> LifecycleClosing"
    using run(4) by (auto simp: run_admit_def Let_def split: if_splits)
  have free: "hc_transition (control_at g k) \<noteq> Some i" using run by (auto simp: gate_inv_def locks_fit_def)
  show ?case unfolding g'(1)
    by (rule gate_changed [OF run(5,1,3)]) (use run g'(2) free run_admit_alone [OF run(5,1,3,4)] in \<open>auto simp: control_moves_def pc_fits_def\<close>)
next
  case (run_end ts k scope g g')
  let ?c = "(control_at g k)\<lparr> hc_active_operations := hc_active_operations (control_at g k) - 1 \<rparr>"
  have g': "g' = set_control k ?c g" "hc_active_operations (control_at g k) \<noteq> 0"
    using run_end(3) by (auto simp: operation_end_def Let_def split: if_splits)
  have k: "k < length (pg_controls g)" using gate_inv_at(1) [OF run_end(4,1)] run_end(2) by (simp add: pc_fits_def)
  have free: "hc_transition (control_at g k) \<noteq> Some i" using run_end k by (auto simp: gate_inv_def locks_fit_def)
  show ?case unfolding g'(1)
    by (rule gate_changed [OF run_end(4,1) k])
      (use run_end g'(2) free gate_inv_at(2) [OF run_end(4,1)] in \<open>auto simp: control_moves_def pc_fits_def intro!: cleanup_alone_change\<close>)
next
  case (update_locked ts k scope granted g g')
  let ?c = "(control_at g k)\<lparr> hc_transition := Some i \<rparr>"
  have g': "g' = set_control k ?c g" "hc_transition (control_at g k) = None"
    using update_locked(3) by (auto simp: transition_lock_def split: if_splits)
  have k: "k < length (pg_controls g)" using gate_inv_at(1) [OF update_locked(4,1)] update_locked(2) by (simp add: pc_fits_def)
  show ?case unfolding g'(1)
    by (rule gate_changed [OF update_locked(4,1) k])
      (use update_locked g'(2) k gate_inv_at(2) [OF update_locked(4,1)] in \<open>auto simp: control_moves_def pc_fits_def intro!: cleanup_alone_change\<close>)
next
  case (clear_locked ts h k g g')
  let ?c = "(control_at g k)\<lparr> hc_transition := Some i \<rparr>"
  have g': "g' = set_control k ?c g" "hc_transition (control_at g k) = None"
    using clear_locked(3) by (auto simp: transition_lock_def split: if_splits)
  have k: "k < length (pg_controls g)" using gate_inv_at(1) [OF clear_locked(4,1)] clear_locked(2) by (simp add: pc_fits_def)
  show ?case unfolding g'(1)
    by (rule gate_changed [OF clear_locked(4,1) k])
      (use clear_locked g'(2) k gate_inv_at(2) [OF clear_locked(4,1)] in \<open>auto simp: control_moves_def pc_fits_def intro!: cleanup_alone_change\<close>)
next
  case (update_recorded ts k scope granted g g')
  let ?c = "(control_at g k)\<lparr> hc_scopes := (hc_scopes (control_at g k))(scope \<mapsto> granted) \<rparr>"
  have g': "g' = set_control k ?c g" "hc_lifecycle (control_at g k) \<noteq> LifecycleClosing"
    using update_recorded(3) by (auto simp: update_set_def Let_def split: if_splits)
  have k: "k < length (pg_controls g)" "hc_transition (control_at g k) = Some i"
    using gate_inv_at(1) [OF update_recorded(4,1)] update_recorded(2) by (simp_all add: pc_fits_def)
  show ?case unfolding g'(1)
    by (rule gate_changed [OF update_recorded(4,1) k(1)])
      (use update_recorded g'(2) k gate_inv_at(2) [OF update_recorded(4,1)] in \<open>auto simp: control_moves_def pc_fits_def intro!: cleanup_alone_change\<close>)
next
  case (clear_closed ts h k g)
  have k: "k < length (pg_controls g)" "hc_transition (control_at g k) = Some i"
    using gate_inv_at(1) [OF clear_closed(3,1)] clear_closed(2) by (simp_all add: pc_fits_def)
  show ?case unfolding clear_close_def
    by (rule gate_changed [OF clear_closed(3,1) k(1)])
      (use clear_closed k gate_inv_at(2) [OF clear_closed(3,1)] in \<open>auto simp: control_moves_def pc_fits_def intro!: cleanup_alone_change\<close>)
next
  case (update_returned ts k r g)
  have k: "k < length (pg_controls g)" "hc_transition (control_at g k) = Some i"
    using gate_inv_at(1) [OF update_returned(3,1)] update_returned(2) by (simp_all add: pc_fits_def)
  show ?case unfolding transition_unlock_def
    by (rule gate_changed [OF update_returned(3,1) k(1)])
      (use update_returned k gate_inv_at(2) [OF update_returned(3,1)] in \<open>auto simp: control_moves_def pc_fits_def intro!: cleanup_alone_change\<close>)
next
  case (clear_returned ts k g)
  have k: "k < length (pg_controls g)" "hc_transition (control_at g k) = Some i"
    using gate_inv_at(1) [OF clear_returned(3,1)] clear_returned(2) by (simp_all add: pc_fits_def)
  show ?case unfolding transition_unlock_def
    by (rule gate_changed [OF clear_returned(3,1) k(1)])
      (use clear_returned k gate_inv_at(2) [OF clear_returned(3,1)] in \<open>auto simp: control_moves_def pc_fits_def intro!: cleanup_alone_change\<close>)
next
  case (clear_removed ts h k g)
  have k: "k < length (pg_controls g)" "hc_lifecycle (control_at g k) = LifecycleClosing" "hc_active_operations (control_at g k) = 0"
    using gate_inv_at(1) [OF clear_removed(3,1)] clear_removed(2) by (simp_all add: pc_fits_def)
  have stay: "gate_inv (g, ts[i := ClearReturn k])"
    using clear_removed gate_inv_at [OF clear_removed(3,1)] by (intro gate_stay) (auto simp: pc_fits_def intro!: cleanup_alone_change)
  show ?case
  proof (cases "pg_live g h = Some k")
    case True
    let ?g = "clear_remove h k g"
    have same: "control_at ?g m = control_at g m" "length (pg_controls ?g) = length (pg_controls g)" for m
      by (simp_all add: clear_remove_def control_at_def)
    have live: "pg_live ?g = (pg_live g)(h := None)" "pg_retired ?g = insert h (pg_retired g)"
      using True by (simp_all add: clear_remove_def)
    have gone: "m = k \<or> m \<in> ran (pg_live ?g)" if m: "m \<in> ran (pg_live g)" for m
    proof -
      obtain a where a: "pg_live g a = Some m" using m by (auto simp: ran_def)
      then show ?thesis using True by (cases "a = h") (auto simp: live intro: ranI)
    qed
    have maps: "maps_fit g" using clear_removed(3) by (simp add: gate_inv_def)
    have "inj_on (pg_live ?g) (dom (pg_live ?g))"
      using maps unfolding live maps_fit_def by (auto simp: inj_on_def dom_def)
    moreover have "hc_lifecycle (control_at g m) = LifecycleClosing \<and> hc_active_operations (control_at g m) = 0"
      if "m < length (pg_controls g)" "m \<notin> ran (pg_live ?g)" for m
      using gone [of m] that maps k by (cases "m = k") (auto simp: maps_fit_def)
    moreover have "m < length (pg_controls g) \<and> a \<notin> insert h (pg_retired g)" if "((pg_live g)(h := None)) a = Some m" for a m
      using maps that by (auto simp: maps_fit_def split: if_splits)
    ultimately have "maps_fit ?g" unfolding maps_fit_def same live by blast
    moreover have "locks_fit ?g us = locks_fit g us" "counts_fit ?g us = counts_fit g us" "pc_fits ?g j pc = pc_fits g j pc" for us :: "'a gate_pc list" and j pc
      unfolding locks_fit_def counts_fit_def pc_fits_def same by (rule refl)+
    ultimately show ?thesis using stay unfolding gate_inv_def prod.case by blast
  next
    case False
    then show ?thesis using stay by (simp add: clear_remove_def)
  qed
next
  case (update_waited ts k scope g)
  then show ?case
    using waited_alone [OF update_waited(4,1,2,3)] gate_inv_at [OF update_waited(4,1)] by (intro gate_stay) (auto simp: pc_fits_def)
next
  case (clear_waited ts h k g)
  then show ?case
    using gate_inv_at [OF clear_waited(4,1)] by (intro gate_stay) (auto simp: pc_fits_def is_idle_def intro!: cleanup_alone_change)
next
  case (update_found ts r g h k scope granted)
  then show ?case
    using gate_inv_at [OF update_found(4,1)] by (intro gate_stay) (auto simp: pc_fits_def host_state_def maps_fit_def intro!: cleanup_alone_change)
next
  case (clear_found ts r g h k)
  then show ?case
    using gate_inv_at [OF clear_found(4,1)] by (intro gate_stay) (auto simp: pc_fits_def host_state_def maps_fit_def intro!: cleanup_alone_change)
next
  case (update_closed ts k scope granted g e)
  then show ?case
    using gate_inv_at [OF update_closed(4,1)] by (intro gate_stay) (auto simp: pc_fits_def intro!: cleanup_alone_change)
next
  case (update_cleaned ts k scope g outcome)
  then show ?case
    using gate_inv_at [OF update_cleaned(3,1)] by (intro gate_stay) (auto simp: pc_fits_def intro!: cleanup_alone_change)
qed (auto intro!: gate_stay cleanup_alone_change simp: pc_fits_def gate_inv_at)

lemma gate_reachable:
  assumes "gate_run (gate_default, replicate n (GateOutside GateNotCalled)) x"
  shows "gate_inv x"
  using assms unfolding gate_run_def
proof (induction rule: rtranclp_induct)
  case base
  show ?case
    by (simp add: gate_inv_def maps_fit_def locks_fit_def counts_fit_def cleanup_alone_def pc_fits_def gate_default_def)
next
  case (step y z)
  then show ?case using gate_step_inv by blast
qed

lemma run_admit_closed:
  "hc_lifecycle (control_at g k) = LifecycleClosing \<Longrightarrow> run_admit (Some k) scope g = Inl Denied"
  by (simp add: run_admit_def Let_def)

section \<open>An example run\<close>

text \<open>
  Session 5 is opened and granted the camera; one thread starts an operation; another
  revokes the camera, waits and tears down.
\<close>

definition example_gate :: "bool option \<Rightarrow> nat option \<Rightarrow> nat \<Rightarrow> permission_gate" where
  "example_gate camera owner active = \<lparr> pg_retired = {}, pg_live = [5 \<mapsto> 0],
     pg_controls = [\<lparr> hc_transition = owner, hc_lifecycle = LifecycleActive,
       hc_scopes = (case camera of None \<Rightarrow> Map.empty | Some b \<Rightarrow> [Camera \<mapsto> b]), hc_active_operations = active \<rparr>] \<rparr>"

lemma gate_run_step: "gate_run x y \<Longrightarrow> gate_step i y z \<Longrightarrow> gate_run x z"
  unfolding gate_run_def by (rule rtranclp.rtrancl_into_rtrancl) auto

lemmas example_gate_simps = example_gate_def set_control_def control_at_def transition_lock_def transition_unlock_def
  update_set_def run_admit_def operation_end_def is_idle_def host_state_def Let_def

lemma example_granted:
  "gate_run (gate_default, [GateOutside GateNotCalled, GateOutside GateNotCalled, GateOutside GateNotCalled] :: nat gate_pc list)
    (example_gate (Some True) None 0, [GateOutside (Updated (Inr ())), GateOutside GateNotCalled, GateOutside GateNotCalled])"
proof -
  let ?n = "GateOutside GateNotCalled :: nat gate_pc" and ?s = "GateOutside (SessionOpened (Some 0)) :: nat gate_pc"
  have 1: "gate_step 0 (gate_default, [?n, ?n, ?n]) (example_gate None None 0, [?s, ?n, ?n])"
    using session [of 0 "[?n, ?n, ?n]" GateNotCalled False 5 gate_default "example_gate None None 0" "Some 0"]
    by (simp add: open_session_def gate_open_def gate_default_def host_control_new_def is_retired_def example_gate_simps)
  have 2: "gate_step 0 (example_gate None None 0, [?s, ?n, ?n]) (example_gate None None 0, [UpdateLock 0 Camera True, ?n, ?n])"
    using update_found [of 0 "[?s, ?n, ?n]" "SessionOpened (Some 0)" "example_gate None None 0" 5 0 Camera True] by (simp add: example_gate_simps)
  have 3: "gate_step 0 (example_gate None None 0, [UpdateLock 0 Camera True, ?n, ?n]) (example_gate None (Some 0) 0, [UpdateSet 0 Camera True, ?n, ?n])"
    using update_locked [of 0 "[UpdateLock 0 Camera True, ?n, ?n]" 0 Camera True "example_gate None None 0"] by (simp add: example_gate_simps)
  have 4: "gate_step 0 (example_gate None (Some 0) 0, [UpdateSet 0 Camera True, ?n, ?n]) (example_gate (Some True) (Some 0) 0, [UpdateReturn 0 (Inr ()), ?n, ?n])"
    using update_recorded [of 0 "[UpdateSet 0 Camera True, ?n, ?n]" 0 Camera True "example_gate None (Some 0) 0"] by (simp add: example_gate_simps)
  have 5: "gate_step 0 (example_gate (Some True) (Some 0) 0, [UpdateReturn 0 (Inr ()), ?n, ?n])
      (example_gate (Some True) None 0, [GateOutside (Updated (Inr ())), ?n, ?n])"
    using update_returned [of 0 "[UpdateReturn 0 (Inr ()), ?n, ?n]" 0 "Inr ()" "example_gate (Some True) (Some 0) 0"] by (simp add: example_gate_simps)
  have "gate_run (gate_default, [?n, ?n, ?n]) (gate_default, [?n, ?n, ?n])" by (simp add: gate_run_def)
  then show ?thesis using 1 2 3 4 5 by (meson gate_run_step)
qed

text \<open>The camera is revoked while another operation, which needs no scope, is running.\<close>

lemma example_revoking:
  "gate_run (gate_default, [GateOutside GateNotCalled, GateOutside GateNotCalled, GateOutside GateNotCalled] :: nat gate_pc list)
    (example_gate (Some False) (Some 0) 1, [UpdateWait 0 Camera, Running 0 None, GateOutside GateNotCalled])"
proof -
  let ?n = "GateOutside GateNotCalled :: nat gate_pc" and ?u = "GateOutside (Updated (Inr ())) :: nat gate_pc"
  let ?r = "Running 0 None :: nat gate_pc"
  have 1: "gate_step 1 (example_gate (Some True) None 0, [?u, ?n, ?n]) (example_gate (Some True) None 1, [?u, ?r, ?n])"
    using run [of 1 "[?u, ?n, ?n]" GateNotCalled 0 "example_gate (Some True) None 0" None] by (simp add: example_gate_simps)
  have 2: "gate_step 0 (example_gate (Some True) None 1, [?u, ?r, ?n]) (example_gate (Some True) None 1, [UpdateLock 0 Camera False, ?r, ?n])"
    using update_found [of 0 "[?u, ?r, ?n]" "Updated (Inr ())" "example_gate (Some True) None 1" 5 0 Camera False] by (simp add: example_gate_simps)
  have 3: "gate_step 0 (example_gate (Some True) None 1, [UpdateLock 0 Camera False, ?r, ?n])
      (example_gate (Some True) (Some 0) 1, [UpdateSet 0 Camera False, ?r, ?n])"
    using update_locked [of 0 "[UpdateLock 0 Camera False, ?r, ?n]" 0 Camera False "example_gate (Some True) None 1"] by (simp add: example_gate_simps)
  have 4: "gate_step 0 (example_gate (Some True) (Some 0) 1, [UpdateSet 0 Camera False, ?r, ?n])
      (example_gate (Some False) (Some 0) 1, [UpdateWait 0 Camera, ?r, ?n])"
    using update_recorded [of 0 "[UpdateSet 0 Camera False, ?r, ?n]" 0 Camera False "example_gate (Some True) (Some 0) 1"] by (simp add: example_gate_simps)
  show ?thesis using example_granted 1 2 3 4 by (meson gate_run_step)
qed

lemma example_tearing_down:
  "gate_run (gate_default, [GateOutside GateNotCalled, GateOutside GateNotCalled, GateOutside GateNotCalled] :: nat gate_pc list)
    (example_gate (Some False) (Some 0) 0, [UpdateCleanup 0 Camera, GateOutside RunDone, GateOutside GateNotCalled])"
proof -
  let ?n = "GateOutside GateNotCalled :: nat gate_pc" and ?d = "GateOutside RunDone :: nat gate_pc"
  have 1: "gate_step 1 (example_gate (Some False) (Some 0) 1, [UpdateWait 0 Camera, Running 0 None, ?n])
      (example_gate (Some False) (Some 0) 0, [UpdateWait 0 Camera, ?d, ?n])"
    using run_end [of 1 "[UpdateWait 0 Camera, Running 0 None, ?n]" 0 None "example_gate (Some False) (Some 0) 1"] by (simp add: example_gate_simps)
  have 2: "gate_step 0 (example_gate (Some False) (Some 0) 0, [UpdateWait 0 Camera, ?d, ?n])
      (example_gate (Some False) (Some 0) 0, [UpdateCleanup 0 Camera, ?d, ?n])"
    using update_waited [of 0 "[UpdateWait 0 Camera, ?d, ?n]" 0 Camera "example_gate (Some False) (Some 0) 0"] by (simp add: example_gate_simps)
  show ?thesis using example_revoking 1 2 by (meson gate_run_step)
qed

text \<open>
  A revocation waits for every operation of the session, not for those that use the
  scope: two threads whose operations overlap, and need no scope at all, can keep it
  waiting for ever.
\<close>

lemma revocation_waits_for_unrelated_operations:
  "let wait = UpdateWait 0 Camera :: nat gate_pc; r = Running 0 None; d = GateOutside RunDone;
     one = example_gate (Some False) (Some 0) 1; two = example_gate (Some False) (Some 0) 2 in
   gate_step 2 (one, [wait, r, d]) (two, [wait, r, r]) \<and> gate_step 1 (two, [wait, r, r]) (one, [wait, d, r]) \<and>
   gate_step 1 (one, [wait, d, r]) (two, [wait, r, r]) \<and> gate_step 2 (two, [wait, r, r]) (one, [wait, r, d]) \<and>
   \<not> is_idle 0 one \<and> \<not> is_idle 0 two"
proof -
  let ?w = "UpdateWait 0 Camera :: nat gate_pc" and ?r = "Running 0 None :: nat gate_pc" and ?d = "GateOutside RunDone :: nat gate_pc"
  let ?one = "example_gate (Some False) (Some 0) 1" and ?two = "example_gate (Some False) (Some 0) 2"
  have "gate_step 2 (?one, [?w, ?r, ?d]) (?two, [?w, ?r, ?r])" "gate_step 1 (?one, [?w, ?d, ?r]) (?two, [?w, ?r, ?r])"
    using run [of 2 "[?w, ?r, ?d]" RunDone 0 ?one None] run [of 1 "[?w, ?d, ?r]" RunDone 0 ?one None]
    by (simp_all add: example_gate_simps numeral_2_eq_2)
  moreover have "gate_step 1 (?two, [?w, ?r, ?r]) (?one, [?w, ?d, ?r])" "gate_step 2 (?two, [?w, ?r, ?r]) (?one, [?w, ?r, ?d])"
    using run_end [of 1 "[?w, ?r, ?r]" 0 None ?two] run_end [of 2 "[?w, ?r, ?r]" 0 None ?two]
    by (simp_all add: example_gate_simps numeral_2_eq_2)
  ultimately show ?thesis by (simp add: example_gate_simps)
qed

section \<open>Properties\<close>

text \<open>
  C16. Permissions are enforced under every interleaving of the session's threads. No
  operation that needs a scope runs while the revocation of that scope tears its
  resources down. A session that was cleared stays refused: its identifier is not live
  and cannot be opened again, nothing runs under its handles, and every operation asked
  for through them is denied. The count of operations is exact, so ending one never
  underflows.
\<close>

theorem permission_gate_safe:
  assumes "gate_run (gate_default, replicate n (GateOutside GateNotCalled)) (g, ts)"
  shows "(\<forall>k scope. UpdateCleanup k scope \<in> set ts \<longrightarrow> Running k (Some scope) \<notin> set ts) \<and>
    (\<forall>h \<in> pg_retired g. host_state g h = None \<and> gate_open h g = (g, False)) \<and>
    (\<forall>k < length (pg_controls g). k \<notin> ran (pg_live g) \<longrightarrow>
       (\<forall>scope. Running k scope \<notin> set ts \<and> run_admit (Some k) scope g = Inl Denied)) \<and>
    (\<forall>k scope. Running k scope \<in> set ts \<longrightarrow> operation_end k g \<noteq> Panic)"
proof -
  have inv: "gate_inv (g, ts)" by (rule gate_reachable [OF assms])
  then have maps: "maps_fit g" and counts: "counts_fit g ts" and alone: "cleanup_alone ts" by (simp_all add: gate_inv_def)
  have active: "k < length (pg_controls g) \<and> hc_active_operations (control_at g k) \<noteq> 0" if r: "Running k scope \<in> set ts" for k scope
  proof -
    obtain i where i: "i < length ts" "ts ! i = Running k scope" using r by (auto simp: in_set_conv_nth)
    then have k: "k < length (pg_controls g)" using gate_inv_at(1) [OF inv i(1)] by (simp add: pc_fits_def)
    have "filter (runs_on k) ts \<noteq> []" using r by (force simp: filter_empty_conv)
    then show ?thesis using counts k by (simp add: counts_fit_def)
  qed
  have "\<forall>h \<in> pg_retired g. host_state g h = None \<and> gate_open h g = (g, False)"
    using maps by (auto simp: maps_fit_def host_state_def gate_open_def) (metis not_None_eq)
  moreover have "\<forall>k < length (pg_controls g). k \<notin> ran (pg_live g) \<longrightarrow>
       (\<forall>scope. Running k scope \<notin> set ts \<and> run_admit (Some k) scope g = Inl Denied)"
    using maps active run_admit_closed unfolding maps_fit_def by blast
  moreover have "operation_end k g \<noteq> Panic" if "Running k scope \<in> set ts" for k scope
    using active [OF that] by (simp add: operation_end_def Let_def)
  ultimately show ?thesis using alone unfolding cleanup_alone_def by blast
qed

theorem permission_gate_safe_witness:
  "Running 0 (Some Camera) \<notin> set [UpdateCleanup 0 Camera, GateOutside RunDone, GateOutside GateNotCalled :: nat gate_pc] \<and>
   run_admit (Some 0) (Some Camera) (example_gate (Some False) (Some 0) 0) = Inl Denied"
  using permission_gate_safe [of 3, unfolded numeral_3_eq_3 replicate.simps, OF example_tearing_down]
  by (simp add: example_gate_simps)

text \<open>
  The gate does not deadlock: as long as some thread is inside a call, a thread that
  is inside one can take its next step. Waiting for a revocation or the end of a session
  therefore ends once the operations that are running have ended.
\<close>

lemma permission_gate_never_stuck:
  assumes "gate_run (gate_default, replicate n (GateOutside GateNotCalled)) (g, ts)" "i < length ts" "\<nexists>r. ts ! i = GateOutside r"
  shows "\<exists>j < length ts. (\<nexists>r. ts ! j = GateOutside r) \<and> (\<exists>y. gate_step j (g, ts) y)"
proof -
  have inv: "gate_inv (g, ts)" by (rule gate_reachable [OF assms(1)])
  have runs: "\<exists>y. gate_step j (g, ts) y" if "j < length ts" "ts ! j = Running k scope" for j k scope
  proof -
    have "k < length (pg_controls g)" using gate_inv_at(1) [OF inv that(1)] that(2) by (simp add: pc_fits_def)
    moreover have "filter (runs_on k) ts \<noteq> []" using nth_mem [OF that(1)] that(2) by (force simp: filter_empty_conv)
    ultimately have "hc_active_operations (control_at g k) \<noteq> 0" using inv by (simp add: gate_inv_def counts_fit_def)
    then have "operation_end k g \<noteq> Panic" by (simp add: operation_end_def Let_def)
    then show ?thesis using run_end [OF that] by auto
  qed
  have holder: ?thesis if "j < length ts" "holds (ts ! j) = Some k" for j k
  proof (cases "is_idle k g")
    case True
    have "\<exists>y. gate_step j (g, ts) y"
    proof (cases "ts ! j")
      case (UpdateSet m s b)
      then show ?thesis
        using that update_closed [of j ts m s b g] update_recorded [of j ts m s b g]
        by (cases "update_set m s b g :: 'a update_error + permission_gate") blast+
    qed (use that True in \<open>auto dest: update_waited update_cleaned update_returned clear_closed clear_waited clear_removed clear_returned\<close>)
    then show ?thesis using that by (metis holds.simps(9) option.distinct(1))
  next
    case False
    have "k < length (pg_controls g)" using gate_inv_at(1) [OF inv that(1)] holds_about [OF that(2)] by (simp add: pc_fits_def)
    then have "filter (runs_on k) ts \<noteq> []" using inv False by (simp add: gate_inv_def counts_fit_def is_idle_def)
    then obtain m scope where "m < length ts" "ts ! m = Running k scope"
      by (auto simp: filter_empty_conv runs_on_def in_set_conv_nth)
    then show ?thesis using runs by (metis gate_pc.distinct(1))
  qed
  have lock: ?thesis if l: "i < length ts" "about (ts ! i) = Some k" "\<And>g'. transition_lock i k g = Some g' \<Longrightarrow> \<exists>y. gate_step i (g, ts) y" for k
  proof (cases "hc_transition (control_at g k)")
    case None
    then have "transition_lock i k g \<noteq> None" by (simp add: transition_lock_def)
    then show ?thesis using l(1,3) assms(3) by auto
  next
    case (Some j)
    moreover have "k < length (pg_controls g)" using gate_inv_at(1) [OF inv l(1)] l(2) by (simp add: pc_fits_def)
    ultimately have "j < length ts" "holds (ts ! j) = Some k" using inv by (simp_all add: gate_inv_def locks_fit_def)
    then show ?thesis by (rule holder)
  qed
  show ?thesis
  proof (cases "ts ! i")
    case (Running k scope)
    then show ?thesis using runs assms(2,3) by blast
  next
    case (UpdateLock k scope granted)
    show ?thesis by (rule lock [OF assms(2)]) (use UpdateLock update_locked [OF assms(2) UpdateLock] in \<open>simp, blast\<close>)
  next
    case (ClearLock h k)
    show ?thesis by (rule lock [OF assms(2)]) (use ClearLock clear_locked [OF assms(2) ClearLock] in \<open>simp, blast\<close>)
  qed (use assms holder in force)+
qed

lemma permission_gate_never_stuck_witness:
  "\<exists>j < 3. (\<nexists>r. [UpdateWait 0 Camera, Running 0 None, GateOutside GateNotCalled :: nat gate_pc] ! j = GateOutside r) \<and>
     (\<exists>y. gate_step j (example_gate (Some False) (Some 0) 1, [UpdateWait 0 Camera, Running 0 None, GateOutside GateNotCalled :: nat gate_pc]) y)"
  using permission_gate_never_stuck [of 3, unfolded numeral_3_eq_3 replicate.simps, OF example_revoking, of 0]
  by (simp add: numeral_3_eq_3)

end
