(* ===== verification/Ktx2.thy ===== *)
theory Ktx2
  imports Prelude
begin

text \<open>
  The texture container of \<open>io/src/ktx2.rs\<close>: the parser that validates every mip level
  before any of them is handed to the GPU, the iterator over the levels, and the writers
  used when a package is ingested. A file is a byte list; \<open>usize\<close> has 64 bits.
\<close>

section \<open>Format\<close>

definition KTX2_MAGIC :: "u8 list" where
  "KTX2_MAGIC = [0xAB, 0x4B, 0x54, 0x58, 0x20, 0x32, 0x30, 0xBB, 0x0D, 0x0A, 0x1A, 0x0A]"

abbreviation (input) HEADER_SIZE :: nat where "HEADER_SIZE \<equiv> 80"
abbreviation (input) LEVEL_INDEX_ENTRY_SIZE :: nat where "LEVEL_INDEX_ENTRY_SIZE \<equiv> 24"

datatype vk_format = Etc2R8G8B8UnormBlock | Etc2R8G8B8A8UnormBlock | Astc4x4UnormBlock | Astc6x6UnormBlock | Astc8x8UnormBlock
  | UnknownFormat u32

definition vk_format_from_u32 :: "u32 \<Rightarrow> vk_format" where
  "vk_format_from_u32 code =
     (if code = 147 then Etc2R8G8B8UnormBlock else if code = 151 then Etc2R8G8B8A8UnormBlock
      else if code = 157 then Astc4x4UnormBlock else if code = 163 then Astc6x6UnormBlock
      else if code = 169 then Astc8x8UnormBlock else UnknownFormat code)"

record ktx2_header =
  kh_format :: vk_format
  kh_width :: u32
  kh_height :: u32
  kh_mip_levels :: u32

record ktx2_file =
  kf_header :: ktx2_header
  kf_data :: "u8 list"
  kf_file :: "u8 list"

definition ktx2_read_u32 :: "u8 list \<Rightarrow> nat \<Rightarrow> u32 option" where
  "ktx2_read_u32 data offset = do {
     b0 \<leftarrow> idx data offset;
     b1 \<leftarrow> idx data (offset + 1);
     b2 \<leftarrow> idx data (offset + 2);
     b3 \<leftarrow> idx data (offset + 3);
     Some (from_le_bytes [b0, b1, b2, b3]) }"

definition ktx2_read_u64 :: "u8 list \<Rightarrow> nat \<Rightarrow> u64 option" where
  "ktx2_read_u64 data offset = do {
     b0 \<leftarrow> idx data offset;
     b1 \<leftarrow> idx data (offset + 1);
     b2 \<leftarrow> idx data (offset + 2);
     b3 \<leftarrow> idx data (offset + 3);
     b4 \<leftarrow> idx data (offset + 4);
     b5 \<leftarrow> idx data (offset + 5);
     b6 \<leftarrow> idx data (offset + 6);
     b7 \<leftarrow> idx data (offset + 7);
     Some (from_le_bytes [b0, b1, b2, b3, b4, b5, b6, b7]) }"

definition usize_checked_mul :: "nat \<Rightarrow> nat \<Rightarrow> nat option" where
  "usize_checked_mul a b = (if a * b \<le> usize_max then Some (a * b) else None)"

text \<open>The levels of a parsed file, base level first.\<close>

fun levels_from :: "u8 list \<Rightarrow> nat \<Rightarrow> nat \<Rightarrow> u8 list list option" where
  "levels_from file level 0 = Some []"
| "levels_from file level (Suc n) = do {
     let entry = HEADER_SIZE + level * LEVEL_INDEX_ENTRY_SIZE;
     offset \<leftarrow> ktx2_read_u64 file entry;
     len \<leftarrow> ktx2_read_u64 file (entry + 8);
     bytes \<leftarrow> slice file (unat offset) (unat offset + unat len);
     rest \<leftarrow> levels_from file (level + 1) n;
     Some (bytes # rest) }"

definition kf_levels :: "ktx2_file \<Rightarrow> u8 list list option" where
  "kf_levels f = levels_from (kf_file f) 0 (unat (kh_mip_levels (kf_header f)))"

section \<open>Parsing\<close>

fun parse_levels :: "u8 list \<Rightarrow> nat \<Rightarrow> nat \<Rightarrow> nat \<Rightarrow> (u64 \<times> u64) list \<Rightarrow> (string, (u64 \<times> u64) list) rust_result" where
  "parse_levels data level_index_end level 0 ranges = Ok ranges"
| "parse_levels data level_index_end level (Suc n) ranges = do {
     let entry = HEADER_SIZE + level * LEVEL_INDEX_ENTRY_SIZE;
     offset \<leftarrow> ktx2_read_u64 data entry;
     len \<leftarrow> ktx2_read_u64 data (entry + 8);
     if len = 0 then Err ''ktx2: level has zero length''
     else case checked_add offset len of
       None \<Rightarrow> Err ''ktx2: level range overflow''
     | Some stop \<Rightarrow>
         if unat stop > length data then Err ''ktx2: level data out of bounds''
         else if unat offset < level_index_end then Err ''ktx2: level data overlaps the header or level index''
         else if list_ex (\<lambda>(other_start, other_end). offset < other_end \<and> other_start < stop) ranges
         then Err ''ktx2: levels overlap''
         else parse_levels data level_index_end (level + 1) n (ranges @ [(offset, stop)]) }"

text \<open>The second half of \<open>parse_ktx2\<close>: the level index and the levels.\<close>

definition parse_level_index :: "u8 list \<Rightarrow> u32 \<Rightarrow> u32 \<Rightarrow> u32 \<Rightarrow> u32 \<Rightarrow> (string, ktx2_file) rust_result" where
  "parse_level_index data vk_format width height actual_levels =
     (case usize_checked_mul (unat actual_levels) LEVEL_INDEX_ENTRY_SIZE \<bind> usize_checked_add HEADER_SIZE of
        None \<Rightarrow> Err ''ktx2: level index span overflow''
      | Some level_index_end \<Rightarrow>
          if length data < level_index_end then Err ''ktx2: file too short for level index''
          else if unat actual_levels > bit_length (unat (max width height))
          then Err ''ktx2: level count exceeds the mip chain for these dimensions''
          else do {
            parsed \<leftarrow> parse_levels data level_index_end 0 (unat actual_levels) [];
            case parsed of
              Inl e \<Rightarrow> Err e
            | Inr ranges \<Rightarrow> do {
                (level0_offset, level0_end) \<leftarrow> idx ranges 0;
                level0 \<leftarrow> slice data (unat level0_offset) (unat level0_end);
                Ok \<lparr> kf_header = \<lparr> kh_format = vk_format_from_u32 vk_format, kh_width = width, kh_height = height,
                       kh_mip_levels = actual_levels \<rparr>, kf_data = level0, kf_file = data \<rparr> } })"

definition parse_ktx2 :: "u8 list \<Rightarrow> (string, ktx2_file) rust_result" where
  "parse_ktx2 data =
     (if length data < HEADER_SIZE then Err ''ktx2: file too short for header''
      else do {
        magic \<leftarrow> slice data 0 12;
        if magic \<noteq> KTX2_MAGIC then Err ''ktx2: invalid magic bytes''
        else do {
          vk_format \<leftarrow> ktx2_read_u32 data 12;
          width \<leftarrow> ktx2_read_u32 data 20;
          height \<leftarrow> ktx2_read_u32 data 24;
          level_count \<leftarrow> ktx2_read_u32 data 40;
          supercompression_scheme \<leftarrow> ktx2_read_u32 data 44;
          if width = 0 \<or> height = 0 then Err ''ktx2: zero dimensions''
          else if supercompression_scheme \<noteq> 0 then Err ''ktx2: supercompression not supported''
          else parse_level_index data vk_format width height (if level_count = 0 then 1 else level_count) } })"

definition is_ktx2 :: "u8 list \<Rightarrow> bool" where
  "is_ktx2 data \<longleftrightarrow> length data \<ge> 12 \<and> take 12 data = KTX2_MAGIC"

section \<open>Writing\<close>

definition put_ktx2_header :: "u8 list \<Rightarrow> u32 \<Rightarrow> u32 \<Rightarrow> u32 \<Rightarrow> u32 \<Rightarrow> u8 list option" where
  "put_ktx2_header buf vk_format width height level_count = do {
     buf \<leftarrow> put_slice buf 0 KTX2_MAGIC;
     buf \<leftarrow> put_slice buf 12 (to_le_bytes 4 vk_format);
     buf \<leftarrow> put_slice buf 16 (to_le_bytes 4 (1 :: u32));
     buf \<leftarrow> put_slice buf 20 (to_le_bytes 4 width);
     buf \<leftarrow> put_slice buf 24 (to_le_bytes 4 height);
     buf \<leftarrow> put_slice buf 28 (to_le_bytes 4 (0 :: u32));
     buf \<leftarrow> put_slice buf 32 (to_le_bytes 4 (0 :: u32));
     buf \<leftarrow> put_slice buf 36 (to_le_bytes 4 (1 :: u32));
     buf \<leftarrow> put_slice buf 40 (to_le_bytes 4 level_count);
     put_slice buf 44 (to_le_bytes 4 (0 :: u32)) }"

definition put_level_entry :: "u8 list \<Rightarrow> nat \<Rightarrow> u64 \<Rightarrow> u64 \<Rightarrow> u8 list option" where
  "put_level_entry buf entry offset len = do {
     buf \<leftarrow> put_slice buf entry (to_le_bytes 8 offset);
     buf \<leftarrow> put_slice buf (entry + 8) (to_le_bytes 8 len);
     put_slice buf (entry + 16) (to_le_bytes 8 len) }"

text \<open>The levels are stored last to first, the index lists them first to last.\<close>

fun place_levels :: "u8 list list \<Rightarrow> nat \<Rightarrow> u8 list \<Rightarrow> (u64 \<times> u64) list \<Rightarrow> (u8 list \<times> (u64 \<times> u64) list) option" where
  "place_levels levels 0 buf placed = Some (buf, placed)"
| "place_levels levels (Suc level) buf placed = do {
     bytes \<leftarrow> idx levels level;
     place_levels levels level (buf @ bytes) (placed[level := (word_of_nat (length buf), word_of_nat (length bytes))]) }"

fun put_index :: "nat \<Rightarrow> (u64 \<times> u64) list \<Rightarrow> u8 list \<Rightarrow> u8 list option" where
  "put_index level [] buf = Some buf"
| "put_index level ((offset, len) # placed) buf = do {
     buf \<leftarrow> put_level_entry buf (HEADER_SIZE + level * LEVEL_INDEX_ENTRY_SIZE) offset len;
     put_index (level + 1) placed buf }"

definition writable :: "u32 \<Rightarrow> u32 \<Rightarrow> u8 list list \<Rightarrow> bool" where
  "writable width height levels \<longleftrightarrow> levels \<noteq> [] \<and> width \<noteq> 0 \<and> height \<noteq> 0 \<and>
     length levels \<le> bit_length (unat (max width height)) \<and> \<not> list_ex (\<lambda>l. l = []) levels"

definition write_ktx2_levels :: "u32 \<Rightarrow> u32 \<Rightarrow> u32 \<Rightarrow> u8 list list \<Rightarrow> u8 list option option" where
  "write_ktx2_levels vk_format width height levels =
     (if \<not> writable width height levels then Some None
      else do {
        buf \<leftarrow> put_ktx2_header (replicate (HEADER_SIZE + length levels * LEVEL_INDEX_ENTRY_SIZE) 0) vk_format width height
                 (word_of_nat (length levels));
        (buf, placed) \<leftarrow> place_levels levels (length levels) buf (replicate (length levels) (0, 0));
        buf \<leftarrow> put_index 0 placed buf;
        Some (Some buf) })"

definition write_ktx2 :: "u32 \<Rightarrow> u32 \<Rightarrow> u32 \<Rightarrow> u8 list \<Rightarrow> u8 list option" where
  "write_ktx2 vk_format width height level0 = do {
     let level0_offset = HEADER_SIZE + LEVEL_INDEX_ENTRY_SIZE;
     buf \<leftarrow> put_ktx2_header (replicate (HEADER_SIZE + LEVEL_INDEX_ENTRY_SIZE + length level0) 0) vk_format width height 1;
     buf \<leftarrow> put_level_entry buf HEADER_SIZE (word_of_nat level0_offset) (word_of_nat (length level0));
     put_slice buf level0_offset level0 }"

section \<open>The parser reads in range\<close>

lemma ktx2_read_u32_Some [simp]:
  assumes "offset + 4 \<le> length data"
  shows "ktx2_read_u32 data offset = Some (from_le_bytes (take 4 (drop offset data)))"
proof -
  have "take 4 (drop offset data) = [data ! offset, data ! (offset + 1), data ! (offset + 2), data ! (offset + 3)]"
    using assms by (simp add: take_Suc_conv_app_nth numeral_eq_Suc)
  then show ?thesis using assms by (simp add: ktx2_read_u32_def)
qed

lemma ktx2_read_u64_Some [simp]:
  assumes "offset + 8 \<le> length data"
  shows "ktx2_read_u64 data offset = Some (from_le_bytes (take 8 (drop offset data)))"
proof -
  have "take 8 (drop offset data) = [data ! offset, data ! (offset + 1), data ! (offset + 2), data ! (offset + 3),
      data ! (offset + 4), data ! (offset + 5), data ! (offset + 6), data ! (offset + 7)]"
    using assms by (simp add: take_Suc_conv_app_nth numeral_eq_Suc)
  then show ?thesis using assms by (simp add: ktx2_read_u64_def)
qed

text \<open>The extent of a level as the index states it.\<close>

definition level_offset :: "u8 list \<Rightarrow> nat \<Rightarrow> u64" where
  "level_offset data level = from_le_bytes (take 8 (drop (HEADER_SIZE + level * LEVEL_INDEX_ENTRY_SIZE) data))"

definition level_length :: "u8 list \<Rightarrow> nat \<Rightarrow> u64" where
  "level_length data level = from_le_bytes (take 8 (drop (HEADER_SIZE + level * LEVEL_INDEX_ENTRY_SIZE + 8) data))"

definition level_extent :: "u8 list \<Rightarrow> nat \<Rightarrow> nat set" where
  "level_extent data level = {unat (level_offset data level)..<unat (level_offset data level) + unat (level_length data level)}"

definition level_ok :: "u8 list \<Rightarrow> nat \<Rightarrow> nat \<Rightarrow> bool" where
  "level_ok data level_index_end level \<longleftrightarrow> level_length data level \<noteq> 0 \<and>
     level_index_end \<le> unat (level_offset data level) \<and>
     unat (level_offset data level) + unat (level_length data level) \<le> length data"

definition level_range :: "u8 list \<Rightarrow> nat \<Rightarrow> u64 \<times> u64" where
  "level_range data level = (level_offset data level, level_offset data level + level_length data level)"

lemma level_reads:
  assumes "HEADER_SIZE + (level + 1) * LEVEL_INDEX_ENTRY_SIZE \<le> length data"
  shows "ktx2_read_u64 data (HEADER_SIZE + level * LEVEL_INDEX_ENTRY_SIZE) = Some (level_offset data level)"
    "ktx2_read_u64 data (HEADER_SIZE + level * LEVEL_INDEX_ENTRY_SIZE + 8) = Some (level_length data level)"
  using assms by (simp_all add: level_offset_def level_length_def)

lemma levels_from_reads:
  assumes "HEADER_SIZE + (level + n) * LEVEL_INDEX_ENTRY_SIZE \<le> length data"
    and "\<forall>l. level \<le> l \<and> l < level + n \<longrightarrow> level_ok data m l"
  shows "levels_from data level n = Some (map (\<lambda>l. take (unat (level_length data l)) (drop (unat (level_offset data l)) data)) [level..<level + n])"
  using assms
proof (induction n arbitrary: level)
  case (Suc n)
  have ok: "level_ok data m level" using Suc.prems(2) by simp
  have rest: "levels_from data (level + 1) n =
      Some (map (\<lambda>l. take (unat (level_length data l)) (drop (unat (level_offset data l)) data)) [level + 1..<level + 1 + n])"
    using Suc.prems by (intro Suc.IH) auto
  have "[level..<level + Suc n] = level # [level + 1..<level + 1 + n]"
    by (simp add: upt_conv_Cons)
  then show ?case
    using ok rest level_reads [of level data] Suc.prems(1) by (simp add: Let_def level_ok_def)
qed simp

lemma parse_levels_correct:
  assumes "HEADER_SIZE + (level + n) * LEVEL_INDEX_ENTRY_SIZE \<le> length data" "length data < 2 ^ 64"
    and "ranges = map (level_range data) [0..<level]" "\<forall>l < level. level_ok data m l"
    and "pairwise (\<lambda>a b. disjnt (level_extent data a) (level_extent data b)) {..<level}"
  shows "\<exists>r. parse_levels data m level n ranges = Some r \<and>
    (\<forall>rs. r = Inr rs \<longrightarrow> rs = map (level_range data) [0..<level + n] \<and> (\<forall>l < level + n. level_ok data m l) \<and>
       pairwise (\<lambda>a b. disjnt (level_extent data a) (level_extent data b)) {..<level + n})"
  using assms
proof (induction n arbitrary: level ranges)
  case (Suc n)
  let ?o = "level_offset data level" and ?l = "level_length data level"
  have reads: "ktx2_read_u64 data (80 + level * 24) = Some ?o" "ktx2_read_u64 data (80 + level * 24 + 8) = Some ?l"
    using level_reads [of level data] Suc.prems(1) by simp_all
  show ?case
  proof (cases "?l = 0 \<or> checked_add ?o ?l = None \<or> unat (?o + ?l) > length data \<or> unat ?o < m \<or>
      list_ex (\<lambda>(a, b). ?o < b \<and> a < ?o + ?l) ranges")
    case True
    then show ?thesis using reads by (auto simp: Let_def checked_add_def split: if_splits)
  next
    case False
    then have stop: "checked_add ?o ?l = Some (?o + ?l)" and sum: "unat (?o + ?l) = unat ?o + unat ?l"
      by (auto simp: checked_add_def unat_word_ariths split: if_splits)
    have ok: "level_ok data m level" using False sum by (simp add: level_ok_def)
    have apart: "disjnt (level_extent data level) (level_extent data l)" if l: "l < level" for l
    proof -
      have "level_range data l \<in> set ranges" using l Suc.prems(3) by simp
      then have "\<not> (?o < level_offset data l + level_length data l \<and> level_offset data l < ?o + ?l)"
        using False by (auto simp: list_ex_iff level_range_def)
      moreover have "unat (level_offset data l + level_length data l) = unat (level_offset data l) + unat (level_length data l)"
        using Suc.prems(2,4) l by (auto simp: level_ok_def unat_word_ariths)
      ultimately show ?thesis
        using sum by (auto simp: disjnt_def level_extent_def word_less_nat_alt)
    qed
    have "pairwise (\<lambda>a b. disjnt (level_extent data a) (level_extent data b)) {..<Suc level}"
      unfolding lessThan_Suc pairwise_insert using Suc.prems(5) apart by (auto simp: disjnt_sym)
    then have "\<exists>r. parse_levels data m (Suc level) n (ranges @ [(?o, ?o + ?l)]) = Some r \<and>
        (\<forall>rs. r = Inr rs \<longrightarrow> rs = map (level_range data) [0..<Suc level + n] \<and> (\<forall>l < Suc level + n. level_ok data m l) \<and>
           pairwise (\<lambda>a b. disjnt (level_extent data a) (level_extent data b)) {..<Suc level + n})"
      using Suc.prems(1-4) ok by (intro Suc.IH) (auto simp: level_range_def less_Suc_eq)
    moreover have "parse_levels data m level (Suc n) ranges = parse_levels data m (Suc level) n (ranges @ [(?o, ?o + ?l)])"
      using False reads stop by (auto simp: Let_def)
    ultimately show ?thesis by simp
  qed
qed simp

text \<open>What a successful parse established, and that parsing never panics.\<close>

definition parsed_ok :: "u8 list \<Rightarrow> ktx2_file \<Rightarrow> bool" where
  "parsed_ok data f \<longleftrightarrow> (let n = unat (kh_mip_levels (kf_header f)) in
     kf_file f = data \<and> 0 < n \<and> n \<le> bit_length (unat (max (kh_width (kf_header f)) (kh_height (kf_header f)))) \<and>
     HEADER_SIZE + n * LEVEL_INDEX_ENTRY_SIZE \<le> length data \<and>
     (\<forall>l < n. level_ok data (HEADER_SIZE + n * LEVEL_INDEX_ENTRY_SIZE) l) \<and>
     pairwise (\<lambda>a b. disjnt (level_extent data a) (level_extent data b)) {..<n} \<and>
     kf_data f = take (unat (level_length data 0)) (drop (unat (level_offset data 0)) data))"

lemma level_index_span: "usize_checked_mul (unat (n :: u32)) 24 \<bind> usize_checked_add 80 = Some (80 + unat n * 24)"
  using unat_bound [of n] by (simp add: usize_checked_mul_def usize_checked_add_def usize_max_def)

lemma parse_level_index_correct:
  assumes size: "length data < 2 ^ 64" and n: "n \<noteq> 0"
  shows "\<exists>r. parse_level_index data v w h n = Some r \<and> (\<forall>f. r = Inr f \<longrightarrow> parsed_ok data f)"
proof (cases "length data < 80 + unat n * 24 \<or> unat n > bit_length (unat (max w h))")
  case True
  then show ?thesis unfolding parse_level_index_def level_index_span by auto
next
  case fits: False
  let ?m = "80 + unat n * 24"
  have pos: "0 < unat n" using n by (simp add: unat_gt_0)
  obtain r where r: "parse_levels data ?m 0 (unat n) [] = Some r"
    "\<And>rs. r = Inr rs \<Longrightarrow> rs = map (level_range data) [0..<unat n] \<and> (\<forall>l < unat n. level_ok data ?m l) \<and>
      pairwise (\<lambda>a b. disjnt (level_extent data a) (level_extent data b)) {..<unat n}"
    using parse_levels_correct [of 0 "unat n" data "[]" ?m] fits size by auto
  show ?thesis
  proof (cases r)
    case (Inl e)
    then show ?thesis using fits r(1) unfolding parse_level_index_def level_index_span by simp
  next
    case (Inr rs)
    note rs = r(2) [OF Inr]
    have ok: "level_ok data ?m 0" using rs pos by blast
    then have sum: "unat (level_offset data 0 + level_length data 0) = unat (level_offset data 0) + unat (level_length data 0)"
      using size by (auto simp: level_ok_def unat_word_ariths)
    have zero: "idx rs 0 = Some (level_offset data 0, level_offset data 0 + level_length data 0)"
      using rs pos by (simp add: idx_def level_range_def)
    have bytes: "slice data (unat (level_offset data 0)) (unat (level_offset data 0 + level_length data 0)) =
        Some (take (unat (level_length data 0)) (drop (unat (level_offset data 0)) data))"
      using ok sum by (simp add: level_ok_def)
    show ?thesis
      using fits r(1) Inr zero bytes rs pos unfolding parse_level_index_def level_index_span parsed_ok_def by simp
  qed
qed

lemma parse_ktx2_correct:
  assumes "length data < 2 ^ 64"
  shows "\<exists>r. parse_ktx2 data = Some r \<and> (\<forall>f. r = Inr f \<longrightarrow> parsed_ok data f)"
proof (cases "length data < 80")
  case False
  note body = parse_level_index_correct [OF assms]
  show ?thesis using False body unfolding parse_ktx2_def by simp
qed (simp add: parse_ktx2_def)

section \<open>What the writers produce\<close>

definition entry_bytes :: "u64 \<times> u64 \<Rightarrow> u8 list" where
  "entry_bytes = (\<lambda>(offset, len). to_le_bytes 8 offset @ to_le_bytes 8 len @ to_le_bytes 8 len)"

definition ktx2_header_bytes :: "u32 \<Rightarrow> u32 \<Rightarrow> u32 \<Rightarrow> u32 \<Rightarrow> u8 list" where
  "ktx2_header_bytes vk_format width height level_count =
     KTX2_MAGIC @ to_le_bytes 4 vk_format @ to_le_bytes 4 (1 :: u32) @ to_le_bytes 4 width @ to_le_bytes 4 height @
     to_le_bytes 4 (0 :: u32) @ to_le_bytes 4 (0 :: u32) @ to_le_bytes 4 (1 :: u32) @ to_le_bytes 4 level_count @
     to_le_bytes 4 (0 :: u32) @ replicate 32 0"

text \<open>The offset of a level: the index, then the levels after it.\<close>

definition placed_at :: "u8 list list \<Rightarrow> nat \<Rightarrow> nat" where
  "placed_at levels i = HEADER_SIZE + length levels * LEVEL_INDEX_ENTRY_SIZE + sum_list (map length (drop (Suc i) levels))"

definition placement :: "u8 list list \<Rightarrow> (u64 \<times> u64) list" where
  "placement levels = map (\<lambda>i. (word_of_nat (placed_at levels i), word_of_nat (length (levels ! i)))) [0..<length levels]"

definition ktx2_bytes :: "u32 \<Rightarrow> u32 \<Rightarrow> u32 \<Rightarrow> u8 list list \<Rightarrow> u8 list" where
  "ktx2_bytes vk_format width height levels =
     ktx2_header_bytes vk_format width height (word_of_nat (length levels)) @ concat (map entry_bytes (placement levels)) @ concat (rev levels)"

lemma length_entry_bytes [simp]: "length (entry_bytes p) = 24"
  by (simp add: entry_bytes_def split: prod.splits)

lemma length_ktx2_header_bytes [simp]: "length (ktx2_header_bytes f w h n) = 80"
  by (simp add: ktx2_header_bytes_def KTX2_MAGIC_def)

lemma length_entries [simp]: "length (concat (map entry_bytes ps)) = 24 * length ps"
  by (induction ps) simp_all

lemma put_ktx2_header_bytes:
  "put_ktx2_header (replicate (HEADER_SIZE + n) 0 @ post) f w h c = Some (ktx2_header_bytes f w h c @ replicate n 0 @ post)"
proof -
  have magic: "length KTX2_MAGIC = 12" by (simp add: KTX2_MAGIC_def)
  show ?thesis
    unfolding put_ktx2_header_def put_slice_def ktx2_header_bytes_def by (simp add: magic replicate_add)
qed

lemma put_level_entry_bytes:
  assumes "length old = 24" "entry = length pre"
  shows "put_level_entry (pre @ old @ post) entry offset len = Some (pre @ entry_bytes (offset, len) @ post)"
  unfolding put_level_entry_def put_slice_def entry_bytes_def using assms by simp

lemma put_index_bytes:
  assumes "length pre = HEADER_SIZE + level * LEVEL_INDEX_ENTRY_SIZE" "length old = 24 * length placed"
  shows "put_index level placed (pre @ old @ post) = Some (pre @ concat (map entry_bytes placed) @ post)"
  using assms
proof (induction placed arbitrary: level pre old)
  case (Cons p placed)
  obtain o1 o2 where old: "old = o1 @ o2" "length o1 = 24" "length o2 = 24 * length placed"
    using Cons.prems(2) by (intro that [of "take 24 old" "drop 24 old"]) simp_all
  have "put_level_entry (pre @ old @ post) (80 + level * 24) (fst p) (snd p) = Some ((pre @ entry_bytes p) @ o2 @ post)"
    using put_level_entry_bytes [of o1 "80 + level * 24" pre "o2 @ post"] Cons.prems(1) old by simp
  moreover have "put_index (level + 1) placed ((pre @ entry_bytes p) @ o2 @ post) =
      Some ((pre @ entry_bytes p) @ concat (map entry_bytes placed) @ post)"
    using Cons.prems(1) old(3) by (intro Cons.IH) simp_all
  ultimately show ?case by (cases p) simp
qed simp

lemma place_levels_result:
  assumes "n \<le> length levels" "length placed = length levels"
  shows "\<exists>placed'. place_levels levels n buf placed = Some (buf @ concat (rev (take n levels)), placed') \<and> length placed' = length levels \<and>
    (\<forall>i < length levels. placed' ! i =
       (if i < n then (word_of_nat (length buf + sum_list (map length (drop (Suc i) (take n levels)))), word_of_nat (length (levels ! i)))
        else placed ! i))"
  using assms
proof (induction n arbitrary: buf placed)
  case (Suc n)
  let ?l = "levels ! n"
  let ?placed = "placed[n := (word_of_nat (length buf), word_of_nat (length ?l))]"
  obtain placed' where p: "place_levels levels n (buf @ ?l) ?placed = Some ((buf @ ?l) @ concat (rev (take n levels)), placed')"
      "length placed' = length levels"
      "\<And>i. i < length levels \<Longrightarrow> placed' ! i =
       (if i < n then (word_of_nat (length (buf @ ?l) + sum_list (map length (drop (Suc i) (take n levels)))), word_of_nat (length (levels ! i)))
        else ?placed ! i)"
    using Suc.IH [of ?placed "buf @ ?l"] Suc.prems by auto
  have t: "take (Suc n) levels = take n levels @ [?l]" using Suc.prems(1) by (simp add: take_Suc_conv_app_nth)
  have "placed' ! i =
       (if i < Suc n then (word_of_nat (length buf + sum_list (map length (drop (Suc i) (take (Suc n) levels)))), word_of_nat (length (levels ! i)))
        else placed ! i)" if i: "i < length levels" for i
    using p(3) [OF i] i Suc.prems by (cases "i < n"; cases "i = n") (simp_all add: t add.assoc add.commute add.left_commute)
  then show ?case using p(1,2) Suc.prems(1) by (simp add: t)
qed simp

lemma write_ktx2_levels_bytes:
  assumes "writable width height levels"
  shows "write_ktx2_levels f width height levels = Some (Some (ktx2_bytes f width height levels))"
proof -
  let ?n = "length levels" and ?h = "ktx2_header_bytes f width height (word_of_nat (length levels))"
  let ?buf = "?h @ replicate (?n * 24) 0"
  have h: "put_ktx2_header (replicate (80 + ?n * 24) 0) f width height (word_of_nat ?n) = Some ?buf"
    using put_ktx2_header_bytes [of "?n * 24" "[]"] by simp
  obtain placed where p: "place_levels levels ?n ?buf (replicate ?n (0, 0)) = Some (?buf @ concat (rev levels), placed)"
    "length placed = ?n" "\<And>i. i < ?n \<Longrightarrow> placed ! i = (word_of_nat (length ?buf + sum_list (map length (drop (Suc i) levels))), word_of_nat (length (levels ! i)))"
    using place_levels_result [of ?n levels "replicate ?n (0, 0)" ?buf] by auto
  have "placed = placement levels"
    using p(2,3) by (intro nth_equalityI) (simp_all add: placement_def placed_at_def)
  moreover have "put_index 0 placed (?h @ replicate (?n * 24) 0 @ concat (rev levels)) =
      Some (?h @ concat (map entry_bytes placed) @ concat (rev levels))"
    using p(2) by (intro put_index_bytes) simp_all
  ultimately show ?thesis
    using assms h p(1) by (simp add: write_ktx2_levels_def ktx2_bytes_def)
qed

lemma write_ktx2_bytes:
  "write_ktx2 f width height level0 = Some (ktx2_bytes f width height [level0])"
proof -
  let ?n = "length level0"
  have h: "put_ktx2_header (replicate (80 + (24 + ?n)) 0) f width height 1 = Some (ktx2_header_bytes f width height 1 @ replicate (24 + ?n) 0)"
    using put_ktx2_header_bytes [of "24 + ?n" "[]"] by simp
  have e: "put_level_entry (ktx2_header_bytes f width height 1 @ replicate 24 0 @ replicate ?n 0) 80 104 (word_of_nat ?n) =
      Some (ktx2_header_bytes f width height 1 @ entry_bytes (104, word_of_nat ?n) @ replicate ?n 0)"
    by (rule put_level_entry_bytes) simp_all
  have "put_slice ((ktx2_header_bytes f width height 1 @ entry_bytes (104, word_of_nat ?n)) @ replicate ?n 0 @ []) 104 level0 =
      Some ((ktx2_header_bytes f width height 1 @ entry_bytes (104, word_of_nat ?n)) @ level0 @ [])"
    by (rule put_slice_here) simp_all
  then show ?thesis
    using h e by (simp add: write_ktx2_def Let_def ktx2_bytes_def placement_def placed_at_def replicate_add add.assoc)
qed

section \<open>The parser accepts what the writers produce\<close>

lemma parse_levels_accepts:
  assumes "HEADER_SIZE + (level + n) * LEVEL_INDEX_ENTRY_SIZE \<le> length data" "length data < 2 ^ 64"
    and "\<forall>l < level + n. level_ok data m l"
    and "pairwise (\<lambda>a b. disjnt (level_extent data a) (level_extent data b)) {..<level + n}"
  shows "parse_levels data m level n (map (level_range data) [0..<level]) = Ok (map (level_range data) [0..<level + n])"
  using assms
proof (induction n arbitrary: level)
  case (Suc n)
  let ?o = "\<lambda>l. level_offset data l" and ?l = "\<lambda>l. level_length data l"
  have sum: "unat (?o l + ?l l) = unat (?o l) + unat (?l l)" if "l \<le> level" for l
  proof -
    have "level_ok data m l" using Suc.prems(3) that by simp
    then show ?thesis using Suc.prems(2) by (auto simp: level_ok_def unat_word_ariths)
  qed
  have ok: "level_ok data m level" using Suc.prems(3) by simp
  have stop: "checked_add (?o level) (?l level) = Some (?o level + ?l level)"
    using sum [of level] by (simp add: checked_add_Some_iff)
  have "\<not> (?o level < ?o l + ?l l \<and> ?o l < ?o level + ?l level)" if l: "l < level" for l
  proof -
    have "disjnt (level_extent data level) (level_extent data l)" using Suc.prems(4) l by (auto simp: pairwise_def)
    moreover have "0 < unat (?l l)" "0 < unat (?l level)" using Suc.prems(3) l by (simp_all add: level_ok_def unat_gt_0)
    ultimately have "\<not> (unat (?o level) < unat (?o l) + unat (?l l) \<and> unat (?o l) < unat (?o level) + unat (?l level))"
      unfolding disjnt_iff level_extent_def by (auto dest: spec [of _ "max (unat (?o level)) (unat (?o l))"])
    then show ?thesis using sum [of l] sum [of level] l by (simp add: word_less_nat_alt)
  qed
  then have none: "\<not> list_ex (\<lambda>(a, b). ?o level < b \<and> a < ?o level + ?l level) (map (level_range data) [0..<level])"
    by (auto simp: list_ex_iff level_range_def)
  have reads: "ktx2_read_u64 data (80 + level * 24) = Some (?o level)" "ktx2_read_u64 data (80 + level * 24 + 8) = Some (?l level)"
    using level_reads [of level data] Suc.prems(1) by simp_all
  have "parse_levels data m level (Suc n) (map (level_range data) [0..<level]) =
      parse_levels data m (Suc level) n (map (level_range data) [0..<Suc level])"
    using reads stop none ok sum [of level] by (simp add: Let_def level_ok_def level_range_def)
  also have "\<dots> = Ok (map (level_range data) [0..<Suc level + n])"
    using Suc.prems by (intro Suc.IH) simp_all
  finally show ?case by simp
qed simp

lemma drop_entries:
  "i < length ps \<Longrightarrow> \<exists>rest. drop (24 * i) (concat (map entry_bytes ps) @ post) = entry_bytes (ps ! i) @ rest"
proof (induction ps arbitrary: i)
  case (Cons p ps)
  then show ?case by (cases i) auto
qed simp

lemma written_entry:
  assumes "i < length levels"
  shows "level_offset (ktx2_bytes f w h levels) i = word_of_nat (placed_at levels i)"
    "level_length (ktx2_bytes f w h levels) i = word_of_nat (length (levels ! i))"
proof -
  obtain rest where rest: "drop (24 * i) (concat (map entry_bytes (placement levels)) @ concat (rev levels)) =
      entry_bytes (placement levels ! i) @ rest"
    using drop_entries [of i "placement levels"] assms by (auto simp: placement_def)
  have "drop (80 + i * 24) (ktx2_bytes f w h levels) = entry_bytes (placement levels ! i) @ rest"
    using rest by (simp add: ktx2_bytes_def mult.commute)
  moreover from this have "drop (80 + i * 24 + 8) (ktx2_bytes f w h levels) = drop 8 (entry_bytes (placement levels ! i) @ rest)"
    by (metis drop_drop add.commute)
  ultimately show "level_offset (ktx2_bytes f w h levels) i = word_of_nat (placed_at levels i)"
    "level_length (ktx2_bytes f w h levels) i = word_of_nat (length (levels ! i))"
    using assms by (simp_all add: level_offset_def level_length_def placement_def entry_bytes_def le64.dec_enc)
qed

lemma sum_list_split: "i < length xs \<Longrightarrow> sum_list (map length xs) = sum_list (map length (take i xs)) + length (xs ! i) + sum_list (map length (drop (Suc i) xs))"
  by (subst id_take_nth_drop [of i xs]) simp_all

lemma length_concat_rev: "length (concat (rev xs)) = sum_list (map length xs)"
  by (induction xs) simp_all

lemma length_placement [simp]: "length (placement levels) = length levels"
  by (simp add: placement_def)

lemma length_ktx2_bytes:
  "length (ktx2_bytes f w h levels) = HEADER_SIZE + length levels * LEVEL_INDEX_ENTRY_SIZE + sum_list (map length levels)"
  by (simp add: ktx2_bytes_def length_concat [of levels])

lemma placed_at_bound:
  "i < length levels \<Longrightarrow> placed_at levels i + length (levels ! i) \<le> length (ktx2_bytes f w h levels)"
  using sum_list_split [of i levels] by (simp add: length_ktx2_bytes placed_at_def)

lemma placed_apart:
  assumes "i < j" "j < length levels"
  shows "placed_at levels j + length (levels ! j) \<le> placed_at levels i"
proof -
  have d: "drop (Suc i) levels = take (j - Suc i) (drop (Suc i) levels) @ levels ! j # drop (Suc j) levels"
    using id_take_nth_drop [of "j - Suc i" "drop (Suc i) levels"] assms by simp
  have "sum_list (map length (drop (Suc i) levels)) \<ge> length (levels ! j) + sum_list (map length (drop (Suc j) levels))"
    by (subst d) simp
  then show ?thesis by (simp add: placed_at_def)
qed

lemma written_level:
  assumes "i < length levels"
  shows "take (length (levels ! i)) (drop (placed_at levels i) (ktx2_bytes f w h levels)) = levels ! i"
proof -
  have "rev levels = rev (drop (Suc i) levels) @ levels ! i # rev (take i levels)"
    using id_take_nth_drop [OF assms] by (metis append.assoc append_Cons append_Nil rev.simps(2) rev_append)
  then have c: "concat (rev levels) = concat (rev (drop (Suc i) levels)) @ levels ! i @ concat (rev (take i levels))" by simp
  have l: "length (concat (rev (drop (Suc i) levels))) = sum_list (map length (drop (Suc i) levels))"
    by (rule length_concat_rev)
  have "drop (placed_at levels i) (ktx2_bytes f w h levels) = drop (sum_list (map length (drop (Suc i) levels))) (concat (rev levels))"
    by (simp add: ktx2_bytes_def placed_at_def mult.commute)
  also have "\<dots> = levels ! i @ concat (rev (take i levels))" unfolding c by (simp add: l [symmetric])
  finally show ?thesis by simp
qed

lemma written_levels_ok:
  assumes size: "length (ktx2_bytes f w h levels) < 2 ^ 64" and nonempty: "\<forall>l \<in> set levels. l \<noteq> []"
  shows "\<forall>i < length levels. level_ok (ktx2_bytes f w h levels) (HEADER_SIZE + length levels * LEVEL_INDEX_ENTRY_SIZE) i"
    and "pairwise (\<lambda>a b. disjnt (level_extent (ktx2_bytes f w h levels) a) (level_extent (ktx2_bytes f w h levels) b)) {..<length levels}"
    and "i < length levels \<Longrightarrow> unat (level_offset (ktx2_bytes f w h levels) i) = placed_at levels i"
    and "i < length levels \<Longrightarrow> unat (level_length (ktx2_bytes f w h levels) i) = length (levels ! i)"
proof -
  let ?d = "ktx2_bytes f w h levels"
  have o: "unat (level_offset ?d i) = placed_at levels i" and l: "unat (level_length ?d i) = length (levels ! i)" if "i < length levels" for i
    using that size placed_at_bound [OF that, of f w h] by (simp_all add: written_entry unat_of_nat)
  show "\<forall>i < length levels. level_ok ?d (HEADER_SIZE + length levels * LEVEL_INDEX_ENTRY_SIZE) i"
  proof (intro allI impI)
    fix i assume i: "i < length levels"
    have "0 < length (levels ! i)" using nonempty i by simp
    then have "level_length ?d i \<noteq> 0" using l [OF i] by (metis unat_0 less_irrefl)
    then show "level_ok ?d (HEADER_SIZE + length levels * LEVEL_INDEX_ENTRY_SIZE) i"
      using o [OF i] l [OF i] placed_at_bound [OF i, of f w h] by (simp add: level_ok_def placed_at_def)
  qed
  show "pairwise (\<lambda>a b. disjnt (level_extent ?d a) (level_extent ?d b)) {..<length levels}"
    unfolding pairwise_def
  proof (intro ballI impI)
    fix a b assume ab: "a \<in> {..<length levels}" "b \<in> {..<length levels}" "a \<noteq> b"
    then show "disjnt (level_extent ?d a) (level_extent ?d b)"
      using placed_apart [of a b levels] placed_apart [of b a levels]
      by (cases "a < b") (auto simp: level_extent_def disjnt_iff o l)
  qed
qed (use size placed_at_bound [of i levels f w h] in \<open>simp_all add: written_entry unat_of_nat\<close>)

lemma bit_length_bound: "n < 2 ^ k \<Longrightarrow> bit_length n \<le> k"
proof (induction k arbitrary: n)
  case (Suc k)
  then show ?case by (subst bit_length.simps) (simp add: less_mult_imp_div_less)
qed (simp add: bit_length.simps)

lemma written_file_parses:
  assumes size: "length (ktx2_bytes f w h levels) < 2 ^ 64" and ok: "writable w h levels"
  shows "parse_ktx2 (ktx2_bytes f w h levels) =
    Ok \<lparr> kf_header = \<lparr> kh_format = vk_format_from_u32 f, kh_width = w, kh_height = h, kh_mip_levels = word_of_nat (length levels) \<rparr>,
         kf_data = levels ! 0, kf_file = ktx2_bytes f w h levels \<rparr>"
    and "levels_from (ktx2_bytes f w h levels) 0 (length levels) = Some levels"
    and "unat (word_of_nat (length levels) :: u32) = length levels"
proof -
  let ?d = "ktx2_bytes f w h levels" and ?n = "length levels"
  have nonempty: "\<forall>l \<in> set levels. l \<noteq> []" and pos: "0 < ?n" and dims: "w \<noteq> 0" "h \<noteq> 0" and few: "?n \<le> bit_length (unat (max w h))"
    using ok by (auto simp: writable_def list_ex_iff)
  note lv = written_levels_ok [OF size nonempty]
  have "bit_length (unat (max w h)) \<le> 32" using unat_bound [of "max w h"] by (intro bit_length_bound) simp
  then have n: "unat (word_of_nat ?n :: u32) = ?n" using few by (simp add: unat_of_nat)
  then have nz: "(word_of_nat ?n :: u32) \<noteq> 0" using pos by (metis unat_0 less_irrefl)
  have room: "80 + ?n * 24 \<le> length ?d" by (simp add: length_ktx2_bytes)
  have magic: "length KTX2_MAGIC = 12" by (simp add: KTX2_MAGIC_def)
  have at: "take 12 ?d = KTX2_MAGIC" "take 4 (drop 12 ?d) = to_le_bytes 4 f" "take 4 (drop 20 ?d) = to_le_bytes 4 w"
    "take 4 (drop 24 ?d) = to_le_bytes 4 h" "take 4 (drop 40 ?d) = to_le_bytes 4 (word_of_nat ?n :: u32)"
    "take 4 (drop 44 ?d) = to_le_bytes 4 (0 :: u32)"
    by (simp_all add: ktx2_bytes_def ktx2_header_bytes_def magic)
  have ranges: "parse_levels ?d (80 + ?n * 24) 0 ?n [] = Ok (map (level_range ?d) [0..<?n])"
    using parse_levels_accepts [of 0 ?n ?d "80 + ?n * 24"] lv(1,2) room size by simp
  have zero: "idx (map (level_range ?d) [0..<?n]) 0 = Some (level_range ?d 0)" using pos by (simp add: idx_def)
  have stop: "unat (level_offset ?d 0 + level_length ?d 0) = placed_at levels 0 + length (levels ! 0)"
    using lv(3,4) [OF pos] placed_at_bound [OF pos, of f w h] size by (simp add: unat_word_ariths)
  have "slice ?d (unat (level_offset ?d 0)) (unat (level_offset ?d 0 + level_length ?d 0)) = Some (levels ! 0)"
    using lv(3) [OF pos] stop placed_at_bound [OF pos, of f w h] written_level [OF pos, of f w h] by simp
  then have "parse_level_index ?d f w h (word_of_nat ?n) =
      Ok \<lparr> kf_header = \<lparr> kh_format = vk_format_from_u32 f, kh_width = w, kh_height = h, kh_mip_levels = word_of_nat ?n \<rparr>,
         kf_data = levels ! 0, kf_file = ?d \<rparr>"
    unfolding parse_level_index_def level_index_span using n room few ranges zero by (simp add: level_range_def)
  then show "parse_ktx2 ?d =
    Ok \<lparr> kf_header = \<lparr> kh_format = vk_format_from_u32 f, kh_width = w, kh_height = h, kh_mip_levels = word_of_nat ?n \<rparr>,
         kf_data = levels ! 0, kf_file = ?d \<rparr>"
    using room pos nz dims by (simp add: parse_ktx2_def at le32.dec_enc)
  have "levels_from ?d 0 ?n = Some (map (\<lambda>l. take (unat (level_length ?d l)) (drop (unat (level_offset ?d l)) ?d)) [0..<?n])"
    using levels_from_reads [of 0 ?n ?d] lv(1) room by simp
  also have "map (\<lambda>l. take (unat (level_length ?d l)) (drop (unat (level_offset ?d l)) ?d)) [0..<?n] = map ((!) levels) [0..<?n]"
    using lv(3,4) written_level by (intro map_cong) auto
  finally show "levels_from ?d 0 ?n = Some levels" by (simp add: map_nth)
  show "unat (word_of_nat ?n :: u32) = ?n" by (rule n)
qed

section \<open>Properties\<close>

text \<open>
  C22. A texture file is safe to hand to the GPU once it is parsed. Parsing no byte
  sequence panics. When it accepts, the chain has at least one level and no more than the
  dimensions allow; reading the levels does not panic and yields them all, none empty,
  the first being the base level; each lies inside the file and behind the header and the
  index, and no two share a byte.
\<close>

theorem parsed_levels_are_safe:
  assumes "length data < 2 ^ 64"
  shows "parse_ktx2 data \<noteq> Panic \<and>
    (\<forall>f. parse_ktx2 data = Ok f \<longrightarrow> (let n = unat (kh_mip_levels (kf_header f)) in
       0 < n \<and> n \<le> bit_length (unat (max (kh_width (kf_header f)) (kh_height (kf_header f)))) \<and>
       (\<exists>ls. kf_levels f = Some ls \<and> length ls = n \<and> ls ! 0 = kf_data f \<and> [] \<notin> set ls \<and>
          (\<forall>l < n. ls ! l = take (unat (level_length data l)) (drop (unat (level_offset data l)) data) \<and>
             level_extent data l \<subseteq> {HEADER_SIZE + n * LEVEL_INDEX_ENTRY_SIZE..<length data})) \<and>
       pairwise (\<lambda>a b. disjnt (level_extent data a) (level_extent data b)) {..<n}))"
proof -
  obtain r where r: "parse_ktx2 data = Some r" "\<And>f. r = Inr f \<Longrightarrow> parsed_ok data f" using parse_ktx2_correct [OF assms] by blast
  have "let n = unat (kh_mip_levels (kf_header f)) in
       0 < n \<and> n \<le> bit_length (unat (max (kh_width (kf_header f)) (kh_height (kf_header f)))) \<and>
       (\<exists>ls. kf_levels f = Some ls \<and> length ls = n \<and> ls ! 0 = kf_data f \<and> [] \<notin> set ls \<and>
          (\<forall>l < n. ls ! l = take (unat (level_length data l)) (drop (unat (level_offset data l)) data) \<and>
             level_extent data l \<subseteq> {HEADER_SIZE + n * LEVEL_INDEX_ENTRY_SIZE..<length data})) \<and>
       pairwise (\<lambda>a b. disjnt (level_extent data a) (level_extent data b)) {..<n}" if f: "parsed_ok data f" for f
  proof -
    let ?n = "unat (kh_mip_levels (kf_header f))"
    let ?ls = "map (\<lambda>l. take (unat (level_length data l)) (drop (unat (level_offset data l)) data)) [0..<?n]"
    have ok: "\<forall>l < ?n. level_ok data (80 + ?n * 24) l" "80 + ?n * 24 \<le> length data" "0 < ?n" "kf_file f = data"
      using f by (simp_all add: parsed_ok_def Let_def)
    have "levels_from data 0 ?n = Some ?ls"
      using levels_from_reads [of 0 ?n data "80 + ?n * 24"] ok(1,2) by simp
    then have "kf_levels f = Some ?ls" using ok(4) by (simp add: kf_levels_def)
    moreover have "[] \<notin> set ?ls"
    proof
      assume "[] \<in> set ?ls"
      then obtain l where "l < ?n" "take (unat (level_length data l)) (drop (unat (level_offset data l)) data) = []" by auto
      moreover from this ok(1) have "level_ok data (80 + ?n * 24) l" by blast
      moreover from this have "0 < unat (level_length data l)" by (simp add: level_ok_def unat_gt_0)
      ultimately show False by (auto simp: level_ok_def)
    qed
    moreover have "level_extent data l \<subseteq> {80 + ?n * 24..<length data}" if "l < ?n" for l
      using ok(1) that by (force simp: level_ok_def level_extent_def)
    ultimately show ?thesis using f ok(3) by (simp add: parsed_ok_def Let_def)
  qed
  then show ?thesis using r by (metis option.inject option.distinct(1))
qed

text \<open>
  C23. The writer is the parser's inverse: a mip chain of nonempty levels that fits the
  dimensions is written, and reading the file back gives the same format, dimensions and
  levels; any other chain is declined. The writer for one level produces the same bytes.
\<close>

theorem ktx2_roundtrip:
  assumes "length (concat levels) + HEADER_SIZE + length levels * LEVEL_INDEX_ENTRY_SIZE < 2 ^ 64"
  shows "(if writable width height levels
     then \<exists>buf file. write_ktx2_levels f width height levels = Some (Some buf) \<and> parse_ktx2 buf = Ok file \<and>
       kf_header file = \<lparr> kh_format = vk_format_from_u32 f, kh_width = width, kh_height = height, kh_mip_levels = word_of_nat (length levels) \<rparr> \<and>
       kf_levels file = Some levels \<and> kf_data file = hd levels \<and>
       (\<forall>level0. levels = [level0] \<longrightarrow> write_ktx2 f width height level0 = Some buf)
     else write_ktx2_levels f width height levels = Some None)"
proof (cases "writable width height levels")
  case True
  have size: "length (ktx2_bytes f width height levels) < 2 ^ 64"
    using assms by (simp add: length_ktx2_bytes length_concat)
  note p = written_file_parses [OF size True]
  have "levels \<noteq> []" using True by (simp add: writable_def)
  then show ?thesis
    using True p write_ktx2_levels_bytes [OF True, of f] write_ktx2_bytes by (auto simp: kf_levels_def hd_conv_nth)
next
  case False
  then show ?thesis by (simp add: write_ktx2_levels_def)
qed

text \<open>A chain of two levels of an image of two by one pixels.\<close>

theorem parsed_levels_are_safe_witness:
  "\<exists>f. parse_ktx2 (ktx2_bytes 147 2 1 [[1, 2], [3]]) = Ok f \<and> kf_levels f \<noteq> None \<and>
     disjnt (level_extent (ktx2_bytes 147 2 1 [[1, 2], [3]]) 0) (level_extent (ktx2_bytes 147 2 1 [[1, 2], [3]]) 1)"
proof -
  let ?d = "ktx2_bytes 147 2 1 [[1, 2], [3]]"
  have w: "writable 2 1 [[1, 2], [3]]" by (simp add: writable_def bit_length.simps max_def word_le_nat_alt)
  have size: "length ?d < 2 ^ 64" by (simp add: length_ktx2_bytes)
  note p = written_file_parses [OF size w]
  from parsed_levels_are_safe [OF size] p(1,3) show ?thesis
    by (auto simp: Let_def pairwise_def)
qed

theorem ktx2_roundtrip_witness:
  "\<exists>buf file. write_ktx2_levels 147 2 1 [[1, 2], [3]] = Some (Some buf) \<and> parse_ktx2 buf = Ok file \<and> kf_levels file = Some [[1, 2], [3]]"
proof -
  have "writable 2 1 [[1, 2], [3]]" by (simp add: writable_def bit_length.simps max_def word_le_nat_alt)
  moreover have "length (concat [[1, 2], [3 :: u8]]) + 80 + length [[1, 2], [3 :: u8]] * 24 < 2 ^ 64" by simp
  ultimately show ?thesis using ktx2_roundtrip [of "[[1, 2], [3]]" 2 1 147] by (simp only: if_True) blast
qed

end
