(* ===== verification/Etc2.thy ===== *)
theory Etc2
  imports Prelude
begin

text \<open>
  The texture encoder of \<open>io/src/etc2.rs\<close>, which compresses images when a package is
  ingested: the colour block in individual mode, the alpha block, and the walk over the
  image that may be shared by several threads. Beside it stands the decoder as the
  OpenGL ES specification has it, against which the encoder's choices are judged.
  A pixel is a list of three channels, an array of pixels a list in raster order.
\<close>

section \<open>Tables\<close>

definition ALPHA_MODIFIER_TABLE :: "int list list" where
  "ALPHA_MODIFIER_TABLE = [
     [-3, -6, -9, -15, 2, 5, 8, 14], [-3, -7, -10, -13, 2, 6, 9, 12], [-2, -5, -8, -13, 1, 4, 7, 12], [-2, -4, -6, -13, 1, 3, 5, 12],
     [-3, -6, -8, -12, 2, 5, 7, 11], [-3, -7, -9, -11, 2, 6, 8, 10], [-4, -7, -8, -11, 3, 6, 7, 10], [-3, -5, -8, -11, 2, 4, 7, 10],
     [-2, -6, -8, -10, 1, 5, 7, 9], [-2, -5, -8, -10, 1, 4, 7, 9], [-2, -4, -8, -10, 1, 3, 7, 9], [-2, -5, -7, -10, 1, 4, 6, 9],
     [-3, -4, -7, -10, 2, 3, 6, 9], [-1, -2, -3, -10, 0, 1, 2, 9], [-4, -6, -8, -9, 3, 5, 7, 8], [-3, -5, -7, -9, 2, 4, 6, 8]]"

definition MODIFIER_TABLE :: "int list list" where
  "MODIFIER_TABLE = [[2, 8], [5, 17], [9, 29], [13, 42], [18, 60], [24, 80], [33, 106], [47, 183]]"

definition SUBBLOCK_TABLE :: "nat list list" where
  "SUBBLOCK_TABLE = [[0, 0, 0, 0, 0, 0, 0, 0, 1, 1, 1, 1, 1, 1, 1, 1], [0, 0, 1, 1, 0, 0, 1, 1, 0, 0, 1, 1, 0, 0, 1, 1]]"

definition SLOT_TO_PIXEL :: "nat list" where
  "SLOT_TO_PIXEL = [0, 4, 8, 12, 1, 5, 9, 13, 2, 6, 10, 14, 3, 7, 11, 15]"

definition ALPHA_WRITE_ORDER :: "nat list" where
  "ALPHA_WRITE_ORDER = [15, 11, 7, 3, 14, 10, 6, 2, 13, 9, 5, 1, 12, 8, 4, 0]"

abbreviation (input) ETC2_RGB_BLOCK_BYTES :: nat where "ETC2_RGB_BLOCK_BYTES \<equiv> 8"
abbreviation (input) ETC2_RGBA_BLOCK_BYTES :: nat where "ETC2_RGBA_BLOCK_BYTES \<equiv> 16"

type_synonym rgb_pixel = "u8 list"

section \<open>Searching\<close>

text \<open>
  All searches of the encoder have one shape: start from the largest \<open>u64\<close>, visit the
  candidates, and replace the best by one that costs strictly less.
\<close>

abbreviation (input) u64_MAX :: nat where "u64_MAX \<equiv> 2 ^ 64 - 1"

definition keep_best :: "('a \<Rightarrow> nat) \<Rightarrow> 'a \<Rightarrow> nat \<times> 'a \<Rightarrow> nat \<times> 'a" where
  "keep_best cost x = (\<lambda>(best_cost, best). if cost x < best_cost then (cost x, x) else (best_cost, best))"

definition search :: "('a \<Rightarrow> nat) \<Rightarrow> 'a list \<Rightarrow> 'a \<Rightarrow> nat \<times> 'a" where
  "search cost xs start = fold (keep_best cost) xs (u64_MAX, start)"

definition clamp_int :: "int \<Rightarrow> int \<Rightarrow> int \<Rightarrow> int" where
  "clamp_int v lo hi = (if v < lo then lo else if v > hi then hi else v)"

section \<open>One colour block\<close>

record subblock_fit =
  sf_quantized :: "u8 list"
  sf_codeword :: nat
  sf_selectors :: "(bool \<times> bool) list"
  sf_error :: nat

definition subblock_sum :: "rgb_pixel list \<Rightarrow> nat list \<Rightarrow> nat \<Rightarrow> nat" where
  "subblock_sum pixels slots channel = sum_list (map (\<lambda>slot. unat (pixels ! (SLOT_TO_PIXEL ! slot) ! channel)) slots)"

definition quantize :: "rgb_pixel list \<Rightarrow> nat list \<Rightarrow> nat \<Rightarrow> u8" where
  "quantize pixels slots channel =
     (let n = length slots; average = (subblock_sum pixels slots channel + n div 2) div n
      in word_of_nat (min ((average + 8) div 17) 15))"

definition expand :: "u8 \<Rightarrow> int" where
  "expand q = uint (push_bit 4 q OR q)"

text \<open>The cost of painting a pixel with the base colour and a modifier.\<close>

definition modifier_of :: "int list \<Rightarrow> bool \<times> bool \<Rightarrow> int" where
  "modifier_of magnitudes = (\<lambda>(mag_bit, sign_bit). if sign_bit then - (magnitudes ! of_bool mag_bit) else magnitudes ! of_bool mag_bit)"

definition paint :: "int \<Rightarrow> int \<Rightarrow> int" where
  "paint base modifier = clamp_int (base + modifier) 0 255"

definition pixel_cost :: "int list \<Rightarrow> rgb_pixel \<Rightarrow> int \<Rightarrow> nat" where
  "pixel_cost base target modifier =
     sum_list (map (\<lambda>channel. nat ((paint (base ! channel) modifier - uint (target ! channel)) ^ 2)) [0..<3])"

definition fit_pixel :: "int list \<Rightarrow> int list \<Rightarrow> rgb_pixel \<Rightarrow> nat \<times> (bool \<times> bool)" where
  "fit_pixel base magnitudes target =
     search (\<lambda>selector. pixel_cost base target (modifier_of magnitudes selector))
       [(False, False), (False, True), (True, False), (True, True)] (False, False)"

definition fit_codeword :: "rgb_pixel list \<Rightarrow> nat list \<Rightarrow> int list \<Rightarrow> nat \<Rightarrow> nat \<times> nat \<times> (bool \<times> bool) list" where
  "fit_codeword pixels slots base codeword =
     (let fits = map (\<lambda>slot. fit_pixel base (MODIFIER_TABLE ! codeword) (pixels ! (SLOT_TO_PIXEL ! slot))) slots
      in (sum_list (map fst fits), codeword, map snd fits))"

definition fit_subblock :: "rgb_pixel list \<Rightarrow> nat list \<Rightarrow> subblock_fit" where
  "fit_subblock pixels slots =
     (let quantized = map (quantize pixels slots) [0..<3];
          base = map expand quantized;
          (error, _, codeword, selectors) =
            search fst (map (fit_codeword pixels slots base) [0..<8]) (u64_MAX, 0, replicate 8 (False, False))
      in \<lparr> sf_quantized = quantized, sf_codeword = codeword, sf_selectors = selectors, sf_error = error \<rparr>)"

definition subblock_slots :: "nat \<Rightarrow> nat \<Rightarrow> nat list" where
  "subblock_slots flip sub = filter (\<lambda>slot. SUBBLOCK_TABLE ! flip ! slot = sub) [0..<16]"

definition fit_flip :: "rgb_pixel list \<Rightarrow> nat \<Rightarrow> nat \<times> nat \<times> subblock_fit \<times> subblock_fit" where
  "fit_flip pixels flip =
     (let fit0 = fit_subblock pixels (subblock_slots flip 0); fit1 = fit_subblock pixels (subblock_slots flip 1)
      in (sf_error fit0 + sf_error fit1, flip, fit0, fit1))"

text \<open>The two bit planes; the cursors walk through the selectors of either half.\<close>

fun put_planes :: "nat list \<Rightarrow> (bool \<times> bool) list \<Rightarrow> (bool \<times> bool) list \<Rightarrow> nat \<Rightarrow> nat \<times> nat \<Rightarrow> 16 word \<times> 16 word \<Rightarrow> 16 word \<times> 16 word" where
  "put_planes [] sel0 sel1 slot cursor planes = planes"
| "put_planes (sub # subs) sel0 sel1 slot (cursor0, cursor1) (magnitude, sign) =
     (let (mag_bit, sign_bit) = (if sub = 0 then sel0 ! cursor0 else sel1 ! cursor1)
      in put_planes subs sel0 sel1 (slot + 1) (if sub = 0 then (cursor0 + 1, cursor1) else (cursor0, cursor1 + 1))
           (magnitude OR push_bit slot (of_bool mag_bit), sign OR push_bit slot (of_bool sign_bit)))"

definition u16_to_be_bytes :: "16 word \<Rightarrow> u8 list" where
  "u16_to_be_bytes w = [ucast (drop_bit 8 w), ucast w]"

definition encode_block :: "rgb_pixel list \<Rightarrow> u8 list" where
  "encode_block pixels =
     (let first = fit_flip pixels 0; second = fit_flip pixels 1;
          (_, flip, fit0, fit1) = (if fst second < fst first then second else first);
          colours = map (\<lambda>channel. push_bit 4 (sf_quantized fit0 ! channel) OR sf_quantized fit1 ! channel) [0..<3];
          (magnitude, sign) = put_planes (SUBBLOCK_TABLE ! flip) (sf_selectors fit0) (sf_selectors fit1) 0 (0, 0) (0, 0)
      in colours @ [push_bit 5 (word_of_nat (sf_codeword fit0)) OR push_bit 2 (word_of_nat (sf_codeword fit1)) OR word_of_nat flip] @
         u16_to_be_bytes sign @ u16_to_be_bytes magnitude)"

section \<open>One alpha block\<close>

definition reachable :: "int \<Rightarrow> nat \<Rightarrow> int \<Rightarrow> int list" where
  "reachable base table multiplier = map (\<lambda>modifier. clamp_int (base + multiplier * modifier) 0 255) (ALPHA_MODIFIER_TABLE ! table)"

definition alpha_cost :: "int list \<Rightarrow> u8 \<Rightarrow> nat \<Rightarrow> nat" where
  "alpha_cost values target index = nat ((values ! index - uint target) ^ 2)"

definition fit_alpha_pixel :: "int list \<Rightarrow> u8 \<Rightarrow> nat \<times> nat" where
  "fit_alpha_pixel values target = search (alpha_cost values target) [0..<8] 0"

definition fit_alpha :: "u8 list \<Rightarrow> int \<times> nat \<times> int \<Rightarrow> nat \<times> (int \<times> nat \<times> int) \<times> nat list" where
  "fit_alpha alpha = (\<lambda>(base, table, multiplier).
     let fits = map (fit_alpha_pixel (reachable base table multiplier)) alpha
     in (sum_list (map fst fits), (base, table, multiplier), map snd fits))"

definition alpha_min :: "u8 list \<Rightarrow> int" where
  "alpha_min alpha = Min (set (map uint alpha))"

definition alpha_max :: "u8 list \<Rightarrow> int" where
  "alpha_max alpha = Max (set (map uint alpha))"

definition base_candidates :: "u8 list \<Rightarrow> int list" where
  "base_candidates alpha =
     (let lo = alpha_min alpha; hi = alpha_max alpha; mean = (sum_list (map uint alpha) + 8) div 16
      in map (\<lambda>base. clamp_int base 0 255) [lo, hi, mean, (lo + hi) div 2])"

text \<open>The multipliers worth trying for a table: a window around the size of the block's range.\<close>

definition multiplier_window :: "int \<Rightarrow> nat \<Rightarrow> int list" where
  "multiplier_window extent table =
     (let modifiers = ALPHA_MODIFIER_TABLE ! table;
          span = max (Max (set modifiers) - Min (set modifiers)) 1;
          ideal = (extent + span div 2) div span
      in [clamp_int (ideal - 1) 1 15..clamp_int (ideal + 2) 1 15])"

definition alpha_candidates :: "u8 list \<Rightarrow> (int \<times> nat \<times> int) list" where
  "alpha_candidates alpha =
     concat (map (\<lambda>base. concat (map (\<lambda>table. map (\<lambda>multiplier. (base, table, multiplier))
       (multiplier_window (alpha_max alpha - alpha_min alpha) table)) [0..<16])) (base_candidates alpha))"

fun pack_indices :: "nat list \<Rightarrow> nat list \<Rightarrow> nat \<Rightarrow> u64 \<Rightarrow> u64" where
  "pack_indices indices [] i packed = packed"
| "pack_indices indices (raster # order) i packed =
     pack_indices indices order (i + 1) (packed OR push_bit (3 * i) (word_of_nat (indices ! raster) AND 7))"

definition u64_to_be_bytes :: "u64 \<Rightarrow> u8 list" where
  "u64_to_be_bytes w = map (\<lambda>k. ucast (drop_bit (8 * (7 - k)) w)) [0..<8]"

definition encode_alpha_block :: "u8 list \<Rightarrow> u8 list" where
  "encode_alpha_block alpha =
     (if list_all (\<lambda>a. a = alpha ! 0) alpha then (alpha ! 0) # replicate 7 0
      else
        let (_, _, (base, table, multiplier), indices) =
              search fst (map (fit_alpha alpha) (alpha_candidates alpha)) (u64_MAX, (0, 0, 1), replicate 16 0)
        in [word_of_int base, push_bit 4 (word_of_int multiplier) OR word_of_nat table] @
           drop 2 (u64_to_be_bytes (pack_indices indices ALPHA_WRITE_ORDER 0 0)))"

section \<open>The image\<close>

text \<open>\<open>chunks_mut\<close>: pieces of a given length, the last one shorter when they do not come out even.\<close>

function chunks :: "nat \<Rightarrow> 'a list \<Rightarrow> 'a list list" where
  "chunks n xs = (if n = 0 \<or> xs = [] then [] else take n xs # chunks n (drop n xs))"
  by pat_completeness auto

termination by (relation "measure (\<lambda>(n, xs). length xs)") auto

declare chunks.simps [simp del]

fun encode_chunks :: "(nat \<Rightarrow> 'a list \<Rightarrow> 'a list option) \<Rightarrow> nat \<Rightarrow> 'a list list \<Rightarrow> 'a list option" where
  "encode_chunks f i [] = Some []"
| "encode_chunks f i (c # cs) = do { d \<leftarrow> f i c; ds \<leftarrow> encode_chunks f (i + 1) cs; Some (d @ ds) }"

abbreviation (input) MIN_BLOCKS_TO_SPLIT :: nat where "MIN_BLOCKS_TO_SPLIT \<equiv> 1024"

text \<open>
  The rows of blocks, on one thread or divided among several. The threads write disjoint
  parts of the output, so the result does not depend on their order.
\<close>

definition encode_block_rows :: "nat \<Rightarrow> nat \<Rightarrow> nat \<Rightarrow> nat \<Rightarrow> u8 list \<Rightarrow> (nat \<Rightarrow> u8 list \<Rightarrow> u8 list option) \<Rightarrow> u8 list option" where
  "encode_block_rows available_parallelism blocks_x blocks_y block_bytes out encode_row =
     (let row_bytes = blocks_x * block_bytes in
      if row_bytes = 0 \<or> blocks_y = 0 then Some out
      else
        let lanes = (if blocks_x * blocks_y < MIN_BLOCKS_TO_SPLIT then 1 else min (min (max available_parallelism 1) 4) blocks_y) in
        if lanes = 1 then encode_chunks encode_row 0 (chunks row_bytes out)
        else
          let rows_per_lane = (blocks_y + lanes - 1) div lanes in
          encode_chunks (\<lambda>lane chunk. encode_chunks (\<lambda>offset row. encode_row (lane * rows_per_lane + offset) row) 0 (chunks row_bytes chunk))
            0 (chunks (rows_per_lane * row_bytes) out))"

text \<open>Reading the sixteen pixels of a block, and \<open>copy_from_slice\<close>.\<close>

fun collect :: "('a \<Rightarrow> 'b option) \<Rightarrow> 'a list \<Rightarrow> 'b list option" where
  "collect f [] = Some []"
| "collect f (x # xs) = do { y \<leftarrow> f x; ys \<leftarrow> collect f xs; Some (y # ys) }"

definition pixel_base :: "nat \<Rightarrow> nat \<Rightarrow> nat \<Rightarrow> nat \<Rightarrow> nat" where
  "pixel_base width row_at bx p = ((row_at * 4 + p div 4) * width + (bx * 4 + p mod 4)) * 4"

definition read_rgb :: "u8 list \<Rightarrow> nat \<Rightarrow> nat \<Rightarrow> nat \<Rightarrow> rgb_pixel list option" where
  "read_rgb rgba width row_at bx = collect (\<lambda>p. do {
     r \<leftarrow> idx rgba (pixel_base width row_at bx p);
     g \<leftarrow> idx rgba (pixel_base width row_at bx p + 1);
     b \<leftarrow> idx rgba (pixel_base width row_at bx p + 2);
     Some [r, g, b] }) [0..<16]"

definition read_alpha :: "u8 list \<Rightarrow> nat \<Rightarrow> nat \<Rightarrow> nat \<Rightarrow> u8 list option" where
  "read_alpha rgba width row_at bx = collect (\<lambda>p. idx rgba (pixel_base width row_at bx p + 3)) [0..<16]"

definition copy_from_slice :: "'a list \<Rightarrow> 'a list \<Rightarrow> 'a list option" where
  "copy_from_slice dst src = (if length dst = length src then Some src else Panic)"

definition checked_dimensions :: "nat \<Rightarrow> u32 \<Rightarrow> u32 \<Rightarrow> string + nat \<times> nat" where
  "checked_dimensions len width height =
     (if width = 0 \<or> height = 0 then Inl ''etc2: zero dimensions''
      else if width mod 4 \<noteq> 0 \<or> height mod 4 \<noteq> 0 then Inl ''etc2: dimensions must be multiples of 4''
      else if unat width * unat height * 4 > usize_max then Inl ''etc2: image dimensions overflow''
      else if len \<noteq> unat width * unat height * 4 then Inl ''etc2: pixel buffer length does not match dimensions''
      else Inr (unat width div 4, unat height div 4))"

definition encode_etc2_rgb :: "nat \<Rightarrow> u8 list \<Rightarrow> u32 \<Rightarrow> u32 \<Rightarrow> (string, u8 list) rust_result" where
  "encode_etc2_rgb available_parallelism rgba width height = (case checked_dimensions (length rgba) width height of
     Inl e \<Rightarrow> Err e
   | Inr (blocks_x, blocks_y) \<Rightarrow> do {
       out \<leftarrow> encode_block_rows available_parallelism blocks_x blocks_y ETC2_RGB_BLOCK_BYTES
         (replicate (blocks_x * blocks_y * ETC2_RGB_BLOCK_BYTES) 0)
         (\<lambda>row_at row. encode_chunks (\<lambda>bx dst. do {
             block \<leftarrow> read_rgb rgba (unat width) row_at bx;
             copy_from_slice dst (encode_block block) }) 0 (chunks ETC2_RGB_BLOCK_BYTES row));
       Ok out })"

definition encode_etc2_rgba :: "nat \<Rightarrow> u8 list \<Rightarrow> u32 \<Rightarrow> u32 \<Rightarrow> (string, u8 list) rust_result" where
  "encode_etc2_rgba available_parallelism rgba width height = (case checked_dimensions (length rgba) width height of
     Inl e \<Rightarrow> Err e
   | Inr (blocks_x, blocks_y) \<Rightarrow> do {
       out \<leftarrow> encode_block_rows available_parallelism blocks_x blocks_y ETC2_RGBA_BLOCK_BYTES
         (replicate (blocks_x * blocks_y * ETC2_RGBA_BLOCK_BYTES) 0)
         (\<lambda>row_at row. encode_chunks (\<lambda>bx dst. do {
             rgb \<leftarrow> read_rgb rgba (unat width) row_at bx;
             alpha \<leftarrow> read_alpha rgba (unat width) row_at bx;
             dst0 \<leftarrow> slice dst 0 8;
             dst1 \<leftarrow> slice dst 8 (length dst);
             a \<leftarrow> copy_from_slice dst0 (encode_alpha_block alpha);
             c \<leftarrow> copy_from_slice dst1 (encode_block rgb);
             Some (a @ c) }) 0 (chunks ETC2_RGBA_BLOCK_BYTES row));
       Ok out })"

section \<open>The decoder of the specification\<close>

text \<open>
  Individual mode: a nibble per half and channel, replicated; three bits per half for the
  table; a bit for the division into halves; and for each pixel, column by column, a sign
  and a magnitude bit.
\<close>

definition individual_mode :: "u8 list \<Rightarrow> bool" where
  "individual_mode b \<longleftrightarrow> length b = 8 \<and> \<not> bit (b ! 3) 1"

definition block_flip :: "u8 list \<Rightarrow> nat" where
  "block_flip b = of_bool (bit (b ! 3) 0)"

definition block_nibble :: "u8 list \<Rightarrow> nat \<Rightarrow> nat \<Rightarrow> u8" where
  "block_nibble b sub channel = (if sub = 0 then drop_bit 4 (b ! channel) else take_bit 4 (b ! channel))"

definition block_codeword :: "u8 list \<Rightarrow> nat \<Rightarrow> nat" where
  "block_codeword b sub = unat (if sub = 0 then drop_bit 5 (b ! 3) else take_bit 3 (drop_bit 2 (b ! 3)))"

definition plane_bit :: "u8 list \<Rightarrow> nat \<Rightarrow> nat \<Rightarrow> bool" where
  "plane_bit b at slot = (if slot < 8 then bit (b ! (at + 1)) slot else bit (b ! at) (slot - 8))"

text \<open>The half of a pixel at column \<open>x\<close> and row \<open>y\<close>, and its place in the planes.\<close>

definition half_of :: "nat \<Rightarrow> nat \<Rightarrow> nat \<Rightarrow> nat" where
  "half_of flip x y = (if flip = 0 then of_bool (2 \<le> x) else of_bool (2 \<le> y))"

definition decode_pixel :: "u8 list \<Rightarrow> nat \<Rightarrow> nat \<Rightarrow> int list" where
  "decode_pixel b x y =
     (let sub = half_of (block_flip b) x y; slot = 4 * x + y;
          modifier = modifier_of (MODIFIER_TABLE ! block_codeword b sub) (plane_bit b 6 slot, plane_bit b 4 slot)
      in map (\<lambda>channel. paint (expand (block_nibble b sub channel)) modifier) [0..<3])"

definition pixel_error :: "int list \<Rightarrow> rgb_pixel \<Rightarrow> nat" where
  "pixel_error shown target = sum_list (map (\<lambda>channel. nat ((shown ! channel - uint (target ! channel)) ^ 2)) [0..<3])"

definition block_error :: "u8 list \<Rightarrow> rgb_pixel list \<Rightarrow> nat" where
  "block_error b pixels = sum_list (map (\<lambda>p. pixel_error (decode_pixel b (p mod 4) (p div 4)) (pixels ! p)) [0..<16])"

section \<open>Searching finds the best\<close>

lemma keep_best_fold:
  "(case fold (keep_best cost) xs (c, s) of (c', b) \<Rightarrow>
     c' \<le> c \<and> (\<forall>x \<in> set xs. c' \<le> cost x) \<and> ((c', b) = (c, s) \<or> b \<in> set xs \<and> c' = cost b))"
proof (induction xs arbitrary: c s)
  case (Cons x xs)
  obtain c1 s1 where 1: "keep_best cost x (c, s) = (c1, s1)" by fastforce
  obtain c' b where r: "fold (keep_best cost) xs (c1, s1) = (c', b)" by fastforce
  have "c1 \<le> c" "c1 \<le> cost x" "(c1, s1) = (c, s) \<or> s1 = x \<and> c1 = cost x"
    using 1 by (auto simp: keep_best_def split: if_splits)
  then show ?case using Cons.IH [of c1 s1] 1 r by auto
qed simp

lemma search_best:
  assumes "xs \<noteq> []" "\<forall>x \<in> set xs. cost x < u64_MAX"
  obtains b where "search cost xs start = (cost b, b)" "b \<in> set xs" "\<forall>x \<in> set xs. cost b \<le> cost x"
proof -
  obtain c b where r: "search cost xs start = (c, b)" by fastforce
  have k: "\<forall>x \<in> set xs. c \<le> cost x" "(c, b) = (u64_MAX, start) \<or> b \<in> set xs \<and> c = cost b"
    using keep_best_fold [where cost = cost and xs = xs and c = u64_MAX and s = start] r by (auto simp: search_def)
  have "c < u64_MAX" using k(1) assms by (metis hd_in_set le_less_trans)
  then have "b \<in> set xs" "c = cost b" using k(2) by auto
  then show ?thesis using that r k(1) by blast
qed

lemma paint_range: "0 \<le> paint b m" "paint b m \<le> 255"
  by (auto simp: paint_def clamp_int_def)

lemma square_le: "0 \<le> a \<Longrightarrow> a \<le> 255 \<Longrightarrow> nat ((a - uint (t :: u8)) ^ 2) \<le> 65025"
proof -
  assume a: "0 \<le> a" "a \<le> 255"
  have t: "0 \<le> uint t" "uint t \<le> 255" using unsigned_less [of t, where ?'a = int] by simp_all
  have "\<bar>a - uint t\<bar> \<le> \<bar>255\<bar>" unfolding abs_le_iff using a t by linarith
  then have "(a - uint t) ^ 2 \<le> 255 ^ 2" by (rule abs_le_square_iff [THEN iffD1])
  then show ?thesis by simp
qed

lemma channels: "[0..<3] = [0, 1, 2 :: nat]"
  by (simp add: upt_rec numeral_2_eq_2 numeral_3_eq_3)

lemma pixel_cost_le: "pixel_cost base target m \<le> 195075"
proof -
  have "nat ((paint (base ! c) m - uint (target ! c)) ^ 2) \<le> 65025" for c
    by (rule square_le [OF paint_range])
  from this [of 0] this [of 1] this [of 2] show ?thesis by (simp add: pixel_cost_def channels)
qed

lemma selectors_all: "(m, s) \<in> set [(False, False), (False, True), (True, False), (True, True)]"
  by auto

lemma fit_pixel_best:
  obtains sel where "fit_pixel base magnitudes target = (pixel_cost base target (modifier_of magnitudes sel), sel)"
    "\<forall>sel'. pixel_cost base target (modifier_of magnitudes sel) \<le> pixel_cost base target (modifier_of magnitudes sel')"
proof -
  let ?cost = "\<lambda>sel. pixel_cost base target (modifier_of magnitudes sel)"
  let ?xs = "[(False, False), (False, True), (True, False), (True, True)]"
  have small: "?cost sel < u64_MAX" for sel using pixel_cost_le [of base target "modifier_of magnitudes sel"] by simp
  obtain b where "search ?cost ?xs (False, False) = (?cost b, b)" "\<forall>x \<in> set ?xs. ?cost b \<le> ?cost x"
    using search_best [of ?xs ?cost "(False, False)"] small by blast
  moreover from this(2) have "\<forall>sel'. ?cost b \<le> ?cost sel'" using selectors_all by (metis surj_pair)
  ultimately show ?thesis using that by (simp add: fit_pixel_def)
qed

text \<open>The cost of a half painted with one table and given selectors.\<close>

definition half_cost :: "rgb_pixel list \<Rightarrow> nat list \<Rightarrow> int list \<Rightarrow> nat \<Rightarrow> (nat \<Rightarrow> bool \<times> bool) \<Rightarrow> nat" where
  "half_cost pixels slots base codeword sel =
     sum_list (map (\<lambda>slot. pixel_cost base (pixels ! (SLOT_TO_PIXEL ! slot)) (modifier_of (MODIFIER_TABLE ! codeword) (sel slot))) slots)"

lemma fit_codeword_best:
  assumes "fit_codeword pixels slots base codeword = (err, cw, sels)"
  shows "cw = codeword" "length sels = length slots" "\<forall>sel. err \<le> half_cost pixels slots base codeword sel"
    "(\<And>i. i < length slots \<Longrightarrow> sel (slots ! i) = sels ! i) \<Longrightarrow> err = half_cost pixels slots base codeword sel"
    "err \<le> 195075 * length slots"
proof -
  let ?t = "\<lambda>slot. pixels ! (SLOT_TO_PIXEL ! slot)" and ?m = "MODIFIER_TABLE ! codeword"
  let ?fit = "\<lambda>slot. fit_pixel base ?m (?t slot)"
  have e: "err = sum_list (map (\<lambda>slot. fst (?fit slot)) slots)" "cw = codeword" "sels = map (\<lambda>slot. snd (?fit slot)) slots"
    using assms by (auto simp: fit_codeword_def Let_def comp_def)
  have fst_eq: "fst (?fit slot) = pixel_cost base (?t slot) (modifier_of ?m (snd (?fit slot)))" for slot
    by (rule fit_pixel_best [of base ?m "?t slot"]) simp
  have fst_le: "fst (?fit slot) \<le> pixel_cost base (?t slot) (modifier_of ?m sel')" for slot sel'
    by (rule fit_pixel_best [of base ?m "?t slot"]) (simp only: fst_conv)
  show "cw = codeword" "length sels = length slots" using e by simp_all
  show "\<forall>sel. err \<le> half_cost pixels slots base codeword sel"
    unfolding e(1) half_cost_def by (intro allI sum_list_mono) (rule fst_le)
  show "err = half_cost pixels slots base codeword sel" if s: "\<And>i. i < length slots \<Longrightarrow> sel (slots ! i) = sels ! i"
  proof -
    have "sel slot = snd (?fit slot)" if "slot \<in> set slots" for slot
      using s that e(3) by (auto simp: in_set_conv_nth)
    then show ?thesis unfolding e(1) half_cost_def by (intro arg_cong [where f = sum_list] map_cong) (auto simp: fst_eq)
  qed
  have "fst (?fit slot) \<le> 195075" for slot unfolding fst_eq by (rule pixel_cost_le)
  then have "sum_list (map (\<lambda>slot. fst (?fit slot)) slots) \<le> sum_list (map (\<lambda>_. 195075) slots)" by (intro sum_list_mono)
  then show "err \<le> 195075 * length slots" unfolding e(1) by (simp add: sum_list_triv)
qed

definition half_base :: "rgb_pixel list \<Rightarrow> nat list \<Rightarrow> int list" where
  "half_base pixels slots = map (\<lambda>channel. expand (quantize pixels slots channel)) [0..<3]"

lemma fit_subblock_best:
  assumes "length slots \<le> 16"
  shows "sf_quantized (fit_subblock pixels slots) = map (quantize pixels slots) [0..<3]"
    "sf_codeword (fit_subblock pixels slots) < 8" "length (sf_selectors (fit_subblock pixels slots)) = length slots"
    "codeword < 8 \<Longrightarrow> sf_error (fit_subblock pixels slots) \<le> half_cost pixels slots (half_base pixels slots) codeword sel"
    "(\<And>i. i < length slots \<Longrightarrow> sel (slots ! i) = sf_selectors (fit_subblock pixels slots) ! i) \<Longrightarrow>
     sf_error (fit_subblock pixels slots) = half_cost pixels slots (half_base pixels slots) (sf_codeword (fit_subblock pixels slots)) sel"
proof -
  let ?base = "half_base pixels slots"
  let ?xs = "map (fit_codeword pixels slots ?base) [0..<8]"
  have base: "map expand (map (quantize pixels slots) [0..<3]) = ?base" by (simp add: half_base_def)
  have small: "\<forall>x \<in> set ?xs. fst x < u64_MAX"
  proof
    fix x assume "x \<in> set ?xs"
    then obtain c where "x = fit_codeword pixels slots ?base c" by auto
    then have "fst x \<le> 195075 * length slots" using fit_codeword_best(5) [of pixels slots ?base c "fst x" "fst (snd x)" "snd (snd x)"] by simp
    then show "fst x < u64_MAX" using assms by simp
  qed
  obtain b where b: "search fst ?xs (u64_MAX, 0, replicate 8 (False, False)) = (fst b, b)" "b \<in> set ?xs" "\<forall>x \<in> set ?xs. fst b \<le> fst x"
    by (rule search_best [of ?xs fst, OF _ small]) simp_all
  obtain err cw sels where bb: "b = (err, cw, sels)" by (cases b) auto
  obtain c where c: "c < 8" "fit_codeword pixels slots ?base c = (err, cw, sels)" using b(2) bb by auto
  have fit: "fit_subblock pixels slots =
      \<lparr> sf_quantized = map (quantize pixels slots) [0..<3], sf_codeword = cw, sf_selectors = sels, sf_error = err \<rparr>"
    unfolding fit_subblock_def Let_def base using b(1) bb by simp
  note best = fit_codeword_best [OF c(2)]
  show "sf_quantized (fit_subblock pixels slots) = map (quantize pixels slots) [0..<3]" using fit by simp
  show "sf_codeword (fit_subblock pixels slots) < 8" using fit best(1) c(1) by simp
  show "length (sf_selectors (fit_subblock pixels slots)) = length slots" using fit best(2) by simp
  show "sf_error (fit_subblock pixels slots) \<le> half_cost pixels slots ?base codeword sel" if w: "codeword < 8"
  proof -
    obtain err' cw' sels' where f: "fit_codeword pixels slots ?base codeword = (err', cw', sels')" by (metis prod_cases3)
    then have "(err', cw', sels') \<in> set ?xs" using w by force
    then have "err \<le> err'" using b(3) bb by fastforce
    then show ?thesis using fit_codeword_best(3) [OF f] fit by (metis le_trans subblock_fit.select_convs(4))
  qed
  show "sf_error (fit_subblock pixels slots) = half_cost pixels slots ?base (sf_codeword (fit_subblock pixels slots)) sel"
    if "\<And>i. i < length slots \<Longrightarrow> sel (slots ! i) = sf_selectors (fit_subblock pixels slots) ! i"
    using best(4) [of sel] that fit best(1) by simp
qed

section \<open>What the decoder makes of a block\<close>

lemma slots16: "[0..<16] = [0, 1, 2, 3, 4, 5, 6, 7, 8, 9, 10, 11, 12, 13, 14, 15 :: nat]"
  by code_simp

lemma subblock_slots_simps:
  "subblock_slots 0 0 = [0, 1, 2, 3, 4, 5, 6, 7]" "subblock_slots 0 1 = [8, 9, 10, 11, 12, 13, 14, 15]"
  "subblock_slots 1 0 = [0, 1, 4, 5, 8, 9, 12, 13]" "subblock_slots 1 1 = [2, 3, 6, 7, 10, 11, 14, 15]"
  by code_simp+

lemma sum_by_halves:
  fixes cost :: "nat \<Rightarrow> nat"
  assumes "flip < 2"
  shows "sum_list (map (\<lambda>p. cost (4 * (p mod 4) + p div 4)) [0..<16]) =
    sum_list (map cost (subblock_slots flip 0)) + sum_list (map cost (subblock_slots flip 1))"
proof -
  have "flip = 0 \<or> flip = 1" using assms by auto
  then show ?thesis by (elim disjE; simp del: One_nat_def add: slots16 subblock_slots_simps flip: numeral_2_eq_2)
qed

definition block_base :: "u8 list \<Rightarrow> nat \<Rightarrow> int list" where
  "block_base b sub = map (\<lambda>channel. expand (block_nibble b sub channel)) [0..<3]"

definition block_selector :: "u8 list \<Rightarrow> nat \<Rightarrow> bool \<times> bool" where
  "block_selector b slot = (plane_bit b 6 slot, plane_bit b 4 slot)"

lemma decoded_pixel_error:
  assumes "p < 16" "flip = block_flip b" "slot = 4 * (p mod 4) + p div 4" "sub = SUBBLOCK_TABLE ! flip ! slot"
  shows "pixel_error (decode_pixel b (p mod 4) (p div 4)) (pixels ! p) =
    pixel_cost (block_base b sub) (pixels ! (SLOT_TO_PIXEL ! slot)) (modifier_of (MODIFIER_TABLE ! block_codeword b sub) (block_selector b slot))"
proof -
  have "p \<in> set [0..<16]" using assms(1) by simp
  then have p: "p \<in> {0, 1, 2, 3, 4, 5, 6, 7, 8, 9, 10, 11, 12, 13, 14, 15}" unfolding slots16 by simp
  then have "SLOT_TO_PIXEL ! slot = p" unfolding assms(3) SLOT_TO_PIXEL_def by auto
  moreover have "half_of flip (p mod 4) (p div 4) = sub"
  proof -
    have "flip = 0 \<or> flip = 1" using assms(2) by (auto simp: block_flip_def)
    then show ?thesis using p unfolding assms(3,4) half_of_def SUBBLOCK_TABLE_def by auto
  qed
  ultimately show ?thesis
    using assms(2,3) by (simp add: pixel_error_def pixel_cost_def decode_pixel_def Let_def block_base_def block_selector_def channels)
qed

lemma block_error_by_halves:
  "block_error b pixels =
     half_cost pixels (subblock_slots (block_flip b) 0) (block_base b 0) (block_codeword b 0) (block_selector b) +
     half_cost pixels (subblock_slots (block_flip b) 1) (block_base b 1) (block_codeword b 1) (block_selector b)"
proof -
  let ?flip = "block_flip b"
  let ?cost = "\<lambda>slot. let sub = SUBBLOCK_TABLE ! ?flip ! slot in
    pixel_cost (block_base b sub) (pixels ! (SLOT_TO_PIXEL ! slot)) (modifier_of (MODIFIER_TABLE ! block_codeword b sub) (block_selector b slot))"
  have f: "?flip < 2" by (simp add: block_flip_def)
  have "block_error b pixels = sum_list (map (\<lambda>p. ?cost (4 * (p mod 4) + p div 4)) [0..<16])"
    unfolding block_error_def Let_def by (intro arg_cong [where f = sum_list] map_cong refl decoded_pixel_error) simp_all
  also have "\<dots> = sum_list (map ?cost (subblock_slots ?flip 0)) + sum_list (map ?cost (subblock_slots ?flip 1))"
    by (rule sum_by_halves [OF f])
  finally have "block_error b pixels = sum_list (map ?cost (subblock_slots ?flip 0)) + sum_list (map ?cost (subblock_slots ?flip 1))" .
  moreover have "map ?cost (subblock_slots ?flip sub) = map (\<lambda>slot. pixel_cost (block_base b sub) (pixels ! (SLOT_TO_PIXEL ! slot))
      (modifier_of (MODIFIER_TABLE ! block_codeword b sub) (block_selector b slot))) (subblock_slots ?flip sub)" for sub
    by (rule map_cong) (simp_all add: subblock_slots_def Let_def)
  ultimately show ?thesis unfolding half_cost_def by (simp only:)
qed

section \<open>What the encoder writes\<close>

lemma small_bits: "unat w < 2 ^ n \<Longrightarrow> bit w i \<Longrightarrow> i < n"
  using take_bit_small [of w n] bit_take_bit_iff [of n w i] by auto

lemma nibbles:
  fixes q0 q1 :: u8
  assumes "unat q0 < 16" "unat q1 < 16"
  shows "drop_bit 4 (push_bit 4 q0 OR q1) = q0" "take_bit 4 (push_bit 4 q0 OR q1) = q1"
proof -
  have b: "bit q0 i \<Longrightarrow> i < 4" "bit q1 i \<Longrightarrow> i < 4" for i using small_bits [of q0 4] small_bits [of q1 4] assms by auto
  show "drop_bit 4 (push_bit 4 q0 OR q1) = q0" "take_bit 4 (push_bit 4 q0 OR q1) = q1"
    by (auto intro!: bit_eqI simp: bit_simps dest: b)
qed

lemma mode_byte:
  fixes c0 c1 f :: u8
  assumes "unat c0 < 8" "unat c1 < 8" "unat f < 2"
  shows "drop_bit 5 (push_bit 5 c0 OR push_bit 2 c1 OR f) = c0" "take_bit 3 (drop_bit 2 (push_bit 5 c0 OR push_bit 2 c1 OR f)) = c1"
    "\<not> bit (push_bit 5 c0 OR push_bit 2 c1 OR f) 1" "bit (push_bit 5 c0 OR push_bit 2 c1 OR f) 0 = bit f 0"
proof -
  have b: "3 \<le> i \<Longrightarrow> \<not> bit c0 i" "3 \<le> i \<Longrightarrow> \<not> bit c1 i" "1 \<le> i \<Longrightarrow> \<not> bit f i" for i
    using small_bits [of c0 3 i] small_bits [of c1 3 i] small_bits [of f 1 i] assms by auto
  show "drop_bit 5 (push_bit 5 c0 OR push_bit 2 c1 OR f) = c0" "take_bit 3 (drop_bit 2 (push_bit 5 c0 OR push_bit 2 c1 OR f)) = c1"
    "\<not> bit (push_bit 5 c0 OR push_bit 2 c1 OR f) 1" "bit (push_bit 5 c0 OR push_bit 2 c1 OR f) 0 = bit f 0"
    by (auto intro!: bit_eqI simp: bit_simps b not_less) (use b(1) not_less in blast)
qed

lemma quantize_small: "unat (quantize pixels slots channel) < 16"
  by (simp add: quantize_def Let_def unat_of_nat)

text \<open>Bit \<open>i\<close> of a plane is the selector the cursor of its half has reached.\<close>

definition selector_at :: "nat list \<Rightarrow> (bool \<times> bool) list \<Rightarrow> (bool \<times> bool) list \<Rightarrow> nat \<Rightarrow> nat \<Rightarrow> nat \<Rightarrow> bool \<times> bool" where
  "selector_at subs sel0 sel1 c0 c1 i =
     (if subs ! i = 0 then sel0 ! (c0 + length (filter (\<lambda>s. s = 0) (take i subs)))
      else sel1 ! (c1 + length (filter (\<lambda>s. s \<noteq> 0) (take i subs))))"

lemma put_planes_bits:
  assumes "slot + length subs \<le> 16" "put_planes subs sel0 sel1 slot (c0, c1) (m, s) = (m', s')"
  shows "bit m' i = (bit m i \<or> slot \<le> i \<and> i < slot + length subs \<and> fst (selector_at subs sel0 sel1 c0 c1 (i - slot))) \<and>
    bit s' i = (bit s i \<or> slot \<le> i \<and> i < slot + length subs \<and> snd (selector_at subs sel0 sel1 c0 c1 (i - slot)))"
  using assms
proof (induction subs arbitrary: slot c0 c1 m s)
  case (Cons sub subs)
  obtain mag sgn where sel: "(if sub = 0 then sel0 ! c0 else sel1 ! c1) = (mag, sgn)" by fastforce
  let ?m = "m OR push_bit slot (of_bool mag)" and ?s = "s OR push_bit slot (of_bool sgn)"
  let ?c0 = "if sub = 0 then c0 + 1 else c0" and ?c1 = "if sub = 0 then c1 else c1 + 1"
  have rec: "put_planes subs sel0 sel1 (slot + 1) (?c0, ?c1) (?m, ?s) = (m', s')"
    using Cons.prems(2) sel by (auto simp: Let_def split: if_splits prod.splits)
  have next_at: "selector_at (sub # subs) sel0 sel1 c0 c1 (Suc n) = selector_at subs sel0 sel1 ?c0 ?c1 n" for n
    by (simp add: selector_at_def)
  have at_0: "selector_at (sub # subs) sel0 sel1 c0 c1 0 = (mag, sgn)" using sel by (auto simp: selector_at_def split: if_splits)
  have one: "bit (push_bit slot (of_bool p) :: 16 word) i \<longleftrightarrow> p \<and> i = slot" for p
    using Cons.prems(1) by (auto simp: bit_simps)
  note IH = Cons.IH [OF _ rec]
  consider (here) "i = slot" | (later) "slot + 1 \<le> i" | (before) "i < slot" by linarith
  then show ?case
  proof cases
    case here
    then show ?thesis using IH Cons.prems(1) at_0 one by (simp add: bit_or_iff)
  next
    case later
    then have "i - slot = Suc (i - (slot + 1))" by simp
    then show ?thesis using IH Cons.prems(1) next_at one later by (simp add: bit_or_iff)
  next
    case before
    then show ?thesis using IH Cons.prems(1) one by (simp add: bit_or_iff)
  qed
qed auto

lemma length_SUBBLOCK_TABLE: "flip < 2 \<Longrightarrow> length (SUBBLOCK_TABLE ! flip) = 16"
  by (auto simp: SUBBLOCK_TABLE_def less_2_cases_iff)

text \<open>The cursors reach the selectors in the order of the half's slots.\<close>

lemma selector_at_slots:
  assumes "flip < 2" "i < 8"
  shows "selector_at (SUBBLOCK_TABLE ! flip) sel0 sel1 0 0 (subblock_slots flip 0 ! i) = sel0 ! i"
    "selector_at (SUBBLOCK_TABLE ! flip) sel0 sel1 0 0 (subblock_slots flip 1 ! i) = sel1 ! i"
    "subblock_slots flip 0 ! i < 16" "subblock_slots flip 1 ! i < 16"
proof -
  have eight: "[0..<8] = [0, 1, 2, 3, 4, 5, 6, 7 :: nat]" by code_simp
  have all: "map (selector_at (SUBBLOCK_TABLE ! flip) sel0 sel1 0 0) (subblock_slots flip 0) = map ((!) sel0) [0..<8] \<and>
      map (selector_at (SUBBLOCK_TABLE ! flip) sel0 sel1 0 0) (subblock_slots flip 1) = map ((!) sel1) [0..<8] \<and>
      list_all (\<lambda>slot. slot < 16) (subblock_slots flip 0) \<and> list_all (\<lambda>slot. slot < 16) (subblock_slots flip 1) \<and>
      length (subblock_slots flip 0) = 8 \<and> length (subblock_slots flip 1) = 8"
  proof -
    have "flip = 0 \<or> flip = 1" using assms(1) by auto
    then show ?thesis
      by (elim disjE; simp only: subblock_slots_simps eight; simp add: selector_at_def SUBBLOCK_TABLE_def; simp add: numeral_eq_Suc)
  qed
  have at: "map g xs ! i = g (xs ! i)" if "length xs = 8" for g :: "nat \<Rightarrow> bool \<times> bool" and xs using that assms(2) by simp
  show "selector_at (SUBBLOCK_TABLE ! flip) sel0 sel1 0 0 (subblock_slots flip 0 ! i) = sel0 ! i"
    "selector_at (SUBBLOCK_TABLE ! flip) sel0 sel1 0 0 (subblock_slots flip 1 ! i) = sel1 ! i"
    using all at [of "subblock_slots flip 0" "selector_at (SUBBLOCK_TABLE ! flip) sel0 sel1 0 0"]
      at [of "subblock_slots flip 1" "selector_at (SUBBLOCK_TABLE ! flip) sel0 sel1 0 0"] at [of "[0..<8]" "(!) sel0"] at [of "[0..<8]" "(!) sel1"]
      assms(2) by simp_all
  show "subblock_slots flip 0 ! i < 16" "subblock_slots flip 1 ! i < 16"
    using all assms(2) by (simp_all add: list_all_length)
qed

lemma length_subblock_slots: "flip < 2 \<Longrightarrow> length (subblock_slots flip 0) = 8 \<and> length (subblock_slots flip 1) = 8"
  using subblock_slots_simps by (auto simp: less_2_cases_iff)

text \<open>The block written for one division into halves, and how it reads back.\<close>

definition write_block :: "nat \<Rightarrow> subblock_fit \<Rightarrow> subblock_fit \<Rightarrow> u8 list" where
  "write_block flip fit0 fit1 =
     (case put_planes (SUBBLOCK_TABLE ! flip) (sf_selectors fit0) (sf_selectors fit1) 0 (0, 0) (0, 0) of (magnitude, sign) \<Rightarrow>
        map (\<lambda>channel. push_bit 4 (sf_quantized fit0 ! channel) OR sf_quantized fit1 ! channel) [0..<3] @
        [push_bit 5 (word_of_nat (sf_codeword fit0)) OR push_bit 2 (word_of_nat (sf_codeword fit1)) OR word_of_nat flip] @
        u16_to_be_bytes sign @ u16_to_be_bytes magnitude)"

lemma encode_block_writes:
  "encode_block pixels = (let (_, flip, fit0, fit1) = (if fst (fit_flip pixels 1) < fst (fit_flip pixels 0) then fit_flip pixels 1 else fit_flip pixels 0)
     in write_block flip fit0 fit1)"
  by (simp add: encode_block_def write_block_def Let_def split: prod.splits)

lemma be_bytes_bits:
  "bit (u16_to_be_bytes w ! Suc 0) i \<longleftrightarrow> i < 8 \<and> bit w i" "bit (u16_to_be_bytes w ! 0) i \<longleftrightarrow> i < 8 \<and> bit w (i + 8)"
  by (auto simp: u16_to_be_bytes_def bit_simps add.commute)

lemma written_block:
  assumes f: "flip < 2" and fit: "fit0 = fit_subblock pixels (subblock_slots flip 0)" "fit1 = fit_subblock pixels (subblock_slots flip 1)"
    and b: "b = write_block flip fit0 fit1"
  shows "individual_mode b" "block_flip b = flip" "block_codeword b 0 = sf_codeword fit0" "block_codeword b 1 = sf_codeword fit1"
    "block_base b 0 = half_base pixels (subblock_slots flip 0)" "block_base b 1 = half_base pixels (subblock_slots flip 1)"
    "i < 8 \<Longrightarrow> block_selector b (subblock_slots flip 0 ! i) = sf_selectors fit0 ! i"
    "i < 8 \<Longrightarrow> block_selector b (subblock_slots flip 1 ! i) = sf_selectors fit1 ! i"
    "c < 3 \<Longrightarrow> block_nibble b 0 c = quantize pixels (subblock_slots flip 0) c" "c < 3 \<Longrightarrow> block_nibble b 1 c = quantize pixels (subblock_slots flip 1) c"
proof -
  obtain magnitude sign where planes: "put_planes (SUBBLOCK_TABLE ! flip) (sf_selectors fit0) (sf_selectors fit1) 0 (0, 0) (0, 0) = (magnitude, sign)"
    by fastforce
  note len = length_subblock_slots [OF f]
  note fit0 = fit_subblock_best(1,2) [of "subblock_slots flip 0" pixels, folded fit(1)]
  note fit1 = fit_subblock_best(1,2) [of "subblock_slots flip 1" pixels, folded fit(2)]
  let ?c0 = "word_of_nat (sf_codeword fit0) :: u8" and ?c1 = "word_of_nat (sf_codeword fit1) :: u8" and ?f = "word_of_nat flip :: u8"
  have small: "unat ?c0 < 8" "unat ?c1 < 8" "unat ?f < 2" "unat ?c0 = sf_codeword fit0" "unat ?c1 = sf_codeword fit1"
    using fit0(2) fit1(2) len f by (simp_all add: unat_of_nat)
  have bytes: "b = map (\<lambda>channel. push_bit 4 (sf_quantized fit0 ! channel) OR sf_quantized fit1 ! channel) [0..<3] @
      [push_bit 5 ?c0 OR push_bit 2 ?c1 OR ?f] @ u16_to_be_bytes sign @ u16_to_be_bytes magnitude"
    using b planes by (simp add: write_block_def)
  have at: "length b = 8" "b ! 3 = push_bit 5 ?c0 OR push_bit 2 ?c1 OR ?f" "b ! 4 = u16_to_be_bytes sign ! 0" "b ! 5 = u16_to_be_bytes sign ! 1"
    "b ! 6 = u16_to_be_bytes magnitude ! 0" "b ! 7 = u16_to_be_bytes magnitude ! 1"
    by (simp_all add: bytes channels u16_to_be_bytes_def)
  have colour: "b ! c = push_bit 4 (quantize pixels (subblock_slots flip 0) c) OR quantize pixels (subblock_slots flip 1) c" if "c < 3" for c
    using that fit0(1) fit1(1) len by (simp add: bytes nth_append)
  note mode = mode_byte [OF small(1-3)]
  show "individual_mode b" using at(1,2) mode(3) by (simp add: individual_mode_def)
  show "block_flip b = flip" using at(2) mode(4) f by (auto simp: block_flip_def less_2_cases_iff)
  show "block_codeword b 0 = sf_codeword fit0" "block_codeword b 1 = sf_codeword fit1"
    using at(2) mode(1,2) small(4,5) by (simp_all add: block_codeword_def)
  have nibble: "block_nibble b 0 c = quantize pixels (subblock_slots flip 0) c" "block_nibble b 1 c = quantize pixels (subblock_slots flip 1) c" if "c < 3" for c
    using colour [OF that] nibbles [OF quantize_small quantize_small] by (simp_all add: block_nibble_def)
  then show "c < 3 \<Longrightarrow> block_nibble b 0 c = quantize pixels (subblock_slots flip 0) c" "c < 3 \<Longrightarrow> block_nibble b 1 c = quantize pixels (subblock_slots flip 1) c"
    by blast+
  show "block_base b 0 = half_base pixels (subblock_slots flip 0)" "block_base b 1 = half_base pixels (subblock_slots flip 1)"
    unfolding block_base_def half_base_def using nibble by (auto intro!: map_cong)
  have sel: "block_selector b slot = selector_at (SUBBLOCK_TABLE ! flip) (sf_selectors fit0) (sf_selectors fit1) 0 0 slot" if "slot < 16" for slot
    using put_planes_bits [OF _ planes, of slot] that length_SUBBLOCK_TABLE [OF f] at(3-6)
    by (cases "slot < 8") (auto simp: block_selector_def plane_bit_def be_bytes_bits prod_eq_iff)
  show "block_selector b (subblock_slots flip 0 ! i) = sf_selectors fit0 ! i"
    "block_selector b (subblock_slots flip 1 ! i) = sf_selectors fit1 ! i" if "i < 8"
    using sel selector_at_slots [OF f that] by simp_all
qed

lemma written_block_error:
  assumes "flip < 2" "fit_flip pixels flip = (err, flip', fit0, fit1)"
  shows "flip' = flip" "block_error (write_block flip fit0 fit1) pixels = err"
proof -
  let ?s0 = "subblock_slots flip 0" and ?s1 = "subblock_slots flip 1" and ?b = "write_block flip fit0 fit1"
  have e: "fit0 = fit_subblock pixels ?s0" "fit1 = fit_subblock pixels ?s1" "err = sf_error fit0 + sf_error fit1" "flip' = flip"
    using assms(2) by (auto simp: fit_flip_def Let_def)
  note w = written_block [OF assms(1) e(1,2) refl] and len = length_subblock_slots [OF assms(1)]
  have "sf_error fit0 = half_cost pixels ?s0 (half_base pixels ?s0) (sf_codeword fit0) (block_selector ?b)"
    unfolding e(1) using w(7) len by (intro fit_subblock_best(5)) (simp_all add: e(1))
  moreover have "sf_error fit1 = half_cost pixels ?s1 (half_base pixels ?s1) (sf_codeword fit1) (block_selector ?b)"
    unfolding e(2) using w(8) len by (intro fit_subblock_best(5)) (simp_all add: e(2))
  ultimately show "block_error ?b pixels = err" using w e(3) by (simp add: block_error_by_halves)
  show "flip' = flip" by (rule e(4))
qed

text \<open>A block of the mode whose colours are the quantized averages of its halves.\<close>

definition averaged_block :: "rgb_pixel list \<Rightarrow> u8 list \<Rightarrow> bool" where
  "averaged_block pixels b \<longleftrightarrow> individual_mode b \<and>
     (\<forall>sub < 2. \<forall>channel < 3. block_nibble b sub channel = quantize pixels (subblock_slots (block_flip b) sub) channel)"

lemma averaged_block_error:
  assumes "averaged_block pixels b"
  shows "fst (fit_flip pixels (block_flip b)) \<le> block_error b pixels"
proof -
  let ?flip = "block_flip b"
  have f: "?flip < 2" by (simp add: block_flip_def)
  note len = length_subblock_slots [OF f]
  have base: "block_base b 0 = half_base pixels (subblock_slots ?flip 0)" "block_base b 1 = half_base pixels (subblock_slots ?flip 1)"
    using assms by (auto simp: averaged_block_def block_base_def half_base_def channels)
  have "unat (drop_bit 5 (b ! 3)) = drop_bit 5 (unat (b ! 3))"
    by (simp add: unsigned_drop_bit_eq take_bit_nat_eq_self)
  then have "unat (drop_bit 5 (b ! 3)) < 8" using unat_u8_lt [of "b ! 3"] by (simp add: drop_bit_eq_div less_mult_imp_div_less)
  moreover have "unat (take_bit 3 (drop_bit 2 (b ! 3))) < 8"
    using take_bit_nat_less_exp [of 3] by (simp add: unsigned_take_bit_eq)
  ultimately have cw: "block_codeword b 0 < 8" "block_codeword b 1 < 8" by (simp_all add: block_codeword_def)
  show ?thesis
    unfolding block_error_by_halves base using fit_subblock_best(4) [OF _ cw(1)] fit_subblock_best(4) [OF _ cw(2)] len
    by (simp add: fit_flip_def Let_def add_mono)
qed

section \<open>The colour block is the best of its kind\<close>

text \<open>
  C21. The encoded colour block has the individual mode, its colours are the quantized
  averages of the halves it chose, and no other block of that kind, whatever its division
  into halves, tables and selectors, decodes to a picture with a smaller squared error.
\<close>

theorem encode_block_is_optimal:
  "averaged_block pixels (encode_block pixels) \<and>
   (\<forall>b. averaged_block pixels b \<longrightarrow> block_error (encode_block pixels) pixels \<le> block_error b pixels)"
proof -
  let ?first = "fit_flip pixels 0" and ?second = "fit_flip pixels 1"
  obtain flip where flip: "flip < 2" "(if fst ?second < fst ?first then ?second else ?first) = fit_flip pixels flip"
    "\<And>f. f < 2 \<Longrightarrow> fst (fit_flip pixels flip) \<le> fst (fit_flip pixels f)"
    by (rule that [of "if fst ?second < fst ?first then 1 else 0"]) (auto simp: less_2_cases_iff)
  obtain err flip' fit0 fit1 where fit: "fit_flip pixels flip = (err, flip', fit0, fit1)" by (metis prod_cases4)
  note e = written_block_error [OF flip(1) fit]
  have enc: "encode_block pixels = write_block flip fit0 fit1"
    unfolding encode_block_writes flip(2) using fit e(1) by simp
  have halves: "fit0 = fit_subblock pixels (subblock_slots flip 0)" "fit1 = fit_subblock pixels (subblock_slots flip 1)"
    using fit by (auto simp: fit_flip_def Let_def)
  note w = written_block [OF flip(1) halves enc]
  have "block_error (encode_block pixels) pixels \<le> block_error b pixels" if b: "averaged_block pixels b" for b
  proof -
    have "block_flip b < 2" by (simp add: block_flip_def)
    from flip(3) [OF this] averaged_block_error [OF b] show ?thesis using e(2) fit enc by simp
  qed
  moreover have "averaged_block pixels (encode_block pixels)"
    using w(1,2) w(9,10) unfolding averaged_block_def by (auto simp: less_2_cases_iff)
  ultimately show ?thesis by blast
qed

text \<open>A flat block, against another block of its colour.\<close>

definition example_pixels :: "rgb_pixel list" where
  "example_pixels = replicate 16 [0, 17, 255]"

lemma example_quantize:
  assumes "flip < 2" "sub < 2"
  shows "quantize example_pixels (subblock_slots flip sub) 0 = 0" "quantize example_pixels (subblock_slots flip sub) 1 = 1"
    "quantize example_pixels (subblock_slots flip sub) 2 = 15"
proof -
  let ?slots = "subblock_slots flip sub"
  have "length ?slots = 8" using length_subblock_slots [OF assms(1)] assms(2) by (auto simp: less_2_cases_iff)
  moreover have "\<forall>slot < 16. SLOT_TO_PIXEL ! slot < 16" by code_simp
  then have "map (\<lambda>slot. unat (example_pixels ! (SLOT_TO_PIXEL ! slot) ! c)) ?slots = map (\<lambda>_. unat ([0, 17, 255 :: u8] ! c)) ?slots" for c
    by (intro map_cong) (auto simp: subblock_slots_def example_pixels_def)
  then have "subblock_sum example_pixels ?slots c = length ?slots * unat ([0, 17, 255 :: u8] ! c)" for c
    unfolding subblock_sum_def by (simp only: sum_list_triv of_nat_id)
  ultimately show "quantize example_pixels ?slots 0 = 0" "quantize example_pixels ?slots 1 = 1" "quantize example_pixels ?slots 2 = 15"
    by (simp_all add: quantize_def Let_def)
qed

theorem encode_block_is_optimal_witness:
  "averaged_block example_pixels [0, 0x11, 0xFF, 0x40, 0, 0, 0, 0] \<and>
   block_error (encode_block example_pixels) example_pixels \<le> block_error [0, 0x11, 0xFF, 0x40, 0, 0, 0, 0] example_pixels"
proof -
  have "block_nibble [0, 0x11, 0xFF, 0x40, 0, 0, 0, 0] sub c = [0, 1, 15] ! c" if "c < 3" for sub c
    using that by (auto simp: block_nibble_def less_Suc_eq numeral_3_eq_3)
  moreover have "quantize example_pixels (subblock_slots 0 sub) c = [0, 1, 15] ! c" if "c < 3" "sub < 2" for sub c
  proof -
    have "c = 0 \<or> c = 1 \<or> c = 2" using that(1) by auto
    then show ?thesis using example_quantize [of 0 sub] that(2) by auto
  qed
  ultimately have "averaged_block example_pixels [0, 0x11, 0xFF, 0x40, 0, 0, 0, 0]"
    by (simp add: averaged_block_def individual_mode_def block_flip_def)
  with encode_block_is_optimal [of example_pixels] show ?thesis by blast
qed

section \<open>The alpha block\<close>

definition alpha_bit :: "u8 list \<Rightarrow> nat \<Rightarrow> bool" where
  "alpha_bit b k = bit (b ! (7 - k div 8)) (k mod 8)"

text \<open>The decoder: pixels column by column, three bits each, the first ones on top.\<close>

definition alpha_index :: "u8 list \<Rightarrow> nat \<Rightarrow> nat" where
  "alpha_index b slot = (let at = 45 - 3 * slot in
     of_bool (alpha_bit b at) + 2 * of_bool (alpha_bit b (at + 1)) + 4 * of_bool (alpha_bit b (at + 2)))"

definition decode_alpha :: "u8 list \<Rightarrow> nat \<Rightarrow> nat \<Rightarrow> int" where
  "decode_alpha b x y =
     clamp_int (uint (b ! 0) + uint (drop_bit 4 (b ! 1)) * (ALPHA_MODIFIER_TABLE ! unat (take_bit 4 (b ! 1)) ! alpha_index b (4 * x + y))) 0 255"

definition alpha_error :: "u8 list \<Rightarrow> u8 list \<Rightarrow> nat" where
  "alpha_error b alpha = sum_list (map (\<lambda>p. nat ((decode_alpha b (p mod 4) (p div 4) - uint (alpha ! p)) ^ 2)) [0..<16])"

lemma pack_indices_bits:
  assumes "3 * (i + length order) \<le> 64"
  shows "bit (pack_indices indices order i packed) k \<longleftrightarrow> bit packed k \<or>
    3 * i \<le> k \<and> k < 3 * (i + length order) \<and> bit (word_of_nat (indices ! (order ! (k div 3 - i))) :: u64) (k mod 3)"
  using assms
proof (induction order arbitrary: i packed)
  case (Cons raster order)
  let ?w = "word_of_nat (indices ! raster) :: u64"
  have seven: "?w AND 7 = take_bit 3 ?w" by (simp add: take_bit_eq_mask mask_eq_exp_minus_1)
  have here: "bit (push_bit (3 * i) (?w AND 7)) k \<longleftrightarrow> 3 * i \<le> k \<and> k < 3 * i + 3 \<and> bit ?w (k mod 3)"
  proof (cases "3 * i \<le> k \<and> k < 3 * i + 3")
    case True
    then have "k - 3 * i = k mod 3" by presburger
    then show ?thesis using True Cons.prems unfolding seven by (simp add: bit_push_bit_iff bit_take_bit_iff)
  next
    case False
    then show ?thesis unfolding seven by (auto simp: bit_push_bit_iff bit_take_bit_iff)
  qed
  have IH: "bit (pack_indices indices order (i + 1) (packed OR push_bit (3 * i) (?w AND 7))) k \<longleftrightarrow>
      bit (packed OR push_bit (3 * i) (?w AND 7)) k \<or>
      3 * (i + 1) \<le> k \<and> k < 3 * (i + 1 + length order) \<and> bit (word_of_nat (indices ! (order ! (k div 3 - (i + 1)))) :: u64) (k mod 3)"
    using Cons.prems by (intro Cons.IH) simp
  consider (here) "3 * i \<le> k \<and> k < 3 * i + 3" | (later) "3 * i + 3 \<le> k" | (before) "k < 3 * i" by linarith
  then show ?case
  proof cases
    case here
    then have "k div 3 = i" by presburger
    then show ?thesis using IH \<open>bit (push_bit (3 * i) (?w AND 7)) k \<longleftrightarrow> _\<close> here by (simp add: bit_or_iff)
  next
    case later
    then have "k div 3 - i = Suc (k div 3 - (i + 1))" by presburger
    then show ?thesis using IH \<open>bit (push_bit (3 * i) (?w AND 7)) k \<longleftrightarrow> _\<close> later by (simp add: bit_or_iff)
  next
    case before
    then show ?thesis using IH \<open>bit (push_bit (3 * i) (?w AND 7)) k \<longleftrightarrow> _\<close> by (simp add: bit_or_iff)
  qed
qed auto

lemma three_bits: "v < 8 \<Longrightarrow> of_bool (bit v 0) + 2 * of_bool (bit v 1) + 4 * of_bool (bit v 2) = (v :: nat)"
proof -
  have "\<forall>v < 8. of_bool (bit v 0) + 2 * of_bool (bit v 1) + 4 * of_bool (bit v 2) = (v :: nat)" by code_simp
  then show "v < 8 \<Longrightarrow> ?thesis" by blast
qed

lemma nth_behind_two: "2 \<le> n \<Longrightarrow> ([x, y] @ drop 2 l) ! n = l ! n" if "n < length l"
proof -
  assume "2 \<le> n"
  then obtain k where "n = Suc (Suc k)" by (metis add_2_eq_Suc le_Suc_ex)
  then show ?thesis using that by (simp add: numeral_2_eq_2)
qed

lemma nth_be_bytes: "n < 8 \<Longrightarrow> u64_to_be_bytes w ! n = ucast (drop_bit (8 * (7 - n)) w)"
  by (simp add: u64_to_be_bytes_def)

lemma packed_index:
  assumes b: "b = [x, y] @ drop 2 (u64_to_be_bytes (pack_indices indices ALPHA_WRITE_ORDER 0 0))"
    and p: "p < 16" "indices ! p < 8"
  shows "alpha_index b (4 * (p mod 4) + p div 4) = indices ! p"
proof -
  let ?w = "pack_indices indices ALPHA_WRITE_ORDER 0 0" and ?slot = "4 * (p mod 4) + p div 4"
  have order: "\<forall>p < 16. ALPHA_WRITE_ORDER ! (15 - (4 * (p mod 4) + p div 4)) = p \<and> 4 * (p mod 4) + p div 4 < 16" by code_simp
  have len: "length ALPHA_WRITE_ORDER = 16" by code_simp
  have field: "alpha_bit b (45 - 3 * ?slot + j) = bit (indices ! p) j" if j: "j < 3" for j
  proof -
    let ?k = "45 - 3 * ?slot + j"
    have s: "?slot < 16" "ALPHA_WRITE_ORDER ! (15 - ?slot) = p" using order p(1) by blast+
    then have "?k = 3 * (15 - ?slot) + j" by (simp add: diff_mult_distrib2)
    then have k: "?k < 48" "?k div 3 = 15 - ?slot" "?k mod 3 = j" using j by simp_all
    have "?k div 8 \<le> 47 div 8" by (rule div_le_mono) (use k(1) in simp)
    then have "2 \<le> 7 - ?k div 8" by linarith
    moreover have in_8: "7 - ?k div 8 < 8" by (rule le_less_trans [OF diff_le_self]) simp
    ultimately have "b ! (7 - ?k div 8) = u64_to_be_bytes ?w ! (7 - ?k div 8)"
      unfolding b by (intro nth_behind_two) (simp_all add: u64_to_be_bytes_def)
    also have "\<dots> = ucast (drop_bit (8 * (7 - (7 - ?k div 8))) ?w)" by (rule nth_be_bytes [OF in_8])
    also have "7 - (7 - ?k div 8) = ?k div 8" by (rule diff_diff_cancel) (use \<open>?k div 8 \<le> 47 div 8\<close> in linarith)
    finally have "alpha_bit b ?k = bit ?w (8 * (?k div 8) + ?k mod 8)"
      by (simp add: alpha_bit_def bit_simps)
    also have "\<dots> = bit ?w ?k" by simp
    also have "\<dots> = bit (word_of_nat (indices ! p) :: u64) j"
      using pack_indices_bits [of 0 ALPHA_WRITE_ORDER indices 0 ?k] k len s(2) by simp
    also have "\<dots> = bit (indices ! p) j" using j by (simp add: bit_simps)
    finally show ?thesis .
  qed
  show ?thesis using field [of 0] field [of 1] field [of 2] three_bits [OF p(2)] by (simp add: alpha_index_def Let_def)
qed

lemma alpha_tables:
  "length ALPHA_MODIFIER_TABLE = 16" "table < 16 \<Longrightarrow> length (ALPHA_MODIFIER_TABLE ! table) = 8"
proof -
  show "length ALPHA_MODIFIER_TABLE = 16" by code_simp
  have "\<forall>table < 16. length (ALPHA_MODIFIER_TABLE ! table) = 8" by code_simp
  then show "table < 16 \<Longrightarrow> length (ALPHA_MODIFIER_TABLE ! table) = 8" by blast
qed

lemma clamp_range: "lo \<le> hi \<Longrightarrow> lo \<le> clamp_int v lo hi \<and> clamp_int v lo hi \<le> hi"
  by (auto simp: clamp_int_def)

lemma fit_alpha_pixel_best:
  assumes "table < 16"
  obtains index where "fit_alpha_pixel (reachable base table m) target = (alpha_cost (reachable base table m) target index, index)"
    "index < 8" "\<forall>j < 8. alpha_cost (reachable base table m) target index \<le> alpha_cost (reachable base table m) target j"
    "alpha_cost (reachable base table m) target index \<le> 65025"
proof -
  let ?v = "reachable base table m"
  have le: "alpha_cost ?v target j \<le> 65025" if "j < 8" for j
    unfolding alpha_cost_def using that alpha_tables(2) [OF assms] clamp_range [of 0 255]
    by (intro square_le) (simp_all add: reachable_def)
  then have "\<forall>j \<in> set [0..<8]. alpha_cost ?v target j < u64_MAX" by force
  from search_best [of "[0..<8]" "alpha_cost ?v target" 0, OF _ this]
  obtain index where i: "fit_alpha_pixel ?v target = (alpha_cost ?v target index, index)" "index \<in> set [0..<8]"
      "\<forall>j \<in> set [0..<8]. alpha_cost ?v target index \<le> alpha_cost ?v target j"
    unfolding fit_alpha_pixel_def by auto
  then show ?thesis using that [OF i(1)] le by simp
qed

text \<open>The cost of an alpha block with given parameters and indices.\<close>

definition alpha_choice_cost :: "u8 list \<Rightarrow> int \<times> nat \<times> int \<Rightarrow> (nat \<Rightarrow> nat) \<Rightarrow> nat" where
  "alpha_choice_cost alpha = (\<lambda>(base, table, m) index. sum_list (map (\<lambda>p. alpha_cost (reachable base table m) (alpha ! p) (index p)) [0..<length alpha]))"

lemma fit_alpha_best:
  assumes fit: "fit_alpha alpha (base, table, m) = (err, c, indices)" and t: "table < 16"
  shows "c = (base, table, m)" "length indices = length alpha" "\<forall>p < length alpha. indices ! p < 8"
    "err = alpha_choice_cost alpha (base, table, m) (\<lambda>p. indices ! p)"
    "\<forall>p < length alpha. index p < 8 \<Longrightarrow> err \<le> alpha_choice_cost alpha (base, table, m) index"
    "err \<le> 65025 * length alpha"
proof -
  let ?v = "reachable base table m" and ?fit = "\<lambda>a. fit_alpha_pixel (reachable base table m) a"
  have e: "err = sum_list (map (\<lambda>a. fst (?fit a)) alpha)" "c = (base, table, m)" "indices = map (\<lambda>a. snd (?fit a)) alpha"
    using fit by (auto simp: fit_alpha_def Let_def comp_def)
  have pixel: "fst (?fit a) = alpha_cost ?v a (snd (?fit a)) \<and> snd (?fit a) < 8 \<and> (\<forall>j < 8. fst (?fit a) \<le> alpha_cost ?v a j) \<and> fst (?fit a) \<le> 65025" for a
    by (rule fit_alpha_pixel_best [OF t, of base m a]) (metis fst_conv snd_conv)
  have le: "j < 8 \<Longrightarrow> fst (?fit a) \<le> alpha_cost ?v a j" for a j using pixel by blast
  have by_pixel: "map g alpha = map (\<lambda>p. g (alpha ! p)) [0..<length alpha]" for g :: "u8 \<Rightarrow> nat"
    by (metis map_nth map_map comp_apply map_cong)
  show "c = (base, table, m)" "length indices = length alpha" using e by simp_all
  show "\<forall>p < length alpha. indices ! p < 8" using e(3) pixel by simp
  show "err = alpha_choice_cost alpha (base, table, m) (\<lambda>p. indices ! p)"
    unfolding e(1) alpha_choice_cost_def prod.case by_pixel using pixel e(3) by (intro arg_cong [where f = sum_list] map_cong) auto
  show "err \<le> alpha_choice_cost alpha (base, table, m) index" if "\<forall>p < length alpha. index p < 8"
    unfolding e(1) alpha_choice_cost_def prod.case by_pixel using le that by (intro sum_list_mono) (simp add: e)
  have "sum_list (map (\<lambda>a. fst (?fit a)) alpha) \<le> sum_list (map (\<lambda>_. 65025) alpha)" by (intro sum_list_mono) (use pixel in blast)
  then show "err \<le> 65025 * length alpha" unfolding e(1) by (simp add: sum_list_triv)
qed

lemma alpha_candidates_range:
  assumes "(base, table, m) \<in> set (alpha_candidates alpha)"
  shows "0 \<le> base" "base \<le> 255" "table < 16" "1 \<le> m" "m \<le> 15"
proof -
  have "base \<in> set (base_candidates alpha)" and t: "table < 16" and m: "m \<in> set (multiplier_window (alpha_max alpha - alpha_min alpha) table)"
    using assms by (auto simp: alpha_candidates_def)
  then obtain v where "base = clamp_int v 0 255" by (auto simp: base_candidates_def Let_def)
  then show "0 \<le> base" "base \<le> 255" using clamp_range [of 0 255 v] by simp_all
  obtain i j where "m \<in> set [clamp_int i 1 15..clamp_int j 1 15]" using m unfolding multiplier_window_def Let_def by blast
  then show "1 \<le> m" "m \<le> 15" using clamp_range [of 1 15 i] clamp_range [of 1 15 j] by simp_all
  show "table < 16" by (rule t)
qed

lemma alpha_candidates_nonempty: "alpha_candidates alpha \<noteq> []"
proof -
  have "multiplier_window e 0 \<noteq> []" for e by (auto simp: multiplier_window_def Let_def clamp_int_def)
  then show ?thesis by (simp add: alpha_candidates_def base_candidates_def Let_def upt_rec [of 0 16])
qed

lemma encode_alpha_writes:
  assumes len: "length alpha = 16" and vary: "\<not> list_all (\<lambda>a. a = alpha ! 0) alpha"
  obtains base table m indices where "(base, table, m) \<in> set (alpha_candidates alpha)"
    "encode_alpha_block alpha = [word_of_int base, push_bit 4 (word_of_int m) OR word_of_nat table] @
       drop 2 (u64_to_be_bytes (pack_indices indices ALPHA_WRITE_ORDER 0 0))"
    "\<forall>p < 16. indices ! p < 8"
    "\<forall>c \<in> set (alpha_candidates alpha). \<forall>index. (\<forall>p < 16. index p < 8) \<longrightarrow>
       alpha_choice_cost alpha (base, table, m) (\<lambda>p. indices ! p) \<le> alpha_choice_cost alpha c index"
proof -
  let ?xs = "map (fit_alpha alpha) (alpha_candidates alpha)"
  have small: "\<forall>x \<in> set ?xs. fst x < u64_MAX"
  proof
    fix x assume "x \<in> set ?xs"
    then obtain base table m where c: "x = fit_alpha alpha (base, table, m)" "(base, table, m) \<in> set (alpha_candidates alpha)" by auto
    then have "fst x \<le> 65025 * length alpha"
      using fit_alpha_best(6) [of alpha base table m "fst x" "fst (snd x)" "snd (snd x)"] alpha_candidates_range(3) [OF c(2)] by simp
    then show "fst x < u64_MAX" using len by simp
  qed
  obtain b where b: "search fst ?xs (u64_MAX, (0, 0, 1), replicate 16 0) = (fst b, b)" "b \<in> set ?xs" "\<forall>x \<in> set ?xs. fst b \<le> fst x"
    by (rule search_best [of ?xs fst, OF _ small]) (simp_all add: alpha_candidates_nonempty)
  obtain base table m where c: "b = fit_alpha alpha (base, table, m)" "(base, table, m) \<in> set (alpha_candidates alpha)" using b(2) by auto
  obtain err c' indices where bb: "b = (err, c', indices)" by (cases b) auto
  note best = fit_alpha_best [OF c(1) [symmetric, unfolded bb] alpha_candidates_range(3) [OF c(2)]]
  have "alpha_choice_cost alpha (base, table, m) (\<lambda>p. indices ! p) \<le> alpha_choice_cost alpha c index"
    if cand: "c \<in> set (alpha_candidates alpha)" "\<forall>p < 16. index p < 8" for c index
  proof -
    obtain base' table' m' where cc: "c = (base', table', m')" by (cases c) auto
    obtain err' c'' indices' where f: "fit_alpha alpha c = (err', c'', indices')" by (metis prod_cases3)
    have "err \<le> err'" using b(3) cand(1) f bb by force
    also have "err' \<le> alpha_choice_cost alpha c index"
      using fit_alpha_best(5) [OF f [unfolded cc]] alpha_candidates_range(3) cand len cc by simp
    finally show ?thesis using best(4) by simp
  qed
  then show ?thesis
    using that [OF c(2)] vary b(1) bb best(1,3) len by (auto simp: encode_alpha_block_def Let_def)
qed

lemma decoded_alpha:
  assumes "0 \<le> base" "base \<le> 255" "table < 16" "1 \<le> m" "m \<le> 15" "\<forall>p < 16. indices ! p < 8"
    and b: "b = [word_of_int base, push_bit 4 (word_of_int m) OR word_of_nat table] @
       drop 2 (u64_to_be_bytes (pack_indices indices ALPHA_WRITE_ORDER 0 0))"
    and p: "p < 16"
  shows "decode_alpha b (p mod 4) (p div 4) = reachable base table m ! (indices ! p)"
proof -
  obtain k l where kl: "m = int k" "base = int l" using assms(1,4) by (metis nonneg_int_cases order_trans zero_le_one)
  have small: "unat (word_of_int m :: u8) < 16" "unat (word_of_nat table :: u8) < 16"
    using assms(3-5) kl by (simp_all add: unat_of_nat)
  note n = nibbles [OF small]
  have at: "b ! 0 = word_of_int base" "b ! 1 = push_bit 4 (word_of_int m) OR word_of_nat table" by (simp_all add: b)
  have i: "alpha_index b (4 * (p mod 4) + p div 4) = indices ! p" using packed_index [OF b p] assms(6) p by blast
  have u: "uint (word_of_int base :: u8) = base" "uint (word_of_int m :: u8) = m" "unat (word_of_nat table :: u8) = table"
    using assms(1-5) kl by (simp_all add: uint_nat unat_of_nat)
  have "indices ! p < length (ALPHA_MODIFIER_TABLE ! table)" using assms(6) p alpha_tables(2) [OF assms(3)] by simp
  then show ?thesis unfolding decode_alpha_def at i n u reachable_def by (simp only: nth_map)
qed

text \<open>
  The alpha block decodes to the block's alpha exactly where it is constant, and
  otherwise, of all bases, tables and multipliers the encoder visits, with any indices,
  none decodes closer. A block always has eight bytes.
\<close>

lemma encode_alpha_block_is_best:
  assumes "length alpha = 16"
  shows "length (encode_alpha_block alpha) = 8 \<and> (list_all (\<lambda>a. a = alpha ! 0) alpha \<longrightarrow> alpha_error (encode_alpha_block alpha) alpha = 0) \<and>
    (\<forall>c \<in> set (alpha_candidates alpha). \<forall>index. (\<forall>p < 16. index p < 8) \<longrightarrow>
       alpha_error (encode_alpha_block alpha) alpha \<le> alpha_choice_cost alpha c index)"
proof (cases "list_all (\<lambda>a. a = alpha ! 0) alpha")
  case True
  then have e: "encode_alpha_block alpha = (alpha ! 0) # replicate 7 0" by (simp add: encode_alpha_block_def)
  have "uint (alpha ! 0) < 256" using unsigned_less [of "alpha ! 0", where ?'a = int] by simp
  then have d: "decode_alpha (encode_alpha_block alpha) x y = uint (alpha ! 0)" for x y
    by (simp add: decode_alpha_def e clamp_int_def)
  have "nat ((decode_alpha (encode_alpha_block alpha) (p mod 4) (p div 4) - uint (alpha ! p)) ^ 2) = 0" if "p \<in> set [0..<16]" for p
  proof -
    have "p < length alpha" using assms that by simp
    then have "alpha ! p = alpha ! 0" by (rule True [unfolded list_all_length, rule_format])
    then show ?thesis by (simp add: d)
  qed
  then have "alpha_error (encode_alpha_block alpha) alpha = 0" unfolding alpha_error_def by (simp only: sum_list_eq_0_iff set_map) auto
  then show ?thesis using e True by simp
next
  case False
  obtain base table m indices where w: "(base, table, m) \<in> set (alpha_candidates alpha)"
    "encode_alpha_block alpha = [word_of_int base, push_bit 4 (word_of_int m) OR word_of_nat table] @
       drop 2 (u64_to_be_bytes (pack_indices indices ALPHA_WRITE_ORDER 0 0))"
    "\<forall>p < 16. indices ! p < 8"
    "\<forall>c \<in> set (alpha_candidates alpha). \<forall>index. (\<forall>p < 16. index p < 8) \<longrightarrow>
       alpha_choice_cost alpha (base, table, m) (\<lambda>p. indices ! p) \<le> alpha_choice_cost alpha c index"
    by (rule encode_alpha_writes [OF assms False])
  have "alpha_error (encode_alpha_block alpha) alpha = alpha_choice_cost alpha (base, table, m) (\<lambda>p. indices ! p)"
    unfolding alpha_error_def alpha_choice_cost_def prod.case assms alpha_cost_def
    using decoded_alpha [OF alpha_candidates_range [OF w(1)] w(3,2)] by (intro arg_cong [where f = sum_list] map_cong) auto
  moreover have "length (encode_alpha_block alpha) = 8" using w(2) by (simp add: u64_to_be_bytes_def)
  ultimately show ?thesis using w(4) False by simp
qed

definition example_alpha :: "u8 list" where
  "example_alpha = replicate 8 0 @ replicate 8 255"

lemma encode_alpha_block_is_best_witness:
  "(0, 0, 10) \<in> set (alpha_candidates example_alpha) \<and>
   alpha_error (encode_alpha_block example_alpha) example_alpha \<le> alpha_choice_cost example_alpha (0, 0, 10) (\<lambda>p. if p < 8 then 3 else 7)"
proof -
  have "set (map uint example_alpha) = {0, 255}" by (auto simp: example_alpha_def)
  then have lo_hi: "alpha_min example_alpha = 0" "alpha_max example_alpha = 255" by (simp_all add: alpha_min_def alpha_max_def)
  have "10 \<in> set (multiplier_window 255 0)" by code_simp
  moreover have "0 \<in> set (base_candidates example_alpha)" by (simp add: base_candidates_def lo_hi Let_def clamp_int_def)
  ultimately have "(0, 0, 10) \<in> set (alpha_candidates example_alpha)" by (auto simp: alpha_candidates_def lo_hi intro!: bexI [of _ 0])
  with encode_alpha_block_is_best [of example_alpha] show ?thesis by (simp add: example_alpha_def)
qed

section \<open>The walk over the image\<close>

lemma chunks_Nil [simp]: "chunks n [] = []"
  by (simp add: chunks.simps)

lemma chunks_step: "0 < n \<Longrightarrow> xs \<noteq> [] \<Longrightarrow> chunks n xs = take n xs # chunks n (drop n xs)"
  by (simp add: chunks.simps)

lemma chunks_even:
  assumes "0 < n" "length xs = n * m"
  shows "length (chunks n xs) = m \<and> (\<forall>c \<in> set (chunks n xs). length c = n)"
  using assms(2)
proof (induction m arbitrary: xs)
  case (Suc m)
  then have xs: "xs \<noteq> []" "length (drop n xs) = n * m" "length (take n xs) = n" using assms(1) by auto
  show ?case unfolding chunks_step [OF assms(1) xs(1)] using Suc.IH [OF xs(2)] xs(3) by simp
qed simp

lemma chunks_append:
  assumes "0 < n" "length xs = n * m"
  shows "chunks n (xs @ ys) = chunks n xs @ chunks n ys"
  using assms(2)
proof (induction m arbitrary: xs)
  case (Suc m)
  then have xs: "xs \<noteq> []" "n \<le> length xs" "length (drop n xs) = n * m" using assms(1) by auto
  then have "xs @ ys \<noteq> []" by simp
  from chunks_step [OF assms(1) this] chunks_step [OF assms(1) xs(1)] Suc.IH [OF xs(3)] xs(2) show ?case by simp
qed simp

lemma encode_chunks_append:
  "encode_chunks f i (cs @ ds) = do { a \<leftarrow> encode_chunks f i cs; b \<leftarrow> encode_chunks f (i + length cs) ds; Some (a @ b) }"
  by (induction cs arbitrary: i) (auto split: bind_splits)

lemma encode_chunks_shift: "encode_chunks (\<lambda>j. f (a + j)) i cs = encode_chunks f (a + i) cs"
  by (induction cs arbitrary: i) (simp_all flip: add.assoc)

text \<open>Dividing the rows among lanes changes nothing.\<close>

lemma encode_lanes:
  assumes "0 < n" "0 < r" "n dvd length xs"
  shows "encode_chunks (\<lambda>lane chunk. encode_chunks (\<lambda>offset. f (lane * r + offset)) 0 (chunks n chunk)) k (chunks (r * n) xs) =
    encode_chunks f (k * r) (chunks n xs)"
  using assms(3)
proof (induction "length xs" arbitrary: xs k rule: less_induct)
  case less
  have rn: "0 < r * n" using assms by simp
  show ?case
  proof (cases "xs = []")
    case False
    let ?a = "take (r * n) xs" and ?b = "drop (r * n) xs"
    have b: "n dvd length ?b" "length ?b < length xs" using less.prems rn False by (auto simp: dvd_diff_nat)
    have inner: "encode_chunks (\<lambda>offset. f (k * r + offset)) 0 (chunks n c) = encode_chunks f (k * r) (chunks n c)" for c
      using encode_chunks_shift [of f "k * r" 0] by simp
    have split: "encode_chunks f (k * r) (chunks n xs) =
        do { a \<leftarrow> encode_chunks f (k * r) (chunks n ?a); b \<leftarrow> encode_chunks f ((k + 1) * r) (chunks n ?b); Some (a @ b) }"
    proof (cases "r * n \<le> length xs")
      case True
      then have a: "length ?a = n * r" by simp
      have "chunks n xs = chunks n ?a @ chunks n ?b" using chunks_append [OF assms(1) a, of ?b] by simp
      moreover have "length (chunks n ?a) = r" using chunks_even [OF assms(1) a] by blast
      ultimately show ?thesis by (simp add: encode_chunks_append add.commute)
    next
      case short: False
      then have "?a = xs" "?b = []" by simp_all
      then show ?thesis by (cases "encode_chunks f (k * r) (chunks n xs)") simp_all
    qed
    have IH: "encode_chunks (\<lambda>lane chunk. encode_chunks (\<lambda>offset. f (lane * r + offset)) 0 (chunks n chunk)) (k + 1) (chunks (r * n) ?b) =
        encode_chunks f ((k + 1) * r) (chunks n ?b)"
      by (rule less.hyps [OF b(2,1)])
    show ?thesis unfolding split chunks_step [OF rn False] encode_chunks.simps inner IH ..
  qed simp
qed

lemma encode_block_rows_sequential:
  assumes "0 < blocks_x" "0 < blocks_y" "0 < block_bytes" "length out = blocks_x * blocks_y * block_bytes"
  shows "encode_block_rows par blocks_x blocks_y block_bytes out f = encode_chunks f 0 (chunks (blocks_x * block_bytes) out)"
proof -
  let ?n = "blocks_x * block_bytes"
  let ?lanes = "if blocks_x * blocks_y < 1024 then 1 else min (min (max par 1) 4) blocks_y"
  have n: "0 < ?n" using assms by simp
  have "0 < ?lanes" using assms(2) by (simp add: less_max_iff_disj)
  then have "1 \<le> (blocks_y + ?lanes - 1) div ?lanes" using assms(2) by (subst less_eq_div_iff_mult_less_eq) auto
  then have r: "0 < (blocks_y + ?lanes - 1) div ?lanes" by linarith
  have "?n dvd length out" using assms(4) by (simp add: mult_ac)
  from encode_lanes [OF n r this, of f 0] n assms(2) show ?thesis by (simp add: encode_block_rows_def Let_def)
qed

lemma encode_chunks_all:
  assumes "\<forall>j < length cs. f (i + j) (cs ! j) = Some (g (i + j))"
  shows "encode_chunks f i cs = Some (concat (map g [i..<i + length cs]))"
  using assms
proof (induction cs arbitrary: i)
  case (Cons c cs)
  have "f i c = Some (g i)" using Cons.prems by force
  moreover have "encode_chunks f (i + 1) cs = Some (concat (map g [i + 1..<i + 1 + length cs]))"
    using Cons.prems by (intro Cons.IH) force
  moreover have "[i..<i + length (c # cs)] = i # [i + 1..<i + 1 + length cs]" by (subst upt_conv_Cons) simp_all
  ultimately show ?case by simp
qed simp

lemma collect_all: "\<forall>x \<in> set xs. f x = Some (g x) \<Longrightarrow> collect f xs = Some (map g xs)"
  by (induction xs) simp_all

text \<open>The sixteen pixels of a block of the image.\<close>

definition rgb_tile :: "u8 list \<Rightarrow> nat \<Rightarrow> nat \<Rightarrow> nat \<Rightarrow> rgb_pixel list" where
  "rgb_tile rgba width row col = map (\<lambda>p. let base = pixel_base width row col p in [rgba ! base, rgba ! (base + 1), rgba ! (base + 2)]) [0..<16]"

definition alpha_tile :: "u8 list \<Rightarrow> nat \<Rightarrow> nat \<Rightarrow> nat \<Rightarrow> u8 list" where
  "alpha_tile rgba width row col = map (\<lambda>p. rgba ! (pixel_base width row col p + 3)) [0..<16]"

lemma pixel_base_in:
  assumes "width = 4 * bx" "height = 4 * rows" "row < rows" "col < bx" "p < 16" "len = width * height * 4"
  shows "pixel_base width row col p + 3 < len"
proof -
  let ?y = "row * 4 + p div 4" and ?x = "col * 4 + p mod 4"
  have "?x < width" using assms(1,4) by simp
  moreover have "?y + 1 \<le> height" using assms(2,3,5) by (simp add: less_mult_imp_div_less)
  then have "(?y + 1) * width \<le> height * width" by (rule mult_le_mono1)
  ultimately have "?y * width + ?x < height * width" by (simp add: add_mult_distrib)
  then show ?thesis unfolding pixel_base_def assms(6) by (simp add: mult.commute)
qed

lemma reads_tile:
  assumes "width = 4 * bx" "height = 4 * rows" "row < rows" "col < bx" "length rgba = width * height * 4"
  shows "read_rgb rgba width row col = Some (rgb_tile rgba width row col)" "read_alpha rgba width row col = Some (alpha_tile rgba width row col)"
proof -
  have in_range: "pixel_base width row col p + 3 < length rgba" if "p \<in> set [0..<16]" for p
    using pixel_base_in [OF assms(1-4), of p] assms(5) that by simp
  show "read_rgb rgba width row col = Some (rgb_tile rgba width row col)"
    unfolding read_rgb_def rgb_tile_def by (intro collect_all ballI) (use in_range in \<open>force simp: Let_def\<close>)
  show "read_alpha rgba width row col = Some (alpha_tile rgba width row col)"
    unfolding read_alpha_def alpha_tile_def by (intro collect_all ballI) (use in_range in force)
qed

lemma length_encode_block: "length (encode_block pixels) = 8"
  by (simp add: encode_block_def Let_def u16_to_be_bytes_def split: prod.splits)

lemma length_encode_alpha_block: "length (encode_alpha_block alpha) = 8"
  by (simp add: encode_alpha_block_def Let_def u64_to_be_bytes_def split: prod.splits)

text \<open>The blocks of an image in raster order, each encoded by itself.\<close>

definition raster_blocks :: "nat \<Rightarrow> nat \<Rightarrow> (nat \<Rightarrow> nat \<Rightarrow> u8 list) \<Rightarrow> u8 list" where
  "raster_blocks blocks_x blocks_y block = concat (map (\<lambda>row. concat (map (block row) [0..<blocks_x])) [0..<blocks_y])"

lemma encode_rows_raster:
  assumes pos: "0 < blocks_x" "0 < blocks_y" "0 < n"
    and block: "\<And>row col dst. row < blocks_y \<Longrightarrow> col < blocks_x \<Longrightarrow> length dst = n \<Longrightarrow> encode row col dst = Some (block row col)"
  shows "encode_block_rows par blocks_x blocks_y n (replicate (blocks_x * blocks_y * n) 0)
    (\<lambda>row bytes. encode_chunks (encode row) 0 (chunks n bytes)) = Some (raster_blocks blocks_x blocks_y block)"
proof -
  let ?out = "replicate (blocks_x * blocks_y * n) 0 :: u8 list" and ?row = "\<lambda>row. concat (map (block row) [0..<blocks_x])"
  have rows: "length (chunks (blocks_x * n) ?out) = blocks_y" "\<forall>c \<in> set (chunks (blocks_x * n) ?out). length c = blocks_x * n"
    using chunks_even [of "blocks_x * n" ?out blocks_y] pos by (simp_all add: mult_ac)
  have row: "encode_chunks (encode row) 0 (chunks n bytes) = Some (?row row)" if r: "row < blocks_y" "length bytes = blocks_x * n" for row bytes
  proof -
    have c: "length (chunks n bytes) = blocks_x" "\<forall>c \<in> set (chunks n bytes). length c = n"
      using chunks_even [of n bytes blocks_x] pos(3) r(2) by (simp_all add: mult.commute)
    have "\<forall>j < length (chunks n bytes). encode row (0 + j) (chunks n bytes ! j) = Some (block row (0 + j))"
      using c block r(1) by simp
    from encode_chunks_all [OF this] show ?thesis using c(1) by simp
  qed
  have "\<forall>j < length (chunks (blocks_x * n) ?out). encode_chunks (encode (0 + j)) 0 (chunks n (chunks (blocks_x * n) ?out ! j)) = Some (?row (0 + j))"
    using rows row by simp
  from encode_chunks_all [of _ "\<lambda>row bytes. encode_chunks (encode row) 0 (chunks n bytes)", OF this]
  show ?thesis using encode_block_rows_sequential [OF pos, of ?out] rows(1) by (simp add: raster_blocks_def)
qed

text \<open>
  C24. Encoding an image never panics. Dimensions that are zero, not multiples of four or
  do not match the pixels are refused, and otherwise the output is, in raster order, the
  encoding of each block of sixteen pixels by itself, for either format, on any number of
  threads.
\<close>

theorem encode_image_blocks:
  "encode_etc2_rgb par rgba width height = (case checked_dimensions (length rgba) width height of Inl e \<Rightarrow> Err e
     | Inr (blocks_x, blocks_y) \<Rightarrow> Ok (raster_blocks blocks_x blocks_y (\<lambda>row col. encode_block (rgb_tile rgba (unat width) row col)))) \<and>
   encode_etc2_rgba par rgba width height = (case checked_dimensions (length rgba) width height of Inl e \<Rightarrow> Err e
     | Inr (blocks_x, blocks_y) \<Rightarrow> Ok (raster_blocks blocks_x blocks_y
         (\<lambda>row col. encode_alpha_block (alpha_tile rgba (unat width) row col) @ encode_block (rgb_tile rgba (unat width) row col))))"
proof (cases "checked_dimensions (length rgba) width height")
  case (Inl e)
  then show ?thesis by (simp add: encode_etc2_rgb_def encode_etc2_rgba_def)
next
  case (Inr blocks)
  obtain bx rows where d: "blocks = (bx, rows)" by (cases blocks)
  have c: "width \<noteq> 0" "height \<noteq> 0" "width mod 4 = 0" "height mod 4 = 0" "length rgba = unat width * unat height * 4"
    "bx = unat width div 4" "rows = unat height div 4"
    using Inr d by (auto simp: checked_dimensions_def split: if_splits)
  have "unat (width mod 4) = unat width mod 4" "unat (height mod 4) = unat height mod 4" by (simp_all add: unat_mod)
  then have "unat width mod 4 = 0" "unat height mod 4 = 0" using c(3,4) by simp_all
  then have dims: "unat width = 4 * bx" "unat height = 4 * rows" using c(6,7) by auto
  then have pos: "0 < bx" "0 < rows" using c(1,2) by (metis gr0I mult_0_right unat_eq_zero)+
  note reads = reads_tile [OF dims _ _ c(5)]
  have rgb: "encode_block_rows par bx rows 8 (replicate (bx * rows * 8) 0)
      (\<lambda>row bytes. encode_chunks (\<lambda>col dst. do { block \<leftarrow> read_rgb rgba (unat width) row col; copy_from_slice dst (encode_block block) }) 0 (chunks 8 bytes)) =
      Some (raster_blocks bx rows (\<lambda>row col. encode_block (rgb_tile rgba (unat width) row col)))"
    by (rule encode_rows_raster [OF pos]) (simp_all add: reads copy_from_slice_def length_encode_block)
  have rgba: "encode_block_rows par bx rows 16 (replicate (bx * rows * 16) 0)
      (\<lambda>row bytes. encode_chunks (\<lambda>col dst. do {
         rgb \<leftarrow> read_rgb rgba (unat width) row col; alpha \<leftarrow> read_alpha rgba (unat width) row col;
         dst0 \<leftarrow> slice dst 0 8; dst1 \<leftarrow> slice dst 8 (length dst);
         a \<leftarrow> copy_from_slice dst0 (encode_alpha_block alpha); c \<leftarrow> copy_from_slice dst1 (encode_block rgb); Some (a @ c) }) 0 (chunks 16 bytes)) =
      Some (raster_blocks bx rows (\<lambda>row col. encode_alpha_block (alpha_tile rgba (unat width) row col) @ encode_block (rgb_tile rgba (unat width) row col)))"
    by (rule encode_rows_raster [OF pos]) (simp_all add: reads copy_from_slice_def length_encode_block length_encode_alpha_block)
  show ?thesis using Inr d rgb rgba by (simp add: encode_etc2_rgb_def encode_etc2_rgba_def)
qed

end
