(* ===== verification/Wire_Packet.thy ===== *)
theory Wire_Packet
  imports Prelude
begin

unbundle bit_operations_syntax

text \<open>
  The frame packet envelope of \<open>engine/crates/frame-wire/src/lib.rs\<close>: header
  constants, the rejection codes, the validator with its section loop, the
  checksum, and the accessors of a validated frame. The CRC implementation is the
  crate \<open>crc32fast\<close>, so it is a parameter: a \<open>hasher\<close> with the three calls the
  source makes.
\<close>

section \<open>Constants\<close>

abbreviation (input) WIRE_MAGIC :: u32 where "WIRE_MAGIC \<equiv> 0x4D475046"
abbreviation (input) WIRE_VERSION :: u32 where "WIRE_VERSION \<equiv> 1"
abbreviation (input) HEADER_BYTES :: u32 where "HEADER_BYTES \<equiv> 80"
abbreviation (input) SECTION_ENTRY_BYTES :: u32 where "SECTION_ENTRY_BYTES \<equiv> 16"
abbreviation (input) SECTION_ALIGNMENT :: u32 where "SECTION_ALIGNMENT \<equiv> 8"
abbreviation (input) MAX_SECTIONS :: u32 where "MAX_SECTIONS \<equiv> 8"
abbreviation (input) MAX_TOTAL_BYTES :: u32 where "MAX_TOTAL_BYTES \<equiv> 4194304"

abbreviation (input) SECTION_KIND_COMMAND_STREAM :: u32 where "SECTION_KIND_COMMAND_STREAM \<equiv> 1"
abbreviation (input) SECTION_KIND_INLINE_DATA :: u32 where "SECTION_KIND_INLINE_DATA \<equiv> 2"
abbreviation (input) SECTION_KIND_RESOURCE_REFERENCES :: u32 where "SECTION_KIND_RESOURCE_REFERENCES \<equiv> 3"
abbreviation (input) SECTION_KIND_DAMAGE :: u32 where "SECTION_KIND_DAMAGE \<equiv> 0x80000001"
abbreviation (input) SECTION_KIND_TIMING :: u32 where "SECTION_KIND_TIMING \<equiv> 0x80000002"
abbreviation (input) SECTION_KIND_ADVISORY_BIT :: u32 where "SECTION_KIND_ADVISORY_BIT \<equiv> 0x80000000"
abbreviation (input) RESOURCE_REFERENCE_BYTES :: u32 where "RESOURCE_REFERENCE_BYTES \<equiv> 4"
abbreviation (input) DAMAGE_RECT_BYTES :: u32 where "DAMAGE_RECT_BYTES \<equiv> 16"
abbreviation (input) FLAG_PRESENT :: u32 where "FLAG_PRESENT \<equiv> 1"
abbreviation (input) FLAG_KNOWN_MASK :: u32 where "FLAG_KNOWN_MASK \<equiv> FLAG_PRESENT"

abbreviation (input) OFF_MAGIC :: nat where "OFF_MAGIC \<equiv> 0"
abbreviation (input) OFF_WIRE_VERSION :: nat where "OFF_WIRE_VERSION \<equiv> 4"
abbreviation (input) OFF_HEADER_BYTES :: nat where "OFF_HEADER_BYTES \<equiv> 8"
abbreviation (input) OFF_TOTAL_BYTES :: nat where "OFF_TOTAL_BYTES \<equiv> 12"
abbreviation (input) OFF_LAUNCH_NONCE :: nat where "OFF_LAUNCH_NONCE \<equiv> 16"
abbreviation (input) OFF_SEQUENCE :: nat where "OFF_SEQUENCE \<equiv> 32"
abbreviation (input) OFF_RUNTIME_GENERATION :: nat where "OFF_RUNTIME_GENERATION \<equiv> 40"
abbreviation (input) OFF_SURFACE_GENERATION :: nat where "OFF_SURFACE_GENERATION \<equiv> 48"
abbreviation (input) OFF_RESOURCE_EPOCH :: nat where "OFF_RESOURCE_EPOCH \<equiv> 56"
abbreviation (input) OFF_FRAME_ID :: nat where "OFF_FRAME_ID \<equiv> 64"
abbreviation (input) OFF_FLAGS :: nat where "OFF_FLAGS \<equiv> 68"
abbreviation (input) OFF_SECTION_COUNT :: nat where "OFF_SECTION_COUNT \<equiv> 72"
abbreviation (input) OFF_CHECKSUM :: nat where "OFF_CHECKSUM \<equiv> 76"
abbreviation (input) OFF_CHECKSUM_END :: nat where "OFF_CHECKSUM_END \<equiv> 80"

record header_field =
  hf_offset :: u32
  hf_size :: u32
  hf_name :: string

definition HEADER_LAYOUT :: "header_field list" where
  "HEADER_LAYOUT =
   [\<lparr>hf_offset = word_of_nat OFF_MAGIC, hf_size = 4, hf_name = ''magic''\<rparr>,
    \<lparr>hf_offset = word_of_nat OFF_WIRE_VERSION, hf_size = 4, hf_name = ''wire_version''\<rparr>,
    \<lparr>hf_offset = word_of_nat OFF_HEADER_BYTES, hf_size = 4, hf_name = ''header_bytes''\<rparr>,
    \<lparr>hf_offset = word_of_nat OFF_TOTAL_BYTES, hf_size = 4, hf_name = ''total_bytes''\<rparr>,
    \<lparr>hf_offset = word_of_nat OFF_LAUNCH_NONCE, hf_size = 16, hf_name = ''launch_nonce''\<rparr>,
    \<lparr>hf_offset = word_of_nat OFF_SEQUENCE, hf_size = 8, hf_name = ''sequence''\<rparr>,
    \<lparr>hf_offset = word_of_nat OFF_RUNTIME_GENERATION, hf_size = 8, hf_name = ''runtime_generation''\<rparr>,
    \<lparr>hf_offset = word_of_nat OFF_SURFACE_GENERATION, hf_size = 8, hf_name = ''surface_generation''\<rparr>,
    \<lparr>hf_offset = word_of_nat OFF_RESOURCE_EPOCH, hf_size = 8, hf_name = ''resource_epoch''\<rparr>,
    \<lparr>hf_offset = word_of_nat OFF_FRAME_ID, hf_size = 4, hf_name = ''frame_id''\<rparr>,
    \<lparr>hf_offset = word_of_nat OFF_FLAGS, hf_size = 4, hf_name = ''flags''\<rparr>,
    \<lparr>hf_offset = word_of_nat OFF_SECTION_COUNT, hf_size = 4, hf_name = ''section_count''\<rparr>,
    \<lparr>hf_offset = word_of_nat OFF_CHECKSUM, hf_size = 4, hf_name = ''payload_checksum''\<rparr>]"

text \<open>A field table has no gaps: each field starts where the previous one ended.\<close>

fun gapless :: "u32 \<Rightarrow> header_field list \<Rightarrow> u32 \<Rightarrow> bool" where
  "gapless start [] stop = (start = stop)"
| "gapless start (f # fs) stop = (hf_offset f = start \<and> gapless (start + hf_size f) fs stop)"

section \<open>Rejection codes\<close>

datatype wire_error =
    ShorterThanHeader | BadMagic | UnsupportedVersion | BadHeaderBytes | BadTotalBytes
  | LengthMismatch | TooManySections | SectionTableOutOfBounds | SectionOutOfBounds
  | SectionNotCanonical | PaddingNotZero | DuplicateSection | UnknownRequiredSection
  | ChecksumMismatch | UnknownFlags | MissingPresent | CommandStreamNotWordAligned
  | ItemCountInconsistent | MissingCommandStream | TotalBytesNotCanonical

fun wire_error_code :: "wire_error \<Rightarrow> u32" where
  "wire_error_code ShorterThanHeader = 1"
| "wire_error_code BadMagic = 2"
| "wire_error_code UnsupportedVersion = 3"
| "wire_error_code BadHeaderBytes = 4"
| "wire_error_code BadTotalBytes = 5"
| "wire_error_code LengthMismatch = 6"
| "wire_error_code TooManySections = 7"
| "wire_error_code SectionTableOutOfBounds = 8"
| "wire_error_code SectionOutOfBounds = 9"
| "wire_error_code SectionNotCanonical = 10"
| "wire_error_code PaddingNotZero = 11"
| "wire_error_code DuplicateSection = 12"
| "wire_error_code UnknownRequiredSection = 13"
| "wire_error_code ChecksumMismatch = 14"
| "wire_error_code UnknownFlags = 15"
| "wire_error_code MissingPresent = 16"
| "wire_error_code CommandStreamNotWordAligned = 17"
| "wire_error_code ItemCountInconsistent = 18"
| "wire_error_code MissingCommandStream = 19"
| "wire_error_code TotalBytesNotCanonical = 20"

definition WIRE_ERROR_ALL :: "wire_error list" where
  "WIRE_ERROR_ALL =
   [ShorterThanHeader, BadMagic, UnsupportedVersion, BadHeaderBytes, BadTotalBytes,
    LengthMismatch, TooManySections, SectionTableOutOfBounds, SectionOutOfBounds,
    SectionNotCanonical, PaddingNotZero, DuplicateSection, UnknownRequiredSection,
    ChecksumMismatch, UnknownFlags, MissingPresent, CommandStreamNotWordAligned,
    ItemCountInconsistent, MissingCommandStream, TotalBytesNotCanonical]"

section \<open>Frames\<close>

record wire_section =
  sec_kind :: u32
  sec_item_count :: u32
  sec_bytes :: "u8 list"

record wire_frame =
  wf_bytes :: "u8 list"
  wf_launch_nonce :: u128
  wf_sequence :: u64
  wf_runtime_generation :: u64
  wf_surface_generation :: u64
  wf_resource_epoch :: u64
  wf_frame_id :: u32
  wf_flags :: u32
  wf_section_count :: u32

definition wf_presents :: "wire_frame \<Rightarrow> bool" where
  "wf_presents f \<longleftrightarrow> wf_flags f AND FLAG_PRESENT \<noteq> 0"

section \<open>Reading\<close>

definition read_u32 :: "u8 list \<Rightarrow> nat \<Rightarrow> u32 option" where
  "read_u32 bytes at = do {
     b0 \<leftarrow> idx bytes at;
     b1 \<leftarrow> idx bytes (at + 1);
     b2 \<leftarrow> idx bytes (at + 2);
     b3 \<leftarrow> idx bytes (at + 3);
     Some (from_le_bytes [b0, b1, b2, b3])
   }"

definition read_u64 :: "u8 list \<Rightarrow> nat \<Rightarrow> u64 option" where
  "read_u64 bytes at = do { buffer \<leftarrow> slice bytes at (at + 8); Some (from_le_bytes buffer) }"

definition read_u128 :: "u8 list \<Rightarrow> nat \<Rightarrow> u128 option" where
  "read_u128 bytes at = do { buffer \<leftarrow> slice bytes at (at + 16); Some (from_le_bytes buffer) }"

definition align_up :: "u32 \<Rightarrow> u32 option" where
  "align_up value =
     (case checked_add value (SECTION_ALIGNMENT - 1) of
        Some s \<Rightarrow> Some (s AND NOT (SECTION_ALIGNMENT - 1))
      | None \<Rightarrow> None)"

section \<open>Checksum\<close>

record 'h hasher =
  hasher_new :: 'h
  hasher_update :: "'h \<Rightarrow> u8 list \<Rightarrow> 'h"
  hasher_finalize :: "'h \<Rightarrow> u32"

definition checksum :: "'h hasher \<Rightarrow> u8 list \<Rightarrow> u32 option" where
  "checksum H bytes = do {
     let head_len = min (length bytes) OFF_CHECKSUM;
     head_bytes \<leftarrow> slice bytes 0 head_len;
     let s = hasher_update H (hasher_new H) head_bytes;
     if length bytes \<ge> OFF_CHECKSUM_END then do {
       rest \<leftarrow> slice bytes OFF_CHECKSUM_END (length bytes);
       Some (hasher_finalize H (hasher_update H (hasher_update H s [0, 0, 0, 0]) rest))
     }
     else if length bytes > OFF_CHECKSUM
     then Some (hasher_finalize H (hasher_update H s [0, 0, 0, 0]))
     else Some (hasher_finalize H s)
   }"

definition stamp_checksum :: "'h hasher \<Rightarrow> u8 list \<Rightarrow> u8 list option" where
  "stamp_checksum H bytes =
     (if length bytes < unat HEADER_BYTES then Some bytes
      else do {
        v \<leftarrow> checksum H bytes;
        put_slice bytes OFF_CHECKSUM (to_le_bytes 4 v)
      })"

section \<open>Validation\<close>

text \<open>
  \<open>validate\<close> in the order of the source: the header checks up to the payload
  start, the loop over the section table, and the closing checks. The loop state
  is the array of kinds seen, the end of the previous section, and whether a
  command stream was found.
\<close>

definition validate_header :: "u8 list \<Rightarrow> (wire_error, u32 \<times> u32 \<times> u32 \<times> u32) rust_result" where
  "validate_header bytes =
     (if length bytes < unat HEADER_BYTES then Err ShorterThanHeader
      else do {
        magic \<leftarrow> read_u32 bytes OFF_MAGIC;
        if magic \<noteq> WIRE_MAGIC then Err BadMagic else do {
        version \<leftarrow> read_u32 bytes OFF_WIRE_VERSION;
        if version \<noteq> WIRE_VERSION then Err UnsupportedVersion else do {
        header_bytes \<leftarrow> read_u32 bytes OFF_HEADER_BYTES;
        if header_bytes \<noteq> HEADER_BYTES then Err BadHeaderBytes else do {
        total_bytes \<leftarrow> read_u32 bytes OFF_TOTAL_BYTES;
        if \<not> (HEADER_BYTES \<le> total_bytes \<and> total_bytes \<le> MAX_TOTAL_BYTES) then Err BadTotalBytes
        else if unat total_bytes \<noteq> length bytes then Err LengthMismatch else do {
        flags \<leftarrow> read_u32 bytes OFF_FLAGS;
        if flags AND NOT FLAG_KNOWN_MASK \<noteq> 0 then Err UnknownFlags
        else if flags AND FLAG_PRESENT = 0 then Err MissingPresent else do {
        section_count \<leftarrow> read_u32 bytes OFF_SECTION_COUNT;
        if section_count > MAX_SECTIONS then Err TooManySections else
        (case checked_mul section_count SECTION_ENTRY_BYTES of
           None \<Rightarrow> Err SectionTableOutOfBounds
         | Some table_bytes \<Rightarrow>
        (case checked_add HEADER_BYTES table_bytes of
           None \<Rightarrow> Err SectionTableOutOfBounds
         | Some payload_start \<Rightarrow>
             if payload_start > total_bytes then Err SectionTableOutOfBounds
             else Ok (total_bytes, flags, section_count, payload_start)))
      }}}}}})"

definition check_item_count :: "u32 \<Rightarrow> u32 \<Rightarrow> u32 \<Rightarrow> wire_error option" where
  "check_item_count kind len item_count =
     (if kind = SECTION_KIND_COMMAND_STREAM then
        (if unat len mod 4 \<noteq> 0 then Some CommandStreamNotWordAligned
         else if item_count > len div 4 then Some ItemCountInconsistent else None)
      else if kind = SECTION_KIND_RESOURCE_REFERENCES then
        (if checked_mul item_count RESOURCE_REFERENCE_BYTES \<noteq> Some len
         then Some ItemCountInconsistent else None)
      else if kind = SECTION_KIND_DAMAGE then
        (if checked_mul item_count DAMAGE_RECT_BYTES \<noteq> Some len
         then Some ItemCountInconsistent else None)
      else if item_count > len then Some ItemCountInconsistent else None)"

definition known_required :: "u32 \<Rightarrow> bool" where
  "known_required kind \<longleftrightarrow>
     kind = SECTION_KIND_COMMAND_STREAM \<or> kind = SECTION_KIND_INLINE_DATA
     \<or> kind = SECTION_KIND_RESOURCE_REFERENCES"

definition table_entry :: "nat \<Rightarrow> nat" where
  "table_entry index = unat HEADER_BYTES + unat (word_of_nat index * SECTION_ENTRY_BYTES :: u32)"

type_synonym loop_state = "u32 list \<times> u32 \<times> bool"

definition validate_section ::
    "u8 list \<Rightarrow> u32 \<Rightarrow> nat \<Rightarrow> loop_state \<Rightarrow> (wire_error, loop_state) rust_result" where
  "validate_section bytes total_bytes index = (\<lambda>(seen_kinds, previous_end, has_command_stream). do {
     let entry = table_entry index;
     kind \<leftarrow> read_u32 bytes entry;
     offset \<leftarrow> read_u32 bytes (entry + 4);
     len \<leftarrow> read_u32 bytes (entry + 8);
     item_count \<leftarrow> read_u32 bytes (entry + 12);
     if kind < SECTION_KIND_ADVISORY_BIT \<and> \<not> known_required kind then Err UnknownRequiredSection
     else do {
       recorded \<leftarrow> slice seen_kinds 0 index;
       if kind \<in> set recorded then Err DuplicateSection
       else do {
         seen_kinds' \<leftarrow> put_slice seen_kinds index [kind];
         case align_up previous_end of None \<Rightarrow> Err SectionNotCanonical | Some expected \<Rightarrow>
         if offset \<noteq> expected then Err SectionNotCanonical else
         case checked_add offset len of None \<Rightarrow> Err SectionOutOfBounds | Some stop \<Rightarrow>
         if stop > total_bytes then Err SectionOutOfBounds else do {
           gap \<leftarrow> slice bytes (unat previous_end) (unat offset);
           if \<not> list_all (\<lambda>b. b = 0) gap then Err PaddingNotZero else
           case check_item_count kind len item_count of
             Some e \<Rightarrow> Err e
           | None \<Rightarrow> Ok (seen_kinds', stop,
                         has_command_stream \<or> kind = SECTION_KIND_COMMAND_STREAM)
         }
       }
     }
   })"

fun validate_sections ::
    "u8 list \<Rightarrow> u32 \<Rightarrow> nat \<Rightarrow> nat \<Rightarrow> loop_state \<Rightarrow> (wire_error, loop_state) rust_result" where
  "validate_sections bytes total_bytes 0 index st = Ok st"
| "validate_sections bytes total_bytes (Suc n) index st =
     (case validate_section bytes total_bytes index st of
        None \<Rightarrow> Panic
      | Some (Inl e) \<Rightarrow> Err e
      | Some (Inr st') \<Rightarrow> validate_sections bytes total_bytes n (index + 1) st')"

definition validate_tail ::
    "'h hasher \<Rightarrow> u8 list \<Rightarrow> u32 \<Rightarrow> u32 \<Rightarrow> bool \<Rightarrow> (wire_error, unit) rust_result" where
  "validate_tail H bytes total_bytes previous_end has_command_stream =
     (if \<not> has_command_stream then Err MissingCommandStream else
      case align_up previous_end of None \<Rightarrow> Err TotalBytesNotCanonical | Some canonical_total \<Rightarrow>
      if total_bytes \<noteq> canonical_total then Err TotalBytesNotCanonical else do {
        gap \<leftarrow> slice bytes (unat previous_end) (unat total_bytes);
        if \<not> list_all (\<lambda>b. b = 0) gap then Err PaddingNotZero else do {
          computed \<leftarrow> checksum H bytes;
          stored \<leftarrow> read_u32 bytes OFF_CHECKSUM;
          if computed \<noteq> stored then Err ChecksumMismatch else Ok ()
        }
      })"

definition read_frame :: "u8 list \<Rightarrow> u32 \<Rightarrow> u32 \<Rightarrow> wire_frame option" where
  "read_frame bytes flags section_count = do {
     nonce \<leftarrow> read_u128 bytes OFF_LAUNCH_NONCE;
     seq \<leftarrow> read_u64 bytes OFF_SEQUENCE;
     rgen \<leftarrow> read_u64 bytes OFF_RUNTIME_GENERATION;
     sgen \<leftarrow> read_u64 bytes OFF_SURFACE_GENERATION;
     epoch \<leftarrow> read_u64 bytes OFF_RESOURCE_EPOCH;
     fid \<leftarrow> read_u32 bytes OFF_FRAME_ID;
     Some \<lparr>wf_bytes = bytes, wf_launch_nonce = nonce, wf_sequence = seq,
           wf_runtime_generation = rgen, wf_surface_generation = sgen,
           wf_resource_epoch = epoch, wf_frame_id = fid, wf_flags = flags,
           wf_section_count = section_count\<rparr>
   }"

definition validate :: "'h hasher \<Rightarrow> u8 list \<Rightarrow> (wire_error, wire_frame) rust_result" where
  "validate H bytes =
     (case validate_header bytes of
        None \<Rightarrow> Panic
      | Some (Inl e) \<Rightarrow> Err e
      | Some (Inr (total_bytes, flags, section_count, payload_start)) \<Rightarrow>
     (case validate_sections bytes total_bytes (unat section_count) 0
             (replicate (unat MAX_SECTIONS) 0, payload_start, False) of
        None \<Rightarrow> Panic
      | Some (Inl e) \<Rightarrow> Err e
      | Some (Inr (seen_kinds, previous_end, has_command_stream)) \<Rightarrow>
     (case validate_tail H bytes total_bytes previous_end has_command_stream of
        None \<Rightarrow> Panic
      | Some (Inl e) \<Rightarrow> Err e
      | Some (Inr _) \<Rightarrow> map_option Inr (read_frame bytes flags section_count))))"

section \<open>Accessors of a validated frame\<close>

text \<open>
  \<open>sections\<close> is an iterator; \<open>command_stream\<close> and \<open>references_resources\<close> stop at
  the first match, so they are recursions of their own that read no later entry.
\<close>

definition section_at :: "u8 list \<Rightarrow> nat \<Rightarrow> wire_section option" where
  "section_at bytes index = do {
     let entry = table_entry index;
     kind \<leftarrow> read_u32 bytes entry;
     offset \<leftarrow> read_u32 bytes (entry + 4);
     len \<leftarrow> read_u32 bytes (entry + 8);
     item_count \<leftarrow> read_u32 bytes (entry + 12);
     payload \<leftarrow> slice bytes (unat offset) (unat offset + unat len);
     Some \<lparr>sec_kind = kind, sec_item_count = item_count, sec_bytes = payload\<rparr>
   }"

fun sections_from :: "u8 list \<Rightarrow> nat \<Rightarrow> nat \<Rightarrow> wire_section list option" where
  "sections_from bytes 0 index = Some []"
| "sections_from bytes (Suc n) index = do {
     s \<leftarrow> section_at bytes index;
     rest \<leftarrow> sections_from bytes n (index + 1);
     Some (s # rest)
   }"

definition wf_sections :: "wire_frame \<Rightarrow> wire_section list option" where
  "wf_sections f = sections_from (wf_bytes f) (unat (wf_section_count f)) 0"

fun find_section :: "u8 list \<Rightarrow> u32 \<Rightarrow> nat \<Rightarrow> nat \<Rightarrow> wire_section option option" where
  "find_section bytes kind 0 index = Some None"
| "find_section bytes kind (Suc n) index = do {
     s \<leftarrow> section_at bytes index;
     if sec_kind s = kind then Some (Some s) else find_section bytes kind n (index + 1)
   }"

definition wf_command_stream :: "wire_frame \<Rightarrow> wire_section option option" where
  "wf_command_stream f =
     find_section (wf_bytes f) SECTION_KIND_COMMAND_STREAM (unat (wf_section_count f)) 0"

definition wf_references_resources :: "wire_frame \<Rightarrow> bool option" where
  "wf_references_resources f =
     map_option (\<lambda>r. r \<noteq> None)
       (find_section (wf_bytes f) SECTION_KIND_RESOURCE_REFERENCES (unat (wf_section_count f)) 0)"

section \<open>Reading stays in range\<close>

lemma read_u32_Some [simp]:
  assumes "at + 4 \<le> length bytes"
  shows "read_u32 bytes at = Some (from_le_bytes (take 4 (drop at bytes)))"
proof -
  have "take 4 (drop at bytes) = [bytes ! at, bytes ! (at + 1), bytes ! (at + 2), bytes ! (at + 3)]"
    using assms by (simp add: take_Suc_conv_app_nth numeral_eq_Suc)
  then show ?thesis
    using assms by (simp add: read_u32_def)
qed

lemma read_u64_Some [simp]:
  "at + 8 \<le> length bytes \<Longrightarrow> read_u64 bytes at = Some (from_le_bytes (take 8 (drop at bytes)))"
  by (simp add: read_u64_def)

lemma read_u128_Some [simp]:
  "at + 16 \<le> length bytes \<Longrightarrow> read_u128 bytes at = Some (from_le_bytes (take 16 (drop at bytes)))"
  by (simp add: read_u128_def)

lemma checksum_total: "\<exists>v. checksum H bytes = Some v"
  by (simp add: checksum_def Let_def)

lemma stamp_checksum_total: "\<exists>bs. stamp_checksum H bytes = Some bs"
  using checksum_total [of H bytes] by (auto simp: stamp_checksum_def put_slice_def)

lemma table_entry_eq: "index \<le> 8 \<Longrightarrow> table_entry index = 80 + 16 * index"
  by (simp add: table_entry_def unat_word_ariths unat_of_nat)

lemma unat_and_not_7: "unat (s AND - 8 :: u32) = unat s div 8 * 8"
proof -
  have "s AND NOT (mask 3) = push_bit 3 (drop_bit 3 s)"
    by (auto intro!: bit_word_eqI simp: bit_simps)
  moreover have "(- 8 :: u32) = NOT (mask 3)" by (simp add: mask_eq_decr_exp)
  moreover have "unat (push_bit 3 (drop_bit 3 s) :: u32) = unat s div 8 * 8"
  proof -
    have "unat s div 8 * 8 < 2 ^ 32"
      using unat_bound [of s] by simp
    then show ?thesis
      by (simp add: push_bit_eq_mult drop_bit_eq_div unat_word_ariths unat_div mult.commute)
  qed
  ultimately show ?thesis by (simp only:)
qed

lemma align_up_Some_iff:
  "align_up v = Some w \<longleftrightarrow> unat v + 7 < 2 ^ 32 \<and> unat w = (unat v + 7) div 8 * 8"
proof -
  have *: "unat (v + 7) = unat v + 7" if "unat v + 7 < 2 ^ 32"
    using that by (simp add: unat_word_ariths)
  show ?thesis
  proof (cases "unat v + 7 < 2 ^ 32")
    case True
    then show ?thesis
      using * [OF True]
      by (auto simp: align_up_def checked_add_def word_unat_eq_iff unat_and_not_7)
  next
    case False
    then show ?thesis by (simp add: align_up_def checked_add_def)
  qed
qed

section \<open>What the header checks and one section check establish\<close>

abbreviation (input) u32_at :: "u8 list \<Rightarrow> nat \<Rightarrow> u32" where
  "u32_at bytes at \<equiv> from_le_bytes (take 4 (drop at bytes))"

definition align8 :: "nat \<Rightarrow> nat" where
  "align8 n = (n + 7) div 8 * 8"

lemma align8_ge: "n \<le> align8 n" and align8_lt: "align8 n < n + 8"
  by (simp_all add: align8_def)

lemma align8_fix: "n mod 8 = 0 \<Longrightarrow> align8 n = n"
  by (auto simp: align8_def)

lemma flags_present_only:
  "(flags AND NOT FLAG_KNOWN_MASK = 0 \<and> flags AND FLAG_PRESENT \<noteq> 0) \<longleftrightarrow> flags = 1"
proof
  assume *: "flags AND NOT FLAG_KNOWN_MASK = 0 \<and> flags AND FLAG_PRESENT \<noteq> 0"
  have "flags = (flags AND 1) OR (flags AND NOT 1)"
    by (rule bit_word_eqI) (auto simp: bit_simps)
  with * have "flags = flags AND 1" by simp
  moreover have "flags AND 1 = 0 \<or> flags AND 1 = 1"
    by (cases "even flags") (simp_all add: and_one_eq mod_2_eq_odd)
  ultimately show "flags = 1" using * by metis
qed simp

lemma validate_header_no_panic: "validate_header bytes \<noteq> Panic"
  by (auto simp: validate_header_def split: option.split)

lemma validate_header_Ok_iff:
  "validate_header bytes = Ok (tot, flags, count, start) \<longleftrightarrow>
     80 \<le> length bytes \<and> length bytes \<le> 4194304 \<and>
     u32_at bytes OFF_MAGIC = WIRE_MAGIC \<and> u32_at bytes OFF_WIRE_VERSION = WIRE_VERSION \<and>
     u32_at bytes OFF_HEADER_BYTES = HEADER_BYTES \<and>
     u32_at bytes OFF_TOTAL_BYTES = tot \<and> unat tot = length bytes \<and>
     u32_at bytes OFF_FLAGS = flags \<and> flags = 1 \<and>
     u32_at bytes OFF_SECTION_COUNT = count \<and> unat count \<le> 8 \<and>
     unat start = 80 + 16 * unat count \<and> unat start \<le> length bytes"
  (is "?L \<longleftrightarrow> ?R")
proof -
  have flags: "(if x AND NOT 1 \<noteq> 0 then Err UnknownFlags
                else if x AND 1 = 0 then Err MissingPresent else k) = Ok r
               \<longleftrightarrow> x = 1 \<and> k = Ok r" for x :: u32 and k :: "(wire_error, 'a) rust_result" and r
    using flags_present_only [of x] by auto
  have table: "(case checked_mul c SECTION_ENTRY_BYTES of
           None \<Rightarrow> Err SectionTableOutOfBounds
         | Some table_bytes \<Rightarrow>
        (case checked_add HEADER_BYTES table_bytes of
           None \<Rightarrow> Err SectionTableOutOfBounds
         | Some payload_start \<Rightarrow>
             if payload_start > t then Err SectionTableOutOfBounds
             else Ok (t, f, c, payload_start))) = Ok (tot, flags, count, start)
      \<longleftrightarrow> t = tot \<and> f = flags \<and> c = count \<and> unat start = 80 + 16 * unat count
          \<and> unat start \<le> unat tot" if "unat c \<le> 8" for c t f
  proof -
    have "checked_mul c SECTION_ENTRY_BYTES = Some (c * 16)"
      and u: "unat (c * 16) = 16 * unat c"
      using that by (simp_all add: checked_mul_def unat_word_ariths)
    moreover have "checked_add HEADER_BYTES (c * 16) = Some (80 + c * 16)"
      and "unat (80 + c * 16) = 80 + 16 * unat c"
      using that u by (simp_all add: checked_add_def unat_word_ariths)
    ultimately show ?thesis
      by (auto simp: word_less_nat_alt word_unat_eq_iff)
  qed
  show ?thesis
    by (simp add: validate_header_def flags table word_less_nat_alt word_le_nat_alt
        del: bit.compl_one cong: conj_cong)
      (use flags_present_only [of "u32_at bytes OFF_FLAGS"] in \<open>auto simp: word_le_nat_alt\<close>)
qed

definition entry_ok :: "u8 list \<Rightarrow> nat \<Rightarrow> u32 list \<Rightarrow> u32 \<Rightarrow> u32 \<Rightarrow> bool" where
  "entry_ok bytes index seen prev prev' \<longleftrightarrow>
     (let entry = 80 + 16 * index;
          kind = u32_at bytes entry;
          offset = u32_at bytes (entry + 4);
          len = u32_at bytes (entry + 8);
          item_count = u32_at bytes (entry + 12)
      in (kind < SECTION_KIND_ADVISORY_BIT \<longrightarrow> known_required kind) \<and>
         kind \<notin> set (take index seen) \<and>
         unat prev + 7 < 2 ^ 32 \<and> unat offset = align8 (unat prev) \<and>
         unat prev' = unat offset + unat len \<and> unat prev' \<le> length bytes \<and>
         list_all (\<lambda>b. b = 0) (take (unat offset - unat prev) (drop (unat prev) bytes)) \<and>
         check_item_count kind len item_count = None)"

lemma case_align_up:
  "(case align_up prev of None \<Rightarrow> Err e | Some expected \<Rightarrow>
      if offset \<noteq> expected then Err e else k) = Ok r
   \<longleftrightarrow> unat prev + 7 < 2 ^ 32 \<and> unat offset = align8 (unat prev) \<and> k = Ok r"
proof (cases "align_up prev")
  case None
  then have "\<not> (unat prev + 7 < 2 ^ 32 \<and> unat offset = align8 (unat prev))"
    using align_up_Some_iff [of prev offset] by (simp add: align8_def)
  with None show ?thesis by auto
next
  case (Some w)
  then have "offset = w \<longleftrightarrow> unat prev + 7 < 2 ^ 32 \<and> unat offset = align8 (unat prev)"
    using align_up_Some_iff [of prev offset] by (auto simp: align8_def)
  with Some show ?thesis by auto
qed

lemma case_section_end:
  "(case checked_add offset len of None \<Rightarrow> Err e | Some stop \<Rightarrow>
      if stop > tot then Err e else k stop) = Ok r
   \<longleftrightarrow> (\<exists>stop. unat stop = unat offset + unat len \<and> unat stop \<le> unat tot \<and> k stop = Ok r)"
  for offset len tot :: u32
proof (cases "checked_add offset len")
  case None
  have "\<not> (\<exists>stop :: u32. unat stop = unat offset + unat len)"
    using None checked_add_Some_iff [of offset len] by (metis option.distinct(1))
  with None show ?thesis by simp
next
  case (Some x)
  then have "unat stop = unat offset + unat len \<longleftrightarrow> stop = x" for stop
    using checked_add_Some_iff [of offset len] by (auto simp: word_unat_eq_iff)
  with Some show ?thesis by (auto simp: word_less_nat_alt)
qed

lemma validate_section_Ok_iff:
  assumes "80 + 16 * (index + 1) \<le> length bytes" and "index < 8" and "length seen = 8"
    and "unat tot = length bytes"
  shows "validate_section bytes tot index (seen, prev, has) = Ok (seen', prev', has') \<longleftrightarrow>
     entry_ok bytes index seen prev prev' \<and> seen' = seen[index := u32_at bytes (80 + 16 * index)] \<and>
     has' = (has \<or> u32_at bytes (80 + 16 * index) = SECTION_KIND_COMMAND_STREAM)"
proof -
  let ?k = "u32_at bytes (80 + 16 * index)"
  have put: "put_slice seen index [?k] = Some (seen[index := ?k])"
    using assms by (simp add: put_slice_def upd_conv_take_nth_drop)
  have gap: "Option.bind (slice bytes a b) f = Ok r \<longleftrightarrow> f (take (b - a) (drop a bytes)) = Ok r"
    if "a \<le> b" "b \<le> length bytes" for a b and f :: "u8 list \<Rightarrow> (wire_error, loop_state) rust_result" and r
    using that by simp
  have entry: "table_entry index = 80 + 16 * index"
    using assms by (simp add: table_entry_eq)
  show ?thesis
    unfolding validate_section_def entry
    using assms align8_ge [of "unat prev"]
    by (simp add: put case_align_up case_section_end entry_ok_def Let_def cong: conj_cong)
      blast
qed

lemma validate_section_no_panic:
  assumes "80 + 16 * (index + 1) \<le> length bytes" and "index < 8" and "length seen = 8"
    and "unat tot = length bytes"
  shows "validate_section bytes tot index (seen, prev, has) \<noteq> Panic"
proof -
  have put: "put_slice seen index [k] \<noteq> None" for k
    using assms by (simp add: put_slice_def)
  show ?thesis
    using assms align8_ge [of "unat prev"]
    by (auto simp: validate_section_def table_entry_eq Let_def put_slice_def align_up_Some_iff
        checked_add_Some_iff word_less_nat_alt align8_def split: option.split)
qed

lemma seen_after: "index < length seen \<Longrightarrow> take (Suc index) (seen[index := k]) = take index seen @ [k]"
  by (simp add: take_Suc_conv_app_nth)

text \<open>The whole section loop, as a recursion on the entries that remain.\<close>

fun entries_ok :: "u8 list \<Rightarrow> nat \<Rightarrow> nat \<Rightarrow> u32 list \<Rightarrow> u32 \<Rightarrow> u32 \<Rightarrow> bool" where
  "entries_ok bytes 0 index seen prev prev' = (prev' = prev)"
| "entries_ok bytes (Suc n) index seen prev prev' =
     (\<exists>mid. entry_ok bytes index seen prev mid \<and>
        entries_ok bytes n (index + 1) (seen[index := u32_at bytes (80 + 16 * index)]) mid prev')"

definition entry_kinds :: "u8 list \<Rightarrow> nat \<Rightarrow> nat \<Rightarrow> u32 list" where
  "entry_kinds bytes index n = map (\<lambda>i. u32_at bytes (80 + 16 * i)) [index..<index + n]"

lemma entry_kinds_Suc:
  "entry_kinds bytes index (Suc n) = u32_at bytes (80 + 16 * index) # entry_kinds bytes (index + 1) n"
  by (simp add: entry_kinds_def upt_rec)

lemma validate_sections_Suc_Ok_iff:
  "validate_sections bytes tot (Suc n) index st = Ok r \<longleftrightarrow>
     (\<exists>st'. validate_section bytes tot index st = Ok st' \<and>
            validate_sections bytes tot n (index + 1) st' = Ok r)"
  by (cases "validate_section bytes tot index st") (auto split: sum.splits)

lemma validate_sections_Ok_iff:
  assumes "80 + 16 * (index + n) \<le> length bytes" and "index + n \<le> 8" and "length seen = 8"
    and "unat tot = length bytes"
  shows "(\<exists>seen'. validate_sections bytes tot n index (seen, prev, has) = Ok (seen', prev', has'))
     \<longleftrightarrow> entries_ok bytes n index seen prev prev' \<and>
         has' = (has \<or> SECTION_KIND_COMMAND_STREAM \<in> set (entry_kinds bytes index n))"
  using assms
proof (induction n arbitrary: index seen prev has)
  case 0
  then show ?case by (auto simp: entry_kinds_def)
next
  case (Suc n)
  let ?seen = "seen[index := u32_at bytes (80 + 16 * index)]"
  let ?has = "has \<or> u32_at bytes (80 + 16 * index) = SECTION_KIND_COMMAND_STREAM"
  have step: "validate_section bytes tot index (seen, prev, has) = Ok (s, mid, h)
      \<longleftrightarrow> entry_ok bytes index seen prev mid \<and> s = ?seen \<and> h = ?has" for s mid h
    using Suc.prems by (intro validate_section_Ok_iff) auto
  have IH: "(\<exists>seen'. validate_sections bytes tot n (index + 1) (?seen, mid, ?has) = Ok (seen', prev', has'))
     \<longleftrightarrow> entries_ok bytes n (index + 1) ?seen mid prev' \<and>
         has' = (?has \<or> SECTION_KIND_COMMAND_STREAM \<in> set (entry_kinds bytes (index + 1) n))" for mid
    using Suc.prems by (intro Suc.IH) auto
  have "(\<exists>seen'. validate_sections bytes tot (Suc n) index (seen, prev, has) = Ok (seen', prev', has'))
      \<longleftrightarrow> (\<exists>mid. entry_ok bytes index seen prev mid \<and>
            (\<exists>seen'. validate_sections bytes tot n (index + 1) (?seen, mid, ?has) = Ok (seen', prev', has')))"
    by (simp only: validate_sections_Suc_Ok_iff split_paired_Ex step) blast
  then show ?case
    using IH by (auto simp: entry_kinds_Suc)
qed

lemma validate_section_seen:
  assumes "80 + 16 * (index + 1) \<le> length bytes" and "index < 8" and "length seen = 8"
    and "unat tot = length bytes"
    and "validate_section bytes tot index (seen, prev, has) = Ok (seen', prev', has')"
  shows "length seen' = 8"
  using assms validate_section_Ok_iff [OF assms(1-4)] by auto

lemma validate_sections_no_panic:
  assumes "80 + 16 * (index + n) \<le> length bytes" and "index + n \<le> 8" and "length seen = 8"
    and "unat tot = length bytes"
  shows "validate_sections bytes tot n index (seen, prev, has) \<noteq> Panic"
  using assms
proof (induction n arbitrary: index seen prev has)
  case 0
  then show ?case by simp
next
  case (Suc n)
  have "validate_section bytes tot index (seen, prev, has) \<noteq> Panic"
    using Suc.prems by (intro validate_section_no_panic) auto
  moreover have "validate_sections bytes tot n (index + 1) (s, p, h) \<noteq> Panic"
    if "validate_section bytes tot index (seen, prev, has) = Ok (s, p, h)" for s p h
    using Suc.prems validate_section_seen [OF _ _ _ _ that] by (intro Suc.IH) auto
  ultimately show ?case
    by (auto split: sum.split)
qed

lemma validate_tail_Ok_iff:
  assumes "80 \<le> length bytes" and "unat tot = length bytes"
  shows "validate_tail H bytes tot prev has = Ok () \<longleftrightarrow>
     has \<and> unat prev + 7 < 2 ^ 32 \<and> length bytes = align8 (unat prev) \<and>
     list_all (\<lambda>b. b = 0) (drop (unat prev) bytes) \<and>
     checksum H bytes = Some (u32_at bytes OFF_CHECKSUM)"
proof -
  obtain c where c: "checksum H bytes = Some c"
    using checksum_total [of H bytes] by blast
  show ?thesis
    using assms align8_ge [of "unat prev"]
    by (simp add: validate_tail_def case_align_up c cong: conj_cong)
qed

lemma validate_tail_no_panic:
  assumes "80 \<le> length bytes" and "unat tot = length bytes"
  shows "validate_tail H bytes tot prev has \<noteq> Panic"
proof -
  obtain c where c: "checksum H bytes = Some c"
    using checksum_total [of H bytes] by blast
  show ?thesis
    using assms c
    by (auto simp: validate_tail_def align_up_Some_iff split: option.split)
qed

definition frame_of :: "u8 list \<Rightarrow> wire_frame" where
  "frame_of bytes =
     \<lparr>wf_bytes = bytes, wf_launch_nonce = from_le_bytes (take 16 (drop OFF_LAUNCH_NONCE bytes)),
      wf_sequence = from_le_bytes (take 8 (drop OFF_SEQUENCE bytes)),
      wf_runtime_generation = from_le_bytes (take 8 (drop OFF_RUNTIME_GENERATION bytes)),
      wf_surface_generation = from_le_bytes (take 8 (drop OFF_SURFACE_GENERATION bytes)),
      wf_resource_epoch = from_le_bytes (take 8 (drop OFF_RESOURCE_EPOCH bytes)),
      wf_frame_id = u32_at bytes OFF_FRAME_ID, wf_flags = u32_at bytes OFF_FLAGS,
      wf_section_count = u32_at bytes OFF_SECTION_COUNT\<rparr>"

text \<open>The envelope conditions of an accepted packet, with the loop spelled out.\<close>

definition envelope_ok :: "'h hasher \<Rightarrow> u8 list \<Rightarrow> bool" where
  "envelope_ok H bytes \<longleftrightarrow>
     80 \<le> length bytes \<and> length bytes \<le> 4194304 \<and>
     u32_at bytes OFF_MAGIC = WIRE_MAGIC \<and> u32_at bytes OFF_WIRE_VERSION = WIRE_VERSION \<and>
     u32_at bytes OFF_HEADER_BYTES = HEADER_BYTES \<and>
     unat (u32_at bytes OFF_TOTAL_BYTES) = length bytes \<and>
     u32_at bytes OFF_FLAGS = FLAG_PRESENT \<and>
     unat (u32_at bytes OFF_SECTION_COUNT) \<le> 8 \<and>
     80 + 16 * unat (u32_at bytes OFF_SECTION_COUNT) \<le> length bytes \<and>
     (\<exists>start prev. unat start = 80 + 16 * unat (u32_at bytes OFF_SECTION_COUNT) \<and>
        entries_ok bytes (unat (u32_at bytes OFF_SECTION_COUNT)) 0 (replicate 8 0) start prev \<and>
        unat prev + 7 < 2 ^ 32 \<and> length bytes = align8 (unat prev) \<and>
        list_all (\<lambda>b. b = 0) (drop (unat prev) bytes)) \<and>
     SECTION_KIND_COMMAND_STREAM \<in> set (entry_kinds bytes 0 (unat (u32_at bytes OFF_SECTION_COUNT))) \<and>
     checksum H bytes = Some (u32_at bytes OFF_CHECKSUM)"

lemma read_frame_total:
  "80 \<le> length bytes \<Longrightarrow>
   read_frame bytes (u32_at bytes OFF_FLAGS) (u32_at bytes OFF_SECTION_COUNT) = Some (frame_of bytes)"
  by (simp add: read_frame_def frame_of_def)

lemma validate_stages_Ok_iff:
  "validate H bytes = Ok f \<longleftrightarrow>
     (\<exists>tot flags n start seen prev has.
        validate_header bytes = Ok (tot, flags, n, start) \<and>
        validate_sections bytes tot (unat n) 0 (replicate 8 0, start, False) = Ok (seen, prev, has) \<and>
        validate_tail H bytes tot prev has = Ok () \<and>
        read_frame bytes flags n = Some f)"
  unfolding validate_def
  by (auto split: option.splits sum.splits)

lemma validate_Ok_iff: "validate H bytes = Ok f \<longleftrightarrow> envelope_ok H bytes \<and> f = frame_of bytes"
proof
  assume "validate H bytes = Ok f"
  then obtain tot flags n start seen prev has where
      hd: "validate_header bytes = Ok (tot, flags, n, start)" and
      secs: "validate_sections bytes tot (unat n) 0 (replicate 8 0, start, False) = Ok (seen, prev, has)" and
      tl: "validate_tail H bytes tot prev has = Ok ()" and
      fr: "read_frame bytes flags n = Some f"
    unfolding validate_stages_Ok_iff by blast
  note h = hd [unfolded validate_header_Ok_iff]
  have "entries_ok bytes (unat n) 0 (replicate 8 0) start prev \<and>
        has = (False \<or> SECTION_KIND_COMMAND_STREAM \<in> set (entry_kinds bytes 0 (unat n)))"
    using h secs by (intro validate_sections_Ok_iff [THEN iffD1]) auto
  moreover have "validate_tail H bytes tot prev has = Ok () \<longleftrightarrow>
     has \<and> unat prev + 7 < 2 ^ 32 \<and> length bytes = align8 (unat prev) \<and>
     list_all (\<lambda>b. b = 0) (drop (unat prev) bytes) \<and>
     checksum H bytes = Some (u32_at bytes OFF_CHECKSUM)"
    using h by (intro validate_tail_Ok_iff) auto
  moreover have "f = frame_of bytes"
    using fr read_frame_total [of bytes] h by simp
  ultimately show "envelope_ok H bytes \<and> f = frame_of bytes"
    using h tl unfolding envelope_ok_def by (simp del: One_nat_def) blast
next
  assume *: "envelope_ok H bytes \<and> f = frame_of bytes"
  let ?n = "u32_at bytes OFF_SECTION_COUNT" and ?t = "u32_at bytes OFF_TOTAL_BYTES"
  from * obtain start prev where
      st: "unat start = 80 + 16 * unat ?n" and
      en: "entries_ok bytes (unat ?n) 0 (replicate 8 0) start prev" and
      pr: "unat prev + 7 < 2 ^ 32" "length bytes = align8 (unat prev)"
          "list_all (\<lambda>b. b = 0) (drop (unat prev) bytes)"
    unfolding envelope_ok_def by blast
  have hd: "validate_header bytes = Ok (?t, u32_at bytes OFF_FLAGS, ?n, start)"
    using * st by (simp add: validate_header_Ok_iff envelope_ok_def)
  have "\<exists>seen. validate_sections bytes ?t (unat ?n) 0 (replicate 8 0, start, False) = Ok (seen, prev, True)"
    using * en by (intro validate_sections_Ok_iff [THEN iffD2]) (auto simp: envelope_ok_def)
  moreover have "validate_tail H bytes ?t prev True = Ok ()"
    using * pr by (intro validate_tail_Ok_iff [THEN iffD2]) (auto simp: envelope_ok_def)
  moreover have "read_frame bytes (u32_at bytes OFF_FLAGS) ?n = Some f"
    using * read_frame_total [of bytes] by (simp only: envelope_ok_def)
  ultimately show "validate H bytes = Ok f"
    using hd unfolding validate_stages_Ok_iff by blast
qed

lemma validate_no_panic: "validate H bytes \<noteq> Panic"
proof -
  have frame: "read_frame bytes flags n \<noteq> None" if "80 \<le> length bytes" for flags n
    using that by (simp add: read_frame_def)
  have loop: "validate_sections bytes tot (unat n) 0 (replicate 8 0, start, False) \<noteq> Panic"
    if "validate_header bytes = Ok (tot, flags, n, start)" for tot flags n start
    using that [unfolded validate_header_Ok_iff] by (intro validate_sections_no_panic) auto
  have tail: "validate_tail H bytes tot prev has \<noteq> Panic"
    if "validate_header bytes = Ok (tot, flags, n, start)" for tot flags n start prev has
    using that [unfolded validate_header_Ok_iff] by (intro validate_tail_no_panic) auto
  have len: "80 \<le> length bytes"
    if "validate_header bytes = Ok (tot, flags, n, start)" for tot flags n start
    using that [unfolded validate_header_Ok_iff] by blast
  show ?thesis
    using validate_header_no_panic [of bytes]
    unfolding validate_def
    by (auto split: option.split sum.split dest: loop tail frame [OF len])
qed

text \<open>
  Validation never panics: whatever bytes arrive, every index and slice of the
  validator is in range, so the result is a frame or a rejection code. This is the
  crate's stated contract for untrusted input.
\<close>

lemma validate_never_panics: "validate H bytes \<noteq> Panic"
  by (rule validate_no_panic)

end
