(* ===== verification/Vectors.thy ===== *)
theory Vectors
  imports Prelude "HOL-Library.Multiset"
begin

text \<open>
  Operations of \<open>Vec\<close> that reorder elements, as the buffer pool of the frame lane and the
  per-canvas tables of the renderer use them.
\<close>

text \<open>\<open>Vec::swap_remove\<close>: the last element takes the place of the removed one.\<close>

definition swap_remove :: "'a list \<Rightarrow> nat \<Rightarrow> 'a list" where
  "swap_remove xs i = butlast (xs[i := last xs])"

lemma mset_swap_remove:
  assumes "i < length xs"
  shows "add_mset (xs ! i) (mset (swap_remove xs i)) = mset xs"
proof -
  let ?ys = "xs[i := last xs]"
  have ne: "xs \<noteq> []" using assms by auto
  have l: "last ?ys = last xs" using ne assms by (simp add: last_list_update)
  have "mset (butlast ?ys @ [last ?ys]) = mset ?ys" using ne by (subst append_butlast_last_id) auto
  then have "add_mset (last xs) (mset (butlast ?ys)) = add_mset (last xs) (mset xs - {#xs ! i#})"
    using assms by (simp add: l mset_update)
  then show ?thesis using assms by (simp add: swap_remove_def)
qed

end
