(* ===== verification/Pool.thy ===== *)
theory Pool
  imports Wire_Packet Vectors
begin

text \<open>
  Credits and frame buffers: \<open>engine/crates/frame-wire/src/pool.rs\<close>. The credit
  window has its atomic operations as functions, and its compare-and-swap loops as
  a step relation over any number of threads. A buffer is a byte vector with the
  capacity the allocator gave it; the allocator is a parameter.
\<close>

section \<open>The credit window\<close>

record credit_window =
  cw_max :: u32
  cw_in_flight :: u32

definition credit_window_new :: "u32 \<Rightarrow> credit_window" where
  "credit_window_new mx = \<lparr>cw_max = mx, cw_in_flight = 0\<rparr>"

definition cw_remaining :: "credit_window \<Rightarrow> u32" where
  "cw_remaining w = saturating_sub (cw_max w) (cw_in_flight w)"

text \<open>The two operations as they act on the counter when they take effect.\<close>

definition try_acquire :: "credit_window \<Rightarrow> credit_window \<times> bool" where
  "try_acquire w =
     (if cw_in_flight w \<ge> cw_max w then (w, False)
      else (w\<lparr>cw_in_flight := cw_in_flight w + 1\<rparr>, True))"

definition credit_release :: "credit_window \<Rightarrow> credit_window" where
  "credit_release w =
     (if cw_in_flight w = 0 then w else w\<lparr>cw_in_flight := cw_in_flight w - 1\<rparr>)"

section \<open>Byte vectors\<close>

record vec_model =
  with_capacity :: "nat \<Rightarrow> nat"
  grown_capacity :: "nat \<Rightarrow> nat \<Rightarrow> nat"

record byte_vec =
  vec_bytes :: "u8 list"
  vec_capacity :: nat

definition vec_with_capacity :: "vec_model \<Rightarrow> nat \<Rightarrow> byte_vec" where
  "vec_with_capacity M wanted = \<lparr>vec_bytes = [], vec_capacity = with_capacity M wanted\<rparr>"

definition vec_clear :: "byte_vec \<Rightarrow> byte_vec" where
  "vec_clear v = v\<lparr>vec_bytes := []\<rparr>"

definition vec_extend :: "vec_model \<Rightarrow> byte_vec \<Rightarrow> u8 list \<Rightarrow> byte_vec" where
  "vec_extend M v source =
     (let n = length (vec_bytes v) + length source in
      \<lparr>vec_bytes = vec_bytes v @ source,
       vec_capacity = (if n \<le> vec_capacity v then vec_capacity v else grown_capacity M (vec_capacity v) n)\<rparr>)"

text \<open>What the standard library promises of an allocation: at least what was asked for.\<close>

definition vec_model_ok :: "vec_model \<Rightarrow> bool" where
  "vec_model_ok M \<longleftrightarrow> (\<forall>n. n \<le> with_capacity M n) \<and> (\<forall>c n. n \<le> grown_capacity M c n)"

section \<open>The pool\<close>

record frame_pool =
  pool_idle :: "byte_vec list"
  pool_max_idle :: nat
  pool_max_bytes :: nat
  pool_idle_bytes :: nat
  pool_allocations :: nat

definition frame_pool_new :: "nat \<Rightarrow> nat \<Rightarrow> frame_pool" where
  "frame_pool_new max_idle max_bytes =
     \<lparr>pool_idle = [], pool_max_idle = max_idle, pool_max_bytes = max_bytes,
      pool_idle_bytes = 0, pool_allocations = 0\<rparr>"

text \<open>\<open>min_by_key\<close> keeps the first of equal minima.\<close>

fun min_capacity :: "(nat \<times> byte_vec) list \<Rightarrow> (nat \<times> byte_vec) option" where
  "min_capacity [] = None"
| "min_capacity (x # xs) =
     (case min_capacity xs of
        None \<Rightarrow> Some x
      | Some y \<Rightarrow> if vec_capacity (snd y) < vec_capacity (snd x) then Some y else Some x)"

definition best_fit :: "byte_vec list \<Rightarrow> nat \<Rightarrow> nat option" where
  "best_fit idle wanted =
     map_option fst (min_capacity (filter (\<lambda>(_, buffer). vec_capacity buffer \<ge> wanted) (enumerate 0 idle)))"

definition usize_wrapping_sub :: "nat \<Rightarrow> nat \<Rightarrow> nat" where
  "usize_wrapping_sub a b = (a + (usize_max + 1) - b mod (usize_max + 1)) mod (usize_max + 1)"

definition usize_wrapping_add :: "nat \<Rightarrow> nat \<Rightarrow> nat" where
  "usize_wrapping_add a b = (a + b) mod (usize_max + 1)"

definition pool_acquire :: "vec_model \<Rightarrow> frame_pool \<Rightarrow> nat \<Rightarrow> frame_pool \<times> byte_vec option" where
  "pool_acquire M p wanted =
     (if wanted > pool_max_bytes p then (p, None)
      else case best_fit (pool_idle p) wanted of
        Some index \<Rightarrow>
          let buffer = pool_idle p ! index in
          (p\<lparr>pool_idle := swap_remove (pool_idle p) index,
             pool_idle_bytes := usize_wrapping_sub (pool_idle_bytes p) (vec_capacity buffer)\<rparr>,
           Some (vec_clear buffer))
      | None \<Rightarrow>
          (p\<lparr>pool_allocations := usize_wrapping_add (pool_allocations p) 1\<rparr>,
           Some (vec_with_capacity M wanted)))"

definition pool_release :: "frame_pool \<Rightarrow> byte_vec \<Rightarrow> frame_pool" where
  "pool_release p buffer =
     (if vec_capacity buffer > pool_max_bytes p then p
      else if length (pool_idle p) \<ge> pool_max_idle p then p
      else p\<lparr>pool_idle_bytes := usize_wrapping_add (pool_idle_bytes p) (vec_capacity buffer),
             pool_idle := pool_idle p @ [buffer]\<rparr>)"

section \<open>Accepted frames\<close>

text \<open>
  A frame holds its bytes and sequence number; the pool and the window it shares
  with the ingress are the state its operations act on.
\<close>

record pooled_frame =
  pf_buffer :: byte_vec
  pf_sequence :: u64

abbreviation pf_bytes :: "pooled_frame \<Rightarrow> u8 list" where
  "pf_bytes f \<equiv> vec_bytes (pf_buffer f)"

definition pooled_frame_new ::
    "vec_model \<Rightarrow> u8 list \<Rightarrow> frame_pool \<Rightarrow> u64 \<Rightarrow> frame_pool \<times> pooled_frame option" where
  "pooled_frame_new M source p sequence =
     (case pool_acquire M p (length source) of
        (p, None) \<Rightarrow> (p, None)
      | (p, Some bytes) \<Rightarrow>
          (p, Some \<lparr>pf_buffer = vec_extend M bytes source, pf_sequence = sequence\<rparr>))"

definition pooled_frame_frame :: "'h hasher \<Rightarrow> pooled_frame \<Rightarrow> (wire_error, wire_frame) rust_result" where
  "pooled_frame_frame H f = validate H (pf_bytes f)"

definition pooled_frame_drop ::
    "pooled_frame \<Rightarrow> credit_window \<times> frame_pool \<Rightarrow> credit_window \<times> frame_pool" where
  "pooled_frame_drop f = (\<lambda>(credits, p). (credit_release credits, pool_release p (pf_buffer f)))"

section \<open>The window under contention\<close>

text \<open>
  One thread's way through a credit: it loads the counter, finds the window full or
  tries the exchange, which succeeds only if the counter still has the loaded value
  and may fail without cause, in which case it goes round with the value observed.
  A thread that got a credit later gives it back the same way.
\<close>

datatype credit_pc =
    AcquireStart | AcquireLoaded u32 | Refused | Holding | ReleaseLoaded u32 | Returned

inductive credit_step :: "u32 \<Rightarrow> u32 \<times> credit_pc list \<Rightarrow> u32 \<times> credit_pc list \<Rightarrow> bool" for mx :: u32 where
  acquire_load: "i < length ts \<Longrightarrow> ts ! i = AcquireStart \<Longrightarrow>
     credit_step mx (n, ts) (n, ts[i := AcquireLoaded n])"
| acquire_full: "i < length ts \<Longrightarrow> ts ! i = AcquireLoaded current \<Longrightarrow> current \<ge> mx \<Longrightarrow>
     credit_step mx (n, ts) (n, ts[i := Refused])"
| acquire_exchange: "i < length ts \<Longrightarrow> ts ! i = AcquireLoaded current \<Longrightarrow> \<not> current \<ge> mx \<Longrightarrow> n = current \<Longrightarrow>
     credit_step mx (n, ts) (current + 1, ts[i := Holding])"
| acquire_retry: "i < length ts \<Longrightarrow> ts ! i = AcquireLoaded current \<Longrightarrow> \<not> current \<ge> mx \<Longrightarrow>
     credit_step mx (n, ts) (n, ts[i := AcquireLoaded n])"
| release_load: "i < length ts \<Longrightarrow> ts ! i = Holding \<Longrightarrow>
     credit_step mx (n, ts) (n, ts[i := ReleaseLoaded n])"
| release_zero: "i < length ts \<Longrightarrow> ts ! i = ReleaseLoaded current \<Longrightarrow> current = 0 \<Longrightarrow>
     credit_step mx (n, ts) (n, ts[i := Returned])"
| release_exchange: "i < length ts \<Longrightarrow> ts ! i = ReleaseLoaded current \<Longrightarrow> current \<noteq> 0 \<Longrightarrow> n = current \<Longrightarrow>
     credit_step mx (n, ts) (current - 1, ts[i := Returned])"
| release_retry: "i < length ts \<Longrightarrow> ts ! i = ReleaseLoaded current \<Longrightarrow> current \<noteq> 0 \<Longrightarrow>
     credit_step mx (n, ts) (n, ts[i := ReleaseLoaded n])"

definition holds_credit :: "credit_pc \<Rightarrow> bool" where
  "holds_credit pc \<longleftrightarrow> (case pc of Holding \<Rightarrow> True | ReleaseLoaded _ \<Rightarrow> True | _ \<Rightarrow> False)"

definition holders :: "credit_pc list \<Rightarrow> nat" where
  "holders ts = length (filter holds_credit ts)"

definition credit_inv :: "u32 \<Rightarrow> u32 \<times> credit_pc list \<Rightarrow> bool" where
  "credit_inv mx = (\<lambda>(n, ts). unat n = holders ts \<and> n \<le> mx \<and>
     list_all (\<lambda>pc. \<forall>c. pc = ReleaseLoaded c \<longrightarrow> c \<noteq> 0) ts)"

section \<open>The window never over-issues\<close>

lemma holders_update:
  "i < length ts \<Longrightarrow>
   holders (ts[i := pc]) + (if holds_credit (ts ! i) then 1 else 0) =
   holders ts + (if holds_credit pc then 1 else 0)"
  unfolding holders_def by (rule length_filter_update)

lemma holders_pos: "i < length ts \<Longrightarrow> holds_credit (ts ! i) \<Longrightarrow> 0 < holders ts"
  by (auto simp: holders_def filter_empty_conv)

lemma list_all_update: "list_all P ts \<Longrightarrow> P x \<Longrightarrow> list_all P (ts[i := x])"
  by (auto simp: list_all_iff dest: set_update_subset_insert [THEN subsetD])

lemma holds_credit_simps [simp]:
  "holds_credit Holding" "holds_credit (ReleaseLoaded c)"
  "\<not> holds_credit AcquireStart" "\<not> holds_credit (AcquireLoaded c)" "\<not> holds_credit Refused" "\<not> holds_credit Returned"
  by (simp_all add: holds_credit_def)

lemma credit_step_inv: "credit_step mx s s' \<Longrightarrow> credit_inv mx s \<Longrightarrow> credit_inv mx s'"
proof (induction rule: credit_step.induct)
  case (acquire_exchange i ts current n)
  have "unat (current + 1) = unat current + 1"
    using acquire_exchange unat_bound [of mx]
    by (simp add: unat_word_ariths not_le word_less_nat_alt)
  then show ?case
    using acquire_exchange holders_update [of i ts Holding]
    by (simp add: credit_inv_def list_all_update word_le_nat_alt not_le word_less_nat_alt)
next
  case (release_load i ts n)
  then have "n \<noteq> 0"
    using holders_pos [of i ts] by (auto simp: credit_inv_def)
  then show ?case
    using release_load holders_update [of i ts "ReleaseLoaded n"] by (simp add: credit_inv_def list_all_update)
next
  case (release_zero i ts current n)
  then show ?case by (auto simp: credit_inv_def list_all_length)
next
  case (release_exchange i ts current n)
  have "unat (current - 1) = unat current - 1"
    using release_exchange by (simp add: unat_minus_one)
  then show ?case
    using release_exchange holders_update [of i ts Returned]
    by (auto simp: credit_inv_def list_all_update word_le_nat_alt)
next
  case (release_retry i ts current n)
  then have "n \<noteq> 0"
    using holders_pos [of i ts] by (auto simp: credit_inv_def)
  then show ?case
    using release_retry holders_update [of i ts "ReleaseLoaded n"] by (simp add: credit_inv_def list_all_update)
next
  case (acquire_load i ts n)
  then show ?case
    using holders_update [of i ts "AcquireLoaded n"] by (simp add: credit_inv_def list_all_update)
next
  case (acquire_full i ts current n)
  then show ?case
    using holders_update [of i ts Refused] by (simp add: credit_inv_def list_all_update)
next
  case (acquire_retry i ts current n)
  then show ?case
    using holders_update [of i ts "AcquireLoaded n"] by (simp add: credit_inv_def list_all_update)
qed

text \<open>Every step is one of the atomic operations on the counter, or leaves it alone.\<close>

lemma credit_step_refines:
  assumes "credit_step mx (n, ts) (n', ts')"
  shows "n' = n \<or>
     try_acquire \<lparr>cw_max = mx, cw_in_flight = n\<rparr> = (\<lparr>cw_max = mx, cw_in_flight = n'\<rparr>, True) \<or>
     (n \<noteq> 0 \<and> credit_release \<lparr>cw_max = mx, cw_in_flight = n\<rparr> = \<lparr>cw_max = mx, cw_in_flight = n'\<rparr>)"
  using assms by cases (auto simp: try_acquire_def credit_release_def)

text \<open>
  The window as an interface, for the code that counts on it: a counter of credits
  with a limit, where taking one succeeds exactly below the limit. A client that
  gives back only what it holds keeps the counter at the number it holds.
\<close>

locale credit_account =
  fixes acquire :: "'w \<Rightarrow> 'w \<times> bool"
    and give_back :: "'w \<Rightarrow> 'w"
    and used :: "'w \<Rightarrow> nat"
    and limit :: "'w \<Rightarrow> nat"
  assumes acquire_full: "\<not> used w < limit w \<Longrightarrow> acquire w = (w, False)"
    and acquire_free: "used w < limit w \<Longrightarrow>
      \<exists>w'. acquire w = (w', True) \<and> used w' = used w + 1 \<and> limit w' = limit w"
    and give_back_used: "used (give_back w) = used w - 1"
    and give_back_limit: "limit (give_back w) = limit w"
begin

lemma acquire_ok_iff: "snd (acquire w) \<longleftrightarrow> used w < limit w"
  using acquire_full [of w] acquire_free [of w] by (cases "used w < limit w") auto

lemma acquire_keeps_limit: "limit (fst (acquire w)) = limit w"
  using acquire_full [of w] acquire_free [of w] by (cases "used w < limit w") auto

lemma acquire_used: "used (fst (acquire w)) = (if used w < limit w then used w + 1 else used w)"
  using acquire_full [of w] acquire_free [of w] by (cases "used w < limit w") auto

lemma acquire_bounded: "used w \<le> limit w \<Longrightarrow> used (fst (acquire w)) \<le> limit (fst (acquire w))"
  by (simp add: acquire_used acquire_keeps_limit)

lemma give_back_bounded: "used w \<le> limit w \<Longrightarrow> used (give_back w) \<le> limit (give_back w)"
  by (simp add: give_back_used give_back_limit)

end

interpretation window: credit_account try_acquire credit_release
  "\<lambda>w. unat (cw_in_flight w)" "\<lambda>w. unat (cw_max w)"
proof
  fix w :: credit_window
  show "try_acquire w = (w, False)" if "\<not> unat (cw_in_flight w) < unat (cw_max w)"
    using that by (simp add: try_acquire_def word_le_nat_alt)
  show "\<exists>w'. try_acquire w = (w', True) \<and> unat (cw_in_flight w') = unat (cw_in_flight w) + 1 \<and>
      unat (cw_max w') = unat (cw_max w)" if "unat (cw_in_flight w) < unat (cw_max w)"
    using that unat_bound [of "cw_max w"]
    by (simp add: try_acquire_def word_le_nat_alt unat_word_ariths)
  show "unat (cw_in_flight (credit_release w)) = unat (cw_in_flight w) - 1"
    by (simp add: credit_release_def unat_minus_one)
  show "unat (cw_max (credit_release w)) = unat (cw_max w)"
    by (simp add: credit_release_def)
qed

lemma unat_cw_remaining: "unat (cw_remaining w) = unat (cw_max w) - unat (cw_in_flight w)"
  by (simp add: cw_remaining_def unat_saturating_sub)

section \<open>The pool keeps its books\<close>

definition idle_capacity :: "byte_vec list \<Rightarrow> nat" where
  "idle_capacity bs = sum_list (map vec_capacity bs)"

definition pool_inv :: "frame_pool \<Rightarrow> bool" where
  "pool_inv p \<longleftrightarrow>
     length (pool_idle p) \<le> pool_max_idle p \<and>
     list_all (\<lambda>b. vec_capacity b \<le> pool_max_bytes p) (pool_idle p) \<and>
     pool_idle_bytes p = idle_capacity (pool_idle p) \<and>
     pool_max_idle p * pool_max_bytes p \<le> usize_max"

lemma min_capacity_None [simp]: "min_capacity xs = None \<longleftrightarrow> xs = []"
  by (cases xs) (auto split: option.splits)

lemma min_capacity_Some:
  "min_capacity xs = Some y \<Longrightarrow>
   y \<in> set xs \<and> (\<forall>x \<in> set xs. vec_capacity (snd y) \<le> vec_capacity (snd x))"
proof (induction xs arbitrary: y)
  case (Cons x xs)
  then show ?case
    by (fastforce split: option.splits if_splits)
qed simp

lemma best_fit_Some:
  assumes "best_fit idle wanted = Some i"
  shows "i < length idle" and "wanted \<le> vec_capacity (idle ! i)"
    and "b \<in> set idle \<Longrightarrow> wanted \<le> vec_capacity b \<Longrightarrow> vec_capacity (idle ! i) \<le> vec_capacity b"
proof -
  obtain b0 where m: "min_capacity (filter (\<lambda>(_, buffer). vec_capacity buffer \<ge> wanted) (enumerate 0 idle)) = Some (i, b0)"
    using assms by (auto simp: best_fit_def)
  note mem = min_capacity_Some [OF m]
  then have i: "i < length idle" "idle ! i = b0" "wanted \<le> vec_capacity b0"
    by (auto simp: in_set_enumerate_eq)
  then show "i < length idle" "wanted \<le> vec_capacity (idle ! i)" by simp_all
  show "vec_capacity (idle ! i) \<le> vec_capacity b" if b: "b \<in> set idle" "wanted \<le> vec_capacity b"
  proof -
    obtain j where "j < length idle" "idle ! j = b" using b(1) by (auto simp: in_set_conv_nth)
    then have "(j, b) \<in> set (filter (\<lambda>(_, buffer). vec_capacity buffer \<ge> wanted) (enumerate 0 idle))"
      using b(2) by (auto simp: in_set_enumerate_eq)
    then show ?thesis using mem i(2) by fastforce
  qed
qed

lemma best_fit_None: "best_fit idle wanted = None \<longleftrightarrow> (\<forall>b \<in> set idle. vec_capacity b < wanted)"
proof -
  have "best_fit idle wanted = None \<longleftrightarrow> (\<forall>x \<in> set (enumerate 0 idle). \<not> wanted \<le> vec_capacity (snd x))"
    by (auto simp: best_fit_def filter_empty_conv)
  also have "\<dots> \<longleftrightarrow> (\<forall>i < length idle. \<not> wanted \<le> vec_capacity (idle ! i))"
    by (simp add: all_set_conv_all_nth nth_enumerate_eq)
  also have "\<dots> \<longleftrightarrow> (\<forall>b \<in> set idle. vec_capacity b < wanted)"
    by (auto simp: all_set_conv_all_nth not_le)
  finally show ?thesis .
qed

lemma swap_remove_facts:
  assumes "i < length xs"
  shows "length (swap_remove xs i) + 1 = length xs" and "set (swap_remove xs i) \<subseteq> set xs"
proof -
  have "size (add_mset (xs ! i) (mset (swap_remove xs i))) = size (mset xs)"
    using mset_swap_remove [OF assms] by simp
  then show "length (swap_remove xs i) + 1 = length xs" by simp
  show "set (swap_remove xs i) \<subseteq> set xs"
    using mset_swap_remove [OF assms] by (metis set_mset_add_mset_insert set_mset_mset subset_insertI)
qed

lemma swap_remove_capacity:
  assumes "i < length xs"
  shows "idle_capacity (swap_remove xs i) + vec_capacity (xs ! i) = idle_capacity xs"
proof -
  have "sum_mset (image_mset vec_capacity (add_mset (xs ! i) (mset (swap_remove xs i)))) =
      sum_mset (image_mset vec_capacity (mset xs))"
    using mset_swap_remove [OF assms] by simp
  then show ?thesis
    by (simp add: idle_capacity_def sum_mset_sum_list [symmetric])
qed

lemma usize_wrapping_exact:
  "b \<le> a \<Longrightarrow> a \<le> usize_max \<Longrightarrow> usize_wrapping_sub a b = a - b"
  "a + b \<le> usize_max \<Longrightarrow> usize_wrapping_add a b = a + b"
proof -
  assume le: "b \<le> a" "a \<le> usize_max"
  then have "b mod (usize_max + 1) = b" and "a + (usize_max + 1) - b = a - b + (usize_max + 1)"
    by simp_all
  then have "usize_wrapping_sub a b = (a - b + (usize_max + 1)) mod (usize_max + 1)"
    by (simp only: usize_wrapping_sub_def)
  then show "usize_wrapping_sub a b = a - b"
    using le by (simp only: mod_add_self2) simp
qed (simp add: usize_wrapping_add_def)

lemma idle_capacity_bound:
  assumes "pool_inv p"
  shows "idle_capacity (pool_idle p) \<le> length (pool_idle p) * pool_max_bytes p"
proof -
  have "idle_capacity bs \<le> length bs * m" if "list_all (\<lambda>b. vec_capacity b \<le> m) bs" for bs m
    using that by (induction bs) (auto simp: idle_capacity_def)
  then show ?thesis using assms by (simp add: pool_inv_def)
qed

lemma pool_inv_bytes:
  assumes "pool_inv p"
  shows "pool_idle_bytes p \<le> pool_max_idle p * pool_max_bytes p" and "pool_idle_bytes p \<le> usize_max"
proof -
  have "length (pool_idle p) * pool_max_bytes p \<le> pool_max_idle p * pool_max_bytes p"
    using assms by (simp add: pool_inv_def)
  then show "pool_idle_bytes p \<le> pool_max_idle p * pool_max_bytes p"
    using assms idle_capacity_bound [OF assms] unfolding pool_inv_def by linarith
  then show "pool_idle_bytes p \<le> usize_max"
    using assms by (simp add: pool_inv_def)
qed

lemma pool_acquire_inv:
  assumes "pool_inv p"
  shows "pool_inv (fst (pool_acquire M p wanted))"
proof (cases "best_fit (pool_idle p) wanted")
  case (Some i)
  have "vec_capacity (pool_idle p ! i) \<le> pool_idle_bytes p"
    using assms swap_remove_capacity [OF best_fit_Some(1) [OF Some]] by (simp add: pool_inv_def)
  then have "usize_wrapping_sub (pool_idle_bytes p) (vec_capacity (pool_idle p ! i)) =
      idle_capacity (swap_remove (pool_idle p) i)"
    using pool_inv_bytes(2) [OF assms] swap_remove_capacity [OF best_fit_Some(1) [OF Some]] assms
    by (simp add: usize_wrapping_exact pool_inv_def)
  then show ?thesis
    using assms Some swap_remove_facts [OF best_fit_Some(1) [OF Some]]
    by (auto simp: pool_acquire_def pool_inv_def Let_def list_all_iff)
qed (use assms in \<open>auto simp: pool_acquire_def pool_inv_def\<close>)

lemma pool_acquire_limits [simp]:
  "pool_max_bytes (fst (pool_acquire M p wanted)) = pool_max_bytes p"
  "pool_max_idle (fst (pool_acquire M p wanted)) = pool_max_idle p"
  by (auto simp: pool_acquire_def Let_def split: option.splits)

lemma pool_release_limits [simp]:
  "pool_max_bytes (pool_release p b) = pool_max_bytes p" "pool_max_idle (pool_release p b) = pool_max_idle p"
  by (auto simp: pool_release_def)

lemma pool_release_inv:
  assumes "pool_inv p"
  shows "pool_inv (pool_release p b)"
proof (cases "vec_capacity b \<le> pool_max_bytes p \<and> length (pool_idle p) < pool_max_idle p")
  case True
  have "idle_capacity (pool_idle p) + vec_capacity b \<le> (length (pool_idle p) + 1) * pool_max_bytes p"
    using True idle_capacity_bound [OF assms] by simp
  also have "\<dots> \<le> pool_max_idle p * pool_max_bytes p"
    using True by (intro mult_le_mono1) simp
  also have "\<dots> \<le> usize_max"
    using assms by (simp add: pool_inv_def)
  finally have "usize_wrapping_add (pool_idle_bytes p) (vec_capacity b) = idle_capacity (pool_idle p @ [b])"
    using assms by (simp add: usize_wrapping_exact pool_inv_def idle_capacity_def)
  then show ?thesis
    using assms True by (simp add: pool_release_def pool_inv_def)
qed (use assms in \<open>auto simp: pool_release_def\<close>)

lemma pool_acquire_None_iff: "snd (pool_acquire M p wanted) = None \<longleftrightarrow> pool_max_bytes p < wanted"
  by (auto simp: pool_acquire_def Let_def split: option.splits)

lemma pool_acquire_buffer:
  assumes "vec_model_ok M" and "pool_acquire M p wanted = (p', Some b)"
  shows "vec_bytes b = [] \<and> wanted \<le> vec_capacity b"
  using assms best_fit_Some(2)
  by (auto simp: pool_acquire_def vec_model_ok_def vec_with_capacity_def vec_clear_def Let_def
      split: if_splits option.splits)

lemma pooled_frame_new_None_iff: "snd (pooled_frame_new M source p s) = None \<longleftrightarrow> pool_max_bytes p < length source"
  using pool_acquire_None_iff [of M p "length source"]
  by (auto simp: pooled_frame_new_def split: prod.splits option.splits)

lemma pooled_frame_new_pool: "fst (pooled_frame_new M source p s) = fst (pool_acquire M p (length source))"
  by (auto simp: pooled_frame_new_def split: prod.splits option.splits)

lemma pooled_frame_new_bytes:
  assumes "vec_model_ok M" and "pooled_frame_new M source p s = (p', Some f)"
  shows "pf_bytes f = source \<and> pf_sequence f = s \<and> length source \<le> vec_capacity (pf_buffer f)"
proof -
  obtain b where b: "pool_acquire M p (length source) = (p', Some b)" "f = \<lparr>pf_buffer = vec_extend M b source, pf_sequence = s\<rparr>"
    using assms(2) by (auto simp: pooled_frame_new_def split: prod.splits option.splits)
  then show ?thesis
    using pool_acquire_buffer [OF assms(1) b(1)] by (simp add: vec_extend_def)
qed

section \<open>Properties\<close>

text \<open>
  C32. The credit window is never exceeded, whatever the interleaving of the
  compare-and-swap loops: starting from an idle window, in every reachable state
  the counter is the number of threads that hold a credit and is at most the
  maximum, and no returning thread finds the counter at zero.
\<close>

theorem credit_window_safe:
  assumes "(credit_step mx)\<^sup>*\<^sup>* (0, replicate k AcquireStart) (n, ts)"
  shows "unat n = holders ts \<and> n \<le> mx \<and> ReleaseLoaded 0 \<notin> set ts"
proof -
  have "credit_inv mx (0, replicate k AcquireStart)"
    by (simp add: credit_inv_def holders_def list_all_iff)
  then have "credit_inv mx (n, ts)"
    by (rule rtranclp_induct [OF assms, of "credit_inv mx"]) (rule credit_step_inv)
  then show ?thesis
    by (auto simp: credit_inv_def list_all_iff)
qed

theorem credit_window_safe_witness:
  "unat (1 :: u32) = holders [Holding] \<and> (1 :: u32) \<le> 2 \<and> ReleaseLoaded 0 \<notin> set [Holding]"
proof (rule credit_window_safe [of 2 1 1 "[Holding]"])
  have "credit_step 2 (0, [AcquireStart]) (0, [AcquireLoaded 0])"
    using credit_step.acquire_load [of 0 "[AcquireStart]" 2 0] by simp
  moreover have "credit_step 2 (0, [AcquireLoaded 0]) (1, [Holding])"
    using credit_step.acquire_exchange [of 0 "[AcquireLoaded 0]" 0 2 0] by simp
  ultimately show "(credit_step 2)\<^sup>*\<^sup>* (0, replicate 1 AcquireStart) (1, [Holding])"
    by (simp add: rtranclp.rtrancl_into_rtrancl)
qed

text \<open>
  Copying a packet into the pool: it is refused exactly when the packet is
  above the ceiling; otherwise the frame holds the packet's bytes in a buffer that
  did not have to grow, and a new buffer is allocated only if no idle one is large
  enough. The pool's books stay exact, also when the frame's buffer comes back: at
  most the allowed number of idle buffers, none above the ceiling, the byte counter
  their summed capacity, never wrapped.
\<close>

lemma pool_copy_and_books:
  assumes "pool_inv p" and "vec_model_ok M" and "pooled_frame_new M source p s = (p', r)"
  shows "(r = None \<longleftrightarrow> pool_max_bytes p < length source) \<and> pool_inv p' \<and>
     pool_idle_bytes p' \<le> pool_max_idle p * pool_max_bytes p \<and>
     (\<forall>f. r = Some f \<longrightarrow> pf_bytes f = source \<and> pf_sequence f = s \<and>
        length source \<le> vec_capacity (pf_buffer f) \<and> pool_inv (pool_release p' (pf_buffer f))) \<and>
     (\<forall>b \<in> set (pool_idle p). length source \<le> vec_capacity b \<longrightarrow> pool_allocations p' = pool_allocations p)"
proof -
  have p': "p' = fst (pool_acquire M p (length source))"
    using assms(3) pooled_frame_new_pool [of M source p s] by simp
  have inv: "pool_inv p'"
    using assms(1) p' pool_acquire_inv by simp
  have "r = None \<longleftrightarrow> pool_max_bytes p < length source"
    using assms(3) pooled_frame_new_None_iff [of M source p s] by simp
  moreover have "pool_idle_bytes p' \<le> pool_max_idle p * pool_max_bytes p"
    using pool_inv_bytes(1) [OF inv] p' by simp
  moreover have "pool_allocations p' = pool_allocations p"
    if "b \<in> set (pool_idle p)" "length source \<le> vec_capacity b" for b
  proof -
    have "best_fit (pool_idle p) (length source) \<noteq> None"
      using that by (auto simp: best_fit_None not_less)
    then show ?thesis
      by (auto simp: p' pool_acquire_def Let_def)
  qed
  moreover have "pf_bytes f = source \<and> pf_sequence f = s \<and> length source \<le> vec_capacity (pf_buffer f)"
    if "r = Some f" for f
    using pooled_frame_new_bytes [OF assms(2)] assms(3) that by simp
  ultimately show ?thesis
    using inv pool_release_inv by blast
qed

lemma pool_copy_and_books_witness:
  "\<exists>p' f. pooled_frame_new \<lparr>with_capacity = (\<lambda>n. n), grown_capacity = (\<lambda>c n. n)\<rparr> [1, 2, 3] (frame_pool_new 3 4096) 7
       = (p', Some f) \<and> pf_bytes f = [1, 2, 3] \<and> pool_inv (pool_release p' (pf_buffer f))"
proof -
  let ?M = "\<lparr>with_capacity = (\<lambda>n. n), grown_capacity = (\<lambda>c n. n)\<rparr>"
  have "pool_inv (frame_pool_new 3 4096)"
    by (simp add: pool_inv_def frame_pool_new_def idle_capacity_def usize_max_def)
  moreover have "vec_model_ok ?M"
    by (simp add: vec_model_ok_def)
  moreover obtain p' r where r: "pooled_frame_new ?M [1, 2, 3] (frame_pool_new 3 4096) 7 = (p', r)"
    by fastforce
  ultimately have *: "(r = None \<longleftrightarrow> pool_max_bytes (frame_pool_new 3 4096) < length [1, 2, 3 :: u8]) \<and>
      (\<forall>f. r = Some f \<longrightarrow> pf_bytes f = [1, 2, 3] \<and> pool_inv (pool_release p' (pf_buffer f)))"
    using pool_copy_and_books by blast
  then have "r \<noteq> None"
    by (simp add: frame_pool_new_def)
  then show ?thesis
    using * r by auto
qed

end
