(* ===== verification/Wire_Builder.thy ===== *)
theory Wire_Builder
  imports Wire_Packet
begin

text \<open>
  The packet builder of \<open>engine/crates/frame-wire/src/builder.rs\<close>, and the
  canonical encoding the envelope promises: a list of sections has exactly one
  legal byte sequence. The encoding is stated as a concatenation
  (\<open>canonical\<close>); the lemmas relate it to the validator in both directions and to
  the builder, which writes into a pre-filled buffer.
\<close>

section \<open>The builder\<close>

record wire_builder =
  b_launch_nonce :: u128
  b_sequence :: u64
  b_runtime_generation :: u64
  b_surface_generation :: u64
  b_resource_epoch :: u64
  b_frame_id :: u32
  b_flags :: u32
  b_extra_gap :: u32
  b_pad_fill :: u8
  b_trailing_bytes :: u32
  b_sections :: "wire_section list"

definition builder_new :: wire_builder where
  "builder_new =
     \<lparr>b_launch_nonce = 0, b_sequence = 1, b_runtime_generation = 1, b_surface_generation = 0,
      b_resource_epoch = 0, b_frame_id = 1, b_flags = FLAG_PRESENT, b_extra_gap = 0,
      b_pad_fill = 0, b_trailing_bytes = 0, b_sections = []\<rparr>"

definition builder_section :: "wire_builder \<Rightarrow> u32 \<Rightarrow> u32 \<Rightarrow> u8 list \<Rightarrow> wire_builder" where
  "builder_section b kind item_count bytes =
     b\<lparr>b_sections := b_sections b @
        [\<lparr>sec_kind = kind, sec_item_count = item_count, sec_bytes = bytes\<rparr>]\<rparr>"

definition builder_align_up :: "u32 \<Rightarrow> u32" where
  "builder_align_up value =
     (value div SECTION_ALIGNMENT + (if value mod SECTION_ALIGNMENT = 0 then 0 else 1))
       * SECTION_ALIGNMENT"

definition put_u32 :: "u8 list \<Rightarrow> nat \<Rightarrow> u32 \<Rightarrow> u8 list option" where
  "put_u32 bytes at v = put_slice bytes at (to_le_bytes 4 v)"

definition put_u64 :: "u8 list \<Rightarrow> nat \<Rightarrow> u64 \<Rightarrow> u8 list option" where
  "put_u64 bytes at v = put_slice bytes at (to_le_bytes 8 v)"

definition put_u128 :: "u8 list \<Rightarrow> nat \<Rightarrow> u128 \<Rightarrow> u8 list option" where
  "put_u128 bytes at v = put_slice bytes at (to_le_bytes 16 v)"

fun layout :: "u32 \<Rightarrow> wire_section list \<Rightarrow> u32 \<Rightarrow> u32 list \<times> u32" where
  "layout extra_gap [] cursor = ([], cursor)"
| "layout extra_gap (s # ss) cursor =
     (let off = builder_align_up cursor + extra_gap;
          (offsets, stop) = layout extra_gap ss (off + word_of_nat (length (sec_bytes s)))
      in (off # offsets, stop))"

fun put_sections :: "u8 list \<Rightarrow> nat \<Rightarrow> wire_section list \<Rightarrow> u32 list \<Rightarrow> u8 list option" where
  "put_sections out index (s # ss) (offset # offsets) = do {
     let entry = unat HEADER_BYTES + index * unat SECTION_ENTRY_BYTES;
     out \<leftarrow> put_u32 out entry (sec_kind s);
     out \<leftarrow> put_u32 out (entry + 4) offset;
     out \<leftarrow> put_u32 out (entry + 8) (word_of_nat (length (sec_bytes s)));
     out \<leftarrow> put_u32 out (entry + 12) (sec_item_count s);
     out \<leftarrow> put_slice out (unat offset) (sec_bytes s);
     put_sections out (index + 1) ss offsets
   }"
| "put_sections out index ss offsets = Some out"

definition build :: "'h hasher \<Rightarrow> wire_builder \<Rightarrow> u8 list option" where
  "build H b = do {
     let n = (word_of_nat (length (b_sections b)) :: u32);
     let (offsets, cursor) = layout (b_extra_gap b) (b_sections b)
                               (HEADER_BYTES + n * SECTION_ENTRY_BYTES);
     let tot = builder_align_up cursor + b_trailing_bytes b;
     let out = replicate (unat tot) (b_pad_fill b);
     out \<leftarrow> put_u32 out OFF_MAGIC WIRE_MAGIC;
     out \<leftarrow> put_u32 out OFF_WIRE_VERSION WIRE_VERSION;
     out \<leftarrow> put_u32 out OFF_HEADER_BYTES HEADER_BYTES;
     out \<leftarrow> put_u32 out OFF_TOTAL_BYTES tot;
     out \<leftarrow> put_u128 out OFF_LAUNCH_NONCE (b_launch_nonce b);
     out \<leftarrow> put_u64 out OFF_SEQUENCE (b_sequence b);
     out \<leftarrow> put_u64 out OFF_RUNTIME_GENERATION (b_runtime_generation b);
     out \<leftarrow> put_u64 out OFF_SURFACE_GENERATION (b_surface_generation b);
     out \<leftarrow> put_u64 out OFF_RESOURCE_EPOCH (b_resource_epoch b);
     out \<leftarrow> put_u32 out OFF_FRAME_ID (b_frame_id b);
     out \<leftarrow> put_u32 out OFF_FLAGS (b_flags b);
     out \<leftarrow> put_u32 out OFF_SECTION_COUNT n;
     out \<leftarrow> put_sections out 0 (b_sections b) offsets;
     out \<leftarrow> put_u32 out OFF_CHECKSUM 0;
     stamp_checksum H out
   }"

section \<open>The canonical encoding\<close>

fun body_bytes :: "nat \<Rightarrow> wire_section list \<Rightarrow> u8 list" where
  "body_bytes cur [] = replicate (align8 cur - cur) 0"
| "body_bytes cur (s # ss) =
     replicate (align8 cur - cur) 0 @ sec_bytes s @ body_bytes (align8 cur + length (sec_bytes s)) ss"

fun table_bytes :: "nat \<Rightarrow> wire_section list \<Rightarrow> u8 list" where
  "table_bytes cur [] = []"
| "table_bytes cur (s # ss) =
     to_le_bytes 4 (sec_kind s) @ to_le_bytes 4 (word_of_nat (align8 cur) :: u32) @
     to_le_bytes 4 (word_of_nat (length (sec_bytes s)) :: u32) @ to_le_bytes 4 (sec_item_count s) @
     table_bytes (align8 cur + length (sec_bytes s)) ss"

fun body_end :: "nat \<Rightarrow> wire_section list \<Rightarrow> nat" where
  "body_end cur [] = cur"
| "body_end cur (s # ss) = body_end (align8 cur + length (sec_bytes s)) ss"

abbreviation (input) payload_start :: "wire_section list \<Rightarrow> nat" where
  "payload_start ss \<equiv> 80 + 16 * length ss"

definition packet_length :: "wire_builder \<Rightarrow> nat" where
  "packet_length b = align8 (body_end (payload_start (b_sections b)) (b_sections b))"

definition header_bytes :: "wire_builder \<Rightarrow> u32 \<Rightarrow> u8 list" where
  "header_bytes b ck =
     to_le_bytes 4 WIRE_MAGIC @ to_le_bytes 4 WIRE_VERSION @ to_le_bytes 4 HEADER_BYTES @
     to_le_bytes 4 (word_of_nat (packet_length b) :: u32) @
     to_le_bytes 16 (b_launch_nonce b) @ to_le_bytes 8 (b_sequence b) @
     to_le_bytes 8 (b_runtime_generation b) @ to_le_bytes 8 (b_surface_generation b) @
     to_le_bytes 8 (b_resource_epoch b) @ to_le_bytes 4 (b_frame_id b) @
     to_le_bytes 4 (b_flags b) @ to_le_bytes 4 (word_of_nat (length (b_sections b)) :: u32) @
     to_le_bytes 4 ck"

definition encode_with :: "wire_builder \<Rightarrow> u32 \<Rightarrow> u8 list" where
  "encode_with b ck =
     header_bytes b ck @ table_bytes (payload_start (b_sections b)) (b_sections b) @
     body_bytes (payload_start (b_sections b)) (b_sections b)"

definition canonical :: "'h hasher \<Rightarrow> wire_builder \<Rightarrow> u8 list" where
  "canonical H b = encode_with b (the (checksum H (encode_with b 0)))"

text \<open>What a section list and header must satisfy to be sent.\<close>

definition section_wf :: "wire_section \<Rightarrow> bool" where
  "section_wf s \<longleftrightarrow>
     (sec_kind s < SECTION_KIND_ADVISORY_BIT \<longrightarrow> known_required (sec_kind s)) \<and>
     check_item_count (sec_kind s) (word_of_nat (length (sec_bytes s))) (sec_item_count s) = None"

definition packet_wf :: "wire_builder \<Rightarrow> bool" where
  "packet_wf b \<longleftrightarrow>
     b_flags b = FLAG_PRESENT \<and> length (b_sections b) \<le> 8 \<and>
     distinct (map sec_kind (b_sections b)) \<and> list_all section_wf (b_sections b) \<and>
     SECTION_KIND_COMMAND_STREAM \<in> set (map sec_kind (b_sections b)) \<and>
     packet_length b \<le> unat MAX_TOTAL_BYTES"

text \<open>The header fields and sections a receiver reads, as builder input.\<close>

definition packet_of :: "wire_frame \<Rightarrow> wire_section list \<Rightarrow> wire_builder" where
  "packet_of f ss =
     \<lparr>b_launch_nonce = wf_launch_nonce f, b_sequence = wf_sequence f,
      b_runtime_generation = wf_runtime_generation f, b_surface_generation = wf_surface_generation f,
      b_resource_epoch = wf_resource_epoch f, b_frame_id = wf_frame_id f, b_flags = wf_flags f,
      b_extra_gap = 0, b_pad_fill = 0, b_trailing_bytes = 0, b_sections = ss\<rparr>"

section \<open>Lengths\<close>

lemma length_table_bytes [simp]: "length (table_bytes cur ss) = 16 * length ss"
  by (induction ss arbitrary: cur) auto

lemma length_header_bytes [simp]: "length (header_bytes b ck) = 80"
  by (simp add: header_bytes_def)

lemma body_end_ge: "cur \<le> body_end cur ss"
proof (induction ss arbitrary: cur)
  case (Cons s ss)
  have "cur \<le> align8 cur + length (sec_bytes s)"
    using align8_ge [of cur] by simp
  also have "\<dots> \<le> body_end \<dots> ss" by (rule Cons.IH)
  finally show ?case by simp
qed simp

lemma length_body_bytes: "length (body_bytes cur ss) = align8 (body_end cur ss) - cur"
proof (induction ss arbitrary: cur)
  case (Cons s ss)
  have "align8 cur + length (sec_bytes s) \<le> align8 (body_end (align8 cur + length (sec_bytes s)) ss)"
    using body_end_ge align8_ge order_trans by blast
  then show ?case
    using Cons align8_ge [of cur] by simp
qed simp

lemma length_encode_with: "length (encode_with b ck) = packet_length b"
proof -
  have "payload_start (b_sections b) \<le> packet_length b"
    unfolding packet_length_def using body_end_ge align8_ge order_trans by blast
  then show ?thesis
    by (simp add: encode_with_def length_body_bytes packet_length_def)
qed

section \<open>A valid packet is a canonical encoding\<close>

lemma le4_at: "at + 4 \<le> length bytes \<Longrightarrow> to_le_bytes 4 (u32_at bytes at) = take 4 (drop at bytes)"
  by (rule le32.enc_dec) simp

lemma entry_fields:
  assumes "x + 16 \<le> length bytes"
  shows "take 16 (drop x bytes) =
     to_le_bytes 4 (u32_at bytes x) @ to_le_bytes 4 (u32_at bytes (x + 4)) @
     to_le_bytes 4 (u32_at bytes (x + 8)) @ to_le_bytes 4 (u32_at bytes (x + 12))"
proof -
  have "take 16 (drop x bytes) =
      take 4 (drop x bytes) @ take 4 (drop (x + 4) bytes) @
      take 4 (drop (x + 8) bytes) @ take 4 (drop (x + 12) bytes)"
    using take_add [of 4 12 "drop x bytes"] take_add [of 4 8 "drop (x + 4) bytes"]
      take_add [of 4 4 "drop (x + 8) bytes"]
    by (simp add: add.commute)
  then show ?thesis
    using assms by (simp only: le4_at)
qed

lemma list_all_zero: "list_all (\<lambda>b. b = 0) xs \<Longrightarrow> xs = replicate (length xs) 0"
  by (induction xs) auto

lemma entry_ok_section:
  assumes ok: "entry_ok bytes i seen prev mid" and tab: "80 + 16 * (i + 1) \<le> length bytes" and "i < 8"
  obtains sec where
    "section_at bytes i = Some sec"
    and "sec_kind sec = u32_at bytes (80 + 16 * i)"
    and "unat mid = align8 (unat prev) + length (sec_bytes sec)"
    and "take 16 (drop (80 + 16 * i) bytes) =
           to_le_bytes 4 (sec_kind sec) @ to_le_bytes 4 (word_of_nat (align8 (unat prev)) :: u32) @
           to_le_bytes 4 (word_of_nat (length (sec_bytes sec)) :: u32) @ to_le_bytes 4 (sec_item_count sec)"
    and "drop (unat prev) bytes =
           replicate (align8 (unat prev) - unat prev) 0 @ sec_bytes sec @ drop (unat mid) bytes"
    and "section_wf sec"
proof -
  let ?x = "80 + 16 * i"
  let ?off = "u32_at bytes (?x + 4)" and ?len = "u32_at bytes (?x + 8)"
  let ?sec = "\<lparr>sec_kind = u32_at bytes ?x, sec_item_count = u32_at bytes (?x + 12),
               sec_bytes = take (unat ?len) (drop (unat ?off) bytes)\<rparr>"
  have off: "unat ?off = align8 (unat prev)" and mid: "unat mid = unat ?off + unat ?len"
    and le: "unat mid \<le> length bytes"
    and gap: "list_all (\<lambda>b. b = 0) (take (unat ?off - unat prev) (drop (unat prev) bytes))"
    and item: "check_item_count (u32_at bytes ?x) ?len (u32_at bytes (?x + 12)) = None"
    and kind: "u32_at bytes ?x < SECTION_KIND_ADVISORY_BIT \<longrightarrow> known_required (u32_at bytes ?x)"
    using ok unfolding entry_ok_def Let_def by blast+
  have len: "length (sec_bytes ?sec) = unat ?len"
    using mid le by simp
  have off_word: "word_of_nat (align8 (unat prev)) = ?off"
    by (simp flip: off)
  have len_word: "word_of_nat (length (sec_bytes ?sec)) = ?len"
    by (simp only: len) simp
  have zeros: "take (unat ?off - unat prev) (drop (unat prev) bytes) = replicate (unat ?off - unat prev) 0"
    using list_all_zero [OF gap] mid le by simp
  have "drop (unat prev) bytes =
      take (unat ?off - unat prev) (drop (unat prev) bytes) @ drop (unat ?off) bytes"
    using off align8_ge [of "unat prev"]
    by (metis append_take_drop_id drop_drop le_add_diff_inverse2)
  moreover have "drop (unat ?off) bytes = sec_bytes ?sec @ drop (unat mid) bytes"
    using mid by (simp add: add.commute flip: drop_drop)
  ultimately have body: "drop (unat prev) bytes =
      replicate (align8 (unat prev) - unat prev) 0 @ sec_bytes ?sec @ drop (unat mid) bytes"
    using zeros off by metis
  show thesis
  proof
    show "section_at bytes i = Some ?sec"
      using tab \<open>i < 8\<close> mid le by (simp add: section_at_def Let_def table_entry_eq)
    show "take 16 (drop (80 + 16 * i) bytes) =
           to_le_bytes 4 (sec_kind ?sec) @ to_le_bytes 4 (word_of_nat (align8 (unat prev)) :: u32) @
           to_le_bytes 4 (word_of_nat (length (sec_bytes ?sec)) :: u32) @ to_le_bytes 4 (sec_item_count ?sec)"
      using tab entry_fields [of ?x bytes] unfolding off_word len_word by simp
    show "section_wf ?sec"
      unfolding section_wf_def len_word using item kind by simp
  qed (use body len mid off in simp_all)
qed

lemma entries_ok_encoded:
  assumes "entries_ok bytes n i seen prev prev'"
    and "80 + 16 * (i + n) \<le> length bytes" and "i + n \<le> 8" and "length seen = 8"
    and "length bytes = align8 (unat prev')" and "list_all (\<lambda>b. b = 0) (drop (unat prev') bytes)"
  shows "\<exists>ss. sections_from bytes n i = Some ss \<and> length ss = n \<and>
     take (16 * n) (drop (80 + 16 * i) bytes) = table_bytes (unat prev) ss \<and>
     drop (unat prev) bytes = body_bytes (unat prev) ss \<and>
     body_end (unat prev) ss = unat prev' \<and> list_all section_wf ss \<and>
     map sec_kind ss = entry_kinds bytes i n \<and> distinct (take i seen @ map sec_kind ss) = distinct (take i seen)"
  using assms(1-4)
proof (induction n arbitrary: i seen prev)
  case 0
  then show ?case
    using list_all_zero [OF assms(6)] assms(5) by (auto simp: entry_kinds_def)
next
  case (Suc n)
  let ?k = "u32_at bytes (80 + 16 * i)"
  from Suc.prems obtain mid where
      ok: "entry_ok bytes i seen prev mid" and
      rest: "entries_ok bytes n (i + 1) (seen[i := ?k]) mid prev'"
    by auto
  obtain sec where sec: "section_at bytes i = Some sec" "sec_kind sec = ?k"
      "unat mid = align8 (unat prev) + length (sec_bytes sec)"
      "take 16 (drop (80 + 16 * i) bytes) =
         to_le_bytes 4 (sec_kind sec) @ to_le_bytes 4 (word_of_nat (align8 (unat prev)) :: u32) @
         to_le_bytes 4 (word_of_nat (length (sec_bytes sec)) :: u32) @ to_le_bytes 4 (sec_item_count sec)"
      "drop (unat prev) bytes =
         replicate (align8 (unat prev) - unat prev) 0 @ sec_bytes sec @ drop (unat mid) bytes"
      "section_wf sec"
    using ok by (rule entry_ok_section) (use Suc.prems in auto)
  have p: "80 + 16 * (i + 1 + n) \<le> length bytes" "i + 1 + n \<le> 8" "length (seen[i := ?k]) = 8"
    using Suc.prems by auto
  have "?k \<notin> set (take i seen)"
    using ok by (simp add: entry_ok_def Let_def)
  moreover have "take (i + 1) (seen[i := ?k]) = take i seen @ [?k]"
    using Suc.prems by (simp add: seen_after)
  moreover obtain ss where ss: "sections_from bytes n (i + 1) = Some ss" "length ss = n"
      "take (16 * n) (drop (80 + 16 * (i + 1)) bytes) = table_bytes (unat mid) ss"
      "drop (unat mid) bytes = body_bytes (unat mid) ss" "body_end (unat mid) ss = unat prev'"
      "list_all section_wf ss" "map sec_kind ss = entry_kinds bytes (i + 1) n"
      "distinct (take (i + 1) (seen[i := ?k]) @ map sec_kind ss) = distinct (take (i + 1) (seen[i := ?k]))"
    using Suc.IH [OF rest p] by blast
  ultimately have "distinct (take i seen @ map sec_kind (sec # ss)) = distinct (take i seen)"
    using sec(2) by auto
  moreover have "take (16 * Suc n) (drop (80 + 16 * i) bytes) = table_bytes (unat prev) (sec # ss)"
    using take_add [of 16 "16 * n" "drop (80 + 16 * i) bytes"] ss(3) sec(3,4)
    by (simp add: add.commute algebra_simps)
  ultimately show ?case
    using sec ss by (intro exI [of _ "sec # ss"]) (simp add: entry_kinds_Suc)
qed

lemma checksum_ignores_field:
  assumes "80 \<le> length xs" and "length xs = length ys"
    and "take 76 xs = take 76 ys" and "drop 80 xs = drop 80 ys"
  shows "checksum H xs = checksum H ys"
  using assms by (simp add: checksum_def Let_def)

lemma checksum_encode_with: "checksum H (encode_with b ck) = checksum H (encode_with b ck')"
proof (rule checksum_ignores_field)
  show "80 \<le> length (encode_with b ck)"
    by (simp add: encode_with_def)
  show "take 76 (encode_with b ck) = take 76 (encode_with b ck')"
    and "drop 80 (encode_with b ck) = drop 80 (encode_with b ck')"
    by (simp_all add: encode_with_def header_bytes_def)
qed (simp add: length_encode_with)

lemma canonical_checksum: "\<exists>ck. canonical H b = encode_with b ck \<and> checksum H (encode_with b ck) = Some ck"
  using checksum_total [of H "encode_with b 0"] checksum_encode_with [of H b]
  unfolding canonical_def by (metis option.sel)

lemma canonicalI:
  assumes "bs = encode_with b ck" and "checksum H bs = Some ck"
  shows "bs = canonical H b"
  using assms checksum_encode_with [of H b 0 ck] by (simp add: canonical_def)

lemma header_fields:
  assumes "80 \<le> length bs"
  shows "take 80 bs =
     to_le_bytes 4 (u32_at bs 0) @ to_le_bytes 4 (u32_at bs 4) @ to_le_bytes 4 (u32_at bs 8) @
     to_le_bytes 4 (u32_at bs 12) @
     to_le_bytes 16 (from_le_bytes (take 16 (drop 16 bs)) :: u128) @
     to_le_bytes 8 (from_le_bytes (take 8 (drop 32 bs)) :: u64) @
     to_le_bytes 8 (from_le_bytes (take 8 (drop 40 bs)) :: u64) @
     to_le_bytes 8 (from_le_bytes (take 8 (drop 48 bs)) :: u64) @
     to_le_bytes 8 (from_le_bytes (take 8 (drop 56 bs)) :: u64) @
     to_le_bytes 4 (u32_at bs 64) @ to_le_bytes 4 (u32_at bs 68) @ to_le_bytes 4 (u32_at bs 72) @
     to_le_bytes 4 (u32_at bs 76)"
proof -
  have split: "take (m + k) (drop a bs) = take m (drop a bs) @ take k (drop (a + m) bs)" for m k a
    by (simp add: take_add add.commute [of m a])
  have "take 80 bs = take 16 bs @ take 16 (drop 16 bs) @ take 32 (drop 32 bs) @ take 16 (drop 64 bs)"
    using split [of 16 64 0] split [of 16 48 16] split [of 32 16 32] by simp
  moreover have "take 16 bs =
      to_le_bytes 4 (u32_at bs 0) @ to_le_bytes 4 (u32_at bs 4) @ to_le_bytes 4 (u32_at bs 8) @
      to_le_bytes 4 (u32_at bs 12)"
    and "take 16 (drop 64 bs) =
      to_le_bytes 4 (u32_at bs 64) @ to_le_bytes 4 (u32_at bs 68) @ to_le_bytes 4 (u32_at bs 72) @
      to_le_bytes 4 (u32_at bs 76)"
    using assms entry_fields [of 0 bs] entry_fields [of 64 bs] by simp_all
  moreover have "take 32 (drop 32 bs) = take 8 (drop 32 bs) @ take 8 (drop 40 bs) @
      take 8 (drop 48 bs) @ take 8 (drop 56 bs)"
    using split [of 8 24 32] split [of 8 16 40] split [of 8 8 48] by simp
  ultimately show ?thesis
    using assms by (simp only: le64.enc_dec le128.enc_dec length_take length_drop) (simp add: le64.enc_dec le128.enc_dec)
qed

lemma valid_packet_encoded:
  assumes "validate H bs = Ok f"
  shows "\<exists>ss. wf_sections f = Some ss \<and> packet_wf (packet_of f ss) \<and> bs = canonical H (packet_of f ss)"
proof -
  let ?n = "u32_at bs OFF_SECTION_COUNT"
  have env: "envelope_ok H bs" and f: "f = frame_of bs"
    using assms by (simp_all add: validate_Ok_iff)
  obtain start prev where start: "unat start = 80 + 16 * unat ?n"
    and en: "entries_ok bs (unat ?n) 0 (replicate 8 0) start prev"
    and len: "length bs = align8 (unat prev)" and pad: "list_all (\<lambda>b. b = 0) (drop (unat prev) bs)"
    using env unfolding envelope_ok_def by blast
  have bnd: "80 \<le> length bs" "length bs \<le> 4194304" "unat ?n \<le> 8" "80 + 16 * unat ?n \<le> length bs"
    and magic: "u32_at bs 0 = WIRE_MAGIC" "u32_at bs 4 = WIRE_VERSION" "u32_at bs 8 = HEADER_BYTES"
      "u32_at bs 68 = FLAG_PRESENT"
    and cmd: "SECTION_KIND_COMMAND_STREAM \<in> set (entry_kinds bs 0 (unat ?n))"
    and ck: "checksum H bs = Some (u32_at bs OFF_CHECKSUM)"
    using env unfolding envelope_ok_def by blast+
  obtain ss where ss: "sections_from bs (unat ?n) 0 = Some ss" "length ss = unat ?n"
      "take (16 * unat ?n) (drop 80 bs) = table_bytes (unat start) ss"
      "drop (unat start) bs = body_bytes (unat start) ss"
      "body_end (unat start) ss = unat prev" "list_all section_wf ss"
      "map sec_kind ss = entry_kinds bs 0 (unat ?n)" "distinct (map sec_kind ss)"
    using entries_ok_encoded [OF en _ _ _ len pad] bnd by auto
  let ?b = "packet_of f ss"
  have plen: "packet_length ?b = length bs"
    using ss(2,5) start len by (simp add: packet_length_def packet_of_def)
  have n: "word_of_nat (length ss) = ?n"
    by (simp add: ss(2))
  have tot: "word_of_nat (length bs) = u32_at bs OFF_TOTAL_BYTES"
    using env unfolding envelope_ok_def by (metis of_nat_unat ucast_id)
  have hdr: "take 80 bs = header_bytes ?b (u32_at bs OFF_CHECKSUM)"
    unfolding header_fields [OF bnd(1)] header_bytes_def plen
    using magic(1) by (simp add: f frame_of_def packet_of_def magic(2-) n tot)
  have "bs = take 80 bs @ take (16 * unat ?n) (drop 80 bs) @ drop (80 + 16 * unat ?n) bs"
    using append_take_drop_id [of 80 bs] append_take_drop_id [of "16 * unat ?n" "drop 80 bs"]
    by (simp only: drop_drop add.commute)
  then have enc: "bs = encode_with ?b (u32_at bs OFF_CHECKSUM)"
    unfolding encode_with_def using hdr ss(2,3,4) start by (simp add: packet_of_def)
  have "packet_wf ?b"
    using bnd(2,3) ss(2,6,7,8) plen cmd magic(4)
    by (simp add: packet_wf_def packet_of_def f frame_of_def flip: set_map)
  moreover have "wf_sections f = Some ss"
    using ss(1) by (simp add: wf_sections_def f frame_of_def)
  ultimately show ?thesis
    using canonicalI [OF enc ck] by blast
qed

section \<open>A canonical encoding of a well-formed packet is valid\<close>

lemma read_entry:
  assumes "drop x bs = to_le_bytes 4 a @ to_le_bytes 4 b @ to_le_bytes 4 c @ to_le_bytes 4 d @ rest"
  shows "u32_at bs x = (a :: u32)" and "u32_at bs (x + 4) = (b :: u32)"
    and "u32_at bs (x + 8) = (c :: u32)" and "u32_at bs (x + 12) = (d :: u32)"
    and "drop (x + 16) bs = rest"
proof -
  have d: "drop (x + k) bs = drop k (drop x bs)" for k
    by (simp add: add.commute)
  show "u32_at bs x = a" "u32_at bs (x + 4) = b" "u32_at bs (x + 8) = c" "u32_at bs (x + 12) = d"
    "drop (x + 16) bs = rest"
    using assms by (simp_all add: d le32.dec_enc)
qed

lemma entries_ok_of_encoded:
  assumes "drop (80 + 16 * i) bs = table_bytes cur ss @ rest"
    and "drop cur bs = body_bytes cur ss"
    and "cur \<le> length bs" and "length bs \<le> 4194304"
    and "i + length ss \<le> 8" and "length seen = 8"
    and "list_all section_wf ss" and "distinct (take i seen @ map sec_kind ss)"
  shows "entries_ok bs (length ss) i seen (word_of_nat cur) (word_of_nat (body_end cur ss)) \<and>
     entry_kinds bs i (length ss) = map sec_kind ss \<and>
     sections_from bs (length ss) i = Some ss \<and>
     body_end cur ss \<le> length bs \<and> length bs = align8 (body_end cur ss) \<and>
     list_all (\<lambda>b. b = 0) (drop (body_end cur ss) bs)"
  using assms
proof (induction ss arbitrary: i cur seen)
  case Nil
  have "length (drop cur bs) = align8 cur - cur"
    using Nil.prems(2) by simp
  then have "length bs = align8 cur"
    using Nil.prems(3) align8_ge [of cur] by simp
  then show ?case
    using Nil.prems(2,3) by (auto simp: entry_kinds_def list_all_iff)
next
  case (Cons s ss)
  let ?mid = "align8 cur + length (sec_bytes s)"
  let ?seen = "seen[i := sec_kind s]"
  have "drop (80 + 16 * i) bs =
      to_le_bytes 4 (sec_kind s) @ to_le_bytes 4 (word_of_nat (align8 cur) :: u32) @
      to_le_bytes 4 (word_of_nat (length (sec_bytes s)) :: u32) @ to_le_bytes 4 (sec_item_count s) @
      (table_bytes ?mid ss @ rest)"
    using Cons.prems(1) by simp
  note ent = read_entry [OF this]
  have "length (drop cur bs) = length (body_bytes cur (s # ss))"
    using Cons.prems(2) by simp
  then have mid_le: "?mid \<le> length bs"
    using Cons.prems(3) align8_ge [of cur] by simp
  have body: "drop cur bs = replicate (align8 cur - cur) 0 @ sec_bytes s @ body_bytes ?mid ss"
    using Cons.prems(2) by simp
  have dropd: "drop a bs = drop (a - cur) (drop cur bs)" if "cur \<le> a" for a
    using that by simp
  have rest: "drop ?mid bs = body_bytes ?mid ss"
    using dropd [of ?mid] align8_ge [of cur] unfolding body by simp
  have pay: "take (length (sec_bytes s)) (drop (align8 cur) bs) = sec_bytes s"
    using dropd [of "align8 cur"] align8_ge [of cur] unfolding body by simp
  have gap: "list_all (\<lambda>b. b = 0) (take (align8 cur - cur) (drop cur bs))"
    unfolding body by (simp add: list_all_iff)
  have small: "a \<le> length bs \<Longrightarrow> unat (word_of_nat a :: u32) = a" for a
    using Cons.prems(4) by (simp add: unat_of_nat)
  have un: "unat (word_of_nat cur :: u32) = cur" "unat (word_of_nat (align8 cur) :: u32) = align8 cur"
    "unat (word_of_nat (length (sec_bytes s)) :: u32) = length (sec_bytes s)"
    "unat (word_of_nat ?mid :: u32) = ?mid"
    using mid_le Cons.prems(3) by (intro small; simp)+
  have wf: "section_wf s" and fresh: "sec_kind s \<notin> set (take i seen)"
    using Cons.prems(7,8) by auto
  have ok: "entry_ok bs i seen (word_of_nat cur) (word_of_nat ?mid)"
    unfolding entry_ok_def Let_def ent un
    using wf fresh gap mid_le Cons.prems(3,4) by (simp add: section_wf_def)
  have sec: "section_at bs i = Some s"
  proof -
    have "length (drop (80 + 16 * i) bs) \<ge> 16"
      using Cons.prems(1) by simp
    then have "80 + 16 * i + 16 \<le> length bs" by simp
    then show ?thesis
      using Cons.prems(5) ent un pay mid_le by (simp add: section_at_def Let_def table_entry_eq)
  qed
  have "entries_ok bs (length ss) (i + 1) ?seen (word_of_nat ?mid) (word_of_nat (body_end ?mid ss)) \<and>
     entry_kinds bs (i + 1) (length ss) = map sec_kind ss \<and>
     sections_from bs (length ss) (i + 1) = Some ss \<and>
     body_end ?mid ss \<le> length bs \<and> length bs = align8 (body_end ?mid ss) \<and>
     list_all (\<lambda>b. b = 0) (drop (body_end ?mid ss) bs)"
  proof (rule Cons.IH)
    show "drop (80 + 16 * (i + 1)) bs = table_bytes ?mid ss @ rest"
      using ent(5) by (simp add: algebra_simps)
    show "distinct (take (i + 1) ?seen @ map sec_kind ss)"
      using Cons.prems(5,6,8) by (simp add: seen_after)
  qed (use Cons.prems rest mid_le in auto)
  then show ?case
    using ok sec ent(1) by (auto simp: entry_kinds_Suc)
qed

lemma packet_length_ge: "payload_start (b_sections b) \<le> packet_length b"
  unfolding packet_length_def using body_end_ge align8_ge order_trans by blast

lemma encode_with_header:
  fixes b ck
  defines "bs \<equiv> encode_with b ck"
  shows "u32_at bs 0 = WIRE_MAGIC" "u32_at bs 4 = WIRE_VERSION" "u32_at bs 8 = HEADER_BYTES"
    "u32_at bs 12 = word_of_nat (packet_length b)"
    "from_le_bytes (take 16 (drop 16 bs)) = b_launch_nonce b"
    "from_le_bytes (take 8 (drop 32 bs)) = b_sequence b"
    "from_le_bytes (take 8 (drop 40 bs)) = b_runtime_generation b"
    "from_le_bytes (take 8 (drop 48 bs)) = b_surface_generation b"
    "from_le_bytes (take 8 (drop 56 bs)) = b_resource_epoch b"
    "u32_at bs 64 = b_frame_id b" "u32_at bs 68 = b_flags b"
    "u32_at bs 72 = word_of_nat (length (b_sections b))" "u32_at bs 76 = ck"
  unfolding bs_def encode_with_def header_bytes_def
  by (simp_all add: le32.dec_enc le64.dec_enc le128.dec_enc)

lemma canonical_valid:
  assumes "packet_wf b"
  shows "\<exists>f. validate H (canonical H b) = Ok f \<and> wf_sections f = Some (b_sections b) \<and>
     packet_of f (b_sections b) = b\<lparr>b_extra_gap := 0, b_pad_fill := 0, b_trailing_bytes := 0\<rparr>"
proof -
  let ?ss = "b_sections b" and ?cur = "payload_start (b_sections b)"
  obtain ck where can: "canonical H b = encode_with b ck" and ck: "checksum H (encode_with b ck) = Some ck"
    using canonical_checksum by blast
  let ?bs = "encode_with b ck"
  note hdr = encode_with_header [of b ck]
  have len: "length ?bs = packet_length b" "packet_length b \<le> 4194304" "?cur \<le> packet_length b"
    using assms packet_length_ge [of b] by (simp_all add: length_encode_with packet_wf_def)
  have wf: "length ?ss \<le> 8" "list_all section_wf ?ss" "distinct (map sec_kind ?ss)"
    "b_flags b = 1" "SECTION_KIND_COMMAND_STREAM \<in> set (map sec_kind ?ss)"
    using assms by (simp_all add: packet_wf_def)
  have n: "unat (word_of_nat (length ?ss) :: u32) = length ?ss"
    using wf(1) by (simp add: unat_of_nat)
  have small: "unat (word_of_nat a :: u32) = a" if "a \<le> packet_length b" for a
    using that len(2) by (simp add: unat_of_nat)
  have ent: "entries_ok ?bs (length ?ss) 0 (replicate 8 0) (word_of_nat ?cur) (word_of_nat (body_end ?cur ?ss)) \<and>
     entry_kinds ?bs 0 (length ?ss) = map sec_kind ?ss \<and>
     sections_from ?bs (length ?ss) 0 = Some ?ss \<and>
     body_end ?cur ?ss \<le> length ?bs \<and> length ?bs = align8 (body_end ?cur ?ss) \<and>
     list_all (\<lambda>b. b = 0) (drop (body_end ?cur ?ss) ?bs)"
  proof (rule entries_ok_of_encoded)
    show "drop (80 + 16 * 0) ?bs = table_bytes ?cur ?ss @ body_bytes ?cur ?ss"
      by (simp add: encode_with_def)
    show "drop ?cur ?bs = body_bytes ?cur ?ss"
      by (simp add: encode_with_def)
  qed (use wf len in simp_all)
  have "envelope_ok H ?bs"
    unfolding envelope_ok_def hdr n
  proof (intro conjI exI)
    show "unat (word_of_nat ?cur :: u32) = 80 + 16 * length ?ss"
      using small len(3) by blast
    show "unat (word_of_nat (packet_length b) :: u32) = length ?bs"
      using small len(1) by simp
    show "unat (word_of_nat (body_end ?cur ?ss) :: u32) + 7 < 2 ^ 32"
      "length ?bs = align8 (unat (word_of_nat (body_end ?cur ?ss) :: u32))"
      "list_all (\<lambda>b. b = 0) (drop (unat (word_of_nat (body_end ?cur ?ss) :: u32)) ?bs)"
      using small [of "body_end ?cur ?ss"] ent len by auto
  qed (use ent wf len ck in auto)
  moreover have "wf_sections (frame_of ?bs) = Some ?ss"
    using ent by (simp add: wf_sections_def frame_of_def hdr n)
  moreover have "packet_of (frame_of ?bs) ?ss = b\<lparr>b_extra_gap := 0, b_pad_fill := 0, b_trailing_bytes := 0\<rparr>"
    by (simp add: packet_of_def frame_of_def hdr)
  ultimately show ?thesis
    unfolding can validate_Ok_iff by blast
qed

section \<open>The builder writes the canonical encoding\<close>

fun section_offsets :: "nat \<Rightarrow> wire_section list \<Rightarrow> nat list" where
  "section_offsets cur [] = []"
| "section_offsets cur (s # ss) = align8 cur # section_offsets (align8 cur + length (sec_bytes s)) ss"

lemma builder_align_up_eq:
  assumes "align8 cur < 2 ^ 32"
  shows "builder_align_up (word_of_nat cur) = word_of_nat (align8 cur)"
proof -
  have cur: "unat (word_of_nat cur :: u32) = cur"
    using assms align8_ge [of cur] by (simp add: unat_of_nat)
  have "unat (word_of_nat cur mod 8 :: u32) = cur mod 8" "unat (word_of_nat cur div 8 :: u32) = cur div 8"
    by (simp_all add: unat_mod unat_div cur)
  moreover have "align8 cur = (cur div 8 + (if cur mod 8 = 0 then 0 else 1)) * 8"
    unfolding align8_def by (auto intro: Suc_double_not_eq_double) presburger+
  ultimately show ?thesis
    unfolding builder_align_up_def using assms
    by (auto simp: word_unat_eq_iff unat_word_ariths unat_of_nat)
qed

lemma layout_eq:
  assumes "align8 (body_end cur ss) < 2 ^ 32"
  shows "layout 0 ss (word_of_nat cur) = (map word_of_nat (section_offsets cur ss), word_of_nat (body_end cur ss))"
  using assms
proof (induction ss arbitrary: cur)
  case (Cons s ss)
  have "align8 cur \<le> align8 (body_end cur (s # ss))"
  proof -
    have "align8 cur \<le> align8 cur + length (sec_bytes s)" by simp
    also have "\<dots> \<le> body_end \<dots> ss" by (rule body_end_ge)
    also have "\<dots> \<le> align8 \<dots>" by (rule align8_ge)
    finally show ?thesis by simp
  qed
  then have "builder_align_up (word_of_nat cur) = word_of_nat (align8 cur)"
    using Cons.prems by (intro builder_align_up_eq) simp
  then show ?case
    using Cons.IH [of "align8 cur + length (sec_bytes s)"] Cons.prems
    by (simp add: Let_def)
qed simp

lemma put_u32_here:
  "length old = 4 \<Longrightarrow> a = length pre \<Longrightarrow> put_u32 (pre @ old @ post) a v = Some (pre @ to_le_bytes 4 v @ post)"
  by (simp add: put_u32_def put_slice_here)

lemma put_entry:
  assumes "x = length pre"
  shows "do { o1 \<leftarrow> put_u32 (pre @ replicate 16 0 @ post) x a; o2 \<leftarrow> put_u32 o1 (x + 4) b;
              o3 \<leftarrow> put_u32 o2 (x + 8) c; o4 \<leftarrow> put_u32 o3 (x + 12) d; k o4 } =
     k (pre @ (to_le_bytes 4 a @ to_le_bytes 4 b @ to_le_bytes 4 c @ to_le_bytes 4 d) @ post)"
proof -
  let ?z = "replicate 4 (0 :: u8)"
  have z: "replicate 16 (0 :: u8) = ?z @ ?z @ ?z @ ?z"
    by (simp add: numeral_eq_Suc)
  have "put_u32 (pre @ ?z @ (?z @ ?z @ ?z @ post)) x a = Some (pre @ to_le_bytes 4 a @ (?z @ ?z @ ?z @ post))"
    using assms by (intro put_u32_here) simp_all
  moreover have "put_u32 ((pre @ to_le_bytes 4 a) @ ?z @ (?z @ ?z @ post)) (x + 4) b
      = Some ((pre @ to_le_bytes 4 a) @ to_le_bytes 4 b @ (?z @ ?z @ post))"
    using assms by (intro put_u32_here) simp_all
  moreover have "put_u32 ((pre @ to_le_bytes 4 a @ to_le_bytes 4 b) @ ?z @ (?z @ post)) (x + 8) c
      = Some ((pre @ to_le_bytes 4 a @ to_le_bytes 4 b) @ to_le_bytes 4 c @ (?z @ post))"
    using assms by (intro put_u32_here) simp_all
  moreover have "put_u32 ((pre @ to_le_bytes 4 a @ to_le_bytes 4 b @ to_le_bytes 4 c) @ ?z @ post) (x + 12) d
      = Some ((pre @ to_le_bytes 4 a @ to_le_bytes 4 b @ to_le_bytes 4 c) @ to_le_bytes 4 d @ post)"
    using assms by (intro put_u32_here) simp_all
  ultimately show ?thesis
    by (simp add: z)
qed

lemma put_sections_eq:
  assumes "length pre = 80 + 16 * i" and "cur = length pre + 16 * length ss + length done"
    and "align8 (body_end cur ss) < 2 ^ 32"
  shows "put_sections (pre @ replicate (16 * length ss) 0 @ done @ replicate (length (body_bytes cur ss)) 0)
           i ss (map word_of_nat (section_offsets cur ss)) =
         Some (pre @ table_bytes cur ss @ done @ body_bytes cur ss)"
  using assms
proof (induction ss arbitrary: pre i cur "done")
  case Nil
  then show ?case by simp
next
  case (Cons s ss)
  let ?gap = "align8 cur - cur" and ?n = "length (sec_bytes s)"
  let ?mid = "align8 cur + ?n"
  let ?entry = "to_le_bytes 4 (sec_kind s) @ to_le_bytes 4 (word_of_nat (align8 cur) :: u32) @
      to_le_bytes 4 (word_of_nat ?n :: u32) @ to_le_bytes 4 (sec_item_count s)"
  let ?zt = "replicate (16 * length ss) (0 :: u8)" and ?zb = "replicate (length (body_bytes ?mid ss)) (0 :: u8)"
  let ?post = "?zt @ done @ replicate (length (body_bytes cur (s # ss))) 0"
  have "?mid \<le> align8 (body_end ?mid ss)"
    using body_end_ge align8_ge order_trans by blast
  then have off: "unat (word_of_nat (align8 cur) :: u32) = align8 cur"
    using Cons.prems(3) by (simp add: unat_of_nat)
  have "(pre @ ?entry) @ ?post =
      ((pre @ ?entry) @ ?zt @ done @ replicate ?gap 0) @ replicate ?n 0 @ ?zb"
    by (simp add: replicate_add)
  moreover have "put_slice (((pre @ ?entry) @ ?zt @ done @ replicate ?gap 0) @ replicate ?n 0 @ ?zb)
       (align8 cur) (sec_bytes s) =
      Some (((pre @ ?entry) @ ?zt @ done @ replicate ?gap 0) @ sec_bytes s @ ?zb)"
    using Cons.prems align8_ge [of cur] by (intro put_slice_here) auto
  ultimately have payload: "put_slice ((pre @ ?entry) @ ?post) (align8 cur) (sec_bytes s) =
      Some ((pre @ ?entry) @ ?zt @ (done @ replicate ?gap 0 @ sec_bytes s) @ ?zb)"
    by simp
  have IH: "put_sections ((pre @ ?entry) @ ?zt @ (done @ replicate ?gap 0 @ sec_bytes s) @ ?zb)
       (i + 1) ss (map word_of_nat (section_offsets ?mid ss)) =
      Some ((pre @ ?entry) @ table_bytes ?mid ss @ (done @ replicate ?gap 0 @ sec_bytes s) @ body_bytes ?mid ss)"
    using Cons.prems align8_ge [of cur] by (intro Cons.IH) auto
  have buf: "pre @ replicate (16 * length (s # ss)) 0 @ done @ replicate (length (body_bytes cur (s # ss))) 0
      = pre @ replicate 16 0 @ ?post"
    by (simp add: replicate_add)
  have pos: "unat HEADER_BYTES + i * unat SECTION_ENTRY_BYTES = length pre"
    using Cons.prems(1) by simp
  have "put_sections (pre @ replicate 16 0 @ ?post) i (s # ss)
          (map word_of_nat (section_offsets cur (s # ss))) =
        Option.bind (put_slice (pre @ ?entry @ ?post) (align8 cur) (sec_bytes s))
          (\<lambda>out. put_sections out (i + 1) ss (map word_of_nat (section_offsets ?mid ss)))"
    unfolding put_sections.simps section_offsets.simps list.map Let_def pos off
    by (rule put_entry) simp
  also have "\<dots> = Some (pre @ table_bytes cur (s # ss) @ done @ body_bytes cur (s # ss))"
    using payload IH by (simp only: append_assoc) simp
  finally show ?case
    by (simp only: buf)
qed

text \<open>
  The zero-filled header as the fields still to be written, and one step per
  field: writing a field replaces the first of them and leaves the offset at the
  next one.
\<close>

fun zero_fields :: "nat list \<Rightarrow> u8 list" where
  "zero_fields [] = []"
| "zero_fields (n # ns) = replicate n 0 @ zero_fields ns"

lemma zero_fields_eq: "zero_fields ns = replicate (sum_list ns) 0"
  by (induction ns) (simp_all add: replicate_add)

lemma put_field_step:
  assumes "off = length pre"
  shows "put_u32 (pre @ zero_fields (4 # ns) @ post) off v = Some ((pre @ to_le_bytes 4 v) @ zero_fields ns @ post)"
    and "put_u64 (pre @ zero_fields (8 # ns) @ post) off v8 = Some ((pre @ to_le_bytes 8 v8) @ zero_fields ns @ post)"
    and "put_u128 (pre @ zero_fields (16 # ns) @ post) off v16 = Some ((pre @ to_le_bytes 16 v16) @ zero_fields ns @ post)"
  using assms put_slice_here [of "replicate 4 0" "to_le_bytes 4 v" off pre "zero_fields ns @ post"]
    put_slice_here [of "replicate 8 0" "to_le_bytes 8 v8" off pre "zero_fields ns @ post"]
    put_slice_here [of "replicate 16 0" "to_le_bytes 16 v16" off pre "zero_fields ns @ post"]
  by (simp_all add: put_u32_def put_u64_def put_u128_def)

lemma nat_le_0: "nat_le n 0 = replicate n 0"
  by (induction n) simp_all

lemma put_header:
  "do {
     o1 \<leftarrow> put_u32 (replicate 80 0 @ rest) OFF_MAGIC f1; o2 \<leftarrow> put_u32 o1 OFF_WIRE_VERSION f2;
     o3 \<leftarrow> put_u32 o2 OFF_HEADER_BYTES f3; o4 \<leftarrow> put_u32 o3 OFF_TOTAL_BYTES f4;
     o5 \<leftarrow> put_u128 o4 OFF_LAUNCH_NONCE f5; o6 \<leftarrow> put_u64 o5 OFF_SEQUENCE f6;
     o7 \<leftarrow> put_u64 o6 OFF_RUNTIME_GENERATION f7; o8 \<leftarrow> put_u64 o7 OFF_SURFACE_GENERATION f8;
     o9 \<leftarrow> put_u64 o8 OFF_RESOURCE_EPOCH f9; o10 \<leftarrow> put_u32 o9 OFF_FRAME_ID f10;
     o11 \<leftarrow> put_u32 o10 OFF_FLAGS f11; o12 \<leftarrow> put_u32 o11 OFF_SECTION_COUNT f12; k o12 } =
   k ((to_le_bytes 4 f1 @ to_le_bytes 4 f2 @ to_le_bytes 4 f3 @ to_le_bytes 4 f4 @ to_le_bytes 16 f5 @
       to_le_bytes 8 f6 @ to_le_bytes 8 f7 @ to_le_bytes 8 f8 @ to_le_bytes 8 f9 @
       to_le_bytes 4 f10 @ to_le_bytes 4 f11 @ to_le_bytes 4 f12 @ to_le_bytes 4 (0 :: u32)) @ rest)"
proof -
  have z4: "zero_fields [4] = to_le_bytes 4 (0 :: u32)"
    by (simp add: to_le_bytes_def nat_le_0)
  have z: "replicate 80 (0 :: u8) @ rest = [] @ zero_fields [4, 4, 4, 4, 16, 8, 8, 8, 8, 4, 4, 4, 4] @ rest"
    unfolding zero_fields_eq by simp
  show ?thesis
    unfolding z
    by (simp add: put_field_step z4 del: zero_fields.simps append_assoc append_Nil)
       (simp only: append_assoc append_Nil)
qed

lemma stamp_encode_with: "stamp_checksum H (encode_with b 0) = Some (canonical H b)"
proof -
  obtain ck where ck: "checksum H (encode_with b 0) = Some ck"
    using checksum_total by blast
  have "80 \<le> length (encode_with b 0)"
    by (simp add: encode_with_def)
  moreover have "take 76 (encode_with b 0) @ to_le_bytes 4 ck @ drop 80 (encode_with b 0) = encode_with b ck"
    by (simp add: encode_with_def header_bytes_def)
  ultimately show ?thesis
    by (simp add: stamp_checksum_def ck put_slice_def canonical_def)
qed

lemma build_canonical:
  assumes "b_extra_gap b = 0" and "b_pad_fill b = 0" and "b_trailing_bytes b = 0"
    and "packet_length b < 2 ^ 32"
  shows "build H b = Some (canonical H b)"
proof -
  let ?ss = "b_sections b"
  let ?cur = "payload_start ?ss"
  let ?body = "replicate (length (body_bytes ?cur ?ss)) (0 :: u8)"
  have big: "align8 (body_end ?cur ?ss) < 2 ^ 32"
    using assms(4) by (simp add: packet_length_def)
  have start: "HEADER_BYTES + word_of_nat (length ?ss) * SECTION_ENTRY_BYTES = word_of_nat ?cur"
    by (simp add: mult.commute)
  have tot: "builder_align_up (word_of_nat (body_end ?cur ?ss)) = word_of_nat (packet_length b)"
    using big by (simp add: builder_align_up_eq packet_length_def)
  have un: "unat (word_of_nat (packet_length b) :: u32) = packet_length b"
    using assms(4) by (simp add: unat_of_nat)
  have buf: "replicate (packet_length b) (0 :: u8) = replicate 80 0 @ replicate (16 * length ?ss) 0 @ ?body"
  proof -
    have "packet_length b = 80 + (16 * length ?ss + length (body_bytes ?cur ?ss))"
      using packet_length_ge [of b] by (simp add: length_body_bytes packet_length_def)
    then show ?thesis by (simp only: replicate_add)
  qed
  have secs: "put_sections (header_bytes b 0 @ replicate (16 * length ?ss) 0 @ ?body) 0 ?ss
       (map word_of_nat (section_offsets ?cur ?ss)) = Some (encode_with b 0)"
    using put_sections_eq [of "header_bytes b 0" 0 ?cur ?ss "[]"] big
    by (simp add: encode_with_def)
  have ckf: "put_u32 (encode_with b 0) OFF_CHECKSUM 0 = Some (encode_with b 0)"
    by (simp add: put_u32_def put_slice_def encode_with_def header_bytes_def)
  show ?thesis
    unfolding build_def Let_def start assms(1) layout_eq [OF big] prod.case tot assms(2,3) add_0_right un buf
      put_header header_bytes_def [symmetric]
    using secs ckf stamp_encode_with [of H b]
    by simp
qed

section \<open>The accessors of an accepted frame\<close>

lemma find_section_eq:
  "sections_from bytes n index = Some ss \<Longrightarrow>
   find_section bytes kind n index = Some (find (\<lambda>s. sec_kind s = kind) ss)"
  by (induction n arbitrary: index ss) (auto split: bind_splits)

lemma find_kind:
  "find (\<lambda>s. sec_kind s = kind) ss = Some s \<Longrightarrow> s \<in> set ss \<and> sec_kind s = kind"
  "(find (\<lambda>s. sec_kind s = kind) ss \<noteq> None) \<longleftrightarrow> kind \<in> set (map sec_kind ss)"
  by (induction ss) (auto split: if_splits)

lemma section_length_bound:
  "s \<in> set ss \<Longrightarrow> length (sec_bytes s) \<le> body_end cur ss"
proof (induction ss arbitrary: cur)
  case (Cons x ss)
  show ?case
  proof (cases "s = x")
    case True
    then show ?thesis
      using body_end_ge [of "align8 cur + length (sec_bytes x)" ss] by simp
  qed (use Cons in simp)
qed simp

lemma packet_section_length:
  assumes "packet_wf b" and "s \<in> set (b_sections b)"
  shows "length (sec_bytes s) \<le> 4194304"
  using assms section_length_bound [OF assms(2), of "payload_start (b_sections b)"]
    align8_ge [of "body_end (payload_start (b_sections b)) (b_sections b)"]
  by (simp add: packet_wf_def packet_length_def)

lemma command_stream_section:
  assumes "packet_wf b" and "s \<in> set (b_sections b)" and "sec_kind s = SECTION_KIND_COMMAND_STREAM"
  shows "length (sec_bytes s) mod 4 = 0 \<and> unat (sec_item_count s) \<le> length (sec_bytes s) div 4"
proof -
  have len: "unat (word_of_nat (length (sec_bytes s)) :: u32) = length (sec_bytes s)"
    using packet_section_length [OF assms(1,2)] by (simp add: unat_of_nat)
  have "section_wf s"
    using assms(1,2) by (simp add: packet_wf_def list_all_iff)
  then show ?thesis
    using assms(3)
    by (simp add: section_wf_def check_item_count_def len word_le_nat_alt unat_div not_less split: if_splits)
qed

lemma references_total:
  assumes "validate H bs = Ok f"
  shows "\<exists>r. wf_references_resources f = Some r"
  using valid_packet_encoded [OF assms]
  by (auto simp: wf_references_resources_def wf_sections_def find_section_eq)

lemma command_stream_total:
  assumes "validate H bs = Ok f"
  obtains s where "wf_command_stream f = Some (Some s)" and "length (sec_bytes s) mod 4 = 0"
    and "length (sec_bytes s) \<le> 4194304"
proof -
  obtain ss where ss: "wf_sections f = Some ss" "packet_wf (packet_of f ss)"
    using valid_packet_encoded [OF assms] by blast
  have secs: "b_sections (packet_of f ss) = ss"
    by (simp add: packet_of_def)
  have "SECTION_KIND_COMMAND_STREAM \<in> set (map sec_kind ss)"
    using ss(2) by (simp only: packet_wf_def secs)
  then obtain s where s: "find (\<lambda>s. sec_kind s = SECTION_KIND_COMMAND_STREAM) ss = Some s" "s \<in> set ss"
      "sec_kind s = SECTION_KIND_COMMAND_STREAM"
    using find_kind [of SECTION_KIND_COMMAND_STREAM ss] by blast
  have "wf_command_stream f = Some (Some s)"
    using ss(1) s(1) by (simp add: wf_command_stream_def wf_sections_def find_section_eq)
  then show thesis
    using that [of s] command_stream_section [OF ss(2), of s] packet_section_length [OF ss(2), of s] s(2,3) secs
    by simp
qed

section \<open>A concrete packet\<close>

text \<open>
  The hasher the crate links is CRC-32 (ISO-HDLC); its bitwise definition is the
  instance the examples use, with a one-section packet.
\<close>

primrec crc32_bits :: "nat \<Rightarrow> u32 \<Rightarrow> u32" where
  "crc32_bits 0 c = c"
| "crc32_bits (Suc n) c =
     crc32_bits n (if c AND 1 = 0 then drop_bit 1 c else drop_bit 1 c XOR 0xEDB88320)"

definition crc32_byte :: "u32 \<Rightarrow> u8 \<Rightarrow> u32" where
  "crc32_byte c b = crc32_bits 8 (c XOR ucast b)"

definition crc32_hasher :: "u32 hasher" where
  "crc32_hasher =
     \<lparr>hasher_new = 0xFFFFFFFF, hasher_update = foldl crc32_byte, hasher_finalize = (\<lambda>c. NOT c)\<rparr>"

definition demo_packet :: wire_builder where
  "demo_packet = builder_section builder_new SECTION_KIND_COMMAND_STREAM 1 [1, 0, 2, 0, 9, 0, 0, 0]"

lemma demo_packet_fields:
  "b_extra_gap demo_packet = 0" "b_pad_fill demo_packet = 0" "b_trailing_bytes demo_packet = 0"
  "packet_length demo_packet = 104"
  by (simp_all add: demo_packet_def builder_section_def builder_new_def packet_length_def align8_def)

lemma demo_packet_wf: "packet_wf demo_packet"
  by (simp add: packet_wf_def demo_packet_def builder_section_def builder_new_def packet_length_def
      align8_def section_wf_def check_item_count_def known_required_def)

section \<open>Properties\<close>

text \<open>
  C27. Building a packet and validating it gives it back. For every builder state
  with conforming sections and none of the deliberate-corruption knobs set, \<open>build\<close>
  does not panic, the validator accepts what it wrote, and the accepted frame has
  the builder's header fields and exactly its sections, in order.
\<close>

theorem build_validate_roundtrip:
  assumes "packet_wf b" and "b_extra_gap b = 0" and "b_pad_fill b = 0" and "b_trailing_bytes b = 0"
  shows "\<exists>bs f. build H b = Some bs \<and> validate H bs = Ok f \<and> wf_bytes f = bs \<and>
           wf_sections f = Some (b_sections b) \<and> packet_of f (b_sections b) = b"
proof -
  obtain f where f: "validate H (canonical H b) = Ok f" "wf_sections f = Some (b_sections b)"
      "packet_of f (b_sections b) = b\<lparr>b_extra_gap := 0, b_pad_fill := 0, b_trailing_bytes := 0\<rparr>"
    using canonical_valid [OF assms(1)] by blast
  have "build H b = Some (canonical H b)"
    using assms by (intro build_canonical) (simp_all add: packet_wf_def)
  moreover have "b\<lparr>b_extra_gap := 0, b_pad_fill := 0, b_trailing_bytes := 0\<rparr> = b"
    using assms by simp
  moreover have "wf_bytes f = canonical H b"
    using f(1) by (simp add: validate_Ok_iff frame_of_def)
  ultimately show ?thesis
    using f by auto
qed

theorem build_validate_roundtrip_witness:
  "\<exists>bs f. build crc32_hasher demo_packet = Some bs \<and> validate crc32_hasher bs = Ok f \<and> wf_bytes f = bs \<and>
     wf_sections f = Some (b_sections demo_packet) \<and> packet_of f (b_sections demo_packet) = demo_packet"
  by (rule build_validate_roundtrip) (simp_all add: demo_packet_wf demo_packet_fields)

text \<open>
  C10. The wire format is canonical: an accepted packet is byte for byte what the
  builder writes for the header fields and sections read from it. Two accepted
  packets that say the same thing are therefore the same bytes, so no content has
  a second encoding that a checksum or a log could not tell apart.
\<close>

theorem valid_packet_is_built:
  assumes "validate H bs = Ok f"
  shows "\<exists>ss. wf_sections f = Some ss \<and> packet_wf (packet_of f ss) \<and> build H (packet_of f ss) = Some bs \<and>
           (\<forall>bs' f'. validate H bs' = Ok f' \<and> wf_sections f' = Some ss \<and> packet_of f' ss = packet_of f ss
              \<longrightarrow> bs' = bs)"
proof -
  obtain ss where ss: "wf_sections f = Some ss" "packet_wf (packet_of f ss)" "bs = canonical H (packet_of f ss)"
    using valid_packet_encoded [OF assms] by blast
  moreover have "packet_length (packet_of f ss) < 2 ^ 32"
    using ss(2) by (simp add: packet_wf_def)
  then have "build H (packet_of f ss) = Some (canonical H (packet_of f ss))"
    by (rule build_canonical [rotated 3]) (simp_all add: packet_of_def)
  moreover have "bs' = bs"
    if "validate H bs' = Ok f'" "wf_sections f' = Some ss" "packet_of f' ss = packet_of f ss" for bs' f'
    using valid_packet_encoded [OF that(1)] that(2,3) ss(3) by auto
  ultimately show ?thesis
    by blast
qed

theorem valid_packet_is_built_witness:
  "\<exists>f ss. wf_sections f = Some ss \<and> packet_wf (packet_of f ss) \<and>
     build crc32_hasher (packet_of f ss) = Some (canonical crc32_hasher demo_packet)"
  using canonical_valid [OF demo_packet_wf, of crc32_hasher]
  by (metis valid_packet_is_built)

text \<open>
  What the rest of the engine reads from an accepted frame is there and in
  range: the section accessors do not panic, at most eight sections of distinct
  kinds lie within the packet, the command stream is found, is a whole number of
  words and declares no more words than it carries, and a frame reports resource
  references exactly when it has such a section.
\<close>

lemma accepted_frame_sections:
  assumes "validate H bs = Ok f"
  shows "\<exists>ss s. wf_sections f = Some ss \<and> length ss \<le> 8 \<and> distinct (map sec_kind ss) \<and>
           wf_command_stream f = Some (Some s) \<and> s \<in> set ss \<and>
           sec_kind s = SECTION_KIND_COMMAND_STREAM \<and> length (sec_bytes s) mod 4 = 0 \<and>
           unat (sec_item_count s) \<le> length (sec_bytes s) div 4 \<and>
           length (sec_bytes s) \<le> unat MAX_TOTAL_BYTES \<and>
           wf_references_resources f = Some (SECTION_KIND_RESOURCE_REFERENCES \<in> set (map sec_kind ss))"
proof -
  obtain ss where ss: "wf_sections f = Some ss" "packet_wf (packet_of f ss)"
    using valid_packet_encoded [OF assms] by blast
  have secs: "b_sections (packet_of f ss) = ss"
    by (simp add: packet_of_def)
  have "SECTION_KIND_COMMAND_STREAM \<in> set (map sec_kind ss)"
    using ss(2) by (simp only: packet_wf_def secs)
  then obtain s where s: "find (\<lambda>s. sec_kind s = SECTION_KIND_COMMAND_STREAM) ss = Some s" "s \<in> set ss"
      "sec_kind s = SECTION_KIND_COMMAND_STREAM"
    using find_kind [of SECTION_KIND_COMMAND_STREAM ss] by blast
  have found: "wf_command_stream f = Some (Some s)"
    using ss(1) s(1) by (simp add: wf_command_stream_def wf_sections_def find_section_eq)
  have refs: "wf_references_resources f = Some (SECTION_KIND_RESOURCE_REFERENCES \<in> set (map sec_kind ss))"
    using ss(1) find_kind(2) [of SECTION_KIND_RESOURCE_REFERENCES ss]
    by (simp add: wf_references_resources_def wf_sections_def find_section_eq)
  have shape: "length ss \<le> 8" "distinct (map sec_kind ss)"
    using ss(2) by (simp_all only: packet_wf_def secs)
  have stream: "length (sec_bytes s) mod 4 = 0 \<and> unat (sec_item_count s) \<le> length (sec_bytes s) div 4"
    using command_stream_section [OF ss(2)] s(2,3) secs by simp
  moreover have "length (sec_bytes s) \<le> unat MAX_TOTAL_BYTES"
    using packet_section_length [OF ss(2)] s(2) secs by simp
  ultimately show ?thesis
    using ss(1) shape s(2,3) found refs by (intro exI [of _ ss] exI [of _ s]) simp
qed

lemma accepted_frame_sections_witness:
  "\<exists>f s. validate crc32_hasher (canonical crc32_hasher demo_packet) = Ok f \<and>
     wf_command_stream f = Some (Some s) \<and> length (sec_bytes s) mod 4 = 0"
  using canonical_valid [OF demo_packet_wf, of crc32_hasher]
  by (metis accepted_frame_sections)

text \<open>
  The rejection codes are stable identifiers: the table of variants names every
  one once, and its codes are 1 to 20, so none is the success value 0 and no two
  rejections share a code.
\<close>

lemma wire_error_codes:
  "map (unat \<circ> wire_error_code) WIRE_ERROR_ALL = [1..<21] \<and> (\<forall>e. e \<in> set WIRE_ERROR_ALL) \<and>
   inj wire_error_code \<and> (\<forall>e. wire_error_code e \<noteq> 0)"
proof (intro conjI)
  show codes: "map (unat \<circ> wire_error_code) WIRE_ERROR_ALL = [1..<21]"
    by (simp add: WIRE_ERROR_ALL_def upt_conv_Cons)
  show all: "\<forall>e. e \<in> set WIRE_ERROR_ALL"
  proof
    show "e \<in> set WIRE_ERROR_ALL" for e
      by (cases e) (simp_all add: WIRE_ERROR_ALL_def)
  qed
  have "inj_on (unat \<circ> wire_error_code) (set WIRE_ERROR_ALL)"
    using codes distinct_upt [of 1 21] by (metis distinct_map)
  then show "inj wire_error_code"
    using all by (auto simp: inj_on_def)
  show "\<forall>e. wire_error_code e \<noteq> 0"
  proof
    show "wire_error_code e \<noteq> 0" for e
      by (cases e) simp_all
  qed
qed

end
