(* ===== verification/Ingress.thy ===== *)
theory Ingress
  imports Pool Wire_Builder
begin

text \<open>
  The door frames come in through: \<open>engine/crates/frame-wire/src/ingress.rs\<close>. The
  ingress owns the credit window and the pool; the frames it handed out are the
  caller's until they are dropped.
\<close>

section \<open>Decisions\<close>

datatype ingress_decision = Accepted | WouldBlock | Rejected | GenerationLost

fun ingress_decision_code :: "ingress_decision \<Rightarrow> u32" where
  "ingress_decision_code Accepted = 1"
| "ingress_decision_code WouldBlock = 2"
| "ingress_decision_code Rejected = 3"
| "ingress_decision_code GenerationLost = 4"

record ingress_outcome =
  io_decision :: ingress_decision
  io_remaining_credits :: u32
  io_accepted_sequence :: u64
  io_wire_error_code :: u32

definition outcome_rejected :: "wire_error \<Rightarrow> u32 \<Rightarrow> ingress_outcome" where
  "outcome_rejected error remaining_credits =
     \<lparr>io_decision = Rejected, io_remaining_credits = remaining_credits,
      io_accepted_sequence = 0, io_wire_error_code = wire_error_code error\<rparr>"

definition outcome_refused :: "u32 \<Rightarrow> u32 \<Rightarrow> ingress_outcome" where
  "outcome_refused code remaining_credits =
     \<lparr>io_decision = Rejected, io_remaining_credits = remaining_credits,
      io_accepted_sequence = 0, io_wire_error_code = code\<rparr>"

abbreviation (input) INGRESS_ERROR_FOREIGN_SESSION :: u32 where "INGRESS_ERROR_FOREIGN_SESSION \<equiv> 1001"
abbreviation (input) INGRESS_ERROR_NONCONTIGUOUS_SEQUENCE :: u32 where "INGRESS_ERROR_NONCONTIGUOUS_SEQUENCE \<equiv> 1002"
abbreviation (input) INGRESS_ERROR_STALE_SURFACE :: u32 where "INGRESS_ERROR_STALE_SURFACE \<equiv> 1003"
abbreviation (input) INGRESS_ERROR_STALE_RESOURCE_EPOCH :: u32 where "INGRESS_ERROR_STALE_RESOURCE_EPOCH \<equiv> 1004"
abbreviation (input) INGRESS_ERROR_PACKET_TOO_LARGE :: u32 where "INGRESS_ERROR_PACKET_TOO_LARGE \<equiv> 1005"
abbreviation (input) INGRESS_ERROR_RESOURCES_NOT_READY :: u32 where "INGRESS_ERROR_RESOURCES_NOT_READY \<equiv> 1006"

definition INGRESS_ERROR_CODES :: "u32 list" where
  "INGRESS_ERROR_CODES =
     [INGRESS_ERROR_FOREIGN_SESSION, INGRESS_ERROR_NONCONTIGUOUS_SEQUENCE, INGRESS_ERROR_STALE_SURFACE,
      INGRESS_ERROR_STALE_RESOURCE_EPOCH, INGRESS_ERROR_PACKET_TOO_LARGE, INGRESS_ERROR_RESOURCES_NOT_READY]"

abbreviation (input) INGRESS_ERROR_BASE :: u32 where "INGRESS_ERROR_BASE \<equiv> 1001"
abbreviation (input) MAX_CREDITS :: u32 where "MAX_CREDITS \<equiv> 2"
abbreviation (input) DEFAULT_MAX_CREDITS :: u32 where "DEFAULT_MAX_CREDITS \<equiv> MAX_CREDITS"

section \<open>The ingress\<close>

record frame_ingress =
  fi_launch_nonce :: u128
  fi_runtime_generation :: u64
  fi_surface_generation :: u64
  fi_resource_epoch :: u64
  fi_resources_ready :: bool
  fi_max_packet_bytes :: u32
  fi_credits :: credit_window
  fi_pool :: frame_pool
  fi_last_accepted_sequence :: u64

definition frame_ingress_new :: "u128 \<Rightarrow> u64 \<Rightarrow> frame_ingress" where
  "frame_ingress_new launch_nonce runtime_generation =
     \<lparr>fi_launch_nonce = launch_nonce, fi_runtime_generation = runtime_generation,
      fi_surface_generation = 0, fi_resource_epoch = 0, fi_resources_ready = False,
      fi_max_packet_bytes = MAX_TOTAL_BYTES,
      fi_credits = credit_window_new DEFAULT_MAX_CREDITS,
      fi_pool = frame_pool_new (unat DEFAULT_MAX_CREDITS + 1) (unat MAX_TOTAL_BYTES),
      fi_last_accepted_sequence = 0\<rparr>"

definition clamp :: "'a::linorder \<Rightarrow> 'a \<Rightarrow> 'a \<Rightarrow> 'a" where
  "clamp v lo hi = (if v < lo then lo else if v > hi then hi else v)"

definition with_max_credits :: "frame_ingress \<Rightarrow> u32 \<Rightarrow> frame_ingress" where
  "with_max_credits fi credits =
     (let mx = clamp credits 1 MAX_CREDITS in
      fi\<lparr>fi_credits := credit_window_new mx,
         fi_pool := frame_pool_new (unat mx + 1) (unat (fi_max_packet_bytes fi))\<rparr>)"

definition with_max_packet_bytes :: "frame_ingress \<Rightarrow> u32 \<Rightarrow> frame_ingress" where
  "with_max_packet_bytes fi bytes =
     (let mx = clamp bytes HEADER_BYTES MAX_TOTAL_BYTES in
      fi\<lparr>fi_max_packet_bytes := mx,
         fi_pool := frame_pool_new (unat (cw_max (fi_credits fi)) + 1) (unat mx)\<rparr>)"

definition set_surface_generation :: "frame_ingress \<Rightarrow> u64 \<Rightarrow> frame_ingress \<times> bool" where
  "set_surface_generation fi generation =
     (if generation < fi_surface_generation fi then (fi, False)
      else (fi\<lparr>fi_surface_generation := generation\<rparr>, True))"

definition set_resource_epoch :: "frame_ingress \<Rightarrow> u64 \<Rightarrow> frame_ingress \<times> bool" where
  "set_resource_epoch fi epoch =
     (if epoch < fi_resource_epoch fi then (fi, False)
      else if epoch \<noteq> fi_resource_epoch fi
      then (fi\<lparr>fi_resource_epoch := epoch, fi_resources_ready := False\<rparr>, True)
      else (fi, True))"

definition mark_resources_ready :: "frame_ingress \<Rightarrow> frame_ingress" where
  "mark_resources_ready fi = fi\<lparr>fi_resources_ready := True\<rparr>"

definition remaining_credits :: "frame_ingress \<Rightarrow> u32" where
  "remaining_credits fi = cw_remaining (fi_credits fi)"

definition submit ::
    "'h hasher \<Rightarrow> vec_model \<Rightarrow> frame_ingress \<Rightarrow> u8 list
     \<Rightarrow> (frame_ingress \<times> ingress_outcome \<times> pooled_frame option) option" where
  "submit H M fi bytes =
     (if length bytes > unat (fi_max_packet_bytes fi)
      then Some (fi, outcome_refused INGRESS_ERROR_PACKET_TOO_LARGE (remaining_credits fi), None)
      else case validate H bytes of
        None \<Rightarrow> Panic
      | Some (Inl error) \<Rightarrow> Some (fi, outcome_rejected error (remaining_credits fi), None)
      | Some (Inr frame) \<Rightarrow>
      if wf_launch_nonce frame \<noteq> fi_launch_nonce fi
      then Some (fi, outcome_refused INGRESS_ERROR_FOREIGN_SESSION (remaining_credits fi), None)
      else if wf_runtime_generation frame \<noteq> fi_runtime_generation fi
      then Some (fi, \<lparr>io_decision = GenerationLost, io_remaining_credits = remaining_credits fi,
                      io_accepted_sequence = 0, io_wire_error_code = 0\<rparr>, None)
      else if fi_surface_generation fi \<noteq> 0 \<and> wf_surface_generation frame \<noteq> fi_surface_generation fi
      then Some (fi, outcome_refused INGRESS_ERROR_STALE_SURFACE (remaining_credits fi), None)
      else if wf_resource_epoch frame \<noteq> fi_resource_epoch fi
      then Some (fi, outcome_refused INGRESS_ERROR_STALE_RESOURCE_EPOCH (remaining_credits fi), None)
      else do {
        references \<leftarrow> (if fi_resources_ready fi then Some False else wf_references_resources frame);
        if references
        then Some (fi, outcome_refused INGRESS_ERROR_RESOURCES_NOT_READY (remaining_credits fi), None)
        else if wf_sequence frame \<noteq> saturating_add (fi_last_accepted_sequence fi) 1
        then Some (fi, outcome_refused INGRESS_ERROR_NONCONTIGUOUS_SEQUENCE (remaining_credits fi), None)
        else case try_acquire (fi_credits fi) of
          (credits, False) \<Rightarrow>
            Some (fi\<lparr>fi_credits := credits\<rparr>,
                  \<lparr>io_decision = WouldBlock, io_remaining_credits = 0,
                   io_accepted_sequence = 0, io_wire_error_code = 0\<rparr>, None)
        | (credits, True) \<Rightarrow>
            (let fi = fi\<lparr>fi_credits := credits\<rparr> in
             case pooled_frame_new M bytes (fi_pool fi) (wf_sequence frame) of
               (pool, None) \<Rightarrow>
                 (let (pool, placeholder) = pooled_frame_new M [] pool 0;
                      (credits, pool) = (case placeholder of
                          None \<Rightarrow> (fi_credits fi, pool)
                        | Some f \<Rightarrow> pooled_frame_drop f (fi_credits fi, pool));
                      fi = fi\<lparr>fi_credits := credits, fi_pool := pool\<rparr>
                  in Some (fi, outcome_refused INGRESS_ERROR_PACKET_TOO_LARGE (remaining_credits fi), None))
             | (pool, Some owned) \<Rightarrow>
                 (let fi = fi\<lparr>fi_pool := pool, fi_last_accepted_sequence := wf_sequence frame\<rparr>
                  in Some (fi, \<lparr>io_decision = Accepted, io_remaining_credits = remaining_credits fi,
                                io_accepted_sequence = wf_sequence frame, io_wire_error_code = 0\<rparr>,
                           Some owned)))
      })"

text \<open>Dropping a frame returns its credit and its buffer to the ingress that issued it.\<close>

definition drop_frame :: "frame_ingress \<Rightarrow> pooled_frame \<Rightarrow> frame_ingress" where
  "drop_frame fi f =
     (let (credits, pool) = pooled_frame_drop f (fi_credits fi, fi_pool fi)
      in fi\<lparr>fi_credits := credits, fi_pool := pool\<rparr>)"

section \<open>Legal packets\<close>

text \<open>
  What makes a packet legal for an ingress. Credits and buffers are not part of it.
\<close>

definition legal :: "'h hasher \<Rightarrow> frame_ingress \<Rightarrow> u8 list \<Rightarrow> wire_frame \<Rightarrow> bool" where
  "legal H fi bytes frame \<longleftrightarrow>
     length bytes \<le> unat (fi_max_packet_bytes fi) \<and> validate H bytes = Ok frame \<and>
     wf_launch_nonce frame = fi_launch_nonce fi \<and>
     wf_runtime_generation frame = fi_runtime_generation fi \<and>
     (fi_surface_generation fi = 0 \<or> wf_surface_generation frame = fi_surface_generation fi) \<and>
     wf_resource_epoch frame = fi_resource_epoch fi \<and>
     (fi_resources_ready fi \<or> wf_references_resources frame = Some False) \<and>
     wf_sequence frame = saturating_add (fi_last_accepted_sequence fi) 1"

definition ingress_inv :: "frame_ingress \<Rightarrow> bool" where
  "ingress_inv fi \<longleftrightarrow>
     pool_inv (fi_pool fi) \<and> pool_max_bytes (fi_pool fi) = unat (fi_max_packet_bytes fi) \<and>
     pool_max_idle (fi_pool fi) = unat (cw_max (fi_credits fi)) + 1 \<and>
     1 \<le> cw_max (fi_credits fi) \<and> cw_max (fi_credits fi) \<le> MAX_CREDITS \<and>
     cw_in_flight (fi_credits fi) \<le> cw_max (fi_credits fi) \<and>
     HEADER_BYTES \<le> fi_max_packet_bytes fi \<and> fi_max_packet_bytes fi \<le> MAX_TOTAL_BYTES"

text \<open>A refusal names no sequence; it carries a code exactly if it is a rejection.\<close>

definition refusal :: "ingress_decision \<Rightarrow> u32 \<Rightarrow> bool" where
  "refusal d code \<longleftrightarrow> (d = Rejected \<and> code \<noteq> 0) \<or> (d = GenerationLost \<and> code = 0)"

lemma wire_error_code_pos: "wire_error_code e \<noteq> 0"
  by (cases e) simp_all

lemma submit_illegal:
  assumes "\<nexists>frame. legal H fi bytes frame"
  obtains d code where "refusal d code"
    and "\<And>w q. submit H M (fi\<lparr>fi_credits := w, fi_pool := q\<rparr>) bytes =
       Some (fi\<lparr>fi_credits := w, fi_pool := q\<rparr>,
         \<lparr>io_decision = d, io_remaining_credits = cw_remaining w,
          io_accepted_sequence = 0, io_wire_error_code = code\<rparr>, None)"
proof (cases "length bytes > unat (fi_max_packet_bytes fi)")
  case True
  then show thesis
    by (intro that [of Rejected INGRESS_ERROR_PACKET_TOO_LARGE])
       (simp_all add: submit_def refusal_def outcome_refused_def remaining_credits_def)
next
  case small: False
  show thesis
  proof (cases "validate H bytes")
    case None
    then show thesis using validate_no_panic by blast
  next
    case (Some res)
    show thesis
    proof (cases res)
      case (Inl e)
      then show thesis
        using small Some wire_error_code_pos
        by (intro that [of Rejected "wire_error_code e"])
           (simp_all add: submit_def refusal_def outcome_rejected_def remaining_credits_def)
    next
      case (Inr frame)
      obtain refs where refs: "wf_references_resources frame = Some refs"
        using references_total Some Inr by blast
      note simps = submit_def refusal_def outcome_refused_def remaining_credits_def
      consider (nonce) "wf_launch_nonce frame \<noteq> fi_launch_nonce fi"
        | (generation) "wf_launch_nonce frame = fi_launch_nonce fi"
            "wf_runtime_generation frame \<noteq> fi_runtime_generation fi"
        | (later) "wf_launch_nonce frame = fi_launch_nonce fi"
            "wf_runtime_generation frame = fi_runtime_generation fi"
        by blast
      then show thesis
      proof cases
        case nonce
        then show thesis
          using small Some Inr by (intro that [of Rejected INGRESS_ERROR_FOREIGN_SESSION]) (simp_all add: simps)
      next
        case generation
        then show thesis
          using small Some Inr by (intro that [of GenerationLost 0]) (simp_all add: simps)
      next
        case later
        define code where "code =
          (if fi_surface_generation fi \<noteq> 0 \<and> wf_surface_generation frame \<noteq> fi_surface_generation fi
           then INGRESS_ERROR_STALE_SURFACE
           else if wf_resource_epoch frame \<noteq> fi_resource_epoch fi then INGRESS_ERROR_STALE_RESOURCE_EPOCH
           else if \<not> fi_resources_ready fi \<and> refs then INGRESS_ERROR_RESOURCES_NOT_READY
           else INGRESS_ERROR_NONCONTIGUOUS_SEQUENCE)"
        show thesis
          using assms small Some Inr later refs
          by (intro that [of Rejected code]) (auto simp: simps code_def legal_def)
      qed
    qed
  qed
qed

lemma submit_legal:
  assumes "legal H fi bytes frame" and "ingress_inv fi"
  shows "submit H M fi bytes =
    (if cw_in_flight (fi_credits fi) < cw_max (fi_credits fi) then
       (let fi' = fi\<lparr>fi_credits := fst (try_acquire (fi_credits fi)),
                      fi_pool := fst (pooled_frame_new M bytes (fi_pool fi) (wf_sequence frame)),
                      fi_last_accepted_sequence := wf_sequence frame\<rparr>
        in Some (fi', \<lparr>io_decision = Accepted, io_remaining_credits = remaining_credits fi',
                       io_accepted_sequence = wf_sequence frame, io_wire_error_code = 0\<rparr>,
                 snd (pooled_frame_new M bytes (fi_pool fi) (wf_sequence frame))))
     else Some (fi, \<lparr>io_decision = WouldBlock, io_remaining_credits = 0,
                     io_accepted_sequence = 0, io_wire_error_code = 0\<rparr>, None))"
proof -
  obtain refs where refs: "wf_references_resources frame = Some refs"
    using references_total assms(1) legal_def by blast
  have copy: "snd (pooled_frame_new M bytes (fi_pool fi) (wf_sequence frame)) \<noteq> None"
    using assms by (simp add: pooled_frame_new_None_iff ingress_inv_def legal_def)
  then obtain q f where qf: "pooled_frame_new M bytes (fi_pool fi) (wf_sequence frame) = (q, Some f)"
    by (metis option.exhaust_sel prod.collapse)
  have guard: "(if fi_resources_ready fi then Some False else wf_references_resources frame) = Some False"
    using assms(1) by (auto simp: legal_def)
  show ?thesis
  proof (cases "cw_in_flight (fi_credits fi) < cw_max (fi_credits fi)")
    case True
    then have acq: "try_acquire (fi_credits fi) = (fst (try_acquire (fi_credits fi)), True)"
      by (simp add: try_acquire_def not_le [symmetric])
    show ?thesis
      using assms(1) True guard acq qf
      unfolding submit_def legal_def
      by (cases "try_acquire (fi_credits fi)") (simp add: Let_def)
  next
    case False
    then have "try_acquire (fi_credits fi) = (fi_credits fi, False)"
      by (simp add: try_acquire_def)
    then show ?thesis
      using assms(1) False guard by (auto simp: submit_def legal_def)
  qed
qed

section \<open>The invariant\<close>

lemma frame_pool_new_inv: "mi * mb \<le> usize_max \<Longrightarrow> pool_inv (frame_pool_new mi mb)"
  by (simp add: pool_inv_def frame_pool_new_def idle_capacity_def)

lemma pool_size_bound:
  assumes "mx \<le> MAX_CREDITS" and "bytes \<le> MAX_TOTAL_BYTES"
  shows "(unat mx + 1) * unat bytes \<le> usize_max"
proof -
  have "unat mx + 1 \<le> 3" and "unat bytes \<le> 4194304"
    using assms by (simp_all add: word_le_nat_alt)
  then have "(unat mx + 1) * unat bytes \<le> 3 * 4194304"
    by (rule mult_le_mono)
  then show ?thesis by (simp add: usize_max_def)
qed

lemma clamp_bounds: "lo \<le> hi \<Longrightarrow> lo \<le> clamp v lo hi \<and> clamp v lo hi \<le> hi"
  by (auto simp: clamp_def)

lemma frame_ingress_new_inv: "ingress_inv (frame_ingress_new nonce gen)"
  using frame_pool_new_inv [of 3 4194304]
  by (simp add: ingress_inv_def frame_ingress_new_def credit_window_new_def frame_pool_new_def usize_max_def)

lemma with_max_credits_inv:
  assumes "ingress_inv fi"
  shows "ingress_inv (with_max_credits fi c)"
proof -
  have c: "1 \<le> clamp c 1 MAX_CREDITS" "clamp c 1 MAX_CREDITS \<le> MAX_CREDITS"
    using clamp_bounds [of 1 MAX_CREDITS c] by simp_all
  show ?thesis
    using assms c frame_pool_new_inv [OF pool_size_bound [OF c(2)]]
    by (simp add: ingress_inv_def with_max_credits_def Let_def credit_window_new_def frame_pool_new_def)
qed

lemma with_max_packet_bytes_inv:
  assumes "ingress_inv fi"
  shows "ingress_inv (with_max_packet_bytes fi b)"
proof -
  have b: "HEADER_BYTES \<le> clamp b HEADER_BYTES MAX_TOTAL_BYTES" "clamp b HEADER_BYTES MAX_TOTAL_BYTES \<le> MAX_TOTAL_BYTES"
    using clamp_bounds [of HEADER_BYTES MAX_TOTAL_BYTES b] by simp_all
  have mx: "cw_max (fi_credits fi) \<le> MAX_CREDITS"
    using assms by (simp add: ingress_inv_def)
  show ?thesis
    using assms b frame_pool_new_inv [OF pool_size_bound [OF mx b(2)]]
    by (simp add: ingress_inv_def with_max_packet_bytes_def Let_def frame_pool_new_def)
qed

lemma host_calls_inv:
  assumes "ingress_inv fi"
  shows "ingress_inv (fst (set_surface_generation fi g))" and "ingress_inv (fst (set_resource_epoch fi e))"
    and "ingress_inv (mark_resources_ready fi)"
  using assms
  by (auto simp: ingress_inv_def set_surface_generation_def set_resource_epoch_def mark_resources_ready_def)

lemma drop_frame_inv:
  assumes "ingress_inv fi"
  shows "ingress_inv (drop_frame fi f)"
  using assms pool_release_inv [of "fi_pool fi" "pf_buffer f"]
    window.give_back_limit [of "fi_credits fi"] window.give_back_bounded [of "fi_credits fi"]
  by (simp add: ingress_inv_def drop_frame_def pooled_frame_drop_def word_le_nat_alt)

lemma submit_accept:
  assumes "legal H fi bytes frame" and "ingress_inv fi" and "vec_model_ok M"
    and "cw_in_flight (fi_credits fi) < cw_max (fi_credits fi)"
  obtains fi' f where "submit H M fi bytes =
      Some (fi', \<lparr>io_decision = Accepted, io_remaining_credits = remaining_credits fi',
                  io_accepted_sequence = wf_sequence frame, io_wire_error_code = 0\<rparr>, Some f)"
    and "ingress_inv fi'" and "pf_bytes f = bytes" and "pf_sequence f = wf_sequence frame"
    and "unat (cw_in_flight (fi_credits fi')) = unat (cw_in_flight (fi_credits fi)) + 1"
    and "cw_max (fi_credits fi') = cw_max (fi_credits fi)"
    and "fi_last_accepted_sequence fi' = wf_sequence frame"
    and "fi\<lparr>fi_credits := fi_credits fi', fi_pool := fi_pool fi', fi_last_accepted_sequence := wf_sequence frame\<rparr> = fi'"
proof -
  obtain q f where qf: "pooled_frame_new M bytes (fi_pool fi) (wf_sequence frame) = (q, Some f)"
    using assms(1,2) pooled_frame_new_None_iff [of M bytes "fi_pool fi" "wf_sequence frame"]
    by (cases "pooled_frame_new M bytes (fi_pool fi) (wf_sequence frame)") (auto simp: ingress_inv_def legal_def)
  let ?fi = "fi\<lparr>fi_credits := fst (try_acquire (fi_credits fi)), fi_pool := q,
      fi_last_accepted_sequence := wf_sequence frame\<rparr>"
  have q: "q = fst (pool_acquire M (fi_pool fi) (length bytes))"
    using qf pooled_frame_new_pool [of M bytes "fi_pool fi" "wf_sequence frame"] by simp
  have mx: "cw_max (fst (try_acquire (fi_credits fi))) = cw_max (fi_credits fi)"
    by (simp add: try_acquire_def)
  have used: "unat (cw_in_flight (fst (try_acquire (fi_credits fi)))) = unat (cw_in_flight (fi_credits fi)) + 1"
    using assms(4) window.acquire_used [of "fi_credits fi"] by (simp add: word_less_nat_alt)
  have "ingress_inv ?fi"
    using assms(2,4) q mx used pool_acquire_inv [of "fi_pool fi" M "length bytes"]
    by (simp add: ingress_inv_def word_le_nat_alt word_less_nat_alt)
  then show thesis
    using that [of ?fi f] submit_legal [OF assms(1,2), of M] assms(4) qf
      pooled_frame_new_bytes [OF assms(3) qf] mx used
    by (simp add: Let_def)
qed

section \<open>A running ingress\<close>

text \<open>
  The ingress with its surroundings: the frames handed out and not yet dropped, and
  the sequence numbers accepted so far. Anyone may submit anything, frames are
  dropped in any order, and the host moves its timelines.
\<close>

type_synonym ingress_system = "frame_ingress \<times> pooled_frame list \<times> u64 list"

inductive ingress_step :: "'h hasher \<Rightarrow> vec_model \<Rightarrow> ingress_system \<Rightarrow> ingress_system \<Rightarrow> bool"
  for H :: "'h hasher" and M :: vec_model where
  step_accepted: "submit H M fi bytes = Some (fi', out, Some f) \<Longrightarrow>
     ingress_step H M (fi, frames, acc) (fi', frames @ [f], acc @ [io_accepted_sequence out])"
| step_turned_away: "submit H M fi bytes = Some (fi', out, None) \<Longrightarrow>
     ingress_step H M (fi, frames, acc) (fi', frames, acc)"
| step_drop: "i < length frames \<Longrightarrow>
     ingress_step H M (fi, frames, acc) (drop_frame fi (frames ! i), take i frames @ drop (Suc i) frames, acc)"
| step_surface: "set_surface_generation fi g = (fi', ok) \<Longrightarrow>
     ingress_step H M (fi, frames, acc) (fi', frames, acc)"
| step_epoch: "set_resource_epoch fi e = (fi', ok) \<Longrightarrow>
     ingress_step H M (fi, frames, acc) (fi', frames, acc)"
| step_ready: "ingress_step H M (fi, frames, acc) (mark_resources_ready fi, frames, acc)"

definition frame_of_session :: "'h hasher \<Rightarrow> frame_ingress \<Rightarrow> pooled_frame \<Rightarrow> bool" where
  "frame_of_session H fi f \<longleftrightarrow>
     (\<exists>w. pooled_frame_frame H f = Ok w \<and> wf_sequence w = pf_sequence f \<and>
        wf_launch_nonce w = fi_launch_nonce fi \<and> wf_runtime_generation w = fi_runtime_generation fi)"

definition system_inv :: "'h hasher \<Rightarrow> ingress_system \<Rightarrow> bool" where
  "system_inv H = (\<lambda>(fi, frames, acc).
     ingress_inv fi \<and> unat (cw_in_flight (fi_credits fi)) = length frames \<and>
     list_all (frame_of_session H fi) frames \<and>
     (length acc < 2 ^ 64 \<longrightarrow>
        unat (fi_last_accepted_sequence fi) = length acc \<and> map unat acc = [1..<length acc + 1]))"

lemma saturating_succ: "unat (w :: u64) + 1 < 2 ^ 64 \<Longrightarrow> unat (saturating_add w 1) = unat w + 1"
  by (simp add: unat_saturating_add)

lemma submit_cases [consumes 2]:
  assumes "ingress_inv fi" and "vec_model_ok M"
  obtains (refused) d code where "refusal d code"
      "submit H M fi bytes = Some (fi, \<lparr>io_decision = d, io_remaining_credits = remaining_credits fi,
         io_accepted_sequence = 0, io_wire_error_code = code\<rparr>, None)" "\<nexists>frame. legal H fi bytes frame"
    | (blocked) frame where "legal H fi bytes frame" "\<not> cw_in_flight (fi_credits fi) < cw_max (fi_credits fi)"
      "submit H M fi bytes = Some (fi, \<lparr>io_decision = WouldBlock, io_remaining_credits = 0,
         io_accepted_sequence = 0, io_wire_error_code = 0\<rparr>, None)"
    | (accepted) frame fi' f where "legal H fi bytes frame" "cw_in_flight (fi_credits fi) < cw_max (fi_credits fi)"
      "submit H M fi bytes = Some (fi', \<lparr>io_decision = Accepted, io_remaining_credits = remaining_credits fi',
         io_accepted_sequence = wf_sequence frame, io_wire_error_code = 0\<rparr>, Some f)"
      "ingress_inv fi'" "pf_bytes f = bytes" "pf_sequence f = wf_sequence frame"
      "unat (cw_in_flight (fi_credits fi')) = unat (cw_in_flight (fi_credits fi)) + 1"
      "fi_last_accepted_sequence fi' = wf_sequence frame"
      "fi\<lparr>fi_credits := fi_credits fi', fi_pool := fi_pool fi', fi_last_accepted_sequence := wf_sequence frame\<rparr> = fi'" "cw_max (fi_credits fi') = cw_max (fi_credits fi)"
proof (cases "\<exists>frame. legal H fi bytes frame")
  case False
  then obtain d code where "refusal d code"
    and *: "\<And>w q. submit H M (fi\<lparr>fi_credits := w, fi_pool := q\<rparr>) bytes =
       Some (fi\<lparr>fi_credits := w, fi_pool := q\<rparr>,
         \<lparr>io_decision = d, io_remaining_credits = cw_remaining w,
          io_accepted_sequence = 0, io_wire_error_code = code\<rparr>, None)"
    using submit_illegal [of H fi bytes M] by metis
  then show thesis
    using refused * [where w = "fi_credits fi" and q = "fi_pool fi"] False by (simp add: remaining_credits_def)
next
  case True
  then obtain frame where legal: "legal H fi bytes frame" by blast
  show thesis
  proof (cases "cw_in_flight (fi_credits fi) < cw_max (fi_credits fi)")
    case True
    show thesis
      by (rule submit_accept [OF legal assms True]) (rule accepted [OF legal True])
  next
    case False
    then show thesis
      using blocked [OF legal] submit_legal [OF legal assms(1), of M] by simp
  qed
qed

lemma ingress_same_fields:
  "fi\<lparr>fi_credits := w, fi_pool := q, fi_last_accepted_sequence := n\<rparr> = fi' \<Longrightarrow>
   fi_launch_nonce fi' = fi_launch_nonce fi \<and> fi_runtime_generation fi' = fi_runtime_generation fi \<and>
   fi_surface_generation fi' = fi_surface_generation fi \<and> fi_resource_epoch fi' = fi_resource_epoch fi \<and>
   fi_resources_ready fi' = fi_resources_ready fi \<and> fi_max_packet_bytes fi' = fi_max_packet_bytes fi"
  by auto

lemma frame_of_session_cong:
  "fi_launch_nonce fi' = fi_launch_nonce fi \<Longrightarrow> fi_runtime_generation fi' = fi_runtime_generation fi \<Longrightarrow>
   frame_of_session H fi' = frame_of_session H fi"
  by (simp add: frame_of_session_def fun_eq_iff)

lemma system_inv_accept:
  assumes inv: "system_inv H (fi, frames, acc)" and M: "vec_model_ok M"
    and sub: "submit H M fi bytes = Some (fi', out, Some f)"
  shows "system_inv H (fi', frames @ [f], acc @ [io_accepted_sequence out])"
proof -
  have fi: "ingress_inv fi" using inv by (simp add: system_inv_def)
  show ?thesis
    using fi M
  proof (cases rule: submit_cases [where H = H and bytes = bytes])
    case (accepted frame fi'' f')
    then have eqs: "fi'' = fi'" "f' = f" "io_accepted_sequence out = wf_sequence frame"
      using sub by auto
    have same: "fi_launch_nonce fi' = fi_launch_nonce fi" "fi_runtime_generation fi' = fi_runtime_generation fi"
      using ingress_same_fields [OF accepted(9)] eqs by simp_all
    have "frame_of_session H fi' f"
      using accepted(1,5,6) eqs same
      by (auto simp: frame_of_session_def pooled_frame_frame_def legal_def)
    moreover have "unat (fi_last_accepted_sequence fi') = length acc + 1 \<and>
        unat (wf_sequence frame) = length acc + 1" if "length acc + 1 < 2 ^ 64"
    proof -
      have "unat (fi_last_accepted_sequence fi) = length acc"
        using inv that by (simp add: system_inv_def)
      then have "unat (wf_sequence frame) = length acc + 1"
        using accepted(1) saturating_succ [of "fi_last_accepted_sequence fi"] that by (simp add: legal_def)
      then show ?thesis using accepted(8) eqs(1) by simp
    qed
    ultimately show ?thesis
      using inv accepted(4,7) eqs frame_of_session_cong [OF same, of H]
      by (auto simp: system_inv_def)
  qed (use sub in simp_all)
qed

lemma system_inv_turned_away:
  assumes inv: "system_inv H (fi, frames, acc)" and M: "vec_model_ok M"
    and sub: "submit H M fi bytes = Some (fi', out, None)"
  shows "fi' = fi"
proof -
  have fi: "ingress_inv fi" using inv by (simp add: system_inv_def)
  show ?thesis
    using fi M by (cases rule: submit_cases [where H = H and bytes = bytes]) (use sub in simp_all)
qed

lemma ingress_step_inv:
  assumes "ingress_step H M s s'" and "vec_model_ok M" and "system_inv H s"
  shows "system_inv H s'"
  using assms(1,3)
proof cases
  case (step_accepted fi bytes fi' out f frames acc)
  then show ?thesis using system_inv_accept assms(2,3) by blast
next
  case (step_turned_away fi bytes fi' out frames acc)
  then show ?thesis using system_inv_turned_away assms(2,3) by blast
next
  case (step_drop i frames fi acc)
  then have len: "length (take i frames @ drop (Suc i) frames) = length frames - 1" by simp
  have "list_all (frame_of_session H fi) (take i frames @ drop (Suc i) frames)"
    using assms(3) step_drop by (auto simp: system_inv_def list_all_iff dest: in_set_takeD in_set_dropD)
  moreover have "frame_of_session H (drop_frame fi (frames ! i)) = frame_of_session H fi"
    by (rule frame_of_session_cong) (simp_all add: drop_frame_def pooled_frame_drop_def)
  moreover have "unat (cw_in_flight (fi_credits (drop_frame fi (frames ! i)))) = unat (cw_in_flight (fi_credits fi)) - 1"
    using window.give_back_used [of "fi_credits fi"] by (simp add: drop_frame_def pooled_frame_drop_def)
  moreover have "fi_last_accepted_sequence (drop_frame fi (frames ! i)) = fi_last_accepted_sequence fi"
    by (simp add: drop_frame_def pooled_frame_drop_def)
  ultimately show ?thesis
    using assms(3) step_drop len drop_frame_inv by (simp add: system_inv_def)
next
  case (step_surface fi g fi' ok frames acc)
  then show ?thesis
    using assms(3) host_calls_inv(1) [of fi g] frame_of_session_cong [of fi' fi H]
    by (auto simp: system_inv_def set_surface_generation_def split: if_splits)
next
  case (step_epoch fi e fi' ok frames acc)
  then show ?thesis
    using assms(3) host_calls_inv(2) [of fi e] frame_of_session_cong [of fi' fi H]
    by (auto simp: system_inv_def set_resource_epoch_def split: if_splits)
next
  case (step_ready fi frames acc)
  then show ?thesis
    using assms(3) host_calls_inv(3) [of fi] frame_of_session_cong [of "mark_resources_ready fi" fi H]
    by (auto simp: system_inv_def mark_resources_ready_def)
qed

lemma system_inv_initial:
  "system_inv H (with_max_packet_bytes (with_max_credits (frame_ingress_new nonce gen) c) b, [], [])"
  using with_max_packet_bytes_inv [OF with_max_credits_inv [OF frame_ingress_new_inv [of nonce gen], of c], of b]
  by (simp add: system_inv_def with_max_packet_bytes_def with_max_credits_def frame_ingress_new_def
      credit_window_new_def Let_def)

section \<open>An example\<close>

definition exact_vec :: vec_model where
  "exact_vec = \<lparr>with_capacity = (\<lambda>n. n), grown_capacity = (\<lambda>c n. n)\<rparr>"

lemma exact_vec_ok: "vec_model_ok exact_vec"
  by (simp add: vec_model_ok_def exact_vec_def)

abbreviation demo_ingress :: frame_ingress where
  "demo_ingress \<equiv> frame_ingress_new 0 1"

abbreviation demo_bytes :: "u8 list" where
  "demo_bytes \<equiv> canonical crc32_hasher demo_packet"

lemma demo_legal: "\<exists>frame. legal crc32_hasher demo_ingress demo_bytes frame"
proof -
  obtain f where f: "validate crc32_hasher demo_bytes = Ok f" "wf_sections f = Some (b_sections demo_packet)"
      "packet_of f (b_sections demo_packet) =
        demo_packet\<lparr>b_extra_gap := 0, b_pad_fill := 0, b_trailing_bytes := 0\<rparr>"
    using canonical_valid [OF demo_packet_wf, of crc32_hasher] by blast
  have "length demo_bytes = 104"
    using canonical_checksum [of crc32_hasher demo_packet] length_encode_with demo_packet_fields(4) by metis
  moreover have "wf_references_resources f = Some False"
    using f(2) by (simp add: wf_references_resources_def wf_sections_def find_section_eq demo_packet_def
        builder_section_def builder_new_def)
  moreover have "wf_launch_nonce f = 0 \<and> wf_runtime_generation f = 1 \<and> wf_surface_generation f = 0 \<and>
      wf_resource_epoch f = 0 \<and> wf_sequence f = 1"
    using f(3) by (simp add: packet_of_def demo_packet_def builder_section_def builder_new_def)
  ultimately have "legal crc32_hasher demo_ingress demo_bytes f"
    using f(1) by (simp add: legal_def frame_ingress_new_def saturating_add_def)
  then show ?thesis ..
qed

section \<open>Properties\<close>

text \<open>
  C26. Offering a packet: \<open>submit\<close> never panics and answers as the protocol says. It
  accepts exactly the legal packets for which there is a credit, tells a legal
  packet without one to wait, and turns every other away. Anything but acceptance
  leaves the ingress as it was; acceptance takes one credit, hands out the packet's
  bytes and moves the sequence to the packet's. The refusal of the pool after a
  credit was taken does not happen.
\<close>

theorem submit_decides:
  assumes "ingress_inv fi" and "vec_model_ok M"
  shows "\<exists>fi' out r. submit H M fi bytes = Some (fi', out, r) \<and> ingress_inv fi' \<and>
     (io_decision out = Accepted \<longleftrightarrow>
        (\<exists>frame. legal H fi bytes frame) \<and> cw_in_flight (fi_credits fi) < cw_max (fi_credits fi)) \<and>
     (io_decision out = WouldBlock \<longleftrightarrow>
        (\<exists>frame. legal H fi bytes frame) \<and> \<not> cw_in_flight (fi_credits fi) < cw_max (fi_credits fi)) \<and>
     (if io_decision out = Accepted
      then unat (cw_in_flight (fi_credits fi')) = unat (cw_in_flight (fi_credits fi)) + 1 \<and>
           (\<exists>f. r = Some f \<and> pf_bytes f = bytes) \<and>
           fi_last_accepted_sequence fi' = io_accepted_sequence out \<and>
           legal H fi bytes (frame_of bytes) \<and> io_accepted_sequence out = wf_sequence (frame_of bytes)
      else fi' = fi \<and> r = None \<and> io_accepted_sequence out = 0)"
  using assms
proof (cases rule: submit_cases [where H = H and bytes = bytes])
  case (refused d code)
  then show ?thesis
    using assms(1) by (auto simp: refusal_def)
next
  case (blocked frame)
  then show ?thesis
    using assms(1) by auto
next
  case (accepted frame fi' f)
  then have "frame = frame_of bytes"
    by (simp add: legal_def validate_Ok_iff)
  then show ?thesis
    using accepted by auto
qed

theorem submit_decides_witness:
  "\<exists>fi' out f. submit crc32_hasher exact_vec demo_ingress demo_bytes = Some (fi', out, Some f) \<and>
     io_decision out = Accepted \<and> unat (cw_in_flight (fi_credits fi')) = 1"
proof -
  have "cw_in_flight (fi_credits demo_ingress) < cw_max (fi_credits demo_ingress)"
    and zero: "unat (cw_in_flight (fi_credits demo_ingress)) = 0"
    by (simp_all add: frame_ingress_new_def credit_window_new_def)
  then show ?thesis
    using submit_decides [OF frame_ingress_new_inv [of 0 1] exact_vec_ok, of crc32_hasher demo_bytes] demo_legal
    by fastforce
qed

text \<open>
  Whether a packet is legal never depends on how busy the renderer is: if an
  ingress refuses a packet, then an ingress that differs only in its credits and
  buffers refuses it with the same decision and the same code.
\<close>

lemma legality_ignores_load:
  assumes "ingress_inv fi" and "vec_model_ok M"
    and "submit H M fi bytes = Some (fi', out, r)" and "io_decision out \<in> {Rejected, GenerationLost}"
  shows "submit H M (fi\<lparr>fi_credits := w, fi_pool := q\<rparr>) bytes =
     Some (fi\<lparr>fi_credits := w, fi_pool := q\<rparr>, out\<lparr>io_remaining_credits := cw_remaining w\<rparr>, None)"
proof -
  have "\<nexists>frame. legal H fi bytes frame"
    using assms(1,2) by (cases rule: submit_cases [where H = H and bytes = bytes]) (use assms(3,4) in auto)
  then obtain d code where
      *: "\<And>w q. submit H M (fi\<lparr>fi_credits := w, fi_pool := q\<rparr>) bytes =
       Some (fi\<lparr>fi_credits := w, fi_pool := q\<rparr>,
         \<lparr>io_decision = d, io_remaining_credits = cw_remaining w,
          io_accepted_sequence = 0, io_wire_error_code = code\<rparr>, None)"
    using submit_illegal [of H fi bytes M] by metis
  have "out = \<lparr>io_decision = d, io_remaining_credits = cw_remaining (fi_credits fi),
      io_accepted_sequence = 0, io_wire_error_code = code\<rparr>"
    using assms(3) * [where w = "fi_credits fi" and q = "fi_pool fi"] by simp
  then show ?thesis
    using * [where w = w and q = q] by simp
qed

lemma legality_ignores_load_witness:
  "\<exists>out. submit crc32_hasher exact_vec demo_ingress [] = Some (demo_ingress, out, None) \<and>
     submit crc32_hasher exact_vec (demo_ingress\<lparr>fi_credits := \<lparr>cw_max = 2, cw_in_flight = 2\<rparr>, fi_pool := frame_pool_new 3 80\<rparr>) [] =
       Some (demo_ingress\<lparr>fi_credits := \<lparr>cw_max = 2, cw_in_flight = 2\<rparr>, fi_pool := frame_pool_new 3 80\<rparr>,
         out\<lparr>io_remaining_credits := 0\<rparr>, None)"
proof -
  have sub: "submit crc32_hasher exact_vec demo_ingress [] =
      Some (demo_ingress, outcome_rejected ShorterThanHeader (remaining_credits demo_ingress), None)"
    by (simp add: submit_def validate_def validate_header_def)
  moreover have "io_decision (outcome_rejected ShorterThanHeader (remaining_credits demo_ingress)) \<in> {Rejected, GenerationLost}"
    by (simp add: outcome_rejected_def)
  moreover have "cw_remaining \<lparr>cw_max = 2, cw_in_flight = 2\<rparr> = 0"
    by (simp add: cw_remaining_def saturating_sub_def)
  ultimately show ?thesis
    using legality_ignores_load [OF frame_ingress_new_inv [of 0 1] exact_vec_ok sub,
        where w = "\<lparr>cw_max = 2, cw_in_flight = 2\<rparr>" and q = "frame_pool_new 3 80"] by auto
qed

text \<open>
  C8. A running ingress, whatever is offered and in whatever order frames are
  finished: the credits in use are exactly the frames handed out and not yet
  dropped, never more than two; every one of those frames still validates and is of
  this launch and generation; and the accepted sequence numbers are 1, 2, 3 and so
  on without gap or repeat, for all of the first \<open>2 ^ 64 - 1\<close>.
\<close>

theorem ingress_run_safe:
  assumes "(ingress_step H M)\<^sup>*\<^sup>* (with_max_packet_bytes (with_max_credits (frame_ingress_new nonce gen) c) b, [], [])
       (fi, frames, acc)"
    and "vec_model_ok M"
  shows "ingress_inv fi \<and> unat (cw_in_flight (fi_credits fi)) = length frames \<and> length frames \<le> 2 \<and>
     list_all (frame_of_session H fi) frames \<and>
     (length acc < 2 ^ 64 \<longrightarrow> map unat acc = [1..<length acc + 1])"
proof -
  have "system_inv H (fi, frames, acc)"
    using system_inv_initial
    by (rule rtranclp_induct [OF assms(1), of "system_inv H"]) (rule ingress_step_inv [OF _ assms(2)])
  then show ?thesis
    by (auto simp: system_inv_def ingress_inv_def word_le_nat_alt)
qed

theorem ingress_run_safe_witness:
  "\<exists>fi f. ingress_inv fi \<and> unat (cw_in_flight (fi_credits fi)) = length [f] \<and>
     list_all (frame_of_session crc32_hasher fi) [f] \<and> map unat [1 :: u64] = [1..<length [1 :: u64] + 1]"
proof -
  let ?fi = "with_max_packet_bytes (with_max_credits (frame_ingress_new 0 1) 2) MAX_TOTAL_BYTES"
  have fi: "?fi = demo_ingress"
    by (simp add: with_max_packet_bytes_def with_max_credits_def frame_ingress_new_def clamp_def Let_def
        credit_window_new_def)
  obtain frame where legal: "legal crc32_hasher demo_ingress demo_bytes frame"
    using demo_legal by blast
  have "cw_in_flight (fi_credits demo_ingress) < cw_max (fi_credits demo_ingress)"
    by (simp add: frame_ingress_new_def credit_window_new_def)
  then obtain fi' f where sub: "submit crc32_hasher exact_vec demo_ingress demo_bytes =
      Some (fi', \<lparr>io_decision = Accepted, io_remaining_credits = remaining_credits fi',
                  io_accepted_sequence = wf_sequence frame, io_wire_error_code = 0\<rparr>, Some f)"
    using submit_accept [OF legal frame_ingress_new_inv exact_vec_ok] by metis
  have seq: "wf_sequence frame = 1"
    using legal by (simp add: legal_def frame_ingress_new_def saturating_add_def)
  have "(ingress_step crc32_hasher exact_vec)\<^sup>*\<^sup>* (?fi, [], []) (fi', [] @ [f], [] @ [1])"
    using step_accepted [OF sub, of "[]" "[]"] seq unfolding fi by simp
  from ingress_run_safe [OF this exact_vec_ok] show ?thesis
    by (intro exI [of _ fi'] exI [of _ f]) simp
qed

text \<open>
  The host's timelines only move forward: no step of a running ingress lowers
  the surface generation or the resource epoch, and a step that changes the epoch
  withdraws the readiness of the resources.
\<close>

lemma timelines_monotone:
  assumes "ingress_step H M (fi, frames, acc) (fi', frames', acc')" and "ingress_inv fi" and "vec_model_ok M"
  shows "fi_surface_generation fi \<le> fi_surface_generation fi' \<and> fi_resource_epoch fi \<le> fi_resource_epoch fi' \<and>
     (fi_resource_epoch fi' \<noteq> fi_resource_epoch fi \<longrightarrow> \<not> fi_resources_ready fi') \<and>
     fi_launch_nonce fi' = fi_launch_nonce fi \<and> fi_runtime_generation fi' = fi_runtime_generation fi"
proof -
  have sub: "fi_surface_generation fi'' = fi_surface_generation fi \<and> fi_resource_epoch fi'' = fi_resource_epoch fi \<and>
     fi_launch_nonce fi'' = fi_launch_nonce fi \<and> fi_runtime_generation fi'' = fi_runtime_generation fi"
    if "submit H M fi bytes = Some (fi'', out, r)" for bytes fi'' out r
    using assms(2,3)
  proof (cases rule: submit_cases [where H = H and bytes = bytes])
    case (accepted frame fi2 f)
    have "fi_surface_generation fi2 = fi_surface_generation fi \<and> fi_resource_epoch fi2 = fi_resource_epoch fi \<and>
       fi_launch_nonce fi2 = fi_launch_nonce fi \<and> fi_runtime_generation fi2 = fi_runtime_generation fi"
      using ingress_same_fields [OF accepted(9)] by simp
    then show ?thesis using accepted(3) that by simp
  qed (use that in simp_all)
  show ?thesis
    using assms(1)
  proof cases
    case (step_accepted bytes out f)
    then show ?thesis using sub by fastforce
  next
    case (step_turned_away bytes out)
    then show ?thesis using sub by fastforce
  qed (auto simp: set_surface_generation_def set_resource_epoch_def mark_resources_ready_def drop_frame_def
      pooled_frame_drop_def not_less split: if_splits)
qed

lemma timelines_monotone_witness:
  "\<not> fi_resources_ready (fst (set_resource_epoch (mark_resources_ready demo_ingress) 3)) \<and>
   fi_resource_epoch (mark_resources_ready demo_ingress) \<le> fi_resource_epoch (fst (set_resource_epoch (mark_resources_ready demo_ingress) 3))"
proof -
  let ?fi = "mark_resources_ready demo_ingress"
  have "ingress_step crc32_hasher exact_vec (?fi, [], []) (fst (set_resource_epoch ?fi 3), [], [])"
    by (rule step_epoch [of _ 3 _ "snd (set_resource_epoch ?fi 3)"]) simp
  moreover have "ingress_inv ?fi"
    by (rule host_calls_inv(3) [OF frame_ingress_new_inv])
  moreover have "fi_resource_epoch (fst (set_resource_epoch ?fi 3)) \<noteq> fi_resource_epoch ?fi"
    by (simp add: set_resource_epoch_def mark_resources_ready_def frame_ingress_new_def)
  ultimately show ?thesis
    using timelines_monotone [OF _ _ exact_vec_ok] by blast
qed

end
