(* ===== verification/Render_Commands.thy ===== *)
theory Render_Commands
  imports Prelude
begin

text \<open>
  The render protocol types of \<open>engine/crates/shared/src/protocol\<close> that a command
  stream decodes to (\<open>render_cmd.rs\<close>, \<open>color.rs\<close>, \<open>frame_packet.rs\<close>). Of \<open>GLCmd\<close>
  and \<open>Canvas2DCmd\<close> the variants a stream record can produce are here, with their
  fields in declaration order, and of \<open>GLCmd\<close> also the two uploads from a 2D canvas. An \<open>f32\<close> is its bit pattern: the code moves floats
  and never computes with them. An \<open>i32\<close> is the integer it denotes. A pooled
  vector is the list it holds.
\<close>

section \<open>Scalars\<close>

datatype f32 = F32 (to_bits: u32)
datatype f64 = F64 (to_bits64: u64)

record color =
  color_r :: f32
  color_g :: f32
  color_b :: f32
  color_a :: f32

record dirty_rect =
  dr_x :: f32
  dr_y :: f32
  dr_width :: f32
  dr_height :: f32

section \<open>Commands\<close>

datatype (plugins only:) gl_cmd =
    Viewport u32 i32 i32 u32 u32
  | Clear u32 u32
  | ClearColor u32 f32 f32 f32 f32
  | ClearDepth u32 f32
  | ClearStencil u32 i32
  | Enable u32 u32
  | Disable u32 u32
  | UseProgram u32 u32
  | BindBuffer u32 u32 "u32 option"
  | BindTexture u32 u32 "u32 option"
  | ActiveTexture u32 u32
  | BindFramebuffer u32 u32 "u32 option"
  | BindRenderbuffer u32 u32 "u32 option"
  | BindVertexArray u32 "u32 option"
  | BindSampler u32 u32 "u32 option"
  | EnableVertexAttribArray u32 u32
  | DisableVertexAttribArray u32 u32
  | VertexAttribPointer u32 u32 i32 u32 bool i32 i32
  | VertexAttribDivisor u32 u32 u32
  | BlendFunc u32 u32 u32
  | BlendFuncSeparate u32 u32 u32 u32 u32
  | BlendEquation u32 u32
  | BlendEquationSeparate u32 u32 u32
  | BlendColor u32 f32 f32 f32 f32
  | DepthFunc u32 u32
  | DepthMask u32 bool
  | DepthRange u32 f32 f32
  | StencilFunc u32 u32 i32 u32
  | StencilFuncSeparate u32 u32 u32 i32 u32
  | StencilOp u32 u32 u32 u32
  | StencilOpSeparate u32 u32 u32 u32 u32
  | StencilMask u32 u32
  | StencilMaskSeparate u32 u32 u32
  | CullFace u32 u32
  | FrontFace u32 u32
  | ColorMask u32 bool bool bool bool
  | Scissor u32 i32 i32 i32 i32
  | LineWidth u32 f32
  | PolygonOffset u32 f32 f32
  | TexParameteri u32 u32 u32 i32
  | TexParameterf u32 u32 u32 f32
  | GenerateMipmap u32 u32
  | PixelStorei u32 u32 i32
  | Hint u32 u32 u32
  | SamplerParameteri u32 u32 i32
  | SamplerParameterf u32 u32 f32
  | DrawArrays u32 u32 i32 i32
  | DrawElements u32 u32 i32 u32 i32
  | DrawArraysInstanced u32 u32 i32 i32 i32
  | DrawElementsInstanced u32 u32 i32 u32 i32 i32
  | BindBufferBase u32 u32 u32 "u32 option"
  | BindBufferRange u32 u32 u32 "u32 option" i32 i32
  | ReadBuffer u32 u32
  | Uniform1i u32 "u32 option" i32
  | Uniform1f u32 "u32 option" f32
  | Uniform2f u32 "u32 option" f32 f32
  | Uniform3f u32 "u32 option" f32 f32 f32
  | Uniform4f u32 "u32 option" f32 f32 f32 f32
  | Uniform1iv u32 "u32 option" "i32 list"
  | Uniform1fv u32 "u32 option" "f32 list"
  | Uniform2iv u32 "u32 option" "i32 list"
  | Uniform2fv u32 "u32 option" "f32 list"
  | Uniform3iv u32 "u32 option" "i32 list"
  | Uniform3fv u32 "u32 option" "f32 list"
  | Uniform4iv u32 "u32 option" "i32 list"
  | Uniform4fv u32 "u32 option" "f32 list"
  | UniformMatrix2fv u32 "u32 option" bool "f32 list"
  | UniformMatrix3fv u32 "u32 option" bool "f32 list"
  | UniformMatrix4fv u32 "u32 option" bool "f32 list"
  | TexImage2DFromCanvas2D u32 u32 i32 i32 u32 i32 i32 u32 u32
  | TexSubImage2DFromCanvas2D u32 u32 i32 i32 i32 u32 i32 i32 u32 u32

datatype (plugins only:) canvas2d_cmd =
    BeginPath
  | ClosePath
  | MoveTo f32 f32
  | LineTo f32 f32
  | QuadraticCurveTo f32 f32 f32 f32
  | BezierCurveTo f32 f32 f32 f32 f32 f32
  | Arc f32 f32 f32 f32 f32 bool
  | ArcTo f32 f32 f32 f32 f32
  | Rect f32 f32 f32 f32
  | Ellipse f32 f32 f32 f32 f32 f32 f32 bool
  | Fill
  | Stroke
  | Clip
  | FillRect f32 f32 f32 f32
  | StrokeRect f32 f32 f32 f32
  | ClearRect f32 f32 f32 f32
  | Save
  | Restore
  | SetTransform f32 f32 f32 f32 f32 f32
  | ResetTransform
  | Translate f32 f32
  | Rotate f32
  | Scale f32 f32
  | SetLineWidth f32
  | SetGlobalAlpha f32
  | SetMiterLimit f32
  | SetLineDashOffset f32
  | SetShadowBlur f32
  | SetShadowOffsetX f32
  | SetShadowOffsetY f32
  | SetLineCap u8
  | SetLineJoin u8
  | SetCompositeOperation u8
  | SetFillStyle color
  | SetStrokeStyle color
  | SetShadowColor color

section \<open>Frame operations\<close>

record canvas_batch_payload =
  cb_canvas_id :: u32
  cb_commands :: "canvas2d_cmd list"
  cb_present :: bool
  cb_dirty_rect :: "dirty_rect option"

record gl_batch_payload =
  gb_commands :: "gl_cmd list"

datatype frame_op =
    BeginFrame
  | CanvasBatch canvas_batch_payload
  | GlBatch gl_batch_payload
  | Materialize u32
  | Present

record frame_packet =
  fp_frame_id :: u64
  fp_raf_time_ms :: f64
  fp_ops :: "frame_op list"

text \<open>The builder has the fields of the packet it finishes to.\<close>

definition packet_builder_new :: "u64 \<Rightarrow> f64 \<Rightarrow> frame_packet" where
  "packet_builder_new frame_id raf_time_ms =
     \<lparr>fp_frame_id = frame_id, fp_raf_time_ms = raf_time_ms, fp_ops = []\<rparr>"

definition packet_builder_push :: "frame_packet \<Rightarrow> frame_op \<Rightarrow> frame_packet" where
  "packet_builder_push b op = b\<lparr>fp_ops := fp_ops b @ [op]\<rparr>"

definition packet_builder_finish :: "frame_packet \<Rightarrow> frame_packet" where
  "packet_builder_finish b =
     \<lparr>fp_frame_id = fp_frame_id b, fp_raf_time_ms = fp_raf_time_ms b, fp_ops = fp_ops b\<rparr>"

definition for_canvas_batch ::
    "u64 \<Rightarrow> f64 \<Rightarrow> u32 \<Rightarrow> canvas2d_cmd list \<Rightarrow> bool \<Rightarrow> dirty_rect option \<Rightarrow> frame_packet" where
  "for_canvas_batch frame_id raf_time_ms canvas_id commands present dirty_rect =
     (let builder = packet_builder_push
            (packet_builder_push (packet_builder_new frame_id raf_time_ms) BeginFrame)
            (CanvasBatch \<lparr>cb_canvas_id = canvas_id, cb_commands = commands,
               cb_present = present, cb_dirty_rect = dirty_rect\<rparr>)
      in if present then packet_builder_finish (packet_builder_push builder Present)
         else packet_builder_finish builder)"

definition for_gl_batch :: "u64 \<Rightarrow> f64 \<Rightarrow> gl_cmd list \<Rightarrow> frame_packet" where
  "for_gl_batch frame_id raf_time_ms commands =
     packet_builder_finish
       (packet_builder_push (packet_builder_push (packet_builder_new frame_id raf_time_ms) BeginFrame)
          (GlBatch \<lparr>gb_commands = commands\<rparr>))"

definition set_frame_metadata :: "frame_packet \<Rightarrow> u64 \<Rightarrow> f64 \<Rightarrow> frame_packet" where
  "set_frame_metadata p frame_id raf_time_ms = p\<lparr>fp_frame_id := frame_id, fp_raf_time_ms := raf_time_ms\<rparr>"

lemma fold_packet_push: "fp_ops (foldl packet_builder_push b ops) = fp_ops b @ ops"
  by (induction ops arbitrary: b) (simp_all add: packet_builder_push_def)

lemma fold_packet_push_id:
  "fp_frame_id (foldl packet_builder_push b ops) = fp_frame_id b"
  "fp_raf_time_ms (foldl packet_builder_push b ops) = fp_raf_time_ms b"
  by (induction ops arbitrary: b) (simp_all add: packet_builder_push_def)

end
