(* ===== verification/Stream_Tables.thy ===== *)
theory Stream_Tables
  imports Prelude
begin

text \<open>
  The opcode blocks of the command stream: \<open>engine/crates/frame-wire/src/gl.rs\<close>
  (WebGL) and \<open>canvas2d.rs\<close> (Canvas2D). A \<open>match\<close> over opcode constants is an
  association list read front to back.
\<close>

section \<open>Record shapes\<close>

datatype uniform_element_kind = IntElement | FloatElement

datatype record_spec =
    Fixed (spec_word_count: u32) (spec_bool_words: "nat list")
  | VectorUniform uniform_element_kind
  | MatrixUniform uniform_element_kind nat

section \<open>WebGL opcodes\<close>

abbreviation (input) MAX_STREAM_UNIFORM_WORDS :: u32 where "MAX_STREAM_UNIFORM_WORDS \<equiv> 512"

abbreviation (input) OP_VIEWPORT :: u32 where "OP_VIEWPORT \<equiv> 1"
abbreviation (input) OP_CLEAR :: u32 where "OP_CLEAR \<equiv> 2"
abbreviation (input) OP_CLEAR_COLOR :: u32 where "OP_CLEAR_COLOR \<equiv> 3"
abbreviation (input) OP_CLEAR_DEPTH :: u32 where "OP_CLEAR_DEPTH \<equiv> 4"
abbreviation (input) OP_CLEAR_STENCIL :: u32 where "OP_CLEAR_STENCIL \<equiv> 5"
abbreviation (input) OP_ENABLE :: u32 where "OP_ENABLE \<equiv> 6"
abbreviation (input) OP_DISABLE :: u32 where "OP_DISABLE \<equiv> 7"
abbreviation (input) OP_USE_PROGRAM :: u32 where "OP_USE_PROGRAM \<equiv> 8"
abbreviation (input) OP_BIND_BUFFER :: u32 where "OP_BIND_BUFFER \<equiv> 9"
abbreviation (input) OP_BIND_TEXTURE :: u32 where "OP_BIND_TEXTURE \<equiv> 10"
abbreviation (input) OP_ACTIVE_TEXTURE :: u32 where "OP_ACTIVE_TEXTURE \<equiv> 11"
abbreviation (input) OP_BIND_FRAMEBUFFER :: u32 where "OP_BIND_FRAMEBUFFER \<equiv> 12"
abbreviation (input) OP_BIND_RENDERBUFFER :: u32 where "OP_BIND_RENDERBUFFER \<equiv> 13"
abbreviation (input) OP_BIND_VERTEX_ARRAY :: u32 where "OP_BIND_VERTEX_ARRAY \<equiv> 14"
abbreviation (input) OP_BIND_SAMPLER :: u32 where "OP_BIND_SAMPLER \<equiv> 15"
abbreviation (input) OP_ENABLE_VERTEX_ATTRIB_ARRAY :: u32 where "OP_ENABLE_VERTEX_ATTRIB_ARRAY \<equiv> 16"
abbreviation (input) OP_DISABLE_VERTEX_ATTRIB_ARRAY :: u32 where "OP_DISABLE_VERTEX_ATTRIB_ARRAY \<equiv> 17"
abbreviation (input) OP_VERTEX_ATTRIB_POINTER :: u32 where "OP_VERTEX_ATTRIB_POINTER \<equiv> 18"
abbreviation (input) OP_VERTEX_ATTRIB_DIVISOR :: u32 where "OP_VERTEX_ATTRIB_DIVISOR \<equiv> 19"
abbreviation (input) OP_BLEND_FUNC :: u32 where "OP_BLEND_FUNC \<equiv> 20"
abbreviation (input) OP_BLEND_FUNC_SEPARATE :: u32 where "OP_BLEND_FUNC_SEPARATE \<equiv> 21"
abbreviation (input) OP_BLEND_EQUATION :: u32 where "OP_BLEND_EQUATION \<equiv> 22"
abbreviation (input) OP_BLEND_EQUATION_SEPARATE :: u32 where "OP_BLEND_EQUATION_SEPARATE \<equiv> 23"
abbreviation (input) OP_BLEND_COLOR :: u32 where "OP_BLEND_COLOR \<equiv> 24"
abbreviation (input) OP_DEPTH_FUNC :: u32 where "OP_DEPTH_FUNC \<equiv> 25"
abbreviation (input) OP_DEPTH_MASK :: u32 where "OP_DEPTH_MASK \<equiv> 26"
abbreviation (input) OP_DEPTH_RANGE :: u32 where "OP_DEPTH_RANGE \<equiv> 27"
abbreviation (input) OP_STENCIL_FUNC :: u32 where "OP_STENCIL_FUNC \<equiv> 28"
abbreviation (input) OP_STENCIL_FUNC_SEPARATE :: u32 where "OP_STENCIL_FUNC_SEPARATE \<equiv> 29"
abbreviation (input) OP_STENCIL_OP :: u32 where "OP_STENCIL_OP \<equiv> 30"
abbreviation (input) OP_STENCIL_OP_SEPARATE :: u32 where "OP_STENCIL_OP_SEPARATE \<equiv> 31"
abbreviation (input) OP_STENCIL_MASK :: u32 where "OP_STENCIL_MASK \<equiv> 32"
abbreviation (input) OP_STENCIL_MASK_SEPARATE :: u32 where "OP_STENCIL_MASK_SEPARATE \<equiv> 33"
abbreviation (input) OP_CULL_FACE :: u32 where "OP_CULL_FACE \<equiv> 34"
abbreviation (input) OP_FRONT_FACE :: u32 where "OP_FRONT_FACE \<equiv> 35"
abbreviation (input) OP_COLOR_MASK :: u32 where "OP_COLOR_MASK \<equiv> 36"
abbreviation (input) OP_SCISSOR :: u32 where "OP_SCISSOR \<equiv> 37"
abbreviation (input) OP_LINE_WIDTH :: u32 where "OP_LINE_WIDTH \<equiv> 38"
abbreviation (input) OP_POLYGON_OFFSET :: u32 where "OP_POLYGON_OFFSET \<equiv> 39"
abbreviation (input) OP_TEX_PARAMETER_I :: u32 where "OP_TEX_PARAMETER_I \<equiv> 40"
abbreviation (input) OP_TEX_PARAMETER_F :: u32 where "OP_TEX_PARAMETER_F \<equiv> 41"
abbreviation (input) OP_GENERATE_MIPMAP :: u32 where "OP_GENERATE_MIPMAP \<equiv> 42"
abbreviation (input) OP_PIXEL_STORE_I :: u32 where "OP_PIXEL_STORE_I \<equiv> 43"
abbreviation (input) OP_HINT :: u32 where "OP_HINT \<equiv> 44"
abbreviation (input) OP_SAMPLER_PARAMETER_I :: u32 where "OP_SAMPLER_PARAMETER_I \<equiv> 45"
abbreviation (input) OP_SAMPLER_PARAMETER_F :: u32 where "OP_SAMPLER_PARAMETER_F \<equiv> 46"
abbreviation (input) OP_DRAW_ARRAYS :: u32 where "OP_DRAW_ARRAYS \<equiv> 47"
abbreviation (input) OP_DRAW_ELEMENTS :: u32 where "OP_DRAW_ELEMENTS \<equiv> 48"
abbreviation (input) OP_DRAW_ARRAYS_INSTANCED :: u32 where "OP_DRAW_ARRAYS_INSTANCED \<equiv> 49"
abbreviation (input) OP_DRAW_ELEMENTS_INSTANCED :: u32 where "OP_DRAW_ELEMENTS_INSTANCED \<equiv> 50"
abbreviation (input) OP_BIND_BUFFER_BASE :: u32 where "OP_BIND_BUFFER_BASE \<equiv> 51"
abbreviation (input) OP_BIND_BUFFER_RANGE :: u32 where "OP_BIND_BUFFER_RANGE \<equiv> 52"
abbreviation (input) OP_READ_BUFFER :: u32 where "OP_READ_BUFFER \<equiv> 53"
abbreviation (input) OP_UNIFORM1I :: u32 where "OP_UNIFORM1I \<equiv> 54"
abbreviation (input) OP_UNIFORM1F :: u32 where "OP_UNIFORM1F \<equiv> 55"
abbreviation (input) OP_UNIFORM2F :: u32 where "OP_UNIFORM2F \<equiv> 56"
abbreviation (input) OP_UNIFORM3F :: u32 where "OP_UNIFORM3F \<equiv> 57"
abbreviation (input) OP_UNIFORM4F :: u32 where "OP_UNIFORM4F \<equiv> 58"
abbreviation (input) OP_UNIFORM1IV :: u32 where "OP_UNIFORM1IV \<equiv> 256"
abbreviation (input) OP_UNIFORM1FV :: u32 where "OP_UNIFORM1FV \<equiv> 257"
abbreviation (input) OP_UNIFORM2IV :: u32 where "OP_UNIFORM2IV \<equiv> 258"
abbreviation (input) OP_UNIFORM2FV :: u32 where "OP_UNIFORM2FV \<equiv> 259"
abbreviation (input) OP_UNIFORM3IV :: u32 where "OP_UNIFORM3IV \<equiv> 260"
abbreviation (input) OP_UNIFORM3FV :: u32 where "OP_UNIFORM3FV \<equiv> 261"
abbreviation (input) OP_UNIFORM4IV :: u32 where "OP_UNIFORM4IV \<equiv> 262"
abbreviation (input) OP_UNIFORM4FV :: u32 where "OP_UNIFORM4FV \<equiv> 263"
abbreviation (input) OP_UNIFORM_MATRIX2FV :: u32 where "OP_UNIFORM_MATRIX2FV \<equiv> 264"
abbreviation (input) OP_UNIFORM_MATRIX3FV :: u32 where "OP_UNIFORM_MATRIX3FV \<equiv> 265"
abbreviation (input) OP_UNIFORM_MATRIX4FV :: u32 where "OP_UNIFORM_MATRIX4FV \<equiv> 266"

definition gl_spec_state_a :: "(u32 \<times> record_spec) list" where
  "gl_spec_state_a =
   [(OP_VIEWPORT, Fixed 6 []),
    (OP_CLEAR, Fixed 3 []),
    (OP_CLEAR_COLOR, Fixed 6 []),
    (OP_CLEAR_DEPTH, Fixed 3 []),
    (OP_CLEAR_STENCIL, Fixed 3 []),
    (OP_ENABLE, Fixed 3 []),
    (OP_DISABLE, Fixed 3 []),
    (OP_USE_PROGRAM, Fixed 3 []),
    (OP_BIND_BUFFER, Fixed 4 []),
    (OP_BIND_TEXTURE, Fixed 4 []),
    (OP_ACTIVE_TEXTURE, Fixed 3 []),
    (OP_BIND_FRAMEBUFFER, Fixed 4 []),
    (OP_BIND_RENDERBUFFER, Fixed 4 []),
    (OP_BIND_VERTEX_ARRAY, Fixed 3 []),
    (OP_BIND_SAMPLER, Fixed 4 []),
    (OP_ENABLE_VERTEX_ATTRIB_ARRAY, Fixed 3 []),
    (OP_DISABLE_VERTEX_ATTRIB_ARRAY, Fixed 3 []),
    (OP_VERTEX_ATTRIB_POINTER, Fixed 8 [5]),
    (OP_VERTEX_ATTRIB_DIVISOR, Fixed 4 []),
    (OP_BLEND_FUNC, Fixed 4 []),
    (OP_BLEND_FUNC_SEPARATE, Fixed 6 []),
    (OP_BLEND_EQUATION, Fixed 3 []),
    (OP_BLEND_EQUATION_SEPARATE, Fixed 4 []),
    (OP_BLEND_COLOR, Fixed 6 [])]"

definition gl_spec_state_b :: "(u32 \<times> record_spec) list" where
  "gl_spec_state_b =
   [(OP_DEPTH_FUNC, Fixed 3 []),
    (OP_DEPTH_MASK, Fixed 3 [2]),
    (OP_DEPTH_RANGE, Fixed 4 []),
    (OP_STENCIL_FUNC, Fixed 5 []),
    (OP_STENCIL_FUNC_SEPARATE, Fixed 6 []),
    (OP_STENCIL_OP, Fixed 5 []),
    (OP_STENCIL_OP_SEPARATE, Fixed 6 []),
    (OP_STENCIL_MASK, Fixed 3 []),
    (OP_STENCIL_MASK_SEPARATE, Fixed 4 []),
    (OP_CULL_FACE, Fixed 3 []),
    (OP_FRONT_FACE, Fixed 3 []),
    (OP_COLOR_MASK, Fixed 6 [2, 3, 4, 5]),
    (OP_SCISSOR, Fixed 6 []),
    (OP_LINE_WIDTH, Fixed 3 []),
    (OP_POLYGON_OFFSET, Fixed 4 []),
    (OP_TEX_PARAMETER_I, Fixed 5 []),
    (OP_TEX_PARAMETER_F, Fixed 5 []),
    (OP_GENERATE_MIPMAP, Fixed 3 []),
    (OP_PIXEL_STORE_I, Fixed 4 []),
    (OP_HINT, Fixed 4 []),
    (OP_SAMPLER_PARAMETER_I, Fixed 4 []),
    (OP_SAMPLER_PARAMETER_F, Fixed 4 [])]"

definition gl_spec_draw :: "(u32 \<times> record_spec) list" where
  "gl_spec_draw =
   [(OP_DRAW_ARRAYS, Fixed 5 []),
    (OP_DRAW_ELEMENTS, Fixed 6 []),
    (OP_DRAW_ARRAYS_INSTANCED, Fixed 6 []),
    (OP_DRAW_ELEMENTS_INSTANCED, Fixed 7 []),
    (OP_BIND_BUFFER_BASE, Fixed 5 []),
    (OP_BIND_BUFFER_RANGE, Fixed 7 []),
    (OP_READ_BUFFER, Fixed 3 []),
    (OP_UNIFORM1I, Fixed 4 []),
    (OP_UNIFORM1F, Fixed 4 []),
    (OP_UNIFORM2F, Fixed 5 []),
    (OP_UNIFORM3F, Fixed 6 []),
    (OP_UNIFORM4F, Fixed 7 [])]"

definition gl_spec_uniform :: "(u32 \<times> record_spec) list" where
  "gl_spec_uniform =
   [(OP_UNIFORM1IV, VectorUniform IntElement),
    (OP_UNIFORM1FV, VectorUniform FloatElement),
    (OP_UNIFORM2IV, VectorUniform IntElement),
    (OP_UNIFORM2FV, VectorUniform FloatElement),
    (OP_UNIFORM3IV, VectorUniform IntElement),
    (OP_UNIFORM3FV, VectorUniform FloatElement),
    (OP_UNIFORM4IV, VectorUniform IntElement),
    (OP_UNIFORM4FV, VectorUniform FloatElement),
    (OP_UNIFORM_MATRIX2FV, MatrixUniform FloatElement 3),
    (OP_UNIFORM_MATRIX3FV, MatrixUniform FloatElement 3),
    (OP_UNIFORM_MATRIX4FV, MatrixUniform FloatElement 3)]"

definition gl_record_spec :: "u32 \<Rightarrow> record_spec option" where
  "gl_record_spec opcode =
     map_of (gl_spec_state_a @ gl_spec_state_b @ gl_spec_draw @ gl_spec_uniform) opcode"

section \<open>Canvas2D opcodes\<close>

abbreviation (input) OP2D_BASE :: u32 where "OP2D_BASE \<equiv> 512"
abbreviation (input) OP2D_SELECT_CANVAS :: u32 where "OP2D_SELECT_CANVAS \<equiv> 512"
abbreviation (input) OP2D_BEGIN_PATH :: u32 where "OP2D_BEGIN_PATH \<equiv> 513"
abbreviation (input) OP2D_CLOSE_PATH :: u32 where "OP2D_CLOSE_PATH \<equiv> 514"
abbreviation (input) OP2D_MOVE_TO :: u32 where "OP2D_MOVE_TO \<equiv> 515"
abbreviation (input) OP2D_LINE_TO :: u32 where "OP2D_LINE_TO \<equiv> 516"
abbreviation (input) OP2D_QUADRATIC_CURVE_TO :: u32 where "OP2D_QUADRATIC_CURVE_TO \<equiv> 517"
abbreviation (input) OP2D_BEZIER_CURVE_TO :: u32 where "OP2D_BEZIER_CURVE_TO \<equiv> 518"
abbreviation (input) OP2D_ARC :: u32 where "OP2D_ARC \<equiv> 519"
abbreviation (input) OP2D_ARC_TO :: u32 where "OP2D_ARC_TO \<equiv> 520"
abbreviation (input) OP2D_RECT :: u32 where "OP2D_RECT \<equiv> 521"
abbreviation (input) OP2D_ELLIPSE :: u32 where "OP2D_ELLIPSE \<equiv> 522"
abbreviation (input) OP2D_FILL :: u32 where "OP2D_FILL \<equiv> 523"
abbreviation (input) OP2D_STROKE :: u32 where "OP2D_STROKE \<equiv> 524"
abbreviation (input) OP2D_CLIP :: u32 where "OP2D_CLIP \<equiv> 525"
abbreviation (input) OP2D_FILL_RECT :: u32 where "OP2D_FILL_RECT \<equiv> 526"
abbreviation (input) OP2D_STROKE_RECT :: u32 where "OP2D_STROKE_RECT \<equiv> 527"
abbreviation (input) OP2D_CLEAR_RECT :: u32 where "OP2D_CLEAR_RECT \<equiv> 528"
abbreviation (input) OP2D_SAVE :: u32 where "OP2D_SAVE \<equiv> 529"
abbreviation (input) OP2D_RESTORE :: u32 where "OP2D_RESTORE \<equiv> 530"
abbreviation (input) OP2D_SET_TRANSFORM :: u32 where "OP2D_SET_TRANSFORM \<equiv> 531"
abbreviation (input) OP2D_RESET_TRANSFORM :: u32 where "OP2D_RESET_TRANSFORM \<equiv> 532"
abbreviation (input) OP2D_TRANSLATE :: u32 where "OP2D_TRANSLATE \<equiv> 533"
abbreviation (input) OP2D_ROTATE :: u32 where "OP2D_ROTATE \<equiv> 534"
abbreviation (input) OP2D_SCALE :: u32 where "OP2D_SCALE \<equiv> 535"
abbreviation (input) OP2D_SET_LINE_WIDTH :: u32 where "OP2D_SET_LINE_WIDTH \<equiv> 536"
abbreviation (input) OP2D_SET_GLOBAL_ALPHA :: u32 where "OP2D_SET_GLOBAL_ALPHA \<equiv> 537"
abbreviation (input) OP2D_SET_MITER_LIMIT :: u32 where "OP2D_SET_MITER_LIMIT \<equiv> 538"
abbreviation (input) OP2D_SET_LINE_DASH_OFFSET :: u32 where "OP2D_SET_LINE_DASH_OFFSET \<equiv> 539"
abbreviation (input) OP2D_SET_SHADOW_BLUR :: u32 where "OP2D_SET_SHADOW_BLUR \<equiv> 540"
abbreviation (input) OP2D_SET_SHADOW_OFFSET_X :: u32 where "OP2D_SET_SHADOW_OFFSET_X \<equiv> 541"
abbreviation (input) OP2D_SET_SHADOW_OFFSET_Y :: u32 where "OP2D_SET_SHADOW_OFFSET_Y \<equiv> 542"
abbreviation (input) OP2D_SET_LINE_CAP :: u32 where "OP2D_SET_LINE_CAP \<equiv> 543"
abbreviation (input) OP2D_SET_LINE_JOIN :: u32 where "OP2D_SET_LINE_JOIN \<equiv> 544"
abbreviation (input) OP2D_SET_COMPOSITE_OPERATION :: u32 where "OP2D_SET_COMPOSITE_OPERATION \<equiv> 545"
abbreviation (input) OP2D_SET_FILL_STYLE :: u32 where "OP2D_SET_FILL_STYLE \<equiv> 546"
abbreviation (input) OP2D_SET_STROKE_STYLE :: u32 where "OP2D_SET_STROKE_STYLE \<equiv> 547"
abbreviation (input) OP2D_SET_SHADOW_COLOR :: u32 where "OP2D_SET_SHADOW_COLOR \<equiv> 548"
abbreviation (input) OP2D_END :: u32 where "OP2D_END \<equiv> 549"

definition canvas2d_specs :: "(u32 \<times> u32 \<times> nat list) list" where
  "canvas2d_specs =
   [(OP2D_SELECT_CANVAS, (2, [])),
    (OP2D_BEGIN_PATH, (1, [])),
    (OP2D_CLOSE_PATH, (1, [])),
    (OP2D_MOVE_TO, (3, [])),
    (OP2D_LINE_TO, (3, [])),
    (OP2D_QUADRATIC_CURVE_TO, (5, [])),
    (OP2D_BEZIER_CURVE_TO, (7, [])),
    (OP2D_ARC, (7, [6])),
    (OP2D_ARC_TO, (6, [])),
    (OP2D_RECT, (5, [])),
    (OP2D_ELLIPSE, (9, [8])),
    (OP2D_FILL, (1, [])),
    (OP2D_STROKE, (1, [])),
    (OP2D_CLIP, (1, [])),
    (OP2D_FILL_RECT, (5, [])),
    (OP2D_STROKE_RECT, (5, [])),
    (OP2D_CLEAR_RECT, (5, [])),
    (OP2D_SAVE, (1, [])),
    (OP2D_RESTORE, (1, [])),
    (OP2D_RESET_TRANSFORM, (1, [])),
    (OP2D_SET_TRANSFORM, (7, [])),
    (OP2D_TRANSLATE, (3, [])),
    (OP2D_SCALE, (3, [])),
    (OP2D_ROTATE, (2, [])),
    (OP2D_SET_LINE_WIDTH, (2, [])),
    (OP2D_SET_GLOBAL_ALPHA, (2, [])),
    (OP2D_SET_MITER_LIMIT, (2, [])),
    (OP2D_SET_LINE_DASH_OFFSET, (2, [])),
    (OP2D_SET_SHADOW_BLUR, (2, [])),
    (OP2D_SET_SHADOW_OFFSET_X, (2, [])),
    (OP2D_SET_SHADOW_OFFSET_Y, (2, [])),
    (OP2D_SET_LINE_CAP, (2, [])),
    (OP2D_SET_LINE_JOIN, (2, [])),
    (OP2D_SET_COMPOSITE_OPERATION, (2, [])),
    (OP2D_SET_FILL_STYLE, (5, [])),
    (OP2D_SET_STROKE_STYLE, (5, [])),
    (OP2D_SET_SHADOW_COLOR, (5, []))]"

definition canvas2d_record_spec :: "u32 \<Rightarrow> record_spec option" where
  "canvas2d_record_spec opcode =
     (case map_of canvas2d_specs opcode of
        None \<Rightarrow> None
      | Some (word_count, bool_words) \<Rightarrow> Some (Fixed word_count bool_words))"

section \<open>Routing\<close>

definition record_spec_of :: "u32 \<Rightarrow> record_spec option" where
  "record_spec_of opcode =
     (if opcode \<ge> OP2D_BASE then canvas2d_record_spec opcode else gl_record_spec opcode)"

end
