(* ===== verification/Stream.thy ===== *)
theory Stream
  imports Stream_Tables
begin

unbundle bit_operations_syntax

text \<open>
  The record envelope of \<open>engine/crates/frame-wire/src/stream.rs\<close>: the header
  codec and the structural validator (pass one). A validated stream is a list of
  words; the walk over its records is a recursion on the cursor. The grammar at
  the end says what the walk accepts: a magic word, a version and a concatenation
  of records, each of the shape its opcode has in the tables.
\<close>

section \<open>Header codec\<close>

abbreviation (input) STREAM_MAGIC :: u32 where "STREAM_MAGIC \<equiv> 0x4D474C31"
abbreviation (input) STREAM_VERSION :: u32 where "STREAM_VERSION \<equiv> 1"

definition pack_header :: "u32 \<Rightarrow> u32 \<Rightarrow> u32" where
  "pack_header opcode word_count = push_bit 12 word_count OR (opcode AND 0xFFF)"

definition opcode_of :: "u32 \<Rightarrow> u32" where
  "opcode_of h = h AND 0xFFF"

definition word_count_of :: "u32 \<Rightarrow> u32" where
  "word_count_of h = drop_bit 12 h"

section \<open>Errors\<close>

datatype stream_error =
    TooShort | BadStreamMagic | BadVersion | UsedTooLarge | ZeroWordCount | UnknownOpcode u32
  | BadArity | Truncated | Overflow | BadBool | UniformPayloadTooLarge

fun stream_error_code :: "stream_error \<Rightarrow> u32" where
  "stream_error_code TooShort = 1"
| "stream_error_code BadStreamMagic = 2"
| "stream_error_code BadVersion = 3"
| "stream_error_code UsedTooLarge = 4"
| "stream_error_code ZeroWordCount = 5"
| "stream_error_code (UnknownOpcode _) = 6"
| "stream_error_code BadArity = 7"
| "stream_error_code Truncated = 8"
| "stream_error_code BadBool = 10"
| "stream_error_code UniformPayloadTooLarge = 11"
| "stream_error_code Overflow = 12"

section \<open>Validation\<close>

text \<open>\<open>words.get(i)\<close>, whose absence is an error value and not a panic.\<close>

definition get :: "'a list \<Rightarrow> nat \<Rightarrow> 'a option" where
  "get xs i = (if i < length xs then Some (xs ! i) else None)"

fun check_bool_words :: "u32 list \<Rightarrow> nat \<Rightarrow> nat list \<Rightarrow> stream_error option" where
  "check_bool_words words cursor [] = None"
| "check_bool_words words cursor (bi # bis) =
     (case get words (cursor + bi) of
        None \<Rightarrow> Some Truncated
      | Some val \<Rightarrow> if val > 1 then Some BadBool else check_bool_words words cursor bis)"

fun check_spec :: "u32 list \<Rightarrow> nat \<Rightarrow> u32 \<Rightarrow> record_spec \<Rightarrow> stream_error option" where
  "check_spec words cursor wc (Fixed word_count bool_words) =
     (if wc \<noteq> word_count then Some BadArity else check_bool_words words cursor bool_words)"
| "check_spec words cursor wc (VectorUniform element_kind) =
     (if wc < 3 then Some BadArity
      else if wc - 3 > MAX_STREAM_UNIFORM_WORDS then Some UniformPayloadTooLarge else None)"
| "check_spec words cursor wc (MatrixUniform element_kind transpose_word_idx) =
     (if wc < 4 then Some BadArity
      else if wc - 4 > MAX_STREAM_UNIFORM_WORDS then Some UniformPayloadTooLarge
      else case get words (cursor + transpose_word_idx) of
             None \<Rightarrow> Some Truncated
           | Some t_val \<Rightarrow> if t_val > 1 then Some BadBool else None)"

text \<open>One iteration of the walk: the cursor of the next record, or the error.\<close>

definition walk_record :: "u32 list \<Rightarrow> nat \<Rightarrow> nat \<Rightarrow> stream_error + nat" where
  "walk_record words used cursor =
     (case get words cursor of None \<Rightarrow> Inl Truncated | Some header \<Rightarrow>
        let opcode = opcode_of header; wc = word_count_of header in
        if wc = 0 then Inl ZeroWordCount else
        case usize_checked_add cursor (unat wc) of None \<Rightarrow> Inl Overflow | Some record_end \<Rightarrow>
        if record_end > used then Inl Truncated else
        case record_spec_of opcode of None \<Rightarrow> Inl (UnknownOpcode opcode) | Some spec \<Rightarrow>
        case check_spec words cursor wc spec of Some e \<Rightarrow> Inl e | None \<Rightarrow> Inr record_end)"

lemma walk_record_advances:
  assumes "walk_record words used cursor = Inr nxt"
  shows "cursor < nxt" and "nxt \<le> used"
  using assms
  by (auto simp: walk_record_def Let_def usize_checked_add_def unat_gt_0
      split: option.splits if_splits)

function walk_records :: "u32 list \<Rightarrow> nat \<Rightarrow> nat \<Rightarrow> stream_error + nat" where
  "walk_records words used cursor =
     (if cursor \<ge> used then Inr cursor
      else case walk_record words used cursor of
             Inl e \<Rightarrow> Inl e
           | Inr nxt \<Rightarrow> walk_records words used nxt)"
  by pat_completeness auto
termination
  by (relation "measure (\<lambda>(words, used, cursor). used - cursor)")
     (auto dest: walk_record_advances)

declare walk_records.simps [simp del]

definition validate_stream :: "u32 list \<Rightarrow> u32 \<Rightarrow> (stream_error, u32 list) rust_result" where
  "validate_stream words used_words =
     (if used_words < 2 then Err TooShort else
      let max_used = (word_of_nat (min (length words) 8192) :: u32) in
      if used_words > max_used then
        (if length words < unat used_words then Err UsedTooLarge else Err UsedTooLarge)
      else let used = unat used_words in
      case get words 0 of None \<Rightarrow> Err TooShort | Some w0 \<Rightarrow>
      if w0 \<noteq> STREAM_MAGIC then Err BadStreamMagic else
      case get words 1 of None \<Rightarrow> Err TooShort | Some w1 \<Rightarrow>
      if w1 \<noteq> STREAM_VERSION then Err BadVersion else
      case walk_records words used 2 of
        Inl e \<Rightarrow> Err e
      | Inr cursor \<Rightarrow>
          if cursor \<noteq> used then Panic
          else map_option Inr (slice words 0 used))"

section \<open>The grammar\<close>

fun spec_ok :: "record_spec \<Rightarrow> u32 list \<Rightarrow> bool" where
  "spec_ok (Fixed n bools) r \<longleftrightarrow> length r = unat n \<and> list_all (\<lambda>b. b < length r \<and> r ! b \<le> 1) bools"
| "spec_ok (VectorUniform k) r \<longleftrightarrow> 3 \<le> length r \<and> length r \<le> 515"
| "spec_ok (MatrixUniform k t) r \<longleftrightarrow> 4 \<le> length r \<and> length r \<le> 516 \<and> t < length r \<and> r ! t \<le> 1"

definition record_ok :: "u32 list \<Rightarrow> bool" where
  "record_ok r \<longleftrightarrow>
     r \<noteq> [] \<and> unat (word_count_of (hd r)) = length r \<and>
     (case record_spec_of (opcode_of (hd r)) of None \<Rightarrow> False | Some spec \<Rightarrow> spec_ok spec r)"

definition stream_of :: "u32 list list \<Rightarrow> u32 list" where
  "stream_of rs = STREAM_MAGIC # STREAM_VERSION # concat rs"

section \<open>Header codec lemmas\<close>

lemma unat_word_count_of: "unat (word_count_of h) = unat h div 2 ^ 12"
  by (simp add: word_count_of_def drop_bit_eq_div unat_div)

lemma word_count_bound: "unat (word_count_of h) < 2 ^ 20"
  using unat_bound [of h] by (simp add: unat_word_count_of)

lemma mask_12: "(0xFFF :: u32) = mask 12"
  by (simp add: mask_eq_exp_minus_1)

lemma opcode_of_bound: "opcode_of h \<le> 0xFFF"
  by (simp add: opcode_of_def word_and_le1)

lemma opcode_of_pack:
  assumes "opcode < 2 ^ 12"
  shows "opcode_of (pack_header opcode wc) = opcode"
proof -
  have "opcode_of (pack_header opcode wc) = take_bit 12 opcode"
    unfolding opcode_of_def pack_header_def mask_12
    by (rule bit_word_eqI) (auto simp: bit_simps)
  also have "\<dots> = opcode"
    using assms by (simp add: take_bit_small word_less_nat_alt)
  finally show ?thesis .
qed

lemma word_count_of_pack:
  assumes "wc < 2 ^ 20"
  shows "word_count_of (pack_header opcode wc) = wc"
proof -
  have "word_count_of (pack_header opcode wc) = take_bit 20 wc"
    unfolding word_count_of_def pack_header_def mask_12
    by (rule bit_word_eqI) (auto simp: bit_simps)
  also have "\<dots> = wc"
    using assms by (simp add: take_bit_small word_less_nat_alt)
  finally show ?thesis .
qed

lemma pack_header_of: "pack_header (opcode_of h) (word_count_of h) = h"
  unfolding opcode_of_def word_count_of_def pack_header_def mask_12
  by (rule bit_word_eqI) (auto simp: bit_simps)

section \<open>The tables\<close>

lemmas spec_tables =
  gl_spec_state_a_def gl_spec_state_b_def gl_spec_draw_def gl_spec_uniform_def canvas2d_specs_def

text \<open>
  A property of every table entry holds of every spec a lookup returns, which is
  how facts about the tables are used: checked once over the lists.
\<close>

lemma record_spec_of_cases:
  assumes "record_spec_of opcode = Some spec"
  obtains (gl) "opcode < OP2D_BASE"
      "(opcode, spec) \<in> set (gl_spec_state_a @ gl_spec_state_b @ gl_spec_draw @ gl_spec_uniform)"
    | (canvas) n bools where "OP2D_BASE \<le> opcode" "(opcode, n, bools) \<in> set canvas2d_specs"
      "spec = Fixed n bools"
  using assms
  unfolding record_spec_of_def gl_record_spec_def canvas2d_record_spec_def
  by (auto simp: not_le split: if_splits option.splits dest!: map_of_SomeD)

fun spec_indices_ok :: "record_spec \<Rightarrow> bool" where
  "spec_indices_ok (Fixed n bools) \<longleftrightarrow> 0 < unat n \<and> unat n \<le> 9 \<and> list_all (\<lambda>b. b < unat n) bools"
| "spec_indices_ok (VectorUniform k) \<longleftrightarrow> True"
| "spec_indices_ok (MatrixUniform k t) \<longleftrightarrow> t < 4"

lemma gl_table_indices:
  "list_all (\<lambda>(opcode, spec). spec_indices_ok spec)
     (gl_spec_state_a @ gl_spec_state_b @ gl_spec_draw @ gl_spec_uniform)"
  by (simp add: spec_tables)

lemma canvas2d_table_indices: "list_all (\<lambda>(opcode, n, bools). spec_indices_ok (Fixed n bools)) canvas2d_specs"
  by (simp add: spec_tables)

lemma record_spec_indices:
  assumes "record_spec_of opcode = Some spec"
  shows "spec_indices_ok spec"
  using assms
proof (cases rule: record_spec_of_cases)
  case gl
  then show ?thesis using gl_table_indices by (auto simp: list_all_iff)
next
  case (canvas n bools)
  then show ?thesis using canvas2d_table_indices by (auto simp: list_all_iff)
qed

section \<open>The walk recognises the grammar\<close>

lemma get_Some_iff: "get xs i = Some x \<longleftrightarrow> i < length xs \<and> xs ! i = x"
  by (auto simp: get_def)

lemma get_append: "length pre \<le> i \<Longrightarrow> get (pre @ xs) i = get xs (i - length pre)"
  by (auto simp: get_def nth_append)

lemma check_bool_words_None:
  "check_bool_words words cursor bis = None \<longleftrightarrow>
   list_all (\<lambda>b. cursor + b < length words \<and> words ! (cursor + b) \<le> 1) bis"
  by (induction bis) (auto simp: get_def not_le)

text \<open>A record inside a longer word list is checked as it would be alone.\<close>

lemma check_spec_None_iff:
  assumes ind: "spec_indices_ok spec" and len: "unat wc = length r" and pre: "cursor = length pre"
  shows "check_spec (pre @ r @ post) cursor wc spec = None \<longleftrightarrow> spec_ok spec r"
proof (cases spec)
  case (Fixed n bools)
  have "cursor + b < length (pre @ r @ post) \<and> (pre @ r @ post) ! (cursor + b) \<le> 1 \<longleftrightarrow>
      b < length r \<and> r ! b \<le> 1" if "b \<in> set bools" "wc = n" for b
    using that ind len pre Fixed by (auto simp: list_all_iff nth_append)
  then show ?thesis
    using len by (auto simp: Fixed check_bool_words_None list_all_iff word_unat_eq_iff)
next
  case (VectorUniform k)
  then show ?thesis
    using len by (auto simp: word_less_nat_alt word_le_nat_alt unat_sub)
next
  case (MatrixUniform k t)
  have "(case get (pre @ r @ post) (cursor + t) of None \<Rightarrow> Some Truncated
         | Some t_val \<Rightarrow> if t_val > 1 then Some BadBool else None) = None \<longleftrightarrow> r ! t \<le> 1"
    if "4 \<le> length r"
    using that ind pre MatrixUniform by (auto simp: get_def nth_append)
  then show ?thesis
    using ind len by (auto simp: MatrixUniform word_less_nat_alt word_le_nat_alt unat_sub)
qed

lemma walk_record_Inr_iff:
  assumes "cursor < used" and "used \<le> length words" and "used \<le> 8192"
  shows "walk_record words used cursor = Inr nxt \<longleftrightarrow>
    (\<exists>r. record_ok r \<and> nxt = cursor + length r \<and> nxt \<le> used \<and> take (length r) (drop cursor words) = r)"
    (is "?walk \<longleftrightarrow> ?rec")
proof -
  let ?h = "words ! cursor"
  let ?n = "unat (word_count_of ?h)"
  let ?r = "take ?n (drop cursor words)"
  have hd: "get words cursor = Some ?h" "0 < ?n \<Longrightarrow> hd ?r = ?h"
    using assms by (simp_all add: get_def hd_drop_conv_nth)
  have split: "words = take cursor words @ ?r @ drop (cursor + ?n) words"
    by (metis append_take_drop_id drop_drop add.commute)
  have spec: "check_spec words cursor (word_count_of ?h) spec = None \<longleftrightarrow> spec_ok spec ?r"
    if "record_spec_of (opcode_of ?h) = Some spec" "cursor + ?n \<le> used" for spec
    using check_spec_None_iff [OF record_spec_indices [OF that(1)], of "word_count_of ?h" ?r cursor
        "take cursor words" "drop (cursor + ?n) words"] that assms split by simp
  have add: "usize_checked_add cursor ?n = Some (cursor + ?n)" if "cursor + ?n \<le> used"
    using that assms by (simp add: usize_checked_add_def usize_max_def)
  have walk: "?walk \<longleftrightarrow> 0 < ?n \<and> nxt = cursor + ?n \<and> nxt \<le> used \<and> record_ok ?r"
  proof (cases "0 < ?n \<and> cursor + ?n \<le> used")
    case True
    have "?r \<noteq> []" and "length ?r = ?n"
      using True assms by auto
    then have "record_ok ?r \<longleftrightarrow>
        (case record_spec_of (opcode_of ?h) of None \<Rightarrow> False | Some spec \<Rightarrow> spec_ok spec ?r)"
      using hd(2) True by (simp only: record_ok_def) simp
    then show ?thesis
      using True hd(1) add spec
      by (auto simp: walk_record_def Let_def unat_gt_0 split: option.splits)
  next
    case False
    then show ?thesis
      using walk_record_advances [of words used cursor "cursor + ?n"] hd(1)
      by (auto simp: walk_record_def Let_def usize_checked_add_def split: option.splits if_splits)
  qed
  also have "\<dots> \<longleftrightarrow> ?rec"
  proof
    assume "0 < ?n \<and> nxt = cursor + ?n \<and> nxt \<le> used \<and> record_ok ?r"
    then show ?rec
      using assms by (intro exI [of _ ?r]) auto
  next
    assume ?rec
    then obtain r where r: "record_ok r" "nxt = cursor + length r" "nxt \<le> used"
        "take (length r) (drop cursor words) = r" by blast
    then have "hd r = ?h"
      using assms by (metis drop_eq_Nil2 hd_drop_conv_nth hd_take leD length_greater_0_conv order_less_le_trans record_ok_def)
    then have "?n = length r"
      using r(1) by (simp add: record_ok_def)
    then show "0 < ?n \<and> nxt = cursor + ?n \<and> nxt \<le> used \<and> record_ok ?r"
      using r by (auto simp: record_ok_def)
  qed
  finally show ?thesis .
qed

lemma walk_records_Inr_iff:
  assumes "cursor \<le> used" and "used \<le> length words" and "used \<le> 8192"
  shows "walk_records words used cursor = Inr c \<longleftrightarrow>
    c = used \<and> (\<exists>rs. list_all record_ok rs \<and> concat rs = drop cursor (take used words))"
  using assms
proof (induction words used cursor rule: walk_records.induct)
  case (1 words used cursor)
  show ?case
  proof (cases "cursor = used")
    case True
    then show ?thesis
      using "1.prems" by (auto simp: walk_records.simps intro: exI [of _ "[]"])
  next
    case False
    then have lt: "cursor < used" using "1.prems" by simp
    have step: "walk_records words used cursor = Inr c \<longleftrightarrow>
       (\<exists>nxt. walk_record words used cursor = Inr nxt \<and> walk_records words used nxt = Inr c)"
      using lt by (subst walk_records.simps) (auto split: sum.split)
    have cons: "(\<exists>rs. list_all record_ok rs \<and> concat rs = drop cursor (take used words)) \<longleftrightarrow>
       (\<exists>r rs. record_ok r \<and> list_all record_ok rs \<and> r @ concat rs = drop cursor (take used words))"
    proof -
      have "concat [] \<noteq> drop cursor (take used words)"
        using lt "1.prems" by auto
      then show ?thesis
        by (metis concat.simps(2) list.exhaust list.pred_inject(2))
    qed
    have split: "r @ concat rs = drop cursor (take used words) \<longleftrightarrow>
       cursor + length r \<le> used \<and> take (length r) (drop cursor words) = r \<and>
       concat rs = drop (cursor + length r) (take used words)" for r and rs :: "u32 list list"
      using lt "1.prems"
      by (auto simp: append_eq_conv_conj drop_take min_def add.commute)
    have IH: "walk_records words used nxt = Inr c \<longleftrightarrow>
       c = used \<and> (\<exists>rs. list_all record_ok rs \<and> concat rs = drop nxt (take used words))"
      if "walk_record words used cursor = Inr nxt" for nxt
      using "1.IH" [OF _ that] walk_record_advances [OF that] lt "1.prems" by simp
    show ?thesis
    proof
      assume "walk_records words used cursor = Inr c"
      then obtain nxt where nxt: "walk_record words used cursor = Inr nxt" "walk_records words used nxt = Inr c"
        unfolding step by blast
      obtain r where r: "record_ok r" "nxt = cursor + length r" "nxt \<le> used" "take (length r) (drop cursor words) = r"
        using nxt(1) unfolding walk_record_Inr_iff [OF lt "1.prems"(2,3)] by blast
      obtain rs where rs: "c = used" "list_all record_ok rs" "concat rs = drop nxt (take used words)"
        using nxt(2) unfolding IH [OF nxt(1)] by blast
      have "r @ concat rs = drop cursor (take used words)"
        unfolding split using r rs by simp
      then show "c = used \<and> (\<exists>rs. list_all record_ok rs \<and> concat rs = drop cursor (take used words))"
        unfolding cons using r(1) rs(1,2) by blast
    next
      assume *: "c = used \<and> (\<exists>rs. list_all record_ok rs \<and> concat rs = drop cursor (take used words))"
      then obtain r rs where r: "record_ok r" "list_all record_ok rs" "r @ concat rs = drop cursor (take used words)"
        unfolding cons by blast
      then have nxt: "walk_record words used cursor = Inr (cursor + length r)"
        unfolding walk_record_Inr_iff [OF lt "1.prems"(2,3)] split by blast
      have "walk_records words used (cursor + length r) = Inr c"
        unfolding IH [OF nxt] using * r unfolding split by blast
      then show "walk_records words used cursor = Inr c"
        unfolding step using nxt by blast
    qed
  qed
qed

section \<open>Validated streams\<close>

lemma validate_stream_walk:
  assumes "2 \<le> unat used_words" and "unat used_words \<le> min (length words) 8192"
    and "words ! 0 = STREAM_MAGIC" and "words ! 1 = STREAM_VERSION"
  shows "validate_stream words used_words =
    (case walk_records words (unat used_words) 2 of
       Inl e \<Rightarrow> Err e | Inr c \<Rightarrow> Ok (take (unat used_words) words))"
proof -
  have "unat (word_of_nat (min (length words) 8192) :: u32) = min (length words) 8192"
    by (simp add: unat_of_nat)
  moreover have "c = unat used_words" if "walk_records words (unat used_words) 2 = Inr c" for c
    using that assms by (subst (asm) walk_records_Inr_iff) auto
  ultimately show ?thesis
    using assms
    by (auto simp: validate_stream_def Let_def get_def word_less_nat_alt split: sum.split)
qed

lemma validate_stream_guards:
  assumes "\<not> (2 \<le> unat used_words \<and> unat used_words \<le> min (length words) 8192
      \<and> words ! 0 = STREAM_MAGIC \<and> words ! 1 = STREAM_VERSION)"
  shows "\<exists>e. validate_stream words used_words = Err e"
proof -
  have "unat (word_of_nat (min (length words) 8192) :: u32) = min (length words) 8192"
    by (simp add: unat_of_nat)
  then show ?thesis
    using assms
    by (auto simp: validate_stream_def Let_def get_def word_less_nat_alt)
qed

lemma validate_stream_Ok_iff:
  "validate_stream words used_words = Ok s \<longleftrightarrow>
     unat used_words \<le> min (length words) 8192 \<and> s = take (unat used_words) words \<and>
     (\<exists>rs. list_all record_ok rs \<and> s = stream_of rs)"
proof (cases "2 \<le> unat used_words \<and> unat used_words \<le> min (length words) 8192
      \<and> words ! 0 = STREAM_MAGIC \<and> words ! 1 = STREAM_VERSION")
  case True
  define ws where "ws = take (unat used_words) words"
  have "2 \<le> length ws" "ws ! 0 = STREAM_MAGIC" "ws ! 1 = STREAM_VERSION"
    using True by (simp_all add: ws_def)
  then have "ws = STREAM_MAGIC # STREAM_VERSION # drop 2 ws"
    by (cases ws rule: remdups_adj.cases) auto
  then have "ws = stream_of rs \<longleftrightarrow> concat rs = drop 2 ws" for rs
    by (simp only: stream_of_def) (metis list.inject)
  then have "take (unat used_words) words = stream_of rs \<longleftrightarrow> concat rs = drop 2 (take (unat used_words) words)" for rs
    by (simp only: ws_def)
  then show ?thesis
    using True walk_records_Inr_iff [of 2 "unat used_words" words]
    by (subst validate_stream_walk) (auto split: sum.split)
next
  case False
  then obtain e where "validate_stream words used_words = Err e"
    using validate_stream_guards by blast
  moreover have "\<not> (unat used_words \<le> min (length words) 8192 \<and> take (unat used_words) words = stream_of rs)" for rs
  proof
    assume *: "unat used_words \<le> min (length words) 8192 \<and> take (unat used_words) words = stream_of rs"
    then have "2 \<le> length (take (unat used_words) words)"
      by (simp add: stream_of_def)
    then have "2 \<le> unat used_words" by simp
    moreover have "words ! 0 = stream_of rs ! 0" "words ! 1 = stream_of rs ! 1"
      using * nth_take [of 0 "unat used_words" words] nth_take [of 1 "unat used_words" words] calculation
      by simp_all
    ultimately show False
      using * False by (simp add: stream_of_def)
  qed
  ultimately show ?thesis by auto
qed

lemma validate_stream_no_panic: "validate_stream words used_words \<noteq> Panic"
  using validate_stream_guards validate_stream_walk [of used_words words]
  by (cases "2 \<le> unat used_words \<and> unat used_words \<le> min (length words) 8192
    \<and> words ! 0 = STREAM_MAGIC \<and> words ! 1 = STREAM_VERSION") (force split: sum.splits)+

lemma record_ok_prefix_eq:
  assumes "record_ok r" and "record_ok r'" and "r @ xs = r' @ ys"
  shows "r = r'"
proof -
  have "hd r = hd r'"
    using assms by (metis hd_append2 record_ok_def)
  then have "length r = length r'"
    using assms(1,2) by (simp add: record_ok_def)
  then show ?thesis
    using assms(3) by simp
qed

lemma records_unique:
  "list_all record_ok rs \<Longrightarrow> list_all record_ok rs' \<Longrightarrow> concat rs = concat rs' \<Longrightarrow> rs = rs'"
proof (induction rs arbitrary: rs')
  case Nil
  then show ?case by (cases rs') (auto simp: record_ok_def)
next
  case (Cons r rs)
  then obtain r' rs'' where rs': "rs' = r' # rs''"
    by (cases rs') (auto simp: record_ok_def)
  then have "r = r'"
    using Cons.prems record_ok_prefix_eq [of r r' "concat rs" "concat rs''"] by simp
  then show ?case
    using Cons rs' by simp
qed

section \<open>Properties\<close>

text \<open>
  C31. Pass one never panics and recognises exactly the record grammar: the words
  are accepted if and only if the used prefix is at most 8192 words and is the
  magic word, the version and a concatenation of records that each have the length
  their header states and the shape their opcode has. The split into records is
  unique, and the walk lands exactly on the used length (its debug assertion holds).
\<close>

theorem validate_stream_grammar:
  "validate_stream words used_words \<noteq> Panic \<and>
   (validate_stream words used_words = Ok s \<longleftrightarrow>
      unat used_words \<le> min (length words) 8192 \<and> s = take (unat used_words) words \<and>
      (\<exists>!rs. list_all record_ok rs \<and> s = stream_of rs))"
proof -
  have "rs = rs'" if "list_all record_ok rs" "list_all record_ok rs'" "stream_of rs = stream_of rs'" for rs rs'
    using that records_unique by (simp add: stream_of_def)
  then show ?thesis
    using validate_stream_no_panic unfolding validate_stream_Ok_iff by metis
qed

text \<open>
  The record header codec is a bijection between header words and pairs of a
  12-bit opcode and a 20-bit word count.
\<close>

lemma header_codec_roundtrip:
  "pack_header (opcode_of h) (word_count_of h) = h \<and>
   (opcode < 2 ^ 12 \<and> wc < 2 ^ 20 \<longrightarrow>
      opcode_of (pack_header opcode wc) = opcode \<and> word_count_of (pack_header opcode wc) = wc)"
  using pack_header_of opcode_of_pack word_count_of_pack by blast

lemma header_codec_roundtrip_witness:
  "opcode_of (pack_header OP_VIEWPORT 6) = OP_VIEWPORT \<and> word_count_of (pack_header OP_VIEWPORT 6) = 6"
  using header_codec_roundtrip [of 0 OP_VIEWPORT 6] by simp

lemma gl_opcodes:
  "map (unat \<circ> fst) (gl_spec_state_a @ gl_spec_state_b @ gl_spec_draw @ gl_spec_uniform) = [1..<59] @ [256..<267]"
  by (simp add: spec_tables upt_conv_Cons)

lemma canvas2d_opcodes: "sort (map (unat \<circ> fst) canvas2d_specs) = [512..<549]"
  by (simp add: spec_tables upt_conv_Cons)

lemma distinct_map_fst_unat: "distinct (map (unat \<circ> fst) t) \<Longrightarrow> distinct (map fst t)"
  using distinct_map [of unat "map fst t"] by (simp add: o_def)

lemma table_known:
  "map_of t opcode \<noteq> None \<longleftrightarrow> unat opcode \<in> set (map (unat \<circ> fst) t)" for opcode :: u32
  by (induction t) (auto simp: word_unat_eq_iff)

text \<open>
  The opcode blocks do not overlap: an opcode is known exactly if it is in 1 to
  58, 256 to 266 or 512 to 548, no table lists an opcode twice, and from 512 on it
  is a Canvas2D record, of fixed shape.
\<close>

lemma opcode_blocks:
  "(record_spec_of opcode \<noteq> None \<longleftrightarrow>
      unat opcode \<in> {1..58} \<union> {256..266} \<union> {512..548}) \<and>
   (record_spec_of opcode = Some spec \<and> opcode \<ge> OP2D_BASE \<longrightarrow> (\<exists>n bools. spec = Fixed n bools)) \<and>
   distinct (map fst (gl_spec_state_a @ gl_spec_state_b @ gl_spec_draw @ gl_spec_uniform)) \<and>
   distinct (map fst canvas2d_specs)"
proof (intro conjI)
  have c2d: "set (map (unat \<circ> fst) canvas2d_specs) = {512..<549}"
    using canvas2d_opcodes by (metis set_sort set_upt)
  have "map_of canvas2d_specs opcode \<noteq> None \<longleftrightarrow> unat opcode \<in> {512..<549}"
    using table_known [of canvas2d_specs opcode] c2d by simp
  then have "canvas2d_record_spec opcode \<noteq> None \<longleftrightarrow> unat opcode \<in> {512..<549}"
    by (auto simp: canvas2d_record_spec_def split: option.splits)
  moreover have "gl_record_spec opcode \<noteq> None \<longleftrightarrow> unat opcode \<in> {1..<59} \<union> {256..<267}"
    using table_known [of "gl_spec_state_a @ gl_spec_state_b @ gl_spec_draw @ gl_spec_uniform" opcode]
    unfolding gl_record_spec_def gl_opcodes by (simp only: set_append set_upt)
  moreover have "opcode \<ge> OP2D_BASE \<longleftrightarrow> 512 \<le> unat opcode"
    by (simp add: word_le_nat_alt)
  ultimately show "record_spec_of opcode \<noteq> None \<longleftrightarrow> unat opcode \<in> {1..58} \<union> {256..266} \<union> {512..548}"
    by (auto simp: record_spec_of_def)
  show "record_spec_of opcode = Some spec \<and> opcode \<ge> OP2D_BASE \<longrightarrow> (\<exists>n bools. spec = Fixed n bools)"
    by (auto simp: record_spec_of_def canvas2d_record_spec_def split: option.splits)
  show "distinct (map fst (gl_spec_state_a @ gl_spec_state_b @ gl_spec_draw @ gl_spec_uniform))"
    by (rule distinct_map_fst_unat) (simp only: gl_opcodes, simp)
  show "distinct (map fst canvas2d_specs)"
    by (rule distinct_map_fst_unat) (metis canvas2d_opcodes distinct_sort distinct_upt)
qed

lemma opcode_blocks_witness:
  "\<exists>n bools. record_spec_of OP2D_ARC = Some (Fixed n bools)"
proof -
  have "record_spec_of OP2D_ARC = Some (Fixed 7 [6])"
    by (simp add: record_spec_of_def canvas2d_record_spec_def canvas2d_specs_def)
  then show ?thesis
    using opcode_blocks [of OP2D_ARC "Fixed 7 [6]"] by simp
qed

end
