(* ===== verification/Decode_Validate.thy ===== *)
theory Decode_Validate
  imports Prelude Render_Commands
begin

text \<open>
  Parameter validation of \<open>engine/crates/frame-decode/src/validate.rs\<close> and the
  word readers of \<open>lib.rs\<close>. The host is the trait \<open>GlDecodeContext\<close>: a record of
  its two methods over a state of its own. A validator returns the state with the
  error it reported and whether the call may go on.
\<close>

section \<open>Reading a word\<close>

definition i32_of :: "u32 \<Rightarrow> i32" where "i32_of w = sint w"
definition f32_of :: "u32 \<Rightarrow> f32" where "f32_of w = F32 w"
definition bool_of :: "u32 \<Rightarrow> bool" where "bool_of w \<longleftrightarrow> w \<noteq> 0"

definition signed_id :: "u32 \<Rightarrow> u32 option" where
  "signed_id w = (if sint w < 0 then None else Some w)"

definition nonzero_id :: "u32 \<Rightarrow> u32 option" where
  "nonzero_id w = (if w = 0 then None else Some w)"

definition location :: "u32 \<Rightarrow> u32 option" where
  "location w = (if sint w < 0 then None else Some w)"

section \<open>Error codes\<close>

abbreviation (input) NO_ERROR :: u32 where "NO_ERROR \<equiv> 0"
abbreviation (input) INVALID_ENUM :: u32 where "INVALID_ENUM \<equiv> 0x0500"
abbreviation (input) INVALID_VALUE :: u32 where "INVALID_VALUE \<equiv> 0x0501"
abbreviation (input) INVALID_OPERATION :: u32 where "INVALID_OPERATION \<equiv> 0x0502"
abbreviation (input) OUT_OF_MEMORY :: u32 where "OUT_OF_MEMORY \<equiv> 0x0505"
abbreviation (input) INVALID_FRAMEBUFFER_OPERATION :: u32 where "INVALID_FRAMEBUFFER_OPERATION \<equiv> 0x0506"
abbreviation (input) CONTEXT_LOST_WEBGL :: u32 where "CONTEXT_LOST_WEBGL \<equiv> 0x9242"

abbreviation (input) GL_TRANSFORM_FEEDBACK_BUFFER :: u32 where "GL_TRANSFORM_FEEDBACK_BUFFER \<equiv> 0x8C8E"
abbreviation (input) GL_UNIFORM_BUFFER :: u32 where "GL_UNIFORM_BUFFER \<equiv> 0x8A11"

section \<open>The context\<close>

record 'c gl_context =
  push_error :: "'c \<Rightarrow> u32 \<Rightarrow> u32 \<Rightarrow> 'c"
  transform_feedback_captures :: "'c \<Rightarrow> u32 \<Rightarrow> bool"

section \<open>Validators\<close>

definition validate_bind_buffer_target :: "'c gl_context \<Rightarrow> 'c \<Rightarrow> u32 \<Rightarrow> u32 \<Rightarrow> 'c \<times> bool" where
  "validate_bind_buffer_target C context canvas_id target =
     (if target \<in> set [0x8892, 0x8893, 0x8F36, 0x8F37, 0x8C8E, 0x8A11, 0x88EB, 0x88EC]
      then (context, True)
      else (push_error C context canvas_id INVALID_ENUM, False))"

definition validate_bind_buffer_indexed_target :: "'c gl_context \<Rightarrow> 'c \<Rightarrow> u32 \<Rightarrow> u32 \<Rightarrow> 'c \<times> bool" where
  "validate_bind_buffer_indexed_target C context canvas_id target =
     (if target \<in> set [GL_TRANSFORM_FEEDBACK_BUFFER, GL_UNIFORM_BUFFER] then (context, True)
      else (push_error C context canvas_id INVALID_ENUM, False))"

definition validate_bind_buffer_base ::
    "'c gl_context \<Rightarrow> 'c \<Rightarrow> u32 \<Rightarrow> u32 \<Rightarrow> u32 \<Rightarrow> u32 option \<Rightarrow> 'c \<times> bool" where
  "validate_bind_buffer_base C context canvas_id target index buffer =
     (let (context, ok) = validate_bind_buffer_indexed_target C context canvas_id target in
      if \<not> ok then (context, False)
      else if target = GL_TRANSFORM_FEEDBACK_BUFFER \<and> transform_feedback_captures C context canvas_id
      then (push_error C context canvas_id INVALID_OPERATION, False)
      else (context, True))"

definition validate_bind_buffer_range ::
    "'c gl_context \<Rightarrow> 'c \<Rightarrow> u32 \<Rightarrow> u32 \<Rightarrow> u32 \<Rightarrow> u32 option \<Rightarrow> i32 \<Rightarrow> i32 \<Rightarrow> 'c \<times> bool" where
  "validate_bind_buffer_range C context canvas_id target index buffer offset sz =
     (if buffer \<noteq> None \<and> offset < 0 then (push_error C context canvas_id INVALID_VALUE, False)
      else if buffer \<noteq> None \<and> sz \<le> 0 then (push_error C context canvas_id INVALID_VALUE, False)
      else let (context, ok) = validate_bind_buffer_base C context canvas_id target index buffer in
      if \<not> ok then (context, False)
      else if target = GL_TRANSFORM_FEEDBACK_BUFFER \<and> buffer \<noteq> None
              \<and> (offset smod 4 \<noteq> 0 \<or> sz smod 4 \<noteq> 0)
      then (push_error C context canvas_id INVALID_VALUE, False)
      else (context, True))"

definition validate_vertex_attrib_pointer ::
    "'c gl_context \<Rightarrow> 'c \<Rightarrow> u32 \<Rightarrow> i32 \<Rightarrow> u32 \<Rightarrow> i32 \<Rightarrow> i32 \<Rightarrow> 'c \<times> bool" where
  "validate_vertex_attrib_pointer C context canvas_id sz ty stride offset =
     (if \<not> (1 \<le> sz \<and> sz \<le> 4) then (push_error C context canvas_id INVALID_VALUE, False)
      else if ty \<notin> set [0x1400, 0x1401, 0x1402, 0x1403, 0x1406, 0x140B, 0x1404, 0x1405]
      then (push_error C context canvas_id INVALID_ENUM, False)
      else if \<not> (0 \<le> stride \<and> stride \<le> 255) then (push_error C context canvas_id INVALID_VALUE, False)
      else if offset < 0 then (push_error C context canvas_id INVALID_VALUE, False)
      else (context, True))"

definition validate_viewport_like :: "'c gl_context \<Rightarrow> 'c \<Rightarrow> u32 \<Rightarrow> i32 \<Rightarrow> i32 \<Rightarrow> 'c \<times> bool" where
  "validate_viewport_like C context canvas_id width height =
     (if width < 0 \<or> height < 0 then (push_error C context canvas_id INVALID_VALUE, False)
      else (context, True))"

end
