(* ===== verification/Decode_GL.thy ===== *)
theory Decode_GL
  imports Render_Commands Stream Decode_Validate
begin

text \<open>
  WebGL records become commands: \<open>decode_record\<close> of
  \<open>engine/crates/frame-decode/src/lib.rs\<close>. The match is split into its runs of
  arms; each run falls through to the next, and the last to the arm the source
  calls unreachable, whose debug assertion fails.
\<close>

definition copy_f32_words :: "u32 list \<Rightarrow> f32 list" where
  "copy_f32_words words = map F32 words"

definition copy_i32_words :: "u32 list \<Rightarrow> i32 list" where
  "copy_i32_words words = map sint words"

definition decode_record_uniform ::
    "'c gl_context \<Rightarrow> 'c \<Rightarrow> u32 \<Rightarrow> u32 list \<Rightarrow> ('c \<times> gl_cmd option) option" where
  "decode_record_uniform C context opcode record =
    (if opcode = OP_UNIFORM1IV then do {
       canvas_id \<leftarrow> idx record 1; loc \<leftarrow> idx record 2;
       payload \<leftarrow> slice record 3 (length record);
       Some (context, Some (Uniform1iv canvas_id (location loc) (copy_i32_words payload)))
     }
     else if opcode = OP_UNIFORM1FV then do {
       canvas_id \<leftarrow> idx record 1; loc \<leftarrow> idx record 2;
       payload \<leftarrow> slice record 3 (length record);
       Some (context, Some (Uniform1fv canvas_id (location loc) (copy_f32_words payload)))
     }
     else if opcode = OP_UNIFORM2IV then do {
       canvas_id \<leftarrow> idx record 1; loc \<leftarrow> idx record 2;
       payload \<leftarrow> slice record 3 (length record);
       Some (context, Some (Uniform2iv canvas_id (location loc) (copy_i32_words payload)))
     }
     else if opcode = OP_UNIFORM2FV then do {
       canvas_id \<leftarrow> idx record 1; loc \<leftarrow> idx record 2;
       payload \<leftarrow> slice record 3 (length record);
       Some (context, Some (Uniform2fv canvas_id (location loc) (copy_f32_words payload)))
     }
     else if opcode = OP_UNIFORM3IV then do {
       canvas_id \<leftarrow> idx record 1; loc \<leftarrow> idx record 2;
       payload \<leftarrow> slice record 3 (length record);
       Some (context, Some (Uniform3iv canvas_id (location loc) (copy_i32_words payload)))
     }
     else if opcode = OP_UNIFORM3FV then do {
       canvas_id \<leftarrow> idx record 1; loc \<leftarrow> idx record 2;
       payload \<leftarrow> slice record 3 (length record);
       Some (context, Some (Uniform3fv canvas_id (location loc) (copy_f32_words payload)))
     }
     else if opcode = OP_UNIFORM4IV then do {
       canvas_id \<leftarrow> idx record 1; loc \<leftarrow> idx record 2;
       payload \<leftarrow> slice record 3 (length record);
       Some (context, Some (Uniform4iv canvas_id (location loc) (copy_i32_words payload)))
     }
     else if opcode = OP_UNIFORM4FV then do {
       canvas_id \<leftarrow> idx record 1; loc \<leftarrow> idx record 2;
       payload \<leftarrow> slice record 3 (length record);
       Some (context, Some (Uniform4fv canvas_id (location loc) (copy_f32_words payload)))
     }
     else if opcode = OP_UNIFORM_MATRIX2FV then do {
       canvas_id \<leftarrow> idx record 1; loc \<leftarrow> idx record 2;
       transpose \<leftarrow> idx record 3; payload \<leftarrow> slice record 4 (length record);
       Some (context, Some (UniformMatrix2fv canvas_id (location loc) (bool_of transpose) (copy_f32_words payload)))
     }
     else if opcode = OP_UNIFORM_MATRIX3FV then do {
       canvas_id \<leftarrow> idx record 1; loc \<leftarrow> idx record 2;
       transpose \<leftarrow> idx record 3; payload \<leftarrow> slice record 4 (length record);
       Some (context, Some (UniformMatrix3fv canvas_id (location loc) (bool_of transpose) (copy_f32_words payload)))
     }
     else if opcode = OP_UNIFORM_MATRIX4FV then do {
       canvas_id \<leftarrow> idx record 1; loc \<leftarrow> idx record 2;
       transpose \<leftarrow> idx record 3; payload \<leftarrow> slice record 4 (length record);
       Some (context, Some (UniformMatrix4fv canvas_id (location loc) (bool_of transpose) (copy_f32_words payload)))
     }
     else Panic)"

definition decode_record_scalar ::
    "'c gl_context \<Rightarrow> 'c \<Rightarrow> u32 \<Rightarrow> u32 list \<Rightarrow> ('c \<times> gl_cmd option) option" where
  "decode_record_scalar C context opcode record =
    (if opcode = OP_BIND_BUFFER_RANGE then do {
       canvas_id \<leftarrow> idx record 1; target \<leftarrow> idx record 2;
       index \<leftarrow> idx record 3; buffer \<leftarrow> idx record 4;
       offset \<leftarrow> idx record 5; sz \<leftarrow> idx record 6;
       let (context, ok) = validate_bind_buffer_range C context canvas_id target index (nonzero_id buffer) (i32_of offset) (i32_of sz);
       if \<not> ok then Some (context, None)
       else Some (context, Some (BindBufferRange canvas_id target index (nonzero_id buffer) (i32_of offset) (i32_of sz)))
     }
     else if opcode = OP_READ_BUFFER then do {
       canvas_id \<leftarrow> idx record 1; src \<leftarrow> idx record 2;
       Some (context, Some (ReadBuffer canvas_id src))
     }
     else if opcode = OP_UNIFORM1I then do {
       canvas_id \<leftarrow> idx record 1; loc \<leftarrow> idx record 2; x \<leftarrow> idx record 3;
       Some (context, Some (Uniform1i canvas_id (location loc) (i32_of x)))
     }
     else if opcode = OP_UNIFORM1F then do {
       canvas_id \<leftarrow> idx record 1; loc \<leftarrow> idx record 2; x \<leftarrow> idx record 3;
       Some (context, Some (Uniform1f canvas_id (location loc) (f32_of x)))
     }
     else if opcode = OP_UNIFORM2F then do {
       canvas_id \<leftarrow> idx record 1; loc \<leftarrow> idx record 2; x \<leftarrow> idx record 3;
       y \<leftarrow> idx record 4;
       Some (context, Some (Uniform2f canvas_id (location loc) (f32_of x) (f32_of y)))
     }
     else if opcode = OP_UNIFORM3F then do {
       canvas_id \<leftarrow> idx record 1; loc \<leftarrow> idx record 2; x \<leftarrow> idx record 3;
       y \<leftarrow> idx record 4; z \<leftarrow> idx record 5;
       Some (context, Some (Uniform3f canvas_id (location loc) (f32_of x) (f32_of y) (f32_of z)))
     }
     else if opcode = OP_UNIFORM4F then do {
       canvas_id \<leftarrow> idx record 1; loc \<leftarrow> idx record 2; x \<leftarrow> idx record 3;
       y \<leftarrow> idx record 4; z \<leftarrow> idx record 5; w \<leftarrow> idx record 6;
       Some (context, Some (Uniform4f canvas_id (location loc) (f32_of x) (f32_of y) (f32_of z) (f32_of w)))
     }
     else decode_record_uniform C context opcode record)"

definition decode_record_param ::
    "'c gl_context \<Rightarrow> 'c \<Rightarrow> u32 \<Rightarrow> u32 list \<Rightarrow> ('c \<times> gl_cmd option) option" where
  "decode_record_param C context opcode record =
    (if opcode = OP_TEX_PARAMETER_I then do {
       canvas_id \<leftarrow> idx record 1; target \<leftarrow> idx record 2;
       pname \<leftarrow> idx record 3; param \<leftarrow> idx record 4;
       Some (context, Some (TexParameteri canvas_id target pname (i32_of param)))
     }
     else if opcode = OP_TEX_PARAMETER_F then do {
       canvas_id \<leftarrow> idx record 1; target \<leftarrow> idx record 2;
       pname \<leftarrow> idx record 3; param \<leftarrow> idx record 4;
       Some (context, Some (TexParameterf canvas_id target pname (f32_of param)))
     }
     else if opcode = OP_GENERATE_MIPMAP then do {
       canvas_id \<leftarrow> idx record 1; target \<leftarrow> idx record 2;
       Some (context, Some (GenerateMipmap canvas_id target))
     }
     else if opcode = OP_PIXEL_STORE_I then do {
       canvas_id \<leftarrow> idx record 1; pname \<leftarrow> idx record 2;
       param \<leftarrow> idx record 3;
       Some (context, Some (PixelStorei canvas_id pname (i32_of param)))
     }
     else if opcode = OP_HINT then do {
       canvas_id \<leftarrow> idx record 1; target \<leftarrow> idx record 2;
       mode \<leftarrow> idx record 3;
       Some (context, Some (Hint canvas_id target mode))
     }
     else if opcode = OP_SAMPLER_PARAMETER_I then do {
       sampler \<leftarrow> idx record 1; pname \<leftarrow> idx record 2;
       param \<leftarrow> idx record 3;
       Some (context, Some (SamplerParameteri sampler pname (i32_of param)))
     }
     else if opcode = OP_SAMPLER_PARAMETER_F then do {
       sampler \<leftarrow> idx record 1; pname \<leftarrow> idx record 2;
       param \<leftarrow> idx record 3;
       Some (context, Some (SamplerParameterf sampler pname (f32_of param)))
     }
     else if opcode = OP_DRAW_ARRAYS then do {
       canvas_id \<leftarrow> idx record 1; mode \<leftarrow> idx record 2;
       first \<leftarrow> idx record 3; count \<leftarrow> idx record 4;
       Some (context, Some (DrawArrays canvas_id mode (i32_of first) (i32_of count)))
     }
     else if opcode = OP_DRAW_ELEMENTS then do {
       canvas_id \<leftarrow> idx record 1; mode \<leftarrow> idx record 2;
       count \<leftarrow> idx record 3; index_type \<leftarrow> idx record 4;
       offset \<leftarrow> idx record 5;
       Some (context, Some (DrawElements canvas_id mode (i32_of count) index_type (i32_of offset)))
     }
     else if opcode = OP_DRAW_ARRAYS_INSTANCED then do {
       canvas_id \<leftarrow> idx record 1; mode \<leftarrow> idx record 2;
       first \<leftarrow> idx record 3; count \<leftarrow> idx record 4;
       instance_count \<leftarrow> idx record 5;
       Some (context, Some (DrawArraysInstanced canvas_id mode (i32_of first) (i32_of count) (i32_of instance_count)))
     }
     else if opcode = OP_DRAW_ELEMENTS_INSTANCED then do {
       canvas_id \<leftarrow> idx record 1; mode \<leftarrow> idx record 2;
       count \<leftarrow> idx record 3; index_type \<leftarrow> idx record 4;
       offset \<leftarrow> idx record 5; instance_count \<leftarrow> idx record 6;
       Some (context, Some (DrawElementsInstanced canvas_id mode (i32_of count) index_type (i32_of offset) (i32_of instance_count)))
     }
     else if opcode = OP_BIND_BUFFER_BASE then do {
       canvas_id \<leftarrow> idx record 1; target \<leftarrow> idx record 2;
       index \<leftarrow> idx record 3; buffer \<leftarrow> idx record 4;
       let (context, ok) = validate_bind_buffer_base C context canvas_id target index (nonzero_id buffer);
       if \<not> ok then Some (context, None)
       else Some (context, Some (BindBufferBase canvas_id target index (nonzero_id buffer)))
     }
     else decode_record_scalar C context opcode record)"

definition decode_record_raster ::
    "'c gl_context \<Rightarrow> 'c \<Rightarrow> u32 \<Rightarrow> u32 list \<Rightarrow> ('c \<times> gl_cmd option) option" where
  "decode_record_raster C context opcode record =
    (if opcode = OP_DEPTH_RANGE then do {
       canvas_id \<leftarrow> idx record 1; near \<leftarrow> idx record 2;
       far \<leftarrow> idx record 3;
       Some (context, Some (DepthRange canvas_id (f32_of near) (f32_of far)))
     }
     else if opcode = OP_STENCIL_FUNC then do {
       canvas_id \<leftarrow> idx record 1; func \<leftarrow> idx record 2;
       ref \<leftarrow> idx record 3; mask \<leftarrow> idx record 4;
       Some (context, Some (StencilFunc canvas_id func (i32_of ref) mask))
     }
     else if opcode = OP_STENCIL_FUNC_SEPARATE then do {
       canvas_id \<leftarrow> idx record 1; face \<leftarrow> idx record 2;
       func \<leftarrow> idx record 3; ref \<leftarrow> idx record 4; mask \<leftarrow> idx record 5;
       Some (context, Some (StencilFuncSeparate canvas_id face func (i32_of ref) mask))
     }
     else if opcode = OP_STENCIL_OP then do {
       canvas_id \<leftarrow> idx record 1; fail \<leftarrow> idx record 2;
       zfail \<leftarrow> idx record 3; zpass \<leftarrow> idx record 4;
       Some (context, Some (StencilOp canvas_id fail zfail zpass))
     }
     else if opcode = OP_STENCIL_OP_SEPARATE then do {
       canvas_id \<leftarrow> idx record 1; face \<leftarrow> idx record 2;
       fail \<leftarrow> idx record 3; zfail \<leftarrow> idx record 4;
       zpass \<leftarrow> idx record 5;
       Some (context, Some (StencilOpSeparate canvas_id face fail zfail zpass))
     }
     else if opcode = OP_STENCIL_MASK then do {
       canvas_id \<leftarrow> idx record 1; mask \<leftarrow> idx record 2;
       Some (context, Some (StencilMask canvas_id mask))
     }
     else if opcode = OP_STENCIL_MASK_SEPARATE then do {
       canvas_id \<leftarrow> idx record 1; face \<leftarrow> idx record 2;
       mask \<leftarrow> idx record 3;
       Some (context, Some (StencilMaskSeparate canvas_id face mask))
     }
     else if opcode = OP_CULL_FACE then do {
       canvas_id \<leftarrow> idx record 1; mode \<leftarrow> idx record 2;
       Some (context, Some (CullFace canvas_id mode))
     }
     else if opcode = OP_FRONT_FACE then do {
       canvas_id \<leftarrow> idx record 1; mode \<leftarrow> idx record 2;
       Some (context, Some (FrontFace canvas_id mode))
     }
     else if opcode = OP_COLOR_MASK then do {
       canvas_id \<leftarrow> idx record 1; r \<leftarrow> idx record 2; g \<leftarrow> idx record 3;
       b \<leftarrow> idx record 4; a \<leftarrow> idx record 5;
       Some (context, Some (ColorMask canvas_id (bool_of r) (bool_of g) (bool_of b) (bool_of a)))
     }
     else if opcode = OP_SCISSOR then do {
       canvas_id \<leftarrow> idx record 1; x \<leftarrow> idx record 2; y \<leftarrow> idx record 3;
       width \<leftarrow> idx record 4; height \<leftarrow> idx record 5;
       let (context, ok) = validate_viewport_like C context canvas_id (i32_of width) (i32_of height);
       if \<not> ok then Some (context, None)
       else Some (context, Some (Scissor canvas_id (i32_of x) (i32_of y) (i32_of width) (i32_of height)))
     }
     else if opcode = OP_LINE_WIDTH then do {
       canvas_id \<leftarrow> idx record 1; width \<leftarrow> idx record 2;
       Some (context, Some (LineWidth canvas_id (f32_of width)))
     }
     else if opcode = OP_POLYGON_OFFSET then do {
       canvas_id \<leftarrow> idx record 1; factor \<leftarrow> idx record 2;
       units \<leftarrow> idx record 3;
       Some (context, Some (PolygonOffset canvas_id (f32_of factor) (f32_of units)))
     }
     else decode_record_param C context opcode record)"

definition decode_record_attrib ::
    "'c gl_context \<Rightarrow> 'c \<Rightarrow> u32 \<Rightarrow> u32 list \<Rightarrow> ('c \<times> gl_cmd option) option" where
  "decode_record_attrib C context opcode record =
    (if opcode = OP_BIND_VERTEX_ARRAY then do {
       canvas_id \<leftarrow> idx record 1; vao \<leftarrow> idx record 2;
       Some (context, Some (BindVertexArray canvas_id (nonzero_id vao)))
     }
     else if opcode = OP_BIND_SAMPLER then do {
       canvas_id \<leftarrow> idx record 1; unit \<leftarrow> idx record 2;
       sampler \<leftarrow> idx record 3;
       Some (context, Some (BindSampler canvas_id unit (nonzero_id sampler)))
     }
     else if opcode = OP_ENABLE_VERTEX_ATTRIB_ARRAY then do {
       canvas_id \<leftarrow> idx record 1; index \<leftarrow> idx record 2;
       Some (context, Some (EnableVertexAttribArray canvas_id index))
     }
     else if opcode = OP_DISABLE_VERTEX_ATTRIB_ARRAY then do {
       canvas_id \<leftarrow> idx record 1; index \<leftarrow> idx record 2;
       Some (context, Some (DisableVertexAttribArray canvas_id index))
     }
     else if opcode = OP_VERTEX_ATTRIB_POINTER then do {
       canvas_id \<leftarrow> idx record 1; index \<leftarrow> idx record 2;
       sz \<leftarrow> idx record 3; ty \<leftarrow> idx record 4;
       normalized \<leftarrow> idx record 5; stride \<leftarrow> idx record 6;
       offset \<leftarrow> idx record 7;
       let (context, ok) = validate_vertex_attrib_pointer C context canvas_id (i32_of sz) ty (i32_of stride) (i32_of offset);
       if \<not> ok then Some (context, None)
       else Some (context, Some (VertexAttribPointer canvas_id index (i32_of sz) ty (bool_of normalized) (i32_of stride) (i32_of offset)))
     }
     else if opcode = OP_VERTEX_ATTRIB_DIVISOR then do {
       canvas_id \<leftarrow> idx record 1; index \<leftarrow> idx record 2;
       divisor \<leftarrow> idx record 3;
       Some (context, Some (VertexAttribDivisor canvas_id index divisor))
     }
     else if opcode = OP_BLEND_FUNC then do {
       canvas_id \<leftarrow> idx record 1; sfactor \<leftarrow> idx record 2;
       dfactor \<leftarrow> idx record 3;
       Some (context, Some (BlendFunc canvas_id sfactor dfactor))
     }
     else if opcode = OP_BLEND_FUNC_SEPARATE then do {
       canvas_id \<leftarrow> idx record 1; src_rgb \<leftarrow> idx record 2;
       dst_rgb \<leftarrow> idx record 3; src_alpha \<leftarrow> idx record 4;
       dst_alpha \<leftarrow> idx record 5;
       Some (context, Some (BlendFuncSeparate canvas_id src_rgb dst_rgb src_alpha dst_alpha))
     }
     else if opcode = OP_BLEND_EQUATION then do {
       canvas_id \<leftarrow> idx record 1; mode \<leftarrow> idx record 2;
       Some (context, Some (BlendEquation canvas_id mode))
     }
     else if opcode = OP_BLEND_EQUATION_SEPARATE then do {
       canvas_id \<leftarrow> idx record 1; mode_rgb \<leftarrow> idx record 2;
       mode_alpha \<leftarrow> idx record 3;
       Some (context, Some (BlendEquationSeparate canvas_id mode_rgb mode_alpha))
     }
     else if opcode = OP_BLEND_COLOR then do {
       canvas_id \<leftarrow> idx record 1; r \<leftarrow> idx record 2; g \<leftarrow> idx record 3;
       b \<leftarrow> idx record 4; a \<leftarrow> idx record 5;
       Some (context, Some (BlendColor canvas_id (f32_of r) (f32_of g) (f32_of b) (f32_of a)))
     }
     else if opcode = OP_DEPTH_FUNC then do {
       canvas_id \<leftarrow> idx record 1; func \<leftarrow> idx record 2;
       Some (context, Some (DepthFunc canvas_id func))
     }
     else if opcode = OP_DEPTH_MASK then do {
       canvas_id \<leftarrow> idx record 1; flag \<leftarrow> idx record 2;
       Some (context, Some (DepthMask canvas_id (bool_of flag)))
     }
     else decode_record_raster C context opcode record)"

definition decode_record ::
    "'c gl_context \<Rightarrow> 'c \<Rightarrow> u32 \<Rightarrow> u32 list \<Rightarrow> ('c \<times> gl_cmd option) option" where
  "decode_record C context opcode record =
    (if opcode = OP_VIEWPORT then do {
       canvas_id \<leftarrow> idx record 1; x \<leftarrow> idx record 2; y \<leftarrow> idx record 3;
       width \<leftarrow> idx record 4; height \<leftarrow> idx record 5;
       Some (context, Some (Viewport canvas_id (i32_of x) (i32_of y) width height))
     }
     else if opcode = OP_CLEAR then do {
       canvas_id \<leftarrow> idx record 1; bit_field \<leftarrow> idx record 2;
       Some (context, Some (Clear canvas_id bit_field))
     }
     else if opcode = OP_CLEAR_COLOR then do {
       canvas_id \<leftarrow> idx record 1; r \<leftarrow> idx record 2; g \<leftarrow> idx record 3;
       b \<leftarrow> idx record 4; a \<leftarrow> idx record 5;
       Some (context, Some (ClearColor canvas_id (f32_of r) (f32_of g) (f32_of b) (f32_of a)))
     }
     else if opcode = OP_CLEAR_DEPTH then do {
       canvas_id \<leftarrow> idx record 1; depth \<leftarrow> idx record 2;
       Some (context, Some (ClearDepth canvas_id (f32_of depth)))
     }
     else if opcode = OP_CLEAR_STENCIL then do {
       canvas_id \<leftarrow> idx record 1; s \<leftarrow> idx record 2;
       Some (context, Some (ClearStencil canvas_id (i32_of s)))
     }
     else if opcode = OP_ENABLE then do {
       canvas_id \<leftarrow> idx record 1; cap \<leftarrow> idx record 2;
       Some (context, Some (Enable canvas_id cap))
     }
     else if opcode = OP_DISABLE then do {
       canvas_id \<leftarrow> idx record 1; cap \<leftarrow> idx record 2;
       Some (context, Some (Disable canvas_id cap))
     }
     else if opcode = OP_USE_PROGRAM then do {
       canvas_id \<leftarrow> idx record 1; program_id \<leftarrow> idx record 2;
       Some (context, Some (UseProgram canvas_id program_id))
     }
     else if opcode = OP_BIND_BUFFER then do {
       canvas_id \<leftarrow> idx record 1; target \<leftarrow> idx record 2;
       buffer \<leftarrow> idx record 3;
       let (context, ok) = validate_bind_buffer_target C context canvas_id target;
       if \<not> ok then Some (context, None)
       else Some (context, Some (BindBuffer canvas_id target (signed_id buffer)))
     }
     else if opcode = OP_BIND_TEXTURE then do {
       canvas_id \<leftarrow> idx record 1; target \<leftarrow> idx record 2;
       texture \<leftarrow> idx record 3;
       Some (context, Some (BindTexture canvas_id target (signed_id texture)))
     }
     else if opcode = OP_ACTIVE_TEXTURE then do {
       canvas_id \<leftarrow> idx record 1; unit \<leftarrow> idx record 2;
       Some (context, Some (ActiveTexture canvas_id unit))
     }
     else if opcode = OP_BIND_FRAMEBUFFER then do {
       canvas_id \<leftarrow> idx record 1; target \<leftarrow> idx record 2;
       framebuffer \<leftarrow> idx record 3;
       Some (context, Some (BindFramebuffer canvas_id target (signed_id framebuffer)))
     }
     else if opcode = OP_BIND_RENDERBUFFER then do {
       canvas_id \<leftarrow> idx record 1; target \<leftarrow> idx record 2;
       renderbuffer \<leftarrow> idx record 3;
       Some (context, Some (BindRenderbuffer canvas_id target (signed_id renderbuffer)))
     }
     else decode_record_attrib C context opcode record)"

section \<open>What one record does\<close>

definition pure_context :: "(u32 \<Rightarrow> bool) \<Rightarrow> unit gl_context" where
  "pure_context caps = \<lparr>push_error = (\<lambda>_ _ _. ()), transform_feedback_captures = (\<lambda>_. caps)\<rparr>"

definition gl_command :: "(u32 \<Rightarrow> bool) \<Rightarrow> u32 list \<Rightarrow> gl_cmd option" where
  "gl_command caps r =
     (case decode_record (pure_context caps) () (opcode_of (hd r)) r of
        None \<Rightarrow> None | Some (_, cmd) \<Rightarrow> cmd)"

definition reports :: "'c gl_context \<Rightarrow> 'c \<Rightarrow> u32 \<Rightarrow> 'c \<Rightarrow> bool" where
  "reports C c canvas_id c' \<longleftrightarrow>
     c' \<in> push_error C c canvas_id ` {INVALID_ENUM, INVALID_VALUE, INVALID_OPERATION}"

definition verdict_ok :: "'c gl_context \<Rightarrow> 'c \<Rightarrow> u32 \<Rightarrow> 'c \<times> bool \<Rightarrow> bool \<Rightarrow> bool" where
  "verdict_ok C c canvas_id res ok \<longleftrightarrow>
     snd res = ok \<and> (if ok then fst res = c else reports C c canvas_id (fst res))"

lemmas validator_defs =
  validate_bind_buffer_target_def validate_bind_buffer_indexed_target_def validate_bind_buffer_base_def
  validate_bind_buffer_range_def validate_vertex_attrib_pointer_def validate_viewport_like_def

lemma validators_verdict:
  fixes C :: "'c gl_context" and c :: 'c
  defines "P \<equiv> pure_context (transform_feedback_captures C c)"
  shows "verdict_ok C c i (validate_bind_buffer_target C c i t) (snd (validate_bind_buffer_target P () i t))"
    and "verdict_ok C c i (validate_bind_buffer_base C c i t n b) (snd (validate_bind_buffer_base P () i t n b))"
    and "verdict_ok C c i (validate_bind_buffer_range C c i t n b off s)
           (snd (validate_bind_buffer_range P () i t n b off s))"
    and "verdict_ok C c i (validate_vertex_attrib_pointer C c i s ty str off)
           (snd (validate_vertex_attrib_pointer P () i s ty str off))"
    and "verdict_ok C c i (validate_viewport_like C c i w h) (snd (validate_viewport_like P () i w h))"
  by (auto simp: verdict_ok_def validator_defs reports_def P_def pure_context_def Let_def)

definition same_effect ::
    "'c gl_context \<Rightarrow> 'c \<Rightarrow> u32 \<Rightarrow> ('c \<times> gl_cmd option) option \<Rightarrow> (unit \<times> gl_cmd option) option \<Rightarrow> bool" where
  "same_effect C c canvas_id res res' \<longleftrightarrow>
     (\<exists>c' cmd. res = Some (c', cmd) \<and> res' = Some ((), cmd) \<and>
        (case cmd of None \<Rightarrow> reports C c canvas_id c' | Some _ \<Rightarrow> c' = c))"

lemma same_effect_command: "same_effect C c i (Some (c, Some x)) (Some ((), Some x))"
  by (simp add: same_effect_def)

lemma same_effect_verdict:
  assumes "verdict_ok C c i res (snd res')"
  shows "same_effect C c i
     (case res of (c', ok) \<Rightarrow> if \<not> ok then Some (c', None) else Some (c', Some x))
     (case res' of (c', ok) \<Rightarrow> if \<not> ok then Some (c', None) else Some (c', Some x))"
  using assms by (auto simp: same_effect_def verdict_ok_def split: prod.splits)

lemmas decode_defs =
  decode_record_def decode_record_attrib_def decode_record_raster_def decode_record_param_def
  decode_record_scalar_def decode_record_uniform_def

lemmas same_effect_intros = same_effect_command validators_verdict [THEN same_effect_verdict]

fun arity_ok :: "record_spec \<Rightarrow> u32 list \<Rightarrow> bool" where
  "arity_ok (Fixed n bools) r \<longleftrightarrow> length r = unat n"
| "arity_ok (VectorUniform k) r \<longleftrightarrow> 3 \<le> length r"
| "arity_ok (MatrixUniform k t) r \<longleftrightarrow> 4 \<le> length r"

lemma decode_record_arm:
  fixes C :: "'c gl_context" and c :: 'c
  defines "P \<equiv> pure_context (transform_feedback_captures C c)"
  assumes "(opcode, spec) \<in> set (gl_spec_state_a @ gl_spec_state_b @ gl_spec_draw @ gl_spec_uniform)"
    and "arity_ok spec r"
  shows "same_effect C c (r ! 1) (decode_record C c opcode r) (decode_record P () opcode r)"
  using assms(2,3)
  unfolding P_def
  by (simp add: spec_tables del: One_nat_def)
     (elim disjE; simp add: decode_defs same_effect_intros del: One_nat_def)


lemma spec_ok_arity: "spec_ok spec r \<Longrightarrow> arity_ok spec r"
  by (cases spec) simp_all

lemma decode_record_ok:
  assumes "record_ok r" and "opcode_of (hd r) < OP2D_BASE"
  shows "\<exists>c'. decode_record C c (opcode_of (hd r)) r =
             Some (c', gl_command (transform_feedback_captures C c) r) \<and>
           (case gl_command (transform_feedback_captures C c) r of
              None \<Rightarrow> reports C c (r ! 1) c' | Some _ \<Rightarrow> c' = c)"
proof -
  obtain spec where spec: "record_spec_of (opcode_of (hd r)) = Some spec" "spec_ok spec r"
    using assms(1) by (auto simp: record_ok_def split: option.splits)
  from spec(1) have "(opcode_of (hd r), spec) \<in>
      set (gl_spec_state_a @ gl_spec_state_b @ gl_spec_draw @ gl_spec_uniform)"
    by (cases rule: record_spec_of_cases) (use assms(2) in simp_all)
  from decode_record_arm [OF this spec_ok_arity [OF spec(2)], of C c]
  obtain c' cmd where *: "decode_record C c (opcode_of (hd r)) r = Some (c', cmd)"
      "decode_record (pure_context (transform_feedback_captures C c)) () (opcode_of (hd r)) r = Some ((), cmd)"
      "case cmd of None \<Rightarrow> reports C c (r ! 1) c' | Some _ \<Rightarrow> c' = c"
    unfolding same_effect_def by (elim exE conjE)
  then have "gl_command (transform_feedback_captures C c) r = cmd"
    by (simp add: gl_command_def)
  then show ?thesis
    using * by (intro exI [of _ c']) (simp only:)
qed

text \<open>
  The trait \<open>GlDecodeContext\<close> as an interface: reporting an error does not start
  or stop transform feedback. It follows that decoding leaves the capture state
  alone, so what one record decodes to does not depend on the records before it.
\<close>

locale gl_decode_context =
  fixes C :: "'c gl_context"
  assumes captures_push: "transform_feedback_captures C (push_error C c i e) = transform_feedback_captures C c"
begin

lemma captures_reports: "reports C c i c' \<Longrightarrow> transform_feedback_captures C c' = transform_feedback_captures C c"
  by (auto simp: reports_def captures_push)

lemma decode_record_captures:
  assumes "record_ok r" and "opcode_of (hd r) < OP2D_BASE"
  obtains c' where "decode_record C c (opcode_of (hd r)) r =
      Some (c', gl_command (transform_feedback_captures C c) r)"
    and "transform_feedback_captures C c' = transform_feedback_captures C c"
proof -
  obtain c' where c': "decode_record C c (opcode_of (hd r)) r =
      Some (c', gl_command (transform_feedback_captures C c) r)"
    and "case gl_command (transform_feedback_captures C c) r of
      None \<Rightarrow> reports C c (r ! 1) c' | Some _ \<Rightarrow> c' = c"
    using decode_record_ok [OF assms, of C c] by (elim exE conjE)
  then have "transform_feedback_captures C c' = transform_feedback_captures C c"
    using captures_reports by (auto split: option.splits)
  with c' that show thesis by blast
qed

end

section \<open>Properties\<close>

text \<open>
  Decoding one WebGL record of a validated stream never panics, and the arm the
  source calls unreachable is. The record either becomes a command, with the host's
  state untouched, or it becomes none and the host is told of exactly one error,
  on the canvas the record names. Which of the two happens depends only on the
  record and on whether transform feedback captures.
\<close>

lemma decode_gl_record_effect:
  assumes "record_ok r" and "opcode_of (hd r) < OP2D_BASE"
  shows "\<exists>c' cmd. decode_record C c (opcode_of (hd r)) r = Some (c', cmd) \<and>
           cmd = gl_command (transform_feedback_captures C c) r \<and>
           (case cmd of
              Some _ \<Rightarrow> c' = c
            | None \<Rightarrow> c' \<in> push_error C c (r ! 1) ` {INVALID_ENUM, INVALID_VALUE, INVALID_OPERATION})"
  using decode_record_ok [OF assms, of C c] unfolding reports_def by simp

text \<open>A scissor call with a negative width, on a host that keeps a list of errors.\<close>

definition error_log :: "(u32 \<times> u32) list gl_context" where
  "error_log = \<lparr>push_error = (\<lambda>c i e. c @ [(i, e)]), transform_feedback_captures = (\<lambda>_ _. False)\<rparr>"

definition bad_scissor :: "u32 list" where
  "bad_scissor = [pack_header OP_SCISSOR 6, 7, 0, 0, 0xFFFFFFFF, 1]"

lemma bad_scissor_ok: "record_ok bad_scissor" "opcode_of (hd bad_scissor) < OP2D_BASE"
  by (simp_all add: record_ok_def bad_scissor_def opcode_of_pack word_count_of_pack record_spec_of_def
      gl_record_spec_def spec_tables)

lemma decode_gl_record_effect_witness:
  "\<exists>c' cmd. decode_record error_log [] (opcode_of (hd bad_scissor)) bad_scissor = Some (c', cmd) \<and>
     cmd = None \<and> fst ` set c' = {7}"
proof -
  have "gl_command (transform_feedback_captures error_log []) bad_scissor = None"
    by (simp add: gl_command_def bad_scissor_def opcode_of_pack decode_defs pure_context_def
        validate_viewport_like_def i32_of_def)
  then show ?thesis
    using decode_gl_record_effect [OF bad_scissor_ok, of error_log "[]"]
    by (auto simp: error_log_def bad_scissor_def)
qed

end
