(* ===== verification/Decode_Canvas2D.thy ===== *)
theory Decode_Canvas2D
  imports Render_Commands Stream Decode_Validate
begin

text \<open>
  Canvas2D records become commands: \<open>engine/crates/frame-decode/src/canvas2d.rs\<close>.
  The outer option is the panic of a record index out of range, the inner one the
  source's \<open>None\<close> for an opcode it does not know.
\<close>

definition color_of :: "u32 list \<Rightarrow> color option" where
  "color_of record = do {
     r \<leftarrow> idx record 1; g \<leftarrow> idx record 2; b \<leftarrow> idx record 3; a \<leftarrow> idx record 4;
     Some \<lparr>color_r = f32_of r, color_g = f32_of g, color_b = f32_of b, color_a = f32_of a\<rparr>
   }"

definition decode_canvas2d_state :: "u32 \<Rightarrow> u32 list \<Rightarrow> canvas2d_cmd option option" where
  "decode_canvas2d_state opcode record =
    (if opcode = OP2D_SAVE then Some (Some Save)
     else if opcode = OP2D_RESTORE then Some (Some Restore)
     else if opcode = OP2D_SET_TRANSFORM then do {
       a \<leftarrow> idx record 1; b \<leftarrow> idx record 2; c \<leftarrow> idx record 3;
       d \<leftarrow> idx record 4; e \<leftarrow> idx record 5; f' \<leftarrow> idx record 6;
       Some (Some (SetTransform (f32_of a) (f32_of b) (f32_of c) (f32_of d) (f32_of e) (f32_of f')))
     }
     else if opcode = OP2D_RESET_TRANSFORM then Some (Some ResetTransform)
     else if opcode = OP2D_TRANSLATE then do {
       x \<leftarrow> idx record 1; y \<leftarrow> idx record 2;
       Some (Some (Translate (f32_of x) (f32_of y)))
     }
     else if opcode = OP2D_ROTATE then do {
       angle \<leftarrow> idx record 1;
       Some (Some (Rotate (f32_of angle)))
     }
     else if opcode = OP2D_SCALE then do {
       x \<leftarrow> idx record 1; y \<leftarrow> idx record 2;
       Some (Some (Scale (f32_of x) (f32_of y)))
     }
     else if opcode = OP2D_SET_LINE_WIDTH then do {
       width \<leftarrow> idx record 1;
       Some (Some (SetLineWidth (f32_of width)))
     }
     else if opcode = OP2D_SET_GLOBAL_ALPHA then do {
       alpha \<leftarrow> idx record 1;
       Some (Some (SetGlobalAlpha (f32_of alpha)))
     }
     else if opcode = OP2D_SET_MITER_LIMIT then do {
       limit \<leftarrow> idx record 1;
       Some (Some (SetMiterLimit (f32_of limit)))
     }
     else if opcode = OP2D_SET_LINE_DASH_OFFSET then do {
       offset \<leftarrow> idx record 1;
       Some (Some (SetLineDashOffset (f32_of offset)))
     }
     else if opcode = OP2D_SET_SHADOW_BLUR then do {
       blur \<leftarrow> idx record 1;
       Some (Some (SetShadowBlur (f32_of blur)))
     }
     else if opcode = OP2D_SET_SHADOW_OFFSET_X then do {
       offset \<leftarrow> idx record 1;
       Some (Some (SetShadowOffsetX (f32_of offset)))
     }
     else if opcode = OP2D_SET_SHADOW_OFFSET_Y then do {
       offset \<leftarrow> idx record 1;
       Some (Some (SetShadowOffsetY (f32_of offset)))
     }
     else if opcode = OP2D_SET_LINE_CAP then do {
       cap \<leftarrow> idx record 1;
       Some (Some (SetLineCap (ucast cap)))
     }
     else if opcode = OP2D_SET_LINE_JOIN then do {
       join \<leftarrow> idx record 1;
       Some (Some (SetLineJoin (ucast join)))
     }
     else if opcode = OP2D_SET_COMPOSITE_OPERATION then do {
       op \<leftarrow> idx record 1;
       Some (Some (SetCompositeOperation (ucast op)))
     }
     else if opcode = OP2D_SET_FILL_STYLE then do {
       color \<leftarrow> color_of record;
       Some (Some (SetFillStyle color))
     }
     else if opcode = OP2D_SET_STROKE_STYLE then do {
       color \<leftarrow> color_of record;
       Some (Some (SetStrokeStyle color))
     }
     else if opcode = OP2D_SET_SHADOW_COLOR then do {
       color \<leftarrow> color_of record;
       Some (Some (SetShadowColor color))
     }
     else Some None)"

definition decode_canvas2d_record :: "u32 \<Rightarrow> u32 list \<Rightarrow> canvas2d_cmd option option" where
  "decode_canvas2d_record opcode record =
    (if opcode = OP2D_BEGIN_PATH then Some (Some BeginPath)
     else if opcode = OP2D_CLOSE_PATH then Some (Some ClosePath)
     else if opcode = OP2D_MOVE_TO then do {
       x \<leftarrow> idx record 1; y \<leftarrow> idx record 2;
       Some (Some (MoveTo (f32_of x) (f32_of y)))
     }
     else if opcode = OP2D_LINE_TO then do {
       x \<leftarrow> idx record 1; y \<leftarrow> idx record 2;
       Some (Some (LineTo (f32_of x) (f32_of y)))
     }
     else if opcode = OP2D_QUADRATIC_CURVE_TO then do {
       cpx \<leftarrow> idx record 1; cpy \<leftarrow> idx record 2; x \<leftarrow> idx record 3;
       y \<leftarrow> idx record 4;
       Some (Some (QuadraticCurveTo (f32_of cpx) (f32_of cpy) (f32_of x) (f32_of y)))
     }
     else if opcode = OP2D_BEZIER_CURVE_TO then do {
       cp1x \<leftarrow> idx record 1; cp1y \<leftarrow> idx record 2;
       cp2x \<leftarrow> idx record 3; cp2y \<leftarrow> idx record 4; x \<leftarrow> idx record 5;
       y \<leftarrow> idx record 6;
       Some (Some (BezierCurveTo (f32_of cp1x) (f32_of cp1y) (f32_of cp2x) (f32_of cp2y) (f32_of x) (f32_of y)))
     }
     else if opcode = OP2D_ARC then do {
       x \<leftarrow> idx record 1; y \<leftarrow> idx record 2; radius \<leftarrow> idx record 3;
       start_angle \<leftarrow> idx record 4; end_angle \<leftarrow> idx record 5;
       counterclockwise \<leftarrow> idx record 6;
       Some (Some (Arc (f32_of x) (f32_of y) (f32_of radius) (f32_of start_angle) (f32_of end_angle) (counterclockwise \<noteq> 0)))
     }
     else if opcode = OP2D_ARC_TO then do {
       x1 \<leftarrow> idx record 1; y1 \<leftarrow> idx record 2; x2 \<leftarrow> idx record 3;
       y2 \<leftarrow> idx record 4; radius \<leftarrow> idx record 5;
       Some (Some (ArcTo (f32_of x1) (f32_of y1) (f32_of x2) (f32_of y2) (f32_of radius)))
     }
     else if opcode = OP2D_RECT then do {
       x \<leftarrow> idx record 1; y \<leftarrow> idx record 2; w \<leftarrow> idx record 3;
       h \<leftarrow> idx record 4;
       Some (Some (Rect (f32_of x) (f32_of y) (f32_of w) (f32_of h)))
     }
     else if opcode = OP2D_ELLIPSE then do {
       x \<leftarrow> idx record 1; y \<leftarrow> idx record 2; radius_x \<leftarrow> idx record 3;
       radius_y \<leftarrow> idx record 4; rotation \<leftarrow> idx record 5;
       start_angle \<leftarrow> idx record 6; end_angle \<leftarrow> idx record 7;
       counterclockwise \<leftarrow> idx record 8;
       Some (Some (Ellipse (f32_of x) (f32_of y) (f32_of radius_x) (f32_of radius_y) (f32_of rotation) (f32_of start_angle) (f32_of end_angle) (counterclockwise \<noteq> 0)))
     }
     else if opcode = OP2D_FILL then Some (Some Fill)
     else if opcode = OP2D_STROKE then Some (Some Stroke)
     else if opcode = OP2D_CLIP then Some (Some Clip)
     else if opcode = OP2D_FILL_RECT then do {
       x \<leftarrow> idx record 1; y \<leftarrow> idx record 2; w \<leftarrow> idx record 3;
       h \<leftarrow> idx record 4;
       Some (Some (FillRect (f32_of x) (f32_of y) (f32_of w) (f32_of h)))
     }
     else if opcode = OP2D_STROKE_RECT then do {
       x \<leftarrow> idx record 1; y \<leftarrow> idx record 2; w \<leftarrow> idx record 3;
       h \<leftarrow> idx record 4;
       Some (Some (StrokeRect (f32_of x) (f32_of y) (f32_of w) (f32_of h)))
     }
     else if opcode = OP2D_CLEAR_RECT then do {
       x \<leftarrow> idx record 1; y \<leftarrow> idx record 2; w \<leftarrow> idx record 3;
       h \<leftarrow> idx record 4;
       Some (Some (ClearRect (f32_of x) (f32_of y) (f32_of w) (f32_of h)))
     }
     else decode_canvas2d_state opcode record)"

definition canvas2d_command :: "u32 list \<Rightarrow> canvas2d_cmd option" where
  "canvas2d_command r =
     (case decode_canvas2d_record (opcode_of (hd r)) r of None \<Rightarrow> None | Some cmd \<Rightarrow> cmd)"

lemma decode_canvas2d_arm:
  assumes "(opcode, n, bools) \<in> set canvas2d_specs" and "length r = unat n" and "opcode \<noteq> OP2D_SELECT_CANVAS"
  shows "\<exists>cmd. decode_canvas2d_record opcode r = Some (Some cmd)"
  using assms
  by (simp add: spec_tables)
     (elim disjE; simp add: decode_canvas2d_record_def decode_canvas2d_state_def color_of_def)

lemma decode_canvas2d_ok:
  assumes "record_ok r" and "OP2D_BASE \<le> opcode_of (hd r)" and "opcode_of (hd r) \<noteq> OP2D_SELECT_CANVAS"
  shows "\<exists>cmd. decode_canvas2d_record (opcode_of (hd r)) r = Some (Some cmd) \<and> canvas2d_command r = Some cmd"
proof -
  obtain spec where spec: "record_spec_of (opcode_of (hd r)) = Some spec" "spec_ok spec r"
    using assms(1) by (auto simp: record_ok_def split: option.splits)
  from spec(1) obtain n bools where "(opcode_of (hd r), n, bools) \<in> set canvas2d_specs" "spec = Fixed n bools"
    by (cases rule: record_spec_of_cases) (use assms(2) in \<open>simp_all add: not_less [symmetric]\<close>)
  then show ?thesis
    using decode_canvas2d_arm [of "opcode_of (hd r)" n bools r] spec(2) assms(3)
    by (auto simp: canvas2d_command_def)
qed

lemma select_canvas_length:
  assumes "record_ok r" and "opcode_of (hd r) = OP2D_SELECT_CANVAS"
  shows "length r = 2"
  using assms
  by (simp add: record_ok_def record_spec_of_def canvas2d_record_spec_def canvas2d_specs_def)

end
