(* ===== verification/Decode_Stream.thy ===== *)
theory Decode_Stream
  imports Decode_GL Decode_Canvas2D
begin

text \<open>
  Pass two over a whole stream: \<open>decode_validated_stream\<close>, \<open>RenderSink\<close>,
  \<open>FrameOpSink\<close> and \<open>decode_render_stream_into\<close> of
  \<open>engine/crates/frame-decode/src/lib.rs\<close>. The loops are partial functions into
  option: \<open>None\<close> is a panic or a walk that does not end, and the theorems show
  that neither happens on a validated stream.
\<close>

section \<open>Command sizes\<close>

text \<open>
  \<open>SmallVec\<close> and the layout of \<open>GLCmd\<close> are not in the sources: whether a vector of
  \<open>n\<close> collected values spills, its capacity, and the size of a command are
  parameters. An \<open>i32\<close> and an \<open>f32\<close> have four bytes.
\<close>

record size_model =
  spilled :: "nat \<Rightarrow> bool"
  capacity :: "nat \<Rightarrow> nat"
  size_of_gl_cmd :: nat

definition owned_bytes :: "size_model \<Rightarrow> nat \<Rightarrow> nat" where
  "owned_bytes S n =
     (if spilled S n then usize_saturating_add (size_of_gl_cmd S) (capacity S n * 4) else size_of_gl_cmd S)"

fun cmd_approx_bytes :: "size_model \<Rightarrow> gl_cmd \<Rightarrow> nat" where
  "cmd_approx_bytes S (Uniform1iv _ _ value) = owned_bytes S (length value)"
| "cmd_approx_bytes S (Uniform2iv _ _ value) = owned_bytes S (length value)"
| "cmd_approx_bytes S (Uniform3iv _ _ value) = owned_bytes S (length value)"
| "cmd_approx_bytes S (Uniform4iv _ _ value) = owned_bytes S (length value)"
| "cmd_approx_bytes S (Uniform1fv _ _ value) = owned_bytes S (length value)"
| "cmd_approx_bytes S (Uniform2fv _ _ value) = owned_bytes S (length value)"
| "cmd_approx_bytes S (Uniform3fv _ _ value) = owned_bytes S (length value)"
| "cmd_approx_bytes S (Uniform4fv _ _ value) = owned_bytes S (length value)"
| "cmd_approx_bytes S (UniformMatrix2fv _ _ _ value) = owned_bytes S (length value)"
| "cmd_approx_bytes S (UniformMatrix3fv _ _ _ value) = owned_bytes S (length value)"
| "cmd_approx_bytes S (UniformMatrix4fv _ _ _ value) = owned_bytes S (length value)"
| "cmd_approx_bytes S _ = size_of_gl_cmd S"

section \<open>The WebGL-only decoder\<close>



section \<open>The mixed decoder\<close>

text \<open>
  The target is the trait object the decoder takes: a decode context and a
  \<open>RenderSink\<close> in one.
\<close>

record 't render_target =
  target_context :: "'t gl_context"
  canvas_batch :: "'t \<Rightarrow> u32 \<Rightarrow> canvas2d_cmd list \<Rightarrow> 't"
  gl_batch :: "'t \<Rightarrow> gl_cmd list \<Rightarrow> nat \<Rightarrow> 't"
  materialize :: "'t \<Rightarrow> u32 \<Rightarrow> 't"

record 't render_state =
  rs_target :: 't
  rs_decoded :: nat
  rs_gl :: "gl_cmd list"
  rs_gl_bytes :: nat
  rs_canvas :: "canvas2d_cmd list"
  rs_canvas_id :: "u32 option"
  rs_pending :: "u32 list"

definition flush_canvas :: "'t render_target \<Rightarrow> 't render_state \<Rightarrow> 't render_state" where
  "flush_canvas T st =
     (if rs_canvas st \<noteq> [] then
        let id = (case rs_canvas_id st of None \<Rightarrow> 0 | Some i \<Rightarrow> i) in
        st\<lparr>rs_target := canvas_batch T (rs_target st) id (rs_canvas st),
           rs_canvas := [],
           rs_pending := (if id \<in> set (rs_pending st) then rs_pending st else rs_pending st @ [id])\<rparr>
      else st)"

definition flush_gl :: "'t render_target \<Rightarrow> 't render_state \<Rightarrow> 't render_state" where
  "flush_gl T st =
     (if rs_gl st \<noteq> [] then
        st\<lparr>rs_target := gl_batch T (rs_target st) (rs_gl st) (rs_gl_bytes st),
           rs_gl := [], rs_gl_bytes := 0\<rparr>
      else st)"

definition drain_pending :: "'t render_target \<Rightarrow> 't render_state \<Rightarrow> 't render_state" where
  "drain_pending T st =
     st\<lparr>rs_target := foldl (materialize T) (rs_target st) (rs_pending st), rs_pending := []\<rparr>"

definition render_record ::
    "'t render_target \<Rightarrow> size_model \<Rightarrow> u32 \<Rightarrow> u32 list \<Rightarrow> 't render_state \<Rightarrow> 't render_state option" where
  "render_record T S opcode record st =
     (if opcode = OP2D_SELECT_CANVAS then do {
        let st = flush_canvas T st;
        id \<leftarrow> idx record 1;
        Some (st\<lparr>rs_canvas_id := Some id\<rparr>)
      }
      else if opcode \<ge> OP2D_BASE then
        (if rs_canvas_id st = None
         then Some (st\<lparr>rs_target := push_error (target_context T) (rs_target st) 0 INVALID_OPERATION\<rparr>)
         else do {
           let st = flush_gl T st;
           cmd_opt \<leftarrow> decode_canvas2d_record opcode record;
           case cmd_opt of
             None \<Rightarrow> Some st
           | Some command \<Rightarrow>
               Some (st\<lparr>rs_canvas := rs_canvas st @ [command], rs_decoded := rs_decoded st + 1\<rparr>)
         })
      else do {
        let st = (if rs_canvas st \<noteq> [] then flush_canvas T st else st);
        let st = drain_pending T st;
        (target, cmd_opt) \<leftarrow> decode_record (target_context T) (rs_target st) opcode record;
        let st = st\<lparr>rs_target := target\<rparr>;
        case cmd_opt of
          None \<Rightarrow> Some st
        | Some command \<Rightarrow>
            Some (st\<lparr>rs_gl_bytes := usize_saturating_add (rs_gl_bytes st) (cmd_approx_bytes S command),
                     rs_gl := rs_gl st @ [command], rs_decoded := rs_decoded st + 1\<rparr>)
      })"

partial_function (option) render_records ::
    "'t render_target \<Rightarrow> size_model \<Rightarrow> u32 list \<Rightarrow> nat \<Rightarrow> 't render_state \<Rightarrow> 't render_state option" where
  "render_records T S words cursor st =
     (if cursor < length words then do {
        header \<leftarrow> idx words cursor;
        let opcode = opcode_of header;
        let word_count = unat (word_count_of header);
        record \<leftarrow> slice words cursor (cursor + word_count);
        st \<leftarrow> render_record T S opcode record st;
        render_records T S words (cursor + word_count) st
      }
      else Some st)"

definition decode_render_stream_into ::
    "'t render_target \<Rightarrow> size_model \<Rightarrow> u32 list \<Rightarrow> 't \<Rightarrow> ('t \<times> nat) option" where
  "decode_render_stream_into T S words target = do {
     st \<leftarrow> render_records T S words 2
       \<lparr>rs_target = target, rs_decoded = 0, rs_gl = [], rs_gl_bytes = 0,
        rs_canvas = [], rs_canvas_id = None, rs_pending = []\<rparr>;
     let st = flush_canvas T st;
     let st = flush_gl T st;
     let st = drain_pending T st;
     Some (rs_target st, rs_decoded st)
   }"

section \<open>The frame-operation sink\<close>

definition frame_op_sink :: "'c gl_context \<Rightarrow> ('c \<times> frame_op list) render_target" where
  "frame_op_sink C =
     \<lparr>target_context =
        \<lparr>push_error = (\<lambda>(context, out) canvas_id code. (push_error C context canvas_id code, out)),
         transform_feedback_captures =
           (\<lambda>(context, out) canvas_id. transform_feedback_captures C context canvas_id)\<rparr>,
      canvas_batch = (\<lambda>(context, out) canvas_id commands.
        (context, out @ [CanvasBatch \<lparr>cb_canvas_id = canvas_id, cb_commands = commands,
                            cb_present = False, cb_dirty_rect = None\<rparr>])),
      gl_batch = (\<lambda>(context, out) commands approx_bytes.
        (context, out @ [GlBatch \<lparr>gb_commands = commands\<rparr>])),
      materialize = (\<lambda>(context, out) canvas_id. (context, out @ [Materialize canvas_id]))\<rparr>"

definition decode_render_stream ::
    "'c gl_context \<Rightarrow> size_model \<Rightarrow> 'c \<Rightarrow> u32 list \<Rightarrow> frame_op list \<Rightarrow> (('c \<times> frame_op list) \<times> nat) option" where
  "decode_render_stream C S context words out =
     decode_render_stream_into (frame_op_sink C) S words (context, out)"

section \<open>Reference semantics of a stream\<close>

text \<open>
  What a stream says, record by record and independently of batching: each drawing
  command in the order it was issued, a 2D command with the canvas selected for it.
\<close>

datatype issued = Issued2D u32 canvas2d_cmd | IssuedGL gl_cmd

fun issued_commands :: "(u32 \<Rightarrow> bool) \<Rightarrow> u32 option \<Rightarrow> u32 list list \<Rightarrow> issued list" where
  "issued_commands caps sel [] = []"
| "issued_commands caps sel (r # rs) =
     (let opcode = opcode_of (hd r) in
      if opcode = OP2D_SELECT_CANVAS then issued_commands caps (Some (r ! 1)) rs
      else if opcode \<ge> OP2D_BASE then
        (case (sel, canvas2d_command r) of
           (Some cid, Some cmd) \<Rightarrow> Issued2D cid cmd # issued_commands caps sel rs
         | _ \<Rightarrow> issued_commands caps sel rs)
      else
        (case gl_command caps r of
           None \<Rightarrow> issued_commands caps sel rs
         | Some cmd \<Rightarrow> IssuedGL cmd # issued_commands caps sel rs))"

text \<open>What a list of frame operations draws, batch boundaries forgotten.\<close>

fun drawn :: "frame_op \<Rightarrow> issued list" where
  "drawn (CanvasBatch p) = map (Issued2D (cb_canvas_id p)) (cb_commands p)"
| "drawn (GlBatch p) = map IssuedGL (gb_commands p)"
| "drawn _ = []"

text \<open>
  The materialize barrier as a monitor over the operations: it holds the canvases
  with 2D work that was batched and not yet materialized, and fails at a GL batch
  while there are any and at a materialization that has nothing to materialize.
\<close>

fun barrier :: "u32 list \<Rightarrow> frame_op list \<Rightarrow> u32 list option" where
  "barrier pend [] = Some pend"
| "barrier pend (CanvasBatch p # ops) =
     barrier (if cb_canvas_id p \<in> set pend then pend else pend @ [cb_canvas_id p]) ops"
| "barrier pend (Materialize cid # ops) =
     (if cid \<in> set pend then barrier (removeAll cid pend) ops else None)"
| "barrier pend (GlBatch p # ops) = (if pend = [] then barrier [] ops else None)"
| "barrier pend (_ # ops) = barrier pend ops"

definition batch_nonempty :: "frame_op \<Rightarrow> bool" where
  "batch_nonempty op \<longleftrightarrow>
     (case op of CanvasBatch p \<Rightarrow> cb_commands p \<noteq> [] | GlBatch p \<Rightarrow> gb_commands p \<noteq> []
      | Materialize _ \<Rightarrow> True | _ \<Rightarrow> False)"

definition select_after :: "u32 option \<Rightarrow> u32 list \<Rightarrow> u32 option" where
  "select_after sel r = (if opcode_of (hd r) = OP2D_SELECT_CANVAS then Some (r ! 1) else sel)"

section \<open>Walking the records\<close>

fun fold_records :: "(u32 list \<Rightarrow> 's \<Rightarrow> 's option) \<Rightarrow> u32 list list \<Rightarrow> 's \<Rightarrow> 's option" where
  "fold_records f [] st = Some st"
| "fold_records f (r # rs) st = Option.bind (f r st) (fold_records f rs)"

lemma next_record:
  assumes "record_ok r" and "cursor = length pre"
  shows "cursor < length (pre @ r @ post)"
    and "idx (pre @ r @ post) cursor = Some (hd r)"
    and "slice (pre @ r @ post) cursor (cursor + unat (word_count_of (hd r))) = Some r"
proof -
  have "r \<noteq> []" "unat (word_count_of (hd r)) = length r"
    using assms(1) by (auto simp: record_ok_def)
  then show "cursor < length (pre @ r @ post)"
    and "idx (pre @ r @ post) cursor = Some (hd r)"
    and "slice (pre @ r @ post) cursor (cursor + unat (word_count_of (hd r))) = Some r"
    using assms(2) by (auto simp: nth_append hd_conv_nth)
qed

lemma record_step_length: "record_ok r \<Longrightarrow> unat (word_count_of (hd r)) = length r"
  by (simp add: record_ok_def)

lemma render_records_fold:
  "list_all record_ok rs \<Longrightarrow>
   render_records T S (pre @ concat rs) (length pre) st =
   fold_records (\<lambda>r. render_record T S (opcode_of (hd r)) r) rs st"
proof (induction rs arbitrary: pre st)
  case Nil
  show ?case by (subst render_records.simps) simp
next
  case (Cons r rs)
  have "render_records T S (pre @ r @ concat rs) (length pre) st =
      Option.bind (render_record T S (opcode_of (hd r)) r st)
        (render_records T S ((pre @ r) @ concat rs) (length (pre @ r)))"
    using Cons.prems next_record [of r "length pre" pre "concat rs"] record_step_length [of r]
    by (subst render_records.simps) simp
  also have "\<dots> = Option.bind (render_record T S (opcode_of (hd r)) r st)
      (fold_records (\<lambda>r. render_record T S (opcode_of (hd r)) r) rs)"
    by (rule arg_cong [where f = "Option.bind _"]) (rule ext, rule Cons.IH, use Cons.prems in simp)
  finally show ?case by simp
qed

lemma issued_commands_Cons:
  "issued_commands caps sel (r # rs) =
   issued_commands caps sel [r] @ issued_commands caps (select_after sel r) rs"
  by (auto simp: Let_def select_after_def split: option.splits)

lemma barrier_append: "barrier pend (ops @ ops') = Option.bind (barrier pend ops) (\<lambda>pend'. barrier pend' ops')"
  by (induction pend ops rule: barrier.induct) auto

lemma barrier_materialize: "distinct pend \<Longrightarrow> barrier pend (map Materialize pend) = Some []"
  by (induction pend) simp_all

section \<open>The decode loop over any sink\<close>

text \<open>
  The loop invariant. \<open>acc\<close> is what the records so far issued: it is drawn by the
  operations already in the sink, then by the open 2D batch, then by the open GL
  batch, and at most one of the two is open. The barrier monitor stands at the
  pending canvases, and an open GL batch has none pending.
\<close>

definition stream_inv ::
    "('t \<Rightarrow> frame_op list) \<Rightarrow> frame_op list \<Rightarrow> issued list \<Rightarrow> 't render_state \<Rightarrow> bool" where
  "stream_inv log before acc st \<longleftrightarrow>
     (\<exists>ops. log (rs_target st) = before @ ops \<and>
        acc = concat (map drawn ops) @ map (Issued2D (the (rs_canvas_id st))) (rs_canvas st) @
              map IssuedGL (rs_gl st) \<and>
        barrier [] ops = Some (rs_pending st) \<and> list_all batch_nonempty ops) \<and>
     distinct (rs_pending st) \<and> (rs_canvas st = [] \<or> rs_gl st = []) \<and>
     (rs_gl st \<noteq> [] \<longrightarrow> rs_pending st = []) \<and> (rs_canvas st \<noteq> [] \<longrightarrow> rs_canvas_id st \<noteq> None) \<and>
     rs_decoded st = length acc"

lemma stream_invI:
  assumes "log (rs_target st) = before @ ops" and "acc = concat (map drawn ops) @
        map (Issued2D (the (rs_canvas_id st))) (rs_canvas st) @ map IssuedGL (rs_gl st)"
    and "barrier [] ops = Some (rs_pending st)" and "list_all batch_nonempty ops"
    and "distinct (rs_pending st)" and "rs_canvas st = [] \<or> rs_gl st = []"
    and "rs_gl st \<noteq> [] \<longrightarrow> rs_pending st = []" and "rs_canvas st \<noteq> [] \<longrightarrow> rs_canvas_id st \<noteq> None"
    and "rs_decoded st = length acc"
  shows "stream_inv log before acc st"
  unfolding stream_inv_def using assms by blast

lemma stream_invE:
  assumes "stream_inv log before acc st"
  obtains ops where "log (rs_target st) = before @ ops" and "acc = concat (map drawn ops) @
        map (Issued2D (the (rs_canvas_id st))) (rs_canvas st) @ map IssuedGL (rs_gl st)"
    and "barrier [] ops = Some (rs_pending st)" and "list_all batch_nonempty ops"
    and "distinct (rs_pending st)" and "rs_canvas st = [] \<or> rs_gl st = []"
    and "rs_gl st \<noteq> [] \<longrightarrow> rs_pending st = []" and "rs_canvas st \<noteq> [] \<longrightarrow> rs_canvas_id st \<noteq> None"
    and "rs_decoded st = length acc"
  using assms unfolding stream_inv_def by blast

text \<open>
  The trait \<open>RenderSink\<close> as an interface: a sink's contents are a list of frame
  operations, each method appends its own, reporting an error appends none, and no
  method changes the capture state.
\<close>

locale render_sink = gl_decode_context "target_context T"
  for T :: "'t render_target" +
  fixes log :: "'t \<Rightarrow> frame_op list"
  assumes log_canvas: "log (canvas_batch T t i cs) = log t @ [CanvasBatch
      \<lparr>cb_canvas_id = i, cb_commands = cs, cb_present = False, cb_dirty_rect = None\<rparr>]"
    and log_gl: "log (gl_batch T t cmds n) = log t @ [GlBatch \<lparr>gb_commands = cmds\<rparr>]"
    and log_materialize: "log (materialize T t i) = log t @ [Materialize i]"
    and log_push: "log (push_error (target_context T) t i e) = log t"
    and captures_canvas: "transform_feedback_captures (target_context T) (canvas_batch T t i cs) =
      transform_feedback_captures (target_context T) t"
    and captures_gl: "transform_feedback_captures (target_context T) (gl_batch T t cmds n) =
      transform_feedback_captures (target_context T) t"
    and captures_materialize: "transform_feedback_captures (target_context T) (materialize T t i) =
      transform_feedback_captures (target_context T) t"
begin

abbreviation caps :: "'t \<Rightarrow> u32 \<Rightarrow> bool" where
  "caps t \<equiv> transform_feedback_captures (target_context T) t"

lemmas log_simps = log_canvas log_gl log_materialize log_push
lemmas captures_simps = captures_canvas captures_gl captures_materialize captures_push

lemma flush_canvas_inv:
  assumes "stream_inv log before acc st"
  shows "stream_inv log before acc (flush_canvas T st) \<and> rs_canvas (flush_canvas T st) = [] \<and>
     rs_canvas_id (flush_canvas T st) = rs_canvas_id st \<and>
     caps (rs_target (flush_canvas T st)) = caps (rs_target st)"
proof (cases "rs_canvas st = []")
  case True
  then show ?thesis using assms by (simp add: flush_canvas_def)
next
  case False
  from assms obtain ops where ops: "log (rs_target st) = before @ ops" "acc = concat (map drawn ops) @
        map (Issued2D (the (rs_canvas_id st))) (rs_canvas st) @ map IssuedGL (rs_gl st)"
      "barrier [] ops = Some (rs_pending st)" "list_all batch_nonempty ops"
      and rest: "distinct (rs_pending st)" "rs_canvas st = [] \<or> rs_gl st = []"
        "rs_canvas st \<noteq> [] \<longrightarrow> rs_canvas_id st \<noteq> None" "rs_decoded st = length acc"
    by (rule stream_invE)
  obtain i where i: "rs_canvas_id st = Some i" using False rest(3) by auto
  let ?op = "CanvasBatch \<lparr>cb_canvas_id = i, cb_commands = rs_canvas st, cb_present = False, cb_dirty_rect = None\<rparr>"
  have "stream_inv log before acc (flush_canvas T st)"
    by (rule stream_invI [of _ _ _ "ops @ [?op]"])
       (use ops rest i False in \<open>auto simp: flush_canvas_def log_canvas barrier_append batch_nonempty_def\<close>)
  then show ?thesis
    using False i by (simp add: flush_canvas_def captures_canvas)
qed

lemma flush_gl_inv:
  assumes "stream_inv log before acc st"
  shows "stream_inv log before acc (flush_gl T st) \<and> rs_gl (flush_gl T st) = [] \<and>
     rs_canvas_id (flush_gl T st) = rs_canvas_id st \<and> rs_canvas (flush_gl T st) = rs_canvas st \<and>
     caps (rs_target (flush_gl T st)) = caps (rs_target st)"
proof (cases "rs_gl st = []")
  case True
  then show ?thesis using assms by (simp add: flush_gl_def)
next
  case False
  from assms obtain ops where ops: "log (rs_target st) = before @ ops" "acc = concat (map drawn ops) @
        map (Issued2D (the (rs_canvas_id st))) (rs_canvas st) @ map IssuedGL (rs_gl st)"
      "barrier [] ops = Some (rs_pending st)" "list_all batch_nonempty ops"
      and rest: "rs_canvas st = [] \<or> rs_gl st = []" "rs_gl st \<noteq> [] \<longrightarrow> rs_pending st = []"
        "rs_decoded st = length acc"
    by (rule stream_invE)
  have "stream_inv log before acc (flush_gl T st)"
    by (rule stream_invI [of _ _ _ "ops @ [GlBatch \<lparr>gb_commands = rs_gl st\<rparr>]"])
       (use ops rest False in \<open>auto simp: flush_gl_def log_gl barrier_append batch_nonempty_def\<close>)
  then show ?thesis
    using False by (simp add: flush_gl_def captures_gl)
qed

lemma fold_materialize:
  "log (foldl (materialize T) t ids) = log t @ map Materialize ids"
  "caps (foldl (materialize T) t ids) = caps t"
  by (induction ids arbitrary: t) (simp_all add: log_materialize captures_materialize)

lemma drain_pending_inv:
  assumes "stream_inv log before acc st"
  shows "stream_inv log before acc (drain_pending T st) \<and> rs_pending (drain_pending T st) = [] \<and>
     rs_canvas_id (drain_pending T st) = rs_canvas_id st \<and> rs_canvas (drain_pending T st) = rs_canvas st \<and>
     rs_gl (drain_pending T st) = rs_gl st \<and>
     caps (rs_target (drain_pending T st)) = caps (rs_target st)"
proof -
  from assms obtain ops where ops: "log (rs_target st) = before @ ops" "acc = concat (map drawn ops) @
        map (Issued2D (the (rs_canvas_id st))) (rs_canvas st) @ map IssuedGL (rs_gl st)"
      "barrier [] ops = Some (rs_pending st)" "list_all batch_nonempty ops"
      and rest: "distinct (rs_pending st)" "rs_canvas st = [] \<or> rs_gl st = []"
        "rs_canvas st \<noteq> [] \<longrightarrow> rs_canvas_id st \<noteq> None" "rs_decoded st = length acc"
    by (rule stream_invE)
  have drawn: "concat (map drawn (map Materialize (rs_pending st))) = []"
    by (induction "rs_pending st") simp_all
  have "stream_inv log before acc (drain_pending T st)"
    by (rule stream_invI [of _ _ _ "ops @ map Materialize (rs_pending st)"])
       (use ops rest barrier_materialize [OF rest(1)] drawn in
         \<open>auto simp: drain_pending_def fold_materialize barrier_append list_all_iff batch_nonempty_def\<close>)
  then show ?thesis
    by (simp add: drain_pending_def fold_materialize)
qed

lemma step_select:
  assumes "stream_inv log before acc st" and "record_ok r" and "opcode_of (hd r) = OP2D_SELECT_CANVAS"
  shows "\<exists>st'. render_record T S (opcode_of (hd r)) r st = Some st' \<and> stream_inv log before acc st' \<and>
     rs_canvas_id st' = Some (r ! 1) \<and> caps (rs_target st') = caps (rs_target st)"
proof -
  let ?st = "flush_canvas T st"
  have len: "length r = 2" using select_canvas_length assms(2,3) by blast
  have inv: "stream_inv log before acc ?st" "rs_canvas ?st = []" "caps (rs_target ?st) = caps (rs_target st)"
    using flush_canvas_inv [OF assms(1)] by blast+
  have "stream_inv log before acc (?st\<lparr>rs_canvas_id := Some (r ! 1)\<rparr>)"
    using inv(1,2) by (simp add: stream_inv_def)
  then show ?thesis
    using len inv(3) assms(3) by (simp add: render_record_def Let_def)
qed

lemma step_canvas2d:
  assumes "stream_inv log before acc st" and "record_ok r" and "OP2D_BASE \<le> opcode_of (hd r)"
    and "opcode_of (hd r) \<noteq> OP2D_SELECT_CANVAS"
  shows "\<exists>st'. render_record T S (opcode_of (hd r)) r st = Some st' \<and>
     stream_inv log before (acc @ issued_commands cs (rs_canvas_id st) [r]) st' \<and>
     rs_canvas_id st' = rs_canvas_id st \<and> caps (rs_target st') = caps (rs_target st)"
proof -
  obtain cmd where cmd: "decode_canvas2d_record (opcode_of (hd r)) r = Some (Some cmd)" "canvas2d_command r = Some cmd"
    using decode_canvas2d_ok [OF assms(2-4)] by blast
  show ?thesis
  proof (cases "rs_canvas_id st")
    case None
    have "stream_inv log before acc
        (st\<lparr>rs_target := push_error (target_context T) (rs_target st) 0 INVALID_OPERATION\<rparr>)"
      using assms(1) by (simp add: stream_inv_def log_push)
    then show ?thesis
      using None assms(3,4) by (simp add: render_record_def captures_push Let_def)
  next
    case (Some i)
    let ?st = "flush_gl T st"
    have inv: "stream_inv log before acc ?st" "rs_gl ?st = []" "rs_canvas_id ?st = Some i"
        "caps (rs_target ?st) = caps (rs_target st)"
      using flush_gl_inv [OF assms(1)] Some by simp_all
    have "stream_inv log before (acc @ [Issued2D i cmd])
        (?st\<lparr>rs_canvas := rs_canvas ?st @ [cmd], rs_decoded := rs_decoded ?st + 1\<rparr>)"
      using inv by (auto simp: stream_inv_def)
    moreover have "render_record T S (opcode_of (hd r)) r st =
        Some (?st\<lparr>rs_canvas := rs_canvas ?st @ [cmd], rs_decoded := rs_decoded ?st + 1\<rparr>)"
      using Some assms(3,4) cmd(1) by (simp add: render_record_def Let_def)
    ultimately show ?thesis
      using Some assms(3,4) cmd(2) inv(3,4) by (simp add: Let_def)
  qed
qed

lemma step_gl:
  assumes "stream_inv log before acc st" and "record_ok r" and "opcode_of (hd r) < OP2D_BASE"
  shows "\<exists>st'. render_record T S (opcode_of (hd r)) r st = Some st' \<and>
     stream_inv log before (acc @ issued_commands (caps (rs_target st)) (rs_canvas_id st) [r]) st' \<and>
     rs_canvas_id st' = rs_canvas_id st \<and> caps (rs_target st') = caps (rs_target st)"
proof -
  have op: "(opcode_of (hd r) = OP2D_SELECT_CANVAS) = False" "(OP2D_BASE \<le> opcode_of (hd r)) = False"
    using assms(3) by auto
  let ?f = "if rs_canvas st \<noteq> [] then flush_canvas T st else st"
  let ?d = "drain_pending T ?f"
  have f: "stream_inv log before acc ?f" "rs_canvas ?f = []" "rs_canvas_id ?f = rs_canvas_id st"
      "caps (rs_target ?f) = caps (rs_target st)"
    using flush_canvas_inv [OF assms(1)] assms(1) by simp_all
  have d: "stream_inv log before acc ?d" "rs_canvas ?d = []" "rs_pending ?d = []"
      "rs_canvas_id ?d = rs_canvas_id st" "caps (rs_target ?d) = caps (rs_target st)"
    using drain_pending_inv [OF f(1)] f(2-4) by simp_all
  obtain t' where t': "decode_record (target_context T) (rs_target ?d) (opcode_of (hd r)) r =
        Some (t', gl_command (caps (rs_target st)) r)"
      and caps': "caps t' = caps (rs_target st)" and log': "log t' = log (rs_target ?d)"
  proof -
    obtain t' where t': "decode_record (target_context T) (rs_target ?d) (opcode_of (hd r)) r =
        Some (t', gl_command (caps (rs_target ?d)) r)"
      and eff: "case gl_command (caps (rs_target ?d)) r of
         None \<Rightarrow> reports (target_context T) (rs_target ?d) (r ! 1) t' | Some _ \<Rightarrow> t' = rs_target ?d"
      using decode_record_ok [OF assms(2,3), of "target_context T" "rs_target ?d"] by (elim exE conjE)
    have "log t' = log (rs_target ?d) \<and> caps t' = caps (rs_target ?d)"
    proof (cases "gl_command (caps (rs_target ?d)) r")
      case None
      with eff have "reports (target_context T) (rs_target ?d) (r ! 1) t'" by (simp only: option.case)
      then show ?thesis
        by (auto simp: reports_def log_push captures_push)
    next
      case (Some x)
      with eff show ?thesis by (simp only: option.case)
    qed
    then show thesis
      using that t' d(5) by simp
  qed
  have step: "render_record T S (opcode_of (hd r)) r st =
      (case gl_command (caps (rs_target st)) r of
         None \<Rightarrow> Some (?d\<lparr>rs_target := t'\<rparr>)
       | Some command \<Rightarrow>
           Some (?d\<lparr>rs_target := t',
             rs_gl_bytes := usize_saturating_add (rs_gl_bytes ?d) (cmd_approx_bytes S command),
             rs_gl := rs_gl ?d @ [command], rs_decoded := rs_decoded ?d + 1\<rparr>))"
    unfolding render_record_def Let_def
    by (simp only: op if_False t' bind.bind_lunit prod.case) (simp split: option.split)
  have issued: "issued_commands (caps (rs_target st)) sel [r] =
      (case gl_command (caps (rs_target st)) r of None \<Rightarrow> [] | Some cmd \<Rightarrow> [IssuedGL cmd])" for sel
    by (simp add: Let_def op split: option.split)
  show ?thesis
  proof (cases "gl_command (caps (rs_target st)) r")
    case None
    have "stream_inv log before acc (?d\<lparr>rs_target := t'\<rparr>)"
      using d(1) log' by (simp add: stream_inv_def)
    then show ?thesis
      unfolding step issued None option.case append_Nil2 using d(4) caps'
      by (intro exI conjI) (rule refl, assumption, simp_all)
  next
    case (Some cmd)
    have "stream_inv log before (acc @ [IssuedGL cmd])
       (?d\<lparr>rs_target := t', rs_gl_bytes := usize_saturating_add (rs_gl_bytes ?d) (cmd_approx_bytes S cmd),
           rs_gl := rs_gl ?d @ [cmd], rs_decoded := rs_decoded ?d + 1\<rparr>)"
      using d(1-3) log' by (auto simp: stream_inv_def)
    then show ?thesis
      unfolding step issued Some option.case using d(4) caps'
      by (intro exI conjI) (rule refl, assumption, simp_all)
  qed
qed

lemma step_any:
  assumes "stream_inv log before acc st" and "record_ok r"
  shows "\<exists>st'. render_record T S (opcode_of (hd r)) r st = Some st' \<and>
     stream_inv log before (acc @ issued_commands (caps (rs_target st)) (rs_canvas_id st) [r]) st' \<and>
     rs_canvas_id st' = select_after (rs_canvas_id st) r \<and> caps (rs_target st') = caps (rs_target st)"
proof -
  consider (sel) "opcode_of (hd r) = OP2D_SELECT_CANVAS"
    | (c2d) "opcode_of (hd r) \<noteq> OP2D_SELECT_CANVAS" "OP2D_BASE \<le> opcode_of (hd r)"
    | (gl) "opcode_of (hd r) < OP2D_BASE"
    by fastforce
  then show ?thesis
  proof cases
    case sel
    then show ?thesis
      using step_select [OF assms sel, of S] by (simp add: select_after_def Let_def)
  next
    case c2d
    then show ?thesis
      using step_canvas2d [OF assms c2d(2,1), of S] by (simp add: select_after_def)
  next
    case gl
    then have "opcode_of (hd r) \<noteq> OP2D_SELECT_CANVAS" by auto
    then show ?thesis
      using step_gl [OF assms gl, of S] by (simp add: select_after_def)
  qed
qed

lemma fold_any:
  "list_all record_ok rs \<Longrightarrow> stream_inv log before acc st \<Longrightarrow>
   \<exists>st'. fold_records (\<lambda>r. render_record T S (opcode_of (hd r)) r) rs st = Some st' \<and>
     stream_inv log before (acc @ issued_commands (caps (rs_target st)) (rs_canvas_id st) rs) st'"
proof (induction rs arbitrary: acc st)
  case (Cons r rs)
  obtain st' where st': "render_record T S (opcode_of (hd r)) r st = Some st'"
     "stream_inv log before (acc @ issued_commands (caps (rs_target st)) (rs_canvas_id st) [r]) st'"
     "rs_canvas_id st' = select_after (rs_canvas_id st) r" "caps (rs_target st') = caps (rs_target st)"
    using step_any [of before acc st r S] Cons.prems by auto
  have "list_all record_ok rs" using Cons.prems by simp
  from Cons.IH [OF this st'(2)] show ?case
    unfolding issued_commands_Cons [of _ _ r rs] using st' by (simp del: issued_commands.simps)
qed simp

lemma decode_into:
  assumes "list_all record_ok rs"
  shows "\<exists>t' n ops. decode_render_stream_into T S (stream_of rs) t = Some (t', n) \<and> log t' = log t @ ops \<and>
     concat (map drawn ops) = issued_commands (caps t) None rs \<and>
     n = length (issued_commands (caps t) None rs) \<and>
     barrier [] ops = Some [] \<and> list_all batch_nonempty ops"
proof -
  define st0 where "st0 = \<lparr>rs_target = t, rs_decoded = 0, rs_gl = [], rs_gl_bytes = 0,
        rs_canvas = [], rs_canvas_id = None, rs_pending = []\<rparr>"
  have "stream_inv log (log t) [] st0"
    by (rule stream_invI [of _ _ _ "[]"]) (simp_all add: st0_def)
  then obtain st where st: "fold_records (\<lambda>r. render_record T S (opcode_of (hd r)) r) rs st0 = Some st"
      "stream_inv log (log t) (issued_commands (caps t) None rs) st"
    using fold_any [OF assms, of "log t" "[]" st0 S] by (auto simp: st0_def)
  have loop: "render_records T S (stream_of rs) 2 st0 = Some st"
    using render_records_fold [OF assms, of T S "[STREAM_MAGIC, STREAM_VERSION]" st0] st(1)
    by (simp add: stream_of_def numeral_2_eq_2)
  let ?c = "flush_canvas T st"
  let ?g = "flush_gl T ?c"
  let ?d = "drain_pending T ?g"
  have c: "stream_inv log (log t) (issued_commands (caps t) None rs) ?c" "rs_canvas ?c = []"
    using flush_canvas_inv [OF st(2)] by blast+
  have g: "stream_inv log (log t) (issued_commands (caps t) None rs) ?g" "rs_canvas ?g = []" "rs_gl ?g = []"
    using flush_gl_inv [OF c(1)] c(2) by simp_all
  have d: "stream_inv log (log t) (issued_commands (caps t) None rs) ?d" "rs_canvas ?d = []" "rs_gl ?d = []"
     "rs_pending ?d = []"
    using drain_pending_inv [OF g(1)] g(2,3) by simp_all
  have "decode_render_stream_into T S (stream_of rs) t = Some (rs_target ?d, rs_decoded ?d)"
    using loop by (simp add: decode_render_stream_into_def st0_def Let_def)
  then show ?thesis
    using d by (fastforce simp: stream_inv_def)
qed

end

text \<open>
  \<open>FrameOpSink\<close> over any decode context is a sink: its contents are the vector of
  frame operations it fills.
\<close>

locale frame_op_context = gl_decode_context C
  for C :: "'c gl_context"

sublocale frame_op_context < sink: render_sink "frame_op_sink C" snd
  by unfold_locales (auto simp: frame_op_sink_def captures_push split: prod.splits)

interpretation error_log: frame_op_context error_log
  by unfold_locales (simp add: error_log_def)

context frame_op_context
begin

lemma decode_stream:
  assumes "list_all record_ok rs"
  shows "\<exists>c' ops n. decode_render_stream C S c (stream_of rs) out = Some ((c', out @ ops), n) \<and>
     concat (map drawn ops) = issued_commands (transform_feedback_captures C c) None rs \<and>
     n = length (issued_commands (transform_feedback_captures C c) None rs) \<and>
     barrier [] ops = Some [] \<and> list_all batch_nonempty ops"
proof -
  have "transform_feedback_captures (target_context (frame_op_sink C)) (c, out) = transform_feedback_captures C c"
    by (simp add: frame_op_sink_def)
  then show ?thesis
    using sink.decode_into [OF assms, of S "(c, out)"]
    by (auto simp: decode_render_stream_def)
qed

end

text \<open>
  A property of the sink's state that each method keeps is kept by the whole decode.
\<close>

locale target_invariant =
  fixes T :: "'t render_target"
    and P :: "'t \<Rightarrow> bool"
  assumes P_canvas: "P t \<Longrightarrow> P (canvas_batch T t i cs)"
    and P_gl: "P t \<Longrightarrow> P (gl_batch T t cmds n)"
    and P_materialize: "P t \<Longrightarrow> P (materialize T t i)"
    and P_push: "P t \<Longrightarrow> P (push_error (target_context T) t i e)"
begin

lemma P_flush_canvas: "P (rs_target st) \<Longrightarrow> P (rs_target (flush_canvas T st))"
  by (simp add: flush_canvas_def P_canvas Let_def)

lemma P_flush_gl: "P (rs_target st) \<Longrightarrow> P (rs_target (flush_gl T st))"
  by (simp add: flush_gl_def P_gl)

lemma P_drain: "P (rs_target st) \<Longrightarrow> P (rs_target (drain_pending T st))"
proof -
  have "P t \<Longrightarrow> P (foldl (materialize T) t is)" for t "is"
    by (induction "is" arbitrary: t) (auto intro: P_materialize)
  then show "P (rs_target st) \<Longrightarrow> P (rs_target (drain_pending T st))"
    by (simp add: drain_pending_def)
qed

lemma P_decode_record:
  assumes "P t" and "record_ok r" and "opcode_of (hd r) < OP2D_BASE"
    and "decode_record (target_context T) t (opcode_of (hd r)) r = Some (t', cmd)"
  shows "P t'"
proof -
  have cmd: "cmd = gl_command (transform_feedback_captures (target_context T) t) r"
    and eff: "case cmd of None \<Rightarrow> reports (target_context T) t (r ! 1) t' | Some _ \<Rightarrow> t' = t"
    using decode_record_ok [OF assms(2,3), of "target_context T" t] unfolding assms(4) by auto
  show ?thesis
  proof (cases cmd)
    case None
    with eff have "reports (target_context T) t (r ! 1) t'" by (simp only: option.case)
    then show ?thesis
      using assms(1) by (auto simp: reports_def intro: P_push)
  next
    case (Some x)
    with eff have "t' = t" by (simp only: option.case)
    then show ?thesis using assms(1) by simp
  qed
qed

lemma P_render_record:
  assumes "P (rs_target st)" and "record_ok r" and "render_record T S (opcode_of (hd r)) r st = Some st'"
  shows "P (rs_target st')"
proof -
  consider (sel) "opcode_of (hd r) = OP2D_SELECT_CANVAS"
    | (c2d) "opcode_of (hd r) \<noteq> OP2D_SELECT_CANVAS" "OP2D_BASE \<le> opcode_of (hd r)"
    | (gl) "opcode_of (hd r) < OP2D_BASE" "opcode_of (hd r) \<noteq> OP2D_SELECT_CANVAS"
    by fastforce
  then show ?thesis
  proof cases
    case sel
    then show ?thesis
      using assms(1,3) by (auto simp: render_record_def Let_def P_flush_canvas split: bind_splits)
  next
    case c2d
    then show ?thesis
      using assms(1,3)
      by (auto simp: render_record_def Let_def P_flush_gl P_push split: bind_splits if_splits option.splits)
  next
    case gl
    let ?st = "drain_pending T (if rs_canvas st \<noteq> [] then flush_canvas T st else st)"
    have "P (rs_target ?st)"
      using assms(1) by (intro P_drain) (simp add: P_flush_canvas)
    moreover have op: "(opcode_of (hd r) = OP2D_SELECT_CANVAS) = False" "(OP2D_BASE \<le> opcode_of (hd r)) = False"
      using gl by auto
    obtain t' cmd where "decode_record (target_context T) (rs_target ?st) (opcode_of (hd r)) r = Some (t', cmd)"
      and "rs_target st' = t'"
      using assms(3) unfolding render_record_def Let_def op if_False
      by (cases "decode_record (target_context T) (rs_target ?st) (opcode_of (hd r)) r")
        (auto split: option.splits)
    ultimately show ?thesis
      using P_decode_record assms(2) gl(1) by blast
  qed
qed

lemma P_decode:
  assumes "P t" and "list_all record_ok rs"
    and "decode_render_stream_into T S (stream_of rs) t = Some (t', n)"
  shows "P t'"
proof -
  have fold: "P (rs_target st')"
    if "fold_records (\<lambda>r. render_record T S (opcode_of (hd r)) r) qs st = Some st'" "list_all record_ok qs"
      "P (rs_target st)" for qs st st'
    using that by (induction qs arbitrary: st) (auto split: bind_splits intro: P_render_record)
  define st0 where "st0 = \<lparr>rs_target = t, rs_decoded = 0, rs_gl = [], rs_gl_bytes = 0,
      rs_canvas = [], rs_canvas_id = None, rs_pending = []\<rparr>"
  have st0: "rs_target st0 = t" by (simp add: st0_def)
  obtain st where st: "render_records T S (stream_of rs) 2 st0 = Some st"
    and t': "t' = rs_target (drain_pending T (flush_gl T (flush_canvas T st)))"
    using assms(3) unfolding decode_render_stream_into_def Let_def st0_def [symmetric]
    by (cases "render_records T S (stream_of rs) 2 st0") auto
  have "fold_records (\<lambda>r. render_record T S (opcode_of (hd r)) r) rs st0 = Some st"
    using render_records_fold [OF assms(2), of T S "[STREAM_MAGIC, STREAM_VERSION]" st0] st
    by (simp add: stream_of_def numeral_2_eq_2)
  then show ?thesis
    unfolding t' using fold [OF _ assms(2), of st0 st] assms(1) st0
    by (intro P_drain P_flush_gl P_flush_canvas) simp
qed

end


section \<open>Properties\<close>

text \<open>
  C5. Decoding a validated mixed stream ends and never panics, and the frame
  operations draw exactly what the records issued, in the order they were issued:
  batching reorders, drops and invents nothing, a 2D command goes to the canvas
  selected for it, and the returned count is the number of commands.
\<close>

theorem decode_stream_preserves_order:
  assumes "gl_decode_context C" and "list_all record_ok rs"
  shows "\<exists>c' ops n. decode_render_stream C S c (stream_of rs) out = Some ((c', out @ ops), n) \<and>
     concat (map drawn ops) = issued_commands (transform_feedback_captures C c) None rs \<and>
     n = length (issued_commands (transform_feedback_captures C c) None rs) \<and>
     list_all batch_nonempty ops"
  using frame_op_context.decode_stream [OF frame_op_context.intro [OF assms(1)] assms(2), of S c out] by blast

text \<open>
  The materialize barrier: in the frame operations of a validated stream no GL
  batch comes while a canvas has 2D work that was batched and not materialized, no
  canvas is materialized without such work, and at the end none has any, trailing 2D
  work included.
\<close>

lemma decode_stream_barrier:
  assumes "gl_decode_context C" and "list_all record_ok rs"
  shows "\<exists>c' ops n. decode_render_stream C S c (stream_of rs) [] = Some ((c', ops), n) \<and> barrier [] ops = Some []"
  using frame_op_context.decode_stream [OF frame_op_context.intro [OF assms(1)] assms(2), of S c "[]"] by auto

text \<open>A background rectangle in 2D, then a WebGL clear over it.\<close>

definition demo_records :: "u32 list list" where
  "demo_records =
     [[pack_header OP2D_SELECT_CANVAS 2, 7],
      [pack_header OP2D_FILL_RECT 5, 0, 0, 0x42C80000, 0x42C80000],
      [pack_header OP_CLEAR 3, 7, 0x4000]]"

definition demo_sizes :: size_model where
  "demo_sizes = \<lparr>spilled = (\<lambda>n. n > 16), capacity = (\<lambda>n. max 16 n), size_of_gl_cmd = 96\<rparr>"

lemma demo_records_ok: "list_all record_ok demo_records"
  by (simp add: demo_records_def record_ok_def opcode_of_pack word_count_of_pack record_spec_of_def
      gl_record_spec_def canvas2d_record_spec_def spec_tables)

lemma demo_records_issued:
  "issued_commands caps None demo_records =
     [Issued2D 7 (FillRect (F32 0) (F32 0) (F32 0x42C80000) (F32 0x42C80000)), IssuedGL (Clear 7 0x4000)]"
  by (simp add: demo_records_def opcode_of_pack Let_def canvas2d_command_def decode_canvas2d_record_def
      decode_canvas2d_state_def gl_command_def decode_record_def f32_of_def)

theorem decode_stream_preserves_order_witness:
  "\<exists>c' ops n. decode_render_stream error_log demo_sizes [] (stream_of demo_records) [BeginFrame] =
       Some ((c', BeginFrame # ops), n) \<and> n = 2 \<and>
     concat (map drawn ops) =
       [Issued2D 7 (FillRect (F32 0) (F32 0) (F32 0x42C80000) (F32 0x42C80000)), IssuedGL (Clear 7 0x4000)]"
  using decode_stream_preserves_order [OF error_log.gl_decode_context_axioms demo_records_ok,
      of demo_sizes "[]" "[BeginFrame]"]
  by (auto simp: demo_records_issued)

lemma decode_stream_barrier_witness:
  "\<exists>c' ops n. decode_render_stream error_log demo_sizes [] (stream_of demo_records) [] = Some ((c', ops), n) \<and>
     barrier [] ops = Some []"
  using decode_stream_barrier [OF error_log.gl_decode_context_axioms demo_records_ok] .



end
