(* ===== verification/External_Session.thy ===== *)
theory External_Session
  imports Ingress Decode_Stream
begin

text \<open>
  A session whose frames are produced elsewhere:
  \<open>engine/crates/core/src/runtime/external.rs\<close>. The submit path is here with the
  ingress, the decoder and the queue of frames the renderer still holds, and so are
  the handlers of the session thread that move the same state. Whether the render
  queue takes a packet is a parameter of each submission.
\<close>

section \<open>Error codes of the session\<close>

abbreviation (input) EXTERNAL_ERROR_RENDERER_NOT_READY :: u32 where "EXTERNAL_ERROR_RENDERER_NOT_READY \<equiv> 2001"
abbreviation (input) EXTERNAL_ERROR_NO_COMMAND_STREAM :: u32 where "EXTERNAL_ERROR_NO_COMMAND_STREAM \<equiv> 2002"
abbreviation (input) EXTERNAL_ERROR_BAD_COMMAND_STREAM :: u32 where "EXTERNAL_ERROR_BAD_COMMAND_STREAM \<equiv> 2003"
abbreviation (input) EXTERNAL_ERROR_RENDERER_UNREACHABLE :: u32 where "EXTERNAL_ERROR_RENDERER_UNREACHABLE \<equiv> 2004"

section \<open>WebGL errors waiting to be asked for\<close>

abbreviation (input) MAX_PENDING_ERRORS_PER_CANVAS :: nat where "MAX_PENDING_ERRORS_PER_CANVAS \<equiv> 16"

type_synonym external_gl_errors = "(u32 \<times> u32 list) list"

fun on_canvas :: "u32 \<Rightarrow> (u32 list \<Rightarrow> u32 list) \<Rightarrow> external_gl_errors \<Rightarrow> external_gl_errors" where
  "on_canvas canvas_id f [] = []"
| "on_canvas canvas_id f ((i, queue) # queues) =
     (if i = canvas_id then (i, f queue) # queues else (i, queue) # on_canvas canvas_id f queues)"

definition errors_push :: "external_gl_errors \<Rightarrow> u32 \<Rightarrow> u32 \<Rightarrow> external_gl_errors" where
  "errors_push queues canvas_id code =
     (let queues = (if find (\<lambda>(i, _). i = canvas_id) queues = None then queues @ [(canvas_id, [])] else queues)
      in on_canvas canvas_id
           (\<lambda>queue. (if length queue \<ge> MAX_PENDING_ERRORS_PER_CANVAS then tl queue else queue) @ [code]) queues)"

definition errors_take :: "external_gl_errors \<Rightarrow> u32 \<Rightarrow> external_gl_errors \<times> u32 option" where
  "errors_take queues canvas_id =
     (case find (\<lambda>(i, _). i = canvas_id) queues of
        None \<Rightarrow> (queues, None)
      | Some (_, []) \<Rightarrow> (queues, None)
      | Some (_, code # _) \<Rightarrow> (on_canvas canvas_id tl queues, Some code))"

definition external_decode_context :: "external_gl_errors gl_context" where
  "external_decode_context =
     \<lparr>push_error = errors_push, transform_feedback_captures = (\<lambda>_ _. False)\<rparr>"

interpretation external: frame_op_context external_decode_context
  by unfold_locales (simp add: external_decode_context_def)

section \<open>The submit path\<close>

text \<open>What the renderer has been sent is kept beside the frames it still holds.\<close>

record render_dispatch =
  rd_sent :: "frame_packet list"
  rd_in_flight :: "pooled_frame list"
  rd_words :: "u32 list"

record submit_path =
  sp_ingress :: frame_ingress
  sp_errors :: external_gl_errors
  sp_dispatch :: "render_dispatch option"

fun chunk_words :: "u8 list \<Rightarrow> u32 list" where
  "chunk_words (b0 # b1 # b2 # b3 # rest) = from_le_bytes [b0, b1, b2, b3] # chunk_words rest"
| "chunk_words _ = []"

definition render ::
    "'h hasher \<Rightarrow> size_model \<Rightarrow> (frame_packet \<Rightarrow> bool) \<Rightarrow> submit_path \<Rightarrow> pooled_frame
     \<Rightarrow> (submit_path \<times> (u32 + unit)) option" where
  "render H S takes sp frame =
     (let failed = (\<lambda>sp code. Some (sp\<lparr>sp_ingress := drop_frame (sp_ingress sp) frame\<rparr>, Inl code)) in
      case sp_dispatch sp of
        None \<Rightarrow> failed sp EXTERNAL_ERROR_RENDERER_NOT_READY
      | Some dispatch \<Rightarrow>
      case pooled_frame_frame H frame of
        None \<Rightarrow> Panic
      | Some (Inl error) \<Rightarrow> failed sp (wire_error_code error)
      | Some (Inr parsed) \<Rightarrow> do {
        stream \<leftarrow> wf_command_stream parsed;
        case stream of
          None \<Rightarrow> failed sp EXTERNAL_ERROR_NO_COMMAND_STREAM
        | Some stream \<Rightarrow>
        let scratch = chunk_words (sec_bytes stream);
            dispatch = dispatch\<lparr>rd_words := scratch\<rparr>;
            sp = sp\<lparr>sp_dispatch := Some dispatch\<rparr>
        in case validate_stream scratch (word_of_nat (length scratch)) of
          None \<Rightarrow> Panic
        | Some (Inl _) \<Rightarrow> failed sp EXTERNAL_ERROR_BAD_COMMAND_STREAM
        | Some (Inr validated) \<Rightarrow> do {
          ((errors, ops), _) \<leftarrow> decode_render_stream external_decode_context S (sp_errors sp) validated [];
          let sp = sp\<lparr>sp_errors := errors\<rparr>;
          let builder = packet_builder_push (packet_builder_new (ucast (wf_frame_id parsed)) (F64 0)) BeginFrame;
          let builder = foldl packet_builder_push builder ops;
          let packet = packet_builder_finish (packet_builder_push builder Present);
          if takes packet
          then Some (sp\<lparr>sp_dispatch := Some (dispatch\<lparr>rd_sent := rd_sent dispatch @ [packet],
                                rd_in_flight := rd_in_flight dispatch @ [frame]\<rparr>)\<rparr>, Inr ())
          else failed sp EXTERNAL_ERROR_RENDERER_UNREACHABLE
        }
      })"

definition submit_frame ::
    "'h hasher \<Rightarrow> vec_model \<Rightarrow> size_model \<Rightarrow> (frame_packet \<Rightarrow> bool) \<Rightarrow> submit_path \<Rightarrow> u8 list
     \<Rightarrow> (submit_path \<times> ingress_outcome) option" where
  "submit_frame H M S takes sp bytes = do {
     (ingress, outcome, frame) \<leftarrow> submit H M (sp_ingress sp) bytes;
     let sp = sp\<lparr>sp_ingress := ingress\<rparr>;
     case frame of
       None \<Rightarrow> Some (sp, outcome)
     | Some frame \<Rightarrow> do {
       (sp, result) \<leftarrow> render H S takes sp frame;
       case result of
         Inr _ \<Rightarrow> Some (sp, outcome)
       | Inl code \<Rightarrow>
           Some (sp, \<lparr>io_decision = Rejected, io_remaining_credits = remaining_credits (sp_ingress sp),
                      io_accepted_sequence = 0, io_wire_error_code = code\<rparr>)
     }
   }"

section \<open>The session thread\<close>

abbreviation (input) INITIAL_RUNTIME_GENERATION :: u64 where "INITIAL_RUNTIME_GENERATION \<equiv> 1"

definition spawn_submit_path :: "u128 \<Rightarrow> submit_path" where
  "spawn_submit_path launch_nonce =
     \<lparr>sp_ingress = frame_ingress_new launch_nonce INITIAL_RUNTIME_GENERATION, sp_errors = [],
      sp_dispatch = None\<rparr>"

text \<open>A cell that is set once keeps its first value.\<close>

definition publish_dispatch :: "submit_path \<Rightarrow> submit_path" where
  "publish_dispatch sp =
     (case sp_dispatch sp of
        Some _ \<Rightarrow> sp
      | None \<Rightarrow> sp\<lparr>sp_dispatch := Some \<lparr>rd_sent = [], rd_in_flight = [], rd_words = []\<rparr>\<rparr>)"

definition release_finished :: "submit_path \<Rightarrow> submit_path" where
  "release_finished sp =
     (case sp_dispatch sp of
        None \<Rightarrow> sp
      | Some dispatch \<Rightarrow>
          case rd_in_flight dispatch of
            [] \<Rightarrow> sp
          | finished # rest \<Rightarrow>
              sp\<lparr>sp_dispatch := Some (dispatch\<lparr>rd_in_flight := rest\<rparr>),
                 sp_ingress := drop_frame (sp_ingress sp) finished\<rparr>)"

definition update_surface :: "submit_path \<Rightarrow> u64 \<Rightarrow> submit_path" where
  "update_surface sp generation =
     sp\<lparr>sp_ingress := fst (set_surface_generation (sp_ingress sp) generation)\<rparr>"

definition context_lost :: "submit_path \<times> u64 \<Rightarrow> submit_path \<times> u64" where
  "context_lost = (\<lambda>(sp, last_context_epoch).
     let last_context_epoch = last_context_epoch + 1 in
     (sp\<lparr>sp_ingress := fst (set_resource_epoch (sp_ingress sp) last_context_epoch)\<rparr>, last_context_epoch))"

section \<open>The error queues are bounded queues\<close>

definition queue_of :: "external_gl_errors \<Rightarrow> u32 \<Rightarrow> u32 list" where
  "queue_of queues i = (case map_of queues i of None \<Rightarrow> [] | Some queue \<Rightarrow> queue)"

definition newest :: "nat \<Rightarrow> 'a list \<Rightarrow> 'a list" where
  "newest n xs = drop (length xs - n) xs"

definition errors_inv :: "external_gl_errors \<Rightarrow> bool" where
  "errors_inv queues \<longleftrightarrow> distinct (map fst queues) \<and>
     list_all (\<lambda>(_, queue). length queue \<le> MAX_PENDING_ERRORS_PER_CANVAS) queues"

lemma find_key: "find (\<lambda>(i, _). i = k) xs = map_option (Pair k) (map_of xs k)"
  by (induction xs) auto

lemma fst_on_canvas [simp]: "map fst (on_canvas i f queues) = map fst queues"
  by (induction i f queues rule: on_canvas.induct) auto

lemma map_of_on_canvas: "map_of (on_canvas i f queues) j = (if j = i then map_option f (map_of queues i) else map_of queues j)"
  by (induction i f queues rule: on_canvas.induct) auto

lemma bounded_on_canvas:
  assumes "list_all (\<lambda>(_, q). length q \<le> n) queues" and "\<And>q. length q \<le> n \<Longrightarrow> length (f q) \<le> n"
  shows "list_all (\<lambda>(_, q). length q \<le> n) (on_canvas i f queues)"
  using assms by (induction i f queues rule: on_canvas.induct) auto

lemma newest_snoc:
  "length q \<le> n \<Longrightarrow> 0 < n \<Longrightarrow> (if length q \<ge> n then tl q else q) @ [e] = newest n (q @ [e])"
  by (cases "length q = n") (auto simp: newest_def drop_Suc)

lemma newest_newest_snoc: "newest n (newest n xs @ [e]) = newest n (xs @ [e])"
  by (cases "n \<le> length xs") (auto simp: newest_def Suc_diff_le)

lemma errors_push_inv: "errors_inv queues \<Longrightarrow> errors_inv (errors_push queues i e)"
  unfolding errors_inv_def errors_push_def Let_def
  by (intro conjI bounded_on_canvas) (auto simp: find_key map_of_eq_None_iff)

lemma queue_of_push:
  assumes "errors_inv queues"
  shows "queue_of (errors_push queues i e) j =
    (if j = i then newest MAX_PENDING_ERRORS_PER_CANVAS (queue_of queues i @ [e]) else queue_of queues j)"
proof (cases "map_of queues i")
  case None
  then show ?thesis
    by (auto simp: errors_push_def queue_of_def find_key map_of_on_canvas map_add_def newest_def split: option.splits)
next
  case (Some q)
  then have "length q \<le> 16"
    using assms map_of_SomeD [OF Some] by (auto simp: errors_inv_def list_all_iff)
  then show ?thesis
    using Some newest_snoc [of q 16 e]
    by (simp add: errors_push_def queue_of_def find_key map_of_on_canvas)
qed

lemma errors_take_inv: "errors_inv queues \<Longrightarrow> errors_inv (fst (errors_take queues i))"
  unfolding errors_inv_def errors_take_def
  by (auto split: option.splits prod.splits list.splits intro!: bounded_on_canvas)

lemma queue_of_take:
  "queue_of (fst (errors_take queues i)) j = (if j = i then tl (queue_of queues i) else queue_of queues j)"
  "snd (errors_take queues i) = (case queue_of queues i of [] \<Rightarrow> None | e # _ \<Rightarrow> Some e)"
  by (auto simp: errors_take_def queue_of_def find_key map_of_on_canvas split: option.splits list.splits)

interpretation external_errors: target_invariant "frame_op_sink external_decode_context" "\<lambda>t. errors_inv (fst t)"
  by unfold_locales (auto simp: frame_op_sink_def external_decode_context_def errors_push_inv)

section \<open>Rendering an accepted frame\<close>

definition stream_words :: "wire_frame \<Rightarrow> u32 list" where
  "stream_words f = (case wf_command_stream f of Some (Some s) \<Rightarrow> chunk_words (sec_bytes s) | _ \<Rightarrow> [])"

definition carries :: "wire_frame \<Rightarrow> u32 list list \<Rightarrow> bool" where
  "carries f rs \<longleftrightarrow> stream_words f = stream_of rs \<and> list_all record_ok rs \<and> length (stream_words f) \<le> 8192"

definition sent :: "submit_path \<Rightarrow> frame_packet list" where
  "sent sp = (case sp_dispatch sp of None \<Rightarrow> [] | Some d \<Rightarrow> rd_sent d)"

definition held :: "submit_path \<Rightarrow> pooled_frame list" where
  "held sp = (case sp_dispatch sp of None \<Rightarrow> [] | Some d \<Rightarrow> rd_in_flight d)"

definition frame_packet_of :: "wire_frame \<Rightarrow> frame_op list \<Rightarrow> frame_packet" where
  "frame_packet_of f ops =
     \<lparr>fp_frame_id = ucast (wf_frame_id f), fp_raf_time_ms = F64 0, fp_ops = BeginFrame # ops @ [Present]\<rparr>"

lemma length_chunk_words: "length (chunk_words bs) = length bs div 4"
  by (induction bs rule: chunk_words.induct) auto

lemma validate_chunks_iff:
  assumes "length ws < 2 ^ 32"
  shows "validate_stream ws (word_of_nat (length ws)) = Ok s \<longleftrightarrow>
    s = ws \<and> length ws \<le> 8192 \<and> (\<exists>rs. list_all record_ok rs \<and> ws = stream_of rs)"
  using assms by (auto simp: validate_stream_Ok_iff unat_of_nat)

lemma packet_built:
  "packet_builder_finish (packet_builder_push
     (foldl packet_builder_push (packet_builder_push (packet_builder_new i t) BeginFrame) ops) Present) =
   \<lparr>fp_frame_id = i, fp_raf_time_ms = t, fp_ops = BeginFrame # ops @ [Present]\<rparr>"
  by (simp add: packet_builder_finish_def packet_builder_push_def [of _ Present] fold_packet_push fold_packet_push_id)
    (simp add: packet_builder_push_def packet_builder_new_def)

lemma render_cases [consumes 1]:
  assumes "pooled_frame_frame H frame = Ok w"
  obtains (not_ready) "sp_dispatch sp = None"
      "render H S takes sp frame = Some (sp\<lparr>sp_ingress := drop_frame (sp_ingress sp) frame\<rparr>,
         Inl EXTERNAL_ERROR_RENDERER_NOT_READY)"
  | (bad_stream) d where "sp_dispatch sp = Some d" "\<nexists>rs. carries w rs"
      "render H S takes sp frame = Some (sp\<lparr>sp_dispatch := Some (d\<lparr>rd_words := stream_words w\<rparr>),
         sp_ingress := drop_frame (sp_ingress sp) frame\<rparr>, Inl EXTERNAL_ERROR_BAD_COMMAND_STREAM)"
  | (decoded) d rs errors ops n where "sp_dispatch sp = Some d" "carries w rs"
      "decode_render_stream external_decode_context S (sp_errors sp) (stream_of rs) [] = Some ((errors, ops), n)"
      "render H S takes sp frame =
        (if takes (frame_packet_of w ops)
         then Some (sp\<lparr>sp_errors := errors, sp_dispatch := Some (d\<lparr>rd_words := stream_words w,
                rd_sent := rd_sent d @ [frame_packet_of w ops], rd_in_flight := rd_in_flight d @ [frame]\<rparr>)\<rparr>, Inr ())
         else Some (sp\<lparr>sp_errors := errors, sp_dispatch := Some (d\<lparr>rd_words := stream_words w\<rparr>),
                sp_ingress := drop_frame (sp_ingress sp) frame\<rparr>, Inl EXTERNAL_ERROR_RENDERER_UNREACHABLE))"
proof (cases "sp_dispatch sp")
  case None
  then show thesis by (intro not_ready) (simp_all add: render_def)
next
  case (Some d)
  obtain s where s: "wf_command_stream w = Some (Some s)" "length (sec_bytes s) \<le> 4194304"
    using command_stream_total assms unfolding pooled_frame_frame_def by metis
  have words: "stream_words w = chunk_words (sec_bytes s)"
    using s(1) by (simp add: stream_words_def)
  have len: "length (stream_words w) < 2 ^ 32"
    using s(2) by (simp add: words length_chunk_words)
  show thesis
  proof (cases "\<exists>rs. carries w rs")
    case True
    then obtain rs where rs: "carries w rs" by blast
    have ok: "validate_stream (stream_words w) (word_of_nat (length (stream_words w))) = Ok (stream_of rs)"
      unfolding validate_chunks_iff [OF len] using rs [unfolded carries_def] by metis
    have records: "list_all record_ok rs" using rs by (simp only: carries_def)
    obtain errors ops n where dec: "decode_render_stream external_decode_context S (sp_errors sp) (stream_of rs) [] =
        Some ((errors, ops), n)"
      using external.decode_stream [OF records, of S "sp_errors sp" "[]"] unfolding append_Nil by (elim exE conjE)
    show thesis
      using Some rs dec
    proof (rule decoded)
      show "render H S takes sp frame =
        (if takes (frame_packet_of w ops)
         then Some (sp\<lparr>sp_errors := errors, sp_dispatch := Some (d\<lparr>rd_words := stream_words w,
                rd_sent := rd_sent d @ [frame_packet_of w ops], rd_in_flight := rd_in_flight d @ [frame]\<rparr>)\<rparr>, Inr ())
         else Some (sp\<lparr>sp_errors := errors, sp_dispatch := Some (d\<lparr>rd_words := stream_words w\<rparr>),
                sp_ingress := drop_frame (sp_ingress sp) frame\<rparr>, Inl EXTERNAL_ERROR_RENDERER_UNREACHABLE))"
        using Some assms s(1) ok dec
        by (simp add: render_def Let_def words packet_built frame_packet_of_def)
    qed
  next
    case False
    have "validate_stream (stream_words w) (word_of_nat (length (stream_words w))) \<noteq> Ok x" for x
      unfolding validate_chunks_iff [OF len] using False [unfolded carries_def] by metis
    then obtain e where "validate_stream (stream_words w) (word_of_nat (length (stream_words w))) = Err e"
      using validate_stream_no_panic by (metis option.exhaust sum.exhaust)
    then show thesis
      using Some False assms s(1) by (intro bad_stream) (simp_all add: render_def Let_def words)
  qed
qed

section \<open>The invariant of a session\<close>

definition session_inv :: "'h hasher \<Rightarrow> submit_path \<Rightarrow> bool" where
  "session_inv H sp \<longleftrightarrow>
     ingress_inv (sp_ingress sp) \<and> unat (cw_in_flight (fi_credits (sp_ingress sp))) = length (held sp) \<and>
     list_all (frame_of_session H (sp_ingress sp)) (held sp) \<and> errors_inv (sp_errors sp)"

lemma drop_frame_fields:
  "fi_launch_nonce (drop_frame fi f) = fi_launch_nonce fi"
  "fi_runtime_generation (drop_frame fi f) = fi_runtime_generation fi"
  "fi_surface_generation (drop_frame fi f) = fi_surface_generation fi"
  "fi_resource_epoch (drop_frame fi f) = fi_resource_epoch fi"
  "fi_last_accepted_sequence (drop_frame fi f) = fi_last_accepted_sequence fi"
  "unat (cw_in_flight (fi_credits (drop_frame fi f))) = unat (cw_in_flight (fi_credits fi)) - 1"
  "cw_max (fi_credits (drop_frame fi f)) = cw_max (fi_credits fi)"
  using window.give_back_used [of "fi_credits fi"] window.give_back_limit [of "fi_credits fi"]
  by (simp_all add: drop_frame_def pooled_frame_drop_def word_unat_eq_iff)

lemma held_sent_simps:
  "held (sp\<lparr>sp_ingress := fi\<rparr>) = held sp" "sent (sp\<lparr>sp_ingress := fi\<rparr>) = sent sp"
  "held (sp\<lparr>sp_errors := es\<rparr>) = held sp" "sent (sp\<lparr>sp_errors := es\<rparr>) = sent sp"
  "held (sp\<lparr>sp_dispatch := Some d\<rparr>) = rd_in_flight d" "sent (sp\<lparr>sp_dispatch := Some d\<rparr>) = rd_sent d"
  "sp_dispatch sp = Some d \<Longrightarrow> held sp = rd_in_flight d" "sp_dispatch sp = Some d \<Longrightarrow> sent sp = rd_sent d"
  "sp_dispatch sp = None \<Longrightarrow> held sp = []" "sp_dispatch sp = None \<Longrightarrow> sent sp = []"
  by (simp_all add: held_def sent_def)

text \<open>A frame that was accepted and not rendered is dropped, and its credit is back.\<close>

lemma dropped_inv:
  assumes "session_inv H sp" and "ingress_inv fi" and "errors_inv es"
    and "unat (cw_in_flight (fi_credits fi)) = unat (cw_in_flight (fi_credits (sp_ingress sp))) + 1"
    and "cw_max (fi_credits fi) = cw_max (fi_credits (sp_ingress sp))"
    and "fi_launch_nonce fi = fi_launch_nonce (sp_ingress sp)"
    and "fi_runtime_generation fi = fi_runtime_generation (sp_ingress sp)"
    and "sp_ingress sp' = drop_frame fi f" and "sp_errors sp' = es" and "held sp' = held sp"
  shows "session_inv H sp' \<and> fi_credits (sp_ingress sp') = fi_credits (sp_ingress sp)"
proof -
  have "unat (cw_in_flight (fi_credits (sp_ingress sp'))) = unat (cw_in_flight (fi_credits (sp_ingress sp)))"
    and "cw_max (fi_credits (sp_ingress sp')) = cw_max (fi_credits (sp_ingress sp))"
    using assms(4,5,8) drop_frame_fields(6,7) [of fi f] by simp_all
  then have "fi_credits (sp_ingress sp') = fi_credits (sp_ingress sp)"
    by (simp add: word_unat_eq_iff credit_window.equality)
  then show ?thesis
    using assms drop_frame_inv [of fi f] drop_frame_fields [of fi f]
      frame_of_session_cong [of "sp_ingress sp'" "sp_ingress sp" H]
    by (simp add: session_inv_def)
qed

lemma decoded_effect:
  assumes "carries w rs" and "errors_inv es"
    and "decode_render_stream external_decode_context S es (stream_of rs) [] = Some ((es', ops), n)"
  shows "errors_inv es'" and "concat (map drawn ops) = issued_commands (\<lambda>_. False) None rs"
    and "barrier [] ops = Some []" and "list_all batch_nonempty ops"
proof -
  have records: "list_all record_ok rs" using assms(1) by (simp only: carries_def)
  show "errors_inv es'"
    using external_errors.P_decode [OF _ records, of "(es, [])" S "(es', ops)" n] assms(2,3)
    by (simp add: decode_render_stream_def)
  have "transform_feedback_captures external_decode_context c = (\<lambda>_. False)" for c
    by (simp add: external_decode_context_def)
  then show "concat (map drawn ops) = issued_commands (\<lambda>_. False) None rs"
    and "barrier [] ops = Some []" and "list_all batch_nonempty ops"
    using external.decode_stream [OF records, of S es "[]"] assms(3) by auto
qed

lemma submit_frame_cases [consumes 2]:
  assumes "session_inv H sp" and "vec_model_ok M"
  obtains (away) out where "submit_frame H M S takes sp bytes = Some (sp, out)"
      "io_decision out \<noteq> Accepted" "io_accepted_sequence out = 0"
      "io_remaining_credits out = remaining_credits (sp_ingress sp)"
      "io_decision out = Rejected \<longleftrightarrow> io_wire_error_code out \<noteq> 0"
      "io_decision out = WouldBlock \<longrightarrow> io_remaining_credits out = 0"
      "\<nexists>w. legal H (sp_ingress sp) bytes w \<and> cw_in_flight (fi_credits (sp_ingress sp)) < cw_max (fi_credits (sp_ingress sp))"
  | (dropped) w sp' code where "legal H (sp_ingress sp) bytes w"
      "submit_frame H M S takes sp bytes = Some (sp',
         \<lparr>io_decision = Rejected, io_remaining_credits = remaining_credits (sp_ingress sp'),
          io_accepted_sequence = 0, io_wire_error_code = code\<rparr>)"
      "code = (if sp_dispatch sp = None then EXTERNAL_ERROR_RENDERER_NOT_READY
               else if \<nexists>rs. carries w rs then EXTERNAL_ERROR_BAD_COMMAND_STREAM
               else EXTERNAL_ERROR_RENDERER_UNREACHABLE)"
      "sp_dispatch sp = None \<or> (\<nexists>rs. carries w rs) \<or> (\<exists>p. \<not> takes p)"
      "session_inv H sp'" "sent sp' = sent sp" "held sp' = held sp"
      "fi_credits (sp_ingress sp') = fi_credits (sp_ingress sp)"
      "(sp_ingress sp)\<lparr>fi_credits := fi_credits (sp_ingress sp'), fi_pool := fi_pool (sp_ingress sp'),
         fi_last_accepted_sequence := wf_sequence w\<rparr> = sp_ingress sp'"
  | (rendered) w sp' f rs ops where "legal H (sp_ingress sp) bytes w" "carries w rs" "sp_dispatch sp \<noteq> None"
      "submit_frame H M S takes sp bytes = Some (sp',
         \<lparr>io_decision = Accepted, io_remaining_credits = remaining_credits (sp_ingress sp'),
          io_accepted_sequence = wf_sequence w, io_wire_error_code = 0\<rparr>)"
      "session_inv H sp'" "sent sp' = sent sp @ [frame_packet_of w ops]" "held sp' = held sp @ [f]"
      "pf_bytes f = bytes" "concat (map drawn ops) = issued_commands (\<lambda>_. False) None rs"
      "barrier [] ops = Some []" "list_all batch_nonempty ops"
      "(sp_ingress sp)\<lparr>fi_credits := fi_credits (sp_ingress sp'), fi_pool := fi_pool (sp_ingress sp'),
         fi_last_accepted_sequence := wf_sequence w\<rparr> = sp_ingress sp'"
      "takes (frame_packet_of w ops)"
proof -
  have fi: "ingress_inv (sp_ingress sp)" using assms(1) by (simp add: session_inv_def)
  show thesis
    using fi assms(2)
  proof (cases rule: submit_cases [where H = H and bytes = bytes])
    case (refused d code)
    then show thesis
      by (intro away [of "\<lparr>io_decision = d, io_remaining_credits = remaining_credits (sp_ingress sp),
          io_accepted_sequence = 0, io_wire_error_code = code\<rparr>"])
        (auto simp: submit_frame_def refusal_def)
  next
    case (blocked frame)
    have "remaining_credits (sp_ingress sp) = 0"
      using blocked(2)
      by (simp add: remaining_credits_def cw_remaining_def word_unat_eq_iff word_less_nat_alt unat_saturating_sub)
    then show thesis
      using blocked
      by (intro away [of "\<lparr>io_decision = WouldBlock, io_remaining_credits = 0,
          io_accepted_sequence = 0, io_wire_error_code = 0\<rparr>"]) (auto simp: submit_frame_def)
  next
    case (accepted w fi' f)
    have valid: "pooled_frame_frame H f = Ok w"
      using accepted(1,5) by (simp add: pooled_frame_frame_def legal_def)
    have same: "fi_launch_nonce fi' = fi_launch_nonce (sp_ingress sp)"
        "fi_runtime_generation fi' = fi_runtime_generation (sp_ingress sp)"
      using ingress_same_fields [OF accepted(9)] by simp_all
    have errs: "errors_inv (sp_errors sp)" using assms(1) by (simp add: session_inv_def)
    note drop_inv = dropped_inv [OF assms(1) accepted(4) _ accepted(7,10) same]
    let ?sp = "sp\<lparr>sp_ingress := fi'\<rparr>"
    have kept: "(sp_ingress sp)\<lparr>fi_credits := fi_credits (drop_frame fi' f), fi_pool := fi_pool (drop_frame fi' f),
        fi_last_accepted_sequence := wf_sequence w\<rparr> = drop_frame fi' f"
      by (subst (3) accepted(9) [symmetric]) (simp add: drop_frame_def pooled_frame_drop_def)
    show thesis
      using valid
    proof (cases rule: render_cases [where sp = ?sp and S = S and takes = takes])
      case not_ready
      show thesis
        by (rule dropped [of w "?sp\<lparr>sp_ingress := drop_frame fi' f\<rparr>" EXTERNAL_ERROR_RENDERER_NOT_READY])
          (use accepted not_ready drop_inv [OF errs, of "?sp\<lparr>sp_ingress := drop_frame fi' f\<rparr>" f] kept
            in \<open>simp_all add: submit_frame_def held_sent_simps\<close>)
    next
      case (bad_stream d)
      let ?sp' = "?sp\<lparr>sp_dispatch := Some (d\<lparr>rd_words := stream_words w\<rparr>), sp_ingress := drop_frame fi' f\<rparr>"
      have "held ?sp' = held sp" "sent ?sp' = sent sp"
        using bad_stream(1) by (simp_all add: held_sent_simps)
      then show thesis
        by (intro dropped [of w ?sp' EXTERNAL_ERROR_BAD_COMMAND_STREAM])
          (use accepted bad_stream drop_inv [OF errs, of ?sp' f] kept
            in \<open>simp_all add: submit_frame_def\<close>)
    next
      case (decoded d rs errors ops n)
      have errs': "errors_inv errors"
        and ops: "concat (map drawn ops) = issued_commands (\<lambda>_. False) None rs" "barrier [] ops = Some []"
          "list_all batch_nonempty ops"
        using decoded_effect [OF decoded(2) _ decoded(3)] errs by simp_all
      show thesis
      proof (cases "takes (frame_packet_of w ops)")
        case True
        let ?sp' = "?sp\<lparr>sp_errors := errors, sp_dispatch := Some (d\<lparr>rd_words := stream_words w,
            rd_sent := rd_sent d @ [frame_packet_of w ops], rd_in_flight := rd_in_flight d @ [f]\<rparr>)\<rparr>"
        have hs: "held ?sp' = held sp @ [f]" "sent ?sp' = sent sp @ [frame_packet_of w ops]"
          using decoded(1) by (simp_all add: held_sent_simps)
        have "frame_of_session H fi' f"
          using valid accepted(1,6) same by (auto simp: frame_of_session_def legal_def)
        then have "session_inv H ?sp'"
          using assms(1) accepted(4,7) hs(1) errs' frame_of_session_cong [OF same, of H]
          by (simp add: session_inv_def)
        then show thesis
          by (intro rendered [of w rs ?sp' ops f])
            (use accepted decoded True hs ops in \<open>simp_all add: submit_frame_def\<close>)
      next
        case False
        let ?sp' = "?sp\<lparr>sp_errors := errors, sp_dispatch := Some (d\<lparr>rd_words := stream_words w\<rparr>),
            sp_ingress := drop_frame fi' f\<rparr>"
        have "held ?sp' = held sp" "sent ?sp' = sent sp"
          using decoded(1) by (simp_all add: held_sent_simps)
        then show thesis
          by (intro dropped [of w ?sp' EXTERNAL_ERROR_RENDERER_UNREACHABLE])
            (use accepted decoded False drop_inv [OF errs', of ?sp' f] kept
              in \<open>auto simp: submit_frame_def\<close>)
      qed
    qed
  qed
qed

section \<open>A running session\<close>

text \<open>
  The session with the epoch counter of its thread. Packets arrive at any time and
  the render queue takes each or does not; the renderer comes up, ticks, loses its
  context; the host changes the surface, declares resources ready and drains errors.
  The epoch counter is assumed not to overflow.
\<close>

inductive session_step ::
    "'h hasher \<Rightarrow> vec_model \<Rightarrow> size_model \<Rightarrow> submit_path \<times> u64 \<Rightarrow> submit_path \<times> u64 \<Rightarrow> bool"
  for H :: "'h hasher" and M :: vec_model and S :: size_model where
  submit_step: "submit_frame H M S takes sp bytes = Some (sp', out) \<Longrightarrow> session_step H M S (sp, ep) (sp', ep)"
| publish_step: "session_step H M S (sp, ep) (publish_dispatch sp, ep)"
| tick_step: "session_step H M S (sp, ep) (release_finished sp, ep)"
| surface_step: "session_step H M S (sp, ep) (update_surface sp g, ep)"
| lost_step: "ep \<noteq> - 1 \<Longrightarrow> session_step H M S (sp, ep) (context_lost (sp, ep))"
| ready_step: "session_step H M S (sp, ep) (sp\<lparr>sp_ingress := mark_resources_ready (sp_ingress sp)\<rparr>, ep)"
| take_step: "session_step H M S (sp, ep) (sp\<lparr>sp_errors := fst (errors_take (sp_errors sp) i)\<rparr>, ep)"

definition packet_ok :: "frame_packet \<Rightarrow> bool" where
  "packet_ok p \<longleftrightarrow> (\<exists>ops. fp_ops p = BeginFrame # ops @ [Present] \<and> barrier [] ops = Some [] \<and> list_all batch_nonempty ops)"

definition run_inv :: "'h hasher \<Rightarrow> submit_path \<times> u64 \<Rightarrow> bool" where
  "run_inv H = (\<lambda>(sp, ep). session_inv H sp \<and> list_all packet_ok (sent sp) \<and> fi_resource_epoch (sp_ingress sp) = ep)"

lemma release_finished_effect:
  assumes "session_inv H sp"
  shows "session_inv H (release_finished sp)" and "held (release_finished sp) = tl (held sp)"
    and "sent (release_finished sp) = sent sp"
    and "fi_resource_epoch (sp_ingress (release_finished sp)) = fi_resource_epoch (sp_ingress sp)"
    and "cw_max (fi_credits (sp_ingress (release_finished sp))) = cw_max (fi_credits (sp_ingress sp))"
proof -
  have "session_inv H (release_finished sp) \<and> held (release_finished sp) = tl (held sp) \<and>
    sent (release_finished sp) = sent sp \<and>
    fi_resource_epoch (sp_ingress (release_finished sp)) = fi_resource_epoch (sp_ingress sp) \<and>
    cw_max (fi_credits (sp_ingress (release_finished sp))) = cw_max (fi_credits (sp_ingress sp))"
  proof (cases "held sp")
    case Nil
    then have "release_finished sp = sp"
      by (auto simp: release_finished_def held_def split: option.splits list.splits)
    then show ?thesis using assms Nil by simp
  next
    case (Cons f fs)
    then obtain d where d: "sp_dispatch sp = Some d" "rd_in_flight d = f # fs"
      by (auto simp: held_def split: option.splits)
    have cong: "frame_of_session H (drop_frame (sp_ingress sp) f) = frame_of_session H (sp_ingress sp)"
      by (rule frame_of_session_cong) (simp_all add: drop_frame_fields)
    show ?thesis
      using assms d Cons cong drop_frame_inv [of "sp_ingress sp" f] drop_frame_fields [of "sp_ingress sp" f]
      by (simp add: release_finished_def session_inv_def held_sent_simps)
  qed
  then show "session_inv H (release_finished sp)" and "held (release_finished sp) = tl (held sp)"
    and "sent (release_finished sp) = sent sp"
    and "fi_resource_epoch (sp_ingress (release_finished sp)) = fi_resource_epoch (sp_ingress sp)"
    and "cw_max (fi_credits (sp_ingress (release_finished sp))) = cw_max (fi_credits (sp_ingress sp))"
    by simp_all
qed

lemma session_inv_ingress:
  assumes "session_inv H sp" and "ingress_inv fi"
    and "cw_in_flight (fi_credits fi) = cw_in_flight (fi_credits (sp_ingress sp))"
    and "fi_launch_nonce fi = fi_launch_nonce (sp_ingress sp)"
    and "fi_runtime_generation fi = fi_runtime_generation (sp_ingress sp)"
  shows "session_inv H (sp\<lparr>sp_ingress := fi\<rparr>)"
  using assms frame_of_session_cong [OF assms(4,5), of H]
  by (simp add: session_inv_def held_sent_simps)

lemma submit_frame_run_inv:
  assumes "run_inv H (sp, ep)" and "vec_model_ok M" and "submit_frame H M S takes sp bytes = Some (sp', out)"
  shows "run_inv H (sp', ep)"
proof -
  have inv: "session_inv H sp" using assms(1) by (simp add: run_inv_def)
  show ?thesis
    using inv assms(2)
  proof (cases rule: submit_frame_cases [where S = S and takes = takes and bytes = bytes])
    case (away out')
    then show ?thesis using assms(1,3) by simp
  next
    case (dropped w sp'' code)
    have "fi_resource_epoch (sp_ingress sp'') = fi_resource_epoch (sp_ingress sp)"
      by (subst dropped(9) [symmetric]) simp
    then show ?thesis using assms(1,3) dropped by (simp add: run_inv_def)
  next
    case (rendered w sp'' f rs ops)
    have "fi_resource_epoch (sp_ingress sp'') = fi_resource_epoch (sp_ingress sp)"
      by (subst rendered(12) [symmetric]) simp
    then show ?thesis
      using assms(1,3) rendered by (simp add: run_inv_def packet_ok_def frame_packet_of_def)
  qed
qed

lemma session_step_inv:
  assumes "session_step H M S s s'" and "vec_model_ok M" and "run_inv H s"
  shows "run_inv H s'"
  using assms(1)
proof cases
  case (submit_step takes sp bytes sp' out ep)
  then show ?thesis using submit_frame_run_inv assms(2,3) by blast
next
  case (publish_step sp ep)
  then show ?thesis
    using assms(3)
    by (cases "sp_dispatch sp")
      (simp_all add: run_inv_def publish_dispatch_def session_inv_def held_sent_simps)
next
  case (tick_step sp ep)
  then show ?thesis
    using assms(3) release_finished_effect [of H sp] by (simp add: run_inv_def)
next
  case (surface_step sp ep g)
  have "session_inv H (update_surface sp g)" if "session_inv H sp"
    unfolding update_surface_def
    by (rule session_inv_ingress [OF that host_calls_inv(1)])
      (use that in \<open>auto simp: session_inv_def set_surface_generation_def\<close>)
  then show ?thesis
    using surface_step assms(3)
    by (auto simp: run_inv_def update_surface_def held_sent_simps set_surface_generation_def)
next
  case (lost_step ep sp)
  have "session_inv H (sp\<lparr>sp_ingress := fst (set_resource_epoch (sp_ingress sp) (ep + 1))\<rparr>)" if "session_inv H sp"
    by (rule session_inv_ingress [OF that host_calls_inv(2)])
      (use that in \<open>auto simp: session_inv_def set_resource_epoch_def\<close>)
  moreover have "1 + ep \<noteq> 0"
    using lost_step(3) by (simp add: add_eq_0_iff)
  then have "\<not> ep + 1 < ep" "ep + 1 \<noteq> ep"
    using unatSuc [of ep] by (simp_all add: word_less_nat_alt add.commute)
  ultimately show ?thesis
    using lost_step assms(3)
    by (auto simp: run_inv_def context_lost_def held_sent_simps set_resource_epoch_def Let_def)
next
  case (ready_step sp ep)
  have "session_inv H (sp\<lparr>sp_ingress := mark_resources_ready (sp_ingress sp)\<rparr>)" if "session_inv H sp"
    by (rule session_inv_ingress [OF that host_calls_inv(3)])
      (use that in \<open>auto simp: session_inv_def mark_resources_ready_def\<close>)
  then show ?thesis
    using ready_step assms(3) by (auto simp: run_inv_def held_sent_simps mark_resources_ready_def)
next
  case (take_step sp ep i)
  then show ?thesis
    using assms(3) errors_take_inv by (simp add: run_inv_def session_inv_def held_sent_simps)
qed

lemma run_inv_initial: "run_inv H (spawn_submit_path nonce, 0)"
  using frame_ingress_new_inv [of nonce 1]
  by (simp add: run_inv_def session_inv_def spawn_submit_path_def held_sent_simps errors_inv_def
      frame_ingress_new_def credit_window_new_def)

section \<open>From words to bytes\<close>

definition stream_bytes :: "u32 list \<Rightarrow> u8 list" where
  "stream_bytes ws = concat (map (to_le_bytes 4) ws)"

lemma length_stream_bytes [simp]: "length (stream_bytes ws) = 4 * length ws"
  by (induction ws) (simp_all add: stream_bytes_def)

lemma chunk_words_stream_bytes [simp]: "chunk_words (stream_bytes ws) = ws"
proof (induction ws)
  case (Cons w ws)
  have "length (to_le_bytes 4 w) = Suc (Suc (Suc (Suc 0)))" by simp
  then obtain b0 b1 b2 b3 where b: "to_le_bytes 4 w = [b0, b1, b2, b3]"
    unfolding length_Suc_conv by blast
  then have "from_le_bytes [b0, b1, b2, b3] = w"
    using le32.dec_enc [of w] by simp
  then show ?case
    using Cons b by (simp add: stream_bytes_def)
qed (simp add: stream_bytes_def)

definition demo_frame :: wire_builder where
  "demo_frame = builder_section builder_new SECTION_KIND_COMMAND_STREAM 12 (stream_bytes (stream_of demo_records))"

lemma demo_frame_wf: "packet_wf demo_frame"
  by (simp add: packet_wf_def demo_frame_def builder_section_def builder_new_def packet_length_def
      align8_def section_wf_def check_item_count_def known_required_def stream_of_def demo_records_def)

abbreviation demo_frame_bytes :: "u8 list" where
  "demo_frame_bytes \<equiv> canonical crc32_hasher demo_frame"

lemma built_legal:
  assumes "packet_wf b" and "b_launch_nonce b = fi_launch_nonce fi" and "b_runtime_generation b = fi_runtime_generation fi"
    and "fi_surface_generation fi = 0 \<or> b_surface_generation b = fi_surface_generation fi"
    and "b_resource_epoch b = fi_resource_epoch fi"
    and "fi_resources_ready fi \<or> SECTION_KIND_RESOURCE_REFERENCES \<notin> set (map sec_kind (b_sections b))"
    and "b_sequence b = saturating_add (fi_last_accepted_sequence fi) 1"
    and "packet_length b \<le> unat (fi_max_packet_bytes fi)"
    and "find (\<lambda>s. sec_kind s = SECTION_KIND_COMMAND_STREAM) (b_sections b) = Some s"
  obtains w where "legal H fi (canonical H b) w" and "stream_words w = chunk_words (sec_bytes s)"
    and "wf_frame_id w = b_frame_id b"
proof -
  obtain w where w: "validate H (canonical H b) = Ok w" "wf_sections w = Some (b_sections b)"
      "packet_of w (b_sections b) = b\<lparr>b_extra_gap := 0, b_pad_fill := 0, b_trailing_bytes := 0\<rparr>"
    using canonical_valid [OF assms(1)] by blast
  have fields: "wf_launch_nonce w = b_launch_nonce b" "wf_sequence w = b_sequence b"
      "wf_runtime_generation w = b_runtime_generation b" "wf_surface_generation w = b_surface_generation b"
      "wf_resource_epoch w = b_resource_epoch b" "wf_frame_id w = b_frame_id b"
    using arg_cong [OF w(3), of b_launch_nonce] arg_cong [OF w(3), of b_sequence]
      arg_cong [OF w(3), of b_runtime_generation] arg_cong [OF w(3), of b_surface_generation]
      arg_cong [OF w(3), of b_resource_epoch] arg_cong [OF w(3), of b_frame_id]
    by (simp_all add: packet_of_def)
  have refs: "wf_references_resources w = Some (SECTION_KIND_RESOURCE_REFERENCES \<in> set (map sec_kind (b_sections b)))"
    using w(2) find_kind(2) [of SECTION_KIND_RESOURCE_REFERENCES "b_sections b"]
    by (simp add: wf_references_resources_def wf_sections_def find_section_eq)
  have words: "stream_words w = chunk_words (sec_bytes s)"
    using w(2) assms(9) by (simp add: stream_words_def wf_command_stream_def wf_sections_def find_section_eq)
  have "length (canonical H b) = packet_length b"
    using canonical_checksum [of H b] length_encode_with by metis
  then have "legal H fi (canonical H b) w"
    using assms w(1) fields refs by (auto simp: legal_def)
  then show thesis
    using that words fields(6) by blast
qed

section \<open>Properties\<close>

text \<open>
  C2. Offering a packet to a session: \<open>submit_frame\<close> never panics, and on
  acceptance the renderer has been sent one more packet. It is that of a legal
  frame whose command stream is a sequence of records, it carries the frame's id, and
  between begin and present its operations draw exactly the commands those records
  issue, in order, with every 2D canvas materialized before WebGL draws. The
  frame's bytes join the frames the renderer holds. Any other answer sends nothing,
  names no sequence, leaves the held frames and the credits as they were and reports
  the credits there are.
\<close>

theorem submit_frame_effect:
  assumes "session_inv H sp" and "vec_model_ok M"
  shows "\<exists>sp' out. submit_frame H M S takes sp bytes = Some (sp', out) \<and> session_inv H sp' \<and>
     io_remaining_credits out = remaining_credits (sp_ingress sp') \<and>
     (if io_decision out = Accepted
      then \<exists>w rs ops f. legal H (sp_ingress sp) bytes w \<and> carries w rs \<and>
             io_accepted_sequence out = wf_sequence w \<and>
             sent sp' = sent sp @ [\<lparr>fp_frame_id = ucast (wf_frame_id w), fp_raf_time_ms = F64 0,
                                    fp_ops = BeginFrame # ops @ [Present]\<rparr>] \<and>
             concat (map drawn ops) = issued_commands (\<lambda>_. False) None rs \<and> barrier [] ops = Some [] \<and>
             held sp' = held sp @ [f] \<and> pf_bytes f = bytes
      else sent sp' = sent sp \<and> held sp' = held sp \<and> io_accepted_sequence out = 0 \<and>
           cw_in_flight (fi_credits (sp_ingress sp')) = cw_in_flight (fi_credits (sp_ingress sp)))"
  using assms
proof (cases rule: submit_frame_cases [where S = S and takes = takes and bytes = bytes])
  case (away out)
  then show ?thesis using assms(1) by simp
next
  case (dropped w sp' code)
  then show ?thesis by simp
next
  case (rendered w sp' f rs ops)
  show ?thesis
    unfolding rendered(4)
    by (intro exI [of _ sp'] exI conjI, rule refl)
      (use rendered in \<open>auto simp: frame_packet_of_def intro!: exI [of _ w] exI [of _ rs] exI [of _ ops] exI [of _ f]\<close>)
qed

lemma spawned_inv: "session_inv H (publish_dispatch (spawn_submit_path nonce))"
  using run_inv_initial [of H nonce]
  by (simp add: run_inv_def publish_dispatch_def session_inv_def held_sent_simps spawn_submit_path_def)

theorem submit_frame_effect_witness:
  "\<exists>sp' out. submit_frame crc32_hasher exact_vec demo_sizes (\<lambda>_. True)
       (publish_dispatch (spawn_submit_path 0)) [1, 2, 3] = Some (sp', out) \<and>
     io_decision out = Rejected \<and> sent sp' = [] \<and> held sp' = []"
proof -
  let ?sp = "publish_dispatch (spawn_submit_path 0)"
  have away: "submit_frame crc32_hasher exact_vec demo_sizes (\<lambda>_. True) ?sp [1, 2, 3] =
      Some (?sp, outcome_rejected ShorterThanHeader (remaining_credits (sp_ingress ?sp)))"
    by (simp add: submit_frame_def submit_def validate_def validate_header_def publish_dispatch_def
        spawn_submit_path_def frame_ingress_new_def)
  have "io_decision (outcome_rejected ShorterThanHeader c) = Rejected" for c
    by (simp add: outcome_rejected_def)
  then show ?thesis
    using submit_frame_effect [OF spawned_inv exact_vec_ok, where S = demo_sizes and takes = "\<lambda>_. True" and bytes = "[1, 2, 3]" and H = crc32_hasher]
    unfolding away by (simp add: held_def sent_def publish_dispatch_def spawn_submit_path_def)
qed

text \<open>
  C9. A session in any state it can reach, whatever packets arrive and whenever the
  renderer ticks or loses its context: the credits in use are exactly the frames the
  renderer holds, at most two, and each of those is a valid packet of this session;
  every packet sent is bracketed by begin and present, keeps the materialize barrier
  and has no empty batch; no canvas has more than sixteen errors waiting; and the
  ingress is on the epoch the session thread counts.
\<close>

theorem session_run_safe:
  assumes "(session_step H M S)\<^sup>*\<^sup>* (spawn_submit_path nonce, 0) (sp, ep)" and "vec_model_ok M"
  shows "unat (cw_in_flight (fi_credits (sp_ingress sp))) = length (held sp) \<and> length (held sp) \<le> 2 \<and>
     list_all (frame_of_session H (sp_ingress sp)) (held sp) \<and> list_all packet_ok (sent sp) \<and>
     (\<forall>i. length (queue_of (sp_errors sp) i) \<le> 16) \<and> fi_resource_epoch (sp_ingress sp) = ep"
proof -
  have inv: "run_inv H (sp, ep)"
    using run_inv_initial
    by (rule rtranclp_induct [OF assms(1), of "run_inv H"]) (rule session_step_inv [OF _ assms(2)])
  then have "errors_inv (sp_errors sp)" by (simp add: run_inv_def session_inv_def)
  then have "length (queue_of (sp_errors sp) i) \<le> 16" for i
    by (auto simp: queue_of_def errors_inv_def list_all_iff split: option.splits dest: map_of_SomeD)
  with inv show ?thesis
    by (auto simp: run_inv_def session_inv_def ingress_inv_def word_le_nat_alt)
qed

theorem session_run_safe_witness:
  "length (held (publish_dispatch (spawn_submit_path 5))) \<le> 2 \<and>
   fi_resource_epoch (sp_ingress (publish_dispatch (spawn_submit_path 5))) = 0"
proof -
  have "(session_step crc32_hasher exact_vec demo_sizes)\<^sup>*\<^sup>* (spawn_submit_path 5, 0)
      (publish_dispatch (spawn_submit_path 5), 0)"
    by (rule r_into_rtranclp) (rule publish_step)
  from session_run_safe [OF this exact_vec_ok] show ?thesis by blast
qed

text \<open>
  A producer that was told to wait is not left waiting: in a consistent session
  with no credit left the renderer holds frames, and its next tick finishes exactly
  the oldest of them and gives exactly one credit back. A tick with no frame held
  changes nothing.
\<close>

lemma tick_unblocks_producer:
  assumes "session_inv H sp"
  shows "(remaining_credits (sp_ingress sp) = 0 \<longrightarrow> held sp \<noteq> []) \<and>
     held (release_finished sp) = tl (held sp) \<and> session_inv H (release_finished sp) \<and>
     (if held sp = [] then release_finished sp = sp
      else unat (remaining_credits (sp_ingress (release_finished sp))) =
           unat (remaining_credits (sp_ingress sp)) + 1)"
proof -
  let ?fi = "sp_ingress sp" and ?fi' = "sp_ingress (release_finished sp)"
  have rem: "unat (remaining_credits fi) = unat (cw_max (fi_credits fi)) - unat (cw_in_flight (fi_credits fi))" for fi
    by (simp add: remaining_credits_def cw_remaining_def unat_saturating_sub)
  have inv: "unat (cw_in_flight (fi_credits ?fi)) = length (held sp)" "1 \<le> unat (cw_max (fi_credits ?fi))"
      "unat (cw_in_flight (fi_credits ?fi)) \<le> unat (cw_max (fi_credits ?fi))"
    using assms by (simp_all add: session_inv_def ingress_inv_def word_le_nat_alt)
  note eff = release_finished_effect [OF assms]
  have "unat (cw_in_flight (fi_credits ?fi')) = length (held sp) - 1"
    using eff(1,2) by (simp add: session_inv_def)
  moreover have "held sp \<noteq> []" if "remaining_credits ?fi = 0"
    using that rem [of ?fi] inv by auto
  moreover have "release_finished sp = sp" if "held sp = []"
    using that by (auto simp: release_finished_def held_def split: option.splits list.splits)
  ultimately show ?thesis
    using eff(1,2,5) inv rem [of ?fi] rem [of ?fi'] by (cases "held sp") auto
qed

lemma tick_unblocks_producer_witness:
  "release_finished (publish_dispatch (spawn_submit_path 0)) = publish_dispatch (spawn_submit_path 0)"
proof -
  have "held (publish_dispatch (spawn_submit_path 0)) = []"
    by (simp add: held_def publish_dispatch_def spawn_submit_path_def)
  then show ?thesis
    using tick_unblocks_producer [OF spawned_inv [of crc32_hasher 0]] by simp
qed

text \<open>
  A legal frame that cannot be rendered after it was accepted is reported
  rejected, with its credit returned, but its sequence number stays used: offering
  the same bytes again is refused as non-contiguous. The code tells why: the
  renderer is not up, the command stream is malformed, or the render queue did not
  take the packet.
\<close>

lemma unrendered_frame_keeps_sequence:
  assumes "session_inv H sp" and "vec_model_ok M" and "legal H (sp_ingress sp) bytes w"
    and "cw_in_flight (fi_credits (sp_ingress sp)) < cw_max (fi_credits (sp_ingress sp))"
    and "wf_sequence w \<noteq> - 1" and "sp_dispatch sp = None \<or> (\<nexists>rs. carries w rs) \<or> (\<forall>p. \<not> takes p)"
  shows "\<exists>sp' out. submit_frame H M S takes sp bytes = Some (sp', out) \<and> io_decision out = Rejected \<and>
     io_wire_error_code out = (if sp_dispatch sp = None then EXTERNAL_ERROR_RENDERER_NOT_READY
       else if \<nexists>rs. carries w rs then EXTERNAL_ERROR_BAD_COMMAND_STREAM
       else EXTERNAL_ERROR_RENDERER_UNREACHABLE) \<and>
     remaining_credits (sp_ingress sp') = remaining_credits (sp_ingress sp) \<and>
     submit_frame H M S takes sp' bytes =
       Some (sp', outcome_refused INGRESS_ERROR_NONCONTIGUOUS_SEQUENCE (remaining_credits (sp_ingress sp')))"
  using assms(1,2)
proof (cases rule: submit_frame_cases [where S = S and takes = takes and bytes = bytes])
  case (away out)
  then show ?thesis using assms(3,4) by blast
next
  case (dropped w' sp' code)
  have w': "w' = w" using dropped(1) assms(3) by (simp add: legal_def)
  let ?fi = "sp_ingress sp'"
  have fields: "fi_launch_nonce ?fi = fi_launch_nonce (sp_ingress sp)"
      "fi_runtime_generation ?fi = fi_runtime_generation (sp_ingress sp)"
      "fi_surface_generation ?fi = fi_surface_generation (sp_ingress sp)"
      "fi_resource_epoch ?fi = fi_resource_epoch (sp_ingress sp)"
      "fi_resources_ready ?fi = fi_resources_ready (sp_ingress sp)"
      "fi_max_packet_bytes ?fi = fi_max_packet_bytes (sp_ingress sp)"
    using ingress_same_fields [OF dropped(9)] by simp_all
  have last: "fi_last_accepted_sequence ?fi = wf_sequence w"
    by (subst dropped(9) [symmetric]) (simp add: w')
  have "saturating_add (wf_sequence w) 1 \<noteq> wf_sequence w"
    using assms(5) unat_saturating_add [of "wf_sequence w" 1] unat_bound [of "wf_sequence w"]
    by (auto simp: saturating_add_def split: if_splits)
  moreover have "(if fi_resources_ready (sp_ingress sp) then Some False else wf_references_resources w) = Some False"
    using assms(3) by (auto simp: legal_def)
  ultimately have again: "submit H M ?fi bytes =
      Some (?fi, outcome_refused INGRESS_ERROR_NONCONTIGUOUS_SEQUENCE (remaining_credits ?fi), None)"
    using assms(3) by (auto simp: submit_def legal_def fields last)
  have "remaining_credits ?fi = remaining_credits (sp_ingress sp)"
    using dropped(8) by (simp add: remaining_credits_def)
  then show ?thesis
    using dropped(2,3) w' again by (simp add: submit_frame_def)
next
  case (rendered w' sp' f rs ops)
  have "w' = w" using rendered(1) assms(3) by (simp add: legal_def)
  then show ?thesis using rendered assms(6) by auto
qed

lemma unrendered_frame_keeps_sequence_witness:
  "\<exists>sp' out. submit_frame crc32_hasher exact_vec demo_sizes (\<lambda>_. True) (spawn_submit_path 0) demo_bytes = Some (sp', out) \<and>
     io_wire_error_code out = EXTERNAL_ERROR_RENDERER_NOT_READY \<and>
     submit_frame crc32_hasher exact_vec demo_sizes (\<lambda>_. True) sp' demo_bytes =
       Some (sp', outcome_refused INGRESS_ERROR_NONCONTIGUOUS_SEQUENCE (remaining_credits (sp_ingress sp')))"
proof -
  let ?sp = "spawn_submit_path 0"
  have fi: "sp_ingress ?sp = demo_ingress" and none: "sp_dispatch ?sp = None"
    by (simp_all add: spawn_submit_path_def)
  obtain w where legal: "legal crc32_hasher (sp_ingress ?sp) demo_bytes w"
    unfolding fi using demo_legal by blast
  have seq: "wf_sequence w \<noteq> - 1"
    using legal by (simp add: legal_def spawn_submit_path_def frame_ingress_new_def saturating_add_def)
  have credit: "cw_in_flight (fi_credits (sp_ingress ?sp)) < cw_max (fi_credits (sp_ingress ?sp))"
    unfolding fi by (simp add: frame_ingress_new_def credit_window_new_def)
  have inv: "session_inv crc32_hasher ?sp"
    using run_inv_initial [of crc32_hasher 0] by (simp add: run_inv_def)
  show ?thesis
    using unrendered_frame_keeps_sequence [OF inv exact_vec_ok legal credit seq disjI1 [OF none],
        of demo_sizes "\<lambda>_. True"] none by auto
qed

text \<open>
  The errors a canvas can ask for: after any sequence of reports its queue holds
  the newest sixteen of the codes reported for it, in order, whatever was reported
  for other canvases; asking takes the oldest of these and leaves the rest.
\<close>

lemma error_queue_keeps_newest:
  "let queues = foldl (\<lambda>qs (i, e). errors_push qs i e) [] reported;
       codes = newest MAX_PENDING_ERRORS_PER_CANVAS (map snd (filter (\<lambda>(i, _). i = canvas_id) reported)) in
   queue_of queues canvas_id = codes \<and>
   snd (errors_take queues canvas_id) = (case codes of [] \<Rightarrow> None | code # _ \<Rightarrow> Some code) \<and>
   queue_of (fst (errors_take queues canvas_id)) canvas_id = tl codes"
proof -
  have "errors_inv (foldl (\<lambda>qs (i, e). errors_push qs i e) [] reported) \<and>
    queue_of (foldl (\<lambda>qs (i, e). errors_push qs i e) [] reported) canvas_id =
      newest 16 (map snd (filter (\<lambda>(i, _). i = canvas_id) reported))"
  proof (induction reported rule: rev_induct)
    case Nil
    show ?case by (simp add: errors_inv_def queue_of_def newest_def)
  next
    case (snoc x xs)
    obtain i e where x: "x = (i, e)" by (cases x)
    show ?case
      using snoc queue_of_push [of "foldl (\<lambda>qs (i, e). errors_push qs i e) [] xs" i e canvas_id]
      by (cases "i = canvas_id") (simp_all add: x errors_push_inv newest_newest_snoc)
  qed
  then show ?thesis
    by (simp add: Let_def queue_of_take)
qed

end
