(* ===== verification/Frame_Clock.thy ===== *)
theory Frame_Clock
  imports Render_Commands
begin

text \<open>
  Frame demand and the frame clock: \<open>engine/crates/shared/src/raf_signal.rs\<close> with its
  channel transport, and the clock of \<open>engine/crates/core/src/runtime/external.rs\<close>.
  Each operation is one atomic action on the shared words.
\<close>

section \<open>The demand latch\<close>

record raf_demand =
  rq_next_ticket :: u64
  rq_waiter_ticket :: u64
  rq_session_ticket :: u64

definition raf_demand_new :: raf_demand where
  "raf_demand_new = \<lparr>rq_next_ticket = 0, rq_waiter_ticket = 0, rq_session_ticket = 0\<rparr>"

definition begin_session :: "raf_demand \<Rightarrow> raf_demand \<times> u64" where
  "begin_session d =
     (let ticket = rq_next_ticket d + 1 in
      (d\<lparr>rq_next_ticket := rq_next_ticket d + 1, rq_session_ticket := ticket\<rparr>, ticket))"

definition session_ticket :: "raf_demand \<Rightarrow> raf_demand \<times> u64" where
  "session_ticket d =
     (let t = rq_session_ticket d in if t \<noteq> 0 then (d, t) else begin_session d)"

definition mark_waiting :: "raf_demand \<Rightarrow> raf_demand \<times> u64" where
  "mark_waiting d =
     (let (d, ticket) = session_ticket d in (d\<lparr>rq_waiter_ticket := ticket\<rparr>, ticket))"

definition is_waiting :: "raf_demand \<Rightarrow> bool" where
  "is_waiting d \<longleftrightarrow> rq_waiter_ticket d \<noteq> 0"

definition take_waiter :: "raf_demand \<Rightarrow> raf_demand \<times> u64 option" where
  "take_waiter d =
     (let ticket = rq_waiter_ticket d in
      (d\<lparr>rq_waiter_ticket := 0\<rparr>, if ticket \<noteq> 0 then Some ticket else None))"

definition restore_waiter :: "raf_demand \<Rightarrow> u64 \<Rightarrow> raf_demand" where
  "restore_waiter d ticket = (if rq_waiter_ticket d = 0 then d\<lparr>rq_waiter_ticket := ticket\<rparr> else d)"

section \<open>The channel\<close>

record raf_frame =
  rf_ts_ms :: f64
  rf_ticket :: u64

abbreviation (input) RAF_CHANNEL_CAPACITY :: nat where "RAF_CHANNEL_CAPACITY \<equiv> 2"

definition frame_matches_ticket :: "u64 \<Rightarrow> u64 \<Rightarrow> bool" where
  "frame_matches_ticket delivered_ticket expected_ticket \<longleftrightarrow> delivered_ticket \<ge> expected_ticket"

definition raf_signal :: "raf_frame list \<Rightarrow> f64 \<Rightarrow> u64 \<Rightarrow> raf_frame list \<times> bool" where
  "raf_signal queue ts_ms ticket =
     (if length queue < RAF_CHANNEL_CAPACITY then (queue @ [\<lparr>rf_ts_ms = ts_ms, rf_ticket = ticket\<rparr>], True)
      else (queue, False))"

text \<open>One pass of the receive loop; without a match the receiver goes back to waiting.\<close>

definition raf_recv :: "raf_frame list \<Rightarrow> u64 \<Rightarrow> raf_frame list \<times> f64 option" where
  "raf_recv queue expected_ticket =
     (case queue of
        [] \<Rightarrow> ([], None)
      | first # rest \<Rightarrow>
          let latest = foldl (\<lambda>_ frame. frame) first rest in
          ([], if frame_matches_ticket (rf_ticket latest) expected_ticket then Some (rf_ts_ms latest) else None))"

section \<open>The clock of an external session\<close>

text \<open>The cast of a floating-point number to \<open>u64\<close>: truncating, saturating, and 0 for NaN.\<close>

definition f64_as_u64 :: "f64 \<Rightarrow> u64" where
  "f64_as_u64 x =
     (let w = to_bits64 x; e = unat (take_bit 11 (drop_bit 52 w)); m = unat (take_bit 52 w) in
      if w \<ge> 0x8000000000000000 then 0
      else if e = 2047 then (if m = 0 then - 1 else 0)
      else if e < 1023 then 0
      else if e \<ge> 1087 then - 1
      else if e \<ge> 1075 then word_of_nat ((2 ^ 52 + m) * 2 ^ (e - 1075))
      else word_of_nat ((2 ^ 52 + m) div 2 ^ (1075 - e)))"

record external_frame_clock =
  ec_demand :: "raf_demand option"
  ec_armed :: nat
  ec_ticks :: u64
  ec_last_timestamp_millis :: u64

definition request_frame :: "external_frame_clock \<Rightarrow> external_frame_clock \<times> bool" where
  "request_frame c =
     (case ec_demand c of
        None \<Rightarrow> (c, False)
      | Some d \<Rightarrow> (c\<lparr>ec_demand := Some (fst (mark_waiting d)), ec_armed := ec_armed c + 1\<rparr>, True))"

definition clock_record :: "external_frame_clock \<Rightarrow> f64 \<Rightarrow> external_frame_clock" where
  "clock_record c timestamp_millis =
     c\<lparr>ec_ticks := ec_ticks c + 1, ec_last_timestamp_millis := f64_as_u64 timestamp_millis\<rparr>"

section \<open>The latch and the channel together\<close>

text \<open>
  The renderer takes a waiter and signals its ticket, or restores it when the channel
  is full; the consumer of a session waits on that session's ticket. The third part of
  the state is the tickets the renderer has taken and not yet signalled.
\<close>

type_synonym raf_system = "raf_demand \<times> raf_frame list \<times> u64 list"

inductive raf_step :: "raf_system \<Rightarrow> raf_system \<Rightarrow> bool" where
  new_session: "rq_next_ticket d \<noteq> - 1 \<Longrightarrow> raf_step (d, queue, taken) (fst (begin_session d), queue, taken)"
| demand: "rq_next_ticket d \<noteq> - 1 \<Longrightarrow> raf_step (d, queue, taken) (fst (mark_waiting d), queue, taken)"
| serve: "take_waiter d = (d', Some t) \<Longrightarrow> raf_step (d, queue, taken) (d', queue, taken @ [t])"
| idle: "take_waiter d = (d', None) \<Longrightarrow> raf_step (d, queue, taken) (d', queue, taken)"
| signalled: "t \<in> set taken \<Longrightarrow> raf_signal queue ts t = (queue', True) \<Longrightarrow>
     raf_step (d, queue, taken) (d, queue', remove1 t taken)"
| restored: "t \<in> set taken \<Longrightarrow> raf_signal queue ts t = (queue', False) \<Longrightarrow>
     raf_step (d, queue, taken) (restore_waiter d t, queue', remove1 t taken)"
| received: "raf_recv queue e = (queue', r) \<Longrightarrow> raf_step (d, queue, taken) (d, queue', taken)"

definition raf_inv :: "raf_system \<Rightarrow> bool" where
  "raf_inv = (\<lambda>(d, queue, taken).
     rq_session_ticket d = rq_next_ticket d \<and> rq_waiter_ticket d \<le> rq_session_ticket d \<and>
     length queue \<le> RAF_CHANNEL_CAPACITY \<and>
     list_all (\<lambda>t. t \<noteq> 0 \<and> t \<le> rq_session_ticket d) (map rf_ticket queue @ taken))"

lemmas raf_defs =
  begin_session_def session_ticket_def mark_waiting_def take_waiter_def restore_waiter_def
  raf_signal_def raf_recv_def

lemma next_ticket: "w \<noteq> - 1 \<Longrightarrow> w < w + 1 \<and> w + 1 \<noteq> 0" for w :: u64
  using unatSuc [of w] by (auto simp: word_less_nat_alt add.commute add_eq_0_iff)

lemma raf_step_inv: "raf_step s s' \<Longrightarrow> raf_inv s \<Longrightarrow> raf_inv s'"
proof (induction rule: raf_step.induct)
  case (new_session d queue taken)
  have le: "rq_next_ticket d \<le> rq_next_ticket d + 1"
    using next_ticket [of "rq_next_ticket d"] new_session(1) by (simp add: less_imp_le)
  show ?case
    using new_session by (auto simp: raf_inv_def raf_defs Let_def list_all_iff intro: order.trans [OF _ le])
next
  case (demand d queue taken)
  have le: "rq_next_ticket d \<le> rq_next_ticket d + 1"
    using next_ticket [of "rq_next_ticket d"] demand(1) by (simp add: less_imp_le)
  show ?case
    using demand by (auto simp: raf_inv_def raf_defs Let_def list_all_iff intro: order.trans [OF _ le])
next
  case (received queue e queue' r d taken)
  then show ?case
    by (auto simp: raf_inv_def raf_defs Let_def split: list.splits)
qed (auto simp: raf_inv_def raf_defs Let_def list_all_iff dest: notin_set_remove1 split: if_splits)

lemma raf_run_inv: "raf_step\<^sup>*\<^sup>* (raf_demand_new, [], []) s \<Longrightarrow> raf_inv s"
proof (induction rule: rtranclp_induct)
  case base
  show ?case by (simp add: raf_inv_def raf_demand_new_def)
next
  case (step s s')
  then show ?case using raf_step_inv by blast
qed

lemma raf_recv_Some: "snd (raf_recv queue e) = Some ts \<Longrightarrow> \<exists>f \<in> set queue. rf_ts_ms f = ts \<and> rf_ticket f \<ge> e"
proof (cases queue)
  case (Cons first rest)
  have "foldl (\<lambda>_ frame. frame) first rest \<in> set (first # rest)"
    by (induction rest arbitrary: first) auto
  then show "snd (raf_recv queue e) = Some ts \<Longrightarrow> ?thesis"
    using Cons by (auto simp: raf_recv_def Let_def frame_matches_ticket_def split: if_splits)
qed (simp add: raf_recv_def)

section \<open>Properties\<close>

text \<open>
  A restart never consumes a timestamp produced for the runtime it replaced:
  in any state the latch and the channel can reach, every ticket signalled, held by
  the renderer or waiting is one of a session begun so far, so it is smaller than the
  ticket of the next session, and a receiver of that session gets nothing from any of
  them. The channel holds at most two frames.
\<close>

lemma restart_ignores_stale_frames:
  assumes "raf_step\<^sup>*\<^sup>* (raf_demand_new, [], []) (d, queue, taken)" and "rq_next_ticket d \<noteq> - 1"
  shows "snd (raf_recv queue (snd (begin_session d))) = None \<and> length queue \<le> 2 \<and>
     (\<forall>t. t \<in> set taken \<or> t = rq_waiter_ticket d \<longrightarrow> \<not> frame_matches_ticket t (snd (begin_session d)))"
proof -
  have inv: "raf_inv (d, queue, taken)" using raf_run_inv assms(1) by blast
  have new: "rq_session_ticket d < snd (begin_session d)"
    using inv next_ticket [OF assms(2)] by (simp add: raf_inv_def begin_session_def Let_def)
  have old: "\<not> snd (begin_session d) \<le> t" if "t \<in> rf_ticket ` set queue \<union> set taken \<or> t = rq_waiter_ticket d" for t
  proof -
    have "t \<le> rq_session_ticket d"
      using that inv unfolding raf_inv_def list_all_iff by auto
    then show ?thesis using new by (meson leD order.strict_trans1 not_le)
  qed
  have "snd (raf_recv queue (snd (begin_session d))) = None"
    using raf_recv_Some [of queue "snd (begin_session d)"] old
    by (cases "snd (raf_recv queue (snd (begin_session d)))") auto
  moreover have "length queue \<le> 2" using inv by (simp add: raf_inv_def)
  ultimately show ?thesis
    using old by (auto simp: frame_matches_ticket_def)
qed

lemma restart_ignores_stale_frames_witness:
  "\<exists>d queue. raf_step\<^sup>*\<^sup>* (raf_demand_new, [], []) (d, queue, []) \<and> queue \<noteq> [] \<and>
     snd (raf_recv queue (snd (begin_session d))) = None"
proof -
  define d where "d = \<lparr>rq_next_ticket = 1, rq_waiter_ticket = 1, rq_session_ticket = 1\<rparr>"
  have "raf_step\<^sup>*\<^sup>* (raf_demand_new, [], []) (d, [], [])"
    using demand [of raf_demand_new "[]" "[]"]
    by (simp add: d_def raf_demand_new_def mark_waiting_def session_ticket_def begin_session_def Let_def
        r_into_rtranclp)
  also have "raf_step (d, [], []) (d\<lparr>rq_waiter_ticket := 0\<rparr>, [], [] @ [1])"
    by (rule serve) (simp add: d_def take_waiter_def)
  also have "raf_step (d\<lparr>rq_waiter_ticket := 0\<rparr>, [], [] @ [1])
      (d\<lparr>rq_waiter_ticket := 0\<rparr>, [\<lparr>rf_ts_ms = F64 0, rf_ticket = 1\<rparr>], remove1 1 ([] @ [1]))"
    by (rule signalled [where ts = "F64 0"]) (simp_all add: raf_signal_def)
  finally have run: "raf_step\<^sup>*\<^sup>* (raf_demand_new, [], [])
      (d\<lparr>rq_waiter_ticket := 0\<rparr>, [\<lparr>rf_ts_ms = F64 0, rf_ticket = 1\<rparr>], [])"
    by simp
  have "rq_next_ticket (d\<lparr>rq_waiter_ticket := 0\<rparr>) \<noteq> - 1" by (simp add: d_def)
  from restart_ignores_stale_frames [OF run this] run show ?thesis by blast
qed

text \<open>
  Demand is served once and is not lost. After a frame is requested the
  renderer's next take yields the session's ticket, which the requesting session
  accepts, and a second take yields nothing; a failed signal that restores the ticket
  leaves the demand as it was, and does not overwrite a newer one. A clock whose
  renderer is not up refuses a request and changes nothing.
\<close>

lemma demand_served_once:
  assumes "raf_step\<^sup>*\<^sup>* (raf_demand_new, [], []) (d, queue, taken)" and "rq_next_ticket d \<noteq> - 1"
  shows "let (d1, ticket) = mark_waiting d; (d2, served) = take_waiter d1 in
     served = Some ticket \<and> frame_matches_ticket ticket (snd (session_ticket d1)) \<and>
     \<not> is_waiting d2 \<and> take_waiter d2 = (d2, None) \<and> restore_waiter d2 ticket = d1 \<and>
     restore_waiter d1 t = d1 \<and>
     request_frame (c\<lparr>ec_demand := None\<rparr>) = (c\<lparr>ec_demand := None\<rparr>, False) \<and>
     request_frame (c\<lparr>ec_demand := Some d\<rparr>) = (c\<lparr>ec_demand := Some d1, ec_armed := ec_armed c + 1\<rparr>, True)"
proof -
  have "raf_inv (d, queue, taken)" using raf_run_inv assms(1) by blast
  then show ?thesis
    using next_ticket [OF assms(2)]
    by (auto simp: raf_inv_def raf_defs Let_def is_waiting_def frame_matches_ticket_def request_frame_def)
qed

lemma demand_served_once_witness:
  "snd (take_waiter (fst (mark_waiting raf_demand_new))) = Some 1 \<and>
   restore_waiter (fst (mark_waiting raf_demand_new)) 0 = fst (mark_waiting raf_demand_new)"
proof -
  have "rq_next_ticket raf_demand_new \<noteq> - 1" by (simp add: raf_demand_new_def)
  moreover have "snd (mark_waiting raf_demand_new) = 1"
    by (simp add: raf_demand_new_def mark_waiting_def session_ticket_def begin_session_def)
  ultimately show ?thesis
    using demand_served_once [OF rtranclp.rtrancl_refl, of 0 undefined]
    by (simp add: Let_def case_prod_beta)
qed

lemma clock_example:
  "clock_record \<lparr>ec_demand = None, ec_armed = 0, ec_ticks = 2, ec_last_timestamp_millis = 33\<rparr>
     (F64 0x40490CCCCCCCCCCD) =
   \<lparr>ec_demand = None, ec_armed = 0, ec_ticks = 3, ec_last_timestamp_millis = 50\<rparr>"
  by (simp add: clock_record_def f64_as_u64_def Let_def)

end
