(* ===== verification/Resource.thy ===== *)
theory Resource
  imports Prelude
begin

text \<open>
  The resource upload protocol: \<open>engine/crates/frame-wire/src/resource.rs\<close>. Additions
  that Rust checks in debug builds are checked here, an overflow being a panic. The
  last part adds a log of what the operations accepted, to state what has happened
  by the time a resource can be named.
\<close>

section \<open>Types\<close>

abbreviation (input) MAX_RESOURCE_BYTES :: u64 where "MAX_RESOURCE_BYTES \<equiv> 67108864"
abbreviation (input) MAX_CHUNK_BYTES :: u32 where "MAX_CHUNK_BYTES \<equiv> 1048576"
abbreviation (input) MAX_RESERVATIONS :: nat where "MAX_RESERVATIONS \<equiv> 64"

datatype resource_state = Reserved | Uploading | Verifying | Ready | Failed

fun resource_state_code :: "resource_state \<Rightarrow> u32" where
  "resource_state_code Reserved = 0"
| "resource_state_code Uploading = 1"
| "resource_state_code Verifying = 2"
| "resource_state_code Ready = 3"
| "resource_state_code Failed = 4"

datatype resource_error =
    TooManyReservations | BadSize | BadChunkCount | UnknownReservation | NonContiguousChunk
  | ChunkOutOfBounds | DigestMismatch | TimedOut | EpochAdvanced | Incomplete | NotUploading

fun resource_error_code :: "resource_error \<Rightarrow> u32" where
  "resource_error_code TooManyReservations = 1"
| "resource_error_code BadSize = 2"
| "resource_error_code BadChunkCount = 3"
| "resource_error_code UnknownReservation = 4"
| "resource_error_code NonContiguousChunk = 5"
| "resource_error_code ChunkOutOfBounds = 6"
| "resource_error_code DigestMismatch = 7"
| "resource_error_code TimedOut = 8"
| "resource_error_code EpochAdvanced = 9"
| "resource_error_code Incomplete = 10"
| "resource_error_code NotUploading = 11"

record reservation =
  rv_id :: u64
  rv_total_bytes :: u64
  rv_chunk_count :: u32
  rv_resource_epoch :: u64
  rv_format :: u32
  rv_sha256 :: "u8 list"
  rv_deadline_nanos :: u64
  rv_state :: resource_state
  rv_error :: "resource_error option"
  rv_received_bytes :: u64
  rv_next_chunk :: u32

definition rv_is_referenceable :: "reservation \<Rightarrow> bool" where
  "rv_is_referenceable e \<longleftrightarrow> rv_state e = Ready"

record resource_table =
  rt_entries :: "reservation list"
  rt_epoch :: u64
  rt_next_id :: u64

section \<open>Operations\<close>

definition resource_table_new :: "u64 \<Rightarrow> resource_table" where
  "resource_table_new resource_epoch = \<lparr>rt_entries = [], rt_epoch = resource_epoch, rt_next_id = 1\<rparr>"

definition rt_get :: "resource_table \<Rightarrow> u64 \<Rightarrow> reservation option" where
  "rt_get t i = find (\<lambda>entry. rv_id entry = i) (rt_entries t)"

definition is_referenceable :: "resource_table \<Rightarrow> u64 \<Rightarrow> bool" where
  "is_referenceable t i = (case rt_get t i of None \<Rightarrow> False | Some e \<Rightarrow> rv_is_referenceable e)"

text \<open>Writing through the reference \<open>iter_mut().find(..)\<close> returns.\<close>

fun write_entry :: "u64 \<Rightarrow> reservation \<Rightarrow> reservation list \<Rightarrow> reservation list" where
  "write_entry i e' [] = []"
| "write_entry i e' (e # es) = (if rv_id e = i then e' # es else e # write_entry i e' es)"

definition fail_entry :: "reservation \<Rightarrow> resource_error \<Rightarrow> reservation" where
  "fail_entry e error = e\<lparr>rv_state := Failed, rv_error := Some error\<rparr>"

definition reserve ::
    "resource_table \<Rightarrow> u64 \<Rightarrow> u32 \<Rightarrow> u32 \<Rightarrow> u8 list \<Rightarrow> u64
     \<Rightarrow> (resource_table \<times> (resource_error + u64)) option" where
  "reserve t total_bytes chunk_count format sha256 deadline_nanos =
     (if length (rt_entries t) \<ge> MAX_RESERVATIONS then Some (t, Inl TooManyReservations)
      else if total_bytes = 0 \<or> total_bytes > MAX_RESOURCE_BYTES then Some (t, Inl BadSize)
      else if chunk_count = 0 \<or> ucast chunk_count * ucast MAX_CHUNK_BYTES < total_bytes
      then Some (t, Inl BadChunkCount)
      else do {
        let i = rt_next_id t;
        next_id \<leftarrow> checked_add (rt_next_id t) 1;
        Some (t\<lparr>rt_next_id := next_id,
                rt_entries := rt_entries t @
                  [\<lparr>rv_id = i, rv_total_bytes = total_bytes, rv_chunk_count = chunk_count,
                    rv_resource_epoch = rt_epoch t, rv_format = format, rv_sha256 = sha256,
                    rv_deadline_nanos = deadline_nanos, rv_state = Reserved, rv_error = None,
                    rv_received_bytes = 0, rv_next_chunk = 0\<rparr>]\<rparr>, Inr i)
      })"

definition chunk_entry ::
    "u64 \<Rightarrow> reservation \<Rightarrow> u32 \<Rightarrow> u32 \<Rightarrow> (reservation \<times> (resource_error + resource_state)) option" where
  "chunk_entry epoch entry chunk_index byte_length =
     (if rv_resource_epoch entry \<noteq> epoch then Some (entry, Inl EpochAdvanced)
      else if rv_state entry \<noteq> Reserved \<and> rv_state entry \<noteq> Uploading then Some (entry, Inl NotUploading)
      else if chunk_index \<noteq> rv_next_chunk entry
      then Some (fail_entry entry NonContiguousChunk, Inl NonContiguousChunk)
      else if byte_length = 0 \<or> byte_length > MAX_CHUNK_BYTES
      then Some (fail_entry entry ChunkOutOfBounds, Inl ChunkOutOfBounds)
      else do {
        received \<leftarrow> checked_add (rv_received_bytes entry) (ucast byte_length);
        if received > rv_total_bytes entry \<or> rv_next_chunk entry \<ge> rv_chunk_count entry
        then Some (fail_entry entry ChunkOutOfBounds, Inl ChunkOutOfBounds)
        else do {
          next_chunk \<leftarrow> checked_add (rv_next_chunk entry) 1;
          let state = (if received = rv_total_bytes entry \<and> next_chunk = rv_chunk_count entry
                       then Verifying else Uploading);
          Some (entry\<lparr>rv_received_bytes := received, rv_next_chunk := next_chunk, rv_state := state\<rparr>,
                Inr state)
        }
      })"

definition accept_chunk ::
    "resource_table \<Rightarrow> u64 \<Rightarrow> u32 \<Rightarrow> u32 \<Rightarrow> (resource_table \<times> (resource_error + resource_state)) option" where
  "accept_chunk t i chunk_index byte_length =
     (case find (\<lambda>entry. rv_id entry = i) (rt_entries t) of
        None \<Rightarrow> Some (t, Inl UnknownReservation)
      | Some entry \<Rightarrow> do {
          (entry', res) \<leftarrow> chunk_entry (rt_epoch t) entry chunk_index byte_length;
          Some (t\<lparr>rt_entries := write_entry i entry' (rt_entries t)\<rparr>, res)
        })"

definition verify_entry :: "reservation \<Rightarrow> u8 list \<Rightarrow> reservation \<times> (resource_error + unit)" where
  "verify_entry entry computed =
     (if rv_state entry \<noteq> Verifying then
        let error = (if rv_state entry = Reserved \<or> rv_state entry = Uploading then Incomplete else NotUploading)
        in (fail_entry entry error, Inl error)
      else if computed \<noteq> rv_sha256 entry then (fail_entry entry DigestMismatch, Inl DigestMismatch)
      else (entry\<lparr>rv_state := Ready, rv_error := None\<rparr>, Inr ()))"

definition verify :: "resource_table \<Rightarrow> u64 \<Rightarrow> u8 list \<Rightarrow> resource_table \<times> (resource_error + unit)" where
  "verify t i computed =
     (case find (\<lambda>entry. rv_id entry = i) (rt_entries t) of
        None \<Rightarrow> (t, Inl UnknownReservation)
      | Some entry \<Rightarrow>
          let (entry', res) = verify_entry entry computed
          in (t\<lparr>rt_entries := write_entry i entry' (rt_entries t)\<rparr>, res))"

definition is_due :: "u64 \<Rightarrow> reservation \<Rightarrow> bool" where
  "is_due now_nanos entry \<longleftrightarrow>
     (rv_state entry = Reserved \<or> rv_state entry = Uploading \<or> rv_state entry = Verifying)
     \<and> now_nanos \<ge> rv_deadline_nanos entry"

fun expire_entries :: "u64 \<Rightarrow> reservation list \<Rightarrow> reservation list \<times> nat" where
  "expire_entries now_nanos [] = ([], 0)"
| "expire_entries now_nanos (e # es) =
     (let (es', expired) = expire_entries now_nanos es in
      if is_due now_nanos e then (fail_entry e TimedOut # es', expired + 1) else (e # es', expired))"

definition expire :: "resource_table \<Rightarrow> u64 \<Rightarrow> resource_table \<times> nat" where
  "expire t now_nanos =
     (let (es, expired) = expire_entries now_nanos (rt_entries t) in (t\<lparr>rt_entries := es\<rparr>, expired))"

definition release :: "resource_table \<Rightarrow> u64 \<Rightarrow> resource_table \<times> bool" where
  "release t i =
     (let before = length (rt_entries t);
          es = filter (\<lambda>entry. rv_id entry \<noteq> i) (rt_entries t)
      in (t\<lparr>rt_entries := es\<rparr>, length es \<noteq> before))"

definition advance_epoch :: "resource_table \<Rightarrow> u64 \<Rightarrow> resource_table \<times> (resource_error + nat)" where
  "advance_epoch t epoch =
     (if epoch < rt_epoch t then (t, Inl EpochAdvanced)
      else (t\<lparr>rt_entries := [], rt_epoch := epoch\<rparr>, Inr (length (rt_entries t))))"

section \<open>What happened\<close>

text \<open>The events a client can count on: what the table accepted, in order.\<close>

datatype resource_event =
    Declared u64 u64 u32 "u8 list"
  | Chunk u64 u32 u32
  | Verified u64 "u8 list"

inductive resource_step :: "resource_table \<times> resource_event list \<Rightarrow> resource_table \<times> resource_event list \<Rightarrow> bool" where
  step_reserve: "reserve t total_bytes n fmt sha deadline = Some (t', Inr i) \<Longrightarrow>
     resource_step (t, log) (t', log @ [Declared i total_bytes n sha])"
| step_reserve_err: "reserve t total_bytes n fmt sha deadline = Some (t', Inl e) \<Longrightarrow>
     resource_step (t, log) (t', log)"
| step_chunk: "accept_chunk t i k len = Some (t', Inr st) \<Longrightarrow>
     resource_step (t, log) (t', log @ [Chunk i k len])"
| step_chunk_err: "accept_chunk t i k len = Some (t', Inl e) \<Longrightarrow>
     resource_step (t, log) (t', log)"
| step_verify: "verify t i computed = (t', Inr u) \<Longrightarrow>
     resource_step (t, log) (t', log @ [Verified i computed])"
| step_verify_err: "verify t i computed = (t', Inl e) \<Longrightarrow>
     resource_step (t, log) (t', log)"
| step_expire: "expire t now = (t', k) \<Longrightarrow> resource_step (t, log) (t', log)"
| step_release: "release t i = (t', ok) \<Longrightarrow> resource_step (t, log) (t', log)"
| step_epoch: "advance_epoch t epoch = (t', res) \<Longrightarrow> resource_step (t, log) (t', log)"

definition chunks_of :: "u64 \<Rightarrow> resource_event list \<Rightarrow> (u32 \<times> u32) list" where
  "chunks_of i log = List.map_filter (\<lambda>ev. case ev of Chunk j k n \<Rightarrow> if j = i then Some (k, n) else None | _ \<Rightarrow> None) log"

fun event_id :: "resource_event \<Rightarrow> u64" where
  "event_id (Declared i _ _ _) = i"
| "event_id (Chunk i _ _) = i"
| "event_id (Verified i _) = i"

section \<open>The invariant\<close>

lemma unat_ucast_u64: "unat (ucast (w :: u32) :: u64) = unat w"
proof -
  have "unat w < 2 ^ 64"
    using unat_bound [of w] by simp
  then show ?thesis
    by (simp add: unsigned_ucast_eq take_bit_nat_eq_self)
qed

definition entry_inv :: "resource_event list \<Rightarrow> reservation \<Rightarrow> bool" where
  "entry_inv log e \<longleftrightarrow>
     0 < rv_total_bytes e \<and> rv_total_bytes e \<le> MAX_RESOURCE_BYTES \<and>
     map (unat \<circ> fst) (chunks_of (rv_id e) log) = [0..<unat (rv_next_chunk e)] \<and>
     list_all (\<lambda>(k, n). 0 < n \<and> n \<le> MAX_CHUNK_BYTES) (chunks_of (rv_id e) log) \<and>
     sum_list (map (unat \<circ> snd) (chunks_of (rv_id e) log)) = unat (rv_received_bytes e) \<and>
     rv_received_bytes e \<le> rv_total_bytes e \<and> rv_next_chunk e \<le> rv_chunk_count e \<and>
     Declared (rv_id e) (rv_total_bytes e) (rv_chunk_count e) (rv_sha256 e) \<in> set log \<and>
     (rv_state e = Verifying \<or> rv_state e = Ready \<longrightarrow>
        rv_received_bytes e = rv_total_bytes e \<and> rv_next_chunk e = rv_chunk_count e) \<and>
     (rv_state e = Ready \<longrightarrow> Verified (rv_id e) (rv_sha256 e) \<in> set log) \<and>
     (rv_error e \<noteq> None \<longleftrightarrow> rv_state e = Failed)"

definition table_inv :: "resource_table \<times> resource_event list \<Rightarrow> bool" where
  "table_inv = (\<lambda>(t, log).
     length (rt_entries t) \<le> MAX_RESERVATIONS \<and> distinct (map rv_id (rt_entries t)) \<and>
     list_all (\<lambda>e. rv_id e < rt_next_id t \<and> rv_resource_epoch e = rt_epoch t \<and> entry_inv log e) (rt_entries t) \<and>
     list_all (\<lambda>ev. event_id ev < rt_next_id t) log)"

lemma chunks_of_append:
  "chunks_of i (log @ [ev]) =
   chunks_of i log @ (case ev of Chunk j k n \<Rightarrow> if j = i then [(k, n)] else [] | _ \<Rightarrow> [])"
  by (auto simp: chunks_of_def List.map_filter_def split: resource_event.splits)

lemma chunks_of_fresh: "\<forall>ev \<in> set log. event_id ev \<noteq> i \<Longrightarrow> chunks_of i log = []"
  by (induction log) (auto simp: chunks_of_def List.map_filter_def split: resource_event.splits)

lemma entry_inv_other:
  assumes "entry_inv log e" and "event_id ev \<noteq> rv_id e"
  shows "entry_inv (log @ [ev]) e"
proof -
  have "chunks_of (rv_id e) (log @ [ev]) = chunks_of (rv_id e) log"
    using assms(2) by (auto simp: chunks_of_append split: resource_event.splits)
  then show ?thesis
    using assms(1) unfolding entry_inv_def by auto
qed

lemma entry_inv_quiet:
  assumes "entry_inv log e" and "\<nexists>i k n. ev = Chunk i k n"
  shows "entry_inv (log @ [ev]) e"
proof -
  have "chunks_of (rv_id e) (log @ [ev]) = chunks_of (rv_id e) log"
    using assms(2) by (auto simp: chunks_of_append split: resource_event.splits)
  then show ?thesis
    using assms(1) unfolding entry_inv_def by auto
qed

lemma entry_inv_fail: "entry_inv log e \<Longrightarrow> entry_inv log (fail_entry e err)"
  by (simp add: entry_inv_def fail_entry_def)

lemma find_entry_Some:
  "find (\<lambda>entry. rv_id entry = i) es = Some e \<Longrightarrow> e \<in> set es \<and> rv_id e = i"
  by (induction es) (auto split: if_splits)

lemma write_entry_facts:
  assumes "find (\<lambda>entry. rv_id entry = i) es = Some e" and "distinct (map rv_id es)" and "rv_id e' = i"
  shows "map rv_id (write_entry i e' es) = map rv_id es"
    and "\<And>x. x \<in> set (write_entry i e' es) \<Longrightarrow> x = e' \<or> x \<in> set es \<and> rv_id x \<noteq> i"
  using assms by (induction es) (auto split: if_splits, metis image_eqI)

lemma table_inv_write:
  assumes inv: "table_inv (t, log)" and e: "find (\<lambda>entry. rv_id entry = i) (rt_entries t) = Some e"
    and e': "rv_id e' = i" "rv_resource_epoch e' = rv_resource_epoch e" "entry_inv log' e'"
    and log': "log' = log \<or> (\<exists>ev. log' = log @ [ev] \<and> event_id ev = i)"
  shows "table_inv (t\<lparr>rt_entries := write_entry i e' (rt_entries t)\<rparr>, log')"
proof -
  have mem: "e \<in> set (rt_entries t)" "rv_id e = i"
    using find_entry_Some [OF e] by blast+
  have old: "list_all (\<lambda>e. rv_id e < rt_next_id t \<and> rv_resource_epoch e = rt_epoch t \<and> entry_inv log e) (rt_entries t)"
    and dist: "distinct (map rv_id (rt_entries t))" and len: "length (rt_entries t) \<le> MAX_RESERVATIONS"
    and logs: "list_all (\<lambda>ev. event_id ev < rt_next_id t) log"
    using inv by (auto simp: table_inv_def)
  note w = write_entry_facts [OF e dist e'(1)]
  have new: "rv_id x < rt_next_id t \<and> rv_resource_epoch x = rt_epoch t \<and> entry_inv log' x"
    if "x \<in> set (write_entry i e' (rt_entries t))" for x
  proof (cases "x = e'")
    case True
    then show ?thesis using old mem e' by (auto simp: list_all_iff)
  next
    case False
    then have x: "x \<in> set (rt_entries t)" "rv_id x \<noteq> i" using w(2) that by blast+
    then have "entry_inv log' x"
      using old log' entry_inv_other by (auto simp: list_all_iff)
    then show ?thesis using old x by (auto simp: list_all_iff)
  qed
  have "length (write_entry i e' (rt_entries t)) = length (rt_entries t)"
    using w(1) by (metis length_map)
  moreover have "list_all (\<lambda>ev. event_id ev < rt_next_id t) log'"
    using logs log' old mem by (auto simp: list_all_iff)
  ultimately show ?thesis
    using dist len new w(1) by (simp add: table_inv_def list_all_iff)
qed

lemma table_inv_subset:
  assumes "table_inv (t, log)" and "set es \<subseteq> set (rt_entries t)" and "length es \<le> length (rt_entries t)"
    and "distinct (map rv_id es)"
  shows "table_inv (t\<lparr>rt_entries := es\<rparr>, log)"
  using assms by (auto simp: table_inv_def list_all_iff)

lemma chunk_entry_inv:
  assumes "entry_inv log e" and "rv_id e = i" and "chunk_entry ep e k len = Some (e', res)"
  shows "rv_id e' = i \<and> rv_resource_epoch e' = rv_resource_epoch e \<and>
     (case res of Inl err \<Rightarrow> entry_inv log e' | Inr st \<Rightarrow> entry_inv (log @ [Chunk i k len]) e')"
proof (cases res)
  case (Inl err)
  then show ?thesis
    using assms entry_inv_fail [OF assms(1)]
    by (auto simp: chunk_entry_def fail_entry_def Let_def split: if_splits bind_splits)
next
  case (Inr st)
  obtain received nxt where step: "k = rv_next_chunk e" "len \<noteq> 0" "len \<le> MAX_CHUNK_BYTES"
      "checked_add (rv_received_bytes e) (ucast len) = Some received"
      "received \<le> rv_total_bytes e" "rv_next_chunk e < rv_chunk_count e"
      "checked_add (rv_next_chunk e) 1 = Some nxt"
      "e' = e\<lparr>rv_received_bytes := received, rv_next_chunk := nxt,
        rv_state := (if received = rv_total_bytes e \<and> nxt = rv_chunk_count e then Verifying else Uploading)\<rparr>"
      and up: "rv_state e = Reserved \<or> rv_state e = Uploading"
    using assms(3) Inr by (auto simp: chunk_entry_def Let_def not_less not_le split: if_splits bind_splits)
  have rec: "unat received = unat (rv_received_bytes e) + unat len"
    using step(4) by (simp add: checked_add_Some_iff unat_ucast_u64)
  have nxt: "unat nxt = unat (rv_next_chunk e) + 1"
    using step(7) by (simp add: checked_add_Some_iff)
  have le: "nxt \<le> rv_chunk_count e"
    using step(6) nxt by (simp add: word_le_nat_alt word_less_nat_alt)
  have ch: "chunks_of (rv_id e) (log @ [Chunk i k len]) = chunks_of (rv_id e) log @ [(k, len)]"
    using assms(2) by (simp add: chunks_of_append)
  have len0: "0 < len" using step(2) by (simp add: word_neq_0_conv)
  show ?thesis
    using assms(1,2) Inr step(1,3,5,8) up rec nxt le ch len0
    by (auto simp: entry_inv_def)
qed

lemma verify_entry_inv:
  assumes "entry_inv log e" and "rv_id e = i" and "verify_entry e computed = (e', res)"
  shows "rv_id e' = i \<and> rv_resource_epoch e' = rv_resource_epoch e \<and>
     (case res of Inl err \<Rightarrow> entry_inv log e' | Inr u \<Rightarrow> entry_inv (log @ [Verified i computed]) e')"
proof (cases res)
  case (Inl err)
  then show ?thesis
    using assms entry_inv_fail [OF assms(1)]
    by (auto simp: verify_entry_def fail_entry_def Let_def split: if_splits)
next
  case (Inr u)
  then have "rv_state e = Verifying" "computed = rv_sha256 e" "e' = e\<lparr>rv_state := Ready, rv_error := None\<rparr>"
    using assms(3) by (auto simp: verify_entry_def Let_def split: if_splits)
  then show ?thesis
    using assms(1,2) Inr entry_inv_quiet [OF assms(1), of "Verified i computed"]
    by (auto simp: entry_inv_def)
qed

lemma expire_entries_facts:
  "map rv_id (fst (expire_entries now es)) = map rv_id es"
  "list_all P es \<Longrightarrow> (\<And>e. P e \<Longrightarrow> P (fail_entry e TimedOut)) \<Longrightarrow> list_all P (fst (expire_entries now es))"
  "list_all (\<lambda>e. \<not> is_due now e) (fst (expire_entries now es))"
  "snd (expire_entries now es) = length (filter (is_due now) es)"
  by (induction es) (auto simp: Let_def fail_entry_def is_due_def split: prod.splits)

lemma reserve_Inr:
  assumes "reserve t b n fmt sha d = Some (t', Inr i)"
  shows "length (rt_entries t) < MAX_RESERVATIONS \<and> 0 < b \<and> b \<le> MAX_RESOURCE_BYTES \<and>
     i = rt_next_id t \<and> unat (rt_next_id t') = unat (rt_next_id t) + 1 \<and> rt_epoch t' = rt_epoch t \<and>
     rt_entries t' = rt_entries t @
       [\<lparr>rv_id = i, rv_total_bytes = b, rv_chunk_count = n,
         rv_resource_epoch = rt_epoch t, rv_format = fmt, rv_sha256 = sha,
         rv_deadline_nanos = d, rv_state = Reserved, rv_error = None,
         rv_received_bytes = 0, rv_next_chunk = 0\<rparr>]"
  using assms
  by (auto simp: reserve_def Let_def checked_add_Some_iff word_neq_0_conv [symmetric] split: if_splits bind_splits)

lemma reserve_Inl: "reserve t b n fmt sha d = Some (t', Inl e) \<Longrightarrow> t' = t"
  by (auto simp: reserve_def Let_def split: if_splits bind_splits)

lemma table_inv_reserve:
  assumes inv: "table_inv (t, log)" and res: "reserve t b n fmt sha d = Some (t', Inr i)"
  shows "table_inv (t', log @ [Declared i b n sha])"
proof -
  note r = reserve_Inr [OF res]
  have old: "list_all (\<lambda>e. rv_id e < rt_next_id t \<and> rv_resource_epoch e = rt_epoch t \<and> entry_inv log e) (rt_entries t)"
    and dist: "distinct (map rv_id (rt_entries t))"
    and logs: "list_all (\<lambda>ev. event_id ev < rt_next_id t) log"
    using inv by (auto simp: table_inv_def)
  have lt: "x < rt_next_id t'" if "x < rt_next_id t \<or> x = rt_next_id t" for x
    using that r by (auto simp: word_less_nat_alt)
  have "chunks_of i log = []"
    using logs r by (intro chunks_of_fresh) (auto simp: list_all_iff)
  then have "entry_inv (log @ [Declared i b n sha])
     \<lparr>rv_id = i, rv_total_bytes = b, rv_chunk_count = n, rv_resource_epoch = rt_epoch t, rv_format = fmt,
      rv_sha256 = sha, rv_deadline_nanos = d, rv_state = Reserved, rv_error = None,
      rv_received_bytes = 0, rv_next_chunk = 0\<rparr>"
    using r by (simp add: entry_inv_def chunks_of_append)
  moreover have "entry_inv (log @ [Declared i b n sha]) e" if "e \<in> set (rt_entries t)" for e
    using old that entry_inv_quiet [of log e "Declared i b n sha"] by (auto simp: list_all_iff)
  moreover have "distinct (map rv_id (rt_entries t'))"
    using dist old r by (auto simp: list_all_iff)
  ultimately show ?thesis
    using r old logs lt by (auto simp: table_inv_def list_all_iff)
qed

lemma resource_step_inv:
  assumes "resource_step s s'" and "table_inv s"
  shows "table_inv s'"
  using assms
proof cases
  case (step_reserve t b n fmt sha d t' i log)
  then show ?thesis using table_inv_reserve assms(2) by blast
next
  case (step_reserve_err t b n fmt sha d t' e log)
  then show ?thesis using reserve_Inl assms(2) by blast
next
  case (step_chunk t i k len t' st log)
  then obtain e e' where e: "find (\<lambda>entry. rv_id entry = i) (rt_entries t) = Some e"
      "chunk_entry (rt_epoch t) e k len = Some (e', Inr st)" "t' = t\<lparr>rt_entries := write_entry i e' (rt_entries t)\<rparr>"
    by (auto simp: accept_chunk_def split: option.splits bind_splits)
  have "entry_inv log e" "rv_id e = i"
    using find_entry_Some [OF e(1)] assms(2) step_chunk by (auto simp: table_inv_def list_all_iff)
  from chunk_entry_inv [OF this e(2)] show ?thesis
    using table_inv_write [of t log i e e' "log @ [Chunk i k len]"] e assms(2) step_chunk by simp
next
  case (step_chunk_err t i k len t' err log)
  show ?thesis
  proof (cases "find (\<lambda>entry. rv_id entry = i) (rt_entries t)")
    case None
    then show ?thesis using step_chunk_err assms(2) by (auto simp: accept_chunk_def)
  next
    case (Some e)
    then obtain e' where e: "chunk_entry (rt_epoch t) e k len = Some (e', Inl err)"
        "t' = t\<lparr>rt_entries := write_entry i e' (rt_entries t)\<rparr>"
      using step_chunk_err by (auto simp: accept_chunk_def split: bind_splits)
    have "entry_inv log e" "rv_id e = i"
      using find_entry_Some [OF Some] assms(2) step_chunk_err by (auto simp: table_inv_def list_all_iff)
    from chunk_entry_inv [OF this e(1)] show ?thesis
      using table_inv_write [OF _ Some, of log e' log] e assms(2) step_chunk_err by simp
  qed
next
  case (step_verify t i computed t' u log)
  then obtain e e' where e: "find (\<lambda>entry. rv_id entry = i) (rt_entries t) = Some e"
      "verify_entry e computed = (e', Inr u)" "t' = t\<lparr>rt_entries := write_entry i e' (rt_entries t)\<rparr>"
    by (auto simp: verify_def split: option.splits prod.splits)
  have "entry_inv log e" "rv_id e = i"
    using find_entry_Some [OF e(1)] assms(2) step_verify by (auto simp: table_inv_def list_all_iff)
  from verify_entry_inv [OF this e(2)] show ?thesis
    using table_inv_write [of t log i e e' "log @ [Verified i computed]"] e assms(2) step_verify by simp
next
  case (step_verify_err t i computed t' err log)
  show ?thesis
  proof (cases "find (\<lambda>entry. rv_id entry = i) (rt_entries t)")
    case None
    then show ?thesis using step_verify_err assms(2) by (auto simp: verify_def)
  next
    case (Some e)
    then obtain e' where e: "verify_entry e computed = (e', Inl err)"
        "t' = t\<lparr>rt_entries := write_entry i e' (rt_entries t)\<rparr>"
      using step_verify_err by (auto simp: verify_def split: prod.splits)
    have "entry_inv log e" "rv_id e = i"
      using find_entry_Some [OF Some] assms(2) step_verify_err by (auto simp: table_inv_def list_all_iff)
    from verify_entry_inv [OF this e(1)] show ?thesis
      using table_inv_write [OF _ Some, of log e' log] e assms(2) step_verify_err by simp
  qed
next
  case (step_expire t now t' k log)
  let ?es = "fst (expire_entries now (rt_entries t))"
  have "list_all (\<lambda>e. rv_id e < rt_next_id t \<and> rv_resource_epoch e = rt_epoch t \<and> entry_inv log e) ?es"
    by (rule expire_entries_facts(2))
       (use assms(2) step_expire entry_inv_fail in \<open>auto simp: table_inv_def fail_entry_def\<close>)
  moreover have "length ?es = length (rt_entries t)"
    using expire_entries_facts(1) by (metis length_map)
  ultimately show ?thesis
    using assms(2) step_expire expire_entries_facts(1) [of now "rt_entries t"]
    by (auto simp: table_inv_def expire_def Let_def split: prod.splits)
next
  case (step_release t i t' ok log)
  then show ?thesis
    using table_inv_subset [of t log "filter (\<lambda>entry. rv_id entry \<noteq> i) (rt_entries t)"] assms(2)
    by (auto simp: release_def Let_def table_inv_def distinct_map_filter)
next
  case (step_epoch t epoch t' res log)
  then show ?thesis
    using assms(2) by (auto simp: advance_epoch_def table_inv_def split: if_splits)
qed

lemma resource_run_inv:
  assumes "resource_step\<^sup>*\<^sup>* s s'" and "table_inv s"
  shows "table_inv s'"
  using assms by (induction rule: rtranclp_induct) (auto intro: resource_step_inv)

lemma table_inv_new: "table_inv (resource_table_new epoch, [])"
  by (simp add: table_inv_def resource_table_new_def)

section \<open>Identifiers\<close>

abbreviation open_ids :: "resource_table \<Rightarrow> u64 set" where
  "open_ids t \<equiv> set (map rv_id (rt_entries t))"

lemma rt_get_None_iff: "rt_get t i = None \<longleftrightarrow> i \<notin> open_ids t"
  by (auto simp: rt_get_def find_None_iff)

lemma write_entry_ids: "rv_id e' = i \<Longrightarrow> map rv_id (write_entry i e' es) = map rv_id es"
  by (induction es) auto

lemma chunk_entry_id: "chunk_entry ep e k len = Some (e', res) \<Longrightarrow> rv_id e' = rv_id e"
  by (auto simp: chunk_entry_def fail_entry_def Let_def split: if_splits bind_splits)

lemma verify_entry_id: "verify_entry e computed = (e', res) \<Longrightarrow> rv_id e' = rv_id e"
  by (auto simp: verify_entry_def fail_entry_def Let_def split: if_splits)

lemma accept_chunk_ids:
  assumes "accept_chunk t i k len = Some (t', res)"
  shows "map rv_id (rt_entries t') = map rv_id (rt_entries t) \<and> rt_next_id t' = rt_next_id t"
  using assms
  by (auto simp: accept_chunk_def split: option.splits bind_splits
      dest!: find_entry_Some chunk_entry_id intro!: write_entry_ids)

lemma verify_ids:
  assumes "verify t i computed = (t', res)"
  shows "map rv_id (rt_entries t') = map rv_id (rt_entries t) \<and> rt_next_id t' = rt_next_id t"
  using assms
  by (auto simp: verify_def split: option.splits prod.splits
      dest!: find_entry_Some verify_entry_id intro!: write_entry_ids)

lemma resource_step_ids:
  assumes "resource_step (t, log) (t', log')"
  shows "rt_next_id t \<le> rt_next_id t' \<and> open_ids t' \<subseteq> open_ids t \<union> {i. rt_next_id t \<le> i}"
  using assms
proof cases
  case (step_reserve b n fmt sha d i)
  then show ?thesis using reserve_Inr [OF step_reserve(2)] by (auto simp: word_le_nat_alt)
next
  case (step_reserve_err b n fmt sha d e)
  then show ?thesis using reserve_Inl by blast
next
  case (step_chunk i k len st)
  then show ?thesis using accept_chunk_ids [OF step_chunk(2)] by simp
next
  case (step_chunk_err i k len e)
  then show ?thesis using accept_chunk_ids [OF step_chunk_err(2)] by simp
next
  case (step_verify i computed u)
  then show ?thesis using verify_ids [OF step_verify(2)] by simp
next
  case (step_verify_err i computed e)
  then show ?thesis using verify_ids [OF step_verify_err(2)] by simp
next
  case (step_expire now k)
  then show ?thesis
    using expire_entries_facts(1) [of now "rt_entries t"]
    by (auto simp: expire_def Let_def split: prod.splits) (metis image_eqI list.set_map)
next
  case (step_release i ok)
  then show ?thesis by (auto simp: release_def Let_def)
next
  case (step_epoch epoch res)
  then show ?thesis by (auto simp: advance_epoch_def split: if_splits)
qed

section \<open>An example\<close>

text \<open>A three-byte resource in one chunk, verified.\<close>

definition demo_table :: resource_table where
  "demo_table = \<lparr>rt_entries = [\<lparr>rv_id = 1, rv_total_bytes = 3, rv_chunk_count = 1, rv_resource_epoch = 5,
      rv_format = 0, rv_sha256 = [7], rv_deadline_nanos = 100, rv_state = Ready, rv_error = None,
      rv_received_bytes = 3, rv_next_chunk = 1\<rparr>], rt_epoch = 5, rt_next_id = 2\<rparr>"

definition demo_log :: "resource_event list" where
  "demo_log = [Declared 1 3 1 [7], Chunk 1 0 3, Verified 1 [7]]"

lemma demo_run: "resource_step\<^sup>*\<^sup>* (resource_table_new 5, []) (demo_table, demo_log)"
proof -
  define e :: reservation where "e = \<lparr>rv_id = 1, rv_total_bytes = 3, rv_chunk_count = 1, rv_resource_epoch = 5,
      rv_format = 0, rv_sha256 = [7], rv_deadline_nanos = 100, rv_state = Reserved, rv_error = None,
      rv_received_bytes = 0, rv_next_chunk = 0\<rparr>"
  let ?t1 = "\<lparr>rt_entries = [e], rt_epoch = 5, rt_next_id = 2\<rparr>"
  let ?t2 = "\<lparr>rt_entries = [e\<lparr>rv_received_bytes := 3, rv_next_chunk := 1, rv_state := Verifying\<rparr>],
      rt_epoch = 5, rt_next_id = 2\<rparr>"
  have "reserve (resource_table_new 5) 3 1 0 [7] 100 = Some (?t1, Inr 1)"
    by (simp add: reserve_def resource_table_new_def checked_add_def e_def)
  then have "resource_step (resource_table_new 5, []) (?t1, [] @ [Declared 1 3 1 [7]])"
    by (rule step_reserve)
  moreover have "accept_chunk ?t1 1 0 3 = Some (?t2, Inr Verifying)"
    by (simp add: accept_chunk_def chunk_entry_def checked_add_def e_def Let_def)
  then have "resource_step (?t1, [Declared 1 3 1 [7]]) (?t2, [Declared 1 3 1 [7]] @ [Chunk 1 0 3])"
    by (rule step_chunk)
  moreover have "verify ?t2 1 [7] = (demo_table, Inr ())"
    by (simp add: verify_def verify_entry_def e_def demo_table_def)
  then have "resource_step (?t2, [Declared 1 3 1 [7], Chunk 1 0 3])
      (demo_table, [Declared 1 3 1 [7], Chunk 1 0 3] @ [Verified 1 [7]])"
    by (rule step_verify)
  ultimately show ?thesis
    by (simp add: demo_log_def)
qed

section \<open>Properties\<close>

text \<open>
  C33. A frame can name a resource only after all of it arrived and was checked: in
  every state the table can reach, if an id is referenceable then the log has the
  declaration of that id, chunks numbered from zero without gap up to the declared
  count, each of one byte to one megabyte and together exactly the declared size,
  and a verification whose computed digest is the declared one.
\<close>

theorem referenceable_means_verified:
  assumes "resource_step\<^sup>*\<^sup>* (resource_table_new epoch, []) (t, log)" and "is_referenceable t i"
  shows "\<exists>total_size n sha. Declared i total_size n sha \<in> set log \<and> Verified i sha \<in> set log \<and>
     map (unat \<circ> fst) (chunks_of i log) = [0..<unat n] \<and>
     sum_list (map (unat \<circ> snd) (chunks_of i log)) = unat total_size \<and>
     list_all (\<lambda>(k, len). 0 < len \<and> len \<le> MAX_CHUNK_BYTES) (chunks_of i log)"
proof -
  obtain e where e: "rt_get t i = Some e" "rv_state e = Ready"
    using assms(2) by (auto simp: is_referenceable_def rv_is_referenceable_def split: option.splits)
  have mem: "e \<in> set (rt_entries t)" "rv_id e = i"
    using find_entry_Some e(1) by (auto simp: rt_get_def)
  have "entry_inv log e"
    using resource_run_inv [OF assms(1) table_inv_new] mem by (auto simp: table_inv_def list_all_iff)
  then show ?thesis
    using e(2) mem(2)
    by (intro exI [of _ "rv_total_bytes e"] exI [of _ "rv_chunk_count e"] exI [of _ "rv_sha256 e"])
       (simp add: entry_inv_def)
qed

theorem referenceable_means_verified_witness:
  "\<exists>total_size n sha. Declared 1 total_size n sha \<in> set demo_log \<and> Verified 1 sha \<in> set demo_log \<and>
     map (unat \<circ> fst) (chunks_of 1 demo_log) = [0..<unat n] \<and>
     sum_list (map (unat \<circ> snd) (chunks_of 1 demo_log)) = unat total_size \<and>
     list_all (\<lambda>(k, len). 0 < len \<and> len \<le> MAX_CHUNK_BYTES) (chunks_of 1 demo_log)"
  by (rule referenceable_means_verified [OF demo_run])
     (simp add: is_referenceable_def rt_get_def demo_table_def rv_is_referenceable_def)

text \<open>
  A resource id never comes to name another resource: an id below the next one
  that is not in the table, because it was released or its epoch passed, is in no
  later table.
\<close>

lemma resource_ids_not_reused:
  assumes "resource_step\<^sup>*\<^sup>* (t, log) (t', log')" and "i < rt_next_id t" and "rt_get t i = None"
  shows "rt_get t' i = None \<and> i < rt_next_id t'"
  using assms(1)
proof (induction "(t', log')" arbitrary: t' log' rule: rtranclp_induct)
  case base
  then show ?case using assms(2,3) by simp
next
  case (step s)
  obtain t1 log1 where s: "s = (t1, log1)" by (cases s)
  then have "rt_get t1 i = None" "i < rt_next_id t1" using step(3) by blast+
  moreover have "rt_next_id t1 \<le> rt_next_id t' \<and> open_ids t' \<subseteq> open_ids t1 \<union> {i. rt_next_id t1 \<le> i}"
    using resource_step_ids step(2) s by blast
  ultimately show ?case
    unfolding rt_get_None_iff by fastforce
qed

lemma resource_ids_not_reused_witness:
  "rt_get (fst (release demo_table 1)) 1 = None \<and> (1 :: u64) < rt_next_id (fst (release demo_table 1))"
proof (rule resource_ids_not_reused)
  show "resource_step\<^sup>*\<^sup>* (fst (release demo_table 1), []) (fst (release demo_table 1), [])"
    by simp
  show "(1 :: u64) < rt_next_id (fst (release demo_table 1))" "rt_get (fst (release demo_table 1)) 1 = None"
    by (simp_all add: release_def demo_table_def rt_get_def)
qed

text \<open>
  The table is bounded in everything a producer controls and its arithmetic
  never overflows: in every reachable state there are at most 64 reservations of
  distinct ids, each of at most 64 megabytes with no more bytes received than it
  declared; taking a chunk never panics, and a reservation panics only when all
  \<open>2 ^ 64 - 1\<close> ids are used up.
\<close>

lemma resource_table_bounded:
  assumes "resource_step\<^sup>*\<^sup>* (resource_table_new epoch, []) (t, log)"
  shows "length (rt_entries t) \<le> MAX_RESERVATIONS \<and> distinct (map rv_id (rt_entries t)) \<and>
     list_all (\<lambda>e. rv_received_bytes e \<le> rv_total_bytes e \<and> rv_total_bytes e \<le> MAX_RESOURCE_BYTES \<and>
        rv_next_chunk e \<le> rv_chunk_count e \<and> rv_resource_epoch e = rt_epoch t) (rt_entries t) \<and>
     accept_chunk t i k len \<noteq> Panic \<and>
     (rt_next_id t \<noteq> - 1 \<longrightarrow> reserve t total_size n fmt sha d \<noteq> Panic)"
proof -
  have inv: "table_inv (t, log)"
    using resource_run_inv [OF assms table_inv_new] .
  have chunk: "chunk_entry ep e k len \<noteq> Panic" if "entry_inv log e" for e ep
  proof -
    have "unat (rv_received_bytes e) \<le> 67108864"
      using that unfolding entry_inv_def by (simp add: word_le_nat_alt)
    moreover have "unat (ucast len :: u64) < 2 ^ 32"
      using unat_bound [of len] by (simp add: unat_ucast_u64)
    ultimately have "checked_add (rv_received_bytes e) (ucast len) \<noteq> None"
      by (simp add: checked_add_def)
    moreover have "checked_add (rv_next_chunk e) 1 \<noteq> None" if "rv_next_chunk e < rv_chunk_count e"
      using that unat_bound [of "rv_chunk_count e"] by (simp add: checked_add_def word_less_nat_alt)
    ultimately show ?thesis
      by (auto simp: chunk_entry_def Let_def not_le)
  qed
  have "accept_chunk t i k len \<noteq> Panic"
  proof (cases "find (\<lambda>entry. rv_id entry = i) (rt_entries t)")
    case (Some e)
    then have "entry_inv log e"
      using inv find_entry_Some [OF Some] by (auto simp: table_inv_def list_all_iff)
    then show ?thesis using Some chunk [of e "rt_epoch t"] by (auto simp: accept_chunk_def)
  qed (simp add: accept_chunk_def)
  moreover have "checked_add (rt_next_id t) 1 \<noteq> None" if "rt_next_id t \<noteq> - 1"
  proof -
    have "unat (rt_next_id t) \<noteq> unat (- 1 :: u64)"
      using that by (metis word_unat_eq_iff)
    then show ?thesis
      using unat_bound [of "rt_next_id t"] by (simp add: checked_add_def unsigned_minus_1_eq_mask mask_eq_exp_minus_1)
  qed
  then have "rt_next_id t \<noteq> - 1 \<longrightarrow> reserve t total_size n fmt sha d \<noteq> Panic"
    by (auto simp: reserve_def Let_def)
  moreover have "list_all (\<lambda>e. rv_received_bytes e \<le> rv_total_bytes e \<and> rv_total_bytes e \<le> MAX_RESOURCE_BYTES \<and>
      rv_next_chunk e \<le> rv_chunk_count e \<and> rv_resource_epoch e = rt_epoch t) (rt_entries t)"
    using inv by (auto simp: table_inv_def entry_inv_def list_all_iff)
  ultimately show ?thesis
    using inv by (simp add: table_inv_def)
qed

lemma resource_table_bounded_witness:
  "length (rt_entries demo_table) \<le> MAX_RESERVATIONS \<and> accept_chunk demo_table 1 1 5 \<noteq> Panic \<and>
   reserve demo_table 10 1 0 [] 9 \<noteq> Panic"
  using resource_table_bounded [OF demo_run, of 1 1 5 10 1 0 "[]" 9] by (simp add: demo_table_def)

text \<open>
  Expiry: afterwards no unfinished upload is past its deadline, exactly the
  overdue ones were failed and counted, and everything else, ready resources
  included, is as it was. An epoch advance that is not refused leaves nothing
  referenceable.
\<close>

lemma expire_and_epoch:
  "list_all (\<lambda>e. \<not> is_due now e) (rt_entries (fst (expire t now))) \<and>
   snd (expire t now) = length (filter (is_due now) (rt_entries t)) \<and>
   rt_entries (fst (expire t now)) =
     map (\<lambda>e. if is_due now e then fail_entry e TimedOut else e) (rt_entries t) \<and>
   (snd (advance_epoch t epoch) \<noteq> Inl EpochAdvanced \<longrightarrow>
      (\<forall>i. \<not> is_referenceable (fst (advance_epoch t epoch)) i) \<and> rt_epoch (fst (advance_epoch t epoch)) = epoch)"
proof -
  have "fst (expire_entries now es) = map (\<lambda>e. if is_due now e then fail_entry e TimedOut else e) es" for es
    by (induction es) (auto simp: Let_def split: prod.splits)
  then show ?thesis
    using expire_entries_facts(3,4) [of now "rt_entries t"]
    by (simp add: expire_def advance_epoch_def is_referenceable_def rt_get_def Let_def case_prod_beta)
qed

lemma expire_and_epoch_witness:
  "\<not> is_referenceable (fst (advance_epoch demo_table 6)) 1 \<and> rt_epoch (fst (advance_epoch demo_table 6)) = 6"
proof -
  have "snd (advance_epoch demo_table 6) \<noteq> Inl EpochAdvanced"
    by (simp add: advance_epoch_def demo_table_def)
  then show ?thesis
    using expire_and_epoch [of 0 demo_table 6] by blast
qed

end
