(* ===== verification/Sync.thy ===== *)
theory Sync
  imports Wire_Packet
begin

text \<open>
  The synchronous barrier: \<open>engine/crates/frame-wire/src/sync.rs\<close>. A single-slot
  mailbox in which a producer waits for one answer; every operation of the host side
  is here, and a step relation runs them in any order.
\<close>

section \<open>The record\<close>

abbreviation (input) SYNC_RECORD_BYTES :: u32 where "SYNC_RECORD_BYTES \<equiv> 64"
abbreviation (input) MAX_REPLY_BYTES :: u32 where "MAX_REPLY_BYTES \<equiv> 16777216"
abbreviation (input) MAX_IN_FLIGHT :: u32 where "MAX_IN_FLIGHT \<equiv> 1"

definition SYNC_LAYOUT :: "header_field list" where
  "SYNC_LAYOUT =
   [\<lparr>hf_offset = 0, hf_size = 4, hf_name = ''state''\<rparr>,
    \<lparr>hf_offset = 4, hf_size = 4, hf_name = ''request_id''\<rparr>,
    \<lparr>hf_offset = 8, hf_size = 8, hf_name = ''runtime_generation''\<rparr>,
    \<lparr>hf_offset = 16, hf_size = 8, hf_name = ''surface_generation''\<rparr>,
    \<lparr>hf_offset = 24, hf_size = 8, hf_name = ''resource_epoch''\<rparr>,
    \<lparr>hf_offset = 32, hf_size = 8, hf_name = ''triggering_sequence''\<rparr>,
    \<lparr>hf_offset = 40, hf_size = 4, hf_name = ''operation''\<rparr>,
    \<lparr>hf_offset = 44, hf_size = 4, hf_name = ''max_reply_bytes''\<rparr>,
    \<lparr>hf_offset = 48, hf_size = 4, hf_name = ''reply_bytes''\<rparr>,
    \<lparr>hf_offset = 52, hf_size = 4, hf_name = ''error''\<rparr>,
    \<lparr>hf_offset = 56, hf_size = 8, hf_name = ''deadline_nanos''\<rparr>]"

section \<open>States and errors\<close>

datatype sync_state = Free | Pending | Ready | Failed | Cancelled

fun sync_state_code :: "sync_state \<Rightarrow> u32" where
  "sync_state_code Free = 0"
| "sync_state_code Pending = 1"
| "sync_state_code Ready = 2"
| "sync_state_code Failed = 3"
| "sync_state_code Cancelled = 4"

definition sync_state_from_code :: "u32 \<Rightarrow> sync_state option" where
  "sync_state_from_code code =
     (if code = 0 then Some Free else if code = 1 then Some Pending else if code = 2 then Some Ready
      else if code = 3 then Some Failed else if code = 4 then Some Cancelled else None)"

definition is_settled :: "sync_state \<Rightarrow> bool" where
  "is_settled s \<longleftrightarrow> (case s of Ready \<Rightarrow> True | Failed \<Rightarrow> True | Cancelled \<Rightarrow> True | _ \<Rightarrow> False)"

datatype sync_error =
    AlreadyPending | RequestIdMismatch | StaleGeneration | ReplyTooLarge | TimedOut | SessionEnded
  | UnsupportedOperation | LateReply | BadDeadline | BadReplyReservation

fun sync_error_code :: "sync_error \<Rightarrow> u32" where
  "sync_error_code AlreadyPending = 1"
| "sync_error_code RequestIdMismatch = 2"
| "sync_error_code StaleGeneration = 3"
| "sync_error_code ReplyTooLarge = 4"
| "sync_error_code TimedOut = 5"
| "sync_error_code SessionEnded = 6"
| "sync_error_code UnsupportedOperation = 7"
| "sync_error_code LateReply = 8"
| "sync_error_code BadDeadline = 9"
| "sync_error_code BadReplyReservation = 10"

section \<open>The mailbox\<close>

record sync_request =
  rq_request_id :: u32
  rq_runtime_generation :: u64
  rq_surface_generation :: u64
  rq_resource_epoch :: u64
  rq_triggering_sequence :: u64
  rq_operation :: u32
  rq_max_reply_bytes :: u32
  rq_deadline_nanos :: u64

record sync_mailbox =
  mb_runtime_generation :: u64
  mb_state :: sync_state
  mb_request :: "sync_request option"
  mb_error :: "sync_error option"
  mb_reply_bytes :: u32
  mb_next_request_id :: u32
  mb_ended :: bool

definition mailbox_new :: "u64 \<Rightarrow> sync_mailbox" where
  "mailbox_new runtime_generation =
     \<lparr>mb_runtime_generation = runtime_generation, mb_state = Free, mb_request = None,
      mb_error = None, mb_reply_bytes = 0, mb_next_request_id = 1, mb_ended = False\<rparr>"

definition mailbox_fail :: "sync_mailbox \<Rightarrow> sync_error \<Rightarrow> sync_mailbox" where
  "mailbox_fail m error = m\<lparr>mb_state := Failed, mb_error := Some error, mb_reply_bytes := 0\<rparr>"

definition post :: "sync_mailbox \<Rightarrow> sync_request \<Rightarrow> u64 \<Rightarrow> sync_mailbox \<times> (sync_error + u32)" where
  "post m request now_nanos =
     (if mb_ended m then (m, Inl SessionEnded)
      else if mb_state m = Pending then (m, Inl AlreadyPending)
      else if rq_runtime_generation request \<noteq> mb_runtime_generation m then (m, Inl StaleGeneration)
      else if rq_max_reply_bytes request = 0 \<or> rq_max_reply_bytes request > MAX_REPLY_BYTES
      then (m, Inl BadReplyReservation)
      else if rq_deadline_nanos request \<le> now_nanos then (m, Inl BadDeadline)
      else let i = mb_next_request_id m in
        (m\<lparr>mb_next_request_id := max (mb_next_request_id m + 1) 1,
           mb_state := Pending,
           mb_request := Some (request\<lparr>rq_request_id := i\<rparr>),
           mb_error := None,
           mb_reply_bytes := 0\<rparr>, Inr i))"

definition complete :: "sync_mailbox \<Rightarrow> u32 \<Rightarrow> u32 \<Rightarrow> sync_mailbox \<times> (sync_error + unit)" where
  "complete m request_id reply_bytes =
     (case mb_request m of None \<Rightarrow> (m, Inl LateReply) | Some request \<Rightarrow>
      if mb_state m \<noteq> Pending then (m, Inl LateReply)
      else if request_id \<noteq> rq_request_id request
      then (mailbox_fail m RequestIdMismatch, Inl RequestIdMismatch)
      else if reply_bytes > rq_max_reply_bytes request
      then (mailbox_fail m ReplyTooLarge, Inl ReplyTooLarge)
      else (m\<lparr>mb_state := Ready, mb_reply_bytes := reply_bytes, mb_error := None\<rparr>, Inr ()))"

definition expire_if_due :: "sync_mailbox \<Rightarrow> u64 \<Rightarrow> sync_mailbox \<times> bool" where
  "expire_if_due m now_nanos =
     (if mb_state m \<noteq> Pending then (m, False)
      else case mb_request m of None \<Rightarrow> (m, False) | Some request \<Rightarrow>
      if now_nanos < rq_deadline_nanos request then (m, False)
      else (mailbox_fail m TimedOut, True))"

definition cancel :: "sync_mailbox \<Rightarrow> sync_mailbox \<times> bool" where
  "cancel m =
     (if mb_state m \<noteq> Pending then (m, False)
      else (m\<lparr>mb_state := Cancelled, mb_error := None\<rparr>, True))"

definition invalidate :: "sync_mailbox \<Rightarrow> sync_mailbox \<times> bool" where
  "invalidate m =
     (if mb_state m \<noteq> Pending then (m, False) else (mailbox_fail m StaleGeneration, True))"

definition end_session :: "sync_mailbox \<Rightarrow> sync_mailbox \<times> bool" where
  "end_session m =
     (let m = m\<lparr>mb_ended := True\<rparr> in
      if mb_state m \<noteq> Pending then (m, False) else (mailbox_fail m SessionEnded, True))"

definition acknowledge :: "sync_mailbox \<Rightarrow> sync_mailbox" where
  "acknowledge m =
     (if is_settled (mb_state m)
      then m\<lparr>mb_state := Free, mb_request := None, mb_error := None, mb_reply_bytes := 0\<rparr>
      else m)"

section \<open>Runs\<close>

datatype sync_op =
    Post sync_request u64 | Complete u32 u32 | ExpireIfDue u64 | Cancel | Invalidate | EndSession | Acknowledge

fun sync_apply :: "sync_mailbox \<Rightarrow> sync_op \<Rightarrow> sync_mailbox" where
  "sync_apply m (Post request now) = fst (post m request now)"
| "sync_apply m (Complete request_id reply_bytes) = fst (complete m request_id reply_bytes)"
| "sync_apply m (ExpireIfDue now) = fst (expire_if_due m now)"
| "sync_apply m Cancel = fst (cancel m)"
| "sync_apply m Invalidate = fst (invalidate m)"
| "sync_apply m EndSession = fst (end_session m)"
| "sync_apply m Acknowledge = acknowledge m"

definition sync_run :: "sync_mailbox \<Rightarrow> sync_op list \<Rightarrow> sync_mailbox" where
  "sync_run m ops = foldl sync_apply m ops"

definition mailbox_inv :: "sync_mailbox \<Rightarrow> bool" where
  "mailbox_inv m \<longleftrightarrow>
     mb_next_request_id m \<noteq> 0 \<and>
     (mb_state m = Free \<longleftrightarrow> mb_request m = None) \<and>
     (mb_error m \<noteq> None \<longleftrightarrow> mb_state m = Failed) \<and>
     (mb_reply_bytes m \<noteq> 0 \<longrightarrow> mb_state m = Ready) \<and>
     (mb_ended m \<longrightarrow> mb_state m \<noteq> Pending) \<and>
     (case mb_request m of None \<Rightarrow> True | Some r \<Rightarrow>
        rq_request_id r \<noteq> 0 \<and> rq_runtime_generation r = mb_runtime_generation m \<and>
        0 < rq_max_reply_bytes r \<and> rq_max_reply_bytes r \<le> MAX_REPLY_BYTES \<and>
        mb_reply_bytes m \<le> rq_max_reply_bytes r)"

lemmas sync_defs =
  post_def complete_def expire_if_due_def cancel_def invalidate_def end_session_def acknowledge_def
  mailbox_fail_def Let_def

lemma next_id_nonzero: "max (w + 1) 1 \<noteq> (0 :: u32)"
  by (auto simp: max_def word_le_nat_alt)

lemma mailbox_inv_new: "mailbox_inv (mailbox_new g)"
  by (simp add: mailbox_inv_def mailbox_new_def)

lemma mailbox_inv_fail:
  "mailbox_inv m \<Longrightarrow> mb_state m = Pending \<Longrightarrow> mailbox_inv (mailbox_fail m e)"
  by (auto simp: mailbox_inv_def mailbox_fail_def split: option.splits)

lemma mailbox_inv_step: "mailbox_inv m \<Longrightarrow> mailbox_inv (sync_apply m oper)"
proof (induction m oper rule: sync_apply.induct)
  case (1 m request now)
  then show ?case
    using next_id_nonzero [of "mb_next_request_id m"]
    by (auto simp: post_def mailbox_inv_def Let_def word_neq_0_conv [symmetric] split: option.splits)
next
  case (2 m i n)
  then show ?case
    using mailbox_inv_fail [of m]
    by (cases "mb_request m") (auto simp: complete_def mailbox_inv_def mailbox_fail_def)
next
  case (3 m now)
  then show ?case
    using mailbox_inv_fail [of m TimedOut] by (auto simp: expire_if_due_def split: option.splits)
next
  case (4 m)
  then show ?case by (auto simp: cancel_def mailbox_inv_def split: option.splits)
next
  case (5 m)
  then show ?case using mailbox_inv_fail [of m StaleGeneration] by (auto simp: invalidate_def)
next
  case (6 m)
  then show ?case
    by (auto simp: end_session_def mailbox_inv_def mailbox_fail_def Let_def split: option.splits)
next
  case (7 m)
  then show ?case by (auto simp: acknowledge_def mailbox_inv_def is_settled_def)
qed

lemma mailbox_inv_run: "mailbox_inv m \<Longrightarrow> mailbox_inv (sync_run m ops)"
  unfolding sync_run_def by (induction ops arbitrary: m) (auto intro: mailbox_inv_step)

section \<open>What each operation does to a waiter\<close>

lemma complete_cases:
  assumes "mailbox_inv m"
  obtains (late) "mb_state m \<noteq> Pending" "complete m i n = (m, Inl LateReply)"
  | (pending) r where "mb_state m = Pending" "mb_request m = Some r"
      "complete m i n =
         (if i \<noteq> rq_request_id r then (mailbox_fail m RequestIdMismatch, Inl RequestIdMismatch)
          else if n > rq_max_reply_bytes r then (mailbox_fail m ReplyTooLarge, Inl ReplyTooLarge)
          else (m\<lparr>mb_state := Ready, mb_reply_bytes := n, mb_error := None\<rparr>, Inr ()))"
proof (cases "mb_state m = Pending")
  case True
  then obtain r where "mb_request m = Some r"
    using assms by (auto simp: mailbox_inv_def)
  then show ?thesis using True by (intro pending) (simp_all add: complete_def)
next
  case False
  then show ?thesis by (intro late) (auto simp: complete_def split: option.splits)
qed

lemma ended_step: "mb_ended m \<Longrightarrow> mb_ended (sync_apply m oper)"
  by (cases oper) (auto simp: sync_defs split: option.splits if_splits)

lemma ended_run: "mb_ended m \<Longrightarrow> mb_ended (sync_run m ops)"
  unfolding sync_run_def by (induction ops arbitrary: m) (auto intro: ended_step)

lemma sync_run_append: "sync_run m (ops @ ops') = sync_run (sync_run m ops) ops'"
  by (simp add: sync_run_def)

section \<open>The identifiers a run grants\<close>

definition granted :: "sync_mailbox \<Rightarrow> sync_op \<Rightarrow> u32 list" where
  "granted m oper =
     (case oper of Post request now \<Rightarrow> (case snd (post m request now) of Inr i \<Rightarrow> [i] | Inl _ \<Rightarrow> [])
      | _ \<Rightarrow> [])"

fun granted_ids :: "sync_mailbox \<Rightarrow> sync_op list \<Rightarrow> u32 list" where
  "granted_ids m [] = []"
| "granted_ids m (oper # ops) = granted m oper @ granted_ids (sync_apply m oper) ops"

abbreviation (input) ID_CYCLE :: nat where "ID_CYCLE \<equiv> 4294967295"

lemma unat_next_id:
  assumes "w \<noteq> (0 :: u32)"
  shows "unat (max (w + 1) 1) = unat w mod ID_CYCLE + 1"
proof -
  have b: "unat w < 4294967296" using unat_bound [of w] by simp
  show ?thesis
  proof (cases "unat w = 4294967295")
    case True
    then have "w = 4294967295" by (simp add: word_unat_eq_iff)
    then show ?thesis by simp
  next
    case False
    have u: "unat (w + 1) = unat w + 1"
      using False b by (simp add: unat_word_ariths)
    have "max (w + 1) 1 = w + 1"
      using u assms by (simp add: max_def word_le_nat_alt word_unat_eq_iff)
    moreover have "unat w mod ID_CYCLE = unat w" using False b by simp
    ultimately show ?thesis using u by simp
  qed
qed

lemma sync_apply_next_id:
  "mb_next_request_id (sync_apply m oper) =
     (if granted m oper = [] then mb_next_request_id m else max (mb_next_request_id m + 1) 1)"
  by (cases oper) (auto simp: granted_def sync_defs split: option.splits sum.splits)

lemma granted_next_id: "granted m oper = [] \<or> granted m oper = [mb_next_request_id m]"
  by (cases oper) (auto simp: granted_def sync_defs split: option.splits sum.splits)

lemma granted_ids_nth:
  assumes "mb_next_request_id m \<noteq> 0" "k < length (granted_ids m ops)"
  shows "unat (granted_ids m ops ! k) = (unat (mb_next_request_id m) - 1 + k) mod ID_CYCLE + 1"
  using assms
proof (induction ops arbitrary: m k)
  case Nil
  then show ?case by simp
next
  case (Cons oper ops)
  let ?n = "mb_next_request_id m"
  have pos: "0 < unat ?n" using Cons.prems(1) by (simp add: word_unat_eq_iff)
  have small: "unat ?n - 1 < ID_CYCLE" using unat_bound [of ?n] pos by simp
  show ?case
  proof (cases "granted m oper = []")
    case True
    then show ?thesis
      using Cons.IH [of "sync_apply m oper" k] Cons.prems by (simp add: sync_apply_next_id)
  next
    case False
    then have g: "granted m oper = [?n]" using granted_next_id by blast
    show ?thesis
    proof (cases k)
      case 0
      then show ?thesis using g small pos by simp
    next
      case (Suc j)
      have nx: "mb_next_request_id (sync_apply m oper) = max (?n + 1) 1"
        using False by (simp add: sync_apply_next_id)
      have "unat (granted_ids (sync_apply m oper) ops ! j) =
          (unat (max (?n + 1) 1) - 1 + j) mod ID_CYCLE + 1"
        using Cons.IH [of "sync_apply m oper" j] Cons.prems(2) g Suc next_id_nonzero [of ?n]
        by (simp add: nx)
      also have "\<dots> = (unat ?n mod ID_CYCLE + j) mod ID_CYCLE + 1"
        using unat_next_id [OF Cons.prems(1)] by simp
      also have "\<dots> = (unat ?n - 1 + k) mod ID_CYCLE + 1"
        using Suc pos by (simp add: mod_add_left_eq)
      finally show ?thesis using g Suc by simp
    qed
  qed
qed

section \<open>Properties\<close>

definition demo_request :: sync_request where
  "demo_request =
     \<lparr>rq_request_id = 0, rq_runtime_generation = 7, rq_surface_generation = 1,
      rq_resource_epoch = 1, rq_triggering_sequence = 5, rq_operation = 3,
      rq_max_reply_bytes = 128, rq_deadline_nanos = 1000\<rparr>"

text \<open>The mailbox is consistent after any sequence of operations on a new mailbox.
  A slot with no request is exactly a free slot; an error is recorded exactly on a
  failed one; reply bytes exist only on a ready one and never exceed what the request
  reserved, nor the hard ceiling; the request in the slot belongs to the current
  runtime generation; and a session that has ended has nobody waiting.\<close>

lemma mailbox_consistent:
  "let m = sync_run (mailbox_new g) ops in
   mb_runtime_generation m = g \<and>
   (mb_state m = Free \<longleftrightarrow> mb_request m = None) \<and>
   (mb_state m = Failed \<longleftrightarrow> mb_error m \<noteq> None) \<and>
   (mb_state m = Ready \<or> mb_reply_bytes m = 0) \<and>
   \<not> (mb_ended m \<and> mb_state m = Pending) \<and>
   (case mb_request m of None \<Rightarrow> True | Some r \<Rightarrow>
      rq_runtime_generation r = g \<and> mb_reply_bytes m \<le> rq_max_reply_bytes r \<and>
      rq_max_reply_bytes r \<le> MAX_REPLY_BYTES)"
proof -
  have gen: "mb_runtime_generation (sync_apply m oper) = mb_runtime_generation m" for m oper
    by (cases oper) (auto simp: sync_defs split: option.splits)
  have "mb_runtime_generation (sync_run m ops) = mb_runtime_generation m" for m
    unfolding sync_run_def by (induction ops arbitrary: m) (simp_all add: gen)
  then have "mb_runtime_generation (sync_run (mailbox_new g) ops) = g"
    by (simp add: mailbox_new_def)
  with mailbox_inv_run [OF mailbox_inv_new, of g ops] show ?thesis
    by (auto simp: mailbox_inv_def Let_def split: option.splits)
qed

text \<open>A reply reaches the waiter only if it answers the request that is waiting.
  In a consistent mailbox, completion succeeds exactly when a request is pending, the
  reply carries its id and fits its reservation; then the slot is ready with that many
  bytes. A reply to a slot nobody waits on changes nothing and is reported late; a
  wrong id or an oversized reply fails the request with the error it returns, so the
  waiter is released and never sees the reply.\<close>

lemma complete_answers_the_waiter:
  assumes "mailbox_inv m"
  shows "case complete m i n of
      (m', Inr _) \<Rightarrow>
        mb_state m = Pending \<and> map_option rq_request_id (mb_request m) = Some i \<and>
        mb_state m' = Ready \<and> mb_reply_bytes m' = n \<and> mb_request m' = mb_request m
    | (m', Inl e) \<Rightarrow>
        (if mb_state m \<noteq> Pending then e = LateReply \<and> m' = m
         else mb_state m' = Failed \<and> mb_error m' = Some e \<and> mb_reply_bytes m' = 0 \<and>
              (e = RequestIdMismatch \<longleftrightarrow> map_option rq_request_id (mb_request m) \<noteq> Some i) \<and>
              (e \<noteq> RequestIdMismatch \<longrightarrow>
                 e = ReplyTooLarge \<and> (\<exists>r. mb_request m = Some r \<and> rq_max_reply_bytes r < n)))"
  using assms
proof (cases rule: complete_cases [where i = i and n = n])
  case late
  then show ?thesis by simp
next
  case (pending r)
  then show ?thesis by (simp add: mailbox_fail_def)
qed

lemma complete_answers_the_waiter_witness:
  "let m = sync_run (mailbox_new 7) [Post demo_request 10] in
   mailbox_inv m \<and> mb_state (fst (complete m 1 64)) = Ready \<and>
   snd (complete m 2 64) = Inl RequestIdMismatch \<and> snd (complete m 1 129) = Inl ReplyTooLarge"
proof -
  let ?m = "sync_run (mailbox_new 7) [Post demo_request 10]"
  have m: "?m = \<lparr>mb_runtime_generation = 7, mb_state = Pending,
      mb_request = Some (demo_request\<lparr>rq_request_id := 1\<rparr>), mb_error = None,
      mb_reply_bytes = 0, mb_next_request_id = 2, mb_ended = False\<rparr>"
    by (simp add: sync_run_def post_def mailbox_new_def demo_request_def)
  have inv: "mailbox_inv ?m" by (rule mailbox_inv_run [OF mailbox_inv_new])
  show ?thesis
    using inv complete_answers_the_waiter [OF inv, of 1 64]
    unfolding Let_def m by (simp add: complete_def demo_request_def mailbox_fail_def)
qed

text \<open>C34. No wait outlives its deadline or its session. A pending request in a
  consistent mailbox has a deadline, and it settles: checking the clock at or after
  the deadline fails it as timed out, while an earlier check leaves it alone;
  cancelling, invalidating and ending the session each release it at once. Once the
  session has ended, no later sequence of operations makes anyone wait again and every
  post is refused as ended.\<close>

theorem waiter_is_always_released:
  assumes "mailbox_inv m" "mb_state m = Pending"
  shows "\<exists>r. mb_request m = Some r \<and>
     (\<forall>now. expire_if_due m now =
        (if now < rq_deadline_nanos r then (m, False) else (mailbox_fail m TimedOut, True))) \<and>
     is_settled (mb_state (fst (expire_if_due m (rq_deadline_nanos r)))) \<and>
     cancel m = (m\<lparr>mb_state := Cancelled, mb_error := None\<rparr>, True) \<and>
     invalidate m = (mailbox_fail m StaleGeneration, True) \<and>
     mb_error (fst (end_session m)) = Some SessionEnded \<and> snd (end_session m) \<and>
     (\<forall>ops request now. let m' = sync_run m (EndSession # ops) in
        mb_state m' \<noteq> Pending \<and> post m' request now = (m', Inl SessionEnded))"
proof -
  obtain r where r: "mb_request m = Some r" using assms by (auto simp: mailbox_inv_def)
  have "mb_state (sync_run m (EndSession # ops)) \<noteq> Pending \<and>
      mb_ended (sync_run m (EndSession # ops))" for ops
  proof -
    have "mb_ended (sync_apply m EndSession)"
      by (simp add: end_session_def mailbox_fail_def Let_def)
    then have "mb_ended (sync_run m (EndSession # ops))"
      using ended_run [of "sync_apply m EndSession" ops] by (simp add: sync_run_def)
    with mailbox_inv_run [OF assms(1), of "EndSession # ops"] show ?thesis
      by (simp add: mailbox_inv_def)
  qed
  then show ?thesis
    using assms(2) r
    by (intro exI [of _ r])
      (simp add: expire_if_due_def cancel_def invalidate_def end_session_def post_def
        mailbox_fail_def is_settled_def Let_def)
qed

theorem waiter_is_always_released_witness:
  "let m = sync_run (mailbox_new 7) [Post demo_request 10] in
   mb_state m = Pending \<and> snd (end_session m) \<and> expire_if_due m 999 = (m, False) \<and>
   mb_error (fst (expire_if_due m 1000)) = Some TimedOut"
proof -
  let ?m = "sync_run (mailbox_new 7) [Post demo_request 10]"
  have p: "mb_state ?m = Pending" "map_option rq_deadline_nanos (mb_request ?m) = Some 1000"
    by (simp_all add: sync_run_def post_def mailbox_new_def demo_request_def)
  have inv: "mailbox_inv ?m" by (rule mailbox_inv_run [OF mailbox_inv_new])
  show ?thesis
    using p waiter_is_always_released [OF inv p(1)]
    by (auto simp: mailbox_fail_def Let_def)
qed

text \<open>Request ids run through all the non-zero \<open>u32\<close> values in turn: the \<open>k\<close>-th
  request a session grants, in any sequence of operations, has id \<open>k mod (2^32 - 1) + 1\<close>.
  So no id is ever zero and two requests share one only if they are a multiple of
  \<open>2^32 - 1\<close> grants apart: a reply to an earlier request cannot be mistaken for the
  answer to the present one.\<close>

lemma request_ids_cycle:
  assumes "j < length (granted_ids (mailbox_new g) ops)"
    and "k < length (granted_ids (mailbox_new g) ops)"
  shows "unat (granted_ids (mailbox_new g) ops ! k) = k mod ID_CYCLE + 1 \<and>
    (granted_ids (mailbox_new g) ops ! j = granted_ids (mailbox_new g) ops ! k \<longleftrightarrow>
       j mod ID_CYCLE = k mod ID_CYCLE)"
proof (rule conjI)
  have nth: "unat (granted_ids (mailbox_new g) ops ! i) = i mod ID_CYCLE + 1"
    if "i < length (granted_ids (mailbox_new g) ops)" for i
    using granted_ids_nth [OF _ that] by (simp add: mailbox_new_def)
  show "unat (granted_ids (mailbox_new g) ops ! k) = k mod ID_CYCLE + 1"
    using nth assms(2) by blast
  show "granted_ids (mailbox_new g) ops ! j = granted_ids (mailbox_new g) ops ! k \<longleftrightarrow>
      j mod ID_CYCLE = k mod ID_CYCLE"
    using nth [OF assms(1)] nth [OF assms(2)] by (metis add_right_cancel word_unat_eq_iff)
qed

lemma request_ids_cycle_witness:
  "granted_ids (mailbox_new 7) [Post demo_request 10, Post demo_request 11, Cancel, Post demo_request 12]
     = [1, 2] \<and> (2 :: u32) \<noteq> 1"
proof -
  let ?ops = "[Post demo_request 10, Post demo_request 11, Cancel, Post demo_request 12]"
  have g: "granted_ids (mailbox_new 7) ?ops = [1, 2]"
    by (simp add: granted_def post_def cancel_def mailbox_new_def demo_request_def)
  show ?thesis
    using g request_ids_cycle [of 0 7 ?ops 1] by simp
qed

text \<open>The layouts have no gaps and the state codes round-trip.\<close>

lemma layouts_gapless:
  "gapless 0 SYNC_LAYOUT SYNC_RECORD_BYTES" "gapless 0 HEADER_LAYOUT HEADER_BYTES"
  by (simp_all add: SYNC_LAYOUT_def HEADER_LAYOUT_def)

lemma sync_state_codes: "sync_state_from_code c = Some s \<longleftrightarrow> sync_state_code s = c"
  by (cases s) (auto simp: sync_state_from_code_def)

end
