(* ===== verification/Abi.thy ===== *)
theory Abi
  imports Abi_Codes External_Session Frame_Clock Resource Sync
begin

text \<open>
  The C boundary of an external session: the versioned records of
  \<open>engine/crates/capi-abi/src/header.rs\<close>, the outcome records of
  \<open>engine/crates/capi-abi/src/external_frames.rs\<close> and the entry points of
  \<open>engine/crates/capi/src/external_frames.rs\<close>. Memory a caller lends is a byte list,
  a null pointer is \<open>None\<close>; the targets are little-endian.
\<close>

section \<open>Versioned records\<close>

abbreviation (input) MIGO_ABI_VERSION_CURRENT :: u32 where "MIGO_ABI_VERSION_CURRENT \<equiv> 1"

datatype output_version_policy = CurrentAbi | CapabilityNegotiation

text \<open>\<open>MINIMUM_SIZE\<close> is the first argument and the size of the record the second or the length of the value.\<close>

definition copy_versioned :: "nat \<Rightarrow> nat \<Rightarrow> u8 list option \<Rightarrow> int + u8 list" where
  "copy_versioned minimum_size record_size header =
     (case header of
        None \<Rightarrow> Inl MIGO_ERROR_INVALID_ARGUMENT
      | Some caller \<Rightarrow>
          if u32_at caller 4 \<noteq> MIGO_ABI_VERSION_CURRENT then Inl MIGO_ERROR_UNSUPPORTED_ABI
          else let caller_size = unat (u32_at caller 0) in
          if caller_size > record_size then Inl MIGO_ERROR_UNSUPPORTED_ABI
          else if caller_size < minimum_size then Inl MIGO_ERROR_INVALID_ARGUMENT
          else Inr (take caller_size caller @ replicate (record_size - caller_size) 0))"

definition validate_versioned_header :: "u8 list option \<Rightarrow> nat \<Rightarrow> int + unit" where
  "validate_versioned_header header expected_size =
     (case header of
        None \<Rightarrow> Inl MIGO_ERROR_INVALID_ARGUMENT
      | Some caller \<Rightarrow>
          if u32_at caller 4 \<noteq> MIGO_ABI_VERSION_CURRENT then Inl MIGO_ERROR_UNSUPPORTED_ABI
          else let caller_size = unat (u32_at caller 0) in
          if caller_size > expected_size then Inl MIGO_ERROR_UNSUPPORTED_ABI
          else if caller_size \<noteq> expected_size then Inl MIGO_ERROR_INVALID_ARGUMENT
          else Inr ())"

definition write_versioned_output ::
    "nat \<Rightarrow> u8 list option \<Rightarrow> u8 list \<Rightarrow> output_version_policy \<Rightarrow> u8 list option \<times> int" where
  "write_versioned_output minimum_size out value policy =
     (case out of
        None \<Rightarrow> (out, MIGO_ERROR_INVALID_ARGUMENT)
      | Some caller \<Rightarrow>
          let caller_size = unat (u32_at caller 0) in
          if caller_size < minimum_size then (out, MIGO_ERROR_INVALID_ARGUMENT)
          else if policy = CurrentAbi \<and>
             (u32_at caller 4 \<noteq> MIGO_ABI_VERSION_CURRENT \<or> caller_size > length value)
          then (out, MIGO_ERROR_UNSUPPORTED_ABI)
          else let bytes = min caller_size (length value);
                   copied = take bytes value @ drop bytes caller
               in (Some (take 8 caller @ drop 8 copied), MIGO_OK))"

section \<open>Outcome records\<close>

record migo_frame_ingress_outcome =
  mo_accepted_sequence :: u64
  mo_decision :: u32
  mo_remaining_credits :: u32
  mo_wire_error_code :: u32

definition frame_outcome_bytes :: "migo_frame_ingress_outcome \<Rightarrow> u8 list" where
  "frame_outcome_bytes v =
     to_le_bytes 4 (32 :: u32) @ to_le_bytes 4 MIGO_ABI_VERSION_CURRENT @
     to_le_bytes 8 (mo_accepted_sequence v) @ to_le_bytes 4 (mo_decision v) @
     to_le_bytes 4 (mo_remaining_credits v) @ to_le_bytes 4 (mo_wire_error_code v) @
     to_le_bytes 4 (0 :: u32)"

abbreviation (input) MIGO_FRAME_INGRESS_ACCEPTED :: u32 where "MIGO_FRAME_INGRESS_ACCEPTED \<equiv> 1"
abbreviation (input) MIGO_FRAME_INGRESS_WOULD_BLOCK :: u32 where "MIGO_FRAME_INGRESS_WOULD_BLOCK \<equiv> 2"
abbreviation (input) MIGO_FRAME_INGRESS_REJECTED :: u32 where "MIGO_FRAME_INGRESS_REJECTED \<equiv> 3"
abbreviation (input) MIGO_FRAME_INGRESS_GENERATION_LOST :: u32 where "MIGO_FRAME_INGRESS_GENERATION_LOST \<equiv> 4"

definition write_frame_ingress_outcome ::
    "u8 list option \<Rightarrow> u32 \<Rightarrow> u32 \<Rightarrow> u64 \<Rightarrow> u32 \<Rightarrow> u8 list option \<times> int" where
  "write_frame_ingress_outcome out decision remaining accepted_sequence code =
     (if decision \<notin> {MIGO_FRAME_INGRESS_ACCEPTED, MIGO_FRAME_INGRESS_WOULD_BLOCK,
          MIGO_FRAME_INGRESS_REJECTED, MIGO_FRAME_INGRESS_GENERATION_LOST}
      then (out, MIGO_ERROR_INVALID_ARGUMENT)
      else if (decision = MIGO_FRAME_INGRESS_ACCEPTED) \<noteq> (accepted_sequence \<noteq> 0)
      then (out, MIGO_ERROR_INVALID_ARGUMENT)
      else if (decision = MIGO_FRAME_INGRESS_REJECTED) \<noteq> (code \<noteq> 0)
      then (out, MIGO_ERROR_INVALID_ARGUMENT)
      else if decision = MIGO_FRAME_INGRESS_WOULD_BLOCK \<and> remaining \<noteq> 0
      then (out, MIGO_ERROR_INVALID_ARGUMENT)
      else write_versioned_output 32 out
        (frame_outcome_bytes \<lparr>mo_accepted_sequence = accepted_sequence, mo_decision = decision,
           mo_remaining_credits = remaining, mo_wire_error_code = code\<rparr>) CurrentAbi)"

definition write_sync_outcome ::
    "u8 list option \<Rightarrow> u32 \<Rightarrow> u32 \<Rightarrow> u32 \<Rightarrow> u32 \<Rightarrow> u8 list option \<times> int" where
  "write_sync_outcome out request_id state reply_bytes error =
     (let recognised = state \<in> {0, 1, 2, 3, 4};
          consistent =
            (if state = 2 then error = 0
             else if state = 3 then error \<noteq> 0 \<and> reply_bytes = 0
             else if state = 0 then request_id = 0 \<and> reply_bytes = 0 \<and> error = 0
             else reply_bytes = 0)
      in if \<not> recognised \<or> \<not> consistent then (out, MIGO_ERROR_INVALID_ARGUMENT)
         else write_versioned_output 24 out
           (to_le_bytes 4 (24 :: u32) @ to_le_bytes 4 (1 :: u32) @ to_le_bytes 4 request_id @
            to_le_bytes 4 state @ to_le_bytes 4 reply_bytes @ to_le_bytes 4 error) CurrentAbi)"

definition write_resource_outcome ::
    "u8 list option \<Rightarrow> u64 \<Rightarrow> u64 \<Rightarrow> u32 \<Rightarrow> u32 \<Rightarrow> u32 \<Rightarrow> u8 list option \<times> int" where
  "write_resource_outcome out reservation_id received_bytes state error next_chunk =
     (let recognised = state \<in> {0, 1, 2, 3, 4};
          consistent = (if state = 4 then error \<noteq> 0 else error = 0)
      in if \<not> recognised \<or> \<not> consistent then (out, MIGO_ERROR_INVALID_ARGUMENT)
         else write_versioned_output 40 out
           (to_le_bytes 4 (40 :: u32) @ to_le_bytes 4 (1 :: u32) @ to_le_bytes 8 reservation_id @
            to_le_bytes 8 received_bytes @ to_le_bytes 4 state @ to_le_bytes 4 error @
            to_le_bytes 4 next_chunk @ to_le_bytes 4 (0 :: u32)) CurrentAbi)"

definition launch_nonce_from_bytes :: "u8 list \<Rightarrow> u128 option" where
  "launch_nonce_from_bytes bytes =
     (let nonce = from_le_bytes bytes in if nonce \<noteq> 0 then Some nonce else None)"

section \<open>Entry points\<close>

text \<open>
  What a session handle reaches: whether it is open, whether its lock is poisoned, and
  the engine once a surface is attached.
\<close>

record migo_session =
  ms_open :: bool
  ms_poisoned :: bool
  ms_host :: "(submit_path \<times> external_frame_clock) option"

definition pin_session :: "migo_session option \<Rightarrow> int + migo_session" where
  "pin_session session =
     (case session of
        None \<Rightarrow> Inl MIGO_ERROR_INVALID_ARGUMENT
      | Some pinned \<Rightarrow> if \<not> ms_open pinned then Inl MIGO_ERROR_INVALID_STATE else Inr pinned)"

fun decision_code :: "ingress_decision \<Rightarrow> u32" where
  "decision_code Accepted = MIGO_FRAME_INGRESS_ACCEPTED"
| "decision_code WouldBlock = MIGO_FRAME_INGRESS_WOULD_BLOCK"
| "decision_code Rejected = MIGO_FRAME_INGRESS_REJECTED"
| "decision_code GenerationLost = MIGO_FRAME_INGRESS_GENERATION_LOST"

definition submit_external_frame ::
    "'h hasher \<Rightarrow> vec_model \<Rightarrow> size_model \<Rightarrow> (frame_packet \<Rightarrow> bool) \<Rightarrow>
     migo_session option \<Rightarrow> u8 list option \<Rightarrow> u8 list option \<Rightarrow>
     (migo_session option \<times> u8 list option \<times> int) option" where
  "submit_external_frame H M S takes session bytes out =
     (case pin_session session of
        Inl error \<Rightarrow> Some (session, out, error)
      | Inr pinned \<Rightarrow>
      case bytes of
        None \<Rightarrow> Some (session, out, MIGO_ERROR_INVALID_ARGUMENT)
      | Some packet \<Rightarrow>
      if length packet = 0 then Some (session, out, MIGO_ERROR_INVALID_ARGUMENT)
      else if length packet > 2 ^ 63 - 1 then Some (session, out, MIGO_ERROR_INVALID_ARGUMENT)
      else if ms_poisoned pinned then Some (session, out, MIGO_ERROR_INTERNAL)
      else case ms_host pinned of
        None \<Rightarrow> Some (session, out, MIGO_ERROR_INVALID_STATE)
      | Some (engine, clock) \<Rightarrow> do {
          (engine, outcome) \<leftarrow> submit_frame H M S takes engine packet;
          let (out, result) = write_frame_ingress_outcome out (decision_code (io_decision outcome))
                (io_remaining_credits outcome) (io_accepted_sequence outcome) (io_wire_error_code outcome);
          Some (Some (pinned\<lparr>ms_host := Some (engine, clock)\<rparr>), out, result)
        })"

definition request_external_frame :: "migo_session option \<Rightarrow> migo_session option \<times> int" where
  "request_external_frame session =
     (case pin_session session of
        Inl error \<Rightarrow> (session, error)
      | Inr pinned \<Rightarrow>
      if ms_poisoned pinned then (session, MIGO_ERROR_INTERNAL)
      else case ms_host pinned of
        None \<Rightarrow> (session, MIGO_ERROR_INVALID_STATE)
      | Some (engine, clock) \<Rightarrow>
          let (clock, up) = request_frame clock in
          (Some (pinned\<lparr>ms_host := Some (engine, clock)\<rparr>), if up then MIGO_OK else MIGO_ERROR_INVALID_STATE))"

text \<open>The second component is the word \<open>out_code\<close> points to.\<close>

definition take_external_gl_error ::
    "migo_session option \<Rightarrow> u32 \<Rightarrow> u32 option \<Rightarrow> migo_session option \<times> u32 option \<times> int" where
  "take_external_gl_error session canvas_id out_code =
     (case pin_session session of
        Inl error \<Rightarrow> (session, out_code, error)
      | Inr pinned \<Rightarrow>
      if out_code = None then (session, out_code, MIGO_ERROR_INVALID_ARGUMENT)
      else if ms_poisoned pinned then (session, out_code, MIGO_ERROR_INTERNAL)
      else case ms_host pinned of
        None \<Rightarrow> (session, out_code, MIGO_ERROR_INVALID_STATE)
      | Some (engine, clock) \<Rightarrow>
          let (errors, code) = errors_take (sp_errors engine) canvas_id in
          (Some (pinned\<lparr>ms_host := Some (engine\<lparr>sp_errors := errors\<rparr>, clock)\<rparr>),
           Some (case code of None \<Rightarrow> 0 | Some c \<Rightarrow> c), MIGO_OK))"

section \<open>Writing a record\<close>

definition output_ready :: "nat \<Rightarrow> u8 list \<Rightarrow> bool" where
  "output_ready n buf \<longleftrightarrow>
     length buf = n \<and> unat (u32_at buf 0) = n \<and> u32_at buf 4 = MIGO_ABI_VERSION_CURRENT"

lemma write_versioned_ready:
  assumes "output_ready n buf" and "length value = n"
  shows "write_versioned_output n (Some buf) value CurrentAbi = (Some (take 8 buf @ drop 8 value), MIGO_OK)"
  using assms by (simp add: write_versioned_output_def output_ready_def Let_def)

text \<open>How a host reads the record it lent.\<close>

definition read_frame_outcome :: "u8 list \<Rightarrow> migo_frame_ingress_outcome" where
  "read_frame_outcome b =
     \<lparr>mo_accepted_sequence = from_le_bytes (take 8 (drop 8 b)), mo_decision = u32_at b 16,
      mo_remaining_credits = u32_at b 20, mo_wire_error_code = u32_at b 24\<rparr>"

lemma length_frame_outcome_bytes [simp]: "length (frame_outcome_bytes v) = 32"
  by (simp add: frame_outcome_bytes_def)

lemma read_written_outcome:
  assumes "length hdr = 8"
  shows "read_frame_outcome (hdr @ drop 8 (frame_outcome_bytes v)) = v"
  using assms by (simp add: read_frame_outcome_def frame_outcome_bytes_def le32.dec_enc le64.dec_enc)

text \<open>The consistency rules of the boundary, as a condition on an outcome.\<close>

definition outcome_consistent :: "ingress_outcome \<Rightarrow> bool" where
  "outcome_consistent out \<longleftrightarrow>
     (io_decision out = Accepted \<longleftrightarrow> io_accepted_sequence out \<noteq> 0) \<and>
     (io_decision out = Rejected \<longleftrightarrow> io_wire_error_code out \<noteq> 0) \<and>
     (io_decision out = WouldBlock \<longrightarrow> io_remaining_credits out = 0)"

lemma write_consistent:
  assumes "outcome_consistent out"
  shows "write_frame_ingress_outcome buf (decision_code (io_decision out)) (io_remaining_credits out)
      (io_accepted_sequence out) (io_wire_error_code out) =
    write_versioned_output 32 buf
      (frame_outcome_bytes \<lparr>mo_accepted_sequence = io_accepted_sequence out,
         mo_decision = decision_code (io_decision out), mo_remaining_credits = io_remaining_credits out,
         mo_wire_error_code = io_wire_error_code out\<rparr>) CurrentAbi"
  using assms unfolding outcome_consistent_def write_frame_ingress_outcome_def
  by (cases "io_decision out") auto

lemma submit_frame_consistent:
  assumes "session_inv H sp" and "vec_model_ok M"
  obtains sp' out where "submit_frame H M S takes sp bytes = Some (sp', out)" and "outcome_consistent out"
  using assms
proof (cases rule: submit_frame_cases [where S = S and takes = takes and bytes = bytes])
  case (away out)
  then show thesis using that [of sp out] by (auto simp: outcome_consistent_def)
next
  case (dropped w sp' code)
  then show thesis using that [OF dropped(2)] by (auto simp: outcome_consistent_def)
next
  case (rendered w sp' f rs ops)
  have "wf_sequence w \<noteq> 0"
    using rendered(1) unat_saturating_add [of "fi_last_accepted_sequence (sp_ingress sp)" 1]
    by (auto simp: legal_def)
  then show thesis using that [OF rendered(4)] by (auto simp: outcome_consistent_def)
qed

lemma sync_error_code_nonzero: "sync_error_code err \<noteq> 0"
  by (cases err) simp_all

lemma resource_error_code_nonzero: "resource_error_code err \<noteq> 0"
  by (cases err) simp_all

section \<open>Properties\<close>

text \<open>
  What a C host reads is what the engine answered. On an open session with an
  attached surface, offering a non-empty packet with a well-formed output record
  returns success, runs \<open>submit_frame\<close> once, and writes a record whose fields are
  those of its outcome, the caller's header kept: the consistency rules of the
  boundary never refuse an answer of the engine.
\<close>

lemma submit_external_frame_reports:
  assumes "ms_open s" and "\<not> ms_poisoned s" and "ms_host s = Some (engine, clock)"
    and "session_inv H engine" and "vec_model_ok M"
    and "packet \<noteq> []" and "length packet \<le> 2 ^ 63 - 1" and "output_ready 32 buf"
  shows "\<exists>engine' outcome buf'. submit_frame H M S takes engine packet = Some (engine', outcome) \<and>
     submit_external_frame H M S takes (Some s) (Some packet) (Some buf) =
       Some (Some (s\<lparr>ms_host := Some (engine', clock)\<rparr>), Some buf', MIGO_OK) \<and>
     take 8 buf' = take 8 buf \<and>
     read_frame_outcome buf' =
       \<lparr>mo_accepted_sequence = io_accepted_sequence outcome, mo_decision = decision_code (io_decision outcome),
        mo_remaining_credits = io_remaining_credits outcome, mo_wire_error_code = io_wire_error_code outcome\<rparr>"
proof -
  obtain engine' outcome where sub: "submit_frame H M S takes engine packet = Some (engine', outcome)"
    and ok: "outcome_consistent outcome"
    using submit_frame_consistent [OF assms(4,5)] by blast
  have len: "length (take 8 buf) = 8" using assms(8) by (simp add: output_ready_def)
  let ?v = "\<lparr>mo_accepted_sequence = io_accepted_sequence outcome, mo_decision = decision_code (io_decision outcome),
        mo_remaining_credits = io_remaining_credits outcome, mo_wire_error_code = io_wire_error_code outcome\<rparr>"
  have "submit_external_frame H M S takes (Some s) (Some packet) (Some buf) =
      Some (Some (s\<lparr>ms_host := Some (engine', clock)\<rparr>), Some (take 8 buf @ drop 8 (frame_outcome_bytes ?v)), MIGO_OK)"
    using assms(1-3,6,7) sub write_versioned_ready [OF assms(8), of "frame_outcome_bytes ?v"]
    by (simp add: submit_external_frame_def pin_session_def write_consistent [OF ok])
  then show ?thesis
    using sub read_written_outcome [OF len, of ?v] len by simp
qed

definition demo_output :: "u8 list" where
  "demo_output = to_le_bytes 4 (32 :: u32) @ to_le_bytes 4 (1 :: u32) @ replicate 24 0"

lemma demo_output_ready: "output_ready 32 demo_output"
  by (simp add: output_ready_def demo_output_def le32.dec_enc)

definition demo_session :: migo_session where
  "demo_session = \<lparr>ms_open = True, ms_poisoned = False, ms_host = Some (publish_dispatch (spawn_submit_path 0),
     \<lparr>ec_demand = None, ec_armed = 0, ec_ticks = 0, ec_last_timestamp_millis = 0\<rparr>)\<rparr>"

lemma submit_external_frame_reports_witness:
  "\<exists>s' buf'. submit_external_frame crc32_hasher exact_vec demo_sizes (\<lambda>_. True)
       (Some demo_session) (Some [1, 2, 3]) (Some demo_output) = Some (s', Some buf', MIGO_OK) \<and>
     take 8 buf' = take 8 demo_output"
proof -
  have "ms_open demo_session" "\<not> ms_poisoned demo_session"
    "ms_host demo_session = Some (publish_dispatch (spawn_submit_path 0),
       \<lparr>ec_demand = None, ec_armed = 0, ec_ticks = 0, ec_last_timestamp_millis = 0\<rparr>)"
    by (simp_all add: demo_session_def)
  from submit_external_frame_reports [OF this spawned_inv exact_vec_ok _ _ demo_output_ready,
      of "[1, 2, 3]" crc32_hasher demo_sizes "\<lambda>_. True"]
  show ?thesis by auto
qed

text \<open>
  Writing a versioned record touches only what the caller announced. A refusal
  leaves the caller's memory as it was. A success keeps the caller's header and
  everything beyond the announced size, and fills the bytes in between with the
  value's; a record of the current version is written only if its announced size is
  between the minimum and the size the library knows.
\<close>

lemma write_versioned_output_contract:
  assumes "8 \<le> minimum_size" and "minimum_size \<le> length value" and "unat (u32_at caller 0) \<le> length caller"
  shows "case write_versioned_output minimum_size (Some caller) value policy of
      (out, result) \<Rightarrow>
        (result = MIGO_OK \<longleftrightarrow> minimum_size \<le> unat (u32_at caller 0) \<and>
           (policy = CurrentAbi \<longrightarrow> u32_at caller 4 = MIGO_ABI_VERSION_CURRENT \<and>
              unat (u32_at caller 0) \<le> length value)) \<and>
        (if result \<noteq> MIGO_OK then out = Some caller
         else \<exists>buf. out = Some buf \<and> length buf = length caller \<and>
           (\<forall>i < length caller. buf ! i =
              (if 8 \<le> i \<and> i < min (unat (u32_at caller 0)) (length value) then value ! i else caller ! i)))"
proof -
  define n where "n = unat (u32_at caller 0)"
  let ?ok = "minimum_size \<le> n \<and> (policy = CurrentAbi \<longrightarrow> u32_at caller 4 = MIGO_ABI_VERSION_CURRENT \<and> n \<le> length value)"
  show ?thesis
  proof (cases ?ok)
    case True
    let ?buf = "take 8 caller @ drop 8 (take (min n (length value)) value @ drop (min n (length value)) caller)"
    have "write_versioned_output minimum_size (Some caller) value policy = (Some ?buf, MIGO_OK)"
      using True unfolding write_versioned_output_def option.case unfolding n_def [symmetric] by (auto simp: Let_def)
    moreover have "length ?buf = length caller"
      using True assms unfolding n_def [symmetric] by simp
    moreover have "?buf ! i = (if 8 \<le> i \<and> i < min n (length value) then value ! i else caller ! i)"
      if "i < length caller" for i
      using that True assms unfolding n_def [symmetric] by (auto simp: nth_append)
    ultimately show ?thesis
      using True unfolding n_def [symmetric] by simp
  next
    case False
    then have "write_versioned_output minimum_size (Some caller) value policy \<in>
        {(Some caller, MIGO_ERROR_INVALID_ARGUMENT), (Some caller, MIGO_ERROR_UNSUPPORTED_ABI)}"
      unfolding write_versioned_output_def option.case unfolding n_def [symmetric] by (auto simp: Let_def)
    then show ?thesis
      using False unfolding n_def [symmetric] by auto
  qed
qed

lemma write_versioned_output_contract_witness:
  "snd (write_versioned_output 32 (Some demo_output) (replicate 32 7) CurrentAbi) = MIGO_OK"
proof -
  have size: "unat (u32_at demo_output 0) = 32" and version: "u32_at demo_output 4 = 1" and len: "length demo_output = 32"
    using demo_output_ready unfolding output_ready_def by blast+
  from write_versioned_output_contract [of 32 "replicate 32 7" demo_output CurrentAbi, unfolded size version len]
  show ?thesis by (auto split: prod.splits)
qed

text \<open>
  The answers of the synchronous barrier and of the resource table pass the
  boundary's consistency rules: for every mailbox a session can reach, and every entry
  of every table it can reach, writing the state, the error code (0 if there is none),
  and the sizes into a well-formed record succeeds.
\<close>

lemma sync_and_resource_answers_pass:
  assumes "output_ready 24 buf" and "output_ready 40 buf'"
    and "resource_step\<^sup>*\<^sup>* (resource_table_new epoch, []) (t, log)" and "e \<in> set (rt_entries t)"
  shows "(let m = sync_run (mailbox_new g) ops in
       snd (write_sync_outcome (Some buf) (case mb_request m of None \<Rightarrow> 0 | Some r \<Rightarrow> rq_request_id r)
         (sync_state_code (mb_state m)) (mb_reply_bytes m)
         (case mb_error m of None \<Rightarrow> 0 | Some err \<Rightarrow> sync_error_code err)) = MIGO_OK) \<and>
     snd (write_resource_outcome (Some buf') (rv_id e) (rv_received_bytes e)
       (resource_state_code (rv_state e))
       (case rv_error e of None \<Rightarrow> 0 | Some err \<Rightarrow> resource_error_code err) (rv_next_chunk e)) = MIGO_OK"
proof (rule conjI)
  define m where "m = sync_run (mailbox_new g) ops"
  have "mailbox_inv m" unfolding m_def by (rule mailbox_inv_run [OF mailbox_inv_new])
  then show "let m = sync_run (mailbox_new g) ops in
      snd (write_sync_outcome (Some buf) (case mb_request m of None \<Rightarrow> 0 | Some r \<Rightarrow> rq_request_id r)
        (sync_state_code (mb_state m)) (mb_reply_bytes m)
        (case mb_error m of None \<Rightarrow> 0 | Some err \<Rightarrow> sync_error_code err)) = MIGO_OK"
    unfolding Let_def m_def [symmetric]
    by (cases "mb_state m")
      (auto simp: write_sync_outcome_def mailbox_inv_def Let_def write_versioned_ready [OF assms(1)]
        sync_error_code_nonzero split: option.splits)
  have "entry_inv log e"
    using resource_run_inv [OF assms(3) table_inv_new] assms(4) by (simp add: table_inv_def list_all_iff)
  then have "rv_error e \<noteq> None \<longleftrightarrow> rv_state e = resource_state.Failed"
    by (simp only: entry_inv_def)
  then show "snd (write_resource_outcome (Some buf') (rv_id e) (rv_received_bytes e)
      (resource_state_code (rv_state e))
      (case rv_error e of None \<Rightarrow> 0 | Some err \<Rightarrow> resource_error_code err) (rv_next_chunk e)) = MIGO_OK"
    by (cases "rv_state e")
      (auto simp: write_resource_outcome_def Let_def write_versioned_ready [OF assms(2)]
        resource_error_code_nonzero split: option.splits)
qed

lemma sync_and_resource_answers_pass_witness:
  "snd (write_resource_outcome (Some (to_le_bytes 4 (40 :: u32) @ to_le_bytes 4 (1 :: u32) @ replicate 32 0)) 1
     (rv_received_bytes (hd (rt_entries demo_table))) 3 0 (rv_next_chunk (hd (rt_entries demo_table)))) = MIGO_OK"
proof -
  let ?e = "hd (rt_entries demo_table)"
  have "output_ready 24 (to_le_bytes 4 (24 :: u32) @ to_le_bytes 4 (1 :: u32) @ replicate 16 0)"
    and "output_ready 40 (to_le_bytes 4 (40 :: u32) @ to_le_bytes 4 (1 :: u32) @ replicate 32 0)"
    by (simp_all add: output_ready_def le32.dec_enc)
  moreover have "?e \<in> set (rt_entries demo_table)" and fields: "rv_id ?e = 1" "rv_state ?e = resource_state.Ready" "rv_error ?e = None"
    by (simp_all add: demo_table_def)
  ultimately show ?thesis
    using sync_and_resource_answers_pass [OF _ _ demo_run, of _ _ ?e undefined "[]"] fields by simp
qed

text \<open>
  The launch identity a host pairs with its producer out of band is the one
  packets are matched by: sixteen bytes become an identity unless they are all zero,
  and an ingress created with it accepts a valid packet's identity exactly if the
  packet carries those sixteen bytes.
\<close>

lemma launch_identity_matches_wire:
  assumes "length nonce_bytes = 16" and "validate H packet = Ok frame"
  shows "(launch_nonce_from_bytes nonce_bytes = None \<longleftrightarrow> nonce_bytes = replicate 16 0) \<and>
     (\<forall>nonce. launch_nonce_from_bytes nonce_bytes = Some nonce \<longrightarrow>
        (wf_launch_nonce frame = fi_launch_nonce (sp_ingress (spawn_submit_path nonce)) \<longleftrightarrow>
         take 16 (drop OFF_LAUNCH_NONCE packet) = nonce_bytes))"
proof -
  have zero: "(from_le_bytes nonce_bytes :: u128) = 0 \<longleftrightarrow> nonce_bytes = replicate 16 0"
  proof
    show "nonce_bytes = replicate 16 0" if "(from_le_bytes nonce_bytes :: u128) = 0"
      using le128.enc_dec [OF assms(1)] that nat_le_0 [of 16] by (simp add: to_le_bytes_def)
    show "(from_le_bytes nonce_bytes :: u128) = 0" if "nonce_bytes = replicate 16 0"
      using le128.dec_enc [of 0] that nat_le_0 [of 16] by (simp add: to_le_bytes_def)
  qed
  have "80 \<le> length packet"
    using assms(2) by (auto simp: validate_Ok_iff envelope_ok_def)
  then have "length (take 16 (drop OFF_LAUNCH_NONCE packet)) = 16" by simp
  moreover have "wf_launch_nonce frame = from_le_bytes (take 16 (drop OFF_LAUNCH_NONCE packet))"
    using assms(2) by (simp add: validate_Ok_iff frame_of_def)
  ultimately show ?thesis
    using zero le128.dec_inject [OF _ assms(1)]
    by (auto simp: launch_nonce_from_bytes_def Let_def spawn_submit_path_def frame_ingress_new_def)
qed

lemma launch_identity_matches_wire_witness:
  "launch_nonce_from_bytes (replicate 16 0) = None \<and> launch_nonce_from_bytes (1 # replicate 15 0) \<noteq> None"
proof -
  obtain f where f: "validate crc32_hasher demo_bytes = Ok f"
    using demo_legal by (auto simp: legal_def)
  have "1 # replicate 15 (0 :: u8) \<noteq> replicate 16 0"
    using replicate_Suc [of 15 "0 :: u8"] by simp
  then show ?thesis
    using launch_identity_matches_wire [OF _ f, of "replicate 16 0"]
      launch_identity_matches_wire [OF _ f, of "1 # replicate 15 0"] by simp
qed



end
