(* ===== verification/Frame_Phases.thy ===== *)
theory Frame_Phases
  imports Render_Commands
begin

text \<open>
  How the render thread runs a packet's operations (\<open>render_thread.rs\<close>,
  \<open>packet_safe_to_reorder\<close> and \<open>run_frame_phases\<close>): in issue order, or, when the
  packet is found to admit it, all Canvas2D work first and the WebGL work after
  it. What executing an operation does is an argument; the interface
  \<open>frame_executor\<close> says which operations do not depend on each other.
\<close>

section \<open>Admission\<close>

definition touches_canvas :: "gl_cmd \<Rightarrow> u32 option" where
  "touches_canvas cmd = (case cmd of
     Viewport c _ _ _ _ \<Rightarrow> Some c
   | Clear c _ \<Rightarrow> Some c
   | ClearColor c _ _ _ _ \<Rightarrow> Some c
   | ClearDepth c _ \<Rightarrow> Some c
   | ClearStencil c _ \<Rightarrow> Some c
   | Enable c _ \<Rightarrow> Some c
   | Disable c _ \<Rightarrow> Some c
   | UseProgram c _ \<Rightarrow> Some c
   | BindBuffer c _ _ \<Rightarrow> Some c
   | BindTexture c _ _ \<Rightarrow> Some c
   | ActiveTexture c _ \<Rightarrow> Some c
   | BindFramebuffer c _ _ \<Rightarrow> Some c
   | BindRenderbuffer c _ _ \<Rightarrow> Some c
   | BindVertexArray c _ \<Rightarrow> Some c
   | BindSampler c _ _ \<Rightarrow> Some c
   | EnableVertexAttribArray c _ \<Rightarrow> Some c
   | DisableVertexAttribArray c _ \<Rightarrow> Some c
   | VertexAttribPointer c _ _ _ _ _ _ \<Rightarrow> Some c
   | VertexAttribDivisor c _ _ \<Rightarrow> Some c
   | BlendFunc c _ _ \<Rightarrow> Some c
   | BlendFuncSeparate c _ _ _ _ \<Rightarrow> Some c
   | BlendEquation c _ \<Rightarrow> Some c
   | BlendEquationSeparate c _ _ \<Rightarrow> Some c
   | BlendColor c _ _ _ _ \<Rightarrow> Some c
   | DepthFunc c _ \<Rightarrow> Some c
   | DepthMask c _ \<Rightarrow> Some c
   | DepthRange c _ _ \<Rightarrow> Some c
   | StencilFunc c _ _ _ \<Rightarrow> Some c
   | StencilFuncSeparate c _ _ _ _ \<Rightarrow> Some c
   | StencilOp c _ _ _ \<Rightarrow> Some c
   | StencilOpSeparate c _ _ _ _ \<Rightarrow> Some c
   | StencilMask c _ \<Rightarrow> Some c
   | StencilMaskSeparate c _ _ \<Rightarrow> Some c
   | CullFace c _ \<Rightarrow> Some c
   | FrontFace c _ \<Rightarrow> Some c
   | ColorMask c _ _ _ _ \<Rightarrow> Some c
   | Scissor c _ _ _ _ \<Rightarrow> Some c
   | LineWidth c _ \<Rightarrow> Some c
   | PolygonOffset c _ _ \<Rightarrow> Some c
   | TexParameteri c _ _ _ \<Rightarrow> Some c
   | TexParameterf c _ _ _ \<Rightarrow> Some c
   | GenerateMipmap c _ \<Rightarrow> Some c
   | PixelStorei c _ _ \<Rightarrow> Some c
   | Hint c _ _ \<Rightarrow> Some c
   | SamplerParameteri _ _ _ \<Rightarrow> None
   | SamplerParameterf _ _ _ \<Rightarrow> None
   | DrawArrays c _ _ _ \<Rightarrow> Some c
   | DrawElements c _ _ _ _ \<Rightarrow> Some c
   | DrawArraysInstanced c _ _ _ _ \<Rightarrow> Some c
   | DrawElementsInstanced c _ _ _ _ _ \<Rightarrow> Some c
   | BindBufferBase c _ _ _ \<Rightarrow> Some c
   | BindBufferRange c _ _ _ _ _ \<Rightarrow> Some c
   | ReadBuffer c _ \<Rightarrow> Some c
   | Uniform1i c _ _ \<Rightarrow> Some c
   | Uniform1f c _ _ \<Rightarrow> Some c
   | Uniform2f c _ _ _ \<Rightarrow> Some c
   | Uniform3f c _ _ _ _ \<Rightarrow> Some c
   | Uniform4f c _ _ _ _ _ \<Rightarrow> Some c
   | Uniform1iv c _ _ \<Rightarrow> Some c
   | Uniform1fv c _ _ \<Rightarrow> Some c
   | Uniform2iv c _ _ \<Rightarrow> Some c
   | Uniform2fv c _ _ \<Rightarrow> Some c
   | Uniform3iv c _ _ \<Rightarrow> Some c
   | Uniform3fv c _ _ \<Rightarrow> Some c
   | Uniform4iv c _ _ \<Rightarrow> Some c
   | Uniform4fv c _ _ \<Rightarrow> Some c
   | UniformMatrix2fv c _ _ _ \<Rightarrow> Some c
   | UniformMatrix3fv c _ _ _ \<Rightarrow> Some c
   | UniformMatrix4fv c _ _ _ \<Rightarrow> Some c
   | TexImage2DFromCanvas2D c _ _ _ _ _ _ _ _ \<Rightarrow> Some c
   | TexSubImage2DFromCanvas2D c _ _ _ _ _ _ _ _ _ \<Rightarrow> Some c)"

definition is_canvas_target :: "frame_op list \<Rightarrow> u32 \<Rightarrow> bool" where
  "is_canvas_target ops cid \<longleftrightarrow>
     (\<exists>op \<in> set ops. case op of CanvasBatch p \<Rightarrow> cb_canvas_id p = cid | _ \<Rightarrow> False)"

text \<open>
  The scan of the WebGL commands, with the canvas last proven absent as its memo;
  \<open>None\<close> is the early return of a shared canvas.
\<close>

fun scan_commands :: "frame_op list \<Rightarrow> gl_cmd list \<Rightarrow> u32 option \<Rightarrow> u32 option option" where
  "scan_commands ops [] proven_absent = Some proven_absent"
| "scan_commands ops (cmd # cmds) proven_absent = (case touches_canvas cmd of
     None \<Rightarrow> scan_commands ops cmds proven_absent
   | Some cid \<Rightarrow>
       if proven_absent = Some cid then scan_commands ops cmds proven_absent
       else if is_canvas_target ops cid then None
       else scan_commands ops cmds (Some cid))"

fun scan_ops :: "frame_op list \<Rightarrow> frame_op list \<Rightarrow> u32 option \<Rightarrow> bool" where
  "scan_ops ops [] proven_absent = True"
| "scan_ops ops (GlBatch payload # rest) proven_absent =
     (case scan_commands ops (gb_commands payload) proven_absent of
        None \<Rightarrow> False
      | Some m \<Rightarrow> scan_ops ops rest m)"
| "scan_ops ops (_ # rest) proven_absent = scan_ops ops rest proven_absent"

definition packet_safe_to_reorder :: "frame_op list \<Rightarrow> bool" where
  "packet_safe_to_reorder ops =
     (if \<not> (\<exists>op \<in> set ops. case op of CanvasBatch _ \<Rightarrow> True | _ \<Rightarrow> False) then True
      else scan_ops ops ops None)"

section \<open>Execution\<close>

type_synonym 's executor = "'s \<Rightarrow> frame_op \<Rightarrow> 's \<times> bool"

fun run_op :: "'s executor \<Rightarrow> frame_op \<Rightarrow> 's \<times> bool \<Rightarrow> 's \<times> bool" where
  "run_op execute op (s, should_present) =
     (case execute s op of (s', b) \<Rightarrow> (s', should_present \<or> b))"

definition run_ops :: "'s executor \<Rightarrow> frame_op list \<Rightarrow> 's \<times> bool \<Rightarrow> 's \<times> bool" where
  "run_ops execute ops st = fold (run_op execute) ops st"

fun is_deferred :: "frame_op \<Rightarrow> bool" where
  "is_deferred (GlBatch _) = True"
| "is_deferred Present = True"
| "is_deferred _ = False"

fun run_first_phase ::
  "'s executor \<Rightarrow> frame_op list \<Rightarrow> 's \<times> bool \<Rightarrow> frame_op list \<Rightarrow> ('s \<times> bool) \<times> frame_op list" where
  "run_first_phase execute [] st deferred = (st, deferred)"
| "run_first_phase execute (op # ops) st deferred =
     (if is_deferred op then run_first_phase execute ops st (deferred @ [op])
      else run_first_phase execute ops (run_op execute op st) deferred)"

definition run_frame_phases :: "'s executor \<Rightarrow> frame_op list \<Rightarrow> 's \<Rightarrow> 's \<times> bool" where
  "run_frame_phases execute ops s =
     (if packet_safe_to_reorder ops
      then (case run_first_phase execute ops (s, False) [] of
              (st, deferred) \<Rightarrow> run_ops execute deferred st)
      else run_ops execute ops (s, False))"

section \<open>The scan decides disjointness\<close>

definition canvas_targets :: "frame_op list \<Rightarrow> u32 set" where
  "canvas_targets ops = {cid. is_canvas_target ops cid}"

fun gl_cmds :: "frame_op \<Rightarrow> gl_cmd list" where
  "gl_cmds (GlBatch p) = gb_commands p"
| "gl_cmds _ = []"

definition gl_touched :: "frame_op list \<Rightarrow> u32 set" where
  "gl_touched ops = {cid. \<exists>op \<in> set ops. \<exists>cmd \<in> set (gl_cmds op). touches_canvas cmd = Some cid}"

definition memo_ok :: "frame_op list \<Rightarrow> u32 option \<Rightarrow> bool" where
  "memo_ok ops m \<longleftrightarrow> (\<forall>cid. m = Some cid \<longrightarrow> \<not> is_canvas_target ops cid)"

lemma scan_commands_spec:
  "memo_ok ops m \<Longrightarrow>
   (scan_commands ops cmds m = None \<longleftrightarrow>
      (\<exists>cmd \<in> set cmds. \<exists>cid. touches_canvas cmd = Some cid \<and> is_canvas_target ops cid)) \<and>
   (\<forall>m'. scan_commands ops cmds m = Some m' \<longrightarrow> memo_ok ops m')"
  by (induction ops cmds m rule: scan_commands.induct) (auto simp: memo_ok_def split: option.splits)

lemma scan_ops_spec:
  "memo_ok ops m \<Longrightarrow> scan_ops ops rest m \<longleftrightarrow> canvas_targets ops \<inter> gl_touched rest = {}"
proof (induction ops rest m rule: scan_ops.induct)
  case (2 ops payload rest m)
  then show ?case
    using scan_commands_spec [OF "2.prems", of "gb_commands payload"]
    by (auto simp: canvas_targets_def gl_touched_def split: option.splits)
qed (auto simp: canvas_targets_def gl_touched_def)

lemma safe_packet_disjoint:
  assumes "packet_safe_to_reorder ops" "is_canvas_target ops c"
  shows "c \<notin> gl_touched ops"
proof -
  have "\<exists>op \<in> set ops. case op of CanvasBatch _ \<Rightarrow> True | _ \<Rightarrow> False"
    using assms(2) by (auto simp: is_canvas_target_def split: frame_op.splits)
  with assms show ?thesis
    using scan_ops_spec [of ops None ops] by (auto simp: packet_safe_to_reorder_def memo_ok_def canvas_targets_def)
qed

text \<open>
  The admission scan, with its memo and its early exits, decides exactly
  whether the canvases the packet's Canvas2D batches draw to and the canvases its
  WebGL commands are issued on are disjoint.
\<close>

lemma packet_safe_to_reorder_iff:
  "packet_safe_to_reorder ops \<longleftrightarrow> canvas_targets ops \<inter> gl_touched ops = {}"
proof (cases "\<exists>op \<in> set ops. case op of CanvasBatch _ \<Rightarrow> True | _ \<Rightarrow> False")
  case True
  then show ?thesis
    using scan_ops_spec [of ops None ops] by (simp add: packet_safe_to_reorder_def memo_ok_def)
next
  case False
  then have "canvas_targets ops = {}"
    by (auto simp: canvas_targets_def is_canvas_target_def split: frame_op.splits)
  with False show ?thesis by (simp add: packet_safe_to_reorder_def)
qed

section \<open>Independent operations\<close>

definition exec_commutes :: "'s executor \<Rightarrow> frame_op \<Rightarrow> frame_op \<Rightarrow> bool" where
  "exec_commutes execute a b \<longleftrightarrow>
     (\<forall>st. run_op execute a (run_op execute b st) = run_op execute b (run_op execute a st))"

text \<open>The 2D canvas whose pixels a WebGL command reads.\<close>

definition reads_canvas :: "gl_cmd \<Rightarrow> u32 option" where
  "reads_canvas cmd = (case cmd of
     TexImage2DFromCanvas2D _ _ _ _ src _ _ _ _ \<Rightarrow> Some src
   | TexSubImage2DFromCanvas2D _ _ _ _ _ src _ _ _ _ \<Rightarrow> Some src
   | _ \<Rightarrow> None)"

fun op_canvas :: "frame_op \<Rightarrow> u32 option" where
  "op_canvas (CanvasBatch p) = Some (cb_canvas_id p)"
| "op_canvas (Materialize c) = Some c"
| "op_canvas _ = None"

definition separate :: "frame_op \<Rightarrow> frame_op \<Rightarrow> bool" where
  "separate a b \<longleftrightarrow> (\<forall>c. op_canvas a = Some c \<longrightarrow>
     (\<forall>cmd \<in> set (gl_cmds b). touches_canvas cmd \<noteq> Some c \<and> reads_canvas cmd \<noteq> Some c))"

text \<open>
  What the reorder relies on: an operation on one 2D canvas and a WebGL batch that
  neither targets nor reads that canvas may be exchanged.
\<close>

locale frame_executor =
  fixes execute :: "'s executor"
  assumes separate_commute: "\<not> is_deferred a \<Longrightarrow> is_deferred b \<Longrightarrow> separate a b \<Longrightarrow>
    exec_commutes execute a b"
begin

lemma past_deferred:
  "\<not> is_deferred op \<Longrightarrow> \<forall>b \<in> set ds. is_deferred b \<and> separate op b \<Longrightarrow>
   run_ops execute ds (run_op execute op st) = run_op execute op (run_ops execute ds st)"
proof (induction ds arbitrary: st)
  case (Cons b ds)
  then have "run_op execute b (run_op execute op st) = run_op execute op (run_op execute b st)"
    using separate_commute [of op b] unfolding exec_commutes_def by (metis list.set_intros(1))
  with Cons show ?case by (simp add: run_ops_def)
qed (simp add: run_ops_def)

lemma two_phases:
  "\<forall>a \<in> set ops. \<not> is_deferred a \<longrightarrow> (\<forall>b \<in> set (ds @ ops). is_deferred b \<longrightarrow> separate a b) \<Longrightarrow>
   \<forall>b \<in> set ds. is_deferred b \<Longrightarrow> run_first_phase execute ops st ds = (st', ds') \<Longrightarrow>
   run_ops execute ds' st' = run_ops execute (ds @ ops) st"
proof (induction ops arbitrary: st ds)
  case (Cons op ops)
  show ?case
  proof (cases "is_deferred op")
    case True
    with Cons.prems Cons.IH [of "ds @ [op]" st] show ?thesis by simp
  next
    case False
    have "run_ops execute ds' st' = run_ops execute (ds @ ops) (run_op execute op st)"
      using Cons.prems False by (intro Cons.IH) auto
    also have "\<dots> = run_ops execute ops (run_ops execute ds (run_op execute op st))"
      by (simp add: run_ops_def)
    also have "\<dots> = run_ops execute ops (run_op execute op (run_ops execute ds st))"
      using past_deferred [of op ds st] False Cons.prems by simp
    finally show ?thesis by (simp add: run_ops_def)
  qed
qed simp

lemma phases_eq:
  assumes "\<forall>a \<in> set ops. \<not> is_deferred a \<longrightarrow> (\<forall>b \<in> set ops. is_deferred b \<longrightarrow> separate a b)"
  shows "run_frame_phases execute ops s = run_ops execute ops (s, False)"
  using two_phases [of ops "[]" "(s, False)"] assms
  by (auto simp: run_frame_phases_def split: prod.splits)

end

section \<open>A renderer that keeps a log\<close>

text \<open>
  The simplest renderer with the stated independence: every canvas keeps what was
  done to it, and an upload from a 2D canvas takes a copy of that canvas as it is
  then. Commands of the shared resource context have a log of their own.
\<close>

datatype entry = Drew2D canvas2d_cmd | DrewGL gl_cmd | Uploaded gl_cmd "entry list" | Flushed

record canvas_log =
  cl_canvas :: "u32 \<Rightarrow> entry list"
  cl_shared :: "gl_cmd list"

definition record_on :: "canvas_log \<Rightarrow> u32 \<Rightarrow> entry list \<Rightarrow> canvas_log" where
  "record_on s c es = s\<lparr> cl_canvas := (cl_canvas s)(c := cl_canvas s c @ es) \<rparr>"

definition logged_gl :: "canvas_log \<Rightarrow> gl_cmd \<Rightarrow> canvas_log" where
  "logged_gl s cmd = (case touches_canvas cmd of
     None \<Rightarrow> s\<lparr> cl_shared := cl_shared s @ [cmd] \<rparr>
   | Some c \<Rightarrow> record_on s c [case reads_canvas cmd of
       None \<Rightarrow> DrewGL cmd
     | Some src \<Rightarrow> Uploaded cmd (cl_canvas s src)])"

fun log_execute :: "canvas_log executor" where
  "log_execute s (CanvasBatch p) = (record_on s (cb_canvas_id p) (map Drew2D (cb_commands p)), cb_present p)"
| "log_execute s (Materialize c) = (record_on s c [Flushed], False)"
| "log_execute s (GlBatch p) = (foldl logged_gl s (gb_commands p), True)"
| "log_execute s _ = (s, False)"

definition log_start :: canvas_log where
  "log_start = \<lparr> cl_canvas = (\<lambda>_. []), cl_shared = [] \<rparr>"

lemma logged_gl_record:
  "touches_canvas cmd \<noteq> Some c \<Longrightarrow> reads_canvas cmd \<noteq> Some c \<Longrightarrow>
   logged_gl (record_on s c es) cmd = record_on (logged_gl s cmd) c es"
  by (auto simp: logged_gl_def record_on_def fun_upd_twist split: option.splits)

lemma logged_gls_record:
  "\<forall>cmd \<in> set cmds. touches_canvas cmd \<noteq> Some c \<and> reads_canvas cmd \<noteq> Some c \<Longrightarrow>
   foldl logged_gl (record_on s c es) cmds = record_on (foldl logged_gl s cmds) c es"
  by (induction cmds arbitrary: s) (simp_all add: logged_gl_record)

interpretation log_renderer: frame_executor log_execute
proof
  fix a b
  assume "\<not> is_deferred a" "is_deferred b" "separate a b"
  then show "exec_commutes log_execute a b"
    by (cases a; cases b) (auto simp: exec_commutes_def separate_def logged_gls_record)
qed

section \<open>The reorder is invisible\<close>

text \<open>Every canvas the packet materializes is one it has drawn to.\<close>

definition materialized_drawn :: "frame_op list \<Rightarrow> bool" where
  "materialized_drawn ops \<longleftrightarrow>
     (\<forall>op \<in> set ops. case op of Materialize c \<Rightarrow> is_canvas_target ops c | _ \<Rightarrow> True)"

definition reads_no_target :: "frame_op list \<Rightarrow> bool" where
  "reads_no_target ops \<longleftrightarrow>
     (\<forall>op \<in> set ops. \<forall>cmd \<in> set (gl_cmds op).
        case reads_canvas cmd of None \<Rightarrow> True | Some c \<Rightarrow> \<not> is_canvas_target ops c)"

lemma early_op_target:
  assumes "materialized_drawn ops" "a \<in> set ops" "op_canvas a = Some c"
  shows "is_canvas_target ops c"
proof (cases a)
  case (CanvasBatch p)
  with assms(2,3) show ?thesis by (auto simp: is_canvas_target_def intro!: bexI [of _ a])
qed (use assms in \<open>auto simp: materialized_drawn_def\<close>)

lemma reorder_separate:
  assumes "packet_safe_to_reorder ops" "materialized_drawn ops" "reads_no_target ops"
    and "a \<in> set ops" "b \<in> set ops"
  shows "separate a b"
  unfolding separate_def
proof (intro allI impI ballI)
  fix c cmd
  assume "op_canvas a = Some c" and cmd: "cmd \<in> set (gl_cmds b)"
  with assms have target: "is_canvas_target ops c" by (blast intro: early_op_target)
  with assms(1) have "c \<notin> gl_touched ops" by (rule safe_packet_disjoint)
  with target cmd assms(3,5) show "touches_canvas cmd \<noteq> Some c \<and> reads_canvas cmd \<noteq> Some c"
    by (fastforce simp: gl_touched_def reads_no_target_def)
qed

text \<open>
  Running a packet in phases is invisible: for every renderer in which an
  operation on a 2D canvas does not interfere with a WebGL batch that neither
  targets nor reads that canvas, a packet whose WebGL commands read none of the
  2D canvases it draws to ends in the same state, with the same verdict on
  presenting, as in issue order.
\<close>

lemma phases_in_issue_order:
  assumes "frame_executor execute" "materialized_drawn ops" "reads_no_target ops"
  shows "run_frame_phases execute ops s = run_ops execute ops (s, False)"
proof (cases "packet_safe_to_reorder ops")
  case True
  with assms show ?thesis
    by (intro frame_executor.phases_eq) (auto intro: reorder_separate)
qed (simp add: run_frame_phases_def)

definition label_canvas :: "canvas2d_cmd list \<Rightarrow> frame_op" where
  "label_canvas cmds = CanvasBatch \<lparr> cb_canvas_id = 2, cb_commands = cmds, cb_present = False,
     cb_dirty_rect = None \<rparr>"

text \<open>
  The admission test does not look at what a WebGL command reads. A 2D canvas
  drawn, uploaded, redrawn and uploaded again in one packet is found safe to
  reorder, and afterwards the first upload has the second drawing in it.
\<close>

lemma reorder_ignores_canvas_uploads:
  "let upload = GlBatch \<lparr> gb_commands = [TexImage2DFromCanvas2D 1 0xDE1 0 0x1908 2 0 0 8 8] \<rparr>;
       ops = [BeginFrame, label_canvas [Fill], Materialize 2, upload,
              label_canvas [Stroke], Materialize 2, upload, Present];
       cmd = TexImage2DFromCanvas2D 1 0xDE1 0 0x1908 2 0 0 8 8
   in packet_safe_to_reorder ops \<and> materialized_drawn ops \<and>
      cl_canvas (fst (run_ops log_execute ops (log_start, False))) 1 =
        [Uploaded cmd [Drew2D Fill, Flushed],
         Uploaded cmd [Drew2D Fill, Flushed, Drew2D Stroke, Flushed]] \<and>
      cl_canvas (fst (run_frame_phases log_execute ops log_start)) 1 =
        [Uploaded cmd [Drew2D Fill, Flushed, Drew2D Stroke, Flushed],
         Uploaded cmd [Drew2D Fill, Flushed, Drew2D Stroke, Flushed]]"
  by (simp add: Let_def packet_safe_to_reorder_def is_canvas_target_def label_canvas_def
      touches_canvas_def materialized_drawn_def run_ops_def run_frame_phases_def logged_gl_def
      reads_canvas_def record_on_def log_start_def)

end
