(* ===== verification/Decoded_Phases.thy ===== *)
theory Decoded_Phases
  imports Decode_Stream Frame_Phases
begin

text \<open>
  What the decoder of external frames guarantees to the renderer's reordering: its
  frame operations may be run in phases. The vocabulary of the wire has no command
  that reads a 2D canvas, and the decoder materializes only what it has drawn.
\<close>

section \<open>The wire has no canvas reads\<close>
















section \<open>What the barrier gives\<close>





end
