(* ===== verification/Damage.thy ===== *)
theory Damage
  imports Prelude
begin

text \<open>
  What one frame damages. The classifiers of the WebGL handler turn a draw or a
  clear into a damage effect, \<open>FrameDamageAccumulator\<close> collects the effects of a
  frame in at most four rectangles, and \<open>DamageTracker\<close> clips them to the
  surface.

  The specification is the set of pixels a rectangle holds: collecting and
  clipping may report more pixels than were damaged, never fewer. Plain \<open>i32\<close>
  arithmetic is kept, so every operation that adds or subtracts edges takes the
  build and may panic.
\<close>

type_synonym irect = "i32 \<times> i32 \<times> i32 \<times> i32"
type_synonym pixel = "int \<times> int"

section \<open>Damage of a single operation\<close>

datatype damage_effect =
    NoDamage
  | OnscreenRect i32 i32 i32 i32
  | FullSurface

datatype scissor_state =
    ScissorDisabled
  | ScissorEnabled i32 i32 i32 i32
  | ScissorEnabledUnknownRect

definition intersect_rects :: "overflow \<Rightarrow> irect \<Rightarrow> irect \<Rightarrow> irect option option" where
  "intersect_rects bld a b = (case a of (ax, ay, aw, ah) \<Rightarrow> case b of (bx, by_, bw, bh) \<Rightarrow>
     do {
       let left = max ax bx;
       let tp = max ay by_;
       ar \<leftarrow> i32_add bld ax aw;
       br \<leftarrow> i32_add bld bx bw;
       ab \<leftarrow> i32_add bld ay ah;
       bb \<leftarrow> i32_add bld by_ bh;
       let right = min ar br;
       let bottom = min ab bb;
       if left < right \<and> tp < bottom
       then do {
         w \<leftarrow> i32_sub bld right left;
         h \<leftarrow> i32_sub bld bottom tp;
         Some (Some (left, tp, w, h)) }
       else Some None })"

definition draw_damage_effect ::
  "overflow \<Rightarrow> bool \<Rightarrow> irect option \<Rightarrow> scissor_state \<Rightarrow> damage_effect option" where
  "draw_damage_effect bld draws_to_default_fbo viewport scissor =
     (if \<not> draws_to_default_fbo then Some NoDamage
      else case viewport of
        None \<Rightarrow> Some FullSurface
      | Some vp \<Rightarrow>
          (case scissor of
             ScissorEnabled x y width height \<Rightarrow> do {
               isect \<leftarrow> intersect_rects bld vp (x, y, width, height);
               Some (case isect of
                  Some (a, b, c, d) \<Rightarrow> OnscreenRect a b c d
                | None \<Rightarrow> NoDamage) }
           | _ \<Rightarrow> (case vp of (a, b, c, d) \<Rightarrow> Some (OnscreenRect a b c d))))"

abbreviation (input) COLOR_BUFFER_BIT :: u32 where "COLOR_BUFFER_BIT \<equiv> 0x4000"

definition clear_damage_effect ::
  "u32 \<Rightarrow> bool \<Rightarrow> scissor_state \<Rightarrow> bool \<times> bool \<times> bool \<times> bool \<Rightarrow> damage_effect" where
  "clear_damage_effect bit_field is_onscreen_default_fbo scissor color_mask =
     (if bit_field AND COLOR_BUFFER_BIT = 0 then NoDamage
      else case color_mask of (r, g, b, a) \<Rightarrow>
        if \<not> r \<and> \<not> g \<and> \<not> b \<and> \<not> a then NoDamage
        else if \<not> is_onscreen_default_fbo then NoDamage
        else case scissor of
          ScissorEnabled x y width height \<Rightarrow> OnscreenRect x y width height
        | _ \<Rightarrow> FullSurface)"

text \<open>The part of \<open>CanvasGLState\<close> the classifiers read.\<close>

record canvas_gl_state =
  gs_draws_to_default_fbo :: bool
  gs_viewport :: "irect option"
  gs_scissor :: scissor_state
  gs_color_mask :: "bool \<times> bool \<times> bool \<times> bool"

definition damage_for_draw ::
  "overflow \<Rightarrow> (u32 \<rightharpoonup> canvas_gl_state) \<Rightarrow> u32 \<Rightarrow> damage_effect option" where
  "damage_for_draw bld gl_state canvas_id =
     (if canvas_id \<noteq> 1 then Some NoDamage
      else case gl_state canvas_id of
        None \<Rightarrow> Some FullSurface
      | Some s \<Rightarrow> draw_damage_effect bld (gs_draws_to_default_fbo s) (gs_viewport s) (gs_scissor s))"

definition damage_for_clear ::
  "(u32 \<rightharpoonup> canvas_gl_state) \<Rightarrow> u32 \<Rightarrow> u32 \<Rightarrow> damage_effect" where
  "damage_for_clear gl_state canvas_id bit_field =
     (let state = gl_state canvas_id;
          is_onscreen_default_fbo =
            (if canvas_id \<noteq> 1 then False
             else case state of None \<Rightarrow> True | Some s \<Rightarrow> gs_draws_to_default_fbo s);
          scissor = (case state of None \<Rightarrow> ScissorDisabled | Some s \<Rightarrow> gs_scissor s);
          color_mask = (case state of None \<Rightarrow> (True, True, True, True) | Some s \<Rightarrow> gs_color_mask s)
      in clear_damage_effect bit_field is_onscreen_default_fbo scissor color_mask)"

section \<open>The damage tracker\<close>

datatype resolved_damage =
    ResolvedFullSurface
  | ResolvedPartial i32 i32 i32 i32

abbreviation (input) MAX_DAMAGE_RECTS :: nat where "MAX_DAMAGE_RECTS \<equiv> 4"

record damage_tracker =
  dt_surface_size :: "i32 \<times> i32"
  dt_dirty :: "irect list"
  dt_force_full :: bool

definition tracker_new :: "i32 \<times> i32 \<Rightarrow> damage_tracker" where
  "tracker_new surface_size =
     \<lparr> dt_surface_size = surface_size, dt_dirty = [], dt_force_full = False \<rparr>"

text \<open>
  The three copies of the bounding-box loop: the accumulated box is
  \<open>(left, tp, right, bottom)\<close>, and a box is turned back into origin and extent
  at the end.
\<close>

fun grow_aabb :: "overflow \<Rightarrow> irect \<Rightarrow> irect list \<Rightarrow> irect option" where
  "grow_aabb bld box [] = Some box"
| "grow_aabb bld (left, tp, right, bottom) ((x, y, w, h) # rs) = do {
     xr \<leftarrow> i32_add bld x w;
     yb \<leftarrow> i32_add bld y h;
     grow_aabb bld (min left x, min tp y, max right xr, max bottom yb) rs }"

definition box_of :: "overflow \<Rightarrow> irect \<Rightarrow> irect option" where
  "box_of bld r = (case r of (x, y, w, h) \<Rightarrow> do {
     xr \<leftarrow> i32_add bld x w;
     yb \<leftarrow> i32_add bld y h;
     Some (x, y, xr, yb) })"

definition rect_of_box :: "overflow \<Rightarrow> irect \<Rightarrow> irect option" where
  "rect_of_box bld box = (case box of (left, tp, right, bottom) \<Rightarrow> do {
     w \<leftarrow> i32_sub bld right left;
     h \<leftarrow> i32_sub bld bottom tp;
     Some (left, tp, w, h) })"

definition dirty_aabb :: "overflow \<Rightarrow> irect list \<Rightarrow> irect option option" where
  "dirty_aabb bld rects = (case rects of
     [] \<Rightarrow> Some None
   | r # rs \<Rightarrow> do {
       b0 \<leftarrow> box_of bld r;
       b \<leftarrow> grow_aabb bld b0 rs;
       a \<leftarrow> rect_of_box bld b;
       Some (Some a) })"

definition collapse_to_aabb :: "overflow \<Rightarrow> irect list \<Rightarrow> irect \<Rightarrow> irect option" where
  "collapse_to_aabb bld existing extra = do {
     b0 \<leftarrow> box_of bld extra;
     b \<leftarrow> grow_aabb bld b0 existing;
     rect_of_box bld b }"

definition mark_rect :: "overflow \<Rightarrow> damage_tracker \<Rightarrow> irect \<Rightarrow> damage_tracker option" where
  "mark_rect bld t rect = (case rect of (x, y, width, height) \<Rightarrow>
     if width \<le> 0 \<or> height \<le> 0 then Some t
     else if x + width > i32_MAX \<or> y + height > i32_MAX
     then Some (t\<lparr> dt_force_full := True \<rparr>)
     else if length (dt_dirty t) < MAX_DAMAGE_RECTS
     then Some (t\<lparr> dt_dirty := dt_dirty t @ [rect] \<rparr>)
     else do {
       collapsed \<leftarrow> collapse_to_aabb bld (dt_dirty t) rect;
       Some (t\<lparr> dt_dirty := [collapsed] \<rparr>) })"

definition mark_requires_full_redraw :: "damage_tracker \<Rightarrow> damage_tracker" where
  "mark_requires_full_redraw t = t\<lparr> dt_force_full := True \<rparr>"

definition tracker_resolve :: "overflow \<Rightarrow> damage_tracker \<Rightarrow> resolved_damage option" where
  "tracker_resolve bld t =
     (if dt_force_full t then Some ResolvedFullSurface
      else case dt_surface_size t of (surface_width, surface_height) \<Rightarrow>
        if surface_width \<le> 0 \<or> surface_height \<le> 0 then Some ResolvedFullSurface
        else do {
          aabb \<leftarrow> dirty_aabb bld (dt_dirty t);
          case aabb of
            None \<Rightarrow> Some ResolvedFullSurface
          | Some (x, y, width, height) \<Rightarrow> do {
              let left = max x 0;
              let tp = max y 0;
              xr \<leftarrow> i32_add bld x width;
              yb \<leftarrow> i32_add bld y height;
              let right = min xr surface_width;
              let bottom = min yb surface_height;
              if left \<ge> right \<or> tp \<ge> bottom then Some ResolvedFullSurface
              else do {
                w \<leftarrow> i32_sub bld right left;
                h \<leftarrow> i32_sub bld bottom tp;
                Some (if w \<ge> surface_width \<and> h \<ge> surface_height
                      then ResolvedFullSurface
                      else ResolvedPartial left tp w h) } } })"

fun clip_rects :: "overflow \<Rightarrow> i32 \<Rightarrow> i32 \<Rightarrow> irect list \<Rightarrow> irect list option" where
  "clip_rects bld sw sh [] = Some []"
| "clip_rects bld sw sh ((x, y, w, h) # rs) = do {
     let left = max x 0;
     let tp = max y 0;
     xr \<leftarrow> i32_add bld x w;
     yb \<leftarrow> i32_add bld y h;
     let right = min xr sw;
     let bottom = min yb sh;
     if left \<ge> right \<or> tp \<ge> bottom
     then clip_rects bld sw sh rs
     else do {
       cw \<leftarrow> i32_sub bld right left;
       ch \<leftarrow> i32_sub bld bottom tp;
       out \<leftarrow> clip_rects bld sw sh rs;
       Some ((left, tp, cw, ch) # out) } }"

definition tracker_resolve_rects :: "overflow \<Rightarrow> damage_tracker \<Rightarrow> irect list option option" where
  "tracker_resolve_rects bld t =
     (if dt_force_full t then Some None
      else case dt_surface_size t of (surface_width, surface_height) \<Rightarrow>
        if surface_width \<le> 0 \<or> surface_height \<le> 0 \<or> dt_dirty t = [] then Some None
        else do {
          out \<leftarrow> clip_rects bld surface_width surface_height (dt_dirty t);
          Some (if out = [] then None
                else if \<exists>(_, _, w, h) \<in> set out. w \<ge> surface_width \<and> h \<ge> surface_height
                then None
                else Some out) })"

section \<open>The frame's accumulator\<close>

record frame_damage =
  fd_rects :: "irect list"
  fd_force_full :: bool

definition fd_new :: frame_damage where
  "fd_new = \<lparr> fd_rects = [], fd_force_full = False \<rparr>"

definition fd_add :: "overflow \<Rightarrow> frame_damage \<Rightarrow> damage_effect \<Rightarrow> frame_damage option" where
  "fd_add bld d e = (case e of
     NoDamage \<Rightarrow> Some d
   | OnscreenRect x y width height \<Rightarrow>
       (if width \<le> 0 \<or> height \<le> 0 then Some d
        else if length (fd_rects d) < MAX_DAMAGE_RECTS
        then Some (d\<lparr> fd_rects := fd_rects d @ [(x, y, width, height)] \<rparr>)
        else do {
          r \<leftarrow> collapse_to_aabb bld (fd_rects d) (x, y, width, height);
          Some (d\<lparr> fd_rects := [r] \<rparr>) })
   | FullSurface \<Rightarrow> Some (d\<lparr> fd_force_full := True \<rparr>))"

definition fd_has_damage :: "frame_damage \<Rightarrow> bool" where
  "fd_has_damage d \<longleftrightarrow> fd_rects d \<noteq> [] \<or> fd_force_full d"

definition fd_accumulated_rect :: "overflow \<Rightarrow> frame_damage \<Rightarrow> irect option option" where
  "fd_accumulated_rect bld d = dirty_aabb bld (fd_rects d)"

definition fd_reset :: "frame_damage \<Rightarrow> frame_damage" where
  "fd_reset d = d\<lparr> fd_rects := [], fd_force_full := False \<rparr>"

definition fd_tracker :: "overflow \<Rightarrow> frame_damage \<Rightarrow> i32 \<times> i32 \<Rightarrow> damage_tracker option" where
  "fd_tracker bld d surface_size = do {
     t \<leftarrow> fold_opt (mark_rect bld) (tracker_new surface_size) (fd_rects d);
     Some (if fd_force_full d then mark_requires_full_redraw t else t) }"

definition fd_resolve :: "overflow \<Rightarrow> frame_damage \<Rightarrow> i32 \<times> i32 \<Rightarrow> resolved_damage option" where
  "fd_resolve bld d surface_size = fd_tracker bld d surface_size \<bind> tracker_resolve bld"

definition fd_resolve_rects ::
  "overflow \<Rightarrow> frame_damage \<Rightarrow> i32 \<times> i32 \<Rightarrow> irect list option option" where
  "fd_resolve_rects bld d surface_size = fd_tracker bld d surface_size \<bind> tracker_resolve_rects bld"

text \<open>The effects of one frame, in the order the render thread feeds them.\<close>

definition fd_add_all :: "overflow \<Rightarrow> frame_damage \<Rightarrow> damage_effect list \<Rightarrow> frame_damage option" where
  "fd_add_all bld = fold_opt (fd_add bld)"

section \<open>Pixels\<close>

fun rect_px :: "irect \<Rightarrow> pixel set" where
  "rect_px (x, y, w, h) = {x ..< x + w} \<times> {y ..< y + h}"

fun effect_px :: "damage_effect \<Rightarrow> pixel set" where
  "effect_px NoDamage = {}"
| "effect_px (OnscreenRect x y w h) = rect_px (x, y, w, h)"
| "effect_px FullSurface = UNIV"

definition surface_px :: "i32 \<times> i32 \<Rightarrow> pixel set" where
  "surface_px s = rect_px (0, 0, fst s, snd s)"

text \<open>
  Rectangles whose edges stay within half the \<open>i32\<close> range on either side: the
  bounding box of any number of them is again one, so no sum or difference of
  edges leaves the range.
\<close>

fun sane_rect :: "irect \<Rightarrow> bool" where
  "sane_rect (x, y, w, h) \<longleftrightarrow>
     0 < w \<and> 0 < h \<and> - 1073741824 \<le> x \<and> x + w < 1073741824 \<and>
     - 1073741824 \<le> y \<and> y + h < 1073741824"

fun sane_effect :: "damage_effect \<Rightarrow> bool" where
  "sane_effect (OnscreenRect x y w h) \<longleftrightarrow> w \<le> 0 \<or> h \<le> 0 \<or> sane_rect (x, y, w, h)"
| "sane_effect _ \<longleftrightarrow> True"

fun box_covers :: "irect \<Rightarrow> irect \<Rightarrow> bool" where
  "box_covers (left, tp, right, bottom) (x, y, w, h) \<longleftrightarrow>
     left \<le> x \<and> tp \<le> y \<and> x + w \<le> right \<and> y + h \<le> bottom"

fun sane_box :: "irect \<Rightarrow> bool" where
  "sane_box (left, tp, right, bottom) \<longleftrightarrow>
     left < right \<and> tp < bottom \<and> - 1073741824 \<le> left \<and> right < 1073741824 \<and>
     - 1073741824 \<le> tp \<and> bottom < 1073741824"

lemma grow_aabb_sane:
  assumes "sane_box box" "\<forall>r \<in> set rs. sane_rect r"
  shows "\<exists>box'. grow_aabb bld box rs = Some box' \<and> sane_box box' \<and>
           (\<forall>r. box_covers box r \<longrightarrow> box_covers box' r) \<and> (\<forall>r \<in> set rs. box_covers box' r)"
  using assms
proof (induction bld box rs rule: grow_aabb.induct)
  case (2 bld left tp right bottom x y w h rs)
  have edges: "i32_ok (x + w)" "i32_ok (y + h)"
    using "2.prems" by (auto simp: i32_ok_def)
  define box1 where "box1 = (min left x, min tp y, max right (x + w), max bottom (y + h))"
  have "sane_box box1" and here: "box_covers box1 (x, y, w, h)"
    and old: "\<And>r. box_covers (left, tp, right, bottom) r \<Longrightarrow> box_covers box1 r"
    using "2.prems" by (auto simp: box1_def)
  then obtain box' where "grow_aabb bld box1 rs = Some box'" "sane_box box'"
      "\<forall>r. box_covers box1 r \<longrightarrow> box_covers box' r" "\<forall>r \<in> set rs. box_covers box' r"
    using "2.IH" [of "x + w" "y + h"] "2.prems"(2) edges unfolding box1_def
    by (auto simp del: sane_box.simps box_covers.simps)
  moreover have "grow_aabb bld (left, tp, right, bottom) ((x, y, w, h) # rs) = grow_aabb bld box1 rs"
    using edges by (simp add: box1_def)
  ultimately show ?case
    using here old by (metis set_ConsD)
qed simp

lemma collapse_sane:
  assumes "sane_rect extra" "\<forall>r \<in> set rs. sane_rect r"
  shows "\<exists>r'. collapse_to_aabb bld rs extra = Some r' \<and> sane_rect r' \<and>
           (\<forall>r \<in> set (extra # rs). rect_px r \<subseteq> rect_px r')"
proof -
  obtain x y w h where extra: "extra = (x, y, w, h)" by (cases extra)
  let ?b0 = "(x, y, x + w, y + h)"
  have b0: "box_of bld extra = Some ?b0" "sane_box ?b0" "box_covers ?b0 extra"
    using assms(1) by (auto simp: extra box_of_def i32_ok_def)
  obtain l t r b where box: "grow_aabb bld ?b0 rs = Some (l, t, r, b)" "sane_box (l, t, r, b)"
      "\<forall>r' \<in> set (extra # rs). box_covers (l, t, r, b) r'"
    using grow_aabb_sane [OF b0(2) assms(2), of bld] b0(3)
    by (metis prod_cases4 set_ConsD)
  have "rect_of_box bld (l, t, r, b) = Some (l, t, r - l, b - t)"
    using box(2) by (simp add: rect_of_box_def i32_ok_def)
  moreover have "rect_px q \<subseteq> rect_px (l, t, r - l, b - t)" if "box_covers (l, t, r, b) q" for q
    using that by (cases q) auto
  moreover have "sane_rect (l, t, r - l, b - t)" using box(2) by auto
  ultimately show ?thesis
    using b0 box by (auto simp: collapse_to_aabb_def)
qed

section \<open>The accumulator covers what it was fed\<close>

definition fd_cover :: "frame_damage \<Rightarrow> pixel set" where
  "fd_cover d = (if fd_force_full d then UNIV else (\<Union>r \<in> set (fd_rects d). rect_px r))"

definition fd_inv :: "frame_damage \<Rightarrow> bool" where
  "fd_inv d \<longleftrightarrow> length (fd_rects d) \<le> 4 \<and> (\<forall>r \<in> set (fd_rects d). sane_rect r)"

lemma fd_add_sane:
  assumes "fd_inv d" "sane_effect e"
  shows "\<exists>d'. fd_add bld d e = Some d' \<and> fd_inv d' \<and> fd_cover d \<union> effect_px e \<subseteq> fd_cover d'"
proof (cases e)
  case (OnscreenRect x y w h)
  show ?thesis
  proof (cases "w \<le> 0 \<or> h \<le> 0 \<or> length (fd_rects d) < 4")
    case True
    then show ?thesis
      using assms by (auto simp: OnscreenRect fd_add_def fd_inv_def fd_cover_def)
  next
    case False
    then obtain r' where r': "collapse_to_aabb bld (fd_rects d) (x, y, w, h) = Some r'"
        "sane_rect r'" "\<forall>r \<in> set ((x, y, w, h) # fd_rects d). rect_px r \<subseteq> rect_px r'"
      using assms collapse_sane [of "(x, y, w, h)" "fd_rects d" bld]
      by (auto simp: OnscreenRect fd_inv_def)
    then have "(\<Union>r \<in> set (fd_rects d). rect_px r) \<union> rect_px (x, y, w, h) \<subseteq> rect_px r'"
      by auto
    with False r'(1,2) show ?thesis
      by (simp add: OnscreenRect fd_add_def fd_inv_def fd_cover_def)
  qed
qed (use assms in \<open>auto simp: fd_add_def fd_inv_def fd_cover_def\<close>)

interpretation frame_damage: total_covering "fd_add bld" fd_inv sane_effect fd_cover effect_px
  for bld
proof
  fix s r s'
  assume "fd_inv s" "sane_effect r"
  then obtain d' where d': "fd_add bld s r = Some d'" "fd_inv d'"
      "fd_cover s \<union> effect_px r \<subseteq> fd_cover d'"
    using fd_add_sane by blast
  then show "\<exists>s'. fd_add bld s r = Some s'" by blast
  show "fd_add bld s r = Some s' \<Longrightarrow> fd_inv s'"
    and "fd_add bld s r = Some s' \<Longrightarrow> fd_cover s \<union> effect_px r \<subseteq> fd_cover s'"
    using d' by simp_all
qed

lemma fd_new_inv [simp]: "fd_inv fd_new" "fd_cover fd_new = {}"
  by (simp_all add: fd_new_def fd_inv_def fd_cover_def)

section \<open>Clipping to the surface\<close>

fun in_surface :: "i32 \<times> i32 \<Rightarrow> irect \<Rightarrow> bool" where
  "in_surface (sw, sh) (x, y, w, h) \<longleftrightarrow>
     0 \<le> x \<and> 0 \<le> y \<and> 0 < w \<and> 0 < h \<and> x + w \<le> sw \<and> y + h \<le> sh"

lemma in_surface_px: "in_surface s r \<Longrightarrow> rect_px r \<subseteq> surface_px s \<and> rect_px r \<noteq> {}"
  by (cases s; cases r) (auto simp: surface_px_def)

lemma clip_rects_sane:
  assumes "\<forall>r \<in> set rs. sane_rect r" "i32_ok sw" "i32_ok sh"
  shows "\<exists>out. clip_rects bld sw sh rs = Some out \<and> length out \<le> length rs \<and>
           (\<forall>r \<in> set out. in_surface (sw, sh) r) \<and>
           (\<Union>r \<in> set out. rect_px r) = (\<Union>r \<in> set rs. rect_px r) \<inter> surface_px (sw, sh)"
  using assms
proof (induction rs)
  case (Cons q rs)
  obtain x y w h where q: "q = (x, y, w, h)" by (cases q)
  obtain out where out: "clip_rects bld sw sh rs = Some out" "length out \<le> length rs"
      "\<forall>r \<in> set out. in_surface (sw, sh) r"
      "(\<Union>r \<in> set out. rect_px r) = (\<Union>r \<in> set rs. rect_px r) \<inter> surface_px (sw, sh)"
    using Cons by auto
  let ?l = "max x 0" and ?t = "max y 0" and ?r = "min (x + w) sw" and ?b = "min (y + h) sh"
  have edges: "i32_ok (x + w)" "i32_ok (y + h)"
    using Cons.prems by (auto simp: q i32_ok_def)
  have px: "rect_px q \<inter> surface_px (sw, sh) = {?l ..< ?r} \<times> {?t ..< ?b}"
    by (auto simp: q surface_px_def)
  show ?case
  proof (cases "?l \<ge> ?r \<or> ?t \<ge> ?b")
    case True
    then have "rect_px q \<inter> surface_px (sw, sh) = {}" unfolding px by auto
    moreover have "clip_rects bld sw sh (q # rs) = Some out"
      using True edges out(1) by (simp add: q Let_def)
    ultimately show ?thesis using out by auto
  next
    case False
    have sizes: "i32_ok (?r - ?l)" "i32_ok (?b - ?t)"
      using False Cons.prems by (auto simp: q i32_ok_def)
    have "clip_rects bld sw sh (q # rs) = Some ((?l, ?t, ?r - ?l, ?b - ?t) # out)"
      using edges sizes False out(1) by (simp add: q Let_def)
    moreover have "rect_px (?l, ?t, ?r - ?l, ?b - ?t) = rect_px q \<inter> surface_px (sw, sh)"
      unfolding px by simp
    moreover have "in_surface (sw, sh) (?l, ?t, ?r - ?l, ?b - ?t)" using False by auto
    ultimately show ?thesis using out by (auto simp del: rect_px.simps in_surface.simps)
  qed
qed simp

lemma mark_rects_append:
  "length (dt_dirty t) + length rs \<le> 4 \<Longrightarrow> \<forall>r \<in> set rs. sane_rect r \<Longrightarrow>
   fold_opt (mark_rect bld) t rs = Some (t\<lparr> dt_dirty := dt_dirty t @ rs \<rparr>)"
  by (induction rs arbitrary: t) (auto simp: mark_rect_def)

lemma fd_tracker_eq:
  "fd_inv d \<Longrightarrow> fd_tracker bld d sz =
     Some \<lparr> dt_surface_size = sz, dt_dirty = fd_rects d, dt_force_full = fd_force_full d \<rparr>"
  by (simp add: fd_tracker_def fd_inv_def tracker_new_def mark_rects_append
      mark_requires_full_redraw_def)

definition covers_frame :: "i32 \<times> i32 \<Rightarrow> pixel set \<Rightarrow> irect list option \<Rightarrow> bool" where
  "covers_frame s px res = (case res of
     None \<Rightarrow> True
   | Some out \<Rightarrow> out \<noteq> [] \<and> length out \<le> MAX_DAMAGE_RECTS \<and>
       (\<forall>r \<in> set out. in_surface s r) \<and> px \<inter> surface_px s \<subseteq> (\<Union>r \<in> set out. rect_px r))"

lemma fd_resolve_rects_sane:
  assumes "fd_inv d" "i32_ok sw" "i32_ok sh"
  shows "\<exists>res. fd_resolve_rects bld d (sw, sh) = Some res \<and>
           covers_frame (sw, sh) (fd_cover d) res \<and> (fd_force_full d \<longrightarrow> res = None)"
proof (cases "fd_force_full d \<or> sw \<le> 0 \<or> sh \<le> 0 \<or> fd_rects d = []")
  case True
  then show ?thesis
    using assms(1)
    by (auto simp: fd_resolve_rects_def fd_tracker_eq tracker_resolve_rects_def covers_frame_def)
next
  case False
  obtain out where out: "clip_rects bld sw sh (fd_rects d) = Some out"
      "length out \<le> length (fd_rects d)" "\<forall>r \<in> set out. in_surface (sw, sh) r"
      "(\<Union>r \<in> set out. rect_px r) = (\<Union>r \<in> set (fd_rects d). rect_px r) \<inter> surface_px (sw, sh)"
    using assms clip_rects_sane [of "fd_rects d" sw sh bld] by (auto simp: fd_inv_def)
  let ?res = "if out = [] then None
              else if \<exists>(_, _, w, h) \<in> set out. w \<ge> sw \<and> h \<ge> sh then None else Some out"
  have "fd_resolve_rects bld d (sw, sh) = Some ?res"
    using False assms(1) out(1)
    by (simp add: fd_resolve_rects_def fd_tracker_eq tracker_resolve_rects_def)
  moreover have "covers_frame (sw, sh) (fd_cover d) ?res"
    using False out assms(1) by (auto simp: covers_frame_def fd_cover_def fd_inv_def)
  ultimately show ?thesis using False by auto
qed

lemma dirty_aabb_Cons:
  "dirty_aabb bld (r # rs) = map_option Some (collapse_to_aabb bld rs r)"
  by (simp add: dirty_aabb_def collapse_to_aabb_def split: bind_splits)

lemma tracker_resolve_clip:
  assumes "\<not> dt_force_full t" "dt_surface_size t = (sw, sh)" "0 < sw" "0 < sh"
    and "dirty_aabb bld (dt_dirty t) = Some (Some a)" "clip_rects bld sw sh [a] = Some out"
  shows "tracker_resolve bld t = Some (case out of
           [(l, tp, w, h)] \<Rightarrow> if w \<ge> sw \<and> h \<ge> sh then ResolvedFullSurface else ResolvedPartial l tp w h
         | _ \<Rightarrow> ResolvedFullSurface)"
  using assms by (cases a) (auto simp: tracker_resolve_def Let_def split: bind_splits if_splits)

lemma fd_resolve_sane:
  assumes "fd_inv d" "i32_ok sw" "i32_ok sh"
  shows "\<exists>r. fd_resolve bld d (sw, sh) = Some r \<and>
           (\<forall>l t w h. r = ResolvedPartial l t w h \<longrightarrow> in_surface (sw, sh) (l, t, w, h) \<and>
              fd_cover d \<inter> surface_px (sw, sh) \<subseteq> rect_px (l, t, w, h))"
proof (cases "fd_force_full d \<or> sw \<le> 0 \<or> sh \<le> 0 \<or> fd_rects d = []")
  case True
  then show ?thesis
    using assms(1) by (auto simp: fd_resolve_def fd_tracker_eq tracker_resolve_def dirty_aabb_def)
next
  case False
  then obtain q rs where rects: "fd_rects d = q # rs" by (cases "fd_rects d") auto
  obtain a where a: "collapse_to_aabb bld rs q = Some a" "sane_rect a"
      "\<forall>r \<in> set (q # rs). rect_px r \<subseteq> rect_px a"
    using collapse_sane [of q rs bld] assms(1) by (auto simp: fd_inv_def rects)
  obtain out where out: "clip_rects bld sw sh [a] = Some out" "length out \<le> 1"
      "\<forall>r \<in> set out. in_surface (sw, sh) r"
      "(\<Union>r \<in> set out. rect_px r) = rect_px a \<inter> surface_px (sw, sh)"
    using clip_rects_sane [of "[a]" sw sh bld] a(2) assms(2,3) by auto
  have "fd_cover d \<inter> surface_px (sw, sh) \<subseteq> (\<Union>r \<in> set out. rect_px r)"
    using a(3) False out(4) by (auto simp: fd_cover_def rects simp del: rect_px.simps)
  moreover have "fd_resolve bld d (sw, sh) = Some (case out of
           [(l, tp, w, h)] \<Rightarrow> if w \<ge> sw \<and> h \<ge> sh then ResolvedFullSurface else ResolvedPartial l tp w h
         | _ \<Rightarrow> ResolvedFullSurface)"
    using False assms(1) a(1) out(1)
    by (simp add: fd_resolve_def fd_tracker_eq, intro tracker_resolve_clip)
      (auto simp: rects dirty_aabb_Cons)
  ultimately show ?thesis
    using out(2,3) by (auto split: list.splits if_splits)
qed

text \<open>
  No pixel is lost between a frame's damage effects and the rectangles its
  presentation is planned from: for any sequence of effects with edges inside the
  safe range, collecting them neither panics nor depends on the build, and the
  resolved rectangles (at most four, each inside the surface and not empty) hold
  every damaged pixel of the surface, and so does the single bounding rectangle.
  An answer without rectangles is the whole surface.
\<close>

lemma accumulator_reports_all_damage:
  assumes "\<forall>e \<in> set es. sane_effect e" "i32_ok sw" "i32_ok sh"
  shows "\<exists>d res. fd_add_all bld fd_new es = Some d \<and> fd_resolve_rects bld d (sw, sh) = Some res \<and>
           covers_frame (sw, sh) (\<Union>e \<in> set es. effect_px e) res \<and>
           (\<exists>r. fd_resolve bld d (sw, sh) = Some r \<and>
              (\<forall>l t w h. r = ResolvedPartial l t w h \<longrightarrow>
                 (\<Union>e \<in> set es. effect_px e) \<inter> surface_px (sw, sh) \<subseteq> rect_px (l, t, w, h)))"
proof -
  obtain d where d: "fd_add_all bld fd_new es = Some d"
    using frame_damage.fold_total [of fd_new es bld] assms(1) by (auto simp: fd_add_all_def)
  have inv: "fd_inv d"
    using frame_damage.fold_inv [of fd_new es bld d] assms(1) d by (simp add: fd_add_all_def)
  have cover: "(\<Union>e \<in> set es. effect_px e) \<subseteq> fd_cover d"
    using frame_damage.fold_cover [of fd_new es bld d] assms(1) d by (simp add: fd_add_all_def)
  obtain res where "fd_resolve_rects bld d (sw, sh) = Some res"
      "covers_frame (sw, sh) (fd_cover d) res"
    using fd_resolve_rects_sane [OF inv assms(2,3)] by blast
  moreover from this(2) have "covers_frame (sw, sh) (\<Union>e \<in> set es. effect_px e) res"
    using cover by (auto simp: covers_frame_def split: option.splits)
  moreover obtain r where "fd_resolve bld d (sw, sh) = Some r"
      "\<forall>l t w h. r = ResolvedPartial l t w h \<longrightarrow> in_surface (sw, sh) (l, t, w, h) \<and>
         fd_cover d \<inter> surface_px (sw, sh) \<subseteq> rect_px (l, t, w, h)"
    using fd_resolve_sane [OF inv assms(2,3)] by blast
  ultimately show ?thesis
    using d cover by (meson Int_mono order_refl subset_trans)
qed

lemma accumulator_reports_all_damage_witness:
  "\<exists>d res. fd_add_all Checked fd_new
      [OnscreenRect 0 0 4 4, OnscreenRect 90 90 20 20, OnscreenRect 10 0 4 4,
       OnscreenRect 0 10 4 4, OnscreenRect 50 50 4 4] = Some d \<and>
    fd_resolve_rects Checked d (100, 100) = Some res \<and>
    covers_frame (100, 100)
      (\<Union>e \<in> set [OnscreenRect 0 0 4 4, OnscreenRect 90 90 20 20, OnscreenRect 10 0 4 4,
       OnscreenRect 0 10 4 4, OnscreenRect 50 50 4 4]. effect_px e) res"
  using accumulator_reports_all_damage
    [of "[OnscreenRect 0 0 4 4, OnscreenRect 90 90 20 20, OnscreenRect 10 0 4 4,
       OnscreenRect 0 10 4 4, OnscreenRect 50 50 4 4]" 100 100 Checked]
  by (auto simp: i32_ok_def)

text \<open>
  Outside the safe range a build without overflow checks loses damage, and a
  build with them panics. A fifth rectangle reaching past \<open>i32::MAX\<close> is folded
  with a wrapped right edge, so the pixels only it covers are not reported; and a
  viewport whose far edge wraps makes a scissored draw report no damage at all.
\<close>

lemma overflowing_damage_is_lost:
  "fd_add_all Checked fd_new
      [OnscreenRect 0 0 1 1, OnscreenRect 2 0 1 1, OnscreenRect 4 0 1 1, OnscreenRect 6 0 1 1,
       OnscreenRect 1 0 2147483647 1] = None \<and>
   fd_add_all Wrapping fd_new
      [OnscreenRect 0 0 1 1, OnscreenRect 2 0 1 1, OnscreenRect 4 0 1 1, OnscreenRect 6 0 1 1,
       OnscreenRect 1 0 2147483647 1] = Some \<lparr> fd_rects = [(0, 0, 7, 1)], fd_force_full = False \<rparr> \<and>
   fd_resolve_rects Wrapping \<lparr> fd_rects = [(0, 0, 7, 1)], fd_force_full = False \<rparr> (100, 100)
     = Some (Some [(0, 0, 7, 1)]) \<and>
   (50, 0) \<in> effect_px (OnscreenRect 1 0 2147483647 1) \<and>
   draw_damage_effect Checked True (Some (1, 0, 2147483647, 10)) (ScissorEnabled 0 0 100 10) = None \<and>
   draw_damage_effect Wrapping True (Some (1, 0, 2147483647, 10)) (ScissorEnabled 0 0 100 10)
     = Some NoDamage"
proof (intro conjI)
  show "(50, 0) \<in> effect_px (OnscreenRect 1 0 2147483647 1)" by simp
qed code_simp+

section \<open>What a WebGL command damages\<close>

text \<open>
  GL confines a draw to its viewport, and to the scissor box while the test is
  on; a colour clear ignores the viewport and writes the whole drawable unless
  the scissor test is on with a known box.
\<close>

definition scissor_px :: "scissor_state \<Rightarrow> pixel set" where
  "scissor_px s = (case s of ScissorEnabled x y w h \<Rightarrow> rect_px (x, y, w, h) | _ \<Rightarrow> UNIV)"

definition touched_by_draw :: "canvas_gl_state \<Rightarrow> pixel set" where
  "touched_by_draw s =
     (if gs_draws_to_default_fbo s
      then (case gs_viewport s of
              None \<Rightarrow> UNIV
            | Some vp \<Rightarrow> rect_px vp \<inter> scissor_px (gs_scissor s))
      else {})"

definition touched_by_clear :: "canvas_gl_state \<Rightarrow> u32 \<Rightarrow> pixel set" where
  "touched_by_clear s bits =
     (if bits AND COLOR_BUFFER_BIT \<noteq> 0 \<and> gs_color_mask s \<noteq> (False, False, False, False) \<and>
         gs_draws_to_default_fbo s
      then scissor_px (gs_scissor s) else {})"

fun edges_ok :: "irect \<Rightarrow> bool" where
  "edges_ok (x, y, w, h) \<longleftrightarrow> i32_ok w \<and> i32_ok h \<and> i32_ok (x + w) \<and> i32_ok (y + h)"

definition gl_edges_ok :: "canvas_gl_state \<Rightarrow> bool" where
  "gl_edges_ok s \<longleftrightarrow>
     (case gs_viewport s of None \<Rightarrow> True | Some vp \<Rightarrow> edges_ok vp) \<and>
     (case gs_scissor s of ScissorEnabled x y w h \<Rightarrow> edges_ok (x, y, w, h) | _ \<Rightarrow> True)"

lemma intersect_rects_px:
  assumes "edges_ok a" "edges_ok b"
  shows "\<exists>r. intersect_rects bld a b = Some r \<and>
           (case r of None \<Rightarrow> {} | Some q \<Rightarrow> rect_px q) = rect_px a \<inter> rect_px b"
proof -
  obtain ax ay aw ah bx by' bw bh where ab: "a = (ax, ay, aw, ah)" "b = (bx, by', bw, bh)"
    by (cases a; cases b)
  let ?l = "max ax bx" and ?t = "max ay by'"
    and ?r = "min (ax + aw) (bx + bw)" and ?b = "min (ay + ah) (by' + bh)"
  have px: "rect_px a \<inter> rect_px b = {?l ..< ?r} \<times> {?t ..< ?b}"
    by (auto simp: ab)
  have ok: "i32_ok (ax + aw)" "i32_ok (bx + bw)" "i32_ok (ay + ah)" "i32_ok (by' + bh)"
    using assms by (simp_all add: ab)
  show ?thesis
  proof (cases "?l < ?r \<and> ?t < ?b")
    case True
    then have "i32_ok (?r - ?l)" "i32_ok (?b - ?t)"
      using assms by (auto simp: ab i32_ok_def)
    then show ?thesis
      using True ok unfolding px by (simp add: intersect_rects_def ab Let_def)
  next
    case False
    then have "rect_px a \<inter> rect_px b = {}" unfolding px by auto
    moreover have "intersect_rects bld a b = Some None"
      using False ok by (auto simp: intersect_rects_def ab Let_def)
    ultimately show ?thesis by simp
  qed
qed

lemma draw_damage_px:
  assumes "gl_edges_ok s"
  shows "\<exists>e. draw_damage_effect bld (gs_draws_to_default_fbo s) (gs_viewport s) (gs_scissor s) = Some e \<and>
           effect_px e = touched_by_draw s"
proof (cases "gs_viewport s")
  case (Some vp)
  show ?thesis
  proof (cases "gs_scissor s")
    case (ScissorEnabled x y w h)
    have "edges_ok vp" "edges_ok (x, y, w, h)"
      using assms by (simp_all add: gl_edges_ok_def Some ScissorEnabled)
    then obtain r where r: "intersect_rects bld vp (x, y, w, h) = Some r"
        "(case r of None \<Rightarrow> {} | Some q \<Rightarrow> rect_px q) = rect_px vp \<inter> rect_px (x, y, w, h)"
      using intersect_rects_px [of vp "(x, y, w, h)" bld] by blast
    let ?e = "case r of Some (a, b, c, d) \<Rightarrow> OnscreenRect a b c d | None \<Rightarrow> NoDamage"
    have "effect_px ?e = rect_px vp \<inter> rect_px (x, y, w, h)"
      unfolding r(2) [symmetric] by (simp split: option.splits)
    with r(1) show ?thesis
      by (simp add: draw_damage_effect_def touched_by_draw_def scissor_px_def Some ScissorEnabled
          del: rect_px.simps)
  qed (use Some in \<open>cases vp; simp add: draw_damage_effect_def touched_by_draw_def scissor_px_def\<close>)+
qed (simp add: draw_damage_effect_def touched_by_draw_def)

text \<open>
  The WebGL classifier is exact on the onscreen canvas: with viewport and
  scissor edges that do not overflow, the effect it reports for a draw holds
  precisely the pixels the draw can touch, and likewise for a clear, in either
  build; a canvas other than the onscreen one reports nothing.
\<close>

lemma gl_damage_is_exact:
  assumes "gl_edges_ok s"
  shows "(\<exists>e. damage_for_draw bld (m(1 \<mapsto> s)) 1 = Some e \<and> effect_px e = touched_by_draw s) \<and>
    effect_px (damage_for_clear (m(1 \<mapsto> s)) 1 bits) = touched_by_clear s bits \<and>
    (c \<noteq> 1 \<longrightarrow> damage_for_draw bld m c = Some NoDamage \<and> damage_for_clear m c bits = NoDamage)"
proof (intro conjI)
  show "effect_px (damage_for_clear (m(1 \<mapsto> s)) 1 bits) = touched_by_clear s bits"
    by (cases "gs_color_mask s"; cases "gs_scissor s")
      (auto simp: damage_for_clear_def clear_damage_effect_def touched_by_clear_def scissor_px_def Let_def)
  show "c \<noteq> 1 \<longrightarrow> damage_for_draw bld m c = Some NoDamage \<and> damage_for_clear m c bits = NoDamage"
    by (auto simp: damage_for_draw_def damage_for_clear_def clear_damage_effect_def Let_def split: prod.splits)
  show "\<exists>e. damage_for_draw bld (m(1 \<mapsto> s)) 1 = Some e \<and> effect_px e = touched_by_draw s"
    using draw_damage_px [OF assms] by (simp add: damage_for_draw_def)
qed

lemma gl_damage_is_exact_witness:
  "let s = \<lparr> gs_draws_to_default_fbo = True, gs_viewport = Some (0, 0, 100, 50),
             gs_scissor = ScissorEnabled 10 10 200 20, gs_color_mask = (True, True, True, False) \<rparr>
   in (\<exists>e. damage_for_draw Wrapping (Map.empty(1 \<mapsto> s)) 1 = Some e \<and> effect_px e = touched_by_draw s) \<and>
      effect_px (damage_for_clear (Map.empty(1 \<mapsto> s)) 1 0x4000) = touched_by_clear s 0x4000 \<and>
      ((2 :: u32) \<noteq> 1 \<longrightarrow> damage_for_draw Wrapping Map.empty 2 = Some NoDamage \<and>
         damage_for_clear Map.empty 2 0x4000 = NoDamage)"
proof -
  let ?s = "\<lparr> gs_draws_to_default_fbo = True, gs_viewport = Some (0, 0, 100, 50),
             gs_scissor = ScissorEnabled 10 10 200 20, gs_color_mask = (True, True, True, False) \<rparr>"
  have "gl_edges_ok ?s" by (simp add: gl_edges_ok_def i32_ok_def)
  from gl_damage_is_exact [OF this, of Wrapping Map.empty "0x4000" 2] show ?thesis
    unfolding Let_def .
qed

end
