(* ===== verification/Present_Damage.thy ===== *)
theory Present_Damage
  imports Damage
begin

text \<open>
  How a frame is presented from its damage: rectangles with checked edges,
  bounded regions of them, the history of the regions last presented, the repair
  region for a back buffer of a given age, the blit planned from it, and the
  bookkeeping after a swap.

  Two specifications are implemented here. The history is a list of regions,
  newest first, cut at four. Presenting through a partial repair shows the same
  picture as copying the whole drawing buffer would.
\<close>

section \<open>Rectangles\<close>

record damage_rect =
  dg_x :: i32
  dg_y :: i32
  dg_width :: i32
  dg_height :: i32

definition damage_rect_new :: "i32 \<Rightarrow> i32 \<Rightarrow> i32 \<Rightarrow> i32 \<Rightarrow> damage_rect option" where
  "damage_rect_new x y width height =
     (if width \<le> 0 \<or> height \<le> 0 then None
      else if x + width > i32_MAX \<or> y + height > i32_MAX then None
      else Some \<lparr> dg_x = x, dg_y = y, dg_width = width, dg_height = height \<rparr>)"

definition dr_xywh :: "damage_rect \<Rightarrow> irect" where
  "dr_xywh r = (dg_x r, dg_y r, dg_width r, dg_height r)"

definition dr_right :: "damage_rect \<Rightarrow> i32" where
  "dr_right r = dg_x r + dg_width r"

definition dr_top :: "damage_rect \<Rightarrow> i32" where
  "dr_top r = dg_y r + dg_height r"

definition dr_contains :: "damage_rect \<Rightarrow> damage_rect \<Rightarrow> bool" where
  "dr_contains s r \<longleftrightarrow>
     dg_x s \<le> dg_x r \<and> dg_y s \<le> dg_y r \<and> dr_right s \<ge> dr_right r \<and> dr_top s \<ge> dr_top r"

definition i32_try_from :: "int \<Rightarrow> i32 option" where
  "i32_try_from v = (if i32_ok v then Some v else None)"

definition union_aabb :: "damage_rect \<Rightarrow> damage_rect \<Rightarrow> damage_rect option" where
  "union_aabb s r = do {
     let x = min (dg_x s) (dg_x r);
     let y = min (dg_y s) (dg_y r);
     let right = max (dr_right s) (dr_right r);
     let tp = max (dr_top s) (dr_top r);
     width \<leftarrow> i32_try_from (right - x);
     height \<leftarrow> i32_try_from (tp - y);
     damage_rect_new x y width height }"

section \<open>Regions\<close>

record partial_region =
  pr_rects :: "damage_rect list"
  pr_len :: nat
  pr_collapsed :: bool

datatype damage_region = WholeSurface | Partial partial_region

definition PLACEHOLDER :: damage_rect where
  "PLACEHOLDER = \<lparr> dg_x = 0, dg_y = 0, dg_width = 1, dg_height = 1 \<rparr>"

definition pr_single :: "damage_rect \<Rightarrow> partial_region" where
  "pr_single r = \<lparr> pr_rects = [r, PLACEHOLDER, PLACEHOLDER, PLACEHOLDER], pr_len = 1,
                   pr_collapsed = False \<rparr>"

definition pr_live :: "partial_region \<Rightarrow> damage_rect list" where
  "pr_live p = take (pr_len p) (pr_rects p)"

definition region_from_rect :: "damage_rect \<Rightarrow> damage_region" where
  "region_from_rect r = Partial (pr_single r)"

text \<open>The loop that keeps the rectangles the new one does not contain.\<close>

fun keep_uncovered ::
  "damage_rect \<Rightarrow> damage_rect list \<Rightarrow> nat \<Rightarrow> damage_rect list \<Rightarrow> damage_rect list \<times> nat" where
  "keep_uncovered new_rect buf buf_len [] = (buf, buf_len)"
| "keep_uncovered new_rect buf buf_len (existing # rs) =
     (if \<not> dr_contains new_rect existing
      then keep_uncovered new_rect (buf[buf_len := existing]) (Suc buf_len) rs
      else keep_uncovered new_rect buf buf_len rs)"

definition union_rect_into :: "partial_region \<Rightarrow> damage_rect \<Rightarrow> partial_region option" where
  "union_rect_into region new_rect =
     (if pr_collapsed region
      then do {
        aabb \<leftarrow> union_aabb (pr_rects region ! 0) new_rect;
        Some (region\<lparr> pr_rects := (pr_rects region)[0 := aabb] \<rparr>) }
      else
        let live = pr_live region in
        if \<exists>existing \<in> set live. dr_contains existing new_rect then Some region
        else
          (case keep_uncovered new_rect (replicate 4 PLACEHOLDER) 0 live of (buf, buf_len) \<Rightarrow>
            if new_rect \<in> set (take buf_len buf)
            then Some \<lparr> pr_rects = buf, pr_len = buf_len, pr_collapsed = False \<rparr>
            else if buf_len < 4
            then Some \<lparr> pr_rects = buf[buf_len := new_rect], pr_len = Suc buf_len,
                        pr_collapsed = False \<rparr>
            else do {
              aabb \<leftarrow> fold_opt union_aabb (buf ! 0) (drop 1 (take buf_len buf));
              aabb' \<leftarrow> union_aabb aabb new_rect;
              Some \<lparr> pr_rects = [aabb', PLACEHOLDER, PLACEHOLDER, PLACEHOLDER], pr_len = 1,
                     pr_collapsed = True \<rparr> }))"

definition region_union :: "damage_region \<Rightarrow> damage_region \<Rightarrow> damage_region" where
  "region_union s other = (case (s, other) of
     (Partial a, Partial b) \<Rightarrow>
       (case fold_opt union_rect_into a (pr_live b) of
          None \<Rightarrow> WholeSurface
        | Some a' \<Rightarrow> Partial a')
   | _ \<Rightarrow> WholeSurface)"

definition region_rects :: "damage_region \<Rightarrow> damage_rect list option" where
  "region_rects s = (case s of WholeSurface \<Rightarrow> None | Partial p \<Rightarrow> Some (pr_live p))"

definition bounding_rect :: "damage_region \<Rightarrow> damage_rect option" where
  "bounding_rect s = do {
     rects \<leftarrow> region_rects s;
     case rects of [] \<Rightarrow> None | r # rs \<Rightarrow> fold_opt union_aabb r rs }"

definition is_full_surface :: "damage_region \<Rightarrow> bool" where
  "is_full_surface s \<longleftrightarrow> s = WholeSurface"

section \<open>The history of presented regions\<close>

record present_history =
  ph_entries :: "damage_region option list"
  ph_len :: nat

definition history_new :: present_history where
  "history_new = \<lparr> ph_entries = [None, None, None, None], ph_len = 0 \<rparr>"

text \<open>\<open>entries[i] = entries[i - 1].take()\<close>, for \<open>i\<close> from \<open>len - 1\<close> down to 1.\<close>

fun shift_entries :: "nat \<Rightarrow> damage_region option list \<Rightarrow> damage_region option list" where
  "shift_entries 0 es = es"
| "shift_entries (Suc i) es =
     shift_entries i (es[Suc i := es ! i, i := None])"

definition history_push :: "present_history \<Rightarrow> damage_region \<Rightarrow> present_history" where
  "history_push s region =
     (let len = (if ph_len s < 4 then ph_len s + 1 else ph_len s);
          es = shift_entries (len - 1) (ph_entries s)
      in \<lparr> ph_entries = es[0 := Some region], ph_len = len \<rparr>)"

definition history_clear :: "present_history \<Rightarrow> present_history" where
  "history_clear s = \<lparr> ph_entries = [None, None, None, None], ph_len = 0 \<rparr>"

text \<open>The union with the newest \<open>n\<close> entries, from index \<open>i\<close>; a missing entry is the panic of \<open>expect\<close>.\<close>

fun repair_from :: "present_history \<Rightarrow> damage_region \<Rightarrow> nat \<Rightarrow> nat \<Rightarrow> damage_region option" where
  "repair_from s repair i 0 = Some repair"
| "repair_from s repair i (Suc n) = do {
     slot \<leftarrow> idx (ph_entries s) i;
     entry \<leftarrow> slot;
     let repair' = region_union repair entry;
     if is_full_surface repair' then Some WholeSurface
     else repair_from s repair' (Suc i) n }"

definition resolve_with_age :: "present_history \<Rightarrow> damage_region \<Rightarrow> i32 \<Rightarrow> damage_region option" where
  "resolve_with_age s current buffer_age =
     (if buffer_age \<le> 0 then Some WholeSurface
      else if buffer_age = 1 then Some current
      else
        let needed = nat (buffer_age - 1) in
        if ph_len s < needed then Some WholeSurface
        else repair_from s current 0 needed)"

section \<open>Plans\<close>

record present_plan =
  pp_current :: damage_region
  pp_repair :: damage_region

definition build_present_plan ::
  "damage_region \<Rightarrow> present_history \<Rightarrow> bool \<Rightarrow> i32 \<Rightarrow> bool \<Rightarrow> bool \<Rightarrow> present_plan option" where
  "build_present_plan current history age_supported buffer_age db_matches_surface dest_single_sample =
     do {
       repair \<leftarrow>
         (if \<not> age_supported \<or> buffer_age \<le> 0 \<or> \<not> db_matches_surface \<or> \<not> dest_single_sample
          then Some WholeSurface
          else if is_full_surface current then Some WholeSurface
          else resolve_with_age history current buffer_age);
       Some \<lparr> pp_current = current, pp_repair = repair \<rparr> }"

definition swap_damage_region :: "present_plan \<Rightarrow> damage_region" where
  "swap_damage_region plan = pp_current plan"

definition surface_damage_to_submit :: "present_plan \<Rightarrow> bool \<Rightarrow> bool \<Rightarrow> damage_rect list option" where
  "surface_damage_to_submit plan extension_available previously_rejected =
     (if \<not> extension_available \<or> previously_rejected then None
      else case region_rects (swap_damage_region plan) of
        Some rects \<Rightarrow> if rects \<noteq> [] then Some rects else None
      | None \<Rightarrow> None)"

definition repair_after_declaration_failure :: "present_plan \<Rightarrow> bool \<Rightarrow> present_plan" where
  "repair_after_declaration_failure plan ext_buffer_age_independently_advertised =
     (if ext_buffer_age_independently_advertised then plan
      else \<lparr> pp_current = pp_current plan, pp_repair = WholeSurface \<rparr>)"

datatype blit_plan =
    BlitFull bool
  | BlitRects "damage_rect list" nat

definition blit_rects :: "damage_rect list \<Rightarrow> nat \<Rightarrow> damage_rect list" where
  "blit_rects rects len = take len rects"

definition make_blit_plan :: "damage_region \<Rightarrow> bool \<Rightarrow> bool \<Rightarrow> blit_plan" where
  "make_blit_plan repair db_matches_surface dest_single_sample = (case repair of
     Partial p \<Rightarrow>
       (if db_matches_surface \<and> dest_single_sample
        then BlitRects (pr_live p @ drop (pr_len p) (replicate 4 PLACEHOLDER)) (pr_len p)
        else BlitFull (\<not> db_matches_surface))
   | WholeSurface \<Rightarrow> BlitFull (\<not> db_matches_surface))"

section \<open>Rectangles and regions as pixels\<close>

definition valid_rect :: "damage_rect \<Rightarrow> bool" where
  "valid_rect r \<longleftrightarrow> i32_ok (dg_x r) \<and> i32_ok (dg_y r) \<and> 0 < dg_width r \<and> 0 < dg_height r \<and>
     i32_ok (dr_right r) \<and> i32_ok (dr_top r)"

definition dr_px :: "damage_rect \<Rightarrow> pixel set" where
  "dr_px r = rect_px (dr_xywh r)"

definition pr_cover :: "partial_region \<Rightarrow> pixel set" where
  "pr_cover p = (\<Union>r \<in> set (pr_live p). dr_px r)"

definition pr_inv :: "partial_region \<Rightarrow> bool" where
  "pr_inv p \<longleftrightarrow> length (pr_rects p) = 4 \<and> 1 \<le> pr_len p \<and> pr_len p \<le> 4 \<and>
     (\<forall>r \<in> set (pr_live p). valid_rect r) \<and> (pr_collapsed p \<longrightarrow> pr_len p = 1)"

fun region_cover :: "damage_region \<Rightarrow> pixel set" where
  "region_cover WholeSurface = UNIV"
| "region_cover (Partial p) = pr_cover p"

fun region_inv :: "damage_region \<Rightarrow> bool" where
  "region_inv WholeSurface \<longleftrightarrow> True"
| "region_inv (Partial p) \<longleftrightarrow> pr_inv p"

lemma damage_rect_new_valid:
  "damage_rect_new x y w h = Some r \<Longrightarrow> i32_ok x \<Longrightarrow> i32_ok y \<Longrightarrow>
   valid_rect r \<and> dr_px r = rect_px (x, y, w, h)"
  by (auto simp: damage_rect_new_def valid_rect_def dr_px_def dr_xywh_def dr_right_def dr_top_def
      i32_ok_def split: if_splits)

lemma dr_contains_px: "dr_contains s r \<Longrightarrow> dr_px r \<subseteq> dr_px s"
  by (auto simp: dr_contains_def dr_px_def dr_xywh_def dr_right_def dr_top_def)

lemma union_aabb_valid:
  assumes "valid_rect s" "valid_rect r" "union_aabb s r = Some u"
  shows "valid_rect u" and "dr_px s \<union> dr_px r \<subseteq> dr_px u"
proof -
  let ?x = "min (dg_x s) (dg_x r)" and ?y = "min (dg_y s) (dg_y r)"
  have u: "damage_rect_new ?x ?y (max (dr_right s) (dr_right r) - ?x)
             (max (dr_top s) (dr_top r) - ?y) = Some u"
    using assms(3) by (auto simp: union_aabb_def Let_def i32_try_from_def split: bind_splits if_splits)
  have "i32_ok ?x" "i32_ok ?y" using assms(1,2) by (auto simp: valid_rect_def min_def)
  note new = damage_rect_new_valid [OF u this]
  show "valid_rect u" using new by blast
  show "dr_px s \<union> dr_px r \<subseteq> dr_px u"
    using new by (auto simp: dr_px_def dr_xywh_def dr_right_def dr_top_def)
qed

interpretation aabb: covering union_aabb valid_rect valid_rect dr_px dr_px
  by unfold_locales (rule union_aabb_valid; assumption)+

lemma keep_uncovered_spec:
  "n + length rs \<le> length buf \<Longrightarrow> keep_uncovered new_rect buf n rs = (buf', n') \<Longrightarrow>
   length buf' = length buf \<and> n' = n + length (filter (\<lambda>r. \<not> dr_contains new_rect r) rs) \<and>
   take n' buf' = take n buf @ filter (\<lambda>r. \<not> dr_contains new_rect r) rs"
proof (induction new_rect buf n rs rule: keep_uncovered.induct)
  case (2 new_rect buf n existing rs)
  then show ?case
    by (cases "dr_contains new_rect existing") (auto simp: take_Suc_conv_app_nth)
qed simp

lemma pr_inv_single: "valid_rect r \<Longrightarrow> pr_inv (pr_single r) \<and> pr_cover (pr_single r) = dr_px r"
  by (simp add: pr_inv_def pr_single_def pr_live_def pr_cover_def)

lemma collapse_inv:
  assumes "valid_rect a" "\<forall>e \<in> set rest. valid_rect e" "valid_rect r"
    and "fold_opt union_aabb a rest = Some w" "union_aabb w r = Some w'"
    and "q = \<lparr> pr_rects = [w', PLACEHOLDER, PLACEHOLDER, PLACEHOLDER], pr_len = 1, pr_collapsed = True \<rparr>"
  shows "pr_inv q \<and> (\<Union>e \<in> set (a # rest). dr_px e) \<union> dr_px r \<subseteq> pr_cover q"
proof -
  have "valid_rect w" "dr_px a \<union> (\<Union>e \<in> set rest. dr_px e) \<subseteq> dr_px w"
    using aabb.fold_inv [OF assms(1,2,4)] aabb.fold_cover [OF assms(1,2,4)] by simp_all
  with union_aabb_valid [OF this(1) assms(3,5)] assms(6) show ?thesis
    by (auto simp: pr_inv_def pr_cover_def pr_live_def)
qed

lemma insert_uncovered_inv:
  assumes inv: "pr_inv p" and r: "valid_rect r" and open_region: "\<not> pr_collapsed p"
    and none: "\<not> (\<exists>e \<in> set (pr_live p). dr_contains e r)" and u: "union_rect_into p r = Some q"
  shows "pr_inv q \<and> (\<Union>e \<in> set (filter (\<lambda>e. \<not> dr_contains r e) (pr_live p)). dr_px e) \<union> dr_px r
           \<subseteq> pr_cover q"
proof -
  let ?kept = "filter (\<lambda>e. \<not> dr_contains r e) (pr_live p)"
  obtain buf n where keep: "keep_uncovered r (replicate 4 PLACEHOLDER) 0 (pr_live p) = (buf, n)"
    by (cases "keep_uncovered r (replicate 4 PLACEHOLDER) 0 (pr_live p)")
  have live: "length (pr_live p) \<le> 4" "\<forall>e \<in> set ?kept. valid_rect e"
    using inv by (auto simp: pr_inv_def pr_live_def)
  have buf: "length buf = 4" "n = length ?kept" "take n buf = ?kept"
    using keep_uncovered_spec [OF _ keep] live(1) by force+
  have fresh: "r \<notin> set ?kept" by (auto simp: dr_contains_def)
  show ?thesis
  proof (cases "n < 4")
    case True
    then have "q = \<lparr> pr_rects = buf[n := r], pr_len = Suc n, pr_collapsed = False \<rparr>"
      using u open_region none keep buf fresh by (simp add: union_rect_into_def Let_def)
    moreover from this have "pr_live q = ?kept @ [r]"
      using True buf by (simp add: pr_live_def take_Suc_conv_app_nth)
    ultimately show ?thesis
      using live r buf True by (auto simp: pr_inv_def pr_cover_def)
  next
    case False
    then have n: "n = 4"
      using buf(2) live(1) length_filter_le [of "\<lambda>e. \<not> dr_contains r e" "pr_live p"] by linarith
    then have "buf = ?kept" using buf by simp
    moreover obtain a rest where "buf = a # rest" using buf(1) by (cases buf) auto
    ultimately have kept: "?kept = a # rest" "buf = a # rest" by simp_all
    have "r \<notin> set (a # rest)" using fresh kept by metis
    then obtain w w' where "fold_opt union_aabb a rest = Some w" "union_aabb w r = Some w'"
        "q = \<lparr> pr_rects = [w', PLACEHOLDER, PLACEHOLDER, PLACEHOLDER], pr_len = 1, pr_collapsed = True \<rparr>"
      using u open_region none keep n buf(1) unfolding kept(2)
      by (auto simp: union_rect_into_def Let_def split: bind_splits)
    with live(2) r show ?thesis
      unfolding kept(1) by (intro collapse_inv) auto
  qed
qed

lemma union_rect_into_inv:
  assumes inv: "pr_inv p" and r: "valid_rect r" and u: "union_rect_into p r = Some q"
  shows "pr_inv q \<and> pr_cover p \<union> dr_px r \<subseteq> pr_cover q"
proof (cases "pr_collapsed p")
  case True
  then obtain a rest where p: "pr_rects p = a # rest" "pr_len p = 1" "length rest = 3" "valid_rect a"
    using inv by (cases "pr_rects p") (auto simp: pr_inv_def pr_live_def)
  then obtain u where "union_aabb a r = Some u" "q = p\<lparr> pr_rects := u # rest \<rparr>"
    using u True by (auto simp: union_rect_into_def split: bind_splits)
  with p r union_aabb_valid [of a r u] True show ?thesis
    by (simp add: pr_inv_def pr_cover_def pr_live_def)
next
  case False
  show ?thesis
  proof (cases "\<exists>e \<in> set (pr_live p). dr_contains e r")
    case True
    with False u have "q = p" by (simp add: union_rect_into_def Let_def)
    with True inv show ?thesis using dr_contains_px by (fastforce simp: pr_cover_def)
  next
    case none: False
    have "pr_cover p \<subseteq> (\<Union>e \<in> set (filter (\<lambda>e. \<not> dr_contains r e) (pr_live p)). dr_px e) \<union> dr_px r"
      using dr_contains_px by (fastforce simp: pr_cover_def)
    with insert_uncovered_inv [OF inv r False none u] show ?thesis by blast
  qed
qed

interpretation region: covering union_rect_into pr_inv valid_rect pr_cover dr_px
  by unfold_locales (use union_rect_into_inv in blast)+

lemma region_union_inv:
  assumes "region_inv a" "region_inv b"
  shows "region_inv (region_union a b) \<and> region_cover a \<union> region_cover b \<subseteq> region_cover (region_union a b)"
proof (cases "(a, b)" rule: prod.exhaust)
  case (Pair a' b')
  show ?thesis
  proof (cases "\<exists>p q. a = Partial p \<and> b = Partial q")
    case True
    then obtain p q where pq: "a = Partial p" "b = Partial q" by blast
    then have inv: "pr_inv p" "\<forall>r \<in> set (pr_live q). valid_rect r"
      using assms by (auto simp: pr_inv_def)
    show ?thesis
      using region.fold_inv [OF inv] region.fold_cover [OF inv]
      by (auto simp: pq region_union_def pr_cover_def [of q] split: option.splits)
  qed (cases a; cases b; simp add: region_union_def)
qed

section \<open>The history implements a list cut at four\<close>

definition history_inv :: "present_history \<Rightarrow> bool" where
  "history_inv s \<longleftrightarrow> length (ph_entries s) = 4 \<and> ph_len s \<le> 4 \<and>
     (\<forall>i < ph_len s. \<exists>r. ph_entries s ! i = Some r \<and> region_inv r)"

definition history_abs :: "present_history \<Rightarrow> damage_region list" where
  "history_abs s = map the (take (ph_len s) (ph_entries s))"

lemma length_shift_entries [simp]: "length (shift_entries n es) = length es"
  by (induction n arbitrary: es) simp_all

lemma shift_entries_nth:
  "n < length es \<Longrightarrow> k < length es \<Longrightarrow>
   shift_entries n es ! k =
     (if 0 < k \<and> k \<le> n then es ! (k - 1) else if k = 0 \<and> 0 < n then None else es ! k)"
proof (induction n arbitrary: es)
  case (Suc n)
  have "k - 1 = n" if "\<not> k \<le> n" "k \<le> Suc n" using that by simp
  with Suc show ?case by (auto simp: nth_list_update)
qed simp

lemma history_push_refines:
  assumes "history_inv s" "region_inv r"
  shows "history_inv (history_push s r) \<and> history_abs (history_push s r) = take 4 (r # history_abs s)"
proof -
  let ?n = "if ph_len s < 4 then ph_len s + 1 else ph_len s"
  let ?es = "(shift_entries (?n - 1) (ph_entries s))[0 := Some r]"
  have s: "length (ph_entries s) = 4" "ph_len s \<le> 4"
      "\<And>i. i < ph_len s \<Longrightarrow> \<exists>r. ph_entries s ! i = Some r \<and> region_inv r"
    using assms(1) by (auto simp: history_inv_def)
  have n: "1 \<le> ?n" "?n \<le> 4" "?n \<le> Suc (ph_len s)" using s(2) by auto
  have at: "?es ! k = (if k = 0 then Some r else ph_entries s ! (k - 1))" if "k < ?n" for k
    using that n s(1) by (auto simp: nth_list_update shift_entries_nth)
  have push: "history_push s r = \<lparr> ph_entries = ?es, ph_len = ?n \<rparr>"
    by (simp add: history_push_def Let_def)
  have "history_inv (history_push s r)"
    unfolding history_inv_def push
    using s n at assms(2) by (auto simp: less_Suc_eq_0_disj)
  moreover have "history_abs (history_push s r) = take 4 (r # history_abs s)"
  proof (rule nth_equalityI)
    show "length (history_abs (history_push s r)) = length (take 4 (r # history_abs s))"
      using s(1,2) by (auto simp: push history_abs_def)
    fix k assume "k < length (history_abs (history_push s r))"
    then have k: "k < ?n" using s(1) by (simp add: push history_abs_def)
    then show "history_abs (history_push s r) ! k = take 4 (r # history_abs s) ! k"
      using at [OF k] s(1) n by (simp add: push history_abs_def nth_Cons split: nat.splits)
  qed
  ultimately show ?thesis ..
qed

lemma history_empty_refines:
  "history_inv history_new" "history_abs history_new = []"
  "history_inv (history_clear s)" "history_abs (history_clear s) = []"
  by (simp_all add: history_inv_def history_abs_def history_new_def history_clear_def)

lemma foldl_union_whole: "foldl region_union WholeSurface rs = WholeSurface"
  by (induction rs) (simp_all add: region_union_def)

lemma repair_from_eq:
  "history_inv s \<Longrightarrow> i + n \<le> ph_len s \<Longrightarrow>
   repair_from s cur i n = Some (foldl region_union cur (take n (drop i (history_abs s))))"
proof (induction n arbitrary: cur i)
  case (Suc n)
  obtain r where r: "ph_entries s ! i = Some r" "i < length (ph_entries s)"
  proof -
    have "i < ph_len s" using Suc.prems(2) by simp
    with Suc.prems(1) that show thesis by (fastforce simp: history_inv_def)
  qed
  have "drop i (history_abs s) = r # drop (Suc i) (history_abs s)"
    using Suc.prems r by (simp add: history_abs_def history_inv_def Cons_nth_drop_Suc [symmetric])
  with Suc r show ?case
    by (simp add: is_full_surface_def foldl_union_whole Let_def)
qed simp

lemma foldl_union_inv:
  "region_inv cur \<Longrightarrow> \<forall>r \<in> set rs. region_inv r \<Longrightarrow>
   region_inv (foldl region_union cur rs) \<and>
   region_cover cur \<union> (\<Union>r \<in> set rs. region_cover r) \<subseteq> region_cover (foldl region_union cur rs)"
proof (induction rs arbitrary: cur)
  case (Cons r rs)
  then have step: "region_inv (region_union cur r)"
      "region_cover cur \<union> region_cover r \<subseteq> region_cover (region_union cur r)"
    using region_union_inv [of cur r] by simp_all
  with Cons.IH [OF step(1)] Cons.prems(2) show ?case by auto
qed simp

lemma history_abs_inv: "history_inv s \<Longrightarrow> r \<in> set (history_abs s) \<Longrightarrow> region_inv r"
  by (fastforce simp: history_inv_def history_abs_def in_set_conv_nth)

lemma resolve_with_age_eq:
  assumes "history_inv s"
  shows "resolve_with_age s cur age =
     Some (if age \<le> 0 \<or> (age \<noteq> 1 \<and> length (history_abs s) < nat (age - 1)) then WholeSurface
           else foldl region_union cur (take (nat (age - 1)) (history_abs s)))"
  using assms repair_from_eq [OF assms, of 0 "nat (age - 1)" cur]
  by (auto simp: resolve_with_age_def Let_def history_abs_def history_inv_def)

text \<open>
  The fixed array of presented regions implements a list, newest first, cut
  at four: recording a region is consing and cutting, clearing is the empty list,
  and the repair region for a buffer of a given age never panics and is the union
  of the current region with the newest \<open>age - 1\<close> entries, or the whole surface
  when the age is unknown or reaches further back than the list does.
\<close>

lemma history_refines_list:
  assumes "history_inv s" "region_inv r"
  shows "history_inv (history_push s r) \<and>
    history_abs (history_push s r) = take 4 (r # history_abs s) \<and>
    history_inv (history_clear s) \<and> history_abs (history_clear s) = [] \<and>
    resolve_with_age s cur age =
     Some (if age \<le> 0 \<or> (age \<noteq> 1 \<and> length (history_abs s) < nat (age - 1)) then WholeSurface
           else foldl region_union cur (take (nat (age - 1)) (history_abs s)))"
  using history_push_refines [OF assms] history_empty_refines resolve_with_age_eq [OF assms(1)]
  by blast

definition demo_rect :: damage_rect where
  "demo_rect = \<lparr> dg_x = 8, dg_y = 8, dg_width = 4, dg_height = 2 \<rparr>"

lemma history_refines_list_witness:
  "let s = history_push history_new (region_from_rect demo_rect); r = WholeSurface;
       cur = region_from_rect PLACEHOLDER
   in history_inv (history_push s r) \<and> history_abs (history_push s r) = take 4 (r # history_abs s) \<and>
      history_inv (history_clear s) \<and> history_abs (history_clear s) = [] \<and>
      resolve_with_age s cur 2 =
        Some (if (2 :: i32) \<le> 0 \<or> ((2 :: i32) \<noteq> 1 \<and> length (history_abs s) < nat (2 - 1))
              then WholeSurface
              else foldl region_union cur (take (nat (2 - 1)) (history_abs s))) \<and>
      resolve_with_age s cur 2 \<noteq> Some WholeSurface"
proof -
  let ?s = "history_push history_new (region_from_rect demo_rect)"
  have "region_inv (region_from_rect demo_rect)" by code_simp
  then have "history_inv ?s"
    using history_push_refines [OF history_empty_refines(1)] by blast
  note main = history_refines_list [OF this, of WholeSurface "region_from_rect PLACEHOLDER" 2]
  have "resolve_with_age ?s (region_from_rect PLACEHOLDER) 2 \<noteq> Some WholeSurface" by code_simp
  with main show ?thesis unfolding Let_def by simp
qed

section \<open>Only well-formed regions are built\<close>

text \<open>The ways code outside the module can come by a region.\<close>

inductive built_region :: "damage_region \<Rightarrow> bool" where
  built_whole: "built_region WholeSurface"
| built_rect: "i32_ok x \<Longrightarrow> i32_ok y \<Longrightarrow> damage_rect_new x y w h = Some r \<Longrightarrow>
    built_region (region_from_rect r)"
| built_union: "built_region a \<Longrightarrow> built_region b \<Longrightarrow> built_region (region_union a b)"

lemma built_region_inv: "built_region r \<Longrightarrow> region_inv r"
proof (induction rule: built_region.induct)
  case (built_rect x y w h r)
  then show ?case
    using damage_rect_new_valid pr_inv_single by (simp add: region_from_rect_def)
qed (use region_union_inv in \<open>simp_all\<close>)

text \<open>
  C37. A damage rectangle exists only with a valid geometry: whatever regions are
  built by the constructors and unions of the module, a partial one has one to
  four rectangles, all with positive extent and with right and top edges that are
  \<open>i32\<close> values (so the accessors' plain additions cannot overflow), and one that
  has been collapsed has exactly one.
\<close>

theorem built_regions_are_well_formed:
  assumes "built_region (Partial p)"
  shows "1 \<le> length (pr_live p) \<and> length (pr_live p) \<le> 4 \<and>
    (\<forall>r \<in> set (pr_live p). 0 < dg_width r \<and> 0 < dg_height r \<and>
       i32_add Checked (dg_x r) (dg_width r) = Some (dr_right r) \<and>
       i32_add Checked (dg_y r) (dg_height r) = Some (dr_top r)) \<and>
    (pr_collapsed p \<longrightarrow> length (pr_live p) = 1)"
proof -
  have inv: "pr_inv p" using built_region_inv [OF assms] by simp
  moreover have "length (pr_live p) = pr_len p" using inv by (simp add: pr_inv_def pr_live_def)
  ultimately show ?thesis
    by (auto simp: pr_inv_def valid_rect_def dr_right_def dr_top_def)
qed

theorem built_regions_are_well_formed_witness:
  "\<exists>p. region_union (region_from_rect demo_rect) (region_from_rect PLACEHOLDER) = Partial p \<and>
     (\<forall>r \<in> set (pr_live p). i32_add Checked (dg_x r) (dg_width r) = Some (dr_right r)) \<and>
     length (pr_live p) = 2"
proof -
  have eq: "region_union (region_from_rect demo_rect) (region_from_rect PLACEHOLDER) =
      Partial \<lparr> pr_rects = [demo_rect, PLACEHOLDER, PLACEHOLDER, PLACEHOLDER], pr_len = 2,
                pr_collapsed = False \<rparr>"
    by code_simp
  have "built_region (region_from_rect demo_rect)"
    by (rule built_rect [of 8 8 4 2]) (simp_all add: i32_ok_def damage_rect_new_def demo_rect_def)
  moreover have "built_region (region_from_rect PLACEHOLDER)"
    by (rule built_rect [of 0 0 1 1]) (simp_all add: i32_ok_def damage_rect_new_def PLACEHOLDER_def)
  ultimately have "built_region (Partial \<lparr> pr_rects = [demo_rect, PLACEHOLDER, PLACEHOLDER, PLACEHOLDER],
      pr_len = 2, pr_collapsed = False \<rparr>)"
    unfolding eq [symmetric] by (rule built_union)
  from built_regions_are_well_formed [OF this] show ?thesis
    unfolding eq by (simp add: pr_live_def)
qed

end
