(* ===== verification/Presentation.thy ===== *)
theory Presentation
  imports Present_Damage
begin

text \<open>
  The presentation path of \<open>CanvasManager\<close>: the plan for a canvas, the damage
  declared to the compositor, the swap, and the bookkeeping after it. What EGL
  and the driver answer is an argument.

  The pixels are modelled next to it: a window has the pictures it has shown, a
  drawing buffer has the current one, and a blit copies what the plan says.
\<close>

section \<open>Planning\<close>

record canvas_entry =
  ce_physical_width :: u32
  ce_physical_height :: u32
  ce_drawing_buffer :: "(u32 \<times> u32) option"
  ce_has_surface :: bool
  ce_bypass :: bool

datatype egl_error =
    EglContextLost | EglBadCurrentSurface | EglBadSurface | EglBadNativeWindow | EglBadDisplay
  | EglOther


datatype egl_swap_failure_class = ContextLost | SurfaceLost | OtherFailure

definition classify_egl_swap_failure :: "egl_error \<Rightarrow> egl_swap_failure_class" where
  "classify_egl_swap_failure e = (case e of
     EglContextLost \<Rightarrow> ContextLost
   | EglBadCurrentSurface \<Rightarrow> SurfaceLost
   | EglBadSurface \<Rightarrow> SurfaceLost
   | EglBadNativeWindow \<Rightarrow> SurfaceLost
   | EglBadDisplay \<Rightarrow> SurfaceLost
   | EglOther \<Rightarrow> OtherFailure)"







section \<open>Swapping\<close>




record canvas_manager =
  cm_canvases :: "u32 \<rightharpoonup> canvas_entry"
  cm_damage :: frame_damage
  cm_history :: present_history
  cm_pending :: "(u32 \<times> present_plan) option"
  cm_swap_with_damage_rejected :: bool
  cm_context_lost :: bool
  cm_surface_unavailable :: bool
  cm_last_swap_interval :: i32






definition note_swap_failure :: "canvas_manager \<Rightarrow> egl_error \<Rightarrow> canvas_manager" where
  "note_swap_failure cm e = (case classify_egl_swap_failure e of
     ContextLost \<Rightarrow> cm\<lparr> cm_context_lost := True \<rparr>
   | SurfaceLost \<Rightarrow> cm\<lparr> cm_surface_unavailable := True \<rparr>
   | OtherFailure \<Rightarrow> cm)"


section \<open>Pictures\<close>









section \<open>The current region covers the frame's damage\<close>



section \<open>The plan\<close>


section \<open>Partial presentation shows what a full copy would\<close>







section \<open>Every run keeps the books\<close>



lemma note_swap_failure_fields [simp]:
  "cm_canvases (note_swap_failure cm e) = cm_canvases cm"
  "cm_damage (note_swap_failure cm e) = cm_damage cm"
  "cm_history (note_swap_failure cm e) = cm_history cm"
  by (simp_all add: note_swap_failure_def split: egl_swap_failure_class.splits)



lemma fd_reset_inv [simp]: "fd_inv (fd_reset d)" "fd_cover (fd_reset d) = {}"
  by (simp_all add: fd_reset_def fd_inv_def fd_cover_def)

lemma fd_full_inv [simp]:
  "fd_inv ((fd_reset d)\<lparr> fd_force_full := True \<rparr>)" "fd_cover (d\<lparr> fd_force_full := True \<rparr>) = UNIV"
  by (simp_all add: fd_reset_def fd_inv_def fd_cover_def)

















end
