(* ===== verification/Canvas_Keyed.thy ===== *)
theory Canvas_Keyed
  imports Vectors
begin

text \<open>
  The per-canvas table of the render thread (\<open>graphics/src/canvas_keyed.rs\<close>): a vector
  of entries, scanned linearly, with the index of the entry the previous lookup
  found as a memo. A reference handed out for mutation is an update function that
  the caller applies; an index out of range is a panic.
\<close>

type_synonym canvas_id = u32

record 'v canvas_keyed =
  ck_entries :: "(canvas_id \<times> 'v) list"
  ck_hot :: nat

definition ck_default :: "'v canvas_keyed" where
  "ck_default = \<lparr> ck_entries = [], ck_hot = 0 \<rparr>"

definition hot_hit :: "'v canvas_keyed \<Rightarrow> canvas_id \<Rightarrow> bool" where
  "hot_hit t c \<longleftrightarrow> ck_hot t < length (ck_entries t) \<and> fst (ck_entries t ! ck_hot t) = c"

fun key_position :: "canvas_id \<Rightarrow> (canvas_id \<times> 'v) list \<Rightarrow> nat option" where
  "key_position c [] = None"
| "key_position c ((k, v) # es) = (if k = c then Some 0 else map_option Suc (key_position c es))"

definition ck_get :: "'v canvas_keyed \<Rightarrow> canvas_id \<Rightarrow> 'v option" where
  "ck_get t c =
     (if hot_hit t c then Some (snd (ck_entries t ! ck_hot t))
      else map_option snd (List.find (\<lambda>e. fst e = c) (ck_entries t)))"

text \<open>\<open>&mut self.entries[i].1\<close>: reads the entry and writes what the caller leaves in it.\<close>

definition entry_mut :: "'v canvas_keyed \<Rightarrow> nat \<Rightarrow> ('v \<Rightarrow> 'v) \<Rightarrow> ('v \<times> 'v canvas_keyed) option" where
  "entry_mut t i f =
     (if i < length (ck_entries t)
      then (let (k, v) = ck_entries t ! i in
            Some (v, t\<lparr> ck_entries := (ck_entries t)[i := (k, f v)] \<rparr>))
      else Panic)"

definition ck_get_mut :: "'v canvas_keyed \<Rightarrow> canvas_id \<Rightarrow> ('v \<Rightarrow> 'v) \<Rightarrow> ('v option \<times> 'v canvas_keyed) option" where
  "ck_get_mut t c f =
     (if hot_hit t c then map_option (\<lambda>(v, t'). (Some v, t')) (entry_mut t (ck_hot t) f)
      else case key_position c (ck_entries t) of
        None \<Rightarrow> Some (None, t)
      | Some pos \<Rightarrow> map_option (\<lambda>(v, t'). (Some v, t')) (entry_mut (t\<lparr> ck_hot := pos \<rparr>) pos f))"

definition ck_contains_key :: "'v canvas_keyed \<Rightarrow> canvas_id \<Rightarrow> bool" where
  "ck_contains_key t c = list_ex (\<lambda>e. fst e = c) (ck_entries t)"

definition ck_insert :: "'v canvas_keyed \<Rightarrow> canvas_id \<Rightarrow> 'v \<Rightarrow> 'v option \<times> 'v canvas_keyed" where
  "ck_insert t c v = (case key_position c (ck_entries t) of
     Some pos \<Rightarrow> (Some (snd (ck_entries t ! pos)), t\<lparr> ck_entries := (ck_entries t)[pos := (c, v)] \<rparr>)
   | None \<Rightarrow> (None, t\<lparr> ck_entries := ck_entries t @ [(c, v)] \<rparr>))"

definition ck_remove :: "'v canvas_keyed \<Rightarrow> canvas_id \<Rightarrow> 'v option \<times> 'v canvas_keyed" where
  "ck_remove t c = (case key_position c (ck_entries t) of
     None \<Rightarrow> (None, t)
   | Some pos \<Rightarrow> (Some (snd (ck_entries t ! pos)),
       t\<lparr> ck_entries := swap_remove (ck_entries t) pos, ck_hot := 0 \<rparr>))"

definition ck_values_mut :: "'v canvas_keyed \<Rightarrow> ('v \<Rightarrow> 'v) \<Rightarrow> 'v canvas_keyed" where
  "ck_values_mut t f = t\<lparr> ck_entries := map (\<lambda>(k, v). (k, f v)) (ck_entries t) \<rparr>"

definition ck_clear :: "'v canvas_keyed \<Rightarrow> 'v canvas_keyed" where
  "ck_clear t = t\<lparr> ck_entries := [], ck_hot := 0 \<rparr>"

definition ck_drain :: "'v canvas_keyed \<Rightarrow> (canvas_id \<times> 'v) list \<times> 'v canvas_keyed" where
  "ck_drain t = (ck_entries t, t\<lparr> ck_entries := [], ck_hot := 0 \<rparr>)"

definition ck_resolve :: "'v \<Rightarrow> 'v canvas_keyed \<Rightarrow> canvas_id \<Rightarrow> ('v \<Rightarrow> 'v) \<Rightarrow> ('v \<times> 'v canvas_keyed) option" where
  "ck_resolve d t c f =
     (let t' = (case key_position c (ck_entries t) of
        Some pos \<Rightarrow> t\<lparr> ck_hot := pos \<rparr>
      | None \<Rightarrow> t\<lparr> ck_entries := ck_entries t @ [(c, d)], ck_hot := length (ck_entries t) \<rparr>)
      in entry_mut t' (ck_hot t') f)"

definition ck_value_mut :: "'v \<Rightarrow> 'v canvas_keyed \<Rightarrow> canvas_id \<Rightarrow> ('v \<Rightarrow> 'v) \<Rightarrow> ('v \<times> 'v canvas_keyed) option" where
  "ck_value_mut d t c f = (if hot_hit t c then entry_mut t (ck_hot t) f else ck_resolve d t c f)"

section \<open>The table and the map it stands for\<close>

definition ck_map :: "'v canvas_keyed \<Rightarrow> canvas_id \<Rightarrow> 'v option" where
  "ck_map t = map_of (ck_entries t)"

definition ck_inv :: "'v canvas_keyed \<Rightarrow> bool" where
  "ck_inv t \<longleftrightarrow> distinct (map fst (ck_entries t))"

lemma key_position_Some:
  "key_position c es = Some i \<Longrightarrow> i < length es \<and> fst (es ! i) = c"
  by (induction es arbitrary: i) (auto split: if_splits)

lemma key_position_None: "key_position c es = None \<longleftrightarrow> map_of es c = None"
proof (induction es)
  case (Cons e es)
  then show ?case by (cases e) simp
qed simp

lemma map_of_append_entry: "map_of es c = None \<Longrightarrow> map_of (es @ [(c, v)]) = (map_of es)(c \<mapsto> v)"
  by (auto simp: map_add_def fun_eq_iff split: option.splits)

lemma map_of_entry:
  "distinct (map fst es) \<Longrightarrow> i < length es \<Longrightarrow> map_of es (fst (es ! i)) = Some (snd (es ! i))"
  by (metis map_of_is_SomeI nth_mem prod.collapse)

lemma map_of_entry_update:
  assumes "distinct (map fst es)" "i < length es"
  shows "map_of (es[i := (fst (es ! i), v)]) = (map_of es)(fst (es ! i) \<mapsto> v)"
  using assms
proof (induction es arbitrary: i)
  case (Cons e es)
  show ?case
  proof (cases i)
    case (Suc j)
    have "fst (es ! j) \<noteq> fst e" using Cons.prems Suc by (metis distinct.simps(2) list.simps(9) nth_map nth_mem length_Cons
          length_map Suc_less_eq)
    with Cons.IH [of j] Cons.prems Suc show ?thesis by (cases e) (auto simp: fun_upd_twist)
  qed (cases e, auto simp: fun_eq_iff)
qed simp

lemma keys_entry_update: "i < length es \<Longrightarrow> map fst (es[i := (fst (es ! i), v)]) = map fst es"
  by (metis fst_conv list_update_id map_update nth_map)

lemma hot_hit_entry: "hot_hit t c \<Longrightarrow> ck_inv t \<Longrightarrow> ck_map t c = Some (snd (ck_entries t ! ck_hot t))"
  using map_of_entry [of "ck_entries t" "ck_hot t"] by (auto simp: hot_hit_def ck_inv_def ck_map_def)

lemma find_map_of: "map_option snd (List.find (\<lambda>e. fst e = c) es) = map_of es c"
  by (induction es) auto

lemma ck_get_correct: "ck_inv t \<Longrightarrow> ck_get t c = ck_map t c"
  by (simp add: ck_get_def hot_hit_entry find_map_of) (simp add: ck_map_def)

text \<open>Writing through a found index is writing the key's value in the map.\<close>

lemma entry_mut_correct:
  assumes "ck_inv t" "i < length (ck_entries t)" "fst (ck_entries t ! i) = c"
  shows "\<exists>v t'. entry_mut t i f = Some (v, t') \<and> ck_map t c = Some v \<and> ck_inv t' \<and> ck_map t' = (ck_map t)(c \<mapsto> f v)"
proof -
  obtain v where v: "ck_entries t ! i = (c, v)" using assms(3) by (cases "ck_entries t ! i") auto
  have d: "distinct (map fst (ck_entries t))" using assms(1) by (simp add: ck_inv_def)
  show ?thesis
    using map_of_entry [OF d assms(2)] map_of_entry_update [OF d assms(2), of "f v"] keys_entry_update [OF assms(2), of "f v"] assms(2) d
    by (simp add: entry_mut_def ck_map_def ck_inv_def v)
qed

lemma ck_value_mut_correct:
  fixes c d
  assumes "ck_inv t"
  defines "v \<equiv> (case ck_map t c of None \<Rightarrow> d | Some v \<Rightarrow> v)"
  shows "\<exists>t'. ck_value_mut d t c f = Some (v, t') \<and> ck_inv t' \<and> ck_map t' = (ck_map t)(c \<mapsto> f v)"
proof (cases "hot_hit t c")
  case True
  with entry_mut_correct [OF assms(1), of "ck_hot t" c f] show ?thesis
    by (auto simp: ck_value_mut_def hot_hit_def v_def)
next
  case miss: False
  show ?thesis
  proof (cases "key_position c (ck_entries t)")
    case None
    let ?t = "t\<lparr> ck_entries := ck_entries t @ [(c, d)], ck_hot := length (ck_entries t) \<rparr>"
    have c: "map_of (ck_entries t) c = None" using None by (simp add: key_position_None)
    then have "ck_map t c = None" by (simp add: ck_map_def)
    moreover have "ck_inv ?t" "ck_map ?t = (ck_map t)(c \<mapsto> d)"
      using assms(1) c map_of_append_entry [OF c, of d]
      by (simp_all add: ck_inv_def ck_map_def map_of_eq_None_iff del: map_of_append)
    ultimately show ?thesis
      using entry_mut_correct [of ?t "length (ck_entries t)" c f] miss None
      by (auto simp: ck_value_mut_def ck_resolve_def v_def)
  next
    case (Some pos)
    have "ck_inv (t\<lparr> ck_hot := pos \<rparr>)" "ck_map (t\<lparr> ck_hot := pos \<rparr>) = ck_map t"
      using assms(1) by (simp_all add: ck_inv_def ck_map_def)
    with entry_mut_correct [of "t\<lparr> ck_hot := pos \<rparr>" pos c f] key_position_Some [OF Some] miss Some show ?thesis
      by (auto simp: ck_value_mut_def ck_resolve_def v_def)
  qed
qed

lemma ck_get_mut_correct:
  assumes "ck_inv t"
  shows "\<exists>t'. ck_get_mut t c f = Some (ck_map t c, t') \<and> ck_inv t' \<and>
    ck_map t' = (case ck_map t c of None \<Rightarrow> ck_map t | Some v \<Rightarrow> (ck_map t)(c \<mapsto> f v))"
proof (cases "hot_hit t c")
  case True
  with entry_mut_correct [OF assms(1), of "ck_hot t" c f] show ?thesis
    by (auto simp: ck_get_mut_def hot_hit_def)
next
  case miss: False
  show ?thesis
  proof (cases "key_position c (ck_entries t)")
    case None
    then have "ck_map t c = None" by (simp add: ck_map_def key_position_None)
    with miss None assms show ?thesis by (simp add: ck_get_mut_def)
  next
    case (Some pos)
    have "ck_inv (t\<lparr> ck_hot := pos \<rparr>)" "ck_map (t\<lparr> ck_hot := pos \<rparr>) = ck_map t"
      using assms(1) by (simp_all add: ck_inv_def ck_map_def)
    with entry_mut_correct [of "t\<lparr> ck_hot := pos \<rparr>" pos c f] key_position_Some [OF Some] miss Some show ?thesis
      by (auto simp: ck_get_mut_def)
  qed
qed

lemma ck_insert_correct:
  assumes "ck_inv t"
  shows "fst (ck_insert t c v) = ck_map t c \<and> ck_inv (snd (ck_insert t c v)) \<and>
    ck_map (snd (ck_insert t c v)) = (ck_map t)(c \<mapsto> v)"
proof (cases "key_position c (ck_entries t)")
  case None
  then have c: "map_of (ck_entries t) c = None" by (simp add: key_position_None)
  then have "c \<notin> fst ` set (ck_entries t)" by (simp add: map_of_eq_None_iff)
  with assms None c map_of_append_entry [OF c, of v] show ?thesis
    by (simp add: ck_insert_def ck_map_def ck_inv_def del: map_of_append)
next
  case (Some pos)
  note p = key_position_Some [OF Some]
  have d: "distinct (map fst (ck_entries t))" using assms by (simp add: ck_inv_def)
  with map_of_entry [OF d] map_of_entry_update [OF d, of pos v] keys_entry_update [of pos "ck_entries t" v] p Some
  show ?thesis by (auto simp: ck_insert_def ck_map_def ck_inv_def)
qed

lemma map_of_swap_remove:
  assumes d: "distinct (map fst es)" and i: "i < length es"
  shows "distinct (map fst (swap_remove es i)) \<and> map_of (swap_remove es i) = (map_of es)(fst (es ! i) := None)"
proof -
  let ?e = "es ! i" and ?r = "swap_remove es i"
  have m: "mset es = add_mset ?e (mset ?r)"
    using mset_swap_remove [OF i] by simp
  then have "mset (map fst es) = add_mset (fst ?e) (mset (map fst ?r))" by simp
  then have keys: "distinct (fst ?e # map fst ?r)"
    using d by (metis mset.simps(2) mset_eq_imp_distinct_iff)
  have "set es = insert ?e (set ?r)" using m by (metis set_mset_add_mset_insert set_mset_mset)
  then have "(k, v) \<in> set ?r \<longleftrightarrow> (k, v) \<in> set es \<and> k \<noteq> fst ?e" for k v
    using keys by (auto simp: image_iff) (metis fst_conv)+
  then have "map_of ?r k = Some v \<longleftrightarrow> ((map_of es)(fst ?e := None)) k = Some v" for k v
    using d keys by (auto simp: map_of_eq_Some_iff)
  then have "map_of ?r = (map_of es)(fst ?e := None)" by (metis ext not_Some_eq)
  with keys show ?thesis by simp
qed

lemma ck_remove_correct:
  assumes "ck_inv t"
  shows "fst (ck_remove t c) = ck_map t c \<and> ck_inv (snd (ck_remove t c)) \<and>
    ck_map (snd (ck_remove t c)) = (ck_map t)(c := None)"
proof (cases "key_position c (ck_entries t)")
  case None
  then have "ck_map t c = None" by (simp add: ck_map_def key_position_None)
  with assms None show ?thesis by (auto simp: ck_remove_def)
next
  case (Some pos)
  note p = key_position_Some [OF Some]
  have d: "distinct (map fst (ck_entries t))" using assms by (simp add: ck_inv_def)
  with map_of_entry [OF d] map_of_swap_remove [OF d, of pos] p Some show ?thesis
    by (auto simp: ck_remove_def ck_map_def ck_inv_def)
qed

section \<open>Refinement of a map\<close>

datatype 'v ck_op =
    CkGet canvas_id
  | CkGetMut canvas_id "'v \<Rightarrow> 'v"
  | CkContains canvas_id
  | CkInsert canvas_id 'v
  | CkRemove canvas_id
  | CkEntry canvas_id "'v \<Rightarrow> 'v"
  | CkValuesMut "'v \<Rightarrow> 'v"
  | CkClear
  | CkDrain

datatype ('v, 't) ck_out = OutValue "'v option" | OutBool bool | OutNothing | OutAll 't

definition ck_step ::
  "'v \<Rightarrow> 'v canvas_keyed \<Rightarrow> 'v ck_op \<Rightarrow> (('v, (canvas_id \<times> 'v) list) ck_out \<times> 'v canvas_keyed) option" where
  "ck_step d t op = (case op of
     CkGet c \<Rightarrow> Some (OutValue (ck_get t c), t)
   | CkGetMut c f \<Rightarrow> map_option (\<lambda>(r, t'). (OutValue r, t')) (ck_get_mut t c f)
   | CkContains c \<Rightarrow> Some (OutBool (ck_contains_key t c), t)
   | CkInsert c v \<Rightarrow> Some (OutValue (fst (ck_insert t c v)), snd (ck_insert t c v))
   | CkRemove c \<Rightarrow> Some (OutValue (fst (ck_remove t c)), snd (ck_remove t c))
   | CkEntry c f \<Rightarrow> map_option (\<lambda>(v, t'). (OutValue (Some v), t')) (ck_value_mut d t c f)
   | CkValuesMut f \<Rightarrow> Some (OutNothing, ck_values_mut t f)
   | CkClear \<Rightarrow> Some (OutNothing, ck_clear t)
   | CkDrain \<Rightarrow> Some (OutAll (fst (ck_drain t)), snd (ck_drain t)))"

text \<open>The contract: a finite map from canvases to values, with no memo and no order.\<close>

definition map_step ::
  "'v \<Rightarrow> (canvas_id \<Rightarrow> 'v option) \<Rightarrow> 'v ck_op \<Rightarrow> ('v, canvas_id \<Rightarrow> 'v option) ck_out \<times> (canvas_id \<Rightarrow> 'v option)" where
  "map_step d m op = (case op of
     CkGet c \<Rightarrow> (OutValue (m c), m)
   | CkGetMut c f \<Rightarrow> (OutValue (m c), case m c of None \<Rightarrow> m | Some v \<Rightarrow> m(c \<mapsto> f v))
   | CkContains c \<Rightarrow> (OutBool (m c \<noteq> None), m)
   | CkInsert c v \<Rightarrow> (OutValue (m c), m(c \<mapsto> v))
   | CkRemove c \<Rightarrow> (OutValue (m c), m(c := None))
   | CkEntry c f \<Rightarrow> (let v = (case m c of None \<Rightarrow> d | Some v \<Rightarrow> v) in (OutValue (Some v), m(c \<mapsto> f v)))
   | CkValuesMut f \<Rightarrow> (OutNothing, \<lambda>c. map_option f (m c))
   | CkClear \<Rightarrow> (OutNothing, \<lambda>_. None)
   | CkDrain \<Rightarrow> (OutAll m, \<lambda>_. None))"

fun ck_run :: "'v \<Rightarrow> 'v canvas_keyed \<Rightarrow> 'v ck_op list \<Rightarrow>
    (('v, (canvas_id \<times> 'v) list) ck_out list \<times> 'v canvas_keyed) option" where
  "ck_run d t [] = Some ([], t)"
| "ck_run d t (op # ops) = (case ck_step d t op of
     None \<Rightarrow> Panic
   | Some (out, t') \<Rightarrow> map_option (\<lambda>(outs, t''). (out # outs, t'')) (ck_run d t' ops))"

fun map_run :: "'v \<Rightarrow> (canvas_id \<Rightarrow> 'v option) \<Rightarrow> 'v ck_op list \<Rightarrow>
    ('v, canvas_id \<Rightarrow> 'v option) ck_out list \<times> (canvas_id \<Rightarrow> 'v option)" where
  "map_run d m [] = ([], m)"
| "map_run d m (op # ops) = (let (out, m') = map_step d m op; (outs, m'') = map_run d m' ops in (out # outs, m''))"

definition abs_out :: "('v, (canvas_id \<times> 'v) list) ck_out \<Rightarrow> ('v, canvas_id \<Rightarrow> 'v option) ck_out" where
  "abs_out out = (case out of
     OutValue v \<Rightarrow> OutValue v | OutBool b \<Rightarrow> OutBool b | OutNothing \<Rightarrow> OutNothing | OutAll es \<Rightarrow> OutAll (map_of es))"

lemma abs_out_simps [simp]:
  "abs_out (OutValue v) = OutValue v" "abs_out (OutBool b) = OutBool b"
  "abs_out OutNothing = OutNothing" "abs_out (OutAll es) = OutAll (map_of es)"
  by (simp_all add: abs_out_def)

lemma ck_contains_correct: "ck_contains_key t c \<longleftrightarrow> ck_map t c \<noteq> None"
  by (auto simp: ck_contains_key_def ck_map_def list_ex_iff map_of_eq_None_iff image_iff)

lemma ck_values_mut_correct: "ck_map (ck_values_mut t f) = (\<lambda>c. map_option f (ck_map t c)) \<and> ck_inv (ck_values_mut t f) = ck_inv t"
proof -
  have "map_of (map (\<lambda>(k, v). (k, f v)) es) = (\<lambda>c. map_option f (map_of es c))" for es :: "(canvas_id \<times> 'a) list"
    by (induction es) (auto simp: fun_eq_iff)
  moreover have "map fst (map (\<lambda>(k, v). (k, f v)) es) = map fst es" for es :: "(canvas_id \<times> 'a) list"
    by (induction es) auto
  ultimately show ?thesis by (simp add: ck_values_mut_def ck_map_def ck_inv_def del: map_map)
qed

lemma ck_step_refines:
  assumes "ck_inv t"
  shows "\<exists>out t'. ck_step d t op = Some (out, t') \<and> ck_inv t' \<and>
    map_step d (ck_map t) op = (abs_out out, ck_map t')"
proof (cases op)
  case (CkGetMut c f)
  with ck_get_mut_correct [OF assms, of c f] show ?thesis by (auto simp: ck_step_def map_step_def)
next
  case (CkEntry c f)
  with ck_value_mut_correct [OF assms, of d c f] show ?thesis by (auto simp: ck_step_def map_step_def Let_def)
next
  case CkClear
  then show ?thesis by (simp add: ck_step_def map_step_def ck_clear_def ck_inv_def ck_map_def fun_eq_iff)
next
  case CkDrain
  then show ?thesis by (simp add: ck_step_def map_step_def ck_drain_def ck_inv_def ck_map_def fun_eq_iff)
qed (use assms ck_get_correct [OF assms] ck_insert_correct [OF assms] ck_remove_correct [OF assms]
      ck_contains_correct [of t] ck_values_mut_correct [of t]
     in \<open>simp_all add: ck_step_def map_step_def\<close>)

text \<open>
  C28. Whatever operations run on a fresh table, none indexes out of range, and every
  answer is the one a plain map from canvases to values would have given: the
  memo of the previous lookup and the order of the entries are never observable.
\<close>

theorem canvas_table_refines_map:
  "\<exists>outs t. ck_run d ck_default ops = Some (outs, t) \<and>
     map_run d (\<lambda>_. None) ops = (map abs_out outs, ck_map t)"
proof -
  have "\<exists>outs t'. ck_run d t ops = Some (outs, t') \<and> map_run d (ck_map t) ops = (map abs_out outs, ck_map t')"
    if "ck_inv t" for t
    using that
  proof (induction ops arbitrary: t)
    case (Cons op ops)
    obtain out t' where s: "ck_step d t op = Some (out, t')" "ck_inv t'"
        "map_step d (ck_map t) op = (abs_out out, ck_map t')"
      using ck_step_refines [OF Cons.prems] by blast
    with Cons.IH [OF s(2)] show ?case by auto
  qed simp
  from this [of ck_default] show ?thesis by (simp add: ck_default_def ck_inv_def ck_map_def)
qed

end
