(* ===== verification/Gl_Shadow.thy ===== *)
theory Gl_Shadow
  imports Canvas_Keyed Render_Commands "HOL-Library.AList"
begin

text \<open>
  The shadows of driver state that the renderer keeps per canvas
  (\<open>graphics/src/canvas/manager/types.rs\<close>, \<open>backend/gl/uniform_cache.rs\<close>). Each records
  the last value written to a family of driver slots; its update answers whether the
  driver call has to be issued. The locale \<open>write_shadow\<close> is their contract: an update
  keeps the shadow in agreement with the slots, and a call that is not issued would
  have changed nothing.
\<close>

unbundle bit_operations_syntax

section \<open>The contract\<close>

locale write_shadow =
  fixes update :: "'c \<Rightarrow> 's \<Rightarrow> bool \<times> 's"
    and put :: "'c \<Rightarrow> 'd \<Rightarrow> 'd"
    and agrees :: "'s \<Rightarrow> 'd \<Rightarrow> bool"
  assumes update_agrees: "agrees s d \<Longrightarrow> agrees (snd (update c s)) (put c d)"
    and skipped_is_redundant: "agrees s d \<Longrightarrow> \<not> fst (update c s) \<Longrightarrow> put c d = d"
begin

definition dedup :: "'c \<Rightarrow> 's \<times> 'd \<Rightarrow> 's \<times> 'd" where
  "dedup c = (\<lambda>(s, d). (snd (update c s), if fst (update c s) then put c d else d))"

lemma dedup_exact:
  assumes "agrees s d"
  shows "\<exists>s'. fold dedup cs (s, d) = (s', fold put cs d) \<and> agrees s' (fold put cs d)"
  using assms
proof (induction cs arbitrary: s d)
  case (Cons c cs)
  have "dedup c (s, d) = (snd (update c s), put c d)"
    using skipped_is_redundant [OF Cons.prems] by (simp add: dedup_def)
  with Cons.IH [OF update_agrees [OF Cons.prems, of c]] show ?case by simp
qed simp

end

section \<open>A single slot\<close>

text \<open>
  The comparison and store that every scalar setter and the \<open>dedup_slot\<close> macro do.
  \<open>eq\<close> is the type's \<open>PartialEq\<close>. The driver holds what a value stands for: a native
  handle for a client name, a number for the bits of a float.
\<close>

definition dedup_slot :: "('a \<Rightarrow> 'a \<Rightarrow> bool) \<Rightarrow> 'a \<Rightarrow> 'a option \<Rightarrow> bool \<times> 'a option" where
  "dedup_slot eq new slot =
     (if (case slot of None \<Rightarrow> False | Some old \<Rightarrow> eq old new) then (False, slot) else (True, Some new))"

definition slot_agrees :: "('a \<Rightarrow> 'b) \<Rightarrow> 'a option \<Rightarrow> 'b \<Rightarrow> bool" where
  "slot_agrees native slot v \<longleftrightarrow> (\<forall>x. slot = Some x \<longrightarrow> v = native x)"

lemma slot_agrees_simps [simp]:
  "slot_agrees native None v" "slot_agrees native (Some x) v \<longleftrightarrow> v = native x"
  by (auto simp: slot_agrees_def)

lemma dedup_slot_laws:
  assumes "\<And>x y. eq x y \<Longrightarrow> native x = native y" "slot_agrees native slot v"
  shows "slot_agrees native (snd (dedup_slot eq new slot)) (native new)"
    and "\<not> fst (dedup_slot eq new slot) \<Longrightarrow> v = native new"
  using assms by (auto simp: dedup_slot_def split: option.splits if_splits)

interpretation slot: write_shadow "dedup_slot (=)" "\<lambda>new _. native new" "slot_agrees native" for native
proof
  fix s c and d :: 'b
  assume a: "slot_agrees native s d"
  show "slot_agrees native (snd (dedup_slot (=) c s)) (native c)"
    using dedup_slot_laws(1) [where eq = "(=)", OF _ a] by simp
  assume "\<not> fst (dedup_slot (=) c s)"
  with dedup_slot_laws(2) [where eq = "(=)", OF _ a] show "native c = d" by simp
qed

text \<open>\<open>f32\<close> comparison: a NaN equals nothing and the two zeros are equal.\<close>

definition f32_is_nan :: "f32 \<Rightarrow> bool" where
  "f32_is_nan x \<longleftrightarrow> to_bits x AND 0x7FFFFFFF > 0x7F800000"

definition f32_value :: "f32 \<Rightarrow> f32" where
  "f32_value x = (if to_bits x = 0x80000000 then F32 0 else x)"

definition f32_eq :: "f32 \<Rightarrow> f32 \<Rightarrow> bool" where
  "f32_eq x y \<longleftrightarrow> \<not> f32_is_nan x \<and> \<not> f32_is_nan y \<and> f32_value x = f32_value y"

fun f32_eq2 :: "f32 \<times> f32 \<Rightarrow> f32 \<times> f32 \<Rightarrow> bool" where
  "f32_eq2 (a, b) (c, d) \<longleftrightarrow> f32_eq a c \<and> f32_eq b d"

fun f32_eq4 :: "f32 \<times> f32 \<times> f32 \<times> f32 \<Rightarrow> f32 \<times> f32 \<times> f32 \<times> f32 \<Rightarrow> bool" where
  "f32_eq4 (a, b, c, d) (a', b', c', d') \<longleftrightarrow> f32_eq a a' \<and> f32_eq b b' \<and> f32_eq c c' \<and> f32_eq d d'"

fun f32_value2 :: "f32 \<times> f32 \<Rightarrow> f32 \<times> f32" where
  "f32_value2 (a, b) = (f32_value a, f32_value b)"

fun f32_value4 :: "f32 \<times> f32 \<times> f32 \<times> f32 \<Rightarrow> f32 \<times> f32 \<times> f32 \<times> f32" where
  "f32_value4 (a, b, c, d) = (f32_value a, f32_value b, f32_value c, f32_value d)"

lemma f32_eq_value: "f32_eq x y \<Longrightarrow> f32_value x = f32_value y"
  by (simp add: f32_eq_def)

lemma f32_eq2_value: "f32_eq2 x y \<Longrightarrow> f32_value2 x = f32_value2 y"
  by (cases x; cases y) (simp add: f32_eq_value)

lemma f32_eq4_value: "f32_eq4 x y \<Longrightarrow> f32_value4 x = f32_value4 y"
  by (cases x; cases y) (simp add: f32_eq_value)

section \<open>Capabilities\<close>

abbreviation (input) GL_STENCIL_TEST :: u32 where "GL_STENCIL_TEST \<equiv> 0x0B90"
abbreviation (input) GL_SCISSOR_TEST :: u32 where "GL_SCISSOR_TEST \<equiv> 0x0C11"

definition TOGGLEABLE_CAPS :: "u32 list" where
  "TOGGLEABLE_CAPS = [0x0BE2, 0x0B44, 0x0B71, 0x0BD0, 0x8037, 0x809E, 0x80A0,
     GL_SCISSOR_TEST, GL_STENCIL_TEST, 0x8C89]"

text \<open>The \<open>while\<close> loops that look an enumerant up in a table.\<close>

fun table_index :: "u32 list \<Rightarrow> u32 \<Rightarrow> nat option" where
  "table_index [] x = None"
| "table_index (t # ts) x = (if t = x then Some 0 else map_option Suc (table_index ts x))"

lemma table_index_Some: "table_index ts x = Some i \<Longrightarrow> i < length ts \<and> ts ! i = x"
  by (induction ts arbitrary: i) (auto split: if_splits)

lemma table_index_None: "table_index ts x = None \<longleftrightarrow> x \<notin> set ts"
  by (induction ts) auto

record capability_shadow =
  cap_known :: "16 word"
  cap_enabled :: "16 word"

definition cap_default :: capability_shadow where
  "cap_default = \<lparr> cap_known = 0, cap_enabled = 0 \<rparr>"

definition cap_bit :: "u32 \<Rightarrow> 16 word option" where
  "cap_bit cap = (case table_index TOGGLEABLE_CAPS cap of None \<Rightarrow> None | Some i \<Rightarrow> Some (push_bit i 1))"

definition cap_enable :: "u32 \<Rightarrow> capability_shadow \<Rightarrow> bool \<times> capability_shadow" where
  "cap_enable cap s = (case cap_bit cap of
     None \<Rightarrow> (True, s)
   | Some b \<Rightarrow>
       (let already_enabled = cap_known s AND b \<noteq> 0 \<and> cap_enabled s AND b \<noteq> 0
        in (\<not> already_enabled, \<lparr> cap_known = cap_known s OR b, cap_enabled = cap_enabled s OR b \<rparr>)))"

definition cap_disable :: "u32 \<Rightarrow> capability_shadow \<Rightarrow> bool \<times> capability_shadow" where
  "cap_disable cap s = (case cap_bit cap of
     None \<Rightarrow> (True, s)
   | Some b \<Rightarrow>
       (let already_disabled = cap_known s AND b \<noteq> 0 \<and> cap_enabled s AND b = 0
        in (\<not> already_disabled, \<lparr> cap_known = cap_known s OR b, cap_enabled = cap_enabled s AND NOT b \<rparr>)))"

definition cap_forget_all :: "capability_shadow \<Rightarrow> capability_shadow" where
  "cap_forget_all s = \<lparr> cap_known = 0, cap_enabled = 0 \<rparr>"

definition cap_toggle :: "u32 \<times> bool \<Rightarrow> capability_shadow \<Rightarrow> bool \<times> capability_shadow" where
  "cap_toggle = (\<lambda>(cap, on). if on then cap_enable cap else cap_disable cap)"

text \<open>The driver rejects an enumerant that is not a capability.\<close>

definition set_cap :: "u32 \<times> bool \<Rightarrow> (u32 \<Rightarrow> bool) \<Rightarrow> u32 \<Rightarrow> bool" where
  "set_cap = (\<lambda>(cap, on) caps. if cap \<in> set TOGGLEABLE_CAPS then caps(cap := on) else caps)"

definition caps_agree :: "capability_shadow \<Rightarrow> (u32 \<Rightarrow> bool) \<Rightarrow> bool" where
  "caps_agree s caps \<longleftrightarrow>
     (\<forall>i < length TOGGLEABLE_CAPS. bit (cap_known s) i \<longrightarrow> caps (TOGGLEABLE_CAPS ! i) = bit (cap_enabled s) i)"

lemma distinct_caps: "distinct TOGGLEABLE_CAPS" by (simp add: TOGGLEABLE_CAPS_def)

lemma length_caps: "length TOGGLEABLE_CAPS = 10" by (simp add: TOGGLEABLE_CAPS_def)

interpretation caps: write_shadow cap_toggle set_cap caps_agree
proof
  fix s d and c :: "u32 \<times> bool"
  assume agree: "caps_agree s d"
  obtain cap on where c: "c = (cap, on)" by (cases c)
  show "caps_agree (snd (cap_toggle c s)) (set_cap c d)"
  proof (cases "table_index TOGGLEABLE_CAPS cap")
    case None
    moreover from None have "cap \<notin> set TOGGLEABLE_CAPS" using table_index_None by blast
    ultimately show ?thesis using agree
      by (simp add: c cap_toggle_def set_cap_def cap_enable_def cap_disable_def cap_bit_def)
  next
    case (Some i)
    note i = table_index_Some [OF Some]
    have other: "TOGGLEABLE_CAPS ! j = cap \<longleftrightarrow> j = i" if "j < length TOGGLEABLE_CAPS" for j
      using i distinct_caps that by (metis nth_eq_iff_index_eq)
    have "cap \<in> set TOGGLEABLE_CAPS" using i by auto
    with agree i other show ?thesis
      by (auto simp: c Some cap_toggle_def set_cap_def cap_enable_def cap_disable_def cap_bit_def Let_def
          caps_agree_def bit_simps length_caps)
  qed
  assume "\<not> fst (cap_toggle c s)"
  then obtain i where i: "table_index TOGGLEABLE_CAPS cap = Some i" "bit (cap_known s) i" "bit (cap_enabled s) i = on"
    by (cases on) (auto simp: c cap_toggle_def cap_enable_def cap_disable_def cap_bit_def Let_def
        and_exp_eq_0_iff_not_bit split: option.splits)
  with agree table_index_Some [OF i(1)] show "set_cap c d = d"
    by (auto simp: c set_cap_def caps_agree_def fun_upd_idem_iff)
qed

lemma caps_agree_forgotten [simp]: "caps_agree (cap_forget_all s) caps" "caps_agree cap_default caps"
  by (simp_all add: caps_agree_def cap_forget_all_def cap_default_def)

section \<open>Texture units\<close>

abbreviation (input) MAX_TRACKED_TEXTURE_UNITS :: nat where "MAX_TRACKED_TEXTURE_UNITS \<equiv> 32"

record texture_unit_shadow =
  tu_bindings :: "u32 option list"
  tu_observed :: u32

definition tu_default :: texture_unit_shadow where
  "tu_default = \<lparr> tu_bindings = replicate MAX_TRACKED_TEXTURE_UNITS None, tu_observed = 0 \<rparr>"

definition tu_index :: "u32 \<Rightarrow> nat option" where
  "tu_index unit = (let i = unat (unit - 0x84C0) in if i < MAX_TRACKED_TEXTURE_UNITS then Some i else None)"

definition tu_bind :: "u32 \<times> u32 option \<Rightarrow> texture_unit_shadow \<Rightarrow> bool \<times> texture_unit_shadow" where
  "tu_bind = (\<lambda>(unit, tex) s. case tu_index unit of
     None \<Rightarrow> (True, s)
   | Some i \<Rightarrow>
       (let b = push_bit i 1 in
        if tu_observed s AND b \<noteq> 0 \<and> tu_bindings s ! i = tex then (False, s)
        else (True, \<lparr> tu_bindings = (tu_bindings s)[i := tex], tu_observed = tu_observed s OR b \<rparr>)))"

definition tu_forget_step :: "u32 \<Rightarrow> texture_unit_shadow \<Rightarrow> nat \<Rightarrow> texture_unit_shadow" where
  "tu_forget_step texture s i =
     (if tu_bindings s ! i = Some texture
      then \<lparr> tu_bindings = (tu_bindings s)[i := None], tu_observed = tu_observed s AND NOT (push_bit i 1) \<rparr>
      else s)"

definition tu_forget_texture :: "u32 \<Rightarrow> texture_unit_shadow \<Rightarrow> texture_unit_shadow" where
  "tu_forget_texture texture s = foldl (tu_forget_step texture) s [0..<MAX_TRACKED_TEXTURE_UNITS]"

definition tu_forget_all :: "texture_unit_shadow \<Rightarrow> texture_unit_shadow" where
  "tu_forget_all s = s\<lparr> tu_observed := 0 \<rparr>"

text \<open>The enumerant \<open>GL_TEXTURE0 + i\<close>.\<close>

definition texture_unit :: "nat \<Rightarrow> u32" where
  "texture_unit i = 0x84C0 + word_of_nat i"

definition set_unit :: "(u32 option \<Rightarrow> 'h) \<Rightarrow> u32 \<times> u32 option \<Rightarrow> (u32 \<Rightarrow> 'h) \<Rightarrow> u32 \<Rightarrow> 'h" where
  "set_unit native = (\<lambda>(unit, tex) d. d(unit := native tex))"

definition units_agree :: "(u32 option \<Rightarrow> 'h) \<Rightarrow> texture_unit_shadow \<Rightarrow> (u32 \<Rightarrow> 'h) \<Rightarrow> bool" where
  "units_agree native s units \<longleftrightarrow> length (tu_bindings s) = MAX_TRACKED_TEXTURE_UNITS \<and>
     (\<forall>i < MAX_TRACKED_TEXTURE_UNITS. bit (tu_observed s) i \<longrightarrow>
        units (texture_unit i) = native (tu_bindings s ! i))"

lemma tu_index_unit: "i < 32 \<Longrightarrow> tu_index (texture_unit i) = Some i"
  by (simp add: tu_index_def texture_unit_def unat_of_nat)

lemma tu_index_Some:
  assumes "tu_index unit = Some i"
  shows "i < 32 \<and> unit = texture_unit i"
proof -
  have "i < 32" "i = unat (unit - 0x84C0)"
    using assms by (simp_all add: tu_index_def Let_def split: if_splits)
  then show ?thesis by (simp add: texture_unit_def)
qed

lemma texture_unit_inject: "i < 32 \<Longrightarrow> j < 32 \<Longrightarrow> texture_unit i = texture_unit j \<longleftrightarrow> i = j"
  by (metis option.inject tu_index_unit)

interpretation units: write_shadow tu_bind "set_unit native" "units_agree native" for native
proof
  fix s d and c :: "u32 \<times> u32 option"
  assume agree: "units_agree native s d"
  obtain unit tex where c: "c = (unit, tex)" by (cases c)
  show "units_agree native (snd (tu_bind c s)) (set_unit native c d)"
  proof (cases "tu_index unit")
    case None
    then have "i < 32 \<Longrightarrow> texture_unit i \<noteq> unit" for i using tu_index_unit by auto
    with agree None show ?thesis by (simp add: c tu_bind_def set_unit_def units_agree_def)
  next
    case (Some i)
    with tu_index_Some [OF Some] agree show ?thesis
      by (auto simp: c tu_bind_def set_unit_def units_agree_def Let_def bit_simps nth_list_update
          texture_unit_inject)
  qed
  assume "\<not> fst (tu_bind c s)"
  then obtain i where i: "tu_index unit = Some i" "bit (tu_observed s) i" "tu_bindings s ! i = tex"
    by (auto simp: c tu_bind_def Let_def and_exp_eq_0_iff_not_bit split: option.splits if_splits)
  with agree tu_index_Some [OF i(1)] show "set_unit native c d = d"
    by (auto simp: c set_unit_def units_agree_def fun_upd_idem_iff)
qed

lemma units_agree_forgotten [simp]:
  "units_agree native tu_default units"
  "units_agree native s units' \<Longrightarrow> units_agree native (tu_forget_all s) units"
  by (simp_all add: units_agree_def tu_default_def tu_forget_all_def)

lemma tu_forget_step_bits:
  assumes "length (tu_bindings s) = 32" "i < 32" "j < 32"
  shows "length (tu_bindings (tu_forget_step texture s i)) = 32"
    and "bit (tu_observed (tu_forget_step texture s i)) j \<longleftrightarrow>
      bit (tu_observed s) j \<and> \<not> (j = i \<and> tu_bindings s ! i = Some texture)"
    and "tu_bindings (tu_forget_step texture s i) ! j =
      (if j = i \<and> tu_bindings s ! i = Some texture then None else tu_bindings s ! j)"
  using assms by (auto simp: tu_forget_step_def bit_simps nth_list_update)

lemma tu_forget_upto:
  fixes texture
  assumes "length (tu_bindings s) = 32" "n \<le> 32"
  defines "r \<equiv> foldl (tu_forget_step texture) s [0..<n]"
  shows "length (tu_bindings r) = 32 \<and>
    (\<forall>j < 32. bit (tu_observed r) j = (bit (tu_observed s) j \<and> \<not> (j < n \<and> tu_bindings s ! j = Some texture)) \<and>
       tu_bindings r ! j = (if j < n \<and> tu_bindings s ! j = Some texture then None else tu_bindings s ! j))"
  using assms(2) unfolding r_def
proof (induction n)
  case (Suc n)
  let ?r = "foldl (tu_forget_step texture) s [0..<n]"
  have IH: "length (tu_bindings ?r) = 32"
      "\<And>j. j < 32 \<Longrightarrow> bit (tu_observed ?r) j = (bit (tu_observed s) j \<and> \<not> (j < n \<and> tu_bindings s ! j = Some texture))"
      "\<And>j. j < 32 \<Longrightarrow> tu_bindings ?r ! j = (if j < n \<and> tu_bindings s ! j = Some texture then None else tu_bindings s ! j)"
    using Suc by auto
  have n: "n < 32" using Suc.prems by simp
  show ?case
    using tu_forget_step_bits [OF IH(1) n] IH n by (auto simp: less_Suc_eq)
qed (simp add: assms(1))

text \<open>
  Deleting a texture takes it off every unit, and the shadow forgets those units: it
  agrees with any units that differ from the old ones at most where the texture was.
\<close>

lemma units_agree_deleted:
  assumes "units_agree native s units"
    and "\<And>u tex. units u = native tex \<Longrightarrow> tex \<noteq> Some texture \<Longrightarrow> units' u = units u"
  shows "units_agree native (tu_forget_texture texture s) units'"
  using assms tu_forget_upto [of s 32 texture]
  by (simp add: units_agree_def tu_forget_texture_def)

section \<open>Stencil faces\<close>

abbreviation (input) GL_FRONT :: u32 where "GL_FRONT \<equiv> 0x0404"
abbreviation (input) GL_BACK :: u32 where "GL_BACK \<equiv> 0x0405"
abbreviation (input) GL_FRONT_AND_BACK :: u32 where "GL_FRONT_AND_BACK \<equiv> 0x0408"

record 'a per_face =
  face_front :: "'a option"
  face_back :: "'a option"

definition face_default :: "'a per_face" where
  "face_default = \<lparr> face_front = None, face_back = None \<rparr>"

definition face_update :: "u32 \<times> 'a \<Rightarrow> 'a per_face \<Rightarrow> bool \<times> 'a per_face" where
  "face_update = (\<lambda>(face, v) s.
     if face = GL_FRONT_AND_BACK then
       (if face_front s = Some v \<and> face_back s = Some v then (False, s)
        else (True, \<lparr> face_front = Some v, face_back = Some v \<rparr>))
     else if face = GL_FRONT then
       (if face_front s = Some v then (False, s) else (True, s\<lparr> face_front := Some v \<rparr>))
     else if face = GL_BACK then
       (if face_back s = Some v then (False, s) else (True, s\<lparr> face_back := Some v \<rparr>))
     else (True, s))"

definition face_forget_all :: "'a per_face \<Rightarrow> 'a per_face" where
  "face_forget_all s = \<lparr> face_front = None, face_back = None \<rparr>"

definition set_face :: "u32 \<times> 'a \<Rightarrow> 'a \<times> 'a \<Rightarrow> 'a \<times> 'a" where
  "set_face = (\<lambda>(face, v) (f, b).
     if face = GL_FRONT_AND_BACK then (v, v) else if face = GL_FRONT then (v, b)
     else if face = GL_BACK then (f, v) else (f, b))"

definition faces_agree :: "'a per_face \<Rightarrow> 'a \<times> 'a \<Rightarrow> bool" where
  "faces_agree s d \<longleftrightarrow> slot_agrees id (face_front s) (fst d) \<and> slot_agrees id (face_back s) (snd d)"

interpretation faces: write_shadow face_update set_face faces_agree
  by unfold_locales (auto simp: face_update_def set_face_def faces_agree_def split: prod.splits if_splits)

lemma faces_agree_forgotten [simp]: "faces_agree (face_forget_all s) d" "faces_agree face_default d"
  by (simp_all add: faces_agree_def face_forget_all_def face_default_def)

section \<open>Pixel storage\<close>

definition PIXEL_STORE_PNAMES :: "u32 list" where
  "PIXEL_STORE_PNAMES = [0x0D05, 0x0CF5, 0x9240, 0x9241, 0x9243, 0x0CF2, 0x0CF4, 0x0CF3, 0x806E, 0x806D,
     0x0D02, 0x0D04, 0x0D03]"

record pixel_store_shadow =
  ps_params :: "i32 list"
  ps_observed :: "16 word"

definition ps_default :: pixel_store_shadow where
  "ps_default = \<lparr> ps_params = replicate (length PIXEL_STORE_PNAMES) 0, ps_observed = 0 \<rparr>"

definition ps_update :: "u32 \<times> i32 \<Rightarrow> pixel_store_shadow \<Rightarrow> bool \<times> pixel_store_shadow" where
  "ps_update = (\<lambda>(pname, param) s. case table_index PIXEL_STORE_PNAMES pname of
     None \<Rightarrow> (True, s)
   | Some i \<Rightarrow>
       (let b = push_bit i 1 in
        if ps_observed s AND b \<noteq> 0 \<and> ps_params s ! i = param then (False, s)
        else (True, \<lparr> ps_params = (ps_params s)[i := param], ps_observed = ps_observed s OR b \<rparr>)))"

definition ps_forget_all :: "pixel_store_shadow \<Rightarrow> pixel_store_shadow" where
  "ps_forget_all s = s\<lparr> ps_observed := 0 \<rparr>"

definition set_pixel_store :: "u32 \<times> i32 \<Rightarrow> (u32 \<Rightarrow> i32) \<Rightarrow> u32 \<Rightarrow> i32" where
  "set_pixel_store = (\<lambda>(pname, param) d. d(pname := param))"

definition pixels_agree :: "pixel_store_shadow \<Rightarrow> (u32 \<Rightarrow> i32) \<Rightarrow> bool" where
  "pixels_agree s d \<longleftrightarrow> length (ps_params s) = length PIXEL_STORE_PNAMES \<and>
     (\<forall>i < length PIXEL_STORE_PNAMES. bit (ps_observed s) i \<longrightarrow> d (PIXEL_STORE_PNAMES ! i) = ps_params s ! i)"

lemma distinct_pnames: "distinct PIXEL_STORE_PNAMES" by (simp add: PIXEL_STORE_PNAMES_def)

lemma length_pnames: "length PIXEL_STORE_PNAMES = 13" by (simp add: PIXEL_STORE_PNAMES_def)

interpretation pixel_store: write_shadow ps_update set_pixel_store pixels_agree
proof
  fix s d and c :: "u32 \<times> i32"
  assume agree: "pixels_agree s d"
  obtain pname param where c: "c = (pname, param)" by (cases c)
  show "pixels_agree (snd (ps_update c s)) (set_pixel_store c d)"
  proof (cases "table_index PIXEL_STORE_PNAMES pname")
    case None
    moreover from None have "pname \<notin> set PIXEL_STORE_PNAMES" using table_index_None by blast
    ultimately show ?thesis using agree by (auto simp: c ps_update_def set_pixel_store_def pixels_agree_def)
  next
    case (Some i)
    note i = table_index_Some [OF Some]
    have other: "(PIXEL_STORE_PNAMES ! j = pname) = (j = i)" if "j < length PIXEL_STORE_PNAMES" for j
      using i distinct_pnames that by (metis nth_eq_iff_index_eq)
    show ?thesis using agree i other
      by (auto simp: c Some ps_update_def set_pixel_store_def pixels_agree_def Let_def bit_simps nth_list_update length_pnames)
  qed
  assume "\<not> fst (ps_update c s)"
  then obtain i where i: "table_index PIXEL_STORE_PNAMES pname = Some i" "bit (ps_observed s) i" "ps_params s ! i = param"
    by (auto simp: c ps_update_def Let_def and_exp_eq_0_iff_not_bit split: option.splits if_splits)
  with agree table_index_Some [OF i(1)] show "set_pixel_store c d = d"
    by (auto simp: c set_pixel_store_def pixels_agree_def fun_upd_idem_iff)
qed

lemma pixels_agree_forgotten [simp]:
  "pixels_agree ps_default d" "pixels_agree s d' \<Longrightarrow> pixels_agree (ps_forget_all s) d"
  by (simp_all add: pixels_agree_def ps_default_def ps_forget_all_def)

section \<open>Indexed uniform buffers\<close>

abbreviation (input) MAX_TRACKED_UNIFORM_BUFFER_BINDINGS :: nat where
  "MAX_TRACKED_UNIFORM_BUFFER_BINDINGS \<equiv> 32"

type_synonym ubo_entry = "u32 option \<times> i32 \<times> i32"
type_synonym indexed_ubo_shadow = "ubo_entry option list"

definition ubo_default :: indexed_ubo_shadow where
  "ubo_default = replicate MAX_TRACKED_UNIFORM_BUFFER_BINDINGS None"

definition ubo_update :: "u32 \<times> ubo_entry \<Rightarrow> indexed_ubo_shadow \<Rightarrow> bool \<times> indexed_ubo_shadow" where
  "ubo_update = (\<lambda>(index, entry) slots.
     if unat index < length slots
     then (if slots ! unat index = Some entry then (False, slots) else (True, slots[unat index := Some entry]))
     else (True, slots))"

definition ubo_forget_all :: "indexed_ubo_shadow \<Rightarrow> indexed_ubo_shadow" where
  "ubo_forget_all s = replicate MAX_TRACKED_UNIFORM_BUFFER_BINDINGS None"

definition set_ubo :: "(ubo_entry \<Rightarrow> 'h) \<Rightarrow> u32 \<times> ubo_entry \<Rightarrow> (u32 \<Rightarrow> 'h) \<Rightarrow> u32 \<Rightarrow> 'h" where
  "set_ubo native = (\<lambda>(index, entry) d. d(index := native entry))"

definition ubos_agree :: "(ubo_entry \<Rightarrow> 'h) \<Rightarrow> indexed_ubo_shadow \<Rightarrow> (u32 \<Rightarrow> 'h) \<Rightarrow> bool" where
  "ubos_agree native slots d \<longleftrightarrow>
     (\<forall>index. unat index < length slots \<longrightarrow> slot_agrees native (slots ! unat index) (d index))"

interpretation ubos: write_shadow ubo_update "set_ubo native" "ubos_agree native" for native
proof
  fix s d and c :: "u32 \<times> ubo_entry"
  assume agree: "ubos_agree native s d"
  obtain index entry where c: "c = (index, entry)" by (cases c)
  have other: "unat index = unat j \<longleftrightarrow> index = j" for j by (simp add: word_unat_eq_iff)
  show "ubos_agree native (snd (ubo_update c s)) (set_ubo native c d)"
    using agree by (auto simp: c ubo_update_def set_ubo_def ubos_agree_def nth_list_update other)
  assume "\<not> fst (ubo_update c s)"
  with agree show "set_ubo native c d = d"
    by (auto simp: c ubo_update_def set_ubo_def ubos_agree_def fun_upd_idem_iff split: if_splits)
qed

lemma ubos_agree_forgotten [simp]: "ubos_agree native (ubo_forget_all s) d" "ubos_agree native ubo_default d"
  by (simp_all add: ubos_agree_def ubo_forget_all_def ubo_default_def)

section \<open>Framebuffers\<close>

abbreviation (input) GL_FRAMEBUFFER :: u32 where "GL_FRAMEBUFFER \<equiv> 0x8D40"
abbreviation (input) GL_DRAW_FRAMEBUFFER :: u32 where "GL_DRAW_FRAMEBUFFER \<equiv> 0x8CA9"
abbreviation (input) GL_READ_FRAMEBUFFER :: u32 where "GL_READ_FRAMEBUFFER \<equiv> 0x8CA8"

text \<open>Three slots, one per binding target.\<close>

type_synonym framebuffer_shadow = "u32 option option list"

definition fb_default :: framebuffer_shadow where
  "fb_default = [None, None, None]"

definition fb_slot :: "u32 \<Rightarrow> nat option" where
  "fb_slot target =
     (if target = GL_FRAMEBUFFER then Some 0
      else if target = GL_DRAW_FRAMEBUFFER then Some 1
      else if target = GL_READ_FRAMEBUFFER then Some 2 else None)"

definition fb_update :: "u32 \<times> u32 option \<Rightarrow> framebuffer_shadow \<Rightarrow> bool \<times> framebuffer_shadow" where
  "fb_update = (\<lambda>(target, fb) slots. case fb_slot target of
     None \<Rightarrow> (True, slots)
   | Some i \<Rightarrow> if slots ! i = Some fb then (False, slots) else (True, slots[i := Some fb]))"

definition fb_set_all :: "u32 option \<Rightarrow> framebuffer_shadow \<Rightarrow> framebuffer_shadow" where
  "fb_set_all fb slots = [Some fb, Some fb, Some fb]"

definition fb_get :: "framebuffer_shadow \<Rightarrow> u32 \<Rightarrow> u32 option option" where
  "fb_get slots target = (case fb_slot target of None \<Rightarrow> None | Some i \<Rightarrow> slots ! i)"

definition fb_forget_all :: "framebuffer_shadow \<Rightarrow> framebuffer_shadow" where
  "fb_forget_all slots = [None, None, None]"

section \<open>Vertex arrays\<close>

record vertex_attrib_fp =
  fp_size :: i32
  fp_type :: u32
  fp_normalized :: bool
  fp_stride :: i32
  fp_offset :: i32
  fp_array_buffer :: "u32 option"

record attrib_slot =
  as_pointer :: "vertex_attrib_fp option"
  as_divisor :: "u32 option"

definition slot_default :: attrib_slot where
  "slot_default = \<lparr> as_pointer = None, as_divisor = None \<rparr>"

record vao_attribs =
  va_slots :: "attrib_slot list"
  va_enabled :: u32

definition vao_default :: vao_attribs where
  "vao_default = \<lparr> va_slots = [], va_enabled = 0 \<rparr>"

text \<open>
  The outer table is the keyed scan with a memo of \<open>CanvasKeyed\<close>, on the names of
  vertex arrays; the model shares its operations.
\<close>

type_synonym vertex_array_shadow = "vao_attribs canvas_keyed"

abbreviation (input) MAX_TRACKED_ATTRIBS :: u32 where "MAX_TRACKED_ATTRIBS \<equiv> 32"

definition vao_mut :: "vertex_array_shadow \<Rightarrow> u32 \<Rightarrow> (vao_attribs \<Rightarrow> vao_attribs)
    \<Rightarrow> (vao_attribs \<times> vertex_array_shadow) option" where
  "vao_mut t vao f = ck_value_mut vao_default t vao f"

definition grow_slots :: "attrib_slot list \<Rightarrow> nat \<Rightarrow> attrib_slot list" where
  "grow_slots slots i =
     (if i \<ge> length slots then slots @ replicate (i + 1 - length slots) slot_default else slots)"

definition slot_mut :: "vertex_array_shadow \<Rightarrow> u32 \<Rightarrow> u32 \<Rightarrow> (attrib_slot \<Rightarrow> attrib_slot)
    \<Rightarrow> (attrib_slot option \<times> vertex_array_shadow) option" where
  "slot_mut t vao index f =
     (if index \<ge> MAX_TRACKED_ATTRIBS then Some (None, t)
      else do {
        let i = unat index;
        (attribs, t') \<leftarrow> vao_mut t vao (\<lambda>attribs.
           let slots = grow_slots (va_slots attribs) i
           in attribs\<lparr> va_slots := slots[i := f (slots ! i)] \<rparr>);
        Some (Some (grow_slots (va_slots attribs) i ! i), t') })"

definition update_pointer :: "vertex_array_shadow \<Rightarrow> u32 \<Rightarrow> u32 \<Rightarrow> vertex_attrib_fp
    \<Rightarrow> (bool \<times> vertex_array_shadow) option" where
  "update_pointer t vao index fp = do {
     (slot, t') \<leftarrow> slot_mut t vao index (\<lambda>slot. slot\<lparr> as_pointer := Some fp \<rparr>);
     case slot of
       None \<Rightarrow> Some (True, t')
     | Some slot \<Rightarrow> Some (as_pointer slot \<noteq> Some fp, t') }"

definition update_divisor :: "vertex_array_shadow \<Rightarrow> u32 \<Rightarrow> u32 \<Rightarrow> u32
    \<Rightarrow> (bool \<times> vertex_array_shadow) option" where
  "update_divisor t vao index divisor = do {
     (slot, t') \<leftarrow> slot_mut t vao index (\<lambda>slot. slot\<lparr> as_divisor := Some divisor \<rparr>);
     case slot of
       None \<Rightarrow> Some (True, t')
     | Some slot \<Rightarrow> Some (as_divisor slot \<noteq> Some divisor, t') }"

definition va_enable :: "vertex_array_shadow \<Rightarrow> u32 \<Rightarrow> u32 \<Rightarrow> (bool \<times> vertex_array_shadow) option" where
  "va_enable t vao index =
     (if index \<ge> MAX_TRACKED_ATTRIBS then Some (True, t)
      else do {
        let b = push_bit (unat index) 1;
        (attribs, t') \<leftarrow> vao_mut t vao (\<lambda>attribs. attribs\<lparr> va_enabled := va_enabled attribs OR b \<rparr>);
        Some (va_enabled attribs AND b = 0, t') })"

definition va_disable :: "vertex_array_shadow \<Rightarrow> u32 \<Rightarrow> u32 \<Rightarrow> (bool \<times> vertex_array_shadow) option" where
  "va_disable t vao index =
     (if index \<ge> MAX_TRACKED_ATTRIBS then Some (True, t)
      else do {
        let b = push_bit (unat index) 1;
        (attribs, t') \<leftarrow> vao_mut t vao (\<lambda>attribs. attribs\<lparr> va_enabled := va_enabled attribs AND NOT b \<rparr>);
        Some (va_enabled attribs AND b \<noteq> 0, t') })"

definition va_forget_all :: "vertex_array_shadow \<Rightarrow> vertex_array_shadow" where
  "va_forget_all t =
     t\<lparr> ck_entries := map (\<lambda>(k, a). (k, a\<lparr> va_slots := [], va_enabled := 0 \<rparr>)) (ck_entries t), ck_hot := 0 \<rparr>"

definition forget_vao :: "u32 \<Rightarrow> vertex_array_shadow \<Rightarrow> vertex_array_shadow" where
  "forget_vao vao t = snd (ck_remove t vao)"

text \<open>The state the driver keeps in a vertex array, for attribute indices.\<close>

record 'h vertex_array =
  vd_element :: "u32 option"
  vd_pointer :: "u32 \<Rightarrow> 'h option"
  vd_divisor :: "u32 \<Rightarrow> u32"
  vd_enabled :: "u32 \<Rightarrow> bool"

definition va_of :: "vertex_array_shadow \<Rightarrow> u32 \<Rightarrow> vao_attribs" where
  "va_of t vao = (case ck_map t vao of None \<Rightarrow> vao_default | Some a \<Rightarrow> a)"

definition slot_of :: "vao_attribs \<Rightarrow> u32 \<Rightarrow> attrib_slot" where
  "slot_of a index = (if unat index < length (va_slots a) then va_slots a ! unat index else slot_default)"

definition array_agrees :: "(vertex_attrib_fp \<Rightarrow> 'h) \<Rightarrow> vao_attribs \<Rightarrow> 'h vertex_array \<Rightarrow> bool" where
  "array_agrees native a v \<longleftrightarrow> (\<forall>index < MAX_TRACKED_ATTRIBS.
     slot_agrees (\<lambda>fp. Some (native fp)) (as_pointer (slot_of a index)) (vd_pointer v index) \<and>
     slot_agrees id (as_divisor (slot_of a index)) (vd_divisor v index) \<and>
     (vd_enabled v index \<longleftrightarrow> bit (va_enabled a) (unat index)))"

lemma vao_mut_total:
  assumes "ck_inv t"
  shows "\<exists>t'. vao_mut t vao f = Some (va_of t vao, t') \<and> ck_inv t' \<and> va_of t' = (va_of t)(vao := f (va_of t vao))"
  using ck_value_mut_correct [OF assms, of vao_default vao f]
  by (auto simp: vao_mut_def va_of_def fun_eq_iff)

lemma grow_slots_nth: "grow_slots (va_slots a) (unat index) ! unat index = slot_of a index"
  by (simp add: grow_slots_def slot_of_def nth_append)

lemma slot_of_grown:
  "slot_of (a\<lparr> va_slots := (grow_slots (va_slots a) (unat index))[unat index := x] \<rparr>) j =
     (if j = index then x else slot_of a j)"
proof -
  have "unat index = unat j \<longleftrightarrow> index = j" by (simp add: word_unat_eq_iff)
  then show ?thesis
    by (auto simp: slot_of_def grow_slots_def nth_list_update nth_append)
qed

lemma slot_mut_total:
  assumes "ck_inv t" "index < MAX_TRACKED_ATTRIBS"
  shows "\<exists>t'. slot_mut t vao index f = Some (Some (slot_of (va_of t vao) index), t') \<and> ck_inv t' \<and>
     (\<forall>k. k \<noteq> vao \<longrightarrow> va_of t' k = va_of t k) \<and> va_enabled (va_of t' vao) = va_enabled (va_of t vao) \<and>
     (\<forall>j. slot_of (va_of t' vao) j = (if j = index then f (slot_of (va_of t vao) index) else slot_of (va_of t vao) j))"
proof -
  let ?f = "\<lambda>attribs. let slots = grow_slots (va_slots attribs) (unat index)
              in attribs\<lparr> va_slots := slots[unat index := f (slots ! unat index)] \<rparr>"
  obtain t' where t': "vao_mut t vao ?f = Some (va_of t vao, t')" "ck_inv t'"
      "va_of t' = (va_of t)(vao := ?f (va_of t vao))"
    using vao_mut_total [OF assms(1), of vao ?f] by blast
  have "\<not> MAX_TRACKED_ATTRIBS \<le> index" using assms(2) by simp
  then show ?thesis
    using t' by (simp add: slot_mut_def grow_slots_nth slot_of_grown Let_def)
qed

text \<open>
  All vertex arrays at once: \<open>handle\<close> gives the native array of a name, \<open>K\<close> are the names
  in use. An update of one array leaves the others alone.
\<close>

definition arrays_agree :: "(vertex_attrib_fp \<Rightarrow> 'h) \<Rightarrow> (u32 \<Rightarrow> 'k) \<Rightarrow> u32 set \<Rightarrow> vertex_array_shadow
    \<Rightarrow> ('k \<Rightarrow> 'h vertex_array) \<Rightarrow> bool" where
  "arrays_agree native handle K t vs \<longleftrightarrow> ck_inv t \<and> inj_on handle K \<and>
     (\<forall>vao \<in> K. array_agrees native (va_of t vao) (vs (handle vao)))"

lemma arrays_agreeI:
  assumes "arrays_agree native handle K t vs" "vao \<in> K" "ck_inv t'" "\<And>k. k \<noteq> vao \<Longrightarrow> va_of t' k = va_of t k"
    and "array_agrees native (va_of t' vao) v'"
  shows "arrays_agree native handle K t' (vs(handle vao := v'))"
proof -
  have "handle k = handle vao \<longleftrightarrow> k = vao" if "k \<in> K" for k
    using assms(1,2) that by (auto simp: arrays_agree_def inj_on_def)
  then show ?thesis using assms by (auto simp: arrays_agree_def)
qed

lemma arrays_agreeD:
  "arrays_agree native handle K t vs \<Longrightarrow> vao \<in> K \<Longrightarrow> ck_inv t \<and> array_agrees native (va_of t vao) (vs (handle vao))"
  by (simp add: arrays_agree_def)

lemma untracked_attrib:
  assumes "arrays_agree native handle K t vs" "vao \<in> K" "\<not> index < MAX_TRACKED_ATTRIBS"
    and "\<And>j. j \<noteq> index \<Longrightarrow> vd_pointer v' j = vd_pointer (vs (handle vao)) j \<and>
      vd_divisor v' j = vd_divisor (vs (handle vao)) j \<and> vd_enabled v' j = vd_enabled (vs (handle vao)) j"
  shows "arrays_agree native handle K t (vs(handle vao := v'))"
  using arrays_agreeI [OF assms(1,2), of t v'] arrays_agreeD [OF assms(1,2)] assms(3,4)
  by (auto simp: array_agrees_def)

lemma slot_mut_agrees:
  fixes index f v'
  assumes agree: "arrays_agree native handle K t vs" and K: "vao \<in> K" and index: "index < MAX_TRACKED_ATTRIBS"
  defines "v \<equiv> vs (handle vao)" and "slot \<equiv> slot_of (va_of t vao) index"
  assumes "\<And>j. j \<noteq> index \<Longrightarrow> vd_pointer v' j = vd_pointer v j \<and> vd_divisor v' j = vd_divisor v j"
    and "vd_enabled v' = vd_enabled v"
    and "slot_agrees (\<lambda>fp. Some (native fp)) (as_pointer (f slot)) (vd_pointer v' index)"
    and "slot_agrees id (as_divisor (f slot)) (vd_divisor v' index)"
  shows "\<exists>t'. slot_mut t vao index f = Some (Some slot, t') \<and> arrays_agree native handle K t' (vs(handle vao := v'))"
proof -
  note a = arrays_agreeD [OF agree K]
  obtain t' where t': "slot_mut t vao index f = Some (Some slot, t')" "ck_inv t'" "\<forall>k. k \<noteq> vao \<longrightarrow> va_of t' k = va_of t k"
      "va_enabled (va_of t' vao) = va_enabled (va_of t vao)"
      "\<forall>j. slot_of (va_of t' vao) j = (if j = index then f slot else slot_of (va_of t vao) j)"
    using slot_mut_total [OF conjunct1 [OF a] index] unfolding slot_def by blast
  have "array_agrees native (va_of t' vao) v'"
    using a t'(4,5) assms(6-9) by (auto simp: array_agrees_def v_def)
  with arrays_agreeI [OF agree K t'(2)] t'(1,3) show ?thesis by blast
qed

lemma update_pointer_laws:
  fixes index fp
  assumes agree: "arrays_agree native handle K t vs" and K: "vao \<in> K"
  defines "v' \<equiv> (vs (handle vao))\<lparr> vd_pointer := (vd_pointer (vs (handle vao)))(index := Some (native fp)) \<rparr>"
  shows "\<exists>b t'. update_pointer t vao index fp = Some (b, t') \<and> arrays_agree native handle K t' (vs(handle vao := v')) \<and>
    (\<not> b \<longrightarrow> v' = vs (handle vao))"
proof (cases "index < MAX_TRACKED_ATTRIBS")
  case True
  have a: "array_agrees native (va_of t vao) (vs (handle vao))" using arrays_agreeD [OF agree K] by simp
  then obtain t' where "slot_mut t vao index (\<lambda>slot. slot\<lparr> as_pointer := Some fp \<rparr>) =
        Some (Some (slot_of (va_of t vao) index), t')" "arrays_agree native handle K t' (vs(handle vao := v'))"
    using slot_mut_agrees [OF agree K True, of v' "\<lambda>slot. slot\<lparr> as_pointer := Some fp \<rparr>"] True
    by (auto simp: v'_def array_agrees_def)
  moreover have "v' = vs (handle vao)" if "as_pointer (slot_of (va_of t vao) index) = Some fp"
    using a True that by (auto simp: array_agrees_def v'_def fun_upd_idem_iff)
  ultimately show ?thesis by (simp add: update_pointer_def)
next
  case False
  then have ge: "MAX_TRACKED_ATTRIBS \<le> index" by simp
  have "arrays_agree native handle K t (vs(handle vao := v'))"
    using untracked_attrib [OF agree K False, of v'] by (simp add: v'_def)
  then show ?thesis using ge by (auto simp: update_pointer_def slot_mut_def)
qed

lemma update_divisor_laws:
  fixes index divisor
  assumes agree: "arrays_agree native handle K t vs" and K: "vao \<in> K"
  defines "v' \<equiv> (vs (handle vao))\<lparr> vd_divisor := (vd_divisor (vs (handle vao)))(index := divisor) \<rparr>"
  shows "\<exists>b t'. update_divisor t vao index divisor = Some (b, t') \<and> arrays_agree native handle K t' (vs(handle vao := v')) \<and>
    (\<not> b \<longrightarrow> v' = vs (handle vao))"
proof (cases "index < MAX_TRACKED_ATTRIBS")
  case True
  have a: "array_agrees native (va_of t vao) (vs (handle vao))" using arrays_agreeD [OF agree K] by simp
  then obtain t' where "slot_mut t vao index (\<lambda>slot. slot\<lparr> as_divisor := Some divisor \<rparr>) =
        Some (Some (slot_of (va_of t vao) index), t')" "arrays_agree native handle K t' (vs(handle vao := v'))"
    using slot_mut_agrees [OF agree K True, of v' "\<lambda>slot. slot\<lparr> as_divisor := Some divisor \<rparr>"] True
    by (auto simp: v'_def array_agrees_def)
  moreover have "v' = vs (handle vao)" if "as_divisor (slot_of (va_of t vao) index) = Some divisor"
    using a True that by (auto simp: array_agrees_def v'_def fun_upd_idem_iff)
  ultimately show ?thesis by (simp add: update_divisor_def)
next
  case False
  then have ge: "MAX_TRACKED_ATTRIBS \<le> index" by simp
  have "arrays_agree native handle K t (vs(handle vao := v'))"
    using untracked_attrib [OF agree K False, of v'] by (simp add: v'_def)
  then show ?thesis using ge by (auto simp: update_divisor_def slot_mut_def)
qed

definition va_toggle :: "vertex_array_shadow \<Rightarrow> u32 \<Rightarrow> u32 \<Rightarrow> bool \<Rightarrow> (bool \<times> vertex_array_shadow) option" where
  "va_toggle t vao index on = (if on then va_enable t vao index else va_disable t vao index)"

lemma va_toggle_laws:
  fixes index on
  assumes agree: "arrays_agree native handle K t vs" and K: "vao \<in> K"
  defines "v' \<equiv> (vs (handle vao))\<lparr> vd_enabled := (vd_enabled (vs (handle vao)))(index := on) \<rparr>"
  shows "\<exists>b t'. va_toggle t vao index on = Some (b, t') \<and> arrays_agree native handle K t' (vs(handle vao := v')) \<and>
    (\<not> b \<longrightarrow> v' = vs (handle vao))"
proof (cases "index < MAX_TRACKED_ATTRIBS")
  case True
  note a = arrays_agreeD [OF agree K]
  let ?b = "push_bit (unat index) 1 :: u32"
  let ?f = "\<lambda>attribs. attribs\<lparr> va_enabled := if on then va_enabled attribs OR ?b else va_enabled attribs AND NOT ?b \<rparr>"
  obtain t' where t': "vao_mut t vao ?f = Some (va_of t vao, t')" "ck_inv t'" "va_of t' = (va_of t)(vao := ?f (va_of t vao))"
    using vao_mut_total [OF conjunct1 [OF a], of vao ?f] by blast
  have "\<not> MAX_TRACKED_ATTRIBS \<le> index" using True by simp
  then have run: "va_toggle t vao index on =
      Some (bit (va_enabled (va_of t vao)) (unat index) \<noteq> on, t')"
    using t'(1) by (cases on) (simp_all add: va_toggle_def va_enable_def va_disable_def Let_def and_exp_eq_0_iff_not_bit)
  have "bit (va_enabled (va_of t' vao)) (unat j) = (if j = index then on else bit (va_enabled (va_of t vao)) (unat j))"
    if "j < MAX_TRACKED_ATTRIBS" for j
  proof -
    have "unat j < 32" "unat j = unat index \<longleftrightarrow> j = index"
      using that by (auto simp: word_less_nat_alt word_unat_eq_iff)
    then show ?thesis by (auto simp: bit_simps t'(3))
  qed
  moreover have "slot_of (va_of t' vao) j = slot_of (va_of t vao) j" for j by (simp add: slot_of_def t'(3))
  ultimately have "array_agrees native (va_of t' vao) v'"
    using a by (auto simp: array_agrees_def v'_def)
  with arrays_agreeI [OF agree K t'(2)] t'(3) have "arrays_agree native handle K t' (vs(handle vao := v'))" by simp
  moreover have "v' = vs (handle vao)" if "bit (va_enabled (va_of t vao)) (unat index) = on"
    using a True that by (auto simp: array_agrees_def v'_def fun_upd_idem_iff)
  ultimately show ?thesis using run by blast
next
  case False
  then have ge: "MAX_TRACKED_ATTRIBS \<le> index" by simp
  have "arrays_agree native handle K t (vs(handle vao := v'))"
    using untracked_attrib [OF agree K False, of v'] by (simp add: v'_def)
  then show ?thesis using ge by (auto simp: va_toggle_def va_enable_def va_disable_def)
qed

text \<open>
  Forgetting leaves every array claimed to be disabled, which is what the shadow says of
  an array nothing has touched.
\<close>

lemma va_of_forget_all: "va_of (va_forget_all t) vao = vao_default"
proof -
  have "map_of (map (\<lambda>(k, a). (k, a\<lparr> va_slots := [], va_enabled := 0 \<rparr>)) es) vao \<in> {None, Some vao_default}"
    for es :: "(u32 \<times> vao_attribs) list"
    by (induction es) (auto simp: vao_default_def)
  from this [of "ck_entries t"] show ?thesis
    by (auto simp: va_of_def va_forget_all_def ck_map_def split: option.splits)
qed

lemma ck_inv_forget_all: "ck_inv t \<Longrightarrow> ck_inv (va_forget_all t)"
  by (simp add: ck_inv_def va_forget_all_def case_prod_beta comp_def)

lemma default_array_agrees:
  "array_agrees native vao_default v \<longleftrightarrow> (\<forall>index < MAX_TRACKED_ATTRIBS. \<not> vd_enabled v index)"
  by (simp add: array_agrees_def vao_default_def slot_of_def slot_default_def)

lemma arrays_agree_forgotten:
  assumes "ck_inv t" "inj_on handle K" "\<And>vao index. vao \<in> K \<Longrightarrow> index < MAX_TRACKED_ATTRIBS \<Longrightarrow> \<not> vd_enabled (vs (handle vao)) index"
  shows "arrays_agree native handle K (va_forget_all t) vs"
  using assms by (simp add: arrays_agree_def va_of_forget_all ck_inv_forget_all default_array_agrees)

lemma arrays_agree_deleted:
  assumes "arrays_agree native handle K t vs"
  shows "arrays_agree native handle (K - {vao}) (forget_vao vao t) vs"
proof -
  have "ck_inv t" using assms by (simp add: arrays_agree_def)
  then have "ck_inv (forget_vao vao t)" "ck_map (forget_vao vao t) = (ck_map t)(vao := None)"
    using ck_remove_correct [of t vao] by (simp_all add: forget_vao_def)
  with assms show ?thesis by (auto simp: arrays_agree_def va_of_def inj_on_def)
qed

section \<open>Uniform values\<close>

abbreviation (input) MAX_UNIFORM_CACHE :: nat where "MAX_UNIFORM_CACHE \<equiv> 256"
abbreviation (input) MAX_CACHED_UNIFORM_VALUE_BYTES :: nat where "MAX_CACHED_UNIFORM_VALUE_BYTES \<equiv> 65536"

type_synonym uniform_cache = "((u32 \<times> u32) \<times> u8 list) list"

text \<open>
  The hash map as its entries; which key \<open>keys().next()\<close> yields is up to the hasher, a
  parameter. The assertion on the capacity is a panic.
\<close>

definition uniform_cache_update :: "(uniform_cache \<Rightarrow> (u32 \<times> u32) option) \<Rightarrow> uniform_cache \<Rightarrow> nat \<Rightarrow> u32 \<Rightarrow> u32
    \<Rightarrow> u8 list \<Rightarrow> (bool \<times> uniform_cache) option" where
  "uniform_cache_update first_key cache maximum_entries prog location value =
     (if maximum_entries = 0 then Panic
      else let key = (prog, location) in
        if length value > MAX_CACHED_UNIFORM_VALUE_BYTES then Some (True, AList.delete key cache)
        else case map_of cache key of
          Some stored \<Rightarrow>
            if stored = value then Some (False, cache) else Some (True, AList.update key value cache)
        | None \<Rightarrow>
            let cache = (if length cache \<ge> maximum_entries
                         then (case first_key cache of None \<Rightarrow> cache | Some evicted \<Rightarrow> AList.delete evicted cache)
                         else cache)
            in Some (True, AList.update key value cache))"

definition uniforms_agree :: "(u32 \<Rightarrow> 'k) \<Rightarrow> u32 set \<Rightarrow> uniform_cache \<Rightarrow> ('k \<times> u32 \<Rightarrow> u8 list) \<Rightarrow> bool" where
  "uniforms_agree handle K cache d \<longleftrightarrow> inj_on handle K \<and> fst ` dom (map_of cache) \<subseteq> K \<and>
     (\<forall>prog location value. map_of cache (prog, location) = Some value \<longrightarrow> d (handle prog, location) = value)"

lemma map_of_uniform_update:
  "uniform_cache_update first_key cache n prog location value = Some (b, cache') \<Longrightarrow>
     map_of cache' (p, l) = Some v \<Longrightarrow> (p, l) = (prog, location) \<and> v = value \<or> (p, l) \<noteq> (prog, location) \<and> map_of cache (p, l) = Some v"
  by (auto simp: uniform_cache_update_def Let_def update_conv' delete_conv' split: if_splits option.splits)

lemma uniform_update_laws:
  assumes "uniforms_agree handle K cache d" "prog \<in> K"
  shows "\<exists>b cache'. uniform_cache_update first_key cache MAX_UNIFORM_CACHE prog location value = Some (b, cache') \<and>
    uniforms_agree handle K cache' (d((handle prog, location) := value)) \<and> (\<not> b \<longrightarrow> d (handle prog, location) = value)"
proof -
  have "uniform_cache_update first_key cache MAX_UNIFORM_CACHE prog location value \<noteq> None"
    by (simp add: uniform_cache_update_def Let_def split: option.splits del: not_None_eq)
  then obtain b cache' where r: "uniform_cache_update first_key cache MAX_UNIFORM_CACHE prog location value = Some (b, cache')"
    by (metis not_None_eq surj_pair)
  have old: "d (handle p, l) = v" "p \<in> K" if "map_of cache (p, l) = Some v" for p l v
    using assms(1) that by (force simp: uniforms_agree_def)+
  have "\<not> b \<Longrightarrow> map_of cache (prog, location) = Some value"
    using r by (auto simp: uniform_cache_update_def Let_def split: if_splits option.splits)
  then have "\<not> b \<Longrightarrow> d (handle prog, location) = value" using old by blast
  moreover have "uniforms_agree handle K cache' (d((handle prog, location) := value))"
    unfolding uniforms_agree_def
  proof (intro conjI allI impI subsetI)
    show "inj_on handle K" using assms(1) by (simp add: uniforms_agree_def)
    fix p assume "p \<in> fst ` dom (map_of cache')"
    then obtain l v where "map_of cache' (p, l) = Some v" by auto
    with map_of_uniform_update [OF r this] old assms(2) show "p \<in> K" by blast
  next
    fix p l v assume v: "map_of cache' (p, l) = Some v"
    from map_of_uniform_update [OF r v] show "(d((handle prog, location) := value)) (handle p, l) = v"
      using old assms by (auto simp: uniforms_agree_def inj_on_def)
  qed
  ultimately show ?thesis using r by blast
qed


end
