(* ===== verification/Gpu_Budget.thy ===== *)
theory Gpu_Budget
  imports Prelude "HOL-Library.AList"
begin

text \<open>
  Admission of WebGL texture and renderbuffer storage
  (\<open>graphics/src/webgl_gpu_budget.rs\<close>): the sizes of allocations, the bindings
  that say which object an allocation is for, and the accounts of bytes per
  context and per process.

  An allocation is prepared (checked against both limits, growing the process
  account), then the driver is called, then the admission is committed or
  dropped. A \<open>HashMap\<close> is an association list with distinct keys; byte counts and
  dimensions are natural numbers with the \<open>u64\<close> and \<open>u32\<close> checks written out. The
  numeric values of the \<open>glow\<close> format constants are an argument, as is whether the
  allocator grants a reservation of table space.
\<close>

section \<open>Limits and errors\<close>

record gpu_limits =
  max_context_bytes :: nat
  max_process_bytes :: nat
  max_2d_dimension :: nat
  max_3d_dimension :: nat
  max_array_layers :: nat
  max_samples :: nat

definition PRODUCTION :: gpu_limits where
  "PRODUCTION = \<lparr> max_context_bytes = 128 * 1024 * 1024, max_process_bytes = 512 * 1024 * 1024,
     max_2d_dimension = 16384, max_3d_dimension = 2048, max_array_layers = 2048, max_samples = 16 \<rparr>"

datatype gpu_error = InvalidEnum | InvalidValue | InvalidOperation | OutOfMemory

abbreviation (input) GL_TEXTURE0 :: u32 where "GL_TEXTURE0 \<equiv> 0x84C0"
abbreviation (input) GL_TEXTURE_2D :: u32 where "GL_TEXTURE_2D \<equiv> 0x0DE1"
abbreviation (input) GL_TEXTURE_3D :: u32 where "GL_TEXTURE_3D \<equiv> 0x806F"
abbreviation (input) GL_TEXTURE_CUBE_MAP :: u32 where "GL_TEXTURE_CUBE_MAP \<equiv> 0x8513"
abbreviation (input) GL_TEXTURE_CUBE_MAP_POSITIVE_X :: u32 where "GL_TEXTURE_CUBE_MAP_POSITIVE_X \<equiv> 0x8515"
abbreviation (input) GL_TEXTURE_CUBE_MAP_NEGATIVE_Z :: u32 where "GL_TEXTURE_CUBE_MAP_NEGATIVE_Z \<equiv> 0x851A"
abbreviation (input) GL_TEXTURE_2D_ARRAY :: u32 where "GL_TEXTURE_2D_ARRAY \<equiv> 0x8C1A"
abbreviation (input) GL_RENDERBUFFER :: u32 where "GL_RENDERBUFFER \<equiv> 0x8D41"
abbreviation (input) WEBGL_TEXTURE_UNIT_COUNT :: u32 where "WEBGL_TEXTURE_UNIT_COUNT \<equiv> 32"

definition u64_checked_add :: "nat \<Rightarrow> nat \<Rightarrow> nat option" where
  "u64_checked_add a b = (if a + b < 2 ^ 64 then Some (a + b) else None)"

definition u64_checked_sub :: "nat \<Rightarrow> nat \<Rightarrow> nat option" where
  "u64_checked_sub a b = (if b \<le> a then Some (a - b) else None)"

definition u64_checked_mul :: "nat \<Rightarrow> nat \<Rightarrow> nat option" where
  "u64_checked_mul a b = (if a * b < 2 ^ 64 then Some (a * b) else None)"

section \<open>Sizes\<close>

definition checked_shr_or_0 :: "nat \<Rightarrow> nat \<Rightarrow> nat" where
  "checked_shr_or_0 d level = (if level < 32 then d div 2 ^ level else 0)"

definition is_cube_face :: "u32 \<Rightarrow> bool" where
  "is_cube_face target \<longleftrightarrow>
     GL_TEXTURE_CUBE_MAP_POSITIVE_X \<le> target \<and> target \<le> GL_TEXTURE_CUBE_MAP_NEGATIVE_Z"

definition validate_image_2d_dimensions ::
  "u32 \<Rightarrow> i32 \<Rightarrow> i32 \<Rightarrow> i32 \<Rightarrow> i32 \<Rightarrow> nat \<Rightarrow> gpu_error + nat \<times> nat \<times> nat" where
  "validate_image_2d_dimensions target level width height border max_dimension =
     (if target \<noteq> GL_TEXTURE_2D \<and> \<not> is_cube_face target then Inl InvalidEnum
      else if level < 0 \<or> width < 0 \<or> height < 0 \<or> border \<noteq> 0 then Inl InvalidValue
      else if nat level \<ge> bit_length max_dimension then Inl InvalidValue
      else
        let max_at_level = max (checked_shr_or_0 max_dimension (nat level)) 1 in
        if nat width > max_at_level \<or> nat height > max_at_level then Inl InvalidValue
        else if target \<noteq> GL_TEXTURE_2D \<and> nat width \<noteq> nat height then Inl InvalidValue
        else Inr (nat width, nat height, nat level))"

definition validate_storage_dimensions ::
  "i32 \<Rightarrow> i32 \<Rightarrow> i32 \<Rightarrow> nat \<Rightarrow> gpu_error + nat \<times> nat \<times> nat" where
  "validate_storage_dimensions levels width height max_dimension =
     (if levels \<le> 0 \<or> width \<le> 0 \<or> height \<le> 0 then Inl InvalidValue
      else if nat width > max_dimension \<or> nat height > max_dimension then Inl InvalidValue
      else if nat levels > bit_length (max (nat width) (nat height)) then Inl InvalidValue
      else Inr (nat width, nat height, nat levels))"

definition validate_image_3d_dimensions ::
  "u32 \<Rightarrow> i32 \<Rightarrow> i32 \<Rightarrow> i32 \<Rightarrow> i32 \<Rightarrow> i32 \<Rightarrow> gpu_limits \<Rightarrow> gpu_error + nat \<times> nat \<times> nat \<times> nat" where
  "validate_image_3d_dimensions target level width height depth border limits =
     (if target \<noteq> GL_TEXTURE_3D \<and> target \<noteq> GL_TEXTURE_2D_ARRAY then Inl InvalidEnum
      else if level < 0 \<or> width < 0 \<or> height < 0 \<or> depth < 0 \<or> border \<noteq> 0 then Inl InvalidValue
      else
        let base_max = (if target = GL_TEXTURE_3D then max_3d_dimension limits
                        else max_2d_dimension limits) in
        if nat level \<ge> bit_length base_max then Inl InvalidValue
        else
          let max_at_level = max (checked_shr_or_0 base_max (nat level)) 1;
              max_depth = (if target = GL_TEXTURE_3D
                           then max (checked_shr_or_0 (max_3d_dimension limits) (nat level)) 1
                           else max_array_layers limits) in
          if nat width > max_at_level \<or> nat height > max_at_level \<or> nat depth > max_depth
          then Inl InvalidValue
          else Inr (nat width, nat height, nat depth, nat level))"

definition validate_storage_3d_dimensions ::
  "u32 \<Rightarrow> i32 \<Rightarrow> i32 \<Rightarrow> i32 \<Rightarrow> i32 \<Rightarrow> gpu_limits \<Rightarrow> gpu_error + nat \<times> nat \<times> nat \<times> nat" where
  "validate_storage_3d_dimensions target levels width height depth limits =
     (if levels \<le> 0 \<or> width \<le> 0 \<or> height \<le> 0 \<or> depth \<le> 0 then Inl InvalidValue
      else
        let (max_xy, max_depth, mip_basis) =
          (if target = GL_TEXTURE_3D
           then (max_3d_dimension limits, max_3d_dimension limits,
                 max (max (nat width) (nat height)) (nat depth))
           else (max_2d_dimension limits, max_array_layers limits, max (nat width) (nat height))) in
        if nat width > max_xy \<or> nat height > max_xy \<or> nat depth > max_depth then Inl InvalidValue
        else if nat levels > bit_length mip_basis then Inl InvalidValue
        else Inr (nat width, nat height, nat depth, nat levels))"

definition checked_texel_bytes :: "nat list \<Rightarrow> nat \<Rightarrow> gpu_error + nat" where
  "checked_texel_bytes dimensions bpp = (case fold_opt u64_checked_mul bpp dimensions of
     None \<Rightarrow> Inl OutOfMemory
   | Some b \<Rightarrow> Inr b)"

fun mip_chain :: "nat \<Rightarrow> nat \<Rightarrow> nat \<Rightarrow> nat \<Rightarrow> bool \<Rightarrow> nat \<Rightarrow> nat \<Rightarrow> gpu_error + nat" where
  "mip_chain width height depth 0 mip_depth bpp acc = Inr acc"
| "mip_chain width height depth (Suc levels) mip_depth bpp acc =
     (case checked_texel_bytes [width, height, depth] bpp of
        Inl e \<Rightarrow> Inl e
      | Inr level \<Rightarrow>
          (case u64_checked_add acc level of
             None \<Rightarrow> Inl OutOfMemory
           | Some acc' \<Rightarrow>
               mip_chain (max (width div 2) 1) (max (height div 2) 1)
                 (if mip_depth then max (depth div 2) 1 else depth) levels mip_depth bpp acc'))"

definition checked_mip_chain_bytes ::
  "nat \<Rightarrow> nat \<Rightarrow> nat \<Rightarrow> nat \<Rightarrow> bool \<Rightarrow> nat \<Rightarrow> gpu_error + nat" where
  "checked_mip_chain_bytes width height depth levels mip_depth bpp =
     mip_chain width height depth levels mip_depth bpp 0"

section \<open>Formats\<close>

datatype (plugins only:) gl_format =
    R8 | R8_SNORM | R8I | R8UI | STENCIL_INDEX8
  | R16F | R16I | R16UI | RG8 | RG8_SNORM | RG8I | RG8UI | RGB565 | RGBA4 | RGB5_A1 | DEPTH_COMPONENT16
  | R32F | R32I | R32UI | RG16F | RG16I | RG16UI | RGB8 | RGB8_SNORM | SRGB8 | RGBA8 | RGBA8_SNORM
  | SRGB8_ALPHA8 | R11F_G11F_B10F | RGB9_E5 | RGB8I | RGB8UI | RGBA8I | RGBA8UI | RGB10_A2
  | RGB10_A2UI | DEPTH_COMPONENT24 | DEPTH_COMPONENT32F | DEPTH24_STENCIL8 | DEPTH_STENCIL
  | RG32F | RG32I | RG32UI | RGB16F | RGB16I | RGB16UI | RGBA16F | RGBA16I | RGBA16UI | DEPTH32F_STENCIL8
  | RGB32F | RGB32I | RGB32UI | RGBA32F | RGBA32I | RGBA32UI

type_synonym glow = "gl_format \<Rightarrow> u32"

definition sized_internal_format_bytes :: "glow \<Rightarrow> u32 \<Rightarrow> nat option" where
  "sized_internal_format_bytes glow format =
     (if format \<in> set (map glow [R8, R8_SNORM, R8I, R8UI, STENCIL_INDEX8]) then Some 1
      else if format \<in> set (map glow [R16F, R16I, R16UI, RG8, RG8_SNORM, RG8I, RG8UI, RGB565,
        RGBA4, RGB5_A1, DEPTH_COMPONENT16]) then Some 2
      else if format \<in> set (map glow [R32F, R32I, R32UI, RG16F, RG16I, RG16UI, RGB8, RGB8_SNORM,
        SRGB8, RGBA8, RGBA8_SNORM, SRGB8_ALPHA8, R11F_G11F_B10F, RGB9_E5, RGB8I, RGB8UI, RGBA8I,
        RGBA8UI, RGB10_A2, RGB10_A2UI, DEPTH_COMPONENT24, DEPTH_COMPONENT32F, DEPTH24_STENCIL8,
        DEPTH_STENCIL]) then Some 4
      else if format \<in> set (map glow [RG32F, RG32I, RG32UI, RGB16F, RGB16I, RGB16UI, RGBA16F,
        RGBA16I, RGBA16UI, DEPTH32F_STENCIL8]) then Some 8
      else if format \<in> set (map glow [RGB32F, RGB32I, RGB32UI, RGBA32F, RGBA32I, RGBA32UI])
      then Some 16
      else None)"

definition format_components :: "u32 \<Rightarrow> nat option" where
  "format_components format =
     (if format \<in> {0x1906, 0x1909, 0x1902, 0x1903, 0x8D94} then Some 1
      else if format \<in> {0x190A, 0x8227, 0x8228} then Some 2
      else if format \<in> {0x1907, 0x8C40, 0x8D98} then Some 3
      else if format \<in> {0x1908, 0x8C42, 0x8D99} then Some 4
      else if format = 0x84F9 then Some 1
      else None)"

definition upload_format_bytes :: "u32 \<Rightarrow> u32 \<Rightarrow> nat option" where
  "upload_format_bytes format ty =
     (if ty = 0x8363 \<and> format = 0x1907 then Some 2
      else if (ty = 0x8033 \<or> ty = 0x8034) \<and> format = 0x1908 then Some 2
      else if ty = 0x8368 \<and> format = 0x1908 then Some 4
      else if ty = 0x84FA \<and> format = 0x84F9 then Some 4
      else if ty = 0x8DAD \<and> format = 0x84F9 then Some 8
      else if ty = 0x1401 \<or> ty = 0x1400 then
        map_option (\<lambda>components. if components = 3 then 4 else components) (format_components format)
      else if ty = 0x1403 \<or> ty = 0x1402 \<or> ty = 0x140B \<or> ty = 0x8D61 then
        map_option (\<lambda>components. if components = 3 then 8 else components * 2) (format_components format)
      else if ty = 0x1405 \<or> ty = 0x1404 \<or> ty = 0x1406 then
        map_option (\<lambda>components. if components = 3 then 16 else components * 4) (format_components format)
      else None)"

definition tex_image_bytes_per_pixel :: "glow \<Rightarrow> i32 \<Rightarrow> u32 \<Rightarrow> u32 \<Rightarrow> gpu_error + nat" where
  "tex_image_bytes_per_pixel glow internal_format format ty =
     (if internal_format < 0 then Inl InvalidEnum
      else
        let fmt = word_of_int internal_format :: u32 in
        case sized_internal_format_bytes glow fmt of
          Some bytes \<Rightarrow> Inr bytes
        | None \<Rightarrow>
            if fmt \<noteq> format then Inl InvalidOperation
            else (case upload_format_bytes format ty of
                    None \<Rightarrow> Inl InvalidEnum
                  | Some b \<Rightarrow> Inr b))"

section \<open>Bindings\<close>

definition BINDING_TARGETS :: "u32 list" where
  "BINDING_TARGETS = [GL_TEXTURE_2D, GL_TEXTURE_CUBE_MAP, GL_TEXTURE_3D, GL_TEXTURE_2D_ARRAY]"

definition normalize_binding_target :: "u32 \<Rightarrow> u32 option" where
  "normalize_binding_target target =
     (if target = GL_TEXTURE_2D \<or> target = GL_TEXTURE_CUBE_MAP \<or> target = GL_TEXTURE_3D \<or>
         target = GL_TEXTURE_2D_ARRAY
      then Some target else None)"

definition is_valid_texture_unit :: "u32 \<Rightarrow> bool" where
  "is_valid_texture_unit unit \<longleftrightarrow>
     GL_TEXTURE0 \<le> unit \<and> unit < GL_TEXTURE0 + WEBGL_TEXTURE_UNIT_COUNT"

definition normalize_image_binding_target :: "u32 \<Rightarrow> u32 option" where
  "normalize_image_binding_target target =
     (if is_cube_face target then Some GL_TEXTURE_CUBE_MAP else normalize_binding_target target)"

fun position :: "('a \<Rightarrow> bool) \<Rightarrow> 'a list \<Rightarrow> nat option" where
  "position p [] = None"
| "position p (x # xs) = (if p x then Some 0 else map_option Suc (position p xs))"

text \<open>The ledger is the array of slots \<open>unit_index * 4 + target_index\<close>.\<close>

type_synonym unit_ledger = "u32 option list"

definition ledger_default :: unit_ledger where
  "ledger_default = replicate 128 None"

definition ledger_slot :: "u32 \<Rightarrow> u32 \<Rightarrow> nat option" where
  "ledger_slot unit target =
     (let unit_index = unat (unit - GL_TEXTURE0) in
      if unit_index \<ge> unat WEBGL_TEXTURE_UNIT_COUNT then None
      else map_option (\<lambda>target_index. unit_index * length BINDING_TARGETS + target_index)
             (position (\<lambda>t. t = target) BINDING_TARGETS))"

definition ledger_set :: "unit_ledger \<Rightarrow> u32 \<Rightarrow> u32 \<Rightarrow> u32 option \<Rightarrow> unit_ledger" where
  "ledger_set slots unit target texture = (case ledger_slot unit target of
     None \<Rightarrow> slots
   | Some i \<Rightarrow> slots[i := texture])"

definition ledger_get :: "unit_ledger \<Rightarrow> u32 \<Rightarrow> u32 \<Rightarrow> u32 option" where
  "ledger_get slots unit target = (case ledger_slot unit target of
     None \<Rightarrow> None
   | Some i \<Rightarrow> slots ! i)"

definition forget_texture :: "unit_ledger \<Rightarrow> u32 \<Rightarrow> unit_ledger" where
  "forget_texture slots texture = map (\<lambda>slot. if slot = Some texture then None else slot) slots"

record binding_state =
  bs_active_texture :: u32
  bs_textures :: unit_ledger
  bs_renderbuffer :: "u32 option"

definition binding_default :: binding_state where
  "binding_default = \<lparr> bs_active_texture = GL_TEXTURE0, bs_textures = ledger_default,
     bs_renderbuffer = None \<rparr>"

section \<open>The budget\<close>

datatype texture_storage =
    Mutable "((u32 \<times> nat) \<times> nat) list"
  | Immutable nat

definition storage_bytes :: "texture_storage \<Rightarrow> nat" where
  "storage_bytes s = (case s of Mutable images \<Rightarrow> sum_list (map snd images) | Immutable b \<Rightarrow> b)"

record texture_record =
  tr_owner :: u32
  tr_storage :: texture_storage

record renderbuffer_record =
  rr_owner :: u32
  rr_bytes :: nat

record gpu_budget =
  gb_limits :: gpu_limits
  gb_contexts :: "(u32 \<times> nat) list"
  gb_bindings :: "(u32 \<times> binding_state) list"
  gb_textures :: "(u32 \<times> texture_record) list"
  gb_renderbuffers :: "(u32 \<times> renderbuffer_record) list"

definition budget_with_limits :: "gpu_limits \<Rightarrow> gpu_budget" where
  "budget_with_limits limits = \<lparr> gb_limits = limits, gb_contexts = [], gb_bindings = [],
     gb_textures = [], gb_renderbuffers = [] \<rparr>"

text \<open>\<open>entry(k).or_insert(d)\<close> and \<open>*entry(k).or_default() = \<dots>\<close>\<close>

definition or_insert :: "'k \<Rightarrow> 'v \<Rightarrow> ('k \<times> 'v) list \<Rightarrow> ('k \<times> 'v) list" where
  "or_insert k d xs = (if map_of xs k = None then AList.update k d xs else xs)"

definition modify_entry :: "'k \<Rightarrow> 'v \<Rightarrow> ('v \<Rightarrow> 'v) \<Rightarrow> ('k \<times> 'v) list \<Rightarrow> ('k \<times> 'v) list" where
  "modify_entry k d f xs =
     AList.update k (f (case map_of xs k of None \<Rightarrow> d | Some v \<Rightarrow> v)) xs"

definition create_texture :: "bool \<Rightarrow> gpu_budget \<Rightarrow> u32 \<Rightarrow> u32 \<Rightarrow> gpu_error + gpu_budget" where
  "create_texture reserved b canvas_id texture =
     (if texture = 0 \<or> map_of (gb_textures b) texture \<noteq> None then Inl InvalidOperation
      else if \<not> reserved then Inl OutOfMemory
      else Inr (b\<lparr>
        gb_contexts := or_insert canvas_id 0 (gb_contexts b),
        gb_bindings := or_insert canvas_id binding_default (gb_bindings b),
        gb_textures := AList.update texture
          \<lparr> tr_owner = canvas_id, tr_storage = Mutable [] \<rparr> (gb_textures b) \<rparr>))"

definition create_renderbuffer :: "bool \<Rightarrow> gpu_budget \<Rightarrow> u32 \<Rightarrow> u32 \<Rightarrow> gpu_error + gpu_budget" where
  "create_renderbuffer reserved b canvas_id renderbuffer =
     (if renderbuffer = 0 \<or> map_of (gb_renderbuffers b) renderbuffer \<noteq> None then Inl InvalidOperation
      else if \<not> reserved then Inl OutOfMemory
      else Inr (b\<lparr>
        gb_contexts := or_insert canvas_id 0 (gb_contexts b),
        gb_bindings := or_insert canvas_id binding_default (gb_bindings b),
        gb_renderbuffers := AList.update renderbuffer
          \<lparr> rr_owner = canvas_id, rr_bytes = 0 \<rparr> (gb_renderbuffers b) \<rparr>))"

definition active_texture :: "gpu_budget \<Rightarrow> u32 \<Rightarrow> u32 \<Rightarrow> gpu_budget" where
  "active_texture b canvas_id unit =
     (if \<not> is_valid_texture_unit unit then b
      else b\<lparr> gb_bindings := modify_entry canvas_id binding_default
        (\<lambda>s. s\<lparr> bs_active_texture := unit \<rparr>) (gb_bindings b) \<rparr>)"

definition bind_texture :: "gpu_budget \<Rightarrow> u32 \<Rightarrow> u32 \<Rightarrow> u32 option \<Rightarrow> gpu_budget" where
  "bind_texture b canvas_id target texture = (case normalize_binding_target target of
     None \<Rightarrow> b
   | Some binding_target \<Rightarrow>
       b\<lparr> gb_bindings := modify_entry canvas_id binding_default
         (\<lambda>s. s\<lparr> bs_textures := ledger_set (bs_textures s) (bs_active_texture s) binding_target texture \<rparr>)
         (gb_bindings b) \<rparr>)"

definition bind_renderbuffer :: "gpu_budget \<Rightarrow> u32 \<Rightarrow> u32 \<Rightarrow> u32 option \<Rightarrow> gpu_budget" where
  "bind_renderbuffer b canvas_id target renderbuffer =
     (if target = GL_RENDERBUFFER
      then b\<lparr> gb_bindings := modify_entry canvas_id binding_default
        (\<lambda>s. s\<lparr> bs_renderbuffer := renderbuffer \<rparr>) (gb_bindings b) \<rparr>
      else b)"

definition bound_texture :: "gpu_budget \<Rightarrow> u32 \<Rightarrow> u32 \<Rightarrow> gpu_error + u32" where
  "bound_texture b canvas_id target = (case normalize_image_binding_target target of
     None \<Rightarrow> Inl InvalidEnum
   | Some binding_target \<Rightarrow>
       (case map_of (gb_bindings b) canvas_id of
          None \<Rightarrow> Inl InvalidOperation
        | Some state \<Rightarrow>
            (case ledger_get (bs_textures state) (bs_active_texture state) binding_target of
               None \<Rightarrow> Inl InvalidOperation
             | Some texture \<Rightarrow> Inr texture)))"

section \<open>Admission\<close>

text \<open>
  The process account is one number shared by every budget; an armed growth has
  been added to it and is taken back if the admission is dropped.
\<close>

definition process_try_grow :: "nat \<Rightarrow> nat \<Rightarrow> nat \<Rightarrow> gpu_error + nat" where
  "process_try_grow max_bytes used bytes =
     (if bytes = 0 then Inr used
      else case u64_checked_add used bytes of
        None \<Rightarrow> Inl OutOfMemory
      | Some n \<Rightarrow> if n \<le> max_bytes then Inr n else Inl OutOfMemory)"

text \<open>\<open>fetch_sub\<close> wraps; debug builds assert that it does not.\<close>

definition process_release :: "nat \<Rightarrow> nat \<Rightarrow> nat option" where
  "process_release used bytes =
     (if bytes = 0 then Some used else if bytes \<le> used then Some (used - bytes) else Panic)"

datatype prepared_kind =
    TextureImage u32 "u32 \<times> nat" nat
  | TextureImmutable u32 nat
  | RenderbufferStorage u32 nat

record prepared =
  pa_canvas :: u32
  pa_old :: nat
  pa_new :: nat
  pa_kind :: prepared_kind
  pa_growth :: nat

definition prepare_transition ::
  "gpu_budget \<Rightarrow> nat \<Rightarrow> u32 \<Rightarrow> nat \<Rightarrow> nat \<Rightarrow> prepared_kind \<Rightarrow> gpu_error + prepared \<times> nat" where
  "prepare_transition b process canvas_id old_object_bytes new_object_bytes kind =
     (let context_bytes = (case map_of (gb_contexts b) canvas_id of None \<Rightarrow> 0 | Some n \<Rightarrow> n);
          projected = u64_checked_sub context_bytes old_object_bytes \<bind>
            (\<lambda>base. u64_checked_add base new_object_bytes) \<bind>
            (\<lambda>n. if n \<le> max_context_bytes (gb_limits b) then Some n else None)
      in case projected of
           None \<Rightarrow> Inl OutOfMemory
         | Some _ \<Rightarrow>
             let growth = new_object_bytes - old_object_bytes in
             (case process_try_grow (max_process_bytes (gb_limits b)) process growth of
                Inl e \<Rightarrow> Inl e
              | Inr process' \<Rightarrow>
                  Inr (\<lparr> pa_canvas = canvas_id, pa_old = old_object_bytes, pa_new = new_object_bytes,
                         pa_kind = kind, pa_growth = growth \<rparr>, process')))"

text \<open>From the bound texture on, \<open>prepare_tex_image_2d\<close> and \<open>prepare_tex_image_3d\<close> are the same.\<close>

definition prepare_image ::
  "bool \<Rightarrow> gpu_budget \<Rightarrow> nat \<Rightarrow> u32 \<Rightarrow> u32 \<Rightarrow> nat \<Rightarrow> nat \<Rightarrow> gpu_error + prepared \<times> nat" where
  "prepare_image reserved b process canvas_id target level bytes =
     (case bound_texture b canvas_id target of
        Inl e \<Rightarrow> Inl e
      | Inr texture \<Rightarrow>
          (case map_of (gb_textures b) texture of
             None \<Rightarrow> Inl InvalidOperation
           | Some record \<Rightarrow>
               if tr_owner record \<noteq> canvas_id then Inl InvalidOperation
               else case tr_storage record of
                 Immutable _ \<Rightarrow> Inl InvalidOperation
               | Mutable images \<Rightarrow>
                   if map_of images (target, level) = None \<and> \<not> reserved then Inl OutOfMemory
                   else case fold_opt u64_checked_add 0 (map snd images) of
                     None \<Rightarrow> Inl OutOfMemory
                   | Some old_object_bytes \<Rightarrow>
                       let old_subresource_bytes =
                         (case map_of images (target, level) of None \<Rightarrow> 0 | Some v \<Rightarrow> v) in
                       (case u64_checked_sub old_object_bytes old_subresource_bytes \<bind>
                               (\<lambda>base. u64_checked_add base bytes) of
                          None \<Rightarrow> Inl OutOfMemory
                        | Some new_object_bytes \<Rightarrow>
                            prepare_transition b process canvas_id old_object_bytes new_object_bytes
                              (TextureImage texture (target, level) bytes))))"

definition prepare_immutable ::
  "gpu_budget \<Rightarrow> nat \<Rightarrow> u32 \<Rightarrow> u32 \<Rightarrow> nat \<Rightarrow> gpu_error + prepared \<times> nat" where
  "prepare_immutable b process canvas_id target bytes =
     (case bound_texture b canvas_id target of
        Inl e \<Rightarrow> Inl e
      | Inr texture \<Rightarrow>
          (case map_of (gb_textures b) texture of
             None \<Rightarrow> Inl InvalidOperation
           | Some record \<Rightarrow>
               if tr_owner record \<noteq> canvas_id \<or> (case tr_storage record of Immutable _ \<Rightarrow> True | Mutable _ \<Rightarrow> False)
               then Inl InvalidOperation
               else prepare_transition b process canvas_id (storage_bytes (tr_storage record)) bytes
                      (TextureImmutable texture bytes)))"

definition prepare_tex_image_2d ::
  "glow \<Rightarrow> bool \<Rightarrow> gpu_budget \<Rightarrow> nat \<Rightarrow> u32 \<Rightarrow> u32 \<Rightarrow> i32 \<Rightarrow> i32 \<Rightarrow> i32 \<Rightarrow> i32 \<Rightarrow> i32 \<Rightarrow> u32 \<Rightarrow> u32
   \<Rightarrow> gpu_error + prepared \<times> nat" where
  "prepare_tex_image_2d glow reserved b process canvas_id target level internal_format width height
     border format ty =
     (case validate_image_2d_dimensions target level width height border (max_2d_dimension (gb_limits b)) of
        Inl e \<Rightarrow> Inl e
      | Inr (w, h, l) \<Rightarrow>
          (case tex_image_bytes_per_pixel glow internal_format format ty of
             Inl e \<Rightarrow> Inl e
           | Inr bpp \<Rightarrow>
               (case checked_texel_bytes [w, h] bpp of
                  Inl e \<Rightarrow> Inl e
                | Inr bytes \<Rightarrow> prepare_image reserved b process canvas_id target l bytes)))"

definition prepare_tex_image_3d ::
  "glow \<Rightarrow> bool \<Rightarrow> gpu_budget \<Rightarrow> nat \<Rightarrow> u32 \<Rightarrow> u32 \<Rightarrow> i32 \<Rightarrow> i32 \<Rightarrow> i32 \<Rightarrow> i32 \<Rightarrow> i32 \<Rightarrow> i32 \<Rightarrow> u32 \<Rightarrow> u32
   \<Rightarrow> gpu_error + prepared \<times> nat" where
  "prepare_tex_image_3d glow reserved b process canvas_id target level internal_format width height
     depth border format ty =
     (case validate_image_3d_dimensions target level width height depth border (gb_limits b) of
        Inl e \<Rightarrow> Inl e
      | Inr (w, h, d, l) \<Rightarrow>
          (case tex_image_bytes_per_pixel glow internal_format format ty of
             Inl e \<Rightarrow> Inl e
           | Inr bpp \<Rightarrow>
               (case checked_texel_bytes [w, h, d] bpp of
                  Inl e \<Rightarrow> Inl e
                | Inr bytes \<Rightarrow> prepare_image reserved b process canvas_id target l bytes)))"

definition prepare_tex_storage_2d ::
  "glow \<Rightarrow> gpu_budget \<Rightarrow> nat \<Rightarrow> u32 \<Rightarrow> u32 \<Rightarrow> i32 \<Rightarrow> u32 \<Rightarrow> i32 \<Rightarrow> i32 \<Rightarrow> gpu_error + prepared \<times> nat" where
  "prepare_tex_storage_2d glow b process canvas_id target levels internal_format width height =
     (if target \<noteq> GL_TEXTURE_2D \<and> target \<noteq> GL_TEXTURE_CUBE_MAP then Inl InvalidEnum
      else case validate_storage_dimensions levels width height (max_2d_dimension (gb_limits b)) of
        Inl e \<Rightarrow> Inl e
      | Inr (w, h, l) \<Rightarrow>
          (case sized_internal_format_bytes glow internal_format of
             None \<Rightarrow> Inl InvalidEnum
           | Some bpp \<Rightarrow>
               (case checked_mip_chain_bytes w h 1 l False bpp of
                  Inl e \<Rightarrow> Inl e
                | Inr chain \<Rightarrow>
                    (case u64_checked_mul chain (if target = GL_TEXTURE_CUBE_MAP then 6 else 1) of
                       None \<Rightarrow> Inl OutOfMemory
                     | Some bytes \<Rightarrow> prepare_immutable b process canvas_id target bytes))))"

definition prepare_tex_storage_3d ::
  "glow \<Rightarrow> gpu_budget \<Rightarrow> nat \<Rightarrow> u32 \<Rightarrow> u32 \<Rightarrow> i32 \<Rightarrow> u32 \<Rightarrow> i32 \<Rightarrow> i32 \<Rightarrow> i32 \<Rightarrow> gpu_error + prepared \<times> nat" where
  "prepare_tex_storage_3d glow b process canvas_id target levels internal_format width height depth =
     (if target \<noteq> GL_TEXTURE_3D \<and> target \<noteq> GL_TEXTURE_2D_ARRAY then Inl InvalidEnum
      else case validate_storage_3d_dimensions target levels width height depth (gb_limits b) of
        Inl e \<Rightarrow> Inl e
      | Inr (w, h, d, l) \<Rightarrow>
          (case sized_internal_format_bytes glow internal_format of
             None \<Rightarrow> Inl InvalidEnum
           | Some bpp \<Rightarrow>
               (case checked_mip_chain_bytes w h d l (target = GL_TEXTURE_3D) bpp of
                  Inl e \<Rightarrow> Inl e
                | Inr bytes \<Rightarrow> prepare_immutable b process canvas_id target bytes)))"

definition prepare_renderbuffer_storage ::
  "glow \<Rightarrow> gpu_budget \<Rightarrow> nat \<Rightarrow> u32 \<Rightarrow> u32 \<Rightarrow> u32 \<Rightarrow> i32 \<Rightarrow> i32 \<Rightarrow> i32 \<Rightarrow> gpu_error + prepared \<times> nat" where
  "prepare_renderbuffer_storage glow b process canvas_id target internal_format width height samples =
     (if target \<noteq> GL_RENDERBUFFER then Inl InvalidEnum
      else if width < 0 \<or> height < 0 \<or> samples < 0 then Inl InvalidValue
      else if nat width > max_2d_dimension (gb_limits b) \<or> nat height > max_2d_dimension (gb_limits b) \<or>
              nat samples > max_samples (gb_limits b) then Inl InvalidValue
      else case sized_internal_format_bytes glow internal_format of
        None \<Rightarrow> Inl InvalidEnum
      | Some bpp \<Rightarrow>
          (case checked_texel_bytes [nat width, nat height, max (nat samples) 1] bpp of
             Inl e \<Rightarrow> Inl e
           | Inr bytes \<Rightarrow>
               (case map_of (gb_bindings b) canvas_id \<bind> bs_renderbuffer of
                  None \<Rightarrow> Inl InvalidOperation
                | Some renderbuffer \<Rightarrow>
                    (case map_of (gb_renderbuffers b) renderbuffer of
                       None \<Rightarrow> Inl InvalidOperation
                     | Some record \<Rightarrow>
                         if rr_owner record \<noteq> canvas_id then Inl InvalidOperation
                         else prepare_transition b process canvas_id (rr_bytes record) bytes
                                (RenderbufferStorage renderbuffer bytes)))))"

section \<open>Commit and release\<close>

definition commit_kind :: "gpu_budget \<Rightarrow> prepared_kind \<Rightarrow> gpu_budget option" where
  "commit_kind b kind = (case kind of
     TextureImage texture subresource bytes \<Rightarrow>
       (case map_of (gb_textures b) texture of
          None \<Rightarrow> Panic
        | Some record \<Rightarrow>
            (case tr_storage record of
               Immutable _ \<Rightarrow> Panic
             | Mutable images \<Rightarrow>
                 Some (b\<lparr> gb_textures := AList.update texture
                   (record\<lparr> tr_storage := Mutable (AList.update subresource bytes images) \<rparr>)
                   (gb_textures b) \<rparr>)))
   | TextureImmutable texture bytes \<Rightarrow>
       (case map_of (gb_textures b) texture of
          None \<Rightarrow> Panic
        | Some record \<Rightarrow>
            Some (b\<lparr> gb_textures := AList.update texture
              (record\<lparr> tr_storage := Immutable bytes \<rparr>) (gb_textures b) \<rparr>))
   | RenderbufferStorage renderbuffer bytes \<Rightarrow>
       (case map_of (gb_renderbuffers b) renderbuffer of
          None \<Rightarrow> Panic
        | Some record \<Rightarrow>
            Some (b\<lparr> gb_renderbuffers := AList.update renderbuffer
              (record\<lparr> rr_bytes := bytes \<rparr>) (gb_renderbuffers b) \<rparr>)))"

definition commit :: "gpu_budget \<Rightarrow> nat \<Rightarrow> prepared \<Rightarrow> (gpu_budget \<times> nat) option" where
  "commit b process pr = do {
     let context = (case map_of (gb_contexts b) (pa_canvas pr) of None \<Rightarrow> 0 | Some n \<Rightarrow> n);
     context' \<leftarrow> u64_checked_sub context (pa_old pr) \<bind> (\<lambda>base. u64_checked_add base (pa_new pr));
     let b1 = b\<lparr> gb_contexts := AList.update (pa_canvas pr) context' (gb_contexts b) \<rparr>;
     b2 \<leftarrow> commit_kind b1 (pa_kind pr);
     process' \<leftarrow> (if pa_new pr < pa_old pr then process_release process (pa_old pr - pa_new pr)
                  else Some process);
     Some (b2, process') }"

text \<open>Dropping an admission that was not committed takes its growth back.\<close>

definition drop_prepared :: "nat \<Rightarrow> prepared \<Rightarrow> nat option" where
  "drop_prepared process pr =
     (if pa_growth pr \<noteq> 0 then process_release process (pa_growth pr) else Some process)"

definition release_context_bytes :: "gpu_budget \<Rightarrow> nat \<Rightarrow> u32 \<Rightarrow> nat \<Rightarrow> (gpu_budget \<times> nat) option" where
  "release_context_bytes b process canvas_id bytes =
     (if bytes = 0 then Some (b, process)
      else do {
        context \<leftarrow> map_of (gb_contexts b) canvas_id;
        context' \<leftarrow> u64_checked_sub context bytes;
        process' \<leftarrow> process_release process bytes;
        Some (b\<lparr> gb_contexts := AList.update canvas_id context' (gb_contexts b) \<rparr>, process') })"

definition delete_texture :: "gpu_budget \<Rightarrow> nat \<Rightarrow> u32 \<Rightarrow> (nat \<times> gpu_budget \<times> nat) option" where
  "delete_texture b process texture = (case map_of (gb_textures b) texture of
     None \<Rightarrow> Some (0, b, process)
   | Some record \<Rightarrow> do {
       let b1 = b\<lparr> gb_textures := AList.delete texture (gb_textures b),
                   gb_bindings := map (\<lambda>(c, s). (c, s\<lparr> bs_textures :=
                     forget_texture (bs_textures s) texture \<rparr>)) (gb_bindings b) \<rparr>;
       let bytes = storage_bytes (tr_storage record);
       (b2, process') \<leftarrow> release_context_bytes b1 process (tr_owner record) bytes;
       Some (bytes, b2, process') })"

definition delete_renderbuffer :: "gpu_budget \<Rightarrow> nat \<Rightarrow> u32 \<Rightarrow> (nat \<times> gpu_budget \<times> nat) option" where
  "delete_renderbuffer b process renderbuffer = (case map_of (gb_renderbuffers b) renderbuffer of
     None \<Rightarrow> Some (0, b, process)
   | Some record \<Rightarrow> do {
       let b1 = b\<lparr> gb_renderbuffers := AList.delete renderbuffer (gb_renderbuffers b),
                   gb_bindings := map (\<lambda>(c, s). (c, if bs_renderbuffer s = Some renderbuffer
                     then s\<lparr> bs_renderbuffer := None \<rparr> else s)) (gb_bindings b) \<rparr>;
       (b2, process') \<leftarrow> release_context_bytes b1 process (rr_owner record) (rr_bytes record);
       Some (rr_bytes record, b2, process') })"

definition release_context :: "gpu_budget \<Rightarrow> nat \<Rightarrow> u32 \<Rightarrow> (nat \<times> gpu_budget \<times> nat) option" where
  "release_context b process canvas_id = do {
     let bytes = (case map_of (gb_contexts b) canvas_id of None \<Rightarrow> 0 | Some n \<Rightarrow> n);
     process' \<leftarrow> process_release process bytes;
     Some (bytes, b\<lparr>
       gb_bindings := AList.delete canvas_id (gb_bindings b),
       gb_textures := filter (\<lambda>(_, r). tr_owner r \<noteq> canvas_id) (gb_textures b),
       gb_renderbuffers := filter (\<lambda>(_, r). rr_owner r \<noteq> canvas_id) (gb_renderbuffers b),
       gb_contexts := AList.delete canvas_id (gb_contexts b) \<rparr>, process') }"

definition clear_budget :: "gpu_budget \<Rightarrow> nat \<Rightarrow> (nat \<times> gpu_budget \<times> nat) option" where
  "clear_budget b process = do {
     let bytes = sum_list (map snd (gb_contexts b));
     process' \<leftarrow> process_release process bytes;
     Some (bytes, b\<lparr> gb_bindings := [], gb_textures := [], gb_renderbuffers := [],
       gb_contexts := [] \<rparr>, process') }"

section \<open>The accounts\<close>

definition owned_textures :: "gpu_budget \<Rightarrow> u32 \<Rightarrow> nat" where
  "owned_textures b c =
     sum_list (map (\<lambda>(_, r). if tr_owner r = c then storage_bytes (tr_storage r) else 0) (gb_textures b))"

definition owned_renderbuffers :: "gpu_budget \<Rightarrow> u32 \<Rightarrow> nat" where
  "owned_renderbuffers b c =
     sum_list (map (\<lambda>(_, r). if rr_owner r = c then rr_bytes r else 0) (gb_renderbuffers b))"

definition context_bytes :: "gpu_budget \<Rightarrow> u32 \<Rightarrow> nat" where
  "context_bytes b c = (case map_of (gb_contexts b) c of None \<Rightarrow> 0 | Some n \<Rightarrow> n)"

definition held_bytes :: "gpu_budget \<Rightarrow> nat" where
  "held_bytes b = sum_list (map snd (gb_contexts b))"

definition limits_ok :: "gpu_limits \<Rightarrow> bool" where
  "limits_ok l \<longleftrightarrow> max_context_bytes l < 2 ^ 64 \<and> max_process_bytes l < 2 ^ 64"

definition storage_ok :: "texture_storage \<Rightarrow> bool" where
  "storage_ok s = (case s of Mutable images \<Rightarrow> distinct (map fst images) | Immutable _ \<Rightarrow> True)"

definition budget_inv :: "gpu_budget \<Rightarrow> bool" where
  "budget_inv b \<longleftrightarrow> limits_ok (gb_limits b) \<and>
     distinct (map fst (gb_contexts b)) \<and> distinct (map fst (gb_textures b)) \<and>
     distinct (map fst (gb_renderbuffers b)) \<and> distinct (map fst (gb_bindings b)) \<and>
     (\<forall>r \<in> snd ` set (gb_textures b). storage_ok (tr_storage r)) \<and>
     (\<forall>c. owned_textures b c + owned_renderbuffers b c = context_bytes b c) \<and>
     (\<forall>c. context_bytes b c \<le> max_context_bytes (gb_limits b))"

section \<open>Sums over tables\<close>

lemma sum_update [books]:
  fixes f :: "'k \<times> 'v \<Rightarrow> nat"
  assumes "distinct (map fst xs)"
  shows "sum_list (map f (AList.update k v xs)) + (case map_of xs k of None \<Rightarrow> 0 | Some w \<Rightarrow> f (k, w)) =
    sum_list (map f xs) + f (k, v)"
  using assms by (induction xs) (auto split: option.splits dest: map_of_SomeD)

lemma sum_delete [books]:
  fixes f :: "'k \<times> 'v \<Rightarrow> nat"
  assumes "distinct (map fst xs)"
  shows "sum_list (map f (AList.delete k xs)) + (case map_of xs k of None \<Rightarrow> 0 | Some w \<Rightarrow> f (k, w)) =
    sum_list (map f xs)"
  using assms
proof (induction xs)
  case (Cons x xs)
  show ?case
  proof (cases "fst x = k")
    case True
    with Cons.prems have "k \<notin> fst ` set xs" by auto
    then have "AList.delete k xs = xs" "map_of xs k = None"
      by (simp_all add: delete_id map_of_eq_None_iff)
    with True show ?thesis by (cases x) simp
  qed (use Cons in \<open>cases x; auto\<close>)
qed simp

lemma sum_member:
  fixes f :: "'k \<times> 'v \<Rightarrow> nat"
  shows "map_of xs k = Some v \<Longrightarrow> f (k, v) \<le> sum_list (map f xs)"
  using map_of_SomeD [of xs k v] member_le_sum_list [of "f (k, v)" "map f xs"] by force

lemma sum_or_insert:
  fixes f :: "'k \<times> 'v \<Rightarrow> nat"
  shows "distinct (map fst xs) \<Longrightarrow> f (k, d) = 0 \<Longrightarrow> sum_list (map f (or_insert k d xs)) = sum_list (map f xs)"
  using sum_update [of xs f k d] by (auto simp: or_insert_def)

lemma fold_checked_add_Some:
  "fold_opt u64_checked_add a xs = Some r \<Longrightarrow> r = a + sum_list xs"
proof (induction xs arbitrary: a)
  case (Cons x xs)
  then obtain y where y: "u64_checked_add a x = Some y" and "fold_opt u64_checked_add y xs = Some r"
    by (auto split: bind_splits option.splits)
  then have "r = y + sum_list xs" by (intro Cons.IH)
  with y show ?case by (simp add: u64_checked_add_def split: if_splits)
qed simp

lemma set_update_sub: "x \<in> set (AList.update k v xs) \<Longrightarrow> x = (k, v) \<or> x \<in> set xs"
  by (induction xs) (auto split: if_splits)

section \<open>One request, five entry points\<close>

datatype gpu_request =
    TexImage2D u32 i32 i32 i32 i32 i32 u32 u32
  | TexStorage2D u32 i32 u32 i32 i32
  | TexImage3D u32 i32 i32 i32 i32 i32 i32 u32 u32
  | TexStorage3D u32 i32 u32 i32 i32 i32
  | RenderbufferStorageReq u32 u32 i32 i32 i32

definition prepare ::
  "glow \<Rightarrow> bool \<Rightarrow> gpu_budget \<Rightarrow> nat \<Rightarrow> u32 \<Rightarrow> gpu_request \<Rightarrow> gpu_error + prepared \<times> nat" where
  "prepare glow reserved b process c req = (case req of
     TexImage2D target level ifmt w h border format ty \<Rightarrow>
       prepare_tex_image_2d glow reserved b process c target level ifmt w h border format ty
   | TexStorage2D target levels ifmt w h \<Rightarrow> prepare_tex_storage_2d glow b process c target levels ifmt w h
   | TexImage3D target level ifmt w h d border format ty \<Rightarrow>
       prepare_tex_image_3d glow reserved b process c target level ifmt w h d border format ty
   | TexStorage3D target levels ifmt w h d \<Rightarrow>
       prepare_tex_storage_3d glow b process c target levels ifmt w h d
   | RenderbufferStorageReq target ifmt w h samples \<Rightarrow>
       prepare_renderbuffer_storage glow b process c target ifmt w h samples)"

definition kind_fits :: "gpu_budget \<Rightarrow> prepared \<Rightarrow> bool" where
  "kind_fits b pr = (case pa_kind pr of
     TextureImage t sub bytes \<Rightarrow>
       (\<exists>images. map_of (gb_textures b) t = Some \<lparr> tr_owner = pa_canvas pr, tr_storage = Mutable images \<rparr> \<and>
          pa_old pr = sum_list (map snd images) \<and>
          pa_new pr + (case map_of images sub of None \<Rightarrow> 0 | Some v \<Rightarrow> v) = pa_old pr + bytes)
   | TextureImmutable t bytes \<Rightarrow>
       (\<exists>st. map_of (gb_textures b) t = Some \<lparr> tr_owner = pa_canvas pr, tr_storage = st \<rparr> \<and>
          pa_old pr = storage_bytes st \<and> pa_new pr = bytes)
   | RenderbufferStorage r bytes \<Rightarrow>
       map_of (gb_renderbuffers b) r = Some \<lparr> rr_owner = pa_canvas pr, rr_bytes = pa_old pr \<rparr> \<and>
       pa_new pr = bytes)"

definition admission_ok :: "gpu_budget \<Rightarrow> nat \<Rightarrow> prepared \<Rightarrow> nat \<Rightarrow> bool" where
  "admission_ok b process pr process' \<longleftrightarrow> kind_fits b pr \<and>
     pa_old pr \<le> context_bytes b (pa_canvas pr) \<and>
     context_bytes b (pa_canvas pr) - pa_old pr + pa_new pr \<le> max_context_bytes (gb_limits b) \<and>
     pa_growth pr = pa_new pr - pa_old pr \<and> process' = process + pa_growth pr \<and>
     (process \<le> max_process_bytes (gb_limits b) \<longrightarrow> process' \<le> max_process_bytes (gb_limits b))"

lemma prepare_transition_ok:
  assumes "prepare_transition b process c old_bytes new_bytes kind = Inr (pr, process')"
    and "kind_fits b \<lparr> pa_canvas = c, pa_old = old_bytes, pa_new = new_bytes, pa_kind = kind,
           pa_growth = new_bytes - old_bytes \<rparr>"
  shows "admission_ok b process pr process' \<and> pa_canvas pr = c"
  using assms
  by (auto simp: prepare_transition_def Let_def process_try_grow_def u64_checked_add_def
      u64_checked_sub_def admission_ok_def context_bytes_def split: if_splits option.splits sum.splits bind_splits)

lemma prepare_image_ok:
  assumes "prepare_image reserved b process c target l bytes = Inr (pr, process')"
  shows "admission_ok b process pr process' \<and> pa_canvas pr = c"
proof -
  obtain t r images old_bytes new_bytes where *: "map_of (gb_textures b) t = Some r" "tr_owner r = c"
      "tr_storage r = Mutable images" "fold_opt u64_checked_add 0 (map snd images) = Some old_bytes"
      "u64_checked_sub old_bytes (case map_of images (target, l) of None \<Rightarrow> 0 | Some v \<Rightarrow> v) \<bind>
        (\<lambda>base. u64_checked_add base bytes) = Some new_bytes"
      "prepare_transition b process c old_bytes new_bytes (TextureImage t (target, l) bytes) = Inr (pr, process')"
    using assms by (auto simp: prepare_image_def Let_def split: sum.splits option.splits if_splits
        texture_storage.splits)
  have r: "r = \<lparr> tr_owner = c, tr_storage = Mutable images \<rparr>" using *(2,3) by simp
  show ?thesis
    using *(1,5) fold_checked_add_Some [OF *(4)]
    by (intro prepare_transition_ok [OF *(6)])
      (auto simp: kind_fits_def r u64_checked_add_def u64_checked_sub_def split: if_splits bind_splits)
qed

lemma prepare_immutable_ok:
  assumes "prepare_immutable b process c target bytes = Inr (pr, process')"
  shows "admission_ok b process pr process' \<and> pa_canvas pr = c"
proof -
  obtain t r where *: "map_of (gb_textures b) t = Some r" "tr_owner r = c"
      "prepare_transition b process c (storage_bytes (tr_storage r)) bytes (TextureImmutable t bytes)
         = Inr (pr, process')"
    using assms by (auto simp: prepare_immutable_def split: sum.splits option.splits if_splits)
  have "r = \<lparr> tr_owner = c, tr_storage = tr_storage r \<rparr>" using *(2) by simp
  with *(1) show ?thesis
    by (intro prepare_transition_ok [OF *(3)]) (auto simp: kind_fits_def)
qed

lemma prepare_ok:
  assumes "prepare glow reserved b process c req = Inr (pr, process')"
  shows "admission_ok b process pr process' \<and> pa_canvas pr = c"
proof (cases req)
  case (RenderbufferStorageReq target ifmt w h samples)
  with assms obtain r rec bytes where *: "map_of (gb_renderbuffers b) r = Some rec" "rr_owner rec = c"
      "prepare_transition b process c (rr_bytes rec) bytes (RenderbufferStorage r bytes) = Inr (pr, process')"
    by (auto simp: prepare_def prepare_renderbuffer_storage_def split: sum.splits option.splits if_splits)
  have "rec = \<lparr> rr_owner = c, rr_bytes = rr_bytes rec \<rparr>" using *(2) by simp
  with *(1) show ?thesis
    by (intro prepare_transition_ok [OF *(3)]) (auto simp: kind_fits_def)
qed (use assms in \<open>auto simp: prepare_def prepare_tex_image_2d_def prepare_tex_storage_2d_def
      prepare_tex_image_3d_def prepare_tex_storage_3d_def
      dest: prepare_image_ok prepare_immutable_ok split: sum.splits option.splits if_splits prod.splits\<close>)

section \<open>Committing keeps the accounts\<close>

lemma context_bytes_le_held: "context_bytes b c \<le> held_bytes b"
  using sum_member [of "gb_contexts b" c _ snd]
  by (auto simp: context_bytes_def held_bytes_def split: option.splits)

text \<open>What one entry of a table contributes when it is replaced.\<close>

lemma owned_textures_update:
  assumes "distinct (map fst (gb_textures b))" "map_of (gb_textures b) t = Some r"
  shows "owned_textures (b\<lparr> gb_textures := AList.update t r' (gb_textures b) \<rparr>) c +
      (if tr_owner r = c then storage_bytes (tr_storage r) else 0) =
    owned_textures b c + (if tr_owner r' = c then storage_bytes (tr_storage r') else 0)"
  using sum_update [OF assms(1), of "\<lambda>(_, r). if tr_owner r = c then storage_bytes (tr_storage r) else 0" t r']
  by (simp add: owned_textures_def assms(2))

lemma owned_renderbuffers_update:
  assumes "distinct (map fst (gb_renderbuffers b))" "map_of (gb_renderbuffers b) t = Some r"
  shows "owned_renderbuffers (b\<lparr> gb_renderbuffers := AList.update t r' (gb_renderbuffers b) \<rparr>) c +
      (if rr_owner r = c then rr_bytes r else 0) =
    owned_renderbuffers b c + (if rr_owner r' = c then rr_bytes r' else 0)"
  using sum_update [OF assms(1), of "\<lambda>(_, r). if rr_owner r = c then rr_bytes r else 0" t r']
  by (simp add: owned_renderbuffers_def assms(2))

lemma context_bytes_update:
  "context_bytes (b\<lparr> gb_contexts := AList.update c n (gb_contexts b) \<rparr>) c' =
     (if c' = c then n else context_bytes b c')"
  by (simp add: context_bytes_def update_conv')

lemma held_bytes_update:
  "distinct (map fst (gb_contexts b)) \<Longrightarrow>
     held_bytes (b\<lparr> gb_contexts := AList.update c n (gb_contexts b) \<rparr>) + context_bytes b c = held_bytes b + n"
  using sum_update [of "gb_contexts b" snd c n]
  by (cases "map_of (gb_contexts b) c") (simp_all add: held_bytes_def context_bytes_def)

text \<open>The tables a set of bytes lives in are independent of each other.\<close>

lemma accounts_frame [simp]:
  "owned_textures (b\<lparr> gb_contexts := x \<rparr>) = owned_textures b"
  "owned_textures (b\<lparr> gb_bindings := y \<rparr>) = owned_textures b"
  "owned_textures (b\<lparr> gb_renderbuffers := z \<rparr>) = owned_textures b"
  "owned_renderbuffers (b\<lparr> gb_contexts := x \<rparr>) = owned_renderbuffers b"
  "owned_renderbuffers (b\<lparr> gb_bindings := y \<rparr>) = owned_renderbuffers b"
  "owned_renderbuffers (b\<lparr> gb_textures := w \<rparr>) = owned_renderbuffers b"
  "context_bytes (b\<lparr> gb_bindings := y \<rparr>) = context_bytes b"
  "context_bytes (b\<lparr> gb_textures := w \<rparr>) = context_bytes b"
  "context_bytes (b\<lparr> gb_renderbuffers := z \<rparr>) = context_bytes b"
  "held_bytes (b\<lparr> gb_bindings := y \<rparr>) = held_bytes b"
  "held_bytes (b\<lparr> gb_textures := w \<rparr>) = held_bytes b"
  "held_bytes (b\<lparr> gb_renderbuffers := z \<rparr>) = held_bytes b"
  by (auto simp: owned_textures_def owned_renderbuffers_def context_bytes_def held_bytes_def fun_eq_iff)

text \<open>
  An object of context \<open>c\<close> goes from \<open>old\<close> to \<open>new\<close> bytes: the owned sums and the
  context account of \<open>c\<close> move together.
\<close>

definition moved :: "gpu_budget \<Rightarrow> u32 \<Rightarrow> nat \<Rightarrow> nat \<Rightarrow> gpu_budget \<Rightarrow> bool" where
  "moved b c old_bytes new_bytes b' \<longleftrightarrow> gb_limits b' = gb_limits b \<and> gb_contexts b' = gb_contexts b \<and>
     distinct (map fst (gb_bindings b')) \<and>
     distinct (map fst (gb_textures b')) \<and> distinct (map fst (gb_renderbuffers b')) \<and>
     (\<forall>r \<in> snd ` set (gb_textures b'). storage_ok (tr_storage r)) \<and>
     (\<forall>x. owned_textures b' x + owned_renderbuffers b' x + (if x = c then old_bytes else 0) =
          owned_textures b x + owned_renderbuffers b x + (if x = c then new_bytes else 0))"

lemma budget_inv_tables:
  "budget_inv b \<Longrightarrow> distinct (map fst (gb_contexts b)) \<and> distinct (map fst (gb_bindings b)) \<and>
     distinct (map fst (gb_textures b)) \<and> distinct (map fst (gb_renderbuffers b)) \<and>
     (\<forall>r \<in> snd ` set (gb_textures b). storage_ok (tr_storage r))"
  by (simp add: budget_inv_def)

lemma moved_texture:
  assumes "budget_inv b" "map_of (gb_textures b) t = Some r" "tr_owner r' = tr_owner r" "storage_ok (tr_storage r')"
  shows "moved b (tr_owner r) (storage_bytes (tr_storage r)) (storage_bytes (tr_storage r'))
    (b\<lparr> gb_textures := AList.update t r' (gb_textures b) \<rparr>)"
proof -
  have d: "distinct (map fst (gb_textures b))" using assms(1) by (simp add: budget_inv_def)
  have "owned_textures (b\<lparr> gb_textures := AList.update t r' (gb_textures b) \<rparr>) x +
      (if x = tr_owner r then storage_bytes (tr_storage r) else 0) =
    owned_textures b x + (if x = tr_owner r then storage_bytes (tr_storage r') else 0)" for x
    using owned_textures_update [OF d assms(2), of r' x] assms(3) by (simp split: if_splits)
  moreover have "\<forall>q \<in> snd ` set (AList.update t r' (gb_textures b)). storage_ok (tr_storage q)"
    using assms(1,4) by (auto simp: budget_inv_def dest!: set_update_sub)
  ultimately show ?thesis
    using budget_inv_tables [OF assms(1)] by (simp add: moved_def distinct_update)
qed

lemma moved_renderbuffer:
  assumes "budget_inv b" "map_of (gb_renderbuffers b) t = Some r" "rr_owner r' = rr_owner r"
  shows "moved b (rr_owner r) (rr_bytes r) (rr_bytes r')
    (b\<lparr> gb_renderbuffers := AList.update t r' (gb_renderbuffers b) \<rparr>)"
proof -
  have d: "distinct (map fst (gb_renderbuffers b))" using assms(1) by (simp add: budget_inv_def)
  have "owned_renderbuffers (b\<lparr> gb_renderbuffers := AList.update t r' (gb_renderbuffers b) \<rparr>) x +
      (if x = rr_owner r then rr_bytes r else 0) =
    owned_renderbuffers b x + (if x = rr_owner r then rr_bytes r' else 0)" for x
    using owned_renderbuffers_update [OF d assms(2), of r' x] assms(3) by (simp split: if_splits)
  then show ?thesis
    using budget_inv_tables [OF assms(1)] by (simp add: moved_def distinct_update)
qed

lemma commit_kind_moves:
  assumes "budget_inv b" "kind_fits b pr"
  shows "\<exists>b'. commit_kind b (pa_kind pr) = Some b' \<and> moved b (pa_canvas pr) (pa_old pr) (pa_new pr) b'"
proof (cases "pa_kind pr")
  case (TextureImage t sub bytes)
  then obtain images where t: "map_of (gb_textures b) t = Some \<lparr> tr_owner = pa_canvas pr, tr_storage = Mutable images \<rparr>"
      "pa_old pr = sum_list (map snd images)"
      "pa_new pr + (case map_of images sub of None \<Rightarrow> 0 | Some v \<Rightarrow> v) = pa_old pr + bytes"
    using assms(2) by (auto simp: kind_fits_def)
  have d: "distinct (map fst images)"
    using assms(1) map_of_SomeD [OF t(1)] by (force simp: budget_inv_def storage_ok_def)
  have "storage_bytes (Mutable (AList.update sub bytes images)) = pa_new pr"
    using sum_update [OF d, of snd sub bytes] t(2,3)
    by (cases "map_of images sub") (simp_all add: storage_bytes_def)
  with moved_texture [OF assms(1) t(1), of "\<lparr> tr_owner = pa_canvas pr,
      tr_storage = Mutable (AList.update sub bytes images) \<rparr>"] t d
  show ?thesis
    by (simp add: TextureImage commit_kind_def distinct_update storage_ok_def storage_bytes_def)
next
  case (TextureImmutable t bytes)
  then obtain st where t: "map_of (gb_textures b) t = Some \<lparr> tr_owner = pa_canvas pr, tr_storage = st \<rparr>"
      "pa_old pr = storage_bytes st" "pa_new pr = bytes"
    using assms(2) by (auto simp: kind_fits_def)
  with moved_texture [OF assms(1) t(1), of "\<lparr> tr_owner = pa_canvas pr, tr_storage = Immutable bytes \<rparr>"]
  show ?thesis
    by (simp add: TextureImmutable commit_kind_def storage_ok_def storage_bytes_def)
next
  case (RenderbufferStorage r bytes)
  then have r: "map_of (gb_renderbuffers b) r = Some \<lparr> rr_owner = pa_canvas pr, rr_bytes = pa_old pr \<rparr>"
      "pa_new pr = bytes"
    using assms(2) by (auto simp: kind_fits_def)
  with moved_renderbuffer [OF assms(1) r(1), of "\<lparr> rr_owner = pa_canvas pr, rr_bytes = bytes \<rparr>"]
  show ?thesis
    by (simp add: RenderbufferStorage commit_kind_def)
qed

lemma moved_context:
  assumes inv: "budget_inv b" and m: "moved b c old_bytes new_bytes b'"
    and o: "old_bytes \<le> context_bytes b c" and n: "n = context_bytes b c - old_bytes + new_bytes"
    and l: "n \<le> max_context_bytes (gb_limits b)"
  defines "b'' \<equiv> b'\<lparr> gb_contexts := AList.update c n (gb_contexts b') \<rparr>"
  shows "budget_inv b'' \<and> gb_limits b'' = gb_limits b \<and> held_bytes b'' + old_bytes = held_bytes b + new_bytes"
proof -
  have d: "distinct (map fst (gb_contexts b))" using inv by (simp add: budget_inv_def)
  have ctx: "context_bytes b' = context_bytes b" "held_bytes b' = held_bytes b"
    using m by (auto simp: moved_def context_bytes_def held_bytes_def fun_eq_iff)
  have "owned_textures b'' x + owned_renderbuffers b'' x = context_bytes b'' x" for x
  proof -
    have "owned_textures b' x + owned_renderbuffers b' x + (if x = c then old_bytes else 0) =
        context_bytes b x + (if x = c then new_bytes else 0)"
      using m inv by (simp add: moved_def budget_inv_def)
    then show ?thesis
      using o by (simp add: b''_def context_bytes_update ctx n split: if_splits)
  qed
  moreover have "context_bytes b x \<le> max_context_bytes (gb_limits b)" for x
    using inv unfolding budget_inv_def by blast
  then have "context_bytes b'' x \<le> max_context_bytes (gb_limits b)" for x
    using l by (simp add: b''_def context_bytes_update ctx)
  moreover have "held_bytes b'' + old_bytes = held_bytes b + new_bytes"
    using held_bytes_update [of b' c n] m d o n by (simp add: b''_def ctx moved_def)
  ultimately show ?thesis
    using inv m d by (simp add: budget_inv_def moved_def b''_def distinct_update)
qed

lemma commit_ok:
  assumes inv: "budget_inv b" and a: "admission_ok b q pr q'" and p: "held_bytes b + pa_growth pr \<le> process"
  shows "\<exists>b' process'. commit b process pr = Some (b', process') \<and> budget_inv b' \<and>
    gb_limits b' = gb_limits b \<and> held_bytes b' + pa_old pr = held_bytes b + pa_new pr \<and>
    process' + held_bytes b + pa_growth pr = process + held_bytes b'"
proof -
  let ?c = "pa_canvas pr" and ?n = "context_bytes b (pa_canvas pr) - pa_old pr + pa_new pr"
  let ?upd = "\<lambda>x. x\<lparr> gb_contexts := AList.update ?c ?n (gb_contexts b) \<rparr>"
  obtain b' where b': "commit_kind b (pa_kind pr) = Some b'" and m: "moved b ?c (pa_old pr) (pa_new pr) b'"
    using commit_kind_moves inv a by (auto simp: admission_ok_def)
  have ctx: "gb_contexts b' = gb_contexts b" using m by (simp add: moved_def)
  have n: "pa_old pr \<le> context_bytes b ?c" "?n \<le> max_context_bytes (gb_limits b)"
      "pa_growth pr = pa_new pr - pa_old pr"
    using a by (auto simp: admission_ok_def)
  then have "?n < 2 ^ 64" using inv by (auto simp: budget_inv_def limits_ok_def)
  have "commit_kind (?upd b) (pa_kind pr) = Some (?upd b')"
    using b' by (auto simp: commit_kind_def split: prepared_kind.splits option.splits texture_storage.splits)
  moreover have held: "pa_old pr \<le> held_bytes b" "pa_old pr - pa_new pr \<le> process"
    using n(1) context_bytes_le_held [of b ?c] p by linarith+
  ultimately have "commit b process pr =
      Some (?upd b', if pa_new pr < pa_old pr then process - (pa_old pr - pa_new pr) else process)"
    using n \<open>?n < 2 ^ 64\<close> p
    by (simp add: commit_def Let_def u64_checked_sub_def u64_checked_add_def process_release_def
        context_bytes_def [symmetric])
  with moved_context [OF inv m n(1) refl n(2)] n(3) p held show ?thesis
    by (auto simp: ctx split: if_splits)
qed

section \<open>Creating, binding and releasing keep the accounts\<close>

lemma or_insert_simps [simp]:
  "distinct (map fst xs) \<Longrightarrow> distinct (map fst (or_insert k d xs))"
  by (simp add: or_insert_def distinct_update)

lemma distinct_modify_entry [simp]: "distinct (map fst xs) \<Longrightarrow> distinct (map fst (modify_entry k d f xs))"
  by (simp add: modify_entry_def distinct_update)

definition keeps_accounts :: "gpu_budget \<Rightarrow> gpu_budget \<Rightarrow> bool" where
  "keeps_accounts b b' \<longleftrightarrow> budget_inv b' \<and> gb_limits b' = gb_limits b \<and> held_bytes b' = held_bytes b"

lemma bindings_keep:
  "budget_inv b \<Longrightarrow> distinct (map fst y) \<Longrightarrow> keeps_accounts b (b\<lparr> gb_bindings := y \<rparr>)"
  by (simp add: keeps_accounts_def budget_inv_def)

lemma binding_operations_keep:
  assumes "budget_inv b"
  shows "keeps_accounts b (active_texture b c unit) \<and> keeps_accounts b (bind_texture b c target texture) \<and>
    keeps_accounts b (bind_renderbuffer b c target renderbuffer)"
proof -
  have "keeps_accounts b b" using assms by (simp add: keeps_accounts_def)
  moreover have "distinct (map fst (gb_bindings b))" using assms by (simp add: budget_inv_def)
  ultimately show ?thesis
    using bindings_keep [OF assms]
    by (simp add: active_texture_def bind_texture_def bind_renderbuffer_def split: option.splits)
qed

lemma or_insert_context [simp]:
  "context_bytes (b\<lparr> gb_contexts := or_insert c 0 (gb_contexts b) \<rparr>) = context_bytes b"
  by (auto simp: context_bytes_def or_insert_def update_conv' fun_eq_iff split: option.splits)

lemma held_or_insert [simp]:
  "distinct (map fst (gb_contexts b)) \<Longrightarrow> held_bytes (b\<lparr> gb_contexts := or_insert c 0 (gb_contexts b) \<rparr>) = held_bytes b"
  by (simp add: held_bytes_def sum_or_insert)

lemma contexts_keep:
  "budget_inv b \<Longrightarrow> keeps_accounts b (b\<lparr> gb_contexts := or_insert c 0 (gb_contexts b) \<rparr>)"
  by (simp add: keeps_accounts_def budget_inv_def)

lemma keeps_accounts_trans: "keeps_accounts a b \<Longrightarrow> keeps_accounts b c \<Longrightarrow> keeps_accounts a c"
  by (simp add: keeps_accounts_def)

lemma fresh_texture_keep:
  assumes "budget_inv b" "map_of (gb_textures b) t = None" "storage_bytes (tr_storage r) = 0" "storage_ok (tr_storage r)"
  shows "keeps_accounts b (b\<lparr> gb_textures := AList.update t r (gb_textures b) \<rparr>)"
proof -
  have d: "distinct (map fst (gb_textures b))" using assms(1) by (simp add: budget_inv_def)
  have "owned_textures (b\<lparr> gb_textures := AList.update t r (gb_textures b) \<rparr>) c = owned_textures b c" for c
    using sum_update [OF d, of "\<lambda>(_, r). if tr_owner r = c then storage_bytes (tr_storage r) else 0" t r] assms(2,3)
    by (simp add: owned_textures_def)
  moreover have "\<forall>q \<in> snd ` set (AList.update t r (gb_textures b)). storage_ok (tr_storage q)"
    using assms(1,4) by (auto simp: budget_inv_def dest!: set_update_sub)
  ultimately show ?thesis using assms(1) d by (simp add: keeps_accounts_def budget_inv_def distinct_update)
qed

lemma fresh_renderbuffer_keep:
  assumes "budget_inv b" "map_of (gb_renderbuffers b) t = None" "rr_bytes r = 0"
  shows "keeps_accounts b (b\<lparr> gb_renderbuffers := AList.update t r (gb_renderbuffers b) \<rparr>)"
proof -
  have d: "distinct (map fst (gb_renderbuffers b))" using assms(1) by (simp add: budget_inv_def)
  have "owned_renderbuffers (b\<lparr> gb_renderbuffers := AList.update t r (gb_renderbuffers b) \<rparr>) c =
      owned_renderbuffers b c" for c
    using sum_update [OF d, of "\<lambda>(_, r). if rr_owner r = c then rr_bytes r else 0" t r] assms(2,3)
    by (simp add: owned_renderbuffers_def)
  then show ?thesis using assms(1) d by (simp add: keeps_accounts_def budget_inv_def distinct_update)
qed

lemma create_texture_keeps:
  assumes "budget_inv b" "create_texture reserved b c t = Inr b'"
  shows "keeps_accounts b b'"
proof -
  let ?b1 = "b\<lparr> gb_contexts := or_insert c 0 (gb_contexts b) \<rparr>"
  let ?b2 = "?b1\<lparr> gb_bindings := or_insert c binding_default (gb_bindings b) \<rparr>"
  have b': "b' = ?b2\<lparr> gb_textures := AList.update t \<lparr> tr_owner = c, tr_storage = Mutable [] \<rparr> (gb_textures ?b2) \<rparr>"
      "map_of (gb_textures ?b2) t = None"
    using assms(2) by (auto simp: create_texture_def split: if_splits)
  have "keeps_accounts b ?b1" using contexts_keep assms(1) .
  moreover have "keeps_accounts ?b1 ?b2"
    using calculation assms(1) by (intro bindings_keep) (simp_all add: keeps_accounts_def budget_inv_def)
  ultimately have k: "keeps_accounts b ?b2" by (rule keeps_accounts_trans)
  then have "keeps_accounts ?b2 b'"
    unfolding b'(1) using b'(2)
    by (intro fresh_texture_keep) (simp_all add: keeps_accounts_def storage_bytes_def storage_ok_def)
  with k show ?thesis by (rule keeps_accounts_trans)
qed

lemma create_renderbuffer_keeps:
  assumes "budget_inv b" "create_renderbuffer reserved b c t = Inr b'"
  shows "keeps_accounts b b'"
proof -
  let ?b1 = "b\<lparr> gb_contexts := or_insert c 0 (gb_contexts b) \<rparr>"
  let ?b2 = "?b1\<lparr> gb_bindings := or_insert c binding_default (gb_bindings b) \<rparr>"
  have b': "b' = ?b2\<lparr> gb_renderbuffers := AList.update t \<lparr> rr_owner = c, rr_bytes = 0 \<rparr> (gb_renderbuffers ?b2) \<rparr>"
      "map_of (gb_renderbuffers ?b2) t = None"
    using assms(2) by (auto simp: create_renderbuffer_def split: if_splits)
  have "keeps_accounts b ?b1" using contexts_keep assms(1) .
  moreover have "keeps_accounts ?b1 ?b2"
    using calculation assms(1) by (intro bindings_keep) (simp_all add: keeps_accounts_def budget_inv_def)
  ultimately have k: "keeps_accounts b ?b2" by (rule keeps_accounts_trans)
  then have "keeps_accounts ?b2 b'"
    unfolding b'(1) using b'(2) by (intro fresh_renderbuffer_keep) (simp_all add: keeps_accounts_def)
  with k show ?thesis by (rule keeps_accounts_trans)
qed

text \<open>A release gives back to the process exactly what the budget stops holding.\<close>

definition released :: "gpu_budget \<Rightarrow> nat \<Rightarrow> nat \<Rightarrow> gpu_budget \<Rightarrow> nat \<Rightarrow> bool" where
  "released b process bytes b' process' \<longleftrightarrow> budget_inv b' \<and> gb_limits b' = gb_limits b \<and>
     held_bytes b = held_bytes b' + bytes \<and> process = process' + bytes"

lemma release_context_bytes_ok:
  assumes "budget_inv b" "moved b c bytes 0 b'" "held_bytes b \<le> process" "bytes \<le> context_bytes b c"
  shows "\<exists>b'' process'. release_context_bytes b' process c bytes = Some (b'', process') \<and>
    released b process bytes b'' process'"
proof (cases "bytes = 0")
  case True
  have "context_bytes b' = context_bytes b" "held_bytes b' = held_bytes b"
    using assms(2) by (auto simp: moved_def context_bytes_def held_bytes_def fun_eq_iff)
  with assms(1,2) True show ?thesis
    by (auto simp: release_context_bytes_def released_def moved_def budget_inv_def)
next
  case False
  then obtain n where n: "map_of (gb_contexts b) c = Some n" "bytes \<le> n"
    using assms(4) by (auto simp: context_bytes_def split: option.splits)
  have ctx: "gb_contexts b' = gb_contexts b" "context_bytes b c = n"
    using assms(2) n by (auto simp: moved_def context_bytes_def)
  have m: "context_bytes b c \<le> max_context_bytes (gb_limits b)"
    using assms(1) unfolding budget_inv_def by blast
  have "bytes \<le> process"
    using assms(3,4) context_bytes_le_held [of b c] by linarith
  with False n ctx have "release_context_bytes b' process c bytes =
      Some (b'\<lparr> gb_contexts := AList.update c (context_bytes b c - bytes) (gb_contexts b') \<rparr>, process - bytes)"
    by (simp add: release_context_bytes_def u64_checked_sub_def process_release_def)
  moreover have "context_bytes b c - bytes + 0 \<le> max_context_bytes (gb_limits b)" using m by simp
  ultimately show ?thesis
    using moved_context [OF assms(1,2,4) refl, simplified] \<open>bytes \<le> process\<close>
    by (auto simp: released_def)
qed

lemma storage_le_context:
  assumes "budget_inv b" "map_of (gb_textures b) t = Some r"
  shows "storage_bytes (tr_storage r) \<le> context_bytes b (tr_owner r)"
proof -
  have "storage_bytes (tr_storage r) \<le> owned_textures b (tr_owner r)"
    using sum_member [OF assms(2), of "\<lambda>(_, q). if tr_owner q = tr_owner r then storage_bytes (tr_storage q) else 0"]
    by (simp add: owned_textures_def)
  also have "\<dots> \<le> context_bytes b (tr_owner r)"
    using assms(1) unfolding budget_inv_def by (metis le_add1)
  finally show ?thesis .
qed

lemma renderbuffer_le_context:
  assumes "budget_inv b" "map_of (gb_renderbuffers b) t = Some r"
  shows "rr_bytes r \<le> context_bytes b (rr_owner r)"
proof -
  have "rr_bytes r \<le> owned_renderbuffers b (rr_owner r)"
    using sum_member [OF assms(2), of "\<lambda>(_, q). if rr_owner q = rr_owner r then rr_bytes q else 0"]
    by (simp add: owned_renderbuffers_def)
  also have "\<dots> \<le> context_bytes b (rr_owner r)"
    using assms(1) unfolding budget_inv_def by (metis le_add2)
  finally show ?thesis .
qed

lemma set_delete_sub: "x \<in> set (AList.delete k xs) \<Longrightarrow> x \<in> set xs"
  by (induction xs) (auto split: if_splits)

lemma map_fst_values [simp]: "map (fst \<circ> (\<lambda>(c, s). (c, f c s))) xs = map fst xs"
  by (induction xs) auto

lemma delete_texture_ok:
  assumes inv: "budget_inv b" and p: "held_bytes b \<le> process"
  shows "\<exists>bytes b' process'. delete_texture b process t = Some (bytes, b', process') \<and>
    released b process bytes b' process'"
proof (cases "map_of (gb_textures b) t")
  case None
  with inv show ?thesis by (simp add: delete_texture_def released_def)
next
  case (Some r)
  let ?b1 = "b\<lparr> gb_textures := AList.delete t (gb_textures b), gb_bindings := map (\<lambda>(c, s). (c, s\<lparr> bs_textures :=
      forget_texture (bs_textures s) t \<rparr>)) (gb_bindings b) \<rparr>"
  note tables = budget_inv_tables [OF inv]
  then have d: "distinct (map fst (gb_textures b))" by blast
  have "owned_textures ?b1 x + (if x = tr_owner r then storage_bytes (tr_storage r) else 0) = owned_textures b x" for x
    using sum_delete [OF d, of "\<lambda>(_, r). if tr_owner r = x then storage_bytes (tr_storage r) else 0" t] Some
    by (auto simp: owned_textures_def split: if_splits)
  moreover have "\<forall>q \<in> snd ` set (AList.delete t (gb_textures b)). storage_ok (tr_storage q)"
    using tables by (auto dest!: set_delete_sub)
  ultimately have "moved b (tr_owner r) (storage_bytes (tr_storage r)) 0 ?b1"
    using tables by (simp add: moved_def distinct_delete)
  with release_context_bytes_ok [OF inv _ p storage_le_context [OF inv Some]] Some show ?thesis
    by (fastforce simp: delete_texture_def Let_def)
qed

lemma delete_renderbuffer_ok:
  assumes inv: "budget_inv b" and p: "held_bytes b \<le> process"
  shows "\<exists>bytes b' process'. delete_renderbuffer b process t = Some (bytes, b', process') \<and>
    released b process bytes b' process'"
proof (cases "map_of (gb_renderbuffers b) t")
  case None
  with inv show ?thesis by (simp add: delete_renderbuffer_def released_def)
next
  case (Some r)
  let ?b1 = "b\<lparr> gb_renderbuffers := AList.delete t (gb_renderbuffers b), gb_bindings := map (\<lambda>(c, s). (c,
      if bs_renderbuffer s = Some t then s\<lparr> bs_renderbuffer := None \<rparr> else s)) (gb_bindings b) \<rparr>"
  note tables = budget_inv_tables [OF inv]
  then have d: "distinct (map fst (gb_renderbuffers b))" by blast
  have "owned_renderbuffers ?b1 x + (if x = rr_owner r then rr_bytes r else 0) = owned_renderbuffers b x" for x
    using sum_delete [OF d, of "\<lambda>(_, r). if rr_owner r = x then rr_bytes r else 0" t] Some
    by (auto simp: owned_renderbuffers_def split: if_splits)
  then have "moved b (rr_owner r) (rr_bytes r) 0 ?b1"
    using tables by (simp add: moved_def distinct_delete)
  with release_context_bytes_ok [OF inv _ p renderbuffer_le_context [OF inv Some]] Some show ?thesis
    by (fastforce simp: delete_renderbuffer_def Let_def)
qed

lemma sum_other_owner:
  fixes g :: "'v \<Rightarrow> nat"
  shows "sum_list (map (\<lambda>(_, r). if own r = x then g r else 0) (filter (\<lambda>(_, r). own r \<noteq> c) xs)) =
    (if x = c then 0 else sum_list (map (\<lambda>(_, r). if own r = x then g r else 0) xs))"
  by (induction xs) auto

lemma distinct_keys_filter: "distinct (map fst xs) \<Longrightarrow> distinct (map fst (filter P xs))"
  by (induction xs) auto

lemma release_context_ok:
  assumes inv: "budget_inv b" and p: "held_bytes b \<le> process"
  shows "\<exists>b' process'. release_context b process c = Some (context_bytes b c, b', process') \<and>
    released b process (context_bytes b c) b' process' \<and>
    (\<forall>(t, r) \<in> set (gb_textures b'). tr_owner r \<noteq> c) \<and> (\<forall>(t, r) \<in> set (gb_renderbuffers b'). rr_owner r \<noteq> c)"
proof -
  let ?b' = "b\<lparr> gb_bindings := AList.delete c (gb_bindings b),
       gb_textures := filter (\<lambda>(_, r). tr_owner r \<noteq> c) (gb_textures b),
       gb_renderbuffers := filter (\<lambda>(_, r). rr_owner r \<noteq> c) (gb_renderbuffers b),
       gb_contexts := AList.delete c (gb_contexts b) \<rparr>"
  note tables = budget_inv_tables [OF inv]
  have p': "context_bytes b c \<le> process" using p context_bytes_le_held [of b c] by linarith
  have ctx: "context_bytes ?b' x = (if x = c then 0 else context_bytes b x)" for x
    by (simp add: context_bytes_def delete_conv')
  moreover have "owned_textures ?b' x + owned_renderbuffers ?b' x =
      (if x = c then 0 else owned_textures b x + owned_renderbuffers b x)" for x
    by (simp add: owned_textures_def owned_renderbuffers_def sum_other_owner)
  moreover have "\<forall>r \<in> snd ` set (gb_textures ?b'). storage_ok (tr_storage r)"
    using tables by auto
  ultimately have "budget_inv ?b'"
    using inv tables distinct_keys_filter by (simp add: budget_inv_def distinct_delete distinct_keys_filter)
  moreover have "held_bytes b = held_bytes ?b' + context_bytes b c"
    using sum_delete [of "gb_contexts b" snd c] tables
    by (cases "map_of (gb_contexts b) c") (simp_all add: held_bytes_def context_bytes_def)
  ultimately show ?thesis
    using p' by (auto simp: release_context_def Let_def process_release_def released_def context_bytes_def [symmetric])
qed

lemma clear_budget_ok:
  assumes inv: "budget_inv b" and p: "held_bytes b \<le> process"
  shows "\<exists>b' process'. clear_budget b process = Some (held_bytes b, b', process') \<and>
    released b process (held_bytes b) b' process' \<and> held_bytes b' = 0"
  using assms
  by (auto simp: clear_budget_def Let_def process_release_def released_def budget_inv_def held_bytes_def
      context_bytes_def owned_textures_def owned_renderbuffers_def)

section \<open>A run of the budget\<close>

text \<open>
  The renderer runs the operations below one at a time; budgets of other canvases
  managers grow and release the same process account meanwhile, also between the
  preparation of an allocation and its commit. An allocation whose driver call
  fails drops its admission.
\<close>

datatype other_op = OtherGrow nat | OtherRelease nat

datatype gpu_op =
    CreateTexture bool u32 u32
  | CreateRenderbuffer bool u32 u32
  | ActiveTexture u32 u32
  | BindTexture u32 u32 "u32 option"
  | BindRenderbuffer u32 u32 "u32 option"
  | Allocate bool u32 gpu_request "other_op list" bool
  | DeleteTexture u32
  | DeleteRenderbuffer u32
  | ReleaseContext u32
  | ClearAll
  | Elsewhere other_op

record gpu_world =
  gw_budget :: gpu_budget
  gw_process :: nat
  gw_others :: nat

definition gpu_start :: "gpu_limits \<Rightarrow> gpu_world" where
  "gpu_start limits = \<lparr> gw_budget = budget_with_limits limits, gw_process = 0, gw_others = 0 \<rparr>"

definition other_apply :: "nat \<Rightarrow> nat \<times> nat \<Rightarrow> other_op \<Rightarrow> (nat \<times> nat) option" where
  "other_apply max_bytes = (\<lambda>(process, others) op. case op of
     OtherGrow n \<Rightarrow> (case process_try_grow max_bytes process n of
        Inl _ \<Rightarrow> Some (process, others)
      | Inr process' \<Rightarrow> Some (process', others + n))
   | OtherRelease n \<Rightarrow>
       if n \<le> others then process_release process n \<bind> (\<lambda>process'. Some (process', others - n))
       else Some (process, others))"

definition keep_budget :: "gpu_world \<Rightarrow> gpu_error + gpu_budget \<Rightarrow> gpu_world" where
  "keep_budget w r = (case r of Inl _ \<Rightarrow> w | Inr b \<Rightarrow> w\<lparr> gw_budget := b \<rparr>)"

definition give_back :: "gpu_world \<Rightarrow> (nat \<times> gpu_budget \<times> nat) option \<Rightarrow> gpu_world option" where
  "give_back w r = map_option (\<lambda>(_, b, process). w\<lparr> gw_budget := b, gw_process := process \<rparr>) r"

definition allocate ::
  "glow \<Rightarrow> gpu_world \<Rightarrow> bool \<Rightarrow> u32 \<Rightarrow> gpu_request \<Rightarrow> other_op list \<Rightarrow> bool \<Rightarrow> gpu_world option" where
  "allocate glow w reserved c req elsewhere driver_ok =
     (case prepare glow reserved (gw_budget w) (gw_process w) c req of
        Inl _ \<Rightarrow> Some w
      | Inr (pr, process) \<Rightarrow> do {
          (process', others') \<leftarrow> fold_opt (other_apply (max_process_bytes (gb_limits (gw_budget w))))
            (process, gw_others w) elsewhere;
          if driver_ok then do {
            (b, process'') \<leftarrow> commit (gw_budget w) process' pr;
            Some \<lparr> gw_budget = b, gw_process = process'', gw_others = others' \<rparr> }
          else do {
            process'' \<leftarrow> drop_prepared process' pr;
            Some (w\<lparr> gw_process := process'', gw_others := others' \<rparr>) } })"

definition gpu_apply :: "glow \<Rightarrow> gpu_world \<Rightarrow> gpu_op \<Rightarrow> gpu_world option" where
  "gpu_apply glow w op = (case op of
     CreateTexture reserved c t \<Rightarrow> Some (keep_budget w (create_texture reserved (gw_budget w) c t))
   | CreateRenderbuffer reserved c r \<Rightarrow> Some (keep_budget w (create_renderbuffer reserved (gw_budget w) c r))
   | ActiveTexture c unit \<Rightarrow> Some (w\<lparr> gw_budget := active_texture (gw_budget w) c unit \<rparr>)
   | BindTexture c target t \<Rightarrow> Some (w\<lparr> gw_budget := bind_texture (gw_budget w) c target t \<rparr>)
   | BindRenderbuffer c target r \<Rightarrow> Some (w\<lparr> gw_budget := bind_renderbuffer (gw_budget w) c target r \<rparr>)
   | Allocate reserved c req elsewhere driver_ok \<Rightarrow> allocate glow w reserved c req elsewhere driver_ok
   | DeleteTexture t \<Rightarrow> give_back w (delete_texture (gw_budget w) (gw_process w) t)
   | DeleteRenderbuffer r \<Rightarrow> give_back w (delete_renderbuffer (gw_budget w) (gw_process w) r)
   | ReleaseContext c \<Rightarrow> give_back w (release_context (gw_budget w) (gw_process w) c)
   | ClearAll \<Rightarrow> give_back w (clear_budget (gw_budget w) (gw_process w))
   | Elsewhere e \<Rightarrow> map_option (\<lambda>(process, others). w\<lparr> gw_process := process, gw_others := others \<rparr>)
       (other_apply (max_process_bytes (gb_limits (gw_budget w))) (gw_process w, gw_others w) e))"

definition accounts_exact :: "gpu_limits \<Rightarrow> gpu_world \<Rightarrow> bool" where
  "accounts_exact limits w \<longleftrightarrow> budget_inv (gw_budget w) \<and> gb_limits (gw_budget w) = limits \<and>
     gw_process w = held_bytes (gw_budget w) + gw_others w \<and> gw_process w \<le> max_process_bytes limits"

lemma other_apply_ok:
  assumes "process = base + others" "process \<le> max_bytes"
  shows "\<exists>process' others'. other_apply max_bytes (process, others) op = Some (process', others') \<and>
    process' = base + others' \<and> process' \<le> max_bytes"
  using assms
  by (auto simp: other_apply_def process_try_grow_def process_release_def u64_checked_add_def
      split: other_op.splits option.splits sum.splits if_splits)

lemma others_run_ok:
  assumes "process = base + others" "process \<le> max_bytes"
  shows "\<exists>process' others'. fold_opt (other_apply max_bytes) (process, others) ops = Some (process', others') \<and>
    process' = base + others' \<and> process' \<le> max_bytes"
  using assms
proof (induction ops arbitrary: process others)
  case (Cons op ops)
  obtain p r where 1: "other_apply max_bytes (process, others) op = Some (p, r)"
      and 2: "p = base + r" "p \<le> max_bytes"
    using other_apply_ok [OF Cons.prems, of op] by blast
  show ?case using Cons.IH [OF 2] by (simp add: 1)
qed simp

lemma allocate_keeps:
  assumes inv: "accounts_exact limits w"
  shows "\<exists>w'. allocate glow w reserved c req elsewhere driver_ok = Some w' \<and> accounts_exact limits w'"
proof (cases "prepare glow reserved (gw_budget w) (gw_process w) c req")
  case (Inl e)
  with inv show ?thesis by (simp add: allocate_def)
next
  case (Inr x)
  then obtain pr process where p: "prepare glow reserved (gw_budget w) (gw_process w) c req = Inr (pr, process)"
    by (cases x) auto
  note a = prepare_ok [OF p]
  have g: "process = held_bytes (gw_budget w) + pa_growth pr + gw_others w" "process \<le> max_process_bytes limits"
    using a inv by (auto simp: admission_ok_def accounts_exact_def)
  obtain process' others' where el: "fold_opt (other_apply (max_process_bytes limits)) (process, gw_others w) elsewhere =
      Some (process', others')" "process' = held_bytes (gw_budget w) + pa_growth pr + others'"
      "process' \<le> max_process_bytes limits"
    using others_run_ok [OF g] by blast
  show ?thesis
  proof (cases driver_ok)
    case True
    obtain b' process'' where "commit (gw_budget w) process' pr = Some (b', process'')" "budget_inv b'"
      "gb_limits b' = gb_limits (gw_budget w)"
      "process'' + held_bytes (gw_budget w) + pa_growth pr = process' + held_bytes b'"
      "held_bytes b' + pa_old pr = held_bytes (gw_budget w) + pa_new pr"
      using commit_ok [of "gw_budget w" "gw_process w" pr process process'] a inv el(2)
      by (auto simp: accounts_exact_def)
    with True p el inv a show ?thesis
      by (auto simp: allocate_def accounts_exact_def admission_ok_def)
  next
    case False
    with False p el inv show ?thesis
      by (auto simp: allocate_def drop_prepared_def process_release_def accounts_exact_def)
  qed
qed

lemma gpu_apply_keeps:
  assumes inv: "accounts_exact limits w"
  shows "\<exists>w'. gpu_apply glow w op = Some w' \<and> accounts_exact limits w'"
proof -
  have b: "budget_inv (gw_budget w)" "held_bytes (gw_budget w) \<le> gw_process w"
    using inv by (auto simp: accounts_exact_def)
  have keep: "accounts_exact limits (w\<lparr> gw_budget := b' \<rparr>)" if "keeps_accounts (gw_budget w) b'" for b'
    using that inv by (simp add: accounts_exact_def keeps_accounts_def)
  have give: "\<exists>w'. give_back w r = Some w' \<and> accounts_exact limits w'"
    if "r = Some (bytes, b', process')" "released (gw_budget w) (gw_process w) bytes b' process'" for r bytes b' process'
    using that inv by (auto simp: give_back_def released_def accounts_exact_def)
  show ?thesis
  proof (cases op)
    case (CreateTexture reserved c t)
    with inv keep create_texture_keeps [OF b(1)] show ?thesis
      by (auto simp: gpu_apply_def keep_budget_def split: sum.splits)
  next
    case (CreateRenderbuffer reserved c t)
    with inv keep create_renderbuffer_keeps [OF b(1)] show ?thesis
      by (auto simp: gpu_apply_def keep_budget_def split: sum.splits)
  next
    case (DeleteTexture t)
    with delete_texture_ok [OF b, of t] give show ?thesis by (auto simp: gpu_apply_def)
  next
    case (DeleteRenderbuffer t)
    with delete_renderbuffer_ok [OF b, of t] give show ?thesis by (auto simp: gpu_apply_def)
  next
    case (ReleaseContext c)
    with release_context_ok [OF b, of c] give show ?thesis by (auto simp: gpu_apply_def)
  next
    case ClearAll
    with clear_budget_ok [OF b] give show ?thesis by (auto simp: gpu_apply_def)
  next
    case (Elsewhere op)
    with other_apply_ok [of "gw_process w" "held_bytes (gw_budget w)" "gw_others w" "max_process_bytes limits" op] inv
    show ?thesis by (auto simp: gpu_apply_def accounts_exact_def)
  qed (use allocate_keeps [OF inv] keep binding_operations_keep [OF b(1)] in \<open>simp_all add: gpu_apply_def\<close>)
qed

text \<open>
  C7. For every sequence of texture and renderbuffer operations, with any
  activity of other budgets in between and any driver failures, no accounting
  check panics; each context's account is the sum of the storage of the objects
  it owns and within the context limit; and the process account is what all
  budgets hold together, within the process limit.
\<close>

theorem gpu_accounts_stay_exact:
  assumes "limits_ok limits"
  shows "\<exists>w. fold_opt (gpu_apply glow) (gpu_start limits) ops = Some w \<and>
    (\<forall>c. context_bytes (gw_budget w) c = owned_textures (gw_budget w) c + owned_renderbuffers (gw_budget w) c \<and>
         context_bytes (gw_budget w) c \<le> max_context_bytes limits) \<and>
    gw_process w = held_bytes (gw_budget w) + gw_others w \<and> gw_process w \<le> max_process_bytes limits"
proof -
  have "accounts_exact limits (gpu_start limits)"
    using assms by (simp add: accounts_exact_def gpu_start_def budget_with_limits_def budget_inv_def
        context_bytes_def owned_textures_def owned_renderbuffers_def held_bytes_def)
  then have "\<exists>w. fold_opt (gpu_apply glow) (gpu_start limits) ops = Some w \<and> accounts_exact limits w"
  proof (induction ops rule: rev_induct)
    case (snoc op ops)
    then obtain w where "fold_opt (gpu_apply glow) (gpu_start limits) ops = Some w" "accounts_exact limits w" by blast
    with gpu_apply_keeps [of limits w glow op] show ?case by (auto simp: fold_opt_append)
  qed simp
  then obtain w where w: "fold_opt (gpu_apply glow) (gpu_start limits) ops = Some w" "accounts_exact limits w" by blast
  then show ?thesis
    by (auto simp: accounts_exact_def budget_inv_def)
qed

theorem gpu_accounts_stay_exact_witness:
  "limits_ok PRODUCTION \<and> (\<exists>w. fold_opt (gpu_apply (\<lambda>_. 0x8058)) (gpu_start PRODUCTION)
     [CreateTexture True 1 7, BindTexture 1 0x0DE1 (Some 7),
      Allocate True 1 (TexStorage2D 0x0DE1 1 0x8058 64 64) [OtherGrow 4096] True, DeleteTexture 7] = Some w \<and>
     gw_process w = held_bytes (gw_budget w) + gw_others w \<and> gw_process w \<le> 536870912)"
  using gpu_accounts_stay_exact [of PRODUCTION "\<lambda>_. 0x8058" "[CreateTexture True 1 7, BindTexture 1 0x0DE1 (Some 7),
      Allocate True 1 (TexStorage2D 0x0DE1 1 0x8058 64 64) [OtherGrow 4096] True, DeleteTexture 7]"]
  by (auto simp: limits_ok_def PRODUCTION_def)

section \<open>The size of a mip chain\<close>

definition level_bytes :: "nat \<Rightarrow> nat \<Rightarrow> nat \<Rightarrow> bool \<Rightarrow> nat \<Rightarrow> nat \<Rightarrow> nat" where
  "level_bytes width height depth mip_depth bpp k =
     bpp * max (width div 2 ^ k) 1 * max (height div 2 ^ k) 1 *
     (if mip_depth then max (depth div 2 ^ k) 1 else depth)"

lemma half_level: "max (max (w div 2) 1 div 2 ^ k) 1 = max (w div 2 ^ Suc k) (1::nat)"
proof (cases "w div 2 = 0")
  case True
  then have "w < 2" by simp
  then have "w div 2 ^ Suc k = 0" by (metis div_less div_mult2_eq div_0 power_Suc)
  moreover have "1 div 2 ^ k \<le> (1::nat)" by (rule div_le_dividend)
  ultimately show ?thesis using True by simp
next
  case False
  then have "max (w div 2) 1 = w div 2" by simp
  then show ?thesis by (simp only: div_mult2_eq power_Suc)
qed

lemma level_bytes_half:
  "level_bytes (max (w div 2) 1) (max (h div 2) 1) (if md then max (d div 2) 1 else d) md bpp k =
     level_bytes w h d md bpp (Suc k)"
  by (cases md) (simp_all only: level_bytes_def half_level if_True if_False)

lemma checked_texel_bytes_3:
  assumes "0 < w" "0 < h" "0 < d"
  shows "checked_texel_bytes [w, h, d] bpp =
    (if bpp * w * h * d < 2 ^ 64 then Inr (bpp * w * h * d) else Inl OutOfMemory)"
proof -
  have "bpp * w \<le> bpp * w * h" "bpp * w * h \<le> bpp * w * h * d" using assms by simp_all
  then have 1: "bpp * w * h < 2 ^ 64 \<Longrightarrow> bpp * w < 2 ^ 64" "bpp * w * h * d < 2 ^ 64 \<Longrightarrow> bpp * w * h < 2 ^ 64"
    by (blast intro: le_less_trans)+
  show ?thesis
    unfolding checked_texel_bytes_def u64_checked_mul_def
    using 1 by (cases "bpp * w * h * d < 2 ^ 64"; cases "bpp * w * h < 2 ^ 64"; cases "bpp * w < 2 ^ 64") simp_all
qed

lemma mip_chain_sum:
  assumes "0 < w" "0 < h" "0 < d" "acc < 2 ^ 64"
  shows "mip_chain w h d l md bpp acc =
    (if acc + (\<Sum>k<l. level_bytes w h d md bpp k) < 2 ^ 64
     then Inr (acc + (\<Sum>k<l. level_bytes w h d md bpp k)) else Inl OutOfMemory)"
  using assms
proof (induction l arbitrary: w h d acc)
  case (Suc l)
  let ?n = "bpp * w * h * d"
  let ?w = "max (w div 2) 1" and ?h = "max (h div 2) 1" and ?d = "if md then max (d div 2) 1 else d"
  have n: "level_bytes w h d md bpp 0 = ?n" using Suc.prems by (simp add: level_bytes_def)
  have s: "(\<Sum>k<Suc l. level_bytes w h d md bpp k) = ?n + (\<Sum>k<l. level_bytes ?w ?h ?d md bpp k)"
    by (simp only: sum.lessThan_Suc_shift n level_bytes_half)
  show ?case
  proof (cases "acc + ?n < 2 ^ 64")
    case True
    then have "mip_chain w h d (Suc l) md bpp acc = mip_chain ?w ?h ?d l md bpp (acc + ?n)"
      using Suc.prems by (simp add: checked_texel_bytes_3 u64_checked_add_def)
    also have "\<dots> = (if acc + ?n + (\<Sum>k<l. level_bytes ?w ?h ?d md bpp k) < 2 ^ 64
        then Inr (acc + ?n + (\<Sum>k<l. level_bytes ?w ?h ?d md bpp k)) else Inl OutOfMemory)"
      using True Suc.prems(3) by (intro Suc.IH) (auto simp: max_def)
    finally show ?thesis by (simp only: s add.assoc)
  next
    case False
    then have "\<not> acc + (\<Sum>k<Suc l. level_bytes w h d md bpp k) < 2 ^ 64" unfolding s by simp
    with False show ?thesis using Suc.prems
      by (simp add: checked_texel_bytes_3 u64_checked_add_def del: sum.lessThan_Suc)
  qed
qed simp

text \<open>
  The loop of \<open>checked_mip_chain_bytes\<close> computes the sum over all levels of the
  halved dimensions (never below one) times the bytes per texel, and refuses
  exactly the chains whose true size does not fit 64 bits.
\<close>

lemma mip_chain_is_exact:
  assumes "0 < width" "0 < height" "0 < depth"
  shows "checked_mip_chain_bytes width height depth levels mip_depth bpp =
    (let n = (\<Sum>k<levels. level_bytes width height depth mip_depth bpp k)
     in if n < 2 ^ 64 then Inr n else Inl OutOfMemory)"
  using mip_chain_sum [OF assms, of 0] by (simp add: checked_mip_chain_bytes_def Let_def)

lemma mip_chain_is_exact_witness:
  "checked_mip_chain_bytes 4 2 1 3 False 4 = Inr 44"
proof -
  have "(\<Sum>k<3. level_bytes 4 2 1 False 4 k) = 44" by code_simp
  with mip_chain_is_exact [of 4 2 1 3 False 4] show ?thesis by simp
qed

end
