(* ===== verification/State_Tracker.thy ===== *)
theory State_Tracker
  imports Gl_Shadow Damage Gpu_Budget
begin

text \<open>
  The deduplication of driver state calls (\<open>graphics/src/backend/gl/state_tracker.rs\<close>):
  \<open>CanvasGLState\<close> with all its shadows, the \<open>update_*\<close> helpers that decide whether a call
  has to be issued, the events that make the shadows forget, and the arms of the WebGL
  handler that use them (\<open>renderergl/handler.rs\<close>). The record extends the part of
  \<open>CanvasGLState\<close> that the damage classifiers read. The diagnostic counter is left out.
\<close>

section \<open>The tracked state of a canvas\<close>

type_synonym blend_factors = "u32 \<times> u32 \<times> u32 \<times> u32"
type_synonym blend_equation = "u32 \<times> u32"
type_synonym buffer_slot = "u32 option option"

record tracked_state = canvas_gl_state +
  ts_current_program :: "u32 option"
  ts_bound_texture_2d :: texture_unit_shadow
  ts_array_buffer :: buffer_slot
  ts_element_array_buffer :: buffer_slot
  ts_uniform_buffer :: buffer_slot
  ts_pixel_unpack_buffer :: buffer_slot
  ts_pixel_pack_buffer :: buffer_slot
  ts_copy_read_buffer :: buffer_slot
  ts_copy_write_buffer :: buffer_slot
  ts_transform_feedback_buffer :: buffer_slot
  ts_uniform_buffer_indexed :: indexed_ubo_shadow
  ts_active_texture_unit :: "u32 option"
  ts_last_scissor_rect :: "irect option"
  ts_capabilities :: capability_shadow
  ts_blend_factors :: "blend_factors option"
  ts_blend_equation :: "blend_equation option"
  ts_blend_color :: "(f32 \<times> f32 \<times> f32 \<times> f32) option"
  ts_depth_func :: "u32 option"
  ts_depth_mask :: "bool option"
  ts_depth_range :: "(f32 \<times> f32) option"
  ts_cull_face :: "u32 option"
  ts_front_face :: "u32 option"
  ts_line_width :: "f32 option"
  ts_polygon_offset :: "(f32 \<times> f32) option"
  ts_bound_vao :: "u32 option"
  ts_uniform_cache :: uniform_cache
  ts_bound_framebuffer :: framebuffer_shadow
  ts_bound_renderbuffer :: buffer_slot
  ts_vertex_attribs :: vertex_array_shadow
  ts_stencil_func :: "(u32 \<times> i32 \<times> u32) per_face"
  ts_stencil_op :: "(u32 \<times> u32 \<times> u32) per_face"
  ts_stencil_mask :: "u32 per_face"
  ts_pixel_store :: pixel_store_shadow

definition tracked_default :: tracked_state where
  "tracked_default = \<lparr> gs_draws_to_default_fbo = True, gs_viewport = None, gs_scissor = ScissorDisabled,
     gs_color_mask = (True, True, True, True), ts_current_program = None, ts_bound_texture_2d = tu_default,
     ts_array_buffer = None, ts_element_array_buffer = None, ts_uniform_buffer = None,
     ts_pixel_unpack_buffer = None, ts_pixel_pack_buffer = None, ts_copy_read_buffer = None,
     ts_copy_write_buffer = None, ts_transform_feedback_buffer = None,
     ts_uniform_buffer_indexed = ubo_default, ts_active_texture_unit = None, ts_last_scissor_rect = None,
     ts_capabilities = cap_default, ts_blend_factors = None, ts_blend_equation = None, ts_blend_color = None,
     ts_depth_func = None, ts_depth_mask = None, ts_depth_range = None, ts_cull_face = None,
     ts_front_face = None, ts_line_width = None, ts_polygon_offset = None, ts_bound_vao = None,
     ts_uniform_cache = [], ts_bound_framebuffer = fb_default, ts_bound_renderbuffer = None,
     ts_vertex_attribs = ck_default, ts_stencil_func = face_default, ts_stencil_op = face_default,
     ts_stencil_mask = face_default, ts_pixel_store = ps_default \<rparr>"

section \<open>The update helpers\<close>

text \<open>
  Each answers whether the call must be issued and the state afterwards; the ones that
  go through the table of vertex arrays or the uniform cache may panic in the model.
\<close>

definition update_use_program :: "tracked_state \<Rightarrow> u32 \<Rightarrow> bool \<times> tracked_state" where
  "update_use_program s new = (let (b, v) = dedup_slot (=) new (ts_current_program s)
     in (b, s\<lparr> ts_current_program := v \<rparr>))"

definition invalidate_program_uniforms :: "tracked_state \<Rightarrow> u32 \<Rightarrow> tracked_state" where
  "invalidate_program_uniforms s prog =
     s\<lparr> ts_uniform_cache := filter (\<lambda>((p, _), _). p \<noteq> prog) (ts_uniform_cache s) \<rparr>"

definition forget_deleted_program :: "tracked_state \<Rightarrow> u32 \<Rightarrow> tracked_state" where
  "forget_deleted_program s prog =
     (let s = (if ts_current_program s = Some prog then s\<lparr> ts_current_program := None \<rparr> else s)
      in invalidate_program_uniforms s prog)"

definition update_uniform :: "(uniform_cache \<Rightarrow> (u32 \<times> u32) option) \<Rightarrow> tracked_state \<Rightarrow> u32 \<Rightarrow> u32 \<Rightarrow> u8 list
    \<Rightarrow> (bool \<times> tracked_state) option" where
  "update_uniform first_key s prog location value_bytes = do {
     (b, cache) \<leftarrow> uniform_cache_update first_key (ts_uniform_cache s) MAX_UNIFORM_CACHE prog location value_bytes;
     Some (b, s\<lparr> ts_uniform_cache := cache \<rparr>) }"

abbreviation (input) GL_ARRAY_BUFFER :: u32 where "GL_ARRAY_BUFFER \<equiv> 0x8892"
abbreviation (input) GL_ELEMENT_ARRAY_BUFFER :: u32 where "GL_ELEMENT_ARRAY_BUFFER \<equiv> 0x8893"
abbreviation (input) GL_UNIFORM_BUFFER :: u32 where "GL_UNIFORM_BUFFER \<equiv> 0x8A11"
abbreviation (input) GL_PIXEL_UNPACK_BUFFER :: u32 where "GL_PIXEL_UNPACK_BUFFER \<equiv> 0x88EC"
abbreviation (input) GL_PIXEL_PACK_BUFFER :: u32 where "GL_PIXEL_PACK_BUFFER \<equiv> 0x88EB"
abbreviation (input) GL_COPY_READ_BUFFER :: u32 where "GL_COPY_READ_BUFFER \<equiv> 0x8F36"
abbreviation (input) GL_COPY_WRITE_BUFFER :: u32 where "GL_COPY_WRITE_BUFFER \<equiv> 0x8F37"
abbreviation (input) GL_TRANSFORM_FEEDBACK_BUFFER :: u32 where "GL_TRANSFORM_FEEDBACK_BUFFER \<equiv> 0x8C8E"

definition update_bind_buffer :: "tracked_state \<Rightarrow> u32 \<Rightarrow> u32 option \<Rightarrow> bool \<times> tracked_state" where
  "update_bind_buffer s target new =
     (if target = GL_ARRAY_BUFFER then
        (let (b, v) = dedup_slot (=) new (ts_array_buffer s) in (b, s\<lparr> ts_array_buffer := v \<rparr>))
      else if target = GL_ELEMENT_ARRAY_BUFFER then
        (let (b, v) = dedup_slot (=) new (ts_element_array_buffer s) in (b, s\<lparr> ts_element_array_buffer := v \<rparr>))
      else if target = GL_UNIFORM_BUFFER then
        (let (b, v) = dedup_slot (=) new (ts_uniform_buffer s) in (b, s\<lparr> ts_uniform_buffer := v \<rparr>))
      else if target = GL_PIXEL_UNPACK_BUFFER then
        (let (b, v) = dedup_slot (=) new (ts_pixel_unpack_buffer s) in (b, s\<lparr> ts_pixel_unpack_buffer := v \<rparr>))
      else if target = GL_PIXEL_PACK_BUFFER then
        (let (b, v) = dedup_slot (=) new (ts_pixel_pack_buffer s) in (b, s\<lparr> ts_pixel_pack_buffer := v \<rparr>))
      else if target = GL_COPY_READ_BUFFER then
        (let (b, v) = dedup_slot (=) new (ts_copy_read_buffer s) in (b, s\<lparr> ts_copy_read_buffer := v \<rparr>))
      else if target = GL_COPY_WRITE_BUFFER then
        (let (b, v) = dedup_slot (=) new (ts_copy_write_buffer s) in (b, s\<lparr> ts_copy_write_buffer := v \<rparr>))
      else if target = GL_TRANSFORM_FEEDBACK_BUFFER then
        (let (b, v) = dedup_slot (=) new (ts_transform_feedback_buffer s)
         in (b, s\<lparr> ts_transform_feedback_buffer := v \<rparr>))
      else (True, s))"

definition update_bind_buffer_base :: "tracked_state \<Rightarrow> u32 \<Rightarrow> u32 \<Rightarrow> u32 option \<Rightarrow> bool \<times> tracked_state" where
  "update_bind_buffer_base s target index buffer =
     (if target \<noteq> GL_UNIFORM_BUFFER then (True, s)
      else let (b, v) = ubo_update (index, (buffer, 0, 0)) (ts_uniform_buffer_indexed s)
           in (b, s\<lparr> ts_uniform_buffer_indexed := v \<rparr>))"

definition update_bind_buffer_range :: "tracked_state \<Rightarrow> u32 \<Rightarrow> u32 \<Rightarrow> u32 option \<Rightarrow> i32 \<Rightarrow> i32
    \<Rightarrow> bool \<times> tracked_state" where
  "update_bind_buffer_range s target index buffer offset sz =
     (if target \<noteq> GL_UNIFORM_BUFFER then (True, s)
      else let (b, v) = ubo_update (index, (buffer, offset, sz)) (ts_uniform_buffer_indexed s)
           in (b, s\<lparr> ts_uniform_buffer_indexed := v \<rparr>))"

definition update_bind_vertex_array :: "tracked_state \<Rightarrow> u32 option \<Rightarrow> bool \<times> tracked_state" where
  "update_bind_vertex_array s new =
     (let new = (case new of None \<Rightarrow> 0 | Some v \<Rightarrow> v) in
      if ts_bound_vao s = Some new then (False, s)
      else (True, s\<lparr> ts_bound_vao := Some new, ts_array_buffer := None, ts_element_array_buffer := None \<rparr>))"

definition update_active_texture :: "tracked_state \<Rightarrow> u32 \<Rightarrow> bool \<times> tracked_state" where
  "update_active_texture s unit = (let (b, v) = dedup_slot (=) unit (ts_active_texture_unit s)
     in (b, s\<lparr> ts_active_texture_unit := v \<rparr>))"

definition update_bind_texture_2d :: "tracked_state \<Rightarrow> u32 option \<Rightarrow> bool \<times> tracked_state" where
  "update_bind_texture_2d s tex = (case ts_active_texture_unit s of
     None \<Rightarrow> (True, s)
   | Some unit \<Rightarrow> (let (b, v) = tu_bind (unit, tex) (ts_bound_texture_2d s)
       in (b, s\<lparr> ts_bound_texture_2d := v \<rparr>)))"

definition update_viewport :: "tracked_state \<Rightarrow> irect \<Rightarrow> bool \<times> tracked_state" where
  "update_viewport s new = (let (b, v) = dedup_slot (=) new (gs_viewport s) in (b, s\<lparr> gs_viewport := v \<rparr>))"

definition update_blend_func_separate :: "tracked_state \<Rightarrow> u32 \<Rightarrow> u32 \<Rightarrow> u32 \<Rightarrow> u32 \<Rightarrow> bool \<times> tracked_state" where
  "update_blend_func_separate s src_rgb dst_rgb src_alpha dst_alpha =
     (let (b, v) = dedup_slot (=) (src_rgb, dst_rgb, src_alpha, dst_alpha) (ts_blend_factors s)
      in (b, s\<lparr> ts_blend_factors := v \<rparr>))"

definition update_blend_func :: "tracked_state \<Rightarrow> u32 \<Rightarrow> u32 \<Rightarrow> bool \<times> tracked_state" where
  "update_blend_func s src dst = update_blend_func_separate s src dst src dst"

definition update_blend_equation_separate :: "tracked_state \<Rightarrow> u32 \<Rightarrow> u32 \<Rightarrow> bool \<times> tracked_state" where
  "update_blend_equation_separate s mode_rgb mode_alpha =
     (let (b, v) = dedup_slot (=) (mode_rgb, mode_alpha) (ts_blend_equation s)
      in (b, s\<lparr> ts_blend_equation := v \<rparr>))"

definition update_blend_equation :: "tracked_state \<Rightarrow> u32 \<Rightarrow> bool \<times> tracked_state" where
  "update_blend_equation s mode = update_blend_equation_separate s mode mode"

definition update_blend_color :: "tracked_state \<Rightarrow> f32 \<Rightarrow> f32 \<Rightarrow> f32 \<Rightarrow> f32 \<Rightarrow> bool \<times> tracked_state" where
  "update_blend_color s r g bl a = (let (b, v) = dedup_slot f32_eq4 (r, g, bl, a) (ts_blend_color s)
     in (b, s\<lparr> ts_blend_color := v \<rparr>))"

definition update_depth_func :: "tracked_state \<Rightarrow> u32 \<Rightarrow> bool \<times> tracked_state" where
  "update_depth_func s func = (let (b, v) = dedup_slot (=) func (ts_depth_func s) in (b, s\<lparr> ts_depth_func := v \<rparr>))"

definition update_depth_mask :: "tracked_state \<Rightarrow> bool \<Rightarrow> bool \<times> tracked_state" where
  "update_depth_mask s flag = (let (b, v) = dedup_slot (=) flag (ts_depth_mask s) in (b, s\<lparr> ts_depth_mask := v \<rparr>))"

definition update_depth_range :: "tracked_state \<Rightarrow> f32 \<Rightarrow> f32 \<Rightarrow> bool \<times> tracked_state" where
  "update_depth_range s near far = (let (b, v) = dedup_slot f32_eq2 (near, far) (ts_depth_range s)
     in (b, s\<lparr> ts_depth_range := v \<rparr>))"

definition update_stencil_func :: "tracked_state \<Rightarrow> u32 \<Rightarrow> u32 \<Rightarrow> i32 \<Rightarrow> u32 \<Rightarrow> bool \<times> tracked_state" where
  "update_stencil_func s face func refv msk = (let (b, v) = face_update (face, (func, refv, msk)) (ts_stencil_func s)
     in (b, s\<lparr> ts_stencil_func := v \<rparr>))"

definition update_stencil_op :: "tracked_state \<Rightarrow> u32 \<Rightarrow> u32 \<Rightarrow> u32 \<Rightarrow> u32 \<Rightarrow> bool \<times> tracked_state" where
  "update_stencil_op s face sfail dpfail dppass =
     (let (b, v) = face_update (face, (sfail, dpfail, dppass)) (ts_stencil_op s) in (b, s\<lparr> ts_stencil_op := v \<rparr>))"

definition update_stencil_mask :: "tracked_state \<Rightarrow> u32 \<Rightarrow> u32 \<Rightarrow> bool \<times> tracked_state" where
  "update_stencil_mask s face msk = (let (b, v) = face_update (face, msk) (ts_stencil_mask s)
     in (b, s\<lparr> ts_stencil_mask := v \<rparr>))"

definition update_pixel_store_i32 :: "tracked_state \<Rightarrow> u32 \<Rightarrow> i32 \<Rightarrow> bool \<times> tracked_state" where
  "update_pixel_store_i32 s pname param = (let (b, v) = ps_update (pname, param) (ts_pixel_store s)
     in (b, s\<lparr> ts_pixel_store := v \<rparr>))"

definition update_cull_face :: "tracked_state \<Rightarrow> u32 \<Rightarrow> bool \<times> tracked_state" where
  "update_cull_face s mode = (let (b, v) = dedup_slot (=) mode (ts_cull_face s) in (b, s\<lparr> ts_cull_face := v \<rparr>))"

definition update_front_face :: "tracked_state \<Rightarrow> u32 \<Rightarrow> bool \<times> tracked_state" where
  "update_front_face s mode = (let (b, v) = dedup_slot (=) mode (ts_front_face s) in (b, s\<lparr> ts_front_face := v \<rparr>))"

definition update_scissor :: "tracked_state \<Rightarrow> i32 \<Rightarrow> i32 \<Rightarrow> i32 \<Rightarrow> i32 \<Rightarrow> bool \<times> tracked_state" where
  "update_scissor s x y width height =
     (let rect = (x, y, width, height) in
      if ts_last_scissor_rect s = Some rect then (False, s)
      else let s = s\<lparr> ts_last_scissor_rect := Some rect \<rparr>
           in (True, if gs_scissor s \<noteq> ScissorDisabled then s\<lparr> gs_scissor := ScissorEnabled x y width height \<rparr> else s))"

definition update_line_width :: "tracked_state \<Rightarrow> f32 \<Rightarrow> bool \<times> tracked_state" where
  "update_line_width s width = (let (b, v) = dedup_slot f32_eq width (ts_line_width s) in (b, s\<lparr> ts_line_width := v \<rparr>))"

definition update_polygon_offset :: "tracked_state \<Rightarrow> f32 \<Rightarrow> f32 \<Rightarrow> bool \<times> tracked_state" where
  "update_polygon_offset s factor units = (let (b, v) = dedup_slot f32_eq2 (factor, units) (ts_polygon_offset s)
     in (b, s\<lparr> ts_polygon_offset := v \<rparr>))"

definition update_enable :: "tracked_state \<Rightarrow> u32 \<Rightarrow> bool \<times> tracked_state" where
  "update_enable s cap = (let (changed, v) = cap_enable cap (ts_capabilities s)
     in (changed \<or> cap = GL_STENCIL_TEST, s\<lparr> ts_capabilities := v \<rparr>))"

definition update_disable :: "tracked_state \<Rightarrow> u32 \<Rightarrow> bool \<times> tracked_state" where
  "update_disable s cap = (let (changed, v) = cap_disable cap (ts_capabilities s)
     in (changed \<or> cap = GL_STENCIL_TEST, s\<lparr> ts_capabilities := v \<rparr>))"

definition update_bind_framebuffer :: "tracked_state \<Rightarrow> u32 \<Rightarrow> u32 option \<Rightarrow> bool \<times> tracked_state" where
  "update_bind_framebuffer s target fb = (let (b, v) = fb_update (target, fb) (ts_bound_framebuffer s)
     in (b, s\<lparr> ts_bound_framebuffer := v \<rparr>))"

definition record_default_framebuffer_bind :: "tracked_state \<Rightarrow> tracked_state" where
  "record_default_framebuffer_bind s =
     s\<lparr> ts_bound_framebuffer := fb_set_all None (ts_bound_framebuffer s), gs_draws_to_default_fbo := True \<rparr>"

definition update_bind_renderbuffer :: "tracked_state \<Rightarrow> u32 option \<Rightarrow> bool \<times> tracked_state" where
  "update_bind_renderbuffer s rb = (let (b, v) = dedup_slot (=) rb (ts_bound_renderbuffer s)
     in (b, s\<lparr> ts_bound_renderbuffer := v \<rparr>))"

definition update_color_mask :: "tracked_state \<Rightarrow> bool \<Rightarrow> bool \<Rightarrow> bool \<Rightarrow> bool \<Rightarrow> bool \<times> tracked_state" where
  "update_color_mask s r g b a =
     (if gs_color_mask s = (r, g, b, a) then (False, s) else (True, s\<lparr> gs_color_mask := (r, g, b, a) \<rparr>))"

definition current_vao :: "tracked_state \<Rightarrow> u32" where
  "current_vao s = (case ts_bound_vao s of None \<Rightarrow> 0 | Some v \<Rightarrow> v)"

definition update_enable_vertex_attrib :: "tracked_state \<Rightarrow> u32 \<Rightarrow> (bool \<times> tracked_state) option" where
  "update_enable_vertex_attrib s index = do {
     (b, v) \<leftarrow> va_enable (ts_vertex_attribs s) (current_vao s) index;
     Some (b, s\<lparr> ts_vertex_attribs := v \<rparr>) }"

definition update_disable_vertex_attrib :: "tracked_state \<Rightarrow> u32 \<Rightarrow> (bool \<times> tracked_state) option" where
  "update_disable_vertex_attrib s index = do {
     (b, v) \<leftarrow> va_disable (ts_vertex_attribs s) (current_vao s) index;
     Some (b, s\<lparr> ts_vertex_attribs := v \<rparr>) }"

definition update_vertex_attrib_pointer :: "tracked_state \<Rightarrow> u32 \<Rightarrow> i32 \<Rightarrow> u32 \<Rightarrow> bool \<Rightarrow> i32 \<Rightarrow> i32
    \<Rightarrow> (bool \<times> tracked_state) option" where
  "update_vertex_attrib_pointer s index sz ty normalized stride offset = do {
     let fp = \<lparr> fp_size = sz, fp_type = ty, fp_normalized = normalized, fp_stride = stride, fp_offset = offset,
                fp_array_buffer = (case ts_array_buffer s of None \<Rightarrow> None | Some b \<Rightarrow> b) \<rparr>;
     (b, v) \<leftarrow> update_pointer (ts_vertex_attribs s) (current_vao s) index fp;
     Some (b, s\<lparr> ts_vertex_attribs := v \<rparr>) }"

definition update_vertex_attrib_divisor :: "tracked_state \<Rightarrow> u32 \<Rightarrow> u32 \<Rightarrow> (bool \<times> tracked_state) option" where
  "update_vertex_attrib_divisor s index divisor = do {
     (b, v) \<leftarrow> update_divisor (ts_vertex_attribs s) (current_vao s) index divisor;
     Some (b, s\<lparr> ts_vertex_attribs := v \<rparr>) }"

text \<open>What external GL code, Skia above all, may have changed is forgotten.\<close>

definition invalidate_p11_shadow :: "tracked_state \<Rightarrow> tracked_state" where
  "invalidate_p11_shadow s = s\<lparr> ts_bound_framebuffer := fb_forget_all (ts_bound_framebuffer s),
     ts_bound_renderbuffer := None, ts_vertex_attribs := va_forget_all (ts_vertex_attribs s),
     ts_stencil_func := face_forget_all (ts_stencil_func s), ts_stencil_op := face_forget_all (ts_stencil_op s),
     ts_stencil_mask := face_forget_all (ts_stencil_mask s), ts_pixel_store := ps_forget_all (ts_pixel_store s) \<rparr>"

definition invalidate_after_external_gl_use :: "tracked_state \<Rightarrow> tracked_state" where
  "invalidate_after_external_gl_use s = invalidate_p11_shadow (s\<lparr> ts_current_program := None, gs_viewport := None,
     ts_bound_texture_2d := tu_forget_all (ts_bound_texture_2d s), ts_array_buffer := None,
     ts_element_array_buffer := None, ts_uniform_buffer := None, ts_pixel_unpack_buffer := None,
     ts_pixel_pack_buffer := None, ts_copy_read_buffer := None, ts_copy_write_buffer := None,
     ts_transform_feedback_buffer := None,
     ts_uniform_buffer_indexed := ubo_forget_all (ts_uniform_buffer_indexed s), ts_active_texture_unit := None,
     gs_scissor := ScissorEnabledUnknownRect, ts_last_scissor_rect := None,
     gs_color_mask := (True, True, True, True), ts_capabilities := cap_forget_all (ts_capabilities s),
     ts_blend_factors := None, ts_blend_equation := None, ts_blend_color := None, ts_depth_func := None,
     ts_depth_mask := None, ts_depth_range := None, ts_cull_face := None, ts_front_face := None,
     ts_line_width := None, ts_polygon_offset := None, ts_bound_vao := None \<rparr>)"

section \<open>The handler\<close>

text \<open>
  The tables of client objects the handler looks names up in, and the framebuffer that
  stands for the canvas.
\<close>

record gl_meta =
  gm_handle :: "u32 option"
  gm_owner :: "u32 option"
  gm_deleted :: bool

record gl_objects =
  ob_programs :: "u32 \<rightharpoonup> gl_meta"
  ob_buffers :: "u32 \<rightharpoonup> gl_meta"
  ob_textures :: "u32 \<rightharpoonup> gl_meta"
  ob_framebuffers :: "u32 \<rightharpoonup> gl_meta"
  ob_renderbuffers :: "u32 \<rightharpoonup> gl_meta"
  ob_vaos :: "u32 \<rightharpoonup> gl_meta"
  ob_drawing_buffer :: "u32 option"

datatype engine_error = NotFound | InvalidOp

text \<open>The calls of the handler's arms into the driver; an untracked command is forwarded as it is.\<close>

datatype gl_call =
    CallViewport irect
  | CallUseProgram "u32 option"
  | CallUniform u32 "u8 list"
  | CallBindBuffer u32 "u32 option"
  | CallBindBufferBase u32 u32 "u32 option"
  | CallBindBufferRange u32 u32 "u32 option" i32 i32
  | CallBindVertexArray "u32 option"
  | CallVertexAttribArray u32 bool
  | CallVertexAttribPointer u32 i32 u32 bool i32 i32
  | CallVertexAttribDivisor u32 u32
  | CallActiveTexture u32
  | CallBindTexture u32 "u32 option"
  | CallCapability u32 bool
  | CallBlendFunc blend_factors
  | CallBlendEquation blend_equation
  | CallBlendColor "f32 \<times> f32 \<times> f32 \<times> f32"
  | CallDepthFunc u32
  | CallDepthMask bool
  | CallDepthRange "f32 \<times> f32"
  | CallStencilFunc u32 "u32 \<times> i32 \<times> u32"
  | CallStencilOp u32 "u32 \<times> u32 \<times> u32"
  | CallStencilMask u32 u32
  | CallPixelStore u32 i32
  | CallCullFace u32
  | CallFrontFace u32
  | CallScissor irect
  | CallLineWidth f32
  | CallPolygonOffset "f32 \<times> f32"
  | CallBindFramebuffer u32 "u32 option"
  | CallBindRenderbuffer u32 "u32 option"
  | CallColorMask "bool \<times> bool \<times> bool \<times> bool"
  | CallForward gl_cmd

type_synonym handled = "(engine_error, tracked_state \<times> gl_call list) rust_result"

definition issue :: "bool \<times> tracked_state \<Rightarrow> gl_call \<Rightarrow> handled" where
  "issue r call = Ok (snd r, if fst r then [call] else [])"

definition issue_opt :: "(bool \<times> tracked_state) option \<Rightarrow> gl_call \<Rightarrow> handled" where
  "issue_opt r call = (case r of None \<Rightarrow> Panic | Some r \<Rightarrow> issue r call)"

text \<open>Looking up a live object: unknown, foreign and deleted names are errors.\<close>

definition live_handle :: "(u32 \<rightharpoonup> gl_meta) \<Rightarrow> (gl_meta \<Rightarrow> bool) \<Rightarrow> u32 option \<Rightarrow> engine_error + u32 option" where
  "live_handle table owned name = (case name of
     None \<Rightarrow> Inr None
   | Some n \<Rightarrow> (case table n of
       None \<Rightarrow> Inl NotFound
     | Some meta \<Rightarrow>
         if \<not> owned meta then Inl InvalidOp
         else if gm_deleted meta then Inl InvalidOp
         else Inr (gm_handle meta)))"

definition handle_of :: "(u32 \<rightharpoonup> gl_meta) \<Rightarrow> u32 option \<Rightarrow> u32 option" where
  "handle_of table name = (case name of None \<Rightarrow> None
     | Some n \<Rightarrow> (case table n of None \<Rightarrow> None | Some meta \<Rightarrow> gm_handle meta))"

definition should_issue_uniform :: "(uniform_cache \<Rightarrow> (u32 \<times> u32) option) \<Rightarrow> tracked_state \<Rightarrow> u32 option \<Rightarrow> u8 list
    \<Rightarrow> (bool \<times> tracked_state) option" where
  "should_issue_uniform first_key s location bytes = (case location of
     None \<Rightarrow> Some (False, s)
   | Some loc \<Rightarrow> (case ts_current_program s of
       None \<Rightarrow> Some (True, s)
     | Some prog \<Rightarrow> update_uniform first_key s prog loc bytes))"

definition f32s_bytes :: "f32 list \<Rightarrow> u8 list" where
  "f32s_bytes xs = concat (map (\<lambda>x. to_le_bytes 4 (to_bits x)) xs)"

definition i32s_bytes :: "i32 list \<Rightarrow> u8 list" where
  "i32s_bytes xs = concat (map (\<lambda>x. to_le_bytes 4 (word_of_int x :: u32)) xs)"

definition mat_uniform_bytes :: "bool \<Rightarrow> f32 list \<Rightarrow> u8 list" where
  "mat_uniform_bytes flip data = (if flip then 1 else 0) # f32s_bytes data"

text \<open>The location and the bytes of a uniform command.\<close>

definition uniform_args :: "gl_cmd \<Rightarrow> (u32 option \<times> u8 list) option" where
  "uniform_args cmd = (case cmd of
     Uniform1i _ l x \<Rightarrow> Some (l, i32s_bytes [x])
   | Uniform1f _ l x \<Rightarrow> Some (l, f32s_bytes [x])
   | Uniform2f _ l x y \<Rightarrow> Some (l, f32s_bytes [x, y])
   | Uniform3f _ l x y z \<Rightarrow> Some (l, f32s_bytes [x, y, z])
   | Uniform4f _ l x y z w \<Rightarrow> Some (l, f32s_bytes [x, y, z, w])
   | Uniform1iv _ l v \<Rightarrow> Some (l, i32s_bytes v)
   | Uniform1fv _ l v \<Rightarrow> Some (l, f32s_bytes v)
   | Uniform2iv _ l v \<Rightarrow> Some (l, i32s_bytes v)
   | Uniform2fv _ l v \<Rightarrow> Some (l, f32s_bytes v)
   | Uniform3iv _ l v \<Rightarrow> Some (l, i32s_bytes v)
   | Uniform3fv _ l v \<Rightarrow> Some (l, f32s_bytes v)
   | Uniform4iv _ l v \<Rightarrow> Some (l, i32s_bytes v)
   | Uniform4fv _ l v \<Rightarrow> Some (l, f32s_bytes v)
   | UniformMatrix2fv _ l t v \<Rightarrow> Some (l, mat_uniform_bytes t v)
   | UniformMatrix3fv _ l t v \<Rightarrow> Some (l, mat_uniform_bytes t v)
   | UniformMatrix4fv _ l t v \<Rightarrow> Some (l, mat_uniform_bytes t v)
   | _ \<Rightarrow> None)"

definition handle_uniform :: "(uniform_cache \<Rightarrow> (u32 \<times> u32) option) \<Rightarrow> tracked_state \<Rightarrow> u32 option \<times> u8 list \<Rightarrow> handled" where
  "handle_uniform first_key s = (\<lambda>(location, bytes). case location of
     None \<Rightarrow> Ok (s, [])
   | Some loc \<Rightarrow> issue_opt (should_issue_uniform first_key s location bytes) (CallUniform loc bytes))"

definition handle_enable :: "tracked_state \<Rightarrow> u32 \<Rightarrow> handled" where
  "handle_enable s cap =
     (let (b, s) = update_enable s cap;
          s = (if cap = GL_SCISSOR_TEST
               then s\<lparr> gs_scissor := (case ts_last_scissor_rect s of
                      Some (x, y, w, h) \<Rightarrow> ScissorEnabled x y w h
                    | None \<Rightarrow> ScissorEnabledUnknownRect) \<rparr>
               else s)
      in issue (b, s) (CallCapability cap True))"

definition handle_disable :: "tracked_state \<Rightarrow> u32 \<Rightarrow> handled" where
  "handle_disable s cap =
     (let (b, s) = update_disable s cap;
          s = (if cap = GL_SCISSOR_TEST then s\<lparr> gs_scissor := ScissorDisabled \<rparr> else s)
      in issue (b, s) (CallCapability cap False))"

definition handle_bind_texture :: "gl_objects \<Rightarrow> tracked_state \<Rightarrow> u32 \<Rightarrow> u32 option \<Rightarrow> handled" where
  "handle_bind_texture obs s target texture = (case live_handle (ob_textures obs) (\<lambda>_. True) texture of
     Inl e \<Rightarrow> Err e
   | Inr native \<Rightarrow>
       if target \<noteq> GL_TEXTURE_2D then issue (True, s) (CallBindTexture target native)
       else issue (update_bind_texture_2d s texture) (CallBindTexture target native))"

definition handle_active_texture :: "tracked_state \<Rightarrow> u32 \<Rightarrow> handled" where
  "handle_active_texture s unit =
     (if \<not> is_valid_texture_unit unit then issue (True, s) (CallActiveTexture unit)
      else issue (update_active_texture s unit) (CallActiveTexture unit))"

definition handle_bind_framebuffer :: "gl_objects \<Rightarrow> tracked_state \<Rightarrow> u32 \<Rightarrow> u32 option \<Rightarrow> handled" where
  "handle_bind_framebuffer obs s target framebuffer =
     (let is_default = (framebuffer = None) in
      case (if is_default then Inr (ob_drawing_buffer obs)
            else live_handle (ob_framebuffers obs) (\<lambda>_. True) framebuffer) of
        Inl e \<Rightarrow> Err e
      | Inr native \<Rightarrow>
          (let (b, s) = update_bind_framebuffer s target framebuffer;
               s = (if target = GL_FRAMEBUFFER \<or> target = GL_DRAW_FRAMEBUFFER
                    then s\<lparr> gs_draws_to_default_fbo := is_default \<rparr> else s)
           in issue (b, s) (CallBindFramebuffer target native)))"

definition handle_use_program :: "gl_objects \<Rightarrow> u32 \<Rightarrow> tracked_state \<Rightarrow> u32 \<Rightarrow> handled" where
  "handle_use_program obs canvas_id s prog =
     (case live_handle (ob_programs obs) (\<lambda>meta. gm_owner meta = Some canvas_id) (Some prog) of
        Inl e \<Rightarrow> Err e
      | Inr None \<Rightarrow> Ok (s, [])
      | Inr (Some ph) \<Rightarrow> issue (update_use_program s prog) (CallUseProgram (Some ph)))"

definition handle_bind_buffer :: "gl_objects \<Rightarrow> u32 \<Rightarrow> tracked_state \<Rightarrow> u32 \<Rightarrow> u32 option \<Rightarrow> handled" where
  "handle_bind_buffer obs canvas_id s target buffer =
     (case live_handle (ob_buffers obs) (\<lambda>meta. gm_owner meta = Some canvas_id) buffer of
        Inl e \<Rightarrow> Err e
      | Inr native \<Rightarrow> issue (update_bind_buffer s target buffer) (CallBindBuffer target native))"

definition handle_bind_renderbuffer :: "gl_objects \<Rightarrow> tracked_state \<Rightarrow> u32 \<Rightarrow> u32 option \<Rightarrow> handled" where
  "handle_bind_renderbuffer obs s target renderbuffer =
     (case live_handle (ob_renderbuffers obs) (\<lambda>_. True) renderbuffer of
        Inl e \<Rightarrow> Err e
      | Inr native \<Rightarrow> issue (update_bind_renderbuffer s renderbuffer) (CallBindRenderbuffer target native))"

text \<open>The arms of the handler for one command on a canvas whose context is current.\<close>

definition handle_cmd :: "(uniform_cache \<Rightarrow> (u32 \<times> u32) option) \<Rightarrow> gl_objects \<Rightarrow> tracked_state \<Rightarrow> gl_cmd \<Rightarrow> handled" where
  "handle_cmd first_key obs s cmd = (case uniform_args cmd of Some args \<Rightarrow> handle_uniform first_key s args | None \<Rightarrow>
     (case cmd of
       Viewport _ x y w h \<Rightarrow> issue (update_viewport s (x, y, sint w, sint h)) (CallViewport (x, y, sint w, sint h))
     | UseProgram c prog \<Rightarrow> handle_use_program obs c s prog
     | BindBuffer c target buffer \<Rightarrow> handle_bind_buffer obs c s target buffer
     | BindBufferBase _ target index buffer \<Rightarrow>
         issue (update_bind_buffer_base s target index buffer)
           (CallBindBufferBase target index (handle_of (ob_buffers obs) buffer))
     | BindBufferRange _ target index buffer offset sz \<Rightarrow>
         issue (update_bind_buffer_range s target index buffer offset sz)
           (CallBindBufferRange target index (handle_of (ob_buffers obs) buffer) offset sz)
     | BindVertexArray _ vao \<Rightarrow>
         issue (update_bind_vertex_array s vao) (CallBindVertexArray (handle_of (ob_vaos obs) vao))
     | EnableVertexAttribArray _ index \<Rightarrow>
         issue_opt (update_enable_vertex_attrib s index) (CallVertexAttribArray index True)
     | DisableVertexAttribArray _ index \<Rightarrow>
         issue_opt (update_disable_vertex_attrib s index) (CallVertexAttribArray index False)
     | VertexAttribPointer _ index sz ty normalized stride offset \<Rightarrow>
         issue_opt (update_vertex_attrib_pointer s index sz ty normalized stride offset)
           (CallVertexAttribPointer index sz ty normalized stride offset)
     | VertexAttribDivisor _ index divisor \<Rightarrow>
         issue_opt (update_vertex_attrib_divisor s index divisor) (CallVertexAttribDivisor index divisor)
     | gl_cmd.ActiveTexture _ unit \<Rightarrow> handle_active_texture s unit
     | gl_cmd.BindTexture _ target texture \<Rightarrow> handle_bind_texture obs s target texture
     | Enable _ cap \<Rightarrow> handle_enable s cap
     | Disable _ cap \<Rightarrow> handle_disable s cap
     | BlendFunc _ src dst \<Rightarrow> issue (update_blend_func s src dst) (CallBlendFunc (src, dst, src, dst))
     | BlendFuncSeparate _ sr dr sa da \<Rightarrow>
         issue (update_blend_func_separate s sr dr sa da) (CallBlendFunc (sr, dr, sa, da))
     | BlendEquation _ mode \<Rightarrow> issue (update_blend_equation s mode) (CallBlendEquation (mode, mode))
     | BlendEquationSeparate _ mr ma \<Rightarrow> issue (update_blend_equation_separate s mr ma) (CallBlendEquation (mr, ma))
     | BlendColor _ r g b a \<Rightarrow> issue (update_blend_color s r g b a) (CallBlendColor (r, g, b, a))
     | DepthFunc _ func \<Rightarrow> issue (update_depth_func s func) (CallDepthFunc func)
     | DepthMask _ flag \<Rightarrow> issue (update_depth_mask s flag) (CallDepthMask flag)
     | DepthRange _ near far \<Rightarrow> issue (update_depth_range s near far) (CallDepthRange (near, far))
     | StencilFunc _ func refv msk \<Rightarrow>
         issue (update_stencil_func s GL_FRONT_AND_BACK func refv msk) (CallStencilFunc GL_FRONT_AND_BACK (func, refv, msk))
     | StencilFuncSeparate _ face func refv msk \<Rightarrow>
         issue (update_stencil_func s face func refv msk) (CallStencilFunc face (func, refv, msk))
     | StencilOp _ fail zfail zpass \<Rightarrow>
         issue (update_stencil_op s GL_FRONT_AND_BACK fail zfail zpass) (CallStencilOp GL_FRONT_AND_BACK (fail, zfail, zpass))
     | StencilOpSeparate _ face fail zfail zpass \<Rightarrow>
         issue (update_stencil_op s face fail zfail zpass) (CallStencilOp face (fail, zfail, zpass))
     | StencilMask _ msk \<Rightarrow> issue (update_stencil_mask s GL_FRONT_AND_BACK msk) (CallStencilMask GL_FRONT_AND_BACK msk)
     | StencilMaskSeparate _ face msk \<Rightarrow> issue (update_stencil_mask s face msk) (CallStencilMask face msk)
     | PixelStorei _ pname param \<Rightarrow> issue (update_pixel_store_i32 s pname param) (CallPixelStore pname param)
     | CullFace _ mode \<Rightarrow> issue (update_cull_face s mode) (CallCullFace mode)
     | FrontFace _ mode \<Rightarrow> issue (update_front_face s mode) (CallFrontFace mode)
     | ColorMask _ r g b a \<Rightarrow> issue (update_color_mask s r g b a) (CallColorMask (r, g, b, a))
     | Scissor _ x y w h \<Rightarrow> issue (update_scissor s x y w h) (CallScissor (x, y, w, h))
     | LineWidth _ width \<Rightarrow> issue (update_line_width s width) (CallLineWidth width)
     | PolygonOffset _ factor units \<Rightarrow> issue (update_polygon_offset s factor units) (CallPolygonOffset (factor, units))
     | BindFramebuffer _ target framebuffer \<Rightarrow> handle_bind_framebuffer obs s target framebuffer
     | gl_cmd.BindRenderbuffer _ target renderbuffer \<Rightarrow> handle_bind_renderbuffer obs s target renderbuffer
     | _ \<Rightarrow> Ok (s, [CallForward cmd])))"

end
