(* ===== verification/Gl_Driver.thy ===== *)
theory Gl_Driver
  imports State_Tracker
begin

text \<open>
  Deduplication is transparent: the driver cannot tell the calls that the handler issues
  from the calls it would issue if it kept no shadow. The driver is the state that the
  calls of the handler set, as OpenGL ES 3.0 specifies it, and the pixels, which the
  forwarded commands change depending on that state. A handle is a native object;
  \<open>None\<close> is object zero.
\<close>

section \<open>The driver\<close>

type_synonym attrib = "i32 \<times> u32 \<times> bool \<times> i32 \<times> i32 \<times> u32 option"

record 'p gl_driver =
  dr_pixels :: 'p
  dr_viewport :: irect
  dr_scissor :: irect
  dr_color_mask :: "bool \<times> bool \<times> bool \<times> bool"
  dr_caps :: "u32 \<Rightarrow> bool"
  dr_blend_func :: blend_factors
  dr_blend_equation :: blend_equation
  dr_blend_color :: "f32 \<times> f32 \<times> f32 \<times> f32"
  dr_depth_func :: u32
  dr_depth_mask :: bool
  dr_depth_range :: "f32 \<times> f32"
  dr_stencil_func :: "(u32 \<times> i32 \<times> u32) \<times> (u32 \<times> i32 \<times> u32)"
  dr_stencil_op :: "(u32 \<times> u32 \<times> u32) \<times> (u32 \<times> u32 \<times> u32)"
  dr_stencil_mask :: "u32 \<times> u32"
  dr_pixel_store :: "u32 \<Rightarrow> i32"
  dr_cull_face :: u32
  dr_front_face :: u32
  dr_line_width :: f32
  dr_polygon_offset :: "f32 \<times> f32"
  dr_active :: u32
  dr_texture :: "u32 \<Rightarrow> u32 \<Rightarrow> u32 option"
  dr_buffer :: "u32 \<Rightarrow> u32 option"
  dr_generic :: "u32 \<Rightarrow> u32 option"
  dr_indexed :: "u32 \<Rightarrow> u32 \<Rightarrow> u32 option \<times> i32 \<times> i32"
  dr_draw_fb :: "u32 option"
  dr_read_fb :: "u32 option"
  dr_renderbuffer :: "u32 option"
  dr_vao :: "u32 option"
  dr_arrays :: "u32 option \<Rightarrow> attrib vertex_array"
  dr_program :: "u32 option"
  dr_uniforms :: "u32 option \<times> u32 \<Rightarrow> u8 list"

text \<open>
  The targets with indexed bindings also have a generic one, \<open>dr_generic\<close>, which only
  buffer uploads read; \<open>hidden\<close> is the state without it. None of the commands of a
  stream reads it, so a forwarded command sees the hidden state.
\<close>

definition has_indexed :: "u32 \<Rightarrow> bool" where
  "has_indexed target \<longleftrightarrow> target = GL_UNIFORM_BUFFER \<or> target = GL_TRANSFORM_FEEDBACK_BUFFER"

definition hidden :: "'p gl_driver \<Rightarrow> 'p gl_driver" where
  "hidden d = d\<lparr> dr_generic := \<lambda>_. None \<rparr>"

definition view :: "bool \<Rightarrow> 'p gl_driver \<Rightarrow> 'p gl_driver" where
  "view indexed d = (if indexed then hidden d else d)"

abbreviation (input) GL_RENDERBUFFER_TARGET :: u32 where "GL_RENDERBUFFER_TARGET \<equiv> 0x8D41"

definition bind_array :: "('h vertex_array \<Rightarrow> 'h vertex_array) \<Rightarrow> u32 option \<Rightarrow> (u32 option \<Rightarrow> 'h vertex_array) \<Rightarrow> u32 option \<Rightarrow> 'h vertex_array" where
  "bind_array f vao arrays = arrays(vao := f (arrays vao))"

fun exec_call :: "(gl_cmd \<Rightarrow> 'p gl_driver \<Rightarrow> 'p) \<Rightarrow> gl_call \<Rightarrow> 'p gl_driver \<Rightarrow> 'p gl_driver" where
  "exec_call effect (CallForward cmd) d = d\<lparr> dr_pixels := effect cmd (hidden d) \<rparr>"
| "exec_call effect (CallViewport r) d = d\<lparr> dr_viewport := r \<rparr>"
| "exec_call effect (CallScissor r) d = d\<lparr> dr_scissor := r \<rparr>"
| "exec_call effect (CallColorMask m) d = d\<lparr> dr_color_mask := m \<rparr>"
| "exec_call effect (CallCapability cap on) d = d\<lparr> dr_caps := set_cap (cap, on) (dr_caps d) \<rparr>"
| "exec_call effect (CallBlendFunc f) d = d\<lparr> dr_blend_func := f \<rparr>"
| "exec_call effect (CallBlendEquation e) d = d\<lparr> dr_blend_equation := e \<rparr>"
| "exec_call effect (CallBlendColor c) d = d\<lparr> dr_blend_color := f32_value4 c \<rparr>"
| "exec_call effect (CallDepthFunc f) d = d\<lparr> dr_depth_func := f \<rparr>"
| "exec_call effect (CallDepthMask m) d = d\<lparr> dr_depth_mask := m \<rparr>"
| "exec_call effect (CallDepthRange r) d = d\<lparr> dr_depth_range := f32_value2 r \<rparr>"
| "exec_call effect (CallStencilFunc face v) d = d\<lparr> dr_stencil_func := set_face (face, v) (dr_stencil_func d) \<rparr>"
| "exec_call effect (CallStencilOp face v) d = d\<lparr> dr_stencil_op := set_face (face, v) (dr_stencil_op d) \<rparr>"
| "exec_call effect (CallStencilMask face v) d = d\<lparr> dr_stencil_mask := set_face (face, v) (dr_stencil_mask d) \<rparr>"
| "exec_call effect (CallPixelStore pname param) d = d\<lparr> dr_pixel_store := set_pixel_store (pname, param) (dr_pixel_store d) \<rparr>"
| "exec_call effect (CallCullFace m) d = d\<lparr> dr_cull_face := m \<rparr>"
| "exec_call effect (CallFrontFace m) d = d\<lparr> dr_front_face := m \<rparr>"
| "exec_call effect (CallLineWidth w) d = d\<lparr> dr_line_width := f32_value w \<rparr>"
| "exec_call effect (CallPolygonOffset p) d = d\<lparr> dr_polygon_offset := f32_value2 p \<rparr>"
| "exec_call effect (CallActiveTexture unit) d = (if is_valid_texture_unit unit then d\<lparr> dr_active := unit \<rparr> else d)"
| "exec_call effect (CallBindTexture target h) d =
     d\<lparr> dr_texture := (dr_texture d)(target := (dr_texture d target)(dr_active d := h)) \<rparr>"
| "exec_call effect (CallBindBuffer target h) d =
     (if target = GL_ELEMENT_ARRAY_BUFFER
      then d\<lparr> dr_arrays := bind_array (vd_element_update (\<lambda>_. h)) (dr_vao d) (dr_arrays d) \<rparr>
      else if has_indexed target then d\<lparr> dr_generic := (dr_generic d)(target := h) \<rparr>
      else d\<lparr> dr_buffer := (dr_buffer d)(target := h) \<rparr>)"
| "exec_call effect (CallBindBufferBase target index h) d =
     (if has_indexed target
      then d\<lparr> dr_indexed := (dr_indexed d)(target := (dr_indexed d target)(index := (h, 0, 0))),
              dr_generic := (dr_generic d)(target := h) \<rparr>
      else d)"
| "exec_call effect (CallBindBufferRange target index h offset sz) d =
     (if has_indexed target
      then d\<lparr> dr_indexed := (dr_indexed d)(target := (dr_indexed d target)(index := (h, offset, sz))),
              dr_generic := (dr_generic d)(target := h) \<rparr>
      else d)"
| "exec_call effect (CallBindFramebuffer target h) d =
     (if target = GL_FRAMEBUFFER then d\<lparr> dr_draw_fb := h, dr_read_fb := h \<rparr>
      else if target = GL_DRAW_FRAMEBUFFER then d\<lparr> dr_draw_fb := h \<rparr>
      else if target = GL_READ_FRAMEBUFFER then d\<lparr> dr_read_fb := h \<rparr> else d)"
| "exec_call effect (CallBindRenderbuffer target h) d =
     (if target = GL_RENDERBUFFER_TARGET then d\<lparr> dr_renderbuffer := h \<rparr> else d)"
| "exec_call effect (CallBindVertexArray h) d = d\<lparr> dr_vao := h \<rparr>"
| "exec_call effect (CallVertexAttribArray index on) d =
     d\<lparr> dr_arrays := bind_array (\<lambda>v. v\<lparr> vd_enabled := (vd_enabled v)(index := on) \<rparr>) (dr_vao d) (dr_arrays d) \<rparr>"
| "exec_call effect (CallVertexAttribPointer index sz ty normalized stride offset) d =
     d\<lparr> dr_arrays := bind_array (\<lambda>v. v\<lparr> vd_pointer := (vd_pointer v)(index :=
            Some (sz, ty, normalized, stride, offset, dr_buffer d GL_ARRAY_BUFFER)) \<rparr>) (dr_vao d) (dr_arrays d) \<rparr>"
| "exec_call effect (CallVertexAttribDivisor index divisor) d =
     d\<lparr> dr_arrays := bind_array (\<lambda>v. v\<lparr> vd_divisor := (vd_divisor v)(index := divisor) \<rparr>) (dr_vao d) (dr_arrays d) \<rparr>"
| "exec_call effect (CallUseProgram h) d = d\<lparr> dr_program := h \<rparr>"
| "exec_call effect (CallUniform location bytes) d = (case dr_program d of
     None \<Rightarrow> d
   | Some h \<Rightarrow> d\<lparr> dr_uniforms := (dr_uniforms d)((Some h, location) := bytes) \<rparr>)"

lemma exec_call_view:
  assumes "view indexed d = view indexed d'"
  shows "view indexed (exec_call effect c d) = view indexed (exec_call effect c d')"
proof (cases indexed)
  case True
  then have "hidden d = hidden d'" using assms by (simp add: view_def)
  then obtain g where "d' = d\<lparr> dr_generic := g \<rparr>"
    by (cases d; cases d') (auto simp: hidden_def)
  with True show ?thesis
    by (cases c) (simp_all add: view_def hidden_def split: option.splits)
qed (use assms in \<open>simp add: view_def\<close>)

section \<open>Every command issues its call\<close>

definition call_of :: "'a + 'b \<Rightarrow> ('b \<Rightarrow> gl_call) \<Rightarrow> 'a + gl_call list" where
  "call_of r call = (case r of Inl e \<Rightarrow> Inl e | Inr h \<Rightarrow> Inr [call h])"

definition direct_cmd :: "gl_objects \<Rightarrow> gl_cmd \<Rightarrow> engine_error + gl_call list" where
  "direct_cmd obs cmd = (case uniform_args cmd of
     Some (location, bytes) \<Rightarrow> Inr (case location of None \<Rightarrow> [] | Some loc \<Rightarrow> [CallUniform loc bytes])
   | None \<Rightarrow>
     (case cmd of
       Viewport _ x y w h \<Rightarrow> Inr [CallViewport (x, y, sint w, sint h)]
     | UseProgram c prog \<Rightarrow> (case live_handle (ob_programs obs) (\<lambda>meta. gm_owner meta = Some c) (Some prog) of
         Inl e \<Rightarrow> Inl e | Inr None \<Rightarrow> Inr [] | Inr (Some ph) \<Rightarrow> Inr [CallUseProgram (Some ph)])
     | BindBuffer c target buffer \<Rightarrow>
         call_of (live_handle (ob_buffers obs) (\<lambda>meta. gm_owner meta = Some c) buffer) (CallBindBuffer target)
     | BindBufferBase _ target index buffer \<Rightarrow> Inr [CallBindBufferBase target index (handle_of (ob_buffers obs) buffer)]
     | BindBufferRange _ target index buffer offset sz \<Rightarrow>
         Inr [CallBindBufferRange target index (handle_of (ob_buffers obs) buffer) offset sz]
     | BindVertexArray _ vao \<Rightarrow> Inr [CallBindVertexArray (handle_of (ob_vaos obs) vao)]
     | EnableVertexAttribArray _ index \<Rightarrow> Inr [CallVertexAttribArray index True]
     | DisableVertexAttribArray _ index \<Rightarrow> Inr [CallVertexAttribArray index False]
     | VertexAttribPointer _ index sz ty normalized stride offset \<Rightarrow>
         Inr [CallVertexAttribPointer index sz ty normalized stride offset]
     | VertexAttribDivisor _ index divisor \<Rightarrow> Inr [CallVertexAttribDivisor index divisor]
     | gl_cmd.ActiveTexture _ unit \<Rightarrow> Inr [CallActiveTexture unit]
     | gl_cmd.BindTexture _ target texture \<Rightarrow>
         call_of (live_handle (ob_textures obs) (\<lambda>_. True) texture) (CallBindTexture target)
     | Enable _ cap \<Rightarrow> Inr [CallCapability cap True]
     | Disable _ cap \<Rightarrow> Inr [CallCapability cap False]
     | BlendFunc _ src dst \<Rightarrow> Inr [CallBlendFunc (src, dst, src, dst)]
     | BlendFuncSeparate _ sr dr sa da \<Rightarrow> Inr [CallBlendFunc (sr, dr, sa, da)]
     | BlendEquation _ mode \<Rightarrow> Inr [CallBlendEquation (mode, mode)]
     | BlendEquationSeparate _ mr ma \<Rightarrow> Inr [CallBlendEquation (mr, ma)]
     | BlendColor _ r g b a \<Rightarrow> Inr [CallBlendColor (r, g, b, a)]
     | DepthFunc _ func \<Rightarrow> Inr [CallDepthFunc func]
     | DepthMask _ flag \<Rightarrow> Inr [CallDepthMask flag]
     | DepthRange _ near far \<Rightarrow> Inr [CallDepthRange (near, far)]
     | StencilFunc _ func refv msk \<Rightarrow> Inr [CallStencilFunc GL_FRONT_AND_BACK (func, refv, msk)]
     | StencilFuncSeparate _ face func refv msk \<Rightarrow> Inr [CallStencilFunc face (func, refv, msk)]
     | StencilOp _ fail zfail zpass \<Rightarrow> Inr [CallStencilOp GL_FRONT_AND_BACK (fail, zfail, zpass)]
     | StencilOpSeparate _ face fail zfail zpass \<Rightarrow> Inr [CallStencilOp face (fail, zfail, zpass)]
     | StencilMask _ msk \<Rightarrow> Inr [CallStencilMask GL_FRONT_AND_BACK msk]
     | StencilMaskSeparate _ face msk \<Rightarrow> Inr [CallStencilMask face msk]
     | PixelStorei _ pname param \<Rightarrow> Inr [CallPixelStore pname param]
     | CullFace _ mode \<Rightarrow> Inr [CallCullFace mode]
     | FrontFace _ mode \<Rightarrow> Inr [CallFrontFace mode]
     | ColorMask _ r g b a \<Rightarrow> Inr [CallColorMask (r, g, b, a)]
     | Scissor _ x y w h \<Rightarrow> Inr [CallScissor (x, y, w, h)]
     | LineWidth _ width \<Rightarrow> Inr [CallLineWidth width]
     | PolygonOffset _ factor units \<Rightarrow> Inr [CallPolygonOffset (factor, units)]
     | BindFramebuffer _ target framebuffer \<Rightarrow>
         call_of (if framebuffer = None then Inr (ob_drawing_buffer obs)
                  else live_handle (ob_framebuffers obs) (\<lambda>_. True) framebuffer) (CallBindFramebuffer target)
     | gl_cmd.BindRenderbuffer _ target renderbuffer \<Rightarrow>
         call_of (live_handle (ob_renderbuffers obs) (\<lambda>_. True) renderbuffer) (CallBindRenderbuffer target)
     | _ \<Rightarrow> Inr [CallForward cmd]))"

section \<open>Coherence\<close>

definition prog_native :: "gl_objects \<Rightarrow> u32 \<Rightarrow> u32 option" where
  "prog_native obs p = handle_of (ob_programs obs) (Some p)"

definition live_programs :: "gl_objects \<Rightarrow> u32 set" where
  "live_programs obs = {p. prog_native obs p \<noteq> None}"

definition vao_native :: "gl_objects \<Rightarrow> u32 \<Rightarrow> u32 option" where
  "vao_native obs v = handle_of (ob_vaos obs) (Some v)"

definition live_vaos :: "gl_objects \<Rightarrow> u32 set" where
  "live_vaos obs = insert 0 {v. vao_native obs v \<noteq> None}"

definition fb_native :: "gl_objects \<Rightarrow> u32 option \<Rightarrow> u32 option" where
  "fb_native obs f = (if f = None then ob_drawing_buffer obs else handle_of (ob_framebuffers obs) f)"

definition fp_native :: "gl_objects \<Rightarrow> vertex_attrib_fp \<Rightarrow> attrib" where
  "fp_native obs fp = (fp_size fp, fp_type fp, fp_normalized fp, fp_stride fp, fp_offset fp,
     handle_of (ob_buffers obs) (fp_array_buffer fp))"

definition ubo_native :: "gl_objects \<Rightarrow> ubo_entry \<Rightarrow> u32 option \<times> i32 \<times> i32" where
  "ubo_native obs = (\<lambda>(b, offset, sz). (handle_of (ob_buffers obs) b, offset, sz))"

definition tex_native :: "gl_objects \<Rightarrow> u32 \<Rightarrow> u32 option" where
  "tex_native obs t = handle_of (ob_textures obs) (Some t)"

definition live_textures :: "gl_objects \<Rightarrow> u32 set" where
  "live_textures obs = {t. tex_native obs t \<noteq> None}"

text \<open>Different names have different native objects, and no framebuffer of a client is the canvas's own.\<close>

definition objects_ok :: "gl_objects \<Rightarrow> bool" where
  "objects_ok obs \<longleftrightarrow> inj_on (prog_native obs) (live_programs obs) \<and> inj_on (vao_native obs) (live_vaos obs) \<and>
     inj_on (tex_native obs) (live_textures obs) \<and> ob_vaos obs 0 = None \<and>
     (\<forall>f meta. ob_framebuffers obs f = Some meta \<longrightarrow> gm_handle meta \<noteq> ob_drawing_buffer obs)"

definition raster_ok :: "tracked_state \<Rightarrow> 'p gl_driver \<Rightarrow> bool" where
  "raster_ok s d \<longleftrightarrow>
     slot_agrees id (gs_viewport s) (dr_viewport d) \<and>
     gs_color_mask s = dr_color_mask d \<and>
     slot_agrees id (ts_last_scissor_rect s) (dr_scissor d) \<and>
     (\<forall>x y w h. gs_scissor s = ScissorEnabled x y w h \<longrightarrow>
        dr_caps d GL_SCISSOR_TEST \<and> dr_scissor d = (x, y, w, h)) \<and>
     caps_agree (ts_capabilities s) (dr_caps d) \<and>
     slot_agrees id (ts_blend_factors s) (dr_blend_func d) \<and>
     slot_agrees id (ts_blend_equation s) (dr_blend_equation d) \<and>
     slot_agrees f32_value4 (ts_blend_color s) (dr_blend_color d) \<and>
     slot_agrees id (ts_depth_func s) (dr_depth_func d) \<and>
     slot_agrees id (ts_depth_mask s) (dr_depth_mask d) \<and>
     slot_agrees f32_value2 (ts_depth_range s) (dr_depth_range d) \<and>
     faces_agree (ts_stencil_func s) (dr_stencil_func d) \<and>
     faces_agree (ts_stencil_op s) (dr_stencil_op d) \<and>
     faces_agree (ts_stencil_mask s) (dr_stencil_mask d) \<and>
     pixels_agree (ts_pixel_store s) (dr_pixel_store d) \<and>
     slot_agrees id (ts_cull_face s) (dr_cull_face d) \<and>
     slot_agrees id (ts_front_face s) (dr_front_face d) \<and>
     slot_agrees f32_value (ts_line_width s) (dr_line_width d) \<and>
     slot_agrees f32_value2 (ts_polygon_offset s) (dr_polygon_offset d)"

definition binding_ok :: "bool \<Rightarrow> gl_objects \<Rightarrow> tracked_state \<Rightarrow> 'p gl_driver \<Rightarrow> bool" where
  "binding_ok indexed obs s d \<longleftrightarrow> (let buf = handle_of (ob_buffers obs) in
     units_agree (handle_of (ob_textures obs)) (ts_bound_texture_2d s) (dr_texture d GL_TEXTURE_2D) \<and>
     slot_agrees id (ts_active_texture_unit s) (dr_active d) \<and>
     (ts_active_texture_unit s = None \<longrightarrow> tu_observed (ts_bound_texture_2d s) = 0) \<and>
     slot_agrees buf (ts_array_buffer s) (dr_buffer d GL_ARRAY_BUFFER) \<and>
     slot_agrees buf (ts_pixel_unpack_buffer s) (dr_buffer d GL_PIXEL_UNPACK_BUFFER) \<and>
     slot_agrees buf (ts_pixel_pack_buffer s) (dr_buffer d GL_PIXEL_PACK_BUFFER) \<and>
     slot_agrees buf (ts_copy_read_buffer s) (dr_buffer d GL_COPY_READ_BUFFER) \<and>
     slot_agrees buf (ts_copy_write_buffer s) (dr_buffer d GL_COPY_WRITE_BUFFER) \<and>
     (\<not> indexed \<longrightarrow> slot_agrees buf (ts_uniform_buffer s) (dr_generic d GL_UNIFORM_BUFFER) \<and>
        slot_agrees buf (ts_transform_feedback_buffer s) (dr_generic d GL_TRANSFORM_FEEDBACK_BUFFER)) \<and>
     ubos_agree (ubo_native obs) (ts_uniform_buffer_indexed s) (dr_indexed d GL_UNIFORM_BUFFER) \<and>
     length (ts_bound_framebuffer s) = 3 \<and>
     slot_agrees (fb_native obs) (ts_bound_framebuffer s ! 0) (dr_draw_fb d) \<and>
     slot_agrees (fb_native obs) (ts_bound_framebuffer s ! 0) (dr_read_fb d) \<and>
     (gs_draws_to_default_fbo s \<or> dr_draw_fb d \<noteq> ob_drawing_buffer obs) \<and>
     slot_agrees (handle_of (ob_renderbuffers obs)) (ts_bound_renderbuffer s) (dr_renderbuffer d))"

definition vertex_ok :: "gl_objects \<Rightarrow> tracked_state \<Rightarrow> 'p gl_driver \<Rightarrow> bool" where
  "vertex_ok obs s d \<longleftrightarrow> current_vao s \<in> live_vaos obs \<and> dr_vao d = vao_native obs (current_vao s) \<and>
     slot_agrees (handle_of (ob_buffers obs)) (ts_element_array_buffer s) (vd_element (dr_arrays d (dr_vao d))) \<and>
     arrays_agree (fp_native obs) (vao_native obs) (live_vaos obs) (ts_vertex_attribs s) (dr_arrays d)"

definition program_ok :: "gl_objects \<Rightarrow> tracked_state \<Rightarrow> 'p gl_driver \<Rightarrow> bool" where
  "program_ok obs s d \<longleftrightarrow> slot_agrees (prog_native obs) (ts_current_program s) (dr_program d) \<and>
     (\<forall>p. ts_current_program s = Some p \<longrightarrow> p \<in> live_programs obs) \<and>
     uniforms_agree (prog_native obs) (live_programs obs) (ts_uniform_cache s) (dr_uniforms d)"

definition coherent :: "bool \<Rightarrow> gl_objects \<Rightarrow> tracked_state \<Rightarrow> 'p gl_driver \<Rightarrow> bool" where
  "coherent indexed obs s d \<longleftrightarrow> raster_ok s d \<and> binding_ok indexed obs s d \<and> vertex_ok obs s d \<and> program_ok obs s d"

text \<open>
  What the content has to keep to. Where it does not, deduplication can be observed; the
  lemmas at the end of \<open>Gl_Transparency\<close> show how. The two uploads from a 2D canvas, which
  the canvas manager carries out, are outside the model.
\<close>

definition admits :: "bool \<Rightarrow> gl_objects \<Rightarrow> tracked_state \<Rightarrow> 'p gl_driver \<Rightarrow> gl_cmd \<Rightarrow> bool" where
  "admits indexed obs s d cmd \<longleftrightarrow>
     (uniform_args cmd \<noteq> None \<longrightarrow> ts_current_program s \<noteq> None \<or> dr_program d = None) \<and>
     (case cmd of
        BindFramebuffer _ target _ \<Rightarrow> target \<noteq> GL_DRAW_FRAMEBUFFER \<and> target \<noteq> GL_READ_FRAMEBUFFER
      | gl_cmd.BindRenderbuffer _ target _ \<Rightarrow> target = GL_RENDERBUFFER_TARGET
      | BindVertexArray _ (Some v) \<Rightarrow> v = 0 \<or> vao_native obs v \<noteq> None
      | VertexAttribPointer _ _ _ _ _ _ _ \<Rightarrow> (case ts_array_buffer s of Some (Some _) \<Rightarrow> True | _ \<Rightarrow> False)
      | Scissor _ _ _ _ _ \<Rightarrow> gs_scissor s \<noteq> ScissorEnabledUnknownRect \<or> dr_caps d GL_SCISSOR_TEST
      | BindBufferBase _ _ _ _ \<Rightarrow> indexed
      | BindBufferRange _ _ _ _ _ _ \<Rightarrow> indexed
      | TexImage2DFromCanvas2D _ _ _ _ _ _ _ _ _ \<Rightarrow> False
      | TexSubImage2DFromCanvas2D _ _ _ _ _ _ _ _ _ _ \<Rightarrow> False
      | _ \<Rightarrow> True)"

section \<open>Frames\<close>

text \<open>Each part of coherence reads its own slots only.\<close>

lemma raster_frame [simp]:
  "raster_ok (s\<lparr> gs_draws_to_default_fbo := x0 \<rparr>) d \<longleftrightarrow> raster_ok s d"
  "raster_ok (s\<lparr> ts_bound_texture_2d := x1 \<rparr>) d \<longleftrightarrow> raster_ok s d"
  "raster_ok (s\<lparr> ts_active_texture_unit := x2 \<rparr>) d \<longleftrightarrow> raster_ok s d"
  "raster_ok (s\<lparr> ts_uniform_buffer := x3 \<rparr>) d \<longleftrightarrow> raster_ok s d"
  "raster_ok (s\<lparr> ts_pixel_unpack_buffer := x4 \<rparr>) d \<longleftrightarrow> raster_ok s d"
  "raster_ok (s\<lparr> ts_pixel_pack_buffer := x5 \<rparr>) d \<longleftrightarrow> raster_ok s d"
  "raster_ok (s\<lparr> ts_copy_read_buffer := x6 \<rparr>) d \<longleftrightarrow> raster_ok s d"
  "raster_ok (s\<lparr> ts_copy_write_buffer := x7 \<rparr>) d \<longleftrightarrow> raster_ok s d"
  "raster_ok (s\<lparr> ts_transform_feedback_buffer := x8 \<rparr>) d \<longleftrightarrow> raster_ok s d"
  "raster_ok (s\<lparr> ts_uniform_buffer_indexed := x9 \<rparr>) d \<longleftrightarrow> raster_ok s d"
  "raster_ok (s\<lparr> ts_bound_framebuffer := x10 \<rparr>) d \<longleftrightarrow> raster_ok s d"
  "raster_ok (s\<lparr> ts_bound_renderbuffer := x11 \<rparr>) d \<longleftrightarrow> raster_ok s d"
  "raster_ok (s\<lparr> ts_array_buffer := x12 \<rparr>) d \<longleftrightarrow> raster_ok s d"
  "raster_ok (s\<lparr> ts_element_array_buffer := x13 \<rparr>) d \<longleftrightarrow> raster_ok s d"
  "raster_ok (s\<lparr> ts_bound_vao := x14 \<rparr>) d \<longleftrightarrow> raster_ok s d"
  "raster_ok (s\<lparr> ts_vertex_attribs := x15 \<rparr>) d \<longleftrightarrow> raster_ok s d"
  "raster_ok (s\<lparr> ts_current_program := x16 \<rparr>) d \<longleftrightarrow> raster_ok s d"
  "raster_ok (s\<lparr> ts_uniform_cache := x17 \<rparr>) d \<longleftrightarrow> raster_ok s d"
  "raster_ok s (d\<lparr> dr_pixels := x18 \<rparr>) \<longleftrightarrow> raster_ok s d"
  "raster_ok s (d\<lparr> dr_active := x19 \<rparr>) \<longleftrightarrow> raster_ok s d"
  "raster_ok s (d\<lparr> dr_texture := x20 \<rparr>) \<longleftrightarrow> raster_ok s d"
  "raster_ok s (d\<lparr> dr_buffer := x21 \<rparr>) \<longleftrightarrow> raster_ok s d"
  "raster_ok s (d\<lparr> dr_generic := x22 \<rparr>) \<longleftrightarrow> raster_ok s d"
  "raster_ok s (d\<lparr> dr_indexed := x23 \<rparr>) \<longleftrightarrow> raster_ok s d"
  "raster_ok s (d\<lparr> dr_draw_fb := x24 \<rparr>) \<longleftrightarrow> raster_ok s d"
  "raster_ok s (d\<lparr> dr_read_fb := x25 \<rparr>) \<longleftrightarrow> raster_ok s d"
  "raster_ok s (d\<lparr> dr_renderbuffer := x26 \<rparr>) \<longleftrightarrow> raster_ok s d"
  "raster_ok s (d\<lparr> dr_vao := x27 \<rparr>) \<longleftrightarrow> raster_ok s d"
  "raster_ok s (d\<lparr> dr_arrays := x28 \<rparr>) \<longleftrightarrow> raster_ok s d"
  "raster_ok s (d\<lparr> dr_program := x29 \<rparr>) \<longleftrightarrow> raster_ok s d"
  "raster_ok s (d\<lparr> dr_uniforms := x30 \<rparr>) \<longleftrightarrow> raster_ok s d"
  by (simp_all add: raster_ok_def)

lemma binding_frame [simp]:
  "binding_ok indexed obs (s\<lparr> gs_viewport := x0 \<rparr>) d \<longleftrightarrow> binding_ok indexed obs s d"
  "binding_ok indexed obs (s\<lparr> gs_color_mask := x1 \<rparr>) d \<longleftrightarrow> binding_ok indexed obs s d"
  "binding_ok indexed obs (s\<lparr> gs_scissor := x2 \<rparr>) d \<longleftrightarrow> binding_ok indexed obs s d"
  "binding_ok indexed obs (s\<lparr> ts_last_scissor_rect := x3 \<rparr>) d \<longleftrightarrow> binding_ok indexed obs s d"
  "binding_ok indexed obs (s\<lparr> ts_capabilities := x4 \<rparr>) d \<longleftrightarrow> binding_ok indexed obs s d"
  "binding_ok indexed obs (s\<lparr> ts_blend_factors := x5 \<rparr>) d \<longleftrightarrow> binding_ok indexed obs s d"
  "binding_ok indexed obs (s\<lparr> ts_blend_equation := x6 \<rparr>) d \<longleftrightarrow> binding_ok indexed obs s d"
  "binding_ok indexed obs (s\<lparr> ts_blend_color := x7 \<rparr>) d \<longleftrightarrow> binding_ok indexed obs s d"
  "binding_ok indexed obs (s\<lparr> ts_depth_func := x8 \<rparr>) d \<longleftrightarrow> binding_ok indexed obs s d"
  "binding_ok indexed obs (s\<lparr> ts_depth_mask := x9 \<rparr>) d \<longleftrightarrow> binding_ok indexed obs s d"
  "binding_ok indexed obs (s\<lparr> ts_depth_range := x10 \<rparr>) d \<longleftrightarrow> binding_ok indexed obs s d"
  "binding_ok indexed obs (s\<lparr> ts_stencil_func := x11 \<rparr>) d \<longleftrightarrow> binding_ok indexed obs s d"
  "binding_ok indexed obs (s\<lparr> ts_stencil_op := x12 \<rparr>) d \<longleftrightarrow> binding_ok indexed obs s d"
  "binding_ok indexed obs (s\<lparr> ts_stencil_mask := x13 \<rparr>) d \<longleftrightarrow> binding_ok indexed obs s d"
  "binding_ok indexed obs (s\<lparr> ts_pixel_store := x14 \<rparr>) d \<longleftrightarrow> binding_ok indexed obs s d"
  "binding_ok indexed obs (s\<lparr> ts_cull_face := x15 \<rparr>) d \<longleftrightarrow> binding_ok indexed obs s d"
  "binding_ok indexed obs (s\<lparr> ts_front_face := x16 \<rparr>) d \<longleftrightarrow> binding_ok indexed obs s d"
  "binding_ok indexed obs (s\<lparr> ts_line_width := x17 \<rparr>) d \<longleftrightarrow> binding_ok indexed obs s d"
  "binding_ok indexed obs (s\<lparr> ts_polygon_offset := x18 \<rparr>) d \<longleftrightarrow> binding_ok indexed obs s d"
  "binding_ok indexed obs (s\<lparr> ts_element_array_buffer := x19 \<rparr>) d \<longleftrightarrow> binding_ok indexed obs s d"
  "binding_ok indexed obs (s\<lparr> ts_bound_vao := x20 \<rparr>) d \<longleftrightarrow> binding_ok indexed obs s d"
  "binding_ok indexed obs (s\<lparr> ts_vertex_attribs := x21 \<rparr>) d \<longleftrightarrow> binding_ok indexed obs s d"
  "binding_ok indexed obs (s\<lparr> ts_current_program := x22 \<rparr>) d \<longleftrightarrow> binding_ok indexed obs s d"
  "binding_ok indexed obs (s\<lparr> ts_uniform_cache := x23 \<rparr>) d \<longleftrightarrow> binding_ok indexed obs s d"
  "binding_ok indexed obs s (d\<lparr> dr_pixels := x24 \<rparr>) \<longleftrightarrow> binding_ok indexed obs s d"
  "binding_ok indexed obs s (d\<lparr> dr_viewport := x25 \<rparr>) \<longleftrightarrow> binding_ok indexed obs s d"
  "binding_ok indexed obs s (d\<lparr> dr_scissor := x26 \<rparr>) \<longleftrightarrow> binding_ok indexed obs s d"
  "binding_ok indexed obs s (d\<lparr> dr_color_mask := x27 \<rparr>) \<longleftrightarrow> binding_ok indexed obs s d"
  "binding_ok indexed obs s (d\<lparr> dr_caps := x28 \<rparr>) \<longleftrightarrow> binding_ok indexed obs s d"
  "binding_ok indexed obs s (d\<lparr> dr_blend_func := x29 \<rparr>) \<longleftrightarrow> binding_ok indexed obs s d"
  "binding_ok indexed obs s (d\<lparr> dr_blend_equation := x30 \<rparr>) \<longleftrightarrow> binding_ok indexed obs s d"
  "binding_ok indexed obs s (d\<lparr> dr_blend_color := x31 \<rparr>) \<longleftrightarrow> binding_ok indexed obs s d"
  "binding_ok indexed obs s (d\<lparr> dr_depth_func := x32 \<rparr>) \<longleftrightarrow> binding_ok indexed obs s d"
  "binding_ok indexed obs s (d\<lparr> dr_depth_mask := x33 \<rparr>) \<longleftrightarrow> binding_ok indexed obs s d"
  "binding_ok indexed obs s (d\<lparr> dr_depth_range := x34 \<rparr>) \<longleftrightarrow> binding_ok indexed obs s d"
  "binding_ok indexed obs s (d\<lparr> dr_stencil_func := x35 \<rparr>) \<longleftrightarrow> binding_ok indexed obs s d"
  "binding_ok indexed obs s (d\<lparr> dr_stencil_op := x36 \<rparr>) \<longleftrightarrow> binding_ok indexed obs s d"
  "binding_ok indexed obs s (d\<lparr> dr_stencil_mask := x37 \<rparr>) \<longleftrightarrow> binding_ok indexed obs s d"
  "binding_ok indexed obs s (d\<lparr> dr_pixel_store := x38 \<rparr>) \<longleftrightarrow> binding_ok indexed obs s d"
  "binding_ok indexed obs s (d\<lparr> dr_cull_face := x39 \<rparr>) \<longleftrightarrow> binding_ok indexed obs s d"
  "binding_ok indexed obs s (d\<lparr> dr_front_face := x40 \<rparr>) \<longleftrightarrow> binding_ok indexed obs s d"
  "binding_ok indexed obs s (d\<lparr> dr_line_width := x41 \<rparr>) \<longleftrightarrow> binding_ok indexed obs s d"
  "binding_ok indexed obs s (d\<lparr> dr_polygon_offset := x42 \<rparr>) \<longleftrightarrow> binding_ok indexed obs s d"
  "binding_ok indexed obs s (d\<lparr> dr_vao := x43 \<rparr>) \<longleftrightarrow> binding_ok indexed obs s d"
  "binding_ok indexed obs s (d\<lparr> dr_arrays := x44 \<rparr>) \<longleftrightarrow> binding_ok indexed obs s d"
  "binding_ok indexed obs s (d\<lparr> dr_program := x45 \<rparr>) \<longleftrightarrow> binding_ok indexed obs s d"
  "binding_ok indexed obs s (d\<lparr> dr_uniforms := x46 \<rparr>) \<longleftrightarrow> binding_ok indexed obs s d"
  by (simp_all add: binding_ok_def)

lemma vertex_frame [simp]:
  "vertex_ok obs (s\<lparr> gs_viewport := x0 \<rparr>) d \<longleftrightarrow> vertex_ok obs s d"
  "vertex_ok obs (s\<lparr> gs_color_mask := x1 \<rparr>) d \<longleftrightarrow> vertex_ok obs s d"
  "vertex_ok obs (s\<lparr> gs_scissor := x2 \<rparr>) d \<longleftrightarrow> vertex_ok obs s d"
  "vertex_ok obs (s\<lparr> ts_last_scissor_rect := x3 \<rparr>) d \<longleftrightarrow> vertex_ok obs s d"
  "vertex_ok obs (s\<lparr> ts_capabilities := x4 \<rparr>) d \<longleftrightarrow> vertex_ok obs s d"
  "vertex_ok obs (s\<lparr> ts_blend_factors := x5 \<rparr>) d \<longleftrightarrow> vertex_ok obs s d"
  "vertex_ok obs (s\<lparr> ts_blend_equation := x6 \<rparr>) d \<longleftrightarrow> vertex_ok obs s d"
  "vertex_ok obs (s\<lparr> ts_blend_color := x7 \<rparr>) d \<longleftrightarrow> vertex_ok obs s d"
  "vertex_ok obs (s\<lparr> ts_depth_func := x8 \<rparr>) d \<longleftrightarrow> vertex_ok obs s d"
  "vertex_ok obs (s\<lparr> ts_depth_mask := x9 \<rparr>) d \<longleftrightarrow> vertex_ok obs s d"
  "vertex_ok obs (s\<lparr> ts_depth_range := x10 \<rparr>) d \<longleftrightarrow> vertex_ok obs s d"
  "vertex_ok obs (s\<lparr> ts_stencil_func := x11 \<rparr>) d \<longleftrightarrow> vertex_ok obs s d"
  "vertex_ok obs (s\<lparr> ts_stencil_op := x12 \<rparr>) d \<longleftrightarrow> vertex_ok obs s d"
  "vertex_ok obs (s\<lparr> ts_stencil_mask := x13 \<rparr>) d \<longleftrightarrow> vertex_ok obs s d"
  "vertex_ok obs (s\<lparr> ts_pixel_store := x14 \<rparr>) d \<longleftrightarrow> vertex_ok obs s d"
  "vertex_ok obs (s\<lparr> ts_cull_face := x15 \<rparr>) d \<longleftrightarrow> vertex_ok obs s d"
  "vertex_ok obs (s\<lparr> ts_front_face := x16 \<rparr>) d \<longleftrightarrow> vertex_ok obs s d"
  "vertex_ok obs (s\<lparr> ts_line_width := x17 \<rparr>) d \<longleftrightarrow> vertex_ok obs s d"
  "vertex_ok obs (s\<lparr> ts_polygon_offset := x18 \<rparr>) d \<longleftrightarrow> vertex_ok obs s d"
  "vertex_ok obs (s\<lparr> gs_draws_to_default_fbo := x19 \<rparr>) d \<longleftrightarrow> vertex_ok obs s d"
  "vertex_ok obs (s\<lparr> ts_bound_texture_2d := x20 \<rparr>) d \<longleftrightarrow> vertex_ok obs s d"
  "vertex_ok obs (s\<lparr> ts_active_texture_unit := x21 \<rparr>) d \<longleftrightarrow> vertex_ok obs s d"
  "vertex_ok obs (s\<lparr> ts_uniform_buffer := x22 \<rparr>) d \<longleftrightarrow> vertex_ok obs s d"
  "vertex_ok obs (s\<lparr> ts_pixel_unpack_buffer := x23 \<rparr>) d \<longleftrightarrow> vertex_ok obs s d"
  "vertex_ok obs (s\<lparr> ts_pixel_pack_buffer := x24 \<rparr>) d \<longleftrightarrow> vertex_ok obs s d"
  "vertex_ok obs (s\<lparr> ts_copy_read_buffer := x25 \<rparr>) d \<longleftrightarrow> vertex_ok obs s d"
  "vertex_ok obs (s\<lparr> ts_copy_write_buffer := x26 \<rparr>) d \<longleftrightarrow> vertex_ok obs s d"
  "vertex_ok obs (s\<lparr> ts_transform_feedback_buffer := x27 \<rparr>) d \<longleftrightarrow> vertex_ok obs s d"
  "vertex_ok obs (s\<lparr> ts_uniform_buffer_indexed := x28 \<rparr>) d \<longleftrightarrow> vertex_ok obs s d"
  "vertex_ok obs (s\<lparr> ts_bound_framebuffer := x29 \<rparr>) d \<longleftrightarrow> vertex_ok obs s d"
  "vertex_ok obs (s\<lparr> ts_bound_renderbuffer := x30 \<rparr>) d \<longleftrightarrow> vertex_ok obs s d"
  "vertex_ok obs (s\<lparr> ts_array_buffer := x31 \<rparr>) d \<longleftrightarrow> vertex_ok obs s d"
  "vertex_ok obs (s\<lparr> ts_current_program := x32 \<rparr>) d \<longleftrightarrow> vertex_ok obs s d"
  "vertex_ok obs (s\<lparr> ts_uniform_cache := x33 \<rparr>) d \<longleftrightarrow> vertex_ok obs s d"
  "vertex_ok obs s (d\<lparr> dr_pixels := x34 \<rparr>) \<longleftrightarrow> vertex_ok obs s d"
  "vertex_ok obs s (d\<lparr> dr_viewport := x35 \<rparr>) \<longleftrightarrow> vertex_ok obs s d"
  "vertex_ok obs s (d\<lparr> dr_scissor := x36 \<rparr>) \<longleftrightarrow> vertex_ok obs s d"
  "vertex_ok obs s (d\<lparr> dr_color_mask := x37 \<rparr>) \<longleftrightarrow> vertex_ok obs s d"
  "vertex_ok obs s (d\<lparr> dr_caps := x38 \<rparr>) \<longleftrightarrow> vertex_ok obs s d"
  "vertex_ok obs s (d\<lparr> dr_blend_func := x39 \<rparr>) \<longleftrightarrow> vertex_ok obs s d"
  "vertex_ok obs s (d\<lparr> dr_blend_equation := x40 \<rparr>) \<longleftrightarrow> vertex_ok obs s d"
  "vertex_ok obs s (d\<lparr> dr_blend_color := x41 \<rparr>) \<longleftrightarrow> vertex_ok obs s d"
  "vertex_ok obs s (d\<lparr> dr_depth_func := x42 \<rparr>) \<longleftrightarrow> vertex_ok obs s d"
  "vertex_ok obs s (d\<lparr> dr_depth_mask := x43 \<rparr>) \<longleftrightarrow> vertex_ok obs s d"
  "vertex_ok obs s (d\<lparr> dr_depth_range := x44 \<rparr>) \<longleftrightarrow> vertex_ok obs s d"
  "vertex_ok obs s (d\<lparr> dr_stencil_func := x45 \<rparr>) \<longleftrightarrow> vertex_ok obs s d"
  "vertex_ok obs s (d\<lparr> dr_stencil_op := x46 \<rparr>) \<longleftrightarrow> vertex_ok obs s d"
  "vertex_ok obs s (d\<lparr> dr_stencil_mask := x47 \<rparr>) \<longleftrightarrow> vertex_ok obs s d"
  "vertex_ok obs s (d\<lparr> dr_pixel_store := x48 \<rparr>) \<longleftrightarrow> vertex_ok obs s d"
  "vertex_ok obs s (d\<lparr> dr_cull_face := x49 \<rparr>) \<longleftrightarrow> vertex_ok obs s d"
  "vertex_ok obs s (d\<lparr> dr_front_face := x50 \<rparr>) \<longleftrightarrow> vertex_ok obs s d"
  "vertex_ok obs s (d\<lparr> dr_line_width := x51 \<rparr>) \<longleftrightarrow> vertex_ok obs s d"
  "vertex_ok obs s (d\<lparr> dr_polygon_offset := x52 \<rparr>) \<longleftrightarrow> vertex_ok obs s d"
  "vertex_ok obs s (d\<lparr> dr_active := x53 \<rparr>) \<longleftrightarrow> vertex_ok obs s d"
  "vertex_ok obs s (d\<lparr> dr_texture := x54 \<rparr>) \<longleftrightarrow> vertex_ok obs s d"
  "vertex_ok obs s (d\<lparr> dr_buffer := x55 \<rparr>) \<longleftrightarrow> vertex_ok obs s d"
  "vertex_ok obs s (d\<lparr> dr_generic := x56 \<rparr>) \<longleftrightarrow> vertex_ok obs s d"
  "vertex_ok obs s (d\<lparr> dr_indexed := x57 \<rparr>) \<longleftrightarrow> vertex_ok obs s d"
  "vertex_ok obs s (d\<lparr> dr_draw_fb := x58 \<rparr>) \<longleftrightarrow> vertex_ok obs s d"
  "vertex_ok obs s (d\<lparr> dr_read_fb := x59 \<rparr>) \<longleftrightarrow> vertex_ok obs s d"
  "vertex_ok obs s (d\<lparr> dr_renderbuffer := x60 \<rparr>) \<longleftrightarrow> vertex_ok obs s d"
  "vertex_ok obs s (d\<lparr> dr_program := x61 \<rparr>) \<longleftrightarrow> vertex_ok obs s d"
  "vertex_ok obs s (d\<lparr> dr_uniforms := x62 \<rparr>) \<longleftrightarrow> vertex_ok obs s d"
  by (simp_all add: vertex_ok_def current_vao_def)

lemma program_frame [simp]:
  "program_ok obs (s\<lparr> gs_viewport := x0 \<rparr>) d \<longleftrightarrow> program_ok obs s d"
  "program_ok obs (s\<lparr> gs_color_mask := x1 \<rparr>) d \<longleftrightarrow> program_ok obs s d"
  "program_ok obs (s\<lparr> gs_scissor := x2 \<rparr>) d \<longleftrightarrow> program_ok obs s d"
  "program_ok obs (s\<lparr> ts_last_scissor_rect := x3 \<rparr>) d \<longleftrightarrow> program_ok obs s d"
  "program_ok obs (s\<lparr> ts_capabilities := x4 \<rparr>) d \<longleftrightarrow> program_ok obs s d"
  "program_ok obs (s\<lparr> ts_blend_factors := x5 \<rparr>) d \<longleftrightarrow> program_ok obs s d"
  "program_ok obs (s\<lparr> ts_blend_equation := x6 \<rparr>) d \<longleftrightarrow> program_ok obs s d"
  "program_ok obs (s\<lparr> ts_blend_color := x7 \<rparr>) d \<longleftrightarrow> program_ok obs s d"
  "program_ok obs (s\<lparr> ts_depth_func := x8 \<rparr>) d \<longleftrightarrow> program_ok obs s d"
  "program_ok obs (s\<lparr> ts_depth_mask := x9 \<rparr>) d \<longleftrightarrow> program_ok obs s d"
  "program_ok obs (s\<lparr> ts_depth_range := x10 \<rparr>) d \<longleftrightarrow> program_ok obs s d"
  "program_ok obs (s\<lparr> ts_stencil_func := x11 \<rparr>) d \<longleftrightarrow> program_ok obs s d"
  "program_ok obs (s\<lparr> ts_stencil_op := x12 \<rparr>) d \<longleftrightarrow> program_ok obs s d"
  "program_ok obs (s\<lparr> ts_stencil_mask := x13 \<rparr>) d \<longleftrightarrow> program_ok obs s d"
  "program_ok obs (s\<lparr> ts_pixel_store := x14 \<rparr>) d \<longleftrightarrow> program_ok obs s d"
  "program_ok obs (s\<lparr> ts_cull_face := x15 \<rparr>) d \<longleftrightarrow> program_ok obs s d"
  "program_ok obs (s\<lparr> ts_front_face := x16 \<rparr>) d \<longleftrightarrow> program_ok obs s d"
  "program_ok obs (s\<lparr> ts_line_width := x17 \<rparr>) d \<longleftrightarrow> program_ok obs s d"
  "program_ok obs (s\<lparr> ts_polygon_offset := x18 \<rparr>) d \<longleftrightarrow> program_ok obs s d"
  "program_ok obs (s\<lparr> gs_draws_to_default_fbo := x19 \<rparr>) d \<longleftrightarrow> program_ok obs s d"
  "program_ok obs (s\<lparr> ts_bound_texture_2d := x20 \<rparr>) d \<longleftrightarrow> program_ok obs s d"
  "program_ok obs (s\<lparr> ts_active_texture_unit := x21 \<rparr>) d \<longleftrightarrow> program_ok obs s d"
  "program_ok obs (s\<lparr> ts_uniform_buffer := x22 \<rparr>) d \<longleftrightarrow> program_ok obs s d"
  "program_ok obs (s\<lparr> ts_pixel_unpack_buffer := x23 \<rparr>) d \<longleftrightarrow> program_ok obs s d"
  "program_ok obs (s\<lparr> ts_pixel_pack_buffer := x24 \<rparr>) d \<longleftrightarrow> program_ok obs s d"
  "program_ok obs (s\<lparr> ts_copy_read_buffer := x25 \<rparr>) d \<longleftrightarrow> program_ok obs s d"
  "program_ok obs (s\<lparr> ts_copy_write_buffer := x26 \<rparr>) d \<longleftrightarrow> program_ok obs s d"
  "program_ok obs (s\<lparr> ts_transform_feedback_buffer := x27 \<rparr>) d \<longleftrightarrow> program_ok obs s d"
  "program_ok obs (s\<lparr> ts_uniform_buffer_indexed := x28 \<rparr>) d \<longleftrightarrow> program_ok obs s d"
  "program_ok obs (s\<lparr> ts_bound_framebuffer := x29 \<rparr>) d \<longleftrightarrow> program_ok obs s d"
  "program_ok obs (s\<lparr> ts_bound_renderbuffer := x30 \<rparr>) d \<longleftrightarrow> program_ok obs s d"
  "program_ok obs (s\<lparr> ts_array_buffer := x31 \<rparr>) d \<longleftrightarrow> program_ok obs s d"
  "program_ok obs (s\<lparr> ts_element_array_buffer := x32 \<rparr>) d \<longleftrightarrow> program_ok obs s d"
  "program_ok obs (s\<lparr> ts_bound_vao := x33 \<rparr>) d \<longleftrightarrow> program_ok obs s d"
  "program_ok obs (s\<lparr> ts_vertex_attribs := x34 \<rparr>) d \<longleftrightarrow> program_ok obs s d"
  "program_ok obs s (d\<lparr> dr_pixels := x35 \<rparr>) \<longleftrightarrow> program_ok obs s d"
  "program_ok obs s (d\<lparr> dr_viewport := x36 \<rparr>) \<longleftrightarrow> program_ok obs s d"
  "program_ok obs s (d\<lparr> dr_scissor := x37 \<rparr>) \<longleftrightarrow> program_ok obs s d"
  "program_ok obs s (d\<lparr> dr_color_mask := x38 \<rparr>) \<longleftrightarrow> program_ok obs s d"
  "program_ok obs s (d\<lparr> dr_caps := x39 \<rparr>) \<longleftrightarrow> program_ok obs s d"
  "program_ok obs s (d\<lparr> dr_blend_func := x40 \<rparr>) \<longleftrightarrow> program_ok obs s d"
  "program_ok obs s (d\<lparr> dr_blend_equation := x41 \<rparr>) \<longleftrightarrow> program_ok obs s d"
  "program_ok obs s (d\<lparr> dr_blend_color := x42 \<rparr>) \<longleftrightarrow> program_ok obs s d"
  "program_ok obs s (d\<lparr> dr_depth_func := x43 \<rparr>) \<longleftrightarrow> program_ok obs s d"
  "program_ok obs s (d\<lparr> dr_depth_mask := x44 \<rparr>) \<longleftrightarrow> program_ok obs s d"
  "program_ok obs s (d\<lparr> dr_depth_range := x45 \<rparr>) \<longleftrightarrow> program_ok obs s d"
  "program_ok obs s (d\<lparr> dr_stencil_func := x46 \<rparr>) \<longleftrightarrow> program_ok obs s d"
  "program_ok obs s (d\<lparr> dr_stencil_op := x47 \<rparr>) \<longleftrightarrow> program_ok obs s d"
  "program_ok obs s (d\<lparr> dr_stencil_mask := x48 \<rparr>) \<longleftrightarrow> program_ok obs s d"
  "program_ok obs s (d\<lparr> dr_pixel_store := x49 \<rparr>) \<longleftrightarrow> program_ok obs s d"
  "program_ok obs s (d\<lparr> dr_cull_face := x50 \<rparr>) \<longleftrightarrow> program_ok obs s d"
  "program_ok obs s (d\<lparr> dr_front_face := x51 \<rparr>) \<longleftrightarrow> program_ok obs s d"
  "program_ok obs s (d\<lparr> dr_line_width := x52 \<rparr>) \<longleftrightarrow> program_ok obs s d"
  "program_ok obs s (d\<lparr> dr_polygon_offset := x53 \<rparr>) \<longleftrightarrow> program_ok obs s d"
  "program_ok obs s (d\<lparr> dr_active := x54 \<rparr>) \<longleftrightarrow> program_ok obs s d"
  "program_ok obs s (d\<lparr> dr_texture := x55 \<rparr>) \<longleftrightarrow> program_ok obs s d"
  "program_ok obs s (d\<lparr> dr_buffer := x56 \<rparr>) \<longleftrightarrow> program_ok obs s d"
  "program_ok obs s (d\<lparr> dr_generic := x57 \<rparr>) \<longleftrightarrow> program_ok obs s d"
  "program_ok obs s (d\<lparr> dr_indexed := x58 \<rparr>) \<longleftrightarrow> program_ok obs s d"
  "program_ok obs s (d\<lparr> dr_draw_fb := x59 \<rparr>) \<longleftrightarrow> program_ok obs s d"
  "program_ok obs s (d\<lparr> dr_read_fb := x60 \<rparr>) \<longleftrightarrow> program_ok obs s d"
  "program_ok obs s (d\<lparr> dr_renderbuffer := x61 \<rparr>) \<longleftrightarrow> program_ok obs s d"
  "program_ok obs s (d\<lparr> dr_vao := x62 \<rparr>) \<longleftrightarrow> program_ok obs s d"
  "program_ok obs s (d\<lparr> dr_arrays := x63 \<rparr>) \<longleftrightarrow> program_ok obs s d"
  by (simp_all add: program_ok_def)

lemma binding_ok_generic [simp]: "binding_ok True obs s (d\<lparr> dr_generic := g \<rparr>) \<longleftrightarrow> binding_ok True obs s d"
  by (simp add: binding_ok_def)

lemma view_generic [simp]: "view True (d\<lparr> dr_generic := g \<rparr>) = view True d"
  by (simp add: view_def hidden_def)

lemma view_False [simp]: "view False d = d"
  by (simp add: view_def)

lemma hidden_eqD: "hidden d = hidden d' \<Longrightarrow> \<exists>g. d' = d\<lparr> dr_generic := g \<rparr>"
  by (cases d; cases d') (auto simp: hidden_def)

lemma coherent_view:
  assumes "view indexed d = view indexed d'" "coherent indexed obs s d"
  shows "coherent indexed obs s d'"
proof (cases indexed)
  case True
  then obtain g where "d' = d\<lparr> dr_generic := g \<rparr>" using assms(1) hidden_eqD by (auto simp: view_def)
  with True assms(2) show ?thesis by (simp add: coherent_def)
qed (use assms in \<open>simp add: view_def\<close>)

section \<open>One command\<close>

text \<open>
  The handler's answer does, up to the view, what the calls of the command do, and the
  shadow stays coherent.
\<close>

definition refines :: "(gl_cmd \<Rightarrow> 'p gl_driver \<Rightarrow> 'p) \<Rightarrow> bool \<Rightarrow> gl_objects \<Rightarrow> 'p gl_driver \<Rightarrow> handled \<Rightarrow> gl_call list \<Rightarrow> bool" where
  "refines effect indexed obs d r calls \<longleftrightarrow> (\<exists>s' calls'. r = Ok (s', calls') \<and>
     coherent indexed obs s' (fold (exec_call effect) calls d) \<and>
     view indexed (fold (exec_call effect) calls' d) = view indexed (fold (exec_call effect) calls d))"

lemma refines_issue_view:
  assumes "coherent indexed obs (snd r) (exec_call effect c d)"
    and "\<not> fst r \<Longrightarrow> view indexed (exec_call effect c d) = view indexed d"
  shows "refines effect indexed obs d (issue r c) [c]"
  using assms by (simp add: refines_def issue_def)

lemma refines_issue:
  assumes "coherent indexed obs (snd r) (exec_call effect c d)"
    and "\<not> fst r \<Longrightarrow> exec_call effect c d = d"
  shows "refines effect indexed obs d (issue r c) [c]"
  using assms by (simp add: refines_def issue_def)

lemma refines_issue_opt:
  assumes "r = Some r'" "coherent indexed obs (snd r') (exec_call effect c d)"
    and "\<not> fst r' \<Longrightarrow> exec_call effect c d = d"
  shows "refines effect indexed obs d (issue_opt r c) [c]"
  using refines_issue [of indexed obs r' effect c d] assms by (simp add: issue_opt_def)

lemma live_handle_Inr: "live_handle table owned name = Inr h \<Longrightarrow> h = handle_of table name"
  by (auto simp: live_handle_def handle_of_def split: option.splits if_splits)

lemma dedup_stored [simp]:
  "slot_agrees native (snd (dedup_slot (=) new slot)) (native new)"
  "slot_agrees id (snd (dedup_slot (=) new' slot')) new'"
  "slot_agrees f32_value (snd (dedup_slot f32_eq x slot1)) (f32_value x)"
  "slot_agrees f32_value2 (snd (dedup_slot f32_eq2 y slot2)) (f32_value2 y)"
  "slot_agrees f32_value4 (snd (dedup_slot f32_eq4 z slot4)) (f32_value4 z)"
  by (auto simp: dedup_slot_def f32_eq_value f32_eq2_value f32_eq4_value split: option.splits)

lemma dedup_skipped [simp]: "\<not> fst (dedup_slot (=) new slot) \<longleftrightarrow> slot = Some new"
  by (simp add: dedup_slot_def split: option.splits)

lemma dedup_known [simp]: "snd (dedup_slot eq new slot) \<noteq> None"
  by (simp add: dedup_slot_def split: option.splits)

lemma dedup_skipped_float:
  "slot_agrees f32_value slot1 v1 \<Longrightarrow> \<not> fst (dedup_slot f32_eq x slot1) \<Longrightarrow> v1 = f32_value x"
  "slot_agrees f32_value2 slot2 v2 \<Longrightarrow> \<not> fst (dedup_slot f32_eq2 y slot2) \<Longrightarrow> v2 = f32_value2 y"
  "slot_agrees f32_value4 slot4 v4 \<Longrightarrow> \<not> fst (dedup_slot f32_eq4 z slot4) \<Longrightarrow> v4 = f32_value4 z"
proof -
  show "slot_agrees f32_value slot1 v1 \<Longrightarrow> \<not> fst (dedup_slot f32_eq x slot1) \<Longrightarrow> v1 = f32_value x"
    using dedup_slot_laws(2) [where eq = f32_eq and native = f32_value, OF f32_eq_value] .
  show "slot_agrees f32_value2 slot2 v2 \<Longrightarrow> \<not> fst (dedup_slot f32_eq2 y slot2) \<Longrightarrow> v2 = f32_value2 y"
    using dedup_slot_laws(2) [where eq = f32_eq2 and native = f32_value2, OF f32_eq2_value] .
  show "slot_agrees f32_value4 slot4 v4 \<Longrightarrow> \<not> fst (dedup_slot f32_eq4 z slot4) \<Longrightarrow> v4 = f32_value4 z"
    using dedup_slot_laws(2) [where eq = f32_eq4 and native = f32_value4, OF f32_eq4_value] .
qed

text \<open>A write of the value that is already there.\<close>

lemma same_write [simp]:
  "d\<lparr> dr_pixels := v0 \<rparr> = d \<longleftrightarrow> dr_pixels d = v0"
  "d\<lparr> dr_viewport := v1 \<rparr> = d \<longleftrightarrow> dr_viewport d = v1"
  "d\<lparr> dr_scissor := v2 \<rparr> = d \<longleftrightarrow> dr_scissor d = v2"
  "d\<lparr> dr_color_mask := v3 \<rparr> = d \<longleftrightarrow> dr_color_mask d = v3"
  "d\<lparr> dr_caps := v4 \<rparr> = d \<longleftrightarrow> dr_caps d = v4"
  "d\<lparr> dr_blend_func := v5 \<rparr> = d \<longleftrightarrow> dr_blend_func d = v5"
  "d\<lparr> dr_blend_equation := v6 \<rparr> = d \<longleftrightarrow> dr_blend_equation d = v6"
  "d\<lparr> dr_blend_color := v7 \<rparr> = d \<longleftrightarrow> dr_blend_color d = v7"
  "d\<lparr> dr_depth_func := v8 \<rparr> = d \<longleftrightarrow> dr_depth_func d = v8"
  "d\<lparr> dr_depth_mask := v9 \<rparr> = d \<longleftrightarrow> dr_depth_mask d = v9"
  "d\<lparr> dr_depth_range := v10 \<rparr> = d \<longleftrightarrow> dr_depth_range d = v10"
  "d\<lparr> dr_stencil_func := v11 \<rparr> = d \<longleftrightarrow> dr_stencil_func d = v11"
  "d\<lparr> dr_stencil_op := v12 \<rparr> = d \<longleftrightarrow> dr_stencil_op d = v12"
  "d\<lparr> dr_stencil_mask := v13 \<rparr> = d \<longleftrightarrow> dr_stencil_mask d = v13"
  "d\<lparr> dr_pixel_store := v14 \<rparr> = d \<longleftrightarrow> dr_pixel_store d = v14"
  "d\<lparr> dr_cull_face := v15 \<rparr> = d \<longleftrightarrow> dr_cull_face d = v15"
  "d\<lparr> dr_front_face := v16 \<rparr> = d \<longleftrightarrow> dr_front_face d = v16"
  "d\<lparr> dr_line_width := v17 \<rparr> = d \<longleftrightarrow> dr_line_width d = v17"
  "d\<lparr> dr_polygon_offset := v18 \<rparr> = d \<longleftrightarrow> dr_polygon_offset d = v18"
  "d\<lparr> dr_active := v19 \<rparr> = d \<longleftrightarrow> dr_active d = v19"
  "d\<lparr> dr_texture := v20 \<rparr> = d \<longleftrightarrow> dr_texture d = v20"
  "d\<lparr> dr_buffer := v21 \<rparr> = d \<longleftrightarrow> dr_buffer d = v21"
  "d\<lparr> dr_generic := v22 \<rparr> = d \<longleftrightarrow> dr_generic d = v22"
  "d\<lparr> dr_indexed := v23 \<rparr> = d \<longleftrightarrow> dr_indexed d = v23"
  "d\<lparr> dr_draw_fb := v24 \<rparr> = d \<longleftrightarrow> dr_draw_fb d = v24"
  "d\<lparr> dr_read_fb := v25 \<rparr> = d \<longleftrightarrow> dr_read_fb d = v25"
  "d\<lparr> dr_renderbuffer := v26 \<rparr> = d \<longleftrightarrow> dr_renderbuffer d = v26"
  "d\<lparr> dr_vao := v27 \<rparr> = d \<longleftrightarrow> dr_vao d = v27"
  "d\<lparr> dr_arrays := v28 \<rparr> = d \<longleftrightarrow> dr_arrays d = v28"
  "d\<lparr> dr_program := v29 \<rparr> = d \<longleftrightarrow> dr_program d = v29"
  "d\<lparr> dr_uniforms := v30 \<rparr> = d \<longleftrightarrow> dr_uniforms d = v30"
  by (cases d; auto)+

lemmas setter_defs = update_viewport_def update_depth_func_def update_depth_mask_def update_depth_range_def
  update_cull_face_def update_front_face_def update_blend_func_separate_def update_blend_equation_separate_def
  update_blend_color_def update_line_width_def update_polygon_offset_def update_stencil_func_def
  update_stencil_op_def update_stencil_mask_def update_pixel_store_i32_def update_color_mask_def
  case_prod_beta Let_def

lemma refines_scalars:
  assumes "coherent indexed obs s d"
  shows "refines effect indexed obs d (issue (update_viewport s r) (CallViewport r)) [CallViewport r]"
    and "refines effect indexed obs d (issue (update_depth_func s f) (CallDepthFunc f)) [CallDepthFunc f]"
    and "refines effect indexed obs d (issue (update_depth_mask s b) (CallDepthMask b)) [CallDepthMask b]"
    and "refines effect indexed obs d (issue (update_depth_range s x y) (CallDepthRange (x, y))) [CallDepthRange (x, y)]"
    and "refines effect indexed obs d (issue (update_cull_face s f) (CallCullFace f)) [CallCullFace f]"
    and "refines effect indexed obs d (issue (update_front_face s f) (CallFrontFace f)) [CallFrontFace f]"
    and "refines effect indexed obs d (issue (update_blend_func_separate s f1 f2 f3 f4) (CallBlendFunc (f1, f2, f3, f4)))
           [CallBlendFunc (f1, f2, f3, f4)]"
    and "refines effect indexed obs d (issue (update_blend_equation_separate s f1 f2) (CallBlendEquation (f1, f2)))
           [CallBlendEquation (f1, f2)]"
    and "refines effect indexed obs d (issue (update_blend_color s x y z w) (CallBlendColor (x, y, z, w)))
           [CallBlendColor (x, y, z, w)]"
    and "refines effect indexed obs d (issue (update_line_width s x) (CallLineWidth x)) [CallLineWidth x]"
    and "refines effect indexed obs d (issue (update_polygon_offset s x y) (CallPolygonOffset (x, y))) [CallPolygonOffset (x, y)]"
    and "refines effect indexed obs d (issue (update_stencil_func s face v1 v2 v3) (CallStencilFunc face (v1, v2, v3)))
           [CallStencilFunc face (v1, v2, v3)]"
    and "refines effect indexed obs d (issue (update_stencil_op s face w1 w2 w3) (CallStencilOp face (w1, w2, w3)))
           [CallStencilOp face (w1, w2, w3)]"
    and "refines effect indexed obs d (issue (update_stencil_mask s face f) (CallStencilMask face f)) [CallStencilMask face f]"
    and "refines effect indexed obs d (issue (update_pixel_store_i32 s face v2) (CallPixelStore face v2)) [CallPixelStore face v2]"
    and "refines effect indexed obs d (issue (update_color_mask s b1 b2 b3 b4) (CallColorMask (b1, b2, b3, b4)))
           [CallColorMask (b1, b2, b3, b4)]"
proof -
  have r: "raster_ok s d" and rest: "binding_ok indexed obs s d" "vertex_ok obs s d" "program_ok obs s d"
    using assms by (simp_all add: coherent_def)
  note r' = r [unfolded raster_ok_def]
  note tools = coherent_def setter_defs raster_ok_def rest r' faces.update_agrees pixel_store.update_agrees
  note [simp del] = f32_value2.simps f32_value4.simps
  have floats: "\<not> fst (dedup_slot f32_eq2 (x, y) (ts_depth_range s)) \<Longrightarrow> dr_depth_range d = f32_value2 (x, y)"
    "\<not> fst (dedup_slot f32_eq2 (x, y) (ts_polygon_offset s)) \<Longrightarrow> dr_polygon_offset d = f32_value2 (x, y)"
    "\<not> fst (dedup_slot f32_eq x (ts_line_width s)) \<Longrightarrow> dr_line_width d = f32_value x"
    "\<not> fst (dedup_slot f32_eq4 (x, y, z, w) (ts_blend_color s)) \<Longrightarrow> dr_blend_color d = f32_value4 (x, y, z, w)"
    using r' dedup_skipped_float by blast+
  show "refines effect indexed obs d (issue (update_viewport s r) (CallViewport r)) [CallViewport r]"
    "refines effect indexed obs d (issue (update_depth_func s f) (CallDepthFunc f)) [CallDepthFunc f]"
    "refines effect indexed obs d (issue (update_depth_mask s b) (CallDepthMask b)) [CallDepthMask b]"
    "refines effect indexed obs d (issue (update_cull_face s f) (CallCullFace f)) [CallCullFace f]"
    "refines effect indexed obs d (issue (update_front_face s f) (CallFrontFace f)) [CallFrontFace f]"
    "refines effect indexed obs d (issue (update_blend_func_separate s f1 f2 f3 f4) (CallBlendFunc (f1, f2, f3, f4)))
       [CallBlendFunc (f1, f2, f3, f4)]"
    "refines effect indexed obs d (issue (update_blend_equation_separate s f1 f2) (CallBlendEquation (f1, f2)))
       [CallBlendEquation (f1, f2)]"
    using r' by (intro refines_issue; simp add: tools)+
  show "refines effect indexed obs d (issue (update_depth_range s x y) (CallDepthRange (x, y))) [CallDepthRange (x, y)]"
    "refines effect indexed obs d (issue (update_blend_color s x y z w) (CallBlendColor (x, y, z, w))) [CallBlendColor (x, y, z, w)]"
    "refines effect indexed obs d (issue (update_line_width s x) (CallLineWidth x)) [CallLineWidth x]"
    "refines effect indexed obs d (issue (update_polygon_offset s x y) (CallPolygonOffset (x, y))) [CallPolygonOffset (x, y)]"
    using floats by (intro refines_issue; simp add: tools)+
  have tables: "\<not> fst (face_update (face, v1, v2, v3) (ts_stencil_func s)) \<Longrightarrow>
      dr_stencil_func d = set_face (face, v1, v2, v3) (dr_stencil_func d)"
    "\<not> fst (face_update (face, w1, w2, w3) (ts_stencil_op s)) \<Longrightarrow>
      dr_stencil_op d = set_face (face, w1, w2, w3) (dr_stencil_op d)"
    "\<not> fst (face_update (face, f) (ts_stencil_mask s)) \<Longrightarrow>
      dr_stencil_mask d = set_face (face, f) (dr_stencil_mask d)"
    "\<not> fst (ps_update (face, v2) (ts_pixel_store s)) \<Longrightarrow>
      dr_pixel_store d = set_pixel_store (face, v2) (dr_pixel_store d)"
    using r' faces.skipped_is_redundant pixel_store.skipped_is_redundant by metis+
  show "refines effect indexed obs d (issue (update_stencil_func s face v1 v2 v3) (CallStencilFunc face (v1, v2, v3)))
       [CallStencilFunc face (v1, v2, v3)]"
    "refines effect indexed obs d (issue (update_stencil_op s face w1 w2 w3) (CallStencilOp face (w1, w2, w3)))
       [CallStencilOp face (w1, w2, w3)]"
    "refines effect indexed obs d (issue (update_stencil_mask s face f) (CallStencilMask face f)) [CallStencilMask face f]"
    "refines effect indexed obs d (issue (update_pixel_store_i32 s face v2) (CallPixelStore face v2)) [CallPixelStore face v2]"
    using tables by (intro refines_issue; simp add: tools)+
  show "refines effect indexed obs d (issue (update_color_mask s b1 b2 b3 b4) (CallColorMask (b1, b2, b3, b4)))
       [CallColorMask (b1, b2, b3, b4)]"
    by (intro refines_issue) (simp_all add: tools split: if_splits)
qed

end
