(* ===== verification/Gl_Transparency.thy ===== *)
theory Gl_Transparency
  imports Gl_Driver
begin

text \<open>
  The handler of the WebGL commands refines the one without a shadow: command by command,
  then over runs that also hold Skia's drawing, links and deletions, and with the damage
  classifiers on top. The last section shows the runs where deduplication can be observed.
\<close>

section \<open>Command by command\<close>



lemma same_element [simp]: "v = v\<lparr> vd_element := e \<rparr> \<longleftrightarrow> vd_element v = e"
  by (cases v) auto








text \<open>
  Binding a vertex array drops what the shadow knew of the element buffer, which belongs
  to the array, and of the array buffer, which does not.
\<close>

lemma current_vao_Some [simp]: "current_vao (s\<lparr> ts_bound_vao := Some v \<rparr>) = v"
  by (simp add: current_vao_def)

lemma current_vao_frame [simp]:
  "current_vao (s\<lparr> ts_array_buffer := a \<rparr>) = current_vao s"
  "current_vao (s\<lparr> ts_element_array_buffer := a \<rparr>) = current_vao s"
  "current_vao (s\<lparr> ts_vertex_attribs := t \<rparr>) = current_vao s"
  by (simp_all add: current_vao_def)










section \<open>Everything else that moves the driver or the shadow\<close>

text \<open>
  Skia draws a 2D canvas in the same context. The guard around it saves five bindings,
  restores them, and invalidates the shadow (\<open>context_2d_impl.rs\<close>).
\<close>

abbreviation (input) GL_UNPACK_ALIGNMENT :: u32 where "GL_UNPACK_ALIGNMENT \<equiv> 0x0CF5"
abbreviation (input) GL_PACK_ALIGNMENT :: u32 where "GL_PACK_ALIGNMENT \<equiv> 0x0D05"
abbreviation (input) GL_TEXTURE0 :: u32 where "GL_TEXTURE0 \<equiv> 0x84C0"

record canvas2d_gl_state =
  sc_active_texture :: u32
  sc_unpack_pbo :: "u32 option"
  sc_pack_pbo :: "u32 option"
  sc_unpack_alignment :: i32
  sc_pack_alignment :: i32

definition begin_canvas2d_gl_scope :: "'p gl_driver \<Rightarrow> canvas2d_gl_state \<times> 'p gl_driver" where
  "begin_canvas2d_gl_scope d =
     (\<lparr> sc_active_texture = dr_active d, sc_unpack_pbo = dr_buffer d GL_PIXEL_UNPACK_BUFFER,
        sc_pack_pbo = dr_buffer d GL_PIXEL_PACK_BUFFER, sc_unpack_alignment = dr_pixel_store d GL_UNPACK_ALIGNMENT,
        sc_pack_alignment = dr_pixel_store d GL_PACK_ALIGNMENT \<rparr>,
      d\<lparr> dr_buffer := (dr_buffer d)(GL_PIXEL_UNPACK_BUFFER := None, GL_PIXEL_PACK_BUFFER := None),
         dr_pixel_store := (dr_pixel_store d)(GL_UNPACK_ALIGNMENT := 4, GL_PACK_ALIGNMENT := 4),
         dr_active := GL_TEXTURE0 \<rparr>)"

definition restore_scope :: "canvas2d_gl_state \<Rightarrow> 'p gl_driver \<Rightarrow> 'p gl_driver" where
  "restore_scope sc d =
     d\<lparr> dr_active := sc_active_texture sc,
        dr_buffer := (dr_buffer d)(GL_PIXEL_UNPACK_BUFFER := sc_unpack_pbo sc, GL_PIXEL_PACK_BUFFER := sc_pack_pbo sc),
        dr_pixel_store := (dr_pixel_store d)(GL_UNPACK_ALIGNMENT := sc_unpack_alignment sc,
          GL_PACK_ALIGNMENT := sc_pack_alignment sc) \<rparr>"

definition resync_shadow :: "canvas2d_gl_state \<Rightarrow> tracked_state \<Rightarrow> tracked_state" where
  "resync_shadow sc s = (invalidate_after_external_gl_use s)\<lparr> ts_active_texture_unit := Some (sc_active_texture sc) \<rparr>"

text \<open>The manager points the driver at the canvas's own framebuffer.\<close>

definition bind_default_framebuffer :: "gl_objects \<Rightarrow> tracked_state \<times> 'p gl_driver \<Rightarrow> tracked_state \<times> 'p gl_driver" where
  "bind_default_framebuffer obs = (\<lambda>(s, d). case ob_drawing_buffer obs of
     None \<Rightarrow> (s, d)
   | Some target \<Rightarrow> (record_default_framebuffer_bind s, d\<lparr> dr_draw_fb := Some target, dr_read_fb := Some target \<rparr>))"

datatype 'p gl_event =
    EvCommand gl_cmd
  | EvCanvas2d "'p gl_driver \<Rightarrow> 'p gl_driver"
  | EvBindDefault
  | EvLink u32 "u32 \<Rightarrow> u8 list"
  | EvDeleteProgram u32
  | EvDeleteTexture u32
  | EvDeleteVertexArray u32

record 'p gl_world =
  w_objects :: gl_objects
  w_shadow :: tracked_state
  w_driver :: "'p gl_driver"
  w_errors :: "engine_error list"

text \<open>
  What the driver does by itself: a link resets the uniforms of the program, a deleted
  texture leaves every unit.
\<close>

definition driver_link :: "u32 option \<Rightarrow> (u32 \<Rightarrow> u8 list) \<Rightarrow> 'p gl_driver \<Rightarrow> 'p gl_driver" where
  "driver_link native initial d = (case native of
     None \<Rightarrow> d
   | Some h \<Rightarrow> d\<lparr> dr_uniforms := (\<lambda>(p, l). if p = Some h then initial l else dr_uniforms d (p, l)) \<rparr>)"

definition driver_delete_texture :: "u32 option \<Rightarrow> 'p gl_driver \<Rightarrow> 'p gl_driver" where
  "driver_delete_texture native d = (case native of
     None \<Rightarrow> d
   | Some h \<Rightarrow> d\<lparr> dr_texture := (\<lambda>target unit. if dr_texture d target unit = Some h then None else dr_texture d target unit) \<rparr>)"

definition delete_vao :: "u32 \<Rightarrow> gl_objects \<Rightarrow> gl_objects" where
  "delete_vao vao obs = obs\<lparr> ob_vaos := (ob_vaos obs)(vao := (case ob_vaos obs vao of None \<Rightarrow> None
     | Some meta \<Rightarrow> Some (meta\<lparr> gm_handle := None, gm_deleted := True \<rparr>))) \<rparr>"

text \<open>
  One event with deduplication; \<open>None\<close> is a panic. A command that fails changes nothing
  and leaves its error.
\<close>

definition run_command :: "(gl_cmd \<Rightarrow> 'p gl_driver \<Rightarrow> 'p) \<Rightarrow> (uniform_cache \<Rightarrow> (u32 \<times> u32) option) \<Rightarrow> gl_cmd
    \<Rightarrow> 'p gl_world \<Rightarrow> 'p gl_world option" where
  "run_command effect first_key cmd w = (case handle_cmd first_key (w_objects w) (w_shadow w) cmd of
     None \<Rightarrow> None
   | Some (Inl e) \<Rightarrow> Some (w\<lparr> w_errors := w_errors w @ [e] \<rparr>)
   | Some (Inr (s, calls)) \<Rightarrow> Some (w\<lparr> w_shadow := s, w_driver := fold (exec_call effect) calls (w_driver w) \<rparr>))"

definition run_canvas2d :: "('p gl_driver \<Rightarrow> 'p gl_driver) \<Rightarrow> 'p gl_world \<Rightarrow> 'p gl_world" where
  "run_canvas2d skia w = (let (sc, d) = begin_canvas2d_gl_scope (w_driver w)
     in w\<lparr> w_shadow := resync_shadow sc (w_shadow w), w_driver := restore_scope sc (skia d) \<rparr>)"

definition run_bind_default :: "'p gl_world \<Rightarrow> 'p gl_world" where
  "run_bind_default w = (let (s, d) = bind_default_framebuffer (w_objects w) (w_shadow w, w_driver w)
     in w\<lparr> w_shadow := s, w_driver := d \<rparr>)"

definition run_link :: "u32 \<Rightarrow> (u32 \<Rightarrow> u8 list) \<Rightarrow> 'p gl_world \<Rightarrow> 'p gl_world" where
  "run_link p initial w =
     w\<lparr> w_shadow := invalidate_program_uniforms (w_shadow w) p,
        w_driver := driver_link (prog_native (w_objects w) p) initial (w_driver w) \<rparr>"

definition run_delete_program :: "u32 \<Rightarrow> 'p gl_world \<Rightarrow> 'p gl_world" where
  "run_delete_program p w = (case ob_programs (w_objects w) p of
     None \<Rightarrow> w
   | Some meta \<Rightarrow> w\<lparr> w_objects := (w_objects w)\<lparr> ob_programs := (ob_programs (w_objects w))(p := None) \<rparr>,
       w_shadow := forget_deleted_program (w_shadow w) p \<rparr>)"

definition run_delete_texture :: "u32 \<Rightarrow> 'p gl_world \<Rightarrow> 'p gl_world" where
  "run_delete_texture t w = (case ob_textures (w_objects w) t of
     None \<Rightarrow> w
   | Some meta \<Rightarrow> w\<lparr> w_objects := (w_objects w)\<lparr> ob_textures := (ob_textures (w_objects w))(t := None) \<rparr>,
       w_shadow := (w_shadow w)\<lparr> ts_bound_texture_2d := tu_forget_texture t (ts_bound_texture_2d (w_shadow w)) \<rparr>,
       w_driver := driver_delete_texture (gm_handle meta) (w_driver w) \<rparr>)"

definition run_delete_vertex_array :: "u32 \<Rightarrow> 'p gl_world \<Rightarrow> 'p gl_world" where
  "run_delete_vertex_array v w =
     w\<lparr> w_objects := delete_vao v (w_objects w),
        w_shadow := (w_shadow w)\<lparr> ts_vertex_attribs := forget_vao v (ts_vertex_attribs (w_shadow w)) \<rparr> \<rparr>"

lemmas run_defs [simp] = run_bind_default_def run_link_def run_delete_program_def run_delete_texture_def
  run_delete_vertex_array_def

fun gl_event_step :: "(gl_cmd \<Rightarrow> 'p gl_driver \<Rightarrow> 'p) \<Rightarrow> (uniform_cache \<Rightarrow> (u32 \<times> u32) option) \<Rightarrow> 'p gl_event
    \<Rightarrow> 'p gl_world \<Rightarrow> 'p gl_world option" where
  "gl_event_step effect first_key (EvCommand cmd) w = run_command effect first_key cmd w"
| "gl_event_step effect first_key (EvCanvas2d skia) w = Some (run_canvas2d skia w)"
| "gl_event_step effect first_key EvBindDefault w = Some (run_bind_default w)"
| "gl_event_step effect first_key (EvLink p initial) w = Some (run_link p initial w)"
| "gl_event_step effect first_key (EvDeleteProgram p) w = Some (run_delete_program p w)"
| "gl_event_step effect first_key (EvDeleteTexture t) w = Some (run_delete_texture t w)"
| "gl_event_step effect first_key (EvDeleteVertexArray v) w = Some (run_delete_vertex_array v w)"

text \<open>The same event with every call issued, on the objects, the driver and the errors.\<close>

type_synonym 'p plain = "gl_objects \<times> 'p gl_driver \<times> engine_error list"

fun direct_event :: "(gl_cmd \<Rightarrow> 'p gl_driver \<Rightarrow> 'p) \<Rightarrow> 'p gl_event \<Rightarrow> 'p plain \<Rightarrow> 'p plain" where
  "direct_event effect (EvCommand cmd) (obs, d, es) = (case direct_cmd obs cmd of
     Inl e \<Rightarrow> (obs, d, es @ [e])
   | Inr calls \<Rightarrow> (obs, fold (exec_call effect) calls d, es))"
| "direct_event effect (EvCanvas2d skia) (obs, d, es) =
     (let (sc, d) = begin_canvas2d_gl_scope d in (obs, restore_scope sc (skia d), es))"
| "direct_event effect EvBindDefault (obs, d, es) = (obs, case ob_drawing_buffer obs of
     None \<Rightarrow> d | Some target \<Rightarrow> d\<lparr> dr_draw_fb := Some target, dr_read_fb := Some target \<rparr>, es)"
| "direct_event effect (EvLink p initial) (obs, d, es) = (obs, driver_link (prog_native obs p) initial d, es)"
| "direct_event effect (EvDeleteProgram p) (obs, d, es) = (obs\<lparr> ob_programs := (ob_programs obs)(p := None) \<rparr>, d, es)"
| "direct_event effect (EvDeleteTexture t) (obs, d, es) =
     (obs\<lparr> ob_textures := (ob_textures obs)(t := None) \<rparr>, driver_delete_texture (tex_native obs t) d, es)"
| "direct_event effect (EvDeleteVertexArray v) (obs, d, es) = (delete_vao v obs, d, es)"













lemma objects_frame [simp]:
  "fb_native (obs\<lparr> ob_programs := ps \<rparr>) = fb_native obs" "fb_native (obs\<lparr> ob_textures := ts \<rparr>) = fb_native obs"
  "fb_native (obs\<lparr> ob_vaos := vs \<rparr>) = fb_native obs"
  "ubo_native (obs\<lparr> ob_programs := ps \<rparr>) = ubo_native obs" "ubo_native (obs\<lparr> ob_textures := ts \<rparr>) = ubo_native obs"
  "ubo_native (obs\<lparr> ob_vaos := vs \<rparr>) = ubo_native obs"
  "fp_native (obs\<lparr> ob_programs := ps \<rparr>) = fp_native obs" "fp_native (obs\<lparr> ob_textures := ts \<rparr>) = fp_native obs"
  "fp_native (obs\<lparr> ob_vaos := vs \<rparr>) = fp_native obs"
  "vao_native (obs\<lparr> ob_programs := ps \<rparr>) = vao_native obs" "vao_native (obs\<lparr> ob_textures := ts \<rparr>) = vao_native obs"
  "prog_native (obs\<lparr> ob_textures := ts \<rparr>) = prog_native obs" "prog_native (obs\<lparr> ob_vaos := vs \<rparr>) = prog_native obs"
  "tex_native (obs\<lparr> ob_programs := ps \<rparr>) = tex_native obs" "tex_native (obs\<lparr> ob_vaos := vs \<rparr>) = tex_native obs"
  by (simp_all add: fun_eq_iff fb_native_def ubo_native_def fp_native_def vao_native_def prog_native_def tex_native_def)

lemma live_frame [simp]:
  "live_vaos (obs\<lparr> ob_programs := ps \<rparr>) = live_vaos obs" "live_vaos (obs\<lparr> ob_textures := ts \<rparr>) = live_vaos obs"
  "live_programs (obs\<lparr> ob_textures := ts \<rparr>) = live_programs obs" "live_programs (obs\<lparr> ob_vaos := vs \<rparr>) = live_programs obs"
  "live_textures (obs\<lparr> ob_programs := ps \<rparr>) = live_textures obs" "live_textures (obs\<lparr> ob_vaos := vs \<rparr>) = live_textures obs"
  by (simp_all add: live_vaos_def live_programs_def live_textures_def)

lemma parts_frame [simp]:
  "binding_ok indexed (obs\<lparr> ob_programs := ps \<rparr>) s d \<longleftrightarrow> binding_ok indexed obs s d"
  "binding_ok indexed (obs\<lparr> ob_vaos := vs \<rparr>) s d \<longleftrightarrow> binding_ok indexed obs s d"
  "vertex_ok (obs\<lparr> ob_programs := ps \<rparr>) s d \<longleftrightarrow> vertex_ok obs s d"
  "vertex_ok (obs\<lparr> ob_textures := ts \<rparr>) s d \<longleftrightarrow> vertex_ok obs s d"
  "program_ok (obs\<lparr> ob_textures := ts \<rparr>) s d \<longleftrightarrow> program_ok obs s d"
  "program_ok (obs\<lparr> ob_vaos := vs \<rparr>) s d \<longleftrightarrow> program_ok obs s d"
  by (simp_all add: binding_ok_def vertex_ok_def program_ok_def)








section \<open>Runs\<close>

fun run_events :: "(gl_cmd \<Rightarrow> 'p gl_driver \<Rightarrow> 'p) \<Rightarrow> (uniform_cache \<Rightarrow> (u32 \<times> u32) option) \<Rightarrow> 'p gl_event list
    \<Rightarrow> 'p gl_world \<Rightarrow> 'p gl_world option" where
  "run_events effect first_key [] w = Some w"
| "run_events effect first_key (ev # evs) w = (case gl_event_step effect first_key ev w of
     None \<Rightarrow> None | Some w' \<Rightarrow> run_events effect first_key evs w')"









definition fresh_world :: "gl_objects \<Rightarrow> 'p gl_driver \<Rightarrow> 'p gl_world" where
  "fresh_world obs d = \<lparr> w_objects = obs, w_shadow = tracked_default, w_driver = d, w_errors = [] \<rparr>"


text \<open>A small run: one program, one array buffer, one texture, a repeated setup and two draws.\<close>

definition example_objects :: gl_objects where
  "example_objects = \<lparr> ob_programs = [7 \<mapsto> \<lparr> gm_handle = Some 70, gm_owner = Some 1, gm_deleted = False \<rparr>],
     ob_buffers = [5 \<mapsto> \<lparr> gm_handle = Some 50, gm_owner = Some 1, gm_deleted = False \<rparr>],
     ob_textures = [3 \<mapsto> \<lparr> gm_handle = Some 30, gm_owner = Some 1, gm_deleted = False \<rparr>],
     ob_framebuffers = Map.empty, ob_renderbuffers = Map.empty, ob_vaos = Map.empty, ob_drawing_buffer = Some 9 \<rparr>"

definition blank_driver :: "'p \<Rightarrow> 'p gl_driver" where
  "blank_driver p = \<lparr> dr_pixels = p, dr_viewport = (0, 0, 0, 0), dr_scissor = (0, 0, 0, 0),
     dr_color_mask = (True, True, True, True), dr_caps = (\<lambda>_. False), dr_blend_func = (1, 0, 1, 0),
     dr_blend_equation = (0x8006, 0x8006), dr_blend_color = (F32 0, F32 0, F32 0, F32 0), dr_depth_func = 0x0201,
     dr_depth_mask = True, dr_depth_range = (F32 0, F32 0x3F800000), dr_stencil_func = ((0x0207, 0, 0xFFFFFFFF), (0x0207, 0, 0xFFFFFFFF)),
     dr_stencil_op = ((0x1E00, 0x1E00, 0x1E00), (0x1E00, 0x1E00, 0x1E00)), dr_stencil_mask = (0xFFFFFFFF, 0xFFFFFFFF),
     dr_pixel_store = (\<lambda>_. 4), dr_cull_face = GL_BACK, dr_front_face = 0x0901, dr_line_width = F32 0x3F800000,
     dr_polygon_offset = (F32 0, F32 0), dr_active = GL_TEXTURE0, dr_texture = (\<lambda>_ _. None), dr_buffer = (\<lambda>_. None),
     dr_generic = (\<lambda>_. None), dr_indexed = (\<lambda>_ _. (None, 0, 0)), dr_draw_fb = Some 9, dr_read_fb = Some 9,
     dr_renderbuffer = None, dr_vao = None,
     dr_arrays = (\<lambda>_. \<lparr> vd_element = None, vd_pointer = (\<lambda>_. None), vd_divisor = (\<lambda>_. 0), vd_enabled = (\<lambda>_. False) \<rparr>),
     dr_program = None, dr_uniforms = (\<lambda>_. []) \<rparr>"








lemmas example_eval = example_objects_def blank_driver_def tracked_default_def admits_def uniform_args_def run_command_def
  handle_cmd_def issue_def issue_opt_def live_handle_def handle_of_def handle_use_program_def handle_bind_buffer_def
  handle_active_texture_def handle_bind_texture_def handle_enable_def handle_uniform_def should_issue_uniform_def
  update_viewport_def update_use_program_def update_bind_buffer_def update_enable_vertex_attrib_def
  update_vertex_attrib_pointer_def update_active_texture_def update_bind_texture_2d_def update_enable_def update_uniform_def
  uniform_cache_update_def dedup_slot_def tu_bind_def tu_index_def tu_default_def cap_enable_def cap_bit_def cap_default_def
  TOGGLEABLE_CAPS_def va_enable_def update_pointer_def slot_mut_def vao_mut_def ck_value_mut_def ck_resolve_def hot_hit_def
  entry_mut_def ck_default_def current_vao_def grow_slots_def vao_default_def slot_default_def
  bind_array_def has_indexed_def is_valid_texture_unit_def
  bind_default_framebuffer_def record_default_framebuffer_bind_def Let_def




section \<open>Damage\<close>

text \<open>
  What the driver lets a draw or a colour clear touch on the canvas, in its actual state.
\<close>

definition driver_scissor_px :: "'p gl_driver \<Rightarrow> pixel set" where
  "driver_scissor_px d = (if dr_caps d GL_SCISSOR_TEST then rect_px (dr_scissor d) else UNIV)"

definition driver_draw_px :: "gl_objects \<Rightarrow> 'p gl_driver \<Rightarrow> pixel set" where
  "driver_draw_px obs d =
     (if dr_draw_fb d = ob_drawing_buffer obs then rect_px (dr_viewport d) \<inter> driver_scissor_px d else {})"






section \<open>Where deduplication shows\<close>

text \<open>
  Each of the conditions on a run is needed: without it the driver ends in another state
  than the content asked for. First, the framebuffer targets share the driver's bindings
  but not the shadow's slots.
\<close>

definition more_objects :: gl_objects where
  "more_objects = example_objects\<lparr> ob_buffers := [5 \<mapsto> \<lparr> gm_handle = Some 50, gm_owner = Some 1, gm_deleted = False \<rparr>,
       6 \<mapsto> \<lparr> gm_handle = Some 60, gm_owner = Some 1, gm_deleted = False \<rparr>],
     ob_framebuffers := [2 \<mapsto> \<lparr> gm_handle = Some 20, gm_owner = Some 1, gm_deleted = False \<rparr>,
       3 \<mapsto> \<lparr> gm_handle = Some 30, gm_owner = Some 1, gm_deleted = False \<rparr>],
     ob_vaos := [2 \<mapsto> \<lparr> gm_handle = Some 92, gm_owner = Some 1, gm_deleted = False \<rparr>,
       4 \<mapsto> \<lparr> gm_handle = Some 94, gm_owner = Some 1, gm_deleted = False \<rparr>] \<rparr>"

definition observe :: "(unit gl_driver \<Rightarrow> 'a) \<Rightarrow> unit gl_event list \<Rightarrow> 'a option \<times> 'a" where
  "observe f evs = (map_option (f \<circ> w_driver) (run_events (\<lambda>_ _. ()) (\<lambda>_. None) evs (fresh_world more_objects (blank_driver ()))),
     f (fst (snd (fold (direct_event (\<lambda>_ _. ())) evs (more_objects, blank_driver (), [])))))"

lemmas observe_eval = observe_def more_objects_def fresh_world_def example_eval direct_cmd_def call_of_def
  handle_bind_framebuffer_def update_bind_framebuffer_def fb_update_def fb_slot_def fb_default_def
  update_bind_buffer_base_def ubo_update_def ubo_default_def update_bind_vertex_array_def update_color_mask_def
  update_disable_vertex_attrib_def va_disable_def run_canvas2d_def begin_canvas2d_gl_scope_def restore_scope_def
  resync_shadow_def invalidate_after_external_gl_use_def invalidate_p11_shadow_def va_forget_all_def

lemma split_framebuffer_is_deduped:
  "observe dr_draw_fb (map EvCommand [BindFramebuffer 1 GL_FRAMEBUFFER (Some 2), BindFramebuffer 1 GL_DRAW_FRAMEBUFFER (Some 3),
     BindFramebuffer 1 GL_FRAMEBUFFER (Some 2)]) = (Some (Some 30), Some 20)"
  by (simp add: observe_eval)

text \<open>An indexed bind moves the generic binding too, which the shadow does not follow.\<close>

lemma indexed_bind_is_not_followed:
  "observe (\<lambda>d. dr_generic d GL_UNIFORM_BUFFER) (map EvCommand [BindBuffer 1 GL_UNIFORM_BUFFER (Some 5),
     BindBufferBase 1 GL_UNIFORM_BUFFER 0 (Some 6), BindBuffer 1 GL_UNIFORM_BUFFER (Some 5)]) = (Some (Some 60), Some 50)"
  by (simp add: observe_eval)

text \<open>
  Switching vertex arrays leaves the array buffer unknown; the fingerprint of a pointer
  records that as no buffer, so that two pointers over different buffers look the same.
\<close>

lemma pointer_loses_its_buffer:
  "observe (\<lambda>d. map_option (snd \<circ> snd \<circ> snd \<circ> snd \<circ> snd) (vd_pointer (dr_arrays d (Some 92)) 0))
     (map EvCommand [BindBuffer 1 GL_ARRAY_BUFFER (Some 5), BindVertexArray 1 (Some 2), VertexAttribPointer 1 0 2 0x1406 False 0 0,
       BindBuffer 1 GL_ARRAY_BUFFER (Some 6), BindVertexArray 1 (Some 4), BindVertexArray 1 (Some 2),
       VertexAttribPointer 1 0 2 0x1406 False 0 0]) = (Some (Some (Some 50)), Some (Some 60))"
  by (simp add: observe_eval)

text \<open>
  After Skia the colour mask is taken to be all true and every attribute to be disabled,
  instead of unknown.
\<close>

lemma color_mask_is_not_forgotten:
  "observe dr_color_mask [EvCanvas2d (\<lambda>d. d\<lparr> dr_color_mask := (True, True, True, False) \<rparr>), EvCommand (ColorMask 1 True True True True)]
     = (Some (True, True, True, False), (True, True, True, True))"
  by (simp add: observe_eval)

lemma enabled_attribs_are_not_forgotten:
  "observe (\<lambda>d. vd_enabled (dr_arrays d None) 0)
     [EvCanvas2d (\<lambda>d. d\<lparr> dr_arrays := bind_array (\<lambda>v. v\<lparr> vd_enabled := (vd_enabled v)(0 := True) \<rparr>) None (dr_arrays d) \<rparr>),
      EvCommand (DisableVertexAttribArray 1 0)] = (Some True, False)"
  by (simp add: observe_eval)

text \<open>After Skia a scissor box counts as enabled although the test is off: the damage misses pixels.\<close>

lemma scissor_after_skia_loses_damage:
  "map_option (\<lambda>w. (damage_for_draw Checked (Map.empty(1 \<mapsto> canvas_gl_state.truncate (w_shadow w))) 1,
      (50, 50) \<in> driver_draw_px (w_objects w) (w_driver w)))
     (run_events (\<lambda>_ _. ()) (\<lambda>_. None)
       [EvCanvas2d (\<lambda>d. d), EvCommand (Viewport 1 0 0 100 100), EvCommand (Scissor 1 0 0 1 1)]
       (fresh_world more_objects (blank_driver ())))
   = Some (Some (OnscreenRect 0 0 1 1), True)"
  by (simp add: observe_eval update_scissor_def damage_for_draw_def draw_damage_effect_def intersect_rects_def
      canvas_gl_state.defs driver_draw_px_def driver_scissor_px_def i32_ok_def)

text \<open>
  Deleting a buffer leaves its name in the shadow: when the name is used again for a new
  buffer, binding it issues nothing.
\<close>

lemma reused_buffer_name_is_not_bound:
  "let s = snd (update_bind_buffer tracked_default GL_ARRAY_BUFFER (Some 5));
       obs = more_objects\<lparr> ob_buffers := [5 \<mapsto> \<lparr> gm_handle = Some 51, gm_owner = Some 1, gm_deleted = False \<rparr>] \<rparr>
   in handle_cmd (\<lambda>_. None) obs s (BindBuffer 1 GL_ARRAY_BUFFER (Some 5)) = Ok (s, []) \<and>
      direct_cmd obs (BindBuffer 1 GL_ARRAY_BUFFER (Some 5)) = Inr [CallBindBuffer GL_ARRAY_BUFFER (Some 51)]"
  by (simp add: observe_eval)

end
