(* ===== verification/Vfs.thy ===== *)
theory Vfs
  imports Prelude
begin

text \<open>
  The virtual file system that games see (\<open>shared/src/vfs/mod.rs\<close>), the per-game
  directories it maps (\<open>shared/src/vfs/game_paths.rs\<close>) and the descriptor walk of
  strict reads (\<open>shared/src/vfs/unix.rs\<close>).

  Strings are byte strings (UTF-8). A \<open>Path\<close> is the list of its components, which
  is what \<open>starts_with\<close>, \<open>strip_prefix\<close>, \<open>join\<close>, \<open>parent\<close> and equality observe, as
  \<open>std::path\<close> splits them on Unix. The operating system is an argument: which paths
  exist, what they canonicalize to, which are symbolic links, and what opening a
  component below a descriptor answers. The iteration order of the \<open>HashMap\<close> of
  mappings is the order of a list.
\<close>

section \<open>Paths\<close>

datatype path_component = RootDir | CurDir | ParentDir | Normal string

type_synonym path = "path_component list"

abbreviation (input) slash :: char where "slash \<equiv> CHR ''/''"

fun split_slash :: "string \<Rightarrow> string list" where
  "split_slash [] = [[]]"
| "split_slash (c # cs) =
     (if c = slash then [] # split_slash cs
      else case split_slash cs of [] \<Rightarrow> [[c]] | w # ws \<Rightarrow> (c # w) # ws)"

definition later_component :: "string \<Rightarrow> path" where
  "later_component w =
     (if w = [] \<or> w = ''.'' then [] else if w = ''..'' then [ParentDir] else [Normal w])"

text \<open>A \<open>.\<close> is a component of its own only at the start of a relative path.\<close>

definition path_components :: "string \<Rightarrow> path" where
  "path_components s = (case split_slash s of
     [] \<Rightarrow> []
   | w # ws \<Rightarrow>
       (if s \<noteq> [] \<and> hd s = slash then [RootDir]
        else if w = ''.'' then [CurDir] else later_component w) @ concat (map later_component ws))"

definition push_component :: "path \<Rightarrow> path_component \<Rightarrow> path" where
  "push_component p c = (if c = RootDir then [RootDir] else p @ [c])"

definition path_parent :: "path \<Rightarrow> path option" where
  "path_parent p = (if p = [] \<or> last p = RootDir then None else Some (butlast p))"

definition file_name :: "path \<Rightarrow> string option" where
  "file_name p = (if p = [] then None else case last p of Normal w \<Rightarrow> Some w | _ \<Rightarrow> None)"

definition path_join :: "path \<Rightarrow> path \<Rightarrow> path" where
  "path_join p q = foldl push_component p q"

definition path_starts_with :: "path \<Rightarrow> path \<Rightarrow> bool" where
  "path_starts_with p q \<longleftrightarrow> take (length q) p = q"

definition strip_prefix_path :: "path \<Rightarrow> path \<Rightarrow> path option" where
  "strip_prefix_path p q = (if path_starts_with p q then Some (drop (length q) p) else None)"

fun norm_step :: "path \<Rightarrow> path_component \<Rightarrow> path" where
  "norm_step acc ParentDir = butlast acc"
| "norm_step acc CurDir = acc"
| "norm_step acc c = acc @ [c]"

definition normalize_path :: "path \<Rightarrow> path" where
  "normalize_path p = foldl push_component [] (foldl norm_step [] p)"

section \<open>Permissions, policy and errors\<close>

datatype file_op = OpRead | OpWrite | OpCreate | OpDelete

record file_permissions =
  fp_read :: bool
  fp_write :: bool
  fp_create :: bool
  fp_delete :: bool

definition READ_ONLY :: file_permissions where
  "READ_ONLY = \<lparr> fp_read = True, fp_write = False, fp_create = False, fp_delete = False \<rparr>"

definition READ_WRITE :: file_permissions where
  "READ_WRITE = \<lparr> fp_read = True, fp_write = True, fp_create = True, fp_delete = True \<rparr>"

definition allows :: "file_permissions \<Rightarrow> file_op \<Rightarrow> bool" where
  "allows p op = (case op of
     OpRead \<Rightarrow> fp_read p | OpWrite \<Rightarrow> fp_write p | OpCreate \<Rightarrow> fp_create p | OpDelete \<Rightarrow> fp_delete p)"

datatype vfs_error =
  PathNotAllowed | PermissionDenied | PathTraversal | SymlinkEscape | SymlinkNotAllowed | InvalidPath

record vfs_policy =
  deny_symlinks_in_code_dir :: bool
  deny_symlinks_in_writable_dirs :: bool

definition policy_default :: vfs_policy where
  "policy_default = \<lparr> deny_symlinks_in_code_dir = True, deny_symlinks_in_writable_dirs = True \<rparr>"

record 'fd path_mapping =
  pm_virtual_prefix :: string
  pm_real_path :: path
  pm_canonical_base :: path
  pm_strict_root :: "'fd option"
  pm_permissions :: file_permissions

definition prefix_with_slash :: "'fd path_mapping \<Rightarrow> string" where
  "prefix_with_slash m = pm_virtual_prefix m @ ''/''"

record 'fd virtual_fs =
  vf_mappings :: "'fd path_mapping list"
  vf_policy :: vfs_policy

text \<open>What the code asks of the operating system.\<close>

record file_system =
  fs_exists :: "path \<Rightarrow> bool"
  fs_canonicalize :: "path \<Rightarrow> path option"
  fs_is_symlink :: "path \<Rightarrow> bool option"

definition make_mapping ::
  "file_system \<Rightarrow> (path \<Rightarrow> 'fd option) \<Rightarrow> string \<Rightarrow> path \<Rightarrow> file_permissions \<Rightarrow> 'fd path_mapping" where
  "make_mapping fs pin virtual_prefix real_path permissions =
     \<lparr> pm_virtual_prefix = virtual_prefix, pm_real_path = real_path,
       pm_canonical_base = (case fs_canonicalize fs real_path of
          None \<Rightarrow> normalize_path real_path | Some c \<Rightarrow> c),
       pm_strict_root = pin real_path, pm_permissions = permissions \<rparr>"

definition with_policy ::
  "file_system \<Rightarrow> (path \<Rightarrow> 'fd option) \<Rightarrow> path \<Rightarrow> path \<Rightarrow> path \<Rightarrow> path \<Rightarrow> vfs_policy \<Rightarrow> 'fd virtual_fs" where
  "with_policy fs pin code_dir user_data_dir cache_dir temp_dir policy =
     \<lparr> vf_mappings =
         [make_mapping fs pin ''/code'' code_dir READ_ONLY,
          make_mapping fs pin ''/user'' user_data_dir READ_WRITE,
          make_mapping fs pin ''/cache'' cache_dir READ_WRITE,
          make_mapping fs pin ''/tmp'' temp_dir READ_WRITE],
       vf_policy = policy \<rparr>"

section \<open>Textual resolution\<close>

definition validate_input :: "string \<Rightarrow> vfs_error + unit" where
  "validate_input virtual_path =
     (if virtual_path = [] \<or> hd virtual_path \<noteq> slash then Inl InvalidPath
      else if \<exists>b \<in> set virtual_path. (of_char b :: nat) < 0x20 \<or> b = CHR 0x5C \<or> b = CHR '':''
      then Inl InvalidPath
      else Inr ())"

definition ascii_upper :: "char \<Rightarrow> char" where
  "ascii_upper c = (if (of_char c :: nat) \<ge> 97 \<and> (of_char c :: nat) \<le> 122
     then char_of (of_char c - 32 :: nat) else c)"

definition trim_end_dots :: "string \<Rightarrow> string" where
  "trim_end_dots w = rev (dropWhile (\<lambda>c. c = CHR '' '' \<or> c = CHR ''.'') (rev w))"

definition device_digits :: "string list" where
  "device_digits = [''1'', ''2'', ''3'', ''4'', ''5'', ''6'', ''7'', ''8'', ''9'',
     [CHR 0xC2, CHR 0xB9], [CHR 0xC2, CHR 0xB2], [CHR 0xC2, CHR 0xB3]]"

definition is_unsafe_windows_component :: "string \<Rightarrow> bool" where
  "is_unsafe_windows_component w \<longleftrightarrow>
     (w \<noteq> [] \<and> (last w = CHR '' '' \<or> last w = CHR ''.'')) \<or>
     (let upper = map ascii_upper (trim_end_dots (takeWhile (\<lambda>c. c \<noteq> CHR ''.'') w)) in
      upper \<in> set [''CON'', ''PRN'', ''AUX'', ''NUL'', ''CLOCK$'', ''CONIN$'', ''CONOUT$''] \<or>
      (take 3 upper \<in> set [''COM'', ''LPT''] \<and> drop 3 upper \<in> set device_digits))"

fun resolve_components :: "path \<Rightarrow> path \<Rightarrow> vfs_error + path" where
  "resolve_components normalized [] = Inr normalized"
| "resolve_components normalized (Normal w # cs) =
     (if is_unsafe_windows_component w then Inl InvalidPath
      else resolve_components (push_component normalized (Normal w)) cs)"
| "resolve_components normalized (CurDir # cs) = resolve_components normalized cs"
| "resolve_components normalized (ParentDir # cs) = (case path_parent normalized of
     None \<Rightarrow> Inl PathTraversal
   | Some p \<Rightarrow> resolve_components p cs)"
| "resolve_components normalized (RootDir # cs) = Inl InvalidPath"

definition mapping_matches :: "string \<Rightarrow> 'fd path_mapping \<Rightarrow> bool" where
  "mapping_matches virtual_path m \<longleftrightarrow> virtual_path = pm_virtual_prefix m \<or>
     take (length (prefix_with_slash m)) virtual_path = prefix_with_slash m"

definition is_virtual_path :: "'fd virtual_fs \<Rightarrow> string \<Rightarrow> bool" where
  "is_virtual_path v virtual_path \<longleftrightarrow> list_ex (mapping_matches virtual_path) (vf_mappings v)"

definition relative_of :: "'fd path_mapping \<Rightarrow> string \<Rightarrow> string" where
  "relative_of m virtual_path =
     dropWhile (\<lambda>c. c = slash) (drop (length (pm_virtual_prefix m)) virtual_path)"

definition resolve_textual ::
  "'fd virtual_fs \<Rightarrow> string \<Rightarrow> file_op \<Rightarrow> vfs_error + 'fd path_mapping \<times> path" where
  "resolve_textual v virtual_path op = (case validate_input virtual_path of
     Inl e \<Rightarrow> Inl e
   | Inr _ \<Rightarrow>
       (case List.find (mapping_matches virtual_path) (vf_mappings v) of
          None \<Rightarrow> Inl PathNotAllowed
        | Some m \<Rightarrow>
            if \<not> allows (pm_permissions m) op then Inl PermissionDenied
            else (case resolve_components [] (path_components (relative_of m virtual_path)) of
                    Inl e \<Rightarrow> Inl e
                  | Inr normalized \<Rightarrow> Inr (m, normalized))))"

section \<open>Checks on the file system\<close>

fun chain_walk :: "file_system \<Rightarrow> path \<Rightarrow> path \<Rightarrow> vfs_error + unit" where
  "chain_walk fs current [] = Inr ()"
| "chain_walk fs current (c # cs) =
     (let current' = push_component current c in
      if fs_exists fs current' then
        (case fs_is_symlink fs current' of
           None \<Rightarrow> Inl InvalidPath
         | Some True \<Rightarrow> Inl SymlinkNotAllowed
         | Some False \<Rightarrow> chain_walk fs current' cs)
      else chain_walk fs current' cs)"

definition check_no_symlinks_in_chain :: "file_system \<Rightarrow> path \<Rightarrow> path \<Rightarrow> vfs_error + unit" where
  "check_no_symlinks_in_chain fs full_path base = (case strip_prefix_path full_path base of
     None \<Rightarrow> Inl PathTraversal
   | Some relative \<Rightarrow> chain_walk fs base relative)"

text \<open>
  The loop towards the closest existing ancestor: \<open>None\<close> is the early \<open>return Ok(())\<close>
  at the top of the tree.
\<close>

function walk_up :: "file_system \<Rightarrow> path \<Rightarrow> string list \<Rightarrow> (path \<times> string list) option" where
  "walk_up fs current missing_tail =
     (if fs_exists fs current then Some (current, missing_tail)
      else case file_name current of
        None \<Rightarrow> None
      | Some name \<Rightarrow>
          (case path_parent current of
             None \<Rightarrow> None
           | Some p \<Rightarrow> walk_up fs p (missing_tail @ [name])))"
  by pat_completeness auto
termination
  by (relation "measure (\<lambda>(_, current, _). length current)")
    (auto simp: path_parent_def length_butlast split: if_splits)

declare walk_up.simps [simp del]

definition canonical_base_fresh :: "file_system \<Rightarrow> 'fd path_mapping \<Rightarrow> path" where
  "canonical_base_fresh fs m =
     (if fs_exists fs (pm_real_path m)
      then (case fs_canonicalize fs (pm_real_path m) of None \<Rightarrow> pm_canonical_base m | Some c \<Rightarrow> c)
      else pm_canonical_base m)"

definition should_deny_symlinks :: "vfs_policy \<Rightarrow> 'fd path_mapping \<Rightarrow> bool" where
  "should_deny_symlinks policy m =
     (if fp_write (pm_permissions m) then deny_symlinks_in_writable_dirs policy
      else deny_symlinks_in_code_dir policy)"

text \<open>
  From the closest existing ancestor on, \<open>VirtualFS::verify_nonexistent_path\<close> and the
  free \<open>verify_nonexistent_containment\<close> are the same code over the base directory,
  its canonical form and the symlink policy.
\<close>

definition verify_projected ::
  "file_system \<Rightarrow> path \<Rightarrow> path \<Rightarrow> path \<Rightarrow> bool \<Rightarrow> vfs_error + unit" where
  "verify_projected fs p base_dir base_canonical deny_symlinks = (case walk_up fs p [] of
     None \<Rightarrow> Inr ()
   | Some (current, missing_tail) \<Rightarrow>
       (case fs_canonicalize fs current of
          None \<Rightarrow> Inl InvalidPath
        | Some canonical_ancestor \<Rightarrow>
            if path_starts_with canonical_ancestor base_canonical then
              (let projected = foldl push_component canonical_ancestor (map Normal (rev missing_tail)) in
               if \<not> path_starts_with (normalize_path projected) base_canonical then Inl PathTraversal
               else if deny_symlinks then check_no_symlinks_in_chain fs current base_dir
               else Inr ())
            else if path_starts_with (normalize_path base_dir) current then Inr ()
            else Inl SymlinkEscape))"

definition verify_existing ::
  "file_system \<Rightarrow> path \<Rightarrow> path \<Rightarrow> path \<Rightarrow> bool \<Rightarrow> vfs_error + unit" where
  "verify_existing fs p base_dir base_canonical deny_symlinks = (case fs_canonicalize fs p of
     None \<Rightarrow> Inl InvalidPath
   | Some canonical \<Rightarrow>
       if \<not> path_starts_with canonical base_canonical then Inl SymlinkEscape
       else if deny_symlinks then check_no_symlinks_in_chain fs p base_dir
       else Inr ())"

definition verify_existing_path :: "file_system \<Rightarrow> vfs_policy \<Rightarrow> path \<Rightarrow> 'fd path_mapping \<Rightarrow> vfs_error + unit" where
  "verify_existing_path fs policy p m =
     verify_existing fs p (pm_real_path m) (canonical_base_fresh fs m) (should_deny_symlinks policy m)"

definition verify_nonexistent_path :: "file_system \<Rightarrow> vfs_policy \<Rightarrow> path \<Rightarrow> 'fd path_mapping \<Rightarrow> vfs_error + unit" where
  "verify_nonexistent_path fs policy p m =
     verify_projected fs p (pm_real_path m) (canonical_base_fresh fs m) (should_deny_symlinks policy m)"

definition check_real_path :: "file_system \<Rightarrow> vfs_policy \<Rightarrow> path \<Rightarrow> 'fd path_mapping \<Rightarrow> vfs_error + unit" where
  "check_real_path fs policy normalized m =
     (if fs_exists fs normalized then verify_existing_path fs policy normalized m
      else if normalized \<noteq> pm_real_path m \<and> normalized \<noteq> pm_canonical_base m
      then verify_nonexistent_path fs policy normalized m
      else Inr ())"

definition resolve :: "file_system \<Rightarrow> 'fd virtual_fs \<Rightarrow> string \<Rightarrow> file_op \<Rightarrow> vfs_error + path" where
  "resolve fs v virtual_path op = (case resolve_textual v virtual_path op of
     Inl e \<Rightarrow> Inl e
   | Inr (m, relative) \<Rightarrow>
       (let real_path = (if relative = [] then pm_real_path m else path_join (pm_real_path m) relative);
            normalized = normalize_path real_path in
        if \<not> path_starts_with normalized (pm_canonical_base m) \<and>
           \<not> path_starts_with normalized (normalize_path (pm_real_path m))
        then Inl PathTraversal
        else (case check_real_path fs (vf_policy v) normalized m of
                Inl e \<Rightarrow> Inl e
              | Inr _ \<Rightarrow> Inr normalized)))"

definition canonical_base_for :: "file_system \<Rightarrow> path \<Rightarrow> path" where
  "canonical_base_for fs base_dir =
     (if fs_exists fs base_dir
      then (case fs_canonicalize fs base_dir of None \<Rightarrow> normalize_path base_dir | Some c \<Rightarrow> c)
      else normalize_path base_dir)"

definition verify_path_containment ::
  "file_system \<Rightarrow> path \<Rightarrow> path \<Rightarrow> bool \<Rightarrow> vfs_error + unit" where
  "verify_path_containment fs real_path base_dir deny_symlinks =
     (let normalized = normalize_path real_path; norm_base = normalize_path base_dir in
      if \<not> path_starts_with normalized norm_base then Inl PathTraversal
      else if normalized = norm_base then Inr ()
      else if fs_exists fs normalized
      then verify_existing fs normalized base_dir (canonical_base_for fs base_dir) deny_symlinks
      else verify_projected fs normalized base_dir (canonical_base_for fs base_dir) deny_symlinks)"

section \<open>Game directories\<close>

datatype game_path_error = InvalidGameId string | ReservedGameId string

definition game_id_byte :: "char \<Rightarrow> bool" where
  "game_id_byte c \<longleftrightarrow> (let b = (of_char c :: nat) in
     (97 \<le> b \<and> b \<le> 122) \<or> (48 \<le> b \<and> b \<le> 57) \<or> c = CHR ''_'' \<or> c = CHR ''-'')"

definition is_reserved_device_name :: "string \<Rightarrow> bool" where
  "is_reserved_device_name game_id \<longleftrightarrow>
     game_id \<in> set [''con'', ''prn'', ''aux'', ''nul''] \<or>
     (take 3 game_id \<in> set [''com'', ''lpt''] \<and> length (drop 3 game_id) = 1 \<and>
      (let b = (of_char (hd (drop 3 game_id)) :: nat) in 48 \<le> b \<and> b \<le> 57))"

definition validate_game_id :: "string \<Rightarrow> game_path_error + unit" where
  "validate_game_id game_id =
     (if game_id = [] \<or> length game_id > 64 then Inl (InvalidGameId game_id)
      else if \<not> list_all game_id_byte game_id then Inl (InvalidGameId game_id)
      else if is_reserved_device_name game_id then Inl (ReservedGameId game_id)
      else Inr ())"

record game_paths =
  gp_game_id :: string
  gp_code_dir :: path
  gp_user_data_dir :: path
  gp_cache_dir :: path
  gp_sandbox_cache_dir :: path
  gp_temp_dir :: path

definition digit_char :: "nat \<Rightarrow> char" where
  "digit_char d = ''0123456789'' ! d"

fun nat_digits :: "nat \<Rightarrow> string" where
  "nat_digits n = (if n < 10 then [digit_char n] else nat_digits (n div 10) @ [digit_char (n mod 10)])"

declare nat_digits.simps [simp del]

text \<open>\<open>i32::to_string\<close>\<close>

definition i32_to_string :: "i32 \<Rightarrow> string" where
  "i32_to_string n = (if n < 0 then CHR ''-'' # nat_digits (nat (- n)) else nat_digits (nat n))"

definition game_paths_new :: "path \<Rightarrow> path \<Rightarrow> string \<Rightarrow> i32 \<Rightarrow> game_path_error + game_paths" where
  "game_paths_new files_dir cache_dir game_id session_id = (case validate_game_id game_id of
     Inl e \<Rightarrow> Inl e
   | Inr _ \<Rightarrow>
       (let games_subdir = path_components ''migo/games'';
            files_base = path_join (path_join files_dir games_subdir) (path_components game_id);
            cache_base = path_join (path_join cache_dir games_subdir) (path_components game_id) in
        Inr \<lparr> gp_game_id = game_id,
              gp_code_dir = path_join files_base (path_components ''code''),
              gp_user_data_dir = path_join files_base (path_components ''user_data''),
              gp_cache_dir = cache_base,
              gp_sandbox_cache_dir = path_join cache_base (path_components ''sandbox''),
              gp_temp_dir = path_join (path_join cache_base (path_components ''tmp''))
                (path_components (i32_to_string session_id)) \<rparr>))"

definition with_file_name :: "path \<Rightarrow> string \<Rightarrow> path" where
  "with_file_name p name = push_component (if file_name p \<noteq> None then butlast p else p) (Normal name)"

definition integrity_receipt_path :: "game_paths \<Rightarrow> path" where
  "integrity_receipt_path g = with_file_name (gp_code_dir g) ''code.integrity-receipt-v1.json''"

definition integrity_lock_path :: "game_paths \<Rightarrow> path" where
  "integrity_lock_path g = with_file_name (integrity_receipt_path g) ''code.integrity-receipt-v1.lock''"

definition from_game_paths :: "file_system \<Rightarrow> (path \<Rightarrow> 'fd option) \<Rightarrow> game_paths \<Rightarrow> 'fd virtual_fs" where
  "from_game_paths fs pin g = with_policy fs pin (gp_code_dir g) (gp_user_data_dir g)
     (gp_sandbox_cache_dir g) (gp_temp_dir g) policy_default"

section \<open>Strict reads\<close>

datatype vfs_open_error =
  Policy vfs_error | UnsafePath | NotFound | AccessDenied | NotRegularFile | OpenFailed

definition try_from_game_paths ::
  "file_system \<Rightarrow> (path \<Rightarrow> 'fd option) \<Rightarrow> game_paths \<Rightarrow> vfs_open_error + 'fd virtual_fs" where
  "try_from_game_paths fs pin g =
     (let v = from_game_paths fs pin g in
      if list_ex (\<lambda>m. pm_strict_root m = None) (vf_mappings v) then Inl OpenFailed else Inr v)"

text \<open>
  The system calls of a strict read; a failure is its \<open>errno\<close>. \<open>openat\<close> is asked for a
  directory, or at the end for a file, and both flag sets hold \<open>O_NOFOLLOW\<close>; \<open>openat2\<close>
  is asked to resolve beneath the root without symbolic links.
\<close>

datatype open_flags = DIRECTORY_OPEN_FLAGS | FILE_OPEN_FLAGS

record 'fd sys_calls =
  sc_openat2 :: "'fd \<Rightarrow> path \<Rightarrow> nat + 'fd"
  sc_openat :: "'fd \<Rightarrow> string \<Rightarrow> open_flags \<Rightarrow> nat + 'fd"
  sc_is_file :: "'fd \<Rightarrow> nat + bool"
  sc_dup :: "'fd \<Rightarrow> nat + 'fd"

abbreviation (input) EPERM :: nat where "EPERM \<equiv> 1"
abbreviation (input) ENOENT :: nat where "ENOENT \<equiv> 2"
abbreviation (input) EACCES :: nat where "EACCES \<equiv> 13"
abbreviation (input) EINVAL :: nat where "EINVAL \<equiv> 22"
abbreviation (input) ENOSYS :: nat where "ENOSYS \<equiv> 38"
abbreviation (input) ELOOP :: nat where "ELOOP \<equiv> 40"

definition map_open_error :: "nat \<Rightarrow> vfs_open_error" where
  "map_open_error errno =
     (if errno = ENOENT then NotFound
      else if errno = EACCES \<or> errno = EPERM then AccessDenied
      else if errno = ELOOP then UnsafePath
      else OpenFailed)"

fun relative_components_acc :: "string list \<Rightarrow> path \<Rightarrow> vfs_open_error + string list" where
  "relative_components_acc acc [] = (if acc = [] then Inl UnsafePath else Inr acc)"
| "relative_components_acc acc (Normal w # cs) = relative_components_acc (acc @ [w]) cs"
| "relative_components_acc acc (CurDir # cs) = relative_components_acc acc cs"
| "relative_components_acc acc (ParentDir # cs) = Inl UnsafePath"
| "relative_components_acc acc (RootDir # cs) = Inl UnsafePath"

definition relative_components :: "path \<Rightarrow> vfs_open_error + string list" where
  "relative_components relative = relative_components_acc [] relative"

definition ensure_regular :: "'fd sys_calls \<Rightarrow> 'fd \<Rightarrow> vfs_open_error + 'fd" where
  "ensure_regular sys fd = (case sc_is_file sys fd of
     Inl e \<Rightarrow> Inl (map_open_error e)
   | Inr is_file \<Rightarrow> if is_file then Inr fd else Inl NotRegularFile)"

text \<open>A name with a NUL byte is no C string.\<close>

definition openat :: "'fd sys_calls \<Rightarrow> 'fd \<Rightarrow> string \<Rightarrow> open_flags \<Rightarrow> vfs_open_error + 'fd" where
  "openat sys parent_fd w flags =
     (if CHR 0x00 \<in> set w then Inl UnsafePath
      else case sc_openat sys parent_fd w flags of
        Inl e \<Rightarrow> Inl (map_open_error e)
      | Inr fd \<Rightarrow> Inr fd)"

fun open_parents :: "'fd sys_calls \<Rightarrow> 'fd \<Rightarrow> string list \<Rightarrow> vfs_open_error + 'fd" where
  "open_parents sys fd [] = Inr fd"
| "open_parents sys fd (w # ws) = (case openat sys fd w DIRECTORY_OPEN_FLAGS of
     Inl e \<Rightarrow> Inl e
   | Inr fd' \<Rightarrow> open_parents sys fd' ws)"

definition open_by_descriptor_walk ::
  "'fd sys_calls \<Rightarrow> 'fd \<Rightarrow> string list \<Rightarrow> (vfs_open_error, 'fd) rust_result" where
  "open_by_descriptor_walk sys root comps =
     (if comps = [] then Panic
      else case open_parents sys root (butlast comps) of
        Inl e \<Rightarrow> Err e
      | Inr parent \<Rightarrow>
          (case openat sys parent (last comps) FILE_OPEN_FLAGS of
             Inl e \<Rightarrow> Err e
           | Inr fd \<Rightarrow> Some (ensure_regular sys fd)))"

datatype 'fd openat2_result = Opened 'fd | Unavailable | OpenError nat

definition openat2_regular :: "'fd sys_calls \<Rightarrow> 'fd \<Rightarrow> path \<Rightarrow> 'fd openat2_result" where
  "openat2_regular sys root relative =
     (if \<exists>c \<in> set relative. (case c of Normal w \<Rightarrow> CHR 0x00 \<in> set w | _ \<Rightarrow> False) then OpenError EINVAL
      else case sc_openat2 sys root relative of
        Inr fd \<Rightarrow> Opened fd
      | Inl e \<Rightarrow> if e = ENOSYS \<or> e = EINVAL then Unavailable else OpenError e)"

definition open_regular_unix :: "'fd sys_calls \<Rightarrow> 'fd \<Rightarrow> path \<Rightarrow> (vfs_open_error, 'fd) rust_result" where
  "open_regular_unix sys root relative = (case relative_components relative of
     Inl e \<Rightarrow> Err e
   | Inr comps \<Rightarrow>
       (case openat2_regular sys root relative of
          Opened fd \<Rightarrow> Some (ensure_regular sys fd)
        | OpenError e \<Rightarrow> Err (map_open_error e)
        | Unavailable \<Rightarrow>
            (case sc_dup sys root of
               Inl e \<Rightarrow> Err (map_open_error e)
             | Inr root' \<Rightarrow> open_by_descriptor_walk sys root' comps)))"

definition open_regular_for_read ::
  "'fd sys_calls \<Rightarrow> 'fd virtual_fs \<Rightarrow> string \<Rightarrow> (vfs_open_error, 'fd) rust_result" where
  "open_regular_for_read sys v virtual_path = (case resolve_textual v virtual_path OpRead of
     Inl e \<Rightarrow> Err (Policy e)
   | Inr (m, relative) \<Rightarrow>
       if relative = [] then Err NotRegularFile
       else (case pm_strict_root m of
               None \<Rightarrow> Err OpenFailed
             | Some root \<Rightarrow> open_regular_unix sys root relative))"

section \<open>Normal forms\<close>

definition proper_name :: "string \<Rightarrow> bool" where
  "proper_name w \<longleftrightarrow> w \<noteq> [] \<and> slash \<notin> set w \<and> w \<noteq> ''.'' \<and> w \<noteq> ''..''"

lemma split_slash_no_slash: "w \<in> set (split_slash s) \<Longrightarrow> slash \<notin> set w"
  by (induction s arbitrary: w) (auto split: list.splits if_splits)

lemma split_slash_ne [simp]: "split_slash s \<noteq> []"
  by (induction s) (auto split: list.splits)

lemma split_slash_plain: "slash \<notin> set w \<Longrightarrow> split_slash w = [w]"
  by (induction w) auto

lemma path_components_proper: "Normal w \<in> set (path_components s) \<Longrightarrow> proper_name w"
  using split_slash_no_slash [of _ s]
  by (cases "split_slash s")
    (auto simp: path_components_def later_component_def proper_name_def split: if_splits)

lemma path_components_name: "proper_name w \<Longrightarrow> path_components w = [Normal w]"
  by (cases w) (auto simp: path_components_def proper_name_def split_slash_plain later_component_def)

lemma push_normals [simp]: "foldl push_component p (map Normal ws) = p @ map Normal ws"
  by (induction ws arbitrary: p) (auto simp: push_component_def)

lemma norm_normals [simp]: "foldl norm_step p (map Normal ws) = p @ map Normal ws"
  by (induction ws arbitrary: p) auto

lemma normalize_append_normals: "normalize_path (p @ map Normal ws) = normalize_path p @ map Normal ws"
  by (simp add: normalize_path_def)

lemma root_only_at_head: "RootDir \<notin> set (tl p) \<Longrightarrow> RootDir \<notin> set (tl (foldl push_component p xs))"
proof (induction xs arbitrary: p)
  case (Cons x xs)
  have "RootDir \<notin> set (tl (push_component p x))" using Cons.prems by (cases p) (auto simp: push_component_def)
  with Cons.IH [of "push_component p x"] show ?case by simp
qed simp


lemma normalize_root [simp]: "RootDir \<notin> set (tl (normalize_path p))"
  by (simp add: normalize_path_def root_only_at_head)

lemma starts_with_append [simp]: "path_starts_with (p @ q) p"
  by (simp add: path_starts_with_def)

lemma starts_with_iff: "path_starts_with p q \<longleftrightarrow> (\<exists>r. p = q @ r)"
  by (metis append_eq_conv_conj append_take_drop_id path_starts_with_def)

lemma path_join_normals [simp]: "path_join p (map Normal ws) = p @ map Normal ws"
  by (simp add: path_join_def)

lemma resolve_components_normals:
  assumes "resolve_components (map Normal acc) cs = Inr r" "\<forall>w. Normal w \<in> set cs \<longrightarrow> proper_name w"
    "\<forall>w \<in> set acc. proper_name w \<and> \<not> is_unsafe_windows_component w"
  shows "\<exists>ws. r = map Normal ws \<and> (\<forall>w \<in> set ws. proper_name w \<and> \<not> is_unsafe_windows_component w)"
  using assms
proof (induction cs arbitrary: acc)
  case (Cons c cs)
  show ?case
  proof (cases c)
    case (Normal w)
    have "resolve_components (map Normal (acc @ [w])) cs = Inr r" "\<not> is_unsafe_windows_component w"
      using Cons.prems(1) Normal by (auto simp: push_component_def split: if_splits)
    with Cons.prems(2,3) Normal show ?thesis by (intro Cons.IH [of "acc @ [w]"]) auto
  next
    case ParentDir
    have "resolve_components (map Normal (butlast acc)) cs = Inr r"
      using Cons.prems(1) ParentDir by (auto simp: path_parent_def map_butlast split: if_splits)
    with Cons.prems(2,3) show ?thesis by (intro Cons.IH [of "butlast acc"]) (auto dest: in_set_butlastD)
  qed (use Cons in auto)
qed auto

lemma resolve_textual_ok:
  assumes "resolve_textual v vp op = Inr (m, rel)"
  shows "m \<in> set (vf_mappings v) \<and> mapping_matches vp m \<and> allows (pm_permissions m) op \<and>
    validate_input vp = Inr () \<and>
    (\<exists>ws. rel = map Normal ws \<and> (\<forall>w \<in> set ws. proper_name w \<and> \<not> is_unsafe_windows_component w))"
proof -
  have *: "validate_input vp = Inr ()" "List.find (mapping_matches vp) (vf_mappings v) = Some m"
      "allows (pm_permissions m) op" "resolve_components [] (path_components (relative_of m vp)) = Inr rel"
    using assms by (auto simp: resolve_textual_def split: sum.splits option.splits if_splits)
  moreover have "m \<in> set (vf_mappings v)" "mapping_matches vp m"
    using *(2) by (auto simp: find_Some_iff)
  ultimately show ?thesis
    using resolve_components_normals [of "[]"] path_components_proper by auto
qed

section \<open>Containment\<close>




lemma walk_up_spec:
  "walk_up fs p t = Some (cur, t') \<Longrightarrow>
     fs_exists fs cur \<and> (\<exists>ws. p = cur @ map Normal ws \<and> t' = t @ rev ws \<and>
       (\<forall>n. length cur < n \<and> n \<le> length p \<longrightarrow> \<not> fs_exists fs (take n p)))"
proof (induction fs p t rule: walk_up.induct)
  case (1 fs p t)
  show ?case
  proof (cases "fs_exists fs p")
    case True
    with "1.prems" show ?thesis by (simp add: walk_up.simps [of fs p t])
  next
    case False
    then obtain w q where w: "file_name p = Some w" "path_parent p = Some q" "walk_up fs q (t @ [w]) = Some (cur, t')"
      using "1.prems" by (auto simp: walk_up.simps [of fs p t] split: option.splits)
    then have p: "p = q @ [Normal w]"
      by (auto simp: file_name_def path_parent_def split: if_splits path_component.splits)
        (metis append_butlast_last_id)
    obtain ws where "fs_exists fs cur" "q = cur @ map Normal ws" "t' = t @ [w] @ rev ws"
        "\<forall>n. length cur < n \<and> n \<le> length q \<longrightarrow> \<not> fs_exists fs (take n q)"
      using "1.IH" [OF False w(1,2,3)] by auto
    with False p show ?thesis
      by (auto simp: le_Suc_eq intro!: exI [of _ "ws @ [w]"])
  qed
qed






lemma resolve_parts:
  assumes "resolve fs v vp op = Inr p"
  shows "\<exists>m ws. m \<in> set (vf_mappings v) \<and> mapping_matches vp m \<and> allows (pm_permissions m) op \<and>
    p = normalize_path (pm_real_path m) @ map Normal ws \<and>
    (\<forall>w \<in> set ws. proper_name w \<and> \<not> is_unsafe_windows_component w) \<and>
    check_real_path fs (vf_policy v) p m = Inr ()"
proof -
  obtain m rel where t: "resolve_textual v vp op = Inr (m, rel)"
    using assms by (auto simp: resolve_def split: sum.splits)
  then obtain ws where ws: "rel = map Normal ws" "\<forall>w \<in> set ws. proper_name w \<and> \<not> is_unsafe_windows_component w"
    using resolve_textual_ok by blast
  then have "p = normalize_path (pm_real_path m) @ map Normal ws \<and> check_real_path fs (vf_policy v) p m = Inr ()"
    using assms t by (auto simp: resolve_def Let_def normalize_append_normals split: sum.splits if_splits)
  with resolve_textual_ok [OF t] ws(2) show ?thesis by blast
qed


definition demo_fs :: file_system where
  "demo_fs = \<lparr> fs_exists = (\<lambda>p. length p \<le> 3), fs_canonicalize = (\<lambda>p. if length p \<le> 3 then Some p else None),
     fs_is_symlink = (\<lambda>_. Some False) \<rparr>"




section \<open>Textual resolution is guarded normalization\<close>

definition names_in :: "path \<Rightarrow> nat" where
  "names_in cs = length (filter (\<lambda>c. case c of Normal _ \<Rightarrow> True | _ \<Rightarrow> False) cs)"

definition parents_in :: "path \<Rightarrow> nat" where
  "parents_in cs = length (filter (\<lambda>c. c = ParentDir) cs)"

text \<open>No prefix of the path climbs above the place it starts from.\<close>

definition never_above :: "path \<Rightarrow> bool" where
  "never_above cs \<longleftrightarrow> (\<forall>k \<in> set [0..<Suc (length cs)]. parents_in (take k cs) \<le> names_in (take k cs))"

definition portable :: "path \<Rightarrow> bool" where
  "portable cs \<longleftrightarrow> RootDir \<notin> set cs \<and>
     (\<forall>c \<in> set cs. case c of Normal w \<Rightarrow> \<not> is_unsafe_windows_component w | _ \<Rightarrow> True)"

lemma counts_Cons [simp]:
  "names_in (c # cs) = (case c of Normal _ \<Rightarrow> 1 | _ \<Rightarrow> 0) + names_in cs"
  "parents_in (c # cs) = (if c = ParentDir then 1 else 0) + parents_in cs"
  "names_in [] = 0" "parents_in [] = 0"
  by (auto simp: names_in_def parents_in_def split: path_component.splits)

lemma all_prefixes_Cons:
  "(\<forall>k. P (take k (c # cs))) \<longleftrightarrow> P [] \<and> (\<forall>k. P (c # take k cs))"
  by (metis take_Cons' take_0 take_Suc_Cons)

lemma resolve_components_iff:
  "resolve_components (map Normal acc) cs = Inr r \<longleftrightarrow>
     portable cs \<and> (\<forall>k. parents_in (take k cs) \<le> length acc + names_in (take k cs)) \<and>
     r = foldl norm_step (map Normal acc) cs"
proof (induction cs arbitrary: acc)
  case Nil
  show ?case by (auto simp: portable_def)
next
  case (Cons c cs)
  show ?case
  proof (cases c)
    case (Normal w)
    have "resolve_components (map Normal acc) (c # cs) = Inr r \<longleftrightarrow>
        \<not> is_unsafe_windows_component w \<and> resolve_components (map Normal (acc @ [w])) cs = Inr r"
      by (simp add: Normal push_component_def)
    with Cons.IH [of "acc @ [w]"] show ?thesis
      by (auto simp: Normal portable_def all_prefixes_Cons [of "\<lambda>q. parents_in q \<le> length acc + names_in q"])
  next
    case ParentDir
    show ?thesis
    proof (cases "acc = []")
      case True
      have "\<not> parents_in (take 1 (c # cs)) \<le> length acc + names_in (take 1 (c # cs))"
        by (simp add: True ParentDir)
      moreover have "resolve_components (map Normal acc) (c # cs) = Inl PathTraversal"
        by (simp add: True ParentDir path_parent_def)
      ultimately show ?thesis by (metis sum.distinct(1))
    next
      case False
      have "resolve_components (map Normal acc) (c # cs) = Inr r \<longleftrightarrow>
          resolve_components (map Normal (butlast acc)) cs = Inr r"
        using False by (auto simp: ParentDir path_parent_def map_butlast last_map)
      moreover have "(Suc x \<le> length acc + y) = (x \<le> length (butlast acc) + y)" for x y
        using False by (cases acc rule: rev_cases) auto
      ultimately show ?thesis
        using Cons.IH [of "butlast acc"] False
        by (auto simp: ParentDir portable_def map_butlast
            all_prefixes_Cons [of "\<lambda>q. parents_in q \<le> length acc + names_in q"])
    qed
  next
    case CurDir
    with Cons.IH [of acc] show ?thesis
      by (auto simp: portable_def all_prefixes_Cons [of "\<lambda>q. parents_in q \<le> length acc + names_in q"])
  next
    case RootDir
    then show ?thesis by (auto simp: portable_def)
  qed
qed

lemma never_above_all: "never_above cs \<longleftrightarrow> (\<forall>k. parents_in (take k cs) \<le> names_in (take k cs))"
proof
  assume a: "never_above cs"
  show "\<forall>k. parents_in (take k cs) \<le> names_in (take k cs)"
  proof
    fix k
    have "take k cs = take (min k (length cs)) cs" by (simp add: min_def)
    moreover have "min k (length cs) \<in> set [0..<Suc (length cs)]" by auto
    ultimately show "parents_in (take k cs) \<le> names_in (take k cs)"
      using a unfolding never_above_def by metis
  qed
qed (simp add: never_above_def)

text \<open>
  Textual resolution succeeds exactly on well-formed virtual paths with a mapping
  that allows the operation, whose remaining components are portable names and
  whose \<open>..\<close> components never climb above the mapping's directory, not even
  temporarily; the result is then the plain normalization of those components.
\<close>

lemma textual_resolution_is_exact:
  "resolve_textual v virtual_path op = Inr (m, relative) \<longleftrightarrow>
     validate_input virtual_path = Inr () \<and>
     List.find (mapping_matches virtual_path) (vf_mappings v) = Some m \<and> allows (pm_permissions m) op \<and>
     portable (path_components (relative_of m virtual_path)) \<and>
     never_above (path_components (relative_of m virtual_path)) \<and>
     relative = normalize_path (path_components (relative_of m virtual_path))"
proof -
  let ?cs = "path_components (relative_of m virtual_path)"
  have n: "normalize_path ?cs = foldl norm_step [] ?cs" if r: "resolve_components [] ?cs = Inr r" for r
  proof -
    obtain ws where "r = map Normal ws" using resolve_components_normals [of "[]" ?cs r] r path_components_proper by auto
    moreover have "r = foldl norm_step [] ?cs" using r resolve_components_iff [of "[]" ?cs r] by simp
    ultimately show ?thesis unfolding normalize_path_def by (metis append_Nil push_normals)
  qed
  have "resolve_components [] ?cs = Inr relative \<longleftrightarrow>
      portable ?cs \<and> never_above ?cs \<and> relative = normalize_path ?cs"
    using resolve_components_iff [of "[]" ?cs] n by (auto simp: never_above_all)
  then show ?thesis
    by (auto simp: resolve_textual_def split: sum.splits option.splits if_splits)
qed

section \<open>Which mapping answers\<close>

lemma matches_fixed_prefix:
  assumes "mapping_matches vp m"
  shows "vp = pm_virtual_prefix m \<or> (\<exists>r. vp = pm_virtual_prefix m @ ''/'' @ r)"
proof (cases "vp = pm_virtual_prefix m")
  case False
  with assms have "take (length (prefix_with_slash m)) vp = prefix_with_slash m"
    by (simp add: mapping_matches_def)
  then have "vp = prefix_with_slash m @ drop (length (prefix_with_slash m)) vp"
    by (metis append_take_drop_id)
  then show ?thesis by (metis prefix_with_slash_def append_assoc)
qed simp

lemma takeWhile_name:
  "slash \<notin> set n \<Longrightarrow> takeWhile (\<lambda>c. c \<noteq> slash) n = n"
  "slash \<notin> set n \<Longrightarrow> takeWhile (\<lambda>c. c \<noteq> slash) (n @ slash # r) = n"
  by (induction n) auto

lemma matches_first_name:
  assumes "mapping_matches vp m" "pm_virtual_prefix m = slash # n" "slash \<notin> set n"
  shows "takeWhile (\<lambda>c. c \<noteq> slash) (tl vp) = n"
proof -
  consider "vp = slash # n" | r where "vp = slash # n @ slash # r"
    using matches_fixed_prefix [OF assms(1)] by (simp only: assms(2)) fastforce
  then show ?thesis by cases (simp_all only: list.sel takeWhile_name [OF assms(3)])
qed

text \<open>The four prefixes exclude each other, so the order of the map does not matter.\<close>

definition mapping_table :: "path \<Rightarrow> path \<Rightarrow> path \<Rightarrow> path \<Rightarrow> (string \<times> path \<times> file_permissions) list" where
  "mapping_table c u ca t =
     [(''code'', c, READ_ONLY), (''user'', u, READ_WRITE), (''cache'', ca, READ_WRITE), (''tmp'', t, READ_WRITE)]"

lemma with_policy_table:
  "vf_mappings (with_policy fs pin c u ca t pol) =
     map (\<lambda>(n, d, perms). make_mapping fs pin (slash # n) d perms) (mapping_table c u ca t)"
  by (simp add: with_policy_def mapping_table_def)

lemma mapping_table_keys: "distinct (map fst (mapping_table c u ca t))"
  by (simp add: mapping_table_def)

lemma mapping_table_names: "(n, x) \<in> set (mapping_table c u ca t) \<Longrightarrow> slash \<notin> set n"
  by (auto simp: mapping_table_def)

lemma mappings_exclusive:
  assumes a: "a \<in> set (vf_mappings (with_policy fs pin c u ca t pol))" and b: "b \<in> set (vf_mappings (with_policy fs pin c u ca t pol))"
    and m: "mapping_matches vp a" "mapping_matches vp b"
  shows "a = b"
proof -
  let ?n = "takeWhile (\<lambda>c. c \<noteq> slash) (tl vp)"
  have key: "\<exists>d perms. (?n, d, perms) \<in> set (mapping_table c u ca t) \<and> x = make_mapping fs pin (slash # ?n) d perms"
    if x: "x \<in> set (vf_mappings (with_policy fs pin c u ca t pol))" "mapping_matches vp x" for x
  proof -
    obtain n d perms where n: "(n, d, perms) \<in> set (mapping_table c u ca t)" "x = make_mapping fs pin (slash # n) d perms"
      using x(1) by (auto simp: with_policy_table)
    then have "?n = n"
      using mapping_table_names [OF n(1)] by (intro matches_first_name [OF x(2)]) (auto simp: make_mapping_def)
    with n show ?thesis by metis
  qed
  show ?thesis
    using key [OF a m(1)] key [OF b m(2)] eq_key_imp_eq_value [OF mapping_table_keys] by blast
qed

lemma find_order_irrelevant:
  assumes "set ms = set (vf_mappings (with_policy fs pin c u ca t pol))"
  shows "List.find (mapping_matches vp) ms =
    List.find (mapping_matches vp) (vf_mappings (with_policy fs pin c u ca t pol))"
proof (cases "List.find (mapping_matches vp) ms")
  case None
  with assms have "List.find (mapping_matches vp) (vf_mappings (with_policy fs pin c u ca t pol)) = None"
    by (simp add: find_None_iff)
  with None show ?thesis by simp
next
  case (Some a)
  then have a: "a \<in> set ms" "mapping_matches vp a" by (auto simp: find_Some_iff)
  then obtain b where b: "List.find (mapping_matches vp) (vf_mappings (with_policy fs pin c u ca t pol)) = Some b"
    using assms by (cases "List.find (mapping_matches vp) (vf_mappings (with_policy fs pin c u ca t pol))")
      (auto simp: find_None_iff)
  then have "b \<in> set (vf_mappings (with_policy fs pin c u ca t pol))" "mapping_matches vp b" by (auto simp: find_Some_iff)
  with a assms mappings_exclusive have "a = b" by blast
  with Some b show ?thesis by simp
qed

section \<open>Games are isolated from each other\<close>

definition apart :: "path \<Rightarrow> path \<Rightarrow> bool" where
  "apart p q \<longleftrightarrow> \<not> path_starts_with p q \<and> \<not> path_starts_with q p"

lemma apart_append: "apart p q \<Longrightarrow> apart (p @ r) (q @ s)"
  by (auto simp: apart_def starts_with_iff append_eq_append_conv2)

lemma apart_sym: "apart p q \<Longrightarrow> apart q p"
  by (simp add: apart_def)

lemma apart_branch: "x \<noteq> y \<Longrightarrow> apart (p @ x # r) (p @ y # s)"
  by (auto simp: apart_def starts_with_iff)

definition plain_dir :: "path \<Rightarrow> bool" where
  "plain_dir p \<longleftrightarrow> p \<noteq> [] \<and> hd p = RootDir \<and> (\<forall>c \<in> set (tl p). case c of Normal w \<Rightarrow> True | _ \<Rightarrow> False)"

lemma plain_dir_iff: "plain_dir p \<longleftrightarrow> (\<exists>ws. p = RootDir # map Normal ws)"
proof
  assume p: "plain_dir p"
  have "\<exists>w. c = Normal w" if "c \<in> set (tl p)" for c
    using p that by (cases c) (auto simp: plain_dir_def)
  then obtain ws where "tl p = map Normal ws" using ex_map_conv [of "tl p" Normal] by blast
  with p show "\<exists>ws. p = RootDir # map Normal ws" by (cases p) (auto simp: plain_dir_def)
qed (auto simp: plain_dir_def)

lemma plain_normalize: "plain_dir p \<Longrightarrow> normalize_path p = p"
  using normalize_append_normals [of "[RootDir]"]
  by (auto simp: plain_dir_iff normalize_path_def push_component_def)

lemma plain_append: "plain_dir p \<Longrightarrow> plain_dir (p @ map Normal ws)"
  by (auto simp: plain_dir_iff) (metis map_append)

lemma valid_game_id_proper: "validate_game_id g = Inr () \<Longrightarrow> proper_name g"
  by (auto simp: validate_game_id_def proper_name_def list_all_iff game_id_byte_def Let_def split: if_splits)

lemma digit_char_digit: "d < 10 \<Longrightarrow> digit_char d \<in> set ''0123456789''"
  unfolding digit_char_def by (rule nth_mem) simp

lemma digit_char_inj: "digit_char d = digit_char e \<Longrightarrow> d < 10 \<Longrightarrow> e < 10 \<Longrightarrow> d = e"
  using nth_eq_iff_index_eq [of "''0123456789''" d e] by (simp add: digit_char_def)

lemma nat_digits_char: "set (nat_digits n) \<subseteq> set ''0123456789''"
proof (induction n rule: nat_digits.induct)
  case (1 n)
  then show ?case
    using digit_char_digit [of n] digit_char_digit [of "n mod 10"] nat_digits.simps [of n] by (cases "n < 10") auto
qed

lemma nat_digits_ne [simp]: "nat_digits n \<noteq> []"
  by (subst nat_digits.simps) simp

lemma nat_digits_inj: "nat_digits a = nat_digits b \<Longrightarrow> a = b"
proof (induction a arbitrary: b rule: nat_digits.induct)
  case (1 a)
  note unf = nat_digits.simps [of a] nat_digits.simps [of b]
  show ?case
  proof (cases "a < 10 \<or> b < 10")
    case True
    with "1.prems" show ?thesis
      by (cases "a < 10"; cases "b < 10") (simp_all add: unf digit_char_inj nat_digits_ne [symmetric])
  next
    case False
    then have "nat_digits (a div 10) = nat_digits (b div 10)" "digit_char (a mod 10) = digit_char (b mod 10)"
      using "1.prems" by (simp_all add: unf)
    with "1.IH" [of "b div 10"] False digit_char_inj [of "a mod 10" "b mod 10"]
    have "a div 10 = b div 10" "a mod 10 = b mod 10" by simp_all
    then show ?thesis by (metis div_mult_mod_eq)
  qed
qed

lemma digits_not_dash: "CHR ''-'' # r \<noteq> nat_digits n"
proof
  assume "CHR ''-'' # r = nat_digits n"
  then have "CHR ''-'' \<in> set (nat_digits n)" by (metis list.set_intros(1))
  with nat_digits_char [of n] have "CHR ''-'' \<in> set ''0123456789''" by blast
  then show False by simp
qed

lemma i32_to_string_inj:
  assumes "i32_to_string a = i32_to_string b"
  shows "a = b"
proof (cases "a < 0 \<longleftrightarrow> b < 0")
  case True
  with assms have "nat \<bar>a\<bar> = nat \<bar>b\<bar>"
    by (intro nat_digits_inj) (auto simp: i32_to_string_def split: if_splits)
  with True show ?thesis by linarith
next
  case False
  with assms digits_not_dash show ?thesis by (auto simp: i32_to_string_def split: if_splits dest: sym)
qed

lemma i32_to_string_proper: "proper_name (i32_to_string n)"
proof -
  have d: "slash \<notin> set (nat_digits k)" "CHR ''.'' \<notin> set (nat_digits k)" for k
    using nat_digits_char [of k] by auto
  then have "slash \<notin> set (i32_to_string n)" "CHR ''.'' \<notin> set (i32_to_string n)" "i32_to_string n \<noteq> []"
    by (auto simp: i32_to_string_def)
  then show ?thesis unfolding proper_name_def by auto
qed

text \<open>The directories of a game, spelled out.\<close>

abbreviation (input) game_root :: "path \<Rightarrow> string \<Rightarrow> path" where
  "game_root base g \<equiv> base @ [Normal ''migo'', Normal ''games'', Normal g]"

lemma plain_name_components:
  "path_components ''migo/games'' = [Normal ''migo'', Normal ''games'']"
  "path_components ''code'' = [Normal ''code'']" "path_components ''user_data'' = [Normal ''user_data'']"
  "path_components ''sandbox'' = [Normal ''sandbox'']" "path_components ''tmp'' = [Normal ''tmp'']"
  by code_simp+

lemma game_paths_new_ok:
  assumes "game_paths_new files cache g s = Inr a"
  shows "gp_code_dir a = game_root files g @ [Normal ''code''] \<and>
    gp_user_data_dir a = game_root files g @ [Normal ''user_data''] \<and>
    gp_cache_dir a = game_root cache g \<and>
    gp_sandbox_cache_dir a = game_root cache g @ [Normal ''sandbox''] \<and>
    gp_temp_dir a = game_root cache g @ [Normal ''tmp'', Normal (i32_to_string s)] \<and> validate_game_id g = Inr ()"
proof -
  have v: "validate_game_id g = Inr ()" using assms by (auto simp: game_paths_new_def split: sum.splits)
  then have "path_components g = [Normal g]" by (intro path_components_name valid_game_id_proper)
  moreover have "path_components (i32_to_string s) = [Normal (i32_to_string s)]"
    by (intro path_components_name i32_to_string_proper)
  ultimately show ?thesis
    using assms v by (auto simp: game_paths_new_def Let_def plain_name_components path_join_def push_component_def)
qed

definition game_dirs :: "game_paths \<Rightarrow> path list" where
  "game_dirs a = [gp_code_dir a, gp_user_data_dir a, gp_sandbox_cache_dir a, gp_temp_dir a]"

lemma game_dirs_plain:
  assumes "game_paths_new files cache g s = Inr a" "plain_dir files" "plain_dir cache" "d \<in> set (game_dirs a)"
  shows "plain_dir d"
proof -
  have "\<exists>ws. d = files @ map Normal ws \<or> d = cache @ map Normal ws"
    using assms(4) game_paths_new_ok [OF assms(1)]
    by (auto simp: game_dirs_def intro: exI [of _ "[''migo'', ''games'', g, ''code'']"]
        exI [of _ "[''migo'', ''games'', g, ''user_data'']"] exI [of _ "[''migo'', ''games'', g, ''sandbox'']"]
        exI [of _ "[''migo'', ''games'', g, ''tmp'', i32_to_string s]"])
  with assms(2,3) plain_append show ?thesis by blast
qed

lemma resolved_in_game_dir:
  assumes "resolve fs (from_game_paths fs pin a) vp op = Inr p" "game_paths_new files cache g s = Inr a"
    "plain_dir files" "plain_dir cache"
  shows "\<exists>m ws. m \<in> set (vf_mappings (from_game_paths fs pin a)) \<and> mapping_matches vp m \<and>
    pm_real_path m \<in> set (game_dirs a) \<and> p = pm_real_path m @ map Normal ws"
proof -
  obtain m ws where m: "m \<in> set (vf_mappings (from_game_paths fs pin a))" "mapping_matches vp m"
      "p = normalize_path (pm_real_path m) @ map Normal ws"
    using resolve_parts [OF assms(1)] by blast
  have "pm_real_path m \<in> set (game_dirs a)"
    using m(1) by (auto simp: from_game_paths_def with_policy_def make_mapping_def game_dirs_def)
  with m game_dirs_plain [OF assms(2-4)] plain_normalize show ?thesis by metis
qed

definition separate_bases :: "path \<Rightarrow> path \<Rightarrow> bool" where
  "separate_bases files cache \<longleftrightarrow> plain_dir files \<and> plain_dir cache \<and> (files = cache \<or> apart files cache)"



abbreviation (input) demo_files :: path where "demo_files \<equiv> [RootDir, Normal ''data'', Normal ''files'']"
abbreviation (input) demo_cache :: path where "demo_cache \<equiv> [RootDir, Normal ''data'', Normal ''cache'']"

definition demo_paths :: "string \<Rightarrow> i32 \<Rightarrow> game_paths" where
  "demo_paths g s = \<lparr> gp_game_id = g,
     gp_code_dir = game_root demo_files g @ [Normal ''code''],
     gp_user_data_dir = game_root demo_files g @ [Normal ''user_data''],
     gp_cache_dir = game_root demo_cache g,
     gp_sandbox_cache_dir = game_root demo_cache g @ [Normal ''sandbox''],
     gp_temp_dir = game_root demo_cache g @ [Normal ''tmp'', Normal (i32_to_string s)] \<rparr>"

lemma demo_game_paths:
  "game_paths_new demo_files demo_cache ''chess'' 7 = Inr (demo_paths ''chess'' 7)"
  "game_paths_new demo_files demo_cache ''go'' 7 = Inr (demo_paths ''go'' 7)"
  "game_paths_new demo_files demo_cache ''chess'' (- 8) = Inr (demo_paths ''chess'' (- 8))"
  by code_simp+

lemma demo_bases: "separate_bases demo_files demo_cache"
  by (simp add: separate_bases_def plain_dir_def apart_def path_starts_with_def)

lemma demo_game_resolves:
  "resolve demo_fs (from_game_paths demo_fs (\<lambda>_. Some (3::nat)) (demo_paths ''chess'' 7)) ''/tmp/x'' OpWrite =
     Inr (game_root demo_cache ''chess'' @ [Normal ''tmp'', Normal ''7'', Normal ''x''])"
  "resolve demo_fs (from_game_paths demo_fs (\<lambda>_. Some (3::nat)) (demo_paths ''go'' 7)) ''/tmp/x'' OpWrite =
     Inr (game_root demo_cache ''go'' @ [Normal ''tmp'', Normal ''7'', Normal ''x''])"
  "resolve demo_fs (from_game_paths demo_fs (\<lambda>_. Some (3::nat)) (demo_paths ''chess'' (- 8))) ''/tmp/x'' OpWrite =
     Inr (game_root demo_cache ''chess'' @ [Normal ''tmp'', Normal ''-8'', Normal ''x''])"
  by code_simp+


section \<open>One game keeps its sessions and records apart\<close>

lemma game_dirs_apart_from_records:
  assumes "game_paths_new files cache g s = Inr a" "separate_bases files cache" "d \<in> set (game_dirs a)"
  shows "apart d (integrity_receipt_path a) \<and> apart d (integrity_lock_path a) \<and>
    \<not> path_starts_with (gp_cache_dir a) d"
proof -
  note dirs = game_paths_new_ok [OF assms(1)]
  define top_dir where "top_dir = game_root files g"
  have c: "gp_code_dir a = top_dir @ [Normal ''code'']" using dirs by (simp add: top_dir_def)
  have rec: "integrity_receipt_path a = top_dir @ [Normal ''code.integrity-receipt-v1.json'']"
      "integrity_lock_path a = top_dir @ [Normal ''code.integrity-receipt-v1.lock'']"
    by (simp_all add: integrity_lock_path_def integrity_receipt_path_def with_file_name_def c file_name_def
        push_component_def butlast_append)
  obtain base r x where d: "base \<in> {files, cache}" "d = game_root base g @ x # r"
      "x \<in> {Normal ''code'', Normal ''user_data'', Normal ''sandbox'', Normal ''tmp''}"
      "base = files \<or> x \<in> {Normal ''sandbox'', Normal ''tmp''}"
    using dirs assms(3) by (auto simp: game_dirs_def)
  have "apart d (top_dir @ [Normal y])" if "Normal y \<notin> {Normal ''code'', Normal ''user_data'', Normal ''sandbox'', Normal ''tmp''}" for y
  proof (cases "base = files")
    case True
    have "x \<noteq> Normal y" using that d(3) by blast
    with True d(2) apart_branch [of x "Normal y" top_dir r "[]"] show ?thesis by (simp add: top_dir_def)
  next
    case False
    then have "apart base files" using d(1) assms(2) apart_sym by (auto simp: separate_bases_def)
    with apart_append [of base files] d(2) show ?thesis by (simp add: top_dir_def)
  qed
  moreover have "\<not> path_starts_with (gp_cache_dir a) d"
  proof (cases "base = cache")
    case True
    with d(2) dirs show ?thesis by (auto simp: path_starts_with_def)
  next
    case False
    then have "apart cache base" using d(1) assms(2) apart_sym by (auto simp: separate_bases_def)
    with apart_append [of cache base "[Normal ''migo'', Normal ''games'', Normal g]"] d(2) dirs
    show ?thesis by (simp add: apart_def)
  qed
  ultimately show ?thesis by (simp add: rec)
qed

text \<open>
  The runtime's own records of a game are out of the game's reach: no virtual
  path of any operation resolves to the integrity receipt, to its lock, to anything
  below them, or to the cache root that holds the install store.
\<close>

lemma runtime_records_unreachable:
  assumes "separate_bases files cache" "game_paths_new files cache g s = Inr a"
    "resolve fs (from_game_paths fs pin a) vp op = Inr p"
  shows "apart p (integrity_receipt_path a) \<and> apart p (integrity_lock_path a) \<and>
    \<not> path_starts_with (gp_cache_dir a) p"
proof -
  have plain: "plain_dir files" "plain_dir cache" using assms(1) by (auto simp: separate_bases_def)
  obtain d ws where d: "d \<in> set (game_dirs a)" "p = d @ map Normal ws"
    using resolved_in_game_dir [OF assms(3,2) plain] by blast
  note * = game_dirs_apart_from_records [OF assms(2,1) d(1)]
  have "\<not> path_starts_with (gp_cache_dir a) (d @ map Normal ws)"
    using * by (auto simp: starts_with_iff)
  with * d(2) apart_append [of d _ "map Normal ws" "[]"] show ?thesis by simp
qed

lemma runtime_records_unreachable_witness:
  "apart (game_root demo_cache ''chess'' @ [Normal ''tmp'', Normal ''7'', Normal ''x''])
     (integrity_receipt_path (demo_paths ''chess'' 7))"
  using runtime_records_unreachable [OF demo_bases demo_game_paths(1) demo_game_resolves(1)] by blast

text \<open>
  The temporary directory is private to a session: what one session resolves
  below \<open>/tmp\<close> is apart from everything another session of the same game resolves
  below \<open>/tmp\<close>.
\<close>

lemma temp_is_private_to_a_session:
  assumes "separate_bases files cache" "s \<noteq> t"
    "game_paths_new files cache g s = Inr a" "game_paths_new files cache g t = Inr b"
    "resolve fs (from_game_paths fs pin a) (''/tmp/'' @ vp) op = Inr p"
    "resolve fs (from_game_paths fs pin b) (''/tmp/'' @ wp) op' = Inr q"
  shows "apart p q"
proof -
  have plain: "plain_dir files" "plain_dir cache" using assms(1) by (auto simp: separate_bases_def)
  have tmp: "\<exists>ws. r = gp_temp_dir x @ map Normal ws"
    if r: "resolve fs (from_game_paths fs pin x) (''/tmp/'' @ up) o' = Inr r" "game_paths_new files cache g n = Inr x" for x up o' r n
  proof -
    obtain m ws where m: "m \<in> set (vf_mappings (from_game_paths fs pin x))" "mapping_matches (''/tmp/'' @ up) m"
        "r = pm_real_path m @ map Normal ws"
      using resolved_in_game_dir [OF r plain] by blast
    let ?t = "make_mapping fs pin ''/tmp'' (gp_temp_dir x) READ_WRITE"
    have "?t \<in> set (vf_mappings (from_game_paths fs pin x))" "mapping_matches (''/tmp/'' @ up) ?t"
      by (simp_all add: from_game_paths_def with_policy_def mapping_matches_def prefix_with_slash_def make_mapping_def)
    then have "m = ?t" using m(1,2) mappings_exclusive unfolding from_game_paths_def by blast
    with m(3) show ?thesis by (auto simp: make_mapping_def)
  qed
  have "Normal (i32_to_string s) \<noteq> Normal (i32_to_string t)" using assms(2) i32_to_string_inj by auto
  from apart_branch [OF this, of "game_root cache g @ [Normal ''tmp'']" "[]" "[]"]
  have "apart (gp_temp_dir a) (gp_temp_dir b)"
    using game_paths_new_ok [OF assms(3)] game_paths_new_ok [OF assms(4)] by simp
  with tmp [OF assms(5,3)] tmp [OF assms(6,4)] apart_append show ?thesis by blast
qed

lemma temp_is_private_to_a_session_witness:
  "apart (game_root demo_cache ''chess'' @ [Normal ''tmp'', Normal ''7'', Normal ''x''])
     (game_root demo_cache ''chess'' @ [Normal ''tmp'', Normal ''-8'', Normal ''x''])"
  using temp_is_private_to_a_session [OF demo_bases _ demo_game_paths(1,3), of demo_fs "\<lambda>_. Some 3" "''x''" OpWrite _ "''x''" OpWrite]
    demo_game_resolves(1,3) by simp

section \<open>Strict reads stay below the pinned root\<close>

text \<open>
  What the manual pages promise: \<open>openat\<close> with \<open>O_NOFOLLOW\<close> and a single name opens the
  entry of that name in the directory; \<open>openat2\<close> with \<open>RESOLVE_BENEATH\<close> and
  \<open>RESOLVE_NO_SYMLINKS\<close> opens what the names lead to, entry by entry; a duplicated
  descriptor refers to the same directory. \<open>node\<close> is the file a descriptor refers to and
  \<open>entry\<close> the directory entries that are no links.
\<close>

fun descends :: "('n \<Rightarrow> string \<Rightarrow> 'n \<Rightarrow> bool) \<Rightarrow> 'n \<Rightarrow> string list \<Rightarrow> 'n \<Rightarrow> bool" where
  "descends entry n [] n' = (n = n')"
| "descends entry n (w # ws) n' = (\<exists>m. entry n w m \<and> descends entry m ws n')"

definition opens_beneath :: "'fd sys_calls \<Rightarrow> ('fd \<Rightarrow> 'n) \<Rightarrow> ('n \<Rightarrow> string \<Rightarrow> 'n \<Rightarrow> bool) \<Rightarrow> bool" where
  "opens_beneath sys node entry \<longleftrightarrow>
     (\<forall>fd w flags fd'. sc_openat sys fd w flags = Inr fd' \<longrightarrow> entry (node fd) w (node fd')) \<and>
     (\<forall>fd ws fd'. sc_openat2 sys fd (map Normal ws) = Inr fd' \<longrightarrow> descends entry (node fd) ws (node fd')) \<and>
     (\<forall>fd fd'. sc_dup sys fd = Inr fd' \<longrightarrow> node fd' = node fd)"

lemma descends_snoc: "descends entry n ws m \<Longrightarrow> entry m w n' \<Longrightarrow> descends entry n (ws @ [w]) n'"
  by (induction ws arbitrary: n) auto

lemma open_parents_descends:
  "opens_beneath sys node entry \<Longrightarrow> open_parents sys fd ws = Inr fd' \<Longrightarrow> descends entry (node fd) ws (node fd')"
  by (induction ws arbitrary: fd)
    (auto simp: openat_def opens_beneath_def split: sum.splits if_splits, blast)

lemma relative_components_names:
  "relative_components_acc acc (map Normal ws) = (if acc @ ws = [] then Inl UnsafePath else Inr (acc @ ws))"
  by (induction ws arbitrary: acc) auto

lemma ensure_regular_ok: "ensure_regular sys fd = Inr fd' \<Longrightarrow> fd' = fd \<and> sc_is_file sys fd = Inr True"
  by (auto simp: ensure_regular_def split: sum.splits if_splits)

lemma descriptor_walk_descends:
  assumes os: "opens_beneath sys node entry" and ok: "open_by_descriptor_walk sys root ws = Ok fd" and ws: "ws \<noteq> []"
  shows "descends entry (node root) ws (node fd) \<and> sc_is_file sys fd = Inr True"
proof -
  obtain parent where p: "open_parents sys root (butlast ws) = Inr parent"
      "sc_openat sys parent (last ws) FILE_OPEN_FLAGS = Inr fd" "ensure_regular sys fd = Inr fd"
    using ok ws ensure_regular_ok by (fastforce simp: open_by_descriptor_walk_def openat_def split: sum.splits if_splits)
  have "descends entry (node root) (butlast ws @ [last ws]) (node fd)"
    using descends_snoc open_parents_descends [OF os p(1)] os p(2) unfolding opens_beneath_def by metis
  with ws ensure_regular_ok [OF p(3)] show ?thesis by simp
qed

text \<open>
  C30. A strict read never panics, and the file it hands out is a regular file
  reached from the pinned root of a readable mapping by opening one ordinary
  name after the other, whichever of the two kernel interfaces is used: links and
  \<open>..\<close> play no part, at any time.
\<close>

theorem strict_read_stays_below_root:
  assumes "opens_beneath sys node entry"
  shows "open_regular_for_read sys v virtual_path \<noteq> Panic \<and>
    (\<forall>fd. open_regular_for_read sys v virtual_path = Ok fd \<longrightarrow>
       (\<exists>m root ws. m \<in> set (vf_mappings v) \<and> mapping_matches virtual_path m \<and> allows (pm_permissions m) OpRead \<and>
          pm_strict_root m = Some root \<and> ws \<noteq> [] \<and> (\<forall>w \<in> set ws. proper_name w \<and> \<not> is_unsafe_windows_component w) \<and>
          descends entry (node root) ws (node fd) \<and> sc_is_file sys fd = Inr True))"
proof (cases "resolve_textual v virtual_path OpRead")
  case (Inl e)
  then show ?thesis by (simp add: open_regular_for_read_def)
next
  case (Inr r)
  obtain m rel where r: "r = (m, rel)" by (cases r)
  note * = resolve_textual_ok [OF Inr [unfolded r]]
  then obtain ws where ws: "rel = map Normal ws" "\<forall>w \<in> set ws. proper_name w \<and> \<not> is_unsafe_windows_component w"
    by blast
  show ?thesis
  proof (cases "ws = [] \<or> pm_strict_root m = None")
    case True
    then show ?thesis using Inr r ws by (auto simp: open_regular_for_read_def)
  next
    case False
    then obtain root where root: "pm_strict_root m = Some root" "ws \<noteq> []" by auto
    then have eq: "open_regular_for_read sys v virtual_path = open_regular_unix sys root (map Normal ws)"
      using Inr r ws by (simp add: open_regular_for_read_def)
    have names: "relative_components (map Normal ws) = Inr ws"
      using root(2) by (simp add: relative_components_def relative_components_names)
    have "open_regular_unix sys root (map Normal ws) \<noteq> Panic"
      using root(2) by (auto simp: open_regular_unix_def names open_by_descriptor_walk_def
          split: openat2_result.splits sum.splits)
    moreover have "descends entry (node root) ws (node fd) \<and> sc_is_file sys fd = Inr True"
      if fd: "open_regular_unix sys root (map Normal ws) = Ok fd" for fd
    proof (cases "openat2_regular sys root (map Normal ws)")
      case (Opened fd')
      then have "sc_openat2 sys root (map Normal ws) = Inr fd'"
        by (auto simp: openat2_regular_def split: if_splits sum.splits)
      with assms have "descends entry (node root) ws (node fd')" unfolding opens_beneath_def by blast
      with fd Opened ensure_regular_ok [of sys fd' fd] show ?thesis by (auto simp: open_regular_unix_def names)
    next
      case Unavailable
      then obtain root' where "sc_dup sys root = Inr root'" "open_by_descriptor_walk sys root' ws = Ok fd"
        using fd by (auto simp: open_regular_unix_def names split: sum.splits)
      with descriptor_walk_descends [OF assms _ root(2)] assms show ?thesis
        unfolding opens_beneath_def by metis
    qed (use fd in \<open>simp add: open_regular_unix_def names\<close>)
    ultimately show ?thesis using eq root ws(2) * by auto
  qed
qed

definition demo_sys :: "string list sys_calls" where
  "demo_sys = \<lparr> sc_openat2 = (\<lambda>_ _. Inl 38), sc_openat = (\<lambda>fd w _. Inr (fd @ [w])),
     sc_is_file = (\<lambda>fd. Inr (length fd = 2)), sc_dup = Inr \<rparr>"

definition demo_strict_vfs :: "string list virtual_fs" where
  "demo_strict_vfs = from_game_paths demo_fs (\<lambda>_. Some []) (demo_paths ''chess'' 7)"

theorem strict_read_stays_below_root_witness:
  "open_regular_for_read demo_sys demo_strict_vfs ''/code/js/./main.js'' = Ok [''js'', ''main.js''] \<and>
   (\<exists>m \<in> set (vf_mappings demo_strict_vfs). pm_strict_root m = Some [] \<and>
      mapping_matches ''/code/js/./main.js'' m)"
proof -
  have "open_regular_for_read demo_sys demo_strict_vfs ''/code/js/./main.js'' = Ok [''js'', ''main.js'']" by code_simp
  moreover have "opens_beneath demo_sys (\<lambda>fd. fd) (\<lambda>n w n'. n' = n @ [w])"
    by (simp add: opens_beneath_def demo_sys_def)
  moreover have "pm_strict_root m = Some []" if "m \<in> set (vf_mappings demo_strict_vfs)" for m
    using that by (auto simp: demo_strict_vfs_def from_game_paths_def with_policy_def make_mapping_def)
  ultimately show ?thesis
    using strict_read_stays_below_root [of demo_sys "\<lambda>fd. fd" "\<lambda>n w n'. n' = n @ [w]" demo_strict_vfs "''/code/js/./main.js''"]
    by blast
qed

section \<open>A dangling link is not seen\<close>

text \<open>
  \<open>Path::exists\<close> follows links, so a link whose target does not exist is "not there":
  neither the containment check nor the link check of its chain looks at it.
\<close>

definition dangling_fs :: file_system where
  "dangling_fs = \<lparr> fs_exists = (\<lambda>p. p \<in> set [[RootDir], [RootDir, Normal ''u'']]),
     fs_canonicalize = (\<lambda>p. if p \<in> set [[RootDir], [RootDir, Normal ''u'']] then Some p else None),
     fs_is_symlink = (\<lambda>p. Some (p = [RootDir, Normal ''u'', Normal ''link''])) \<rparr>"

text \<open>
  Under the policy that denies links in writable directories, \<open>/user/link\<close> still
  resolves for creation when \<open>link\<close> is a symbolic link to a file that does not exist
  yet, wherever it points.
\<close>

lemma dangling_link_resolves:
  "should_deny_symlinks policy_default (make_mapping dangling_fs (\<lambda>_. Some ()) ''/user'' [RootDir, Normal ''u''] READ_WRITE) \<and>
   fs_is_symlink dangling_fs [RootDir, Normal ''u'', Normal ''link''] = Some True \<and>
   resolve dangling_fs (with_policy dangling_fs (\<lambda>_. Some ()) [RootDir, Normal ''c''] [RootDir, Normal ''u'']
     [RootDir, Normal ''k''] [RootDir, Normal ''t''] policy_default) ''/user/link'' OpCreate =
     Inr [RootDir, Normal ''u'', Normal ''link'']"
  by code_simp

end
