(* ===== verification/Frame_Pacing.thy ===== *)
theory Frame_Pacing
  imports Prelude
begin

text \<open>
  The engine-paced frame clock and the decisions that arm it
  (\<open>graphics/src/frame_scheduler.rs\<close>, \<open>shared/src/frame_rate.rs\<close>). Instants and
  durations are natural numbers of nanoseconds.
\<close>

section \<open>Rates\<close>

abbreviation (input) MIN_FPS :: u32 where "MIN_FPS \<equiv> 1"
abbreviation (input) MAX_FPS :: u32 where "MAX_FPS \<equiv> 240"
abbreviation (input) DEFAULT_FPS :: u32 where "DEFAULT_FPS \<equiv> 60"

definition clamp_fps :: "u32 \<Rightarrow> u32" where
  "clamp_fps fps = max MIN_FPS (min fps MAX_FPS)"

lemma clamp_fps_range: "1 \<le> unat (clamp_fps fps) \<and> unat (clamp_fps fps) \<le> 240"
proof -
  have "1 \<le> clamp_fps fps" "clamp_fps fps \<le> 240" by (auto simp: clamp_fps_def)
  then show ?thesis by (simp add: word_le_nat_alt)
qed

section \<open>Demand\<close>

definition raf_demand_remains :: "bool \<Rightarrow> bool \<Rightarrow> bool \<Rightarrow> bool \<Rightarrow> bool" where
  "raf_demand_remains waiter_pending dirty upload_work recovery_pending \<longleftrightarrow>
     waiter_pending \<or> dirty \<or> upload_work \<or> recovery_pending"

definition should_arm_one_shot :: "bool \<Rightarrow> bool \<Rightarrow> bool \<Rightarrow> bool \<Rightarrow> bool \<Rightarrow> bool \<Rightarrow> bool" where
  "should_arm_one_shot has_vsync arm_available paused can_present demand_remains already_armed \<longleftrightarrow>
     has_vsync \<and> arm_available \<and> \<not> paused \<and> can_present \<and> demand_remains \<and> \<not> already_armed"

definition outstanding_upload_work :: "nat \<Rightarrow> nat \<Rightarrow> u32 \<Rightarrow> bool" where
  "outstanding_upload_work pending deferred in_flight \<longleftrightarrow> pending > 0 \<or> deferred > 0 \<or> in_flight > 0"

definition should_arm_engine_paced :: "bool \<Rightarrow> bool \<Rightarrow> bool" where
  "should_arm_engine_paced paused demand_remains \<longleftrightarrow> \<not> paused \<and> demand_remains"

section \<open>The engine-paced clock\<close>

record software_frame_clock =
  sc_interval :: nat
  sc_armed_at :: "nat option"
  sc_earliest_next :: "nat option"

definition interval_for :: "u32 \<Rightarrow> nat" where
  "interval_for fps = 1000000000 div unat (clamp_fps fps)"

definition frame_clock_new :: "u32 \<Rightarrow> software_frame_clock" where
  "frame_clock_new fps = \<lparr> sc_interval = interval_for fps, sc_armed_at = None, sc_earliest_next = None \<rparr>"

definition set_fps :: "software_frame_clock \<Rightarrow> u32 \<Rightarrow> software_frame_clock" where
  "set_fps c fps = c\<lparr> sc_interval := interval_for fps \<rparr>"

definition arm :: "software_frame_clock \<Rightarrow> nat \<Rightarrow> software_frame_clock" where
  "arm c now =
     (if sc_armed_at c \<noteq> None then c
      else let at = (case sc_earliest_next c of
             Some slot \<Rightarrow> if slot > now then slot else now
           | None \<Rightarrow> now)
        in c\<lparr> sc_earliest_next := Some at, sc_armed_at := Some at \<rparr>)"

definition stop :: "software_frame_clock \<Rightarrow> software_frame_clock" where
  "stop c = c\<lparr> sc_armed_at := None \<rparr>"

definition deadline :: "software_frame_clock \<Rightarrow> nat option" where
  "deadline c = sc_armed_at c"

text \<open>
  \<open>saturating_duration_since\<close> is truncated subtraction; the remainder is below one
  second, so its cast to 64 bits is exact.
\<close>

definition on_frame_ran :: "software_frame_clock \<Rightarrow> nat \<Rightarrow> software_frame_clock" where
  "on_frame_ran c ran_at =
     (let slot = (case sc_earliest_next c of None \<Rightarrow> ran_at | Some s \<Rightarrow> s);
          into_slot = (ran_at - slot) mod sc_interval c
      in c\<lparr> sc_armed_at := None, sc_earliest_next := Some (ran_at + sc_interval c - into_slot) \<rparr>)"

lemma interval_range: "4166666 \<le> interval_for fps \<and> interval_for fps \<le> 1000000000"
proof -
  have c: "1 \<le> unat (clamp_fps fps)" "unat (clamp_fps fps) \<le> 240" using clamp_fps_range by auto
  have "1000000000 div 240 \<le> interval_for fps" unfolding interval_for_def using c by (intro div_le_mono2) auto
  moreover have "interval_for fps \<le> 1000000000" by (simp add: interval_for_def)
  ultimately show ?thesis by simp
qed

section \<open>Runs of the clock\<close>

text \<open>
  The render loop: demand arms the clock, a pause stops it, a rate change adjusts it,
  and a frame runs only when the clock is armed and its deadline has passed. Time
  does not go backwards. The trace keeps the deadline, the time and the interval of
  every frame.
\<close>

datatype clock_event = Demand | Pause | Rate u32 | Wakeup

record clock_run =
  cr_clock :: software_frame_clock
  cr_now :: nat
  cr_frames :: "(nat \<times> nat \<times> nat) list"

definition clock_step :: "clock_run \<Rightarrow> nat \<times> clock_event \<Rightarrow> clock_run" where
  "clock_step r = (\<lambda>(elapsed, ev).
     let now = cr_now r + elapsed; c = cr_clock r in
     case ev of
       Demand \<Rightarrow> r\<lparr> cr_clock := arm c now, cr_now := now \<rparr>
     | Pause \<Rightarrow> r\<lparr> cr_clock := stop c, cr_now := now \<rparr>
     | Rate fps \<Rightarrow> r\<lparr> cr_clock := set_fps c fps, cr_now := now \<rparr>
     | Wakeup \<Rightarrow> (case deadline c of
         None \<Rightarrow> r\<lparr> cr_now := now \<rparr>
       | Some d \<Rightarrow>
           if d \<le> now
           then r\<lparr> cr_clock := on_frame_ran c now, cr_now := now, cr_frames := cr_frames r @ [(d, now, sc_interval c)] \<rparr>
           else r\<lparr> cr_now := now \<rparr>))"

definition clock_start :: "u32 \<Rightarrow> clock_run" where
  "clock_start fps = \<lparr> cr_clock = frame_clock_new fps, cr_now = 0, cr_frames = [] \<rparr>"

definition clock_runs :: "u32 \<Rightarrow> (nat \<times> clock_event) list \<Rightarrow> clock_run" where
  "clock_runs fps evs = foldl clock_step (clock_start fps) evs"

text \<open>Consecutive frames are apart by the interval in force when the earlier one ran.\<close>

fun well_paced :: "(nat \<times> nat \<times> nat) list \<Rightarrow> bool" where
  "well_paced ((d, t, i) # (d', t', i') # fs) \<longleftrightarrow> d \<le> t \<and> t < d' \<and> d + i \<le> d' \<and> well_paced ((d', t', i') # fs)"
| "well_paced [(d, t, i)] \<longleftrightarrow> d \<le> t"
| "well_paced [] \<longleftrightarrow> True"

lemma next_slot:
  fixes i :: nat
  assumes "0 < i" "slot \<le> t"
  shows "t < t + i - (t - slot) mod i \<and> slot + i \<le> t + i - (t - slot) mod i \<and> t + i - (t - slot) mod i \<le> t + i \<and>
    (\<exists>k. t + i - (t - slot) mod i = slot + Suc k * i)"
proof -
  let ?q = "(t - slot) div i" and ?r = "(t - slot) mod i"
  have r: "?r < i" using assms(1) by simp
  have "t - slot = ?q * i + ?r" by simp
  then have "t = slot + (?q * i + ?r)" using assms(2) by linarith
  then have "t + i - ?r = slot + (i + ?q * i)" by linarith
  then have e: "t + i - ?r = slot + Suc ?q * i" by (simp only: mult_Suc)
  then have "slot + i \<le> t + i - ?r" by simp
  with r e show ?thesis by (auto intro!: exI [of _ ?q] simp del: mult_Suc)
qed

definition pacing_inv :: "clock_run \<Rightarrow> bool" where
  "pacing_inv r \<longleftrightarrow> well_paced (cr_frames r) \<and> 0 < sc_interval (cr_clock r) \<and>
     (sc_armed_at (cr_clock r) \<noteq> None \<longrightarrow> sc_earliest_next (cr_clock r) = sc_armed_at (cr_clock r)) \<and>
     (cr_frames r \<noteq> [] \<longrightarrow> (\<exists>s. sc_earliest_next (cr_clock r) = Some s \<and>
        (case last (cr_frames r) of (d, t, i) \<Rightarrow> t < s \<and> d + i \<le> s)))"

lemma well_paced_snoc:
  "well_paced (fs @ [(d, t, i)]) \<longleftrightarrow> well_paced fs \<and> d \<le> t \<and>
     (fs = [] \<or> (case last fs of (d0, t0, i0) \<Rightarrow> t0 < d \<and> d0 + i0 \<le> d))"
proof (induction fs rule: well_paced.induct)
  case (1 d0 t0 i0 d1 t1 i1 fs)
  then show ?case by auto
next
  case (2 d0 t0 i0)
  then show ?case by auto
qed simp

lemma pacing_inv_step:
  assumes "pacing_inv r"
  shows "pacing_inv (clock_step r e)"
proof -
  obtain elapsed ev where e: "e = (elapsed, ev)" by (cases e)
  let ?c = "cr_clock r" and ?now = "cr_now r + elapsed"
  show ?thesis
  proof (cases ev)
    case Demand
    show ?thesis
    proof (cases "sc_armed_at ?c")
      case None
      with assms show ?thesis
        by (auto simp: e Demand clock_step_def Let_def arm_def pacing_inv_def split: option.splits)
    qed (use assms in \<open>auto simp: e Demand clock_step_def Let_def arm_def pacing_inv_def\<close>)
  next
    case Pause
    with assms show ?thesis by (simp add: e clock_step_def Let_def stop_def pacing_inv_def)
  next
    case (Rate fps)
    with assms interval_range [of fps] show ?thesis by (simp add: e clock_step_def Let_def set_fps_def pacing_inv_def)
  next
    case Wakeup
    show ?thesis
    proof (cases "\<exists>d. sc_armed_at ?c = Some d \<and> d \<le> ?now")
      case True
      then obtain d where d: "sc_armed_at ?c = Some d" "d \<le> ?now" by blast
      have s: "sc_earliest_next ?c = Some d" using assms d by (simp add: pacing_inv_def)
      have i: "0 < sc_interval ?c" using assms by (simp add: pacing_inv_def)
      have "well_paced (cr_frames r @ [(d, ?now, sc_interval ?c)])"
        using assms d s by (auto simp: pacing_inv_def well_paced_snoc)
      with next_slot [OF i d(2)] d s i show ?thesis
        by (simp add: e Wakeup clock_step_def Let_def deadline_def on_frame_ran_def pacing_inv_def)
    next
      case False
      with assms show ?thesis
        by (auto simp: e Wakeup clock_step_def Let_def deadline_def pacing_inv_def split: option.splits)
    qed
  qed
qed

lemma pacing_inv_runs: "pacing_inv (clock_runs fps evs)"
proof (induction evs rule: rev_induct)
  case Nil
  show ?case using interval_range [of fps] by (simp add: clock_runs_def clock_start_def frame_clock_new_def pacing_inv_def)
next
  case (snoc e evs)
  with pacing_inv_step show ?case by (simp add: clock_runs_def)
qed

text \<open>
  C39. However demand, pauses and rate changes interleave, the engine-paced clock
  never runs ahead of its pace: every frame runs at or after its deadline, the next
  frame's deadline lies strictly after it, and the deadlines of consecutive frames
  are at least the interval apart that was in force when the earlier one ran, which
  is never below 1/240 s.
\<close>

theorem frame_clock_keeps_pace:
  "well_paced (cr_frames (clock_runs fps evs)) \<and> 4166666 \<le> sc_interval (cr_clock (clock_runs fps evs))"
proof -
  have "4166666 \<le> sc_interval (cr_clock (clock_runs fps evs))"
  proof (induction evs rule: rev_induct)
    case Nil
    then show ?case using interval_range [of fps] by (simp add: clock_runs_def clock_start_def frame_clock_new_def)
  next
    case (snoc e evs)
    obtain elapsed ev where e: "e = (elapsed, ev)" by (cases e)
    show ?case
      using snoc interval_range
      by (cases ev) (auto simp: clock_runs_def e clock_step_def Let_def arm_def stop_def set_fps_def on_frame_ran_def split: option.splits)
  qed
  with pacing_inv_runs [of fps evs] show ?thesis by (simp add: pacing_inv_def)
qed

text \<open>
  A late frame owes exactly one frame and lateness never becomes drift: a frame
  that ran any time after its slot leaves the clock idle, with the next slot on the
  same grid, the first one strictly after the frame, at most one interval away; and
  demand inside that slot waits for it.
\<close>

lemma late_frame_keeps_the_grid:
  assumes "0 < sc_interval c" "sc_armed_at c = Some slot" "sc_earliest_next c = Some slot" "slot \<le> ran_at"
  shows "deadline (on_frame_ran c ran_at) = None \<and>
    (\<exists>k s. sc_earliest_next (on_frame_ran c ran_at) = Some s \<and> s = slot + Suc k * sc_interval c \<and>
       ran_at < s \<and> s \<le> ran_at + sc_interval c \<and>
       (\<forall>now < s. deadline (arm (on_frame_ran c ran_at) now) = Some s))"
  using next_slot [OF assms(1,4)] assms(3)
  by (auto simp: on_frame_ran_def deadline_def Let_def arm_def)

lemma late_frame_keeps_the_grid_witness:
  "sc_earliest_next (on_frame_ran (arm (frame_clock_new 100) 7) 25000007) = Some 30000007 \<and>
   deadline (on_frame_ran (arm (frame_clock_new 100) 7) 25000007) = None"
proof -
  have "unat (clamp_fps 100) = 100" by (simp add: clamp_fps_def max_def min_def)
  then have c: "arm (frame_clock_new 100) 7 = \<lparr> sc_interval = 10000000, sc_armed_at = Some 7, sc_earliest_next = Some 7 \<rparr>"
    by (simp add: arm_def frame_clock_new_def interval_for_def)
  have "sc_earliest_next (on_frame_ran (arm (frame_clock_new 100) 7) 25000007) = Some 30000007"
    by (simp add: c on_frame_ran_def)
  with late_frame_keeps_the_grid [of "arm (frame_clock_new 100) 7" 7 25000007] show ?thesis by (simp add: c)
qed

end
