(* ===== verification/Spec2Isabelle.thy ===== *)
theory Spec2Isabelle
  imports Atlas Image_Cache Host_Channel Surface_Binding Surface_Session Permission_Gate Ktx2 Etc2 Abi Decoded_Phases Presentation Gl_Transparency Vfs Frame_Pacing
begin

text \<open>
  Verification of the Migo engine: the lane that brings a game's frames from another
  process to the renderer, what the renderer does to put them on the screen, the host's
  control over sessions and their windows, the sandbox a game runs in, and the texture
  files it is given.

  \<^bold>\<open>The program.\<close> On platforms where a game's code runs in another process, that
  process sends the engine one packet of drawing work per frame. A packet is an
  untrusted byte sequence; the engine validates it, matches it against the session it
  claims to belong to, admits it against a window of two credits, copies it, decodes
  its command stream in two passes and hands the renderer a list of batches. Beside
  the frames run a synchronous mailbox, an upload protocol for resources, and the
  demand-driven frame clock, all of them under the C interface. The render thread
  executes a packet in two phases where that is safe, accounts for the GPU memory the
  game's textures take, skips WebGL calls that would not change the driver's state,
  records which pixels a frame damaged, and presents by
  repairing only the part of the back buffer that is out of date. The host application
  sends a session its commands through a bounded queue and lends it a native window,
  which it may take back at any moment; a window is handed back once no thread can
  still draw to it. The game's files are
  reached through virtual paths, which the engine maps to a few directories of its own,
  and what a user may revoke is asked for at a gate. Images are stored as compressed
  textures in a container format, decoded images are kept in a cache that all sessions
  share, and small ones can be packed on the pages of an atlas.

  \<^bold>\<open>The theories\<close>, bottom up, with the sources under \<open>src/engine/crates\<close>.

  Shared:

  \<^item> \<open>Prelude\<close>: results of fallible code (a panic is \<open>None\<close>, an error \<open>Some (Inl e)\<close>),
    indexing and slicing that can fail, checked and saturating arithmetic, and the
    little-endian codec as a locale interpreted for 4, 8 and 16 bytes. \<open>Vectors\<close> holds
    the vector operation that the buffer pool and the canvas table share.

  The lane from a producer to the renderer:

  \<^item> \<open>Wire_Packet\<close> (\<open>frame-wire/src/lib.rs\<close>): constants, the header table, the error
    codes, the readers, \<open>validate\<close> in the stages of the source, the accessors of an
    accepted frame. The hash function is a parameter: a running state, an update and a
    finish, of which nothing is assumed.
  \<^item> \<open>Wire_Builder\<close> (\<open>frame-wire/src/builder.rs\<close>): the builder, the canonical encoding,
    and the two directions of the round trip with \<open>validate\<close>.
  \<^item> \<open>Stream_Tables\<close>, \<open>Stream\<close> (\<open>frame-wire/src/gl.rs\<close>, \<open>canvas2d.rs\<close>, \<open>stream.rs\<close>): the
    opcode tables and pass one, with the record grammar it recognises.
  \<^item> \<open>Render_Commands\<close> (\<open>shared/src/protocol/frame_packet.rs\<close> and \<open>render_cmd.rs\<close>): the
    commands, the frame operations and the packet builder. Floating-point values are
    kept as the bits they arrive in.
  \<^item> \<open>Decode_Validate\<close>, \<open>Decode_GL\<close>, \<open>Decode_Canvas2D\<close>, \<open>Decode_Stream\<close>
    (\<open>frame-decode/src\<close>): the WebGL argument checks, pass two for each opcode, and the
    mixed decoder with its batching and the materialize barrier. The traits are
    locales: \<open>gl_decode_context\<close> and \<open>render_sink\<close>.
  \<^item> \<open>Pool\<close> (\<open>frame-wire/src/pool.rs\<close>): the credit window, as functions and as a step
    relation of threads in their compare-and-swap loops, the buffer pool and the
    pooled frame. The allocator is a parameter that gives at least what was asked for.
  \<^item> \<open>Ingress\<close> (\<open>frame-wire/src/ingress.rs\<close>): the admission decision and the host's
    timelines, with a step relation for a running ingress.
  \<^item> \<open>Resource\<close> (\<open>frame-wire/src/resource.rs\<close>) and \<open>Sync\<close> (\<open>frame-wire/src/sync.rs\<close>): the
    upload table and the mailbox, each with all its operations and their runs.
  \<^item> \<open>External_Session\<close> (\<open>core/src/runtime/external.rs\<close>): the submit path from bytes to
    the render queue, the WebGL error queues, and what the session thread does to the
    same state. Whether the render queue takes a packet is a parameter of each
    submission, since it depends on the scheduling of the renderer.
  \<^item> \<open>Frame_Clock\<close> (\<open>shared/src/raf_signal.rs\<close>, the clock of \<open>external.rs\<close>): the demand
    latch, the two-frame channel and the clock.
  \<^item> \<open>Abi\<close> (\<open>capi-abi/src/header.rs\<close>, \<open>capi-abi/src/external_frames.rs\<close>,
    \<open>capi/src/external_frames.rs\<close>): versioned records, outcome records, entry points;
    \<open>Abi_Codes\<close> (\<open>capi-abi/src/lib.rs\<close>) has the result codes.

  The render thread:

  \<^item> \<open>Frame_Phases\<close> (\<open>graphics/src/render_thread.rs\<close>, \<open>touches_canvas\<close> of
    \<open>render_cmd.rs\<close>): the admission test for running a packet in two phases and the
    phased run itself, over an executor that is a parameter; the locale
    \<open>frame_executor\<close> says which operations do not interfere. \<open>Decoded_Phases\<close> composes
    it with the decoder.
  \<^item> \<open>Damage\<close> (\<open>graphics/src/damage_effect.rs\<close>, \<open>damage_tracker.rs\<close>, the classifiers of
    \<open>renderergl/handler.rs\<close>): the pixels a command can change, the accumulator of a
    frame and the tracker that turns it into rectangles. Plain \<open>i32\<close> sums are modelled
    in both builds: they panic in a checked one and wrap in the other.
  \<^item> \<open>Present_Damage\<close> (\<open>graphics/src/present_damage.rs\<close>): rectangles, regions and their
    union, the history of presented regions, the repair region of a buffer age, the
    presentation plan and the blit plan.
  \<^item> \<open>Presentation\<close> (\<open>graphics/src/canvas/manager/mod.rs\<close>, \<open>drawing_buffer.rs\<close>): declaring
    and swapping a frame, with the driver's calls as a record of answers, and the
    pictures the drawing buffer and the window's buffers hold.
  \<^item> \<open>Gpu_Budget\<close> (\<open>graphics/src/webgl_gpu_budget.rs\<close>): the accounts of texture and
    renderbuffer memory, the validators of sizes and formats, and the two-step
    transaction of preparing and committing an allocation around a driver call. The
    other budgets of the process are steps that move the shared account.
  \<^item> \<open>Canvas_Keyed\<close> (\<open>graphics/src/canvas_keyed.rs\<close>): the table with a memo of the last
    lookup that holds the renderer's state per canvas.
  \<^item> \<open>Frame_Pacing\<close> (\<open>graphics/src/frame_scheduler.rs\<close>, \<open>shared/src/frame_rate.rs\<close>): the
    clock that paces frames where the platform gives no vertical sync, and the
    decisions when a frame is armed. Instants are nanoseconds.

  \<^item> \<open>Gl_Shadow\<close>, \<open>State_Tracker\<close> (\<open>graphics/src/backend/gl/state_tracker.rs\<close>,
    \<open>uniform_cache.rs\<close>, \<open>canvas/manager/types.rs\<close>, \<open>renderergl/handler.rs\<close>): the shadow of the driver's state and the
    commands that consult it. \<open>Gl_Driver\<close> is the state of the driver that those calls
    change, and \<open>Gl_Transparency\<close> compares a run that skips calls with one that makes
    them all.

  Host and windows:

  \<^item> \<open>Host_Channel\<close> (\<open>shared/src/host_channel.rs\<close>): the queue of host commands, with its
    replaceable, reliable and critical sends.
  \<^item> \<open>Surface_Control\<close> (\<open>shared/src/surface/attachment.rs\<close>, \<open>control.rs\<close>): the gate that
    issues generations of a surface, and the control calls as programs of atomic turns
    that threads interleave. \<open>Surface_Release\<close> holds the table of surfaces waiting to be
    released and the leases on them.
  \<^item> \<open>Surface_Binding\<close> (\<open>graphics/src/surface_binding.rs\<close>, \<open>render_thread.rs\<close>): what the
    render thread owns of a surface, together with the control calls that race with it.
  \<^item> \<open>Surface_Session\<close> (\<open>capi/src/surface.rs\<close>): attach, update, detach and destroy of a C
    session, split where they release the session's lock.

  The sandbox:

  \<^item> \<open>Vfs\<close> (\<open>shared/src/vfs/mod.rs\<close>, \<open>game_paths.rs\<close>, \<open>unix.rs\<close>): virtual paths, the
    mappings and their permissions, containment and link checks, the directories of a
    game, and the strict reads by descriptor. The file system and the system calls are
    parameters; what a strict read relies on (a lookup without links or \<open>..\<close> yields an
    entry of the directory) is a named hypothesis.

  \<^item> \<open>Permission_Gate\<close> (\<open>platform/src/android_permission_gate.rs\<close>): opening, updating and
    clearing the permissions of a session, and the operations that run under them, split
    at their lock regions and interleaved.

  Textures:

  \<^item> \<open>Ktx2\<close> (\<open>io/src/ktx2.rs\<close>): the parser and the writers of the texture container.
  \<^item> \<open>Etc2\<close> (\<open>io/src/etc2.rs\<close>): the encoder of colour and alpha blocks and of images, with a
    decoder of the block format as its specification.
  \<^item> \<open>Sketch\<close> (\<open>io/src/count_min_sketch.rs\<close>): the frequency sketch of the cache, over a hash
    function of which nothing is assumed.
  \<^item> \<open>Image_Cache\<close> (\<open>io/src/image_cache.rs\<close>): the cache with its admission filter, pins and
    claims of sessions. The third-party LRU list is a record of operations, and \<open>lru_ok\<close>
    what its documentation says of them.
  \<^item> \<open>Atlas\<close> (\<open>graphics/src/atlas\<close>): the shelf packer and the manager that uploads images.

  This theory holds the properties that span the lane from end to end.

  \<^bold>\<open>What the lemmas show.\<close> No stage panics on any input. The validator accepts exactly
  the canonical encodings, so the round trip holds in both directions and an accepted
  packet has one reading. Pass one accepts exactly the record grammar; pass two draws
  exactly what the records issue, in order, with every 2D canvas materialized before
  WebGL draws over it, and the two-phase run of the decoded packet cannot be told from
  the issue order. Credits are conserved under any interleaving: those in use are
  the frames somebody holds, at most two. Legality never depends on load. The
  timelines only advance, and a lost context or a new session leaves no stale frame
  acceptable. A resource can be named only after its declared bytes arrived in order
  and were verified. A waiter in the mailbox is always released. The C boundary never
  refuses an answer of the engine.

  Damage is never under-reported for edges in the safe range, the history refines a
  list, and presenting by partial repair leaves the same picture as a full copy,
  whatever failed before. The memory accounts are exact under every sequence of
  operations and never exceed their limits. The canvas table refines a map. The
  engine-paced clock never runs ahead of its rate. Skipping redundant WebGL calls leaves
  the driver in the state that making them all would, and the damage computed from the
  shadow covers what the driver draws.

  Host commands arrive in the order they were sent, and only states that may be replaced
  are. Under every interleaving of host, render thread and loss reports, a surface has
  one owner, draws only while its generation is live, and is released once it is
  retired; a destroyed session holds none. A resolved path stays in its
  mapping's directory, two games never reach the same file, a game never reaches the
  runtime's records, and strict reads follow no links. No operation runs under a
  permission whose revocation has begun to tear down what it uses, and the gate never
  deadlocks.

  A parsed texture hands out only bytes of its own levels, the writer is the parser's
  inverse, and the encoder's colour block has the least error of its mode. The cache's
  pins and byte counts are exact whatever is evicted, and an image in use stays unless the
  entry limit forces it out; the sketch never counts too little; images in the atlas do
  not overlap and keep their bytes.

  Some lemmas state where the code falls short of what it means to do: damage is lost
  when coordinates overflow, the admission test for phases ignores the canvas a WebGL
  upload reads, a dangling link passes the link check, and a rejected output record
  does not keep the frame from being submitted. The shadow state misses damage of a
  scissored draw after external use and a buffer name that is used again; a shutdown
  that races with an attach can leave a live generation under release-acquire ordering;
  an attach without a launch nonce strands the session's transition; a revocation
  waits for operations that do not use its scope; the entry limit of the image cache drops
  pinned images; and the atlas panics when the driver cannot create a texture.

  \<^bold>\<open>Bounds.\<close> Machine integers are words of their width, or integers with the range and
  the wrap-around written out. The loops over sections and
  records recurse on the number of sections or, for records, as partial functions whose
  totality on validated input is proved; the walk towards the root of a path ends
  because the path gets shorter; no fuel is used. Counters that would have to
  overflow \<open>2 ^ 64\<close> to go wrong have that as an explicit condition: accepted sequence
  numbers, context losses and session tickets.

  \<^bold>\<open>Not modelled.\<close> Threads are interleavings of atomic turns where the code is concurrent
  on purpose (the credit window, surface control, binding and session, the permission
  gate); elsewhere channels and locks appear as orders of whole operations. Memory
  orderings weaker than sequential consistency are modelled for the shutdown of a
  surface only. Of the render thread, the execution of single commands
  through OpenGL and Skia is a parameter; the decimation of vertical sync is
  floating-point arithmetic on a running average and is left out. Of the file system,
  mounting packages, checking their integrity and the Windows lookup are left out.
  Audio, the script runtimes, the
  embedded-runtime lane and the platform bindings other than the permission gate are
  outside. The
  session thread's commands to the render and audio services (pause, resume, surface
  update) leave the state modelled here alone and are not followed. SHA-256 digests
  are compared, not computed, as in the source.
\<close>

section \<open>From a producer to the renderer\<close>

text \<open>
  C1. From end to end: a producer that follows the protocol is served. Let it build a
  packet with the session's identity, timelines and next sequence number, whose command
  stream is the encoding of a list of records. If the renderer is up and its queue
  takes packets, and a credit is left, then building succeeds, the session accepts the
  bytes, and the packet sent to the renderer draws exactly the commands the producer's
  records issue, in their order, between a begin and a present and with the
  materialize barrier kept. No byte of the drawing is lost or reinterpreted on the way.
\<close>

theorem producer_frame_reaches_renderer:
  assumes "session_inv H sp" and "vec_model_ok M" and "sp_dispatch sp \<noteq> None" and "\<And>p. takes p"
    and "cw_in_flight (fi_credits (sp_ingress sp)) < cw_max (fi_credits (sp_ingress sp))"
    and "packet_wf b" and "b_extra_gap b = 0" and "b_pad_fill b = 0" and "b_trailing_bytes b = 0"
    and "b_launch_nonce b = fi_launch_nonce (sp_ingress sp)"
    and "b_runtime_generation b = fi_runtime_generation (sp_ingress sp)"
    and "fi_surface_generation (sp_ingress sp) = 0 \<or> b_surface_generation b = fi_surface_generation (sp_ingress sp)"
    and "b_resource_epoch b = fi_resource_epoch (sp_ingress sp)"
    and "fi_resources_ready (sp_ingress sp) \<or> SECTION_KIND_RESOURCE_REFERENCES \<notin> set (map sec_kind (b_sections b))"
    and "b_sequence b = saturating_add (fi_last_accepted_sequence (sp_ingress sp)) 1"
    and "packet_length b \<le> unat (fi_max_packet_bytes (sp_ingress sp))"
    and "find (\<lambda>s. sec_kind s = SECTION_KIND_COMMAND_STREAM) (b_sections b) = Some s"
    and "sec_bytes s = stream_bytes (stream_of rs)" and "list_all record_ok rs" and "length (stream_of rs) \<le> 8192"
  shows "\<exists>bs sp' out ops. build H b = Some bs \<and> submit_frame H M S takes sp bs = Some (sp', out) \<and>
     io_decision out = Accepted \<and> io_accepted_sequence out = b_sequence b \<and>
     sent sp' = sent sp @ [\<lparr>fp_frame_id = ucast (b_frame_id b), fp_raf_time_ms = F64 0,
                            fp_ops = BeginFrame # ops @ [Present]\<rparr>] \<and>
     concat (map drawn ops) = issued_commands (\<lambda>_. False) None rs \<and> barrier [] ops = Some []"
proof -
  have built: "build H b = Some (canonical H b)"
    using assms(6-9) by (intro build_canonical) (simp_all add: packet_wf_def)
  obtain w where w: "legal H (sp_ingress sp) (canonical H b) w" "stream_words w = chunk_words (sec_bytes s)"
      "wf_frame_id w = b_frame_id b"
    using built_legal [OF assms(6,10-17)] .
  have carried: "carries w rs"
    unfolding carries_def w(2) assms(18) chunk_words_stream_bytes using assms(19,20) by blast
  show ?thesis
    using assms(1,2)
  proof (cases rule: submit_frame_cases [where S = S and takes = takes and bytes = "canonical H b"])
    case (away out)
    then show ?thesis using w(1) assms(5) by blast
  next
    case (dropped w' sp' code)
    have "w' = w" using dropped(1) w(1) by (simp add: legal_def)
    then show ?thesis using dropped(4) assms(3,4) carried by blast
  next
    case (rendered w' sp' f rs' ops)
    have w': "w' = w" using rendered(1) w(1) by (simp add: legal_def)
    have rs': "rs' = rs"
    proof (rule records_unique)
      show "list_all record_ok rs'" "list_all record_ok rs"
        using rendered(2) carried by (simp_all only: carries_def)
      have "stream_of rs' = stream_of rs"
        using rendered(2) carried unfolding w' carries_def by metis
      then show "concat rs' = concat rs" by (simp add: stream_of_def)
    qed
    have seq: "wf_sequence w = b_sequence b" using w(1) assms(15) by (simp add: legal_def)
    show ?thesis
      using built rendered(4,6,9,10) w(3) seq unfolding w' rs' frame_packet_of_def by auto
  qed
qed

theorem producer_frame_reaches_renderer_witness:
  "\<exists>bs sp' out ops. build crc32_hasher demo_frame = Some bs \<and>
     submit_frame crc32_hasher exact_vec demo_sizes (\<lambda>_. True) (publish_dispatch (spawn_submit_path 0)) bs = Some (sp', out) \<and>
     io_decision out = Accepted \<and>
     concat (map drawn ops) =
       [Issued2D 7 (FillRect (F32 0) (F32 0) (F32 0x42C80000) (F32 0x42C80000)), IssuedGL (Clear 7 0x4000)]"
proof -
  let ?sp = "publish_dispatch (spawn_submit_path 0)"
  have fi: "sp_ingress ?sp = frame_ingress_new 0 1" and up: "sp_dispatch ?sp \<noteq> None"
    by (simp_all add: publish_dispatch_def spawn_submit_path_def)
  have b: "b_sections demo_frame = [\<lparr>sec_kind = SECTION_KIND_COMMAND_STREAM, sec_item_count = 12,
        sec_bytes = stream_bytes (stream_of demo_records)\<rparr>]"
      "b_extra_gap demo_frame = 0" "b_pad_fill demo_frame = 0" "b_trailing_bytes demo_frame = 0"
      "b_launch_nonce demo_frame = 0" "b_runtime_generation demo_frame = 1" "b_surface_generation demo_frame = 0"
      "b_resource_epoch demo_frame = 0" "b_sequence demo_frame = 1"
    by (simp_all add: demo_frame_def builder_section_def builder_new_def)
  have len: "length (stream_of demo_records) = 12"
    by (simp add: stream_of_def demo_records_def)
  have size: "packet_length demo_frame \<le> 4194304"
    using demo_frame_wf by (simp add: packet_wf_def)
  have new: "fi_launch_nonce (frame_ingress_new 0 1) = 0" "fi_runtime_generation (frame_ingress_new 0 1) = 1"
      "fi_surface_generation (frame_ingress_new 0 1) = 0" "fi_resource_epoch (frame_ingress_new 0 1) = 0"
      "fi_last_accepted_sequence (frame_ingress_new 0 1) = 0" "fi_max_packet_bytes (frame_ingress_new 0 1) = MAX_TOTAL_BYTES"
      "cw_in_flight (fi_credits (frame_ingress_new 0 1)) = 0" "cw_max (fi_credits (frame_ingress_new 0 1)) = 2"
    by (simp_all add: frame_ingress_new_def credit_window_new_def)
  show ?thesis
    using producer_frame_reaches_renderer [OF spawned_inv exact_vec_ok up _ _ demo_frame_wf,
        where takes = "\<lambda>_. True" and H = crc32_hasher and s = "hd (b_sections demo_frame)"
          and rs = demo_records and S = demo_sizes]
      demo_records_ok size len
    unfolding fi new demo_records_issued by (auto simp: b saturating_add_def)
qed

section \<open>A lost context\<close>

text \<open>
  C35. A lost graphics context makes every resource id the producer holds unusable at
  once. After the session thread has handled the loss, a packet stamped with the old
  epoch is turned away, and so is, until the host declares the new resources ready, any
  packet that names resources; in both cases the session is as it was and nothing
  reaches the renderer.
\<close>

theorem lost_context_invalidates_frames:
  assumes "run_inv H (sp, ep)" and "vec_model_ok M" and "ep \<noteq> - 1" and "validate H bytes = Ok w"
    and "wf_resource_epoch w = ep \<or> wf_references_resources w = Some True"
  shows "\<exists>sp' out. context_lost (sp, ep) = (sp', ep + 1) \<and> run_inv H (sp', ep + 1) \<and>
     submit_frame H M S takes sp' bytes = Some (sp', out) \<and> io_decision out \<noteq> Accepted"
proof -
  obtain sp' where lost: "context_lost (sp, ep) = (sp', ep + 1)"
    by (simp add: context_lost_def Let_def)
  have inv: "run_inv H (sp', ep + 1)"
    using session_step_inv [OF lost_step [OF assms(3), of H M demo_sizes sp] assms(2,1)] lost by simp
  have grows: "\<not> ep + 1 < ep" "ep + 1 \<noteq> ep"
    using next_ticket [OF assms(3)] by auto
  have "fi_resource_epoch (sp_ingress sp) = ep"
    using assms(1) by (simp add: run_inv_def)
  then have "fi_resource_epoch (sp_ingress sp') = ep + 1" and "\<not> fi_resources_ready (sp_ingress sp')"
    using lost grows by (auto simp: context_lost_def set_resource_epoch_def Let_def)
  then have illegal: "\<not> legal H (sp_ingress sp') bytes w'" for w'
    using assms(4,5) grows(2) by (auto simp: legal_def)
  have "session_inv H sp'" using inv by (simp add: run_inv_def)
  then show ?thesis
    using assms(2)
  proof (cases rule: submit_frame_cases [where S = S and takes = takes and bytes = bytes])
    case (away out)
    then show ?thesis using lost inv by blast
  qed (use illegal in blast)+
qed

theorem lost_context_invalidates_frames_witness:
  "\<exists>sp' out. context_lost (spawn_submit_path 0, 0) = (sp', 1) \<and>
     submit_frame crc32_hasher exact_vec demo_sizes (\<lambda>_. True) sp' demo_bytes = Some (sp', out) \<and>
     io_decision out \<noteq> Accepted"
proof -
  obtain w where "legal crc32_hasher demo_ingress demo_bytes w" using demo_legal by blast
  then have w: "validate crc32_hasher demo_bytes = Ok w" "wf_resource_epoch w = 0"
    by (simp_all add: legal_def frame_ingress_new_def)
  show ?thesis
    using lost_context_invalidates_frames [OF run_inv_initial exact_vec_ok _ w(1) disjI1 [OF w(2)],
        of 0 demo_sizes "\<lambda>_. True"] by auto
qed

end
